(* ===== verification/Prelude.thy ===== *)
theory Prelude
  imports Main "HOL-Library.Word" "HOL-Library.Sublist"
begin

text \<open>
  Shared vocabulary of the development.

  \<^item> Machine integers: \<open>std::uint64_t\<close> and its narrower relatives are words of their width;
    \<open>std::size_t\<close> values that are container sizes are \<open>nat\<close>, since a container never reaches
    the size at which they would wrap.  A \<open>std::string\<close> is a list of \<open>char\<close> (its bytes), a
    \<open>std::byte\<close> is an \<open>8 word\<close>.
  \<^item> \<open>std::ranges::find\<close> followed by a write through the iterator or by \<open>erase\<close> is
    \<open>update_first\<close> and \<open>erase_first\<close>; the read alone is HOL's \<open>find\<close>.
  \<^item> A component is a state and a step function that returns the new state and a result.
    \<open>op_machine\<close> and \<open>atomic_machine\<close> are the contracts such a component can offer: an
    invariant every operation keeps, and operations that leave the state alone when they
    report an error.
  \<^item> \<open>incremental\<close> is the contract of a stream decoder that is fed in chunks.
\<close>

type_synonym byte = "8 word"
type_synonym u16 = "16 word"
type_synonym u32 = "32 word"
type_synonym u64 = "64 word"

unbundle bit_operations_syntax

text \<open>
  A byte read as a character of a \<open>std::string\<close> and back, and \<open>std::to_string\<close> of a number.
\<close>

definition byte_char :: "byte \<Rightarrow> char" where
  "byte_char b = char_of (unat b)"

definition char_byte :: "char \<Rightarrow> byte" where
  "char_byte c = of_nat (of_char c)"

lemma byte_char_inverse [simp]: "byte_char (char_byte c) = c"
  by (simp add: byte_char_def char_byte_def unat_of_nat)

lemma char_byte_inverse [simp]: "char_byte (byte_char b) = b"
proof -
  have "unat b < 256" using unsigned_less [of b] by simp
  then show ?thesis by (simp add: byte_char_def char_byte_def)
qed

lemma byte_char_eq_iff [simp]: "(byte_char a = byte_char b) = (a = b)"
  by (metis char_byte_inverse)

fun decimal :: "nat \<Rightarrow> string" where
  "decimal n =
     (if n < 10 then [char_of (48 + n)] else decimal (n div 10) @ [char_of (48 + n mod 10)])"

declare decimal.simps [simp del]

text \<open>White space, as \<open>std::isspace\<close> of the C locale and Qt's regular expressions have it.\<close>

definition isspace :: "char \<Rightarrow> bool" where
  "isspace c \<longleftrightarrow> (let n = of_char c :: nat in n = 32 \<or> 9 \<le> n \<and> n \<le> 13)"

text \<open>Decimal digits, as \<open>std::from_chars\<close> reads them.\<close>

definition is_digit :: "char \<Rightarrow> bool" where
  "is_digit c \<longleftrightarrow> 48 \<le> (of_char c :: nat) \<and> (of_char c :: nat) \<le> 57"

definition digits_value :: "string \<Rightarrow> nat" where
  "digits_value ds = foldl (\<lambda>n c. 10 * n + (of_char c - 48)) 0 ds"

lemma decimal_digit: "n < 10 \<Longrightarrow> is_digit (char_of (48 + n)) \<and> of_char (char_of (48 + n :: nat) :: char) = 48 + n"
  by (simp add: is_digit_def)

lemma decimal_digits: "list_all is_digit (decimal n)"
  by (induction n rule: decimal.induct)
    (subst decimal.simps, auto simp: decimal_digit list_all_append)

lemma decimal_nonempty: "decimal n \<noteq> []"
  by (subst decimal.simps) simp

lemma digits_value_decimal: "digits_value (decimal n) = n"
proof (induction n rule: decimal.induct)
  case (1 n)
  show ?case
    using 1 by (subst decimal.simps) (auto simp: digits_value_def decimal_digit)
qed

lemma decimal_length: "n < 10 ^ Suc k \<Longrightarrow> length (decimal n) \<le> Suc k"
proof (induction k arbitrary: n)
  case (Suc k)
  then have "n div 10 < 10 ^ Suc k" by (simp add: less_mult_imp_div_less)
  from Suc.IH [OF this] show ?case by (subst decimal.simps) simp
qed (subst decimal.simps, simp)

section \<open>Searching, updating and erasing the first match\<close>

fun update_first :: "('a \<Rightarrow> bool) \<Rightarrow> ('a \<Rightarrow> 'a) \<Rightarrow> 'a list \<Rightarrow> 'a list" where
  "update_first P f [] = []"
| "update_first P f (x # xs) = (if P x then f x # xs else x # update_first P f xs)"

fun erase_first :: "('a \<Rightarrow> bool) \<Rightarrow> 'a list \<Rightarrow> 'a list" where
  "erase_first P [] = []"
| "erase_first P (x # xs) = (if P x then xs else x # erase_first P xs)"

lemma length_update_first [simp]: "length (update_first P f xs) = length xs"
  by (induction xs) auto

lemma update_first_absent: "find P xs = None \<Longrightarrow> update_first P f xs = xs"
  by (induction xs) (auto split: if_splits)

lemma erase_first_absent: "find P xs = None \<Longrightarrow> erase_first P xs = xs"
  by (induction xs) (auto split: if_splits)

lemma length_erase_first:
  "length (erase_first P xs) = length xs - (if find P xs = None then 0 else 1)"
  by (induction xs) (auto simp: Suc_diff_le split: if_splits, metis One_nat_def Suc_pred
    find.simps(1) length_greater_0_conv option.distinct(1))

lemma find_Some_in: "find P xs = Some x \<Longrightarrow> x \<in> set xs \<and> P x"
  by (induction xs) (auto split: if_splits)

lemma find_isNone_iff: "(find P xs = None) = (\<forall>x \<in> set xs. \<not> P x)"
  by (auto simp: find_None_iff)

lemma set_erase_first: "set (erase_first P xs) \<subseteq> set xs"
  by (induction xs) auto

lemma erase_first_subseq: "subseq (erase_first P xs) xs"
  by (induction xs) auto

lemma set_update_first: "set (update_first P f xs) \<subseteq> set xs \<union> f ` {x \<in> set xs. P x}"
  by (induction xs) auto

lemma update_first_all:
  assumes "\<forall>x \<in> set xs. Q x" and "\<And>x. x \<in> set xs \<Longrightarrow> P x \<Longrightarrow> Q x \<Longrightarrow> Q (f x)"
  shows "\<forall>x \<in> set (update_first P f xs). Q x"
  using assms by (induction xs) auto

lemma erase_first_all: "\<forall>x \<in> set xs. Q x \<Longrightarrow> \<forall>x \<in> set (erase_first P xs). Q x"
  using set_erase_first by fast

lemma subseq_in: "subseq xs ys \<Longrightarrow> x \<in> set xs \<Longrightarrow> x \<in> set ys"
  by (induction rule: list_emb.induct) auto

lemma sorted_wrt_subseq: "subseq xs ys \<Longrightarrow> sorted_wrt P ys \<Longrightarrow> sorted_wrt P xs"
  by (induction rule: list_emb.induct) (auto dest: subseq_in)

text \<open>A write that keeps the key keeps the keys of the container.\<close>

lemma map_key_update_first:
  assumes "\<And>x. P x \<Longrightarrow> key (f x) = key x"
  shows "map key (update_first P f xs) = map key xs"
  using assms by (induction xs) auto

lemma distinct_erase_first:
  "distinct (map key xs) \<Longrightarrow> distinct (map key (erase_first P xs))"
proof (induction xs)
  case (Cons x xs)
  then show ?case using set_erase_first by fastforce
qed simp

lemma find_update_first_same:
  assumes "\<And>x. key x = k \<Longrightarrow> key (f x) = k"
  shows "find (\<lambda>x. key x = k) (update_first (\<lambda>x. key x = k) f xs)
    = map_option f (find (\<lambda>x. key x = k) xs)"
  using assms by (induction xs) auto

lemma find_update_first_other:
  assumes "\<And>x. key x = k \<Longrightarrow> key (f x) = k" and "k' \<noteq> k"
  shows "find (\<lambda>x. key x = k') (update_first (\<lambda>x. key x = k) f xs)
    = find (\<lambda>x. key x = k') xs"
  using assms by (induction xs) auto

lemma find_append_keyed:
  "find P (xs @ ys) = (case find P xs of None \<Rightarrow> find P ys | Some x \<Rightarrow> Some x)"
  by (induction xs) auto

lemma find_erase_first_same:
  assumes "distinct (map key xs)"
  shows "find (\<lambda>x. key x = k) (erase_first (\<lambda>x. key x = k) xs) = None"
  using assms
proof (induction xs)
  case (Cons x xs)
  then show ?case by (cases "key x = k") (auto simp: find_None_iff image_iff)
qed simp

lemma find_erase_first_other:
  assumes "distinct (map key xs)" and "find P xs = Some r" and "key r \<noteq> k'"
    and "find (\<lambda>x. key x = k') xs = Some s"
  shows "find (\<lambda>x. key x = k') (erase_first P xs) = Some s"
  using assms
proof (induction xs)
  case (Cons x xs)
  then show ?case by (cases "P x") (auto split: if_splits)
qed simp

lemma find_by_key:
  assumes "distinct (map key xs)" and "x \<in> set xs"
  shows "find (\<lambda>y. key y = key x) xs = Some x"
  using assms by (induction xs) auto

lemma count_update_first:
  assumes "find P xs = Some x"
  shows "length (filter Q (update_first P f xs)) + (if Q x then 1 else 0)
    = length (filter Q xs) + (if Q (f x) then 1 else 0)"
  using assms by (induction xs) (auto split: if_splits)

text \<open>Two lists with the same keys, updated side by side.\<close>

lemma list_all2_update_first:
  assumes "list_all2 R xs ys" "\<And>x y. R x y \<Longrightarrow> P x = Q y"
    and "\<And>x y. R x y \<Longrightarrow> P x \<Longrightarrow> x \<in> set xs \<Longrightarrow> y \<in> set ys \<Longrightarrow> find P xs = Some x
      \<Longrightarrow> find Q ys = Some y \<Longrightarrow> R (f x) (g y)"
  shows "list_all2 R (update_first P f xs) (update_first Q g ys)"
  using assms(1,3)
proof (induction xs ys rule: list_all2_induct)
  case (Cons x xs y ys)
  show ?case
  proof (cases "P x")
    case True
    then show ?thesis using Cons.hyps Cons.prems [of x y] assms(2) [OF Cons.hyps(1)] by simp
  next
    case False
    then have "list_all2 R (update_first P f xs) (update_first Q g ys)"
      using Cons.prems assms(2) [OF Cons.hyps(1)] by (intro Cons.IH) auto
    then show ?thesis using False Cons.hyps assms(2) [OF Cons.hyps(1)] by simp
  qed
qed simp

lemma list_all2_update_left:
  assumes "list_all2 R xs ys" "\<And>x y. R x y \<Longrightarrow> P x \<Longrightarrow> find P xs = Some x \<Longrightarrow> R (f x) y"
  shows "list_all2 R (update_first P f xs) ys"
  using assms
proof (induction xs ys rule: list_all2_induct)
  case (Cons x xs y ys)
  show ?case
  proof (cases "P x")
    case True
    then show ?thesis using Cons.hyps Cons.prems [of x y] by simp
  next
    case False
    then show ?thesis using Cons by simp
  qed
qed simp

lemma list_all2_update_right:
  assumes "list_all2 R xs ys" "\<And>x y. R x y \<Longrightarrow> Q y \<Longrightarrow> R x (g y)"
  shows "list_all2 R xs (update_first Q g ys)"
  using assms by (induction xs ys rule: list_all2_induct) auto

lemma list_all2_find:
  assumes "list_all2 R xs ys" "\<And>x y. R x y \<Longrightarrow> P x = Q y" "find P xs = Some x"
  obtains y where "find Q ys = Some y" "R x y"
  using assms by (induction xs ys arbitrary: thesis rule: list_all2_induct) (auto split: if_splits)

lemma sum_update_first:
  assumes "find P xs = Some x"
  shows "sum_list (map f (update_first P g xs)) + f x = sum_list (map f xs) + (f (g x) :: nat)"
  using assms by (induction xs) (auto split: if_splits)

lemma sum_erase_first:
  assumes "find P xs = Some x"
  shows "sum_list (map f (erase_first P xs)) + f x = (sum_list (map f xs) :: nat)"
  using assms by (induction xs) (auto split: if_splits)

lemma sum_ge: "x \<in> set xs \<Longrightarrow> f x \<le> (sum_list (map f xs) :: nat)"
  by (simp add: member_le_sum_list)

lemma list_all2_erase:
  assumes "list_all2 R xs ys" "\<And>x y. R x y \<Longrightarrow> P x = Q y"
  shows "list_all2 R (erase_first P xs) (erase_first Q ys)"
  using assms by (induction xs ys rule: list_all2_induct) auto

lemma erase_by_key:
  assumes "distinct (map key xs)" "find P xs = Some x"
  shows "erase_first P xs = erase_first (\<lambda>y. key y = key x) xs"
  using assms
proof (induction xs)
  case (Cons y ys)
  show ?case
  proof (cases "P y")
    case False
    then have "find P ys = Some x" using Cons.prems(2) by simp
    moreover from this have "key y \<noteq> key x" using Cons.prems(1) find_Some_in by fastforce
    ultimately show ?thesis using Cons False by simp
  qed (use Cons.prems in simp)
qed simp

lemma filter_erase_first: "(\<And>x. P x \<Longrightarrow> \<not> Q x) \<Longrightarrow> filter Q (erase_first P xs) = filter Q xs"
  by (induction xs) auto

lemma map_filter_update_first:
  assumes "find P xs = Some b" "Q b = Q b'" "f b = f b'"
  shows "map f (filter Q (update_first P (\<lambda>_. b') xs)) = map f (filter Q xs)"
  using assms by (induction xs) (auto split: if_splits)

lemma map_filter_update_drop:
  assumes "find (\<lambda>x. f x = k) xs = Some b" "\<not> Q b'" "distinct (map f xs)"
  shows "map f (filter Q (update_first (\<lambda>x. f x = k) (\<lambda>_. b') xs)) = filter (\<lambda>j. j \<noteq> k) (map f (filter Q xs))"
  using assms
proof (induction xs)
  case (Cons x xs)
  show ?case
  proof (cases "f x = k")
    case True
    then have "\<forall>y \<in> set xs. f y \<noteq> k" using Cons.prems(3) by (auto simp: image_iff)
    then have "filter (\<lambda>j. j \<noteq> k) (map f (filter Q xs)) = map f (filter Q xs)"
      by (auto simp: filter_id_conv)
    then show ?thesis using True Cons.prems(2) by simp
  qed (use Cons in simp)
qed simp

section \<open>Components as step functions\<close>

text \<open>The state after a sequence of operations, and the operations a component accepted.\<close>

fun run_ops :: "('s \<Rightarrow> 'o \<Rightarrow> 's \<times> 'r) \<Rightarrow> 's \<Rightarrow> 'o list \<Rightarrow> 's" where
  "run_ops step s [] = s"
| "run_ops step s (x # xs) = run_ops step (fst (step s x)) xs"

fun accepted_ops :: "('s \<Rightarrow> 'o \<Rightarrow> 's \<times> 'r) \<Rightarrow> ('r \<Rightarrow> bool) \<Rightarrow> 's \<Rightarrow> 'o list \<Rightarrow> 'o list" where
  "accepted_ops step failed s [] = []"
| "accepted_ops step failed s (x # xs) =
     (if failed (snd (step s x)) then accepted_ops step failed (fst (step s x)) xs
      else x # accepted_ops step failed (fst (step s x)) xs)"

text \<open>The replies to a sequence of operations, each with its operation.\<close>

fun replies :: "('s \<Rightarrow> 'o \<Rightarrow> 's \<times> 'r) \<Rightarrow> 's \<Rightarrow> 'o list \<Rightarrow> ('o \<times> 'r) list" where
  "replies step s [] = []"
| "replies step s (x # xs) = (x, snd (step s x)) # replies step (fst (step s x)) xs"

lemma run_ops_append: "run_ops step s (xs @ ys) = run_ops step (run_ops step s xs) ys"
  by (induction xs arbitrary: s) auto

text \<open>
  The contract of a component whose operations keep an invariant as long as the caller keeps to
  \<open>ok\<close>, and of one whose operations always keep it.
\<close>

locale guarded_machine =
  fixes step :: "'s \<Rightarrow> 'o \<Rightarrow> 's \<times> 'r"
    and ok :: "'o \<Rightarrow> bool"
    and inv :: "'s \<Rightarrow> bool"
  assumes guarded_step: "inv s \<Longrightarrow> ok x \<Longrightarrow> inv (fst (step s x))"
begin

lemma guarded_run: "inv s \<Longrightarrow> list_all ok xs \<Longrightarrow> inv (run_ops step s xs)"
  by (induction xs arbitrary: s) (auto intro: guarded_step)

end

locale op_machine =
  fixes step :: "'s \<Rightarrow> 'o \<Rightarrow> 's \<times> 'r"
    and inv :: "'s \<Rightarrow> bool"
  assumes inv_step: "inv s \<Longrightarrow> inv (fst (step s x))"

sublocale op_machine \<subseteq> guarded: guarded_machine step "\<lambda>_. True" inv
  by unfold_locales (rule inv_step)

context op_machine
begin

lemma inv_run: "inv s \<Longrightarrow> inv (run_ops step s xs)"
  by (rule guarded.guarded_run) (simp_all add: list_all_iff)

end

text \<open>
  The contract of a component whose operations change nothing when they fail: the rejected
  operations of any history can be left out.
\<close>

locale atomic_machine = op_machine step inv
  for step :: "'s \<Rightarrow> 'o \<Rightarrow> 's \<times> 'r" and inv :: "'s \<Rightarrow> bool" +
  fixes failed :: "'r \<Rightarrow> bool"
  assumes failed_unchanged: "inv s \<Longrightarrow> failed (snd (step s x)) \<Longrightarrow> fst (step s x) = s"
begin

lemma run_accepted: "inv s \<Longrightarrow> run_ops step s (accepted_ops step failed s xs) = run_ops step s xs"
  by (induction xs arbitrary: s) (auto simp: failed_unchanged intro: inv_step)

end

section \<open>Decoders fed in chunks\<close>

fun feed_all :: "('s \<Rightarrow> 'i list \<Rightarrow> 's \<times> 'e list) \<Rightarrow> 's \<Rightarrow> 'i list list \<Rightarrow> 's \<times> 'e list" where
  "feed_all feed s [] = (s, [])"
| "feed_all feed s (c # cs) =
     (case feed s c of (s', es) \<Rightarrow> (case feed_all feed s' cs of (s'', es') \<Rightarrow> (s'', es @ es')))"

text \<open>
  The contract of a decoder whose observation of a stream does not depend on how the stream is
  cut: feeding two pieces observes what feeding their concatenation observes.
\<close>

locale incremental =
  fixes feed :: "'s \<Rightarrow> 'i list \<Rightarrow> 's \<times> 'e list"
  assumes feed_nil: "feed s [] = (s, [])"
    and feed_append: "feed s (a @ b) =
      (case feed s a of (s', es) \<Rightarrow> (case feed s' b of (s'', es') \<Rightarrow> (s'', es @ es')))"
begin

lemma feed_all_concat: "feed_all feed s cs = feed s (concat cs)"
  by (induction cs arbitrary: s) (auto simp: feed_nil feed_append split: prod.splits)

lemma chunking_irrelevant: "concat cs = concat ds \<Longrightarrow> feed_all feed s cs = feed_all feed s ds"
  by (simp add: feed_all_concat)

end

end
