(* ===== verification/Workspace_Layout.thy ===== *)
theory Workspace_Layout
  imports Complex_Main Prelude "HOL-Library.Multiset"
begin

text \<open>
  The layout of the panes of a terminal workspace: \<open>src/domain/workbench/WorkspaceState\<close>.  A layout is
  a vector of nodes that refer to each other by identifier, and a vector of restore intents that
  the leaves refer to; \<open>validTerminalWorkspaceLayout\<close> walks it with arrays of fixed size.  A pointer
  to a node or an intent is the node or intent that was found: the pointers compared are all results
  of a search by identifier, so equal records are equal pointers.  A \<open>double\<close> is its exact rational
  value, an infinity or not a number; the code compares and stores it only.
\<close>

section \<open>Data\<close>

datatype float64 = Finite rat | Infinity bool | NaN

definition isfinite :: "float64 \<Rightarrow> bool" where
  "isfinite x = (case x of Finite _ \<Rightarrow> True | _ \<Rightarrow> False)"

fun float_less :: "float64 \<Rightarrow> float64 \<Rightarrow> bool" where
  "float_less (Finite x) (Finite y) = (x < y)"
| "float_less (Infinity negative) (Finite _) = negative"
| "float_less (Finite _) (Infinity negative) = (\<not> negative)"
| "float_less (Infinity a) (Infinity b) = (a \<and> \<not> b)"
| "float_less _ _ = False"

datatype TerminalRestoreKind = LocalKind | SshProfileKind | TransientKind

datatype TerminalLayoutNodeKind = Leaf | Split

datatype TerminalSplitOrientation = Horizontal | Vertical

record TerminalRestoreIntent =
  ti_id :: string
  ti_profileId :: string
  ti_title :: string
  ti_kind :: TerminalRestoreKind
  ti_manualTitle :: string

record TerminalLayoutNode =
  tn_id :: string
  tn_restoreIntentId :: string
  tn_firstChildId :: string
  tn_secondChildId :: string
  tn_kind :: TerminalLayoutNodeKind
  tn_orientation :: TerminalSplitOrientation
  tn_ratio :: float64

record TerminalWorkspaceLayout =
  tl_id :: string
  tl_title :: string
  tl_rootNodeId :: string
  tl_activePaneId :: string
  tl_nodes :: "TerminalLayoutNode list"
  tl_restoreIntents :: "TerminalRestoreIntent list"
  tl_windowId :: string
  tl_returnWorkspaceId :: string
  tl_manualTitle :: string

definition maximumTerminalPanesPerWorkspace :: nat where "maximumTerminalPanesPerWorkspace = 8"

definition maximumTerminalNodesPerWorkspace :: nat where "maximumTerminalNodesPerWorkspace = 15"

text \<open>The doubles nearest to 0.2, 0.8 and 0.5.\<close>

definition minimumTerminalSplitRatio :: float64 where
  "minimumTerminalSplitRatio = Finite (3602879701896397 / 2 ^ 54)"

definition maximumTerminalSplitRatio :: float64 where
  "maximumTerminalSplitRatio = Finite (3602879701896397 / 2 ^ 52)"

definition ratio_half :: float64 where "ratio_half = Finite (1 / 2)"

section \<open>Searching and checking\<close>

definition validBoundedText :: "string \<Rightarrow> nat \<Rightarrow> bool \<Rightarrow> bool" where
  "validBoundedText value maximumLength allowEmpty \<longleftrightarrow>
     (allowEmpty \<or> value \<noteq> []) \<and> length value \<le> maximumLength \<and> CHR 0x00 \<notin> set value"

abbreviation node_in :: "TerminalLayoutNode list \<Rightarrow> string \<Rightarrow> TerminalLayoutNode option" where
  "node_in nodes i \<equiv> find (\<lambda>n. tn_id n = i) nodes"

definition findTerminalNode :: "TerminalWorkspaceLayout \<Rightarrow> string \<Rightarrow> TerminalLayoutNode option" where
  "findTerminalNode layout i = node_in (tl_nodes layout) i"

definition findRestoreIntent :: "TerminalWorkspaceLayout \<Rightarrow> string \<Rightarrow> TerminalRestoreIntent option" where
  "findRestoreIntent layout i = find (\<lambda>t. ti_id t = i) (tl_restoreIntents layout)"

definition validRestoreIntent :: "TerminalRestoreIntent \<Rightarrow> bool" where
  "validRestoreIntent intent =
     (if \<not> validBoundedText (ti_id intent) 128 False \<or> \<not> validBoundedText (ti_title intent) 256 True
         \<or> \<not> validBoundedText (ti_profileId intent) 256 True
         \<or> \<not> validBoundedText (ti_manualTitle intent) 1024 True
      then False
      else if ti_kind intent = SshProfileKind then ti_profileId intent \<noteq> []
      else ti_kind intent = LocalKind \<or> ti_profileId intent = [])"

fun unique_by :: "('a \<Rightarrow> 'k) \<Rightarrow> 'a list \<Rightarrow> bool" where
  "unique_by key [] = True"
| "unique_by key (x # xs) = (if find (\<lambda>y. key y = key x) xs \<noteq> None then False else unique_by key xs)"

definition uniqueTerminalIds :: "TerminalWorkspaceLayout \<Rightarrow> bool" where
  "uniqueTerminalIds layout \<longleftrightarrow> unique_by tn_id (tl_nodes layout) \<and> unique_by ti_id (tl_restoreIntents layout)"

definition is_parent :: "string \<Rightarrow> TerminalLayoutNode \<Rightarrow> bool" where
  "is_parent childId node \<longleftrightarrow> tn_kind node = Split \<and> (tn_firstChildId node = childId \<or> tn_secondChildId node = childId)"

definition findParentNode :: "TerminalWorkspaceLayout \<Rightarrow> string \<Rightarrow> TerminalLayoutNode option" where
  "findParentNode layout childId = find (is_parent childId) (tl_nodes layout)"

text \<open>
  The loop of \<open>validTerminalWorkspaceLayout\<close>.  Writing past the end of the array \<open>visited\<close> or
  \<open>referencedIntents\<close> is \<open>OutOfBounds\<close>, returning \<open>false\<close> from the loop is \<open>Rejected\<close>, and leaving the
  loop is \<open>Walked\<close> with the two counts.  The array \<open>visited\<close> bounds the rounds.
\<close>

datatype WalkResult = OutOfBounds | Rejected | Walked nat nat

definition ratio_ok :: "float64 \<Rightarrow> bool" where
  "ratio_ok r \<longleftrightarrow> isfinite r \<and> \<not> float_less r minimumTerminalSplitRatio \<and> \<not> float_less maximumTerminalSplitRatio r"

function layout_walk ::
  "TerminalWorkspaceLayout \<Rightarrow> TerminalLayoutNode list \<Rightarrow> TerminalLayoutNode list \<Rightarrow> TerminalRestoreIntent list
    \<Rightarrow> WalkResult" where
  "layout_walk layout [] visited referenced = Walked (length visited) (length referenced)"
| "layout_walk layout (node # pending) visited referenced =
     (if node \<in> set visited then Rejected
      else if length visited \<ge> maximumTerminalNodesPerWorkspace then OutOfBounds
      else if \<not> validBoundedText (tn_id node) 128 False then Rejected
      else if tn_kind node = Leaf then
        (if tn_firstChildId node \<noteq> [] \<or> tn_secondChildId node \<noteq> []
            \<or> \<not> validBoundedText (tn_restoreIntentId node) 128 False then Rejected
         else (case findRestoreIntent layout (tn_restoreIntentId node) of
                 None \<Rightarrow> Rejected
               | Some intent \<Rightarrow>
                   (if intent \<in> set referenced then Rejected
                    else if length referenced \<ge> maximumTerminalPanesPerWorkspace then OutOfBounds
                    else layout_walk layout pending (visited @ [node]) (referenced @ [intent]))))
      else if tn_restoreIntentId node \<noteq> [] \<or> tn_firstChildId node = tn_secondChildId node
              \<or> \<not> ratio_ok (tn_ratio node) then Rejected
      else (case (findTerminalNode layout (tn_firstChildId node), findTerminalNode layout (tn_secondChildId node)) of
              (Some first, Some second) \<Rightarrow>
                (if length pending + 2 > maximumTerminalNodesPerWorkspace then Rejected
                 else layout_walk layout (first # second # pending) (visited @ [node]) referenced)
            | _ \<Rightarrow> Rejected))"
  by pat_completeness auto
termination
  by (relation "measure (\<lambda>(_, _, visited, _). maximumTerminalNodesPerWorkspace - length visited)") auto

definition validTerminalWorkspaceLayout :: "TerminalWorkspaceLayout \<Rightarrow> bool" where
  "validTerminalWorkspaceLayout layout =
     (if \<not> validBoundedText (tl_id layout) 128 False \<or> \<not> validBoundedText (tl_title layout) 256 True
         \<or> \<not> validBoundedText (tl_manualTitle layout) 1024 True \<or> \<not> validBoundedText (tl_windowId layout) 128 False
         \<or> \<not> validBoundedText (tl_returnWorkspaceId layout) 128 True
         \<or> \<not> validBoundedText (tl_rootNodeId layout) 128 False
         \<or> \<not> validBoundedText (tl_activePaneId layout) 128 False \<or> tl_nodes layout = []
         \<or> length (tl_nodes layout) > maximumTerminalNodesPerWorkspace \<or> tl_restoreIntents layout = []
         \<or> length (tl_restoreIntents layout) > maximumTerminalPanesPerWorkspace \<or> \<not> uniqueTerminalIds layout
         \<or> \<not> list_all validRestoreIntent (tl_restoreIntents layout)
      then False
      else (case findTerminalNode layout (tl_rootNodeId layout) of
              None \<Rightarrow> False
            | Some start \<Rightarrow>
                (case layout_walk layout [start] [] [] of
                   Walked visitedCount referencedCount \<Rightarrow>
                     (case findTerminalNode layout (tl_activePaneId layout) of
                        None \<Rightarrow> False
                      | Some active \<Rightarrow> visitedCount = length (tl_nodes layout)
                          \<and> referencedCount = length (tl_restoreIntents layout) \<and> tn_kind active = Leaf)
                 | _ \<Rightarrow> False)))"

section \<open>Operations\<close>

definition leaf_node :: "string \<Rightarrow> string \<Rightarrow> TerminalLayoutNode" where
  "leaf_node i intent = \<lparr>tn_id = i, tn_restoreIntentId = intent, tn_firstChildId = [], tn_secondChildId = [],
     tn_kind = Leaf, tn_orientation = Horizontal, tn_ratio = ratio_half\<rparr>"

definition split_node ::
  "string \<Rightarrow> string \<Rightarrow> string \<Rightarrow> TerminalSplitOrientation \<Rightarrow> float64 \<Rightarrow> TerminalLayoutNode" where
  "split_node i first second orientation ratio = \<lparr>tn_id = i, tn_restoreIntentId = [], tn_firstChildId = first,
     tn_secondChildId = second, tn_kind = Split, tn_orientation = orientation, tn_ratio = ratio\<rparr>"

definition makeSinglePaneTerminalWorkspace ::
  "string \<Rightarrow> string \<Rightarrow> TerminalRestoreIntent \<Rightarrow> TerminalWorkspaceLayout" where
  "makeSinglePaneTerminalWorkspace workspaceId paneId intent =
     \<lparr>tl_id = workspaceId, tl_title = ti_title intent, tl_rootNodeId = paneId, tl_activePaneId = paneId,
      tl_nodes = [leaf_node paneId (ti_id intent)], tl_restoreIntents = [intent],
      tl_windowId = ''main'', tl_returnWorkspaceId = [], tl_manualTitle = ti_manualTitle intent\<rparr>"

text \<open>Writing through the pointer to the node found for an identifier.\<close>

definition update_node ::
  "string \<Rightarrow> (TerminalLayoutNode \<Rightarrow> TerminalLayoutNode) \<Rightarrow> TerminalWorkspaceLayout \<Rightarrow> TerminalWorkspaceLayout" where
  "update_node i f layout = layout\<lparr>tl_nodes := update_first (\<lambda>n. tn_id n = i) f (tl_nodes layout)\<rparr>"

text \<open>The child \<open>old\<close> of \<open>parent\<close>, or the root when there is no parent, becomes \<open>new\<close>.\<close>

definition set_child ::
  "TerminalLayoutNode option \<Rightarrow> string \<Rightarrow> string \<Rightarrow> TerminalWorkspaceLayout \<Rightarrow> TerminalWorkspaceLayout" where
  "set_child parent old new layout =
     (case parent of
        None \<Rightarrow> layout\<lparr>tl_rootNodeId := new\<rparr>
      | Some p \<Rightarrow> update_node (tn_id p)
          (\<lambda>n. if tn_firstChildId p = old then n\<lparr>tn_firstChildId := new\<rparr> else n\<lparr>tn_secondChildId := new\<rparr>) layout)"

definition commit :: "TerminalWorkspaceLayout \<Rightarrow> TerminalWorkspaceLayout \<Rightarrow> TerminalWorkspaceLayout \<times> bool" where
  "commit layout candidate =
     (if \<not> validTerminalWorkspaceLayout candidate then (layout, False) else (candidate, True))"

definition splitTerminalPane ::
  "TerminalWorkspaceLayout \<Rightarrow> string \<Rightarrow> string \<Rightarrow> string \<Rightarrow> TerminalRestoreIntent \<Rightarrow> TerminalSplitOrientation
    \<Rightarrow> float64 \<Rightarrow> bool \<Rightarrow> TerminalWorkspaceLayout \<times> bool" where
  "splitTerminalPane layout paneId splitNodeId newPaneId newIntent orientation ratio placeAfter =
     (if \<not> validTerminalWorkspaceLayout layout
         \<or> length (tl_restoreIntents layout) \<ge> maximumTerminalPanesPerWorkspace
         \<or> \<not> validBoundedText splitNodeId 128 False \<or> \<not> validBoundedText newPaneId 128 False
         \<or> \<not> validRestoreIntent newIntent \<or> \<not> ratio_ok ratio
         \<or> findTerminalNode layout splitNodeId \<noteq> None \<or> findTerminalNode layout newPaneId \<noteq> None
         \<or> findRestoreIntent layout (ti_id newIntent) \<noteq> None
      then (layout, False)
      else (case findTerminalNode layout paneId of
              None \<Rightarrow> (layout, False)
            | Some pane \<Rightarrow>
                (if tn_kind pane \<noteq> Leaf then (layout, False)
                 else (let parent = findParentNode layout paneId;
                           added = layout\<lparr>tl_nodes := tl_nodes layout @ [leaf_node newPaneId (ti_id newIntent),
                               split_node splitNodeId (if placeAfter then paneId else newPaneId)
                                 (if placeAfter then newPaneId else paneId) orientation ratio],
                             tl_restoreIntents := tl_restoreIntents layout @ [newIntent]\<rparr>;
                           candidate = (set_child parent paneId splitNodeId added)\<lparr>tl_activePaneId := newPaneId\<rparr>
                       in commit layout candidate))))"

text \<open>The loops that go down the tree; \<open>None\<close> is a loop that does not end or leaves its array.\<close>

partial_function (option) first_leaf ::
  "TerminalWorkspaceLayout \<Rightarrow> TerminalLayoutNode option \<Rightarrow> TerminalLayoutNode option option" where
  "first_leaf layout nextActive =
     (case nextActive of
        None \<Rightarrow> Some None
      | Some n \<Rightarrow> (if tn_kind n = Split then first_leaf layout (findTerminalNode layout (tn_firstChildId n))
                  else Some (Some n)))"

definition sibling :: "TerminalLayoutNode \<Rightarrow> string \<Rightarrow> string" where
  "sibling parent paneId = (if tn_firstChildId parent = paneId then tn_secondChildId parent else tn_firstChildId parent)"

definition closeTerminalPane ::
  "TerminalWorkspaceLayout \<Rightarrow> string \<Rightarrow> (TerminalWorkspaceLayout \<times> bool) option" where
  "closeTerminalPane layout paneId =
     (if \<not> validTerminalWorkspaceLayout layout \<or> length (tl_restoreIntents layout) \<le> 1 then Some (layout, False)
      else (case (findTerminalNode layout paneId, findParentNode layout paneId) of
              (Some pane, Some parent) \<Rightarrow>
                (if tn_kind pane \<noteq> Leaf then Some (layout, False)
                 else (let parentId = tn_id parent;
                           siblingId = sibling parent paneId;
                           moved = set_child (findParentNode layout parentId) parentId siblingId layout;
                           candidate = moved\<lparr>tl_nodes := filter (\<lambda>n. \<not> (tn_id n = paneId \<or> tn_id n = parentId)) (tl_nodes moved),
                             tl_restoreIntents := filter (\<lambda>t. ti_id t \<noteq> tn_restoreIntentId pane) (tl_restoreIntents moved)\<rparr>
                       in if tl_activePaneId candidate = paneId
                          then (case first_leaf candidate (findTerminalNode candidate siblingId) of
                                  None \<Rightarrow> None
                                | Some None \<Rightarrow> Some (layout, False)
                                | Some (Some n) \<Rightarrow> Some (commit layout (candidate\<lparr>tl_activePaneId := tn_id n\<rparr>)))
                          else Some (commit layout candidate)))
            | _ \<Rightarrow> Some (layout, False)))"

definition resizeTerminalSplit ::
  "TerminalWorkspaceLayout \<Rightarrow> string \<Rightarrow> float64 \<Rightarrow> TerminalWorkspaceLayout \<times> bool" where
  "resizeTerminalSplit layout splitNodeId ratio =
     (if \<not> ratio_ok ratio then (layout, False)
      else (case findTerminalNode layout splitNodeId of
              None \<Rightarrow> (layout, False)
            | Some n \<Rightarrow> (if tn_kind n \<noteq> Split then (layout, False)
                else commit layout (update_node splitNodeId (\<lambda>n. n\<lparr>tn_ratio := ratio\<rparr>) layout))))"

definition swapTerminalPanes ::
  "TerminalWorkspaceLayout \<Rightarrow> string \<Rightarrow> string \<Rightarrow> TerminalWorkspaceLayout \<times> bool" where
  "swapTerminalPanes layout firstPaneId secondPaneId =
     (if firstPaneId = secondPaneId then (layout, False)
      else (case (findTerminalNode layout firstPaneId, findTerminalNode layout secondPaneId) of
              (Some first, Some second) \<Rightarrow>
                (if tn_kind first \<noteq> Leaf \<or> tn_kind second \<noteq> Leaf then (layout, False)
                 else commit layout
                   (update_node secondPaneId (\<lambda>n. n\<lparr>tn_restoreIntentId := tn_restoreIntentId first\<rparr>)
                     (update_node firstPaneId (\<lambda>n. n\<lparr>tn_restoreIntentId := tn_restoreIntentId second\<rparr>) layout)))
            | _ \<Rightarrow> (layout, False)))"

definition moveTerminalPane ::
  "TerminalWorkspaceLayout \<Rightarrow> string \<Rightarrow> string \<Rightarrow> string \<Rightarrow> TerminalSplitOrientation \<Rightarrow> bool
    \<Rightarrow> TerminalWorkspaceLayout \<times> bool" where
  "moveTerminalPane layout paneId targetPaneId splitNodeId orientation placeAfter =
     (if \<not> validTerminalWorkspaceLayout layout \<or> paneId = targetPaneId
         \<or> \<not> validBoundedText splitNodeId 128 False \<or> findTerminalNode layout splitNodeId \<noteq> None
      then (layout, False)
      else (case (findTerminalNode layout paneId, findTerminalNode layout targetPaneId, findParentNode layout paneId) of
              (Some pane, Some target, Some parent) \<Rightarrow>
                (if tn_kind pane \<noteq> Leaf \<or> tn_kind target \<noteq> Leaf then (layout, False)
                 else (let sourceParentId = tn_id parent;
                           siblingId = sibling parent paneId
                       in if siblingId = targetPaneId \<and> tn_orientation parent = orientation
                             \<and> (tn_secondChildId parent = paneId) = placeAfter
                          then (layout, True)
                          else (let lifted = set_child (findParentNode layout sourceParentId) sourceParentId siblingId layout;
                                    removed = lifted\<lparr>tl_nodes := filter (\<lambda>n. tn_id n \<noteq> sourceParentId) (tl_nodes lifted)\<rparr>
                                in if findTerminalNode removed targetPaneId = None then (layout, False)
                                   else (let added = removed\<lparr>tl_nodes := tl_nodes removed @
                                               [split_node splitNodeId (if placeAfter then targetPaneId else paneId)
                                                  (if placeAfter then paneId else targetPaneId) orientation ratio_half]\<rparr>
                                         in commit layout
                                              ((set_child (findParentNode removed targetPaneId) targetPaneId splitNodeId added)
                                                 \<lparr>tl_activePaneId := paneId\<rparr>)))))
            | _ \<Rightarrow> (layout, False)))"

partial_function (option) order_loop ::
  "TerminalWorkspaceLayout \<Rightarrow> TerminalLayoutNode list \<Rightarrow> string list \<Rightarrow> string list option" where
  "order_loop layout pending order =
     (case pending of
        [] \<Rightarrow> Some order
      | node # rest \<Rightarrow>
          (if tn_kind node = Leaf then order_loop layout rest (order @ [tn_id node])
           else (case (findTerminalNode layout (tn_firstChildId node), findTerminalNode layout (tn_secondChildId node)) of
                   (Some first, Some second) \<Rightarrow>
                     (if length rest + 2 > maximumTerminalNodesPerWorkspace then None
                      else order_loop layout (first # second # rest) order)
                 | _ \<Rightarrow> None)))"

definition terminalPaneOrder :: "TerminalWorkspaceLayout \<Rightarrow> string list option" where
  "terminalPaneOrder layout =
     (if \<not> validTerminalWorkspaceLayout layout then Some []
      else (case findTerminalNode layout (tl_rootNodeId layout) of
              None \<Rightarrow> None
            | Some start \<Rightarrow> order_loop layout [start] []))"

section \<open>Layouts are trees\<close>

datatype PaneTree =
    Pane string string
  | Fork string TerminalSplitOrientation float64 PaneTree PaneTree

primrec root_id :: "PaneTree \<Rightarrow> string" where
  "root_id (Pane i x) = i"
| "root_id (Fork i d r a b) = i"

primrec node_ids :: "PaneTree \<Rightarrow> string list" where
  "node_ids (Pane i x) = [i]"
| "node_ids (Fork i d r a b) = i # node_ids a @ node_ids b"

primrec pane_ids :: "PaneTree \<Rightarrow> string list" where
  "pane_ids (Pane i x) = [i]"
| "pane_ids (Fork i d r a b) = pane_ids a @ pane_ids b"

primrec intent_ids :: "PaneTree \<Rightarrow> string list" where
  "intent_ids (Pane i x) = [x]"
| "intent_ids (Fork i d r a b) = intent_ids a @ intent_ids b"

primrec ratios :: "PaneTree \<Rightarrow> float64 list" where
  "ratios (Pane i x) = []"
| "ratios (Fork i d r a b) = r # ratios a @ ratios b"

text \<open>The nodes contain the tree.\<close>

definition is_leaf :: "string \<Rightarrow> string \<Rightarrow> TerminalLayoutNode \<Rightarrow> bool" where
  "is_leaf i x n \<longleftrightarrow> tn_id n = i \<and> tn_kind n = Leaf \<and> tn_restoreIntentId n = x
     \<and> tn_firstChildId n = [] \<and> tn_secondChildId n = []"

definition is_fork ::
  "string \<Rightarrow> TerminalSplitOrientation \<Rightarrow> float64 \<Rightarrow> string \<Rightarrow> string \<Rightarrow> TerminalLayoutNode \<Rightarrow> bool" where
  "is_fork i d r a b n \<longleftrightarrow> tn_id n = i \<and> tn_kind n = Split \<and> tn_restoreIntentId n = []
     \<and> tn_firstChildId n = a \<and> tn_secondChildId n = b \<and> tn_orientation n = d \<and> tn_ratio n = r"

primrec shows_tree :: "TerminalLayoutNode list \<Rightarrow> PaneTree \<Rightarrow> bool" where
  "shows_tree ns (Pane i x) = (\<exists>n \<in> set ns. is_leaf i x n)"
| "shows_tree ns (Fork i d r a b) =
     ((\<exists>n \<in> set ns. is_fork i d r (root_id a) (root_id b) n) \<and> shows_tree ns a \<and> shows_tree ns b)"

definition tree_ok :: "PaneTree \<Rightarrow> bool" where
  "tree_ok t \<longleftrightarrow> (\<forall>i \<in> set (node_ids t). validBoundedText i 128 False)
     \<and> (\<forall>x \<in> set (intent_ids t). validBoundedText x 128 False) \<and> (\<forall>r \<in> set (ratios t). ratio_ok r)"

lemma tree_nonempty [simp]: "node_ids t \<noteq> []" "root_id t \<in> set (node_ids t)"
  by (cases t; simp)+

lemma tree_size: "Suc 0 \<le> length (node_ids t)"
  by (cases t) simp_all

lemma pane_ids_sub: "set (pane_ids t) \<subseteq> set (node_ids t)"
  by (induction t) auto

lemma length_intent_ids [simp]: "length (intent_ids t) = length (pane_ids t)"
  by (induction t) auto

lemma distinct_pane_ids: "distinct (node_ids t) \<Longrightarrow> distinct (pane_ids t)"
  using pane_ids_sub by (induction t) fastforce+

lemma shows_ids: "shows_tree ns t \<Longrightarrow> set (node_ids t) \<subseteq> tn_id ` set ns"
  by (induction t) (auto simp: is_leaf_def is_fork_def)

lemma find_key_None: "(find (\<lambda>y. key y = k) xs = None) = (k \<notin> key ` set xs)"
  by (auto simp: find_None_iff image_iff dest: sym)

lemma unique_by_distinct: "unique_by key xs = distinct (map key xs)"
  by (induction xs) (simp_all add: find_key_None)

lemma node_in_iff: "distinct (map tn_id ns) \<Longrightarrow> (node_in ns i = Some n) = (n \<in> set ns \<and> tn_id n = i)"
  by (induction ns) auto

lemma same_key: "distinct (map key xs) \<Longrightarrow> x \<in> set xs \<Longrightarrow> y \<in> set xs \<Longrightarrow> key x = key y \<Longrightarrow> x = y"
  by (simp add: distinct_map inj_on_def)

lemma shown_root:
  assumes "distinct (map tn_id (tl_nodes layout))" "shows_tree (tl_nodes layout) t"
  shows "\<exists>n. findTerminalNode layout (root_id t) = Some n \<and> tn_id n = root_id t \<and> n \<in> set (tl_nodes layout)"
proof -
  obtain n where "n \<in> set (tl_nodes layout)" "tn_id n = root_id t"
    using assms(2) by (cases t) (auto simp: is_leaf_def is_fork_def)
  then show ?thesis using node_in_iff [OF assms(1)] by (auto simp: findTerminalNode_def)
qed

text \<open>The tree is determined by its root.\<close>

lemma shows_unique:
  "distinct (map tn_id ns) \<Longrightarrow> shows_tree ns t \<Longrightarrow> shows_tree ns t' \<Longrightarrow> root_id t = root_id t' \<Longrightarrow> t = t'"
proof (induction t arbitrary: t')
  case (Pane i x)
  then obtain n where n: "n \<in> set ns" "is_leaf i x n" by auto
  show ?case
  proof (cases t')
    case (Pane i' x')
    then obtain m where "m \<in> set ns" "is_leaf i' x' m" using Pane.prems by auto
    then show ?thesis using same_key [OF Pane.prems(1) n(1)] n(2) Pane.prems(4) \<open>t' = _\<close>
      by (auto simp: is_leaf_def)
  next
    case (Fork i' d' r' a' b')
    then obtain m where "m \<in> set ns" "is_fork i' d' r' (root_id a') (root_id b') m" using Pane.prems by auto
    then show ?thesis using same_key [OF Pane.prems(1) n(1)] n(2) Pane.prems(4) \<open>t' = _\<close>
      by (fastforce simp: is_leaf_def is_fork_def)
  qed
next
  case (Fork i d r a b)
  then show ?case
  proof (cases t')
    case (Pane i' x)
    then obtain n m where "n \<in> set ns" "is_fork i d r (root_id a) (root_id b) n"
      "m \<in> set ns" "is_leaf i' x m" using Fork.prems by auto
    then show ?thesis using same_key [OF Fork.prems(1)] Fork.prems(4) \<open>t' = _\<close>
      by (fastforce simp: is_leaf_def is_fork_def)
  next
    case (Fork i' d' r' a' b')
    then obtain n m where n: "n \<in> set ns" "is_fork i d r (root_id a) (root_id b) n"
      and m: "m \<in> set ns" "is_fork i' d' r' (root_id a') (root_id b') m"
      using Fork.prems by auto
    have "n = m" using same_key [OF Fork.prems(1) n(1) m(1)] n(2) m(2) Fork.prems(4) \<open>t' = _\<close>
      by (auto simp: is_fork_def)
    then show ?thesis using Fork.IH Fork.prems n(2) m(2) \<open>t' = _\<close> by (auto simp: is_fork_def)
  qed
qed

section \<open>The walk recognises trees\<close>

abbreviation all_ids :: "PaneTree list \<Rightarrow> string list" where
  "all_ids ts \<equiv> concat (map node_ids ts)"

abbreviation all_intents :: "PaneTree list \<Rightarrow> string list" where
  "all_intents ts \<equiv> concat (map intent_ids ts)"

definition forest_of ::
  "TerminalWorkspaceLayout \<Rightarrow> TerminalLayoutNode list \<Rightarrow> TerminalLayoutNode list \<Rightarrow> TerminalRestoreIntent list
    \<Rightarrow> PaneTree list \<Rightarrow> bool" where
  "forest_of layout pending visited referenced ts \<longleftrightarrow>
     map root_id ts = map tn_id pending \<and> (\<forall>t \<in> set ts. shows_tree (tl_nodes layout) t \<and> tree_ok t)
     \<and> distinct (all_ids ts) \<and> set (all_ids ts) \<inter> tn_id ` set visited = {}
     \<and> distinct (all_intents ts) \<and> set (all_intents ts) \<inter> ti_id ` set referenced = {}
     \<and> set (all_intents ts) \<subseteq> ti_id ` set (tl_restoreIntents layout)"

lemma walk_sound:
  assumes "layout_walk layout pending visited referenced = Walked v r"
    and "distinct (map tn_id (tl_nodes layout))" "set pending \<subseteq> set (tl_nodes layout)" "set visited \<subseteq> set (tl_nodes layout)"
    and "distinct (map ti_id (tl_restoreIntents layout))" "set referenced \<subseteq> set (tl_restoreIntents layout)"
  shows "\<exists>ts. forest_of layout pending visited referenced ts
    \<and> v = length visited + length (all_ids ts) \<and> r = length referenced + length (all_intents ts)"
  using assms
proof (induction layout pending visited referenced rule: layout_walk.induct)
  case (1 layout visited referenced)
  then show ?case by (intro exI [of _ "[]"]) (simp add: forest_of_def)
next
  case (2 layout node pending visited referenced)
  note walk = 2(3)
  have node: "node \<in> set (tl_nodes layout)" using 2 by simp
  have old: "node \<notin> set visited" and room: "\<not> maximumTerminalNodesPerWorkspace \<le> length visited"
    and id_ok: "validBoundedText (tn_id node) 128 False" using walk by (simp_all split: if_split_asm)
  have new: "tn_id node \<notin> tn_id ` set visited"
    using old same_key [OF 2(4) node] 2(6) by blast
  show ?case
  proof (cases "tn_kind node")
    case Leaf
    obtain intent where intent: "findRestoreIntent layout (tn_restoreIntentId node) = Some intent"
      "intent \<notin> set referenced" "validBoundedText (tn_restoreIntentId node) 128 False"
      "tn_firstChildId node = []" "tn_secondChildId node = []"
      "\<not> maximumTerminalPanesPerWorkspace \<le> length referenced"
      "layout_walk layout pending (visited @ [node]) (referenced @ [intent]) = Walked v r"
      using walk old room id_ok Leaf
      by (cases "findRestoreIntent layout (tn_restoreIntentId node)") (simp_all split: if_split_asm)
    then have i: "intent \<in> set (tl_restoreIntents layout)" "ti_id intent = tn_restoreIntentId node"
      using find_Some_in [of "\<lambda>t. ti_id t = tn_restoreIntentId node"] by (auto simp: findRestoreIntent_def)
    have fresh: "tn_restoreIntentId node \<notin> ti_id ` set referenced"
    proof
      assume "tn_restoreIntentId node \<in> ti_id ` set referenced"
      then obtain t where "t \<in> set referenced" "ti_id t = ti_id intent" using i(2) by auto
      then show False using same_key [OF 2(7), of t intent] i(1) 2(8) intent(2) by auto
    qed
    have "\<exists>ts. forest_of layout pending (visited @ [node]) (referenced @ [intent]) ts
      \<and> v = length (visited @ [node]) + length (all_ids ts)
      \<and> r = length (referenced @ [intent]) + length (all_intents ts)"
      by (rule 2(1)) (use old room id_ok Leaf intent i(1) node 2(4-8) in simp_all)
    then obtain ts where ts: "forest_of layout pending (visited @ [node]) (referenced @ [intent]) ts"
      "v = length (visited @ [node]) + length (all_ids ts)" "r = length (referenced @ [intent]) + length (all_intents ts)"
      by blast
    have "forest_of layout (node # pending) visited referenced (Pane (tn_id node) (tn_restoreIntentId node) # ts)"
      using ts(1) node new fresh intent i Leaf id_ok imageI [OF i(1), of ti_id]
      by (auto simp: forest_of_def tree_ok_def is_leaf_def)
    then show ?thesis using ts(2,3) by (intro exI [of _ "Pane (tn_id node) (tn_restoreIntentId node) # ts"]) simp
  next
    case Split
    obtain a b where ab: "findTerminalNode layout (tn_firstChildId node) = Some a"
      "findTerminalNode layout (tn_secondChildId node) = Some b"
      "tn_restoreIntentId node = []" "ratio_ok (tn_ratio node)" "tn_firstChildId node \<noteq> tn_secondChildId node"
      "\<not> maximumTerminalNodesPerWorkspace < length pending + 2"
      "layout_walk layout (a # b # pending) (visited @ [node]) referenced = Walked v r"
      using walk old room id_ok Split
      by (cases "findTerminalNode layout (tn_firstChildId node)"; cases "findTerminalNode layout (tn_secondChildId node)")
        (simp_all split: if_split_asm)
    have ab_ids: "tn_id a = tn_firstChildId node" "tn_id b = tn_secondChildId node"
      "a \<in> set (tl_nodes layout)" "b \<in> set (tl_nodes layout)"
      using ab(1,2) find_Some_in by (auto simp: findTerminalNode_def node_in_iff [OF 2(4)])
    have "\<exists>ts. forest_of layout (a # b # pending) (visited @ [node]) referenced ts
      \<and> v = length (visited @ [node]) + length (all_ids ts) \<and> r = length referenced + length (all_intents ts)"
      by (rule 2(2)) (use old room id_ok Split ab ab_ids node 2(4-8) in simp_all)
    then obtain ts' where ts': "forest_of layout (a # b # pending) (visited @ [node]) referenced ts'"
      "v = length (visited @ [node]) + length (all_ids ts')" "r = length referenced + length (all_intents ts')"
      by blast
    then obtain ta tb ts where t: "ts' = ta # tb # ts" "root_id ta = tn_id a" "root_id tb = tn_id b"
      by (auto simp: forest_of_def Cons_eq_map_conv map_eq_Cons_conv)
    let ?t = "Fork (tn_id node) (tn_orientation node) (tn_ratio node) ta tb"
    have "\<exists>n \<in> set (tl_nodes layout). is_fork (tn_id node) (tn_orientation node) (tn_ratio node) (root_id ta) (root_id tb) n"
      using node Split ab(3) ab_ids t by (auto simp: is_fork_def)
    then have "forest_of layout (node # pending) visited referenced (?t # ts)"
      using ts'(1) t node new ab id_ok by (auto simp: forest_of_def tree_ok_def)
    then show ?thesis using ts'(2,3) t by (intro exI [of _ "?t # ts"]) simp
  qed
qed

lemma forest_sizes: "length ts \<le> length (all_ids ts)"
proof (induction ts)
  case (Cons t ts)
  then show ?case using tree_size [of t] by simp
qed simp

lemma walk_complete:
  assumes "forest_of layout pending visited referenced ts"
    and "length visited + length (all_ids ts) \<le> maximumTerminalNodesPerWorkspace"
    and "length referenced + length (all_intents ts) \<le> maximumTerminalPanesPerWorkspace"
    and "distinct (map tn_id (tl_nodes layout))" "set pending \<subseteq> set (tl_nodes layout)"
  shows "layout_walk layout pending visited referenced
    = Walked (length visited + length (all_ids ts)) (length referenced + length (all_intents ts))"
  using assms
proof (induction layout pending visited referenced arbitrary: ts rule: layout_walk.induct)
  case (1 layout visited referenced)
  then show ?case by (simp add: forest_of_def)
next
  case (2 layout node pending visited referenced)
  obtain t rest where ts: "ts = t # rest" "root_id t = tn_id node" using 2(3) by (auto simp: forest_of_def)
  have node: "node \<in> set (tl_nodes layout)" and t: "shows_tree (tl_nodes layout) t" "tree_ok t"
    and new: "tn_id node \<notin> tn_id ` set visited"
    using 2 ts tree_nonempty(2) [of t] by (auto simp: forest_of_def)
  have old: "node \<notin> set visited" using new by blast
  have room: "\<not> maximumTerminalNodesPerWorkspace \<le> length visited"
    using 2(4) tree_size [of t] by (simp add: ts)
  have id_ok: "validBoundedText (tn_id node) 128 False" using t(2) ts(2) tree_nonempty(2) [of t] by (simp add: tree_ok_def)
  show ?case
  proof (cases t)
    case (Pane i x)
    then obtain n where n: "n \<in> set (tl_nodes layout)" "is_leaf i x n" using t(1) by auto
    then have "n = node" using same_key [OF 2(6) n(1) node] ts(2) Pane by (simp add: is_leaf_def)
    then have leaf: "tn_kind node = Leaf" "tn_restoreIntentId node = x" "tn_firstChildId node = []"
      "tn_secondChildId node = []" using n(2) by (simp_all add: is_leaf_def)
    have x: "x \<in> ti_id ` set (tl_restoreIntents layout)" "x \<notin> ti_id ` set referenced" "validBoundedText x 128 False"
      using 2(3) ts Pane t(2) by (auto simp: forest_of_def tree_ok_def)
    then obtain intent where intent: "findRestoreIntent layout x = Some intent"
      by (cases "findRestoreIntent layout x") (auto simp: findRestoreIntent_def find_None_iff)
    then have id: "ti_id intent = x" "intent \<in> set (tl_restoreIntents layout)"
      using find_Some_in [of "\<lambda>t. ti_id t = x"] by (auto simp: findRestoreIntent_def)
    then have unused: "intent \<notin> set referenced" using x(2) by blast
    have free: "\<not> maximumTerminalPanesPerWorkspace \<le> length referenced" using 2(5) by (simp add: ts Pane)
    have "forest_of layout pending (visited @ [node]) (referenced @ [intent]) rest"
      using 2(3) ts Pane id by (auto simp: forest_of_def)
    then have "layout_walk layout pending (visited @ [node]) (referenced @ [intent])
        = Walked (length (visited @ [node]) + length (all_ids rest)) (length (referenced @ [intent]) + length (all_intents rest))"
      by (intro 2(1)) (use 2(4-7) old room id_ok leaf x(3) intent unused free ts Pane in simp_all)
    then show ?thesis using old room id_ok leaf x(3) intent unused free ts Pane by simp
  next
    case (Fork i d r ta tb)
    then obtain n where n: "n \<in> set (tl_nodes layout)" "is_fork i d r (root_id ta) (root_id tb) n" using t(1) by auto
    then have "n = node" using same_key [OF 2(6) n(1) node] ts(2) Fork by (simp add: is_fork_def)
    then have fork: "tn_kind node = Split" "tn_restoreIntentId node = []" "tn_firstChildId node = root_id ta"
      "tn_secondChildId node = root_id tb" "tn_ratio node = r" using n(2) by (simp_all add: is_fork_def)
    obtain a where a: "findTerminalNode layout (root_id ta) = Some a" "tn_id a = root_id ta" "a \<in> set (tl_nodes layout)"
      using shown_root [OF 2(6), of ta] t(1) Fork by auto
    obtain b where b: "findTerminalNode layout (root_id tb) = Some b" "tn_id b = root_id tb" "b \<in> set (tl_nodes layout)"
      using shown_root [OF 2(6), of tb] t(1) Fork by auto
    have "set (node_ids ta) \<inter> set (node_ids tb) = {}" using 2(3) ts Fork by (auto simp: forest_of_def)
    then have differ: "root_id ta \<noteq> root_id tb"
      using tree_nonempty(2) [of ta] tree_nonempty(2) [of tb] by (metis disjoint_iff)
    have "length rest = length pending" using 2(3) ts by (auto simp: forest_of_def dest: map_eq_imp_length_eq)
    then have "\<not> maximumTerminalNodesPerWorkspace < length pending + 2"
      using 2(4) forest_sizes [of rest] tree_size [of ta] tree_size [of tb] by (simp add: ts Fork)
    moreover have "forest_of layout (a # b # pending) (visited @ [node]) referenced (ta # tb # rest)"
      using 2(3) ts Fork a b t by (auto simp: forest_of_def tree_ok_def)
    moreover have "ratio_ok r" using t(2) Fork by (simp add: tree_ok_def)
    moreover from calculation have "layout_walk layout (a # b # pending) (visited @ [node]) referenced
        = Walked (length (visited @ [node]) + length (all_ids (ta # tb # rest)))
            (length referenced + length (all_intents (ta # tb # rest)))"
      by (intro 2(2)) (use 2(4-7) old room id_ok fork a b differ ts Fork in simp_all)
    ultimately show ?thesis using old room id_ok fork a b differ ts Fork by simp
  qed
qed

declare layout_walk.simps [simp del]

definition layout_texts :: "TerminalWorkspaceLayout \<Rightarrow> bool" where
  "layout_texts layout \<longleftrightarrow> validBoundedText (tl_id layout) 128 False \<and> validBoundedText (tl_title layout) 256 True
     \<and> validBoundedText (tl_manualTitle layout) 1024 True \<and> validBoundedText (tl_windowId layout) 128 False
     \<and> validBoundedText (tl_returnWorkspaceId layout) 128 True \<and> list_all validRestoreIntent (tl_restoreIntents layout)"

definition layout_tree :: "TerminalWorkspaceLayout \<Rightarrow> PaneTree \<Rightarrow> bool" where
  "layout_tree layout t \<longleftrightarrow> root_id t = tl_rootNodeId layout \<and> shows_tree (tl_nodes layout) t \<and> tree_ok t
     \<and> distinct (map tn_id (tl_nodes layout)) \<and> distinct (node_ids t)
     \<and> set (node_ids t) = tn_id ` set (tl_nodes layout)
     \<and> distinct (map ti_id (tl_restoreIntents layout)) \<and> distinct (intent_ids t)
     \<and> set (intent_ids t) = ti_id ` set (tl_restoreIntents layout)
     \<and> length (node_ids t) \<le> maximumTerminalNodesPerWorkspace \<and> length (intent_ids t) \<le> maximumTerminalPanesPerWorkspace
     \<and> tl_activePaneId layout \<in> set (pane_ids t)"

lemma same_lengths: "distinct xs \<Longrightarrow> distinct (map f ys) \<Longrightarrow> set xs = f ` set ys \<Longrightarrow> length xs = length ys"
  using distinct_card [of xs] distinct_card [of "map f ys"] by simp

lemma full_subset:
  assumes "distinct xs" "distinct (map f ys)" "set xs \<subseteq> f ` set ys" "length xs = length ys"
  shows "set xs = f ` set ys"
  using card_subset_eq [of "f ` set ys" "set xs"] distinct_card [OF assms(1)] distinct_card [OF assms(2)] assms(3,4)
  by simp

lemma leaf_pane:
  assumes "distinct (map tn_id ns)" "n \<in> set ns"
  shows "shows_tree ns t \<Longrightarrow> tn_id n \<in> set (pane_ids t) \<longleftrightarrow> tn_id n \<in> set (node_ids t) \<and> tn_kind n = Leaf"
proof (induction t)
  case (Pane i x)
  then obtain m where m: "m \<in> set ns" "is_leaf i x m" by auto
  have "tn_id n = i \<Longrightarrow> n = m" by (rule same_key [OF assms m(1)]) (use m(2) in \<open>simp add: is_leaf_def\<close>)
  then show ?case using m(2) by (auto simp: is_leaf_def)
next
  case (Fork i d r a b)
  then obtain m where m: "m \<in> set ns" "is_fork i d r (root_id a) (root_id b) m" by auto
  have "tn_id n = i \<Longrightarrow> n = m" by (rule same_key [OF assms m(1)]) (use m(2) in \<open>simp add: is_fork_def\<close>)
  then have "tn_id n = i \<Longrightarrow> tn_kind n = Split" using m(2) by (auto simp: is_fork_def)
  then show ?case using Fork by auto
qed

lemma valid_layout_iff:
  "validTerminalWorkspaceLayout layout \<longleftrightarrow> layout_texts layout \<and> (\<exists>t. layout_tree layout t)"
proof
  assume valid: "validTerminalWorkspaceLayout layout"
  then obtain start active where s: "findTerminalNode layout (tl_rootNodeId layout) = Some start"
      "findTerminalNode layout (tl_activePaneId layout) = Some active" "tn_kind active = Leaf"
      "layout_walk layout [start] [] [] = Walked (length (tl_nodes layout)) (length (tl_restoreIntents layout))"
    by (cases "findTerminalNode layout (tl_rootNodeId layout)"; cases "findTerminalNode layout (tl_activePaneId layout)")
      (auto simp: validTerminalWorkspaceLayout_def split: if_split_asm WalkResult.split_asm)
  have frame: "layout_texts layout" "distinct (map tn_id (tl_nodes layout))" "distinct (map ti_id (tl_restoreIntents layout))"
    "length (tl_nodes layout) \<le> maximumTerminalNodesPerWorkspace"
    "length (tl_restoreIntents layout) \<le> maximumTerminalPanesPerWorkspace"
    using valid by (auto simp: validTerminalWorkspaceLayout_def layout_texts_def uniqueTerminalIds_def unique_by_distinct
        split: if_split_asm)
  have start: "start \<in> set (tl_nodes layout)" "tn_id start = tl_rootNodeId layout"
    "active \<in> set (tl_nodes layout)" "tn_id active = tl_activePaneId layout"
    using s(1,2) by (simp_all add: findTerminalNode_def node_in_iff [OF frame(2)])
  obtain ts where ts: "forest_of layout [start] [] [] ts" "length (tl_nodes layout) = length (all_ids ts)"
    "length (tl_restoreIntents layout) = length (all_intents ts)"
    using walk_sound [OF s(4) frame(2) _ _ frame(3)] start(1) by auto
  then obtain t where t: "ts = [t]" by (auto simp: forest_of_def)
  have f: "root_id t = tl_rootNodeId layout" "shows_tree (tl_nodes layout) t" "tree_ok t" "distinct (node_ids t)"
    "distinct (intent_ids t)" "set (intent_ids t) \<subseteq> ti_id ` set (tl_restoreIntents layout)"
    using ts(1) start(2) by (simp_all add: forest_of_def t)
  have "set (node_ids t) = tn_id ` set (tl_nodes layout)"
    by (rule full_subset [OF f(4) frame(2) shows_ids [OF f(2)]]) (use ts(2) t in simp)
  moreover have "set (intent_ids t) = ti_id ` set (tl_restoreIntents layout)"
    by (rule full_subset [OF f(5) frame(3) f(6)]) (use ts(3) t in simp)
  ultimately have "layout_tree layout t"
    using f frame ts(2,3) t start(3,4) s(3) leaf_pane [OF frame(2) start(3) f(2)] imageI [OF start(3), of tn_id]
    by (simp add: layout_tree_def)
  then show "layout_texts layout \<and> (\<exists>t. layout_tree layout t)" using frame(1) by blast
next
  assume "layout_texts layout \<and> (\<exists>t. layout_tree layout t)"
  then obtain t where texts: "layout_texts layout" and t: "layout_tree layout t" by blast
  then have tree: "root_id t = tl_rootNodeId layout" "shows_tree (tl_nodes layout) t" "tree_ok t"
    "distinct (map tn_id (tl_nodes layout))" "distinct (node_ids t)" "set (node_ids t) = tn_id ` set (tl_nodes layout)"
    "distinct (map ti_id (tl_restoreIntents layout))" "distinct (intent_ids t)"
    "set (intent_ids t) = ti_id ` set (tl_restoreIntents layout)" "tl_activePaneId layout \<in> set (pane_ids t)"
    by (simp_all add: layout_tree_def)
  have len: "length (node_ids t) = length (tl_nodes layout)" "length (intent_ids t) = length (tl_restoreIntents layout)"
    using same_lengths tree(4-9) by blast+
  obtain start where start: "findTerminalNode layout (tl_rootNodeId layout) = Some start" "tn_id start = root_id t"
    "start \<in> set (tl_nodes layout)" using shown_root [OF tree(4,2)] tree(1) by auto
  obtain active where active: "active \<in> set (tl_nodes layout)" "tn_id active = tl_activePaneId layout"
    using tree(6,10) pane_ids_sub [of t] by (metis image_iff subsetD)
  then have a: "findTerminalNode layout (tl_activePaneId layout) = Some active" "tn_kind active = Leaf"
    using node_in_iff [OF tree(4)] leaf_pane [OF tree(4) active(1) tree(2)] tree(10) by (auto simp: findTerminalNode_def)
  have "forest_of layout [start] [] [] [t]" using tree start by (simp add: forest_of_def)
  from walk_complete [OF this] have walk: "layout_walk layout [start] [] []
      = Walked (length (tl_nodes layout)) (length (tl_restoreIntents layout))"
    using t len tree(4) start(3) by (simp add: layout_tree_def)
  have ids: "validBoundedText (tl_rootNodeId layout) 128 False" "validBoundedText (tl_activePaneId layout) 128 False"
    using tree(1,3,10) tree_nonempty(2) [of t] pane_ids_sub [of t] by (auto simp: tree_ok_def simp del: tree_nonempty)
  have "pane_ids t \<noteq> []" using tree(10) by auto
  then have "intent_ids t \<noteq> []" by (metis length_intent_ids length_0_conv)
  then have "tl_nodes layout \<noteq> []" "tl_restoreIntents layout \<noteq> []" using start(3) tree(9) by auto
  then show "validTerminalWorkspaceLayout layout"
    using texts ids tree(4,7) t len start(1) a walk
    by (simp add: validTerminalWorkspaceLayout_def layout_texts_def uniqueTerminalIds_def unique_by_distinct layout_tree_def)
qed


section \<open>Order of the panes\<close>

lemma order_trees:
  assumes "distinct (map tn_id (tl_nodes layout))"
    and "map root_id ts = map tn_id pending" "\<forall>t \<in> set ts. shows_tree (tl_nodes layout) t" "set pending \<subseteq> set (tl_nodes layout)"
    and "length (all_ids ts) \<le> maximumTerminalNodesPerWorkspace"
  shows "order_loop layout pending order = Some (order @ concat (map pane_ids ts))"
  using assms(2-)
proof (induction "length (all_ids ts)" arbitrary: ts pending order rule: less_induct)
  case less
  show ?case
  proof (cases ts)
    case Nil
    then show ?thesis using less.prems by (simp add: order_loop.simps)
  next
    case (Cons t rest)
    then obtain node others where p: "pending = node # others" "tn_id node = root_id t" "node \<in> set (tl_nodes layout)"
      "map root_id rest = map tn_id others" "set others \<subseteq> set (tl_nodes layout)" using less.prems by (cases pending) auto
    show ?thesis
    proof (cases t)
      case (Pane i x)
      then obtain n where n: "n \<in> set (tl_nodes layout)" "is_leaf i x n" using less.prems Cons by auto
      then have "n = node" using same_key [OF assms(1) n(1) p(3)] p(2) Pane by (simp add: is_leaf_def)
      then have "tn_kind node = Leaf" "tn_id node = i" using n(2) by (simp_all add: is_leaf_def)
      then show ?thesis using less.hyps [of rest others "order @ [i]"] less.prems Cons Pane p
        by (simp add: order_loop.simps [of _ "_ # _"])
    next
      case (Fork i d r a b)
      then obtain n where n: "n \<in> set (tl_nodes layout)" "is_fork i d r (root_id a) (root_id b) n"
        using less.prems Cons by auto
      then have "n = node" using same_key [OF assms(1) n(1) p(3)] p(2) Fork by (simp add: is_fork_def)
      then have k: "tn_kind node = Split" "tn_firstChildId node = root_id a" "tn_secondChildId node = root_id b"
        using n(2) by (simp_all add: is_fork_def)
      obtain m where m: "findTerminalNode layout (root_id a) = Some m" "tn_id m = root_id a" "m \<in> set (tl_nodes layout)"
        using shown_root [OF assms(1), of a] less.prems(2) Cons Fork by auto
      obtain l where l: "findTerminalNode layout (root_id b) = Some l" "tn_id l = root_id b" "l \<in> set (tl_nodes layout)"
        using shown_root [OF assms(1), of b] less.prems(2) Cons Fork by auto
      have "length rest = length others" using p(4) by (rule map_eq_imp_length_eq)
      then have "\<not> maximumTerminalNodesPerWorkspace < length others + 2"
        using less.prems(4) forest_sizes [of rest] tree_size [of a] tree_size [of b] by (simp add: Cons Fork)
      moreover have "order_loop layout (m # l # others) order = Some (order @ concat (map pane_ids (a # b # rest)))"
        by (rule less.hyps) (use less.prems Cons Fork p m l in simp_all)
      ultimately show ?thesis using k m l p Cons Fork by (simp add: order_loop.simps [of _ "_ # _"])
    qed
  qed
qed

lemma pane_order:
  assumes "validTerminalWorkspaceLayout layout" "layout_tree layout t"
  shows "terminalPaneOrder layout = Some (pane_ids t)"
proof -
  have t: "root_id t = tl_rootNodeId layout" "shows_tree (tl_nodes layout) t" "distinct (map tn_id (tl_nodes layout))"
    "length (node_ids t) \<le> maximumTerminalNodesPerWorkspace" using assms(2) by (simp_all add: layout_tree_def)
  obtain start where "findTerminalNode layout (tl_rootNodeId layout) = Some start" "tn_id start = root_id t"
    "start \<in> set (tl_nodes layout)" using shown_root [OF t(3,2)] t(1) by auto
  then show ?thesis using order_trees [OF t(3), of "[t]" "[start]" "[]"] t assms(1) by (simp add: terminalPaneOrder_def)
qed

end
