(* ===== verification/Pane_Operations.thy ===== *)
theory Pane_Operations
  imports Workspace_Layout
begin

text \<open>
  Splitting, closing and moving panes (\<open>splitTerminalPane\<close>, \<open>closeTerminalPane\<close>, \<open>moveTerminalPane\<close> of
  \<open>WorkspaceState.cpp\<close>) as operations on the tree of a layout: each replaces a subtree.
\<close>

section \<open>Replacing a subtree\<close>

primrec graft :: "string \<Rightarrow> PaneTree \<Rightarrow> PaneTree \<Rightarrow> PaneTree" where
  "graft i s (Pane j x) = (if j = i then s else Pane j x)"
| "graft i s (Fork j d r a b) = (if j = i then s else Fork j d r (graft i s a) (graft i s b))"

primrec part :: "PaneTree \<Rightarrow> PaneTree \<Rightarrow> bool" where
  "part u (Pane j x) = (u = Pane j x)"
| "part u (Fork j d r a b) = (u = Fork j d r a b \<or> part u a \<or> part u b)"

lemma part_refl [simp]: "part t t"
  by (cases t) simp_all

lemma graft_absent [simp]: "i \<notin> set (node_ids t) \<Longrightarrow> graft i s t = t"
  by (induction t) auto

lemma graft_whole [simp]: "graft (root_id t) s t = s"
  by (cases t) auto

lemma root_graft: "root_id (graft i s t) = (if root_id t = i then root_id s else root_id t)"
  by (cases t) auto

lemma part_ids: "part u t \<Longrightarrow> set (node_ids u) \<subseteq> set (node_ids t)"
  by (induction t) auto

lemma part_root: "part u t \<Longrightarrow> root_id u \<in> set (node_ids t)"
  using part_ids tree_nonempty(2) by blast

lemma part_exists: "i \<in> set (node_ids t) \<Longrightarrow> \<exists>u. part u t \<and> root_id u = i"
  by (induction t) fastforce+

lemma part_shows: "part u t \<Longrightarrow> shows_tree ns t \<Longrightarrow> shows_tree ns u"
  by (induction t) auto

lemma part_whole: "part u t \<Longrightarrow> distinct (node_ids t) \<Longrightarrow> root_id u = root_id t \<Longrightarrow> u = t"
  using part_root by (cases t) fastforce+

lemma part_trans: "part v u \<Longrightarrow> part u t \<Longrightarrow> part v t"
  by (induction t) auto

lemma part_distinct: "part u t \<Longrightarrow> distinct (node_ids t) \<Longrightarrow> distinct (node_ids u)"
  by (induction t) auto

lemma part_size: "part u t \<Longrightarrow> tree_ok t \<Longrightarrow> tree_ok u"
  by (induction t) (auto simp: tree_ok_def)

text \<open>What a tree is around the place of a subtree.\<close>

definition around :: "string \<Rightarrow> PaneTree \<Rightarrow> string list \<times> string list \<Rightarrow> string list \<times> string list \<Rightarrow>
    string list \<times> string list \<Rightarrow> float64 list \<times> float64 list \<Rightarrow> bool" where
  "around i t n p x r \<longleftrightarrow> (\<forall>s. node_ids (graft i s t) = fst n @ node_ids s @ snd n
     \<and> pane_ids (graft i s t) = fst p @ pane_ids s @ snd p \<and> intent_ids (graft i s t) = fst x @ intent_ids s @ snd x
     \<and> ratios (graft i s t) = fst r @ ratios s @ snd r)"

lemma around_root: "around (root_id t) t ([], []) ([], []) ([], []) ([], [])"
  by (cases t) (simp_all add: around_def)

lemma around_left:
  "around j a n p x r \<Longrightarrow> j \<noteq> i \<Longrightarrow> j \<notin> set (node_ids b) \<Longrightarrow>
    around j (Fork i d q a b) (i # fst n, snd n @ node_ids b) (fst p, snd p @ pane_ids b)
      (fst x, snd x @ intent_ids b) (q # fst r, snd r @ ratios b)"
  by (simp add: around_def)

lemma around_right:
  "around j b n p x r \<Longrightarrow> j \<noteq> i \<Longrightarrow> j \<notin> set (node_ids a) \<Longrightarrow>
    around j (Fork i d q a b) (i # node_ids a @ fst n, snd n) (pane_ids a @ fst p, snd p)
      (intent_ids a @ fst x, snd x) (q # ratios a @ fst r, snd r)"
  by (simp add: around_def)

lemma graft_context:
  "distinct (node_ids t) \<Longrightarrow> j \<in> set (node_ids t) \<Longrightarrow> \<exists>n p x r. around j t n p x r"
proof (induction t)
  case (Pane i x)
  then have "j = root_id (Pane i x)" by simp
  then show ?case using around_root by blast
next
  case (Fork i d q a b)
  have disjoint: "set (node_ids a) \<inter> set (node_ids b) = {}" and dist: "distinct (node_ids a)" "distinct (node_ids b)"
    and i: "i \<notin> set (node_ids a)" "i \<notin> set (node_ids b)" using Fork.prems(1) by simp_all
  consider "j = i" | "j \<in> set (node_ids a)" | "j \<in> set (node_ids b)" using Fork.prems(2) by auto
  then show ?case
  proof cases
    case 1
    then have "j = root_id (Fork i d q a b)" by simp
    then show ?thesis using around_root by blast
  next
    case 2
    then have "j \<noteq> i" "j \<notin> set (node_ids b)" using disjoint i by auto
    then show ?thesis using Fork.IH(1) [OF dist(1) 2] around_left by blast
  next
    case 3
    then have "j \<noteq> i" "j \<notin> set (node_ids a)" using disjoint i by auto
    then show ?thesis using Fork.IH(2) [OF dist(2) 3] around_right by blast
  qed
qed

lemma graft_same: "part u t \<Longrightarrow> distinct (node_ids t) \<Longrightarrow> graft (root_id u) u t = t"
proof (induction t)
  case (Fork i d r a b)
  show ?case
  proof (cases "root_id u = i")
    case True
    then show ?thesis using part_whole [OF Fork.prems] by simp
  next
    case False
    have disjoint: "set (node_ids a) \<inter> set (node_ids b) = {}" using Fork.prems(2) by simp
    consider "part u a" | "part u b" using Fork.prems False by auto
    then show ?thesis
    proof cases
      case 1
      then have "root_id u \<notin> set (node_ids b)" using part_root [OF 1] disjoint by auto
      then show ?thesis using Fork 1 False by simp
    next
      case 2
      then have "root_id u \<notin> set (node_ids a)" using part_root [OF 2] disjoint by auto
      then show ?thesis using Fork 2 False by simp
    qed
  qed
qed simp

lemma part_graft: "part u t \<Longrightarrow> distinct (node_ids t) \<Longrightarrow> part s (graft (root_id u) s t)"
  using part_root by (induction t) auto

section \<open>Parents\<close>

lemma node_ids_root: "node_ids t = root_id t # tl (node_ids t)"
  by (cases t) simp_all

lemma child_below:
  assumes "distinct (map tn_id ns)" "p \<in> set ns" "is_parent i p"
  shows "shows_tree ns t \<Longrightarrow> tn_id p \<in> set (node_ids t) \<Longrightarrow> i \<in> set (tl (node_ids t))"
proof (induction t)
  case (Pane j x)
  then obtain n where n: "n \<in> set ns" "is_leaf j x n" by auto
  then have "n = p" using same_key [OF assms(1) n(1) assms(2)] Pane.prems by (simp add: is_leaf_def)
  then show ?case using n(2) assms(3) by (simp add: is_leaf_def is_parent_def)
next
  case (Fork j d r a b)
  then obtain n where n: "n \<in> set ns" "is_fork j d r (root_id a) (root_id b) n" by auto
  show ?case
  proof (cases "tn_id p = j")
    case True
    then have "n = p" using same_key [OF assms(1) n(1) assms(2)] n(2) by (simp add: is_fork_def)
    then show ?thesis using n(2) assms(3) by (auto simp: is_fork_def is_parent_def)
  next
    case False
    then show ?thesis using Fork set_mono_suffix [of "tl xs" xs for xs]
      by (auto dest: list.set_sel(2) [OF tree_nonempty(1)])
  qed
qed

lemma parent_exists:
  "shows_tree ns t \<Longrightarrow> i \<in> set (node_ids t) \<Longrightarrow> i \<noteq> root_id t \<Longrightarrow>
    \<exists>p \<in> set ns. tn_id p \<in> set (node_ids t) \<and> is_parent i p"
proof (induction t)
  case (Fork j d r a b)
  then obtain n where n: "n \<in> set ns" "is_fork j d r (root_id a) (root_id b) n" by auto
  then have "tn_id n = j" "is_parent (root_id a) n" "is_parent (root_id b) n" by (simp_all add: is_fork_def is_parent_def)
  then show ?case using Fork n(1) by (cases "i = root_id a"; cases "i = root_id b") auto
qed simp


lemma parent_unique:
  assumes "distinct (map tn_id ns)" "shows_tree ns t" "distinct (node_ids t)"
    and "p \<in> set ns" "tn_id p \<in> set (node_ids t)" "is_parent i p"
  shows "i \<noteq> root_id t" "i \<in> set (node_ids t)"
proof -
  have i: "i \<in> set (tl (node_ids t))" by (rule child_below [OF assms(1,4,6,2,5)])
  have "distinct (root_id t # tl (node_ids t))" using assms(3) node_ids_root [of t] by metis
  then show "i \<noteq> root_id t" using i by auto
  show "i \<in> set (node_ids t)" using i node_ids_root [of t] by (metis list.set_intros(2))
qed

lemma shows_mono:
  "shows_tree ns t \<Longrightarrow> \<forall>n \<in> set ns. tn_id n \<in> set (node_ids t) \<longrightarrow> n \<in> set ns' \<Longrightarrow> shows_tree ns' t"
proof (induction t)
  case (Pane i x)
  then show ?case by (auto simp: is_leaf_def)
next
  case (Fork i d r a b)
  then show ?case by (auto simp: is_fork_def)
qed

lemma shows_aside:
  assumes "shows_tree ns t" "k \<notin> set (node_ids t)" "set (node_ids t) \<inter> set (node_ids u) = {}"
    and "\<forall>n \<in> set ns. tn_id n \<noteq> k \<and> tn_id n \<notin> set (node_ids u) \<longrightarrow> n \<in> set ns'"
  shows "shows_tree ns' t"
proof (rule shows_mono [OF assms(1)], intro ballI impI)
  fix n assume n: "n \<in> set ns" "tn_id n \<in> set (node_ids t)"
  then have "tn_id n \<noteq> k" "tn_id n \<notin> set (node_ids u)" using assms(2,3) by auto
  then show "n \<in> set ns'" using assms(4) n(1) by blast
qed

text \<open>Replacing the subtree \<open>u\<close> by \<open>s\<close> when its parent \<open>p\<close> becomes \<open>p'\<close> and the other nodes outside of \<open>u\<close> stay.\<close>

lemma graft_shows:
  assumes ns: "distinct (map tn_id ns)" and p: "p \<in> set ns" "is_parent (root_id u) p"
    and p': "p' \<in> set ns'" "p' = (if tn_firstChildId p = root_id u then p\<lparr>tn_firstChildId := root_id s\<rparr>
      else p\<lparr>tn_secondChildId := root_id s\<rparr>)"
    and rest: "\<forall>n \<in> set ns. tn_id n \<noteq> tn_id p \<and> tn_id n \<notin> set (node_ids u) \<longrightarrow> n \<in> set ns'"
    and s: "shows_tree ns' s"
  shows "part u t \<Longrightarrow> shows_tree ns t \<Longrightarrow> distinct (node_ids t) \<Longrightarrow> tn_id p \<in> set (node_ids t)
    \<Longrightarrow> shows_tree ns' (graft (root_id u) s t)"
proof (induction t)
  case (Pane j x)
  then show ?case using parent_unique(1) [OF ns Pane.prems(2,3) p(1) Pane.prems(4) p(2)] by simp
next
  case (Fork j d r a b)
  let ?i = "root_id u"
  have i: "?i \<noteq> j" using parent_unique(1) [OF ns Fork.prems(2,3) p(1) Fork.prems(4) p(2)] by simp
  obtain n where n: "n \<in> set ns" "is_fork j d r (root_id a) (root_id b) n" using Fork.prems(2) by auto
  have sub: "shows_tree ns a" "shows_tree ns b" "distinct (node_ids a)" "distinct (node_ids b)" "j \<notin> set (node_ids a)"
    "j \<notin> set (node_ids b)" and disjoint: "set (node_ids a) \<inter> set (node_ids b) = {}"
    using Fork.prems(2,3) by simp_all
  consider "part u a" "set (node_ids u) \<subseteq> set (node_ids a)" "?i \<in> set (node_ids a)" "?i \<notin> set (node_ids b)"
    | "part u b" "set (node_ids u) \<subseteq> set (node_ids b)" "?i \<in> set (node_ids b)" "?i \<notin> set (node_ids a)"
    using Fork.prems(1) i part_ids [of u a] part_ids [of u b] part_root [of u a] part_root [of u b] disjoint by auto
  then show ?case
  proof cases
    case 1
    have b: "shows_tree ns' b" if "tn_id p \<notin> set (node_ids b)"
      by (rule shows_aside [OF sub(2) that _ rest]) (use 1(2) disjoint in blast)
    show ?thesis
    proof (cases "tn_id p = j")
      case True
      then have "n = p" using same_key [OF ns n(1) p(1)] n(2) by (simp add: is_fork_def)
      moreover have "root_id b \<noteq> ?i" using 1(4) tree_nonempty(2) [of b] by metis
      ultimately have "root_id a = ?i" using p(2) n(2) by (auto simp: is_parent_def is_fork_def)
      moreover from this have "is_fork j d r (root_id s) (root_id b) p'"
        using p'(2) n(2) \<open>n = p\<close> by (simp add: is_fork_def)
      ultimately show ?thesis using i 1(4) b True sub(6) s p'(1) graft_whole [of a s] by auto
    next
      case False
      have "tn_id p \<notin> set (node_ids b)" using parent_unique(2) [OF ns sub(2,4) p(1) _ p(2)] 1(4) by blast
      moreover from this have pa: "tn_id p \<in> set (node_ids a)" using Fork.prems(4) False by simp
      moreover have "root_id a \<noteq> ?i" using parent_unique(1) [OF ns sub(1,3) p(1) pa p(2)] by simp
      moreover have "n \<in> set ns'" using n rest 1(2) sub(5) False by (auto simp: is_fork_def)
      ultimately show ?thesis using Fork.IH(1) [OF 1(1) sub(1,3)] i 1(4) b n(2)
        by (auto simp: root_graft)
    qed
  next
    case 2
    have a: "shows_tree ns' a" if "tn_id p \<notin> set (node_ids a)"
      by (rule shows_aside [OF sub(1) that _ rest]) (use 2(2) disjoint in blast)
    show ?thesis
    proof (cases "tn_id p = j")
      case True
      then have "n = p" using same_key [OF ns n(1) p(1)] n(2) by (simp add: is_fork_def)
      moreover have "root_id a \<noteq> ?i" using 2(4) tree_nonempty(2) [of a] by metis
      ultimately have "root_id b = ?i" "root_id a \<noteq> ?i" using p(2) n(2) by (auto simp: is_parent_def is_fork_def)
      moreover from this have "is_fork j d r (root_id a) (root_id s) p'"
        using p'(2) n(2) \<open>n = p\<close> by (simp add: is_fork_def)
      ultimately show ?thesis using i 2(4) a True sub(5) s p'(1) graft_whole [of b s] by auto
    next
      case False
      have "tn_id p \<notin> set (node_ids a)" using parent_unique(2) [OF ns sub(1,3) p(1) _ p(2)] 2(4) by blast
      moreover from this have pb: "tn_id p \<in> set (node_ids b)" using Fork.prems(4) False by simp
      moreover have "root_id b \<noteq> ?i" using parent_unique(1) [OF ns sub(2,4) p(1) pb p(2)] by simp
      moreover have "n \<in> set ns'" using n rest 2(2) sub(6) False by (auto simp: is_fork_def)
      ultimately show ?thesis using Fork.IH(2) [OF 2(1) sub(2,4)] i 2(4) a n(2)
        by (auto simp: root_graft)
    qed
  qed
qed

section \<open>Layouts\<close>

lemma layout_treeD:
  assumes "layout_tree layout t"
  shows "root_id t = tl_rootNodeId layout" "shows_tree (tl_nodes layout) t" "tree_ok t"
    "distinct (map tn_id (tl_nodes layout))" "distinct (node_ids t)" "set (node_ids t) = tn_id ` set (tl_nodes layout)"
    "distinct (map ti_id (tl_restoreIntents layout))" "distinct (intent_ids t)"
    "set (intent_ids t) = ti_id ` set (tl_restoreIntents layout)"
    "tl_activePaneId layout \<in> set (pane_ids t)"
  using assms by (simp_all add: layout_tree_def)

text \<open>
  A tree among the nodes of a layout which has every split node of the layout; while a pane is being
  moved its leaf is not in it.
\<close>

definition rooted :: "TerminalWorkspaceLayout \<Rightarrow> PaneTree \<Rightarrow> bool" where
  "rooted layout t \<longleftrightarrow> root_id t = tl_rootNodeId layout \<and> shows_tree (tl_nodes layout) t
     \<and> distinct (map tn_id (tl_nodes layout)) \<and> distinct (node_ids t)
     \<and> (\<forall>n \<in> set (tl_nodes layout). tn_kind n = Split \<longrightarrow> tn_id n \<in> set (node_ids t))"

lemma rootedD:
  assumes "rooted layout t"
  shows "root_id t = tl_rootNodeId layout" "shows_tree (tl_nodes layout) t"
    "distinct (map tn_id (tl_nodes layout))" "distinct (node_ids t)"
    "n \<in> set (tl_nodes layout) \<Longrightarrow> tn_kind n = Split \<Longrightarrow> tn_id n \<in> set (node_ids t)"
  using assms by (simp_all add: rooted_def)

lemma layout_rooted: "layout_tree layout t \<Longrightarrow> rooted layout t"
  by (auto simp: rooted_def layout_tree_def)

lemma find_parent:
  assumes "rooted layout t" "i \<in> set (node_ids t)"
  shows "(findParentNode layout i = None) = (i = root_id t)"
    and "findParentNode layout i = Some p \<Longrightarrow> p \<in> set (tl_nodes layout) \<and> is_parent i p \<and> tn_id p \<in> set (node_ids t)"
proof -
  note t = rootedD [OF assms(1)]
  show parent: "p \<in> set (tl_nodes layout) \<and> is_parent i p \<and> tn_id p \<in> set (node_ids t)"
    if "findParentNode layout i = Some p" for p
    using find_Some_in [of "is_parent i" "tl_nodes layout" p] that t(5) by (auto simp: findParentNode_def is_parent_def)
  show "(findParentNode layout i = None) = (i = root_id t)"
  proof
    assume none: "findParentNode layout i = None"
    show "i = root_id t"
    proof (rule ccontr)
      assume "i \<noteq> root_id t"
      from parent_exists [OF t(2) assms(2) this] none show False by (auto simp: findParentNode_def find_None_iff)
    qed
  next
    assume "i = root_id t"
    then show "findParentNode layout i = None"
      using parent parent_unique(1) [OF t(3,2,4)] by (cases "findParentNode layout i") auto
  qed
qed

lemma update_first_mem:
  "n \<in> set xs \<Longrightarrow> \<not> P n \<Longrightarrow> n \<in> set (update_first P f xs)"
  "find P xs = Some p \<Longrightarrow> f p \<in> set (update_first P f xs)"
  by (induction xs) (auto split: if_splits)

lemma set_child_ids [simp]: "map tn_id (tl_nodes (set_child parent old new layout)) = map tn_id (tl_nodes layout)"
  by (cases parent) (simp_all add: set_child_def update_node_def map_key_update_first)

lemma set_child_graft:
  assumes "rooted layout t" "part u t"
    and L: "L = set_child (findParentNode layout (root_id u)) (root_id u) (root_id s) layout"
    and rest: "\<forall>n \<in> set (tl_nodes L). tn_id n \<notin> set (node_ids u) \<longrightarrow> n \<in> set ns'" and s: "shows_tree ns' s"
  shows "shows_tree ns' (graft (root_id u) s t) \<and> tl_rootNodeId L = root_id (graft (root_id u) s t)"
proof -
  note t = rootedD [OF assms(1)]
  have i: "root_id u \<in> set (node_ids t)" by (rule part_root [OF assms(2)])
  show ?thesis
  proof (cases "findParentNode layout (root_id u)")
    case None
    then have "root_id u = root_id t" using find_parent(1) [OF assms(1) i] by simp
    then show ?thesis using s L None graft_whole [of t s] by (simp add: set_child_def)
  next
    case (Some p)
    note par = find_parent(2) [OF assms(1) i Some]
    have "tn_id p \<notin> set (node_ids u)"
      using parent_unique(1) [OF t(3) part_shows [OF assms(2) t(2)] part_distinct [OF assms(2) t(4)]] par by blast
    define f :: "TerminalLayoutNode \<Rightarrow> TerminalLayoutNode" where "f = (\<lambda>n. if tn_firstChildId p = root_id u then n\<lparr>tn_firstChildId := root_id s\<rparr>
      else n\<lparr>tn_secondChildId := root_id s\<rparr>)"
    have nodes: "tl_nodes L = update_first (\<lambda>n. tn_id n = tn_id p) f (tl_nodes layout)" "tl_rootNodeId L = tl_rootNodeId layout"
      using L Some by (simp_all add: set_child_def update_node_def f_def)
    have "node_in (tl_nodes layout) (tn_id p) = Some p" using node_in_iff [OF t(3)] par by blast
    then have "f p \<in> set (tl_nodes L)" using update_first_mem(2) [of _ _ _ f] nodes(1) by auto
    then have "f p \<in> set ns'" using rest \<open>tn_id p \<notin> _\<close> by (auto simp: f_def)
    moreover have "\<forall>n \<in> set (tl_nodes layout). tn_id n \<noteq> tn_id p \<and> tn_id n \<notin> set (node_ids u) \<longrightarrow> n \<in> set ns'"
      using rest nodes(1) update_first_mem(1) [of _ _ "\<lambda>n. tn_id n = tn_id p" f] by auto
    ultimately have "shows_tree ns' (graft (root_id u) s t)"
      using graft_shows [OF t(3) _ _ _ _ _ s assms(2) t(2,4)] par by (auto simp: f_def)
    moreover have "root_id t \<noteq> root_id u" using find_parent(1) [OF assms(1) i] Some by auto
    ultimately show ?thesis using nodes(2) t(1) by (simp add: root_graft)
  qed
qed

text \<open>The nodes of the subtree itself are not written.\<close>

lemma set_child_inside:
  assumes "rooted layout t" "part u t" "n \<in> set (tl_nodes layout)" "tn_id n \<in> set (node_ids u)"
  shows "n \<in> set (tl_nodes (set_child (findParentNode layout (root_id u)) (root_id u) new layout))"
proof (cases "findParentNode layout (root_id u)")
  case None
  then show ?thesis using assms(3) by (simp add: set_child_def)
next
  case (Some p)
  note t = rootedD [OF assms(1)]
  note par = find_parent(2) [OF assms(1) part_root [OF assms(2)] Some]
  have "tn_id p \<notin> set (node_ids u)"
    using parent_unique(1) [OF t(3) part_shows [OF assms(2) t(2)] part_distinct [OF assms(2) t(4)]] par by blast
  then have "tn_id n \<noteq> tn_id p" using assms(4) by auto
  then show ?thesis using Some assms(3) by (simp add: set_child_def update_node_def update_first_mem(1))
qed

lemma shows_filter:
  "shows_tree ns t \<Longrightarrow> \<forall>i \<in> set (node_ids t). P i \<Longrightarrow> shows_tree (filter (\<lambda>n. P (tn_id n)) ns) t"
  by (rule shows_mono) auto

section \<open>Lifting a pane out\<close>

text \<open>The pane \<open>i\<close> with its parent, its sibling tree \<open>s\<close> and the tree \<open>u\<close> of the parent.\<close>

definition lifted_tree :: "string \<Rightarrow> PaneTree \<Rightarrow> PaneTree \<Rightarrow> PaneTree \<Rightarrow> bool" where
  "lifted_tree i t u s \<longleftrightarrow> part u t \<and> (\<exists>d r x. u = Fork (root_id u) d r (Pane i x) s \<or> u = Fork (root_id u) d r s (Pane i x))"

lemma pane_shown:
  assumes "distinct (map tn_id ns)" "shows_tree ns t" "n \<in> set ns" "tn_id n = root_id t" "tn_kind n = Leaf"
  shows "t = Pane (tn_id n) (tn_restoreIntentId n)"
proof (cases t)
  case (Pane j x)
  then obtain m where "m \<in> set ns" "is_leaf j x m" using assms(2) by auto
  then show ?thesis using same_key [OF assms(1,3), of m] assms(4) Pane by (auto simp: is_leaf_def)
next
  case (Fork j d r a b)
  then obtain m where "m \<in> set ns" "is_fork j d r (root_id a) (root_id b) m" using assms(2) by auto
  then show ?thesis using same_key [OF assms(1,3), of m] assms(4,5) Fork by (auto simp: is_fork_def)
qed

lemma find_lifted:
  assumes "rooted layout t" "findTerminalNode layout i = Some n" "tn_kind n = Leaf" "findParentNode layout i = Some p"
    "i \<in> set (node_ids t)"
  shows "\<exists>u s. lifted_tree i t u s \<and> root_id u = tn_id p \<and> root_id s = sibling p i"
proof -
  note t = rootedD [OF assms(1)]
  note par = find_parent(2) [OF assms(1,5,4)]
  have n: "n \<in> set (tl_nodes layout)" "tn_id n = i" using assms(2) node_in_iff [OF t(3)] by (auto simp: findTerminalNode_def)
  obtain u where u: "part u t" "root_id u = tn_id p" using part_exists par by blast
  have su: "shows_tree (tl_nodes layout) u" "distinct (node_ids u)"
    using part_shows [OF u(1) t(2)] part_distinct [OF u(1) t(4)] .
  obtain d r a b where f: "u = Fork (tn_id p) d r a b"
  proof (cases u)
    case (Pane j x)
    then obtain m where "m \<in> set (tl_nodes layout)" "is_leaf j x m" using su(1) by auto
    then show ?thesis using same_key [OF t(3), of m p] par u(2) Pane by (auto simp: is_leaf_def is_parent_def)
  qed (use u(2) in simp)
  then obtain m where "m \<in> set (tl_nodes layout)" "is_fork (tn_id p) d r (root_id a) (root_id b) m" using su(1) by auto
  moreover from this have "m = p" using same_key [OF t(3), of m p] par by (simp add: is_fork_def)
  ultimately have p: "tn_firstChildId p = root_id a" "tn_secondChildId p = root_id b" by (simp_all add: is_fork_def)
  have "root_id a = i \<or> root_id b = i" using par p by (auto simp: is_parent_def)
  moreover have "a = Pane i (tn_restoreIntentId n)" if "root_id a = i"
    using pane_shown [OF t(3) _ n(1) _ assms(3), of a] su(1) f that n(2) by simp
  moreover have "b = Pane i (tn_restoreIntentId n)" if "root_id b = i"
    using pane_shown [OF t(3) _ n(1) _ assms(3), of b] su(1) f that n(2) by simp
  ultimately have "\<exists>s. lifted_tree i t u s \<and> root_id s = sibling p i"
    using u f p by (cases "root_id a = i") (auto simp: lifted_tree_def sibling_def)
  then show ?thesis using u(2) by blast
qed

lemma first_leaf_shown:
  assumes "distinct (map tn_id (tl_nodes layout))"
  shows "shows_tree (tl_nodes layout) t \<Longrightarrow> findTerminalNode layout (root_id t) = Some n \<Longrightarrow>
    \<exists>m. first_leaf layout (Some n) = Some (Some m) \<and> tn_id m = hd (pane_ids t)"
proof (induction t arbitrary: n)
  case (Pane i x)
  then obtain m where "m \<in> set (tl_nodes layout)" "is_leaf i x m" by auto
  then have "m = n" using Pane.prems(2) node_in_iff [OF assms, of i m] by (auto simp: findTerminalNode_def is_leaf_def)
  then show ?case using \<open>is_leaf i x m\<close> by (simp add: is_leaf_def first_leaf.simps)
next
  case (Fork i d r a b)
  then obtain m where "m \<in> set (tl_nodes layout)" "is_fork i d r (root_id a) (root_id b) m" by auto
  then have m: "m = n" "tn_kind n = Split" "tn_firstChildId n = root_id a"
    using Fork.prems(2) node_in_iff [OF assms, of i m] by (auto simp: findTerminalNode_def is_fork_def)
  obtain k where k: "findTerminalNode layout (root_id a) = Some k" using shown_root [OF assms, of a] Fork.prems(1) by auto
  obtain l where "first_leaf layout (Some k) = Some (Some l)" "tn_id l = hd (pane_ids a)"
    using Fork.IH(1) [OF _ k] Fork.prems(1) by auto
  moreover have "pane_ids a \<noteq> []" by (induction a) simp_all
  ultimately show ?case using m k by (simp add: first_leaf.simps [of _ "Some n"])
qed

lemma pane_ids_nonempty [simp]: "pane_ids t \<noteq> []"
  by (induction t) simp_all

lemma filter_other [simp]: "k \<notin> set xs \<Longrightarrow> filter (\<lambda>j. j \<noteq> k) xs = xs"
  by (induction xs) auto

text \<open>What lifting a pane out does to the tree.\<close>

lemma lifted_facts:
  assumes "distinct (node_ids t)" "lifted_tree i t u s"
  defines "t' \<equiv> graft (root_id u) s t"
  obtains x where "set (node_ids t') = set (node_ids t) - {i, root_id u}" "distinct (node_ids t')"
    "length (node_ids t') + 2 = length (node_ids t)" "i \<noteq> root_id u" "i \<in> set (node_ids u)" "i \<notin> set (node_ids s)"
    "set (node_ids s) \<subseteq> set (node_ids u)" "root_id u \<notin> set (node_ids s)"
    "set (node_ids u) \<inter> set (node_ids t') = set (node_ids s)"
    "pane_ids t' = filter (\<lambda>j. j \<noteq> i) (pane_ids t)" "set (pane_ids s) \<subseteq> set (pane_ids t')"
    "intent_ids t' = filter (\<lambda>y. y \<noteq> x) (intent_ids t) \<or> \<not> distinct (intent_ids t)"
    "part (Pane i x) t" "tree_ok t \<longrightarrow> tree_ok t'"
proof -
  obtain d r x where u: "part u t" "u = Fork (root_id u) d r (Pane i x) s \<or> u = Fork (root_id u) d r s (Pane i x)"
    using assms(2) by (auto simp: lifted_tree_def)
  obtain n p y q where c: "around (root_id u) t n p y q" using graft_context [OF assms(1) part_root [OF u(1)]] by blast
  have t: "node_ids t = fst n @ node_ids u @ snd n" "pane_ids t = fst p @ pane_ids u @ snd p"
    "intent_ids t = fst y @ intent_ids u @ snd y" "ratios t = fst q @ ratios u @ snd q"
    using c graft_same [OF u(1) assms(1)] unfolding around_def by metis+
  have t': "node_ids t' = fst n @ node_ids s @ snd n" "pane_ids t' = fst p @ pane_ids s @ snd p"
    "intent_ids t' = fst y @ intent_ids s @ snd y" "ratios t' = fst q @ ratios s @ snd q"
    using c by (simp_all add: around_def t'_def)
  have ids: "node_ids u = root_id u # i # node_ids s \<or> node_ids u = root_id u # node_ids s @ [i]"
    "pane_ids u = i # pane_ids s \<or> pane_ids u = pane_ids s @ [i]"
    "intent_ids u = x # intent_ids s \<or> intent_ids u = intent_ids s @ [x]"
    "ratios u = r # ratios s"
    using u(2) by (metis append.simps append_Nil2 intent_ids.simps node_ids.simps pane_ids.simps ratios.simps)+
  have filter_out: "filter (\<lambda>j. j \<noteq> k) (xs @ l @ ys) = xs @ l' @ ys"
    if "distinct (xs @ l @ ys)" "l = k # l' \<or> l = l' @ [k]" for k :: string and xs l l' ys
    using that by auto
  have dp: "distinct (pane_ids t)" using distinct_pane_ids [OF assms(1)] .
  have "part (Pane i x) u" using u(2) by (metis part.simps part_refl)
  then have "part (Pane i x) t" using part_trans u(1) by blast
  moreover have "pane_ids t' = filter (\<lambda>j. j \<noteq> i) (pane_ids t)"
    unfolding t(2) t'(2) by (rule filter_out [symmetric]) (use dp t(2) ids(2) in auto)
  moreover have "intent_ids t' = filter (\<lambda>y. y \<noteq> x) (intent_ids t) \<or> \<not> distinct (intent_ids t)"
    unfolding t(3) t'(3) using filter_out [of "fst y" "intent_ids u" "snd y" x "intent_ids s"] ids(3) by auto
  moreover have "tree_ok t \<longrightarrow> tree_ok t'"
    unfolding tree_ok_def t t' using ids by auto
  moreover have "set (pane_ids s) \<subseteq> set (pane_ids t')" unfolding t'(2) by auto
  moreover have "set (node_ids t') = set (node_ids t) - {i, root_id u}" "distinct (node_ids t')"
    "length (node_ids t') + 2 = length (node_ids t)" "i \<noteq> root_id u" "i \<in> set (node_ids u)" "i \<notin> set (node_ids s)"
    "set (node_ids s) \<subseteq> set (node_ids u)" "root_id u \<notin> set (node_ids s)"
    "set (node_ids u) \<inter> set (node_ids t') = set (node_ids s)"
    using assms(1) ids(1) unfolding t(1) t'(1) by auto
  ultimately show thesis by (intro that [of x]) blast+
qed

section \<open>Closing a pane\<close>

lemma set_child_fields [simp]:
  "tl_restoreIntents (set_child p old new layout) = tl_restoreIntents layout"
  "tl_activePaneId (set_child p old new layout) = tl_activePaneId layout"
  "layout_texts (set_child p old new layout) = layout_texts layout"
  by (cases p; simp add: set_child_def update_node_def layout_texts_def)+

lemma commit_tree: "layout_texts c \<Longrightarrow> layout_tree c t \<Longrightarrow> commit layout c = (c, True)"
  using valid_layout_iff [of c] by (auto simp: commit_def)

lemma distinct_map_filter_other: "distinct (map f xs) \<Longrightarrow> distinct (map f (filter P xs))"
  by (induction xs) auto

lemma image_filter_other:
  "f ` set (filter (\<lambda>n. \<not> (f n = i \<or> f n = k)) xs) = f ` set xs - {i, k}"
  by auto

lemma pane_node:
  assumes "layout_tree layout t" "i \<in> set (pane_ids t)"
  shows "\<exists>n. findTerminalNode layout i = Some n \<and> n \<in> set (tl_nodes layout) \<and> tn_id n = i \<and> tn_kind n = Leaf"
proof -
  note t = layout_treeD [OF assms(1)]
  have "i \<in> tn_id ` set (tl_nodes layout)" using assms(2) pane_ids_sub [of t] t(6) by auto
  then obtain n where n: "n \<in> set (tl_nodes layout)" "tn_id n = i" by auto
  then show ?thesis using leaf_pane [OF t(4) n(1) t(2)] node_in_iff [OF t(4)] assms(2) by (auto simp: findTerminalNode_def)
qed

lemma shown_leaf:
  assumes "distinct (map tn_id ns)" "shows_tree ns t" "part (Pane i x) t" "n \<in> set ns" "tn_id n = i"
  shows "is_leaf i x n"
proof -
  obtain m where m: "m \<in> set ns" "is_leaf i x m" using part_shows [OF assms(3,2)] by auto
  then have "n = m" using same_key [OF assms(1,4), of m] assms(5) by (simp add: is_leaf_def)
  then show ?thesis using m(2) by simp
qed

lemma lift_shown:
  assumes root: "rooted layout t" and us: "lifted_tree i t u s"
    and moved: "moved = set_child (findParentNode layout (root_id u)) (root_id u) (root_id s) layout"
    and ns': "\<forall>m \<in> set (tl_nodes moved). tn_id m \<noteq> i \<and> tn_id m \<noteq> root_id u \<longrightarrow> m \<in> set ns'"
  shows "shows_tree ns' (graft (root_id u) s t) \<and> tl_rootNodeId moved = root_id (graft (root_id u) s t)"
proof -
  note t = rootedD [OF root]
  have u: "part u t" using us by (simp add: lifted_tree_def)
  obtain x where f: "i \<in> set (node_ids u)" "i \<notin> set (node_ids s)"
    "set (node_ids s) \<subseteq> set (node_ids u)" "root_id u \<notin> set (node_ids s)"
    using lifted_facts [OF t(4) us] by metis
  have s_shown: "shows_tree ns' s"
  proof (rule shows_mono)
    show "shows_tree (tl_nodes layout) s"
      using part_shows [OF u t(2)] us by (auto simp: lifted_tree_def) (metis shows_tree.simps(2))+
    show "\<forall>m \<in> set (tl_nodes layout). tn_id m \<in> set (node_ids s) \<longrightarrow> m \<in> set ns'"
    proof (intro ballI impI)
      fix m assume m: "m \<in> set (tl_nodes layout)" "tn_id m \<in> set (node_ids s)"
      then have "m \<in> set (tl_nodes moved)" using set_child_inside [OF root u m(1)] f(3) unfolding moved by blast
      moreover have "tn_id m \<noteq> i" "tn_id m \<noteq> root_id u" using m(2) f(2,4) by auto
      ultimately show "m \<in> set ns'" using ns' by blast
    qed
  qed
  have "root_id u \<in> set (node_ids u)" by simp
  then have "\<forall>m \<in> set (tl_nodes moved). tn_id m \<notin> set (node_ids u) \<longrightarrow> m \<in> set ns'"
    using f(1) ns' by metis
  from set_child_graft [OF root u moved this s_shown] show ?thesis .
qed

lemma close_tree:
  assumes "layout_texts layout" "layout_tree layout t" "i \<in> set (pane_ids t)" "2 \<le> length (pane_ids t)"
  shows "\<exists>layout' t' n. closeTerminalPane layout i = Some (layout', True) \<and> layout_texts layout' \<and> layout_tree layout' t'
    \<and> pane_ids t' = filter (\<lambda>j. j \<noteq> i) (pane_ids t) \<and> findTerminalNode layout i = Some n
    \<and> tl_restoreIntents layout' = filter (\<lambda>x. ti_id x \<noteq> tn_restoreIntentId n) (tl_restoreIntents layout)
    \<and> (tl_activePaneId layout \<noteq> i \<longrightarrow> tl_activePaneId layout' = tl_activePaneId layout)"
proof -
  note t = layout_treeD [OF assms(2)] and root = layout_rooted [OF assms(2)]
  have valid: "validTerminalWorkspaceLayout layout" using valid_layout_iff assms(1,2) by blast
  obtain n where n: "findTerminalNode layout i = Some n" "n \<in> set (tl_nodes layout)" "tn_id n = i" "tn_kind n = Leaf"
    using pane_node [OF assms(2,3)] by blast
  have i: "i \<in> set (node_ids t)" using assms(3) pane_ids_sub by blast
  have "i \<noteq> root_id t" using pane_shown [OF t(4,2) n(2) _ n(4)] n(3) assms(4) by (cases t) auto
  then obtain p where p: "findParentNode layout i = Some p" using find_parent(1) [OF root i] by auto
  obtain u s where us: "lifted_tree i t u s" "root_id u = tn_id p" "root_id s = sibling p i"
    using find_lifted [OF root n(1,4) p i] by blast
  then have u: "part u t" by (simp add: lifted_tree_def)
  define t' where "t' = graft (root_id u) s t"
  obtain x where f: "set (node_ids t') = set (node_ids t) - {i, root_id u}" "distinct (node_ids t')"
    "length (node_ids t') + 2 = length (node_ids t)" "i \<in> set (node_ids u)" "i \<notin> set (node_ids s)"
    "set (node_ids s) \<subseteq> set (node_ids u)" "root_id u \<notin> set (node_ids s)"
    "pane_ids t' = filter (\<lambda>j. j \<noteq> i) (pane_ids t)" "set (pane_ids s) \<subseteq> set (pane_ids t')"
    "intent_ids t' = filter (\<lambda>y. y \<noteq> x) (intent_ids t)" "part (Pane i x) t" "tree_ok t'"
    using lifted_facts [OF t(5) us(1)] t(3,8) unfolding t'_def by metis
  have nx: "tn_restoreIntentId n = x" using shown_leaf [OF t(4,2) f(11) n(2,3)] by (simp add: is_leaf_def)
  define moved where "moved = set_child (findParentNode layout (tn_id p)) (tn_id p) (sibling p i) layout"
  define c where "c = moved\<lparr>tl_nodes := filter (\<lambda>n. \<not> (tn_id n = i \<or> tn_id n = tn_id p)) (tl_nodes moved),
    tl_restoreIntents := filter (\<lambda>t. ti_id t \<noteq> x) (tl_restoreIntents moved)\<rparr>"
  have ids: "map tn_id (tl_nodes moved) = map tn_id (tl_nodes layout)" by (simp add: moved_def)
  have moved_eq: "moved = set_child (findParentNode layout (root_id u)) (root_id u) (root_id s) layout"
    by (simp add: moved_def us(2,3))
  have c_tree: "shows_tree (tl_nodes c) t'" "tl_rootNodeId c = root_id t'"
    using lift_shown [OF root us(1) moved_eq, of "tl_nodes c"] us(2) unfolding t'_def by (simp_all add: c_def)
  have moved_ids: "tn_id ` set (tl_nodes moved) = tn_id ` set (tl_nodes layout)"
    using ids by (metis list.set_map)
  have c_nodes: "distinct (map tn_id (tl_nodes c))" "tn_id ` set (tl_nodes c) = tn_id ` set (tl_nodes layout) - {i, tn_id p}"
    using distinct_map_filter_other [of tn_id "tl_nodes moved"] t(4) ids
      image_filter_other [of tn_id i "tn_id p" "tl_nodes moved"] moved_ids by (simp_all add: c_def)
  have c_intents: "distinct (map ti_id (tl_restoreIntents c))"
    "ti_id ` set (tl_restoreIntents c) = ti_id ` set (tl_restoreIntents layout) - {x}"
    using t(7) distinct_map_filter_other [of ti_id "tl_restoreIntents layout"] by (auto simp: c_def moved_def)
  have intents: "distinct (intent_ids t')" "set (intent_ids t') = set (intent_ids t) - {x}"
    using t(8) unfolding f(10) by auto
  have "length (node_ids t) \<le> maximumTerminalNodesPerWorkspace" "length (intent_ids t) \<le> maximumTerminalPanesPerWorkspace"
    using assms(2) unfolding layout_tree_def by blast+
  then have lens: "length (node_ids t') \<le> maximumTerminalNodesPerWorkspace"
    "length (pane_ids t') \<le> maximumTerminalPanesPerWorkspace"
    using f(3) length_filter_le [of "\<lambda>y. y \<noteq> x" "intent_ids t"] unfolding length_intent_ids [symmetric] f(10) by simp_all
  have "layout_tree (c\<lparr>tl_activePaneId := j\<rparr>) t'" if "j \<in> set (pane_ids t')" for j
    using that c_tree c_nodes c_intents f(1,2,12) t(4,6,7,8,9) us(2) lens intents by (simp add: layout_tree_def)
  moreover have "layout_texts (c\<lparr>tl_activePaneId := j\<rparr>)" for j
    using assms(1) by (auto simp: c_def moved_def layout_texts_def list_all_iff set_child_def update_node_def split: option.splits)
  ultimately have ready: "commit layout (c\<lparr>tl_activePaneId := j\<rparr>) = (c\<lparr>tl_activePaneId := j\<rparr>, True)"
    "layout_texts (c\<lparr>tl_activePaneId := j\<rparr>)" "layout_tree (c\<lparr>tl_activePaneId := j\<rparr>) t'"
    if "j \<in> set (pane_ids t')" for j using commit_tree that by blast+
  have "length (tl_restoreIntents layout) = length (pane_ids t)"
    using same_lengths [OF t(8,7,9)] by simp
  then have many: "\<not> length (tl_restoreIntents layout) \<le> 1" using assms(4) by simp
  have act: "tl_activePaneId c = tl_activePaneId layout" by (simp add: c_def moved_def)
  have close: "closeTerminalPane layout i = (if tl_activePaneId c = i
      then (case first_leaf c (findTerminalNode c (sibling p i)) of
              None \<Rightarrow> None
            | Some None \<Rightarrow> Some (layout, False)
            | Some (Some n) \<Rightarrow> Some (commit layout (c\<lparr>tl_activePaneId := tn_id n\<rparr>)))
      else Some (commit layout c))"
    using valid many n(4) unfolding closeTerminalPane_def n(1) p option.case prod.case Let_def c_def moved_def nx
    by simp
  have "part s t'" using part_graft [OF u, of s] t(5) unfolding t'_def by simp
  then have s_shown: "shows_tree (tl_nodes c) s" using part_shows c_tree(1) by blast
  obtain k where k: "findTerminalNode c (sibling p i) = Some k" using shown_root [OF c_nodes(1) s_shown] us(3) by auto
  then obtain m where m: "first_leaf c (Some k) = Some (Some m)" "tn_id m = hd (pane_ids s)"
    using first_leaf_shown [OF c_nodes(1) s_shown, of k] us(3) by auto
  have "\<exists>j. closeTerminalPane layout i = Some (c\<lparr>tl_activePaneId := j\<rparr>, True) \<and> j \<in> set (pane_ids t')
      \<and> (tl_activePaneId layout \<noteq> i \<longrightarrow> j = tl_activePaneId layout)"
  proof (cases "tl_activePaneId layout = i")
    case True
    have "hd (pane_ids s) \<in> set (pane_ids t')" using f(9) by auto
    then show ?thesis using close k m True ready(1) act by auto
  next
    case False
    then have "tl_activePaneId layout \<in> set (pane_ids t')" using t(10) f(8) by simp
    moreover have same: "c\<lparr>tl_activePaneId := tl_activePaneId layout\<rparr> = c" using act by (cases c) simp
    ultimately have "commit layout c = (c, True)" using ready(1) [of "tl_activePaneId layout"] by simp
    then show ?thesis using close False act same \<open>tl_activePaneId layout \<in> set (pane_ids t')\<close>
      by (intro exI [of _ "tl_activePaneId layout"]) simp
  qed
  then obtain j where j: "closeTerminalPane layout i = Some (c\<lparr>tl_activePaneId := j\<rparr>, True)" "j \<in> set (pane_ids t')"
    "tl_activePaneId layout \<noteq> i \<longrightarrow> j = tl_activePaneId layout" by blast
  then show ?thesis using ready(2,3) [OF j(2)] f(8) n(1) nx
    by (intro exI [of _ "c\<lparr>tl_activePaneId := j\<rparr>"] exI [of _ t'] exI [of _ n]) (simp add: c_def moved_def)
qed

section \<open>Putting a pane beside another\<close>

definition place_beside :: "string \<Rightarrow> string \<Rightarrow> bool \<Rightarrow> string list \<Rightarrow> string list" where
  "place_beside i new after xs =
     concat (map (\<lambda>j. if j = i then (if after then [i, new] else [new, i]) else [j]) xs)"

lemma place_beside_other [simp]: "i \<notin> set xs \<Longrightarrow> place_beside i new after xs = xs"
  by (induction xs) (auto simp: place_beside_def)

lemma place_beside_append:
  "place_beside i new after (xs @ ys) = place_beside i new after xs @ place_beside i new after ys"
  by (simp add: place_beside_def)

lemma place_beside_one: "place_beside i new after [i] = (if after then [i, new] else [new, i])"
  by (simp add: place_beside_def)

definition pair_tree ::
  "string \<Rightarrow> TerminalSplitOrientation \<Rightarrow> float64 \<Rightarrow> bool \<Rightarrow> PaneTree \<Rightarrow> PaneTree \<Rightarrow> PaneTree" where
  "pair_tree k d r after a b = (if after then Fork k d r a b else Fork k d r b a)"

lemma tree_count: "Suc (length (node_ids t)) = 2 * length (pane_ids t)"
  by (induction t) auto

lemma beside_facts:
  fixes d r after y
  assumes "distinct (node_ids t)" "part (Pane i x) t" "k \<notin> set (node_ids t)" "new \<notin> set (node_ids t)" "k \<noteq> new"
  defines "t' \<equiv> graft i (pair_tree k d r after (Pane i x) (Pane new y)) t"
  shows "set (node_ids t') = set (node_ids t) \<union> {k, new} \<and> distinct (node_ids t')
    \<and> length (node_ids t') = length (node_ids t) + 2
    \<and> pane_ids t' = place_beside i new after (pane_ids t)
    \<and> length (intent_ids t') = Suc (length (intent_ids t))
    \<and> set (intent_ids t') = set (intent_ids t) \<union> {y}
    \<and> (distinct (intent_ids t) \<longrightarrow> y \<notin> set (intent_ids t) \<longrightarrow> distinct (intent_ids t'))
    \<and> (tree_ok t \<longrightarrow> validBoundedText k 128 False \<longrightarrow> validBoundedText new 128 False \<longrightarrow>
        validBoundedText y 128 False \<longrightarrow> ratio_ok r \<longrightarrow> tree_ok t')"
proof -
  let ?s = "pair_tree k d r after (Pane i x) (Pane new y)"
  have i: "i \<in> set (node_ids t)" using part_root [OF assms(2)] by simp
  obtain n p z q where c: "around i t n p z q" using graft_context [OF assms(1) i] by blast
  have "graft i (Pane i x) t = t" using graft_same [OF assms(2,1)] by simp
  then have t: "node_ids t = fst n @ [i] @ snd n" "pane_ids t = fst p @ [i] @ snd p"
    "intent_ids t = fst z @ [x] @ snd z" "ratios t = fst q @ snd q"
    using c unfolding around_def by (metis node_ids.simps(1), metis pane_ids.simps(1), metis intent_ids.simps(1),
      metis ratios.simps(1) append_Nil)
  have t': "node_ids t' = fst n @ node_ids ?s @ snd n" "pane_ids t' = fst p @ pane_ids ?s @ snd p"
    "intent_ids t' = fst z @ intent_ids ?s @ snd z" "ratios t' = fst q @ ratios ?s @ snd q"
    using c by (simp_all add: around_def t'_def)
  have "i \<notin> set (fst p)" "i \<notin> set (snd p)" using distinct_pane_ids [OF assms(1)] t(2) by auto
  then have "pane_ids t' = place_beside i new after (pane_ids t)"
    unfolding t(2) t'(2) place_beside_append by (simp add: place_beside_one pair_tree_def)
  moreover have "set (node_ids t') = set (node_ids t) \<union> {k, new}" "distinct (node_ids t')"
    "length (node_ids t') = length (node_ids t) + 2"
    using assms(1,3-5) unfolding t(1) t'(1) by (auto simp: pair_tree_def)
  moreover have "length (intent_ids t') = Suc (length (intent_ids t))" "set (intent_ids t') = set (intent_ids t) \<union> {y}"
    "distinct (intent_ids t) \<longrightarrow> y \<notin> set (intent_ids t) \<longrightarrow> distinct (intent_ids t')"
    unfolding t(3) t'(3) by (auto simp: pair_tree_def)
  moreover have "tree_ok t \<longrightarrow> validBoundedText k 128 False \<longrightarrow> validBoundedText new 128 False \<longrightarrow>
      validBoundedText y 128 False \<longrightarrow> ratio_ok r \<longrightarrow> tree_ok t'"
    unfolding tree_ok_def t t' by (auto simp: pair_tree_def)
  ultimately show ?thesis by blast
qed

lemma beside_shown:
  assumes "rooted layout t" "part (Pane i x) t"
    and moved: "moved = set_child (findParentNode layout i) i k layout"
    and ns': "set (tl_nodes moved) \<subseteq> set ns'" "is_leaf new y m" "m \<in> set ns'"
    and fork: "split_node k (if after then i else new) (if after then new else i) d r \<in> set ns'"
  defines "s \<equiv> pair_tree k d r after (Pane i x) (Pane new y)"
  shows "shows_tree ns' (graft i s t) \<and> tl_rootNodeId moved = root_id (graft i s t)"
proof -
  note t = rootedD [OF assms(1)]
  have k: "root_id s = k" by (simp add: s_def pair_tree_def)
  obtain n where n: "n \<in> set (tl_nodes layout)" "is_leaf i x n" using part_shows [OF assms(2) t(2)] by auto
  then have "n \<in> set ns'" using set_child_inside [OF assms(1,2) n(1), of k] ns'(1) moved by (auto simp: is_leaf_def)
  then have "\<exists>n \<in> set ns'. is_leaf i x n" "\<exists>n \<in> set ns'. is_leaf new y n" using n(2) ns'(2,3) by blast+
  moreover have "is_fork k d r (if after then i else new) (if after then new else i)
      (split_node k (if after then i else new) (if after then new else i) d r)"
    by (simp add: is_fork_def split_node_def)
  ultimately have s: "shows_tree ns' s" using fork unfolding s_def pair_tree_def by auto
  have m: "moved = set_child (findParentNode layout (root_id (Pane i x))) (root_id (Pane i x)) (root_id s) layout"
    using moved k by simp
  show ?thesis using set_child_graft [OF assms(1,2) m _ s] ns'(1) by auto
qed

lemma update_first_append: "x \<in> set xs \<Longrightarrow> P x \<Longrightarrow> update_first P f (xs @ ys) = update_first P f xs @ ys"
  by (induction xs) auto

lemma set_child_extend:
  "tl_nodes (set_child (findParentNode layout i) i k (layout\<lparr>tl_nodes := tl_nodes layout @ extra, tl_restoreIntents := xs\<rparr>))
      = tl_nodes (set_child (findParentNode layout i) i k layout) @ extra
    \<and> tl_rootNodeId (set_child (findParentNode layout i) i k (layout\<lparr>tl_nodes := tl_nodes layout @ extra, tl_restoreIntents := xs\<rparr>))
      = tl_rootNodeId (set_child (findParentNode layout i) i k layout)"
proof (cases "findParentNode layout i")
  case (Some p)
  then have "p \<in> set (tl_nodes layout)" using find_Some_in [of "is_parent i" "tl_nodes layout" p] by (simp add: findParentNode_def)
  then show ?thesis using Some by (simp add: set_child_def update_node_def update_first_append [of p])
qed (simp add: set_child_def)

lemma split_tree:
  assumes "layout_texts layout" "layout_tree layout t" "i \<in> set (pane_ids t)"
    and "length (pane_ids t) < maximumTerminalPanesPerWorkspace"
    and "validBoundedText k 128 False" "validBoundedText new 128 False" "validRestoreIntent intent" "ratio_ok r"
    and "k \<notin> set (node_ids t)" "new \<notin> set (node_ids t)" "ti_id intent \<notin> set (intent_ids t)" "k \<noteq> new"
  shows "\<exists>layout' t'. splitTerminalPane layout i k new intent d r after = (layout', True)
    \<and> layout_texts layout' \<and> layout_tree layout' t' \<and> pane_ids t' = place_beside i new after (pane_ids t)
    \<and> tl_restoreIntents layout' = tl_restoreIntents layout @ [intent] \<and> tl_activePaneId layout' = new"
proof -
  note t = layout_treeD [OF assms(2)] and root = layout_rooted [OF assms(2)]
  have valid: "validTerminalWorkspaceLayout layout" using valid_layout_iff assms(1,2) by blast
  obtain n where n: "findTerminalNode layout i = Some n" "n \<in> set (tl_nodes layout)" "tn_id n = i" "tn_kind n = Leaf"
    using pane_node [OF assms(2,3)] by blast
  obtain u where u: "part u t" "root_id u = i" using part_exists [of i t] assms(3) pane_ids_sub by blast
  then obtain x where x: "part (Pane i x) t"
    using pane_shown [OF t(4) part_shows [OF u(1) t(2)] n(2) _ n(4)] n(3) by metis
  let ?s = "pair_tree k d r after (Pane i x) (Pane new (ti_id intent))"
  let ?t = "graft i ?s t"
  define extra where "extra = [leaf_node new (ti_id intent),
    split_node k (if after then i else new) (if after then new else i) d r]"
  define moved where "moved = set_child (findParentNode layout i) i k layout"
  define c where "c = set_child (findParentNode layout i) i k
    (layout\<lparr>tl_nodes := tl_nodes layout @ extra, tl_restoreIntents := tl_restoreIntents layout @ [intent]\<rparr>)
      \<lparr>tl_activePaneId := new\<rparr>"
  have nodes: "tl_nodes c = tl_nodes moved @ extra" "tl_rootNodeId c = tl_rootNodeId moved"
    unfolding c_def moved_def using set_child_extend [of layout i k _ extra] by simp_all
  have shown: "shows_tree (tl_nodes c) ?t \<and> tl_rootNodeId moved = root_id ?t"
    by (rule beside_shown [OF root x moved_def, of _ new "ti_id intent" "leaf_node new (ti_id intent)"])
      (auto simp: nodes extra_def is_leaf_def leaf_node_def)
  note facts = beside_facts [OF t(5) x assms(9,10,12), of d r after "ti_id intent"]
  have y: "validBoundedText (ti_id intent) 128 False" using assms(7) by (simp add: validRestoreIntent_def split: if_split_asm)
  have ids: "map tn_id (tl_nodes c) = map tn_id (tl_nodes layout) @ [new, k]"
    by (simp add: nodes moved_def extra_def leaf_node_def split_node_def)
  have "distinct (map tn_id (tl_nodes c))" unfolding ids using t(4,6) assms(9,10,12) by auto
  moreover have "set (map tn_id (tl_nodes c)) = set (node_ids ?t)" unfolding ids using t(6) facts by auto
  moreover have c_intents: "tl_restoreIntents c = tl_restoreIntents layout @ [intent]" "tl_activePaneId c = new"
    by (simp_all add: c_def)
  moreover have "distinct (map ti_id (tl_restoreIntents c))" "ti_id ` set (tl_restoreIntents c) = set (intent_ids ?t)"
    unfolding c_intents using t(7,9) assms(11) facts by auto
  moreover have "new \<in> set (pane_ids ?t)" using facts assms(3) by (auto simp: place_beside_def)
  moreover have panes: "length (pane_ids ?t) = Suc (length (pane_ids t))"
    using facts unfolding length_intent_ids by blast
  moreover have "length (node_ids ?t) \<le> maximumTerminalNodesPerWorkspace"
    using panes assms(4) tree_count [of ?t]
    unfolding maximumTerminalNodesPerWorkspace_def maximumTerminalPanesPerWorkspace_def by linarith
  ultimately have tree: "layout_tree c ?t"
    using shown nodes(2) facts t(3,8) assms(4,5,6,8,11) y by (simp add: layout_tree_def)
  have texts: "layout_texts c" using assms(1,7)
    by (auto simp: c_def layout_texts_def set_child_def update_node_def split: option.split)
  have fresh: "findTerminalNode layout k = None" "findTerminalNode layout new = None"
    "findRestoreIntent layout (ti_id intent) = None"
    using assms(9-11) t(6,9) by (simp_all add: findTerminalNode_def findRestoreIntent_def find_key_None)
  have "length (tl_restoreIntents layout) = length (pane_ids t)" using same_lengths [OF t(8,7,9)] by simp
  then have "splitTerminalPane layout i k new intent d r after = commit layout c"
    using valid assms(4-8) fresh n(4) unfolding splitTerminalPane_def n(1) option.case Let_def c_def extra_def by simp
  then show ?thesis using commit_tree [OF texts tree] texts tree facts
    by (intro exI [of _ c] exI [of _ ?t]) (simp add: c_def)
qed

section \<open>Moving a pane\<close>

lemma set_child_kinds:
  "m \<in> set (tl_nodes (set_child p old new layout)) \<Longrightarrow>
    \<exists>n \<in> set (tl_nodes layout). tn_id n = tn_id m \<and> tn_kind n = tn_kind m"
proof -
  have "m \<in> set (update_first P f xs) \<Longrightarrow> m \<in> set xs \<or> (\<exists>n \<in> set xs. m = f n)"
    for P and f :: "TerminalLayoutNode \<Rightarrow> TerminalLayoutNode" and xs
    using set_update_first [of P f xs] by auto
  then show "m \<in> set (tl_nodes (set_child p old new layout)) \<Longrightarrow> ?thesis"
    by (cases p) (fastforce simp: set_child_def update_node_def split: if_split_asm)+
qed

text \<open>The layout while a pane is lifted out.\<close>

lemma lifted_rooted:
  assumes tree: "layout_tree layout t" and us: "lifted_tree i t u s" and leaf: "n \<in> set (tl_nodes layout)" "tn_id n = i" "tn_kind n = Leaf"
    and moved: "moved = set_child (findParentNode layout (root_id u)) (root_id u) (root_id s) layout"
  defines "removed \<equiv> moved\<lparr>tl_nodes := filter (\<lambda>n. tn_id n \<noteq> root_id u) (tl_nodes moved)\<rparr>"
  shows "rooted removed (graft (root_id u) s t)" "n \<in> set (tl_nodes removed)"
    "tn_id ` set (tl_nodes removed) = set (node_ids t) - {root_id u}"
proof -
  note t = layout_treeD [OF tree] and root = layout_rooted [OF tree]
  have u: "part u t" using us by (simp add: lifted_tree_def)
  obtain x where f: "set (node_ids (graft (root_id u) s t)) = set (node_ids t) - {i, root_id u}"
    "distinct (node_ids (graft (root_id u) s t))" "i \<noteq> root_id u" "i \<in> set (node_ids u)"
    using lifted_facts [OF t(5) us] by metis
  have ids: "map tn_id (tl_nodes moved) = map tn_id (tl_nodes layout)" by (simp add: moved)
  have "shows_tree (tl_nodes removed) (graft (root_id u) s t) \<and> tl_rootNodeId moved = root_id (graft (root_id u) s t)"
    by (rule lift_shown [OF root us moved]) (simp add: removed_def)
  moreover have "distinct (map tn_id (tl_nodes removed))"
    using distinct_map_filter_other [of tn_id "tl_nodes moved"] ids t(4) by (simp add: removed_def)
  moreover have "tn_id m \<in> set (node_ids (graft (root_id u) s t))" if m: "m \<in> set (tl_nodes removed)" "tn_kind m = Split" for m
  proof -
    have "m \<in> set (tl_nodes moved)" using m(1) by (simp add: removed_def)
    from set_child_kinds [OF this [unfolded moved]] obtain m' where
      m': "m' \<in> set (tl_nodes layout)" "tn_id m' = tn_id m" "tn_kind m' = Split" using m(2) by auto
    then have "tn_id m \<noteq> i" using same_key [OF t(4) m'(1) leaf(1)] leaf(2,3) by auto
    moreover have "tn_id m \<in> set (node_ids t)" using m'(1,2) t(6) by (metis imageI)
    ultimately show ?thesis using f(1) m(1) by (simp add: removed_def)
  qed
  ultimately show "rooted removed (graft (root_id u) s t)" using f(2) by (simp add: rooted_def removed_def)
  show "n \<in> set (tl_nodes removed)"
    using set_child_inside [OF root u leaf(1), of "root_id s"] leaf(2) f(3,4) by (simp add: removed_def moved)
  have "tn_id ` set (tl_nodes moved) = set (node_ids t)" using ids t(6) by (metis list.set_map)
  then show "tn_id ` set (tl_nodes removed) = set (node_ids t) - {root_id u}" by (auto simp: removed_def)
qed

lemma ratio_half_ok: "ratio_ok ratio_half"
  by (simp add: ratio_ok_def isfinite_def ratio_half_def minimumTerminalSplitRatio_def maximumTerminalSplitRatio_def)

lemma leaf_kept:
  assumes "n \<in> set (tl_nodes layout)" "tn_kind n = Leaf" "distinct (map tn_id (tl_nodes layout))"
  shows "n \<in> set (tl_nodes (set_child (findParentNode layout i) i k layout))"
proof (cases "findParentNode layout i")
  case (Some p)
  then have p: "p \<in> set (tl_nodes layout)" "tn_kind p = Split"
    using find_Some_in [of "is_parent i" "tl_nodes layout" p] by (simp_all add: findParentNode_def is_parent_def)
  then have "tn_id n \<noteq> tn_id p" using same_key [OF assms(3,1) p(1)] assms(2) by auto
  then show ?thesis using Some assms(1) by (simp add: set_child_def update_node_def update_first_mem(1))
qed (use assms(1) in \<open>simp add: set_child_def\<close>)

lemma part_intents: "part u t \<Longrightarrow> set (intent_ids u) \<subseteq> set (intent_ids t)"
  by (induction t) auto

lemma length_filter_one: "distinct xs \<Longrightarrow> x \<in> set xs \<Longrightarrow> Suc (length (filter (\<lambda>y. y \<noteq> x) xs)) = length xs"
  by (induction xs) auto

lemma tree_ok_pane: "part (Pane i x) t \<Longrightarrow> tree_ok t \<Longrightarrow> validBoundedText i 128 False \<and> validBoundedText x 128 False"
  using part_size [of "Pane i x" t] by (simp add: tree_ok_def)

lemma move_tree:
  assumes "layout_texts layout" "layout_tree layout t" "i \<in> set (pane_ids t)" "g \<in> set (pane_ids t)" "i \<noteq> g"
    and "validBoundedText k 128 False" "k \<notin> set (node_ids t)"
    and p: "findParentNode layout i = Some p" and us: "lifted_tree i t u s" "root_id u = tn_id p" "root_id s = sibling p i"
    and slot: "\<not> (sibling p i = g \<and> tn_orientation p = d \<and> (tn_secondChildId p = i) = after)"
  shows "\<exists>layout' t'. moveTerminalPane layout i g k d after = (layout', True)
    \<and> layout_texts layout' \<and> layout_tree layout' t' \<and> pane_ids t' = place_beside g i after (filter (\<lambda>j. j \<noteq> i) (pane_ids t))
    \<and> tl_restoreIntents layout' = tl_restoreIntents layout \<and> tl_activePaneId layout' = i"
proof -
  note t = layout_treeD [OF assms(2)] and root = layout_rooted [OF assms(2)]
  have valid: "validTerminalWorkspaceLayout layout" using valid_layout_iff assms(1,2) by blast
  obtain n where n: "findTerminalNode layout i = Some n" "n \<in> set (tl_nodes layout)" "tn_id n = i" "tn_kind n = Leaf"
    using pane_node [OF assms(2,3)] by blast
  obtain n' where n': "findTerminalNode layout g = Some n'" "tn_kind n' = Leaf" using pane_node [OF assms(2,4)] by blast
  define t1 where "t1 = graft (root_id u) s t"
  obtain x where f: "set (node_ids t1) = set (node_ids t) - {i, root_id u}" "distinct (node_ids t1)"
    "length (node_ids t1) + 2 = length (node_ids t)" "pane_ids t1 = filter (\<lambda>j. j \<noteq> i) (pane_ids t)"
    "intent_ids t1 = filter (\<lambda>y. y \<noteq> x) (intent_ids t)" "part (Pane i x) t" "tree_ok t1" "i \<noteq> root_id u"
    using lifted_facts [OF t(5) us(1)] t(3,8) unfolding t1_def by metis
  have nx: "is_leaf i x n" by (rule shown_leaf [OF t(4,2) f(6) n(2,3)])
  define moved where "moved = set_child (findParentNode layout (root_id u)) (root_id u) (root_id s) layout"
  define removed where "removed = moved\<lparr>tl_nodes := filter (\<lambda>n. tn_id n \<noteq> root_id u) (tl_nodes moved)\<rparr>"
  note r = lifted_rooted [OF assms(2) us(1) n(2-4) moved_def, folded removed_def t1_def]
  note rt = rootedD [OF r(1)]
  have g: "g \<in> set (pane_ids t1)" using f(4) assms(4,5) by simp
  obtain v where v: "part v t1" "root_id v = g" using part_exists [of g t1] g pane_ids_sub by blast
  then obtain m where m: "findTerminalNode removed g = Some m" "tn_id m = g" "m \<in> set (tl_nodes removed)"
    using shown_root [OF rt(3) part_shows [OF v(1) rt(2)]] by blast
  have "tn_kind m = Leaf" using leaf_pane [OF rt(3) m(3) rt(2)] m(2) g by simp
  then obtain z where z: "part (Pane g z) t1"
    using pane_shown [OF rt(3) part_shows [OF v(1) rt(2)] m(3)] m(2) v by metis
  let ?t = "graft g (pair_tree k d ratio_half after (Pane g z) (Pane i x)) t1"
  define extra where "extra = [split_node k (if after then g else i) (if after then i else g) d ratio_half]"
  define moved2 where "moved2 = set_child (findParentNode removed g) g k removed"
  define c where "c = set_child (findParentNode removed g) g k (removed\<lparr>tl_nodes := tl_nodes removed @ extra\<rparr>)\<lparr>tl_activePaneId := i\<rparr>"
  have nodes: "tl_nodes c = tl_nodes moved2 @ extra" "tl_rootNodeId c = tl_rootNodeId moved2"
    unfolding c_def moved2_def using set_child_extend [of removed g k "tl_restoreIntents removed" extra] by simp_all
  have "n \<in> set (tl_nodes c)" using leaf_kept [OF r(2) n(4) rt(3)] by (simp add: nodes moved2_def)
  then have shown: "shows_tree (tl_nodes c) ?t \<and> tl_rootNodeId moved2 = root_id ?t"
    by (intro beside_shown [OF r(1) z moved2_def _ nx]) (auto simp: nodes extra_def)
  have new: "k \<notin> set (node_ids t1)" "i \<notin> set (node_ids t1)" "k \<noteq> i" "x \<notin> set (intent_ids t1)"
    using f(1,5) assms(3,7) pane_ids_sub [of t] by auto
  note facts = beside_facts [OF f(2) z new(1-3), of d ratio_half after x]
  have ids: "map tn_id (tl_nodes c) = map tn_id (tl_nodes removed) @ [k]"
    by (simp add: nodes moved2_def extra_def split_node_def)
  have ik: "root_id u \<in> set (node_ids t)" "i \<in> set (node_ids t)" using part_root us(1) f(6) by (auto simp: lifted_tree_def dest: part_root)
  have "distinct (map tn_id (tl_nodes c))" unfolding ids using rt(3) r(3) assms(7) by auto
  moreover have "set (map tn_id (tl_nodes c)) = set (node_ids ?t)" unfolding ids using r(3) facts f(1,8) ik by auto
  moreover have c_intents: "tl_restoreIntents c = tl_restoreIntents layout" "tl_activePaneId c = i"
    by (simp_all add: c_def removed_def moved_def)
  moreover have "x \<in> set (intent_ids t)" using part_intents [OF f(6)] by simp
  then have "set (intent_ids ?t) = ti_id ` set (tl_restoreIntents layout)" "distinct (intent_ids ?t)"
    "length (intent_ids ?t) = length (intent_ids t)"
    using facts t(8,9) f(5) new(4) length_filter_one [OF t(8)] by auto
  moreover have "i \<in> set (pane_ids ?t)" using facts g by (auto simp: place_beside_def)
  moreover have "length (node_ids ?t) = length (node_ids t)" using facts f(3) by simp
  ultimately have tree: "layout_tree c ?t"
    using shown nodes(2) facts t(3,7) assms(2,6) f(7) tree_ok_pane [OF f(6) t(3)] ratio_half_ok by (simp add: layout_tree_def)
  have texts: "layout_texts c" using assms(1)
    by (auto simp: c_def removed_def moved_def layout_texts_def set_child_def update_node_def split: option.split)
  have "findTerminalNode layout k = None" using assms(7) t(6) by (simp add: findTerminalNode_def find_key_None)
  then have "moveTerminalPane layout i g k d after = commit layout c"
    using valid assms(5,6) n(4) n'(2) slot m(1)
    unfolding moveTerminalPane_def n(1) n'(1) p option.case prod.case Let_def c_def extra_def removed_def moved_def us(2,3)
    by auto
  then show ?thesis using commit_tree [OF texts tree] texts tree facts f(4) c_intents
    by (intro exI [of _ c] exI [of _ ?t]) simp
qed

lemma lifted_part: "lifted_tree i t u s \<Longrightarrow> part s t"
  using part_trans [of s u t] by (auto simp: lifted_tree_def) (metis part.simps(2) part_refl)+

lemma same_slot:
  assumes "layout_tree layout t" "i \<noteq> g" "findParentNode layout i = Some p" "i \<in> set (node_ids t)"
    and us: "lifted_tree i t u (Pane g z)" "root_id u = tn_id p"
  shows "pane_ids t = place_beside g i (tn_secondChildId p = i) (filter (\<lambda>j. j \<noteq> i) (pane_ids t))"
proof -
  note t = layout_treeD [OF assms(1)]
  have p: "p \<in> set (tl_nodes layout)" using find_parent(2) [OF layout_rooted [OF assms(1)] assms(4,3)] by blast
  obtain d r x where u: "part u t" "u = Fork (root_id u) d r (Pane i x) (Pane g z) \<or> u = Fork (root_id u) d r (Pane g z) (Pane i x)"
    using us(1) by (auto simp: lifted_tree_def)
  have "\<exists>m \<in> set (tl_nodes layout). tn_id m = root_id u \<and> tn_secondChildId m = (if u = Fork (root_id u) d r (Pane i x) (Pane g z) then g else i)"
    using part_shows [OF u(1) t(2)] u(2) assms(2) by (auto simp: is_fork_def) (metis is_fork_def root_id.simps(1) shows_tree.simps(2))+
  then have second: "tn_secondChildId p = (if u = Fork (root_id u) d r (Pane i x) (Pane g z) then g else i)"
    using same_key [OF t(4) p] us(2) by metis
  obtain n q y w where c: "around (root_id u) t n q y w" using graft_context [OF t(5) part_root [OF u(1)]] by blast
  then have panes: "pane_ids t = fst q @ pane_ids u @ snd q" using graft_same [OF u(1) t(5)] unfolding around_def by metis
  have "pane_ids u = (if tn_secondChildId p = i then [g, i] else [i, g])"
    using u(2) second assms(2) by (auto split: if_splits) (metis append.simps pane_ids.simps)+
  then show ?thesis using panes distinct_pane_ids [OF t(5)] assms(2)
    by (auto simp: place_beside_append place_beside_one)
qed

section \<open>Properties\<close>

text \<open>C30. A layout is accepted by \<open>validTerminalWorkspaceLayout\<close> exactly when its names and intents are
  well formed and its nodes are one binary tree with the root \<open>rootNodeId\<close>: every node is used once,
  every intent by one leaf, at most 15 nodes and 8 leaves, and the active pane is a leaf.  The tree
  is unique, and \<open>terminalPaneOrder\<close> ends and lists its leaves from left to right.\<close>

theorem layout_is_tree:
  "(validTerminalWorkspaceLayout layout \<longleftrightarrow> layout_texts layout \<and> (\<exists>!t. layout_tree layout t))
   \<and> terminalPaneOrder layout
     = Some (if validTerminalWorkspaceLayout layout then pane_ids (THE t. layout_tree layout t) else [])"
proof -
  have unique: "t = t'" if "layout_tree layout t" "layout_tree layout t'" for t t'
    using shows_unique [OF layout_treeD(4,2) [OF that(1)] layout_treeD(2) [OF that(2)]]
      layout_treeD(1) [OF that(1)] layout_treeD(1) [OF that(2)] by simp
  have "terminalPaneOrder layout = Some (pane_ids (THE t. layout_tree layout t))"
    if valid: "validTerminalWorkspaceLayout layout"
  proof -
    obtain t where t: "layout_tree layout t" using valid valid_layout_iff by blast
    then have "(THE t. layout_tree layout t) = t" using unique by blast
    then show ?thesis using pane_order [OF valid t] by simp
  qed
  then show ?thesis using unique valid_layout_iff [of layout] by (auto simp: terminalPaneOrder_def)
qed

lemma valid_tree:
  assumes "validTerminalWorkspaceLayout layout" "terminalPaneOrder layout = Some order"
  obtains t where "layout_texts layout" "layout_tree layout t" "order = pane_ids t"
  using assms pane_order valid_layout_iff by (metis option.inject)

lemma tree_valid:
  assumes "layout_texts layout" "layout_tree layout t"
  shows "validTerminalWorkspaceLayout layout \<and> terminalPaneOrder layout = Some (pane_ids t)"
  using assms pane_order valid_layout_iff by blast

text \<open>C31. Closing a pane of a valid layout with at least two panes always succeeds (its search for the next
  active pane ends): the layout stays valid, the order of the other panes is kept, the closed pane
  and its restore intent are gone, and the active pane changes only when it was the closed one.\<close>

theorem close_pane:
  assumes "validTerminalWorkspaceLayout layout" "terminalPaneOrder layout = Some order"
    and "i \<in> set order" "2 \<le> length order"
  shows "\<exists>layout' n. closeTerminalPane layout i = Some (layout', True) \<and> validTerminalWorkspaceLayout layout'
    \<and> terminalPaneOrder layout' = Some (filter (\<lambda>j. j \<noteq> i) order) \<and> findTerminalNode layout i = Some n
    \<and> tl_restoreIntents layout' = filter (\<lambda>x. ti_id x \<noteq> tn_restoreIntentId n) (tl_restoreIntents layout)
    \<and> (tl_activePaneId layout = i \<or> tl_activePaneId layout' = tl_activePaneId layout)"
proof -
  obtain t where t: "layout_texts layout" "layout_tree layout t" "order = pane_ids t" by (rule valid_tree [OF assms(1,2)])
  obtain layout' t' n where c: "closeTerminalPane layout i = Some (layout', True)" "layout_texts layout'" "layout_tree layout' t'"
    "pane_ids t' = filter (\<lambda>j. j \<noteq> i) (pane_ids t)" "findTerminalNode layout i = Some n"
    "tl_restoreIntents layout' = filter (\<lambda>x. ti_id x \<noteq> tn_restoreIntentId n) (tl_restoreIntents layout)"
    "tl_activePaneId layout \<noteq> i \<longrightarrow> tl_activePaneId layout' = tl_activePaneId layout"
    using close_tree [OF t(1,2), of i] assms(3,4) t(3) by blast
  then show ?thesis using tree_valid [OF c(2,3)] t(3) by (intro exI [of _ layout'] exI [of _ n]) auto
qed

text \<open>Splitting a pane of a valid layout that has room for another always succeeds for names and an
  intent that are well formed and new: the layout stays valid, the new pane is placed directly
  before or after the split one in the order, its intent is added and it is active.\<close>

theorem split_pane:
  assumes "validTerminalWorkspaceLayout layout" "terminalPaneOrder layout = Some order"
    and "i \<in> set order" "length order < maximumTerminalPanesPerWorkspace"
    and "validBoundedText k 128 False" "validBoundedText new 128 False" "validRestoreIntent intent" "ratio_ok r" "k \<noteq> new"
    and "findTerminalNode layout k = None" "findTerminalNode layout new = None" "findRestoreIntent layout (ti_id intent) = None"
  shows "\<exists>layout'. splitTerminalPane layout i k new intent d r after = (layout', True)
    \<and> validTerminalWorkspaceLayout layout' \<and> terminalPaneOrder layout' = Some (place_beside i new after order)
    \<and> tl_restoreIntents layout' = tl_restoreIntents layout @ [intent] \<and> tl_activePaneId layout' = new"
proof -
  obtain t where t: "layout_texts layout" "layout_tree layout t" "order = pane_ids t" by (rule valid_tree [OF assms(1,2)])
  have "k \<notin> set (node_ids t)" "new \<notin> set (node_ids t)" "ti_id intent \<notin> set (intent_ids t)"
    using assms(10-12) layout_treeD(6,9) [OF t(2)]
    by (simp_all add: findTerminalNode_def findRestoreIntent_def find_key_None)
  from split_tree [OF t(1,2) _ _ assms(5-8) this assms(9), of i d after] assms(3,4) t(3)
  obtain layout' t' where c: "splitTerminalPane layout i k new intent d r after = (layout', True)"
    "layout_texts layout'" "layout_tree layout' t'" "pane_ids t' = place_beside i new after order"
    "tl_restoreIntents layout' = tl_restoreIntents layout @ [intent]" "tl_activePaneId layout' = new" by blast
  then show ?thesis using tree_valid [OF c(2,3)] by (intro exI [of _ layout']) simp
qed

text \<open>Moving a pane beside another of a valid layout always succeeds when the name of the new split is
  well formed and new: the layout stays valid with the same restore intents, and the pane is taken
  out of the order and placed directly before or after the target, nothing else moves.\<close>

theorem move_pane:
  assumes "validTerminalWorkspaceLayout layout" "terminalPaneOrder layout = Some order"
    and "i \<in> set order" "g \<in> set order" "i \<noteq> g" "validBoundedText k 128 False" "findTerminalNode layout k = None"
  shows "\<exists>layout'. moveTerminalPane layout i g k d after = (layout', True) \<and> validTerminalWorkspaceLayout layout'
    \<and> terminalPaneOrder layout' = Some (place_beside g i after (filter (\<lambda>j. j \<noteq> i) order))
    \<and> tl_restoreIntents layout' = tl_restoreIntents layout"
proof -
  obtain t where t: "layout_texts layout" "layout_tree layout t" "order = pane_ids t" by (rule valid_tree [OF assms(1,2)])
  note D = layout_treeD [OF t(2)] and root = layout_rooted [OF t(2)]
  have i: "i \<in> set (node_ids t)" using assms(3) t(3) pane_ids_sub by blast
  obtain n where n: "findTerminalNode layout i = Some n" "n \<in> set (tl_nodes layout)" "tn_id n = i" "tn_kind n = Leaf"
    using pane_node [OF t(2)] assms(3) t(3) by blast
  obtain m where m: "findTerminalNode layout g = Some m" "m \<in> set (tl_nodes layout)" "tn_id m = g" "tn_kind m = Leaf"
    using pane_node [OF t(2)] assms(4) t(3) by blast
  have "i \<noteq> root_id t"
    using pane_shown [OF D(4,2) n(2) _ n(4)] n(3) assms(3-5) t(3) by (cases t) auto
  then obtain p where p: "findParentNode layout i = Some p" using find_parent(1) [OF root i] by auto
  obtain u s where us: "lifted_tree i t u s" "root_id u = tn_id p" "root_id s = sibling p i"
    using find_lifted [OF root n(1,4) p i] by blast
  have k: "k \<notin> set (node_ids t)" using assms(7) D(6) by (simp add: findTerminalNode_def find_key_None)
  show ?thesis
  proof (cases "sibling p i = g \<and> tn_orientation p = d \<and> (tn_secondChildId p = i) = after")
    case True
    then have "moveTerminalPane layout i g k d after = (layout, True)"
      using assms(1,5-7) n m p by (auto simp: moveTerminalPane_def Let_def)
    moreover have "s = Pane g (tn_restoreIntentId m)"
      using pane_shown [OF D(4) _ m(2) _ m(4), of s] part_shows [OF _ D(2), of s] lifted_part [OF us(1)] us(3) True m(3) by simp
    ultimately show ?thesis using same_slot [OF t(2) assms(5) p i, of u "tn_restoreIntentId m"] us True assms(1,2) t(3) by auto
  next
    case False
    from move_tree [OF t(1,2) _ _ assms(5,6) k p us False] assms(3,4) t(3)
    obtain layout' t' where c: "moveTerminalPane layout i g k d after = (layout', True)" "layout_texts layout'"
      "layout_tree layout' t'" "pane_ids t' = place_beside g i after (filter (\<lambda>j. j \<noteq> i) order)"
      "tl_restoreIntents layout' = tl_restoreIntents layout" by blast
    then show ?thesis using tree_valid [OF c(2,3)] by (intro exI [of _ layout']) simp
  qed
qed

definition sample_intent :: "string \<Rightarrow> TerminalRestoreIntent" where
  "sample_intent i = \<lparr>ti_id = i, ti_profileId = [], ti_title = [], ti_kind = LocalKind, ti_manualTitle = []\<rparr>"

definition sample_layout :: TerminalWorkspaceLayout where
  "sample_layout = (makeSinglePaneTerminalWorkspace ''w'' ''r'' (sample_intent ''1''))
     \<lparr>tl_nodes := [leaf_node ''a'' ''1'', leaf_node ''b'' ''2'', split_node ''r'' ''a'' ''b'' Vertical ratio_half],
      tl_restoreIntents := [sample_intent ''1'', sample_intent ''2''], tl_activePaneId := ''b''\<rparr>"

lemma sample_layout_valid: "validTerminalWorkspaceLayout sample_layout"
  by code_simp

lemma sample_layout_order: "terminalPaneOrder sample_layout = Some [''a'', ''b'']"
  using sample_layout_valid
  by (simp add: terminalPaneOrder_def sample_layout_def makeSinglePaneTerminalWorkspace_def findTerminalNode_def
    leaf_node_def split_node_def order_loop.simps maximumTerminalNodesPerWorkspace_def)

lemma close_pane_witness:
  "\<exists>layout'. closeTerminalPane sample_layout ''b'' = Some (layout', True) \<and> terminalPaneOrder layout' = Some [''a'']"
  using close_pane [OF sample_layout_valid sample_layout_order, of "''b''"] by auto

lemma split_pane_witness:
  "\<exists>layout'. splitTerminalPane sample_layout ''a'' ''k'' ''c'' (sample_intent ''3'') Horizontal ratio_half True = (layout', True)
    \<and> terminalPaneOrder layout' = Some [''a'', ''c'', ''b'']"
proof -
  have "findTerminalNode sample_layout ''k'' = None" "findTerminalNode sample_layout ''c'' = None"
    "findRestoreIntent sample_layout (ti_id (sample_intent ''3'')) = None" "validRestoreIntent (sample_intent ''3'')"
    "validBoundedText ''k'' 128 False" "validBoundedText ''c'' 128 False"
    by code_simp+
  with split_pane [OF sample_layout_valid sample_layout_order, of "''a''" "''k''" "''c''" "sample_intent ''3''" ratio_half Horizontal True]
  show ?thesis by (auto simp: ratio_half_ok place_beside_def maximumTerminalPanesPerWorkspace_def)
qed

lemma move_pane_witness:
  "\<exists>layout'. moveTerminalPane sample_layout ''a'' ''b'' ''k'' Horizontal True = (layout', True)
    \<and> terminalPaneOrder layout' = Some [''b'', ''a'']"
proof -
  have "findTerminalNode sample_layout ''k'' = None" "validBoundedText ''k'' 128 False" by code_simp+
  with move_pane [OF sample_layout_valid sample_layout_order, of "''a''" "''b''" "''k''" Horizontal True]
  show ?thesis by (auto simp: place_beside_def)
qed

end
