(* ===== verification/Workspace_Transfer.thy ===== *)
theory Workspace_Transfer
  imports Pane_Operations
begin

text \<open>
  The saved state of the workbench and the transfer of panes between workspaces:
  \<open>src/domain/workbench/WorkspaceState\<close> and \<open>TerminalWorkspaceTransfer\<close>.  A reference to a workspace
  is its identifier, as the vector holds each identifier once in a valid state; the outer \<open>None\<close> of
  a transfer is undefined behaviour (the end iterator of a search is read) or a loop that does not
  end.
\<close>

section \<open>Profiles\<close>

record ProfileWorkspaceState =
  pw_profileId :: string
  pw_lastRemotePath :: string
  pw_recentRemotePaths :: "string list"
  pw_bookmarkedRemotePaths :: "string list"
  pw_workbenchPage :: string
  pw_workbenchSide :: string
  pw_sftpViewMode :: string
  pw_sftpSortColumn :: string
  pw_sftpFilenameEncoding :: string
  pw_followTerminalDirectory :: bool
  pw_sftpSortAscending :: bool
  pw_sftpDirectoriesFirst :: bool
  pw_sftpShowModifiedColumn :: bool
  pw_sftpShowSizeColumn :: bool
  pw_sftpShowTypeColumn :: bool
  pw_workbenchWidth :: float64
  pw_composerHeight :: float64

definition profile_new :: "string \<Rightarrow> ProfileWorkspaceState" where
  "profile_new profileId =
     \<lparr>pw_profileId = profileId, pw_lastRemotePath = ''/'', pw_recentRemotePaths = [],
      pw_bookmarkedRemotePaths = [], pw_workbenchPage = ''history'', pw_workbenchSide = ''left'',
      pw_sftpViewMode = ''list'', pw_sftpSortColumn = ''name'', pw_sftpFilenameEncoding = ''utf-8'',
      pw_followTerminalDirectory = False, pw_sftpSortAscending = True, pw_sftpDirectoriesFirst = True,
      pw_sftpShowModifiedColumn = True, pw_sftpShowSizeColumn = True, pw_sftpShowTypeColumn = False,
      pw_workbenchWidth = Finite 520, pw_composerHeight = Finite 132\<rparr>"

definition maximumRecentRemotePaths :: nat where "maximumRecentRemotePaths = 12"

definition maximumBookmarkedRemotePaths :: nat where "maximumBookmarkedRemotePaths = 32"

definition validRemotePath :: "string \<Rightarrow> bool" where
  "validRemotePath path \<longleftrightarrow> path \<noteq> [] \<and> length path \<le> 4096 \<and> hd path = CHR ''/'' \<and> CHR 0x00 \<notin> set path"

definition validPage :: "string \<Rightarrow> bool" where
  "validPage page \<longleftrightarrow> page = ''history'' \<or> page = ''scripts'' \<or> page = ''sftp'' \<or> page = ''notes'' \<or> page = ''ai''"

definition uniqueRemotePaths :: "string list \<Rightarrow> bool" where
  "uniqueRemotePaths paths = unique_by (\<lambda>p. p) paths"

definition validProfileWorkspaceState :: "ProfileWorkspaceState \<Rightarrow> bool" where
  "validProfileWorkspaceState s =
     (if pw_profileId s = [] \<or> length (pw_profileId s) > 256 \<or> \<not> validRemotePath (pw_lastRemotePath s)
         \<or> length (pw_recentRemotePaths s) > maximumRecentRemotePaths
         \<or> length (pw_bookmarkedRemotePaths s) > maximumBookmarkedRemotePaths \<or> \<not> validPage (pw_workbenchPage s)
         \<or> (pw_workbenchSide s \<noteq> ''left'' \<and> pw_workbenchSide s \<noteq> ''right'') \<or> \<not> isfinite (pw_workbenchWidth s)
         \<or> (pw_sftpViewMode s \<noteq> ''list'' \<and> pw_sftpViewMode s \<noteq> ''tree'')
         \<or> (pw_sftpSortColumn s \<noteq> ''name'' \<and> pw_sftpSortColumn s \<noteq> ''modified'' \<and> pw_sftpSortColumn s \<noteq> ''size''
             \<and> pw_sftpSortColumn s \<noteq> ''type'')
         \<or> (pw_sftpFilenameEncoding s \<noteq> ''utf-8'' \<and> pw_sftpFilenameEncoding s \<noteq> ''gb18030'')
         \<or> float_less (pw_workbenchWidth s) (Finite 320) \<or> float_less (Finite 960) (pw_workbenchWidth s)
         \<or> \<not> isfinite (pw_composerHeight s)
         \<or> float_less (pw_composerHeight s) (Finite 96) \<or> float_less (Finite 480) (pw_composerHeight s)
      then False
      else list_all validRemotePath (pw_recentRemotePaths s) \<and> list_all validRemotePath (pw_bookmarkedRemotePaths s)
        \<and> uniqueRemotePaths (pw_bookmarkedRemotePaths s))"

definition recordRecentRemotePath :: "string \<Rightarrow> ProfileWorkspaceState \<Rightarrow> ProfileWorkspaceState" where
  "recordRecentRemotePath remotePath s =
     (if \<not> validRemotePath remotePath then s
      else s\<lparr>pw_lastRemotePath := remotePath,
             pw_recentRemotePaths := take maximumRecentRemotePaths
               (remotePath # filter (\<lambda>p. p \<noteq> remotePath) (pw_recentRemotePaths s))\<rparr>)"

definition remotePathBookmarked :: "ProfileWorkspaceState \<Rightarrow> string \<Rightarrow> bool" where
  "remotePathBookmarked s remotePath \<longleftrightarrow> remotePath \<in> set (pw_bookmarkedRemotePaths s)"

definition toggleBookmarkedRemotePath ::
  "string \<Rightarrow> ProfileWorkspaceState \<Rightarrow> ProfileWorkspaceState \<times> bool" where
  "toggleBookmarkedRemotePath remotePath s =
     (if \<not> validRemotePath remotePath then (s, False)
      else if remotePath \<in> set (pw_bookmarkedRemotePaths s)
      then (s\<lparr>pw_bookmarkedRemotePaths := erase_first (\<lambda>p. p = remotePath) (pw_bookmarkedRemotePaths s)\<rparr>, False)
      else (s\<lparr>pw_bookmarkedRemotePaths :=
               take maximumBookmarkedRemotePaths (remotePath # pw_bookmarkedRemotePaths s)\<rparr>, True))"

section \<open>The state\<close>

record TerminalWindowState =
  tw_id :: string
  tw_selectedWorkspaceId :: string
  tw_screenName :: string
  tw_x :: int
  tw_y :: int
  tw_width :: int
  tw_height :: int
  tw_maximized :: bool

record WorkspaceState =
  ws_profiles :: "ProfileWorkspaceState list"
  ws_collapsedHostSections :: "string list"
  ws_terminalWorkspaces :: "TerminalWorkspaceLayout list"
  ws_activeTerminalWorkspaceId :: string
  ws_quarantinedRestoreIntentIds :: "string list"
  ws_restoreAttemptIntentId :: string
  ws_terminalWindows :: "TerminalWindowState list"

definition maximumCollapsedHostSections :: nat where "maximumCollapsedHostSections = 256"

definition maximumTerminalWorkspaces :: nat where "maximumTerminalWorkspaces = 32"

definition maximumRestorableTerminalSessions :: nat where "maximumRestorableTerminalSessions = 32"

fun windows_ok :: "TerminalWindowState list \<Rightarrow> bool" where
  "windows_ok [] = True"
| "windows_ok (w # rest) =
     (if \<not> validBoundedText (tw_id w) 128 False \<or> \<not> validBoundedText (tw_selectedWorkspaceId w) 128 True
         \<or> \<not> validBoundedText (tw_screenName w) 512 True \<or> tw_x w < -1000000 \<or> tw_x w > 1000000
         \<or> tw_y w < -1000000 \<or> tw_y w > 1000000 \<or> tw_width w < 1 \<or> tw_width w > 32768
         \<or> tw_height w < 1 \<or> tw_height w > 32768 \<or> find (\<lambda>v. tw_id v = tw_id w) rest \<noteq> None
      then False else windows_ok rest)"

fun workspaces_ok :: "nat \<Rightarrow> TerminalWorkspaceLayout list \<Rightarrow> bool" where
  "workspaces_ok restoreIntentCount [] = True"
| "workspaces_ok restoreIntentCount (w # rest) =
     (let count = restoreIntentCount + length (tl_restoreIntents w)
      in if count > maximumRestorableTerminalSessions \<or> find (\<lambda>v. tl_id v = tl_id w) rest \<noteq> None
         then False else workspaces_ok count rest)"

definition containsIntent :: "WorkspaceState \<Rightarrow> string \<Rightarrow> bool" where
  "containsIntent s intentId =
     list_ex (\<lambda>w. find (\<lambda>t. ti_id t = intentId) (tl_restoreIntents w) \<noteq> None) (ws_terminalWorkspaces s)"

fun quarantine_ok :: "WorkspaceState \<Rightarrow> string list \<Rightarrow> bool" where
  "quarantine_ok s [] = True"
| "quarantine_ok s (i # rest) =
     (if \<not> validBoundedText i 128 False \<or> \<not> containsIntent s i \<or> i \<in> set rest then False
      else quarantine_ok s rest)"

definition validWorkspaceState :: "WorkspaceState \<Rightarrow> bool" where
  "validWorkspaceState s =
     (if length (ws_collapsedHostSections s) > maximumCollapsedHostSections
         \<or> length (ws_terminalWorkspaces s) > maximumTerminalWorkspaces
         \<or> length (ws_terminalWindows s) > maximumTerminalWorkspaces + 1
         \<or> length (ws_quarantinedRestoreIntentIds s) > maximumRestorableTerminalSessions
         \<or> \<not> list_all validProfileWorkspaceState (ws_profiles s)
         \<or> \<not> list_all validTerminalWorkspaceLayout (ws_terminalWorkspaces s)
      then False
      else if \<not> list_all (\<lambda>v. validBoundedText v 512 False) (ws_collapsedHostSections s) then False
      else if \<not> windows_ok (ws_terminalWindows s) then False
      else if \<not> workspaces_ok 0 (ws_terminalWorkspaces s) then False
      else if \<not> quarantine_ok s (ws_quarantinedRestoreIntentIds s) then False
      else if (ws_restoreAttemptIntentId s \<noteq> [] \<and> \<not> validBoundedText (ws_restoreAttemptIntentId s) 128 False)
         \<or> (ws_restoreAttemptIntentId s \<noteq> [] \<and> \<not> containsIntent s (ws_restoreAttemptIntentId s)) then False
      else if ws_terminalWorkspaces s = []
      then ws_activeTerminalWorkspaceId s = [] \<and> ws_quarantinedRestoreIntentIds s = []
        \<and> ws_restoreAttemptIntentId s = []
      else find (\<lambda>w. tl_id w = ws_activeTerminalWorkspaceId s) (ws_terminalWorkspaces s) \<noteq> None)"

definition findProfileWorkspaceState :: "WorkspaceState \<Rightarrow> string \<Rightarrow> ProfileWorkspaceState option" where
  "findProfileWorkspaceState s profileId = find (\<lambda>p. pw_profileId p = profileId) (ws_profiles s)"

text \<open>The reference returned is to the profile with this identifier.\<close>

definition ensureProfileWorkspaceState :: "string \<Rightarrow> WorkspaceState \<Rightarrow> WorkspaceState" where
  "ensureProfileWorkspaceState profileId s =
     (case findProfileWorkspaceState s profileId of
        Some existing \<Rightarrow> s
      | None \<Rightarrow> s\<lparr>ws_profiles := ws_profiles s @ [profile_new profileId]\<rparr>)"

section \<open>Transfers\<close>

datatype TerminalTransferKind = MovePane | SwapPanes | ExtractPane | MergeWorkspace

record TerminalWorkspaceTransfer =
  tt_kind :: TerminalTransferKind
  tt_sourceWorkspaceId :: string
  tt_sourcePaneId :: string
  tt_targetWorkspaceId :: string
  tt_targetPaneId :: string
  tt_splitNodeId :: string
  tt_orientation :: TerminalSplitOrientation
  tt_placeAfter :: bool

definition workspace_in :: "WorkspaceState \<Rightarrow> string \<Rightarrow> TerminalWorkspaceLayout option" where
  "workspace_in s i = find (\<lambda>w. tl_id w = i) (ws_terminalWorkspaces s)"

definition put_workspace :: "string \<Rightarrow> TerminalWorkspaceLayout \<Rightarrow> WorkspaceState \<Rightarrow> WorkspaceState" where
  "put_workspace i w s = s\<lparr>ws_terminalWorkspaces := update_first (\<lambda>v. tl_id v = i) (\<lambda>_. w) (ws_terminalWorkspaces s)\<rparr>"

definition erase_workspaces :: "string \<Rightarrow> WorkspaceState \<Rightarrow> WorkspaceState" where
  "erase_workspaces i s = s\<lparr>ws_terminalWorkspaces := filter (\<lambda>v. tl_id v \<noteq> i) (ws_terminalWorkspaces s)\<rparr>"

definition leaf_of :: "TerminalWorkspaceLayout \<Rightarrow> string \<Rightarrow> TerminalLayoutNode option" where
  "leaf_of layout i = (case findTerminalNode layout i of
     None \<Rightarrow> None | Some n \<Rightarrow> if tn_kind n \<noteq> Leaf then None else Some n)"

definition replace_child_in :: "string \<Rightarrow> string \<Rightarrow> TerminalLayoutNode \<Rightarrow> TerminalLayoutNode" where
  "replace_child_in before after n =
     n\<lparr>tn_firstChildId := (if tn_firstChildId n = before then after else tn_firstChildId n),
       tn_secondChildId := (if tn_secondChildId n = before then after else tn_secondChildId n)\<rparr>"

definition replaceChild :: "string \<Rightarrow> string \<Rightarrow> TerminalWorkspaceLayout \<Rightarrow> TerminalWorkspaceLayout" where
  "replaceChild before after layout =
     layout\<lparr>tl_rootNodeId := (if tl_rootNodeId layout = before then after else tl_rootNodeId layout),
            tl_nodes := map (replace_child_in before after) (tl_nodes layout)\<rparr>"

text \<open>\<open>insertTree\<close>: the target with the source inserted, when \<open>insertTree\<close> returns true.\<close>

definition insertTree ::
  "TerminalWorkspaceLayout \<Rightarrow> TerminalWorkspaceLayout \<Rightarrow> TerminalWorkspaceTransfer \<Rightarrow> TerminalWorkspaceLayout option" where
  "insertTree target source tr =
     (if leaf_of target (tt_targetPaneId tr) = None \<or> tt_splitNodeId tr = [] then None
      else (let replaced = replaceChild (tt_targetPaneId tr) (tt_splitNodeId tr) target;
                joined = replaced\<lparr>tl_nodes := tl_nodes replaced @ tl_nodes source
                    @ [split_node (tt_splitNodeId tr)
                         (if tt_placeAfter tr then tt_targetPaneId tr else tl_rootNodeId source)
                         (if tt_placeAfter tr then tl_rootNodeId source else tt_targetPaneId tr)
                         (tt_orientation tr) ratio_half],
                  tl_restoreIntents := tl_restoreIntents replaced @ tl_restoreIntents source,
                  tl_activePaneId := tl_activePaneId source\<rparr>
            in if validTerminalWorkspaceLayout joined then Some joined else None))"

definition exchange :: "string \<Rightarrow> string \<Rightarrow> string \<Rightarrow> string" where
  "exchange a b child = (if child = a then b else if child = b then a else child)"

text \<open>\<open>swapLeaves\<close> within one workspace and between two.\<close>

definition swap_within :: "TerminalWorkspaceTransfer \<Rightarrow> TerminalWorkspaceLayout \<Rightarrow> TerminalWorkspaceLayout" where
  "swap_within tr w = w\<lparr>tl_nodes := map (\<lambda>n. n\<lparr>
       tn_firstChildId := exchange (tt_sourcePaneId tr) (tt_targetPaneId tr) (tn_firstChildId n),
       tn_secondChildId := exchange (tt_sourcePaneId tr) (tt_targetPaneId tr) (tn_secondChildId n)\<rparr>) (tl_nodes w),
     tl_activePaneId := tt_sourcePaneId tr\<rparr>"

definition put_leaf ::
  "TerminalLayoutNode \<Rightarrow> TerminalLayoutNode \<Rightarrow> TerminalRestoreIntent \<Rightarrow> TerminalWorkspaceLayout \<Rightarrow> TerminalWorkspaceLayout" where
  "put_leaf old new intent w =
     replaceChild (tn_id old) (tn_id new)
       (w\<lparr>tl_restoreIntents := update_first (\<lambda>t. ti_id t = tn_restoreIntentId old) (\<lambda>_. intent) (tl_restoreIntents w),
          tl_nodes := update_first (\<lambda>n. tn_id n = tn_id old) (\<lambda>_. new) (tl_nodes w)\<rparr>)"

definition swapLeaves :: "TerminalWorkspaceTransfer \<Rightarrow> TerminalWorkspaceLayout \<Rightarrow> TerminalWorkspaceLayout
    \<Rightarrow> WorkspaceState \<Rightarrow> WorkspaceState option option" where
  "swapLeaves tr source target s =
     (case (leaf_of source (tt_sourcePaneId tr), leaf_of target (tt_targetPaneId tr)) of
        (Some first, Some second) \<Rightarrow>
          (if tt_sourceWorkspaceId tr = tt_targetWorkspaceId tr
           then Some (Some (put_workspace (tt_sourceWorkspaceId tr) (swap_within tr source) s))
           else (case (findRestoreIntent source (tn_restoreIntentId first), findRestoreIntent target (tn_restoreIntentId second)) of
                   (Some firstIntent, Some secondIntent) \<Rightarrow>
                     (let source' = put_leaf first second secondIntent source;
                          source'' = source'\<lparr>tl_activePaneId := (if tl_activePaneId source' = tn_id first then tn_id second
                            else tl_activePaneId source')\<rparr>;
                          target' = (put_leaf second first firstIntent target)\<lparr>tl_activePaneId := tt_sourcePaneId tr\<rparr>
                      in Some (Some (put_workspace (tt_targetWorkspaceId tr) target'
                           (put_workspace (tt_sourceWorkspaceId tr) source'' s))))
                 | _ \<Rightarrow> None))
      | _ \<Rightarrow> Some None)"

text \<open>The pane leaves the source: closed there, or the whole workspace is erased.\<close>

definition take_pane ::
  "TerminalWorkspaceLayout \<Rightarrow> string \<Rightarrow> WorkspaceState \<Rightarrow> WorkspaceState option option" where
  "take_pane source paneId s =
     (if length (tl_restoreIntents source) > 1
      then (case closeTerminalPane source paneId of
              None \<Rightarrow> None
            | Some (source', False) \<Rightarrow> Some None
            | Some (source', True) \<Rightarrow> Some (Some (put_workspace (tl_id source) source' s)))
      else Some (Some (erase_workspaces (tl_id source) s)))"

definition applyTransfer :: "TerminalWorkspaceTransfer \<Rightarrow> WorkspaceState \<Rightarrow> WorkspaceState option option" where
  "applyTransfer tr s =
     (let same = (tt_sourceWorkspaceId tr = tt_targetWorkspaceId tr) in
      case workspace_in s (tt_sourceWorkspaceId tr) of
        None \<Rightarrow> Some None
      | Some source \<Rightarrow>
          (if tt_kind tr = SwapPanes
           then (case workspace_in s (tt_targetWorkspaceId tr) of
                   None \<Rightarrow> Some None
                 | Some target \<Rightarrow> swapLeaves tr source target s)
           else if tt_kind tr = MergeWorkspace
           then (case workspace_in s (tt_targetWorkspaceId tr) of
                   None \<Rightarrow> Some None
                 | Some target \<Rightarrow>
                     (if same then Some None
                      else (case insertTree target source tr of
                              None \<Rightarrow> Some None
                            | Some target' \<Rightarrow> Some (Some (erase_workspaces (tt_sourceWorkspaceId tr)
                                (put_workspace (tt_targetWorkspaceId tr) target' s))))))
           else if tt_kind tr = MovePane \<and> same
           then (case moveTerminalPane source (tt_sourcePaneId tr) (tt_targetPaneId tr) (tt_splitNodeId tr)
                   (tt_orientation tr) (tt_placeAfter tr) of
                   (source', False) \<Rightarrow> Some None
                 | (source', True) \<Rightarrow> Some (Some (put_workspace (tt_sourceWorkspaceId tr)
                     (source'\<lparr>tl_activePaneId := tt_sourcePaneId tr\<rparr>) s)))
           else (case leaf_of source (tt_sourcePaneId tr) of
                   None \<Rightarrow> Some None
                 | Some pane \<Rightarrow>
                     (if (if tt_kind tr = ExtractPane then workspace_in s (tt_targetWorkspaceId tr) \<noteq> None
                          else workspace_in s (tt_targetWorkspaceId tr) = None) then Some None
                      else (case findRestoreIntent source (tn_restoreIntentId pane) of
                              None \<Rightarrow> None
                            | Some intent \<Rightarrow>
                                (let extracted = makeSinglePaneTerminalWorkspace (tt_targetWorkspaceId tr) (tn_id pane) intent
                                 in (case take_pane source (tn_id pane) s of
                                       None \<Rightarrow> None
                                     | Some None \<Rightarrow> Some None
                                     | Some (Some s1) \<Rightarrow>
                                         (if tt_kind tr = ExtractPane
                                          then Some (Some (s1\<lparr>ws_terminalWorkspaces := ws_terminalWorkspaces s1 @ [extracted]\<rparr>))
                                          else (case workspace_in s1 (tt_targetWorkspaceId tr) of
                                                  None \<Rightarrow> Some None
                                                | Some target \<Rightarrow>
                                                    (case insertTree target extracted tr of
                                                       None \<Rightarrow> Some None
                                                     | Some target' \<Rightarrow>
                                                         Some (Some (put_workspace (tt_targetWorkspaceId tr) target' s1))))))))))))"

definition transferTerminalWorkspace ::
  "TerminalWorkspaceTransfer \<Rightarrow> WorkspaceState \<Rightarrow> (WorkspaceState \<times> bool) option" where
  "transferTerminalWorkspace tr s =
     (if \<not> validWorkspaceState s \<or> tt_sourceWorkspaceId tr = [] \<or> tt_targetWorkspaceId tr = [] then Some (s, False)
      else (case applyTransfer tr s of
              None \<Rightarrow> None
            | Some None \<Rightarrow> Some (s, False)
            | Some (Some applied) \<Rightarrow>
                (let candidate = applied\<lparr>ws_activeTerminalWorkspaceId := tt_targetWorkspaceId tr\<rparr>
                 in if \<not> validWorkspaceState candidate then Some (s, False) else Some (candidate, True))))"

section \<open>What a layout holds\<close>

text \<open>The restore intents and the panes with their intents, each as often as it occurs.\<close>

abbreviation node_key :: "TerminalLayoutNode \<Rightarrow> TerminalLayoutNodeKind \<times> string \<times> string" where
  "node_key n \<equiv> (tn_kind n, tn_id n, tn_restoreIntentId n)"

definition pane_bindings :: "TerminalLayoutNode list \<Rightarrow> (string \<times> string) multiset" where
  "pane_bindings ns = image_mset snd (filter_mset (\<lambda>k. fst k = Leaf) (mset (map node_key ns)))"

definition contents :: "TerminalWorkspaceLayout \<Rightarrow> (TerminalRestoreIntent + string \<times> string) multiset" where
  "contents w = image_mset Inl (mset (tl_restoreIntents w)) + image_mset Inr (pane_bindings (tl_nodes w))"

definition all_contents :: "WorkspaceState \<Rightarrow> (TerminalRestoreIntent + string \<times> string) multiset" where
  "all_contents s = sum_list (map contents (ws_terminalWorkspaces s))"

lemma bindings_keys: "map node_key ns' = map node_key ns \<Longrightarrow> pane_bindings ns' = pane_bindings ns"
  by (simp add: pane_bindings_def)

lemma bindings_append [simp]: "pane_bindings (xs @ ys) = pane_bindings xs + pane_bindings ys"
  by (simp add: pane_bindings_def)

lemma bindings_simps [simp]:
  "pane_bindings [] = {#}"
  "pane_bindings (n # ns) = (if tn_kind n = Leaf then add_mset (tn_id n, tn_restoreIntentId n) (pane_bindings ns) else pane_bindings ns)"
  by (simp_all add: pane_bindings_def)

lemma contents_cong:
  "map node_key (tl_nodes w') = map node_key (tl_nodes w) \<Longrightarrow> tl_restoreIntents w' = tl_restoreIntents w \<Longrightarrow>
    contents w' = contents w"
  using bindings_keys [of "tl_nodes w'" "tl_nodes w"] unfolding contents_def by presburger

lemma contents_active [simp]: "contents (w\<lparr>tl_activePaneId := a\<rparr>) = contents w"
  by (simp add: contents_def)

lemma update_first_keys:
  "(\<And>n. node_key (f n) = node_key n) \<Longrightarrow> map node_key (update_first P f ns) = map node_key ns"
  by (induction ns) auto

lemma set_child_keys: "map node_key (tl_nodes (set_child p old new w)) = map node_key (tl_nodes w)"
proof (cases p)
  case (Some q)
  then show ?thesis unfolding set_child_def update_node_def by simp (rule update_first_keys, simp)
qed (simp add: set_child_def)

lemma replaceChild_keys: "map node_key (tl_nodes (replaceChild a b w)) = map node_key (tl_nodes w)"
  by (simp add: replaceChild_def replace_child_in_def)

lemma filter_keys:
  assumes "map node_key ns' = map node_key ns"
  shows "pane_bindings (filter (\<lambda>n. P (tn_id n)) ns') = pane_bindings (filter (\<lambda>n. P (tn_id n)) ns)"
proof -
  have "map node_key (filter (\<lambda>n. P (tn_id n)) ns) = filter (\<lambda>k. P (fst (snd k))) (map node_key ns)" for ns :: "TerminalLayoutNode list"
    by (induction ns) auto
  then show ?thesis using assms by (intro bindings_keys) (simp only:)
qed

lemma bindings_without_split:
  assumes "\<And>n. n \<in> set ns \<Longrightarrow> tn_id n = k \<Longrightarrow> tn_kind n = Split"
  shows "pane_bindings (filter (\<lambda>n. tn_id n \<noteq> k) ns) = pane_bindings ns"
  using assms by (induction ns) auto

lemma filter_absent: "k \<notin> key ` set xs \<Longrightarrow> filter (\<lambda>y. key y \<noteq> k) xs = xs"
  by (induction xs) auto

lemma bindings_without_leaf:
  assumes "distinct (map tn_id ns)" "n \<in> set ns" "tn_kind n = Leaf"
    and "\<And>m. m \<in> set ns \<Longrightarrow> tn_id m = k \<Longrightarrow> tn_kind m = Split"
  shows "add_mset (tn_id n, tn_restoreIntentId n) (pane_bindings (filter (\<lambda>m. \<not> (tn_id m = tn_id n \<or> tn_id m = k)) ns))
    = pane_bindings ns"
  using assms
proof (induction ns)
  case (Cons m ns)
  show ?case
  proof (cases "m = n")
    case True
    then have "tn_id n \<notin> tn_id ` set ns" using Cons.prems(1) by simp
    then have "filter (\<lambda>m. \<not> (tn_id m = tn_id n \<or> tn_id m = k)) ns = filter (\<lambda>m. tn_id m \<noteq> k) ns"
      using filter_filter [of "\<lambda>m. tn_id m \<noteq> k" "\<lambda>m. tn_id m \<noteq> tn_id n" ns] filter_absent [of "tn_id n" tn_id ns]
      by (simp add: conj_commute)
    then show ?thesis using True Cons.prems(3,4) bindings_without_split [of ns k] by simp
  next
    case False
    then have "tn_id m \<noteq> tn_id n" using Cons.prems(1,2) by auto
    then show ?thesis using Cons False by auto
  qed
qed simp

lemma mset_without_key:
  "distinct (map key xs) \<Longrightarrow> x \<in> set xs \<Longrightarrow> add_mset x (mset (filter (\<lambda>y. key y \<noteq> key x) xs)) = mset xs"
proof (induction xs)
  case (Cons y xs)
  show ?case
  proof (cases "y = x")
    case True
    then have "filter (\<lambda>y. key y \<noteq> key x) xs = xs" using Cons.prems(1) True by (intro filter_absent) simp
    then show ?thesis using True by simp
  next
    case False
    then show ?thesis using Cons by (auto simp: add_mset_commute)
  qed
qed simp

lemma sum_put:
  "find P ws = Some w \<Longrightarrow> sum_list (map contents (update_first P (\<lambda>_. w') ws)) + contents w = sum_list (map contents ws) + contents w'"
  by (induction ws) (auto simp: ac_simps split: if_splits)

lemma sum_erase:
  "distinct (map tl_id ws) \<Longrightarrow> find (\<lambda>v. tl_id v = i) ws = Some w \<Longrightarrow>
    sum_list (map contents (filter (\<lambda>v. tl_id v \<noteq> i) ws)) + contents w = sum_list (map contents ws)"
proof (induction ws)
  case (Cons v ws)
  show ?case
  proof (cases "tl_id v = i")
    case True
    then have "filter (\<lambda>v. tl_id v \<noteq> i) ws = ws" using Cons.prems(1) True by (intro filter_absent) simp
    then show ?thesis using True Cons.prems(2) by (simp add: ac_simps)
  next
    case False
    then show ?thesis using Cons by (simp add: ac_simps)
  qed
qed simp

section \<open>Every transfer keeps what the layouts hold\<close>

lemma valid_leaf:
  assumes "validTerminalWorkspaceLayout w" "leaf_of w i = Some n"
  shows "tn_id n = i \<and> n \<in> set (tl_nodes w) \<and> tn_kind n = Leaf \<and> distinct (map tn_id (tl_nodes w))
    \<and> distinct (map ti_id (tl_restoreIntents w)) \<and> findTerminalNode w i = Some n
    \<and> (\<exists>t intent. layout_texts w \<and> layout_tree w t \<and> i \<in> set (pane_ids t)
        \<and> findRestoreIntent w (tn_restoreIntentId n) = Some intent \<and> intent \<in> set (tl_restoreIntents w)
        \<and> ti_id intent = tn_restoreIntentId n)"
proof -
  obtain t where t: "layout_texts w" "layout_tree w t" using assms(1) valid_layout_iff by blast
  note D = layout_treeD [OF t(2)]
  have f: "findTerminalNode w i = Some n" "tn_kind n = Leaf" using assms(2) by (auto simp: leaf_of_def split: option.splits if_splits)
  then have n: "n \<in> set (tl_nodes w)" "tn_id n = i" using node_in_iff [OF D(4)] by (auto simp: findTerminalNode_def)
  have i: "i \<in> set (node_ids t)" using n D(6) by auto
  then obtain u where u: "part u t" "root_id u = i" using part_exists by blast
  then have "part (Pane i (tn_restoreIntentId n)) t"
    using pane_shown [OF D(4) part_shows [OF u(1) D(2)] n(1) _ f(2)] n(2) by metis
  then have "tn_restoreIntentId n \<in> ti_id ` set (tl_restoreIntents w)" using part_intents D(9) by fastforce
  then obtain intent where intent: "findRestoreIntent w (tn_restoreIntentId n) = Some intent"
    using find_key_None [of ti_id "tn_restoreIntentId n"] by (cases "findRestoreIntent w (tn_restoreIntentId n)")
      (auto simp: findRestoreIntent_def)
  then have "intent \<in> set (tl_restoreIntents w) \<and> ti_id intent = tn_restoreIntentId n"
    using find_Some_in [of "\<lambda>t. ti_id t = tn_restoreIntentId n"] by (simp add: findRestoreIntent_def)
  moreover have "i \<in> set (pane_ids t)" using leaf_pane [OF D(4) n(1) D(2)] n(2) i f(2) by simp
  ultimately show ?thesis using f n D(4,7) t intent by blast
qed

lemma find_parent_split: "findParentNode w i = Some p \<Longrightarrow> p \<in> set (tl_nodes w) \<and> tn_kind p = Split"
  using find_Some_in [of "is_parent i" "tl_nodes w" p] by (simp add: findParentNode_def is_parent_def)

lemma commit_Some: "commit w c = (w', True) \<Longrightarrow> w' = c"
  by (simp add: commit_def split: if_splits)

lemma close_contents:
  assumes "validTerminalWorkspaceLayout w" "leaf_of w i = Some n" "findRestoreIntent w (tn_restoreIntentId n) = Some intent"
    and "closeTerminalPane w i = Some (w', True)"
  shows "contents w = contents w' + {#Inl intent, Inr (i, tn_restoreIntentId n)#}"
proof -
  note v = valid_leaf [OF assms(1,2)]
  then have f: "findTerminalNode w i = Some n" by blast
  obtain p where p: "findParentNode w i = Some p"
    using assms(1,4) f by (auto simp: closeTerminalPane_def split: option.splits if_splits)
  note ps = find_parent_split [OF p]
  define moved where "moved = set_child (findParentNode w (tn_id p)) (tn_id p) (sibling p i) w"
  have w': "tl_nodes w' = filter (\<lambda>m. \<not> (tn_id m = i \<or> tn_id m = tn_id p)) (tl_nodes moved)
    \<and> tl_restoreIntents w' = filter (\<lambda>t. ti_id t \<noteq> tn_restoreIntentId n) (tl_restoreIntents w)"
    using assms(4) f p v by (auto simp: closeTerminalPane_def Let_def moved_def dest!: commit_Some split: option.splits if_splits)
  have split: "tn_kind m = Split" if "m \<in> set (tl_nodes w)" "tn_id m = tn_id p" for m
    using same_key [of tn_id "tl_nodes w" m p] v ps that by auto
  have "pane_bindings (tl_nodes w') = pane_bindings (filter (\<lambda>m. \<not> (tn_id m = i \<or> tn_id m = tn_id p)) (tl_nodes w))"
    using w' filter_keys [of "tl_nodes moved" "tl_nodes w" "\<lambda>j. \<not> (j = i \<or> j = tn_id p)"] set_child_keys [of _ _ _ w]
    by (simp add: moved_def)
  then have "add_mset (i, tn_restoreIntentId n) (pane_bindings (tl_nodes w')) = pane_bindings (tl_nodes w)"
    using bindings_without_leaf [of "tl_nodes w" n "tn_id p"] v split by auto
  moreover have "add_mset intent (mset (tl_restoreIntents w')) = mset (tl_restoreIntents w)"
    using mset_without_key [of ti_id "tl_restoreIntents w" intent] v w' assms(3) by auto
  ultimately show ?thesis
    unfolding contents_def by (metis (no_types, lifting) add_mset_add_single image_mset_add_mset union_mset_add_mset_left
      union_mset_add_mset_right)
qed

lemma single_contents:
  assumes "validTerminalWorkspaceLayout w" "leaf_of w i = Some n" "findRestoreIntent w (tn_restoreIntentId n) = Some intent"
    and "\<not> length (tl_restoreIntents w) > 1"
  shows "contents w = {#Inl intent, Inr (i, tn_restoreIntentId n)#}"
proof -
  note v = valid_leaf [OF assms(1,2)]
  then obtain t where t: "layout_tree w t" "intent \<in> set (tl_restoreIntents w)" using assms(3) by auto
  note D = layout_treeD [OF t(1)]
  have "tl_restoreIntents w = [intent]" using t(2) assms(4) by (cases "tl_restoreIntents w") auto
  moreover have "length (tl_restoreIntents w) = length (pane_ids t)" using same_lengths [OF D(8,7,9)] by simp
  ultimately have one: "tl_restoreIntents w = [intent]" "length (pane_ids t) = 1" by simp_all
  then have "length (node_ids t) = 1" using tree_count [of t] by simp
  then have "length (tl_nodes w) = 1" using same_lengths [OF D(5,4,6)] by simp
  then have "tl_nodes w = [n]" using v by (cases "tl_nodes w") auto
  then show ?thesis using one v by (simp add: contents_def)
qed

lemma move_contents:
  assumes "moveTerminalPane w i g k d after = (w', True)"
  shows "contents w' = contents w"
proof -
  have valid: "validTerminalWorkspaceLayout w" using assms by (auto simp: moveTerminalPane_def split: if_splits)
  then obtain t where "layout_tree w t" using valid_layout_iff by blast
  note D = layout_treeD [OF this]
  obtain p where p: "findParentNode w i = Some p"
    using assms by (auto simp: moveTerminalPane_def split: option.splits if_splits)
  note ps = find_parent_split [OF p]
  define moved where "moved = set_child (findParentNode w (tn_id p)) (tn_id p) (sibling p i) w"
  define removed where "removed = moved\<lparr>tl_nodes := filter (\<lambda>n. tn_id n \<noteq> tn_id p) (tl_nodes moved)\<rparr>"
  have split: "tn_kind m = Split" if "m \<in> set (tl_nodes w)" "tn_id m = tn_id p" for m
    using same_key [OF D(4) that(1), of p] ps that by auto
  have r: "pane_bindings (tl_nodes removed) = pane_bindings (tl_nodes w)" "tl_restoreIntents removed = tl_restoreIntents w"
    using filter_keys [of "tl_nodes moved" "tl_nodes w" "\<lambda>j. j \<noteq> tn_id p"] set_child_keys [of _ _ _ w]
      bindings_without_split [of "tl_nodes w" "tn_id p"] split by (simp_all add: removed_def moved_def)
  show ?thesis
  proof (cases "w' = w")
    case False
    then obtain q e e' where "w' = (set_child q g k (removed\<lparr>tl_nodes := tl_nodes removed @ [split_node k e e' d ratio_half]\<rparr>))
        \<lparr>tl_activePaneId := i\<rparr>"
      using assms p unfolding moveTerminalPane_def Let_def removed_def moved_def
      by (auto dest!: commit_Some split: option.splits if_splits)
    then have "tl_restoreIntents w' = tl_restoreIntents w" "pane_bindings (tl_nodes w') = pane_bindings (tl_nodes w)"
      using r set_child_keys [of q g k "removed\<lparr>tl_nodes := tl_nodes removed @ [split_node k e e' d ratio_half]\<rparr>"]
        bindings_keys [of "tl_nodes w'" "tl_nodes removed @ [split_node k e e' d ratio_half]"] by (simp_all add: split_node_def)
    then show ?thesis by (simp add: contents_def)
  qed simp
qed

lemma insert_contents:
  assumes "insertTree target source tr = Some w"
  shows "contents w = contents target + contents source"
proof -
  define a b where "a = tt_targetPaneId tr" and "b = tt_splitNodeId tr"
  obtain e e' where "tl_nodes w = tl_nodes (replaceChild a b target) @ tl_nodes source @ [split_node b e e' (tt_orientation tr) ratio_half]"
    "tl_restoreIntents w = tl_restoreIntents target @ tl_restoreIntents source"
    using assms by (auto simp: insertTree_def Let_def a_def b_def replaceChild_def split: if_splits)
  then show ?thesis
    using bindings_keys [OF replaceChild_keys [of a b target]] by (simp add: contents_def split_node_def ac_simps)
qed

lemma extracted_contents:
  "contents (makeSinglePaneTerminalWorkspace k i intent) = {#Inl intent, Inr (i, ti_id intent)#}"
  by (simp add: contents_def makeSinglePaneTerminalWorkspace_def leaf_node_def)

lemma swap_within_contents: "contents (swap_within tr w) = contents w"
  by (rule contents_cong) (simp_all add: swap_within_def)

lemma mset_update_first:
  "find P xs = Some x \<Longrightarrow> add_mset x (mset (update_first P (\<lambda>_. y) xs)) = add_mset y (mset xs)"
  by (induction xs) (auto simp: add_mset_commute split: if_splits)

lemma bindings_update_first:
  "find P ns = Some n \<Longrightarrow> tn_kind n = Leaf \<Longrightarrow> tn_kind m = Leaf \<Longrightarrow>
    add_mset (tn_id n, tn_restoreIntentId n) (pane_bindings (update_first P (\<lambda>_. m) ns))
      = add_mset (tn_id m, tn_restoreIntentId m) (pane_bindings ns)"
  by (induction ns) (auto simp: add_mset_commute split: if_splits)

lemma swap_sums:
  assumes "add_mset a X = add_mset b Y" "add_mset c Z = add_mset d W"
  shows "Z + X + {#c, a#} = W + Y + {#d, b#}"
proof -
  have "add_mset c Z + add_mset a X = add_mset d W + add_mset b Y" using assms by simp
  then show ?thesis by (simp add: ac_simps)
qed

lemma four_sums:
  fixes T' :: "'a multiset"
  assumes "T' + t = S1 + t'" "S1 + w = S + w'" "w' + x = w + y" "t' + y = t + x"
  shows "T' = S"
proof -
  have "T' + (t + w + x + y + t' + w' + S1) = S + (t + w + x + y + t' + w' + S1)"
    using arg_cong2 [OF arg_cong2 [OF assms(1,2), of "(+)"] arg_cong2 [OF assms(3,4), of "(+)"], of "(+)"]
    by (simp only: ac_simps)
  then show ?thesis by simp
qed

lemma put_leaf_contents:
  assumes "findTerminalNode w (tn_id old) = Some old" "tn_kind old = Leaf" "tn_kind new = Leaf"
    and "findRestoreIntent w (tn_restoreIntentId old) = Some intent"
  shows "contents (put_leaf old new intent' w) + {#Inl intent, Inr (tn_id old, tn_restoreIntentId old)#}
    = contents w + {#Inl intent', Inr (tn_id new, tn_restoreIntentId new)#}"
proof -
  define ns where "ns = update_first (\<lambda>n. tn_id n = tn_id old) (\<lambda>_. new) (tl_nodes w)"
  define ts where "ts = update_first (\<lambda>t. ti_id t = tn_restoreIntentId old) (\<lambda>_. intent') (tl_restoreIntents w)"
  have "pane_bindings (tl_nodes (put_leaf old new intent' w)) = pane_bindings ns"
    unfolding put_leaf_def by (rule bindings_keys) (simp add: replaceChild_keys ns_def)
  then have c: "contents (put_leaf old new intent' w) = image_mset Inl (mset ts) + image_mset Inr (pane_bindings ns)"
    by (simp add: contents_def ts_def put_leaf_def replaceChild_def)
  have "add_mset (tn_id old, tn_restoreIntentId old) (pane_bindings ns) = add_mset (tn_id new, tn_restoreIntentId new) (pane_bindings (tl_nodes w))"
    using bindings_update_first [of _ "tl_nodes w" old new] assms(1-3) by (simp add: ns_def findTerminalNode_def)
  moreover have "add_mset intent (mset ts) = add_mset intent' (mset (tl_restoreIntents w))"
    using mset_update_first [of _ "tl_restoreIntents w" intent intent'] assms(4) by (simp add: ts_def findRestoreIntent_def)
  ultimately have "add_mset (Inr (tn_id old, tn_restoreIntentId old)) (image_mset Inr (pane_bindings ns))
      = add_mset (Inr (tn_id new, tn_restoreIntentId new)) (image_mset Inr (pane_bindings (tl_nodes w)))"
    "add_mset (Inl intent) (image_mset Inl (mset ts)) = add_mset (Inl intent') (image_mset Inl (mset (tl_restoreIntents w)))"
    by (metis image_mset_add_mset)+
  then show ?thesis unfolding c unfolding contents_def by (rule swap_sums)
qed

lemma all_put:
  "workspace_in s i = Some w \<Longrightarrow> all_contents (put_workspace i w' s) + contents w = all_contents s + contents w'"
  using sum_put [of _ "ws_terminalWorkspaces s" w w'] by (simp add: all_contents_def put_workspace_def workspace_in_def)

lemma all_erase:
  "distinct (map tl_id (ws_terminalWorkspaces s)) \<Longrightarrow> workspace_in s i = Some w \<Longrightarrow>
    all_contents (erase_workspaces i s) + contents w = all_contents s"
  using sum_erase [of "ws_terminalWorkspaces s" i w] by (simp add: all_contents_def erase_workspaces_def workspace_in_def)

lemma in_put: "i \<noteq> j \<Longrightarrow> tl_id w = i \<Longrightarrow> workspace_in (put_workspace i w s) j = workspace_in s j"
proof -
  assume "i \<noteq> j" "tl_id w = i"
  then have "find (\<lambda>v. tl_id v = j) (update_first (\<lambda>v. tl_id v = i) (\<lambda>_. w) ws) = find (\<lambda>v. tl_id v = j) ws" for ws
    by (induction ws) auto
  then show ?thesis by (simp add: workspace_in_def put_workspace_def)
qed

lemma in_erase: "i \<noteq> j \<Longrightarrow> workspace_in (erase_workspaces i s) j = workspace_in s j"
proof -
  assume "i \<noteq> j"
  then have "find (\<lambda>v. tl_id v = j) (filter (\<lambda>v. tl_id v \<noteq> i) ws) = find (\<lambda>v. tl_id v = j) ws" for ws
    by (induction ws) auto
  then show ?thesis by (simp add: workspace_in_def erase_workspaces_def)
qed

lemma put_ids: "tl_id w = i \<Longrightarrow> map tl_id (ws_terminalWorkspaces (put_workspace i w s)) = map tl_id (ws_terminalWorkspaces s)"
proof -
  assume "tl_id w = i"
  then have "map tl_id (update_first (\<lambda>v. tl_id v = i) (\<lambda>_. w) ws) = map tl_id ws" for ws
    by (induction ws) auto
  then show ?thesis by (simp add: put_workspace_def)
qed

lemma workspaces_ok_distinct: "workspaces_ok n ws \<Longrightarrow> distinct (map tl_id ws)"
  by (induction ws arbitrary: n) (auto simp: Let_def find_None_iff split: if_splits)

lemma valid_state:
  assumes "validWorkspaceState s"
  shows "distinct (map tl_id (ws_terminalWorkspaces s))"
    and "workspace_in s i = Some w \<Longrightarrow> validTerminalWorkspaceLayout w \<and> tl_id w = i"
proof -
  have ok: "workspaces_ok 0 (ws_terminalWorkspaces s)" "list_all validTerminalWorkspaceLayout (ws_terminalWorkspaces s)"
    using assms by (simp_all add: validWorkspaceState_def split: if_splits)
  show "distinct (map tl_id (ws_terminalWorkspaces s))" by (rule workspaces_ok_distinct [OF ok(1)])
  show "validTerminalWorkspaceLayout w \<and> tl_id w = i" if "workspace_in s i = Some w"
    using find_Some_in [OF that [unfolded workspace_in_def]] ok(2) by (auto simp: list_all_iff)
qed

lemma close_keeps_id: "closeTerminalPane w i = Some (w', b) \<Longrightarrow> tl_id w' = tl_id w"
proof -
  have c: "tl_id (set_child q o' n' w) = tl_id w" for q o' n' by (cases q) (simp_all add: set_child_def update_node_def)
  assume "closeTerminalPane w i = Some (w', b)"
  then show ?thesis unfolding closeTerminalPane_def Let_def commit_def
    by (auto simp: c split: option.splits if_splits)
qed

lemma take_contents:
  assumes "validWorkspaceState s" "workspace_in s k = Some w" "leaf_of w i = Some n"
    and "findRestoreIntent w (tn_restoreIntentId n) = Some intent"
  shows "\<exists>s1. take_pane w i s = Some (Some s1) \<and> all_contents s1 + {#Inl intent, Inr (i, tn_restoreIntentId n)#} = all_contents s
    \<and> (\<forall>j. j \<noteq> k \<longrightarrow> workspace_in s1 j = workspace_in s j)"
proof -
  note w = valid_state(2) [OF assms(1,2)] and ids = valid_state(1) [OF assms(1)]
  show ?thesis
  proof (cases "length (tl_restoreIntents w) > 1")
    case True
    obtain t where t: "layout_texts w" "layout_tree w t" "i \<in> set (pane_ids t)"
      using valid_leaf [OF conjunct1 [OF w] assms(3)] by blast
    note D = layout_treeD [OF t(2)]
    have "2 \<le> length (pane_ids t)" using same_lengths [OF D(8,7,9)] True by simp
    then obtain w' where w': "closeTerminalPane w i = Some (w', True)" using close_tree [OF t] by blast
    have "take_pane w i s = Some (Some (put_workspace k w' s))" using True w' w by (simp add: take_pane_def)
    moreover have "all_contents (put_workspace k w' s) + contents w = all_contents s + contents w'"
      by (rule all_put [OF assms(2)])
    ultimately show ?thesis
      using close_contents [OF conjunct1 [OF w] assms(3,4) w'] in_put [of k _ w' s] close_keeps_id [OF w'] w
      by (intro exI [of _ "put_workspace k w' s"]) (simp add: ac_simps add_mset_commute)
  next
    case False
    then show ?thesis
      using single_contents [OF conjunct1 [OF w] assms(3,4) False] all_erase [OF ids assms(2)] in_erase w
      by (intro exI [of _ "erase_workspaces k s"]) (simp add: take_pane_def)
  qed
qed

lemma swap_contents:
  assumes "validWorkspaceState s" "workspace_in s (tt_sourceWorkspaceId tr) = Some source"
    and "workspace_in s (tt_targetWorkspaceId tr) = Some target"
  shows "\<exists>r. swapLeaves tr source target s = Some r \<and> (\<forall>s'. r = Some s' \<longrightarrow> all_contents s' = all_contents s)"
proof (cases "leaf_of source (tt_sourcePaneId tr) = None \<or> leaf_of target (tt_targetPaneId tr) = None")
  case True
  then show ?thesis by (auto simp: swapLeaves_def split: option.splits)
next
  case False
  then obtain n m where n: "leaf_of source (tt_sourcePaneId tr) = Some n" and m: "leaf_of target (tt_targetPaneId tr) = Some m" by auto
  note vs = valid_state(2) [OF assms(1,2)] and vt = valid_state(2) [OF assms(1,3)]
  note ln = valid_leaf [OF conjunct1 [OF vs] n] and lm = valid_leaf [OF conjunct1 [OF vt] m]
  show ?thesis
  proof (cases "tt_sourceWorkspaceId tr = tt_targetWorkspaceId tr")
    case True
    then show ?thesis using n m all_put [OF assms(2), of "swap_within tr source"] by (simp add: swapLeaves_def swap_within_contents)
  next
    case apart: False
    obtain a b where a: "findRestoreIntent source (tn_restoreIntentId n) = Some a" and b: "findRestoreIntent target (tn_restoreIntentId m) = Some b"
      using ln lm by blast
    define source' where "source' = put_leaf n m b source"
    define source'' where "source'' = source'\<lparr>tl_activePaneId := (if tl_activePaneId source' = tn_id n then tn_id m else tl_activePaneId source')\<rparr>"
    define target' where "target' = (put_leaf m n a target)\<lparr>tl_activePaneId := tt_sourcePaneId tr\<rparr>"
    define s1 where "s1 = put_workspace (tt_sourceWorkspaceId tr) source'' s"
    have r: "swapLeaves tr source target s = Some (Some (put_workspace (tt_targetWorkspaceId tr) target' s1))"
      using n m a b apart by (simp add: swapLeaves_def Let_def source'_def source''_def target'_def s1_def)
    have "contents source' + {#Inl a, Inr (tn_id n, tn_restoreIntentId n)#} = contents source + {#Inl b, Inr (tn_id m, tn_restoreIntentId m)#}"
      unfolding source'_def using ln lm a by (intro put_leaf_contents) auto
    moreover have "contents source'' = contents source'" by (simp add: source''_def)
    ultimately have cs: "contents source'' + {#Inl a, Inr (tn_id n, tn_restoreIntentId n)#} = contents source + {#Inl b, Inr (tn_id m, tn_restoreIntentId m)#}"
      by simp
    have "contents (put_leaf m n a target) + {#Inl b, Inr (tn_id m, tn_restoreIntentId m)#} = contents target + {#Inl a, Inr (tn_id n, tn_restoreIntentId n)#}"
      using ln lm b by (intro put_leaf_contents) auto
    then have ct: "contents target' + {#Inl b, Inr (tn_id m, tn_restoreIntentId m)#} = contents target + {#Inl a, Inr (tn_id n, tn_restoreIntentId n)#}"
      by (simp add: target'_def)
    have "tl_id source'' = tt_sourceWorkspaceId tr" using vs by (simp add: source''_def source'_def put_leaf_def replaceChild_def)
    then have "workspace_in s1 (tt_targetWorkspaceId tr) = Some target" using in_put [OF apart] assms(3) by (simp add: s1_def)
    from all_put [OF this, of target'] all_put [OF assms(2), of source''] cs ct
    have "all_contents (put_workspace (tt_targetWorkspaceId tr) target' s1) = all_contents s"
      unfolding s1_def [symmetric] by (rule four_sums)
    then show ?thesis using r by simp
  qed
qed

lemma apply_contents:
  assumes valid: "validWorkspaceState s"
  shows "\<exists>r. applyTransfer tr s = Some r \<and> (\<forall>s'. r = Some s' \<longrightarrow> all_contents s' = all_contents s)"
proof (cases "workspace_in s (tt_sourceWorkspaceId tr)")
  case None
  then show ?thesis by (simp add: applyTransfer_def)
next
  case (Some source)
  note vs = valid_state(2) [OF valid Some] and ids = valid_state(1) [OF valid]
  define k g where "k = tt_sourceWorkspaceId tr" and "g = tt_targetWorkspaceId tr"
  consider (swap) "tt_kind tr = SwapPanes" | (merge) "tt_kind tr = MergeWorkspace" | (within) "tt_kind tr = MovePane" "k = g"
    | (pane) "tt_kind tr = ExtractPane \<or> tt_kind tr = MovePane \<and> k \<noteq> g"
    by (cases "tt_kind tr") auto
  then show ?thesis
  proof cases
    case swap
    then show ?thesis using Some swap_contents [OF valid Some] by (auto simp: applyTransfer_def Let_def split: option.splits)
  next
    case merge
    show ?thesis
    proof (cases "k = g \<or> workspace_in s g = None \<or> insertTree (the (workspace_in s g)) source tr = None")
      case True
      then show ?thesis using merge Some by (auto simp: applyTransfer_def Let_def k_def g_def split: option.splits)
    next
      case False
      then obtain target target' where t: "workspace_in s g = Some target" "insertTree target source tr = Some target'" and "k \<noteq> g" by auto
      have id: "tl_id target' = g" using t(2) valid_state(2) [OF valid t(1)]
        by (auto simp: insertTree_def Let_def replaceChild_def split: if_splits)
      have "workspace_in (put_workspace g target' s) k = Some source" using in_put [OF \<open>k \<noteq> g\<close> [symmetric] id] Some by (simp add: k_def)
      from all_erase [OF _ this] put_ids [OF id] ids all_put [OF t(1), of target'] insert_contents [OF t(2)]
      have "all_contents (erase_workspaces k (put_workspace g target' s)) = all_contents s"
        by (simp add: ac_simps)
      then show ?thesis using merge Some t \<open>k \<noteq> g\<close> by (simp add: applyTransfer_def k_def g_def)
    qed
  next
    case within
    show ?thesis
    proof (cases "moveTerminalPane source (tt_sourcePaneId tr) (tt_targetPaneId tr) (tt_splitNodeId tr) (tt_orientation tr) (tt_placeAfter tr)")
      case (Pair w' b)
      then show ?thesis using within Some move_contents [of source _ _ _ _ _ w'] all_put [OF Some, of "w'\<lparr>tl_activePaneId := tt_sourcePaneId tr\<rparr>"]
        by (cases b) (auto simp: applyTransfer_def k_def g_def)
    qed
  next
    case pane
    then show ?thesis
    proof (cases "leaf_of source (tt_sourcePaneId tr) = None
        \<or> (if tt_kind tr = ExtractPane then workspace_in s g \<noteq> None else workspace_in s g = None)")
      case True
      then show ?thesis using pane Some by (auto simp: applyTransfer_def Let_def k_def g_def split: option.splits)
    next
      case False
      then obtain n where n: "leaf_of source (tt_sourcePaneId tr) = Some n" by auto
      note ln = valid_leaf [OF conjunct1 [OF vs] n]
      then obtain a where a: "findRestoreIntent source (tn_restoreIntentId n) = Some a" "ti_id a = tn_restoreIntentId n" by auto
      obtain s1 where s1: "take_pane source (tt_sourcePaneId tr) s = Some (Some s1)"
        "all_contents s1 + {#Inl a, Inr (tt_sourcePaneId tr, tn_restoreIntentId n)#} = all_contents s"
        "\<And>j. j \<noteq> k \<Longrightarrow> workspace_in s1 j = workspace_in s j"
        using take_contents [OF valid Some n a(1)] by (auto simp: k_def)
      define x where "x = makeSinglePaneTerminalWorkspace g (tn_id n) a"
      have x: "contents x = {#Inl a, Inr (tt_sourcePaneId tr, tn_restoreIntentId n)#}"
        using ln a(2) by (simp add: x_def extracted_contents)
      show ?thesis
      proof (cases "tt_kind tr = ExtractPane")
        case True
        then have "applyTransfer tr s = Some (Some (s1\<lparr>ws_terminalWorkspaces := ws_terminalWorkspaces s1 @ [x]\<rparr>))"
          using False Some n a(1) s1(1) ln by (simp add: applyTransfer_def Let_def k_def g_def x_def)
        moreover have "all_contents (s1\<lparr>ws_terminalWorkspaces := ws_terminalWorkspaces s1 @ [x]\<rparr>) = all_contents s"
          using s1(2) x by (simp add: all_contents_def)
        ultimately show ?thesis by simp
      next
        case notext: False
        then have "k \<noteq> g" using pane by simp
        then obtain target where t: "workspace_in s1 g = Some target" "workspace_in s g = Some target" using False notext s1(3) by auto
        have r: "applyTransfer tr s = (case insertTree target x tr of None \<Rightarrow> Some None | Some target' \<Rightarrow> Some (Some (put_workspace g target' s1)))"
          using False Some n a(1) s1(1) ln pane notext t unfolding g_def k_def x_def by (simp add: applyTransfer_def Let_def)
        show ?thesis
        proof (cases "insertTree target x tr")
          case i: (Some target')
          have "all_contents (put_workspace g target' s1) + contents target = all_contents s1 + (contents target + contents x)"
            using all_put [OF t(1), of target'] insert_contents [OF i] by simp
          then have "all_contents (put_workspace g target' s1) + contents target = (all_contents s1 + contents x) + contents target"
            by (simp add: ac_simps)
          then have "all_contents (put_workspace g target' s1) = all_contents s" using x s1(2) by (simp add: add_mset_commute)
          then show ?thesis using r i by simp
        qed (simp add: r)
      qed
    qed
  qed
qed

text \<open>C3. A transfer always ends and never reads past the end of a search: it is refused and nothing changes, or it is
  done and the state is valid with the target workspace active.  Either way the workspaces together hold
  the restore intents and the panes bound to them that they held before, each as often: no
  session is lost, copied or bound to another pane.\<close>

theorem transfer_conserves:
  "\<exists>s' moved. transferTerminalWorkspace tr s = Some (s', moved) \<and> all_contents s' = all_contents s
    \<and> (if moved then validWorkspaceState s' \<and> ws_activeTerminalWorkspaceId s' = tt_targetWorkspaceId tr else s' = s)"
proof (cases "\<not> validWorkspaceState s \<or> tt_sourceWorkspaceId tr = [] \<or> tt_targetWorkspaceId tr = []")
  case True
  then show ?thesis by (auto simp: transferTerminalWorkspace_def)
next
  case False
  then obtain r where r: "applyTransfer tr s = Some r" "\<And>s'. r = Some s' \<Longrightarrow> all_contents s' = all_contents s"
    using apply_contents [of s tr] by blast
  have active: "all_contents (s'\<lparr>ws_activeTerminalWorkspaceId := i\<rparr>) = all_contents s'" for i s' by (simp add: all_contents_def)
  show ?thesis
  proof (cases r)
    case None
    then show ?thesis using r(1) False by (intro exI [of _ s] exI [of _ False]) (simp add: transferTerminalWorkspace_def)
  next
    case (Some s')
    then show ?thesis using r False active [of "tt_targetWorkspaceId tr" s']
      by (cases "validWorkspaceState (s'\<lparr>ws_activeTerminalWorkspaceId := tt_targetWorkspaceId tr\<rparr>)") (auto simp: transferTerminalWorkspace_def Let_def)
  qed
qed

section \<open>The paths of a profile\<close>

lemma erase_first_sub: "set (erase_first P xs) \<subseteq> set xs" "length (erase_first P xs) \<le> length xs"
  "distinct xs \<Longrightarrow> distinct (erase_first P xs)"
proof -
  show sub: "set (erase_first P xs) \<subseteq> set xs" for xs by (induction xs) auto
  show "length (erase_first P xs) \<le> length xs" by (induction xs) auto
  show "distinct xs \<Longrightarrow> distinct (erase_first P xs)" using sub by (induction xs) auto
qed

text \<open>Recording a visited path and toggling a bookmark keep a profile valid, for every path;
  the recent paths stay distinct when they were, a recorded path comes first, and toggling a new
  bookmark twice gives the profile back when there is room for it.\<close>

theorem profile_paths_valid:
  assumes "validProfileWorkspaceState s"
  shows "validProfileWorkspaceState (recordRecentRemotePath p s) \<and> validProfileWorkspaceState (fst (toggleBookmarkedRemotePath p s))
    \<and> (distinct (pw_recentRemotePaths s) \<longrightarrow> distinct (pw_recentRemotePaths (recordRecentRemotePath p s)))
    \<and> (validRemotePath p \<longrightarrow> hd (pw_recentRemotePaths (recordRecentRemotePath p s)) = p)
    \<and> (\<not> remotePathBookmarked s p \<and> length (pw_bookmarkedRemotePaths s) < maximumBookmarkedRemotePaths
        \<longrightarrow> fst (toggleBookmarkedRemotePath p (fst (toggleBookmarkedRemotePath p s))) = s)"
proof -
  note valid = assms [unfolded validProfileWorkspaceState_def]
  have paths: "list_all validRemotePath (pw_recentRemotePaths s)" "list_all validRemotePath (pw_bookmarkedRemotePaths s)"
    "distinct (pw_bookmarkedRemotePaths s)" "length (pw_bookmarkedRemotePaths s) \<le> maximumBookmarkedRemotePaths"
    using valid by (simp_all add: uniqueRemotePaths_def unique_by_distinct split: if_splits)
  have taken: "list_all validRemotePath (take k (p # xs))" if "validRemotePath p" "list_all validRemotePath xs" for k xs
    using that set_take_subset [of k "p # xs"] by (auto simp: list_all_iff)
  have "validProfileWorkspaceState (recordRecentRemotePath p s)"
  proof (cases "validRemotePath p")
    case True
    have "list_all validRemotePath (filter (\<lambda>q. q \<noteq> p) (pw_recentRemotePaths s))" using paths(1) by (auto simp: list_all_iff)
    then have "list_all validRemotePath (take maximumRecentRemotePaths (p # filter (\<lambda>q. q \<noteq> p) (pw_recentRemotePaths s)))"
      by (rule taken [OF True])
    then show ?thesis using assms True unfolding validProfileWorkspaceState_def recordRecentRemotePath_def
      by (simp split: if_splits)
  qed (simp add: recordRecentRemotePath_def assms)
  moreover have "validProfileWorkspaceState (fst (toggleBookmarkedRemotePath p s))"
  proof -
    define marks where "marks = pw_bookmarkedRemotePaths (fst (toggleBookmarkedRemotePath p s))"
    have "list_all validRemotePath marks \<and> distinct marks \<and> length marks \<le> maximumBookmarkedRemotePaths"
      using paths taken [of "pw_bookmarkedRemotePaths s" maximumBookmarkedRemotePaths] erase_first_sub [where P = "\<lambda>q. q = p" and xs = "pw_bookmarkedRemotePaths s"]
        distinct_take [of "p # pw_bookmarkedRemotePaths s" maximumBookmarkedRemotePaths]
      by (auto simp: marks_def toggleBookmarkedRemotePath_def list_all_iff intro: order_trans)
    moreover have "fst (toggleBookmarkedRemotePath p s) = s\<lparr>pw_bookmarkedRemotePaths := marks\<rparr>"
      by (simp add: marks_def toggleBookmarkedRemotePath_def)
    ultimately show ?thesis using assms unfolding validProfileWorkspaceState_def
      by (simp add: uniqueRemotePaths_def unique_by_distinct split: if_splits)
  qed
  moreover have "distinct (pw_recentRemotePaths (recordRecentRemotePath p s))" if "distinct (pw_recentRemotePaths s)"
    using that distinct_take [of "p # filter (\<lambda>q. q \<noteq> p) (pw_recentRemotePaths s)" maximumRecentRemotePaths]
    by (simp add: recordRecentRemotePath_def)
  moreover have "hd (pw_recentRemotePaths (recordRecentRemotePath p s)) = p" if "validRemotePath p"
    using that by (simp add: recordRecentRemotePath_def maximumRecentRemotePaths_def)
  moreover have "fst (toggleBookmarkedRemotePath p (fst (toggleBookmarkedRemotePath p s))) = s"
    if "\<not> remotePathBookmarked s p" "length (pw_bookmarkedRemotePaths s) < maximumBookmarkedRemotePaths"
    using that by (simp add: toggleBookmarkedRemotePath_def remotePathBookmarked_def)
  ultimately show ?thesis by blast
qed

lemma profile_paths_valid_witness:
  "validProfileWorkspaceState (recordRecentRemotePath ''/home'' (profile_new ''p''))
   \<and> fst (toggleBookmarkedRemotePath ''/home'' (fst (toggleBookmarkedRemotePath ''/home'' (profile_new ''p'')))) = profile_new ''p''"
proof -
  have "validProfileWorkspaceState (profile_new ''p'')" by code_simp
  from profile_paths_valid [OF this, of "''/home''"] show ?thesis
    by (simp add: remotePathBookmarked_def profile_new_def maximumBookmarkedRemotePaths_def)
qed

end
