(* ===== verification/Permission_Policy.thy ===== *)
theory Permission_Policy
  imports Complex_Main Prelude
begin

text \<open>
  What an agent may do: \<open>src/domain/ai/AiPermissionPolicy\<close>.  The rule engine keeps the rules of the
  user, \<open>decide\<close> turns a request into allow, ask or deny, \<open>classifyCommand\<close> finds commands of high
  risk and \<open>suggestCommandRule\<close> proposes the rule the user is offered for a command.  \<open>std::regex\<close>
  is the parameter \<open>regex\<close>: \<open>None\<close> when the pattern does not compile, else the match of a whole
  subject.  The characters are classified as in the C locale, in which the program runs.
\<close>

section \<open>Characters\<close>

definition tolower :: "char \<Rightarrow> char" where
  "tolower c = (let n = of_char c :: nat in if 65 \<le> n \<and> n \<le> 90 then char_of (n + 32) else c)"

abbreviation space :: char where "space \<equiv> CHR 0x20"

section \<open>Rules\<close>

datatype AiPermissionMode = ReadOnlyMode | AskMode | AutomaticMode | YoloMode

datatype AiPermissionDisposition = PermitAllow | PermitAsk | PermitDeny

datatype AiPermissionCapability =
  TerminalCommand | PtyInput | TerminalInterrupt | RunbookMutation | SftpDownload | SftpUpload | McpTool

datatype AiPermissionRuleMatcher = ExactMatcher | PrefixMatcher | GlobMatcher | RegexMatcher | AllMatcher

datatype AiPermissionRuleDuration = OnceDuration | SessionDuration | ProfileDuration | GlobalDuration

record AiPermissionRule =
  rule_id :: string
  rule_capability :: AiPermissionCapability
  rule_matcher :: AiPermissionRuleMatcher
  rule_pattern :: string
  rule_disposition :: AiPermissionDisposition
  rule_duration :: AiPermissionRuleDuration
  rule_sessionId :: string
  rule_profileId :: string
  rule_enabled :: bool

record AiPermissionRuleQuery =
  qr_capability :: AiPermissionCapability
  qr_subject :: string
  qr_sessionId :: string
  qr_profileId :: string

record AiPermissionRuleMatch =
  rm_ruleId :: string
  rm_disposition :: AiPermissionDisposition
  rm_duration :: AiPermissionRuleDuration

type_synonym AiPermissionRuleEngine = "AiPermissionRule list"

type_synonym regex_library = "string \<Rightarrow> (string \<Rightarrow> bool) option"

text \<open>
  The loop of \<open>globMatches\<close> with the positions in the pattern and in the value, and the last star
  with the position in the value it was tried at.
\<close>

partial_function (option) glob_loop ::
  "string \<Rightarrow> string \<Rightarrow> nat \<Rightarrow> nat \<Rightarrow> (nat \<times> nat) option \<Rightarrow> bool option" where
  "glob_loop pattern subject patternIndex valueIndex star =
     (if valueIndex < length subject
      then (if patternIndex < length pattern
              \<and> (pattern ! patternIndex = CHR ''?'' \<or> pattern ! patternIndex = subject ! valueIndex)
            then glob_loop pattern subject (patternIndex + 1) (valueIndex + 1) star
            else if patternIndex < length pattern \<and> pattern ! patternIndex = CHR ''*''
            then glob_loop pattern subject (patternIndex + 1) valueIndex (Some (patternIndex, valueIndex))
            else (case star of
                    None \<Rightarrow> Some False
                  | Some (starIndex, starValueIndex) \<Rightarrow>
                      glob_loop pattern subject (starIndex + 1) (starValueIndex + 1)
                        (Some (starIndex, starValueIndex + 1))))
      else Some (dropWhile (\<lambda>c. c = CHR ''*'') (drop patternIndex pattern) = []))"

text \<open>The loop always ends, as \<open>glob_loop_sound\<close> shows.\<close>

definition globMatches :: "string \<Rightarrow> string \<Rightarrow> bool" where
  "globMatches pattern subject \<longleftrightarrow> glob_loop pattern subject 0 0 None = Some True"

text \<open>A valid rule has a pattern unless it matches everything, so \<open>pattern.back()\<close> exists.\<close>

definition subjectMatches :: "regex_library \<Rightarrow> AiPermissionRule \<Rightarrow> string \<Rightarrow> bool" where
  "subjectMatches regex rule subject =
     (case rule_matcher rule of
        ExactMatcher \<Rightarrow> subject = rule_pattern rule
      | PrefixMatcher \<Rightarrow>
          (if \<not> prefix (rule_pattern rule) subject then False
           else if rule_capability rule \<noteq> TerminalCommand then True
           else if length subject = length (rule_pattern rule) \<or> isspace (last (rule_pattern rule)) then True
           else isspace (subject ! length (rule_pattern rule)))
      | GlobMatcher \<Rightarrow> globMatches (rule_pattern rule) subject
      | RegexMatcher \<Rightarrow> (case regex (rule_pattern rule) of None \<Rightarrow> False | Some matches \<Rightarrow> matches subject)
      | AllMatcher \<Rightarrow> True)"

definition scopeMatches :: "AiPermissionRule \<Rightarrow> AiPermissionRuleQuery \<Rightarrow> bool" where
  "scopeMatches rule query =
     (case rule_duration rule of
        OnceDuration \<Rightarrow> qr_sessionId query \<noteq> [] \<and> rule_sessionId rule = qr_sessionId query
      | SessionDuration \<Rightarrow> qr_sessionId query \<noteq> [] \<and> rule_sessionId rule = qr_sessionId query
      | ProfileDuration \<Rightarrow> qr_profileId query \<noteq> [] \<and> rule_profileId rule = qr_profileId query
      | GlobalDuration \<Rightarrow> True)"

definition dispositionPriority :: "AiPermissionDisposition \<Rightarrow> nat" where
  "dispositionPriority disposition = (case disposition of PermitDeny \<Rightarrow> 0 | PermitAsk \<Rightarrow> 1 | PermitAllow \<Rightarrow> 2)"

definition rule_valid :: "regex_library \<Rightarrow> AiPermissionRule \<Rightarrow> bool" where
  "rule_valid regex rule =
     (if rule_id rule = [] \<or> length (rule_id rule) > 128 \<or> length (rule_pattern rule) > 1024 then False
      else if rule_matcher rule \<noteq> AllMatcher \<and> rule_pattern rule = [] then False
      else if (rule_duration rule = OnceDuration \<or> rule_duration rule = SessionDuration)
        \<and> (rule_sessionId rule = [] \<or> length (rule_sessionId rule) > 128) then False
      else if rule_duration rule = ProfileDuration \<and> (rule_profileId rule = [] \<or> length (rule_profileId rule) > 128)
      then False
      else if rule_matcher rule = RegexMatcher then regex (rule_pattern rule) \<noteq> None
      else True)"

section \<open>The rule engine\<close>

definition maximumRules :: nat where "maximumRules = 256"

fun fresh_rules :: "regex_library \<Rightarrow> string list \<Rightarrow> AiPermissionRule list \<Rightarrow> bool" where
  "fresh_rules regex ids [] = True"
| "fresh_rules regex ids (rule # rest) =
     (if \<not> rule_valid regex rule \<or> rule_id rule \<in> set ids then False
      else fresh_rules regex (rule_id rule # ids) rest)"

definition rules_replace ::
  "regex_library \<Rightarrow> AiPermissionRule list \<Rightarrow> AiPermissionRuleEngine \<Rightarrow> AiPermissionRuleEngine \<times> bool" where
  "rules_replace regex rules engine =
     (if length rules > maximumRules then (engine, False)
      else if \<not> fresh_rules regex [] rules then (engine, False)
      else (rules, True))"

definition rules_add ::
  "regex_library \<Rightarrow> AiPermissionRule \<Rightarrow> AiPermissionRuleEngine \<Rightarrow> AiPermissionRuleEngine \<times> bool" where
  "rules_add regex rule engine =
     (if length engine \<ge> maximumRules \<or> \<not> rule_valid regex rule
         \<or> list_ex (\<lambda>existing. rule_id existing = rule_id rule) engine
      then (engine, False) else (engine @ [rule], True))"

definition rules_remove :: "string \<Rightarrow> AiPermissionRuleEngine \<Rightarrow> AiPermissionRuleEngine \<times> bool" where
  "rules_remove ruleId engine =
     (case find (\<lambda>r. rule_id r = ruleId) engine of
        None \<Rightarrow> (engine, False)
      | Some _ \<Rightarrow> (erase_first (\<lambda>r. rule_id r = ruleId) engine, True))"

text \<open>The loop of \<open>evaluate\<close>: the index of the best rule so far and its priority.\<close>

fun evaluate_loop ::
  "regex_library \<Rightarrow> AiPermissionRuleQuery \<Rightarrow> nat \<Rightarrow> AiPermissionRule list \<Rightarrow> nat option \<Rightarrow> nat \<Rightarrow> nat option" where
  "evaluate_loop regex query index [] bestIndex bestPriority = bestIndex"
| "evaluate_loop regex query index (rule # rest) bestIndex bestPriority =
     (let priority = dispositionPriority (rule_disposition rule)
      in if \<not> rule_enabled rule \<or> priority \<ge> bestPriority \<or> rule_capability rule \<noteq> qr_capability query
            \<or> \<not> scopeMatches rule query \<or> \<not> subjectMatches regex rule (qr_subject query)
         then evaluate_loop regex query (index + 1) rest bestIndex bestPriority
         else evaluate_loop regex query (index + 1) rest (Some index) priority)"

definition rules_evaluate :: "regex_library \<Rightarrow> AiPermissionRuleQuery \<Rightarrow> AiPermissionRuleEngine
    \<Rightarrow> AiPermissionRuleEngine \<times> AiPermissionRuleMatch option" where
  "rules_evaluate regex query engine =
     (case evaluate_loop regex query 0 engine None 4 of
        None \<Rightarrow> (engine, None)
      | Some bestIndex \<Rightarrow>
          (let rule = engine ! bestIndex
           in (if rule_duration rule = OnceDuration then take bestIndex engine @ drop (bestIndex + 1) engine else engine,
               Some \<lparr>rm_ruleId = rule_id rule, rm_disposition = rule_disposition rule, rm_duration = rule_duration rule\<rparr>)))"

definition rules_clearSession :: "string \<Rightarrow> AiPermissionRuleEngine \<Rightarrow> AiPermissionRuleEngine" where
  "rules_clearSession sessionId engine =
     filter (\<lambda>r. \<not> ((rule_duration r = OnceDuration \<or> rule_duration r = SessionDuration) \<and> rule_sessionId r = sessionId)) engine"

section \<open>The policy\<close>

datatype AiPermissionReason =
  InvalidSchema | InvalidScope | UnavailableCapability | ExplicitDeny | ExplicitAsk | ExplicitVisibleApproval
| ExplicitAllow | InReadOnlyMode | InAskMode | InAutomaticMode | InYoloMode | HighRiskOverlay | DefaultDeny

record AiPermissionRequest =
  pr_mode :: AiPermissionMode
  pr_write :: bool
  pr_schemaValid :: bool
  pr_scopeValid :: bool
  pr_capabilityAvailable :: bool
  pr_explicitDeny :: bool
  pr_explicitAsk :: bool
  pr_explicitVisibleApproval :: bool
  pr_explicitAllow :: bool
  pr_highRisk :: bool

text \<open>The initialisers of a request.\<close>

definition request_default :: AiPermissionRequest where
  "request_default = \<lparr>pr_mode = ReadOnlyMode, pr_write = False, pr_schemaValid = True, pr_scopeValid = True,
     pr_capabilityAvailable = True, pr_explicitDeny = False, pr_explicitAsk = False,
     pr_explicitVisibleApproval = False, pr_explicitAllow = False, pr_highRisk = False\<rparr>"

record AiPermissionDecision =
  pd_disposition :: AiPermissionDisposition
  pd_reason :: AiPermissionReason

definition decide :: "AiPermissionRequest \<Rightarrow> AiPermissionDecision" where
  "decide r =
     (if \<not> pr_schemaValid r then \<lparr>pd_disposition = PermitDeny, pd_reason = InvalidSchema\<rparr>
      else if \<not> pr_scopeValid r then \<lparr>pd_disposition = PermitDeny, pd_reason = InvalidScope\<rparr>
      else if \<not> pr_capabilityAvailable r then \<lparr>pd_disposition = PermitDeny, pd_reason = UnavailableCapability\<rparr>
      else if pr_explicitDeny r then \<lparr>pd_disposition = PermitDeny, pd_reason = ExplicitDeny\<rparr>
      else if \<not> pr_write r then \<lparr>pd_disposition = PermitAllow, pd_reason = ExplicitAllow\<rparr>
      else if pr_explicitVisibleApproval r then \<lparr>pd_disposition = PermitAllow, pd_reason = ExplicitVisibleApproval\<rparr>
      else if pr_explicitAsk r then \<lparr>pd_disposition = PermitAsk, pd_reason = ExplicitAsk\<rparr>
      else if pr_explicitAllow r then \<lparr>pd_disposition = PermitAllow, pd_reason = ExplicitAllow\<rparr>
      else (case pr_mode r of
              ReadOnlyMode \<Rightarrow> \<lparr>pd_disposition = PermitDeny, pd_reason = InReadOnlyMode\<rparr>
            | AskMode \<Rightarrow> \<lparr>pd_disposition = PermitAsk, pd_reason = InAskMode\<rparr>
            | AutomaticMode \<Rightarrow>
                (if pr_highRisk r then \<lparr>pd_disposition = PermitAsk, pd_reason = HighRiskOverlay\<rparr>
                 else \<lparr>pd_disposition = PermitAllow, pd_reason = InAutomaticMode\<rparr>)
            | YoloMode \<Rightarrow> \<lparr>pd_disposition = PermitAllow, pd_reason = InYoloMode\<rparr>))"

section \<open>The risk of a command\<close>

fun squeeze :: "bool \<Rightarrow> string \<Rightarrow> string" where
  "squeeze previousSpace [] = []"
| "squeeze previousSpace (c # cs) =
     (if isspace c then (if previousSpace then squeeze True cs else space # squeeze True cs)
      else tolower c # squeeze False cs)"

definition normalizedCommand :: "string \<Rightarrow> string" where
  "normalizedCommand command =
     (let result = squeeze True (take (16 * 1024) command)
      in if result \<noteq> [] \<and> last result = space then butlast result else result)"

definition containsAny :: "string \<Rightarrow> string list \<Rightarrow> bool" where
  "containsAny command patterns = list_ex (\<lambda>pattern. sublist pattern command) patterns"

datatype AiCommandRiskCategory =
  NoRisk | DestructiveFilesystem | DestructiveDisk | RecursivePermission | PrivilegeOrCredential
| ShutdownOrReboot | NetworkDisruption | OpaqueDownloadAndExecute

definition filesystem_patterns :: "string list" where
  "filesystem_patterns = [''rm -rf'', ''rm -fr'', ''remove-item -recurse -force'', ''remove-item -force -recurse'',
     ''rmdir /s'', ''rd /s'', ''del /s'']"

definition disk_patterns :: "string list" where
  "disk_patterns = [''format '', ''format.com '', ''mkfs'', ''diskpart'', ''clear-disk'', ''initialize-disk'', ''dd if='']"

definition permission_patterns :: "string list" where
  "permission_patterns = [''chmod -r'', ''chown -r'', ''icacls '', ''takeown /r'']"

definition credential_patterns :: "string list" where
  "credential_patterns = [''passwd'', ''chpasswd'', ''visudo'', ''useradd'', ''userdel'', ''net user'', ''set-localuser'',
     ''new-localuser'']"

definition shutdown_patterns :: "string list" where
  "shutdown_patterns = [''shutdown'', ''restart-computer'', ''stop-computer'', ''reboot'', ''systemctl poweroff'']"

definition network_patterns :: "string list" where
  "network_patterns = [''iptables -f'', ''nft flush'', ''ufw disable'', ''netsh advfirewall'', ''disable-netadapter'',
     ''ip link set'']"

definition download_patterns :: "string list" where
  "download_patterns = [''curl '', ''wget '', ''invoke-webrequest'', ''iwr '']"

definition execute_patterns :: "string list" where
  "execute_patterns = [''| sh'', ''| bash'', ''| zsh'', ''| pwsh'', ''| powershell'', ''invoke-expression'', ''iex '']"

definition opaque_patterns :: "string list" where
  "opaque_patterns = [''powershell -enc'', ''powershell.exe -enc'', ''pwsh -enc'', ''frombase64string('']"

text \<open>The category of the report; its English reason is not modelled.\<close>

definition classifyCommand :: "string \<Rightarrow> AiCommandRiskCategory" where
  "classifyCommand command =
     (if CHR 0x00 \<in> set command then OpaqueDownloadAndExecute
      else (let normalized = normalizedCommand command
            in if containsAny normalized filesystem_patterns then DestructiveFilesystem
               else if containsAny normalized disk_patterns then DestructiveDisk
               else if containsAny normalized permission_patterns then RecursivePermission
               else if containsAny normalized credential_patterns then PrivilegeOrCredential
               else if containsAny normalized shutdown_patterns then ShutdownOrReboot
               else if containsAny normalized network_patterns then NetworkDisruption
               else if containsAny normalized download_patterns \<and> containsAny normalized execute_patterns
                 \<or> containsAny normalized opaque_patterns
               then OpaqueDownloadAndExecute
               else NoRisk))"

definition highRisk :: "AiCommandRiskCategory \<Rightarrow> bool" where
  "highRisk category \<longleftrightarrow> category \<noteq> NoRisk"

section \<open>The suggested rule\<close>

definition trim_spaces :: "string \<Rightarrow> string" where
  "trim_spaces command = rev (dropWhile isspace (rev (dropWhile isspace command)))"

text \<open>The token that starts at the first character that is no space, and where it ends.\<close>

definition next_token :: "string \<Rightarrow> nat \<Rightarrow> string \<times> nat" where
  "next_token cs index =
     (let skipped = takeWhile isspace (drop index cs);
          token = takeWhile (\<lambda>c. \<not> isspace c) (dropWhile isspace (drop index cs))
      in (token, index + length skipped + length token))"

fun tokens_loop :: "nat \<Rightarrow> string \<Rightarrow> nat \<Rightarrow> (string \<times> nat) list" where
  "tokens_loop 0 cs index = []"
| "tokens_loop (Suc n) cs index =
     (if index < length cs
      then (case next_token cs index of
              (token, index') \<Rightarrow> if token = [] then [] else (token, index') # tokens_loop n cs index')
      else [])"

definition meta_characters :: string where
  "meta_characters = [CHR 0x0D, CHR 0x0A, CHR '';'', CHR ''|'', CHR ''&'', CHR ''>'', CHR ''<'', CHR 0x60, CHR ''$'',
     CHR ''('', CHR '')'', CHR 0x22, CHR 0x27]"

definition singleTokenPrefixes :: "string list" where
  "singleTokenPrefixes = [''pwd'', ''whoami'', ''hostname'', ''uname'', ''get-process'', ''get-service'', ''resolve-dnsname'']"

definition twoTokenPrefixes :: "string list" where
  "twoTokenPrefixes = [''git status'', ''git diff'', ''git log'', ''git show'', ''git branch'', ''git rev-parse'', ''git ls-files'',
     ''cargo test'', ''cargo check'', ''cargo build'', ''cargo fmt'', ''cargo clippy'', ''docker ps'', ''docker logs'',
     ''docker inspect'', ''docker stats'', ''kubectl get'', ''kubectl describe'', ''kubectl logs'', ''kubectl top'',
     ''systemctl status'', ''systemctl is-active'', ''systemctl show'', ''systemctl list-units'', ''npm test'', ''npm view'',
     ''npm list'', ''npm explain'']"

definition suggestCommandRule :: "string \<Rightarrow> AiPermissionRuleMatcher \<times> string" where
  "suggestCommandRule command =
     (let trimmed = trim_spaces command; exact = (ExactMatcher, trimmed) in
      if trimmed = [] then (ExactMatcher, [])
      else if highRisk (classifyCommand trimmed) \<or> list_ex (\<lambda>c. c \<in> set meta_characters) trimmed then exact
      else (case tokens_loop 2 trimmed 0 of
              [] \<Rightarrow> exact
            | (first, end1) # rest \<Rightarrow>
                (if map tolower first \<in> set singleTokenPrefixes then (PrefixMatcher, take end1 trimmed)
                 else (case rest of
                         [] \<Rightarrow> exact
                       | (second, end2) # _ \<Rightarrow>
                           (if map tolower first @ space # map tolower second \<in> set twoTokenPrefixes
                            then (PrefixMatcher, take end2 trimmed) else exact)))))"

end
