(* ===== verification/Permission_Rules.thy ===== *)
theory Permission_Rules
  imports Permission_Policy
begin

text \<open>
  The rule engine of \<open>AiPermissionPolicy.cpp\<close>: the glob matcher against the definition of what a glob
  matches, the rule \<open>evaluate\<close> answers, and the rules a caller can reach.
\<close>

section \<open>What a glob matches\<close>

fun glob :: "string \<Rightarrow> string \<Rightarrow> bool" where
  "glob [] cs = (cs = [])"
| "glob (p # ps) [] = (p = CHR ''*'' \<and> glob ps [])"
| "glob (p # ps) (c # cs) =
     (if p = CHR ''*'' then glob ps (c # cs) \<or> glob (p # ps) cs
      else (p = CHR ''?'' \<or> p = c) \<and> glob ps cs)"

lemma glob_star: "glob (CHR ''*'' # ps) cs \<longleftrightarrow> (\<exists>k \<le> length cs. glob ps (drop k cs))"
proof (induction cs)
  case (Cons c cs)
  have "(\<exists>k \<le> length (c # cs). glob ps (drop k (c # cs))) \<longleftrightarrow> glob ps (c # cs) \<or> (\<exists>k \<le> length cs. glob ps (drop k cs))"
    (is "?l \<longleftrightarrow> ?r")
  proof
    assume ?l
    then obtain k where "k \<le> length (c # cs)" "glob ps (drop k (c # cs))" by blast
    then show ?r by (cases k) auto
  next
    assume ?r
    then show ?l by (auto intro: exI [of _ 0] exI [of _ "Suc k" for k])
  qed
  then show ?case using Cons by simp
qed simp

lemma glob_nil: "glob ps [] = (dropWhile (\<lambda>c. c = CHR ''*'') ps = [])"
  by (induction ps) auto

text \<open>The rest of the pattern matches the rest of the subject.\<close>

abbreviation rest_matches :: "string \<Rightarrow> string \<Rightarrow> nat \<Rightarrow> nat \<Rightarrow> bool" where
  "rest_matches pat s p v \<equiv> glob (drop p pat) (drop v s)"

lemma rest_star:
  "p < length pat \<Longrightarrow> pat ! p = CHR ''*'' \<Longrightarrow> v \<le> length s \<Longrightarrow>
    rest_matches pat s p v \<longleftrightarrow> (\<exists>k. v \<le> k \<and> k \<le> length s \<and> rest_matches pat s (p + 1) k)"
proof -
  assume "p < length pat" "pat ! p = CHR ''*''" "v \<le> length s"
  then have "rest_matches pat s p v \<longleftrightarrow> (\<exists>k \<le> length s - v. glob (drop (Suc p) pat) (drop k (drop v s)))"
    by (simp add: Cons_nth_drop_Suc [symmetric] glob_star)
  also have "\<dots> \<longleftrightarrow> (\<exists>k. v \<le> k \<and> k \<le> length s \<and> rest_matches pat s (p + 1) k)"
  proof
    assume "\<exists>k \<le> length s - v. glob (drop (Suc p) pat) (drop k (drop v s))"
    then obtain k where "k \<le> length s - v" "glob (drop (Suc p) pat) (drop k (drop v s))" by blast
    then show "\<exists>k. v \<le> k \<and> k \<le> length s \<and> rest_matches pat s (p + 1) k"
      using \<open>v \<le> length s\<close> by (intro exI [of _ "k + v"]) simp
  next
    assume "\<exists>k. v \<le> k \<and> k \<le> length s \<and> rest_matches pat s (p + 1) k"
    then obtain k where "v \<le> k" "k \<le> length s" "rest_matches pat s (p + 1) k" by blast
    then show "\<exists>k \<le> length s - v. glob (drop (Suc p) pat) (drop k (drop v s))"
      by (intro exI [of _ "k - v"]) simp
  qed
  finally show ?thesis .
qed

lemma rest_char:
  "p < length pat \<Longrightarrow> pat ! p \<noteq> CHR ''*'' \<Longrightarrow> v < length s \<Longrightarrow>
    rest_matches pat s p v \<longleftrightarrow> (pat ! p = CHR ''?'' \<or> pat ! p = s ! v) \<and> rest_matches pat s (p + 1) (v + 1)"
  by (simp add: Cons_nth_drop_Suc [symmetric])

lemma rest_char_end: "p < length pat \<Longrightarrow> pat ! p \<noteq> CHR ''*'' \<Longrightarrow> length s \<le> v \<Longrightarrow> \<not> rest_matches pat s p v"
  by (simp add: Cons_nth_drop_Suc [symmetric])

lemma rest_end: "length pat \<le> p \<Longrightarrow> rest_matches pat s p v \<longleftrightarrow> length s \<le> v"
  by simp

text \<open>A part of the pattern without a star takes as many characters as it has.\<close>

lemma rest_segment:
  assumes "s0 \<le> p" "p \<le> length pat" "\<And>i. s0 \<le> i \<Longrightarrow> i < p \<Longrightarrow> pat ! i \<noteq> CHR ''*''" "rest_matches pat s s0 k" "k \<le> length s"
  shows "k + (p - s0) \<le> length s \<and> rest_matches pat s p (k + (p - s0))"
  using assms
proof (induction "p - s0" arbitrary: s0 k)
  case 0
  then show ?case by simp
next
  case (Suc n)
  then have s0: "s0 < p" "pat ! s0 \<noteq> CHR ''*''" by auto
  have k: "k < length s"
  proof (rule ccontr)
    assume "\<not> k < length s"
    then show False using rest_char_end [of s0 pat s k] s0 Suc.prems by simp
  qed
  then have "rest_matches pat s (s0 + 1) (k + 1)" using rest_char [of s0 pat k s] s0 Suc.prems by simp
  moreover have "n = p - (s0 + 1)" using Suc(2) by simp
  ultimately have "(k + 1) + (p - (s0 + 1)) \<le> length s \<and> rest_matches pat s p ((k + 1) + (p - (s0 + 1)))"
    using Suc.hyps(1) [of "s0 + 1" "k + 1"] Suc.prems(2,3) s0(1) k by simp
  moreover have "(k + 1) + (p - (s0 + 1)) = k + (p - s0)" using s0(1) by simp
  ultimately show ?case by (simp only:)
qed

text \<open>What the loop is to answer: the rest matches, or the last star may take more characters.\<close>

definition glob_answer :: "string \<Rightarrow> string \<Rightarrow> nat \<Rightarrow> nat \<Rightarrow> (nat \<times> nat) option \<Rightarrow> bool" where
  "glob_answer pat s p v star \<longleftrightarrow> rest_matches pat s p v
     \<or> (case star of None \<Rightarrow> False | Some (i, w) \<Rightarrow> \<exists>k. w < k \<and> k \<le> length s \<and> rest_matches pat s (i + 1) k)"

text \<open>The part of the pattern after the last star was matched character by character.\<close>

definition star_ok :: "string \<Rightarrow> nat \<Rightarrow> (nat \<times> nat) option \<Rightarrow> bool" where
  "star_ok pat v star \<longleftrightarrow> (case star of None \<Rightarrow> True | Some (i, w) \<Rightarrow> i < length pat \<and> w \<le> v)"

definition segment_ok :: "string \<Rightarrow> nat \<Rightarrow> nat \<Rightarrow> (nat \<times> nat) option \<Rightarrow> bool" where
  "segment_ok pat p v star \<longleftrightarrow> (case star of None \<Rightarrow> True
     | Some (i, w) \<Rightarrow> i < p \<and> v + i + 1 = w + p \<and> pat ! i = CHR ''*'' \<and> (\<forall>j. i < j \<and> j < p \<longrightarrow> pat ! j \<noteq> CHR ''*''))"

lemma no_later:
  assumes "segment_ok pat p v (Some (i, w))" "p \<le> length pat" "w < k" "k \<le> length s" "rest_matches pat s (i + 1) k"
  shows "v < k + (p - (i + 1)) \<and> k + (p - (i + 1)) \<le> length s \<and> rest_matches pat s p (k + (p - (i + 1)))"
proof -
  have "i < p" "v + i + 1 = w + p" and "\<And>j. i + 1 \<le> j \<Longrightarrow> j < p \<Longrightarrow> pat ! j \<noteq> CHR ''*''"
    using assms(1) by (auto simp: segment_ok_def)
  then show ?thesis using rest_segment [of "i + 1" p pat k s] assms(2-5) by auto
qed

definition glob_measure :: "string \<Rightarrow> string \<Rightarrow> ((nat \<times> nat \<times> (nat \<times> nat) option) \<times> (nat \<times> nat \<times> (nat \<times> nat) option)) set" where
  "glob_measure pat s = measures [\<lambda>(p, v, star). case star of None \<Rightarrow> length s + 1 | Some (i, w) \<Rightarrow> length s - w,
     \<lambda>(p, v, star). length s - v, \<lambda>(p, v, star). length pat - p]"

lemma glob_step:
  assumes "p \<le> length pat" "v \<le> length s" "star_ok pat v star"
  obtains
    (finish) b where "glob_loop pat s p v star = Some b" "b \<longrightarrow> glob_answer pat s p v star"
      "segment_ok pat p v star \<Longrightarrow> b = glob_answer pat s p v star"
  | (go) p' v' star' where "glob_loop pat s p v star = glob_loop pat s p' v' star'" "p' \<le> length pat" "v' \<le> length s" "star_ok pat v' star'"
      "((p', v', star'), (p, v, star)) \<in> glob_measure pat s"
      "glob_answer pat s p' v' star' \<longrightarrow> glob_answer pat s p v star"
      "CHR ''*'' \<notin> set s \<Longrightarrow> segment_ok pat p v star \<Longrightarrow>
         segment_ok pat p' v' star' \<and> glob_answer pat s p' v' star' = glob_answer pat s p v star"
proof (cases "v < length s")
  case False
  then have v: "v = length s" using assms(2) by simp
  let ?b = "dropWhile (\<lambda>c. c = CHR ''*'') (drop p pat) = []"
  have "glob_loop pat s p v star = Some ?b" using False by (subst glob_loop.simps) simp
  moreover have "?b = rest_matches pat s p v" using v by (simp add: glob_nil)
  moreover have "glob_answer pat s p v star = rest_matches pat s p v" if "segment_ok pat p v star"
    using no_later [of pat p v _ _ _ s] that assms(1) v by (cases star) (fastforce simp: glob_answer_def)+
  ultimately show thesis by (intro finish [of ?b]) (auto simp: glob_answer_def)
next
  case v: True
  show thesis
  proof (cases "p < length pat \<and> (pat ! p = CHR ''?'' \<or> pat ! p = s ! v)")
    case True
    have loop: "glob_loop pat s p v star = glob_loop pat s (p + 1) (v + 1) star" using v True by (subst glob_loop.simps) simp
    have step: "rest_matches pat s (p + 1) (v + 1) \<Longrightarrow> rest_matches pat s p v"
    proof (cases "pat ! p = CHR ''*''")
      case star: True
      then show "rest_matches pat s (p + 1) (v + 1) \<Longrightarrow> rest_matches pat s p v"
        using rest_star [of p pat v s] True v by (auto intro: exI [of _ "v + 1"])
    qed (use rest_char [of p pat v s] True v in simp)
    have clean: "pat ! p \<noteq> CHR ''*''" if "CHR ''*'' \<notin> set s" using True that v by (auto simp: in_set_conv_nth)
    show thesis
    proof (rule go [OF loop])
      show "((p + 1, v + 1, star), (p, v, star)) \<in> glob_measure pat s" using v by (cases star) (auto simp: glob_measure_def)
      show "CHR ''*'' \<notin> set s \<Longrightarrow> segment_ok pat p v star \<Longrightarrow> segment_ok pat (p + 1) (v + 1) star
          \<and> glob_answer pat s (p + 1) (v + 1) star = glob_answer pat s p v star"
        using clean rest_char [of p pat v s] True v
        by (auto simp: segment_ok_def glob_answer_def less_Suc_eq split: option.splits)
    qed (use True v assms step in \<open>auto simp: star_ok_def glob_answer_def split: option.splits\<close>)
  next
    case nochar: False
    show thesis
    proof (cases "p < length pat \<and> pat ! p = CHR ''*''")
      case True
      have loop: "glob_loop pat s p v star = glob_loop pat s (p + 1) v (Some (p, v))" using v nochar True by (subst glob_loop.simps) simp
      have answer: "glob_answer pat s (p + 1) v (Some (p, v)) = rest_matches pat s p v"
        using rest_star [of p pat v s] True v by (auto simp: glob_answer_def le_less)
      have "glob_answer pat s p v star \<Longrightarrow> rest_matches pat s p v" if "segment_ok pat p v star"
      proof (cases star)
        case (Some iw)
        obtain i w where iw: "iw = (i, w)" by fastforce
        assume "glob_answer pat s p v star"
        then consider "rest_matches pat s p v" | k where "w < k" "k \<le> length s" "rest_matches pat s (i + 1) k"
          by (auto simp: glob_answer_def Some iw)
        then show ?thesis
        proof cases
          case 2
          then have "v < k + (p - (i + 1)) \<and> k + (p - (i + 1)) \<le> length s \<and> rest_matches pat s p (k + (p - (i + 1)))"
            using no_later [of pat p v i w k s] that Some iw assms(1) by simp
          then show ?thesis using rest_star [of p pat v s] rest_star [of p pat "k + (p - (i + 1))" s] True v
            by (meson less_imp_le order_trans)
        qed simp
      qed (simp add: glob_answer_def)
      then show thesis using True v assms answer
        by (intro go [OF loop]) (auto simp: star_ok_def segment_ok_def glob_measure_def glob_answer_def split: option.splits)
    next
      case nostar: False
      have dead: "\<not> rest_matches pat s p v"
      proof (cases "p < length pat")
        case True
        then show ?thesis using rest_char [of p pat v s] nochar nostar v by simp
      qed (use rest_end v in auto)
      show thesis
      proof (cases star)
        case None
        then have "glob_loop pat s p v star = Some False" using v nochar nostar by (subst glob_loop.simps) auto
        then show thesis using dead None by (intro finish [of False]) (auto simp: glob_answer_def)
      next
        case (Some iw)
        obtain i w where iw: "iw = (i, w)" by fastforce
        have loop: "glob_loop pat s p v star = glob_loop pat s (i + 1) (w + 1) (Some (i, w + 1))"
          using v nochar nostar Some iw by (subst glob_loop.simps) auto
        have w: "w < length s" using assms(3) v Some iw by (simp add: star_ok_def)
        have next_k: "(\<exists>k. w < k \<and> k \<le> length s \<and> P k) \<longleftrightarrow> P (w + 1) \<or> (\<exists>k. w + 1 < k \<and> k \<le> length s \<and> P k)" for P
          using w by (metis Suc_eq_plus1 Suc_leI less_SucI not_less_eq order_less_le)
        have answer: "glob_answer pat s (i + 1) (w + 1) (Some (i, w + 1)) = glob_answer pat s p v star"
          using dead next_k [of "\<lambda>k. rest_matches pat s (i + 1) k"] by (simp add: glob_answer_def Some iw)
        show thesis
          using assms(3) w answer Some iw
          by (intro go [OF loop]) (auto simp: star_ok_def segment_ok_def glob_measure_def)
      qed
    qed
  qed
qed


lemma wf_glob_measure: "wf (glob_measure pat s)"
  by (simp add: glob_measure_def)

lemma glob_loop_correct:
  assumes "p \<le> length pat" "v \<le> length s" "star_ok pat v star"
  shows "\<exists>b. glob_loop pat s p v star = Some b \<and> (b \<longrightarrow> glob_answer pat s p v star)
    \<and> (CHR ''*'' \<notin> set s \<and> segment_ok pat p v star \<longrightarrow> b = glob_answer pat s p v star)"
  using assms
proof (induction "(p, v, star)" arbitrary: p v star rule: wf_induct_rule [OF wf_glob_measure [of pat s]])
  case prem: (1 p v star)
  show ?case
  proof (rule glob_step [OF prem(2-4)], goal_cases)
    case (1 b)
    then show ?case by (intro exI [of _ b]) blast
  next
    case (2 p' v' star')
    obtain b where "glob_loop pat s p' v' star' = Some b" "b \<longrightarrow> glob_answer pat s p' v' star'"
      "CHR ''*'' \<notin> set s \<and> segment_ok pat p' v' star' \<longrightarrow> b = glob_answer pat s p' v' star'"
      using prem(1) [OF 2(5,2,3,4)] by blast
    then show ?case using 2(1,6,7) by (intro exI [of _ b]) metis
  qed
qed

text \<open>C32. The loop of \<open>globMatches\<close> ends for every pattern and subject; what it accepts is matched by the
  pattern, and for a subject without a star it accepts exactly what the pattern matches.\<close>

theorem glob_matches:
  "(\<exists>b. glob_loop pattern subject 0 0 None = Some b) \<and> (globMatches pattern subject \<longrightarrow> glob pattern subject)
   \<and> (CHR ''*'' \<notin> set subject \<longrightarrow> (globMatches pattern subject \<longleftrightarrow> glob pattern subject))"
  using glob_loop_correct [of 0 pattern 0 subject None]
  by (auto simp: globMatches_def star_ok_def segment_ok_def glob_answer_def)

lemma glob_matches_witness: "globMatches ''git *'' ''git log'' \<longleftrightarrow> glob ''git *'' ''git log''"
  using glob_matches [of "''git *''" "''git log''"] by simp

text \<open>
  With a star in the subject the loop takes a star of the pattern for that one character and does not come
  back to it: a rule that denies \<open>rm *\<close> does not match \<open>rm * -rf\<close>.
\<close>

lemma glob_star_bypass: "glob ''rm *'' ''rm * -rf'' \<and> \<not> globMatches ''rm *'' ''rm * -rf''"
  by (simp add: globMatches_def glob_loop.simps)

section \<open>The strictest rule decides\<close>

definition applicable :: "regex_library \<Rightarrow> AiPermissionRuleQuery \<Rightarrow> AiPermissionRule \<Rightarrow> bool" where
  "applicable regex query rule \<longleftrightarrow> rule_enabled rule \<and> rule_capability rule = qr_capability query
     \<and> scopeMatches rule query \<and> subjectMatches regex rule (qr_subject query)"

abbreviation priority :: "AiPermissionRule \<Rightarrow> nat" where
  "priority rule \<equiv> dispositionPriority (rule_disposition rule)"

definition rule_match :: "AiPermissionRule \<Rightarrow> AiPermissionRuleMatch" where
  "rule_match rule = \<lparr>rm_ruleId = rule_id rule, rm_disposition = rule_disposition rule, rm_duration = rule_duration rule\<rparr>"

lemma evaluate_loop_step:
  "evaluate_loop regex query i (rule # rest) best bound =
     (if applicable regex query rule \<and> priority rule < bound
      then evaluate_loop regex query (i + 1) rest (Some i) (priority rule)
      else evaluate_loop regex query (i + 1) rest best bound)"
  by (auto simp: applicable_def Let_def)

declare evaluate_loop.simps(2) [simp del]

lemma evaluate_loop_best:
  "evaluate_loop regex query i rules best bound = best \<and> (\<forall>r \<in> set rules. applicable regex query r \<longrightarrow> bound \<le> priority r)
   \<or> (\<exists>xs r ys. rules = xs @ r # ys \<and> evaluate_loop regex query i rules best bound = Some (i + length xs)
        \<and> applicable regex query r \<and> priority r < bound
        \<and> (\<forall>x \<in> set xs. applicable regex query x \<longrightarrow> priority r < priority x)
        \<and> (\<forall>y \<in> set ys. applicable regex query y \<longrightarrow> priority r \<le> priority y))"
proof (induction rules arbitrary: i best bound)
  case (Cons rule rules)
  show ?case
  proof (cases "applicable regex query rule \<and> priority rule < bound")
    case True
    then have loop: "evaluate_loop regex query i (rule # rules) best bound = evaluate_loop regex query (i + 1) rules (Some i) (priority rule)"
      by (simp add: evaluate_loop_step)
    from Cons [of "i + 1" "Some i" "priority rule"] show ?thesis
    proof (elim disjE exE conjE)
      assume "evaluate_loop regex query (i + 1) rules (Some i) (priority rule) = Some i"
        "\<forall>r \<in> set rules. applicable regex query r \<longrightarrow> priority rule \<le> priority r"
      then show ?thesis using True loop by (intro disjI2 exI [of _ "[]"] exI [of _ rule] exI [of _ rules]) auto
    next
      fix xs r ys
      assume r: "rules = xs @ r # ys" "evaluate_loop regex query (i + 1) rules (Some i) (priority rule) = Some (i + 1 + length xs)"
        "applicable regex query r" "priority r < priority rule"
        "\<forall>x \<in> set xs. applicable regex query x \<longrightarrow> priority r < priority x"
        "\<forall>y \<in> set ys. applicable regex query y \<longrightarrow> priority r \<le> priority y"
      then show ?thesis using True loop by (intro disjI2 exI [of _ "rule # xs"] exI [of _ r] exI [of _ ys]) auto
    qed
  next
    case False
    then have loop: "evaluate_loop regex query i (rule # rules) best bound = evaluate_loop regex query (i + 1) rules best bound"
      by (subst evaluate_loop_step) (rule if_not_P [OF False])
    from Cons [of "i + 1" best bound] show ?thesis
    proof (elim disjE exE conjE)
      assume "evaluate_loop regex query (i + 1) rules best bound = best"
        "\<forall>r \<in> set rules. applicable regex query r \<longrightarrow> bound \<le> priority r"
      then show ?thesis using False loop by (intro disjI1) auto
    next
      fix xs r ys
      assume "rules = xs @ r # ys" "evaluate_loop regex query (i + 1) rules best bound = Some (i + 1 + length xs)"
        "applicable regex query r" "priority r < bound"
        "\<forall>x \<in> set xs. applicable regex query x \<longrightarrow> priority r < priority x"
        "\<forall>y \<in> set ys. applicable regex query y \<longrightarrow> priority r \<le> priority y"
      then show ?thesis using False loop by (intro disjI2 exI [of _ "rule # xs"] exI [of _ r] exI [of _ ys]) auto
    qed
  qed
qed simp

lemma evaluate_cases:
  obtains (none) "rules_evaluate regex query engine = (engine, None)" "\<forall>r \<in> set engine. \<not> applicable regex query r"
  | (rule) xs r ys where "engine = xs @ r # ys" "applicable regex query r"
      "rules_evaluate regex query engine = (if rule_duration r = OnceDuration then xs @ ys else engine, Some (rule_match r))"
      "\<forall>x \<in> set xs. applicable regex query x \<longrightarrow> priority r < priority x"
      "\<forall>y \<in> set ys. applicable regex query y \<longrightarrow> priority r \<le> priority y"
proof -
  have low: "priority r < 4" for r by (cases "rule_disposition r") (simp_all add: dispositionPriority_def)
  from evaluate_loop_best [of regex query 0 engine None 4] show thesis
  proof (elim disjE exE conjE)
    assume none': "evaluate_loop regex query 0 engine None 4 = None" "\<forall>r \<in> set engine. applicable regex query r \<longrightarrow> 4 \<le> priority r"
    have "\<not> applicable regex query r" if "r \<in> set engine" for r using none'(2) that low [of r] by fastforce
    then show thesis using none'(1) by (intro none) (simp_all add: rules_evaluate_def)
  next
    fix xs r ys
    assume "engine = xs @ r # ys" "evaluate_loop regex query 0 engine None 4 = Some (0 + length xs)" "applicable regex query r"
      "\<forall>x \<in> set xs. applicable regex query x \<longrightarrow> priority r < priority x" "\<forall>y \<in> set ys. applicable regex query y \<longrightarrow> priority r \<le> priority y"
    then show thesis by (intro rule [of xs r ys]) (auto simp: rules_evaluate_def Let_def rule_match_def)
  qed
qed

text \<open>The order of the dispositions: a denial is stricter than a question, a question than a permission.\<close>

fun stricter :: "AiPermissionDisposition \<Rightarrow> AiPermissionDisposition \<Rightarrow> bool" where
  "stricter PermitDeny d = (d \<noteq> PermitDeny)"
| "stricter PermitAsk d = (d = PermitAllow)"
| "stricter PermitAllow d = False"

lemma stricter_asym: "stricter d d' \<Longrightarrow> \<not> stricter d' d"
  by (cases d; cases d') simp_all

lemma priority_stricter: "dispositionPriority d < dispositionPriority d' \<longleftrightarrow> stricter d d'"
  by (cases d; cases d') (simp_all add: dispositionPriority_def)

text \<open>C4. \<open>evaluate\<close> answers nothing exactly when no rule applies to the query; else it answers the first of the
  strictest rules that apply: a rule before it is less strict, none after it is stricter, where to deny is
  stricter than to ask and to ask stricter than to allow.  So a denial that applies is always answered, and an
  allow only when no rule that applies asks or denies.  It takes the rule out of the engine when the rule is for one
  use and changes nothing else.\<close>

theorem evaluate_strictest:
  "case rules_evaluate regex query engine of
     (engine', None) \<Rightarrow> engine' = engine \<and> (\<forall>r \<in> set engine. \<not> applicable regex query r)
   | (engine', Some m) \<Rightarrow> \<exists>xs r ys. engine = xs @ r # ys \<and> applicable regex query r \<and> m = rule_match r
       \<and> engine' = (if rm_duration m = OnceDuration then xs @ ys else engine)
       \<and> (\<forall>x \<in> set xs. applicable regex query x \<longrightarrow> stricter (rule_disposition r) (rule_disposition x))
       \<and> (\<forall>y \<in> set ys. applicable regex query y \<longrightarrow> \<not> stricter (rule_disposition y) (rule_disposition r))
       \<and> ((\<exists>d \<in> set engine. applicable regex query d \<and> rule_disposition d = PermitDeny) \<longrightarrow> rm_disposition m = PermitDeny)
       \<and> (rm_disposition m = PermitAllow \<longrightarrow> (\<forall>a \<in> set engine. applicable regex query a \<longrightarrow> rule_disposition a = PermitAllow))"
proof (rule evaluate_cases [of regex query engine])
  fix xs r ys
  assume r: "engine = xs @ r # ys" "applicable regex query r"
    "rules_evaluate regex query engine = (if rule_duration r = OnceDuration then xs @ ys else engine, Some (rule_match r))"
    "\<forall>x \<in> set xs. applicable regex query x \<longrightarrow> priority r < priority x"
    "\<forall>y \<in> set ys. applicable regex query y \<longrightarrow> priority r \<le> priority y"
  have xs: "\<forall>x \<in> set xs. applicable regex query x \<longrightarrow> stricter (rule_disposition r) (rule_disposition x)"
    using r(4) by (simp add: priority_stricter)
  have ys: "\<forall>y \<in> set ys. applicable regex query y \<longrightarrow> \<not> stricter (rule_disposition y) (rule_disposition r)"
    using r(5) by (simp flip: priority_stricter add: not_less)
  have all: "\<forall>a \<in> set engine. applicable regex query a \<longrightarrow> \<not> stricter (rule_disposition a) (rule_disposition r)"
    using xs ys r(1) by (auto dest: stricter_asym)
  have deny: "(\<exists>d \<in> set engine. applicable regex query d \<and> rule_disposition d = PermitDeny) \<longrightarrow> rule_disposition r = PermitDeny"
    using all by force
  have allow: "a = PermitAllow" if "\<not> stricter a PermitAllow" for a using that by (cases a) simp_all
  show ?thesis unfolding r(3) prod.case option.case
    using r(1,2) xs ys all deny allow by (intro exI [of _ xs] exI [of _ r] exI [of _ ys]) (auto simp: rule_match_def)
qed simp

definition deny_rm :: AiPermissionRule where
  "deny_rm = \<lparr>rule_id = ''d'', rule_capability = TerminalCommand, rule_matcher = PrefixMatcher, rule_pattern = ''rm'',
     rule_disposition = PermitDeny, rule_duration = GlobalDuration, rule_sessionId = [], rule_profileId = [], rule_enabled = True\<rparr>"

lemma evaluate_strictest_witness:
  "\<exists>engine' m. rules_evaluate (\<lambda>_. None) \<lparr>qr_capability = TerminalCommand, qr_subject = ''rm'', qr_sessionId = [], qr_profileId = []\<rparr>
     [deny_rm\<lparr>rule_id := ''a'', rule_matcher := AllMatcher, rule_disposition := PermitAllow\<rparr>, deny_rm] = (engine', Some m)
   \<and> rm_disposition m = PermitDeny"
proof -
  let ?q = "\<lparr>qr_capability = TerminalCommand, qr_subject = ''rm'', qr_sessionId = [], qr_profileId = []\<rparr>"
  have "applicable (\<lambda>_. None) ?q deny_rm" "rule_disposition deny_rm = PermitDeny"
    by (simp_all add: applicable_def deny_rm_def scopeMatches_def subjectMatches_def)
  then show ?thesis
    using evaluate_strictest [where regex = "\<lambda>_. None" and query = ?q and engine = "[deny_rm\<lparr>rule_id := ''a'', rule_matcher := AllMatcher, rule_disposition := PermitAllow\<rparr>, deny_rm]"]
    by (auto split: prod.splits option.splits)
qed

section \<open>The rules a caller can reach\<close>

text \<open>The operations of the engine and the state a caller can reach.\<close>

datatype RuleOp = ReplaceRules "AiPermissionRule list" | AddRule AiPermissionRule | RemoveRule string
  | EvaluateRules AiPermissionRuleQuery | ClearSession string

definition rules_step :: "regex_library \<Rightarrow> AiPermissionRuleEngine \<Rightarrow> RuleOp \<Rightarrow> AiPermissionRuleEngine \<times> unit" where
  "rules_step regex engine oper = (case oper of
     ReplaceRules rules \<Rightarrow> (fst (rules_replace regex rules engine), ())
   | AddRule rule \<Rightarrow> (fst (rules_add regex rule engine), ())
   | RemoveRule ruleId \<Rightarrow> (fst (rules_remove ruleId engine), ())
   | EvaluateRules query \<Rightarrow> (fst (rules_evaluate regex query engine), ())
   | ClearSession sessionId \<Rightarrow> (rules_clearSession sessionId engine, ()))"

definition rules_inv :: "regex_library \<Rightarrow> AiPermissionRuleEngine \<Rightarrow> bool" where
  "rules_inv regex engine \<longleftrightarrow> length engine \<le> maximumRules \<and> distinct (map rule_id engine)
     \<and> list_all (rule_valid regex) engine"

lemma fresh_rules_iff:
  "fresh_rules regex ids rules \<longleftrightarrow> list_all (rule_valid regex) rules \<and> distinct (map rule_id rules)
     \<and> set (map rule_id rules) \<inter> set ids = {}"
  by (induction regex ids rules rule: fresh_rules.induct) auto

lemma subseq_distinct: "subseq xs ys \<Longrightarrow> distinct ys \<Longrightarrow> distinct xs"
  by (induction rule: list_emb.induct) (auto dest: subseq_in)

lemma subseq_omit: "subseq (xs @ ys) (xs @ r # ys)"
  by (induction xs) auto

lemma rules_inv_subseq: "subseq engine' engine \<Longrightarrow> rules_inv regex engine \<Longrightarrow> rules_inv regex engine'"
  unfolding rules_inv_def list_all_iff
  by (meson list_emb_length order_trans subseq_in subseq_map subseq_distinct)

lemma rules_inv_step: "rules_inv regex engine \<Longrightarrow> rules_inv regex (fst (rules_step regex engine oper))"
proof (cases oper)
  case (ReplaceRules rules)
  then show "rules_inv regex engine \<Longrightarrow> ?thesis"
    by (auto simp: rules_step_def rules_replace_def rules_inv_def fresh_rules_iff)
next
  case (AddRule rule)
  then show "rules_inv regex engine \<Longrightarrow> ?thesis"
    by (auto simp: rules_step_def rules_add_def rules_inv_def list_ex_iff list_all_iff)
next
  case (RemoveRule ruleId)
  then show "rules_inv regex engine \<Longrightarrow> ?thesis"
    using rules_inv_subseq [OF erase_first_subseq [of "\<lambda>r. rule_id r = ruleId" engine], of regex]
    by (simp add: rules_step_def rules_remove_def split: option.splits)
next
  case (EvaluateRules query)
  have "subseq (fst (rules_evaluate regex query engine)) engine"
  proof (rule evaluate_cases [of regex query engine])
    fix xs r ys
    assume "engine = xs @ r # ys"
      "rules_evaluate regex query engine = (if rule_duration r = OnceDuration then xs @ ys else engine, Some (rule_match r))"
    then show ?thesis by (auto intro: subseq_omit)
  qed simp
  then show "rules_inv regex engine \<Longrightarrow> ?thesis" using EvaluateRules rules_inv_subseq by (simp add: rules_step_def)
next
  case (ClearSession sessionId)
  then show "rules_inv regex engine \<Longrightarrow> ?thesis"
    using rules_inv_subseq [OF subseq_filter_left] by (simp add: rules_step_def rules_clearSession_def)
qed

interpretation rule_engine: op_machine "rules_step regex" "rules_inv regex" for regex
  by unfold_locales (rule rules_inv_step)

text \<open>Whatever a caller does, the rules keep distinct names, are valid and at most \<open>maximumRules\<close>.\<close>

lemma rules_reachable: "rules_inv regex (run_ops (rules_step regex) [] ops)"
  by (rule rule_engine.inv_run) (simp add: rules_inv_def)

end
