(* ===== verification/Command_Risk.thy ===== *)
theory Command_Risk
  imports Permission_Rules
begin

text \<open>
  \<open>classifyCommand\<close> and \<open>suggestCommandRule\<close> of \<open>AiPermissionPolicy.cpp\<close>: which part of a command decides its
  risk, and which rules are suggested for it.
\<close>

section \<open>The words of a command decide its risk\<close>

text \<open>The words, cut at spaces; the reference for \<open>normalizedCommand\<close>.\<close>

function split_words :: "string \<Rightarrow> string list" where
  "split_words cs = (let rest = dropWhile isspace cs in
     if rest = [] then [] else takeWhile (\<lambda>c. \<not> isspace c) rest # split_words (dropWhile (\<lambda>c. \<not> isspace c) rest))"
  by pat_completeness auto
termination
proof (relation "measure length")
  fix cs rest :: string
  assume rest: "rest = dropWhile isspace cs" "rest \<noteq> []"
  then have "\<not> isspace (hd rest)" using hd_dropWhile [of isspace cs] by simp
  then have "length (dropWhile (\<lambda>c. \<not> isspace c) rest) < length rest"
    using rest(2) by (cases rest) (auto intro: le_less_trans [OF length_dropWhile_le])
  also have "\<dots> \<le> length cs" using rest(1) by (simp add: length_dropWhile_le)
  finally show "(dropWhile (\<lambda>c. \<not> isspace c) rest, cs) \<in> measure length" by simp
qed simp

declare split_words.simps [simp del]

fun join_words :: "string list \<Rightarrow> string" where
  "join_words [] = []"
| "join_words [w] = w"
| "join_words (w # ws) = w @ space # join_words ws"

lemma isspace_space [simp]: "isspace space" by (simp add: isspace_def)

lemma squeeze_word: "\<not> (\<exists>c \<in> set w. isspace c) \<Longrightarrow> squeeze b (w @ cs) = map tolower w @ squeeze (b \<and> w = []) cs"
  by (induction w arbitrary: b) auto

lemma squeeze_spaces: "squeeze True cs = squeeze True (dropWhile isspace cs)"
  by (induction cs) auto

definition drop_last_space :: "string \<Rightarrow> string" where
  "drop_last_space cs = (if cs \<noteq> [] \<and> last cs = space then butlast cs else cs)"

lemma tolower_space: "tolower c = space \<Longrightarrow> isspace c"
proof -
  assume lower: "tolower c = space"
  have "\<not> (65 \<le> (of_char c :: nat) \<and> (of_char c :: nat) \<le> 90)"
  proof
    assume c: "65 \<le> (of_char c :: nat) \<and> (of_char c :: nat) \<le> 90"
    then have "of_char (char_of (of_char c + 32 :: nat) :: char) = (of_char c + 32 :: nat)" by (simp add: of_char_of)
    moreover have "tolower c = char_of (of_char c + 32 :: nat)" using c by (simp add: tolower_def)
    ultimately have "(of_char c + 32 :: nat) = of_char space" using lower by metis
    then show False using c by simp
  qed
  then have "c = space" using lower by (auto simp: tolower_def Let_def split: if_splits)
  then show ?thesis by simp
qed

lemma split_nonspace: "dropWhile isspace cs = [] \<Longrightarrow> split_words cs = []"
  by (subst split_words.simps) simp

lemma squeeze_empty: "squeeze True cs = [] \<longleftrightarrow> dropWhile isspace cs = []"
  by (induction cs) auto

lemma drop_last_space_append:
  "xs \<noteq> [] \<Longrightarrow> drop_last_space (ys @ xs) = ys @ drop_last_space xs"
  by (simp add: drop_last_space_def butlast_append)

lemma squeeze_join: "drop_last_space (squeeze True cs) = join_words (map (map tolower) (split_words cs))"
proof (induction cs rule: split_words.induct)
  case (1 cs)
  define rest where "rest = dropWhile isspace cs"
  define w where "w = takeWhile (\<lambda>c. \<not> isspace c) rest"
  define rest' where "rest' = dropWhile (\<lambda>c. \<not> isspace c) rest"
  show ?case
  proof (cases "rest = []")
    case True
    then show ?thesis using squeeze_empty [of cs] split_nonspace [of cs] by (simp add: rest_def drop_last_space_def)
  next
    case False
    have IH: "drop_last_space (squeeze True rest') = join_words (map (map tolower) (split_words rest'))"
      unfolding rest'_def rest_def by (rule 1) (use False in \<open>simp_all add: rest_def\<close>)
    have split: "split_words cs = w # split_words rest'" unfolding split_words.simps [of cs] using False by (simp add: rest_def w_def rest'_def Let_def)
    have w: "rest = w @ rest'" "\<not> (\<exists>c \<in> set w. isspace c)" by (auto simp: w_def rest'_def dest: set_takeWhileD)
    have "\<not> isspace (hd rest)" using False hd_dropWhile [of isspace cs] by (simp add: rest_def)
    then have "w \<noteq> []" using False by (cases rest) (auto simp: w_def)
    have sq: "squeeze True cs = map tolower w @ squeeze False rest'"
      using squeeze_spaces [of cs] squeeze_word [OF w(2), of True rest'] \<open>w \<noteq> []\<close> by (simp add: rest_def [symmetric] w(1))
    have "last (map tolower w) \<noteq> space" using \<open>w \<noteq> []\<close> w(2) tolower_space [of "last w"] by (auto simp: last_map)
    then have lw: "drop_last_space (map tolower w) = map tolower w" by (simp add: drop_last_space_def)
    show ?thesis
    proof (cases rest')
      case Nil
      then have "split_words rest' = []" by (simp add: split_words.simps)
      then show ?thesis using sq split lw Nil by simp
    next
      case (Cons c cs')
      then have "isspace c" using hd_dropWhile [of "\<lambda>c. \<not> isspace c" rest] by (simp add: rest'_def)
      then have tail: "squeeze False rest' = space # squeeze True rest'" using Cons by simp
      show ?thesis
      proof (cases "squeeze True rest' = []")
        case True
        then have "split_words rest' = []" using squeeze_empty split_nonspace by blast
        then show ?thesis using sq split tail True by (simp add: drop_last_space_def)
      next
        case False
        then have "dropWhile isspace rest' \<noteq> []" using squeeze_empty by blast
        then obtain v vs where "split_words rest' = v # vs" by (subst (asm) split_words.simps) (auto simp: Let_def)
        moreover have "drop_last_space (squeeze True cs) = map tolower w @ space # drop_last_space (squeeze True rest')"
          using drop_last_space_append [of "squeeze True rest'" "map tolower w @ [space]"] False sq tail by simp
        ultimately show ?thesis using IH split by simp
      qed
    qed
  qed
qed

lemma normalized_words:
  "length command \<le> 16 * 1024 \<Longrightarrow> normalizedCommand command = join_words (map (map tolower) (split_words command))"
  using squeeze_join [of command] by (simp add: normalizedCommand_def drop_last_space_def Let_def)

text \<open>For a command of at most 16 KiB without a NUL byte the category of risk depends on its words in
  lower case alone: it is what the patterns find in the words joined by single spaces, so
  neither the case nor the number and kind of spaces hides a command.\<close>

theorem classify_words:
  assumes "length command \<le> 16 * 1024" "CHR 0x00 \<notin> set command"
    and "length canonical \<le> 16 * 1024" "CHR 0x00 \<notin> set canonical"
    and "map (map tolower) (split_words command) = map (map tolower) (split_words canonical)"
  shows "classifyCommand command = classifyCommand canonical
    \<and> normalizedCommand command = join_words (map (map tolower) (split_words canonical))"
  using normalized_words [OF assms(1)] normalized_words [OF assms(3)] assms(2,4,5) by (simp add: classifyCommand_def)

lemma classify_words_witness: "classifyCommand '' RM   -Rf /'' = DestructiveFilesystem"
proof -
  have "classifyCommand '' RM   -Rf /'' = classifyCommand ''rm -rf /''"
    by (rule classify_words [THEN conjunct1]) code_simp+
  also have "\<dots> = DestructiveFilesystem" by code_simp
  finally show ?thesis .
qed

section \<open>The suggested rule\<close>

lemma next_token_cut:
  assumes "next_token cs i = (token, i')"
  obtains gap rest where "drop i cs = gap @ token @ rest" "list_all isspace gap" "rest = [] \<or> isspace (hd rest)"
    "i' = i + length gap + length token" "list_all (\<lambda>c. \<not> isspace c) token"
proof
  let ?rest = "dropWhile isspace (drop i cs)"
  have t: "token = takeWhile (\<lambda>c. \<not> isspace c) ?rest" "i' = i + length (takeWhile isspace (drop i cs)) + length token"
    using assms by (auto simp: next_token_def Let_def)
  show "drop i cs = takeWhile isspace (drop i cs) @ token @ dropWhile (\<lambda>c. \<not> isspace c) ?rest" by (simp add: t(1))
  show "list_all isspace (takeWhile isspace (drop i cs))" by (auto simp: list_all_iff dest: set_takeWhileD)
  show "dropWhile (\<lambda>c. \<not> isspace c) ?rest = [] \<or> isspace (hd (dropWhile (\<lambda>c. \<not> isspace c) ?rest))"
    using hd_dropWhile [of "\<lambda>c. \<not> isspace c" ?rest] by blast
  show "i' = i + length (takeWhile isspace (drop i cs)) + length token" by (rule t(2))
  show "list_all (\<lambda>c. \<not> isspace c) token" by (auto simp: t(1) list_all_iff dest: set_takeWhileD)
qed

text \<open>What a prefix that is suggested looks like: one of the words, or two of the words with spaces between.\<close>

definition listed_prefix :: "string \<Rightarrow> bool" where
  "listed_prefix p \<longleftrightarrow> map tolower p \<in> set singleTokenPrefixes
     \<or> (\<exists>w gap v. p = w @ gap @ v \<and> gap \<noteq> [] \<and> list_all isspace gap \<and> map tolower w @ space # map tolower v \<in> set twoTokenPrefixes)"

lemma tokens_one:
  assumes "\<not> isspace (hd cs)" "tokens_loop 2 cs 0 = (w, e) # ts"
  shows "prefix w cs \<and> e = length w \<and> w \<noteq> [] \<and> (length w < length cs \<longrightarrow> isspace (cs ! length w))"
proof -
  obtain n where n: "(2 :: nat) = Suc n" by (simp add: numeral_2_eq_2)
  have t: "next_token cs 0 = (w, e)" "w \<noteq> []" "cs \<noteq> []" using assms(2) unfolding n by (auto split: prod.splits if_splits)
  obtain gap rest where g: "drop 0 cs = gap @ w @ rest" "list_all isspace gap" "rest = [] \<or> isspace (hd rest)"
    "e = 0 + length gap + length w" "list_all (\<lambda>c. \<not> isspace c) w" by (rule next_token_cut [OF t(1)])
  have "gap = []" using assms(1) g(1,2) by (cases gap) auto
  then show ?thesis using g t(2) by (auto simp: prefix_def nth_append hd_conv_nth)
qed

lemma tokens_two:
  assumes "\<not> isspace (hd cs)" "tokens_loop 2 cs 0 = (w, e) # (v, f) # ts"
  shows "\<exists>gap. prefix (w @ gap @ v) cs \<and> f = length (w @ gap @ v) \<and> gap \<noteq> [] \<and> list_all isspace gap
    \<and> (f < length cs \<longrightarrow> isspace (cs ! f))"
proof -
  note one = tokens_one [OF assms(1,2)]
  have t: "next_token cs e = (v, f)" "v \<noteq> []" "e < length cs"
    using assms(2) by (auto simp: numeral_2_eq_2 split: prod.splits if_splits)
  obtain gap rest where g: "drop e cs = gap @ v @ rest" "list_all isspace gap" "rest = [] \<or> isspace (hd rest)"
    "f = e + length gap + length v" "list_all (\<lambda>c. \<not> isspace c) v" by (rule next_token_cut [OF t(1)])
  have cs: "cs = w @ gap @ v @ rest" using one g(1) append_take_drop_id [of e cs] by (auto simp: prefix_def)
  have "gap \<noteq> []"
  proof
    assume "gap = []"
    then have "cs ! e = hd v" using cs t(2) one by (simp add: nth_append hd_conv_nth)
    then show False using one t(2,3) g(5) by (cases v) auto
  qed
  then show ?thesis using cs g one by (intro exI [of _ gap]) (auto simp: prefix_def nth_append hd_conv_nth)
qed

text \<open>For a command without spaces at its ends the suggested rule matches the command itself; a prefix is only
  suggested for a command that is not of high risk, has no character of the shell's syntax and
  starts with a prefix of the two lists.\<close>

theorem suggestion_matches:
  assumes "trim_spaces command = command" "command \<noteq> []" "suggestCommandRule command = (matcher, pattern)"
    and "rule_matcher rule = matcher" "rule_pattern rule = pattern" "rule_capability rule = TerminalCommand"
  shows "subjectMatches regex rule command
    \<and> (matcher = ExactMatcher \<and> pattern = command
       \<or> matcher = PrefixMatcher \<and> classifyCommand command = NoRisk \<and> set command \<inter> set meta_characters = {}
         \<and> listed_prefix pattern)"
proof -
  have "dropWhile isspace command \<noteq> []"
  proof
    assume "dropWhile isspace command = []"
    then have "trim_spaces command = []" unfolding trim_spaces_def by (simp only: rev.simps dropWhile.simps)
    then show False using assms(1,2) by simp
  qed
  moreover have "dropWhile isspace command = command"
  proof -
    have "length (trim_spaces command) \<le> length (dropWhile isspace command)"
      using length_dropWhile_le [of isspace "rev (dropWhile isspace command)"] by (simp add: trim_spaces_def)
    moreover obtain zs where zs: "command = zs @ dropWhile isspace command" using suffix_dropWhile suffix_def by metis
    ultimately have "length zs + length (dropWhile isspace command) \<le> length (dropWhile isspace command)"
      using assms(1) by (metis length_append)
    then have "zs = []" by simp
    then show ?thesis using zs by simp
  qed
  ultimately have hd: "\<not> isspace (hd command)" using hd_dropWhile [of isspace command] by simp
  have prefix_ok: "subjectMatches regex rule command"
    if "matcher = PrefixMatcher" "prefix pattern command" "length pattern < length command \<longrightarrow> isspace (command ! length pattern)"
    using that assms(4-6) prefix_length_le [OF that(2)] by (auto simp: subjectMatches_def)
  show ?thesis
  proof (cases "matcher = ExactMatcher")
    case True
    then have "pattern = command" using assms(1-3) by (auto simp: suggestCommandRule_def Let_def split: if_splits list.splits prod.splits)
    then show ?thesis using True assms(4,5) by (simp add: subjectMatches_def)
  next
    case False
    then have safe: "\<not> highRisk (classifyCommand command)" "\<not> list_ex (\<lambda>c. c \<in> set meta_characters) command"
      using assms(1-3) by (auto simp: suggestCommandRule_def Let_def split: if_splits)
    then have clean: "classifyCommand command = NoRisk" "set command \<inter> set meta_characters = {}"
      by (auto simp: highRisk_def list_ex_iff)
    obtain w e ts where tokens: "tokens_loop 2 command 0 = (w, e) # ts"
      using False safe assms(1-3) by (cases "tokens_loop 2 command 0") (auto simp: suggestCommandRule_def Let_def)
    note one = tokens_one [OF hd tokens]
    have suggest: "(matcher, pattern) = (if map tolower w \<in> set singleTokenPrefixes then (PrefixMatcher, take e command)
        else (case ts of [] \<Rightarrow> (ExactMatcher, command) | (v, f) # _ \<Rightarrow>
          if map tolower w @ space # map tolower v \<in> set twoTokenPrefixes then (PrefixMatcher, take f command) else (ExactMatcher, command)))"
      using safe assms(1-3) tokens by (auto simp: suggestCommandRule_def Let_def)
    show ?thesis
    proof (cases "map tolower w \<in> set singleTokenPrefixes")
      case True
      then have p: "matcher = PrefixMatcher" "pattern = w" using suggest one by (auto simp: prefix_def)
      then show ?thesis using prefix_ok one clean True by (auto simp: listed_prefix_def)
    next
      case notone: False
      then obtain v f ts' where two: "ts = (v, f) # ts'" "map tolower w @ space # map tolower v \<in> set twoTokenPrefixes"
        "matcher = PrefixMatcher" "pattern = take f command"
        using suggest False by (auto split: list.splits if_splits)
      obtain gap where gap: "prefix (w @ gap @ v) command" "f = length (w @ gap @ v)" "gap \<noteq> []" "list_all isspace gap"
        "f < length command \<longrightarrow> isspace (command ! f)"
        using tokens_two [OF hd] tokens two(1) by blast
      then have p: "pattern = w @ gap @ v" using two(4) by (auto simp: prefix_def)
      then show ?thesis using prefix_ok gap two clean by (auto simp: listed_prefix_def)
    qed
  qed
qed

text \<open>The rule of a user who allows a suggestion.\<close>

definition allow_rule :: "AiPermissionRuleMatcher \<times> string \<Rightarrow> AiPermissionRule" where
  "allow_rule suggestion = \<lparr>rule_id = ''r'', rule_capability = TerminalCommand, rule_matcher = fst suggestion,
     rule_pattern = snd suggestion, rule_disposition = PermitAllow, rule_duration = GlobalDuration, rule_sessionId = [],
     rule_profileId = [], rule_enabled = True\<rparr>"

lemma suggest_pwd: "suggestCommandRule ''PWD'' = (PrefixMatcher, ''PWD'')"
  by code_simp

lemma suggestion_matches_witness:
  "subjectMatches (\<lambda>_. None) (allow_rule (PrefixMatcher, ''PWD'')) ''PWD'' \<and> listed_prefix ''PWD''"
proof -
  have "trim_spaces ''PWD'' = ''PWD''" by code_simp
  from suggestion_matches [OF this _ suggest_pwd, of "allow_rule (PrefixMatcher, ''PWD'')"] show ?thesis
    by (simp add: allow_rule_def)
qed

text \<open>
  A prefix rule looks at the start of a later command only: once \<open>PWD\<close> is allowed, a command that goes
  on with \<open>&& rm -rf /\<close> matches the rule, and as a rule that allows comes before the check of high
  risk it is allowed in every mode.
\<close>

lemma allowed_prefix_covers_high_risk:
  "suggestCommandRule ''PWD'' = (PrefixMatcher, ''PWD'')
   \<and> subjectMatches regex (allow_rule (PrefixMatcher, ''PWD'')) ''PWD && rm -rf /''
   \<and> classifyCommand ''PWD && rm -rf /'' = DestructiveFilesystem
   \<and> pd_disposition (decide (request_default\<lparr>pr_mode := mode, pr_write := True, pr_explicitAllow := True, pr_highRisk := True\<rparr>)) = PermitAllow"
proof -
  have "classifyCommand ''PWD && rm -rf /'' = DestructiveFilesystem" by code_simp
  then show ?thesis using suggest_pwd
    by (simp add: subjectMatches_def allow_rule_def decide_def request_default_def)
qed

end
