(* ===== verification/Tool_Ledger.thy ===== *)
theory Tool_Ledger
  imports Prelude
begin

text \<open>
  The dispatch ledger of the AI agent: \<open>src/domain/ai/AiToolDispatchLedger\<close>.  It remembers every
  tool call of a turn by its key so that a repeated call joins the running one or is answered from
  the recorded result.  Every method holds the mutex for its whole body, so a history of concurrent
  callers is a sequence of \<open>ledger_step\<close>s.  The sequence counter is a \<open>nat\<close>: a process does not
  live to wrap a 64-bit counter.
\<close>

record AiToolDispatchKey =
  dk_conversationId :: string
  dk_turnId :: u64
  dk_toolCallId :: string

record AiToolDispatchRequest =
  dr_key :: AiToolDispatchKey
  dr_toolName :: string
  dr_canonicalArguments :: string
  dr_sessionId :: string
  dr_sessionGeneration :: u64
  dr_sideEffecting :: bool

datatype AiToolDispatchState =
    Pending
  | AwaitingApproval
  | Running
  | Succeeded
  | Failed
  | Cancelled
  | OutcomeUnknown

record AiToolDispatchRecord =
  rec_request :: AiToolDispatchRequest
  rec_state :: AiToolDispatchState
  rec_resultJson :: string
  rec_sequence :: nat

datatype AiToolDispatchAdmission =
    Accepted
  | Joined
  | Cached
  | DuplicateMismatch
  | InvalidRequest
  | CapacityExceeded

record AiToolDispatchOutcome =
  out_admission :: AiToolDispatchAdmission
  out_record :: "AiToolDispatchRecord option"

record AiToolDispatchLimits =
  lim_maximumRecords :: nat
  lim_maximumIdentifierBytes :: nat
  lim_maximumArgumentsBytes :: nat
  lim_maximumResultBytes :: nat

record AiToolDispatchLedger =
  ld_limits :: AiToolDispatchLimits
  ld_records :: "AiToolDispatchRecord list"
  ld_nextSequence :: nat

definition default_limits :: AiToolDispatchLimits where
  "default_limits = \<lparr>lim_maximumRecords = 256, lim_maximumIdentifierBytes = 256,
     lim_maximumArgumentsBytes = 16 * 1024, lim_maximumResultBytes = 64 * 1024\<rparr>"

definition ledger_new :: "AiToolDispatchLimits \<Rightarrow> AiToolDispatchLedger" where
  "ledger_new limits = \<lparr>ld_limits = limits, ld_records = [], ld_nextSequence = 1\<rparr>"

definition sameDispatch :: "AiToolDispatchRequest \<Rightarrow> AiToolDispatchRequest \<Rightarrow> bool" where
  "sameDispatch left right \<longleftrightarrow>
     dr_toolName left = dr_toolName right \<and> dr_canonicalArguments left = dr_canonicalArguments right
     \<and> dr_sessionId left = dr_sessionId right
     \<and> dr_sessionGeneration left = dr_sessionGeneration right
     \<and> dr_sideEffecting left = dr_sideEffecting right"

definition validIdentifier :: "nat \<Rightarrow> string \<Rightarrow> bool" where
  "validIdentifier maximumIdentifierBytes value \<longleftrightarrow>
     value \<noteq> [] \<and> length value \<le> maximumIdentifierBytes \<and> CHR 0x00 \<notin> set value"

definition ledger_valid :: "AiToolDispatchLimits \<Rightarrow> AiToolDispatchRequest \<Rightarrow> bool" where
  "ledger_valid limits request \<longleftrightarrow>
     lim_maximumRecords limits > 0
     \<and> validIdentifier (lim_maximumIdentifierBytes limits) (dk_conversationId (dr_key request))
     \<and> dk_turnId (dr_key request) > 0
     \<and> validIdentifier (lim_maximumIdentifierBytes limits) (dk_toolCallId (dr_key request))
     \<and> validIdentifier (lim_maximumIdentifierBytes limits) (dr_toolName request)
     \<and> validIdentifier (lim_maximumIdentifierBytes limits) (dr_sessionId request)
     \<and> length (dr_canonicalArguments request) \<le> lim_maximumArgumentsBytes limits
     \<and> CHR 0x00 \<notin> set (dr_canonicalArguments request)"

definition state_terminal :: "AiToolDispatchState \<Rightarrow> bool" where
  "state_terminal state \<longleftrightarrow>
     state = Succeeded \<or> state = Failed \<or> state = Cancelled \<or> state = OutcomeUnknown"

definition transitionAllowed :: "AiToolDispatchState \<Rightarrow> AiToolDispatchState \<Rightarrow> bool" where
  "transitionAllowed from to =
     (if state_terminal from \<or> from = to then False
      else if from = Pending then to = AwaitingApproval \<or> to = Running \<or> state_terminal to
      else if from = AwaitingApproval then to = Running \<or> to = Failed \<or> to = Cancelled
      else from = Running \<and> state_terminal to)"

abbreviation rec_key :: "AiToolDispatchRecord \<Rightarrow> AiToolDispatchKey" where
  "rec_key r \<equiv> dr_key (rec_request r)"

definition ledger_find :: "AiToolDispatchKey \<Rightarrow> AiToolDispatchLedger \<Rightarrow> AiToolDispatchRecord option" where
  "ledger_find key l = find (\<lambda>r. rec_key r = key) (ld_records l)"

definition makeRoom :: "AiToolDispatchLedger \<Rightarrow> AiToolDispatchLedger \<times> bool" where
  "makeRoom l =
     (if length (ld_records l) < lim_maximumRecords (ld_limits l) then (l, True)
      else if find (\<lambda>r. state_terminal (rec_state r)) (ld_records l) = None then (l, False)
      else (l\<lparr>ld_records := erase_first (\<lambda>r. state_terminal (rec_state r)) (ld_records l)\<rparr>, True))"

definition ledger_begin ::
  "AiToolDispatchRequest \<Rightarrow> AiToolDispatchLedger \<Rightarrow> AiToolDispatchLedger \<times> AiToolDispatchOutcome" where
  "ledger_begin request l =
     (if \<not> ledger_valid (ld_limits l) request
      then (l, \<lparr>out_admission = InvalidRequest, out_record = None\<rparr>)
      else (case ledger_find (dr_key request) l of
          Some existing \<Rightarrow>
            (if \<not> sameDispatch (rec_request existing) request
             then (l, \<lparr>out_admission = DuplicateMismatch, out_record = Some existing\<rparr>)
             else (l, \<lparr>out_admission = if state_terminal (rec_state existing) then Cached else Joined,
                       out_record = Some existing\<rparr>))
        | None \<Rightarrow>
            (case makeRoom l of
               (l', False) \<Rightarrow> (l', \<lparr>out_admission = CapacityExceeded, out_record = None\<rparr>)
             | (l', True) \<Rightarrow>
                 (let r = \<lparr>rec_request = request, rec_state = Pending, rec_resultJson = [],
                           rec_sequence = ld_nextSequence l'\<rparr>
                  in (l'\<lparr>ld_records := ld_records l' @ [r], ld_nextSequence := ld_nextSequence l' + 1\<rparr>,
                      \<lparr>out_admission = Accepted, out_record = Some r\<rparr>)))))"

definition ledger_transition ::
  "AiToolDispatchKey \<Rightarrow> AiToolDispatchState \<Rightarrow> string \<Rightarrow> AiToolDispatchLedger
    \<Rightarrow> AiToolDispatchLedger \<times> bool" where
  "ledger_transition key state resultJson l =
     (case ledger_find key l of
        None \<Rightarrow> (l, False)
      | Some r \<Rightarrow>
          (if \<not> transitionAllowed (rec_state r) state
              \<or> length resultJson > lim_maximumResultBytes (ld_limits l)
              \<or> (\<not> state_terminal state \<and> resultJson \<noteq> [])
           then (l, False)
           else (l\<lparr>ld_records := update_first (\<lambda>r. rec_key r = key)
                     (\<lambda>r. r\<lparr>rec_state := state, rec_resultJson := resultJson\<rparr>) (ld_records l)\<rparr>,
                 True)))"

definition ledger_clearConversation :: "string \<Rightarrow> AiToolDispatchLedger \<Rightarrow> AiToolDispatchLedger" where
  "ledger_clearConversation conversationId l =
     l\<lparr>ld_records := filter (\<lambda>r. dk_conversationId (rec_key r) \<noteq> conversationId) (ld_records l)\<rparr>"

section \<open>The ledger driven by its callers\<close>

datatype LedgerOp =
    Begin AiToolDispatchRequest
  | Transition AiToolDispatchKey AiToolDispatchState string
  | ClearConversation string

datatype LedgerReply = BeginReply AiToolDispatchOutcome | TransitionReply bool | ClearReply

fun ledger_step :: "AiToolDispatchLedger \<Rightarrow> LedgerOp \<Rightarrow> AiToolDispatchLedger \<times> LedgerReply" where
  "ledger_step l (Begin r) = apsnd BeginReply (ledger_begin r l)"
| "ledger_step l (Transition k s j) = apsnd TransitionReply (ledger_transition k s j l)"
| "ledger_step l (ClearConversation c) = (ledger_clearConversation c l, ClearReply)"

fun ledger_refused :: "LedgerReply \<Rightarrow> bool" where
  "ledger_refused (BeginReply outcome) = (out_admission outcome \<noteq> Accepted)"
| "ledger_refused (TransitionReply ok) = (\<not> ok)"
| "ledger_refused ClearReply = False"

definition record_ok :: "AiToolDispatchLimits \<Rightarrow> AiToolDispatchRecord \<Rightarrow> bool" where
  "record_ok limits r \<longleftrightarrow> ledger_valid limits (rec_request r)
     \<and> length (rec_resultJson r) \<le> lim_maximumResultBytes limits
     \<and> (state_terminal (rec_state r) \<or> rec_resultJson r = [])"

definition ledger_inv :: "AiToolDispatchLedger \<Rightarrow> bool" where
  "ledger_inv l \<longleftrightarrow> distinct (map rec_key (ld_records l))
     \<and> length (ld_records l) \<le> lim_maximumRecords (ld_limits l)
     \<and> sorted_wrt (<) (map rec_sequence (ld_records l) @ [ld_nextSequence l])
     \<and> (\<forall>r \<in> set (ld_records l). record_ok (ld_limits l) r)"

lemma makeRoom_inv:
  assumes "ledger_inv l" and "makeRoom l = (l', b)"
  shows "ledger_inv l' \<and> ld_limits l' = ld_limits l \<and> ld_nextSequence l' = ld_nextSequence l
    \<and> (b \<longrightarrow> lim_maximumRecords (ld_limits l) > 0 \<longrightarrow>
        length (ld_records l') < lim_maximumRecords (ld_limits l))
    \<and> set (ld_records l') \<subseteq> set (ld_records l) \<and> (\<not> b \<longrightarrow> l' = l)"
proof -
  let ?P = "\<lambda>r. state_terminal (rec_state r)"
  let ?e = "erase_first ?P (ld_records l)"
  have "sorted_wrt (<) (map rec_sequence ?e @ [ld_nextSequence l])"
    by (rule sorted_wrt_subseq [of _ "map rec_sequence (ld_records l) @ [ld_nextSequence l]"])
      (use assms(1) erase_first_subseq [of ?P "ld_records l"] in
        \<open>simp_all add: ledger_inv_def subseq_map\<close>)
  moreover have "distinct (map rec_key ?e)"
    using assms(1) by (simp add: distinct_erase_first ledger_inv_def)
  moreover have "\<forall>r \<in> set ?e. record_ok (ld_limits l) r"
    using assms(1) by (intro erase_first_all) (simp add: ledger_inv_def)
  moreover have "length ?e \<le> length (ld_records l) - 1" if "find ?P (ld_records l) \<noteq> None"
    using that by (auto simp: length_erase_first)
  moreover have "length (ld_records l) \<le> lim_maximumRecords (ld_limits l)"
    using assms(1) by (simp add: ledger_inv_def)
  ultimately have e: "ledger_inv (l\<lparr>ld_records := ?e\<rparr>)"
    "lim_maximumRecords (ld_limits l) > 0 \<longrightarrow> length ?e < lim_maximumRecords (ld_limits l)"
    if "find ?P (ld_records l) \<noteq> None"
    using that by (auto simp: ledger_inv_def)
  show ?thesis
  proof (cases "length (ld_records l) < lim_maximumRecords (ld_limits l)
      \<or> find ?P (ld_records l) = None")
    case True
    then show ?thesis using assms by (auto simp: makeRoom_def split: if_splits)
  next
    case False
    then have "l' = l\<lparr>ld_records := ?e\<rparr>" "b"
      using assms(2) by (auto simp: makeRoom_def split: if_splits)
    then show ?thesis using e False set_erase_first [of ?P "ld_records l"] by simp
  qed
qed

lemma ledger_begin_inv: "ledger_inv l \<Longrightarrow> ledger_inv (fst (ledger_begin r l))"
proof -
  assume l: "ledger_inv l"
  obtain l' b where m: "makeRoom l = (l', b)" by fastforce
  have i: "ledger_inv l'" "ld_limits l' = ld_limits l" "set (ld_records l') \<subseteq> set (ld_records l)"
    "b \<longrightarrow> lim_maximumRecords (ld_limits l) > 0 \<longrightarrow>
        length (ld_records l') < lim_maximumRecords (ld_limits l)"
    using makeRoom_inv [OF l m] by auto
  show ?thesis
  proof (cases "ledger_valid (ld_limits l) r \<and> ledger_find (dr_key r) l = None \<and> b")
    case True
    then have "dr_key r \<notin> rec_key ` set (ld_records l')"
      using i(3) by (auto simp: ledger_find_def find_None_iff)
    then show ?thesis using True i m
      by (auto simp: ledger_begin_def ledger_inv_def Let_def record_ok_def state_terminal_def
          ledger_valid_def sorted_wrt_append)
  next
    case False
    then show ?thesis using l i(1) m
      by (auto simp: ledger_begin_def split: option.splits bool.splits prod.splits)
  qed
qed

lemma ledger_transition_inv:
  assumes l: "ledger_inv l"
  shows "ledger_inv (fst (ledger_transition k s j l))"
proof (cases "snd (ledger_transition k s j l)")
  case True
  let ?u = "update_first (\<lambda>r. rec_key r = k)
    (\<lambda>r. r\<lparr>rec_state := s, rec_resultJson := j\<rparr>) (ld_records l)"
  have "map rec_key ?u = map rec_key (ld_records l)"
    "map rec_sequence ?u = map rec_sequence (ld_records l)"
    by (rule map_key_update_first; simp)+
  moreover have "\<forall>r \<in> set ?u. record_ok (ld_limits l) r"
    using l True by (intro update_first_all)
      (auto simp: ledger_inv_def record_ok_def ledger_transition_def split: option.splits if_splits)
  moreover have "fst (ledger_transition k s j l) = l\<lparr>ld_records := ?u\<rparr>"
    using True by (auto simp: ledger_transition_def split: option.splits if_splits)
  ultimately show ?thesis using l by (simp add: ledger_inv_def)
next
  case False
  then show ?thesis using l by (auto simp: ledger_transition_def split: option.splits if_splits)
qed

lemma ledger_clear_inv: "ledger_inv l \<Longrightarrow> ledger_inv (ledger_clearConversation c l)"
proof -
  assume l: "ledger_inv l"
  have "subseq (map rec_sequence (filter P (ld_records l)) @ [ld_nextSequence l])
      (map rec_sequence (ld_records l) @ [ld_nextSequence l])" for P
    by (simp add: subseq_map)
  then have "sorted_wrt (<) (map rec_sequence (filter P (ld_records l)) @ [ld_nextSequence l])" for P
    by (rule sorted_wrt_subseq) (use l in \<open>simp add: ledger_inv_def\<close>)
  moreover have "length (filter P (ld_records l)) \<le> lim_maximumRecords (ld_limits l)" for P
    using l length_filter_le [of P "ld_records l"] unfolding ledger_inv_def by (meson le_trans)
  ultimately show ?thesis using l by (auto simp: ledger_clearConversation_def ledger_inv_def distinct_map_filter)
qed

interpretation ledger_machine: atomic_machine ledger_step ledger_inv ledger_refused
proof unfold_locales
  fix l x assume l: "ledger_inv l"
  then show "ledger_inv (fst (ledger_step l x))"
    by (cases x) (simp_all add: ledger_begin_inv ledger_transition_inv ledger_clear_inv)
  assume r: "ledger_refused (snd (ledger_step l x))"
  show "fst (ledger_step l x) = l"
  proof (cases x)
    case (Begin req)
    then show ?thesis using l r makeRoom_inv [OF l, of "fst (makeRoom l)" "snd (makeRoom l)"]
      by (auto simp: ledger_begin_def Let_def split: if_splits option.splits bool.splits prod.splits)
  next
    case (Transition k s j)
    then show ?thesis using r
      by (auto simp: ledger_transition_def split: if_splits option.splits)
  qed (use r in simp)
qed

section \<open>A call in flight\<close>

text \<open>What one step does to the record of a key.\<close>

lemma find_sub:
  assumes "distinct (map key xs)" and "set ys \<subseteq> set xs" and "distinct (map key ys)"
    and "find (\<lambda>x. key x = k) xs = Some r" and "find (\<lambda>x. key x = k) ys = Some r'"
  shows "r' = r"
proof -
  have "r \<in> set xs" "key r = k" "r' \<in> set xs" "key r' = k"
    using assms(2) find_Some_in [OF assms(4)] find_Some_in [OF assms(5)] by auto
  then show ?thesis using assms(1) by (auto simp: distinct_map inj_on_def)
qed

lemma ledger_begin_find:
  assumes l: "ledger_inv l" and f: "ledger_find k l = Some r"
  shows "ledger_find k (fst (ledger_begin req l)) = Some r
    \<or> (state_terminal (rec_state r) \<and> ledger_find k (fst (ledger_begin req l)) = None)"
proof (cases "out_admission (snd (ledger_begin req l)) = Accepted")
  case False
  then have "fst (ledger_step l (Begin req)) = l"
    by (intro ledger_machine.failed_unchanged [OF l]) simp
  then show ?thesis using f by simp
next
  case True
  let ?P = "\<lambda>r. state_terminal (rec_state r)"
  have n: "ledger_find (dr_key req) l = None"
    using True by (auto simp: ledger_begin_def split: option.splits if_splits)
  then have k: "k \<noteq> dr_key req" using f by auto
  have "ledger_find k (fst (ledger_begin req l)) = ledger_find k (fst (makeRoom l))"
    using True k n by (auto simp: ledger_begin_def ledger_find_def Let_def find_append_keyed
        split: prod.splits bool.splits option.splits if_splits)
  moreover have "ledger_find k (fst (makeRoom l)) = Some r
      \<or> (?P r \<and> ledger_find k (fst (makeRoom l)) = None)"
  proof (cases "length (ld_records l) < lim_maximumRecords (ld_limits l)
      \<or> find ?P (ld_records l) = None")
    case True
    then show ?thesis using f by (auto simp: makeRoom_def)
  next
    case False
    then obtain v where v: "find ?P (ld_records l) = Some v" by auto
    have d: "distinct (map rec_key (ld_records l))" using l by (simp add: ledger_inv_def)
    have m: "ledger_find k (fst (makeRoom l)) = find (\<lambda>r. rec_key r = k) (erase_first ?P (ld_records l))"
      using False by (auto simp: makeRoom_def ledger_find_def)
    show ?thesis
    proof (cases "rec_key v = k")
      case False
      then show ?thesis
        using m find_erase_first_other [OF d v False] f by (simp add: ledger_find_def)
    next
      case True
      then have "v = r" using find_Some_in [OF v] find_by_key [OF d, of v] f
        by (simp add: ledger_find_def)
      then have "?P r" using find_Some_in [OF v] by simp
      then show ?thesis
        using m f find_sub [OF d set_erase_first distinct_erase_first [OF d]]
        by (cases "find (\<lambda>r. rec_key r = k) (erase_first ?P (ld_records l))")
          (auto simp: ledger_find_def)
    qed
  qed
  ultimately show ?thesis by simp
qed

lemma ledger_transition_find:
  assumes f: "ledger_find k l = Some r"
  shows "ledger_find k (fst (ledger_transition k' s j l)) = Some r
    \<or> (k' = k \<and> transitionAllowed (rec_state r) s
       \<and> ledger_find k (fst (ledger_transition k' s j l))
         = Some (r\<lparr>rec_state := s, rec_resultJson := j\<rparr>))"
proof (cases "snd (ledger_transition k' s j l)")
  case False
  then have "fst (ledger_transition k' s j l) = l"
    by (auto simp: ledger_transition_def split: option.splits if_splits)
  then show ?thesis using f by simp
next
  case True
  let ?f = "\<lambda>r. r\<lparr>rec_state := s, rec_resultJson := j\<rparr>"
  have e: "ledger_find k (fst (ledger_transition k' s j l))
      = find (\<lambda>r. rec_key r = k) (update_first (\<lambda>r. rec_key r = k') ?f (ld_records l))"
    using True by (auto simp: ledger_transition_def ledger_find_def split: option.splits if_splits)
  show ?thesis
  proof (cases "k' = k")
    case same: True
    then show ?thesis
      using e f True find_update_first_same [of rec_key k ?f "ld_records l"]
      by (auto simp: ledger_find_def ledger_transition_def split: option.splits if_splits)
  next
    case False
    have "find (\<lambda>r. rec_key r = k) (update_first (\<lambda>r. rec_key r = k') ?f (ld_records l))
        = find (\<lambda>r. rec_key r = k) (ld_records l)"
      by (rule find_update_first_other) (use False in auto)
    then show ?thesis using e f by (simp add: ledger_find_def)
  qed
qed

lemma ledger_clear_find:
  assumes f: "ledger_find k l = Some r" and "dk_conversationId k \<noteq> c"
  shows "ledger_find k (ledger_clearConversation c l) = Some r"
proof -
  have "find (\<lambda>r. rec_key r = k) (filter (\<lambda>r. dk_conversationId (rec_key r) \<noteq> c) rs) = Some r"
    if "find (\<lambda>r. rec_key r = k) rs = Some r" for rs
    using that assms(2) by (induction rs) (auto split: if_splits)
  then show ?thesis using f by (simp add: ledger_clearConversation_def ledger_find_def)
qed

fun touches :: "AiToolDispatchKey \<Rightarrow> LedgerOp \<Rightarrow> bool" where
  "touches k (Begin r) = False"
| "touches k (Transition k' s j) = (k' = k)"
| "touches k (ClearConversation c) = (c = dk_conversationId k)"

lemma ledger_step_keeps:
  assumes "ledger_inv l" and "ledger_find k l = Some r" and "\<not> state_terminal (rec_state r)"
    and "\<not> touches k x"
  shows "ledger_find k (fst (ledger_step l x)) = Some r"
  using assms ledger_begin_find [OF assms(1,2)] ledger_transition_find [OF assms(2)]
    ledger_clear_find [OF assms(2)]
  by (cases x) fastforce+

lemma ledger_run_keeps:
  assumes "ledger_inv l" and "ledger_find k l = Some r" and "\<not> state_terminal (rec_state r)"
    and "list_all (\<lambda>x. \<not> touches k x) ops"
  shows "ledger_find k (run_ops ledger_step l ops) = Some r"
  using assms
proof (induction ops arbitrary: l)
  case (Cons x ops)
  then show ?case using ledger_step_keeps [of l k r x] ledger_machine.inv_step [of l x] by simp
qed simp

section \<open>Properties\<close>

definition sample_request :: AiToolDispatchRequest where
  "sample_request =
     \<lparr>dr_key = \<lparr>dk_conversationId = ''c'', dk_turnId = 1, dk_toolCallId = ''t1''\<rparr>,
      dr_toolName = ''run'', dr_canonicalArguments = ''{}'', dr_sessionId = ''s'',
      dr_sessionGeneration = 1, dr_sideEffecting = True\<rparr>"

definition sample_ledger :: AiToolDispatchLedger where
  "sample_ledger = run_ops ledger_step (ledger_new default_limits) [Begin sample_request]"

lemma ledger_new_inv: "ledger_inv (ledger_new limits)"
  by (simp add: ledger_inv_def ledger_new_def)

lemma sample_ledger_inv: "ledger_inv sample_ledger"
  unfolding sample_ledger_def by (rule ledger_machine.inv_run [OF ledger_new_inv])

lemma sample_ledger_find:
  "ledger_find (dr_key sample_request) sample_ledger
    = Some \<lparr>rec_request = sample_request, rec_state = Pending, rec_resultJson = [], rec_sequence = 1\<rparr>"
  by (simp add: sample_ledger_def ledger_new_def ledger_begin_def ledger_valid_def ledger_find_def
      sample_request_def default_limits_def validIdentifier_def makeRoom_def Let_def)

text \<open>
  A ledger used in any way remembers at most its maximum of calls, never two with the same
  key, in the order of their sequence numbers, and a call that is still in flight has no result.
\<close>

theorem ledger_reachable:
  fixes limits ops
  defines "l \<equiv> run_ops ledger_step (ledger_new limits) ops"
  shows "distinct (map rec_key (ld_records l))
    \<and> length (ld_records l) \<le> lim_maximumRecords (ld_limits l)
    \<and> sorted_wrt (<) (map rec_sequence (ld_records l))
    \<and> filter (\<lambda>r. \<not> state_terminal (rec_state r) \<and> rec_resultJson r \<noteq> []) (ld_records l) = []"
proof -
  have "ledger_inv l" unfolding l_def by (rule ledger_machine.inv_run [OF ledger_new_inv])
  then show ?thesis by (auto simp: ledger_inv_def record_ok_def sorted_wrt_append filter_empty_conv)
qed

text \<open>
  C18. A tool call in flight is admitted only once: as long as nobody moves it on or clears its
  conversation, its record survives every other use of the ledger, evictions included, and no
  request with its key is accepted again.
\<close>

theorem ledger_in_flight_admitted_once:
  assumes "ledger_inv l" and "ledger_find k l = Some r" and "\<not> state_terminal (rec_state r)"
    and "list_all (\<lambda>x. \<not> touches k x) ops" and "dr_key request = k"
  shows "ledger_find k (run_ops ledger_step l ops) = Some r
    \<and> fst (ledger_begin request (run_ops ledger_step l ops)) = run_ops ledger_step l ops
    \<and> out_admission (snd (ledger_begin request (run_ops ledger_step l ops)))
        \<in> {Joined, DuplicateMismatch, InvalidRequest}"
proof -
  have "ledger_find k (run_ops ledger_step l ops) = Some r"
    by (rule ledger_run_keeps [OF assms(1-4)])
  then show ?thesis using assms(3,5) by (simp add: ledger_begin_def)
qed

theorem ledger_in_flight_admitted_once_witness:
  "out_admission (snd (ledger_begin sample_request (run_ops ledger_step sample_ledger
     [Begin (sample_request\<lparr>dr_toolName := ''x''\<rparr>), ClearConversation ''other''])))
   \<in> {Joined, DuplicateMismatch, InvalidRequest}"
  using ledger_in_flight_admitted_once [OF sample_ledger_inv sample_ledger_find,
      of "[Begin (sample_request\<lparr>dr_toolName := ''x''\<rparr>), ClearConversation ''other'']" sample_request]
  by (simp add: state_terminal_def sample_request_def)

text \<open>
  A recorded outcome is final: once a call is terminal, no operation changes its record; it
  can only be forgotten, and until then the same request is answered from the record.
\<close>

theorem ledger_outcome_final:
  assumes "ledger_inv l" and "ledger_find k l = Some r" and "state_terminal (rec_state r)"
  shows "ledger_find k (fst (ledger_step l x)) \<in> {Some r, None}
    \<and> (if ledger_valid (ld_limits l) (rec_request r)
       then ledger_begin (rec_request r) l = (l, \<lparr>out_admission = Cached, out_record = Some r\<rparr>)
       else True)"
proof -
  have k: "rec_key r = k" using find_Some_in assms(2) unfolding ledger_find_def by fast
  have "ledger_find k (fst (ledger_step l x)) \<in> {Some r, None}"
  proof (cases x)
    case (Begin req)
    then show ?thesis using ledger_begin_find [OF assms(1,2), of req] by fastforce
  next
    case (Transition k' s j)
    then show ?thesis using ledger_transition_find [OF assms(2), of k' s j] assms(3)
      by (auto simp: transitionAllowed_def)
  next
    case (ClearConversation c)
    then show ?thesis
      using ledger_clear_find [OF assms(2), of c] k
      by (cases "dk_conversationId k = c")
        (auto simp: ledger_clearConversation_def ledger_find_def find_None_iff)
  qed
  then show ?thesis using assms(2,3) k by (simp add: ledger_begin_def sameDispatch_def)
qed

theorem ledger_outcome_final_witness:
  "let l = fst (ledger_step sample_ledger (Transition (dr_key sample_request) Succeeded ''ok''));
       r = \<lparr>rec_request = sample_request, rec_state = Succeeded, rec_resultJson = ''ok'', rec_sequence = 1\<rparr>
   in ledger_find (dr_key sample_request)
        (fst (ledger_step l (Transition (dr_key sample_request) Failed ''no''))) \<in> {Some r, None}"
proof -
  let ?k = "dr_key sample_request"
  let ?l = "fst (ledger_step sample_ledger (Transition ?k Succeeded ''ok''))"
  let ?r = "\<lparr>rec_request = sample_request, rec_state = Succeeded, rec_resultJson = ''ok'', rec_sequence = 1\<rparr>"
  have i: "ledger_inv ?l" by (rule ledger_machine.inv_step [OF sample_ledger_inv])
  have f: "ledger_find ?k ?l = Some ?r"
    using ledger_transition_find [OF sample_ledger_find, of ?k Succeeded "''ok''"]
    by (simp add: sample_ledger_def ledger_new_def ledger_begin_def ledger_valid_def ledger_find_def
        sample_request_def default_limits_def validIdentifier_def makeRoom_def
        ledger_transition_def transitionAllowed_def state_terminal_def Let_def)
  show ?thesis
    using ledger_outcome_final [OF i f, of "Transition ?k Failed ''no''"]
    by (simp add: state_terminal_def Let_def)
qed

text \<open>
  The ledger turns a new valid call away for lack of room only when every call it remembers is
  still in flight and their number is the maximum.
\<close>

theorem ledger_full_only_in_flight:
  "(out_admission (snd (ledger_begin request l)) = CapacityExceeded)
   = (ledger_valid (ld_limits l) request \<and> ledger_find (dr_key request) l = None
      \<and> lim_maximumRecords (ld_limits l) \<le> length (ld_records l)
      \<and> filter (\<lambda>r. state_terminal (rec_state r)) (ld_records l) = [])"
  by (auto simp: ledger_begin_def makeRoom_def Let_def find_None_iff filter_empty_conv
      split: option.splits)

end
