(* ===== verification/Agent_Guard.thy ===== *)
theory Agent_Guard
  imports Prelude
begin

text \<open>
  The guards of the AI agent: \<open>src/domain/ai/AiAgentGuard\<close>.  \<open>AiSessionWriteOwnership\<close> decides
  which conversation may write to a terminal session and lets the user take the session over;
  \<open>AiAgentTurnBudget\<close> bounds what one turn may do.  The ownership methods hold the mutex for
  their whole body, so concurrent callers are a sequence of \<open>ownership_step\<close>s.  Times are
  integers in the unit of the clock; the counters of the budget are 32-bit words.
\<close>

section \<open>Write ownership of sessions\<close>

record AiSessionTarget =
  target_sessionId :: string
  target_sessionGeneration :: u64

datatype AiWriteOwnershipResult =
    Acquired
  | AlreadyOwned
  | UserHasControl
  | Conflict
  | Invalid
  | CapacityExceeded

record AiWriteOwnership =
  own_target :: AiSessionTarget
  own_conversationId :: string

record AiSessionWriteOwnership =
  wo_maximumSessions :: nat
  wo_owners :: "AiWriteOwnership list"
  wo_userControl :: "AiWriteOwnership list"

definition guard_validIdentifier :: "string \<Rightarrow> bool" where
  "guard_validIdentifier value \<longleftrightarrow> value \<noteq> [] \<and> length value \<le> 256 \<and> CHR 0x00 \<notin> set value"

definition ownership_new :: "nat \<Rightarrow> AiSessionWriteOwnership" where
  "ownership_new maximumSessions =
     \<lparr>wo_maximumSessions = maximumSessions, wo_owners = [], wo_userControl = []\<rparr>"

text \<open>\<open>std::ranges::find\<close> over either list, projected to the conversation.\<close>

definition held_by :: "AiSessionTarget \<Rightarrow> AiWriteOwnership list \<Rightarrow> string option" where
  "held_by target os = map_option own_conversationId (find (\<lambda>w. own_target w = target) os)"

definition wo_claim ::
  "AiSessionTarget \<Rightarrow> string \<Rightarrow> AiSessionWriteOwnership
    \<Rightarrow> AiSessionWriteOwnership \<times> AiWriteOwnershipResult" where
  "wo_claim target conversationId w =
     (if \<not> guard_validIdentifier (target_sessionId target) \<or> \<not> guard_validIdentifier conversationId
      then (w, Invalid)
      else (case held_by target (wo_userControl w) of
          Some c \<Rightarrow> (w, if c = conversationId then UserHasControl else Conflict)
        | None \<Rightarrow>
            (case held_by target (wo_owners w) of
               Some c \<Rightarrow> (w, if c = conversationId then AlreadyOwned else Conflict)
             | None \<Rightarrow>
                 (if length (wo_owners w) + length (wo_userControl w) \<ge> wo_maximumSessions w
                  then (w, CapacityExceeded)
                  else (w\<lparr>wo_owners := wo_owners w
                          @ [\<lparr>own_target = target, own_conversationId = conversationId\<rparr>]\<rparr>, Acquired)))))"

definition wo_transfer ::
  "AiSessionTarget \<Rightarrow> string \<Rightarrow> string \<Rightarrow> AiSessionWriteOwnership
    \<Rightarrow> AiSessionWriteOwnership \<times> bool" where
  "wo_transfer target currentOwner nextOwner w =
     (if \<not> guard_validIdentifier currentOwner \<or> \<not> guard_validIdentifier nextOwner then (w, False)
      else if held_by target (wo_owners w) \<noteq> Some currentOwner then (w, False)
      else (w\<lparr>wo_owners := update_first (\<lambda>o'. own_target o' = target)
                (\<lambda>o'. o'\<lparr>own_conversationId := nextOwner\<rparr>) (wo_owners w)\<rparr>, True))"

definition wo_handoffToUser ::
  "AiSessionTarget \<Rightarrow> string \<Rightarrow> AiSessionWriteOwnership \<Rightarrow> AiSessionWriteOwnership \<times> bool" where
  "wo_handoffToUser target currentOwner w =
     (if \<not> guard_validIdentifier (target_sessionId target) \<or> \<not> guard_validIdentifier currentOwner
      then (w, False)
      else (case held_by target (wo_userControl w) of
          Some c \<Rightarrow> (w, c = currentOwner)
        | None \<Rightarrow>
            (case held_by target (wo_owners w) of
               Some c \<Rightarrow>
                 (if c \<noteq> currentOwner then (w, False)
                  else (w\<lparr>wo_owners := erase_first (\<lambda>o'. own_target o' = target) (wo_owners w),
                          wo_userControl := wo_userControl w
                            @ [\<lparr>own_target = target, own_conversationId = currentOwner\<rparr>]\<rparr>, True))
             | None \<Rightarrow>
                 (if length (wo_owners w) + length (wo_userControl w) \<ge> wo_maximumSessions w
                  then (w, False)
                  else (w\<lparr>wo_userControl := wo_userControl w
                            @ [\<lparr>own_target = target, own_conversationId = currentOwner\<rparr>]\<rparr>, True)))))"

definition wo_resumeAgent ::
  "AiSessionTarget \<Rightarrow> string \<Rightarrow> AiSessionWriteOwnership \<Rightarrow> AiSessionWriteOwnership \<times> bool" where
  "wo_resumeAgent target conversationId w =
     (if \<not> guard_validIdentifier (target_sessionId target) \<or> \<not> guard_validIdentifier conversationId
      then (w, False)
      else (case held_by target (wo_owners w) of
          Some c \<Rightarrow> (w, c = conversationId)
        | None \<Rightarrow>
            (if held_by target (wo_userControl w) \<noteq> Some conversationId then (w, False)
             else (w\<lparr>wo_userControl := erase_first (\<lambda>o'. own_target o' = target) (wo_userControl w),
                     wo_owners := wo_owners w
                       @ [\<lparr>own_target = target, own_conversationId = conversationId\<rparr>]\<rparr>, True))))"

definition wo_userHasControl :: "AiSessionTarget \<Rightarrow> string \<Rightarrow> AiSessionWriteOwnership \<Rightarrow> bool" where
  "wo_userHasControl target conversationId w \<longleftrightarrow>
     (if \<not> guard_validIdentifier (target_sessionId target) \<or> \<not> guard_validIdentifier conversationId
      then False else held_by target (wo_userControl w) = Some conversationId)"

definition wo_owner :: "AiSessionTarget \<Rightarrow> AiSessionWriteOwnership \<Rightarrow> string option" where
  "wo_owner target w = held_by target (wo_owners w)"

definition wo_releaseConversation :: "string \<Rightarrow> AiSessionWriteOwnership \<Rightarrow> AiSessionWriteOwnership" where
  "wo_releaseConversation conversationId w =
     w\<lparr>wo_owners := filter (\<lambda>o'. own_conversationId o' \<noteq> conversationId) (wo_owners w),
       wo_userControl := filter (\<lambda>o'. own_conversationId o' \<noteq> conversationId) (wo_userControl w)\<rparr>"

definition wo_releaseSession :: "AiSessionTarget \<Rightarrow> AiSessionWriteOwnership \<Rightarrow> AiSessionWriteOwnership" where
  "wo_releaseSession target w =
     w\<lparr>wo_owners := filter (\<lambda>o'. own_target o' \<noteq> target) (wo_owners w),
       wo_userControl := filter (\<lambda>o'. own_target o' \<noteq> target) (wo_userControl w)\<rparr>"

datatype OwnershipOp =
    Claim AiSessionTarget string
  | Transfer AiSessionTarget string string
  | HandoffToUser AiSessionTarget string
  | ResumeAgent AiSessionTarget string
  | ReleaseConversation string
  | ReleaseSession AiSessionTarget

datatype OwnershipReply = ClaimReply AiWriteOwnershipResult | BoolReply bool | NoReply

fun ownership_step ::
  "AiSessionWriteOwnership \<Rightarrow> OwnershipOp \<Rightarrow> AiSessionWriteOwnership \<times> OwnershipReply" where
  "ownership_step w (Claim t c) = apsnd ClaimReply (wo_claim t c w)"
| "ownership_step w (Transfer t c d) = apsnd BoolReply (wo_transfer t c d w)"
| "ownership_step w (HandoffToUser t c) = apsnd BoolReply (wo_handoffToUser t c w)"
| "ownership_step w (ResumeAgent t c) = apsnd BoolReply (wo_resumeAgent t c w)"
| "ownership_step w (ReleaseConversation c) = (wo_releaseConversation c w, NoReply)"
| "ownership_step w (ReleaseSession t) = (wo_releaseSession t w, NoReply)"

text \<open>A session is listed at most once, over both lists, and the lists are bounded together.\<close>

definition ownership_inv :: "AiSessionWriteOwnership \<Rightarrow> bool" where
  "ownership_inv w \<longleftrightarrow> distinct (map own_target (wo_owners w @ wo_userControl w))
     \<and> length (wo_owners w) + length (wo_userControl w) \<le> wo_maximumSessions w"

lemma held_by_None: "(held_by t os = None) = (t \<notin> own_target ` set os)"
  by (auto simp: held_by_def find_None_iff)

lemma held_by_Some: "held_by t os = Some c \<Longrightarrow> t \<in> own_target ` set os"
  using held_by_None [of t os] by auto

lemma set_targets_erase:
  "distinct (map own_target os) \<Longrightarrow>
   own_target ` set (erase_first (\<lambda>o'. own_target o' = t) os) = own_target ` set os - {t}"
  by (induction os) (auto simp: image_iff)

lemma length_erase_held: "held_by t os = Some c \<Longrightarrow>
   Suc (length (erase_first (\<lambda>o'. own_target o' = t) os)) = length os"
  by (induction os) (auto simp: held_by_def)

lemma targets_update [simp]:
  "map own_target (update_first (\<lambda>o'. own_target o' = t) (\<lambda>o'. o'\<lparr>own_conversationId := d\<rparr>) os)
    = map own_target os"
  by (rule map_key_update_first) simp

lemma ownership_filter_inv:
  assumes "ownership_inv w"
  shows "ownership_inv (w\<lparr>wo_owners := filter P (wo_owners w), wo_userControl := filter P (wo_userControl w)\<rparr>)"
proof -
  have "length (filter P (wo_owners w)) + length (filter P (wo_userControl w))
      \<le> length (wo_owners w) + length (wo_userControl w)"
    by (intro add_mono length_filter_le)
  then show ?thesis using assms
    by (auto simp: ownership_inv_def distinct_map_filter)
qed

lemma ownership_handoff_inv: "ownership_inv w \<Longrightarrow> ownership_inv (fst (wo_handoffToUser t c w))"
  using length_erase_held [of t "wo_owners w"] set_targets_erase [of "wo_owners w" t]
    distinct_erase_first [of own_target "wo_owners w" "\<lambda>o'. own_target o' = t"]
  by (auto simp: wo_handoffToUser_def ownership_inv_def held_by_None dest: held_by_Some
      split: option.splits)

lemma ownership_resume_inv: "ownership_inv w \<Longrightarrow> ownership_inv (fst (wo_resumeAgent t c w))"
  using length_erase_held [of t "wo_userControl w"] set_targets_erase [of "wo_userControl w" t]
    distinct_erase_first [of own_target "wo_userControl w" "\<lambda>o'. own_target o' = t"]
  by (auto simp: wo_resumeAgent_def ownership_inv_def held_by_None dest: held_by_Some
      split: option.splits)

fun ownership_refused :: "OwnershipReply \<Rightarrow> bool" where
  "ownership_refused (ClaimReply r) = (r \<noteq> Acquired)"
| "ownership_refused (BoolReply ok) = (\<not> ok)"
| "ownership_refused NoReply = False"

interpretation ownership_machine: atomic_machine ownership_step ownership_inv ownership_refused
proof unfold_locales
  fix w x assume w: "ownership_inv w"
  show "ownership_inv (fst (ownership_step w x))"
  proof (cases x)
    case (Claim t c)
    then show ?thesis using w
      by (auto simp: wo_claim_def ownership_inv_def held_by_None split: option.splits)
  next
    case (Transfer t c d)
    then show ?thesis using w by (simp add: wo_transfer_def ownership_inv_def flip: set_map)
  next
    case (ReleaseConversation c)
    then show ?thesis using w by (simp add: wo_releaseConversation_def ownership_filter_inv)
  next
    case (ReleaseSession t)
    then show ?thesis using w by (simp add: wo_releaseSession_def ownership_filter_inv)
  qed (simp_all add: w ownership_handoff_inv ownership_resume_inv)
  assume "ownership_refused (snd (ownership_step w x))"
  then show "fst (ownership_step w x) = w"
    by (cases x) (auto simp: wo_claim_def wo_transfer_def wo_handoffToUser_def wo_resumeAgent_def
        split: option.splits if_splits)
qed

text \<open>Who holds a session after a change of one of the lists.\<close>

lemma held_append: "held_by t (os @ os') =
    (case held_by t os of None \<Rightarrow> held_by t os' | Some c \<Rightarrow> Some c)"
  by (auto simp: held_by_def find_append_keyed split: option.splits)

lemma held_single [simp]:
  "held_by t [\<lparr>own_target = t', own_conversationId = c\<rparr>] = (if t' = t then Some c else None)"
  by (simp add: held_by_def)

lemma held_erase_other:
  "t' \<noteq> t \<Longrightarrow> held_by t (erase_first (\<lambda>o'. own_target o' = t') os) = held_by t os"
  by (induction os) (auto simp: held_by_def)

lemma held_filter:
  assumes "held_by t os = Some c"
    and "\<And>o'. own_target o' = t \<Longrightarrow> own_conversationId o' = c \<Longrightarrow> P o'"
  shows "held_by t (filter P os) = Some c"
  using assms by (induction os) (auto simp: held_by_def split: if_splits)

lemma user_control_step:
  assumes "held_by t (wo_userControl w) = Some c"
    and "x \<notin> {ResumeAgent t c, ReleaseConversation c, ReleaseSession t}"
  shows "held_by t (wo_userControl (fst (ownership_step w x))) = Some c"
proof (cases x)
  case (HandoffToUser t' c')
  then show ?thesis using assms
    by (auto simp: wo_handoffToUser_def held_append split: option.splits)
next
  case (ResumeAgent t' c')
  then show ?thesis using assms held_erase_other [of t' t "wo_userControl w"]
    by (cases "t' = t") (auto simp: wo_resumeAgent_def split: option.splits)
next
  case (ReleaseConversation c')
  then show ?thesis using assms by (auto simp: wo_releaseConversation_def intro: held_filter)
next
  case (ReleaseSession t')
  then show ?thesis using assms by (auto simp: wo_releaseSession_def intro: held_filter)
qed (use assms in \<open>auto simp: wo_claim_def wo_transfer_def split: option.splits\<close>)

lemma user_control_run:
  assumes "held_by t (wo_userControl w) = Some c"
    and "set ops \<inter> {ResumeAgent t c, ReleaseConversation c, ReleaseSession t} = {}"
  shows "held_by t (wo_userControl (run_ops ownership_step w ops)) = Some c"
  using assms
proof (induction ops arbitrary: w)
  case (Cons x ops)
  then have "x \<notin> {ResumeAgent t c, ReleaseConversation c, ReleaseSession t}" by auto
  from user_control_step [OF Cons.prems(1) this] Cons show ?case by simp
qed simp

section \<open>The turn budget\<close>

record AiAgentTurnLimits =
  tl_maximumToolCalls :: u32
  tl_maximumWriteActions :: u32
  tl_maximumRepeatedReads :: u32
  tl_maximumTokenUsage :: u64
  tl_maximumDuration :: int

datatype AiAgentBudgetDecision =
    Allow
  | ToolCallLimit
  | WriteActionLimit
  | RepeatedReadLimit
  | TokenLimit
  | TimeLimit

record ReadObservation =
  ro_signature :: string
  ro_stateGeneration :: u64
  ro_count :: u32

record AiAgentTurnBudget =
  tb_limits :: AiAgentTurnLimits
  tb_startedAt :: int
  tb_readObservations :: "ReadObservation list"
  tb_toolCalls :: u32
  tb_writeActions :: u32

definition default_turn_limits :: AiAgentTurnLimits where
  "default_turn_limits = \<lparr>tl_maximumToolCalls = 24, tl_maximumWriteActions = 8,
     tl_maximumRepeatedReads = 3, tl_maximumTokenUsage = 64000, tl_maximumDuration = 15 * 60 * 1000\<rparr>"

definition budget_new :: "AiAgentTurnLimits \<Rightarrow> int \<Rightarrow> AiAgentTurnBudget" where
  "budget_new limits startedAt =
     \<lparr>tb_limits = limits, tb_startedAt = startedAt, tb_readObservations = [],
      tb_toolCalls = 0, tb_writeActions = 0\<rparr>"

text \<open>The read part of \<open>authorize\<close>; \<open>None\<close> is its early return with \<open>repeatedReadLimit\<close>.\<close>

definition observe_read :: "string \<Rightarrow> u64 \<Rightarrow> AiAgentTurnBudget \<Rightarrow> AiAgentTurnBudget option" where
  "observe_read readSignature stateGeneration b =
     (if tl_maximumRepeatedReads (tb_limits b) = 0 then None
      else (case find (\<lambda>r. ro_signature r = readSignature) (tb_readObservations b) of
          None \<Rightarrow> Some (b\<lparr>tb_readObservations := tb_readObservations b
              @ [\<lparr>ro_signature = readSignature, ro_stateGeneration = stateGeneration, ro_count = 1\<rparr>]\<rparr>)
        | Some observation \<Rightarrow>
            (if ro_stateGeneration observation \<noteq> stateGeneration
             then Some (b\<lparr>tb_readObservations := update_first (\<lambda>r. ro_signature r = readSignature)
                 (\<lambda>r. r\<lparr>ro_stateGeneration := stateGeneration, ro_count := 1\<rparr>) (tb_readObservations b)\<rparr>)
             else if ro_count observation \<ge> tl_maximumRepeatedReads (tb_limits b) then None
             else Some (b\<lparr>tb_readObservations := update_first (\<lambda>r. ro_signature r = readSignature)
                 (\<lambda>r. r\<lparr>ro_count := ro_count r + 1\<rparr>) (tb_readObservations b)\<rparr>))))"

definition budget_authorize ::
  "bool \<Rightarrow> string \<Rightarrow> u64 \<Rightarrow> int \<Rightarrow> AiAgentTurnBudget \<Rightarrow> AiAgentTurnBudget \<times> AiAgentBudgetDecision" where
  "budget_authorize write readSignature stateGeneration now b =
     (if now < tb_startedAt b \<or> now - tb_startedAt b > tl_maximumDuration (tb_limits b)
      then (b, TimeLimit)
      else if tb_toolCalls b \<ge> tl_maximumToolCalls (tb_limits b) then (b, ToolCallLimit)
      else if write \<and> tb_writeActions b \<ge> tl_maximumWriteActions (tb_limits b)
      then (b, WriteActionLimit)
      else (case (if \<not> write \<and> readSignature \<noteq> [] then observe_read readSignature stateGeneration b
                  else Some b) of
          None \<Rightarrow> (b, RepeatedReadLimit)
        | Some b' \<Rightarrow>
            (b'\<lparr>tb_toolCalls := tb_toolCalls b' + 1,
                tb_writeActions := (if write then tb_writeActions b' + 1 else tb_writeActions b')\<rparr>,
             Allow)))"

definition budget_observeTokenUsage :: "u64 \<Rightarrow> AiAgentTurnBudget \<Rightarrow> AiAgentBudgetDecision" where
  "budget_observeTokenUsage totalTokens b =
     (if totalTokens > tl_maximumTokenUsage (tb_limits b) then TokenLimit else Allow)"

text \<open>A request for one tool call: is it a write, what it reads, in which state, and when.\<close>

record ToolRequest =
  tr_write :: bool
  tr_signature :: string
  tr_generation :: u64
  tr_now :: int

definition budget_step ::
  "AiAgentTurnBudget \<Rightarrow> ToolRequest \<Rightarrow> AiAgentTurnBudget \<times> AiAgentBudgetDecision" where
  "budget_step b r = budget_authorize (tr_write r) (tr_signature r) (tr_generation r) (tr_now r) b"

definition budget_inv :: "AiAgentTurnBudget \<Rightarrow> bool" where
  "budget_inv b \<longleftrightarrow> tb_toolCalls b \<le> tl_maximumToolCalls (tb_limits b)
     \<and> tb_writeActions b \<le> tl_maximumWriteActions (tb_limits b)"

lemma observe_read_frame:
  assumes "observe_read sig gen b = Some b'"
  shows "tb_limits b' = tb_limits b \<and> tb_toolCalls b' = tb_toolCalls b
    \<and> tb_writeActions b' = tb_writeActions b \<and> tb_startedAt b' = tb_startedAt b"
  using assms by (auto simp: observe_read_def split: if_splits option.splits)

lemma word_Suc_le:
  fixes x y :: "'a::len word"
  assumes "x < y"
  shows "x + 1 \<le> y" "unat (x + 1) = Suc (unat x)"
proof -
  have "unat x < unat y" using assms by (simp add: word_less_nat_alt)
  moreover have "unat y < 2 ^ LENGTH('a)" by (rule unsigned_less)
  ultimately have "Suc (unat x) < 2 ^ LENGTH('a)" by linarith
  then show "unat (x + 1) = Suc (unat x)"
    by (simp add: unat_word_ariths(1))
  with \<open>unat x < unat y\<close> show "x + 1 \<le> y" by (simp add: word_le_nat_alt)
qed

text \<open>What an accepted call was checked against, and what it adds to the counters.\<close>

lemma budget_step_allow:
  assumes "budget_step b r = (b', Allow)"
  shows "tb_toolCalls b < tl_maximumToolCalls (tb_limits b) \<and> tb_toolCalls b' = tb_toolCalls b + 1
    \<and> (tr_write r \<longrightarrow> tb_writeActions b < tl_maximumWriteActions (tb_limits b))
    \<and> tb_writeActions b' = (if tr_write r then tb_writeActions b + 1 else tb_writeActions b)
    \<and> tb_limits b' = tb_limits b"
  using assms observe_read_frame [of "tr_signature r" "tr_generation r" b]
  by (auto simp: budget_step_def budget_authorize_def not_le split: if_splits option.splits)

lemma budget_step_refuse: "budget_step b r = (b', d) \<Longrightarrow> d \<noteq> Allow \<Longrightarrow> b' = b"
  by (auto simp: budget_step_def budget_authorize_def split: if_splits option.splits)

interpretation budget_machine: atomic_machine budget_step budget_inv "\<lambda>d. d \<noteq> Allow"
proof unfold_locales
  fix b r assume b: "budget_inv b"
  obtain b' d where s: "budget_step b r = (b', d)" by fastforce
  show "budget_inv (fst (budget_step b r))"
  proof (cases "d = Allow")
    case True
    then show ?thesis using budget_step_allow [of b r b'] s b
      by (auto simp: budget_inv_def word_Suc_le)
  next
    case False
    then show ?thesis using budget_step_refuse [OF s] s b by simp
  qed
  assume "snd (budget_step b r) \<noteq> Allow"
  then show "fst (budget_step b r) = b" using budget_step_refuse [OF s] s by simp
qed

definition allowed :: "(ToolRequest \<times> AiAgentBudgetDecision) list \<Rightarrow> ToolRequest list" where
  "allowed rs = map fst (filter (\<lambda>(_, d). d = Allow) rs)"

lemma allowed_Cons: "allowed ((r, d) # rs) = (if d = Allow then r # allowed rs else allowed rs)"
  by (simp add: allowed_def)

lemma budget_counts:
  assumes "budget_inv b"
  shows "unat (tb_toolCalls (run_ops budget_step b rs))
      = unat (tb_toolCalls b) + length (allowed (replies budget_step b rs))
    \<and> unat (tb_writeActions (run_ops budget_step b rs))
      = unat (tb_writeActions b) + length (filter tr_write (allowed (replies budget_step b rs)))
    \<and> tb_limits (run_ops budget_step b rs) = tb_limits b"
  using assms
proof (induction rs arbitrary: b)
  case Nil
  then show ?case by (simp add: allowed_def)
next
  case (Cons r rs)
  obtain b' d where s: "budget_step b r = (b', d)" by fastforce
  have b': "budget_inv b'" using budget_machine.inv_step [OF Cons.prems, of r] s by simp
  show ?case
  proof (cases "d = Allow")
    case True
    then have f: "tb_toolCalls b < tl_maximumToolCalls (tb_limits b)" "tb_toolCalls b' = tb_toolCalls b + 1"
      "tr_write r \<longrightarrow> tb_writeActions b < tl_maximumWriteActions (tb_limits b)"
      "tb_writeActions b' = (if tr_write r then tb_writeActions b + 1 else tb_writeActions b)"
      "tb_limits b' = tb_limits b"
      using budget_step_allow [of b r b'] s by auto
    then have "unat (tb_toolCalls b') = Suc (unat (tb_toolCalls b))"
      "unat (tb_writeActions b') = unat (tb_writeActions b) + (if tr_write r then 1 else 0)"
      by (auto simp: word_Suc_le(2))
    then show ?thesis using Cons.IH [OF b'] f(5) True s by (simp add: allowed_Cons)
  next
    case False
    then have "b' = b" using budget_step_refuse [OF s] by simp
    then show ?thesis using Cons.IH [OF b'] False s by (simp add: allowed_Cons)
  qed
qed

section \<open>Repeated reads\<close>

definition reads_of :: "string \<Rightarrow> ToolRequest list \<Rightarrow> ToolRequest list" where
  "reads_of sig rs = filter (\<lambda>r. \<not> tr_write r \<and> tr_signature r = sig) rs"

definition observed_reads :: "string \<Rightarrow> AiAgentTurnBudget \<Rightarrow> nat" where
  "observed_reads sig b =
     (case find (\<lambda>r. ro_signature r = sig) (tb_readObservations b) of
        None \<Rightarrow> 0 | Some observation \<Rightarrow> unat (ro_count observation))"

definition reads_at :: "string \<Rightarrow> u64 \<Rightarrow> AiAgentTurnBudget \<Rightarrow> bool" where
  "reads_at sig gen b \<longleftrightarrow>
     (case find (\<lambda>r. ro_signature r = sig) (tb_readObservations b) of
        None \<Rightarrow> True
      | Some observation \<Rightarrow> ro_stateGeneration observation = gen
          \<and> ro_count observation \<le> tl_maximumRepeatedReads (tb_limits b))"

lemma observe_read_same:
  assumes "observe_read sig gen b = Some b'" "reads_at sig gen b"
  shows "observed_reads sig b' = Suc (observed_reads sig b) \<and> reads_at sig gen b'"
proof (cases "find (\<lambda>r. ro_signature r = sig) (tb_readObservations b)")
  case None
  then show ?thesis using assms(1)
    by (auto simp: observe_read_def observed_reads_def reads_at_def find_append_keyed
        word_le_nat_alt unat_gt_0 Suc_le_eq split: if_splits)
next
  case (Some q)
  then have "ro_stateGeneration q = gen" using assms(2) by (simp add: reads_at_def)
  then show ?thesis using assms(1) Some
    by (auto simp: observe_read_def observed_reads_def reads_at_def not_le word_Suc_le
        find_update_first_same split: if_splits)
qed

lemma observe_read_other:
  assumes "observe_read sig' gen' b = Some b'" "sig \<noteq> sig'"
  shows "observed_reads sig b' = observed_reads sig b \<and> reads_at sig gen b' = reads_at sig gen b"
  using assms
  by (auto simp: observe_read_def observed_reads_def reads_at_def find_append_keyed
      find_update_first_other split: if_splits option.splits)

lemma reads_counter_irrelevant [simp]:
  "observed_reads sig (b\<lparr>tb_toolCalls := n\<rparr>) = observed_reads sig b"
  "reads_at sig gen (b\<lparr>tb_toolCalls := n\<rparr>) = reads_at sig gen b"
  "observed_reads sig (b\<lparr>tb_toolCalls := n, tb_writeActions := m\<rparr>) = observed_reads sig b"
  "reads_at sig gen (b\<lparr>tb_toolCalls := n, tb_writeActions := m\<rparr>) = reads_at sig gen b"
  by (auto simp: observed_reads_def reads_at_def split: option.splits)

lemma budget_step_reads:
  assumes "budget_step b r = (b', d)" "sig \<noteq> []" "reads_at sig gen b"
    and "\<not> tr_write r \<Longrightarrow> tr_signature r = sig \<Longrightarrow> tr_generation r = gen"
  shows "observed_reads sig b' = observed_reads sig b
      + (if d = Allow \<and> \<not> tr_write r \<and> tr_signature r = sig then 1 else 0)
    \<and> reads_at sig gen b'"
proof (cases "d = Allow \<and> \<not> tr_write r \<and> tr_signature r \<noteq> []")
  case True
  then obtain b'' where o: "observe_read (tr_signature r) (tr_generation r) b = Some b''"
    and b': "b' = b''\<lparr>tb_toolCalls := tb_toolCalls b'' + 1, tb_writeActions := tb_writeActions b''\<rparr>"
    using assms(1) by (auto simp: budget_step_def budget_authorize_def split: if_splits option.splits)
  show ?thesis
  proof (cases "tr_signature r = sig")
    case True
    with o assms(4) \<open>d = Allow \<and> _\<close> have "observe_read sig gen b = Some b''" by simp
    from observe_read_same [OF this assms(3)] True \<open>d = Allow \<and> _\<close> show ?thesis by (simp add: b')
  next
    case False
    with observe_read_other [OF o, of sig gen] assms(3) show ?thesis by (simp add: b')
  qed
next
  case False
  then show ?thesis using assms(1-3)
    by (auto simp: budget_step_def budget_authorize_def split: if_splits option.splits)
qed

lemma allowed_reads_run:
  assumes "sig \<noteq> []" "reads_at sig gen b" "\<forall>r \<in> set (reads_of sig rs). tr_generation r = gen"
  shows "observed_reads sig (run_ops budget_step b rs)
      = observed_reads sig b + length (reads_of sig (allowed (replies budget_step b rs)))
    \<and> reads_at sig gen (run_ops budget_step b rs)"
  using assms(2,3)
proof (induction rs arbitrary: b)
  case Nil
  then show ?case by (simp add: allowed_def reads_of_def)
next
  case (Cons r rs)
  obtain b' d where s: "budget_step b r = (b', d)" by fastforce
  have "\<not> tr_write r \<Longrightarrow> tr_signature r = sig \<Longrightarrow> tr_generation r = gen"
    using Cons.prems(2) by (simp add: reads_of_def)
  then have step: "observed_reads sig b' = observed_reads sig b
      + (if d = Allow \<and> \<not> tr_write r \<and> tr_signature r = sig then 1 else 0)" "reads_at sig gen b'"
    using budget_step_reads [OF s assms(1) Cons.prems(1)] by auto
  have "\<forall>r \<in> set (reads_of sig rs). tr_generation r = gen"
    using Cons.prems(2) by (auto simp: reads_of_def)
  from Cons.IH [OF step(2) this] step(1) s show ?case by (simp add: allowed_Cons reads_of_def)
qed

section \<open>Properties\<close>

text \<open>In every state the ownership table can reach from its constructor, every session is listed
  at most once over the owners and the user-controlled sessions together, and the two lists hold no
  more sessions than the table was made for.\<close>

theorem ownership_reachable:
  "ownership_inv (run_ops ownership_step (ownership_new n) ops)"
  by (rule ownership_machine.inv_run) (simp add: ownership_inv_def ownership_new_def)

text \<open>Write access is exclusive: when \<open>claim\<close> tells a conversation that it owns a session, the
  table names that conversation as the owner, the user does not hold the session, and the next claim
  of the session by any other conversation and any transfer, hand-off or resumption another
  conversation asks for are refused.\<close>

theorem claim_exclusive:
  assumes "ownership_inv w"
    and "snd (wo_claim t c w) \<in> {Acquired, AlreadyOwned}" and "d \<noteq> c"
  defines "w' \<equiv> fst (wo_claim t c w)"
  shows "wo_owner t w' = Some c \<and> \<not> wo_userHasControl t d w' \<and> \<not> wo_userHasControl t c w'
    \<and> snd (wo_claim t d w') \<in> {Conflict, Invalid}
    \<and> \<not> snd (wo_transfer t d e w') \<and> \<not> snd (wo_handoffToUser t d w')
    \<and> \<not> snd (wo_resumeAgent t d w')"
proof -
  have "held_by t (wo_owners w') = Some c \<and> held_by t (wo_userControl w') = None"
    using assms(2) by (auto simp: w'_def wo_claim_def held_append split: if_splits option.splits)
  then show ?thesis using assms(3)
    by (auto simp: wo_owner_def wo_userHasControl_def wo_claim_def wo_transfer_def
        wo_handoffToUser_def wo_resumeAgent_def)
qed

lemma claim_exclusive_witness:
  "wo_owner \<lparr>target_sessionId = ''s'', target_sessionGeneration = 1\<rparr>
     (fst (wo_claim \<lparr>target_sessionId = ''s'', target_sessionGeneration = 1\<rparr> ''a'' (ownership_new 2)))
     = Some ''a''"
  using claim_exclusive [of "ownership_new 2" "\<lparr>target_sessionId = ''s'', target_sessionGeneration = 1\<rparr>"
      "''a''" "''b''" "''b''"]
  by (simp add: ownership_inv_def ownership_new_def wo_claim_def guard_validIdentifier_def held_by_def)

text \<open>C25. Once the user has taken a session over from a conversation, no sequence of operations gives
  an agent write access to it again (every \<open>claim\<close> answers \<open>userHasControl\<close>, \<open>conflict\<close> or
  \<open>invalid\<close>, for that conversation and for any other) until that conversation is resumed by
  \<open>resumeAgent\<close> or released, or the session is released.\<close>

theorem user_control_lasts:
  assumes "held_by t (wo_userControl w) = Some c"
    and "set ops \<inter> {ResumeAgent t c, ReleaseConversation c, ReleaseSession t} = {}"
  shows "snd (wo_claim t d (run_ops ownership_step w ops)) \<in> {UserHasControl, Conflict, Invalid}"
  using user_control_run [OF assms] by (simp add: wo_claim_def)

lemma user_control_lasts_witness:
  "snd (wo_claim \<lparr>target_sessionId = ''s'', target_sessionGeneration = 1\<rparr> ''a''
     (run_ops ownership_step
        (fst (wo_handoffToUser \<lparr>target_sessionId = ''s'', target_sessionGeneration = 1\<rparr> ''a'' (ownership_new 2)))
        [Claim \<lparr>target_sessionId = ''s'', target_sessionGeneration = 1\<rparr> ''b'', ReleaseConversation ''b'']))
     \<in> {UserHasControl, Conflict, Invalid}"
  by (rule user_control_lasts [where c = "''a''"])
    (simp_all add: wo_handoffToUser_def ownership_new_def guard_validIdentifier_def held_by_def)

text \<open>The budget of a turn is never exceeded, whatever calls are requested, in whatever order and
  at whatever times: the calls \<open>authorize\<close> allows are at most \<open>maximumToolCalls\<close>, those among them
  that write at most \<open>maximumWriteActions\<close>, and the 32-bit counters count them exactly.\<close>

theorem budget_never_exceeded:
  defines "end_of limits start rs \<equiv> run_ops budget_step (budget_new limits start) rs"
    and "granted limits start rs \<equiv> allowed (replies budget_step (budget_new limits start) rs)"
  shows "length (granted limits start rs) = unat (tb_toolCalls (end_of limits start rs))
    \<and> length (filter tr_write (granted limits start rs)) = unat (tb_writeActions (end_of limits start rs))
    \<and> tb_toolCalls (end_of limits start rs) \<le> tl_maximumToolCalls limits
    \<and> tb_writeActions (end_of limits start rs) \<le> tl_maximumWriteActions limits"
proof -
  have new: "budget_inv (budget_new limits start)" by (simp add: budget_inv_def budget_new_def)
  show ?thesis
    using budget_counts [OF new, of rs] budget_machine.inv_run [OF new, of rs]
    by (simp add: end_of_def granted_def budget_inv_def budget_new_def)
qed

text \<open>A turn cannot loop on a read: while the state generation a read was made in does not change,
  \<open>authorize\<close> allows at most \<open>maximumRepeatedReads\<close> reads with the same signature, whatever
  other calls come between them.\<close>

theorem repeated_reads_bounded:
  assumes "sig \<noteq> []" and "\<forall>r \<in> set (reads_of sig rs). tr_generation r = gen"
  shows "length (reads_of sig (allowed (replies budget_step (budget_new limits start) rs)))
    \<le> unat (tl_maximumRepeatedReads limits)"
proof -
  define b where "b = run_ops budget_step (budget_new limits start) rs"
  have r: "observed_reads sig b
      = length (reads_of sig (allowed (replies budget_step (budget_new limits start) rs)))"
    "reads_at sig gen b"
    using allowed_reads_run [of sig gen "budget_new limits start" rs] assms
    by (auto simp: b_def reads_at_def observed_reads_def budget_new_def)
  have "budget_inv (budget_new limits start)" by (simp add: budget_inv_def budget_new_def)
  from budget_counts [OF this, of rs] have "tb_limits b = limits" by (simp add: b_def budget_new_def)
  then show ?thesis using r
    by (auto simp: observed_reads_def reads_at_def word_le_nat_alt split: option.splits)
qed

lemma repeated_reads_bounded_witness:
  "length (reads_of ''pwd'' (allowed (replies budget_step (budget_new default_turn_limits 0)
     (replicate 4 \<lparr>tr_write = False, tr_signature = ''pwd'', tr_generation = 7, tr_now = 5\<rparr>)))) \<le> 3"
  using repeated_reads_bounded [of "''pwd''"
      "replicate 4 \<lparr>tr_write = False, tr_signature = ''pwd'', tr_generation = 7, tr_now = 5\<rparr>"
      7 default_turn_limits 0]
  by (simp add: reads_of_def default_turn_limits_def)

end
