(* ===== verification/Action_Dispatch.thy ===== *)
theory Action_Dispatch
  imports Permission_Rules Command_Risk Tool_Ledger Agent_Guard
begin

text \<open>
  The dispatcher of the agent's actions, \<open>src/application/ai/AiActionToolDispatcher\<close>: it admits a tool
  call through the ledger, asks the rules and the policy, charges the budget of the turn and claims
  the session.  Qt reads and writes the JSON, so the arguments as read and checked
  (\<open>arguments\<close>) and the text of a failure (\<open>failure\<close>) are parameters; the rest of \<open>prepare\<close>
  and the operations around it are the code's.
\<close>

section \<open>Calls and actions\<close>

record AiToolCall =
  tc_id :: string
  tc_name :: string
  tc_argumentsJson :: string

record AiActionToolContext =
  ac_conversationId :: string
  ac_turnId :: u64
  ac_target :: AiSessionTarget
  ac_permissionMode :: AiPermissionMode
  ac_profileId :: string
  ac_writable :: bool

datatype AiActionToolDisposition = Execute | AwaitApproval | Respond

datatype AiTerminalActionKind =
  RunCommand | WriteToPty | InterruptCommand | SaveRunbook | EnqueueSftpDownload | EnqueueSftpUpload

record AiTerminalAction =
  ta_dispatchKey :: AiToolDispatchKey
  ta_target :: AiSessionTarget
  ta_kind :: AiTerminalActionKind
  ta_command :: string
  ta_commandId :: string
  ta_ptyData :: string
  ta_payloadJson :: string
  ta_permissionSubject :: string
  ta_permissionCapability :: AiPermissionCapability
  ta_timeoutMilliseconds :: u32
  ta_appendEnter :: bool
  ta_risk :: AiCommandRiskCategory

record AiActionToolPlan =
  ap_disposition :: AiActionToolDisposition
  ap_action :: "AiTerminalAction option"
  ap_outputJson :: string
  ap_sideEffecting :: bool

text \<open>
  What \<open>prepare\<close> reads from the JSON of a call of a known tool: whether the schema of the tool holds,
  the strings, the timeout, and the JSON of the canonical arguments, of the runbook and of the pair of paths.
\<close>

record ToolArguments =
  arg_schemaValid :: bool
  arg_command :: string
  arg_commandId :: string
  arg_ptyData :: string
  arg_commandTimeout :: "u64 option"
  arg_appendEnter :: bool
  arg_runbookName :: string
  arg_remotePath :: string
  arg_canonicalJson :: string
  arg_runbookJson :: string
  arg_pathsJson :: string

record AiActionToolDispatcher =
  ad_rules :: AiPermissionRuleEngine
  ad_ledger :: AiToolDispatchLedger
  ad_ownership :: AiSessionWriteOwnership

definition dispatcher_new :: "AiActionToolDispatcher" where
  "dispatcher_new = \<lparr>ad_rules = [], ad_ledger = ledger_new (default_limits\<lparr>lim_maximumArgumentsBytes := 20 * 1024\<rparr>),
     ad_ownership = ownership_new 64\<rparr>"

text \<open>The tool a call names.\<close>

definition call_kind :: "AiToolCall \<Rightarrow> AiTerminalActionKind option" where
  "call_kind call =
     (if tc_name call = ''run_command'' then Some RunCommand
      else if tc_name call = ''interrupt_command'' then Some InterruptCommand
      else if tc_name call = ''write_to_pty'' then Some WriteToPty
      else if tc_name call = ''save_runbook'' then Some SaveRunbook
      else if tc_name call = ''queue_sftp_download'' then Some EnqueueSftpDownload
      else if tc_name call = ''queue_sftp_upload'' then Some EnqueueSftpUpload
      else None)"

definition budgetCode :: "AiAgentBudgetDecision \<Rightarrow> string" where
  "budgetCode decision = (case decision of
     Allow \<Rightarrow> ''ok'' | ToolCallLimit \<Rightarrow> ''tool_call_limit'' | WriteActionLimit \<Rightarrow> ''write_action_limit''
   | RepeatedReadLimit \<Rightarrow> ''repeated_read_limit'' | TokenLimit \<Rightarrow> ''token_limit'' | TimeLimit \<Rightarrow> ''time_limit'')"

definition response :: "string \<Rightarrow> bool \<Rightarrow> AiActionToolPlan" where
  "response output sideEffecting =
     \<lparr>ap_disposition = Respond, ap_action = None, ap_outputJson = output, ap_sideEffecting = sideEffecting\<rparr>"

definition planned :: "AiActionToolDisposition \<Rightarrow> AiTerminalAction \<Rightarrow> AiActionToolPlan" where
  "planned disposition action =
     \<lparr>ap_disposition = disposition, ap_action = Some action, ap_outputJson = [], ap_sideEffecting = True\<rparr>"

definition mutationDisposition :: "AiPermissionMode \<Rightarrow> AiPermissionRuleMatch option \<Rightarrow> AiPermissionDisposition" where
  "mutationDisposition mode rule = (case rule of
     Some m \<Rightarrow> rm_disposition m
   | None \<Rightarrow> (case mode of ReadOnlyMode \<Rightarrow> PermitDeny | AskMode \<Rightarrow> PermitAsk | AutomaticMode \<Rightarrow> PermitAllow | YoloMode \<Rightarrow> PermitAllow))"

section \<open>Preparing a call\<close>

type_synonym failure_text = "string \<Rightarrow> string \<Rightarrow> string"

definition ledger_to :: "AiToolDispatchKey \<Rightarrow> AiToolDispatchState \<Rightarrow> string \<Rightarrow> AiActionToolDispatcher \<Rightarrow> AiActionToolDispatcher" where
  "ledger_to key state resultJson d = d\<lparr>ad_ledger := fst (ledger_transition key state resultJson (ad_ledger d))\<rparr>"

definition fail_call :: "failure_text \<Rightarrow> AiToolDispatchKey \<Rightarrow> string \<Rightarrow> string \<Rightarrow> AiActionToolDispatcher
    \<Rightarrow> AiActionToolDispatcher \<times> AiActionToolPlan" where
  "fail_call failure key code message d =
     (ledger_to key Failed (failure code message) d, response (failure code message) True)"

definition evaluate_for :: "regex_library \<Rightarrow> AiPermissionCapability \<Rightarrow> string \<Rightarrow> AiActionToolContext \<Rightarrow> AiActionToolDispatcher
    \<Rightarrow> AiActionToolDispatcher \<times> AiPermissionRuleMatch option" where
  "evaluate_for regex capability subject c d =
     (case rules_evaluate regex \<lparr>qr_capability = capability, qr_subject = subject,
         qr_sessionId = target_sessionId (ac_target c), qr_profileId = ac_profileId c\<rparr> (ad_rules d) of
        (rules, m) \<Rightarrow> (d\<lparr>ad_rules := rules\<rparr>, m))"

definition action_of :: "AiToolDispatchKey \<Rightarrow> AiActionToolContext \<Rightarrow> AiTerminalActionKind \<Rightarrow> string
    \<Rightarrow> AiPermissionCapability \<Rightarrow> AiTerminalAction" where
  "action_of key c kind subject capability =
     \<lparr>ta_dispatchKey = key, ta_target = ac_target c, ta_kind = kind, ta_command = [], ta_commandId = [], ta_ptyData = [],
      ta_payloadJson = [], ta_permissionSubject = subject, ta_permissionCapability = capability,
      ta_timeoutMilliseconds = 30000, ta_appendEnter = False, ta_risk = NoRisk\<rparr>"

text \<open>Saving a runbook and queueing a file: the two branches differ in what they ask and in the payload.\<close>

definition prepare_mutation :: "regex_library \<Rightarrow> failure_text \<Rightarrow> int \<Rightarrow> AiToolDispatchKey \<Rightarrow> AiActionToolContext
    \<Rightarrow> AiTerminalActionKind \<Rightarrow> AiPermissionCapability \<Rightarrow> string \<Rightarrow> string \<Rightarrow> string
    \<Rightarrow> AiActionToolDispatcher \<Rightarrow> AiAgentTurnBudget
    \<Rightarrow> (AiActionToolDispatcher \<times> AiActionToolPlan) \<times> AiAgentTurnBudget" where
  "prepare_mutation regex failure now key c kind capability subject payload denied d budget =
     (case evaluate_for regex capability subject c d of
        (d1, rule) \<Rightarrow>
          (let disposition = mutationDisposition (ac_permissionMode c) rule in
           if disposition = PermitDeny then (fail_call failure key ''permission_denied'' denied d1, budget)
           else (case budget_authorize True [] 0 now budget of
                   (budget', decision) \<Rightarrow>
                     (if decision \<noteq> Allow
                      then (fail_call failure key (budgetCode decision) ''The AI turn action budget was exhausted.'' d1, budget')
                      else ((ledger_to key (if disposition = PermitAllow then Running else AwaitingApproval) [] d1,
                             planned (if disposition = PermitAllow then Execute else AwaitApproval)
                               ((action_of key c kind subject capability)\<lparr>ta_payloadJson := payload\<rparr>)), budget')))))"

text \<open>Running a command, writing to the terminal and interrupting.\<close>

definition prepare_terminal :: "regex_library \<Rightarrow> failure_text \<Rightarrow> int \<Rightarrow> AiToolDispatchKey \<Rightarrow> AiActionToolContext
    \<Rightarrow> AiTerminalActionKind \<Rightarrow> ToolArguments \<Rightarrow> AiActionToolDispatcher \<Rightarrow> AiAgentTurnBudget
    \<Rightarrow> (AiActionToolDispatcher \<times> AiActionToolPlan) \<times> AiAgentTurnBudget" where
  "prepare_terminal regex failure now key c kind args d budget =
     (if \<not> ac_writable c
      then (fail_call failure key ''session_unavailable'' ''The target terminal session is not writable.'' d, budget)
      else
        (let risk = (if kind = RunCommand then classifyCommand (arg_command args) else NoRisk);
             capability = (if kind = RunCommand then TerminalCommand else if kind = WriteToPty then PtyInput else TerminalInterrupt);
             subject = (if kind = RunCommand then arg_command args else if kind = WriteToPty then arg_ptyData args
               else arg_commandId args)
         in (case evaluate_for regex capability subject c d of
               (d1, rule) \<Rightarrow>
                 (let decision = decide (request_default\<lparr>pr_mode := ac_permissionMode c, pr_write := True,
                        pr_schemaValid := arg_schemaValid args, pr_scopeValid := arg_schemaValid args,
                        pr_explicitDeny := (map_option rm_disposition rule = Some PermitDeny),
                        pr_explicitAsk := (map_option rm_disposition rule = Some PermitAsk),
                        pr_explicitAllow := (map_option rm_disposition rule = Some PermitAllow),
                        pr_highRisk := highRisk risk\<rparr>);
                      action = (action_of key c kind subject capability)\<lparr>ta_command := arg_command args,
                        ta_commandId := arg_commandId args, ta_ptyData := arg_ptyData args,
                        ta_timeoutMilliseconds := (case arg_commandTimeout args of None \<Rightarrow> 0 | Some t \<Rightarrow> ucast t),
                        ta_appendEnter := arg_appendEnter args, ta_risk := risk\<rparr>
                  in if pd_disposition decision = PermitDeny
                     then (fail_call failure key ''permission_denied'' ''The active permission mode denied the command.'' d1, budget)
                     else (case budget_authorize True [] 0 now budget of
                             (budget', budgetDecision) \<Rightarrow>
                               (if budgetDecision \<noteq> Allow
                                then (fail_call failure key (budgetCode budgetDecision)
                                        ''The AI turn action budget was exhausted.'' d1, budget')
                                else (case wo_claim (ac_target c) (ac_conversationId c) (ad_ownership d1) of
                                        (ownership', claimed) \<Rightarrow>
                                          (let d2 = d1\<lparr>ad_ownership := ownership'\<rparr>
                                           in if claimed = UserHasControl
                                              then (fail_call failure key ''user_has_control''
                                                 ''The user has terminal write control. Resume agent control explicitly first.'' d2, budget')
                                              else if claimed \<noteq> Acquired \<and> claimed \<noteq> AlreadyOwned
                                              then (fail_call failure key ''ownership_conflict''
                                                 ''Another AI conversation owns terminal write control.'' d2, budget')
                                              else if pd_disposition decision = PermitAsk
                                              then ((ledger_to key AwaitingApproval [] d2, planned AwaitApproval action), budget')
                                              else ((ledger_to key Running [] d2, planned Execute action), budget')))))))))"

text \<open>A call the ledger has admitted.\<close>

definition prepare_admitted :: "regex_library \<Rightarrow> failure_text \<Rightarrow> int \<Rightarrow> AiToolDispatchKey \<Rightarrow> AiActionToolContext
    \<Rightarrow> AiTerminalActionKind \<Rightarrow> ToolArguments \<Rightarrow> AiActionToolDispatcher \<Rightarrow> AiAgentTurnBudget
    \<Rightarrow> (AiActionToolDispatcher \<times> AiActionToolPlan) \<times> AiAgentTurnBudget" where
  "prepare_admitted regex failure now key c kind args d budget =
     (if \<not> arg_schemaValid args
      then (fail_call failure key ''invalid_arguments'' ''The terminal-action arguments are invalid.'' d, budget)
      else if kind = SaveRunbook
      then prepare_mutation regex failure now key c SaveRunbook RunbookMutation (arg_runbookName args) (arg_runbookJson args)
        ''The active mode or permission rule denied saving the runbook.'' d budget
      else if kind = EnqueueSftpDownload \<or> kind = EnqueueSftpUpload
      then prepare_mutation regex failure now key c kind (if kind = EnqueueSftpDownload then SftpDownload else SftpUpload)
        (arg_remotePath args) (arg_pathsJson args) ''The active mode or permission rule denied the SFTP mutation.'' d budget
      else prepare_terminal regex failure now key c kind args d budget)"

definition prepare :: "(AiToolCall \<Rightarrow> ToolArguments) \<Rightarrow> regex_library \<Rightarrow> failure_text \<Rightarrow> int \<Rightarrow> AiToolCall \<Rightarrow> AiActionToolContext
    \<Rightarrow> AiActionToolDispatcher \<Rightarrow> AiAgentTurnBudget
    \<Rightarrow> (AiActionToolDispatcher \<times> AiActionToolPlan) \<times> AiAgentTurnBudget" where
  "prepare arguments regex failure now call c d budget =
     (case call_kind call of
        None \<Rightarrow> ((d, response (failure ''unsupported'' ''The requested action tool is unsupported.'') False), budget)
      | Some kind \<Rightarrow>
          (let args = arguments call;
               request = \<lparr>dr_key = \<lparr>dk_conversationId = ac_conversationId c, dk_turnId = ac_turnId c, dk_toolCallId = tc_id call\<rparr>,
                 dr_toolName = tc_name call, dr_canonicalArguments = arg_canonicalJson args,
                 dr_sessionId = target_sessionId (ac_target c), dr_sessionGeneration = target_sessionGeneration (ac_target c),
                 dr_sideEffecting = True\<rparr>
           in (case ledger_begin request (ad_ledger d) of
                 (ledger', admitted) \<Rightarrow>
                   (let d' = d\<lparr>ad_ledger := ledger'\<rparr> in
                    (case (out_admission admitted, out_record admitted) of
                       (Cached, Some r) \<Rightarrow> ((d', response (rec_resultJson r) True), budget)
                     | (Accepted, Some r) \<Rightarrow> prepare_admitted regex failure now (rec_key r) c kind args d' budget
                     | (DuplicateMismatch, _) \<Rightarrow>
                         ((d', response (failure ''duplicate_mismatch'' ''The tool-call id was reused with different arguments.'') True), budget)
                     | _ \<Rightarrow>
                         ((d', response (failure ''tool_in_progress'' ''An identical tool call is already being handled.'') True), budget))))))"

section \<open>The other operations\<close>

definition permissionDecision :: "regex_library \<Rightarrow> AiPermissionCapability \<Rightarrow> string \<Rightarrow> AiActionToolContext \<Rightarrow> bool
    \<Rightarrow> AiActionToolDispatcher \<Rightarrow> AiActionToolDispatcher \<times> AiPermissionDecision" where
  "permissionDecision regex capability subject c isHighRisk d =
     (case evaluate_for regex capability subject c d of
        (d1, rule) \<Rightarrow> (d1, decide (request_default\<lparr>pr_mode := ac_permissionMode c, pr_write := True,
           pr_explicitDeny := (map_option rm_disposition rule = Some PermitDeny),
           pr_explicitAsk := (map_option rm_disposition rule = Some PermitAsk),
           pr_explicitAllow := (map_option rm_disposition rule = Some PermitAllow), pr_highRisk := isHighRisk\<rparr>)))"

definition with_ledger :: "(AiToolDispatchLedger \<Rightarrow> AiToolDispatchLedger \<times> bool) \<Rightarrow> AiActionToolDispatcher \<Rightarrow> AiActionToolDispatcher \<times> bool" where
  "with_ledger f d = (case f (ad_ledger d) of (l, ok) \<Rightarrow> (d\<lparr>ad_ledger := l\<rparr>, ok))"

definition approve :: "AiTerminalAction \<Rightarrow> AiActionToolDispatcher \<Rightarrow> AiActionToolDispatcher \<times> bool" where
  "approve action = with_ledger (ledger_transition (ta_dispatchKey action) Running [])"

definition deny :: "failure_text \<Rightarrow> AiTerminalAction \<Rightarrow> AiActionToolDispatcher \<Rightarrow> AiActionToolDispatcher \<times> bool" where
  "deny failure action = with_ledger (ledger_transition (ta_dispatchKey action) Failed
     (failure ''permission_denied'' ''The user denied this action.''))"

definition complete_action :: "AiTerminalAction \<Rightarrow> AiToolDispatchState \<Rightarrow> string \<Rightarrow> AiActionToolDispatcher \<Rightarrow> AiActionToolDispatcher \<times> bool" where
  "complete_action action state resultJson = with_ledger (ledger_transition (ta_dispatchKey action) state resultJson)"

definition agentHasControl :: "AiSessionTarget \<Rightarrow> string \<Rightarrow> AiActionToolDispatcher \<Rightarrow> bool" where
  "agentHasControl target conversationId d \<longleftrightarrow> wo_owner target (ad_ownership d) = Some conversationId"

definition with_ownership :: "(AiSessionWriteOwnership \<Rightarrow> AiSessionWriteOwnership \<times> bool) \<Rightarrow> AiActionToolDispatcher \<Rightarrow> AiActionToolDispatcher \<times> bool" where
  "with_ownership f d = (case f (ad_ownership d) of (w, ok) \<Rightarrow> (d\<lparr>ad_ownership := w\<rparr>, ok))"

definition handoffToUser :: "AiSessionTarget \<Rightarrow> string \<Rightarrow> AiActionToolDispatcher \<Rightarrow> AiActionToolDispatcher \<times> bool" where
  "handoffToUser target conversationId = with_ownership (wo_handoffToUser target conversationId)"

definition resumeAgent :: "AiSessionTarget \<Rightarrow> string \<Rightarrow> AiActionToolDispatcher \<Rightarrow> AiActionToolDispatcher \<times> bool" where
  "resumeAgent target conversationId = with_ownership (wo_resumeAgent target conversationId)"

definition with_rules :: "(AiPermissionRuleEngine \<Rightarrow> AiPermissionRuleEngine \<times> bool) \<Rightarrow> AiActionToolDispatcher \<Rightarrow> AiActionToolDispatcher \<times> bool" where
  "with_rules f d = (case f (ad_rules d) of (rs, ok) \<Rightarrow> (d\<lparr>ad_rules := rs\<rparr>, ok))"

definition replacePermissionRules :: "regex_library \<Rightarrow> AiPermissionRule list \<Rightarrow> AiActionToolDispatcher \<Rightarrow> AiActionToolDispatcher \<times> bool" where
  "replacePermissionRules regex rules = with_rules (rules_replace regex rules)"

definition addPermissionRule :: "regex_library \<Rightarrow> AiPermissionRule \<Rightarrow> AiActionToolDispatcher \<Rightarrow> AiActionToolDispatcher \<times> bool" where
  "addPermissionRule regex rule = with_rules (rules_add regex rule)"

definition removePermissionRule :: "string \<Rightarrow> AiActionToolDispatcher \<Rightarrow> AiActionToolDispatcher \<times> bool" where
  "removePermissionRule ruleId = with_rules (rules_remove ruleId)"

definition dispatcher_clearSession :: "AiSessionTarget \<Rightarrow> AiActionToolDispatcher \<Rightarrow> AiActionToolDispatcher" where
  "dispatcher_clearSession target d =
     d\<lparr>ad_ownership := wo_releaseSession target (ad_ownership d),
       ad_rules := rules_clearSession (target_sessionId target) (ad_rules d)\<rparr>"

definition dispatcher_clearConversation :: "string \<Rightarrow> AiActionToolDispatcher \<Rightarrow> AiActionToolDispatcher" where
  "dispatcher_clearConversation conversationId d =
     d\<lparr>ad_ownership := wo_releaseConversation conversationId (ad_ownership d),
       ad_ledger := ledger_clearConversation conversationId (ad_ledger d)\<rparr>"

end
