(* ===== verification/Dispatch_Safety.thy ===== *)
theory Dispatch_Safety
  imports Action_Dispatch
begin

text \<open>
  What holds of the actions the dispatcher plans: the guards one call passes, and what the user taking a
  session over means for all later calls.
\<close>

section \<open>What a planned action went through\<close>

definition capability_of :: "AiTerminalActionKind \<Rightarrow> AiPermissionCapability" where
  "capability_of kind = (case kind of RunCommand \<Rightarrow> TerminalCommand | WriteToPty \<Rightarrow> PtyInput | InterruptCommand \<Rightarrow> TerminalInterrupt
     | SaveRunbook \<Rightarrow> RunbookMutation | EnqueueSftpDownload \<Rightarrow> SftpDownload | EnqueueSftpUpload \<Rightarrow> SftpUpload)"

definition subject_of :: "AiTerminalActionKind \<Rightarrow> ToolArguments \<Rightarrow> string" where
  "subject_of kind args = (case kind of RunCommand \<Rightarrow> arg_command args | WriteToPty \<Rightarrow> arg_ptyData args
     | InterruptCommand \<Rightarrow> arg_commandId args | SaveRunbook \<Rightarrow> arg_runbookName args
     | EnqueueSftpDownload \<Rightarrow> arg_remotePath args | EnqueueSftpUpload \<Rightarrow> arg_remotePath args)"

definition terminal_kind :: "AiTerminalActionKind \<Rightarrow> bool" where
  "terminal_kind kind \<longleftrightarrow> kind = RunCommand \<or> kind = WriteToPty \<or> kind = InterruptCommand"

definition query_of :: "AiActionToolContext \<Rightarrow> AiTerminalActionKind \<Rightarrow> ToolArguments \<Rightarrow> AiPermissionRuleQuery" where
  "query_of c kind args = \<lparr>qr_capability = capability_of kind, qr_subject = subject_of kind args,
     qr_sessionId = target_sessionId (ac_target c), qr_profileId = ac_profileId c\<rparr>"

definition call_key :: "AiActionToolContext \<Rightarrow> AiToolCall \<Rightarrow> AiToolDispatchKey" where
  "call_key c call = \<lparr>dk_conversationId = ac_conversationId c, dk_turnId = ac_turnId c, dk_toolCallId = tc_id call\<rparr>"

text \<open>What the rules and the mode say of an action, from the rules that apply to it.\<close>

definition permitted :: "regex_library \<Rightarrow> AiPermissionRuleEngine \<Rightarrow> AiActionToolContext \<Rightarrow> AiTerminalActionKind \<Rightarrow> ToolArguments
    \<Rightarrow> AiPermissionDisposition" where
  "permitted regex rules c kind args =
     (let found = filter (applicable regex (query_of c kind args)) rules in
      if \<exists>r \<in> set found. rule_disposition r = PermitDeny then PermitDeny
      else if \<exists>r \<in> set found. rule_disposition r = PermitAsk then PermitAsk
      else if found \<noteq> [] then PermitAllow
      else (case ac_permissionMode c of
              ReadOnlyMode \<Rightarrow> PermitDeny
            | AskMode \<Rightarrow> PermitAsk
            | AutomaticMode \<Rightarrow> if kind = RunCommand \<and> classifyCommand (arg_command args) \<noteq> NoRisk then PermitAsk else PermitAllow
            | YoloMode \<Rightarrow> PermitAllow))"

lemma evaluate_permits:
  assumes "rules_evaluate regex q rules = (rules', m)"
  shows "map_option rm_disposition m =
    (if \<exists>r \<in> set (filter (applicable regex q) rules). rule_disposition r = PermitDeny then Some PermitDeny
     else if \<exists>r \<in> set (filter (applicable regex q) rules). rule_disposition r = PermitAsk then Some PermitAsk
     else if filter (applicable regex q) rules \<noteq> [] then Some PermitAllow else None)"
proof (rule evaluate_cases [of regex q rules])
  fix xs r ys
  assume r: "rules = xs @ r # ys" "applicable regex q r"
    "rules_evaluate regex q rules = (if rule_duration r = OnceDuration then xs @ ys else rules, Some (rule_match r))"
    "\<forall>x \<in> set xs. applicable regex q x \<longrightarrow> priority r < priority x"
    "\<forall>y \<in> set ys. applicable regex q y \<longrightarrow> priority r \<le> priority y"
  have m: "m = Some (rule_match r)" using r(3) assms by simp
  have least: "priority r \<le> priority x" if "x \<in> set rules" "applicable regex q x" for x using that r by fastforce
  have mem: "r \<in> set (filter (applicable regex q) rules)" using r(1,2) by simp
  then have some: "filter (applicable regex q) rules \<noteq> []" by (metis empty_iff empty_set)
  have prio: "priority x = 0 \<longleftrightarrow> rule_disposition x = PermitDeny" "priority x = 1 \<longleftrightarrow> rule_disposition x = PermitAsk"
    "priority x = 2 \<longleftrightarrow> rule_disposition x = PermitAllow" for x
    by (cases "rule_disposition x"; simp add: dispositionPriority_def)+
  show ?thesis
  proof (cases "rule_disposition r")
    case PermitDeny
    then show ?thesis using m mem by (auto simp: rule_match_def)
  next
    case PermitAsk
    then have "rule_disposition x \<noteq> PermitDeny" if "x \<in> set rules" "applicable regex q x" for x
      using least [OF that] prio(1) [of x] prio(2) [of r] by auto
    then show ?thesis using m mem PermitAsk by (auto simp: rule_match_def)
  next
    case PermitAllow
    then have "rule_disposition x \<noteq> PermitDeny \<and> rule_disposition x \<noteq> PermitAsk" if "x \<in> set rules" "applicable regex q x" for x
      using least [OF that] prio(1,2) [of x] prio(3) [of r] by auto
    then show ?thesis using m some PermitAllow by (auto simp: rule_match_def)
  qed
qed (use assms in auto)

lemma permitted_by_match:
  assumes "rules_evaluate regex (query_of c kind args) rules = (rules', m)"
  shows "permitted regex rules c kind args = (case m of Some x \<Rightarrow> rm_disposition x
    | None \<Rightarrow> (case ac_permissionMode c of
              ReadOnlyMode \<Rightarrow> PermitDeny
            | AskMode \<Rightarrow> PermitAsk
            | AutomaticMode \<Rightarrow> if kind = RunCommand \<and> classifyCommand (arg_command args) \<noteq> NoRisk then PermitAsk else PermitAllow
            | YoloMode \<Rightarrow> PermitAllow))"
proof -
  let ?found = "filter (applicable regex (query_of c kind args)) rules"
  note e = evaluate_permits [OF assms]
  consider (deny) "\<exists>r \<in> set ?found. rule_disposition r = PermitDeny"
    | (ask) "\<not> (\<exists>r \<in> set ?found. rule_disposition r = PermitDeny)" "\<exists>r \<in> set ?found. rule_disposition r = PermitAsk"
    | (allow) "\<not> (\<exists>r \<in> set ?found. rule_disposition r = PermitDeny)" "\<not> (\<exists>r \<in> set ?found. rule_disposition r = PermitAsk)" "?found \<noteq> []"
    | (none) "?found = []"
    by blast
  then show ?thesis
  proof cases
    case deny
    then have "map_option rm_disposition m = Some PermitDeny" unfolding e by (rule if_P)
    then show ?thesis unfolding permitted_def Let_def if_P [OF deny] by auto
  next
    case ask
    then have "map_option rm_disposition m = Some PermitAsk" unfolding e if_not_P [OF ask(1)] by (intro if_P)
    then show ?thesis unfolding permitted_def Let_def if_not_P [OF ask(1)] if_P [OF ask(2)] by auto
  next
    case allow
    then have "map_option rm_disposition m = Some PermitAllow" unfolding e if_not_P [OF allow(1)] if_not_P [OF allow(2)] by (intro if_P)
    then show ?thesis unfolding permitted_def Let_def if_not_P [OF allow(1)] if_not_P [OF allow(2)] if_P [OF allow(3)] by auto
  next
    case none
    then have "m = None" using e by simp
    then show ?thesis unfolding permitted_def Let_def none by simp
  qed
qed

lemma decide_terminal:
  assumes "arg_schemaValid args" "terminal_kind kind" "rules_evaluate regex (query_of c kind args) rules = (rules', m)"
  shows "pd_disposition (decide (request_default\<lparr>pr_mode := ac_permissionMode c, pr_write := True,
     pr_schemaValid := arg_schemaValid args, pr_scopeValid := arg_schemaValid args,
     pr_explicitDeny := (map_option rm_disposition m = Some PermitDeny),
     pr_explicitAsk := (map_option rm_disposition m = Some PermitAsk),
     pr_explicitAllow := (map_option rm_disposition m = Some PermitAllow),
     pr_highRisk := highRisk (if kind = RunCommand then classifyCommand (arg_command args) else NoRisk)\<rparr>))
   = permitted regex rules c kind args"
proof (cases m)
  case None
  then show ?thesis unfolding permitted_by_match [OF assms(3)]
    using assms(1) by (cases "ac_permissionMode c") (simp_all add: decide_def request_default_def highRisk_def)
next
  case (Some x)
  then show ?thesis unfolding permitted_by_match [OF assms(3)]
    using assms(1) by (cases "rm_disposition x") (simp_all add: decide_def request_default_def)
qed

lemma mutation_permitted:
  assumes "\<not> terminal_kind kind" "rules_evaluate regex (query_of c kind args) rules = (rules', m)"
  shows "mutationDisposition (ac_permissionMode c) m = permitted regex rules c kind args"
  unfolding permitted_by_match [OF assms(2)] mutationDisposition_def
  using assms(1) by (cases m; cases "ac_permissionMode c"; simp add: terminal_kind_def)

lemma begin_accepted:
  assumes "ledger_begin request l = (l', out)" "out_admission out = Accepted"
  shows "\<exists>r. out_record out = Some r \<and> rec_request r = request \<and> rec_state r = Pending
    \<and> ledger_find (dr_key request) l = None \<and> ledger_find (dr_key request) l' = Some r"
proof -
  have none: "ledger_find (dr_key request) l = None"
    using assms by (auto simp: ledger_begin_def split: option.splits if_splits)
  obtain l1 where m: "makeRoom l = (l1, True)"
    using assms none by (cases "makeRoom l") (auto simp: ledger_begin_def split: if_splits bool.splits)
  then have "set (ld_records l1) \<subseteq> set (ld_records l)" using set_erase_first [THEN subsetD] by (fastforce simp: makeRoom_def split: if_splits)
  then have "ledger_find (dr_key request) l1 = None" using none by (auto simp: ledger_find_def find_None_iff)
  then show ?thesis using assms m none
    by (auto simp: ledger_begin_def Let_def ledger_find_def find_append_keyed split: if_splits)
qed

lemma claim_granted:
  assumes "wo_claim t c w = (w', res)" "res = Acquired \<or> res = AlreadyOwned"
  shows "held_by t (wo_owners w') = Some c \<and> held_by t (wo_userControl w') = None"
  using assms by (auto simp: wo_claim_def held_append split: option.splits if_splits)

lemma ledger_to_state:
  assumes "ledger_find key (ad_ledger d) = Some r" "rec_state r = Pending" "state = Running \<or> state = AwaitingApproval"
  shows "\<exists>r'. ledger_find key (ad_ledger (ledger_to key state [] d)) = Some r' \<and> rec_state r' = state"
proof -
  have "ledger_transition key state [] (ad_ledger d) = ((ad_ledger d)\<lparr>ld_records := update_first (\<lambda>r. rec_key r = key)
      (\<lambda>r. r\<lparr>rec_state := state, rec_resultJson := []\<rparr>) (ld_records (ad_ledger d))\<rparr>, True)"
    using assms by (auto simp: ledger_transition_def transitionAllowed_def state_terminal_def)
  moreover have "find (\<lambda>r. rec_key r = key) (update_first (\<lambda>r. rec_key r = key)
      (\<lambda>r. r\<lparr>rec_state := state, rec_resultJson := []\<rparr>) (ld_records (ad_ledger d)))
    = map_option (\<lambda>r. r\<lparr>rec_state := state, rec_resultJson := []\<rparr>) (ledger_find key (ad_ledger d))"
    unfolding ledger_find_def by (rule find_update_first_same) simp
  ultimately show ?thesis using assms by (simp add: ledger_to_def ledger_find_def)
qed

lemma ledger_to_frame [simp]:
  "ad_rules (ledger_to key state j d) = ad_rules d" "ad_ownership (ledger_to key state j d) = ad_ownership d"
  by (simp_all add: ledger_to_def)

lemma fail_responds [simp]: "ap_disposition (snd (fail_call failure key code message d)) = Respond"
  by (simp add: fail_call_def response_def)

text \<open>The state of the dispatcher and the plan, when an admitted call is planned.\<close>

definition planned_ok :: "regex_library \<Rightarrow> int \<Rightarrow> AiToolDispatchKey \<Rightarrow> AiActionToolContext \<Rightarrow> AiTerminalActionKind \<Rightarrow> ToolArguments
    \<Rightarrow> AiActionToolDispatcher \<Rightarrow> AiAgentTurnBudget \<Rightarrow> AiActionToolDispatcher \<Rightarrow> AiActionToolPlan \<Rightarrow> AiAgentTurnBudget \<Rightarrow> bool" where
  "planned_ok regex now key c kind args d b d' plan b' \<longleftrightarrow>
     arg_schemaValid args
     \<and> permitted regex (ad_rules d) c kind args = (if ap_disposition plan = Execute then PermitAllow else PermitAsk)
     \<and> budget_authorize True [] 0 now b = (b', Allow)
     \<and> (\<exists>action. ap_action plan = Some action \<and> ta_kind action = kind \<and> ta_dispatchKey action = key \<and> ta_target action = ac_target c)
     \<and> (\<exists>r. ledger_find key (ad_ledger d') = Some r \<and> rec_state r = (if ap_disposition plan = Execute then Running else AwaitingApproval))
     \<and> (terminal_kind kind \<longrightarrow> ac_writable c
         \<and> held_by (ac_target c) (wo_owners (ad_ownership d')) = Some (ac_conversationId c)
         \<and> held_by (ac_target c) (wo_userControl (ad_ownership d')) = None)"

lemma evaluate_for_query:
  assumes "evaluate_for regex (capability_of kind) (subject_of kind args) c d = (d1, m)"
  shows "\<exists>rules. rules_evaluate regex (query_of c kind args) (ad_rules d) = (rules, m) \<and> d1 = d\<lparr>ad_rules := rules\<rparr>"
  using assms by (auto simp: evaluate_for_def query_of_def split: prod.splits)

lemma prepare_mutation_planned:
  assumes "prepare_mutation regex failure now key c kind (capability_of kind) (subject_of kind args) payload denied d b = ((d', plan), b')"
    and "ap_disposition plan \<noteq> Respond" "arg_schemaValid args" "\<not> terminal_kind kind"
    and "ledger_find key (ad_ledger d) = Some r" "rec_state r = Pending"
  shows "planned_ok regex now key c kind args d b d' plan b'"
proof -
  obtain d1 m where e: "evaluate_for regex (capability_of kind) (subject_of kind args) c d = (d1, m)" by fastforce
  obtain rules where q: "rules_evaluate regex (query_of c kind args) (ad_rules d) = (rules, m)" "d1 = d\<lparr>ad_rules := rules\<rparr>"
    using evaluate_for_query [OF e] by blast
  define p where "p = permitted regex (ad_rules d) c kind args"
  have p: "mutationDisposition (ac_permissionMode c) m = p" using mutation_permitted [OF assms(4) q(1)] by (simp add: p_def)
  obtain b1 dec where b: "budget_authorize True [] 0 now b = (b1, dec)" by fastforce
  have "p \<noteq> PermitDeny" using assms(1,2) e p by (auto simp: prepare_mutation_def fail_call_def response_def)
  moreover have "dec = Allow" using assms(1,2) e p b calculation by (auto simp: prepare_mutation_def fail_call_def response_def split: if_splits)
  ultimately have r: "d' = ledger_to key (if p = PermitAllow then Running else AwaitingApproval) [] d1" "b' = b1"
    "plan = planned (if p = PermitAllow then Execute else AwaitApproval)
       ((action_of key c kind (subject_of kind args) (capability_of kind))\<lparr>ta_payloadJson := payload\<rparr>)"
    using assms(1) e p b by (auto simp: prepare_mutation_def Let_def)
  have "ledger_find key (ad_ledger d1) = Some r" using q(2) assms(5) by simp
  from ledger_to_state [OF this assms(6), of "if p = PermitAllow then Running else AwaitingApproval"]
  show ?thesis unfolding planned_ok_def p_def [symmetric]
    using r assms(3,4) b \<open>dec = Allow\<close> \<open>p \<noteq> PermitDeny\<close> by (cases p) (auto simp: planned_def action_of_def)
qed

lemma prepare_terminal_planned:
  assumes "prepare_terminal regex failure now key c kind args d b = ((d', plan), b')"
    and "ap_disposition plan \<noteq> Respond" "arg_schemaValid args" "terminal_kind kind"
    and "ledger_find key (ad_ledger d) = Some r" "rec_state r = Pending"
  shows "planned_ok regex now key c kind args d b d' plan b'"
proof -
  obtain d1 m where e: "evaluate_for regex (capability_of kind) (subject_of kind args) c d = (d1, m)" by fastforce
  obtain rules where q: "rules_evaluate regex (query_of c kind args) (ad_rules d) = (rules, m)" "d1 = d\<lparr>ad_rules := rules\<rparr>"
    using evaluate_for_query [OF e] by blast
  define p where "p = permitted regex (ad_rules d) c kind args"
  note decision = decide_terminal [OF assms(3,4) q(1), folded p_def]
  have names: "(if kind = RunCommand then TerminalCommand else if kind = WriteToPty then PtyInput else TerminalInterrupt) = capability_of kind"
    "(if kind = RunCommand then arg_command args else if kind = WriteToPty then arg_ptyData args else arg_commandId args) = subject_of kind args"
    using assms(4) by (auto simp: terminal_kind_def capability_of_def subject_of_def)
  obtain b1 dec where b: "budget_authorize True [] 0 now b = (b1, dec)" by fastforce
  obtain w res where w: "wo_claim (ac_target c) (ac_conversationId c) (ad_ownership d1) = (w, res)" by fastforce
  define d2 where "d2 = d1\<lparr>ad_ownership := w\<rparr>"
  note unfolded = assms(1) [unfolded prepare_terminal_def Let_def names e prod.case decision b w d2_def [symmetric]]
  have ok: "ac_writable c" "p \<noteq> PermitDeny" "dec = Allow" "res = Acquired \<or> res = AlreadyOwned"
    using unfolded assms(2) by (auto simp: fail_call_def response_def split: if_splits)
  have out: "(d', plan) = (if p = PermitAsk then (ledger_to key AwaitingApproval [] d2, plan) else (ledger_to key Running [] d2, plan))"
    "b' = b1" "ap_disposition plan = (if p = PermitAsk then AwaitApproval else Execute)"
    "\<exists>action. ap_action plan = Some action \<and> ta_kind action = kind \<and> ta_dispatchKey action = key \<and> ta_target action = ac_target c"
    using unfolded ok by (auto simp: planned_def action_of_def split: if_splits)
  have "ledger_find key (ad_ledger d2) = Some r" using q(2) assms(5) by (simp add: d2_def)
  from ledger_to_state [OF this assms(6), of "if p = PermitAsk then AwaitingApproval else Running"]
    claim_granted [OF w ok(4)]
  show ?thesis unfolding planned_ok_def p_def [symmetric]
    using out assms(3) b ok by (cases p) (auto simp: d2_def)
qed

lemma prepare_admitted_planned:
  assumes "prepare_admitted regex failure now key c kind args d b = ((d', plan), b')" "ap_disposition plan \<noteq> Respond"
    and "ledger_find key (ad_ledger d) = Some r" "rec_state r = Pending"
  shows "planned_ok regex now key c kind args d b d' plan b'"
proof -
  have valid: "arg_schemaValid args"
  proof (rule ccontr)
    assume "\<not> arg_schemaValid args"
    then have "plan = snd (fail_call failure key ''invalid_arguments'' ''The terminal-action arguments are invalid.'' d)"
      using assms(1) unfolding prepare_admitted_def by (metis fst_conv snd_conv)
    then show False using assms(2) by simp
  qed
  show ?thesis
  proof (cases "terminal_kind kind")
    case True
    then have "prepare_terminal regex failure now key c kind args d b = ((d', plan), b')"
      using assms(1) valid by (auto simp: prepare_admitted_def terminal_kind_def)
    from prepare_terminal_planned [OF this assms(2) valid True assms(3,4)] show ?thesis .
  next
    case False
    obtain payload denied where
      "prepare_mutation regex failure now key c kind (capability_of kind) (subject_of kind args) payload denied d b = ((d', plan), b')"
      using assms(1) valid False
      by (cases kind) (auto simp: prepare_admitted_def terminal_kind_def capability_of_def subject_of_def)
    from prepare_mutation_planned [OF this assms(2) valid False assms(3,4)] show ?thesis .
  qed
qed

lemma budget_write_counted:
  assumes "budget_authorize True [] 0 now b = (b', Allow)"
  shows "tb_writeActions b < tl_maximumWriteActions (tb_limits b) \<and> tb_writeActions b' = tb_writeActions b + 1
    \<and> tb_toolCalls b' = tb_toolCalls b + 1 \<and> tb_limits b' = tb_limits b"
  using assms by (auto simp: budget_authorize_def split: if_splits)

lemma prepare_planned:
  assumes "prepare arguments regex failure now call c d b = ((d', plan), b')" "ap_disposition plan \<noteq> Respond"
  shows "\<exists>kind d1. call_kind call = Some kind \<and> ledger_find (call_key c call) (ad_ledger d) = None \<and> ad_rules d1 = ad_rules d
    \<and> planned_ok regex now (call_key c call) c kind (arguments call) d1 b d' plan b'"
proof -
  obtain kind where kind: "call_kind call = Some kind"
    using assms by (cases "call_kind call") (auto simp: prepare_def response_def)
  define request where "request = \<lparr>dr_key = call_key c call,
       dr_toolName = tc_name call, dr_canonicalArguments = arg_canonicalJson (arguments call),
       dr_sessionId = target_sessionId (ac_target c), dr_sessionGeneration = target_sessionGeneration (ac_target c),
       dr_sideEffecting = True\<rparr>"
  obtain l out where l: "ledger_begin request (ad_ledger d) = (l, out)" by fastforce
  note unfolded = assms(1) [unfolded prepare_def kind option.case Let_def call_key_def [symmetric] request_def [symmetric] l prod.case]
  have accepted: "out_admission out = Accepted"
    using unfolded assms(2) by (auto simp: response_def split: AiToolDispatchAdmission.splits option.splits)
  obtain r where r: "out_record out = Some r" "rec_request r = request" "rec_state r = Pending"
    "ledger_find (call_key c call) (ad_ledger d) = None" "ledger_find (call_key c call) l = Some r"
    using begin_accepted [OF l accepted] by (auto simp: request_def)
  have key: "rec_key r = call_key c call" using r(2) by (simp add: request_def)
  have "prepare_admitted regex failure now (call_key c call) c kind (arguments call) (d\<lparr>ad_ledger := l\<rparr>) b = ((d', plan), b')"
    using unfolded accepted r(1) key by simp
  from prepare_admitted_planned [OF this assms(2) _ r(3)] r(5)
  have "planned_ok regex now (call_key c call) c kind (arguments call) (d\<lparr>ad_ledger := l\<rparr>) b d' plan b'" by simp
  then show ?thesis using kind r(4) by (intro exI [of _ kind] exI [of _ "d\<lparr>ad_ledger := l\<rparr>"]) simp
qed

text \<open>C1. An action the dispatcher plans passed every guard: the call names a tool and its arguments are valid; its key
  was in no record of the ledger before and is recorded as running (executed) or awaiting approval
  after; the write is charged to a budget that had room for it; executed without asking only when the
  rules that apply all allow it, or none applies and the mode does, in the automatic mode not for a
  command of high risk; and for the terminal the conversation owns the session and the user has not
  taken it.\<close>

theorem planned_action_guarded:
  assumes "prepare arguments regex failure now call c d b = ((d', plan), b')" "ap_disposition plan \<noteq> Respond"
  shows "\<exists>kind r. call_kind call = Some kind \<and> arg_schemaValid (arguments call)
    \<and> ledger_find (call_key c call) (ad_ledger d) = None
    \<and> ledger_find (call_key c call) (ad_ledger d') = Some r
    \<and> rec_state r = (if ap_disposition plan = Execute then Running else AwaitingApproval)
    \<and> permitted regex (ad_rules d) c kind (arguments call) = (if ap_disposition plan = Execute then PermitAllow else PermitAsk)
    \<and> tb_writeActions b < tl_maximumWriteActions (tb_limits b) \<and> tb_writeActions b' = tb_writeActions b + 1
    \<and> map_option ta_kind (ap_action plan) = Some kind \<and> map_option ta_target (ap_action plan) = Some (ac_target c)
    \<and> (terminal_kind kind \<longrightarrow> ac_writable c \<and> agentHasControl (ac_target c) (ac_conversationId c) d'
        \<and> \<not> wo_userHasControl (ac_target c) (ac_conversationId c) (ad_ownership d'))"
  using prepare_planned [OF assms] budget_write_counted [of now b b']
  by (auto simp: planned_ok_def agentHasControl_def wo_owner_def wo_userHasControl_def)

definition dispatch_context :: AiActionToolContext where
  "dispatch_context = \<lparr>ac_conversationId = ''c'', ac_turnId = 1, ac_target = \<lparr>target_sessionId = ''s'', target_sessionGeneration = 0\<rparr>,
     ac_permissionMode = YoloMode, ac_profileId = [], ac_writable = True\<rparr>"

definition sample_call :: AiToolCall where
  "sample_call = \<lparr>tc_id = ''t'', tc_name = ''interrupt_command'', tc_argumentsJson = []\<rparr>"

definition sample_arguments :: "AiToolCall \<Rightarrow> ToolArguments" where
  "sample_arguments call = \<lparr>arg_schemaValid = True, arg_command = [], arg_commandId = ''k'', arg_ptyData = [], arg_commandTimeout = None,
     arg_appendEnter = False, arg_runbookName = [], arg_remotePath = [], arg_canonicalJson = [], arg_runbookJson = [], arg_pathsJson = []\<rparr>"

definition sample_prepared :: "(AiActionToolDispatcher \<times> AiActionToolPlan) \<times> AiAgentTurnBudget" where
  "sample_prepared = prepare sample_arguments (\<lambda>_. None) (\<lambda>code message. code) 0 sample_call dispatch_context dispatcher_new
     (budget_new default_turn_limits 0)"

lemma sample_executes: "ap_disposition (snd (fst sample_prepared)) = Execute"
  by (simp add: sample_prepared_def prepare_def sample_call_def call_kind_def Let_def ledger_begin_def dispatcher_new_def
    ledger_new_def default_limits_def ledger_valid_def validIdentifier_def dispatch_context_def sample_arguments_def
    ledger_find_def makeRoom_def prepare_admitted_def prepare_terminal_def evaluate_for_def rules_evaluate_def decide_def
    request_default_def budget_authorize_def budget_new_def default_turn_limits_def wo_claim_def ownership_new_def
    guard_validIdentifier_def held_by_def planned_def)

lemma planned_action_guarded_witness:
  "agentHasControl (ac_target dispatch_context) ''c'' (fst (fst sample_prepared)) \<and> tb_writeActions (snd sample_prepared) = 1"
proof -
  have "ap_disposition (snd (fst sample_prepared)) \<noteq> Respond" using sample_executes by simp
  from planned_action_guarded [OF _ this, of sample_arguments "\<lambda>_. None" "\<lambda>code message. code" 0 sample_call dispatch_context
      dispatcher_new "budget_new default_turn_limits 0" "fst (fst sample_prepared)" "snd sample_prepared"]
  have "\<exists>kind r. call_kind sample_call = Some kind \<and> tb_writeActions (snd sample_prepared) = tb_writeActions (budget_new default_turn_limits 0) + 1
      \<and> (terminal_kind kind \<longrightarrow> agentHasControl (ac_target dispatch_context) (ac_conversationId dispatch_context) (fst (fst sample_prepared)))"
    by (auto simp: sample_prepared_def)
  then show ?thesis by (auto simp: call_kind_def sample_call_def terminal_kind_def dispatch_context_def budget_new_def)
qed

section \<open>The dispatcher driven by its callers\<close>

datatype DispatcherOp =
    Prepare AiToolCall AiActionToolContext int AiAgentTurnBudget
  | AskPermission AiPermissionCapability string AiActionToolContext bool
  | Approve AiTerminalAction
  | Deny AiTerminalAction
  | CompleteAction AiTerminalAction AiToolDispatchState string
  | HandOff AiSessionTarget string
  | Resume AiSessionTarget string
  | ReplacePermissionRules "AiPermissionRule list"
  | AddPermissionRule AiPermissionRule
  | RemovePermissionRule string
  | ClearSessionOf AiSessionTarget
  | ClearConversationOf string

definition dispatcher_step :: "(AiToolCall \<Rightarrow> ToolArguments) \<Rightarrow> regex_library \<Rightarrow> failure_text \<Rightarrow> AiActionToolDispatcher \<Rightarrow> DispatcherOp
    \<Rightarrow> AiActionToolDispatcher \<times> unit" where
  "dispatcher_step arguments regex failure d x = ((case x of
       Prepare call c now b \<Rightarrow> fst (fst (prepare arguments regex failure now call c d b))
     | AskPermission capability subject c isHighRisk \<Rightarrow> fst (permissionDecision regex capability subject c isHighRisk d)
     | Approve action \<Rightarrow> fst (approve action d)
     | Deny action \<Rightarrow> fst (deny failure action d)
     | CompleteAction action state resultJson \<Rightarrow> fst (complete_action action state resultJson d)
     | HandOff target conversationId \<Rightarrow> fst (handoffToUser target conversationId d)
     | Resume target conversationId \<Rightarrow> fst (resumeAgent target conversationId d)
     | ReplacePermissionRules rules \<Rightarrow> fst (replacePermissionRules regex rules d)
     | AddPermissionRule rule \<Rightarrow> fst (addPermissionRule regex rule d)
     | RemovePermissionRule ruleId \<Rightarrow> fst (removePermissionRule ruleId d)
     | ClearSessionOf target \<Rightarrow> dispatcher_clearSession target d
     | ClearConversationOf conversationId \<Rightarrow> dispatcher_clearConversation conversationId d), ())"

text \<open>What an operation may do to the ownership of the sessions.\<close>

fun ownership_ops :: "DispatcherOp \<Rightarrow> OwnershipOp set" where
  "ownership_ops (Prepare call c now b) = {Claim (ac_target c) (ac_conversationId c)}"
| "ownership_ops (HandOff t c) = {HandoffToUser t c}"
| "ownership_ops (Resume t c) = {ResumeAgent t c}"
| "ownership_ops (ClearSessionOf t) = {ReleaseSession t}"
| "ownership_ops (ClearConversationOf c) = {ReleaseConversation c}"
| "ownership_ops _ = {}"

lemma evaluate_for_ownership: "ad_ownership (fst (evaluate_for regex capability subject c d)) = ad_ownership d"
  by (simp add: evaluate_for_def split: prod.splits)

lemma fail_ownership [simp]: "ad_ownership (fst (fail_call failure key code message d)) = ad_ownership d"
  by (simp add: fail_call_def)

lemma prepare_mutation_ownership:
  "ad_ownership (fst (fst (prepare_mutation regex failure now key c kind capability subject payload denied d b))) = ad_ownership d"
proof -
  obtain d1 m where e: "evaluate_for regex capability subject c d = (d1, m)" by fastforce
  then have "ad_ownership d1 = ad_ownership d" using evaluate_for_ownership [of regex capability subject c d] by simp
  then show ?thesis unfolding prepare_mutation_def e prod.case by (simp add: Let_def split: prod.splits)
qed

lemma prepare_terminal_ownership:
  "ad_ownership (fst (fst (prepare_terminal regex failure now key c kind args d b)))
    \<in> {ad_ownership d, fst (wo_claim (ac_target c) (ac_conversationId c) (ad_ownership d))}"
proof -
  define capability where "capability = (if kind = RunCommand then TerminalCommand else if kind = WriteToPty then PtyInput else TerminalInterrupt)"
  define subject where "subject = (if kind = RunCommand then arg_command args else if kind = WriteToPty then arg_ptyData args else arg_commandId args)"
  obtain d1 m where e: "evaluate_for regex capability subject c d = (d1, m)" by fastforce
  then have d1: "ad_ownership d1 = ad_ownership d" using evaluate_for_ownership [of regex capability subject c d] by simp
  obtain b1 dec where b: "budget_authorize True [] 0 now b = (b1, dec)" by fastforce
  obtain w res where w: "wo_claim (ac_target c) (ac_conversationId c) (ad_ownership d1) = (w, res)" by fastforce
  then have claim: "w = fst (wo_claim (ac_target c) (ac_conversationId c) (ad_ownership d))" using d1 by simp
  define disposition where "disposition = pd_disposition (decide (request_default\<lparr>pr_mode := ac_permissionMode c, pr_write := True,
     pr_schemaValid := arg_schemaValid args, pr_scopeValid := arg_schemaValid args,
     pr_explicitDeny := (map_option rm_disposition m = Some PermitDeny),
     pr_explicitAsk := (map_option rm_disposition m = Some PermitAsk),
     pr_explicitAllow := (map_option rm_disposition m = Some PermitAllow),
     pr_highRisk := highRisk (if kind = RunCommand then classifyCommand (arg_command args) else NoRisk)\<rparr>))"
  show ?thesis
    unfolding prepare_terminal_def Let_def capability_def [symmetric] subject_def [symmetric] e prod.case b w
      disposition_def [symmetric]
    using d1 claim by simp
qed

lemma prepare_ownership:
  "ad_ownership (fst (fst (prepare arguments regex failure now call c d b)))
    \<in> {ad_ownership d, fst (wo_claim (ac_target c) (ac_conversationId c) (ad_ownership d))}"
proof -
  have admitted: "ad_ownership (fst (fst (prepare_admitted regex failure now key c kind args d' b)))
      \<in> {ad_ownership d', fst (wo_claim (ac_target c) (ac_conversationId c) (ad_ownership d'))}" for key kind args d'
    unfolding prepare_admitted_def using prepare_terminal_ownership [of regex failure now key c kind args d' b]
    by (simp add: prepare_mutation_ownership)
  show ?thesis
  proof (cases "call_kind call")
    case None
    then show ?thesis by (simp add: prepare_def)
  next
    case (Some kind)
    define request where "request = \<lparr>dr_key = \<lparr>dk_conversationId = ac_conversationId c, dk_turnId = ac_turnId c, dk_toolCallId = tc_id call\<rparr>,
       dr_toolName = tc_name call, dr_canonicalArguments = arg_canonicalJson (arguments call),
       dr_sessionId = target_sessionId (ac_target c), dr_sessionGeneration = target_sessionGeneration (ac_target c),
       dr_sideEffecting = True\<rparr>"
    obtain l out where l: "ledger_begin request (ad_ledger d) = (l, out)" by fastforce
    note unfolded = prepare_def [of arguments regex failure now call c d b, unfolded Some option.case Let_def
        request_def [symmetric] l prod.case]
    show ?thesis
    proof (cases "\<exists>r. out_admission out = Accepted \<and> out_record out = Some r")
      case True
      then obtain r where "out_admission out = Accepted" "out_record out = Some r" by blast
      then have "prepare arguments regex failure now call c d b
          = prepare_admitted regex failure now (rec_key r) c kind (arguments call) (d\<lparr>ad_ledger := l\<rparr>) b"
        unfolding unfolded by simp
      then show ?thesis using admitted [of "rec_key r" kind "arguments call" "d\<lparr>ad_ledger := l\<rparr>"] by simp
    next
      case False
      then have "ad_ownership (fst (fst (prepare arguments regex failure now call c d b))) = ad_ownership d"
        unfolding unfolded by (cases "out_admission out"; cases "out_record out") simp_all
      then show ?thesis by simp
    qed
  qed
qed

lemma dispatcher_ownership:
  "\<exists>ops. ad_ownership (fst (dispatcher_step arguments regex failure d x)) = run_ops ownership_step (ad_ownership d) ops
    \<and> set ops \<subseteq> ownership_ops x"
proof (cases x)
  case (Prepare call c now b)
  from prepare_ownership [of arguments regex failure now call c d b] show ?thesis
  proof (elim insertE emptyE)
    assume "ad_ownership (fst (fst (prepare arguments regex failure now call c d b))) = ad_ownership d"
    then show ?thesis using Prepare by (intro exI [of _ "[]"]) (simp add: dispatcher_step_def)
  next
    assume "ad_ownership (fst (fst (prepare arguments regex failure now call c d b))) = fst (wo_claim (ac_target c) (ac_conversationId c) (ad_ownership d))"
    then show ?thesis using Prepare by (intro exI [of _ "[Claim (ac_target c) (ac_conversationId c)]"]) (simp add: dispatcher_step_def)
  qed
next
  case (AskPermission capability subject c h)
  obtain d1 m where e: "evaluate_for regex capability subject c d = (d1, m)" by fastforce
  then have "ad_ownership d1 = ad_ownership d" using evaluate_for_ownership [of regex capability subject c d] by simp
  then show ?thesis using AskPermission e by (intro exI [of _ "[]"]) (simp add: dispatcher_step_def permissionDecision_def)
next
  case (HandOff t c)
  then show ?thesis by (intro exI [of _ "[HandoffToUser t c]"])
    (simp add: dispatcher_step_def handoffToUser_def with_ownership_def split: prod.splits)
next
  case (Resume t c)
  then show ?thesis by (intro exI [of _ "[ResumeAgent t c]"])
    (simp add: dispatcher_step_def resumeAgent_def with_ownership_def split: prod.splits)
next
  case (ClearSessionOf t)
  then show ?thesis by (intro exI [of _ "[ReleaseSession t]"]) (simp add: dispatcher_step_def dispatcher_clearSession_def)
next
  case (ClearConversationOf c)
  then show ?thesis by (intro exI [of _ "[ReleaseConversation c]"]) (simp add: dispatcher_step_def dispatcher_clearConversation_def)
qed (intro exI [of _ "[]"], simp add: dispatcher_step_def approve_def deny_def complete_action_def with_ledger_def
      replacePermissionRules_def addPermissionRule_def removePermissionRule_def with_rules_def split: prod.splits)+

lemma dispatcher_run_ownership:
  "\<exists>xs. ad_ownership (run_ops (dispatcher_step arguments regex failure) d ops) = run_ops ownership_step (ad_ownership d) xs
    \<and> set xs \<subseteq> (\<Union>x \<in> set ops. ownership_ops x)"
proof (induction ops arbitrary: d)
  case Nil
  show ?case by (intro exI [of _ "[]"]) simp
next
  case (Cons x ops)
  obtain xs where xs: "ad_ownership (fst (dispatcher_step arguments regex failure d x)) = run_ops ownership_step (ad_ownership d) xs"
    "set xs \<subseteq> ownership_ops x" using dispatcher_ownership by blast
  obtain ys where "ad_ownership (run_ops (dispatcher_step arguments regex failure) (fst (dispatcher_step arguments regex failure d x)) ops)
      = run_ops ownership_step (run_ops ownership_step (ad_ownership d) xs) ys" "set ys \<subseteq> (\<Union>x \<in> set ops. ownership_ops x)"
    using Cons.IH [of "fst (dispatcher_step arguments regex failure d x)"] xs(1) by auto
  then show ?case using xs(2) by (intro exI [of _ "xs @ ys"]) (auto simp: run_ops_append)
qed

text \<open>Once the user has taken a session from a conversation, no sequence of operations on the dispatcher plans an
  action on that terminal, for any conversation and in any permission mode, until the agent of that
  conversation is resumed or the session or the conversation is cleared: every such call is
  answered with a failure.\<close>

theorem user_control_blocks_actions:
  assumes "held_by t (wo_userControl (ad_ownership d)) = Some u"
    and "set ops \<inter> {Resume t u, ClearSessionOf t, ClearConversationOf u} = {}"
    and "ac_target c = t" "call_kind call = Some kind" "terminal_kind kind"
  shows "ap_disposition (snd (fst (prepare arguments regex failure now call c (run_ops (dispatcher_step arguments regex failure) d ops) b))) = Respond"
proof (rule ccontr)
  let ?d = "run_ops (dispatcher_step arguments regex failure) d ops"
  assume planned: "ap_disposition (snd (fst (prepare arguments regex failure now call c ?d b))) \<noteq> Respond"
  obtain d' plan b' where p: "prepare arguments regex failure now call c ?d b = ((d', plan), b')" by (metis surj_pair)
  obtain xs where xs: "ad_ownership ?d = run_ops ownership_step (ad_ownership d) xs" "set xs \<subseteq> (\<Union>x \<in> set ops. ownership_ops x)"
    using dispatcher_run_ownership [of arguments regex failure d ops] by (elim exE conjE)
  have "ResumeAgent t u \<notin> ownership_ops x \<and> ReleaseConversation u \<notin> ownership_ops x \<and> ReleaseSession t \<notin> ownership_ops x"
    if "x \<in> set ops" for x
  proof -
    have "x \<noteq> Resume t u" "x \<noteq> ClearSessionOf t" "x \<noteq> ClearConversationOf u" using that assms(2) by blast+
    then show ?thesis by (cases x) auto
  qed
  then have "set xs \<inter> {ResumeAgent t u, ReleaseConversation u, ReleaseSession t} = {}" using xs(2) by fastforce
  from user_control_run [OF assms(1) this] have user: "held_by t (wo_userControl (ad_ownership ?d)) = Some u" using xs(1) by simp
  have "held_by t (wo_userControl (fst (ownership_step (ad_ownership ?d) (Claim t (ac_conversationId c))))) = Some u"
    by (rule user_control_step [OF user]) simp
  then have "held_by t (wo_userControl (ad_ownership d')) = Some u"
    using prepare_ownership [of arguments regex failure now call c ?d b] user assms(3) p by auto
  moreover have "held_by t (wo_userControl (ad_ownership d')) = None"
    using prepare_planned [OF p] planned p assms(3-5) by (auto simp: planned_ok_def)
  ultimately show False by simp
qed

definition sample_taken :: AiActionToolDispatcher where
  "sample_taken = fst (handoffToUser (ac_target dispatch_context) ''c'' dispatcher_new)"

lemma user_control_blocks_actions_witness:
  "ap_disposition (snd (fst (prepare sample_arguments (\<lambda>_. None) (\<lambda>code message. code) 0 sample_call dispatch_context
     (run_ops (dispatcher_step sample_arguments (\<lambda>_. None) (\<lambda>code message. code)) sample_taken [RemovePermissionRule ''r'']) (budget_new default_turn_limits 0)))) = Respond"
proof (rule user_control_blocks_actions [where kind = InterruptCommand, OF _ _ refl])
  show "held_by (ac_target dispatch_context) (wo_userControl (ad_ownership sample_taken)) = Some ''c''"
    by (simp add: sample_taken_def handoffToUser_def with_ownership_def wo_handoffToUser_def dispatcher_new_def ownership_new_def
      dispatch_context_def guard_validIdentifier_def held_by_def)
qed (simp_all add: call_kind_def sample_call_def terminal_kind_def)

end
