(* ===== verification/Remote_Path.thy ===== *)
theory Remote_Path
  imports Prelude
begin

text \<open>
  Remote paths of the SFTP client: the path functions of \<open>src/domain/sftp/SftpTypes\<close>.  The
  component loop of \<open>normalizeRemotePath\<close> is \<open>normalize_components\<close>; its argument is what is
  left of the path after \<open>offset\<close>.  \<open>canonical_path\<close> is the abstract specification: a slash
  and proper components.  Normalising yields canonical paths and fixes them, and
  \<open>parentRemotePath\<close> undoes \<open>joinRemotePath\<close>.
\<close>

datatype RemotePathError = Empty | NotAbsolute | ContainsNull | TraversesAboveRoot | InvalidName

datatype EntryType = RegularFile | Directory | SymbolicLink | Other

definition containsNull :: "string \<Rightarrow> bool" where
  "containsNull value \<longleftrightarrow> CHR 0x00 \<in> set value"

abbreviation slash :: char where
  "slash \<equiv> CHR ''/''"

text \<open>What one component does to the vector of components.\<close>

definition push_component :: "string list \<Rightarrow> string \<Rightarrow> RemotePathError + string list" where
  "push_component components component =
     (if component \<noteq> [] \<and> component \<noteq> ''.'' then
        (if component = ''..'' then
           (if components = [] then Inl TraversesAboveRoot else Inr (butlast components))
         else Inr (components @ [component]))
      else Inr components)"

function normalize_components :: "string \<Rightarrow> string list \<Rightarrow> RemotePathError + string list" where
  "normalize_components rest components =
     (case push_component components (takeWhile (\<lambda>c. c \<noteq> slash) rest) of
        Inl e \<Rightarrow> Inl e
      | Inr components' \<Rightarrow>
          (case dropWhile (\<lambda>c. c \<noteq> slash) rest of
             [] \<Rightarrow> Inr components'
           | _ # rest' \<Rightarrow> normalize_components rest' components'))"
  by pat_completeness auto
termination
proof (relation "measure (\<lambda>(rest, _). length rest)", goal_cases)
  case (2 rest components components' c rest')
  have "length (dropWhile (\<lambda>c. c \<noteq> slash) rest) \<le> length rest"
    by (rule length_dropWhile_le)
  with 2 show ?case by simp
qed simp

declare normalize_components.simps [simp del]

fun render_components :: "string list \<Rightarrow> string" where
  "render_components [] = []"
| "render_components [c] = c"
| "render_components (c # d # cs) = c @ slash # render_components (d # cs)"

definition normalizeRemotePath :: "string \<Rightarrow> RemotePathError + string" where
  "normalizeRemotePath path =
     (if path = [] then Inl Empty
      else if hd path \<noteq> slash then Inl NotAbsolute
      else if containsNull path then Inl ContainsNull
      else (case normalize_components (tl path) [] of
              Inl e \<Rightarrow> Inl e
            | Inr components \<Rightarrow> Inr (slash # render_components components)))"

definition validRemoteName :: "string \<Rightarrow> bool" where
  "validRemoteName name \<longleftrightarrow>
     name \<noteq> [] \<and> name \<noteq> ''.'' \<and> name \<noteq> ''..'' \<and> slash \<notin> set name \<and> \<not> containsNull name"

definition hiddenRemoteName :: "string \<Rightarrow> bool" where
  "hiddenRemoteName name \<longleftrightarrow> 1 < length name \<and> hd name = CHR ''.'' \<and> name \<noteq> ''..''"

definition joinRemotePath :: "string \<Rightarrow> string \<Rightarrow> RemotePathError + string" where
  "joinRemotePath directory name =
     (if \<not> validRemoteName name then Inl InvalidName
      else (case normalizeRemotePath directory of
              Inl e \<Rightarrow> Inl e
            | Inr joined \<Rightarrow> Inr ((if joined \<noteq> ''/'' then joined @ [slash] else joined) @ name)))"

text \<open>\<open>find_last_of\<close> and \<open>substr\<close>: the part of the path before its last slash.\<close>

definition before_last_slash :: "string \<Rightarrow> string" where
  "before_last_slash path = rev (tl (dropWhile (\<lambda>c. c \<noteq> slash) (rev path)))"

definition parentRemotePath :: "string \<Rightarrow> string" where
  "parentRemotePath normalizedPath =
     (case normalizeRemotePath normalizedPath of
        Inl _ \<Rightarrow> ''/''
      | Inr path \<Rightarrow>
          (if path = ''/'' then ''/''
           else if before_last_slash path = [] then ''/'' else before_last_slash path))"

record FileConflict =
  fc_taskId :: string
  fc_sourcePath :: string
  fc_destinationPath :: string
  fc_sourceType :: EntryType
  fc_destinationType :: EntryType
  fc_sourceSize :: u64
  fc_destinationSize :: u64
  fc_sourceModifiedUtcSeconds :: "int option"
  fc_destinationModifiedUtcSeconds :: "int option"

definition canReplaceConflict :: "FileConflict \<Rightarrow> bool" where
  "canReplaceConflict conflict =
     (if (fc_sourceType conflict = Directory) \<noteq> (fc_destinationType conflict = Directory)
      then False
      else fc_sourceType conflict \<noteq> SymbolicLink \<and> fc_destinationType conflict \<noteq> SymbolicLink)"

section \<open>Canonical paths\<close>

definition canonical_path :: "string \<Rightarrow> bool" where
  "canonical_path p \<longleftrightarrow>
     (\<exists>cs. p = slash # render_components cs \<and> (\<forall>c \<in> set cs. validRemoteName c))"

lemma normalize_unfold:
  "slash \<notin> set c \<Longrightarrow> normalize_components c comps = push_component comps c"
  "slash \<notin> set c \<Longrightarrow> normalize_components (c @ slash # rest) comps =
     (case push_component comps c of Inl e \<Rightarrow> Inl e | Inr comps' \<Rightarrow> normalize_components rest comps')"
proof -
  assume c: "slash \<notin> set c"
  then have t: "takeWhile (\<lambda>c. c \<noteq> slash) c = c" and d: "dropWhile (\<lambda>c. c \<noteq> slash) c = []"
    by (auto simp: takeWhile_eq_all_conv)
  show "normalize_components c comps = push_component comps c"
    by (subst normalize_components.simps) (simp add: t d split: sum.splits)
  have t': "takeWhile (\<lambda>c. c \<noteq> slash) (c @ slash # rest) = c"
    and d': "dropWhile (\<lambda>c. c \<noteq> slash) (c @ slash # rest) = slash # rest"
    using c by (auto simp: takeWhile_append2 dropWhile_append2 takeWhile_append dropWhile_append)
  show "normalize_components (c @ slash # rest) comps =
     (case push_component comps c of Inl e \<Rightarrow> Inl e | Inr comps' \<Rightarrow> normalize_components rest comps')"
    by (subst normalize_components.simps) (simp add: t' d' split: sum.splits)
qed

lemma push_valid: "validRemoteName c \<Longrightarrow> push_component comps c = Inr (comps @ [c])"
  by (simp add: push_component_def validRemoteName_def)

lemma normalize_render:
  assumes "\<forall>c \<in> set cs. validRemoteName c"
  shows "normalize_components (render_components cs) comps = Inr (comps @ cs)"
  using assms
proof (induction cs arbitrary: comps rule: render_components.induct)
  case 1
  then show ?case by (simp add: normalize_unfold push_component_def)
next
  case (2 c)
  then show ?case by (simp add: normalize_unfold push_valid validRemoteName_def)
next
  case (3 c d cs)
  then have "slash \<notin> set c" by (simp add: validRemoteName_def)
  then show ?case using 3 by (simp add: normalize_unfold push_valid)
qed

lemma set_render: "set (render_components cs) \<subseteq> insert slash (\<Union> (set ` set cs))"
  by (induction cs rule: render_components.induct) auto

lemma push_result_valid:
  assumes "push_component comps c = Inr comps'" and "\<forall>c \<in> set comps. validRemoteName c"
    and "slash \<notin> set c" and "\<not> containsNull c"
  shows "\<forall>c \<in> set comps'. validRemoteName c"
  using assms in_set_butlastD [of _ comps]
  by (auto simp: push_component_def validRemoteName_def split: if_splits)

lemma normalize_result_valid:
  assumes "normalize_components rest comps = Inr cs" and "\<forall>c \<in> set comps. validRemoteName c"
    and "\<not> containsNull rest"
  shows "\<forall>c \<in> set cs. validRemoteName c"
  using assms
proof (induction rest comps rule: normalize_components.induct)
  case (1 rest comps)
  let ?c = "takeWhile (\<lambda>c. c \<noteq> slash) rest"
  have c: "slash \<notin> set ?c" "\<not> containsNull ?c"
    using "1.prems"(3) by (auto simp: containsNull_def dest: set_takeWhileD)
  obtain comps' where p: "push_component comps ?c = Inr comps'"
    using "1.prems"(1) by (subst (asm) normalize_components.simps) (auto split: sum.splits)
  have v: "\<forall>c \<in> set comps'. validRemoteName c"
    using push_result_valid [OF p "1.prems"(2) c] .
  have eq: "(case dropWhile (\<lambda>c. c \<noteq> slash) rest of [] \<Rightarrow> Inr comps'
      | _ # rest' \<Rightarrow> normalize_components rest' comps') = Inr cs"
    using "1.prems"(1) p by (subst (asm) normalize_components.simps) simp
  show ?case
  proof (cases "dropWhile (\<lambda>c. c \<noteq> slash) rest")
    case Nil
    then show ?thesis using eq v by (simp only: list.case sum.inject)
  next
    case (Cons x rest')
    then have "set rest' \<subseteq> set rest"
      by (metis set_dropWhileD set_subset_Cons subset_code(1))
    then have "\<not> containsNull rest'" using "1.prems"(3) by (auto simp: containsNull_def)
    moreover have "normalize_components rest' comps' = Inr cs"
      using eq Cons by (simp only: list.case)
    ultimately show ?thesis using "1.IH" [OF p Cons] v by blast
  qed
qed

lemma canonical_normalize:
  assumes "canonical_path p"
  shows "normalizeRemotePath p = Inr p"
proof -
  from assms obtain cs where cs: "p = slash # render_components cs"
    "\<forall>c \<in> set cs. validRemoteName c" by (auto simp: canonical_path_def)
  then have "\<not> containsNull p"
    using set_render [of cs] by (auto simp: containsNull_def validRemoteName_def)
  then show ?thesis using cs normalize_render [of cs "[]"]
    by (simp add: normalizeRemotePath_def)
qed

lemma normalize_canonical:
  assumes "normalizeRemotePath p = Inr q"
  shows "canonical_path q"
proof -
  from assms obtain cs where cs: "normalize_components (tl p) [] = Inr cs"
    "q = slash # render_components cs" and n: "\<not> containsNull p"
    by (auto simp: normalizeRemotePath_def split: if_splits sum.splits)
  have "\<not> containsNull (tl p)" using n by (cases p) (auto simp: containsNull_def)
  with cs show ?thesis
    using normalize_result_valid [OF cs(1)] by (auto simp: canonical_path_def)
qed

lemma render_snoc:
  "cs \<noteq> [] \<Longrightarrow> render_components (cs @ [n]) = render_components cs @ slash # n"
  by (induction cs rule: render_components.induct) auto

lemma before_last_slash_append:
  "slash \<notin> set n \<Longrightarrow> before_last_slash (p @ slash # n) = p"
proof -
  assume "slash \<notin> set n"
  then have "dropWhile (\<lambda>c. c \<noteq> slash) (rev n @ slash # rev p) = slash # rev p"
    by (subst dropWhile_append2) auto
  then show ?thesis by (simp add: before_last_slash_def)
qed

lemma render_valid_nonempty:
  "cs \<noteq> [] \<Longrightarrow> \<forall>c \<in> set cs. validRemoteName c \<Longrightarrow> render_components cs \<noteq> []"
  by (induction cs rule: render_components.induct) (auto simp: validRemoteName_def)

lemma join_components:
  assumes "joinRemotePath d n = Inr j"
  obtains cs where "normalizeRemotePath d = Inr (slash # render_components cs)"
    and "\<forall>c \<in> set (cs @ [n]). validRemoteName c"
    and "j = slash # render_components (cs @ [n])"
proof -
  from assms obtain p where p: "validRemoteName n" "normalizeRemotePath d = Inr p"
    "j = (if p \<noteq> ''/'' then p @ [slash] else p) @ n"
    by (auto simp: joinRemotePath_def split: if_splits sum.splits)
  obtain cs where cs: "p = slash # render_components cs" "\<forall>c \<in> set cs. validRemoteName c"
    using normalize_canonical [OF p(2)] by (auto simp: canonical_path_def)
  have "j = slash # render_components (cs @ [n])"
    using p(3) cs render_valid_nonempty [of cs] by (cases "cs = []") (auto simp: render_snoc)
  with that p cs show thesis by auto
qed

section \<open>Properties\<close>

text \<open>
  A normalised path is canonical (absolute, no empty, \<open>.\<close> or \<open>..\<close> component, no NUL)
  and normalising it again changes nothing.
\<close>

theorem normalizeRemotePath_canonical_idempotent:
  assumes "normalizeRemotePath path = Inr normalized"
  shows "canonical_path normalized \<and> normalizeRemotePath normalized = Inr normalized"
  using normalize_canonical [OF assms] canonical_normalize by blast

theorem normalizeRemotePath_canonical_idempotent_witness:
  "canonical_path ''/a/c'' \<and> normalizeRemotePath ''/a/c'' = Inr ''/a/c''"
proof -
  have "normalizeRemotePath ''//a/./b/../c/'' = Inr ''/a/c''" by code_simp
  then show ?thesis by (rule normalizeRemotePath_canonical_idempotent)
qed

text \<open>
  Joining a valid name to a directory gives a canonical path whose parent is the normalised
  directory: \<open>parentRemotePath\<close> inverts \<open>joinRemotePath\<close>, and a joined name can never climb
  out of its directory.
\<close>

theorem parentRemotePath_joinRemotePath:
  assumes "joinRemotePath directory name = Inr joined"
  shows "canonical_path joined \<and> normalizeRemotePath directory = Inr (parentRemotePath joined)"
proof -
  from assms obtain cs where cs: "normalizeRemotePath directory = Inr (slash # render_components cs)"
    "\<forall>c \<in> set (cs @ [name]). validRemoteName c" "joined = slash # render_components (cs @ [name])"
    by (rule join_components)
  have can: "canonical_path joined" unfolding canonical_path_def using cs(2,3) by blast
  have n: "slash \<notin> set name" "name \<noteq> []" using cs(2) by (auto simp: validRemoteName_def)
  have j: "joined = (if cs = [] then [] else slash # render_components cs) @ slash # name"
    using cs(3) by (auto simp: render_snoc)
  have "joined \<noteq> ''/''" using j n by auto
  moreover have "before_last_slash joined = (if cs = [] then [] else slash # render_components cs)"
    unfolding j by (rule before_last_slash_append [OF n(1)])
  ultimately have "parentRemotePath joined = slash # render_components cs"
    by (simp add: parentRemotePath_def canonical_normalize [OF can])
  with can cs(1) show ?thesis by simp
qed

theorem parentRemotePath_joinRemotePath_witness:
  "canonical_path ''/srv/logs/a.txt''
    \<and> normalizeRemotePath ''/srv//logs/'' = Inr (parentRemotePath ''/srv/logs/a.txt'')"
proof -
  have "joinRemotePath ''/srv//logs/'' ''a.txt'' = Inr ''/srv/logs/a.txt''" by code_simp
  then show ?thesis by (rule parentRemotePath_joinRemotePath)
qed

end
