(* ===== verification/Transfer_Queue.thy ===== *)
theory Transfer_Queue
  imports Remote_Path
begin

text \<open>
  The transfer queue of the SFTP client: \<open>src/domain/sftp/TransferQueue\<close> and the task part of
  \<open>SftpTypes\<close>.  The queue is a vector of tasks and a concurrency limit.  \<open>tq_with\<close> is the
  pattern "find the task, run the checks of the method, write the task back" that the methods
  share; the body of each method returns the error of its first failing check or the task it
  leaves.  \<open>tq_inv\<close> is the invariant of the queue: ids are unique, every task is valid and the
  tasks that hold a worker never exceed the limit.
\<close>

datatype TransferDirection = Upload | Download

datatype TransferStatus =
    Queued
  | Running
  | Pausing
  | Paused
  | Cancelling
  | NeedsAttention
  | Completed
  | Failed
  | Cancelled

record TransferTask =
  tt_id :: string
  tt_endpointId :: string
  tt_displayName :: string
  tt_sourcePath :: string
  tt_destinationPath :: string
  tt_filenameEncoding :: string
  tt_direction :: TransferDirection
  tt_status :: TransferStatus
  tt_totalBytes :: u64
  tt_transferredBytes :: u64
  tt_bytesPerSecond :: u64
  tt_startedUtcMs :: "int option"
  tt_finishedUtcMs :: "int option"
  tt_sourceModifiedUtcSeconds :: "int option"
  tt_errorCode :: string
  tt_retryable :: bool

definition validTransferTask :: "TransferTask \<Rightarrow> bool" where
  "validTransferTask task =
     (if tt_id task = [] \<or> tt_endpointId task = [] \<or> tt_displayName task = []
         \<or> tt_sourcePath task = [] \<or> tt_destinationPath task = [] then False
      else if tt_filenameEncoding task \<noteq> ''utf-8'' \<and> tt_filenameEncoding task \<noteq> ''gb18030''
      then False
      else if containsNull (tt_id task) \<or> containsNull (tt_endpointId task)
         \<or> containsNull (tt_displayName task) \<or> containsNull (tt_sourcePath task)
         \<or> containsNull (tt_destinationPath task) \<or> containsNull (tt_errorCode task) then False
      else if tt_transferredBytes task > tt_totalBytes task \<and> tt_totalBytes task \<noteq> 0 then False
      else if tt_status task = Completed \<and> tt_totalBytes task \<noteq> 0
         \<and> tt_transferredBytes task \<noteq> tt_totalBytes task then False
      else True)"

fun canTransition :: "TransferStatus \<Rightarrow> TransferStatus \<Rightarrow> bool" where
  "canTransition from to =
     (if from = to then True
      else (case from of
        Queued \<Rightarrow> to = Running \<or> to = Paused \<or> to = NeedsAttention \<or> to = Cancelled
      | Running \<Rightarrow> to = Pausing \<or> to = Cancelling \<or> to = NeedsAttention \<or> to = Completed
          \<or> to = Failed \<or> to = Cancelled
      | Pausing \<Rightarrow> to = Paused \<or> to = Failed \<or> to = Cancelled
      | Paused \<Rightarrow> to = Queued \<or> to = Cancelled
      | Cancelling \<Rightarrow> to = Completed \<or> to = Failed \<or> to = Cancelled
      | NeedsAttention \<Rightarrow> to = Queued \<or> to = Cancelled
      | Failed \<Rightarrow> to = Queued
      | Completed \<Rightarrow> False
      | Cancelled \<Rightarrow> False))"

declare canTransition.simps [simp del]

lemma canTransition_refl [simp]: "canTransition s s"
  by (simp add: canTransition.simps)

section \<open>The queue\<close>

datatype TransferQueueError =
    InvalidTask
  | DuplicateTask
  | TaskNotFound
  | InvalidTransition
  | InvalidProgress

record TransferQueue =
  tq_concurrencyLimit :: nat
  tq_tasks :: "TransferTask list"

type_synonym tq_result = "TransferQueue \<times> (TransferQueueError + unit)"

text \<open>The constructor throws on a limit of zero.\<close>

definition tq_new :: "nat \<Rightarrow> TransferQueue option" where
  "tq_new concurrencyLimit =
     (if concurrencyLimit = 0 then None
      else Some \<lparr>tq_concurrencyLimit = concurrencyLimit, tq_tasks = []\<rparr>)"

definition holds_worker :: "TransferTask \<Rightarrow> bool" where
  "holds_worker task \<longleftrightarrow>
     tt_status task = Running \<or> tt_status task = Pausing \<or> tt_status task = Cancelling"

definition tq_runningCount :: "TransferQueue \<Rightarrow> nat" where
  "tq_runningCount q = length (filter holds_worker (tq_tasks q))"

definition tq_find :: "string \<Rightarrow> TransferQueue \<Rightarrow> TransferTask option" where
  "tq_find taskId q = find (\<lambda>t. tt_id t = taskId) (tq_tasks q)"

definition tq_enqueue :: "TransferTask \<Rightarrow> TransferQueue \<Rightarrow> tq_result" where
  "tq_enqueue task q =
     (if \<not> validTransferTask task \<or> tt_status task \<noteq> Queued then (q, Inl InvalidTask)
      else if tq_find (tt_id task) q \<noteq> None then (q, Inl DuplicateTask)
      else (q\<lparr>tq_tasks := tq_tasks q @ [task]\<rparr>, Inr ()))"

definition tq_restoreInterrupted :: "TransferTask \<Rightarrow> TransferQueue \<Rightarrow> tq_result" where
  "tq_restoreInterrupted task q =
     (if \<not> validTransferTask task
         \<or> (tt_status task \<noteq> Paused
            \<and> (tt_status task \<noteq> Failed \<or> \<not> tt_retryable task \<or> tt_errorCode task \<noteq> ''interrupted''))
      then (q, Inl InvalidTask)
      else if tq_find (tt_id task) q \<noteq> None then (q, Inl DuplicateTask)
      else (q\<lparr>tq_tasks := tq_tasks q @ [task]\<rparr>, Inr ()))"

definition start_task :: "int \<Rightarrow> TransferTask \<Rightarrow> TransferTask" where
  "start_task startedUtcMs task =
     task\<lparr>tt_status := Running, tt_startedUtcMs := Some startedUtcMs,
          tt_finishedUtcMs := None, tt_errorCode := []\<rparr>"

definition tq_takeNext :: "int \<Rightarrow> TransferQueue \<Rightarrow> TransferQueue \<times> TransferTask option" where
  "tq_takeNext startedUtcMs q =
     (if tq_runningCount q \<ge> tq_concurrencyLimit q then (q, None)
      else (case find (\<lambda>t. tt_status t = Queued) (tq_tasks q) of
              None \<Rightarrow> (q, None)
            | Some task \<Rightarrow>
                (q\<lparr>tq_tasks := update_first (\<lambda>t. tt_status t = Queued) (start_task startedUtcMs)
                     (tq_tasks q)\<rparr>, Some (start_task startedUtcMs task))))"

definition tq_with ::
  "string \<Rightarrow> (TransferTask \<Rightarrow> TransferQueueError + TransferTask) \<Rightarrow> TransferQueue \<Rightarrow> tq_result" where
  "tq_with taskId body q =
     (case tq_find taskId q of
        None \<Rightarrow> (q, Inl TaskNotFound)
      | Some task \<Rightarrow>
          (case body task of
             Inl e \<Rightarrow> (q, Inl e)
           | Inr task' \<Rightarrow>
               (q\<lparr>tq_tasks := update_first (\<lambda>t. tt_id t = taskId) (\<lambda>_. task') (tq_tasks q)\<rparr>, Inr ())))"

definition tq_transition :: "TransferStatus \<Rightarrow> TransferTask \<Rightarrow> TransferQueueError + TransferTask" where
  "tq_transition status task =
     (if \<not> canTransition (tt_status task) status then Inl InvalidTransition
      else Inr (task\<lparr>tt_status := status\<rparr>))"

definition updateProgress_body ::
  "u64 \<Rightarrow> u64 \<Rightarrow> u64 \<Rightarrow> TransferTask \<Rightarrow> TransferQueueError + TransferTask" where
  "updateProgress_body transferredBytes totalBytes bytesPerSecond task =
     (if tt_status task \<noteq> Running then Inl InvalidTransition
      else if totalBytes \<noteq> 0 \<and> transferredBytes > totalBytes then Inl InvalidProgress
      else if tt_totalBytes task \<noteq> 0 \<and> totalBytes \<noteq> 0 \<and> tt_totalBytes task \<noteq> totalBytes
      then Inl InvalidProgress
      else if transferredBytes < tt_transferredBytes task then Inl InvalidProgress
      else Inr (task\<lparr>tt_totalBytes := totalBytes, tt_transferredBytes := transferredBytes,
                     tt_bytesPerSecond := bytesPerSecond\<rparr>))"

definition complete_body :: "int \<Rightarrow> TransferTask \<Rightarrow> TransferQueueError + TransferTask" where
  "complete_body finishedUtcMs task =
     (case tq_transition Completed task of
        Inl e \<Rightarrow> Inl e
      | Inr t \<Rightarrow>
          Inr ((if tt_totalBytes t \<noteq> 0 then t\<lparr>tt_transferredBytes := tt_totalBytes t\<rparr> else t)
               \<lparr>tt_bytesPerSecond := 0, tt_finishedUtcMs := Some finishedUtcMs\<rparr>))"

definition fail_body ::
  "string \<Rightarrow> bool \<Rightarrow> int \<Rightarrow> TransferTask \<Rightarrow> TransferQueueError + TransferTask" where
  "fail_body errorCode retryable finishedUtcMs task =
     (if errorCode = [] \<or> containsNull errorCode then Inl InvalidTask
      else (case tq_transition Failed task of
              Inl e \<Rightarrow> Inl e
            | Inr t \<Rightarrow> Inr (t\<lparr>tt_errorCode := errorCode, tt_retryable := retryable,
                             tt_bytesPerSecond := 0, tt_finishedUtcMs := Some finishedUtcMs\<rparr>)))"

definition needsAttention_body :: "string \<Rightarrow> TransferTask \<Rightarrow> TransferQueueError + TransferTask" where
  "needsAttention_body reasonCode task =
     (if reasonCode = [] \<or> containsNull reasonCode then Inl InvalidTask
      else (case tq_transition NeedsAttention task of
              Inl e \<Rightarrow> Inl e
            | Inr t \<Rightarrow> Inr (t\<lparr>tt_errorCode := reasonCode, tt_bytesPerSecond := 0\<rparr>)))"

definition cancel_body :: "int \<Rightarrow> TransferTask \<Rightarrow> TransferQueueError + TransferTask" where
  "cancel_body finishedUtcMs task =
     (let destination = (if tt_status task = Running then Cancelling else Cancelled)
      in case tq_transition destination task of
           Inl e \<Rightarrow> Inl e
         | Inr t \<Rightarrow>
             Inr (if destination = Cancelled
                  then t\<lparr>tt_bytesPerSecond := 0, tt_finishedUtcMs := Some finishedUtcMs\<rparr>
                  else t\<lparr>tt_bytesPerSecond := 0\<rparr>))"

definition pause_body :: "TransferTask \<Rightarrow> TransferQueueError + TransferTask" where
  "pause_body task =
     (let destination = (if tt_status task = Running then Pausing else Paused)
      in case tq_transition destination task of
           Inl e \<Rightarrow> Inl e
         | Inr t \<Rightarrow> Inr (t\<lparr>tt_bytesPerSecond := 0\<rparr>))"

definition markPaused_body :: "u64 \<Rightarrow> TransferTask \<Rightarrow> TransferQueueError + TransferTask" where
  "markPaused_body transferredBytes task =
     (if tt_totalBytes task \<noteq> 0 \<and> transferredBytes > tt_totalBytes task then Inl InvalidProgress
      else (case tq_transition Paused task of
              Inl e \<Rightarrow> Inl e
            | Inr t \<Rightarrow> Inr (t\<lparr>tt_transferredBytes := transferredBytes, tt_bytesPerSecond := 0,
                             tt_finishedUtcMs := None\<rparr>)))"

definition resume_body :: "TransferTask \<Rightarrow> TransferQueueError + TransferTask" where
  "resume_body task =
     (case tq_transition Queued task of
        Inl e \<Rightarrow> Inl e
      | Inr t \<Rightarrow> Inr (t\<lparr>tt_bytesPerSecond := 0, tt_startedUtcMs := None,
                       tt_finishedUtcMs := None, tt_errorCode := []\<rparr>))"

definition retry_body :: "TransferTask \<Rightarrow> TransferQueueError + TransferTask" where
  "retry_body task =
     (if \<not> tt_retryable task then Inl InvalidTransition
      else (case tq_transition Queued task of
              Inl e \<Rightarrow> Inl e
            | Inr t \<Rightarrow>
                Inr ((if tt_errorCode t = ''invalid-task'' then t\<lparr>tt_transferredBytes := 0\<rparr> else t)
                     \<lparr>tt_bytesPerSecond := 0, tt_startedUtcMs := None,
                      tt_finishedUtcMs := None, tt_errorCode := []\<rparr>)))"

definition is_finished :: "TransferTask \<Rightarrow> bool" where
  "is_finished task \<longleftrightarrow>
     tt_status task = Completed \<or> tt_status task = Failed \<or> tt_status task = Cancelled"

definition tq_dismiss :: "string \<Rightarrow> TransferQueue \<Rightarrow> tq_result" where
  "tq_dismiss taskId q =
     (case tq_find taskId q of
        None \<Rightarrow> (q, Inl TaskNotFound)
      | Some task \<Rightarrow>
          (if tt_status task \<noteq> Completed \<and> tt_status task \<noteq> Failed \<and> tt_status task \<noteq> Cancelled
           then (q, Inl InvalidTransition)
           else (q\<lparr>tq_tasks := erase_first (\<lambda>t. tt_id t = taskId) (tq_tasks q)\<rparr>, Inr ())))"

definition tq_dismissFinished :: "TransferQueue \<Rightarrow> TransferQueue \<times> nat" where
  "tq_dismissFinished q =
     (q\<lparr>tq_tasks := filter (\<lambda>t. \<not> is_finished t) (tq_tasks q)\<rparr>,
      length (filter is_finished (tq_tasks q)))"

section \<open>The queue driven by its owner\<close>

datatype TqOp =
    Enqueue TransferTask
  | RestoreInterrupted TransferTask
  | TakeNext int
  | UpdateProgress string u64 u64 u64
  | Complete string int
  | Fail string string bool int
  | NeedAttention string string
  | Cancel string int
  | Pause string
  | MarkPaused string u64
  | Resume string
  | Retry string
  | Dismiss string
  | DismissFinished

datatype TqValue = Done | Taken "TransferTask option" | Dismissed nat

definition unit_reply :: "tq_result \<Rightarrow> TransferQueue \<times> (TransferQueueError + TqValue)" where
  "unit_reply r = (fst r, map_sum id (\<lambda>_. Done) (snd r))"

fun tq_step :: "TransferQueue \<Rightarrow> TqOp \<Rightarrow> TransferQueue \<times> (TransferQueueError + TqValue)" where
  "tq_step q (Enqueue t) = unit_reply (tq_enqueue t q)"
| "tq_step q (RestoreInterrupted t) = unit_reply (tq_restoreInterrupted t q)"
| "tq_step q (TakeNext now) = apsnd (\<lambda>t. Inr (Taken t)) (tq_takeNext now q)"
| "tq_step q (UpdateProgress i n m r) = unit_reply (tq_with i (updateProgress_body n m r) q)"
| "tq_step q (Complete i now) = unit_reply (tq_with i (complete_body now) q)"
| "tq_step q (Fail i e r now) = unit_reply (tq_with i (fail_body e r now) q)"
| "tq_step q (NeedAttention i e) = unit_reply (tq_with i (needsAttention_body e) q)"
| "tq_step q (Cancel i now) = unit_reply (tq_with i (cancel_body now) q)"
| "tq_step q (Pause i) = unit_reply (tq_with i pause_body q)"
| "tq_step q (MarkPaused i n) = unit_reply (tq_with i (markPaused_body n) q)"
| "tq_step q (Resume i) = unit_reply (tq_with i resume_body q)"
| "tq_step q (Retry i) = unit_reply (tq_with i retry_body q)"
| "tq_step q (Dismiss i) = unit_reply (tq_dismiss i q)"
| "tq_step q DismissFinished = apsnd (\<lambda>n. Inr (Dismissed n)) (tq_dismissFinished q)"

definition tq_inv :: "TransferQueue \<Rightarrow> bool" where
  "tq_inv q \<longleftrightarrow> distinct (map tt_id (tq_tasks q)) \<and> (\<forall>t \<in> set (tq_tasks q). validTransferTask t)
     \<and> tq_runningCount q \<le> tq_concurrencyLimit q"

text \<open>
  What the body of a method may do to a task: keep its id, keep it valid, and give it a worker
  only if it had one.
\<close>

definition body_ok :: "(TransferTask \<Rightarrow> TransferQueueError + TransferTask) \<Rightarrow> bool" where
  "body_ok body \<longleftrightarrow> (\<forall>t t'. body t = Inr t' \<longrightarrow> validTransferTask t \<longrightarrow>
     tt_id t' = tt_id t \<and> validTransferTask t' \<and> (holds_worker t' \<longrightarrow> holds_worker t))"

lemmas body_defs = updateProgress_body_def complete_body_def fail_body_def needsAttention_body_def
  cancel_body_def pause_body_def markPaused_body_def resume_body_def retry_body_def
  tq_transition_def

lemma bodies_ok [intro!, simp]:
  "body_ok (updateProgress_body n m r)" "body_ok (complete_body now)"
  "body_ok (fail_body e retryable now)" "body_ok (needsAttention_body e)"
  "body_ok (cancel_body now)" "body_ok pause_body" "body_ok (markPaused_body n)"
  "body_ok resume_body" "body_ok retry_body"
  by (auto simp: body_ok_def body_defs holds_worker_def validTransferTask_def containsNull_def
        Let_def split: if_splits)

lemma tq_find_in: "tq_find i q = Some t \<Longrightarrow> t \<in> set (tq_tasks q) \<and> tt_id t = i"
  unfolding tq_find_def by (rule find_Some_in)

lemma tq_with_cases:
  "fst (tq_with i body q) = q
   \<or> (\<exists>t t'. tq_find i q = Some t \<and> body t = Inr t' \<and> fst (tq_with i body q)
        = q\<lparr>tq_tasks := update_first (\<lambda>t. tt_id t = i) (\<lambda>_. t') (tq_tasks q)\<rparr>)"
  by (auto simp: tq_with_def split: option.splits sum.splits)

lemma tq_with_inv:
  assumes q: "tq_inv q" and b: "body_ok body"
  shows "tq_inv (fst (tq_with i body q))"
proof (cases "tq_find i q")
  case None
  then show ?thesis using q by (simp add: tq_with_def)
next
  case (Some t)
  show ?thesis
  proof (cases "body t")
    case (Inl e)
    then show ?thesis using q Some by (simp add: tq_with_def)
  next
    case (Inr t')
    let ?ts = "update_first (\<lambda>t. tt_id t = i) (\<lambda>_. t') (tq_tasks q)"
    have t: "t \<in> set (tq_tasks q)" "tt_id t = i" using tq_find_in [OF Some] by auto
    then have ok: "tt_id t' = i" "validTransferTask t'" "holds_worker t' \<longrightarrow> holds_worker t"
      using q b Inr by (auto simp: body_ok_def tq_inv_def)
    have "map tt_id ?ts = map tt_id (tq_tasks q)"
      using ok by (intro map_key_update_first) auto
    moreover have "\<forall>t \<in> set ?ts. validTransferTask t"
      using q ok by (intro update_first_all) (auto simp: tq_inv_def)
    moreover have "length (filter holds_worker ?ts) \<le> tq_runningCount q"
      using count_update_first [of "\<lambda>t. tt_id t = i" "tq_tasks q" t holds_worker "\<lambda>_. t'"] ok Some
      by (auto simp: tq_runningCount_def tq_find_def split: if_splits)
    ultimately show ?thesis using q Some Inr
      by (auto simp: tq_with_def tq_inv_def tq_runningCount_def)
  qed
qed

lemma start_task_valid: "validTransferTask t \<Longrightarrow> validTransferTask (start_task now t)"
  by (auto simp: start_task_def validTransferTask_def containsNull_def split: if_splits)

lemma tq_takeNext_inv: "tq_inv q \<Longrightarrow> tq_inv (fst (tq_takeNext now q))"
proof -
  assume q: "tq_inv q"
  let ?P = "\<lambda>t. tt_status t = Queued"
  let ?ts = "update_first ?P (start_task now) (tq_tasks q)"
  have "map tt_id ?ts = map tt_id (tq_tasks q)"
    by (rule map_key_update_first) (simp add: start_task_def)
  moreover have "\<forall>t \<in> set ?ts. validTransferTask t"
    using q by (intro update_first_all) (auto simp: tq_inv_def start_task_valid)
  moreover have "length (filter holds_worker ?ts) \<le> Suc (tq_runningCount q)"
    if "find ?P (tq_tasks q) = Some t" for t
    using count_update_first [OF that, of holds_worker "start_task now"] find_Some_in [OF that]
    by (auto simp: tq_runningCount_def holds_worker_def start_task_def split: if_splits)
  ultimately show ?thesis using q
    by (fastforce simp: tq_takeNext_def tq_inv_def tq_runningCount_def split: option.splits)
qed

lemma filter_length_mono: "length (filter P (filter Q xs)) \<le> length (filter P xs)"
  by (induction xs) auto

lemma length_filter_erase_first:
  "length (filter P (erase_first Q xs)) \<le> length (filter P xs)"
  by (induction xs) auto

lemma tq_add_inv:
  "tq_inv q \<Longrightarrow> validTransferTask t \<Longrightarrow> \<not> holds_worker t \<Longrightarrow> tq_find (tt_id t) q = None \<Longrightarrow>
   tq_inv (q\<lparr>tq_tasks := tq_tasks q @ [t]\<rparr>)"
  by (auto simp: tq_inv_def tq_find_def tq_runningCount_def find_None_iff)

lemma tq_dismiss_inv: "tq_inv q \<Longrightarrow> tq_inv (fst (tq_dismiss i q))"
  using length_filter_erase_first [of holds_worker "\<lambda>t. tt_id t = i" "tq_tasks q"]
    distinct_erase_first [of tt_id "tq_tasks q"] erase_first_all [of "tq_tasks q"]
  by (auto simp: tq_dismiss_def tq_inv_def tq_runningCount_def split: option.splits)

lemma tq_dismissFinished_inv: "tq_inv q \<Longrightarrow> tq_inv (fst (tq_dismissFinished q))"
  using filter_length_mono [of holds_worker "\<lambda>t. \<not> is_finished t" "tq_tasks q"]
  by (auto simp: tq_dismissFinished_def tq_inv_def tq_runningCount_def distinct_map_filter)

lemma fst_unit_reply [simp]: "fst (unit_reply r) = fst r"
  by (simp add: unit_reply_def)

lemma unit_reply_failed [simp]: "isl (snd (unit_reply r)) = isl (snd r)"
  by (cases "snd r") (auto simp: unit_reply_def)

lemma tq_with_failed: "isl (snd (tq_with i body q)) \<Longrightarrow> fst (tq_with i body q) = q"
  by (auto simp: tq_with_def split: option.splits sum.splits)

interpretation tq_machine: atomic_machine tq_step tq_inv isl
proof unfold_locales
  fix q x assume q: "tq_inv q"
  show "tq_inv (fst (tq_step q x))"
    using q by (cases x)
      (auto simp: tq_enqueue_def tq_restoreInterrupted_def holds_worker_def
        intro!: tq_with_inv tq_add_inv tq_dismiss_inv tq_takeNext_inv tq_dismissFinished_inv)
next
  fix q x assume "tq_inv q" and "isl (snd (tq_step q x))"
  then show "fst (tq_step q x) = q"
    by (cases x) (auto simp: tq_enqueue_def tq_restoreInterrupted_def tq_dismiss_def tq_with_failed
        split: if_splits prod.splits option.splits)
qed

section \<open>How a task moves\<close>

definition body_moves :: "(TransferTask \<Rightarrow> TransferQueueError + TransferTask) \<Rightarrow> bool" where
  "body_moves body \<longleftrightarrow> (\<forall>t t'. body t = Inr t' \<longrightarrow>
     tt_id t' = tt_id t \<and> canTransition (tt_status t) (tt_status t'))"

lemma bodies_move [intro!, simp]:
  "body_moves (updateProgress_body n m r)" "body_moves (complete_body now)"
  "body_moves (fail_body e retryable now)" "body_moves (needsAttention_body e)"
  "body_moves (cancel_body now)" "body_moves pause_body" "body_moves (markPaused_body n)"
  "body_moves resume_body" "body_moves retry_body"
  by (auto simp: body_moves_def body_defs Let_def split: if_splits)

text \<open>Where the task \<open>i\<close> is after a step: moved along an edge, or dismissed when finished.\<close>

definition task_moves :: "string \<Rightarrow> TransferTask \<Rightarrow> TransferQueue \<Rightarrow> bool" where
  "task_moves i t q' \<longleftrightarrow>
     (case tq_find i q' of
        None \<Rightarrow> is_finished t
      | Some t' \<Rightarrow> canTransition (tt_status t) (tt_status t'))"

lemma task_unmoved: "tq_find i q = Some t \<Longrightarrow> task_moves i t q"
  by (simp add: task_moves_def)

lemma tq_with_moves:
  assumes "tq_find i q = Some t" and "body_moves body"
  shows "task_moves i t (fst (tq_with j body q))"
proof (cases "\<exists>u u'. tq_find j q = Some u \<and> body u = Inr u'")
  case False
  then have "fst (tq_with j body q) = q"
    by (auto simp: tq_with_def split: option.splits sum.splits)
  then show ?thesis using assms(1) by (simp add: task_unmoved)
next
  case True
  then obtain u u' where u: "tq_find j q = Some u" "body u = Inr u'" by blast
  then have m: "tt_id u' = j" "canTransition (tt_status u) (tt_status u')"
    using assms(2) tq_find_in [OF u(1)] by (auto simp: body_moves_def)
  let ?upd = "update_first (\<lambda>t. tt_id t = j) (\<lambda>_. u') (tq_tasks q)"
  have q': "tq_tasks (fst (tq_with j body q)) = ?upd" using u by (simp add: tq_with_def)
  show ?thesis
  proof (cases "i = j")
    case True
    have "find (\<lambda>t. tt_id t = j) ?upd = Some u'"
      using find_update_first_same [of tt_id j "\<lambda>_. u'" "tq_tasks q"] u m
      by (simp add: tq_find_def)
    then show ?thesis using True assms(1) u m q'
      by (simp add: task_moves_def tq_find_def)
  next
    case False
    have "find (\<lambda>t. tt_id t = i) ?upd = find (\<lambda>t. tt_id t = i) (tq_tasks q)"
      by (rule find_update_first_other) (use m False in auto)
    then show ?thesis using assms(1) q' by (simp add: task_moves_def tq_find_def)
  qed
qed

lemma tq_takeNext_moves:
  assumes "tq_find i q = Some t"
  shows "task_moves i t (fst (tq_takeNext now q))"
proof -
  let ?P = "\<lambda>t. tt_status t = Queued"
  have taken: "canTransition Queued Running" by (simp add: canTransition.simps)
  have "find (\<lambda>t. tt_id t = i) (update_first ?P (start_task now) ts) \<in> {Some t, Some (start_task now t)}
      \<and> (find (\<lambda>t. tt_id t = i) (update_first ?P (start_task now) ts) \<noteq> Some t \<longrightarrow> ?P t)"
    if "find (\<lambda>t. tt_id t = i) ts = Some t" for ts
    using that by (induction ts) (auto simp: start_task_def)
  then have "\<exists>t'. find (\<lambda>t. tt_id t = i) (update_first ?P (start_task now) ts) = Some t'
      \<and> canTransition (tt_status t) (tt_status t')"
    if "find (\<lambda>t. tt_id t = i) ts = Some t" for ts
    using that taken by (fastforce simp: start_task_def)
  from this [of "tq_tasks q"] show ?thesis
    using assms by (auto simp: tq_takeNext_def task_moves_def tq_find_def
        split: option.splits)
qed

lemma tq_add_moves: "tq_find i q = Some t \<Longrightarrow> task_moves i t (q\<lparr>tq_tasks := tq_tasks q @ ts\<rparr>)"
  by (simp add: task_moves_def tq_find_def find_append_keyed)

lemma tq_dismiss_moves:
  assumes "tq_inv q" and "tq_find i q = Some t"
  shows "task_moves i t (fst (tq_dismiss j q))"
proof (cases "i = j \<and> is_finished t")
  case True
  then show ?thesis
    using assms find_erase_first_same [of tt_id "tq_tasks q" j]
    by (auto simp: tq_dismiss_def task_moves_def tq_inv_def is_finished_def tq_find_def)
next
  case False
  show ?thesis
  proof (cases "tq_find j q")
    case None
    then show ?thesis using assms by (simp add: tq_dismiss_def task_unmoved)
  next
    case (Some u)
    then have "i = j \<Longrightarrow> u = t" using assms(2) by simp
    then show ?thesis
      using assms False Some tq_find_in [OF Some]
        find_erase_first_other [of tt_id "tq_tasks q" "\<lambda>t. tt_id t = j" u i t]
      by (cases "i = j")
        (auto simp: tq_dismiss_def task_moves_def tq_inv_def is_finished_def tq_find_def)
  qed
qed

lemma find_filter_distinct:
  assumes "distinct (map key xs)" and "find (\<lambda>x. key x = k) xs = Some x"
  shows "find (\<lambda>x. key x = k) (filter P xs) = (if P x then Some x else None)"
  using assms by (induction xs) (auto simp: find_None_iff image_iff split: if_splits)

lemma tq_dismissFinished_moves:
  "tq_inv q \<Longrightarrow> tq_find i q = Some t \<Longrightarrow> task_moves i t (fst (tq_dismissFinished q))"
  using find_filter_distinct [of tt_id "tq_tasks q" i t "\<lambda>t. \<not> is_finished t"]
  by (auto simp: tq_dismissFinished_def task_moves_def tq_inv_def tq_find_def)

lemma tq_step_moves:
  assumes "tq_inv q" and "tq_find i q = Some t"
  shows "task_moves i t (fst (tq_step q x))"
  using assms by (cases x)
    (auto simp: tq_enqueue_def tq_restoreInterrupted_def intro: tq_with_moves tq_add_moves
      tq_dismiss_moves task_unmoved tq_takeNext_moves tq_dismissFinished_moves)

text \<open>Only dismissal removes a task.\<close>

abbreviation task_ids :: "TransferQueue \<Rightarrow> string set" where
  "task_ids q \<equiv> tt_id ` set (tq_tasks q)"

lemma tq_find_ids: "(tq_find i q \<noteq> None) = (i \<in> task_ids q)"
  by (auto simp: tq_find_def find_None_iff)

lemma tq_with_ids:
  assumes "body_moves b"
  shows "task_ids (fst (tq_with j b q)) = task_ids q"
proof -
  have "map tt_id (tq_tasks (fst (tq_with j b q))) = map tt_id (tq_tasks q)"
    using tq_with_cases [of j b q]
  proof
    assume "\<exists>u u'. tq_find j q = Some u \<and> b u = Inr u' \<and> fst (tq_with j b q)
      = q\<lparr>tq_tasks := update_first (\<lambda>t. tt_id t = j) (\<lambda>_. u') (tq_tasks q)\<rparr>"
    then obtain u u' where u: "tq_find j q = Some u" "b u = Inr u'" "fst (tq_with j b q)
      = q\<lparr>tq_tasks := update_first (\<lambda>t. tt_id t = j) (\<lambda>_. u') (tq_tasks q)\<rparr>" by blast
    then have "tt_id u' = j" using assms tq_find_in [OF u(1)] by (auto simp: body_moves_def)
    then show ?thesis using u(3) by (simp add: map_key_update_first)
  qed simp
  then show ?thesis by (metis list.set_map)
qed

lemma tq_takeNext_ids: "task_ids (fst (tq_takeNext now q)) = task_ids q"
proof -
  have "map tt_id (tq_tasks (fst (tq_takeNext now q))) = map tt_id (tq_tasks q)"
    by (auto simp: tq_takeNext_def start_task_def split: option.splits intro!: map_key_update_first)
  then show ?thesis by (metis list.set_map)
qed

lemma erase_first_other_ids:
  "i \<in> tt_id ` set ts \<Longrightarrow> i \<noteq> j \<Longrightarrow> i \<in> tt_id ` set (erase_first (\<lambda>t. tt_id t = j) ts)"
  by (induction ts) auto

lemma tq_step_keeps:
  assumes "tq_find i q = Some t" and "x \<noteq> Dismiss i" and "x \<noteq> DismissFinished"
  shows "tq_find i (fst (tq_step q x)) \<noteq> None"
proof -
  have "i \<in> task_ids q" using assms(1) tq_find_ids [of i q] by simp
  then have "i \<in> task_ids (fst (tq_step q x))"
    using assms(2,3) tq_takeNext_ids [of _ q] erase_first_other_ids [of i "tq_tasks q"]
    by (cases x) (auto simp: tq_with_ids tq_enqueue_def tq_restoreInterrupted_def tq_dismiss_def
        split: option.splits)
  then show ?thesis by (rule tq_find_ids [THEN iffD2])
qed

lemma tq_with_limit [simp]: "tq_concurrencyLimit (fst (tq_with i b q)) = tq_concurrencyLimit q"
  by (auto simp: tq_with_def split: option.splits sum.splits)

lemma tq_step_limit [simp]: "tq_concurrencyLimit (fst (tq_step q x)) = tq_concurrencyLimit q"
  by (cases x) (auto simp: tq_enqueue_def tq_restoreInterrupted_def tq_dismiss_def tq_takeNext_def
      tq_dismissFinished_def split: option.splits prod.splits)

lemma tq_run_limit [simp]:
  "tq_concurrencyLimit (run_ops tq_step q xs) = tq_concurrencyLimit q"
  by (induction xs arbitrary: q) auto

lemma tq_new_inv: "tq_new n = Some q \<Longrightarrow> tq_inv q \<and> tq_concurrencyLimit q = n"
  by (auto simp: tq_new_def tq_inv_def tq_runningCount_def split: if_splits)

section \<open>Properties\<close>

definition sample_task :: "string \<Rightarrow> TransferTask" where
  "sample_task i =
     \<lparr>tt_id = i, tt_endpointId = ''host'', tt_displayName = ''a.iso'', tt_sourcePath = ''/a.iso'',
      tt_destinationPath = ''/tmp/a.iso'', tt_filenameEncoding = ''utf-8'', tt_direction = Download,
      tt_status = Queued, tt_totalBytes = 100, tt_transferredBytes = 0, tt_bytesPerSecond = 0,
      tt_startedUtcMs = None, tt_finishedUtcMs = None, tt_sourceModifiedUtcSeconds = None,
      tt_errorCode = [], tt_retryable = True\<rparr>"

definition sample_queue :: TransferQueue where
  "sample_queue = run_ops tq_step \<lparr>tq_concurrencyLimit = 2, tq_tasks = []\<rparr>
     [Enqueue (sample_task ''a''), Enqueue (sample_task ''b''), TakeNext 5]"

lemma sample_queue_eq:
  "sample_queue = \<lparr>tq_concurrencyLimit = 2,
     tq_tasks = [start_task 5 (sample_task ''a''), sample_task ''b'']\<rparr>"
  by (simp add: sample_queue_def sample_task_def start_task_def tq_enqueue_def tq_takeNext_def
      tq_find_def tq_runningCount_def holds_worker_def validTransferTask_def containsNull_def
      unit_reply_def)

lemma sample_queue_inv: "tq_inv sample_queue"
  unfolding sample_queue_def by (rule tq_machine.inv_run) (simp add: tq_inv_def tq_runningCount_def)

text \<open>
  C22. A queue made with a positive limit and driven by any sequence of its operations, restored
  tasks included, holds tasks with distinct ids that are all valid, and never more tasks with a
  worker (running, pausing or cancelling) than its limit.
\<close>

theorem tq_reachable_safe:
  assumes "tq_new limit = Some q0"
  shows "distinct (map tt_id (tq_tasks (run_ops tq_step q0 ops)))
    \<and> filter (\<lambda>t. \<not> validTransferTask t) (tq_tasks (run_ops tq_step q0 ops)) = []
    \<and> tq_runningCount (run_ops tq_step q0 ops) \<le> limit"
proof -
  have "tq_inv (run_ops tq_step q0 ops)"
    by (rule tq_machine.inv_run) (use tq_new_inv [OF assms] in simp)
  then show ?thesis using tq_new_inv [OF assms] by (auto simp: tq_inv_def filter_empty_conv)
qed

theorem tq_reachable_safe_witness:
  "tq_runningCount (run_ops tq_step \<lparr>tq_concurrencyLimit = 1, tq_tasks = []\<rparr>
     [Enqueue (sample_task ''a''), Enqueue (sample_task ''b''), TakeNext 1, TakeNext 2]) \<le> 1"
proof -
  have "tq_new 1 = Some \<lparr>tq_concurrencyLimit = 1, tq_tasks = []\<rparr>" by (simp add: tq_new_def)
  from tq_reachable_safe [OF this] show ?thesis by blast
qed

text \<open>
  \<open>takeNext\<close> is first-in first-out and work conserving: it hands out the first queued task,
  marked running, leaves every other task where it is and takes one more worker within the
  limit; it hands out nothing only when the limit is reached or nothing is queued.
\<close>

theorem tq_takeNext_fifo:
  "case tq_takeNext now q of
     (q', None) \<Rightarrow> q' = q \<and> (tq_concurrencyLimit q \<le> tq_runningCount q
                          \<or> filter (\<lambda>t. tt_status t = Queued) (tq_tasks q) = [])
   | (q', Some task) \<Rightarrow>
       (\<exists>before t after. tq_tasks q = before @ t # after \<and> tt_status t = Queued
          \<and> filter (\<lambda>t. tt_status t = Queued) before = [] \<and> task = start_task now t
          \<and> tq_tasks q' = before @ task # after)
       \<and> tq_runningCount q' = Suc (tq_runningCount q) \<and> tq_runningCount q < tq_concurrencyLimit q"
proof (cases "tq_concurrencyLimit q \<le> tq_runningCount q \<or> find (\<lambda>t. tt_status t = Queued) (tq_tasks q) = None")
  case True
  then have "tq_takeNext now q = (q, None)" by (auto simp: tq_takeNext_def)
  then show ?thesis using True by (auto simp: find_None_iff filter_empty_conv)
next
  case False
  let ?P = "\<lambda>t. tt_status t = Queued"
  from False obtain t where f: "find ?P (tq_tasks q) = Some t" by auto
  have split_at: "\<exists>before after. ts = before @ t # after \<and> filter ?P before = []
      \<and> update_first ?P g ts = before @ g t # after" if "find ?P ts = Some t" for ts g
    using that
  proof (induction ts)
    case (Cons a ts)
    show ?case
    proof (cases "?P a")
      case True
      then show ?thesis using Cons.prems by (intro exI [of _ "[]"] exI [of _ ts]) simp
    next
      case False
      then obtain before after where "ts = before @ t # after" "filter ?P before = []"
        "update_first ?P g ts = before @ g t # after" using Cons by auto
      then show ?thesis using False by (intro exI [of _ "a # before"] exI [of _ after]) simp
    qed
  qed simp
  have "?P t" using find_Some_in [OF f] by simp
  moreover have "length (filter holds_worker (update_first ?P (start_task now) (tq_tasks q)))
      = Suc (tq_runningCount q)"
    using count_update_first [OF f, of holds_worker "start_task now"] \<open>?P t\<close>
    by (simp add: tq_runningCount_def holds_worker_def start_task_def)
  ultimately show ?thesis
    using False f split_at [OF f, of "start_task now"]
    by (simp add: tq_takeNext_def tq_runningCount_def) blast
qed

text \<open>
  In a reachable queue no operation moves a task against the transition table: after any
  operation the task has a status the table allows from its old one, or it was finished and has
  been dismissed.
\<close>

theorem tq_moves_follow_table:
  assumes "tq_inv q" and "tq_find i q = Some t"
  shows "case tq_find i (fst (tq_step q x)) of
      None \<Rightarrow> is_finished t
    | Some t' \<Rightarrow> canTransition (tt_status t) (tt_status t')"
  using tq_step_moves [OF assms] by (simp add: task_moves_def)

theorem tq_moves_follow_table_witness:
  "case tq_find ''b'' (fst (tq_step sample_queue (TakeNext 9))) of
      None \<Rightarrow> is_finished (sample_task ''b'')
    | Some t' \<Rightarrow> canTransition (tt_status (sample_task ''b'')) (tt_status t')"
  by (rule tq_moves_follow_table)
    (simp_all add: sample_queue_inv, simp add: sample_queue_eq tq_find_def sample_task_def start_task_def)

text \<open>A completed or cancelled task never gets another status: whatever is done to the queue
  later, the task has that status until it is dismissed.
\<close>

theorem tq_final_status:
  assumes "tq_inv q" and "tq_find i q = Some t"
    and "tt_status t = Completed \<or> tt_status t = Cancelled"
    and "Dismiss i \<notin> set ops" and "DismissFinished \<notin> set ops"
  shows "\<exists>t'. tq_find i (run_ops tq_step q ops) = Some t' \<and> tt_status t' = tt_status t"
  using assms
proof (induction ops arbitrary: q t)
  case (Cons x ops)
  let ?q = "fst (tq_step q x)"
  obtain t' where t': "tq_find i ?q = Some t'"
    using tq_step_keeps [OF Cons.prems(2), of x] Cons.prems(4,5) by auto
  then have same: "tt_status t' = tt_status t"
    using tq_step_moves [OF Cons.prems(1,2), of x] Cons.prems(3)
    by (auto simp: task_moves_def canTransition.simps split: if_splits)
  have "tq_inv ?q" using Cons.prems(1) by (rule tq_machine.inv_step)
  then show ?case using Cons.IH [OF _ t'] Cons.prems(3,4,5) same by simp
qed simp

theorem tq_final_status_witness:
  "\<exists>t'. tq_find ''a'' (run_ops tq_step (fst (tq_step sample_queue (Complete ''a'' 8)))
      [Retry ''a'', Cancel ''a'' 9, Resume ''a'', TakeNext 10]) = Some t'
    \<and> tt_status t' = tt_status (sample_task ''a''\<lparr>tt_status := Completed\<rparr>)"
proof -
  let ?t = "sample_task ''a''\<lparr>tt_status := Completed, tt_startedUtcMs := Some 5,
    tt_transferredBytes := 100, tt_finishedUtcMs := Some 8\<rparr>"
  have "tq_find ''a'' (fst (tq_step sample_queue (Complete ''a'' 8))) = Some ?t"
    by (simp add: sample_queue_eq tq_find_def tq_with_def complete_body_def tq_transition_def
        canTransition.simps sample_task_def start_task_def)
  from tq_final_status [OF tq_machine.inv_step [OF sample_queue_inv] this,
      of "[Retry ''a'', Cancel ''a'' 9, Resume ''a'', TakeNext 10]"]
  show ?thesis by (simp add: sample_task_def)
qed

text \<open>
  A task whose pause has been requested cannot be completed or handed to the user: if its
  worker finishes first, \<open>updateProgress\<close>, \<open>complete\<close> and \<open>needsAttention\<close> all refuse and the task
  keeps occupying a worker slot.
\<close>

theorem tq_pausing_refuses_completion:
  assumes "tq_find i q = Some t" and "tt_status t = Pausing"
    and "x \<in> {UpdateProgress i n m r, Complete i now, NeedAttention i ''file-conflict''}"
  shows "tq_step q x = (q, Inl InvalidTransition) \<and> holds_worker t"
  using assms
  by (auto simp: tq_with_def updateProgress_body_def complete_body_def needsAttention_body_def
      tq_transition_def canTransition.simps unit_reply_def holds_worker_def containsNull_def)

theorem tq_pausing_refuses_completion_witness:
  "tq_step (fst (tq_step sample_queue (Pause ''a''))) (Complete ''a'' 9)
     = (fst (tq_step sample_queue (Pause ''a'')), Inl InvalidTransition)
   \<and> holds_worker (start_task 5 (sample_task ''a'')\<lparr>tt_status := Pausing\<rparr>)"
proof (rule tq_pausing_refuses_completion [where i = "''a''" and n = 0 and m = 0 and r = 0 and now = 9])
  show "tq_find ''a'' (fst (tq_step sample_queue (Pause ''a'')))
      = Some (start_task 5 (sample_task ''a'')\<lparr>tt_status := Pausing\<rparr>)"
    by (simp add: sample_queue_eq tq_find_def tq_with_def pause_body_def tq_transition_def
        canTransition.simps sample_task_def start_task_def)
qed simp_all

end
