(* ===== verification/Transfer_Batch.thy ===== *)
theory Transfer_Batch
  imports Transfer_Queue
begin

text \<open>
  A transfer of whole directories: \<open>src/domain/sftp/TransferBatch\<close>.  A batch holds the plan, a list of entries in
  which every entry comes after its parent directory; it is built while the source is discovered,
  and the entries then follow the life of their transfer tasks.
\<close>

section \<open>Data\<close>

datatype TransferBatchDirection = BatchUpload | BatchDownload

datatype TransferPlanEntryKind = DirectoryEntry | RegularFileEntry | SymbolicLinkEntry | UnsupportedEntry

datatype TransferPlanEntryStatus =
  EntryPending | EntryQueued | EntryRunning | EntryPaused | EntryNeedsAttention | EntryCompleted | EntrySkipped
| EntryFailed | EntryCancelled | EntryInterrupted

datatype TransferBatchStatus =
  BatchDiscovering | BatchReady | BatchRunning | BatchPaused | BatchNeedsAttention | BatchCompleted | BatchFailed
| BatchCancelled | BatchInterrupted

datatype TransferConflictPolicy = AskPolicy | ReplacePolicy | RenamePolicy | SkipPolicy

record TransferPlanEntry =
  te_id :: string
  te_parentId :: string
  te_relativePath :: string
  te_sourcePath :: string
  te_childTaskId :: string
  te_errorCode :: string
  te_kind :: TransferPlanEntryKind
  te_status :: TransferPlanEntryStatus
  te_totalBytes :: u64
  te_transferredBytes :: u64
  te_depth :: u32
  te_sourceModifiedUtcSeconds :: "int option"

record TransferBatch =
  tb_id :: string
  tb_endpointId :: string
  tb_displayName :: string
  tb_destinationRoot :: string
  tb_discoveryErrorCode :: string
  tb_sourceRoots :: "string list"
  tb_entries :: "TransferPlanEntry list"
  tb_direction :: TransferBatchDirection
  tb_status :: TransferBatchStatus
  tb_conflictPolicy :: TransferConflictPolicy
  tb_bytesPerSecond :: u64
  tb_applyConflictPolicyToRemaining :: bool

record TransferBatchSummary =
  su_entryCount :: nat
  su_directoryCount :: nat
  su_regularFileCount :: nat
  su_completedCount :: nat
  su_skippedCount :: nat
  su_failedCount :: nat
  su_activeCount :: nat
  su_totalBytes :: u64
  su_transferredBytes :: u64
  su_discoveryComplete :: bool
  su_terminal :: bool

datatype TransferBatchError =
  InvalidBatch | InvalidEntry | DuplicateEntryId | DuplicateRelativePath | MissingParent | ParentNotDirectory
| DepthMismatch | EntryLimit | BatchInvalidTransition

definition maximumTransferSourceRoots :: nat where "maximumTransferSourceRoots = 256"
definition maximumTransferPlanEntries :: nat where "maximumTransferPlanEntries = 100000"
definition maximumTransferTreeDepth :: u32 where "maximumTransferTreeDepth = 64"
definition maximumTransferPathUtf8Bytes :: nat where "maximumTransferPathUtf8Bytes = 4096"

section \<open>Validation\<close>

definition batch_validIdentifier :: "string \<Rightarrow> bool" where
  "batch_validIdentifier value \<longleftrightarrow> value \<noteq> [] \<and> length value \<le> 256 \<and> \<not> containsNull value"

definition validRootPath :: "string \<Rightarrow> bool" where
  "validRootPath value \<longleftrightarrow> value \<noteq> [] \<and> length value \<le> maximumTransferPathUtf8Bytes \<and> \<not> containsNull value"

fun canTransitionEntry :: "TransferPlanEntryStatus \<Rightarrow> TransferPlanEntryStatus \<Rightarrow> bool" where
  "canTransitionEntry from to = (case from of
     EntryPending \<Rightarrow> to = EntryQueued \<or> to = EntrySkipped \<or> to = EntryFailed \<or> to = EntryCancelled \<or> to = EntryCompleted
   | EntryQueued \<Rightarrow> to = EntryRunning \<or> to = EntryPaused \<or> to = EntryNeedsAttention \<or> to = EntryCancelled
       \<or> to = EntryInterrupted
   | EntryRunning \<Rightarrow> to = EntryPaused \<or> to = EntryNeedsAttention \<or> to = EntryCompleted \<or> to = EntryFailed
       \<or> to = EntryCancelled \<or> to = EntryInterrupted
   | EntryPaused \<Rightarrow> to = EntryQueued \<or> to = EntryRunning \<or> to = EntryCancelled
   | EntryNeedsAttention \<Rightarrow> to = EntryQueued \<or> to = EntryRunning \<or> to = EntryCancelled
   | EntryInterrupted \<Rightarrow> to = EntryQueued \<or> to = EntryRunning \<or> to = EntryCancelled
   | EntryFailed \<Rightarrow> to = EntryQueued \<or> to = EntryRunning \<or> to = EntryCancelled
   | EntryCompleted \<Rightarrow> False
   | EntrySkipped \<Rightarrow> False
   | EntryCancelled \<Rightarrow> False)"

declare canTransitionEntry.simps [simp del]

definition batch_saturatedAdd :: "u64 \<Rightarrow> u64 \<Rightarrow> u64" where
  "batch_saturatedAdd left right = (if right > - 1 - left then - 1 else left + right)"

definition separator :: "char \<Rightarrow> bool" where
  "separator c \<longleftrightarrow> c = CHR ''/'' \<or> c = CHR 0x5C"

definition plain_segment :: "string \<Rightarrow> bool" where
  "plain_segment segment \<longleftrightarrow> \<not> (segment = [] \<or> segment = ''.'' \<or> segment = ''..'')"

text \<open>The loop over a path, with the segment read so far.\<close>

fun segments_loop :: "string \<Rightarrow> string \<Rightarrow> bool" where
  "segments_loop segment [] = plain_segment segment"
| "segments_loop segment (c # cs) =
     (if \<not> separator c then segments_loop (segment @ [c]) cs
      else if \<not> plain_segment segment then False else segments_loop [] cs)"

definition validTransferRelativePath :: "string \<Rightarrow> bool" where
  "validTransferRelativePath path =
     (if path = [] \<or> length path > maximumTransferPathUtf8Bytes \<or> containsNull path \<or> separator (hd path)
         \<or> separator (last path)
      then False else segments_loop [] path)"

definition validTransferPlanEntry :: "TransferPlanEntry \<Rightarrow> bool" where
  "validTransferPlanEntry e =
     (if \<not> batch_validIdentifier (te_id e) \<or> \<not> validTransferRelativePath (te_relativePath e) \<or> \<not> validRootPath (te_sourcePath e)
         \<or> te_depth e > maximumTransferTreeDepth \<or> te_transferredBytes e > te_totalBytes e
         \<or> containsNull (te_errorCode e) \<or> length (te_errorCode e) > 256 then False
      else if (if te_depth e = 0 then te_parentId e \<noteq> [] else \<not> batch_validIdentifier (te_parentId e)) then False
      else if te_childTaskId e \<noteq> [] \<and> \<not> batch_validIdentifier (te_childTaskId e) then False
      else if te_kind e \<noteq> RegularFileEntry \<and> (te_totalBytes e \<noteq> 0 \<or> te_transferredBytes e \<noteq> 0 \<or> te_childTaskId e \<noteq> [])
      then False
      else if te_status e = EntryFailed \<and> te_errorCode e = [] then False
      else if te_status e \<noteq> EntryFailed \<and> te_errorCode e \<noteq> [] then False
      else True)"

text \<open>The loop over the entries, with the entries seen before; an entry is entered before its parent is looked up.\<close>

fun entries_loop :: "TransferPlanEntry list \<Rightarrow> TransferPlanEntry list \<Rightarrow> bool" where
  "entries_loop seen [] = True"
| "entries_loop seen (e # es) =
     (if \<not> validTransferPlanEntry e \<or> te_id e \<in> set (map te_id seen) \<or> te_relativePath e \<in> set (map te_relativePath seen)
      then False
      else if te_depth e = 0 then entries_loop (seen @ [e]) es
      else (case find (\<lambda>x. te_id x = te_parentId e) (seen @ [e]) of
              None \<Rightarrow> False
            | Some parent \<Rightarrow>
                (if te_kind parent \<noteq> DirectoryEntry \<or> te_depth parent + 1 \<noteq> te_depth e then False
                 else entries_loop (seen @ [e]) es)))"

definition validTransferBatch :: "TransferBatch \<Rightarrow> bool" where
  "validTransferBatch b =
     (if \<not> batch_validIdentifier (tb_id b) \<or> \<not> batch_validIdentifier (tb_endpointId b) \<or> tb_displayName b = []
         \<or> length (tb_displayName b) > 512 \<or> containsNull (tb_displayName b) \<or> \<not> validRootPath (tb_destinationRoot b)
         \<or> tb_sourceRoots b = [] \<or> length (tb_sourceRoots b) > maximumTransferSourceRoots
         \<or> length (tb_entries b) > maximumTransferPlanEntries \<or> containsNull (tb_discoveryErrorCode b)
         \<or> length (tb_discoveryErrorCode b) > 256 then False
      else if list_ex (\<lambda>root. \<not> validRootPath root) (tb_sourceRoots b) then False
      else if tb_discoveryErrorCode b \<noteq> [] \<and> tb_status b \<noteq> BatchFailed then False
      else entries_loop [] (tb_entries b))"

section \<open>Operations\<close>

definition appendTransferPlanEntry :: "TransferPlanEntry \<Rightarrow> TransferBatch \<Rightarrow> TransferBatch \<times> (TransferBatchError + unit)" where
  "appendTransferPlanEntry entry b =
     (if tb_status b \<noteq> BatchDiscovering then (b, Inl BatchInvalidTransition)
      else if length (tb_entries b) \<ge> maximumTransferPlanEntries then (b, Inl EntryLimit)
      else if \<not> validTransferPlanEntry entry then (b, Inl InvalidEntry)
      else if list_ex (\<lambda>current. te_id current = te_id entry) (tb_entries b) then (b, Inl DuplicateEntryId)
      else if list_ex (\<lambda>current. te_relativePath current = te_relativePath entry) (tb_entries b)
      then (b, Inl DuplicateRelativePath)
      else (let appended = (b\<lparr>tb_entries := tb_entries b @ [entry]\<rparr>, Inr ())
            in if te_depth entry = 0 then appended
               else (case find (\<lambda>x. te_id x = te_parentId entry) (tb_entries b) of
                       None \<Rightarrow> (b, Inl MissingParent)
                     | Some parent \<Rightarrow>
                         (if te_kind parent \<noteq> DirectoryEntry then (b, Inl ParentNotDirectory)
                          else if te_depth parent + 1 \<noteq> te_depth entry then (b, Inl DepthMismatch)
                          else appended))))"

definition updated_entry :: "TransferPlanEntryStatus \<Rightarrow> u64 \<Rightarrow> string \<Rightarrow> TransferPlanEntry \<Rightarrow> TransferPlanEntry" where
  "updated_entry status transferredBytes errorCode e =
     e\<lparr>te_status := status, te_errorCode := errorCode,
       te_transferredBytes := (if status = EntryCompleted then te_totalBytes e else transferredBytes)\<rparr>"

definition updateTransferPlanEntry :: "string \<Rightarrow> TransferPlanEntryStatus \<Rightarrow> u64 \<Rightarrow> string \<Rightarrow> TransferBatch
    \<Rightarrow> TransferBatch \<times> (TransferBatchError + unit)" where
  "updateTransferPlanEntry entryId status transferredBytes errorCode b =
     (case find (\<lambda>e. te_id e = entryId) (tb_entries b) of
        None \<Rightarrow> (b, Inl InvalidEntry)
      | Some found \<Rightarrow>
          (if \<not> canTransitionEntry (te_status found) status \<or> transferredBytes > te_totalBytes found
              \<or> (status = EntryFailed) \<noteq> (errorCode \<noteq> []) \<or> containsNull errorCode \<or> length errorCode > 256
           then (b, Inl BatchInvalidTransition)
           else (b\<lparr>tb_entries := update_first (\<lambda>e. te_id e = entryId) (updated_entry status transferredBytes errorCode)
                     (tb_entries b)\<rparr>, Inr ())))"

definition skip_unsupported :: "TransferPlanEntry \<Rightarrow> TransferPlanEntry" where
  "skip_unsupported e =
     (if (te_kind e = SymbolicLinkEntry \<or> te_kind e = UnsupportedEntry) \<and> te_status e = EntryPending
      then e\<lparr>te_status := EntrySkipped\<rparr> else e)"

definition finalizeTransferDiscovery :: "string \<Rightarrow> TransferBatch \<Rightarrow> TransferBatch \<times> (TransferBatchError + unit)" where
  "finalizeTransferDiscovery errorCode b =
     (if tb_status b \<noteq> BatchDiscovering \<or> containsNull errorCode \<or> length errorCode > 256
      then (b, Inl BatchInvalidTransition)
      else (b\<lparr>tb_discoveryErrorCode := errorCode, tb_status := (if errorCode = [] then BatchReady else BatchFailed),
              tb_entries := map skip_unsupported (tb_entries b)\<rparr>, Inr ()))"

definition count_if :: "bool \<Rightarrow> nat" where "count_if b = (if b then 1 else 0)"

definition summarize_entry :: "TransferPlanEntry \<Rightarrow> TransferBatchSummary \<Rightarrow> TransferBatchSummary" where
  "summarize_entry e s =
     s\<lparr>su_directoryCount := su_directoryCount s + count_if (te_kind e = DirectoryEntry),
       su_regularFileCount := su_regularFileCount s + count_if (te_kind e = RegularFileEntry),
       su_completedCount := su_completedCount s + count_if (te_status e = EntryCompleted),
       su_skippedCount := su_skippedCount s + count_if (te_status e = EntrySkipped),
       su_failedCount := su_failedCount s + count_if (te_status e = EntryFailed),
       su_activeCount := su_activeCount s + count_if (te_status e = EntryQueued \<or> te_status e = EntryRunning
         \<or> te_status e = EntryPaused \<or> te_status e = EntryNeedsAttention),
       su_totalBytes := (if te_kind e = RegularFileEntry then batch_saturatedAdd (su_totalBytes s) (te_totalBytes e)
         else su_totalBytes s),
       su_transferredBytes := (if te_kind e = RegularFileEntry then batch_saturatedAdd (su_transferredBytes s) (te_transferredBytes e)
         else su_transferredBytes s)\<rparr>"

definition summarizeTransferBatch :: "TransferBatch \<Rightarrow> TransferBatchSummary" where
  "summarizeTransferBatch b =
     fold summarize_entry (tb_entries b)
       \<lparr>su_entryCount = length (tb_entries b), su_directoryCount = 0, su_regularFileCount = 0, su_completedCount = 0,
        su_skippedCount = 0, su_failedCount = 0, su_activeCount = 0, su_totalBytes = 0, su_transferredBytes = 0,
        su_discoveryComplete = (tb_status b \<noteq> BatchDiscovering),
        su_terminal = (tb_status b = BatchCompleted \<or> tb_status b = BatchFailed \<or> tb_status b = BatchCancelled)\<rparr>"

section \<open>Operations keep a batch valid\<close>

text \<open>An entry that fits behind the entries already there.\<close>

definition entry_fits :: "TransferPlanEntry list \<Rightarrow> TransferPlanEntry \<Rightarrow> bool" where
  "entry_fits seen e \<longleftrightarrow> validTransferPlanEntry e \<and> te_id e \<notin> te_id ` set seen \<and> te_relativePath e \<notin> te_relativePath ` set seen
     \<and> (te_depth e = 0 \<or> (\<exists>p. find (\<lambda>x. te_id x = te_parentId e) seen = Some p \<and> te_kind p = DirectoryEntry
         \<and> te_depth p + 1 = te_depth e))"

lemma find_self_parent:
  "(case find (\<lambda>x. te_id x = te_parentId e) (seen @ [e]) of None \<Rightarrow> False
     | Some parent \<Rightarrow> (if te_kind parent \<noteq> DirectoryEntry \<or> te_depth parent + 1 \<noteq> te_depth e then False else Q))
   = (\<exists>p. find (\<lambda>x. te_id x = te_parentId e) seen = Some p \<and> te_kind p = DirectoryEntry \<and> te_depth p + 1 = te_depth e \<and> Q)"
proof -
  have "(x :: u32) + 1 \<noteq> x" for x by simp
  then show ?thesis by (auto simp: find_append_keyed split: option.splits)
qed

lemma entries_loop_Cons: "entries_loop seen (e # es) = (entry_fits seen e \<and> entries_loop (seen @ [e]) es)"
  unfolding entries_loop.simps find_self_parent by (auto simp: entry_fits_def)

declare entries_loop.simps(2) [simp del]

lemma entries_loop_append: "entries_loop seen (es @ fs) = (entries_loop seen es \<and> entries_loop (seen @ es) fs)"
  by (induction es arbitrary: seen) (auto simp: entries_loop_Cons)

text \<open>What the structure of the plan depends on.\<close>

definition same_place :: "TransferPlanEntry \<Rightarrow> TransferPlanEntry \<Rightarrow> bool" where
  "same_place e e' \<longleftrightarrow> te_id e = te_id e' \<and> te_parentId e = te_parentId e' \<and> te_relativePath e = te_relativePath e'
     \<and> te_kind e = te_kind e' \<and> te_depth e = te_depth e' \<and> (validTransferPlanEntry e \<longrightarrow> validTransferPlanEntry e')"

lemma entry_fits_same:
  assumes "list_all2 same_place seen seen'" "same_place e e'" "entry_fits seen e"
  shows "entry_fits seen' e'"
proof -
  have "te_id ` set seen' = te_id ` set seen \<and> te_relativePath ` set seen' = te_relativePath ` set seen"
    using assms(1) by (induction rule: list_all2_induct) (auto simp: same_place_def)
  moreover have "\<exists>p'. find (\<lambda>x. te_id x = k) seen' = Some p' \<and> te_kind p' = DirectoryEntry \<and> te_depth p' = te_depth p"
    if found: "find (\<lambda>x. te_id x = k) seen = Some p" and "te_kind p = DirectoryEntry" for k p
  proof -
    have ids: "same_place x y \<Longrightarrow> (te_id x = k) = (te_id y = k)" for x y by (simp add: same_place_def)
    obtain p' where "find (\<lambda>x. te_id x = k) seen' = Some p'" "same_place p p'"
      by (rule list_all2_find [OF assms(1) ids found])
    then show ?thesis using that(2) by (auto simp: same_place_def)
  qed
  ultimately show ?thesis using assms(2,3) unfolding entry_fits_def same_place_def by metis
qed

lemma entries_loop_same:
  "list_all2 same_place es es' \<Longrightarrow> list_all2 same_place seen seen' \<Longrightarrow> entries_loop seen es \<Longrightarrow> entries_loop seen' es'"
proof (induction es es' arbitrary: seen seen' rule: list_all2_induct)
  case (Cons e es e' es')
  then show ?case using entry_fits_same [OF Cons.prems(1), of e e'] list_all2_appendI [OF Cons.prems(1), of "[e]" "[e']"]
    by (auto simp: entries_loop_Cons)
qed simp

lemma valid_batch_entries:
  "validTransferBatch b \<Longrightarrow> entries_loop [] (tb_entries b) \<and> (tb_discoveryErrorCode b = [] \<or> tb_status b = BatchFailed)"
  by (auto simp: validTransferBatch_def split: if_splits)

lemma valid_batch_with:
  assumes "validTransferBatch b" "entries_loop [] es" "length es \<le> maximumTransferPlanEntries"
  shows "validTransferBatch (b\<lparr>tb_entries := es\<rparr>)"
  using assms by (auto simp: validTransferBatch_def containsNull_def split: if_splits)

lemma append_accepted:
  assumes "appendTransferPlanEntry entry b = (b', Inr ())"
  shows "b' = b\<lparr>tb_entries := tb_entries b @ [entry]\<rparr> \<and> entry_fits (tb_entries b) entry
    \<and> length (tb_entries b) < maximumTransferPlanEntries \<and> tb_status b = BatchDiscovering"
  using assms by (auto simp: appendTransferPlanEntry_def Let_def entry_fits_def list_ex_iff split: if_splits option.splits)

lemma append_valid:
  assumes "validTransferBatch b" "appendTransferPlanEntry entry b = (b', Inr ())"
  shows "validTransferBatch b'"
proof -
  have "entries_loop [] (tb_entries b @ [entry])"
    using valid_batch_entries [OF assms(1)] append_accepted [OF assms(2)] by (simp add: entries_loop_append entries_loop_Cons)
  then show ?thesis using append_accepted [OF assms(2)] valid_batch_with [OF assms(1)] by simp
qed

lemma append_error: "appendTransferPlanEntry entry b = (b', Inl e) \<Longrightarrow> b' = b"
  by (auto simp: appendTransferPlanEntry_def Let_def split: if_splits option.splits)

lemma updated_same_place:
  assumes "transferredBytes \<le> te_totalBytes e" "(status = EntryFailed) = (errorCode \<noteq> [])" "\<not> containsNull errorCode" "length errorCode \<le> 256"
  shows "same_place e (updated_entry status transferredBytes errorCode e)"
proof -
  have "te_totalBytes e = 0 \<Longrightarrow> transferredBytes = 0" using assms(1) by simp
  then show ?thesis using assms unfolding same_place_def validTransferPlanEntry_def updated_entry_def by (auto split: if_splits)
qed

lemma update_first_found:
  assumes "find P es = Some x" "R x (f x)" "\<And>y. R y y"
  shows "list_all2 R es (update_first P f es)"
  using assms(1,2) by (induction es) (auto simp: assms(3) list_all2_refl split: if_splits)

lemma updateTransferPlanEntry_cases:
  obtains (rejected) err where "updateTransferPlanEntry i status n errorCode b = (b, Inl err)"
  | (updated) e where "find (\<lambda>e. te_id e = i) (tb_entries b) = Some e" "canTransitionEntry (te_status e) status"
    "n \<le> te_totalBytes e" "(status = EntryFailed) = (errorCode \<noteq> [])" "\<not> containsNull errorCode" "length errorCode \<le> 256"
    "updateTransferPlanEntry i status n errorCode b
      = (b\<lparr>tb_entries := update_first (\<lambda>e. te_id e = i) (updated_entry status n errorCode) (tb_entries b)\<rparr>, Inr ())"
proof (cases "find (\<lambda>e. te_id e = i) (tb_entries b)")
  case None
  then show thesis using rejected by (simp add: updateTransferPlanEntry_def)
next
  case (Some e)
  show thesis
  proof (cases "\<not> canTransitionEntry (te_status e) status \<or> n > te_totalBytes e \<or> (status = EntryFailed) \<noteq> (errorCode \<noteq> [])
      \<or> containsNull errorCode \<or> length errorCode > 256")
    case True
    then show thesis using rejected Some by (simp add: updateTransferPlanEntry_def)
  next
    case False
    moreover from this have "updateTransferPlanEntry i status n errorCode b
        = (b\<lparr>tb_entries := update_first (\<lambda>e. te_id e = i) (updated_entry status n errorCode) (tb_entries b)\<rparr>, Inr ())"
      using Some unfolding updateTransferPlanEntry_def by (simp only: option.case if_False)
    ultimately show thesis using updated [OF Some] by (simp add: not_less)
  qed
qed

lemma update_valid:
  assumes "validTransferBatch b"
  shows "validTransferBatch (fst (updateTransferPlanEntry i status n errorCode b))"
proof (cases rule: updateTransferPlanEntry_cases [of i status n errorCode b])
  case (rejected err)
  then show ?thesis using assms by simp
next
  case (updated e)
  have refl: "same_place x x" for x by (simp add: same_place_def)
  have "list_all2 same_place (tb_entries b) (update_first (\<lambda>e. te_id e = i) (updated_entry status n errorCode) (tb_entries b))"
    by (rule update_first_found [where R = same_place and f = "updated_entry status n errorCode", OF updated(1) updated_same_place [OF updated(3-6)] refl])
  then have "entries_loop [] (update_first (\<lambda>e. te_id e = i) (updated_entry status n errorCode) (tb_entries b))"
    using valid_batch_entries [OF assms] entries_loop_same [where seen = "[]" and seen' = "[]"] by auto
  moreover have "length (tb_entries b) \<le> maximumTransferPlanEntries"
    using assms by (auto simp: validTransferBatch_def split: if_splits)
  ultimately show ?thesis unfolding updated(7) fst_conv by (intro valid_batch_with [OF assms]) simp_all
qed

lemma finalize_valid:
  assumes "validTransferBatch b"
  shows "validTransferBatch (fst (finalizeTransferDiscovery errorCode b))"
proof -
  have "list_all2 same_place (tb_entries b) (map skip_unsupported (tb_entries b))"
    by (rule list_all2_all_nthI) (auto simp: same_place_def skip_unsupported_def validTransferPlanEntry_def split: if_splits)
  then have "entries_loop [] (map skip_unsupported (tb_entries b))"
    using valid_batch_entries [OF assms] entries_loop_same [where seen = "[]" and seen' = "[]"] by auto
  then show ?thesis using assms by (auto simp: finalizeTransferDiscovery_def validTransferBatch_def split: if_splits)
qed

datatype BatchOp = AppendEntry TransferPlanEntry | UpdateEntry string TransferPlanEntryStatus u64 string | FinalizeDiscovery string

fun batch_step :: "TransferBatch \<Rightarrow> BatchOp \<Rightarrow> TransferBatch \<times> (TransferBatchError + unit)" where
  "batch_step b (AppendEntry e) = appendTransferPlanEntry e b"
| "batch_step b (UpdateEntry i status n errorCode) = updateTransferPlanEntry i status n errorCode b"
| "batch_step b (FinalizeDiscovery errorCode) = finalizeTransferDiscovery errorCode b"

definition batch_failed :: "TransferBatchError + unit \<Rightarrow> bool" where
  "batch_failed r = (case r of Inl _ \<Rightarrow> True | Inr _ \<Rightarrow> False)"

interpretation batch: atomic_machine batch_step validTransferBatch batch_failed
proof
  fix b x
  assume valid: "validTransferBatch b"
  show "validTransferBatch (fst (batch_step b x))"
  proof (cases x)
    case (AppendEntry e)
    obtain b' r where "appendTransferPlanEntry e b = (b', r)" by fastforce
    then show ?thesis using AppendEntry append_valid [OF valid, of e b'] append_error [of e b b'] valid by (cases r) auto
  qed (simp_all add: update_valid finalize_valid valid)
next
  fix b x
  assume "batch_failed (snd (batch_step b x))"
  then show "fst (batch_step b x) = b"
    by (cases x) (auto simp: batch_failed_def appendTransferPlanEntry_def updateTransferPlanEntry_def finalizeTransferDiscovery_def
      Let_def split: if_splits option.splits)
qed

section \<open>Where a plan may write\<close>

text \<open>The components of a valid relative path are proper names.\<close>

lemma name_of_segment:
  assumes "plain_segment segment" "pre = [] \<or> last pre = CHR 0x5C" "slash \<notin> set (pre @ segment)" "\<not> containsNull (pre @ segment)"
  shows "validRemoteName (pre @ segment)"
proof (cases "pre = []")
  case False
  then have "CHR 0x5C \<in> set (pre @ segment)" using assms(2) last_in_set [of pre] by auto
  moreover have "CHR 0x5C \<notin> set ''.'' \<and> CHR 0x5C \<notin> set ''..''" by simp
  ultimately show ?thesis using assms(3,4) False unfolding validRemoteName_def by (metis append_is_Nil_conv)
qed (use assms in \<open>auto simp: plain_segment_def validRemoteName_def\<close>)

lemma relative_components:
  assumes "segments_loop segment cs" "pre = [] \<or> last pre = CHR 0x5C" "slash \<notin> set (pre @ segment)" "\<not> containsNull (pre @ segment @ cs)"
  shows "\<exists>ds. pre @ segment @ cs = render_components ds \<and> ds \<noteq> [] \<and> (\<forall>d \<in> set ds. validRemoteName d)"
  using assms
proof (induction segment cs arbitrary: pre rule: segments_loop.induct)
  case (1 segment)
  have "validRemoteName (pre @ segment)" by (rule name_of_segment) (use 1 in auto)
  then show ?case by (intro exI [of _ "[pre @ segment]"]) simp
next
  case (2 segment c cs)
  show ?case
  proof (cases "separator c")
    case False
    moreover from this have "slash \<noteq> c" by (auto simp: separator_def)
    ultimately show ?thesis using 2(1) [OF False, of pre] 2(3-) by simp
  next
    case True
    then have plain: "plain_segment segment" and loop: "segments_loop [] cs" using 2(3) by (auto split: if_splits)
    show ?thesis
    proof (cases "c = slash")
      case True
      have name: "validRemoteName (pre @ segment)"
        by (rule name_of_segment) (use plain 2(4-6) in \<open>auto simp: containsNull_def\<close>)
      obtain ds where ds: "cs = render_components ds" "ds \<noteq> []" "\<forall>d \<in> set ds. validRemoteName d"
        using 2(2) [of "[]"] \<open>separator c\<close> plain loop 2(6) by (auto simp: containsNull_def)
      then obtain d ds' where "ds = d # ds'" by (cases ds) auto
      then show ?thesis using ds name True by (intro exI [of _ "(pre @ segment) # ds"]) simp
    next
      case False
      then have "c = CHR 0x5C" using True by (simp add: separator_def)
      then show ?thesis using 2(2) [of "pre @ segment @ [c]"] True plain loop 2(5,6) by (auto simp: containsNull_def)
    qed
  qed
qed

lemma relative_path_components:
  assumes "validTransferRelativePath rel"
  obtains ds where "rel = render_components ds" "ds \<noteq> []" "\<forall>d \<in> set ds. validRemoteName d"
  using relative_components [of "[]" rel "[]"] assms by (auto simp: validTransferRelativePath_def split: if_splits)

lemma render_append:
  "cs \<noteq> [] \<Longrightarrow> ds \<noteq> [] \<Longrightarrow> render_components (cs @ ds) = render_components cs @ slash # render_components ds"
proof (induction cs rule: render_components.induct)
  case (2 c)
  then show ?case by (cases ds) auto
qed auto

section \<open>Sums that saturate\<close>

lemma unat64_max: "unat (x :: u64) \<le> 2 ^ 64 - 1"
proof -
  have "unat x < 2 ^ LENGTH(64)" by (rule unsigned_less)
  then show ?thesis by simp
qed

lemma unat_batch_saturatedAdd: "unat (batch_saturatedAdd x y) = min (2 ^ 64 - 1) (unat x + unat y)"
proof -
  have m: "unat (- 1 :: u64) = 2 ^ 64 - 1" by (simp add: unsigned_minus_1_eq_mask mask_eq_exp_minus_1)
  have "unat (- 1 - x) = 2 ^ 64 - 1 - unat x" by (subst unat_sub) (simp_all add: m)
  moreover have "unat x \<le> 2 ^ 64 - 1" by (rule unat64_max)
  ultimately show ?thesis
  proof (cases "y > - 1 - x")
    case False
    then have "unat y \<le> 2 ^ 64 - 1 - unat x" using \<open>unat (- 1 - x) = _\<close> by (simp add: not_less word_le_nat_alt)
    then have "unat x + unat y < 2 ^ 64" using \<open>unat x \<le> _\<close> by simp
    then show ?thesis using False by (simp add: batch_saturatedAdd_def unat_add_lem [symmetric])
  qed (auto simp: batch_saturatedAdd_def m word_less_nat_alt)
qed

definition regular_sum :: "(TransferPlanEntry \<Rightarrow> u64) \<Rightarrow> TransferPlanEntry list \<Rightarrow> nat" where
  "regular_sum f es = sum_list (map (\<lambda>e. unat (f e)) (filter (\<lambda>e. te_kind e = RegularFileEntry) es))"

lemma fold_summary:
  "su_directoryCount (fold summarize_entry es s) = su_directoryCount s + length (filter (\<lambda>e. te_kind e = DirectoryEntry) es)
   \<and> su_regularFileCount (fold summarize_entry es s) = su_regularFileCount s + length (filter (\<lambda>e. te_kind e = RegularFileEntry) es)
   \<and> su_completedCount (fold summarize_entry es s) = su_completedCount s + length (filter (\<lambda>e. te_status e = EntryCompleted) es)
   \<and> su_skippedCount (fold summarize_entry es s) = su_skippedCount s + length (filter (\<lambda>e. te_status e = EntrySkipped) es)
   \<and> su_failedCount (fold summarize_entry es s) = su_failedCount s + length (filter (\<lambda>e. te_status e = EntryFailed) es)
   \<and> su_entryCount (fold summarize_entry es s) = su_entryCount s
   \<and> su_terminal (fold summarize_entry es s) = su_terminal s
   \<and> su_discoveryComplete (fold summarize_entry es s) = su_discoveryComplete s"
  by (induction es arbitrary: s) (simp_all add: summarize_entry_def count_if_def)

lemma min_min_add: "min m (min m a + b) = min m (a + b)" for m a b :: nat
  by auto

lemma fold_summary_bytes:
  "unat (su_totalBytes (fold summarize_entry es s)) = min (2 ^ 64 - 1) (unat (su_totalBytes s) + regular_sum te_totalBytes es)
   \<and> unat (su_transferredBytes (fold summarize_entry es s))
      = min (2 ^ 64 - 1) (unat (su_transferredBytes s) + regular_sum te_transferredBytes es)"
proof (induction es arbitrary: s)
  case Nil
  show ?case using unat64_max [of "su_totalBytes s"] unat64_max [of "su_transferredBytes s"]
    by (simp add: regular_sum_def min_absorb2)
next
  case (Cons e es)
  show ?case using Cons [of "summarize_entry e s"]
    by (simp add: regular_sum_def summarize_entry_def unat_batch_saturatedAdd min_min_add add.assoc)
qed

text \<open>
  The summary of a batch counts exactly its directories, files and finished entries, and its byte
  totals are the sums over the regular files, capped at the largest 64-bit number and never wrapped.
\<close>

theorem summary_exact:
  "su_directoryCount (summarizeTransferBatch b) = length (filter (\<lambda>e. te_kind e = DirectoryEntry) (tb_entries b))
   \<and> su_regularFileCount (summarizeTransferBatch b) = length (filter (\<lambda>e. te_kind e = RegularFileEntry) (tb_entries b))
   \<and> su_completedCount (summarizeTransferBatch b) = length (filter (\<lambda>e. te_status e = EntryCompleted) (tb_entries b))
   \<and> su_skippedCount (summarizeTransferBatch b) = length (filter (\<lambda>e. te_status e = EntrySkipped) (tb_entries b))
   \<and> su_failedCount (summarizeTransferBatch b) = length (filter (\<lambda>e. te_status e = EntryFailed) (tb_entries b))
   \<and> unat (su_totalBytes (summarizeTransferBatch b)) = min (2 ^ 64 - 1) (regular_sum te_totalBytes (tb_entries b))
   \<and> unat (su_transferredBytes (summarizeTransferBatch b)) = min (2 ^ 64 - 1) (regular_sum te_transferredBytes (tb_entries b))"
  by (simp add: summarizeTransferBatch_def fold_summary fold_summary_bytes)

section \<open>A plan is a forest\<close>

text \<open>Parents come first, one level up, and are directories; ids and paths are unique.\<close>

definition has_parent :: "TransferPlanEntry list \<Rightarrow> TransferPlanEntry \<Rightarrow> bool" where
  "has_parent before e \<longleftrightarrow> te_depth e = 0 \<or> (\<exists>p \<in> set before. te_id p = te_parentId e \<and> te_kind p = DirectoryEntry
     \<and> te_depth p + 1 = te_depth e)"

definition plan_forest :: "TransferPlanEntry list \<Rightarrow> bool" where
  "plan_forest es \<longleftrightarrow> distinct (map te_id es) \<and> distinct (map te_relativePath es)
     \<and> (\<forall>e \<in> set es. validTransferPlanEntry e) \<and> (\<forall>i < length es. has_parent (take i es) (es ! i))"

lemma forest_snoc:
  assumes "plan_forest es" "entry_fits es e"
  shows "plan_forest (es @ [e])"
proof -
  have "has_parent es e"
    using assms(2) find_Some_in [of "\<lambda>x. te_id x = te_parentId e" es] unfolding entry_fits_def has_parent_def by metis
  then show ?thesis using assms by (auto simp: plan_forest_def entry_fits_def nth_append less_Suc_eq)
qed

lemma entries_loop_forest: "entries_loop [] es \<Longrightarrow> plan_forest es"
  by (induction es rule: rev_induct) (auto simp: entries_loop_append entries_loop_Cons forest_snoc, simp add: plan_forest_def)

text \<open>
  Whatever is appended to a batch, updated in it or finalised, accepted or refused, its plan stays a
  forest of valid entries: ids and relative paths are unique, and every entry below a root comes after its
  parent, a directory one level up.  Refused operations change nothing.
\<close>

theorem batch_stays_forest:
  assumes "validTransferBatch b"
  shows "validTransferBatch (run_ops batch_step b xs) \<and> plan_forest (tb_entries (run_ops batch_step b xs))
    \<and> run_ops batch_step b (accepted_ops batch_step batch_failed b xs) = run_ops batch_step b xs"
  using batch.inv_run [OF assms] batch.run_accepted [OF assms] valid_batch_entries entries_loop_forest by blast

definition sample_batch :: TransferBatch where
  "sample_batch = \<lparr>tb_id = ''b'', tb_endpointId = ''e'', tb_displayName = ''d'', tb_destinationRoot = ''/r'',
     tb_discoveryErrorCode = [], tb_sourceRoots = [''/s''], tb_entries = [], tb_direction = BatchUpload,
     tb_status = BatchDiscovering, tb_conflictPolicy = AskPolicy, tb_bytesPerSecond = 0,
     tb_applyConflictPolicyToRemaining = False\<rparr>"

definition sample_entry :: "string \<Rightarrow> string \<Rightarrow> string \<Rightarrow> TransferPlanEntryKind \<Rightarrow> u32 \<Rightarrow> TransferPlanEntry" where
  "sample_entry i parent path kind depth = \<lparr>te_id = i, te_parentId = parent, te_relativePath = path, te_sourcePath = ''/s'',
     te_childTaskId = [], te_errorCode = [], te_kind = kind, te_status = EntryPending, te_totalBytes = 0,
     te_transferredBytes = 0, te_depth = depth, te_sourceModifiedUtcSeconds = None\<rparr>"

lemma sample_batch_valid: "validTransferBatch sample_batch"
  by (simp add: sample_batch_def validTransferBatch_def batch_validIdentifier_def validRootPath_def containsNull_def
    maximumTransferPathUtf8Bytes_def maximumTransferSourceRoots_def)

theorem batch_stays_forest_witness:
  "plan_forest (tb_entries (run_ops batch_step sample_batch
     [AppendEntry (sample_entry ''1'' [] ''d'' DirectoryEntry 0), AppendEntry (sample_entry ''2'' ''1'' ''d/f'' RegularFileEntry 1)]))"
  using batch_stays_forest [OF sample_batch_valid] by blast

end
