(* ===== verification/Transfer_Planner.thy ===== *)
theory Transfer_Planner
  imports Transfer_Batch "HOL-Library.List_Lexorder" "HOL-Library.Char_ord"
begin

text \<open>
  The discovery of a source tree: \<open>planTransferTree\<close> of \<open>src/domain/sftp/TransferPlanner\<close>.  The source
  (\<open>TransferSourceTree\<close>, a local or remote file system) and the stop token are parameters that may
  answer differently at every step \<open>k\<close>; the loop's stack \<open>pending\<close> has its top at the head.  The sort
  of the children by name is \<open>sort_key\<close>: C++ leaves the order of children with equal names open, and
  the second of two equal names is refused as a duplicate destination.
\<close>

section \<open>Data\<close>

record TransferSourceNode =
  sn_sourcePath :: string
  sn_name :: string
  sn_type :: EntryType
  sn_size :: u64
  sn_modifiedUtcSeconds :: "int option"

datatype TransferPlanningError =
  PlanCancelled | InvalidRequest | InvalidSource | DuplicateDestination | SourceUnavailable | PlanEntryLimit | DepthLimit

record TransferPlanRequest =
  rq_batchId :: string
  rq_endpointId :: string
  rq_displayName :: string
  rq_destinationRoot :: string
  rq_sourceRoots :: "string list"
  rq_direction :: TransferBatchDirection
  rq_conflictPolicy :: TransferConflictPolicy

record PendingNode =
  pn_node :: TransferSourceNode
  pn_parentId :: string
  pn_relativePath :: string
  pn_depth :: u32

type_synonym stop_token = "nat \<Rightarrow> bool"
type_synonym source_stat = "nat \<Rightarrow> string \<Rightarrow> TransferSourceNode option"
type_synonym source_list = "nat \<Rightarrow> string \<Rightarrow> TransferSourceNode list option"

section \<open>The planner\<close>

definition validNodeName :: "string \<Rightarrow> bool" where
  "validNodeName name \<longleftrightarrow> name \<noteq> [] \<and> name \<noteq> ''.'' \<and> name \<noteq> ''..'' \<and> CHR ''/'' \<notin> set name
     \<and> CHR 0x5C \<notin> set name \<and> \<not> containsNull name"

fun planKind :: "EntryType \<Rightarrow> TransferPlanEntryKind" where
  "planKind Directory = DirectoryEntry"
| "planKind RegularFile = RegularFileEntry"
| "planKind SymbolicLink = SymbolicLinkEntry"
| "planKind Other = UnsupportedEntry"

definition entryId :: "nat \<Rightarrow> string" where
  "entryId index = ''entry-'' @ decimal (index + 1)"

fun mapAppendError :: "TransferBatchError \<Rightarrow> TransferPlanningError" where
  "mapAppendError DuplicateRelativePath = DuplicateDestination"
| "mapAppendError EntryLimit = PlanEntryLimit"
| "mapAppendError DepthMismatch = DepthLimit"
| "mapAppendError InvalidBatch = InvalidSource"
| "mapAppendError InvalidEntry = InvalidSource"
| "mapAppendError DuplicateEntryId = InvalidSource"
| "mapAppendError MissingParent = InvalidSource"
| "mapAppendError ParentNotDirectory = InvalidSource"
| "mapAppendError BatchInvalidTransition = InvalidSource"

definition request_batch :: "TransferPlanRequest \<Rightarrow> TransferBatch" where
  "request_batch request = \<lparr>tb_id = rq_batchId request, tb_endpointId = rq_endpointId request,
     tb_displayName = rq_displayName request, tb_destinationRoot = rq_destinationRoot request, tb_discoveryErrorCode = [],
     tb_sourceRoots = rq_sourceRoots request, tb_entries = [], tb_direction = rq_direction request,
     tb_status = BatchDiscovering, tb_conflictPolicy = rq_conflictPolicy request, tb_bytesPerSecond = 0,
     tb_applyConflictPolicyToRemaining = False\<rparr>"

text \<open>The loop over the source roots, given in reverse.\<close>

fun plan_roots :: "stop_token \<Rightarrow> source_stat \<Rightarrow> nat \<Rightarrow> string list \<Rightarrow> PendingNode list
    \<Rightarrow> TransferPlanningError + PendingNode list" where
  "plan_roots stop stat k [] pending = Inr pending"
| "plan_roots stop stat k (root # roots) pending =
     (if stop k then Inl PlanCancelled
      else (case stat k root of
              None \<Rightarrow> Inl SourceUnavailable
            | Some node \<Rightarrow>
                (if \<not> validNodeName (sn_name node) \<or> sn_sourcePath node = [] then Inl InvalidSource
                 else plan_roots stop stat (Suc k) roots
                        (\<lparr>pn_node = node, pn_parentId = [], pn_relativePath = sn_name node, pn_depth = 0\<rparr> # pending))))"

definition plan_entry :: "nat \<Rightarrow> PendingNode \<Rightarrow> TransferPlanEntry" where
  "plan_entry index current = \<lparr>te_id = entryId index, te_parentId = pn_parentId current,
     te_relativePath = pn_relativePath current, te_sourcePath = sn_sourcePath (pn_node current), te_childTaskId = [],
     te_errorCode = [], te_kind = planKind (sn_type (pn_node current)), te_status = EntryPending,
     te_totalBytes = (if sn_type (pn_node current) = RegularFile then sn_size (pn_node current) else 0),
     te_transferredBytes = 0, te_depth = pn_depth current,
     te_sourceModifiedUtcSeconds = sn_modifiedUtcSeconds (pn_node current)\<rparr>"

definition child_node :: "string \<Rightarrow> PendingNode \<Rightarrow> TransferSourceNode \<Rightarrow> PendingNode" where
  "child_node currentId current child = \<lparr>pn_node = child, pn_parentId = currentId,
     pn_relativePath = pn_relativePath current @ ''/'' @ sn_name child, pn_depth = pn_depth current + 1\<rparr>"

text \<open>The loop over the children, given in reverse.\<close>

fun push_children :: "string \<Rightarrow> PendingNode \<Rightarrow> TransferSourceNode list \<Rightarrow> PendingNode list
    \<Rightarrow> TransferPlanningError + PendingNode list" where
  "push_children currentId current [] pending = Inr pending"
| "push_children currentId current (child # children) pending =
     (if \<not> validNodeName (sn_name child) \<or> sn_sourcePath child = [] then Inl InvalidSource
      else push_children currentId current children (child_node currentId current child # pending))"

text \<open>What follows the append of a directory.\<close>

definition plan_children :: "source_list \<Rightarrow> nat \<Rightarrow> PendingNode \<Rightarrow> string \<Rightarrow> PendingNode list \<Rightarrow> TransferBatch
    \<Rightarrow> TransferPlanningError + PendingNode list" where
  "plan_children list_of k current currentId pending batch =
     (if pn_depth current = maximumTransferTreeDepth then
        (case list_of k (sn_sourcePath (pn_node current)) of
           None \<Rightarrow> Inl SourceUnavailable
         | Some children \<Rightarrow> (if children \<noteq> [] then Inl DepthLimit else Inr pending))
      else
        (case list_of k (sn_sourcePath (pn_node current)) of
           None \<Rightarrow> Inl SourceUnavailable
         | Some children \<Rightarrow>
             (case push_children currentId current (rev (sort_key sn_name children)) pending of
                Inl e \<Rightarrow> Inl e
              | Inr pending' \<Rightarrow>
                  (if length (tb_entries batch) + length pending' > maximumTransferPlanEntries then Inl PlanEntryLimit
                   else Inr pending'))))"

text \<open>One turn of the loop on the node taken from the stack.\<close>

definition plan_visit :: "source_list \<Rightarrow> nat \<Rightarrow> PendingNode \<Rightarrow> PendingNode list \<Rightarrow> TransferBatch
    \<Rightarrow> TransferPlanningError + PendingNode list \<times> TransferBatch" where
  "plan_visit list_of k current pending batch =
     (if pn_depth current > maximumTransferTreeDepth then Inl DepthLimit
      else (let entry = plan_entry (length (tb_entries batch)) current
            in (case appendTransferPlanEntry entry batch of
                  (_, Inl e) \<Rightarrow> Inl (mapAppendError e)
                | (batch', Inr _) \<Rightarrow>
                    (if sn_type (pn_node current) \<noteq> Directory then Inr (pending, batch')
                     else (case plan_children list_of k current (te_id entry) pending batch' of
                             Inl e \<Rightarrow> Inl e
                           | Inr pending' \<Rightarrow> Inr (pending', batch'))))))"

lemma plan_visit_appends:
  assumes "plan_visit list_of k current pending batch = Inr (pending', batch')"
  shows "appendTransferPlanEntry (plan_entry (length (tb_entries batch)) current) batch = (batch', Inr ())"
    and "tb_entries batch' = tb_entries batch @ [plan_entry (length (tb_entries batch)) current]"
    and "length (tb_entries batch) < maximumTransferPlanEntries"
proof -
  show a: "appendTransferPlanEntry (plan_entry (length (tb_entries batch)) current) batch = (batch', Inr ())"
    using assms by (auto simp: plan_visit_def Let_def split: if_splits prod.splits sum.splits)
  show "tb_entries batch' = tb_entries batch @ [plan_entry (length (tb_entries batch)) current]"
    and "length (tb_entries batch) < maximumTransferPlanEntries"
    using append_accepted [OF a] by auto
qed

lemma plan_visit_grows:
  "plan_visit list_of k current pending batch = Inr (pending', batch') \<Longrightarrow>
   length (tb_entries batch') = Suc (length (tb_entries batch)) \<and> length (tb_entries batch) < maximumTransferPlanEntries"
  using plan_visit_appends by fastforce

function plan_loop :: "stop_token \<Rightarrow> source_list \<Rightarrow> nat \<Rightarrow> PendingNode list \<Rightarrow> TransferBatch
    \<Rightarrow> TransferPlanningError + TransferBatch" where
  "plan_loop stop list_of k [] batch = Inr batch"
| "plan_loop stop list_of k (current # pending) batch =
     (if stop k then Inl PlanCancelled
      else (case plan_visit list_of k current pending batch of
              Inl e \<Rightarrow> Inl e
            | Inr (pending', batch') \<Rightarrow> plan_loop stop list_of (Suc k) pending' batch'))"
  by pat_completeness auto
termination
  by (relation "measure (\<lambda>(_, _, _, _, batch). maximumTransferPlanEntries - length (tb_entries batch))")
    (auto dest!: plan_visit_grows)

definition planTransferTree :: "stop_token \<Rightarrow> source_stat \<Rightarrow> source_list \<Rightarrow> TransferPlanRequest
    \<Rightarrow> TransferPlanningError + TransferBatch" where
  "planTransferTree stop stat list_of request =
     (let batch = request_batch request
      in if \<not> validTransferBatch batch then Inl InvalidRequest
         else (case plan_roots stop stat 0 (rev (rq_sourceRoots request)) [] of
                 Inl e \<Rightarrow> Inl e
               | Inr pending \<Rightarrow>
                   (case plan_loop stop list_of (length (rq_sourceRoots request)) pending batch of
                      Inl e \<Rightarrow> Inl e
                    | Inr planned \<Rightarrow>
                        (case finalizeTransferDiscovery [] planned of
                           (_, Inl _) \<Rightarrow> Inl InvalidSource
                         | (finalized, Inr _) \<Rightarrow> Inr finalized))))"

section \<open>What a turn of the loop does\<close>

text \<open>The nodes a directory adds to the stack.\<close>

definition children_of :: "string \<Rightarrow> PendingNode \<Rightarrow> TransferSourceNode list \<Rightarrow> PendingNode list" where
  "children_of currentId current children = map (child_node currentId current) (sort_key sn_name children)"

lemma push_children_result:
  "push_children i current cs pending = Inr pending' \<Longrightarrow>
   pending' = map (child_node i current) (rev cs) @ pending \<and> (\<forall>c \<in> set cs. validNodeName (sn_name c) \<and> sn_sourcePath c \<noteq> [])"
  by (induction cs arbitrary: pending) (auto split: if_splits)

lemma plan_children_result:
  assumes "plan_children list_of k current i pending batch = Inr pending'"
  obtains children where "list_of k (sn_sourcePath (pn_node current)) = Some children"
    and "pending' = children_of i current children @ pending"
    and "\<forall>c \<in> set children. validNodeName (sn_name c) \<and> sn_sourcePath c \<noteq> []"
    and "pn_depth current = maximumTransferTreeDepth \<Longrightarrow> children = []"
proof (cases "list_of k (sn_sourcePath (pn_node current))")
  case None
  then show thesis using assms by (simp add: plan_children_def split: if_splits)
next
  case (Some children)
  show thesis
  proof (cases "pn_depth current = maximumTransferTreeDepth")
    case True
    then show thesis using assms Some that by (auto simp: plan_children_def children_of_def split: if_splits)
  next
    case False
    then have "push_children i current (rev (sort_key sn_name children)) pending = Inr pending'"
      using assms Some by (auto simp: plan_children_def split: sum.splits if_splits)
    from push_children_result [OF this] show thesis using that [OF Some] False by (auto simp: children_of_def)
  qed
qed

text \<open>The two successful outcomes of a turn.\<close>

lemma plan_visit_cases:
  assumes "plan_visit list_of k current pending batch = Inr (pending', batch')"
  obtains (leaf) "sn_type (pn_node current) \<noteq> Directory" "pending' = pending" "pn_depth current \<le> maximumTransferTreeDepth"
  | (directory) children where "sn_type (pn_node current) = Directory" "pn_depth current \<le> maximumTransferTreeDepth"
      "list_of k (sn_sourcePath (pn_node current)) = Some children"
      "pending' = children_of (entryId (length (tb_entries batch))) current children @ pending"
      "\<forall>c \<in> set children. validNodeName (sn_name c) \<and> sn_sourcePath c \<noteq> []"
      "pn_depth current = maximumTransferTreeDepth \<Longrightarrow> children = []"
proof -
  let ?entry = "plan_entry (length (tb_entries batch)) current"
  have d: "pn_depth current \<le> maximumTransferTreeDepth" using assms by (auto simp: plan_visit_def split: if_splits)
  have i: "te_id ?entry = entryId (length (tb_entries batch))" by (simp add: plan_entry_def)
  show thesis
  proof (cases "sn_type (pn_node current) = Directory")
    case True
    then have "plan_children list_of k current (te_id ?entry) pending batch' = Inr pending'"
      using assms by (auto simp: plan_visit_def Let_def split: if_splits prod.splits sum.splits)
    then show thesis unfolding i by (rule plan_children_result) (use True d directory in auto)
  next
    case False
    then have "pending' = pending" using assms by (auto simp: plan_visit_def Let_def split: if_splits prod.splits sum.splits)
    then show thesis using leaf False d by simp
  qed
qed

section \<open>The plan is the preorder walk of the tree\<close>

text \<open>
  The reference: the walk of a source that does not change, each directory followed by what lies
  below it, its children by name, \<open>n\<close> levels deep.
\<close>

type_synonym plan_row = "string \<times> string \<times> TransferPlanEntryKind \<times> u64 \<times> u32"

definition node_row :: "u32 \<Rightarrow> string \<Rightarrow> TransferSourceNode \<Rightarrow> plan_row" where
  "node_row depth path node = (path, sn_sourcePath node, planKind (sn_type node),
     if sn_type node = RegularFile then sn_size node else 0, depth)"

primrec walk :: "(string \<Rightarrow> TransferSourceNode list option) \<Rightarrow> nat \<Rightarrow> u32 \<Rightarrow> string \<Rightarrow> TransferSourceNode \<Rightarrow> plan_row list" where
  "walk list_of 0 depth path node = [node_row depth path node]"
| "walk list_of (Suc n) depth path node = node_row depth path node #
     (if sn_type node = Directory
      then concat (map (\<lambda>c. walk list_of n (depth + 1) (path @ ''/'' @ sn_name c) c)
             (sort_key sn_name (the (list_of (sn_sourcePath node)))))
      else [])"

definition entry_row :: "TransferPlanEntry \<Rightarrow> plan_row" where
  "entry_row e = (te_relativePath e, te_sourcePath e, te_kind e, te_totalBytes e, te_depth e)"

definition walk_pending :: "(string \<Rightarrow> TransferSourceNode list option) \<Rightarrow> PendingNode \<Rightarrow> plan_row list" where
  "walk_pending list_of p = walk list_of (unat (maximumTransferTreeDepth - pn_depth p)) (pn_depth p) (pn_relativePath p) (pn_node p)"

lemma entry_row_plan: "entry_row (plan_entry n p) = node_row (pn_depth p) (pn_relativePath p) (pn_node p)"
  by (simp add: entry_row_def plan_entry_def node_row_def)

lemma walk_pending_leaf:
  "sn_type (pn_node p) \<noteq> Directory \<Longrightarrow> walk_pending list_of p = [node_row (pn_depth p) (pn_relativePath p) (pn_node p)]"
  by (cases "unat (maximumTransferTreeDepth - pn_depth p)") (simp_all add: walk_pending_def)

lemma walk_pending_directory:
  assumes "sn_type (pn_node p) = Directory" "list_of (sn_sourcePath (pn_node p)) = Some children"
    and "pn_depth p \<le> maximumTransferTreeDepth" "pn_depth p = maximumTransferTreeDepth \<Longrightarrow> children = []"
  shows "walk_pending list_of p = node_row (pn_depth p) (pn_relativePath p) (pn_node p)
    # concat (map (walk_pending list_of) (children_of i p children))"
proof (cases "pn_depth p = maximumTransferTreeDepth")
  case True
  then show ?thesis using assms by (simp add: walk_pending_def children_of_def)
next
  case False
  let ?d = "pn_depth p"
  have "?d < maximumTransferTreeDepth" using False assms(3) by simp
  then have "unat (maximumTransferTreeDepth - ?d) = Suc (unat (maximumTransferTreeDepth - (?d + 1)))"
    by (simp add: maximumTransferTreeDepth_def) (subst unat_sub, simp, unat_arith)
  then show ?thesis using assms(1,2) by (simp add: walk_pending_def children_of_def child_node_def comp_def)
qed

lemma plan_loop_walk:
  "plan_loop stop (\<lambda>_. list_of) k pending batch = Inr planned \<Longrightarrow>
   map entry_row (tb_entries planned) = map entry_row (tb_entries batch) @ concat (map (walk_pending list_of) pending)"
proof (induction stop "\<lambda>_ :: nat. list_of" k pending batch rule: plan_loop.induct)
  case (2 stop k current pending batch)
  then obtain pending' batch' where v: "plan_visit (\<lambda>_. list_of) k current pending batch = Inr (pending', batch')"
    and l: "plan_loop stop (\<lambda>_. list_of) (Suc k) pending' batch' = Inr planned" and go: "\<not> stop k"
    by (auto split: if_splits sum.splits)
  note IH = 2(1) [OF go v refl l]
  show ?case
  proof (cases rule: plan_visit_cases [OF v])
    case 1
    then show ?thesis using IH plan_visit_appends(2) [OF v] by (simp add: entry_row_plan walk_pending_leaf)
  next
    case (2 children)
    then show ?thesis using IH plan_visit_appends(2) [OF v] walk_pending_directory [where p = current and list_of = list_of, OF 2(1,3,2,6)]
      by (simp add: entry_row_plan)
  qed
qed simp

section \<open>Every entry lies directly in its parent\<close>

text \<open>A root has a proper name for its path; what lies below has the path of its parent and a proper name.\<close>

definition placed :: "TransferPlanEntry list \<Rightarrow> string \<Rightarrow> string \<Rightarrow> u32 \<Rightarrow> bool" where
  "placed es parentId path depth \<longleftrightarrow>
     parentId = [] \<and> depth = 0 \<and> validNodeName path
     \<or> (\<exists>p \<in> set es. \<exists>name. te_id p = parentId \<and> te_kind p = DirectoryEntry \<and> depth = te_depth p + 1
          \<and> validNodeName name \<and> path = te_relativePath p @ ''/'' @ name)"

definition entry_placed :: "TransferPlanEntry list \<Rightarrow> TransferPlanEntry \<Rightarrow> bool" where
  "entry_placed es e \<longleftrightarrow> placed es (te_parentId e) (te_relativePath e) (te_depth e)"

definition plan_inv :: "PendingNode list \<Rightarrow> TransferBatch \<Rightarrow> bool" where
  "plan_inv pending b \<longleftrightarrow> validTransferBatch b \<and> tb_status b = BatchDiscovering
     \<and> map te_id (tb_entries b) = map entryId [0..<length (tb_entries b)]
     \<and> (\<forall>e \<in> set (tb_entries b). entry_placed (tb_entries b) e)
     \<and> (\<forall>p \<in> set pending. placed (tb_entries b) (pn_parentId p) (pn_relativePath p) (pn_depth p))"

lemma placed_mono: "placed es i path d \<Longrightarrow> set es \<subseteq> set es' \<Longrightarrow> placed es' i path d"
  unfolding placed_def by blast

lemma plan_visit_inv:
  assumes v: "plan_visit list_of k current pending b = Inr (pending', b')" and inv: "plan_inv (current # pending) b"
  shows "plan_inv pending' b' \<and> b' = b\<lparr>tb_entries := tb_entries b'\<rparr>"
proof -
  let ?entry = "plan_entry (length (tb_entries b)) current"
  note a = plan_visit_appends(1) [OF v]
  have b': "b' = b\<lparr>tb_entries := tb_entries b @ [?entry]\<rparr>" using append_accepted [OF a] by simp
  have valid: "validTransferBatch b'" using append_valid [OF _ a] inv by (simp add: plan_inv_def)
  have sub: "set (tb_entries b) \<subseteq> set (tb_entries b @ [?entry])" by auto
  have "placed (tb_entries b) (pn_parentId current) (pn_relativePath current) (pn_depth current)"
    using inv by (simp add: plan_inv_def)
  then have here: "entry_placed (tb_entries b @ [?entry]) ?entry"
    using placed_mono [OF _ sub] by (simp add: entry_placed_def plan_entry_def)
  have old: "\<forall>e \<in> set (tb_entries b). entry_placed (tb_entries b @ [?entry]) e"
    "\<forall>p \<in> set pending. placed (tb_entries b @ [?entry]) (pn_parentId p) (pn_relativePath p) (pn_depth p)"
    using inv placed_mono [OF _ sub] by (auto simp: plan_inv_def entry_placed_def)
  have ids: "map te_id (tb_entries b') = map entryId [0..<length (tb_entries b')]"
    using inv by (simp add: b' plan_inv_def plan_entry_def)
  have "\<forall>p \<in> set pending'. placed (tb_entries b @ [?entry]) (pn_parentId p) (pn_relativePath p) (pn_depth p)"
  proof (cases rule: plan_visit_cases [OF v])
    case 1
    then show ?thesis using old(2) by simp
  next
    case (2 children)
    have "placed (tb_entries b @ [?entry]) (pn_parentId p) (pn_relativePath p) (pn_depth p)"
      if "p \<in> set (children_of (entryId (length (tb_entries b))) current children)" for p
    proof -
      obtain c where c: "c \<in> set children" "p = child_node (entryId (length (tb_entries b))) current c"
        using \<open>p \<in> _\<close> by (auto simp: children_of_def)
      then have "validNodeName (sn_name c)" using 2(5) by blast
      then show ?thesis using 2(1) unfolding placed_def c(2)
        by (intro disjI2 bexI [of _ ?entry] exI [of _ "sn_name c"]) (simp_all add: plan_entry_def child_node_def)
    qed
    then show ?thesis using old(2) 2(4) by auto
  qed
  then show ?thesis using valid ids here old inv by (simp add: plan_inv_def b')
qed

lemma plan_loop_inv:
  "plan_loop stop list_of k pending b = Inr planned \<Longrightarrow> plan_inv pending b \<Longrightarrow>
   plan_inv [] planned \<and> planned = b\<lparr>tb_entries := tb_entries planned\<rparr>"
proof (induction stop list_of k pending b rule: plan_loop.induct)
  case (2 stop list_of k current pending b)
  then obtain pending' b' where v: "plan_visit list_of k current pending b = Inr (pending', b')"
    and l: "plan_loop stop list_of (Suc k) pending' b' = Inr planned" and go: "\<not> stop k"
    by (auto split: if_splits sum.splits)
  note i = plan_visit_inv [OF v 2(3)]
  have "plan_inv [] planned \<and> planned = b'\<lparr>tb_entries := tb_entries planned\<rparr>"
    using 2(1) [OF go v refl l] i by simp
  moreover have "b'\<lparr>tb_entries := tb_entries planned\<rparr> = b\<lparr>tb_entries := tb_entries planned\<rparr>"
    by (subst conjunct2 [OF i]) simp
  ultimately show ?case by simp
qed (simp add: plan_inv_def)

lemma plan_roots_placed:
  "plan_roots stop stat k roots pending = Inr pending' \<Longrightarrow>
   (\<forall>p \<in> set pending. placed es (pn_parentId p) (pn_relativePath p) (pn_depth p)) \<Longrightarrow>
   (\<forall>p \<in> set pending'. placed es (pn_parentId p) (pn_relativePath p) (pn_depth p))"
proof (induction stop stat k roots pending rule: plan_roots.induct)
  case (2 stop stat k root roots pending)
  then obtain node where n: "stat k root = Some node" "validNodeName (sn_name node)" "sn_sourcePath node \<noteq> []"
    and r: "plan_roots stop stat (Suc k) roots
        (\<lparr>pn_node = node, pn_parentId = [], pn_relativePath = sn_name node, pn_depth = 0\<rparr> # pending) = Inr pending'"
    and go: "\<not> stop k"
    by (auto split: if_splits option.splits)
  show ?case by (rule 2(1) [OF go n(1) _ r]) (use n 2(3) in \<open>auto simp: placed_def\<close>)
qed simp

lemma planTransferTree_result:
  assumes "planTransferTree stop stat list_of request = Inr b"
  obtains pending planned where "validTransferBatch (request_batch request)"
    and "plan_roots stop stat 0 (rev (rq_sourceRoots request)) [] = Inr pending"
    and "plan_loop stop list_of (length (rq_sourceRoots request)) pending (request_batch request) = Inr planned"
    and "finalizeTransferDiscovery [] planned = (b, Inr ())"
  using assms unfolding planTransferTree_def Let_def by (auto split: if_splits sum.splits prod.splits)

lemma skip_unsupported_frame [simp]:
  "te_id (skip_unsupported e) = te_id e" "te_parentId (skip_unsupported e) = te_parentId e"
  "te_relativePath (skip_unsupported e) = te_relativePath e" "te_kind (skip_unsupported e) = te_kind e"
  "te_depth (skip_unsupported e) = te_depth e" "te_sourcePath (skip_unsupported e) = te_sourcePath e"
  "te_totalBytes (skip_unsupported e) = te_totalBytes e"
  by (simp_all add: skip_unsupported_def)

lemma entry_placed_skip:
  "entry_placed es e \<Longrightarrow> entry_placed (map skip_unsupported es) (skip_unsupported e)"
  by (fastforce simp: entry_placed_def placed_def)

text \<open>
  C15. A plan that the planner returns is a ready, valid batch for the request, whatever the source
  answered while it was walked: its ids are \<open>entry-1\<close>, \<open>entry-2\<close>, and so on in order, and the path of every
  entry is the path of its parent directory, a slash and one proper file name (or such a name alone, for
  a root), so no answer of the source can place an entry outside its parent.
\<close>

theorem plan_safe:
  assumes "planTransferTree stop stat list_of request = Inr b"
  shows "validTransferBatch b \<and> tb_status b = BatchReady \<and> tb_destinationRoot b = rq_destinationRoot request
    \<and> plan_forest (tb_entries b) \<and> map te_id (tb_entries b) = map entryId [0..<length (tb_entries b)]
    \<and> list_all (entry_placed (tb_entries b)) (tb_entries b)"
proof (rule planTransferTree_result [OF assms])
  fix pending planned
  assume r: "validTransferBatch (request_batch request)" "plan_roots stop stat 0 (rev (rq_sourceRoots request)) [] = Inr pending"
    "plan_loop stop list_of (length (rq_sourceRoots request)) pending (request_batch request) = Inr planned"
    "finalizeTransferDiscovery [] planned = (b, Inr ())"
  have "plan_inv pending (request_batch request)"
    using r(1) plan_roots_placed [OF r(2), of "[]"] by (simp add: plan_inv_def request_batch_def)
  from plan_loop_inv [OF r(3) this]
  have inv: "plan_inv [] planned" and same: "planned = (request_batch request)\<lparr>tb_entries := tb_entries planned\<rparr>" by auto
  have b: "b = planned\<lparr>tb_discoveryErrorCode := [], tb_status := BatchReady, tb_entries := map skip_unsupported (tb_entries planned)\<rparr>"
    using r(4) by (simp add: finalizeTransferDiscovery_def containsNull_def split: if_splits)
  have valid: "validTransferBatch b"
    using finalize_valid [of planned "[]"] r(4) inv by (simp add: plan_inv_def)
  have "tb_destinationRoot planned = rq_destinationRoot request" by (subst same) (simp add: request_batch_def)
  moreover have "map te_id (map skip_unsupported (tb_entries planned)) = map te_id (tb_entries planned)" by simp
  moreover have "list_all (entry_placed (map skip_unsupported (tb_entries planned))) (map skip_unsupported (tb_entries planned))"
    using inv entry_placed_skip by (auto simp: plan_inv_def list_all_iff)
  moreover have "plan_forest (tb_entries b)" using valid_batch_entries [OF valid] entries_loop_forest by blast
  ultimately show ?thesis using valid inv by (simp add: b plan_inv_def comp_def)
qed

text \<open>
  C33. On a source that does not change, the plan is exactly the preorder walk of the trees under the
  roots, in the order of the request and with the children of a directory by name: nothing the source lists
  is left out or planned twice, and every entry carries the source path, kind, size and depth of its node.
\<close>

theorem plan_is_preorder_walk:
  assumes "planTransferTree stop (\<lambda>_. stat) (\<lambda>_. list_of) request = Inr b"
  shows "map entry_row (tb_entries b)
    = concat (map (\<lambda>root. walk list_of 64 0 (sn_name (the (stat root))) (the (stat root))) (rq_sourceRoots request))"
proof (rule planTransferTree_result [OF assms])
  fix pending planned
  assume r: "plan_roots stop (\<lambda>_. stat) 0 (rev (rq_sourceRoots request)) [] = Inr pending"
    "plan_loop stop (\<lambda>_. list_of) (length (rq_sourceRoots request)) pending (request_batch request) = Inr planned"
    "finalizeTransferDiscovery [] planned = (b, Inr ())"
  have roots: "pending' = map (\<lambda>root. \<lparr>pn_node = the (stat root), pn_parentId = [], pn_relativePath = sn_name (the (stat root)), pn_depth = 0\<rparr>)
      (rev roots) @ pend" if "plan_roots stop (\<lambda>_. stat) k roots pend = Inr pending'" for k roots pend pending'
    using that by (induction roots arbitrary: k pend) (auto split: if_splits option.splits)
  have "tb_entries b = map skip_unsupported (tb_entries planned)"
    using r(3) by (auto simp: finalizeTransferDiscovery_def split: if_splits)
  then have "map entry_row (tb_entries b) = map entry_row (tb_entries planned)" by (simp add: entry_row_def)
  also have "\<dots> = concat (map (walk_pending list_of) pending)"
    using plan_loop_walk [OF r(2)] by (simp add: request_batch_def)
  finally show ?thesis using roots [OF r(1)] by (simp add: walk_pending_def maximumTransferTreeDepth_def comp_def)
qed

section \<open>A small source\<close>

definition sample_plan_request :: TransferPlanRequest where
  "sample_plan_request = \<lparr>rq_batchId = ''b'', rq_endpointId = ''e'', rq_displayName = ''d'', rq_destinationRoot = ''/r'',
     rq_sourceRoots = [''/d''], rq_direction = BatchUpload, rq_conflictPolicy = AskPolicy\<rparr>"

definition sample_node :: "string \<Rightarrow> string \<Rightarrow> EntryType \<Rightarrow> TransferSourceNode" where
  "sample_node path name t = \<lparr>sn_sourcePath = path, sn_name = name, sn_type = t, sn_size = 5, sn_modifiedUtcSeconds = None\<rparr>"

definition sample_stat :: "string \<Rightarrow> TransferSourceNode option" where
  "sample_stat path = Some (sample_node path ''d'' Directory)"

definition sample_list :: "string \<Rightarrow> TransferSourceNode list option" where
  "sample_list path = Some [sample_node ''/d/b'' ''b'' RegularFile, sample_node ''/d/a'' ''a'' SymbolicLink]"

lemmas sample_plan_defs = request_batch_def sample_plan_request_def sample_stat_def sample_list_def sample_node_def validTransferBatch_def
  batch_validIdentifier_def validRootPath_def containsNull_def maximumTransferPathUtf8Bytes_def maximumTransferSourceRoots_def
  maximumTransferTreeDepth_def maximumTransferPlanEntries_def validNodeName_def plan_visit_def plan_entry_def plan_children_def
  child_node_def appendTransferPlanEntry_def validTransferPlanEntry_def validTransferRelativePath_def separator_def plain_segment_def
  entryId_def finalizeTransferDiscovery_def decimal.simps Let_def

lemma sample_digits:
  "char_of (49 :: nat) = CHR ''1''" "char_of (50 :: nat) = CHR ''2''" "char_of (51 :: nat) = CHR ''3''"
  by code_simp+

lemma sample_plan_ok: "\<exists>b. planTransferTree (\<lambda>_. False) (\<lambda>_. sample_stat) (\<lambda>_. sample_list) sample_plan_request = Inr b"
  by (simp add: planTransferTree_def sample_plan_defs sample_digits)

theorem plan_safe_witness:
  "\<exists>b. planTransferTree (\<lambda>_. False) (\<lambda>_. sample_stat) (\<lambda>_. sample_list) sample_plan_request = Inr b
    \<and> tb_status b = BatchReady \<and> plan_forest (tb_entries b)"
  using sample_plan_ok plan_safe by blast

theorem plan_is_preorder_walk_witness:
  "\<exists>b. planTransferTree (\<lambda>_. False) (\<lambda>_. sample_stat) (\<lambda>_. sample_list) sample_plan_request = Inr b
    \<and> map fst (map entry_row (tb_entries b)) = [''d'', ''d/a'', ''d/b'']"
proof -
  obtain b where b: "planTransferTree (\<lambda>_. False) (\<lambda>_. sample_stat) (\<lambda>_. sample_list) sample_plan_request = Inr b"
    using sample_plan_ok by blast
  have "walk l (numeral k) d p n = node_row d p n # (if sn_type n = Directory
      then concat (map (\<lambda>c. walk l (pred_numeral k) (d + 1) (p @ ''/'' @ sn_name c) c) (sort_key sn_name (the (l (sn_sourcePath n)))))
      else [])" for l k d p n
    by (simp add: numeral_eq_Suc)
  then have "map fst (concat (map (\<lambda>root. walk sample_list 64 0 (sn_name (the (sample_stat root))) (the (sample_stat root)))
      (rq_sourceRoots sample_plan_request))) = [''d'', ''d/a'', ''d/b'']"
    by (simp add: sample_plan_request_def sample_stat_def sample_list_def sample_node_def node_row_def)
  then show ?thesis using b plan_is_preorder_walk [OF b] by auto
qed

end
