(* ===== verification/Transfer_Materializer.thy ===== *)
theory Transfer_Materializer
  imports Transfer_Planner
begin

text \<open>
  From a plan to transfer tasks: \<open>src/application/sftp/TransferBatchMaterializer\<close>.  Where an entry goes is
  computed from the destination root; directories are made at once and every regular file becomes a task of the
  transfer queue.  The local paths (\<open>QDir\<close>), the making of directories and the SFTP client are parameters;
  they may answer differently at every entry \<open>k\<close>.  Paths of the local file system are their UTF-8 bytes.
\<close>

section \<open>Data\<close>

datatype TransferMaterializationError =
  MaterializationCancelled | MaterializationInvalidBatch | InvalidDestination | LocalIo | RemoteIo | DestinationConflict

text \<open>
  What the code asks of the file systems: the cleaned absolute path of a root and of a file below it, whether a
  path starts with a prefix (without regard to case), and the directories.
\<close>

record TransferTarget =
  tg_rootPath :: "string \<Rightarrow> string"
  tg_filePath :: "string \<Rightarrow> string \<Rightarrow> string"
  tg_startsWith :: "string \<Rightarrow> string \<Rightarrow> bool"
  tg_mkpath :: "nat \<Rightarrow> string \<Rightarrow> bool"
  tg_statEntry :: "nat \<Rightarrow> string \<Rightarrow> EntryType option option"
  tg_createDirectory :: "nat \<Rightarrow> string \<Rightarrow> bool"

section \<open>Operations\<close>

definition localDestination :: "TransferTarget \<Rightarrow> TransferBatch \<Rightarrow> TransferPlanEntry \<Rightarrow> TransferMaterializationError + string" where
  "localDestination target batch entry =
     (let rootPath = tg_rootPath target (tb_destinationRoot batch);
          destination = tg_filePath target (tb_destinationRoot batch) (te_relativePath entry);
          prefix = (if rootPath \<noteq> [] \<and> last rootPath = slash then rootPath else rootPath @ ''/'')
      in if destination \<noteq> rootPath \<and> \<not> tg_startsWith target destination prefix then Inl InvalidDestination
         else Inr destination)"

definition remoteDestination :: "TransferBatch \<Rightarrow> TransferPlanEntry \<Rightarrow> TransferMaterializationError + string" where
  "remoteDestination batch entry =
     (case normalizeRemotePath (tb_destinationRoot batch) of
        Inl _ \<Rightarrow> Inl InvalidDestination
      | Inr root \<Rightarrow>
          (case normalizeRemotePath ((if root \<noteq> ''/'' then root @ ''/'' else root) @ te_relativePath entry) of
             Inl _ \<Rightarrow> Inl InvalidDestination
           | Inr destination \<Rightarrow> Inr destination))"

definition ensureLocalDirectory :: "TransferTarget \<Rightarrow> nat \<Rightarrow> string \<Rightarrow> TransferMaterializationError + unit" where
  "ensureLocalDirectory target k path = (if \<not> tg_mkpath target k path then Inl LocalIo else Inr ())"

definition ensureRemoteDirectory :: "TransferTarget \<Rightarrow> nat \<Rightarrow> string \<Rightarrow> TransferMaterializationError + unit" where
  "ensureRemoteDirectory target k path =
     (case tg_statEntry target k path of
        None \<Rightarrow> Inl RemoteIo
      | Some (Some t) \<Rightarrow> (if t = Directory then Inr () else Inl DestinationConflict)
      | Some None \<Rightarrow> (if \<not> tg_createDirectory target k path then Inl RemoteIo else Inr ()))"

text \<open>\<open>find_last_of\<close> and \<open>substr\<close>: the part of the path after its last separator.\<close>

definition entry_displayName :: "TransferPlanEntry \<Rightarrow> string" where
  "entry_displayName entry = rev (takeWhile (\<lambda>c. \<not> separator c) (rev (te_relativePath entry)))"

definition child_task :: "TransferBatch \<Rightarrow> string \<Rightarrow> TransferPlanEntry \<Rightarrow> string \<Rightarrow> TransferTask" where
  "child_task batch encoding entry destination =
     \<lparr>tt_id = tb_id batch @ '':'' @ te_id entry, tt_endpointId = tb_endpointId batch, tt_displayName = entry_displayName entry,
      tt_sourcePath = te_sourcePath entry, tt_destinationPath = destination, tt_filenameEncoding = encoding,
      tt_direction = (if tb_direction batch = BatchUpload then Upload else Download), tt_status = Queued,
      tt_totalBytes = te_totalBytes entry, tt_transferredBytes = 0, tt_bytesPerSecond = 0, tt_startedUtcMs = None,
      tt_finishedUtcMs = None, tt_sourceModifiedUtcSeconds = te_sourceModifiedUtcSeconds entry, tt_errorCode = [],
      tt_retryable = True\<rparr>"

definition queued_entry :: "TransferBatch \<Rightarrow> TransferPlanEntry \<Rightarrow> TransferPlanEntry" where
  "queued_entry batch entry = entry\<lparr>te_childTaskId := tb_id batch @ '':'' @ te_id entry, te_status := EntryQueued\<rparr>"

definition entry_destination :: "TransferTarget \<Rightarrow> TransferBatch \<Rightarrow> TransferPlanEntry \<Rightarrow> TransferMaterializationError + string" where
  "entry_destination target batch entry =
     (if tb_direction batch = BatchUpload then remoteDestination batch entry else localDestination target batch entry)"

text \<open>What becomes of one entry: its new form, and a task; or the failed form, the error and the batch's status.\<close>

definition materialize_entry :: "stop_token \<Rightarrow> TransferTarget \<Rightarrow> TransferBatch \<Rightarrow> string \<Rightarrow> nat \<Rightarrow> TransferPlanEntry
    \<Rightarrow> TransferPlanEntry \<times> (TransferMaterializationError \<times> TransferBatchStatus + TransferTask option)" where
  "materialize_entry stop target batch encoding k entry =
     (if stop k then (entry, Inl (MaterializationCancelled, BatchInterrupted))
      else (case entry_destination target batch entry of
              Inl e \<Rightarrow> (entry, Inl (e, BatchFailed))
            | Inr destination \<Rightarrow>
                (if te_kind entry = DirectoryEntry then
                   (case (if tb_direction batch = BatchUpload then ensureRemoteDirectory target k destination
                          else ensureLocalDirectory target k destination) of
                      Inl e \<Rightarrow> (entry\<lparr>te_status := EntryFailed, te_errorCode := ''directory-materialization''\<rparr>, Inl (e, BatchFailed))
                    | Inr _ \<Rightarrow> (entry\<lparr>te_status := EntryCompleted\<rparr>, Inr None))
                 else if te_kind entry \<noteq> RegularFileEntry then (entry, Inr None)
                 else (queued_entry batch entry, Inr (Some (child_task batch encoding entry destination))))))"

text \<open>The loop over the entries: the entries as they are left, and the tasks or the error.\<close>

fun materialize_loop :: "stop_token \<Rightarrow> TransferTarget \<Rightarrow> TransferBatch \<Rightarrow> string \<Rightarrow> nat \<Rightarrow> TransferPlanEntry list
    \<Rightarrow> TransferTask list \<Rightarrow> TransferPlanEntry list \<times> (TransferMaterializationError \<times> TransferBatchStatus + TransferTask list)" where
  "materialize_loop stop target batch encoding k [] tasks = ([], Inr tasks)"
| "materialize_loop stop target batch encoding k (entry # entries) tasks =
     (case materialize_entry stop target batch encoding k entry of
        (entry', Inl e) \<Rightarrow> (entry' # entries, Inl e)
      | (entry', Inr task) \<Rightarrow>
          apfst (Cons entry') (materialize_loop stop target batch encoding (Suc k) entries
            (case task of None \<Rightarrow> tasks | Some t \<Rightarrow> tasks @ [t])))"

definition materializeTransferBatch :: "stop_token \<Rightarrow> TransferTarget \<Rightarrow> TransferBatch \<Rightarrow> bool \<Rightarrow> string
    \<Rightarrow> TransferBatch \<times> (TransferMaterializationError + TransferTask list)" where
  "materializeTransferBatch stop target batch hasClient encoding =
     (if \<not> validTransferBatch batch \<or> tb_status batch \<noteq> BatchReady \<or> encoding = []
         \<or> (tb_direction batch = BatchUpload \<and> \<not> hasClient) then (batch, Inl MaterializationInvalidBatch)
      else (case materialize_loop stop target batch encoding 0 (tb_entries batch) [] of
              (entries, Inl (e, status)) \<Rightarrow> (batch\<lparr>tb_entries := entries, tb_status := status\<rparr>, Inl e)
            | (entries, Inr tasks) \<Rightarrow>
                (batch\<lparr>tb_entries := entries, tb_status := (if tasks = [] then BatchCompleted else BatchRunning)\<rparr>, Inr tasks)))"

section \<open>Uploads stay below their root\<close>

lemma remote_destination_below:
  assumes "normalizeRemotePath (tb_destinationRoot batch) = Inr root" "validTransferRelativePath (te_relativePath entry)"
  shows "remoteDestination batch entry = Inr ((if root = ''/'' then root else root @ ''/'') @ te_relativePath entry)
    \<and> canonical_path ((if root = ''/'' then root else root @ ''/'') @ te_relativePath entry)"
proof -
  obtain cs where cs: "root = slash # render_components cs" "\<forall>c \<in> set cs. validRemoteName c"
    using normalize_canonical [OF assms(1)] by (auto simp: canonical_path_def)
  obtain ds where ds: "te_relativePath entry = render_components ds" "ds \<noteq> []" "\<forall>d \<in> set ds. validRemoteName d"
    by (rule relative_path_components [OF assms(2)])
  have "(if root = ''/'' then root else root @ ''/'') @ te_relativePath entry = slash # render_components (cs @ ds)"
    using cs ds render_append [of cs ds] render_valid_nonempty [of cs] by (cases "cs = []") auto
  then have can: "canonical_path ((if root = ''/'' then root else root @ ''/'') @ te_relativePath entry)"
    unfolding canonical_path_def using cs(2) ds(3) by (intro exI [of _ "cs @ ds"]) auto
  show ?thesis
  proof (cases "root = ''/''")
    case True
    then show ?thesis using can canonical_normalize [OF can] assms(1) by (simp add: remoteDestination_def)
  next
    case False
    then show ?thesis using can canonical_normalize [OF can] assms(1) by (simp add: remoteDestination_def)
  qed
qed

lemma valid_entry_path: "validTransferPlanEntry entry \<Longrightarrow> validTransferRelativePath (te_relativePath entry)"
  by (auto simp: validTransferPlanEntry_def split: if_splits)

text \<open>
  An entry of an upload is written exactly at the normalised destination root followed by its
  relative path, which is a canonical path: no entry of a valid plan can climb out of the root.
\<close>

theorem upload_stays_below_root:
  assumes "normalizeRemotePath (tb_destinationRoot batch) = Inr root" "validTransferPlanEntry entry"
  shows "remoteDestination batch entry = Inr ((if root = ''/'' then root else root @ ''/'') @ te_relativePath entry)
    \<and> canonical_path ((if root = ''/'' then root else root @ ''/'') @ te_relativePath entry)"
  using remote_destination_below [OF assms(1)] valid_entry_path [OF assms(2)] by blast

definition sample_root_batch :: TransferBatch where
  "sample_root_batch = sample_batch\<lparr>tb_destinationRoot := ''/a/'', tb_status := BatchReady,
     tb_entries := [sample_entry ''1'' [] ''f'' RegularFileEntry 0]\<rparr>"

lemma sample_entry_valid: "validTransferPlanEntry (sample_entry ''1'' [] ''f'' RegularFileEntry 0)"
  by (simp add: validTransferPlanEntry_def sample_entry_def batch_validIdentifier_def validRootPath_def containsNull_def
    validTransferRelativePath_def separator_def plain_segment_def maximumTransferPathUtf8Bytes_def)

lemma sample_root: "normalizeRemotePath (tb_destinationRoot sample_root_batch) = Inr ''/a''"
proof -
  have "normalizeRemotePath ''/a/'' = Inr ''/a''" by code_simp
  then show ?thesis by (simp add: sample_root_batch_def)
qed

theorem upload_stays_below_root_witness:
  "remoteDestination sample_root_batch (sample_entry ''1'' [] ''f'' RegularFileEntry 0) = Inr ''/a/f'' \<and> canonical_path ''/a/f''"
  using upload_stays_below_root [OF sample_root sample_entry_valid] by (simp add: sample_entry_def)

section \<open>The tasks of a batch\<close>

definition settled_entry :: "TransferBatch \<Rightarrow> TransferPlanEntry \<Rightarrow> TransferPlanEntry" where
  "settled_entry batch e =
     (if te_kind e = DirectoryEntry then e\<lparr>te_status := EntryCompleted\<rparr>
      else if te_kind e = RegularFileEntry then queued_entry batch e else e)"

lemma materialize_entry_ok:
  assumes "materialize_entry stop target batch encoding k e = (e', Inr task)"
  obtains d where "entry_destination target batch e = Inr d" "e' = settled_entry batch e"
    "task = (if te_kind e = RegularFileEntry then Some (child_task batch encoding e d) else None)"
proof (cases "entry_destination target batch e")
  case (Inl err)
  then show thesis using assms by (simp add: materialize_entry_def split: if_splits)
next
  case (Inr d)
  show thesis
  proof (cases "te_kind e = DirectoryEntry")
    case True
    then show thesis using assms Inr that
      by (auto simp: materialize_entry_def settled_entry_def split: if_splits sum.splits)
  next
    case False
    then show thesis using assms Inr that by (auto simp: materialize_entry_def settled_entry_def split: if_splits)
  qed
qed

text \<open>The tasks of the entries, given where the entries go.\<close>

definition tasks_of :: "TransferBatch \<Rightarrow> string \<Rightarrow> (TransferPlanEntry \<Rightarrow> string) \<Rightarrow> TransferPlanEntry list \<Rightarrow> TransferTask list" where
  "tasks_of batch encoding dest es = map (\<lambda>e. child_task batch encoding e (dest e)) (filter (\<lambda>e. te_kind e = RegularFileEntry) es)"

lemma materialize_loop_ok:
  assumes "materialize_loop stop target batch encoding k es tasks = (es', Inr tasks')"
  shows "es' = map (settled_entry batch) es \<and> (\<forall>e \<in> set es. \<exists>d. entry_destination target batch e = Inr d)
    \<and> tasks' = tasks @ tasks_of batch encoding (\<lambda>e. projr (entry_destination target batch e)) es"
  using assms
proof (induction stop target batch encoding k es tasks arbitrary: es' tasks' rule: materialize_loop.induct)
  case (2 stop target batch encoding k e es tasks)
  obtain e' task where m: "materialize_entry stop target batch encoding k e = (e', Inr task)"
    using 2(2) by (auto split: prod.splits sum.splits)
  then obtain es'' where l: "materialize_loop stop target batch encoding (Suc k) es
        (case task of None \<Rightarrow> tasks | Some t \<Rightarrow> tasks @ [t]) = (es'', Inr tasks')" "es' = e' # es''"
    using 2(2) by (cases "materialize_loop stop target batch encoding (Suc k) es (case task of None \<Rightarrow> tasks | Some t \<Rightarrow> tasks @ [t])") auto
  obtain d where d: "entry_destination target batch e = Inr d" "e' = settled_entry batch e"
    "task = (if te_kind e = RegularFileEntry then Some (child_task batch encoding e d) else None)"
    by (rule materialize_entry_ok [OF m])
  show ?case using 2(1) [OF m [symmetric] refl l(1)] d l(2) by (auto simp: tasks_of_def)
qed (simp add: tasks_of_def)

lemma displayName_nonempty:
  assumes "validTransferRelativePath (te_relativePath e)"
  shows "entry_displayName e \<noteq> [] \<and> set (entry_displayName e) \<subseteq> set (te_relativePath e)"
proof -
  have "te_relativePath e \<noteq> []" "\<not> separator (last (te_relativePath e))"
    using assms by (auto simp: validTransferRelativePath_def split: if_splits)
  then show ?thesis
    by (cases "te_relativePath e" rule: rev_cases) (auto simp: entry_displayName_def dest: set_takeWhileD)
qed

lemma child_task_valid:
  assumes "validTransferBatch batch" "validTransferPlanEntry e" "encoding = ''utf-8'' \<or> encoding = ''gb18030''"
    and "destination \<noteq> []" "\<not> containsNull destination"
  shows "validTransferTask (child_task batch encoding e destination)"
proof -
  have b: "\<not> containsNull (tb_id batch)" "tb_endpointId batch \<noteq> []" "\<not> containsNull (tb_endpointId batch)"
    using assms(1) by (auto simp: validTransferBatch_def batch_validIdentifier_def split: if_splits)
  have e: "\<not> containsNull (te_id e)" "validTransferRelativePath (te_relativePath e)" "te_sourcePath e \<noteq> []" "\<not> containsNull (te_sourcePath e)"
    using assms(2) by (auto simp: validTransferPlanEntry_def batch_validIdentifier_def validRootPath_def split: if_splits)
  have "\<not> containsNull (te_relativePath e)" using e(2) by (auto simp: validTransferRelativePath_def split: if_splits)
  then have "entry_displayName e \<noteq> []" "\<not> containsNull (entry_displayName e)"
    using displayName_nonempty [OF e(2)] by (auto simp: containsNull_def)
  then show ?thesis using b e(1,3,4) assms(3-5)
    by (auto simp: validTransferTask_def child_task_def containsNull_def)
qed

lemma distinct_filter_map: "distinct (map f xs) \<Longrightarrow> distinct (map f (filter P xs))"
  by (induction xs) auto

text \<open>
  C34. Materialising an upload turns every regular file of the plan into one task, in order: the tasks are all
  valid, queued, have distinct ids and go to the destination root followed by the path of their entry; the
  entries know their tasks, the directories are done, and the batch runs unless there is nothing to transfer.
\<close>

theorem upload_materialized:
  assumes "materializeTransferBatch stop target batch hasClient encoding = (batch', Inr tasks)"
    and "tb_direction batch = BatchUpload" "encoding = ''utf-8'' \<or> encoding = ''gb18030''"
    and "normalizeRemotePath (tb_destinationRoot batch) = Inr root"
  shows "tasks = tasks_of batch encoding (\<lambda>e. (if root = ''/'' then root else root @ ''/'') @ te_relativePath e) (tb_entries batch)
    \<and> list_all (\<lambda>t. validTransferTask t \<and> tt_status t = Queued) tasks \<and> distinct (map tt_id tasks)
    \<and> tb_entries batch' = map (settled_entry batch) (tb_entries batch)
    \<and> tb_status batch' = (if tasks = [] then BatchCompleted else BatchRunning)"
proof -
  let ?dest = "\<lambda>e. (if root = ''/'' then root else root @ ''/'') @ te_relativePath e"
  have valid: "validTransferBatch batch" and loop: "\<exists>es. materialize_loop stop target batch encoding 0 (tb_entries batch) [] = (es, Inr tasks)
      \<and> tb_entries batch' = es \<and> tb_status batch' = (if tasks = [] then BatchCompleted else BatchRunning)"
    using assms(1) by (auto simp: materializeTransferBatch_def split: if_splits prod.splits sum.splits)
  have forest: "plan_forest (tb_entries batch)" using valid_batch_entries [OF valid] entries_loop_forest by blast
  have entry: "validTransferPlanEntry e" if "e \<in> set (tb_entries batch)" for e
    using forest that by (simp add: plan_forest_def)
  have dest: "entry_destination target batch e = Inr (?dest e)" "canonical_path (?dest e)" if "e \<in> set (tb_entries batch)" for e
    using remote_destination_below [OF assms(4) valid_entry_path [OF entry [OF that]]] assms(2) by (auto simp: entry_destination_def)
  have tasks: "tasks = tasks_of batch encoding ?dest (tb_entries batch)"
    using materialize_loop_ok loop dest(1) by (fastforce simp: tasks_of_def intro: map_cong)
  have "validTransferTask (child_task batch encoding e (?dest e))" if member: "e \<in> set (tb_entries batch)" for e
  proof (rule child_task_valid [OF valid entry [OF member] assms(3)])
    obtain cs where "?dest e = slash # render_components cs" "\<forall>c \<in> set cs. validRemoteName c"
      using dest(2) [OF member] by (auto simp: canonical_path_def)
    then show "?dest e \<noteq> []" "\<not> containsNull (?dest e)"
      using set_render [of cs] by (auto simp: containsNull_def validRemoteName_def)
  qed
  then have "list_all (\<lambda>t. validTransferTask t \<and> tt_status t = Queued) tasks"
    by (auto simp: tasks tasks_of_def list_all_iff child_task_def)
  moreover have "distinct (map tt_id tasks)"
  proof -
    have "map tt_id tasks = map (\<lambda>i. tb_id batch @ '':'' @ i) (map te_id (filter (\<lambda>e. te_kind e = RegularFileEntry) (tb_entries batch)))"
      by (simp add: tasks tasks_of_def child_task_def)
    then show ?thesis using forest by (simp add: plan_forest_def distinct_map inj_on_def distinct_filter_map del: map_map)
  qed
  ultimately show ?thesis using tasks loop materialize_loop_ok by blast
qed

definition sample_target :: TransferTarget where
  "sample_target = \<lparr>tg_rootPath = id, tg_filePath = (\<lambda>root rel. root @ ''/'' @ rel), tg_startsWith = (\<lambda>s p. take (length p) s = p),
     tg_mkpath = (\<lambda>_ _. True), tg_statEntry = (\<lambda>_ _. Some None), tg_createDirectory = (\<lambda>_ _. True)\<rparr>"

lemma sample_materialized:
  "materializeTransferBatch (\<lambda>_. False) sample_target sample_root_batch True ''utf-8''
   = (sample_root_batch\<lparr>tb_entries := [queued_entry sample_root_batch (sample_entry ''1'' [] ''f'' RegularFileEntry 0)],
        tb_status := BatchRunning\<rparr>,
      Inr [child_task sample_root_batch ''utf-8'' (sample_entry ''1'' [] ''f'' RegularFileEntry 0) ''/a/f''])"
proof -
  have "validTransferBatch sample_root_batch"
    using sample_entry_valid sample_batch_valid by (auto simp: sample_root_batch_def validTransferBatch_def batch_validIdentifier_def
      validRootPath_def containsNull_def maximumTransferPathUtf8Bytes_def maximumTransferPlanEntries_def sample_batch_def
      entries_loop_Cons entry_fits_def sample_entry_def split: if_splits)
  moreover have "remoteDestination sample_root_batch (sample_entry ''1'' [] ''f'' RegularFileEntry 0) = Inr ''/a/f''"
    using remote_destination_below [OF sample_root valid_entry_path [OF sample_entry_valid]] by (simp add: sample_entry_def)
  ultimately show ?thesis
    by (simp add: materializeTransferBatch_def materialize_entry_def entry_destination_def sample_root_batch_def sample_batch_def sample_entry_def)
qed

theorem upload_materialized_witness:
  "distinct (map tt_id [child_task sample_root_batch ''utf-8'' (sample_entry ''1'' [] ''f'' RegularFileEntry 0) ''/a/f''])
   \<and> validTransferTask (child_task sample_root_batch ''utf-8'' (sample_entry ''1'' [] ''f'' RegularFileEntry 0) ''/a/f'')"
proof -
  have "tb_direction sample_root_batch = BatchUpload" by (simp add: sample_root_batch_def sample_batch_def)
  note facts = upload_materialized [OF sample_materialized this disjI1 [OF refl] sample_root, THEN conjunct2]
  show ?thesis using facts [THEN conjunct1] facts [THEN conjunct2, THEN conjunct1] by (simp only: list.pred_inject simp_thms)
qed

end
