(* ===== verification/Ssh_Errors.thy ===== *)
theory Ssh_Errors
  imports Prelude
begin

text \<open>
  The errors of an SSH session and their making from libssh2's codes:
  \<open>src/infrastructure/ssh/Libssh2ErrorMapping.cpp\<close>, with the types of
  \<open>src/infrastructure/ssh/Libssh2Session.h\<close> and \<open>src/application/ssh/SshConnectionBootstrap.h\<close> that the
  transfer manager shares.  A code of libssh2 is named by its constant; \<open>LibOther\<close> is any other one.
\<close>

datatype SshTransportErrorKind =
  TransportInitializationFailed | TransportInvalidArgument | TransportInvalidState | TransportTimedOut | TransportCancelled
| TransportConnectionLost | TransportAuthenticationRejected | TransportAuthenticationUnavailable | TransportProtocolError

datatype UnknownHostKeyDecision = AcceptOnce | AcceptAndRemember | RejectHostKey

datatype LibCode =
  LibOk | LibEagain | LibAlloc | LibSocketDisconnect | LibSocketRecv | LibSocketSend
| LibAuthenticationFailed | LibPublickeyUnverified | LibMethodNotSupported | LibPasswordExpired
| LibFile | LibKeyfileAuthFailed | LibChannelClosed | LibChannelEofSent | LibChannelRequestDenied
| LibSftpProtocol | LibBadUse | LibOther int

record SshTransportError =
  se_kind :: SshTransportErrorKind
  se_libssh2Code :: LibCode
  se_nativeCode :: int

definition transport_error :: "SshTransportErrorKind \<Rightarrow> SshTransportError" where
  "transport_error kind = \<lparr>se_kind = kind, se_libssh2Code = LibOk, se_nativeCode = 0\<rparr>"

definition lib_error :: "SshTransportErrorKind \<Rightarrow> LibCode \<Rightarrow> SshTransportError" where
  "lib_error kind code = \<lparr>se_kind = kind, se_libssh2Code = code, se_nativeCode = 0\<rparr>"

definition socket_code :: "LibCode \<Rightarrow> bool" where
  "socket_code code \<longleftrightarrow> code = LibSocketDisconnect \<or> code = LibSocketRecv \<or> code = LibSocketSend"

definition mapHandshakeError :: "LibCode \<Rightarrow> SshTransportError" where
  "mapHandshakeError code =
     lib_error (if socket_code code then TransportConnectionLost else TransportProtocolError) code"

definition mapAuthenticationError :: "LibCode \<Rightarrow> SshTransportError" where
  "mapAuthenticationError code =
     lib_error (if code = LibAuthenticationFailed then TransportAuthenticationRejected
       else if code = LibMethodNotSupported \<or> code = LibPasswordExpired then TransportAuthenticationUnavailable
       else if socket_code code then TransportConnectionLost
       else TransportProtocolError) code"

definition mapPrivateKeyAuthenticationError :: "LibCode \<Rightarrow> SshTransportError" where
  "mapPrivateKeyAuthenticationError code =
     lib_error (if code = LibAuthenticationFailed \<or> code = LibPublickeyUnverified then TransportAuthenticationRejected
       else if code = LibFile \<or> code = LibKeyfileAuthFailed \<or> code = LibMethodNotSupported
         then TransportAuthenticationUnavailable
       else if code = LibAlloc then TransportInitializationFailed
       else if socket_code code then TransportConnectionLost
       else TransportProtocolError) code"

definition mapChannelError :: "LibCode \<Rightarrow> SshTransportError" where
  "mapChannelError code =
     lib_error (if code = LibAlloc then TransportInitializationFailed
       else if code = LibChannelClosed \<or> code = LibChannelEofSent \<or> socket_code code then TransportConnectionLost
       else TransportProtocolError) code"

text \<open>\<open>sftpError\<close> is the SFTP handle's last error, where there is a handle; \<open>lastErrno\<close> the session's.\<close>

definition mapSftpError :: "LibCode \<Rightarrow> int option \<Rightarrow> LibCode \<Rightarrow> SshTransportError" where
  "mapSftpError lastErrno sftpError code =
     (case sftpError of
        Some native \<Rightarrow>
          if code = LibSftpProtocol then (mapChannelError code)\<lparr>se_nativeCode := native\<rparr>
          else if code = LibOk then mapChannelError lastErrno else mapChannelError code
      | None \<Rightarrow> if code = LibOk then mapChannelError lastErrno else mapChannelError code)"

end
