(* ===== verification/Transfer_Manager.thy ===== *)
theory Transfer_Manager
  imports Transfer_Queue Ssh_Errors
begin

text \<open>
  The owner of the transfer queue: \<open>src/application/sftp/TransferManager\<close>.  It starts a worker thread
  for every task the queue hands out and turns what the workers report into operations of the queue.
  A worker is an environment: the manager keeps a context for it until its report is delivered, and the
  \<open>deliver\<close> slots may be called with anything at any time.  What the manager signals is appended to
  \<open>tm_events\<close>.  The environment record holds the clock, whether a thread can be created and whether the
  recovery file can be written; the request provider of a work item is opaque.
\<close>

section \<open>Data\<close>

datatype TransferCredentialError = CredentialLocked | CredentialUnavailable | CredentialCancelled

datatype TransferExecutionResultKind =
  ResultCompleted | ResultSkipped | ResultPaused | ResultCancelled | ResultNeedsAttention | ResultFailed

datatype TransferExecutionErrorKind =
  ExecInvalidTask | ExecLocalIo | ExecRemoteIo | ExecIncompatibleConflict | ExecInvalidConflictRename | ExecCommitFailed

datatype ConflictAction = SkipConflict | ReplaceConflict | RenameConflict | CancelConflict

record TransferExecutionOptions =
  eo_conflictAction :: "ConflictAction option"
  eo_renamedDestinationPath :: string

record TransferExecutionResult =
  er_kind :: TransferExecutionResultKind
  er_transferredBytes :: u64
  er_finalDestinationPath :: string
  er_conflict :: "FileConflict option"
  er_error :: "TransferExecutionErrorKind option"
  er_transportError :: "SshTransportErrorKind option"

record WorkerContext =
  wc_hostKeyDecision :: "UnknownHostKeyDecision option"
  wc_pauseRequested :: bool
  wc_awaitingHostKey :: bool
  wc_stopRequested :: bool

datatype ManagerEvent =
  TasksChanged "TransferTask list"
| ConflictRequired string FileConflict
| HostKeyConfirmationRequired string string string string
| HostKeyChanged string string string string
| RecoveryError string
| WorkerStarted TransferTask TransferExecutionOptions
| PartialRemoved TransferTask string

record TransferManager =
  tm_queue :: TransferQueue
  tm_work :: "string \<rightharpoonup> TransferExecutionOptions"
  tm_workers :: "string \<rightharpoonup> WorkerContext"
  tm_recoveryStore :: bool
  tm_recoveryWriteFailed :: bool
  tm_stopRequested :: bool
  tm_shutdownComplete :: bool
  tm_events :: "ManagerEvent list"

record ManagerEnv =
  env_now :: int
  env_spawn :: "string \<Rightarrow> bool"
  env_save :: "TransferTask list \<Rightarrow> bool"

definition default_options :: TransferExecutionOptions where
  "default_options = \<lparr>eo_conflictAction = None, eo_renamedDestinationPath = []\<rparr>"

definition new_context :: WorkerContext where
  "new_context = \<lparr>wc_hostKeyDecision = None, wc_pauseRequested = False, wc_awaitingHostKey = False, wc_stopRequested = False\<rparr>"

definition tm_new :: "nat \<Rightarrow> TransferManager option" where
  "tm_new concurrencyLimit = map_option (\<lambda>q. \<lparr>tm_queue = q, tm_work = Map.empty, tm_workers = Map.empty,
     tm_recoveryStore = False, tm_recoveryWriteFailed = False, tm_stopRequested = False, tm_shutdownComplete = False,
     tm_events = []\<rparr>) (tq_new concurrencyLimit)"

section \<open>Error codes\<close>

fun credentialErrorCode :: "TransferCredentialError \<Rightarrow> string" where
  "credentialErrorCode CredentialLocked = ''credential-locked''"
| "credentialErrorCode CredentialUnavailable = ''credential-unavailable''"
| "credentialErrorCode CredentialCancelled = ''credential-cancelled''"

fun transportErrorCode :: "SshTransportErrorKind \<Rightarrow> string" where
  "transportErrorCode TransportTimedOut = ''remote-timeout''"
| "transportErrorCode TransportConnectionLost = ''remote-connection-lost''"
| "transportErrorCode TransportAuthenticationRejected = ''authentication-rejected''"
| "transportErrorCode TransportAuthenticationUnavailable = ''authentication-unavailable''"
| "transportErrorCode TransportCancelled = ''cancelled''"
| "transportErrorCode TransportInitializationFailed = ''remote-io''"
| "transportErrorCode TransportInvalidArgument = ''remote-io''"
| "transportErrorCode TransportInvalidState = ''remote-io''"
| "transportErrorCode TransportProtocolError = ''remote-io''"

fun executionKindCode :: "TransferExecutionErrorKind \<Rightarrow> string" where
  "executionKindCode ExecInvalidTask = ''invalid-task''"
| "executionKindCode ExecLocalIo = ''local-io''"
| "executionKindCode ExecRemoteIo = ''remote-io''"
| "executionKindCode ExecIncompatibleConflict = ''incompatible-conflict''"
| "executionKindCode ExecInvalidConflictRename = ''invalid-conflict-rename''"
| "executionKindCode ExecCommitFailed = ''commit-failed''"

definition executionErrorCode :: "TransferExecutionResult \<Rightarrow> string" where
  "executionErrorCode result =
     (case er_transportError result of
        Some kind \<Rightarrow> transportErrorCode kind
      | None \<Rightarrow> (case er_error result of None \<Rightarrow> ''transfer-failed'' | Some kind \<Rightarrow> executionKindCode kind))"

section \<open>Publishing and scheduling\<close>

definition emit_event :: "ManagerEvent \<Rightarrow> TransferManager \<Rightarrow> TransferManager" where
  "emit_event e m = m\<lparr>tm_events := tm_events m @ [e]\<rparr>"

text \<open>A call of the queue, and whether it was accepted.\<close>

definition queue_call :: "TqOp \<Rightarrow> TransferManager \<Rightarrow> TransferManager" where
  "queue_call x m = m\<lparr>tm_queue := fst (tq_step (tm_queue m) x)\<rparr>"

definition queue_accepts :: "TqOp \<Rightarrow> TransferManager \<Rightarrow> bool" where
  "queue_accepts x m \<longleftrightarrow> \<not> isl (snd (tq_step (tm_queue m) x))"

definition persistRecovery :: "ManagerEnv \<Rightarrow> TransferManager \<Rightarrow> TransferManager" where
  "persistRecovery env m =
     (if \<not> tm_recoveryStore m then m
      else if \<not> env_save env (tq_tasks (tm_queue m)) then
        (if \<not> tm_recoveryWriteFailed m
         then emit_event (RecoveryError ''recovery-save-failed'') (m\<lparr>tm_recoveryWriteFailed := True\<rparr>) else m)
      else m\<lparr>tm_recoveryWriteFailed := False\<rparr>)"

definition publishSnapshot :: "ManagerEnv \<Rightarrow> TransferManager \<Rightarrow> TransferManager" where
  "publishSnapshot env m =
     (let m' = persistRecovery env m in emit_event (TasksChanged (tq_tasks (tm_queue m'))) m')"

definition map_emplace :: "'k \<Rightarrow> 'v \<Rightarrow> ('k \<rightharpoonup> 'v) \<Rightarrow> ('k \<rightharpoonup> 'v)" where
  "map_emplace k v f = (if f k = None then f(k \<mapsto> v) else f)"

text \<open>\<open>startWorker\<close>; the thread it starts lives outside of the manager.\<close>

definition startWorker :: "TransferTask \<Rightarrow> TransferExecutionOptions \<Rightarrow> TransferManager \<Rightarrow> TransferManager" where
  "startWorker task spec m =
     (emit_event (WorkerStarted task spec) m)\<lparr>tm_workers := map_emplace (tt_id task) new_context (tm_workers m)\<rparr>"

definition queued_tasks :: "TransferQueue \<Rightarrow> nat" where
  "queued_tasks q = length (filter (\<lambda>t. tt_status t = Queued) (tq_tasks q))"

text \<open>One turn of the loop of \<open>schedule\<close>; \<open>None\<close> ends the loop.\<close>

definition schedule_turn :: "ManagerEnv \<Rightarrow> TransferManager \<Rightarrow> TransferManager option" where
  "schedule_turn env m =
     (if tq_runningCount (tm_queue m) \<ge> tq_concurrencyLimit (tm_queue m) then None
      else (case tq_takeNext (env_now env) (tm_queue m) of
              (_, None) \<Rightarrow> None
            | (_, Some task) \<Rightarrow>
                (let m' = queue_call (TakeNext (env_now env)) m
                 in Some (case tm_work m' (tt_id task) of
                            None \<Rightarrow> queue_call (Fail (tt_id task) ''request-provider-missing'' False (env_now env)) m'
                          | Some spec \<Rightarrow>
                              (if env_spawn env (tt_id task) then startWorker task spec m'
                               else queue_call (Fail (tt_id task) ''worker-initialization-failed'' True (env_now env)) m')))))"

lemma queued_update_first:
  assumes "find P ts = Some t" "tt_status t' \<noteq> Queued"
  shows "length (filter (\<lambda>t. tt_status t = Queued) (update_first P (\<lambda>_. t') ts)) + (if tt_status t = Queued then 1 else 0)
    = length (filter (\<lambda>t. tt_status t = Queued) ts)"
  using count_update_first [OF assms(1), of "\<lambda>t. tt_status t = Queued" "\<lambda>_. t'"] assms(2) by simp

lemma takeNext_queued:
  assumes "tq_takeNext now q = (q', Some task)"
  shows "queued_tasks q' < queued_tasks q"
proof -
  from assms obtain t where t: "find (\<lambda>t. tt_status t = Queued) (tq_tasks q) = Some t"
    "q' = q\<lparr>tq_tasks := update_first (\<lambda>t. tt_status t = Queued) (start_task now) (tq_tasks q)\<rparr>"
    by (auto simp: tq_takeNext_def split: if_splits option.splits)
  then show ?thesis
    using count_update_first [OF t(1), of "\<lambda>t. tt_status t = Queued" "start_task now"] find_Some_in [OF t(1)]
    by (simp add: queued_tasks_def start_task_def)
qed

lemma fail_queued: "queued_tasks (fst (tq_step q (Fail i e r now))) \<le> queued_tasks q"
proof (cases "tq_find i q")
  case (Some t)
  show ?thesis
  proof (cases "fail_body e r now t")
    case (Inr t')
    then have "tt_status t' = Failed"
      by (auto simp: fail_body_def tq_transition_def split: if_splits)
    then show ?thesis
      using Some Inr queued_update_first [of "\<lambda>t. tt_id t = i" "tq_tasks q" t t']
      by (auto simp: tq_with_def queued_tasks_def tq_find_def split: if_splits)
  qed (use Some in \<open>simp add: tq_with_def\<close>)
qed (simp add: tq_with_def)

lemma schedule_turn_queued:
  assumes "schedule_turn env m = Some m'"
  shows "queued_tasks (tm_queue m') < queued_tasks (tm_queue m)"
proof -
  from assms obtain q task where t: "tq_takeNext (env_now env) (tm_queue m) = (q, Some task)"
    by (auto simp: schedule_turn_def split: if_splits prod.splits option.splits)
  have s: "tm_queue (queue_call (TakeNext (env_now env)) m) = q" using t by (simp add: queue_call_def)
  have "queued_tasks (tm_queue m') \<le> queued_tasks q"
    using assms t fail_queued [of q] s unfolding schedule_turn_def
    by (auto simp: Let_def queue_call_def startWorker_def emit_event_def split: if_splits option.splits)
  then show ?thesis using takeNext_queued [OF t] by simp
qed

function schedule_loop :: "ManagerEnv \<Rightarrow> TransferManager \<Rightarrow> TransferManager" where
  "schedule_loop env m = (case schedule_turn env m of None \<Rightarrow> m | Some m' \<Rightarrow> schedule_loop env m')"
  by pat_completeness auto
termination
  by (relation "measure (\<lambda>(env, m). queued_tasks (tm_queue m))") (auto dest: schedule_turn_queued)

declare schedule_loop.simps [simp del]

definition schedule :: "ManagerEnv \<Rightarrow> TransferManager \<Rightarrow> TransferManager" where
  "schedule env m = (if tm_stopRequested m then m else publishSnapshot env (schedule_loop env m))"

section \<open>Operations\<close>

definition map_context :: "string \<Rightarrow> (WorkerContext \<Rightarrow> WorkerContext) \<Rightarrow> TransferManager \<Rightarrow> TransferManager" where
  "map_context taskId f m =
     (case tm_workers m taskId of None \<Rightarrow> m | Some w \<Rightarrow> m\<lparr>tm_workers := (tm_workers m)(taskId \<mapsto> f w)\<rparr>)"

definition tm_requestStop :: "TransferManager \<Rightarrow> TransferManager" where
  "tm_requestStop m =
     (if tm_stopRequested m then m
      else m\<lparr>tm_stopRequested := True, tm_workers := map_option (\<lambda>w. w\<lparr>wc_stopRequested := True\<rparr>) \<circ> tm_workers m\<rparr>)"

definition tm_shutdown :: "ManagerEnv \<Rightarrow> TransferManager \<Rightarrow> TransferManager" where
  "tm_shutdown env m =
     (if tm_shutdownComplete m then m
      else (persistRecovery env ((tm_requestStop m)\<lparr>tm_workers := Map.empty\<rparr>))\<lparr>tm_shutdownComplete := True\<rparr>)"

definition tm_enqueue :: "ManagerEnv \<Rightarrow> TransferTask \<Rightarrow> bool \<Rightarrow> TransferExecutionOptions \<Rightarrow> TransferManager
    \<Rightarrow> TransferManager \<times> (TransferQueueError + unit)" where
  "tm_enqueue env task hasProvider options m =
     (if tm_stopRequested m \<or> \<not> hasProvider then (m, Inl InvalidTask)
      else (case tq_enqueue task (tm_queue m) of
              (_, Inl e) \<Rightarrow> (m, Inl e)
            | (_, Inr _) \<Rightarrow>
                (let m' = queue_call (Enqueue task) m
                 in (schedule env (publishSnapshot env
                       (m'\<lparr>tm_work := map_emplace (tt_id task) options (tm_work m')\<rparr>)), Inr ()))))"

fun restore_loop :: "TransferTask list \<Rightarrow> TransferManager \<Rightarrow> TransferManager" where
  "restore_loop [] m = m"
| "restore_loop (task # tasks) m =
     (if \<not> queue_accepts (RestoreInterrupted task) m
      then restore_loop tasks (emit_event (RecoveryError ''recovery-load-failed'') m)
      else (let m' = queue_call (RestoreInterrupted task) m
            in restore_loop tasks (m'\<lparr>tm_work := map_emplace (tt_id task) default_options (tm_work m')\<rparr>)))"

definition tm_enableRecovery :: "ManagerEnv \<Rightarrow> TransferTask list option \<Rightarrow> bool \<Rightarrow> TransferManager \<Rightarrow> TransferManager" where
  "tm_enableRecovery env loaded hasFactory m =
     (if tm_stopRequested m then m
      else (let m' = m\<lparr>tm_recoveryStore := True\<rparr>
            in case loaded of
                 None \<Rightarrow> emit_event (RecoveryError ''recovery-load-failed'') m'
               | Some tasks \<Rightarrow>
                   (if \<not> hasFactory then emit_event (RecoveryError ''recovery-load-failed'') m'
                    else publishSnapshot env (restore_loop tasks m'))))"

definition task_status :: "string \<Rightarrow> TransferManager \<Rightarrow> TransferStatus option" where
  "task_status taskId m = map_option tt_status (tq_find taskId (tm_queue m))"

definition tm_cancel :: "ManagerEnv \<Rightarrow> string \<Rightarrow> TransferManager \<Rightarrow> TransferManager" where
  "tm_cancel env taskId m =
     (let wasRunning = (task_status taskId m = Some Running);
          m1 = map_context taskId (\<lambda>w. w\<lparr>wc_pauseRequested := False, wc_stopRequested := True\<rparr>) m
      in if queue_accepts (Cancel taskId (env_now env)) m1 then
           (let m2 = queue_call (Cancel taskId (env_now env)) m1;
                m3 = publishSnapshot env (m2\<lparr>tm_work := (tm_work m2)(taskId := None)\<rparr>)
            in if \<not> wasRunning then schedule env m3 else m3)
         else m1)"

definition tm_pause :: "ManagerEnv \<Rightarrow> string \<Rightarrow> TransferManager \<Rightarrow> TransferManager" where
  "tm_pause env taskId m =
     (let wasRunning = (task_status taskId m = Some Running)
      in if \<not> queue_accepts (Pause taskId) m then m
         else (let m1 = map_context taskId (\<lambda>w. w\<lparr>wc_pauseRequested := True, wc_stopRequested := True\<rparr>)
                          (queue_call (Pause taskId) m);
                   m2 = publishSnapshot env m1
               in if \<not> wasRunning then schedule env m2 else m2))"

definition tm_resume :: "ManagerEnv \<Rightarrow> string \<Rightarrow> TransferManager \<Rightarrow> TransferManager" where
  "tm_resume env taskId m =
     (if tm_work m taskId \<noteq> None \<and> queue_accepts (Resume taskId) m
      then schedule env (publishSnapshot env (queue_call (Resume taskId) m)) else m)"

definition tm_retry :: "ManagerEnv \<Rightarrow> string \<Rightarrow> TransferManager \<Rightarrow> TransferManager" where
  "tm_retry env taskId m =
     (if tm_work m taskId \<noteq> None \<and> queue_accepts (Retry taskId) m
      then schedule env (publishSnapshot env (queue_call (Retry taskId) m)) else m)"

text \<open>\<open>cleanupPartial\<close>: where the partial file is removed, here or by a thread on the server.\<close>

definition cleanupPartial :: "TransferTask \<Rightarrow> TransferExecutionOptions \<Rightarrow> TransferManager \<Rightarrow> TransferManager" where
  "cleanupPartial task options m =
     emit_event (PartialRemoved task
       (if eo_conflictAction options = Some RenameConflict \<and> eo_renamedDestinationPath options \<noteq> []
        then eo_renamedDestinationPath options else tt_destinationPath task)) m"

definition tm_dismiss :: "ManagerEnv \<Rightarrow> string \<Rightarrow> TransferManager \<Rightarrow> TransferManager" where
  "tm_dismiss env taskId m =
     (if queue_accepts (Dismiss taskId) m then
        (let cleanup = (tq_find taskId (tm_queue m), tm_work m taskId);
             m1 = queue_call (Dismiss taskId) m;
             m2 = m1\<lparr>tm_work := (tm_work m1)(taskId := None)\<rparr>
         in publishSnapshot env (case cleanup of (Some task, Some work) \<Rightarrow> cleanupPartial task work m2 | _ \<Rightarrow> m2))
      else m)"

definition tm_dismissFinished :: "ManagerEnv \<Rightarrow> TransferManager \<Rightarrow> TransferManager" where
  "tm_dismissFinished env m =
     (let cleanup = List.map_filter (\<lambda>task. map_option (Pair task) (tm_work m (tt_id task)))
                      (filter is_finished (tq_tasks (tm_queue m)))
      in if snd (tq_dismissFinished (tm_queue m)) > 0 then
           (let m1 = fold (\<lambda>(task, work). cleanupPartial task work) cleanup (queue_call DismissFinished m)
            in publishSnapshot env (m1\<lparr>tm_work := (\<lambda>i. if tq_find i (tm_queue m1) = None then None else tm_work m1 i)\<rparr>))
         else m)"

definition tm_identifiers :: "(TransferTask \<Rightarrow> bool) \<Rightarrow> TransferManager \<Rightarrow> string list" where
  "tm_identifiers P m = map tt_id (filter P (tq_tasks (tm_queue m)))"

definition tm_pauseAll :: "ManagerEnv \<Rightarrow> TransferManager \<Rightarrow> TransferManager" where
  "tm_pauseAll env m = fold (tm_pause env) (tm_identifiers (\<lambda>t. tt_status t = Queued \<or> tt_status t = Running) m) m"

definition tm_resumeAll :: "ManagerEnv \<Rightarrow> TransferManager \<Rightarrow> TransferManager" where
  "tm_resumeAll env m = fold (tm_resume env) (tm_identifiers (\<lambda>t. tt_status t = Paused) m) m"

definition tm_cancelAll :: "ManagerEnv \<Rightarrow> TransferManager \<Rightarrow> TransferManager" where
  "tm_cancelAll env m = fold (tm_cancel env) (tm_identifiers (\<lambda>t. tt_status t = Queued \<or> tt_status t = Running
     \<or> tt_status t = Pausing \<or> tt_status t = Paused \<or> tt_status t = NeedsAttention) m) m"

definition tm_resolveConflict :: "ManagerEnv \<Rightarrow> string \<Rightarrow> ConflictAction \<Rightarrow> string \<Rightarrow> TransferManager \<Rightarrow> TransferManager" where
  "tm_resolveConflict env taskId action renamedDestinationPath m =
     (case tm_work m taskId of
        None \<Rightarrow> m
      | Some _ \<Rightarrow>
          (let m1 = m\<lparr>tm_work := (tm_work m)(taskId \<mapsto> \<lparr>eo_conflictAction = Some action,
                        eo_renamedDestinationPath = renamedDestinationPath\<rparr>)\<rparr>
           in if queue_accepts (Retry taskId) m1
              then schedule env (publishSnapshot env (queue_call (Retry taskId) m1)) else m1))"

text \<open>The answer to a host key question counts only while the worker waits for it.\<close>

definition decide_host_key :: "string \<Rightarrow> UnknownHostKeyDecision \<Rightarrow> TransferManager \<Rightarrow> TransferManager" where
  "decide_host_key taskId decision =
     map_context taskId (\<lambda>w. if \<not> wc_awaitingHostKey w then w else w\<lparr>wc_hostKeyDecision := Some decision\<rparr>)"

definition tm_confirmHostKey :: "string \<Rightarrow> bool \<Rightarrow> TransferManager \<Rightarrow> TransferManager" where
  "tm_confirmHostKey taskId remember = decide_host_key taskId (if remember then AcceptAndRemember else AcceptOnce)"

definition tm_rejectHostKey :: "string \<Rightarrow> TransferManager \<Rightarrow> TransferManager" where
  "tm_rejectHostKey taskId = decide_host_key taskId RejectHostKey"

section \<open>Reports of the workers\<close>

definition handleProgress :: "ManagerEnv \<Rightarrow> string \<Rightarrow> u64 \<Rightarrow> u64 \<Rightarrow> u64 \<Rightarrow> TransferManager \<Rightarrow> TransferManager" where
  "handleProgress env taskId transferredBytes totalBytes bytesPerSecond m =
     (if queue_accepts (UpdateProgress taskId transferredBytes totalBytes bytesPerSecond) m
      then publishSnapshot env (queue_call (UpdateProgress taskId transferredBytes totalBytes bytesPerSecond) m) else m)"

definition handleCredentialError :: "ManagerEnv \<Rightarrow> string \<Rightarrow> TransferCredentialError \<Rightarrow> TransferManager \<Rightarrow> TransferManager" where
  "handleCredentialError env taskId error m =
     (let m1 = m\<lparr>tm_workers := (tm_workers m)(taskId := None)\<rparr>
      in if task_status taskId m1 = Some Running
         then schedule env (publishSnapshot env (queue_call (NeedAttention taskId (credentialErrorCode error)) m1)) else m1)"

definition settle_result :: "ManagerEnv \<Rightarrow> TransferTask \<Rightarrow> TransferExecutionResult \<Rightarrow> TransferManager \<Rightarrow> TransferManager" where
  "settle_result env task result m =
     (let taskId = tt_id task;
          progress = UpdateProgress taskId (er_transferredBytes result) (tt_totalBytes task) 0;
          forget = (\<lambda>m. m\<lparr>tm_work := (tm_work m)(taskId := None)\<rparr>)
      in case er_kind result of
           ResultCompleted \<Rightarrow> forget (queue_call (Complete taskId (env_now env)) (queue_call progress m))
         | ResultSkipped \<Rightarrow> forget (queue_call (Complete taskId (env_now env)) (queue_call progress m))
         | ResultCancelled \<Rightarrow>
             (if tt_status task = Pausing then queue_call (MarkPaused taskId (er_transferredBytes result)) m
              else forget (queue_call (Cancel taskId (env_now env)) m))
         | ResultPaused \<Rightarrow> queue_call (MarkPaused taskId (er_transferredBytes result)) m
         | ResultNeedsAttention \<Rightarrow>
             (let m1 = queue_call (NeedAttention taskId ''file-conflict'') m
              in case er_conflict result of None \<Rightarrow> m1 | Some conflict \<Rightarrow> emit_event (ConflictRequired taskId conflict) m1)
         | ResultFailed \<Rightarrow>
             queue_call (Fail taskId (executionErrorCode result) True (env_now env))
               (if er_transferredBytes result \<ge> tt_transferredBytes task then queue_call progress m else m))"

definition handleResult :: "ManagerEnv \<Rightarrow> string \<Rightarrow> TransferExecutionResult \<Rightarrow> TransferManager \<Rightarrow> TransferManager" where
  "handleResult env taskId result m =
     (let m1 = m\<lparr>tm_workers := (tm_workers m)(taskId := None)\<rparr>
      in case tq_find taskId (tm_queue m1) of
           None \<Rightarrow> schedule env m1
         | Some task \<Rightarrow>
             (if tt_status task \<noteq> Running \<and> tt_status task \<noteq> Pausing \<and> tt_status task \<noteq> Cancelling then schedule env m1
              else schedule env (publishSnapshot env (settle_result env task result m1))))"

text \<open>The worker's side of a host key question, and what it makes of the answer once it may go on.\<close>

definition ask_host_key :: "string \<Rightarrow> TransferManager \<Rightarrow> TransferManager" where
  "ask_host_key taskId = map_context taskId (\<lambda>w. w\<lparr>wc_hostKeyDecision := None, wc_awaitingHostKey := True\<rparr>)"

definition host_key_answer :: "WorkerContext \<Rightarrow> UnknownHostKeyDecision option" where
  "host_key_answer w =
     (case wc_hostKeyDecision w of
        Some decision \<Rightarrow> Some decision
      | None \<Rightarrow> (if wc_stopRequested w then Some RejectHostKey else None))"

definition take_host_key_answer :: "string \<Rightarrow> TransferManager \<Rightarrow> TransferManager" where
  "take_host_key_answer taskId =
     map_context taskId (\<lambda>w. if host_key_answer w \<noteq> None then w\<lparr>wc_awaitingHostKey := False\<rparr> else w)"

section \<open>The manager as a machine\<close>

datatype ManagerOp =
  OpRequestStop | OpShutdown | OpEnableRecovery "TransferTask list option" bool
| OpEnqueue TransferTask bool TransferExecutionOptions | OpCancel string | OpPause string | OpResume string | OpRetry string
| OpDismiss string | OpDismissFinished | OpPauseAll | OpResumeAll | OpCancelAll | OpResolveConflict string ConflictAction string
| OpConfirmHostKey string bool | OpRejectHostKey string
| WorkerAsksHostKey string | WorkerTakesHostKeyAnswer string
| DeliverHostKeyConfirmation string string string string | DeliverHostKeyChange string string string string
| DeliverProgress string u64 u64 u64 | DeliverCredentialError string TransferCredentialError
| DeliverResult string TransferExecutionResult

text \<open>The slots called by the workers check for a stop first.\<close>

definition unless_stopped :: "(TransferManager \<Rightarrow> TransferManager) \<Rightarrow> TransferManager \<Rightarrow> TransferManager" where
  "unless_stopped f m = (if tm_stopRequested m then m else f m)"

fun tm_step :: "ManagerEnv \<Rightarrow> TransferManager \<Rightarrow> ManagerOp \<Rightarrow> TransferManager" where
  "tm_step env m OpRequestStop = tm_requestStop m"
| "tm_step env m OpShutdown = tm_shutdown env m"
| "tm_step env m (OpEnableRecovery loaded hasFactory) = tm_enableRecovery env loaded hasFactory m"
| "tm_step env m (OpEnqueue task hasProvider options) = fst (tm_enqueue env task hasProvider options m)"
| "tm_step env m (OpCancel i) = tm_cancel env i m"
| "tm_step env m (OpPause i) = tm_pause env i m"
| "tm_step env m (OpResume i) = tm_resume env i m"
| "tm_step env m (OpRetry i) = tm_retry env i m"
| "tm_step env m (OpDismiss i) = tm_dismiss env i m"
| "tm_step env m OpDismissFinished = tm_dismissFinished env m"
| "tm_step env m OpPauseAll = tm_pauseAll env m"
| "tm_step env m OpResumeAll = tm_resumeAll env m"
| "tm_step env m OpCancelAll = tm_cancelAll env m"
| "tm_step env m (OpResolveConflict i action path) = tm_resolveConflict env i action path m"
| "tm_step env m (OpConfirmHostKey i remember) = tm_confirmHostKey i remember m"
| "tm_step env m (OpRejectHostKey i) = tm_rejectHostKey i m"
| "tm_step env m (WorkerAsksHostKey i) = ask_host_key i m"
| "tm_step env m (WorkerTakesHostKeyAnswer i) = take_host_key_answer i m"
| "tm_step env m (DeliverHostKeyConfirmation i endpoint algorithm fingerprint) =
     unless_stopped (emit_event (HostKeyConfirmationRequired i endpoint algorithm fingerprint)) m"
| "tm_step env m (DeliverHostKeyChange i endpoint algorithm fingerprint) =
     unless_stopped (emit_event (HostKeyChanged i endpoint algorithm fingerprint)) m"
| "tm_step env m (DeliverProgress i n expected rate) = unless_stopped (handleProgress env i n expected rate) m"
| "tm_step env m (DeliverCredentialError i e) = unless_stopped (handleCredentialError env i e) m"
| "tm_step env m (DeliverResult i r) = unless_stopped (handleResult env i r) m"

section \<open>What every operation is made of\<close>

lemma emit_fields [simp]:
  "tm_queue (emit_event e m) = tm_queue m" "tm_work (emit_event e m) = tm_work m" "tm_workers (emit_event e m) = tm_workers m"
  "tm_stopRequested (emit_event e m) = tm_stopRequested m"
  by (simp_all add: emit_event_def)

lemma persist_fields [simp]:
  "tm_queue (persistRecovery env m) = tm_queue m" "tm_work (persistRecovery env m) = tm_work m"
  "tm_workers (persistRecovery env m) = tm_workers m" "tm_stopRequested (persistRecovery env m) = tm_stopRequested m"
  by (simp_all add: persistRecovery_def)

lemma publish_fields [simp]:
  "tm_queue (publishSnapshot env m) = tm_queue m" "tm_work (publishSnapshot env m) = tm_work m"
  "tm_workers (publishSnapshot env m) = tm_workers m" "tm_stopRequested (publishSnapshot env m) = tm_stopRequested m"
  by (simp_all add: publishSnapshot_def Let_def)

lemma queue_call_fields [simp]:
  "tm_queue (queue_call x m) = fst (tq_step (tm_queue m) x)" "tm_work (queue_call x m) = tm_work m"
  "tm_workers (queue_call x m) = tm_workers m" "tm_stopRequested (queue_call x m) = tm_stopRequested m"
  by (simp_all add: queue_call_def)

lemma startWorker_fields [simp]:
  "tm_queue (startWorker task spec m) = tm_queue m" "tm_work (startWorker task spec m) = tm_work m"
  "tm_workers (startWorker task spec m) = map_emplace (tt_id task) new_context (tm_workers m)"
  "tm_stopRequested (startWorker task spec m) = tm_stopRequested m"
  by (simp_all add: startWorker_def)

lemma map_context_fields [simp]:
  "tm_queue (map_context i f m) = tm_queue m" "tm_work (map_context i f m) = tm_work m"
  "dom (tm_workers (map_context i f m)) = dom (tm_workers m)" "tm_stopRequested (map_context i f m) = tm_stopRequested m"
  by (auto simp: map_context_def split: option.splits)

lemma dom_map_emplace [simp]: "dom (map_emplace k v f) = insert k (dom f)"
  by (auto simp: map_emplace_def)

lemma schedule_turn_fields [simp]:
  "schedule_turn env m = Some m' \<Longrightarrow> tm_stopRequested m' = tm_stopRequested m"
  by (auto simp: schedule_turn_def Let_def split: if_splits prod.splits option.splits)

lemma schedule_loop_stop [simp]: "tm_stopRequested (schedule_loop env m) = tm_stopRequested m"
  by (induction env m rule: schedule_loop.induct) (subst schedule_loop.simps, auto split: option.splits)

lemma schedule_stop [simp]: "tm_stopRequested (schedule env m) = tm_stopRequested m"
  by (simp add: schedule_def)

text \<open>
  The interface between the operations and a property of the manager that looks only at the queue, at
  which tasks have a context and at the stop flag: a property that survives the queue calls in \<open>calls\<close>
  and the turns of \<open>schedule\<close> survives every operation made of them.
\<close>

locale manager_frame =
  fixes I :: "TransferManager \<Rightarrow> bool" and calls :: "TqOp \<Rightarrow> bool"
  assumes frame: "I m \<Longrightarrow> tm_queue m' = tm_queue m \<Longrightarrow> dom (tm_workers m) \<subseteq> dom (tm_workers m')
      \<Longrightarrow> (tm_stopRequested m \<Longrightarrow> tm_stopRequested m') \<Longrightarrow> I m'"
    and call: "I m \<Longrightarrow> calls x \<Longrightarrow> I (queue_call x m)"
    and turn: "I m \<Longrightarrow> \<not> tm_stopRequested m \<Longrightarrow> schedule_turn env m = Some m' \<Longrightarrow> I m'"
begin

lemma publish_ok [simp]: "I m \<Longrightarrow> I (publishSnapshot env m)"
  by (rule frame) auto

lemma emit_ok [simp]: "I m \<Longrightarrow> I (emit_event e m)"
  by (rule frame) auto

lemma work_ok [simp]: "I m \<Longrightarrow> I (m\<lparr>tm_work := w\<rparr>)"
  by (rule frame) auto

lemma context_ok [simp]: "I m \<Longrightarrow> I (map_context i f m)"
  by (rule frame) auto

lemma loop_ok: "I m \<Longrightarrow> \<not> tm_stopRequested m \<Longrightarrow> I (schedule_loop env m)"
proof (induction env m rule: schedule_loop.induct)
  case (1 env m)
  then show ?case by (subst schedule_loop.simps) (auto split: option.splits dest: turn)
qed

lemma schedule_ok [simp]: "I m \<Longrightarrow> I (schedule env m)"
  by (simp add: schedule_def loop_ok)

lemma requestStop_ok: "I m \<Longrightarrow> I (tm_requestStop m)"
  by (rule frame [of m]) (auto simp: tm_requestStop_def dom_map_option_comp)

lemma enqueue_ok: "I m \<Longrightarrow> calls (Enqueue task) \<Longrightarrow> I (fst (tm_enqueue env task hasProvider options m))"
  by (auto simp: tm_enqueue_def Let_def call split: prod.splits sum.splits)

lemma restore_ok: "I m \<Longrightarrow> (\<And>t. t \<in> set tasks \<Longrightarrow> calls (RestoreInterrupted t)) \<Longrightarrow> I (restore_loop tasks m)"
  by (induction tasks m rule: restore_loop.induct) (auto simp: Let_def call)

lemma enableRecovery_ok:
  assumes "I m" "\<And>t. t \<in> set (the loaded) \<Longrightarrow> calls (RestoreInterrupted t)"
  shows "I (tm_enableRecovery env loaded hasFactory m)"
proof -
  have "I (m\<lparr>tm_recoveryStore := True\<rparr>)" using assms(1) by (rule frame) auto
  then show ?thesis using assms by (auto simp: tm_enableRecovery_def Let_def restore_ok split: option.splits)
qed

lemma cancel_ok: "I m \<Longrightarrow> calls (Cancel i (env_now env)) \<Longrightarrow> I (tm_cancel env i m)"
  by (simp add: tm_cancel_def Let_def call)

lemma pause_ok: "I m \<Longrightarrow> calls (Pause i) \<Longrightarrow> I (tm_pause env i m)"
  by (simp add: tm_pause_def Let_def call)

lemma resume_ok: "I m \<Longrightarrow> calls (Resume i) \<Longrightarrow> I (tm_resume env i m)"
  by (simp add: tm_resume_def call)

lemma retry_ok: "I m \<Longrightarrow> calls (Retry i) \<Longrightarrow> I (tm_retry env i m)"
  by (simp add: tm_retry_def call)

lemma dismiss_ok: "I m \<Longrightarrow> calls (Dismiss i) \<Longrightarrow> I (tm_dismiss env i m)"
  by (simp add: tm_dismiss_def Let_def call cleanupPartial_def split: option.split)

lemma cleanup_fold_ok: "I m \<Longrightarrow> I (fold (\<lambda>(task, work). cleanupPartial task work) cs m)"
  by (induction cs arbitrary: m) (auto simp: cleanupPartial_def)

lemma dismissFinished_ok: "I m \<Longrightarrow> calls DismissFinished \<Longrightarrow> I (tm_dismissFinished env m)"
  by (simp add: tm_dismissFinished_def Let_def call cleanup_fold_ok)

lemma resolveConflict_ok: "I m \<Longrightarrow> calls (Retry i) \<Longrightarrow> I (tm_resolveConflict env i action path m)"
  by (simp add: tm_resolveConflict_def Let_def call split: option.split)

lemma fold_ok:
  assumes "I m" "\<And>j m. j \<in> set js \<Longrightarrow> I m \<Longrightarrow> I (f j m)"
  shows "I (fold f js m)"
  using assms by (induction js arbitrary: m) auto

lemma progress_ok: "I m \<Longrightarrow> calls (UpdateProgress i n e r) \<Longrightarrow> I (handleProgress env i n e r m)"
  by (simp add: handleProgress_def call)

text \<open>The calls that settle the task \<open>i\<close>, for a property that holds without its context.\<close>

definition settles :: "string \<Rightarrow> bool" where
  "settles i \<longleftrightarrow> (\<forall>n e r. calls (UpdateProgress i n e r)) \<and> (\<forall>now. calls (Complete i now)) \<and> (\<forall>now. calls (Cancel i now))
     \<and> (\<forall>n. calls (MarkPaused i n)) \<and> (\<forall>e. calls (NeedAttention i e)) \<and> (\<forall>e b now. calls (Fail i e b now))"

lemma settle_ok: "I m \<Longrightarrow> settles (tt_id task) \<Longrightarrow> I (settle_result env task result m)"
  by (cases "er_kind result") (simp_all add: settle_result_def Let_def settles_def call split: option.split)

end

section \<open>The queue is driven by its own operations\<close>

lemma schedule_turn_calls:
  assumes "schedule_turn env m = Some m'"
  obtains task spec where "tq_takeNext (env_now env) (tm_queue m) = (fst (tq_step (tm_queue m) (TakeNext (env_now env))), Some task)"
    and "tm_work m (tt_id task) = Some spec" "env_spawn env (tt_id task)"
    and "m' = startWorker task spec (queue_call (TakeNext (env_now env)) m)"
  | task code retryable where "tq_takeNext (env_now env) (tm_queue m) = (fst (tq_step (tm_queue m) (TakeNext (env_now env))), Some task)"
    and "m' = queue_call (Fail (tt_id task) code retryable (env_now env)) (queue_call (TakeNext (env_now env)) m)"
    and "code = ''request-provider-missing'' \<or> code = ''worker-initialization-failed''"
proof -
  obtain q task where t: "tq_takeNext (env_now env) (tm_queue m) = (q, Some task)"
    using assms by (auto simp: schedule_turn_def split: if_splits prod.splits option.splits)
  then have q: "q = fst (tq_step (tm_queue m) (TakeNext (env_now env)))" by simp
  show thesis
  proof (cases "tm_work m (tt_id task)")
    case None
    then have "m' = queue_call (Fail (tt_id task) ''request-provider-missing'' False (env_now env)) (queue_call (TakeNext (env_now env)) m)"
      using assms t by (simp add: schedule_turn_def Let_def split: if_splits)
    then show thesis using that(2) t q by blast
  next
    case (Some spec)
    then have "m' = (if env_spawn env (tt_id task) then startWorker task spec (queue_call (TakeNext (env_now env)) m)
        else queue_call (Fail (tt_id task) ''worker-initialization-failed'' True (env_now env)) (queue_call (TakeNext (env_now env)) m))"
      using assms t by (simp add: schedule_turn_def Let_def split: if_splits)
    then show thesis using that t q Some by (metis (full_types))
  qed
qed

definition driven :: "TransferQueue \<Rightarrow> TransferManager \<Rightarrow> bool" where
  "driven q m \<longleftrightarrow> (\<exists>xs. tm_queue m = run_ops tq_step q xs)"

lemma driven_call: "driven q m \<Longrightarrow> driven q (queue_call x m)"
proof -
  assume "driven q m"
  then obtain xs where "tm_queue m = run_ops tq_step q xs" by (auto simp: driven_def)
  then have "tm_queue (queue_call x m) = run_ops tq_step q (xs @ [x])" by (simp add: run_ops_append)
  then show ?thesis unfolding driven_def by blast
qed

lemma driven_same: "driven q m \<Longrightarrow> tm_queue m' = tm_queue m \<Longrightarrow> driven q m'"
  by (simp add: driven_def)

interpretation driven: manager_frame "driven q" "\<lambda>_. True" for q
proof
  fix m m' env
  assume "driven q m" "schedule_turn env m = Some m'"
  then show "driven q m'"
  proof (elim schedule_turn_calls)
    fix task spec
    assume "driven q m" "m' = startWorker task spec (queue_call (TakeNext (env_now env)) m)"
    then show ?thesis
      using driven_same [of q "queue_call (TakeNext (env_now env)) m" m'] driven_call [of q m "TakeNext (env_now env)"] by simp
  qed (simp add: driven_call del: tq_step.simps)
qed (auto intro: driven_call driven_same)

lemma driven_deliver:
  assumes "driven q m"
  shows "driven q (handleCredentialError env i e m)" "driven q (handleResult env i r m)"
proof -
  have w: "driven q (m\<lparr>tm_workers := f\<rparr>)" for f using assms by (rule driven_same) simp
  show "driven q (handleCredentialError env i e m)"
    by (simp add: handleCredentialError_def Let_def w driven.call)
  show "driven q (handleResult env i r m)"
    by (simp add: handleResult_def Let_def w driven.settle_ok driven.settles_def split: option.split)
qed

lemma driven_step: "driven q m \<Longrightarrow> driven q (tm_step env m x)"
proof (cases x)
  case OpShutdown
  assume "driven q m"
  then show ?thesis using OpShutdown
    by (auto intro: driven_same driven.requestStop_ok simp: tm_shutdown_def driven_def tm_requestStop_def)
qed (auto simp: unless_stopped_def driven.requestStop_ok driven.enableRecovery_ok driven.enqueue_ok driven.cancel_ok driven.pause_ok
  driven.resume_ok driven.retry_ok driven.dismiss_ok driven.dismissFinished_ok driven.resolveConflict_ok driven.progress_ok
  driven_deliver tm_pauseAll_def tm_resumeAll_def tm_cancelAll_def decide_host_key_def tm_confirmHostKey_def tm_rejectHostKey_def
  ask_host_key_def take_host_key_answer_def intro!: driven.fold_ok)

fun tm_run :: "TransferManager \<Rightarrow> (ManagerEnv \<times> ManagerOp) list \<Rightarrow> TransferManager" where
  "tm_run m [] = m"
| "tm_run m ((env, x) # steps) = tm_run (tm_step env m x) steps"

lemma driven_run: "driven q m \<Longrightarrow> driven q (tm_run m steps)"
  by (induction m steps rule: tm_run.induct) (auto simp: driven_step)

lemma reachable_queue:
  assumes "tm_new n = Some m"
  shows "\<exists>xs. tm_queue (tm_run m steps) = run_ops tq_step (tm_queue m) xs"
    and "tq_inv (tm_queue (tm_run m steps))"
    and "tq_concurrencyLimit (tm_queue (tm_run m steps)) = n"
proof -
  have start: "tq_inv (tm_queue m)" "tq_concurrencyLimit (tm_queue m) = n"
    using assms(1) tq_new_inv by (auto simp: tm_new_def)
  have "driven (tm_queue m) m" unfolding driven_def by (rule exI [of _ "[]"]) simp
  then obtain xs where xs: "tm_queue (tm_run m steps) = run_ops tq_step (tm_queue m) xs"
    using driven_run unfolding driven_def by blast
  then show "\<exists>xs. tm_queue (tm_run m steps) = run_ops tq_step (tm_queue m) xs" ..
  show "tq_inv (tm_queue (tm_run m steps))" unfolding xs using start(1) by (rule tq_machine.inv_run)
  show "tq_concurrencyLimit (tm_queue (tm_run m steps)) = n" using start(2) by (simp add: xs)
qed

section \<open>No task waits while a slot is free\<close>

definition busy :: "TransferManager \<Rightarrow> bool" where
  "busy m \<longleftrightarrow> tm_stopRequested m \<or> queued_tasks (tm_queue m) = 0 \<or> tq_runningCount (tm_queue m) \<ge> tq_concurrencyLimit (tm_queue m)"

lemma queued_none: "find (\<lambda>t. tt_status t = Queued) (tq_tasks q) = None \<Longrightarrow> queued_tasks q = 0"
  by (auto simp: queued_tasks_def find_None_iff filter_empty_conv)

lemma schedule_loop_busy: "busy (schedule_loop env m)"
proof (induction env m rule: schedule_loop.induct)
  case (1 env m)
  show ?case
  proof (cases "schedule_turn env m")
    case None
    then have "tq_runningCount (tm_queue m) \<ge> tq_concurrencyLimit (tm_queue m) \<or> snd (tq_takeNext (env_now env) (tm_queue m)) = None"
      by (auto simp: schedule_turn_def Let_def split: if_splits prod.splits option.splits)
    then have "busy m"
      by (auto simp: busy_def tq_takeNext_def queued_none split: if_splits option.splits)
    then show ?thesis using None by (subst schedule_loop.simps) simp
  next
    case (Some m')
    then show ?thesis using 1 by (subst schedule_loop.simps) simp
  qed
qed

lemma schedule_busy [simp]: "busy (schedule env m)"
  using schedule_loop_busy [of env m] by (auto simp: schedule_def busy_def)

text \<open>Calls that change neither what waits nor what runs.\<close>

definition same_load :: "TransferQueue \<Rightarrow> TransferQueue \<Rightarrow> bool" where
  "same_load q q' \<longleftrightarrow> queued_tasks q' = queued_tasks q \<and> tq_runningCount q' = tq_runningCount q
     \<and> tq_concurrencyLimit q' = tq_concurrencyLimit q"

lemma busy_same_load:
  "busy m \<Longrightarrow> same_load (tm_queue m) (tm_queue m') \<Longrightarrow> (tm_stopRequested m \<Longrightarrow> tm_stopRequested m') \<Longrightarrow> busy m'"
  by (auto simp: busy_def same_load_def)

lemma same_load_refl [simp]: "same_load q q"
  by (simp add: same_load_def)

lemma same_load_trans: "same_load q q' \<Longrightarrow> same_load q' q'' \<Longrightarrow> same_load q q''"
  by (simp add: same_load_def)

lemma same_load_with:
  assumes "\<And>t t'. tq_find i q = Some t \<Longrightarrow> body t = Inr t' \<Longrightarrow>
      holds_worker t' = holds_worker t \<and> (tt_status t' = Queued) = (tt_status t = Queued)"
  shows "same_load q (fst (tq_with i body q))"
proof (cases "tq_find i q")
  case (Some t)
  show ?thesis
  proof (cases "body t")
    case (Inr t')
    have f: "find (\<lambda>t. tt_id t = i) (tq_tasks q) = Some t" using Some by (simp add: tq_find_def)
    show ?thesis
      using assms [OF Some Inr] Some Inr count_update_first [OF f, of holds_worker "\<lambda>_. t'"]
        count_update_first [OF f, of "\<lambda>t. tt_status t = Queued" "\<lambda>_. t'"]
      by (simp add: tq_with_def same_load_def queued_tasks_def tq_runningCount_def split: if_splits)
  qed (use Some in \<open>simp add: tq_with_def\<close>)
qed (simp add: tq_with_def)

lemma same_load_progress: "same_load q (fst (tq_step q (UpdateProgress i n e r)))"
  by (simp, rule same_load_with) (auto simp: updateProgress_body_def holds_worker_def split: if_splits)

lemma same_load_cancel: "map_option tt_status (tq_find i q) = Some Running \<Longrightarrow> same_load q (fst (tq_step q (Cancel i now)))"
  by (simp, rule same_load_with) (auto simp: cancel_body_def tq_transition_def holds_worker_def split: if_splits)

lemma same_load_pause: "map_option tt_status (tq_find i q) = Some Running \<Longrightarrow> same_load q (fst (tq_step q (Pause i)))"
  by (simp, rule same_load_with) (auto simp: pause_body_def tq_transition_def holds_worker_def split: if_splits)

lemma finished_idle: "is_finished t \<Longrightarrow> \<not> holds_worker t \<and> tt_status t \<noteq> Queued"
  by (auto simp: is_finished_def holds_worker_def)

lemma count_erase_first:
  assumes "find P xs = Some x" "\<not> Q x"
  shows "length (filter Q (erase_first P xs)) = length (filter Q xs)"
  using assms by (induction xs) (auto split: if_splits)

lemma same_load_dismiss: "same_load q (fst (tq_step q (Dismiss i)))"
proof (cases "tq_find i q")
  case (Some t)
  have f: "find (\<lambda>t. tt_id t = i) (tq_tasks q) = Some t" using Some by (simp add: tq_find_def)
  show ?thesis
  proof (cases "is_finished t")
    case True
    then have "\<not> holds_worker t" "tt_status t \<noteq> Queued" using finished_idle by auto
    then show ?thesis using Some True count_erase_first [OF f]
      by (auto simp: tq_dismiss_def same_load_def queued_tasks_def tq_runningCount_def is_finished_def)
  qed (use Some in \<open>auto simp: tq_dismiss_def is_finished_def\<close>)
qed (simp add: tq_dismiss_def)

lemma count_filter_idle: "(\<And>t. is_finished t \<Longrightarrow> \<not> Q t) \<Longrightarrow> length (filter Q (filter (\<lambda>t. \<not> is_finished t) ts)) = length (filter Q ts)"
  by (induction ts) auto

lemma same_load_dismissFinished: "same_load q (fst (tq_step q DismissFinished))"
  using count_filter_idle [of holds_worker "tq_tasks q"] count_filter_idle [of "\<lambda>t. tt_status t = Queued" "tq_tasks q"] finished_idle
  by (simp add: tq_dismissFinished_def same_load_def queued_tasks_def tq_runningCount_def)

lemma same_load_restore: "same_load q (fst (tq_step q (RestoreInterrupted t)))"
  by (auto simp: tq_restoreInterrupted_def same_load_def queued_tasks_def tq_runningCount_def holds_worker_def)

lemma restore_loop_load:
  "same_load (tm_queue m) (tm_queue (restore_loop tasks m)) \<and> tm_stopRequested (restore_loop tasks m) = tm_stopRequested m"
proof (induction tasks m rule: restore_loop.induct)
  case (2 task tasks m)
  show ?case
  proof (cases "queue_accepts (RestoreInterrupted task) m")
    case True
    have "same_load (tm_queue m) (tm_queue (queue_call (RestoreInterrupted task) m))"
      using same_load_restore by (simp del: tq_step.simps)
    then show ?thesis using 2(2) [OF _ refl] True by (auto simp: Let_def simp del: tq_step.simps queue_call_fields(1) elim!: same_load_trans)
  next
    case False
    then show ?thesis using 2(1) by simp
  qed
qed simp

lemma busy_frame [simp]:
  "busy (emit_event e m) = busy m" "busy (publishSnapshot env m) = busy m" "busy (map_context i f m) = busy m"
  "busy (m\<lparr>tm_work := w\<rparr>) = busy m" "busy (m\<lparr>tm_workers := ws\<rparr>) = busy m" "busy (m\<lparr>tm_recoveryStore := b\<rparr>) = busy m"
  "busy (persistRecovery env m) = busy m"
  by (simp_all add: busy_def)

lemma busy_call: "busy m \<Longrightarrow> same_load (tm_queue m) (fst (tq_step (tm_queue m) x)) \<Longrightarrow> busy (queue_call x m)"
  by (erule busy_same_load) simp_all

lemma busy_cleanup: "busy m \<Longrightarrow> busy (fold (\<lambda>(task, work). cleanupPartial task work) cs m)"
  by (induction cs arbitrary: m) (auto simp: cleanupPartial_def)

lemma busy_fold: "busy m \<Longrightarrow> (\<And>j m. busy m \<Longrightarrow> busy (f j m)) \<Longrightarrow> busy (fold f js m)"
  by (induction js arbitrary: m) auto

lemma busy_operations:
  assumes "busy m"
  shows "busy (tm_cancel env i m)" "busy (tm_pause env i m)" "busy (tm_resume env i m)" "busy (tm_retry env i m)"
    "busy (tm_dismiss env i m)" "busy (tm_dismissFinished env m)" "busy (tm_resolveConflict env i action path m)"
    "busy (handleProgress env i n e r m)" "busy (handleCredentialError env i c m)" "busy (handleResult env i res m)"
    "busy (tm_enableRecovery env loaded hasFactory m)"
proof -
  show "busy (tm_cancel env i m)"
    using assms same_load_cancel by (auto simp: tm_cancel_def Let_def task_status_def intro!: busy_call simp del: tq_step.simps)
  show "busy (tm_pause env i m)"
    using assms same_load_pause by (auto simp: tm_pause_def Let_def task_status_def intro!: busy_call simp del: tq_step.simps)
  show "busy (tm_dismiss env i m)"
    using assms same_load_dismiss
    by (auto simp: tm_dismiss_def Let_def cleanupPartial_def intro!: busy_call split: option.split simp del: tq_step.simps)
  show "busy (tm_dismissFinished env m)"
    using assms same_load_dismissFinished
    by (auto simp: tm_dismissFinished_def Let_def intro!: busy_cleanup busy_call simp del: tq_step.simps)
  show "busy (handleProgress env i n e r m)"
    using assms same_load_progress by (auto simp: handleProgress_def intro!: busy_call simp del: tq_step.simps)
  have "busy (restore_loop tasks (m\<lparr>tm_recoveryStore := True\<rparr>))" for tasks
    using restore_loop_load [of "m\<lparr>tm_recoveryStore := True\<rparr>" tasks] assms by (intro busy_same_load [OF assms]) auto
  then show "busy (tm_enableRecovery env loaded hasFactory m)"
    using assms by (auto simp: tm_enableRecovery_def Let_def split: option.split)
qed (use assms in \<open>auto simp: tm_resume_def tm_retry_def tm_resolveConflict_def Let_def handleCredentialError_def
      handleResult_def split: option.split\<close>)

lemma busy_step: "busy m \<Longrightarrow> busy (tm_step env m x)"
proof (cases x)
  case OpRequestStop
  then show ?thesis by (simp add: busy_def tm_requestStop_def)
next
  case OpShutdown
  then show "busy m \<Longrightarrow> ?thesis" by (auto simp: busy_def tm_shutdown_def tm_requestStop_def)
next
  case (OpEnqueue task hasProvider options)
  then show "busy m \<Longrightarrow> ?thesis" by (auto simp: tm_enqueue_def Let_def split: prod.split sum.split)
qed (auto simp: unless_stopped_def busy_operations tm_pauseAll_def tm_resumeAll_def tm_cancelAll_def decide_host_key_def
  tm_confirmHostKey_def tm_rejectHostKey_def ask_host_key_def take_host_key_answer_def intro!: busy_fold)

text \<open>
  C8. Work conservation: as long as the manager has not been stopped, no queued task waits while fewer
  tasks than the limit hold a worker, whatever was called and whatever the workers reported.
\<close>

theorem manager_work_conserving:
  assumes "tm_new n = Some m"
  shows "tm_stopRequested (tm_run m steps) \<or> queued_tasks (tm_queue (tm_run m steps)) = 0
    \<or> tq_runningCount (tm_queue (tm_run m steps)) = n"
proof -
  have "busy m" using assms by (auto simp: tm_new_def tq_new_def busy_def queued_tasks_def split: if_splits)
  then have "busy (tm_run m steps)" by (induction m steps rule: tm_run.induct) (auto simp: busy_step)
  then show ?thesis using reachable_queue(2,3) [OF assms, of steps] by (auto simp: busy_def tq_inv_def)
qed

section \<open>Every running task has a worker\<close>

definition holding :: "TransferQueue \<Rightarrow> string set" where
  "holding q = tt_id ` {t \<in> set (tq_tasks q). holds_worker t}"

lemma holding_find: "tq_inv q \<Longrightarrow> i \<in> holding q \<longleftrightarrow> (\<exists>t. tq_find i q = Some t \<and> holds_worker t)"
  using find_by_key [of tt_id "tq_tasks q"] tq_find_in [of i q]
  by (auto simp: holding_def tq_inv_def tq_find_def image_iff)

lemma find_with:
  assumes "tq_inv q" "body_ok body" "tq_find i q = Some t"
  shows "tq_find i (fst (tq_with i body q)) = Some (case body t of Inl _ \<Rightarrow> t | Inr t' \<Rightarrow> t')"
proof (cases "body t")
  case (Inr t')
  have "tt_id t' = i" using assms tq_find_in [OF assms(3)] Inr by (auto simp: body_ok_def tq_inv_def)
  then have "tq_find i (fst (tq_with i body q)) = map_option (\<lambda>_. t') (tq_find i q)"
    using assms(3) Inr find_update_first_same [of tt_id i "\<lambda>_. t'" "tq_tasks q"] by (simp add: tq_with_def tq_find_def)
  then show ?thesis using assms(3) Inr by simp
qed (use assms in \<open>simp add: tq_with_def\<close>)

lemma find_with_other:
  assumes "tq_inv q" "body_ok body" "i \<noteq> j"
  shows "tq_find i (fst (tq_with j body q)) = tq_find i q"
proof (cases "tq_find j q")
  case (Some t)
  show ?thesis
  proof (cases "body t")
    case (Inr t')
    have "tt_id t' = j" using assms tq_find_in [OF Some] Inr by (auto simp: body_ok_def tq_inv_def)
    then show ?thesis
      using Some Inr assms(3) find_update_first_other [of tt_id j "\<lambda>_. t'" i "tq_tasks q"] by (simp add: tq_with_def tq_find_def)
  qed (use Some in \<open>simp add: tq_with_def\<close>)
qed (simp add: tq_with_def)

lemma holding_with:
  assumes "tq_inv q" "body_ok body"
  shows "holding (fst (tq_with j body q)) \<subseteq> holding q"
proof
  fix i assume i: "i \<in> holding (fst (tq_with j body q))"
  have inv: "tq_inv (fst (tq_with j body q))" using assms by (rule tq_with_inv)
  obtain t' where t': "tq_find i (fst (tq_with j body q)) = Some t'" "holds_worker t'"
    using i holding_find [OF inv] by blast
  show "i \<in> holding q"
  proof (cases "i = j")
    case True
    show ?thesis
    proof (cases "tq_find j q")
      case None
      then show ?thesis using t' True by (simp add: tq_with_def)
    next
      case (Some t)
      then have "t \<in> set (tq_tasks q)" using tq_find_in by blast
      then have "validTransferTask t" using assms(1) by (simp add: tq_inv_def)
      then have "holds_worker t"
        using t' True find_with [OF assms Some] assms(2) by (auto simp: body_ok_def split: sum.splits)
      then show ?thesis using holding_find [OF assms(1)] Some True by blast
    qed
  next
    case False
    then show ?thesis using t' find_with_other [OF assms False] holding_find [OF assms(1)] by auto
  qed
qed

lemma holding_subset: "set (tq_tasks q') \<subseteq> set (tq_tasks q) \<Longrightarrow> holding q' \<subseteq> holding q"
  by (auto simp: holding_def)

lemma holding_step:
  assumes "tq_inv q" "\<And>now. x \<noteq> TakeNext now"
  shows "holding (fst (tq_step q x)) \<subseteq> holding q"
proof (cases x)
  case (Enqueue t)
  then show ?thesis by (auto simp: tq_enqueue_def holding_def holds_worker_def)
next
  case (RestoreInterrupted t)
  then show ?thesis by (auto simp: tq_restoreInterrupted_def holding_def holds_worker_def)
next
  case (Dismiss j)
  have "set (tq_tasks (fst (tq_dismiss j q))) \<subseteq> set (tq_tasks q)"
    by (auto simp: tq_dismiss_def dest: subsetD [OF set_erase_first] split: option.splits)
  then show ?thesis using Dismiss holding_subset by simp
next
  case DismissFinished
  then show ?thesis using holding_subset [of "fst (tq_dismissFinished q)" q] by (auto simp: tq_dismissFinished_def)
qed (use assms in \<open>simp_all add: holding_with\<close>)

lemma find_takeNext:
  assumes "tq_inv q" "tq_takeNext now q = (q', Some task)"
  shows "tq_find (tt_id task) q' = Some task" "tt_status task = Running" "holding q' \<subseteq> insert (tt_id task) (holding q)"
    and "\<exists>t. tq_find (tt_id task) q = Some t \<and> tt_status t = Queued"
    and "tq_find i q = Some t \<Longrightarrow> tt_status t \<noteq> Queued \<Longrightarrow> tq_find i q' = Some t"
proof -
  from assms(2) obtain t where t: "find (\<lambda>t. tt_status t = Queued) (tq_tasks q) = Some t" "task = start_task now t"
    "q' = q\<lparr>tq_tasks := update_first (\<lambda>t. tt_status t = Queued) (start_task now) (tq_tasks q)\<rparr>"
    by (auto simp: tq_takeNext_def split: if_splits option.splits)
  have in_q: "t \<in> set (tq_tasks q)" "tt_status t = Queued" using find_Some_in [OF t(1)] by auto
  have id: "tt_id task = tt_id t" by (simp add: t(2) start_task_def)
  show "\<exists>t. tq_find (tt_id task) q = Some t \<and> tt_status t = Queued"
    using find_by_key [of tt_id "tq_tasks q" t] assms(1) in_q by (auto simp: tq_find_def id tq_inv_def)
  show "tt_status task = Running" by (simp add: t(2) start_task_def)
  have inv: "tq_inv q'" using tq_takeNext_inv [OF assms(1), of now] assms(2) by simp
  have sub: "set ts' \<subseteq> insert (start_task now t) (set ts) \<and> start_task now t \<in> set ts'"
    if "find (\<lambda>t. tt_status t = Queued) ts = Some t" "ts' = update_first (\<lambda>t. tt_status t = Queued) (start_task now) ts" for ts ts'
    using that by (induction ts arbitrary: ts') (auto split: if_splits)
  have set_q': "set (tq_tasks q') \<subseteq> insert task (set (tq_tasks q)) \<and> task \<in> set (tq_tasks q')"
    using sub [OF t(1) refl] by (simp add: t(2,3))
  then show "tq_find (tt_id task) q' = Some task"
    using find_by_key [of tt_id "tq_tasks q'" task] inv by (simp add: tq_find_def tq_inv_def)
  show "holding q' \<subseteq> insert (tt_id task) (holding q)" using set_q' by (auto simp: holding_def)
  have "find (\<lambda>u. tt_id u = i) (update_first (\<lambda>t. tt_status t = Queued) (start_task now) ts) = Some u"
    if "find (\<lambda>u. tt_id u = i) ts = Some u" "tt_status u \<noteq> Queued" for ts u
    using that by (induction ts) (auto simp: start_task_def split: if_splits)
  then show "tq_find i q = Some t \<Longrightarrow> tt_status t \<noteq> Queued \<Longrightarrow> tq_find i q' = Some t" for t
    by (simp add: tq_find_def t(3))
qed

text \<open>A task that could not be started has failed, and no longer holds a worker.\<close>

lemma fail_taken:
  assumes "tq_inv q" "tq_takeNext now q = (q', Some task)" "code \<noteq> []" "\<not> containsNull code"
  shows "holding (fst (tq_step q' (Fail (tt_id task) code r now'))) \<subseteq> holding q"
proof -
  have inv: "tq_inv q'" using tq_takeNext_inv [OF assms(1), of now] assms(2) by simp
  note f = find_takeNext [OF assms(1,2)]
  let ?q = "fst (tq_with (tt_id task) (fail_body code r now') q')"
  have "tq_find (tt_id task) ?q = Some (case fail_body code r now' task of Inl _ \<Rightarrow> task | Inr t' \<Rightarrow> t')"
    by (rule find_with [OF inv _ f(1)]) simp
  then have "tt_id task \<notin> holding ?q"
    using assms(3,4) f(2) holding_find [OF tq_with_inv [OF inv, of "fail_body code r now'" "tt_id task"], of "tt_id task"]
    by (simp add: fail_body_def tq_transition_def canTransition.simps holds_worker_def)
  moreover have "holding ?q \<subseteq> holding q'" by (rule holding_with [OF inv]) simp
  ultimately show ?thesis using f(3) by auto
qed

definition served_except :: "string set \<Rightarrow> TransferManager \<Rightarrow> bool" where
  "served_except X m \<longleftrightarrow> tq_inv (tm_queue m) \<and> (tm_stopRequested m \<or> holding (tm_queue m) \<subseteq> X \<union> dom (tm_workers m))"

interpretation served: manager_frame "served_except X" "\<lambda>x. \<forall>now. x \<noteq> TakeNext now" for X
proof
  fix m m' :: TransferManager
  assume "served_except X m" "tm_queue m' = tm_queue m" "dom (tm_workers m) \<subseteq> dom (tm_workers m')"
    and "tm_stopRequested m \<Longrightarrow> tm_stopRequested m'"
  then show "served_except X m'" unfolding served_except_def by (metis Un_mono order_refl subset_trans)
next
  fix m :: TransferManager and x
  assume m: "served_except X m" and x: "\<forall>now. x \<noteq> TakeNext now"
  have "holding (fst (tq_step (tm_queue m) x)) \<subseteq> holding (tm_queue m)"
    using m x by (intro holding_step) (auto simp: served_except_def)
  moreover have "tq_inv (fst (tq_step (tm_queue m) x))"
    using m tq_machine.inv_step by (auto simp: served_except_def simp del: tq_step.simps)
  ultimately show "served_except X (queue_call x m)"
    using m by (auto simp: served_except_def simp del: tq_step.simps)
next
  fix m m' :: TransferManager and env
  assume m: "served_except X m" and turn: "schedule_turn env m = Some m'"
  have inv: "tq_inv (tm_queue m)" using m by (simp add: served_except_def)
  have step_inv: "tq_inv q \<Longrightarrow> tq_inv (fst (tq_step q x))" for q x by (rule tq_machine.inv_step)
  show "served_except X m'"
  proof (cases rule: schedule_turn_calls [OF turn])
    case (1 task spec)
    then show ?thesis using m find_takeNext(3) [OF inv 1(1)] step_inv [OF inv, of "TakeNext (env_now env)"]
      by (auto simp: served_except_def)
  next
    case (2 task code retryable)
    have "code \<noteq> []" "\<not> containsNull code" using 2(3) by (auto simp: containsNull_def)
    then have "holding (tm_queue m') \<subseteq> holding (tm_queue m)"
      using fail_taken [OF inv 2(1)] by (simp add: 2(2) del: tq_step.simps(6))
    moreover have "tq_inv (tm_queue m')" using step_inv [OF step_inv [OF inv]] by (simp add: 2(2) del: tq_step.simps)
    ultimately show ?thesis using m by (auto simp: served_except_def 2(2))
  qed
qed

text \<open>The reports that fit the state a task is in when they are delivered.\<close>

definition report_fits :: "TransferTask \<Rightarrow> TransferExecutionResult \<Rightarrow> bool" where
  "report_fits t r \<longleftrightarrow>
     (let in_bounds = (tt_totalBytes t \<noteq> 0 \<longrightarrow> er_transferredBytes r \<le> tt_totalBytes t)
      in case er_kind r of
           ResultCompleted \<Rightarrow> tt_status t \<noteq> Pausing
         | ResultSkipped \<Rightarrow> tt_status t \<noteq> Pausing
         | ResultNeedsAttention \<Rightarrow> tt_status t = Running
         | ResultPaused \<Rightarrow> tt_status t = Pausing \<and> in_bounds
         | ResultCancelled \<Rightarrow> tt_status t = Cancelling \<or> tt_status t = Pausing \<and> in_bounds
         | ResultFailed \<Rightarrow> True)"

lemma executionErrorCode_ok: "executionErrorCode r \<noteq> [] \<and> \<not> containsNull (executionErrorCode r)"
proof -
  have "transportErrorCode k \<noteq> [] \<and> \<not> containsNull (transportErrorCode k)" for k by (cases k) (auto simp: containsNull_def)
  moreover have "executionKindCode k \<noteq> [] \<and> \<not> containsNull (executionKindCode k)" for k by (cases k) (auto simp: containsNull_def)
  ultimately show ?thesis by (auto simp: executionErrorCode_def containsNull_def split: option.split)
qed

lemma settled_idle:
  assumes "tq_inv q" "tq_find i q = Some t" "body_ok body" "body t = Inr t'" "\<not> holds_worker t'"
  shows "i \<notin> holding (fst (tq_with i body q))"
  using assms find_with [OF assms(1,3,2)] holding_find [OF tq_with_inv [OF assms(1,3)], of i i] by simp

lemma progress_find:
  assumes "tq_inv q" "tq_find i q = Some t"
  obtains t' where "tq_find i (fst (tq_with i (updateProgress_body n e r) q)) = Some t'" "tt_status t' = tt_status t"
  using find_with [OF assms(1) _ assms(2), of "updateProgress_body n e r"]
  by (auto simp: updateProgress_body_def split: if_splits)

lemma settle_idle:
  assumes inv: "tq_inv (tm_queue m)" and find: "tq_find i (tm_queue m) = Some t" and hold: "holds_worker t" and fits: "report_fits t r"
  shows "i \<notin> holding (tm_queue (settle_result env t r m))"
proof -
  have i: "tt_id t = i" using tq_find_in [OF find] by simp
  let ?progress = "updateProgress_body (er_transferredBytes r) (tt_totalBytes t) 0"
  let ?q = "fst (tq_with i ?progress (tm_queue m))"
  have inv': "tq_inv ?q" by (rule tq_with_inv [OF inv]) simp
  obtain t' where t': "tq_find i ?q = Some t'" "tt_status t' = tt_status t" by (rule progress_find [OF inv find])
  have status: "tt_status t = Running \<or> tt_status t = Pausing \<or> tt_status t = Cancelling" using hold by (simp add: holds_worker_def)
  have complete: "i \<notin> holding (fst (tq_with i (complete_body now) ?q))" if "tt_status t \<noteq> Pausing" for now
  proof -
    have "canTransition (tt_status t') Completed" using that status t'(2) by (auto simp: canTransition.simps)
    then have "\<exists>t''. complete_body now t' = Inr t'' \<and> tt_status t'' = Completed"
      by (simp add: complete_body_def tq_transition_def)
    then obtain t'' where "complete_body now t' = Inr t''" "tt_status t'' = Completed" by blast
    then show ?thesis using settled_idle [OF inv' t'(1)] by (simp add: holds_worker_def)
  qed
  have failed: "i \<notin> holding (fst (tq_with i (fail_body (executionErrorCode r) True now) q))"
    if "tq_inv q" "tq_find i q = Some u" "tt_status u = tt_status t" for q u now
  proof -
    have "canTransition (tt_status u) Failed" using that(3) status by (auto simp: canTransition.simps)
    then obtain u' where "fail_body (executionErrorCode r) True now u = Inr u'" "tt_status u' = Failed"
      using executionErrorCode_ok [of r] by (simp add: fail_body_def tq_transition_def)
    then show ?thesis using settled_idle [OF that(1,2)] by (simp add: holds_worker_def)
  qed
  have paused: "i \<notin> holding (fst (tq_with i (markPaused_body (er_transferredBytes r)) (tm_queue m)))"
    if "tt_status t = Pausing" "tt_totalBytes t \<noteq> 0 \<longrightarrow> er_transferredBytes r \<le> tt_totalBytes t"
  proof -
    have "canTransition (tt_status t) Paused" using that(1) by (simp add: canTransition.simps)
    then have "\<exists>u. markPaused_body (er_transferredBytes r) t = Inr u \<and> tt_status u = Paused"
      using that(2) by (auto simp: markPaused_body_def tq_transition_def not_less)
    then obtain u where "markPaused_body (er_transferredBytes r) t = Inr u" "tt_status u = Paused" by blast
    then show ?thesis using settled_idle [OF inv find] by (simp add: holds_worker_def)
  qed
  have cancelled: "i \<notin> holding (fst (tq_with i (cancel_body now) (tm_queue m)))" if "tt_status t = Cancelling" for now
  proof -
    have "\<exists>u. cancel_body now t = Inr u \<and> tt_status u = Cancelled"
      using that by (simp add: cancel_body_def tq_transition_def canTransition.simps)
    then obtain u where "cancel_body now t = Inr u" "tt_status u = Cancelled" by blast
    then show ?thesis using settled_idle [OF inv find] by (simp add: holds_worker_def)
  qed
  have attention: "i \<notin> holding (fst (tq_with i (needsAttention_body ''file-conflict'') (tm_queue m)))" if "tt_status t = Running"
  proof -
    have "\<exists>u. needsAttention_body ''file-conflict'' t = Inr u \<and> tt_status u = NeedsAttention"
      using that by (simp add: needsAttention_body_def tq_transition_def canTransition.simps containsNull_def)
    then obtain u where "needsAttention_body ''file-conflict'' t = Inr u" "tt_status u = NeedsAttention" by blast
    then show ?thesis using settled_idle [OF inv find] by (simp add: holds_worker_def)
  qed
  show ?thesis
  proof (cases "er_kind r")
    case ResultNeedsAttention
    then show ?thesis using fits attention by (simp add: settle_result_def report_fits_def Let_def i split: option.split)
  next
    case ResultFailed
    then show ?thesis using failed [OF inv' t'] failed [OF inv find refl] by (simp add: settle_result_def i)
  next
    case ResultCancelled
    then show ?thesis using fits paused cancelled by (auto simp: settle_result_def report_fits_def i)
  qed (use fits complete paused in \<open>simp_all add: settle_result_def report_fits_def i\<close>)
qed

definition op_fits :: "TransferManager \<Rightarrow> ManagerOp \<Rightarrow> bool" where
  "op_fits m x = (case x of
     DeliverResult i r \<Rightarrow> (case tq_find i (tm_queue m) of None \<Rightarrow> True | Some t \<Rightarrow> (if holds_worker t then report_fits t r else True))
   | DeliverCredentialError i e \<Rightarrow> task_status i m \<notin> {Some Pausing, Some Cancelling}
   | _ \<Rightarrow> True)"

lemma served_drop: "served_except {} m \<Longrightarrow> served_except {i} (m\<lparr>tm_workers := (tm_workers m)(i := None)\<rparr>)"
  by (auto simp: served_except_def)

lemma served_idle: "served_except {i} m \<Longrightarrow> i \<notin> holding (tm_queue m) \<Longrightarrow> served_except {} m"
  by (auto simp: served_except_def)

lemma served_credential:
  assumes m: "served_except {} m" and fits: "task_status i m \<notin> {Some Pausing, Some Cancelling}"
  shows "served_except {} (handleCredentialError env i e m)"
proof -
  let ?m = "m\<lparr>tm_workers := (tm_workers m)(i := None)\<rparr>"
  have inv: "tq_inv (tm_queue m)" using m by (simp add: served_except_def)
  show ?thesis
  proof (cases "task_status i m = Some Running")
    case True
    then obtain t where t: "tq_find i (tm_queue m) = Some t" "tt_status t = Running" by (auto simp: task_status_def)
    obtain u where "needsAttention_body (credentialErrorCode e) t = Inr u" "tt_status u = NeedsAttention"
      using t(2) by (cases e) (auto simp: needsAttention_body_def tq_transition_def canTransition.simps containsNull_def)
    then have "i \<notin> holding (tm_queue (queue_call (NeedAttention i (credentialErrorCode e)) ?m))"
      using settled_idle [OF inv t(1)] by (simp add: holds_worker_def)
    then have "served_except {} (queue_call (NeedAttention i (credentialErrorCode e)) ?m)"
      using served_idle served.call [OF served_drop [OF m]] by blast
    then show ?thesis using True by (simp add: handleCredentialError_def task_status_def Let_def)
  next
    case False
    then have "i \<notin> holding (tm_queue m)" using fits holding_find [OF inv, of i] by (auto simp: task_status_def holds_worker_def)
    then have "served_except {} ?m" using served_idle [OF served_drop [OF m]] by simp
    then show ?thesis using False by (auto simp: handleCredentialError_def task_status_def Let_def)
  qed
qed

lemma served_result:
  assumes m: "served_except {} m"
    and fits: "\<And>t. tq_find i (tm_queue m) = Some t \<Longrightarrow> holds_worker t \<Longrightarrow> report_fits t r"
  shows "served_except {} (handleResult env i r m)"
proof -
  let ?m = "m\<lparr>tm_workers := (tm_workers m)(i := None)\<rparr>"
  have inv: "tq_inv (tm_queue m)" using m by (simp add: served_except_def)
  show ?thesis
  proof (cases "i \<in> holding (tm_queue m)")
    case True
    then obtain t where t: "tq_find i (tm_queue m) = Some t" "holds_worker t" using holding_find [OF inv] by blast
    have "i \<notin> holding (tm_queue (settle_result env t r ?m))"
      by (rule settle_idle [where m = ?m]) (use inv t fits in auto)
    moreover have "served_except {i} (settle_result env t r ?m)"
      using served.settle_ok [OF served_drop [OF m]] by (simp add: served.settles_def)
    ultimately have "served_except {} (settle_result env t r ?m)" by (rule served_idle [rotated])
    then show ?thesis using t by (auto simp: handleResult_def Let_def holds_worker_def)
  next
    case False
    then have idle: "tq_find i (tm_queue m) = Some t \<Longrightarrow> \<not> holds_worker t" for t using holding_find [OF inv] by blast
    have "served_except {} ?m" using served_idle [OF served_drop [OF m]] False by simp
    then show ?thesis using idle by (auto simp: handleResult_def Let_def holds_worker_def split: option.split)
  qed
qed

lemma served_step:
  assumes m: "served_except {} m" and fits: "op_fits m x"
  shows "served_except {} (tm_step env m x)"
proof (cases x)
  case OpShutdown
  then show ?thesis using m served.requestStop_ok [OF m]
    by (auto simp: tm_shutdown_def served_except_def tm_requestStop_def)
next
  case (DeliverResult i r)
  then have "tq_find i (tm_queue m) = Some t \<Longrightarrow> holds_worker t \<Longrightarrow> report_fits t r" for t
    using fits by (simp add: op_fits_def)
  then show ?thesis using DeliverResult served_result [OF m] m by (simp add: unless_stopped_def)
next
  case (DeliverCredentialError i e)
  then show ?thesis using served_credential [OF m] fits m by (simp add: unless_stopped_def op_fits_def)
qed (auto simp: m unless_stopped_def served.requestStop_ok served.enableRecovery_ok served.enqueue_ok served.cancel_ok served.pause_ok
  served.resume_ok served.retry_ok served.dismiss_ok served.dismissFinished_ok served.resolveConflict_ok served.progress_ok
  tm_pauseAll_def tm_resumeAll_def tm_cancelAll_def decide_host_key_def tm_confirmHostKey_def tm_rejectHostKey_def
  ask_host_key_def take_host_key_answer_def intro!: served.fold_ok)

text \<open>A manager whose workers report only what fits.\<close>

inductive attended :: "nat \<Rightarrow> TransferManager \<Rightarrow> bool" for n where
  attended_new: "tm_new n = Some m \<Longrightarrow> attended n m"
| attended_step: "attended n m \<Longrightarrow> op_fits m x \<Longrightarrow> attended n (tm_step env m x)"

text \<open>
  As long as every report fits the state its task is in when it arrives, every task that occupies a slot
  has a worker whose report is still to come, until the manager is stopped: no slot is lost.
\<close>

theorem attended_slots_have_workers:
  assumes "attended n m"
  shows "tm_stopRequested m \<or> (\<forall>t \<in> set (tq_tasks (tm_queue m)). holds_worker t \<longrightarrow> tm_workers m (tt_id t) \<noteq> None)"
proof -
  have "served_except {} m"
    using assms
  proof induction
    case (attended_new m)
    then show ?case by (auto simp: tm_new_def tq_new_def served_except_def tq_inv_def holding_def tq_runningCount_def split: if_splits)
  next
    case (attended_step m x env)
    then show ?case by (simp add: served_step)
  qed
  then show ?thesis by (auto simp: served_except_def holding_def)
qed

section \<open>A lost slot\<close>

definition spares :: "string \<Rightarrow> TqOp \<Rightarrow> bool" where
  "spares i x \<longleftrightarrow> (\<forall>now. x \<noteq> Complete i now) \<and> (\<forall>e r now. x \<noteq> Fail i e r now) \<and> (\<forall>now. x \<noteq> Cancel i now)"

definition stuck :: "string \<Rightarrow> TransferQueue \<Rightarrow> bool" where
  "stuck i q \<longleftrightarrow> tq_inv q \<and> (\<exists>t. tq_find i q = Some t \<and> tt_status t = Cancelling)"

lemma stuck_with:
  assumes "stuck i q" "body_ok body" "j = i \<Longrightarrow> (\<And>t. tt_status t = Cancelling \<Longrightarrow> isl (body t))"
  shows "stuck i (fst (tq_with j body q))"
proof -
  obtain t where t: "tq_inv q" "tq_find i q = Some t" "tt_status t = Cancelling" using assms(1) by (auto simp: stuck_def)
  have inv: "tq_inv (fst (tq_with j body q))" using t(1) assms(2) by (rule tq_with_inv)
  show ?thesis
  proof (cases "j = i")
    case True
    then have "isl (body t)" using assms(3) t(3) by blast
    then have "tq_find i (fst (tq_with j body q)) = Some t"
      using find_with [OF t(1) assms(2) t(2)] True by (cases "body t") auto
    then show ?thesis using t(3) inv by (auto simp: stuck_def)
  next
    case False
    then show ?thesis using find_with_other [OF t(1) assms(2), of i j] t(2,3) inv by (auto simp: stuck_def)
  qed
qed

lemma stuck_step:
  assumes stuck: "stuck i q" and x: "spares i x"
  shows "stuck i (fst (tq_step q x))"
proof -
  obtain t where t: "tq_inv q" "tq_find i q = Some t" "tt_status t = Cancelling" using stuck by (auto simp: stuck_def)
  have inv: "tq_inv (fst (tq_step q x))" using t(1) by (rule tq_machine.inv_step)
  have keep: "stuck i (fst (tq_step q x))" if "tq_find i (fst (tq_step q x)) = Some t"
    using that inv t(3) by (auto simp: stuck_def)
  show ?thesis
  proof (cases x)
    case (Enqueue u)
    then show ?thesis using t by (intro keep) (auto simp: tq_enqueue_def tq_find_def find_append_keyed)
  next
    case (RestoreInterrupted u)
    then show ?thesis using t by (intro keep) (auto simp: tq_restoreInterrupted_def tq_find_def find_append_keyed)
  next
    case (TakeNext now)
    show ?thesis
    proof (cases "snd (tq_takeNext now q)")
      case None
      then have "fst (tq_takeNext now q) = q" by (auto simp: tq_takeNext_def split: if_splits option.splits)
      then show ?thesis using TakeNext stuck by simp
    next
      case (Some task)
      then have "tq_takeNext now q = (fst (tq_takeNext now q), Some task)" by (metis prod.collapse)
      from find_takeNext(5) [OF t(1) this t(2)] show ?thesis using t(3) TakeNext by (intro keep) simp
    qed
  next
    case (Dismiss j)
    have "tq_find i (fst (tq_dismiss j q)) = Some t"
    proof (cases "tq_find j q")
      case (Some u)
      then have "j = i \<Longrightarrow> u = t" using t(2) by simp
      then show ?thesis
        using t Some tq_find_in [OF Some] find_erase_first_other [of tt_id "tq_tasks q" "\<lambda>t. tt_id t = j" u i t]
        by (cases "i = j") (auto simp: tq_dismiss_def tq_inv_def tq_find_def)
    qed (use t in \<open>simp add: tq_dismiss_def\<close>)
    then show ?thesis using Dismiss by (intro keep) simp
  next
    case DismissFinished
    then show ?thesis using t find_filter_distinct [of tt_id "tq_tasks q" i t "\<lambda>t. \<not> is_finished t"]
      by (intro keep) (simp add: tq_dismissFinished_def tq_find_def tq_inv_def is_finished_def)
  qed (use x stuck in \<open>auto simp: spares_def body_defs canTransition.simps Let_def intro!: stuck_with\<close>)
qed

lemma stuck_other: "stuck i q \<Longrightarrow> tq_takeNext now q = (q', Some task) \<Longrightarrow> tt_id task \<noteq> i"
  using find_takeNext(4) [of q now q' task] by (auto simp: stuck_def)

interpretation stuck: manager_frame "\<lambda>m. stuck i (tm_queue m)" "spares i" for i
proof
  fix m m' :: TransferManager and env
  assume m: "stuck i (tm_queue m)" and turn: "schedule_turn env m = Some m'"
  have take: "stuck i (fst (tq_step (tm_queue m) (TakeNext (env_now env))))" by (rule stuck_step [OF m]) (simp add: spares_def)
  show "stuck i (tm_queue m')"
  proof (cases rule: schedule_turn_calls [OF turn])
    case (1 task spec)
    then show ?thesis using take by simp
  next
    case (2 task code retryable)
    have "spares i (Fail (tt_id task) code retryable (env_now env))" using stuck_other [OF m 2(1)] by (simp add: spares_def)
    from stuck_step [OF take this] show ?thesis by (simp add: 2(2) del: tq_step.simps)
  qed
qed (simp_all add: stuck_step del: tq_step.simps)

definition spares_op :: "string \<Rightarrow> ManagerOp \<Rightarrow> bool" where
  "spares_op i x = (case x of OpCancel j \<Rightarrow> j \<noteq> i | DeliverResult j r \<Rightarrow> j \<noteq> i | _ \<Rightarrow> True)"

lemma stuck_manager_step:
  assumes m: "stuck i (tm_queue m)" and x: "spares_op i x"
  shows "stuck i (tm_queue (tm_step env m x))"
proof (cases x)
  case OpCancelAll
  have "i \<notin> set (tm_identifiers (\<lambda>t. tt_status t = Queued \<or> tt_status t = Running \<or> tt_status t = Pausing
      \<or> tt_status t = Paused \<or> tt_status t = NeedsAttention) m)"
    using m find_by_key [of tt_id "tq_tasks (tm_queue m)"] by (auto simp: stuck_def tm_identifiers_def tq_find_def tq_inv_def)
  then show ?thesis using OpCancelAll m
    by (auto simp: tm_cancelAll_def spares_def intro!: stuck.fold_ok stuck.cancel_ok)
next
  case (DeliverResult j r)
  have settles_j: "stuck.settles i j" using DeliverResult x by (simp add: stuck.settles_def spares_def spares_op_def)
  show ?thesis
  proof (cases "tq_find j (tm_queue m)")
    case None
    then show ?thesis using DeliverResult m by (simp add: unless_stopped_def handleResult_def)
  next
    case (Some t)
    then have "tt_id t = j" using tq_find_in by blast
    then show ?thesis using DeliverResult m Some settles_j stuck.settle_ok [where m = "m\<lparr>tm_workers := (tm_workers m)(j := None)\<rparr>" and task = t]
      by (simp add: unless_stopped_def handleResult_def Let_def)
  qed
next
  case (DeliverCredentialError j e)
  then show ?thesis using m stuck.call [where x = "NeedAttention j (credentialErrorCode e)" and m = "m\<lparr>tm_workers := (tm_workers m)(j := None)\<rparr>"]
    by (simp add: unless_stopped_def handleCredentialError_def Let_def spares_def del: tq_step.simps queue_call_fields(1))
qed (use m x in \<open>auto simp: unless_stopped_def stuck.requestStop_ok stuck.enableRecovery_ok stuck.enqueue_ok stuck.cancel_ok
    stuck.pause_ok stuck.resume_ok stuck.retry_ok stuck.dismiss_ok stuck.dismissFinished_ok stuck.resolveConflict_ok stuck.progress_ok
    tm_pauseAll_def tm_resumeAll_def decide_host_key_def tm_confirmHostKey_def tm_rejectHostKey_def spares_def spares_op_def
    ask_host_key_def take_host_key_answer_def tm_shutdown_def tm_requestStop_def intro!: stuck.fold_ok\<close>)

lemma stuck_run: "stuck i (tm_queue m) \<Longrightarrow> list_all (\<lambda>(env, x). spares_op i x) later \<Longrightarrow> stuck i (tm_queue (tm_run m later))"
  by (induction m later rule: tm_run.induct) (auto simp: stuck_manager_step)

text \<open>
  C21. When a worker reports a cancellation that nobody asked the manager for, which is what the executor
  does when the user resolves a file conflict with "cancel", the task goes from Running to Cancelling
  although its worker is gone, and it loses its work item: unless it is cancelled once more by its id, it
  stays Cancelling and occupies its slot for ever, whatever else is called, \<open>cancelAll\<close> and dismissals included.
\<close>

theorem cancelled_report_loses_slot:
  assumes "tq_inv (tm_queue m)" "\<not> tm_stopRequested m" "tq_find i (tm_queue m) = Some t" "tt_status t = Running"
    and "er_kind r = ResultCancelled" "list_all (\<lambda>(env, x). spares_op i x) later"
  shows "task_status i (tm_run (tm_step env m (DeliverResult i r)) later) = Some Cancelling"
proof -
  let ?m = "m\<lparr>tm_workers := (tm_workers m)(i := None)\<rparr>"
  have i: "tt_id t = i" using tq_find_in [OF assms(3)] by simp
  let ?q = "fst (tq_with i (cancel_body (env_now env)) (tm_queue m))"
  have "tq_find i ?q = Some (t\<lparr>tt_status := Cancelling, tt_bytesPerSecond := 0\<rparr>)"
    using find_with [OF assms(1) _ assms(3), of "cancel_body (env_now env)"] assms(4)
    by (simp add: cancel_body_def tq_transition_def canTransition.simps)
  moreover have "tq_inv ?q" by (rule tq_with_inv [OF assms(1)]) simp
  ultimately have "stuck i (tm_queue (settle_result env t r ?m))"
    using assms(4,5) by (auto simp: stuck_def settle_result_def i)
  then have "stuck i (tm_queue (schedule env (publishSnapshot env (settle_result env t r ?m))))"
    by (rule stuck.schedule_ok [OF stuck.publish_ok])
  moreover have "tm_step env m (DeliverResult i r) = schedule env (publishSnapshot env (settle_result env t r ?m))"
    using assms(2-4) by (simp add: unless_stopped_def handleResult_def Let_def)
  ultimately show ?thesis using stuck_run assms(6) by (auto simp: stuck_def task_status_def)
qed

section \<open>A small run\<close>

definition sample_env :: ManagerEnv where
  "sample_env = \<lparr>env_now = 5, env_spawn = (\<lambda>_. True), env_save = (\<lambda>_. True)\<rparr>"

definition sample_steps :: "(ManagerEnv \<times> ManagerOp) list" where
  "sample_steps = [(sample_env, OpEnqueue (sample_task ''a'') True default_options)]"

definition idle_manager :: TransferManager where
  "idle_manager = the (tm_new 1)"

lemma idle_manager_new: "tm_new 1 = Some idle_manager"
  by (simp add: idle_manager_def tm_new_def tq_new_def)

lemma one_task_scheduled:
  assumes "tm_queue m = \<lparr>tq_concurrencyLimit = 1, tq_tasks = [t]\<rparr>" "tt_status t = Queued" "tm_work m (tt_id t) = Some spec"
    and "\<not> tm_stopRequested m"
  shows "tm_queue (schedule sample_env m) = \<lparr>tq_concurrencyLimit = 1, tq_tasks = [start_task 5 t]\<rparr>"
proof -
  let ?m = "startWorker (start_task 5 t) spec (queue_call (TakeNext 5) m)"
  have first: "schedule_turn sample_env m = Some ?m"
    using assms by (simp add: schedule_turn_def sample_env_def tq_takeNext_def tq_runningCount_def holds_worker_def start_task_def)
  have q: "tm_queue ?m = \<lparr>tq_concurrencyLimit = 1, tq_tasks = [start_task 5 t]\<rparr>"
    using assms(1,2) by (simp add: tq_takeNext_def tq_runningCount_def holds_worker_def)
  then have "schedule_turn sample_env ?m = None"
    by (simp add: schedule_turn_def tq_runningCount_def holds_worker_def start_task_def)
  then have "schedule_loop sample_env m = ?m" using first by (simp add: schedule_loop.simps [of _ m] schedule_loop.simps [of _ ?m])
  then show ?thesis using q assms(4) by (simp add: schedule_def)
qed

lemma sample_run_queue:
  "tm_queue (tm_run idle_manager sample_steps) = \<lparr>tq_concurrencyLimit = 1, tq_tasks = [start_task 5 (sample_task ''a'')]\<rparr>"
  "\<not> tm_stopRequested (tm_run idle_manager sample_steps)"
proof -
  let ?m = "queue_call (Enqueue (sample_task ''a'')) idle_manager"
  let ?m' = "publishSnapshot sample_env (?m\<lparr>tm_work := map_emplace ''a'' default_options (tm_work ?m)\<rparr>)"
  have idle: "tm_queue idle_manager = \<lparr>tq_concurrencyLimit = 1, tq_tasks = []\<rparr>" "tm_work idle_manager = Map.empty"
    "\<not> tm_stopRequested idle_manager"
    by (simp_all add: idle_manager_def tm_new_def tq_new_def)
  have valid: "validTransferTask (sample_task ''a'')" by (simp add: sample_task_def validTransferTask_def containsNull_def)
  have task: "tt_id (sample_task ''a'') = ''a''" "tt_status (sample_task ''a'') = Queued" by (simp_all add: sample_task_def)
  have accepted: "tq_enqueue (sample_task ''a'') (tm_queue idle_manager)
      = (\<lparr>tq_concurrencyLimit = 1, tq_tasks = [sample_task ''a'']\<rparr>, Inr ())"
    using valid task by (simp add: tq_enqueue_def idle tq_find_def)
  have run: "tm_run idle_manager sample_steps = schedule sample_env ?m'"
    using accepted idle(3) by (simp add: sample_steps_def tm_enqueue_def Let_def task)
  show "tm_queue (tm_run idle_manager sample_steps) = \<lparr>tq_concurrencyLimit = 1, tq_tasks = [start_task 5 (sample_task ''a'')]\<rparr>"
    unfolding run by (rule one_task_scheduled [where spec = default_options])
      (use accepted idle task in \<open>simp_all add: unit_reply_def map_emplace_def\<close>)
  show "\<not> tm_stopRequested (tm_run idle_manager sample_steps)" unfolding run using idle(3) by simp
qed

theorem manager_work_conserving_witness:
  "tq_runningCount (tm_queue (tm_run idle_manager (sample_steps @ [(sample_env, OpPauseAll)]))) = 1
   \<or> queued_tasks (tm_queue (tm_run idle_manager (sample_steps @ [(sample_env, OpPauseAll)]))) = 0
   \<or> tm_stopRequested (tm_run idle_manager (sample_steps @ [(sample_env, OpPauseAll)]))"
  using manager_work_conserving [OF idle_manager_new] by blast

lemma attended_sample: "attended 1 (tm_run idle_manager sample_steps)"
  using attended_step [OF attended_new [OF idle_manager_new], of "OpEnqueue (sample_task ''a'') True default_options" sample_env]
  by (simp add: sample_steps_def op_fits_def)

theorem attended_slots_have_workers_witness:
  "tm_workers (tm_run idle_manager sample_steps) ''a'' \<noteq> None"
  using attended_slots_have_workers [OF attended_sample] sample_run_queue
  by (simp add: holds_worker_def start_task_def sample_task_def)

theorem cancelled_report_loses_slot_witness:
  "task_status ''a'' (tm_run (tm_step sample_env (tm_run idle_manager sample_steps) (DeliverResult ''a''
      \<lparr>er_kind = ResultCancelled, er_transferredBytes = 0, er_finalDestinationPath = [], er_conflict = None, er_error = None,
        er_transportError = None\<rparr>)) [(sample_env, OpCancelAll), (sample_env, OpDismissFinished)]) = Some Cancelling"
proof (rule cancelled_report_loses_slot)
  show "tq_inv (tm_queue (tm_run idle_manager sample_steps))" using reachable_queue [OF idle_manager_new] by blast
  show "tq_find ''a'' (tm_queue (tm_run idle_manager sample_steps)) = Some (start_task 5 (sample_task ''a''))"
    by (simp add: sample_run_queue tq_find_def start_task_def sample_task_def)
qed (simp_all add: sample_run_queue start_task_def spares_op_def)

end
