(* ===== verification/Transfer_Coordinator.thy ===== *)
theory Transfer_Coordinator
  imports Transfer_Materializer Transfer_Manager
begin

text \<open>
  The owner of the transfer batches: \<open>src/application/sftp/TransferBatchCoordinator\<close>, on top of the transfer
  manager.  The manager signals a snapshot of its tasks after each change, and \<open>applyTaskSnapshot\<close> copies it into
  the entries of the batches; \<open>manager_call\<close> is an operation of the manager followed by the snapshots it
  signalled.  A planner thread is the function \<open>plan_outcome\<close>; its outcome is delivered later, by
  \<open>completePlanning\<close>, at any time.  \<open>bc_published\<close> collects the batches signalled to the interface.  The timer
  and the file of the recovery store are outside of the model.
\<close>

section \<open>The status of a batch\<close>

fun entryStatus :: "TransferStatus \<Rightarrow> TransferPlanEntryStatus" where
  "entryStatus Queued = EntryQueued"
| "entryStatus Running = EntryRunning"
| "entryStatus Pausing = EntryRunning"
| "entryStatus Paused = EntryPaused"
| "entryStatus Cancelling = EntryRunning"
| "entryStatus NeedsAttention = EntryNeedsAttention"
| "entryStatus Completed = EntryCompleted"
| "entryStatus Failed = EntryFailed"
| "entryStatus Cancelled = EntryCancelled"

text \<open>The flags of the loop: some regular file satisfies \<open>P\<close>.\<close>

definition some_regular :: "(TransferPlanEntryStatus \<Rightarrow> bool) \<Rightarrow> TransferBatch \<Rightarrow> bool" where
  "some_regular P b = list_ex (\<lambda>e. te_kind e = RegularFileEntry \<and> P (te_status e)) (tb_entries b)"

definition updateBatchStatus :: "TransferBatch \<Rightarrow> TransferBatch" where
  "updateBatchStatus b =
     (let queuedOrRunning = some_regular (\<lambda>s. s = EntryQueued \<or> s = EntryRunning) b;
          paused = some_regular (\<lambda>s. s = EntryPaused) b;
          needsAttention = some_regular (\<lambda>s. s = EntryNeedsAttention) b;
          failed = some_regular (\<lambda>s. s = EntryFailed) b;
          cancelled = some_regular (\<lambda>s. s = EntryCancelled) b;
          incomplete = some_regular (\<lambda>s. s \<noteq> EntryCompleted \<and> s \<noteq> EntrySkipped) b
      in b\<lparr>tb_status :=
           (if needsAttention then BatchNeedsAttention
            else if queuedOrRunning then BatchRunning
            else if paused then BatchPaused
            else if failed then BatchFailed
            else if cancelled \<and> incomplete then BatchCancelled
            else BatchCompleted)\<rparr>)"

text \<open>
  The last branch is wrong for files that are still interrupted: a batch read from the recovery file has only
  such files left, and if their tasks are not known to the manager it is shown as completed at once.
\<close>

lemma interrupted_batch_completed:
  assumes "list_all (\<lambda>e. te_status e = EntryInterrupted) (tb_entries b)"
  shows "tb_status (updateBatchStatus b) = BatchCompleted"
  using assms by (auto simp: updateBatchStatus_def some_regular_def list_ex_iff list_all_iff)

section \<open>Snapshots of the tasks\<close>

definition apply_entry :: "TransferTask list \<Rightarrow> TransferPlanEntry \<Rightarrow> TransferPlanEntry" where
  "apply_entry tasks e =
     (if te_childTaskId e = [] then e
      else (case find (\<lambda>t. tt_id t = te_childTaskId e) tasks of
              None \<Rightarrow> e
            | Some task \<Rightarrow>
                (let status = entryStatus (tt_status task);
                     errorCode = (if status = EntryFailed then tt_errorCode task else [])
                 in if te_status e \<noteq> status \<or> te_transferredBytes e \<noteq> tt_transferredBytes task \<or> te_errorCode e \<noteq> errorCode
                    then e\<lparr>te_status := status, te_transferredBytes := tt_transferredBytes task, te_errorCode := errorCode\<rparr>
                    else e)))"

definition add_rate :: "TransferTask list \<Rightarrow> TransferPlanEntry \<Rightarrow> u64 \<Rightarrow> u64" where
  "add_rate tasks e bytesPerSecond =
     (if te_childTaskId e = [] then bytesPerSecond
      else (case find (\<lambda>t. tt_id t = te_childTaskId e) tasks of
              None \<Rightarrow> bytesPerSecond
            | Some task \<Rightarrow> (if tt_bytesPerSecond task > - 1 - bytesPerSecond then - 1
                            else bytesPerSecond + tt_bytesPerSecond task)))"

definition apply_batch :: "TransferTask list \<Rightarrow> TransferBatch \<Rightarrow> TransferBatch" where
  "apply_batch tasks b =
     (if tb_status b = BatchDiscovering \<or> tb_entries b = [] then b
      else updateBatchStatus (b\<lparr>tb_entries := map (apply_entry tasks) (tb_entries b),
             tb_bytesPerSecond := fold (add_rate tasks) (tb_entries b) 0\<rparr>))"

text \<open>
  The bytes of a task are copied without looking at the size that was planned: a file that was empty when it was
  planned and has grown since makes its entry, and so the batch, invalid, and the recovery file is no longer written.
\<close>

lemma snapshot_beyond_plan:
  assumes "te_childTaskId e \<noteq> []" "find (\<lambda>t. tt_id t = te_childTaskId e) tasks = Some t" "tt_transferredBytes t > te_totalBytes e"
  shows "\<not> validTransferPlanEntry (apply_entry tasks e)"
  using assms by (auto simp: apply_entry_def validTransferPlanEntry_def Let_def)

section \<open>The coordinator\<close>

record TransferBatchCoordinator =
  bc_manager :: TransferManager
  bc_batches :: "TransferBatch list"
  bc_planners :: "string \<rightharpoonup> bool"
  bc_stopRequested :: bool
  bc_pauseAllRequested :: bool
  bc_published :: "TransferBatch list list"

record PlanningOutcome =
  po_batchId :: string
  po_batch :: "TransferBatch option"
  po_tasks :: "TransferTask list"
  po_errorCode :: string

datatype TransferBatchCoordinatorError = CoordinatorInvalidRequest | CoordinatorCapacity | CoordinatorUnavailable

definition maximumTransferBatches :: nat where "maximumTransferBatches = 32"

definition bc_new :: "TransferManager \<Rightarrow> TransferBatchCoordinator" where
  "bc_new m = \<lparr>bc_manager = m, bc_batches = [], bc_planners = Map.empty, bc_stopRequested = False,
     bc_pauseAllRequested = False, bc_published = []\<rparr>"

definition bc_publishSnapshot :: "TransferBatchCoordinator \<Rightarrow> TransferBatchCoordinator" where
  "bc_publishSnapshot c = c\<lparr>bc_published := bc_published c @ [bc_batches c]\<rparr>"

definition applyTaskSnapshot :: "TransferTask list \<Rightarrow> TransferBatchCoordinator \<Rightarrow> TransferBatchCoordinator" where
  "applyTaskSnapshot tasks c =
     (let batches = map (apply_batch tasks) (bc_batches c);
          changed = (batches \<noteq> bc_batches c);
          c' = c\<lparr>bc_batches := batches\<rparr>
      in if changed then bc_publishSnapshot c' else c')"

text \<open>An operation of the manager, and the snapshots it signals to the coordinator while it runs.\<close>

fun snapshots :: "ManagerEvent list \<Rightarrow> TransferTask list list" where
  "snapshots [] = []"
| "snapshots (e # es) = (case e of TasksChanged tasks \<Rightarrow> tasks # snapshots es | _ \<Rightarrow> snapshots es)"

definition manager_call :: "ManagerEnv \<Rightarrow> ManagerOp \<Rightarrow> TransferBatchCoordinator \<Rightarrow> TransferBatchCoordinator" where
  "manager_call env x c =
     (let m = bc_manager c; m' = tm_step env m x
      in fold applyTaskSnapshot (snapshots (drop (length (tm_events m)) (tm_events m'))) (c\<lparr>bc_manager := m'\<rparr>))"

definition findBatch :: "string \<Rightarrow> TransferBatchCoordinator \<Rightarrow> TransferBatch option" where
  "findBatch batchId c = find (\<lambda>b. tb_id b = batchId) (bc_batches c)"

definition batch_children :: "TransferBatch \<Rightarrow> string list" where
  "batch_children b = filter (\<lambda>i. i \<noteq> []) (map te_childTaskId (tb_entries b))"

definition forEachChild :: "ManagerEnv \<Rightarrow> (string \<Rightarrow> ManagerOp) \<Rightarrow> TransferBatch \<Rightarrow> TransferBatchCoordinator \<Rightarrow> TransferBatchCoordinator" where
  "forEachChild env operation b = fold (\<lambda>taskId. manager_call env (operation taskId)) (batch_children b)"

definition owns_task :: "string \<Rightarrow> TransferBatch \<Rightarrow> bool" where
  "owns_task taskId b = list_ex (\<lambda>e. te_childTaskId e = taskId) (tb_entries b)"

definition ownsChildTask :: "string \<Rightarrow> TransferBatchCoordinator \<Rightarrow> bool" where
  "ownsChildTask taskId c = list_ex (owns_task taskId) (bc_batches c)"

definition automaticConflictPolicy :: "string \<Rightarrow> TransferBatchCoordinator \<Rightarrow> TransferConflictPolicy option" where
  "automaticConflictPolicy taskId c =
     (case find (owns_task taskId) (bc_batches c) of
        None \<Rightarrow> None
      | Some b \<Rightarrow>
          (if \<not> tb_applyConflictPolicyToRemaining b
              \<or> (tb_conflictPolicy b \<noteq> ReplacePolicy \<and> tb_conflictPolicy b \<noteq> SkipPolicy) then None
           else Some (tb_conflictPolicy b)))"

definition setConflictPolicyForChild :: "string \<Rightarrow> TransferConflictPolicy \<Rightarrow> bool \<Rightarrow> TransferBatchCoordinator \<Rightarrow> TransferBatchCoordinator" where
  "setConflictPolicyForChild taskId policy applyToRemaining c =
     (case find (owns_task taskId) (bc_batches c) of
        None \<Rightarrow> c
      | Some _ \<Rightarrow> bc_publishSnapshot (c\<lparr>bc_batches := update_first (owns_task taskId)
          (\<lambda>b. b\<lparr>tb_conflictPolicy := policy,
            tb_applyConflictPolicyToRemaining := (applyToRemaining \<and> (policy = ReplacePolicy \<or> policy = SkipPolicy))\<rparr>)
          (bc_batches c)\<rparr>))"

definition bc_enqueue :: "TransferPlanRequest \<Rightarrow> bool \<Rightarrow> string \<Rightarrow> TransferBatchCoordinator
    \<Rightarrow> TransferBatchCoordinator \<times> (TransferBatchCoordinatorError + string)" where
  "bc_enqueue request hasProvider encoding c =
     (let placeholder = request_batch request
      in if bc_stopRequested c \<or> \<not> hasProvider \<or> encoding = [] \<or> \<not> validTransferBatch placeholder
         then (c, Inl CoordinatorInvalidRequest)
         else if length (bc_batches c) \<ge> maximumTransferBatches \<or> bc_planners c (rq_batchId request) \<noteq> None
             \<or> findBatch (rq_batchId request) c \<noteq> None
         then (c, Inl CoordinatorCapacity)
         else (let c' = bc_publishSnapshot (c\<lparr>bc_batches := bc_batches c @ [placeholder]\<rparr>)
               in (c'\<lparr>bc_planners := map_emplace (rq_batchId request) False (bc_planners c')\<rparr>, Inr (rq_batchId request))))"

text \<open>
  The planner thread.  \<open>connection k\<close> is what the \<open>k\<close>-th call of the request provider and the client
  factory make of it: no credentials, no client, or a client; \<open>stopped\<close> is the stop token when the error code
  is chosen, \<open>throws\<close> whether something throws.
\<close>

datatype ClientOutcome = NoCredentials | NoClient | HasClient

definition plan_outcome :: "stop_token \<Rightarrow> bool \<Rightarrow> bool \<Rightarrow> ClientOutcome \<Rightarrow> source_stat \<Rightarrow> source_list \<Rightarrow> stop_token
    \<Rightarrow> TransferTarget \<Rightarrow> string \<Rightarrow> TransferPlanRequest \<Rightarrow> PlanningOutcome" where
  "plan_outcome stop stopped throws connection stat list_of stop' target encoding request =
     (let outcome = (\<lambda>b ts code. \<lparr>po_batchId = rq_batchId request, po_batch = b, po_tasks = ts, po_errorCode = code\<rparr>);
          planned = planTransferTree stop stat list_of request;
          materialize = (\<lambda>b. case materializeTransferBatch stop' target b (connection = HasClient) encoding of
             (b', Inl _) \<Rightarrow> outcome (Some b') [] (if stopped then ''cancelled'' else ''materialization'')
           | (b', Inr tasks) \<Rightarrow> outcome (Some b') tasks [])
      in if throws then outcome None [] ''planning-exception''
         else if rq_direction request = BatchDownload then
           (case connection of
              NoCredentials \<Rightarrow> outcome None [] ''credentials-unavailable''
            | NoClient \<Rightarrow> outcome None [] (if stopped then ''cancelled'' else ''remote-planning'')
            | HasClient \<Rightarrow>
                (case planned of
                   Inl _ \<Rightarrow> outcome None [] (if stopped then ''cancelled'' else ''remote-planning'')
                 | Inr b \<Rightarrow> materialize b))
         else
           (case planned of
              Inl _ \<Rightarrow> outcome None [] (if stopped then ''cancelled'' else ''local-planning'')
            | Inr b \<Rightarrow>
                (case connection of
                   NoCredentials \<Rightarrow> outcome None [] ''credentials-unavailable''
                 | NoClient \<Rightarrow> outcome None [] ''remote-materialization''
                 | HasClient \<Rightarrow> materialize b)))"

definition bc_requestStop :: "TransferBatchCoordinator \<Rightarrow> TransferBatchCoordinator" where
  "bc_requestStop c = c\<lparr>bc_stopRequested := True, bc_planners := map_option (\<lambda>_. True) \<circ> bc_planners c\<rparr>"

definition bc_onChildren :: "ManagerEnv \<Rightarrow> (string \<Rightarrow> ManagerOp) \<Rightarrow> string \<Rightarrow> TransferBatchCoordinator \<Rightarrow> TransferBatchCoordinator" where
  "bc_onChildren env operation batchId c =
     (case findBatch batchId c of None \<Rightarrow> c | Some b \<Rightarrow> forEachChild env operation b c)"

definition bc_pause :: "ManagerEnv \<Rightarrow> string \<Rightarrow> TransferBatchCoordinator \<Rightarrow> TransferBatchCoordinator" where
  "bc_pause env = bc_onChildren env OpPause"

definition bc_resume :: "ManagerEnv \<Rightarrow> string \<Rightarrow> TransferBatchCoordinator \<Rightarrow> TransferBatchCoordinator" where
  "bc_resume env = bc_onChildren env OpResume"

definition bc_retry :: "ManagerEnv \<Rightarrow> string \<Rightarrow> TransferBatchCoordinator \<Rightarrow> TransferBatchCoordinator" where
  "bc_retry env = bc_onChildren env OpRetry"

definition bc_cancel :: "ManagerEnv \<Rightarrow> string \<Rightarrow> TransferBatchCoordinator \<Rightarrow> TransferBatchCoordinator" where
  "bc_cancel env batchId c =
     (let c1 = (case bc_planners c batchId of None \<Rightarrow> c | Some _ \<Rightarrow> c\<lparr>bc_planners := (bc_planners c)(batchId \<mapsto> True)\<rparr>)
      in case findBatch batchId c1 of
           None \<Rightarrow> c1
         | Some b \<Rightarrow> bc_publishSnapshot (forEachChild env OpCancel b
             (c1\<lparr>bc_batches := update_first (\<lambda>b. tb_id b = batchId) (\<lambda>b. b\<lparr>tb_status := BatchCancelled\<rparr>) (bc_batches c1)\<rparr>)))"

definition bc_dismiss :: "ManagerEnv \<Rightarrow> string \<Rightarrow> TransferBatchCoordinator \<Rightarrow> TransferBatchCoordinator" where
  "bc_dismiss env batchId c =
     (case findBatch batchId c of
        None \<Rightarrow> c
      | Some b \<Rightarrow>
          (if bc_planners c batchId \<noteq> None \<or> (tb_status b \<noteq> BatchCompleted \<and> tb_status b \<noteq> BatchFailed
              \<and> tb_status b \<noteq> BatchCancelled \<and> tb_status b \<noteq> BatchInterrupted) then c
           else (let c' = forEachChild env OpDismiss b c
                 in bc_publishSnapshot (c'\<lparr>bc_batches := erase_first (\<lambda>b. tb_id b = batchId) (bc_batches c')\<rparr>))))"

definition bc_pauseAll :: "ManagerEnv \<Rightarrow> TransferBatchCoordinator \<Rightarrow> TransferBatchCoordinator" where
  "bc_pauseAll env c = fold (forEachChild env OpPause) (bc_batches c) (c\<lparr>bc_pauseAllRequested := True\<rparr>)"

definition bc_resumeAll :: "ManagerEnv \<Rightarrow> TransferBatchCoordinator \<Rightarrow> TransferBatchCoordinator" where
  "bc_resumeAll env c = fold (forEachChild env OpResume) (bc_batches c) (c\<lparr>bc_pauseAllRequested := False\<rparr>)"

definition bc_cancelAll :: "ManagerEnv \<Rightarrow> TransferBatchCoordinator \<Rightarrow> TransferBatchCoordinator" where
  "bc_cancelAll env c = fold (bc_cancel env) (map tb_id (bc_batches c)) c"

text \<open>A task of the outcome is handed to the manager; \<open>i\<close> is the position of the placeholder.\<close>

definition reject_entry :: "string \<Rightarrow> TransferBatch \<Rightarrow> TransferBatch" where
  "reject_entry childId b =
     b\<lparr>tb_entries := update_first (\<lambda>e. te_childTaskId e = childId)
         (\<lambda>e. e\<lparr>te_status := EntryFailed, te_errorCode := ''queue-rejected''\<rparr>) (tb_entries b),
       tb_status := BatchFailed\<rparr>"

definition hand_over :: "ManagerEnv \<Rightarrow> nat \<Rightarrow> TransferTask \<Rightarrow> TransferBatchCoordinator \<Rightarrow> TransferBatchCoordinator" where
  "hand_over env i task c =
     (let queued = snd (tm_enqueue env task True default_options (bc_manager c));
          c' = manager_call env (OpEnqueue task True default_options) c
      in if isl queued then c'\<lparr>bc_batches := (bc_batches c')[i := reject_entry (tt_id task) (bc_batches c' ! i)]\<rparr>
         else if bc_pauseAllRequested c' then manager_call env (OpPause (tt_id task)) c' else c')"

definition batch_position :: "string \<Rightarrow> TransferBatchCoordinator \<Rightarrow> nat" where
  "batch_position batchId c = length (takeWhile (\<lambda>b. tb_id b \<noteq> batchId) (bc_batches c))"

definition completePlanning :: "ManagerEnv \<Rightarrow> PlanningOutcome \<Rightarrow> TransferBatchCoordinator \<Rightarrow> TransferBatchCoordinator" where
  "completePlanning env outcome c =
     (let c1 = c\<lparr>bc_planners := (bc_planners c)(po_batchId outcome := None)\<rparr>;
          i = batch_position (po_batchId outcome) c1
      in case findBatch (po_batchId outcome) c1 of
           None \<Rightarrow> c1
         | Some placeholder \<Rightarrow>
             (if tb_status placeholder = BatchCancelled then c1
              else if po_batch outcome = None \<or> po_errorCode outcome \<noteq> [] then
                bc_publishSnapshot (c1\<lparr>bc_batches := (bc_batches c1)[i := placeholder\<lparr>
                  tb_status := (if po_errorCode outcome = ''cancelled'' then BatchCancelled else BatchFailed),
                  tb_discoveryErrorCode := po_errorCode outcome\<rparr>]\<rparr>)
              else bc_publishSnapshot (fold (hand_over env i) (po_tasks outcome)
                (c1\<lparr>bc_batches := (bc_batches c1)[i := the (po_batch outcome)]\<rparr>))))"

definition bc_enableRecovery :: "TransferBatch list option \<Rightarrow> TransferBatchCoordinator \<Rightarrow> TransferBatchCoordinator" where
  "bc_enableRecovery recovered c =
     (if bc_stopRequested c then c
      else (case recovered of
              None \<Rightarrow> c
            | Some batches \<Rightarrow> bc_publishSnapshot
                (applyTaskSnapshot (tq_tasks (tm_queue (bc_manager c))) (c\<lparr>bc_batches := batches\<rparr>))))"

section \<open>The coordinator as a machine\<close>

datatype CoordinatorOp =
  EnqueueBatch TransferPlanRequest bool string | PauseBatch string | ResumeBatch string | CancelBatch string | RetryBatch string
| DismissBatch string | PauseAllBatches | ResumeAllBatches | CancelAllBatches | CompletePlanning PlanningOutcome
| SetConflictPolicy string TransferConflictPolicy bool | EnableBatchRecovery "TransferBatch list option" | StopCoordinator
| ManagerOperation ManagerOp

fun bc_step :: "ManagerEnv \<Rightarrow> TransferBatchCoordinator \<Rightarrow> CoordinatorOp \<Rightarrow> TransferBatchCoordinator" where
  "bc_step env c (EnqueueBatch request hasProvider encoding) = fst (bc_enqueue request hasProvider encoding c)"
| "bc_step env c (PauseBatch i) = bc_pause env i c"
| "bc_step env c (ResumeBatch i) = bc_resume env i c"
| "bc_step env c (CancelBatch i) = bc_cancel env i c"
| "bc_step env c (RetryBatch i) = bc_retry env i c"
| "bc_step env c (DismissBatch i) = bc_dismiss env i c"
| "bc_step env c PauseAllBatches = bc_pauseAll env c"
| "bc_step env c ResumeAllBatches = bc_resumeAll env c"
| "bc_step env c CancelAllBatches = bc_cancelAll env c"
| "bc_step env c (CompletePlanning outcome) = completePlanning env outcome c"
| "bc_step env c (SetConflictPolicy i policy applyToRemaining) = setConflictPolicyForChild i policy applyToRemaining c"
| "bc_step env c (EnableBatchRecovery recovered) = bc_enableRecovery recovered c"
| "bc_step env c StopCoordinator = bc_requestStop c"
| "bc_step env c (ManagerOperation x) = manager_call env x c"

section \<open>What the manager signals\<close>

lemma snapshots_append [simp]: "snapshots (es @ fs) = snapshots es @ snapshots fs"
  by (induction es) (auto split: ManagerEvent.split)

text \<open>The events after an operation, and the last snapshot among them.\<close>

definition signals :: "TransferManager \<Rightarrow> TransferManager \<Rightarrow> bool" where
  "signals m m' \<longleftrightarrow> (\<exists>es. tm_events m' = tm_events m @ es)"

definition up_to_date :: "TransferManager \<Rightarrow> TransferManager \<Rightarrow> bool" where
  "up_to_date m m' \<longleftrightarrow> (\<exists>es. tm_events m' = tm_events m @ es
     \<and> (if snapshots es = [] then tq_tasks (tm_queue m') = tq_tasks (tm_queue m)
        else last (snapshots es) = tq_tasks (tm_queue m')))"

lemma signals_refl [simp]: "signals m m"
  by (simp add: signals_def)

lemma signals_trans: "signals m m' \<Longrightarrow> signals m' m'' \<Longrightarrow> signals m m''"
  by (auto simp: signals_def)

lemma up_to_date_refl [simp]: "up_to_date m m"
  by (auto simp: up_to_date_def)

lemma up_to_date_signals: "up_to_date m m' \<Longrightarrow> signals m m'"
  by (auto simp: up_to_date_def signals_def)

lemma up_to_date_trans: "up_to_date m m' \<Longrightarrow> up_to_date m' m'' \<Longrightarrow> up_to_date m m''"
  unfolding up_to_date_def by (elim exE conjE, rule_tac x = "es @ esa" in exI) (auto split: if_splits)

lemma signals_same: "signals m m' \<Longrightarrow> tm_events m'' = tm_events m' \<Longrightarrow> signals m m''"
  by (auto simp: signals_def)

lemma up_to_date_same:
  "up_to_date m m' \<Longrightarrow> tm_events m'' = tm_events m' \<Longrightarrow> tq_tasks (tm_queue m'') = tq_tasks (tm_queue m') \<Longrightarrow> up_to_date m m''"
  by (auto simp: up_to_date_def)

lemma events_fields [simp]:
  "tm_events (queue_call x m) = tm_events m" "tm_events (map_context i f m) = tm_events m"
  by (auto simp: queue_call_def map_context_def split: option.splits)

lemma signals_emit: "signals m m' \<Longrightarrow> signals m (emit_event e m')"
  by (auto simp: signals_def emit_event_def)

lemma signals_persist: "signals m m' \<Longrightarrow> signals m (persistRecovery env m')"
  by (auto simp: persistRecovery_def signals_def emit_event_def)

lemma up_to_date_emit: "up_to_date m m' \<Longrightarrow> (\<And>ts. e \<noteq> TasksChanged ts) \<Longrightarrow> up_to_date m (emit_event e m')"
  unfolding up_to_date_def
  by (elim exE conjE, rule_tac x = "es @ [e]" in exI) (auto simp: emit_event_def split: ManagerEvent.split)

lemma publish_up_to_date: "signals m m' \<Longrightarrow> up_to_date m (publishSnapshot env m')"
  using signals_persist [of m m' env]
  by (auto simp: publishSnapshot_def Let_def up_to_date_def signals_def emit_event_def)

lemma signals_turn: "schedule_turn env m = Some m' \<Longrightarrow> signals m m'"
  by (elim schedule_turn_calls) (auto simp: signals_def startWorker_def emit_event_def)

lemma signals_loop: "signals m (schedule_loop env m)"
proof (induction env m rule: schedule_loop.induct)
  case (1 env m)
  then show ?case by (subst schedule_loop.simps) (auto split: option.splits intro: signals_trans signals_turn)
qed

lemma schedule_up_to_date: "up_to_date m m' \<Longrightarrow> up_to_date m (schedule env m')"
  using publish_up_to_date [OF signals_trans [OF up_to_date_signals signals_loop]] by (auto simp: schedule_def)

lemma publish_call: "signals m m' \<Longrightarrow> up_to_date m (publishSnapshot env (queue_call x m'))"
  by (rule publish_up_to_date) (auto elim: signals_same)

lemma up_to_date_fold: "(\<And>j m. up_to_date m (f j m)) \<Longrightarrow> up_to_date m (fold f js m)"
  by (induction js arbitrary: m) (auto intro: up_to_date_trans)

lemma signals_fold: "(\<And>j m. signals m (f j m)) \<Longrightarrow> signals m (fold f js m)"
  by (induction js arbitrary: m) (auto intro: signals_trans)

lemma signals_settle: "signals m (settle_result env task r m)"
  by (cases "er_kind r") (auto simp: settle_result_def Let_def signals_def emit_event_def split: option.split)

lemma signals_restore: "signals m (restore_loop tasks m)"
proof (induction tasks m rule: restore_loop.induct)
  case (2 task tasks m)
  show ?case
  proof (cases "queue_accepts (RestoreInterrupted task) m")
    case True
    have "signals m ((queue_call (RestoreInterrupted task) m)\<lparr>tm_work := w\<rparr>)" for w by (simp add: signals_def)
    then show ?thesis using 2(2) True by (auto simp: Let_def intro: signals_trans)
  next
    case False
    then show ?thesis using 2(1) signals_emit [OF signals_refl] by (auto intro: signals_trans)
  qed
qed simp

lemma signals_cleanup: "signals m (fold (\<lambda>(task, work). cleanupPartial task work) cs m)"
  by (rule signals_fold) (auto simp: cleanupPartial_def signals_emit)

lemma up_to_date_context: "up_to_date m (map_context i f m)"
  by (rule up_to_date_same [OF up_to_date_refl]) auto

lemma up_to_date_workers: "up_to_date m (m\<lparr>tm_workers := w\<rparr>)"
  by (rule up_to_date_same [OF up_to_date_refl]) auto

lemma operations_up_to_date:
  "up_to_date m (fst (tm_enqueue env task hasProvider options m))" "up_to_date m (tm_cancel env i m)" "up_to_date m (tm_pause env i m)"
  "up_to_date m (tm_resume env i m)" "up_to_date m (tm_retry env i m)" "up_to_date m (tm_dismiss env i m)"
  "up_to_date m (tm_dismissFinished env m)" "up_to_date m (tm_resolveConflict env i action path m)"
  "up_to_date m (handleProgress env i n e r m)" "up_to_date m (handleCredentialError env i c m)"
  "up_to_date m (handleResult env i res m)" "up_to_date m (tm_enableRecovery env loaded hasFactory m)"
proof -
  have work: "signals m' (m'\<lparr>tm_work := w\<rparr>)" for m' w by (simp add: signals_def)
  have call: "signals m' (queue_call x m')" for m' x by (simp add: signals_def)
  have ctxt: "signals m' (map_context i f m')" for m' i f by (simp add: signals_def)
  have workers: "signals m (m\<lparr>tm_workers := w\<rparr>)" for w by (simp add: signals_def)
  show "up_to_date m (fst (tm_enqueue env task hasProvider options m))"
    by (auto simp: tm_enqueue_def Let_def intro!: schedule_up_to_date publish_up_to_date signals_trans [OF call work]
      split: prod.split sum.split)
  show "up_to_date m (tm_cancel env i m)"
    by (auto simp: tm_cancel_def Let_def up_to_date_context intro!: schedule_up_to_date publish_up_to_date signals_trans [OF signals_trans [OF ctxt call] work])
  show "up_to_date m (tm_pause env i m)"
    by (auto simp: tm_pause_def Let_def intro!: schedule_up_to_date publish_up_to_date signals_trans [OF call ctxt])
  show "up_to_date m (tm_resume env i m)" by (auto simp: tm_resume_def intro!: schedule_up_to_date publish_call)
  show "up_to_date m (tm_retry env i m)" by (auto simp: tm_retry_def intro!: schedule_up_to_date publish_call)
  show "up_to_date m (tm_dismiss env i m)"
    by (auto simp: tm_dismiss_def Let_def cleanupPartial_def intro!: publish_up_to_date signals_emit signals_trans [OF call work] split: option.split)
  show "up_to_date m (tm_dismissFinished env m)"
    by (auto simp: tm_dismissFinished_def Let_def intro!: publish_up_to_date signals_trans [OF signals_trans [OF call signals_cleanup] work])
  show "up_to_date m (tm_resolveConflict env i action path m)"
    by (auto simp: tm_resolveConflict_def Let_def intro!: schedule_up_to_date publish_call work up_to_date_same [OF up_to_date_refl] split: option.split)
  show "up_to_date m (handleProgress env i n e r m)" by (auto simp: handleProgress_def intro!: publish_call)
  show "up_to_date m (handleCredentialError env i c m)"
    by (auto simp: handleCredentialError_def Let_def up_to_date_workers intro!: schedule_up_to_date publish_call workers)
  show "up_to_date m (handleResult env i res m)"
    by (auto simp: handleResult_def Let_def up_to_date_workers intro!: schedule_up_to_date publish_up_to_date signals_trans [OF workers signals_settle] split: option.split)
  have "signals m (restore_loop tasks (m\<lparr>tm_recoveryStore := True\<rparr>))" for tasks
    by (rule signals_trans [OF _ signals_restore]) (simp add: signals_def)
  moreover have "up_to_date m (m\<lparr>tm_recoveryStore := True\<rparr>)" by (rule up_to_date_same [OF up_to_date_refl]) auto
  ultimately show "up_to_date m (tm_enableRecovery env loaded hasFactory m)"
    by (auto simp: tm_enableRecovery_def Let_def intro!: publish_up_to_date up_to_date_emit split: option.split)
qed

lemma step_up_to_date: "up_to_date m (tm_step env m x)"
proof (cases x)
  case OpRequestStop
  then show ?thesis by (auto simp: tm_requestStop_def intro: up_to_date_same [OF up_to_date_refl])
next
  case OpShutdown
  have "up_to_date m (persistRecovery env ((tm_requestStop m)\<lparr>tm_workers := Map.empty\<rparr>))"
    unfolding up_to_date_def by (auto simp: persistRecovery_def tm_requestStop_def emit_event_def)
  then show ?thesis using OpShutdown by (auto simp: tm_shutdown_def intro: up_to_date_same)
qed (auto simp: unless_stopped_def operations_up_to_date up_to_date_context up_to_date_emit decide_host_key_def tm_confirmHostKey_def
  tm_rejectHostKey_def ask_host_key_def take_host_key_answer_def tm_pauseAll_def tm_resumeAll_def tm_cancelAll_def
  intro!: up_to_date_fold up_to_date_emit)

section \<open>The entries mirror the queue\<close>

text \<open>An entry whose task the queue holds shows the status and the progress of that task.\<close>

definition mirrors :: "TransferTask list \<Rightarrow> TransferPlanEntry \<Rightarrow> bool" where
  "mirrors tasks e \<longleftrightarrow> (case find (\<lambda>t. tt_id t = te_childTaskId e) tasks of
     None \<Rightarrow> True
   | Some t \<Rightarrow> te_childTaskId e = []
       \<or> te_status e = entryStatus (tt_status t) \<and> te_transferredBytes e = tt_transferredBytes t)"

definition batch_mirrors :: "TransferTask list \<Rightarrow> TransferBatch \<Rightarrow> bool" where
  "batch_mirrors tasks b \<longleftrightarrow> (\<forall>e \<in> set (tb_entries b). mirrors tasks e) \<and> (tb_status b = BatchDiscovering \<longrightarrow> tb_entries b = [])"

definition coordinator_tasks :: "TransferBatchCoordinator \<Rightarrow> TransferTask list" where
  "coordinator_tasks c = tq_tasks (tm_queue (bc_manager c))"

definition bc_inv :: "TransferBatchCoordinator \<Rightarrow> bool" where
  "bc_inv c \<longleftrightarrow> (\<forall>b \<in> set (bc_batches c). batch_mirrors (coordinator_tasks c) b)"

lemma apply_entry_mirrors: "mirrors tasks (apply_entry tasks e)"
  by (auto simp: mirrors_def apply_entry_def Let_def split: option.split)

lemma updateBatchStatus_frame [simp]:
  "tb_entries (updateBatchStatus b) = tb_entries b" "tb_id (updateBatchStatus b) = tb_id b"
  "tb_status (updateBatchStatus b) \<noteq> BatchDiscovering"
  by (auto simp: updateBatchStatus_def Let_def)

lemma apply_batch_mirrors: "(tb_status b = BatchDiscovering \<Longrightarrow> tb_entries b = []) \<Longrightarrow> batch_mirrors tasks (apply_batch tasks b)"
  by (auto simp: batch_mirrors_def apply_batch_def apply_entry_mirrors)

lemma publish_frame [simp]: "bc_batches (bc_publishSnapshot c) = bc_batches c" "bc_manager (bc_publishSnapshot c) = bc_manager c"
  "bc_pauseAllRequested (bc_publishSnapshot c) = bc_pauseAllRequested c"
  by (simp_all add: bc_publishSnapshot_def)

lemma applyTaskSnapshot_frame [simp]:
  "bc_batches (applyTaskSnapshot tasks c) = map (apply_batch tasks) (bc_batches c)" "bc_manager (applyTaskSnapshot tasks c) = bc_manager c"
  "bc_pauseAllRequested (applyTaskSnapshot tasks c) = bc_pauseAllRequested c"
  by (simp_all add: applyTaskSnapshot_def Let_def)

lemma fold_snapshots_manager [simp]: "bc_manager (fold applyTaskSnapshot ss c) = bc_manager c"
  by (induction ss arbitrary: c) auto

lemma fold_snapshots_length [simp]: "length (bc_batches (fold applyTaskSnapshot ss c)) = length (bc_batches c)"
  by (induction ss arbitrary: c) auto

lemma fold_snapshots_shape:
  "\<forall>b \<in> set (bc_batches c). tb_status b = BatchDiscovering \<longrightarrow> tb_entries b = [] \<Longrightarrow>
   \<forall>b \<in> set (bc_batches (fold applyTaskSnapshot ss c)). tb_status b = BatchDiscovering \<longrightarrow> tb_entries b = []"
proof (induction ss arbitrary: c)
  case (Cons s ss)
  have "\<forall>b \<in> set (bc_batches (applyTaskSnapshot s c)). tb_status b = BatchDiscovering \<longrightarrow> tb_entries b = []"
    using Cons.prems apply_batch_mirrors by (auto simp: batch_mirrors_def)
  from Cons.IH [OF this] show ?case by simp
qed simp

lemma bc_manager_call [simp]: "bc_manager (manager_call env x c) = tm_step env (bc_manager c) x"
  by (simp add: manager_call_def Let_def)

lemma length_manager_call [simp]: "length (bc_batches (manager_call env x c)) = length (bc_batches c)"
  by (simp add: manager_call_def Let_def)

lemma manager_call_inv:
  assumes "bc_inv c"
  shows "bc_inv (manager_call env x c)"
proof -
  let ?m = "bc_manager c" and ?m' = "tm_step env (bc_manager c) x"
  obtain es where es: "tm_events ?m' = tm_events ?m @ es"
    "if snapshots es = [] then tq_tasks (tm_queue ?m') = tq_tasks (tm_queue ?m) else last (snapshots es) = tq_tasks (tm_queue ?m')"
    using step_up_to_date [of ?m env x] by (auto simp: up_to_date_def)
  then have c': "manager_call env x c = fold applyTaskSnapshot (snapshots es) (c\<lparr>bc_manager := ?m'\<rparr>)"
    by (simp add: manager_call_def Let_def)
  show ?thesis
  proof (cases "snapshots es" rule: rev_cases)
    case Nil
    then show ?thesis using assms es(2) by (simp add: c' bc_inv_def coordinator_tasks_def)
  next
    case (snoc ss s)
    then have s: "s = tq_tasks (tm_queue ?m')" using es(2) by simp
    have "\<forall>b \<in> set (bc_batches (fold applyTaskSnapshot ss (c\<lparr>bc_manager := ?m'\<rparr>))). tb_status b = BatchDiscovering \<longrightarrow> tb_entries b = []"
      by (rule fold_snapshots_shape) (use assms in \<open>auto simp: bc_inv_def batch_mirrors_def\<close>)
    then show ?thesis using snoc s apply_batch_mirrors by (auto simp: c' bc_inv_def coordinator_tasks_def)
  qed
qed

lemma children_inv: "bc_inv c \<Longrightarrow> bc_inv (forEachChild env operation b c)"
proof -
  have "bc_inv c \<Longrightarrow> bc_inv (fold (\<lambda>taskId. manager_call env (operation taskId)) is c)" for "is"
    by (induction "is" arbitrary: c) (auto simp: manager_call_inv)
  then show "bc_inv c \<Longrightarrow> ?thesis" by (simp add: forEachChild_def)
qed

lemma onChildren_inv: "bc_inv c \<Longrightarrow> bc_inv (bc_onChildren env operation i c)"
  by (simp add: bc_onChildren_def children_inv split: option.split)

lemma fold_children_inv: "bc_inv c \<Longrightarrow> bc_inv (fold (forEachChild env operation) bs c)"
  by (induction bs arbitrary: c) (auto simp: children_inv)

lemma publish_inv [simp]: "bc_inv (bc_publishSnapshot c) = bc_inv c"
  by (simp add: bc_inv_def coordinator_tasks_def)

lemma bc_inv_frame:
  "bc_inv c \<Longrightarrow> bc_manager c' = bc_manager c \<Longrightarrow> set (bc_batches c') \<subseteq> set (bc_batches c) \<union> B \<Longrightarrow>
   (\<And>b. b \<in> B \<Longrightarrow> batch_mirrors (coordinator_tasks c) b) \<Longrightarrow> bc_inv c'"
  by (auto simp: bc_inv_def coordinator_tasks_def)

lemma cancel_inv: "bc_inv c \<Longrightarrow> bc_inv (bc_cancel env i c)"
proof -
  assume c: "bc_inv c"
  let ?cancel = "\<lambda>b. b\<lparr>tb_status := BatchCancelled\<rparr>"
  have "bc_inv (c1\<lparr>bc_batches := update_first (\<lambda>b. tb_id b = i) ?cancel (bc_batches c1)\<rparr>)" if "bc_inv c1" for c1
    by (rule bc_inv_frame [OF that, where B = "?cancel ` set (bc_batches c1)"])
      (use that set_update_first [of "\<lambda>b. tb_id b = i" ?cancel "bc_batches c1"] in \<open>auto simp: bc_inv_def batch_mirrors_def\<close>)
  moreover have "bc_inv (case bc_planners c i of None \<Rightarrow> c | Some _ \<Rightarrow> c\<lparr>bc_planners := (bc_planners c)(i \<mapsto> True)\<rparr>)"
    using c by (auto simp: bc_inv_def coordinator_tasks_def split: option.split)
  ultimately show ?thesis by (auto simp: bc_cancel_def Let_def children_inv split: option.split)
qed

lemma dismiss_inv: "bc_inv c \<Longrightarrow> bc_inv (bc_dismiss env i c)"
proof -
  assume "bc_inv c"
  then have "bc_inv (forEachChild env OpDismiss b c)" for b by (rule children_inv)
  then have "bc_inv ((forEachChild env OpDismiss b c)\<lparr>bc_batches := erase_first P (bc_batches (forEachChild env OpDismiss b c))\<rparr>)" for b P
    by (rule bc_inv_frame [where B = "{}"]) (auto dest: subsetD [OF set_erase_first])
  then show ?thesis using \<open>bc_inv c\<close> by (auto simp: bc_dismiss_def Let_def split: option.split)
qed

lemma policy_inv: "bc_inv c \<Longrightarrow> bc_inv (setConflictPolicyForChild i policy b c)"
proof -
  assume c: "bc_inv c"
  have "bc_inv (c\<lparr>bc_batches := update_first P (\<lambda>b. b\<lparr>tb_conflictPolicy := x, tb_applyConflictPolicyToRemaining := y\<rparr>) (bc_batches c)\<rparr>)" for P x y
    by (rule bc_inv_frame [OF c, where B = "(\<lambda>b. b\<lparr>tb_conflictPolicy := x, tb_applyConflictPolicyToRemaining := y\<rparr>) ` set (bc_batches c)"])
      (use c set_update_first [of P "\<lambda>b. b\<lparr>tb_conflictPolicy := x, tb_applyConflictPolicyToRemaining := y\<rparr>" "bc_batches c"] in
        \<open>auto simp: bc_inv_def batch_mirrors_def\<close>)
  then show ?thesis using c by (simp add: setConflictPolicyForChild_def split: option.split)
qed

section \<open>New tasks are new to the queue\<close>

definition adds_only :: "string set \<Rightarrow> TqOp \<Rightarrow> bool" where
  "adds_only S x = (case x of Enqueue t \<Rightarrow> tt_id t \<in> S | RestoreInterrupted t \<Rightarrow> tt_id t \<in> S | _ \<Rightarrow> True)"

lemma task_ids_step:
  assumes "adds_only S x" "task_ids q \<subseteq> S"
  shows "task_ids (fst (tq_step q x)) \<subseteq> S"
proof (cases x)
  case (Dismiss i)
  then show ?thesis using assms(2) by (auto simp: tq_dismiss_def dest: subsetD [OF set_erase_first] split: option.splits)
qed (use assms in \<open>auto simp: adds_only_def tq_enqueue_def tq_restoreInterrupted_def tq_dismissFinished_def tq_with_ids
      tq_takeNext_ids split: if_splits\<close>)

interpretation bounded: manager_frame "\<lambda>m. task_ids (tm_queue m) \<subseteq> S" "adds_only S" for S
proof
  fix m :: TransferManager and x
  assume "task_ids (tm_queue m) \<subseteq> S" "adds_only S x"
  then show "task_ids (tm_queue (queue_call x m)) \<subseteq> S" by (simp add: task_ids_step del: tq_step.simps)
next
  fix m m' :: TransferManager and env
  assume m: "task_ids (tm_queue m) \<subseteq> S" and turn: "schedule_turn env m = Some m'"
  have step: "task_ids q \<subseteq> S \<Longrightarrow> adds_only S x \<Longrightarrow> task_ids (fst (tq_step q x)) \<subseteq> S" for q x by (rule task_ids_step)
  show "task_ids (tm_queue m') \<subseteq> S"
  proof (cases rule: schedule_turn_calls [OF turn])
    case (1 task spec)
    then show ?thesis using step [OF m, of "TakeNext (env_now env)"] by (simp add: adds_only_def)
  next
    case (2 task code retryable)
    then show ?thesis using step [OF step [OF m, of "TakeNext (env_now env)"], of "Fail (tt_id task) code retryable (env_now env)"]
      by (simp add: adds_only_def)
  qed
qed auto

lemma enqueue_ids: "task_ids (tm_queue (tm_step env m (OpEnqueue t p opts))) \<subseteq> insert (tt_id t) (task_ids (tm_queue m))"
proof -
  have "task_ids (tm_queue (fst (tm_enqueue env t p opts m))) \<subseteq> insert (tt_id t) (task_ids (tm_queue m))"
    by (rule bounded.enqueue_ok [where S = "insert (tt_id t) (task_ids (tm_queue m))"]) (auto simp: adds_only_def)
  then show ?thesis by simp
qed

lemma pause_ids: "task_ids (tm_queue (tm_step env m (OpPause i))) \<subseteq> task_ids (tm_queue m)"
proof -
  have "task_ids (tm_queue (tm_pause env i m)) \<subseteq> task_ids (tm_queue m)"
    by (rule bounded.pause_ok) (auto simp: adds_only_def)
  then show ?thesis by simp
qed

lemma absent_mirrors: "te_childTaskId e \<notin> tt_id ` set tasks \<Longrightarrow> mirrors tasks e"
proof -
  assume "te_childTaskId e \<notin> tt_id ` set tasks"
  then have "find (\<lambda>t. tt_id t = te_childTaskId e) tasks = None" by (force simp: find_None_iff)
  then show ?thesis by (simp add: mirrors_def)
qed

lemma rejected_queue:
  assumes "isl (snd (tm_enqueue env t p opts m))"
  shows "tm_step env m (OpEnqueue t p opts) = m"
  using assms by (auto simp: tm_enqueue_def Let_def split: if_splits prod.splits sum.splits)

lemma put_inv:
  assumes "bc_inv c" "i < length (bc_batches c) \<Longrightarrow> batch_mirrors (coordinator_tasks c) b"
  shows "bc_inv (c\<lparr>bc_batches := (bc_batches c)[i := b]\<rparr>)"
proof (cases "i < length (bc_batches c)")
  case True
  then show ?thesis using assms set_update_subset_insert [of "bc_batches c" i b] by (auto simp: bc_inv_def coordinator_tasks_def)
next
  case False
  then show ?thesis using assms(1) by (simp add: list_update_beyond)
qed

lemma hand_over_inv:
  assumes c: "bc_inv c" and fresh: "tt_id task \<notin> task_ids (tm_queue (bc_manager c))"
  shows "bc_inv (hand_over env i task c)"
    and "task_ids (tm_queue (bc_manager (hand_over env i task c))) \<subseteq> insert (tt_id task) (task_ids (tm_queue (bc_manager c)))"
proof -
  let ?c = "manager_call env (OpEnqueue task True default_options) c"
  have inv: "bc_inv ?c" using c by (rule manager_call_inv)
  have ids: "task_ids (tm_queue (bc_manager ?c)) \<subseteq> insert (tt_id task) (task_ids (tm_queue (bc_manager c)))"
    using enqueue_ids by (simp del: tm_step.simps)
  show "task_ids (tm_queue (bc_manager (hand_over env i task c))) \<subseteq> insert (tt_id task) (task_ids (tm_queue (bc_manager c)))"
    using ids subset_trans [OF pause_ids ids] by (simp add: hand_over_def Let_def del: tm_step.simps)
  show "bc_inv (hand_over env i task c)"
  proof (cases "isl (snd (tm_enqueue env task True default_options (bc_manager c)))")
    case True
    have tasks: "tt_id task \<notin> tt_id ` set (coordinator_tasks ?c)"
      using rejected_queue [OF True] fresh by (simp add: coordinator_tasks_def del: tm_step.simps)
    have "batch_mirrors (coordinator_tasks ?c) (reject_entry (tt_id task) b)" if "batch_mirrors (coordinator_tasks ?c) b" for b
    proof -
      have "mirrors (coordinator_tasks ?c) (e\<lparr>te_status := EntryFailed, te_errorCode := ''queue-rejected''\<rparr>)"
        if "te_childTaskId e = tt_id task" for e :: TransferPlanEntry
        using that tasks by (intro absent_mirrors) simp
      then have "\<forall>e \<in> set (update_first (\<lambda>e. te_childTaskId e = tt_id task)
          (\<lambda>e. e\<lparr>te_status := EntryFailed, te_errorCode := ''queue-rejected''\<rparr>) (tb_entries b)). mirrors (coordinator_tasks ?c) e"
        using that by (intro update_first_all) (auto simp: batch_mirrors_def)
      then show ?thesis by (simp add: batch_mirrors_def reject_entry_def)
    qed
    then have "bc_inv (?c\<lparr>bc_batches := (bc_batches ?c)[i := reject_entry (tt_id task) (bc_batches ?c ! i)]\<rparr>)"
      using inv by (intro put_inv [OF inv]) (simp add: bc_inv_def)
    then show ?thesis using True by (simp add: hand_over_def Let_def)
  next
    case False
    then show ?thesis using inv manager_call_inv [OF inv] by (simp add: hand_over_def Let_def)
  qed
qed

lemma hand_over_all_inv:
  assumes "bc_inv c" "distinct (map tt_id tasks)" "tt_id ` set tasks \<inter> task_ids (tm_queue (bc_manager c)) = {}"
  shows "bc_inv (fold (hand_over env i) tasks c)"
  using assms
proof (induction tasks arbitrary: c)
  case (Cons task tasks)
  then have fresh: "tt_id task \<notin> task_ids (tm_queue (bc_manager c))" by auto
  have "tt_id ` set tasks \<inter> task_ids (tm_queue (bc_manager (hand_over env i task c))) = {}"
  proof -
    have "tt_id ` set tasks \<inter> insert (tt_id task) (task_ids (tm_queue (bc_manager c))) = {}" using Cons.prems(2,3) by auto
    then show ?thesis using hand_over_inv(2) [OF Cons.prems(1) fresh, of env i] by blast
  qed
  then show ?case using Cons.IH [OF hand_over_inv(1) [OF Cons.prems(1) fresh]] Cons.prems(2) by simp
qed simp

text \<open>
  What an outcome and a recovered batch have to be: the ids of the tasks are new to the queue, and a batch
  still being discovered has no entries (a planner's batch and a recovered batch are past that).
\<close>

definition shaped :: "TransferBatch \<Rightarrow> bool" where
  "shaped b \<longleftrightarrow> (tb_status b = BatchDiscovering \<longrightarrow> tb_entries b = [])"

definition coordinator_op_ok :: "TransferBatchCoordinator \<Rightarrow> CoordinatorOp \<Rightarrow> bool" where
  "coordinator_op_ok c x = (case x of
     CompletePlanning outcome \<Rightarrow>
       distinct (map tt_id (po_tasks outcome)) \<and> tt_id ` set (po_tasks outcome) \<inter> task_ids (tm_queue (bc_manager c)) = {}
       \<and> (case po_batch outcome of None \<Rightarrow> True
          | Some b \<Rightarrow> shaped b \<and> te_childTaskId ` set (tb_entries b) \<inter> task_ids (tm_queue (bc_manager c)) = {})
   | EnableBatchRecovery (Some bs) \<Rightarrow> list_all shaped bs
   | _ \<Rightarrow> True)"

lemma completePlanning_inv:
  assumes c: "bc_inv c" and ok: "coordinator_op_ok c (CompletePlanning outcome)"
  shows "bc_inv (completePlanning env outcome c)"
proof -
  let ?c = "c\<lparr>bc_planners := (bc_planners c)(po_batchId outcome := None)\<rparr>"
  have inv: "bc_inv ?c" using c by (simp add: bc_inv_def coordinator_tasks_def)
  have put: "bc_inv (?c\<lparr>bc_batches := (bc_batches ?c)[i := b]\<rparr>)" if "batch_mirrors (coordinator_tasks ?c) b" for i b
    using put_inv [OF inv] that by blast
  show ?thesis
  proof (cases "findBatch (po_batchId outcome) ?c")
    case (Some placeholder)
    then have "placeholder \<in> set (bc_batches c)" unfolding findBatch_def using find_Some_in by fastforce
    then have mirrors: "batch_mirrors (coordinator_tasks ?c) placeholder" using inv by (simp add: bc_inv_def)
    have failed: "bc_inv (?c\<lparr>bc_batches := (bc_batches ?c)[i := placeholder\<lparr>tb_status := s, tb_discoveryErrorCode := e\<rparr>]\<rparr>)"
      if "s \<noteq> BatchDiscovering" for i s e
      using mirrors that by (intro put) (auto simp: batch_mirrors_def)
    show ?thesis
    proof (cases "po_batch outcome = None \<or> po_errorCode outcome \<noteq> []")
      case True
      then show ?thesis using Some inv failed by (auto simp: completePlanning_def Let_def)
    next
      case False
      then obtain b where b: "po_batch outcome = Some b" by auto
      have fresh: "distinct (map tt_id (po_tasks outcome))" "tt_id ` set (po_tasks outcome) \<inter> task_ids (tm_queue (bc_manager c)) = {}"
        "shaped b" "te_childTaskId ` set (tb_entries b) \<inter> task_ids (tm_queue (bc_manager c)) = {}"
        using ok b by (auto simp: coordinator_op_ok_def)
      have "batch_mirrors (coordinator_tasks ?c) b"
        using fresh(3,4) by (auto simp: batch_mirrors_def shaped_def coordinator_tasks_def intro!: absent_mirrors)
      then have "bc_inv (fold (hand_over env i) (po_tasks outcome) (?c\<lparr>bc_batches := (bc_batches ?c)[i := b]\<rparr>))" for i
        using fresh(1,2) by (intro hand_over_all_inv put) simp_all
      then show ?thesis using Some b False inv by (simp add: completePlanning_def Let_def)
    qed
  qed (use inv in \<open>simp add: completePlanning_def Let_def\<close>)
qed

lemma coordinator_step_inv:
  assumes c: "bc_inv c" and ok: "coordinator_op_ok c x"
  shows "bc_inv (bc_step env c x)"
proof (cases x)
  case (EnqueueBatch request hasProvider encoding)
  have "bc_inv (bc_publishSnapshot (c\<lparr>bc_batches := bc_batches c @ [request_batch request]\<rparr>))"
    using c by (simp add: bc_inv_def coordinator_tasks_def batch_mirrors_def request_batch_def)
  then show ?thesis using EnqueueBatch c
    by (auto simp: bc_enqueue_def Let_def bc_inv_def coordinator_tasks_def)
next
  case PauseAllBatches
  have "bc_inv (c\<lparr>bc_pauseAllRequested := True\<rparr>)" using c by (simp add: bc_inv_def coordinator_tasks_def)
  then show ?thesis using PauseAllBatches by (simp add: bc_pauseAll_def fold_children_inv)
next
  case ResumeAllBatches
  have "bc_inv (c\<lparr>bc_pauseAllRequested := False\<rparr>)" using c by (simp add: bc_inv_def coordinator_tasks_def)
  then show ?thesis using ResumeAllBatches by (simp add: bc_resumeAll_def fold_children_inv)
next
  case CancelAllBatches
  have "bc_inv (fold (bc_cancel env) ids c)" for ids
    using c by (induction ids arbitrary: c) (auto simp: cancel_inv)
  then show ?thesis using CancelAllBatches by (simp add: bc_cancelAll_def)
next
  case (EnableBatchRecovery recovered)
  then show ?thesis using c ok apply_batch_mirrors
    by (auto simp: bc_enableRecovery_def bc_inv_def coordinator_tasks_def coordinator_op_ok_def shaped_def list_all_iff split: option.splits)
next
  case StopCoordinator
  then show ?thesis using c by (simp add: bc_requestStop_def bc_inv_def coordinator_tasks_def)
qed (use c ok in \<open>simp_all add: bc_pause_def bc_resume_def bc_retry_def onChildren_inv cancel_inv dismiss_inv policy_inv manager_call_inv
    completePlanning_inv\<close>)

inductive coordinated :: "nat \<Rightarrow> TransferBatchCoordinator \<Rightarrow> bool" for n where
  coordinated_new: "tm_new n = Some m \<Longrightarrow> coordinated n (bc_new m)"
| coordinated_step: "coordinated n c \<Longrightarrow> coordinator_op_ok c x \<Longrightarrow> coordinated n (bc_step env c x)"

text \<open>
  C11. Whatever is called on the coordinator, its manager or its batches, every entry whose task is in the queue
  shows the status of that task and exactly its progress: queued, paused, asking for attention, completed,
  failed or cancelled exactly if the task is, and running exactly if the task holds a worker, also while that
  worker is being stopped.  The condition is that a plan which arrives brings new ids: the ids of its tasks
  differ from each other and neither they nor the children its entries name are in the queue yet (the code
  makes them from UUIDs), and that a recovered batch that is still being discovered has no entries
  (\<open>coordinator_op_ok\<close>).
\<close>

theorem coordinator_mirrors_queue:
  assumes "coordinated n c" "b \<in> set (bc_batches c)" "e \<in> set (tb_entries b)" "te_childTaskId e \<noteq> []"
    and "tq_find (te_childTaskId e) (tm_queue (bc_manager c)) = Some t"
  shows "(te_status e = EntryQueued \<longleftrightarrow> tt_status t = Queued)
    \<and> (te_status e = EntryRunning \<longleftrightarrow> tt_status t \<in> {Running, Pausing, Cancelling})
    \<and> (te_status e = EntryPaused \<longleftrightarrow> tt_status t = Paused)
    \<and> (te_status e = EntryNeedsAttention \<longleftrightarrow> tt_status t = NeedsAttention)
    \<and> (te_status e = EntryCompleted \<longleftrightarrow> tt_status t = Completed)
    \<and> (te_status e = EntryFailed \<longleftrightarrow> tt_status t = TransferStatus.Failed)
    \<and> (te_status e = EntryCancelled \<longleftrightarrow> tt_status t = TransferStatus.Cancelled)
    \<and> te_status e \<notin> {EntryPending, EntrySkipped, EntryInterrupted}
    \<and> te_transferredBytes e = tt_transferredBytes t"
proof -
  have "bc_inv c" using assms(1)
  proof induction
    case (coordinated_new m)
    then show ?case by (simp add: bc_inv_def bc_new_def)
  next
    case (coordinated_step c x env)
    then show ?case by (simp add: coordinator_step_inv)
  qed
  then have "mirrors (coordinator_tasks c) e" using assms(2,3) by (auto simp: bc_inv_def batch_mirrors_def)
  then have "te_status e = entryStatus (tt_status t)" "te_transferredBytes e = tt_transferredBytes t"
    using assms(4,5) by (simp_all add: mirrors_def coordinator_tasks_def tq_find_def)
  then show ?thesis by (cases "tt_status t") simp_all
qed

section \<open>Conflict policies\<close>

text \<open>
  After a conflict of a task has been decided for the rest of its batch, later conflicts of the batch's
  tasks are decided the same way if the decision was to replace or to skip; any other decision, and one
  that was not to be remembered, leaves them to the user.
\<close>

theorem conflict_policy_remembered:
  assumes "ownsChildTask taskId c"
  shows "automaticConflictPolicy taskId (setConflictPolicyForChild taskId policy applyToRemaining c)
    = (if applyToRemaining \<and> (policy = ReplacePolicy \<or> policy = SkipPolicy) then Some policy else None)"
proof -
  let ?f = "\<lambda>b. b\<lparr>tb_conflictPolicy := policy,
      tb_applyConflictPolicyToRemaining := (applyToRemaining \<and> (policy = ReplacePolicy \<or> policy = SkipPolicy))\<rparr>"
  obtain b where b: "find (owns_task taskId) (bc_batches c) = Some b"
    using assms by (cases "find (owns_task taskId) (bc_batches c)") (auto simp: ownsChildTask_def list_ex_iff find_None_iff)
  have owns: "owns_task taskId (?f b) = owns_task taskId b" for b by (simp add: owns_task_def)
  have "find (owns_task taskId) (update_first (owns_task taskId) ?f bs) = map_option ?f (find (owns_task taskId) bs)" for bs
    by (induction bs) (simp_all add: owns)
  then show ?thesis using b by (simp add: automaticConflictPolicy_def setConflictPolicyForChild_def)
qed

section \<open>A small coordinator\<close>

definition sample_recovered :: TransferBatch where
  "sample_recovered = sample_batch\<lparr>tb_status := BatchInterrupted, tb_entries :=
     [(sample_entry ''1'' [] ''f'' RegularFileEntry 0)\<lparr>te_childTaskId := ''a'', te_status := EntryInterrupted\<rparr>]\<rparr>"

definition sample_coordinator :: TransferBatchCoordinator where
  "sample_coordinator = bc_step sample_env (bc_new idle_manager) (EnableBatchRecovery (Some [sample_recovered]))"

lemma apply_batch_children: "map te_childTaskId (tb_entries (apply_batch tasks b)) = map te_childTaskId (tb_entries b)"
  by (auto simp: apply_batch_def apply_entry_def Let_def split: option.split)

lemma manager_call_children:
  "map (\<lambda>b. map te_childTaskId (tb_entries b)) (bc_batches (manager_call env x c)) = map (\<lambda>b. map te_childTaskId (tb_entries b)) (bc_batches c)"
proof -
  have "map (\<lambda>b. map te_childTaskId (tb_entries b)) (bc_batches (fold applyTaskSnapshot ss c))
      = map (\<lambda>b. map te_childTaskId (tb_entries b)) (bc_batches c)" for ss c
    by (induction ss arbitrary: c) (simp_all add: comp_def apply_batch_children del: map_eq_conv)
  then show ?thesis by (simp add: manager_call_def Let_def del: map_eq_conv)
qed

lemma sample_children: "map (\<lambda>b. map te_childTaskId (tb_entries b)) (bc_batches sample_coordinator) = [[''a'']]"
  by (simp add: sample_coordinator_def bc_enableRecovery_def bc_new_def apply_batch_children sample_recovered_def)

theorem conflict_policy_remembered_witness:
  "automaticConflictPolicy ''a'' (setConflictPolicyForChild ''a'' SkipPolicy True sample_coordinator) = Some SkipPolicy"
proof -
  obtain b where "bc_batches sample_coordinator = [b]" "map te_childTaskId (tb_entries b) = [''a'']"
    using sample_children by (cases "bc_batches sample_coordinator") auto
  then have "ownsChildTask ''a'' sample_coordinator" by (auto simp: ownsChildTask_def owns_task_def list_ex_iff map_eq_Cons_conv)
  from conflict_policy_remembered [OF this, of SkipPolicy True] show ?thesis by simp
qed

theorem coordinator_mirrors_queue_witness:
  "\<exists>b e. b \<in> set (bc_batches (bc_step sample_env sample_coordinator (ManagerOperation (OpEnqueue (sample_task ''a'') True default_options))))
     \<and> e \<in> set (tb_entries b) \<and> te_childTaskId e = ''a'' \<and> te_status e = EntryRunning"
proof -
  let ?c = "bc_step sample_env sample_coordinator (ManagerOperation (OpEnqueue (sample_task ''a'') True default_options))"
  have "coordinated 1 sample_coordinator" unfolding sample_coordinator_def
    by (rule coordinated_step [OF coordinated_new [OF idle_manager_new]])
      (simp add: coordinator_op_ok_def shaped_def sample_recovered_def)
  then have c: "coordinated 1 ?c" by (rule coordinated_step) (simp add: coordinator_op_ok_def)
  have "bc_manager sample_coordinator = idle_manager" by (simp add: sample_coordinator_def bc_enableRecovery_def bc_new_def)
  then have "tm_queue (bc_manager ?c) = tm_queue (tm_run idle_manager sample_steps)" by (simp add: sample_steps_def)
  then have t: "tq_find ''a'' (tm_queue (bc_manager ?c)) = Some (start_task 5 (sample_task ''a''))"
    by (simp add: sample_run_queue tq_find_def start_task_def sample_task_def)
  have "map (\<lambda>b. map te_childTaskId (tb_entries b)) (bc_batches ?c) = [[''a'']]"
    using manager_call_children sample_children by simp
  then obtain b where b: "bc_batches ?c = [b]" "map te_childTaskId (tb_entries b) = [''a'']" by (cases "bc_batches ?c") auto
  then obtain e where e: "e \<in> set (tb_entries b)" "te_childTaskId e = ''a''" by (auto simp: map_eq_Cons_conv)
  have "te_status e = EntryRunning"
    using coordinator_mirrors_queue [OF c _ e(1), of "start_task 5 (sample_task ''a'')"] b(1) e(2) t
    by (simp add: start_task_def del: bc_step.simps)
  then show ?thesis using b(1) e by auto
qed

end
