(* ===== verification/Ssh_State.thy ===== *)
theory Ssh_State
  imports Prelude
begin

text \<open>
  The life cycle of an SSH connection: \<open>src/domain/ssh/SshConnectionState\<close>.  The class keeps a
  phase and the last failure; every method either rejects the call and changes nothing or moves
  to one phase.  \<open>ssh_step\<close> collects the methods, \<open>ssh_trace\<close> is the sequence of phases a
  caller makes the object visit, and the theorems at the end say what a visit of \<open>Connected\<close>
  proves about the past: every authentication was preceded by the verification of that hop's
  host key.
\<close>

datatype SshConnectionPhase =
    Disconnected
  | Resolving
  | Connecting
  | Handshaking
  | VerifyingHostKey
  | AwaitingHostKeyConfirmation
  | Authenticating
  | OpeningChannel
  | Connected
  | Closing
  | Failed

datatype SshFailureKind =
    NameResolutionFailed
  | ConnectionRefused
  | TimedOut
  | TransportError
  | HostKeyChanged
  | HostKeyInvalid
  | AuthenticationRejected
  | AuthenticationUnavailable
  | ChannelOpenFailed
  | RemoteClosed
  | Cancelled
  | ProtocolError

datatype SshStateError = InvalidTransition | InvalidFailure

record SshConnectionState =
  ssh_phase :: SshConnectionPhase
  ssh_failure :: "SshFailureKind option"

definition ssh_init :: SshConnectionState where
  "ssh_init = \<lparr>ssh_phase = Disconnected, ssh_failure = None\<rparr>"

fun isForwardTransition :: "SshConnectionPhase \<Rightarrow> SshConnectionPhase \<Rightarrow> bool" where
  "isForwardTransition Resolving next = (next = Connecting)"
| "isForwardTransition Connecting next = (next = Handshaking)"
| "isForwardTransition Handshaking next = (next = VerifyingHostKey)"
| "isForwardTransition VerifyingHostKey next =
     (next = AwaitingHostKeyConfirmation \<or> next = Authenticating)"
| "isForwardTransition AwaitingHostKeyConfirmation next = (next = Authenticating)"
| "isForwardTransition Authenticating next = (next = OpeningChannel \<or> next = Connecting)"
| "isForwardTransition OpeningChannel next = (next = Connected)"
| "isForwardTransition Disconnected next = False"
| "isForwardTransition Connected next = False"
| "isForwardTransition Closing next = False"
| "isForwardTransition Failed next = False"

type_synonym ssh_result = "SshConnectionState \<times> (SshStateError + unit)"

definition ssh_start :: "SshConnectionState \<Rightarrow> ssh_result" where
  "ssh_start s =
     (if ssh_phase s \<noteq> Disconnected then (s, Inl InvalidTransition)
      else (s\<lparr>ssh_phase := Resolving, ssh_failure := None\<rparr>, Inr ()))"

definition ssh_advanceTo :: "SshConnectionPhase \<Rightarrow> SshConnectionState \<Rightarrow> ssh_result" where
  "ssh_advanceTo next s =
     (if \<not> isForwardTransition (ssh_phase s) next then (s, Inl InvalidTransition)
      else (s\<lparr>ssh_phase := next\<rparr>, Inr ()))"

definition ssh_requestClose :: "SshConnectionState \<Rightarrow> ssh_result" where
  "ssh_requestClose s =
     (if ssh_phase s = Disconnected \<or> ssh_phase s = Closing \<or> ssh_phase s = Failed
      then (s, Inl InvalidTransition)
      else (s\<lparr>ssh_phase := Closing\<rparr>, Inr ()))"

definition ssh_completeClose :: "SshConnectionState \<Rightarrow> ssh_result" where
  "ssh_completeClose s =
     (if ssh_phase s \<noteq> Closing then (s, Inl InvalidTransition)
      else (s\<lparr>ssh_phase := Disconnected, ssh_failure := None\<rparr>, Inr ()))"

definition ssh_fail :: "SshFailureKind \<Rightarrow> SshConnectionState \<Rightarrow> ssh_result" where
  "ssh_fail failure s =
     (if ssh_phase s = Disconnected \<or> ssh_phase s = Closing \<or> ssh_phase s = Failed
      then (s, Inl InvalidFailure)
      else (s\<lparr>ssh_phase := Failed, ssh_failure := Some failure\<rparr>, Inr ()))"

definition ssh_resetFailure :: "SshConnectionState \<Rightarrow> ssh_result" where
  "ssh_resetFailure s =
     (if ssh_phase s \<noteq> Failed then (s, Inl InvalidTransition)
      else (s\<lparr>ssh_phase := Disconnected, ssh_failure := None\<rparr>, Inr ()))"

lemmas ssh_op_defs = ssh_start_def ssh_advanceTo_def ssh_requestClose_def ssh_completeClose_def
  ssh_fail_def ssh_resetFailure_def

section \<open>The object driven by its caller\<close>

datatype SshOp =
    OpStart
  | OpAdvanceTo SshConnectionPhase
  | OpRequestClose
  | OpCompleteClose
  | OpFail SshFailureKind
  | OpResetFailure

fun ssh_step :: "SshConnectionState \<Rightarrow> SshOp \<Rightarrow> ssh_result" where
  "ssh_step s OpStart = ssh_start s"
| "ssh_step s (OpAdvanceTo p) = ssh_advanceTo p s"
| "ssh_step s OpRequestClose = ssh_requestClose s"
| "ssh_step s OpCompleteClose = ssh_completeClose s"
| "ssh_step s (OpFail f) = ssh_fail f s"
| "ssh_step s OpResetFailure = ssh_resetFailure s"

definition ssh_inv :: "SshConnectionState \<Rightarrow> bool" where
  "ssh_inv s = ((ssh_phase s = Failed) = (ssh_failure s \<noteq> None))"

text \<open>No forward transition enters a terminal phase, so \<open>advanceTo\<close> cannot fake a failure.\<close>

lemma forward_target:
  "isForwardTransition p q \<Longrightarrow> q \<notin> {Disconnected, Resolving, Closing, Failed} \<and> p \<noteq> Failed"
  by (cases p) auto

interpretation ssh_machine: atomic_machine ssh_step ssh_inv isl
proof unfold_locales
  fix s x assume "ssh_inv s"
  then show "ssh_inv (fst (ssh_step s x))"
    by (cases x) (auto simp: ssh_op_defs ssh_inv_def dest: forward_target)
next
  fix s x assume "ssh_inv s" and "isl (snd (ssh_step s x))"
  then show "fst (ssh_step s x) = s"
    by (cases x) (auto simp: ssh_op_defs split: if_splits)
qed

text \<open>The phases visited after each accepted operation, oldest first.\<close>

fun ssh_trace :: "SshConnectionState \<Rightarrow> SshOp list \<Rightarrow> SshConnectionPhase list" where
  "ssh_trace s [] = []"
| "ssh_trace s (x # xs) =
     (case ssh_step s x of
        (s', Inl _) \<Rightarrow> ssh_trace s' xs
      | (s', Inr _) \<Rightarrow> ssh_phase s' # ssh_trace s' xs)"

definition ssh_edge :: "SshConnectionPhase \<Rightarrow> SshConnectionPhase \<Rightarrow> bool" where
  "ssh_edge p q =
     (isForwardTransition p q \<or> (p = Disconnected \<and> q = Resolving)
      \<or> (p \<notin> {Disconnected, Closing, Failed} \<and> q \<in> {Closing, Failed})
      \<or> (p \<in> {Closing, Failed} \<and> q = Disconnected))"

text \<open>The edges of the phase graph are exactly the moves the methods accept.\<close>

lemma ssh_step_edge:
  "ssh_step s x = (s', Inr u) \<Longrightarrow> ssh_edge (ssh_phase s) (ssh_phase s')"
  by (cases x) (auto simp: ssh_op_defs ssh_edge_def split: if_splits)

fun ssh_path :: "SshConnectionPhase \<Rightarrow> SshConnectionPhase list \<Rightarrow> bool" where
  "ssh_path p [] = True"
| "ssh_path p (q # qs) = (ssh_edge p q \<and> ssh_path q qs)"

lemma ssh_step_rejected: "ssh_step s x = (s', Inl e) \<Longrightarrow> s' = s"
  by (cases x) (auto simp: ssh_op_defs split: if_splits)

lemma ssh_trace_path: "ssh_path (ssh_phase s) (ssh_trace s xs)"
proof (induction xs arbitrary: s)
  case (Cons x xs)
  then show ?case
    by (auto split: prod.splits sum.splits dest: ssh_step_edge ssh_step_rejected)
qed simp

lemma ssh_path_snoc: "ssh_path p (qs @ [q]) = (ssh_path p qs \<and> ssh_edge (last (p # qs)) q)"
  by (induction qs arbitrary: p) auto

lemma ssh_trace_last: "last (ssh_phase s # ssh_trace s xs) = ssh_phase (run_ops ssh_step s xs)"
proof (induction xs arbitrary: s)
  case (Cons x xs)
  show ?case
  proof (cases "snd (ssh_step s x)")
    case (Inl e)
    then have "ssh_step s x = (s, Inl e)"
      using ssh_step_rejected [of s x] by (metis prod.collapse)
    then show ?thesis using Cons.IH by simp
  next
    case (Inr u)
    then show ?thesis using Cons.IH [of "fst (ssh_step s x)"]
      by (cases "ssh_step s x") auto
  qed
qed simp

text \<open>Where a path can have come from, one edge at a time.\<close>

lemma ssh_edge_into:
  "ssh_edge p Connected = (p = OpeningChannel)"
  "ssh_edge p OpeningChannel = (p = Authenticating)"
  "ssh_edge p Authenticating = (p = VerifyingHostKey \<or> p = AwaitingHostKeyConfirmation)"
  "ssh_edge p AwaitingHostKeyConfirmation = (p = VerifyingHostKey)"
  "ssh_edge p VerifyingHostKey = (p = Handshaking)"
  "ssh_edge p Handshaking = (p = Connecting)"
  "ssh_edge p Connecting = (p = Resolving \<or> p = Authenticating)"
  "ssh_edge p Resolving = (p = Disconnected)"
  by (cases p; simp add: ssh_edge_def)+

lemma ssh_path_back:
  assumes "ssh_path p qs" and "p \<noteq> q" and "last (p # qs) = q"
  shows "\<exists>qs' r. qs = qs' @ [q] \<and> ssh_path p qs' \<and> ssh_edge r q \<and> last (p # qs') = r"
  using assms by (cases qs rule: rev_cases) (auto simp: ssh_path_snoc)

definition ssh_verified_entry :: "SshConnectionPhase list \<Rightarrow> bool" where
  "ssh_verified_entry conf = (conf = [] \<or> conf = [AwaitingHostKeyConfirmation])"

lemma ssh_authenticating_history:
  assumes "ssh_path Disconnected qs" and "last (Disconnected # qs) = Authenticating"
  shows "\<exists>pre conf. ssh_verified_entry conf
    \<and> qs = pre @ [Connecting, Handshaking, VerifyingHostKey] @ conf @ [Authenticating]"
proof -
  obtain q1 r1 where 1: "qs = q1 @ [Authenticating]" "ssh_path Disconnected q1"
    "ssh_edge r1 Authenticating" "last (Disconnected # q1) = r1"
    using ssh_path_back [OF assms(1) _ assms(2)] by auto
  obtain conf q2 where 2: "q1 = q2 @ conf" "ssh_verified_entry conf" "ssh_path Disconnected q2"
    "last (Disconnected # q2) = VerifyingHostKey"
  proof (cases "r1 = VerifyingHostKey")
    case True
    then show thesis using that [of q1 "[]"] 1 by (simp add: ssh_verified_entry_def)
  next
    case False
    then have "last (Disconnected # q1) = AwaitingHostKeyConfirmation"
      using 1 by (simp add: ssh_edge_into)
    from ssh_path_back [OF 1(2) _ this] obtain q' where
      "q1 = q' @ [AwaitingHostKeyConfirmation]" "ssh_path Disconnected q'"
      "last (Disconnected # q') = VerifyingHostKey"
      by (auto simp: ssh_edge_into)
    then show thesis using that [of q' "[AwaitingHostKeyConfirmation]"]
      by (simp add: ssh_verified_entry_def)
  qed
  obtain q3 where 3: "q2 = q3 @ [VerifyingHostKey]" "ssh_path Disconnected q3"
    "last (Disconnected # q3) = Handshaking"
    using ssh_path_back [OF 2(3) _ 2(4)] by (auto simp: ssh_edge_into)
  obtain q4 where 4: "q3 = q4 @ [Handshaking]" "ssh_path Disconnected q4"
    "last (Disconnected # q4) = Connecting"
    using ssh_path_back [OF 3(2) _ 3(3)] by (auto simp: ssh_edge_into)
  obtain q5 where 5: "q4 = q5 @ [Connecting]"
    using ssh_path_back [OF 4(2) _ 4(3)] by auto
  show ?thesis using 1 2 3 4 5 by (intro exI [of _ q5] exI [of _ conf]) simp
qed

lemma ssh_path_append: "ssh_path p (xs @ ys) = (ssh_path p xs \<and> ssh_path (last (p # xs)) ys)"
  by (induction xs arbitrary: p) auto

text \<open>The way back to \<open>Disconnected\<close> from each phase.\<close>

definition ssh_recover :: "SshConnectionPhase \<Rightarrow> SshOp list" where
  "ssh_recover p =
     (if p = Disconnected then [] else if p = Failed then [OpResetFailure]
      else if p = Closing then [OpCompleteClose] else [OpRequestClose, OpCompleteClose])"

section \<open>Properties\<close>

text \<open>
  Every state a caller can reach from a fresh object reports a failure exactly when its phase
  is \<open>Failed\<close>.
\<close>

theorem ssh_failure_iff_failed:
  "(ssh_phase (run_ops ssh_step ssh_init ops) = Failed)
    = (ssh_failure (run_ops ssh_step ssh_init ops) \<noteq> None)"
  using ssh_machine.inv_run [of ssh_init ops] by (simp add: ssh_inv_def ssh_init_def)

text \<open>
  C16. However a caller drives a fresh object, every visit of \<open>Authenticating\<close> comes directly
  after \<open>Connecting\<close>, \<open>Handshaking\<close>, \<open>VerifyingHostKey\<close> of the same hop (with at most a
  user confirmation in between): no hop, jump hosts included, is authenticated before its host
  key has been verified.
\<close>

theorem ssh_authentication_after_verification:
  assumes "ssh_trace ssh_init ops = before @ Authenticating # after"
  shows "\<exists>pre conf. ssh_verified_entry conf
    \<and> before = pre @ [Connecting, Handshaking, VerifyingHostKey] @ conf"
proof -
  have "ssh_path Disconnected ((before @ [Authenticating]) @ after)"
    using ssh_trace_path [of ssh_init ops] assms by (simp add: ssh_init_def)
  then have "ssh_path Disconnected (before @ [Authenticating])"
    unfolding ssh_path_append by blast
  from ssh_authenticating_history [OF this] show ?thesis by auto
qed

theorem ssh_authentication_after_verification_witness:
  "\<exists>pre conf. ssh_verified_entry conf
    \<and> [Resolving, Connecting, Handshaking, VerifyingHostKey]
      = pre @ [Connecting, Handshaking, VerifyingHostKey] @ conf"
  by (rule ssh_authentication_after_verification
        [of "[OpStart, OpAdvanceTo Connecting, OpAdvanceTo Handshaking,
              OpAdvanceTo VerifyingHostKey, OpAdvanceTo Authenticating]"])
     (simp add: ssh_init_def ssh_op_defs)

text \<open>
  A reachable \<open>Connected\<close> state was entered through \<open>VerifyingHostKey\<close>,
  \<open>Authenticating\<close> and \<open>OpeningChannel\<close>, in this order and with nothing else after the
  last \<open>Connecting\<close>.
\<close>

theorem ssh_connected_history:
  assumes "ssh_phase (run_ops ssh_step ssh_init ops) = Connected"
  shows "\<exists>pre conf. ssh_verified_entry conf
    \<and> ssh_trace ssh_init ops = pre @ [Connecting, Handshaking, VerifyingHostKey] @ conf
        @ [Authenticating, OpeningChannel, Connected]"
proof -
  let ?t = "ssh_trace ssh_init ops"
  have p: "ssh_path Disconnected ?t" and l: "last (Disconnected # ?t) = Connected"
    using ssh_trace_path [of ssh_init ops] ssh_trace_last [of ssh_init ops] assms
    by (simp_all add: ssh_init_def)
  obtain q1 where 1: "?t = q1 @ [Connected]" "ssh_path Disconnected q1"
    "last (Disconnected # q1) = OpeningChannel"
    using ssh_path_back [OF p _ l] by (auto simp: ssh_edge_into)
  obtain q2 where 2: "q1 = q2 @ [OpeningChannel]" "ssh_path Disconnected q2"
    "last (Disconnected # q2) = Authenticating"
    using ssh_path_back [OF 1(2) _ 1(3)] by (auto simp: ssh_edge_into)
  from ssh_authenticating_history [OF 2(2,3)] show ?thesis
    using 1(1) 2(1) by auto
qed

theorem ssh_connected_history_witness:
  "\<exists>pre conf. ssh_verified_entry conf
    \<and> ssh_trace ssh_init [OpStart, OpAdvanceTo Connecting, OpAdvanceTo Handshaking,
        OpAdvanceTo VerifyingHostKey, OpAdvanceTo AwaitingHostKeyConfirmation,
        OpAdvanceTo Authenticating, OpAdvanceTo OpeningChannel, OpAdvanceTo Connected]
      = pre @ [Connecting, Handshaking, VerifyingHostKey] @ conf
        @ [Authenticating, OpeningChannel, Connected]"
  by (rule ssh_connected_history) (simp add: ssh_init_def ssh_op_defs)

text \<open>
  No phase is a trap: from any state of the object at most two operations lead back to a
  fresh \<open>Disconnected\<close> object, and the caller can read off the phase which they are.
\<close>

theorem ssh_always_recoverable:
  "run_ops ssh_step (run_ops ssh_step ssh_init ops)
     (ssh_recover (ssh_phase (run_ops ssh_step ssh_init ops))) = ssh_init"
proof -
  let ?s = "run_ops ssh_step ssh_init ops"
  have "ssh_inv ?s"
    by (rule ssh_machine.inv_run) (simp add: ssh_inv_def ssh_init_def)
  then show ?thesis
    by (cases "ssh_phase ?s") (auto simp: ssh_recover_def ssh_op_defs ssh_init_def ssh_inv_def)
qed

end
