(* ===== verification/Socks5.thy ===== *)
theory Socks5
  imports Prelude
begin

text \<open>
  The SOCKS5 handshake of dynamic port forwarding: \<open>src/domain/forwarding/Socks5Protocol\<close>, and
  the loop of \<open>completeSocksHandshake\<close> in \<open>src/application/forwarding/PortForwardingJob.cpp\<close>
  that feeds it with what each socket read returned.  The handshake is a buffer and a state;
  \<open>consume\<close> appends the input and parses the greeting or the request.  The specification is an
  encoder of greetings and requests: however their bytes are cut into reads, the loop answers the
  greeting once and delivers exactly the requested destination and the bytes behind the request.
  Running out of memory (\<open>std::bad_alloc\<close>) is not modelled.
\<close>

definition maximumSocks5HandshakeBytes :: nat where
  "maximumSocks5HandshakeBytes = 512"

datatype Socks5HandshakeStatus = NeedMore | SendMethodSelection | DestinationReady | Rejected

datatype Socks5ReplyCode =
    Succeeded
  | GeneralFailure
  | ConnectionNotAllowed
  | NetworkUnreachable
  | HostUnreachable
  | ConnectionRefused
  | TimedOut
  | CommandNotSupported
  | AddressTypeNotSupported

fun reply_code :: "Socks5ReplyCode \<Rightarrow> byte" where
  "reply_code Succeeded = 0x00"
| "reply_code GeneralFailure = 0x01"
| "reply_code ConnectionNotAllowed = 0x02"
| "reply_code NetworkUnreachable = 0x03"
| "reply_code HostUnreachable = 0x04"
| "reply_code ConnectionRefused = 0x05"
| "reply_code TimedOut = 0x06"
| "reply_code CommandNotSupported = 0x07"
| "reply_code AddressTypeNotSupported = 0x08"

datatype Socks5ProtocolError = InvalidState | ResourceLimit

record Socks5Destination =
  sd_host :: string
  sd_port :: u16

record Socks5HandshakeResult =
  sr_status :: Socks5HandshakeStatus
  sr_response :: "byte list"
  sr_destination :: "Socks5Destination option"
  sr_remainingData :: "byte list"

datatype Socks5State = Greeting | Request | Complete | Failed

record Socks5Handshake =
  sh_state :: Socks5State
  sh_buffer :: "byte list"

definition s5_init :: Socks5Handshake where
  "s5_init = \<lparr>sh_state = Greeting, sh_buffer = []\<rparr>"

section \<open>Addresses as text\<close>

fun join_with :: "char \<Rightarrow> string list \<Rightarrow> string" where
  "join_with sep [] = []"
| "join_with sep [s] = s"
| "join_with sep (s # t # ss) = s @ sep # join_with sep (t # ss)"

definition ipv4Address :: "byte list \<Rightarrow> string" where
  "ipv4Address address = join_with (CHR ''.'') (map (\<lambda>b. decimal (unat b)) address)"

text \<open>Two bytes of the wire, most significant first.\<close>

definition big_endian :: "byte \<Rightarrow> byte \<Rightarrow> u16" where
  "big_endian high low = push_bit 8 (ucast high) OR ucast low"

definition hex_digit :: "u16 \<Rightarrow> char" where
  "hex_digit value = ''0123456789abcdef'' ! unat (value AND 0x0F)"

fun hex_group :: "u16 \<Rightarrow> nat list \<Rightarrow> bool \<Rightarrow> string" where
  "hex_group value [] emitted = []"
| "hex_group value (shift # shifts) emitted =
     (let digit = hex_digit (drop_bit shift value)
      in if digit \<noteq> CHR ''0'' \<or> emitted \<or> shift = 0
         then digit # hex_group value shifts True
         else hex_group value shifts emitted)"

fun ipv6_groups :: "byte list \<Rightarrow> u16 list" where
  "ipv6_groups (a # b # rest) = big_endian a b # ipv6_groups rest"
| "ipv6_groups _ = []"

definition ipv6Address :: "byte list \<Rightarrow> string" where
  "ipv6Address address =
     join_with (CHR '':'') (map (\<lambda>v. hex_group v [12, 8, 4, 0] False) (ipv6_groups address))"

definition validDomain :: "string \<Rightarrow> bool" where
  "validDomain domain \<longleftrightarrow> domain \<noteq> [] \<and> length domain \<le> 253
     \<and> list_all (\<lambda>c. 0x20 < (of_char c :: nat) \<and> (of_char c :: nat) < 0x7F) domain"

section \<open>The handshake\<close>

definition s5_reply :: "Socks5ReplyCode \<Rightarrow> byte list" where
  "s5_reply code = [0x05, reply_code code, 0x00, 0x01, 0x00, 0x00, 0x00, 0x00, 0x00, 0x00]"

definition need_more :: Socks5HandshakeResult where
  "need_more = \<lparr>sr_status = NeedMore, sr_response = [], sr_destination = None, sr_remainingData = []\<rparr>"

text \<open>Every rejection fails the handshake, drops the buffer and carries a response.\<close>

definition s5_reject ::
  "byte list \<Rightarrow> Socks5Handshake \<Rightarrow> Socks5Handshake \<times> Socks5HandshakeResult" where
  "s5_reject response h =
     (h\<lparr>sh_state := Failed, sh_buffer := []\<rparr>,
      need_more\<lparr>sr_status := Rejected, sr_response := response\<rparr>)"

definition consumeGreeting :: "Socks5Handshake \<Rightarrow> Socks5Handshake \<times> Socks5HandshakeResult" where
  "consumeGreeting h =
     (let buffer = sh_buffer h in
      if length buffer < 2 then (h, need_more)
      else (let methodCount = unat (buffer ! 1) in
        if buffer ! 0 \<noteq> 0x05 \<or> methodCount = 0 then s5_reject [0x05, 0xFF] h
        else (let frameSize = 2 + methodCount in
          if length buffer < frameSize then (h, need_more)
          else if 0x00 \<notin> set (take methodCount (drop 2 buffer)) then s5_reject [0x05, 0xFF] h
          else (h\<lparr>sh_buffer := drop frameSize buffer, sh_state := Request\<rparr>,
                need_more\<lparr>sr_status := SendMethodSelection, sr_response := [0x05, 0x00]\<rparr>))))"

text \<open>
  Where the address of a request lies: not known yet, unsupported, or at an offset with a size.
\<close>

datatype AddressField = AddressPending | AddressUnsupported | AddressAt nat nat

definition address_field :: "byte list \<Rightarrow> AddressField" where
  "address_field buffer =
     (if buffer ! 3 = 0x01 then AddressAt 4 4
      else if buffer ! 3 = 0x04 then AddressAt 4 16
      else if buffer ! 3 = 0x03 then
        (if length buffer < 5 then AddressPending
         else if unat (buffer ! 4) = 0 \<or> 253 < unat (buffer ! 4) then AddressUnsupported
         else AddressAt 5 (unat (buffer ! 4)))
      else AddressUnsupported)"

definition address_text :: "byte \<Rightarrow> byte list \<Rightarrow> string" where
  "address_text addressType address =
     (if addressType = 0x01 then ipv4Address address
      else if addressType = 0x04 then ipv6Address address
      else map byte_char address)"

definition consumeRequest :: "Socks5Handshake \<Rightarrow> Socks5Handshake \<times> Socks5HandshakeResult" where
  "consumeRequest h =
     (let buffer = sh_buffer h in
      if length buffer < 4 then (h, need_more)
      else if buffer ! 0 \<noteq> 0x05 \<or> buffer ! 2 \<noteq> 0x00 then s5_reject (s5_reply GeneralFailure) h
      else if buffer ! 1 \<noteq> 0x01 then s5_reject (s5_reply CommandNotSupported) h
      else (case address_field buffer of
          AddressPending \<Rightarrow> (h, need_more)
        | AddressUnsupported \<Rightarrow> s5_reject (s5_reply AddressTypeNotSupported) h
        | AddressAt addressOffset addressSize \<Rightarrow>
            (let frameSize = addressOffset + addressSize + 2 in
             if length buffer < frameSize then (h, need_more)
             else (let host = address_text (buffer ! 3) (take addressSize (drop addressOffset buffer));
                       port = big_endian (buffer ! (frameSize - 2)) (buffer ! (frameSize - 1))
               in if buffer ! 3 = 0x03 \<and> \<not> validDomain host
                  then s5_reject (s5_reply AddressTypeNotSupported) h
                  else if port = 0 then s5_reject (s5_reply ConnectionNotAllowed) h
                  else (h\<lparr>sh_buffer := [], sh_state := Complete\<rparr>,
                        \<lparr>sr_status = DestinationReady, sr_response = [],
                         sr_destination = Some \<lparr>sd_host = host, sd_port = port\<rparr>,
                         sr_remainingData = drop frameSize buffer\<rparr>)))))"

definition s5_consume ::
  "byte list \<Rightarrow> Socks5Handshake \<Rightarrow> Socks5Handshake \<times> (Socks5ProtocolError + Socks5HandshakeResult)" where
  "s5_consume input h =
     (if sh_state h = Complete \<or> sh_state h = Failed then (h, Inl InvalidState)
      else if length input > maximumSocks5HandshakeBytes - length (sh_buffer h)
      then (h\<lparr>sh_state := Failed, sh_buffer := []\<rparr>, Inl ResourceLimit)
      else (let h' = h\<lparr>sh_buffer := sh_buffer h @ input\<rparr>
            in apsnd Inr (if sh_state h = Greeting then consumeGreeting h' else consumeRequest h')))"

section \<open>The forwarding job's loop around it\<close>

datatype PumpOutcome =
    PumpError
  | PumpRejected
  | PumpReady "Socks5Destination option" "byte list"
  | PumpMore

text \<open>
  \<open>socks_loop fuel h consumed sent\<close>: the \<open>while (true)\<close> of \<open>completeSocksHandshake\<close>, started with
  the result of the first \<open>consume\<close>; \<open>sent\<close> are the bytes queued for the client so far.
  \<open>None\<close> is a loop that has not ended.
\<close>

fun socks_loop ::
  "nat \<Rightarrow> Socks5Handshake \<Rightarrow> Socks5ProtocolError + Socks5HandshakeResult \<Rightarrow> byte list
    \<Rightarrow> (Socks5Handshake \<times> PumpOutcome \<times> byte list) option" where
  "socks_loop 0 h consumed sent = None"
| "socks_loop (Suc fuel) h (Inl e) sent = Some (h, PumpError, sent @ s5_reply GeneralFailure)"
| "socks_loop (Suc fuel) h (Inr result) sent =
     (let sent' = sent @ sr_response result in
      case sr_status result of
        Rejected \<Rightarrow> Some (h, PumpRejected, sent')
      | DestinationReady \<Rightarrow> Some (h, PumpReady (sr_destination result) (sr_remainingData result), sent')
      | NeedMore \<Rightarrow> Some (h, PumpMore, sent')
      | SendMethodSelection \<Rightarrow>
          (case s5_consume [] h of (h', consumed') \<Rightarrow> socks_loop fuel h' consumed' sent'))"

definition socks_pump ::
  "nat \<Rightarrow> byte list \<Rightarrow> Socks5Handshake \<Rightarrow> (Socks5Handshake \<times> PumpOutcome \<times> byte list) option" where
  "socks_pump fuel input h =
     (case s5_consume input h of (h', consumed) \<Rightarrow> socks_loop fuel h' consumed [])"

text \<open>One call per socket read, until the handshake has an outcome.\<close>

fun socks_session ::
  "byte list list \<Rightarrow> Socks5Handshake \<Rightarrow> (Socks5Handshake \<times> PumpOutcome \<times> byte list) option" where
  "socks_session [] h = Some (h, PumpMore, [])"
| "socks_session (c # cs) h =
     (case socks_pump 2 c h of
        Some (h', PumpMore, sent) \<Rightarrow>
          map_option (\<lambda>(h'', outcome, sent'). (h'', outcome, sent @ sent')) (socks_session cs h')
      | r \<Rightarrow> r)"

section \<open>The specification: greetings and requests on the wire\<close>

datatype Socks5Address = IPv4 "byte list" | IPv6 "byte list" | DomainName string

fun address_wf :: "Socks5Address \<Rightarrow> bool" where
  "address_wf (IPv4 a) = (length a = 4)"
| "address_wf (IPv6 a) = (length a = 16)"
| "address_wf (DomainName d) = validDomain d"

fun address_host :: "Socks5Address \<Rightarrow> string" where
  "address_host (IPv4 a) = ipv4Address a"
| "address_host (IPv6 a) = ipv6Address a"
| "address_host (DomainName d) = d"

fun encode_address :: "Socks5Address \<Rightarrow> byte list" where
  "encode_address (IPv4 a) = 0x01 # a"
| "encode_address (IPv6 a) = 0x04 # a"
| "encode_address (DomainName d) = 0x03 # of_nat (length d) # map char_byte d"

definition encode_greeting :: "byte list \<Rightarrow> byte list" where
  "encode_greeting methods = 0x05 # of_nat (length methods) # methods"

definition encode_request :: "Socks5Address \<Rightarrow> u16 \<Rightarrow> byte list" where
  "encode_request a port =
     [0x05, 0x01, 0x00] @ encode_address a @ [ucast (drop_bit 8 port), ucast port]"

definition greeting_wf :: "byte list \<Rightarrow> bool" where
  "greeting_wf methods \<longleftrightarrow> 0x00 \<in> set methods \<and> length methods < 256"

lemma big_endian_port: "big_endian (ucast (drop_bit 8 p)) (ucast p) = p"
  unfolding big_endian_def by (rule bit_word_eqI) (auto simp: bit_simps)

lemma unat_small: "n < 256 \<Longrightarrow> unat (of_nat n :: byte) = n"
  by (simp add: unat_of_nat)

subsection \<open>One phase at a time\<close>

lemma s5_consume_open:
  assumes "sh_state h \<noteq> Complete" "sh_state h \<noteq> Failed"
    and "length (sh_buffer h) + length input \<le> maximumSocks5HandshakeBytes"
  shows "s5_consume input h = apsnd Inr ((if sh_state h = Greeting then consumeGreeting else consumeRequest)
           (h\<lparr>sh_buffer := sh_buffer h @ input\<rparr>))"
  using assms by (auto simp: s5_consume_def Let_def maximumSocks5HandshakeBytes_def)

lemma need_more_status [simp]: "sr_status need_more = NeedMore" "sr_response need_more = []"
  by (simp_all add: need_more_def)

lemma consumeGreeting_need_more:
  "consumeGreeting h = (h', r) \<Longrightarrow> sr_status r = NeedMore \<Longrightarrow> h' = h \<and> r = need_more"
  by (auto simp: consumeGreeting_def s5_reject_def Let_def split: if_splits)

lemma consumeRequest_need_more:
  "consumeRequest h = (h', r) \<Longrightarrow> sr_status r = NeedMore \<Longrightarrow> h' = h \<and> r = need_more"
  by (auto simp: consumeRequest_def s5_reject_def Let_def split: if_splits AddressField.splits)

text \<open>An undecided read only buffered its input, so cutting there makes no difference.\<close>

lemma s5_need_more_appends:
  assumes "s5_consume a h = (h', Inr r)" and "sr_status r = NeedMore"
  shows "h' = h\<lparr>sh_buffer := sh_buffer h @ a\<rparr> \<and> r = need_more \<and> sh_state h \<noteq> Complete
    \<and> sh_state h \<noteq> Failed \<and> length a \<le> maximumSocks5HandshakeBytes - length (sh_buffer h)"
  using assms
  by (auto simp: s5_consume_def Let_def apsnd_def map_prod_def
      dest: consumeGreeting_need_more consumeRequest_need_more split: if_splits prod.splits)

lemma s5_consume_split:
  assumes "s5_consume a h = (h', Inr r)" and "sr_status r = NeedMore"
    and "length (sh_buffer h) \<le> maximumSocks5HandshakeBytes"
  shows "s5_consume b h' = s5_consume (a @ b) h"
proof -
  have h': "h' = h\<lparr>sh_buffer := sh_buffer h @ a\<rparr>"
    and a: "length a \<le> maximumSocks5HandshakeBytes - length (sh_buffer h)"
    using s5_need_more_appends [OF assms(1,2)] by auto
  have "(length b > maximumSocks5HandshakeBytes - length (sh_buffer h @ a))
      = (length (a @ b) > maximumSocks5HandshakeBytes - length (sh_buffer h))"
    using a assms(3) by auto
  moreover have "sh_state h \<noteq> Complete" "sh_state h \<noteq> Failed"
    using s5_need_more_appends [OF assms(1,2)] by auto
  ultimately show ?thesis using h' by (simp add: s5_consume_def)
qed

lemma greeting_accepted:
  assumes "greeting_wf methods" and "sh_state h = Greeting"
    and "sh_buffer h = encode_greeting methods @ rest"
  shows "consumeGreeting h = (h\<lparr>sh_buffer := rest, sh_state := Request\<rparr>,
    need_more\<lparr>sr_status := SendMethodSelection, sr_response := [0x05, 0x00]\<rparr>)"
proof -
  have "unat (of_nat (length methods) :: byte) = length methods" "methods \<noteq> []"
    using assms(1) by (auto simp: unat_small greeting_wf_def)
  then show ?thesis using assms by (simp add: consumeGreeting_def encode_greeting_def greeting_wf_def)
qed

lemma greeting_prefix_waits:
  assumes "greeting_wf methods" and "sh_buffer h = p" and "prefix p (encode_greeting methods)"
    and "p \<noteq> encode_greeting methods"
  shows "consumeGreeting h = (h, need_more)"
proof -
  have u: "unat (of_nat (length methods) :: byte) = length methods" "methods \<noteq> []"
    using assms(1) by (auto simp: unat_small greeting_wf_def)
  have l: "length p < 2 + length methods"
    using assms(3,4) by (auto simp: encode_greeting_def prefix_def)
      (metis Suc_less_eq add_2_eq_Suc length_Cons length_append length_greater_0_conv less_add_same_cancel1)
  show ?thesis
  proof (cases "length p < 2")
    case True
    then show ?thesis using assms(2) by (simp add: consumeGreeting_def)
  next
    case False
    then obtain ms where "p = 0x05 # of_nat (length methods) # ms"
      using assms(3) by (cases p rule: remdups_adj.cases) (auto simp: encode_greeting_def)
    then show ?thesis using assms(2) u l by (simp add: consumeGreeting_def)
  qed
qed

lemma char_byte_nth: "map byte_char (map char_byte d) = d"
  by (induction d) auto

lemma validDomain_length: "validDomain d \<Longrightarrow> 0 < length d \<and> length d \<le> 253"
  by (auto simp: validDomain_def)

definition request_size :: "Socks5Address \<Rightarrow> nat" where
  "request_size a = length (encode_address a) + 5"

lemma length_encode_request [simp]: "length (encode_request a port) = request_size a"
  by (simp add: encode_request_def request_size_def)

lemma request_parsed:
  assumes b: "sh_buffer h = hdr @ addr @ [hi, lo] @ rest"
    and f: "address_field (hdr @ addr @ [hi, lo] @ rest) = AddressAt (length hdr) (length addr)"
    and hdr: "4 \<le> length hdr" "hdr ! 0 = 0x05" "hdr ! 1 = 0x01" "hdr ! 2 = 0x00"
    and port: "big_endian hi lo \<noteq> 0"
    and dom: "hdr ! 3 = 0x03 \<longrightarrow> validDomain (address_text (hdr ! 3) addr)"
  shows "consumeRequest h =
    (h\<lparr>sh_buffer := [], sh_state := Complete\<rparr>,
     \<lparr>sr_status = DestinationReady, sr_response = [],
      sr_destination = Some \<lparr>sd_host = address_text (hdr ! 3) addr, sd_port = big_endian hi lo\<rparr>,
      sr_remainingData = rest\<rparr>)"
proof -
  let ?b = "hdr @ addr @ [hi, lo] @ rest"
  have n: "?b ! 0 = 0x05" "?b ! 1 = 0x01" "?b ! 2 = 0x00" "?b ! 3 = hdr ! 3"
    using hdr by (auto simp: nth_append)
  have p: "?b ! (length hdr + length addr) = hi" "?b ! Suc (length hdr + length addr) = lo"
    by (simp_all add: nth_append)
  show ?thesis
    using n p f port dom hdr(1) unfolding consumeRequest_def b Let_def
    by (cases "hdr ! 3 = 0x03") simp_all
qed

lemma request_accepted:
  assumes "address_wf a" and "port \<noteq> 0" and "sh_buffer h = encode_request a port @ rest"
  shows "consumeRequest h =
    (h\<lparr>sh_buffer := [], sh_state := Complete\<rparr>,
     \<lparr>sr_status = DestinationReady, sr_response = [],
      sr_destination = Some \<lparr>sd_host = address_host a, sd_port = port\<rparr>,
      sr_remainingData = rest\<rparr>)"
proof (cases a)
  case (IPv4 ip)
  then show ?thesis
    using assms request_parsed [of h "[0x05, 0x01, 0x00, 0x01]" ip "ucast (drop_bit 8 port)" "ucast port" rest]
    by (simp add: encode_request_def address_field_def big_endian_port address_text_def)
next
  case (IPv6 ip)
  then show ?thesis
    using assms request_parsed [of h "[0x05, 0x01, 0x00, 0x04]" ip "ucast (drop_bit 8 port)" "ucast port" rest]
    by (simp add: encode_request_def address_field_def big_endian_port address_text_def)
next
  case (DomainName d)
  then have d: "validDomain d" "0 < length d" "length d \<le> 253" using assms(1) validDomain_length by auto
  then have "unat (of_nat (length d) :: byte) = length d" by (simp add: unat_small)
  then show ?thesis
    using DomainName assms d char_byte_nth [of d]
      request_parsed [of h "[0x05, 0x01, 0x00, 0x03, of_nat (length d)]" "map char_byte d"
        "ucast (drop_bit 8 port)" "ucast port" rest]
    by (simp add: encode_request_def address_field_def big_endian_port address_text_def)
qed

lemma request_prefix_waits:
  assumes "address_wf a" and "strict_prefix (sh_buffer h) (encode_request a port)"
  shows "consumeRequest h = (h, need_more)"
proof -
  let ?e = "encode_request a port"
  let ?b = "sh_buffer h"
  have len: "length ?b < request_size a"
    using prefix_length_less [OF assms(2)] by simp
  have nth: "?b ! i = ?e ! i" if "i < length ?b" for i
    using assms(2) that by (auto simp: strict_prefix_def prefix_def nth_append)
  show ?thesis
  proof (cases "length ?b < 4")
    case True
    then show ?thesis by (simp add: consumeRequest_def)
  next
    case False
    then have "0 < length ?b" "1 < length ?b" "2 < length ?b" "3 < length ?b" by linarith+
    from this [THEN nth] have h: "?b ! 0 = 0x05" "?b ! 1 = 0x01" "?b ! 2 = 0x00" "?b ! 3 = ?e ! 3"
      by (simp_all add: encode_request_def)
    show ?thesis
    proof (cases a)
      case (DomainName d)
      then have d: "0 < length d" "length d \<le> 253" using assms(1) validDomain_length by auto
      then have u: "unat (of_nat (length d) :: byte) = length d" by (simp add: unat_small)
      have "?b ! 4 = of_nat (length d)" if "5 \<le> length ?b"
        using nth [of 4] that DomainName by (simp add: encode_request_def)
      then show ?thesis using h False len d u DomainName
        by (auto simp: consumeRequest_def address_field_def encode_request_def request_size_def Let_def)
    qed (use h False len assms(1) in
        \<open>auto simp: consumeRequest_def address_field_def encode_request_def request_size_def Let_def\<close>)
  qed
qed

subsection \<open>The loop\<close>

lemma s5_consume_nil_request:
  assumes "sh_state h = Request" "length (sh_buffer h) \<le> maximumSocks5HandshakeBytes"
  shows "s5_consume [] h = apsnd Inr (consumeRequest h)"
  using assms by (simp add: s5_consume_open)

lemma consumeRequest_no_selection:
  "sr_status (snd (consumeRequest h)) \<noteq> SendMethodSelection"
  by (auto simp: consumeRequest_def s5_reject_def Let_def split: AddressField.splits)

lemma consumeGreeting_selection:
  "consumeGreeting h = (h', r) \<Longrightarrow> sr_status r = SendMethodSelection \<Longrightarrow> sh_state h' = Request"
  by (auto simp: consumeGreeting_def s5_reject_def Let_def split: if_splits)

lemma s5_selection_state:
  assumes "s5_consume input h = (h', Inr r)" and "sr_status r = SendMethodSelection"
  shows "sh_state h' = Request"
  using assms consumeRequest_no_selection [of "h\<lparr>sh_buffer := sh_buffer h @ input\<rparr>"]
  by (auto simp: s5_consume_def Let_def apsnd_def map_prod_def
      dest: consumeGreeting_selection split: if_splits prod.splits)

lemma s5_request_no_selection:
  assumes "s5_consume input h = (h', Inr r)" and "sh_state h = Request"
  shows "sr_status r \<noteq> SendMethodSelection"
  using assms consumeRequest_no_selection [of "h\<lparr>sh_buffer := sh_buffer h @ input\<rparr>"]
  by (auto simp: s5_consume_def Let_def apsnd_def map_prod_def split: if_splits prod.splits)

text \<open>The loop ends within two rounds: a method selection can only be answered once.\<close>

lemma socks_loop_two_rounds:
  "\<exists>h' outcome sent. socks_pump 2 input h = Some (h', outcome, sent)"
proof -
  obtain h1 c1 where 1: "s5_consume input h = (h1, c1)" by fastforce
  obtain h2 c2 where 2: "s5_consume [] h1 = (h2, c2)" by fastforce
  have no: "sr_status r2 \<noteq> SendMethodSelection"
    if "c1 = Inr r1" "sr_status r1 = SendMethodSelection" "c2 = Inr r2" for r1 r2
    using s5_request_no_selection [of "[]" h1 h2 r2] s5_selection_state [of input h h1 r1] 1 2 that
    by simp
  have "\<exists>h' outcome sent. socks_loop (Suc (Suc 0)) h1 c1 [] = Some (h', outcome, sent)"
  proof (cases c1)
    case (Inr r1)
    then show ?thesis using 2 no
      by (cases "sr_status r1"; cases c2) (auto simp: Let_def split: Socks5HandshakeStatus.splits)
  qed simp
  then show ?thesis using 1 by (simp add: socks_pump_def numeral_2_eq_2)
qed

text \<open>What one round of the loop does, on the three results that matter.\<close>

lemma socks_pump_eqs:
  "s5_consume input h = (h', Inr need_more) \<Longrightarrow> socks_pump 2 input h = Some (h', PumpMore, [])"
  "s5_consume input h = (h', Inr r) \<Longrightarrow> sr_status r = DestinationReady \<Longrightarrow>
   socks_pump 2 input h = Some (h', PumpReady (sr_destination r) (sr_remainingData r), sr_response r)"
  "s5_consume input h = (h', Inr r) \<Longrightarrow> sr_status r = SendMethodSelection \<Longrightarrow>
   s5_consume [] h' = (h'', Inr r') \<Longrightarrow> sr_status r' = NeedMore \<Longrightarrow>
   socks_pump 2 input h = Some (h'', PumpMore, sr_response r @ sr_response r')"
  "s5_consume input h = (h', Inr r) \<Longrightarrow> sr_status r = SendMethodSelection \<Longrightarrow>
   s5_consume [] h' = (h'', Inr r') \<Longrightarrow> sr_status r' = DestinationReady \<Longrightarrow>
   socks_pump 2 input h
     = Some (h'', PumpReady (sr_destination r') (sr_remainingData r'), sr_response r @ sr_response r')"
  by (simp_all add: socks_pump_def numeral_2_eq_2)

text \<open>
  The states a handshake passes through while \<open>p\<close> of the client's bytes \<open>greeting @ request\<close>
  have arrived, with what has been answered by then.
\<close>

definition handshake_at ::
  "byte list \<Rightarrow> byte list \<Rightarrow> Socks5Handshake \<Rightarrow> byte list \<Rightarrow> bool" where
  "handshake_at greeting p h sent \<longleftrightarrow>
     (if prefix greeting p
      then h = \<lparr>sh_state = Request, sh_buffer = drop (length greeting) p\<rparr> \<and> sent = [0x05, 0x00]
      else h = \<lparr>sh_state = Greeting, sh_buffer = p\<rparr> \<and> sent = [])"

lemma prefix_of_append:
  assumes "prefix p (g @ r)" and "\<not> prefix g p"
  shows "strict_prefix p g"
  using assms prefix_same_cases [of p "g @ r" g] by (auto simp: strict_prefix_def)

lemma socks_pump_advances:
  assumes g: "greeting_wf methods" and a: "address_wf a"
    and at: "handshake_at (encode_greeting methods) p h sent"
    and pc: "strict_prefix (p @ c) (encode_greeting methods @ encode_request a port)"
    and l: "length (p @ c) \<le> maximumSocks5HandshakeBytes"
  shows "\<exists>h' new. socks_pump 2 c h = Some (h', PumpMore, new)
    \<and> handshake_at (encode_greeting methods) (p @ c) h' (sent @ new)"
proof (cases "prefix (encode_greeting methods) p")
  case True
  let ?g = "encode_greeting methods"
  obtain q where p: "p = ?g @ q" using True by (auto simp: prefix_def)
  have h: "h = \<lparr>sh_state = Request, sh_buffer = q\<rparr>" "sent = [0x05, 0x00]"
    using at True p by (auto simp: handshake_at_def)
  have "strict_prefix (q @ c) (encode_request a port)"
    using pc p by (simp add: strict_prefix_def)
  then have "consumeRequest (h\<lparr>sh_buffer := q @ c\<rparr>) = (h\<lparr>sh_buffer := q @ c\<rparr>, need_more)"
    by (intro request_prefix_waits [OF a]) simp
  then have "s5_consume c h = (h\<lparr>sh_buffer := q @ c\<rparr>, Inr need_more)"
    using h l p by (simp add: s5_consume_open)
  then show ?thesis using socks_pump_eqs(1) h p by (auto simp: handshake_at_def)
next
  case False
  let ?g = "encode_greeting methods"
  have h: "h = \<lparr>sh_state = Greeting, sh_buffer = p\<rparr>" "sent = []"
    using at False by (auto simp: handshake_at_def)
  have open_c: "s5_consume c h = apsnd Inr (consumeGreeting (h\<lparr>sh_buffer := p @ c\<rparr>))"
    using h l by (simp add: s5_consume_open)
  show ?thesis
  proof (cases "prefix ?g (p @ c)")
    case True
    then obtain q where q: "p @ c = ?g @ q" by (auto simp: prefix_def)
    have "strict_prefix q (encode_request a port)"
      using pc q by (simp add: strict_prefix_def)
    then have r: "consumeRequest \<lparr>sh_state = Request, sh_buffer = q\<rparr>
        = (\<lparr>sh_state = Request, sh_buffer = q\<rparr>, need_more)"
      by (intro request_prefix_waits [OF a]) simp
    have "s5_consume c h = (\<lparr>sh_state = Request, sh_buffer = q\<rparr>,
        Inr (need_more\<lparr>sr_status := SendMethodSelection, sr_response := [0x05, 0x00]\<rparr>))"
      using open_c greeting_accepted [OF g, of "h\<lparr>sh_buffer := p @ c\<rparr>" q] h q by simp
    moreover have "s5_consume [] \<lparr>sh_state = Request, sh_buffer = q\<rparr>
        = (\<lparr>sh_state = Request, sh_buffer = q\<rparr>, Inr need_more)"
      using r l q by (simp add: s5_consume_nil_request)
    ultimately have "socks_pump 2 c h = Some (\<lparr>sh_state = Request, sh_buffer = q\<rparr>, PumpMore, [0x05, 0x00])"
      using socks_pump_eqs(3) by fastforce
    then show ?thesis using q h True by (simp add: handshake_at_def)
  next
    case False
    have "prefix (p @ c) ?g" "p @ c \<noteq> ?g"
      using prefix_of_append [of "p @ c" ?g] pc False by (auto simp: strict_prefix_def)
    then have "s5_consume c h = (h\<lparr>sh_buffer := p @ c\<rparr>, Inr need_more)"
      using open_c greeting_prefix_waits [OF g, of "h\<lparr>sh_buffer := p @ c\<rparr>" "p @ c"] by simp
    then show ?thesis using socks_pump_eqs(1) h False by (auto simp: handshake_at_def)
  qed
qed

lemma socks_pump_completes:
  assumes g: "greeting_wf methods" and a: "address_wf a" "port \<noteq> 0"
    and at: "handshake_at (encode_greeting methods) p h sent"
    and p: "strict_prefix p (encode_greeting methods @ encode_request a port)"
    and pc: "p @ c = encode_greeting methods @ encode_request a port @ rest"
    and l: "length (p @ c) \<le> maximumSocks5HandshakeBytes"
  shows "\<exists>h' new. socks_pump 2 c h
      = Some (h', PumpReady (Some \<lparr>sd_host = address_host a, sd_port = port\<rparr>) rest, new)
    \<and> sent @ new = [0x05, 0x00] \<and> sh_state h' = Complete"
proof (cases "prefix (encode_greeting methods) p")
  case True
  then obtain q where q: "p = encode_greeting methods @ q" by (auto simp: prefix_def)
  have h: "h = \<lparr>sh_state = Request, sh_buffer = q\<rparr>" "sent = [0x05, 0x00]"
    using at True q by (auto simp: handshake_at_def)
  have e: "q @ c = encode_request a port @ rest" using pc q by simp
  have lq: "length q + length c \<le> maximumSocks5HandshakeBytes" using l q by simp
  have "s5_consume c h = (\<lparr>sh_state = Complete, sh_buffer = []\<rparr>,
      Inr \<lparr>sr_status = DestinationReady, sr_response = [],
        sr_destination = Some \<lparr>sd_host = address_host a, sd_port = port\<rparr>, sr_remainingData = rest\<rparr>)"
    using request_accepted [OF a, of "h\<lparr>sh_buffer := q @ c\<rparr>" rest] e h lq
    by (simp add: s5_consume_open)
  then show ?thesis using socks_pump_eqs(2) h by fastforce
next
  case False
  have h: "h = \<lparr>sh_state = Greeting, sh_buffer = p\<rparr>" "sent = []"
    using at False by (auto simp: handshake_at_def)
  let ?q = "encode_request a port @ rest"
  have lp: "length p + length c \<le> maximumSocks5HandshakeBytes" using l by simp
  have "s5_consume c h = (\<lparr>sh_state = Request, sh_buffer = ?q\<rparr>,
      Inr (need_more\<lparr>sr_status := SendMethodSelection, sr_response := [0x05, 0x00]\<rparr>))"
    using greeting_accepted [OF g, of "h\<lparr>sh_buffer := p @ c\<rparr>" ?q] h lp pc
    by (simp add: s5_consume_open)
  moreover have "s5_consume [] \<lparr>sh_state = Request, sh_buffer = ?q\<rparr> = (\<lparr>sh_state = Complete, sh_buffer = []\<rparr>,
      Inr \<lparr>sr_status = DestinationReady, sr_response = [],
        sr_destination = Some \<lparr>sd_host = address_host a, sd_port = port\<rparr>, sr_remainingData = rest\<rparr>)"
    using request_accepted [OF a, of "\<lparr>sh_state = Request, sh_buffer = ?q\<rparr>" rest] l pc
    by (simp add: s5_consume_nil_request)
  ultimately show ?thesis using socks_pump_eqs(4) h(2) by fastforce
qed

lemma socks_session_reads:
  assumes g: "greeting_wf methods" and a: "address_wf a" "port \<noteq> 0"
    and at: "handshake_at (encode_greeting methods) p h sent"
    and p: "strict_prefix (p @ concat cs) (encode_greeting methods @ encode_request a port)"
    and pc: "p @ concat cs @ c = encode_greeting methods @ encode_request a port @ rest"
    and l: "length (p @ concat cs @ c) \<le> maximumSocks5HandshakeBytes"
  shows "\<exists>h' new. socks_session (cs @ [c]) h
      = Some (h', PumpReady (Some \<lparr>sd_host = address_host a, sd_port = port\<rparr>) rest, new)
    \<and> sent @ new = [0x05, 0x00] \<and> sh_state h' = Complete"
  using at p pc l
proof (induction cs arbitrary: p h sent)
  case Nil
  then show ?case using socks_pump_completes [OF g a, of p h sent c rest] by fastforce
next
  case (Cons d cs)
  have d: "strict_prefix (p @ d) (encode_greeting methods @ encode_request a port)"
    using Cons.prems(2) by (metis append.assoc concat.simps(2) prefixI strict_prefix_def
        append_prefixD prefix_order.antisym)
  obtain h1 new1 where 1: "socks_pump 2 d h = Some (h1, PumpMore, new1)"
    "handshake_at (encode_greeting methods) (p @ d) h1 (sent @ new1)"
    using socks_pump_advances [OF g a(1) Cons.prems(1) d] Cons.prems(4) by auto
  from Cons.IH [OF 1(2)] Cons.prems(2-4) obtain h' new where
    "socks_session (cs @ [c]) h1
      = Some (h', PumpReady (Some \<lparr>sd_host = address_host a, sd_port = port\<rparr>) rest, new)"
    "(sent @ new1) @ new = [0x05, 0x00]" "sh_state h' = Complete" by auto
  then show ?case using 1(1) by simp
qed

section \<open>The buffer\<close>

definition s5_inv :: "Socks5Handshake \<Rightarrow> bool" where
  "s5_inv h \<longleftrightarrow> length (sh_buffer h) \<le> maximumSocks5HandshakeBytes
     \<and> (sh_state h = Complete \<or> sh_state h = Failed \<longrightarrow> sh_buffer h = [])"

definition s5_step ::
  "Socks5Handshake \<Rightarrow> byte list \<Rightarrow> Socks5Handshake \<times> (Socks5ProtocolError + Socks5HandshakeResult)" where
  "s5_step h input = s5_consume input h"

lemma s5_reject_inv: "s5_inv (fst (s5_reject response h))"
  by (simp add: s5_inv_def s5_reject_def)

lemma consumeGreeting_inv: "s5_inv h \<Longrightarrow> s5_inv (fst (consumeGreeting h))"
  by (auto simp: consumeGreeting_def Let_def s5_reject_inv) (auto simp: s5_inv_def)

lemma consumeRequest_inv: "s5_inv h \<Longrightarrow> s5_inv (fst (consumeRequest h))"
  by (simp add: consumeRequest_def Let_def s5_reject_inv split: AddressField.split)
    (simp add: s5_inv_def)

interpretation s5_machine: op_machine s5_step s5_inv
proof
  fix h input assume "s5_inv h"
  then show "s5_inv (fst (s5_step h input))"
    by (auto simp: s5_step_def s5_consume_def Let_def s5_inv_def
        intro!: consumeGreeting_inv [unfolded s5_inv_def, THEN conjunct1]
          consumeRequest_inv [unfolded s5_inv_def, THEN conjunct1]
          consumeGreeting_inv [unfolded s5_inv_def, THEN conjunct2, rule_format]
          consumeRequest_inv [unfolded s5_inv_def, THEN conjunct2, rule_format])
qed

section \<open>The client queue of the forwarding job\<close>

text \<open>
  \<open>ByteQueue\<close> keeps consumed bytes in front of \<open>m_offset\<close> and drops them lazily.  Its contract
  is that of a first-in first-out queue of the bytes of \<open>view()\<close>.
\<close>

record ByteQueue =
  bq_bytes :: "byte list"
  bq_offset :: nat

definition maximumBufferedBytesPerDirection :: nat where
  "maximumBufferedBytesPerDirection = 262144"

definition bq_size :: "ByteQueue \<Rightarrow> nat" where
  "bq_size q = length (bq_bytes q) - bq_offset q"

definition bq_view :: "ByteQueue \<Rightarrow> byte list" where
  "bq_view q = drop (bq_offset q) (bq_bytes q)"

definition bq_compact :: "ByteQueue \<Rightarrow> ByteQueue" where
  "bq_compact q =
     (if bq_offset q = 0 then q
      else if bq_offset q \<ge> length (bq_bytes q) div 2
      then \<lparr>bq_bytes = drop (bq_offset q) (bq_bytes q), bq_offset = 0\<rparr> else q)"

definition bq_append :: "byte list \<Rightarrow> ByteQueue \<Rightarrow> ByteQueue \<times> bool" where
  "bq_append bytes q =
     (if length bytes > maximumBufferedBytesPerDirection - bq_size q then (q, False)
      else (let q' = bq_compact q in (q'\<lparr>bq_bytes := bq_bytes q' @ bytes\<rparr>, True)))"

definition bq_consume :: "nat \<Rightarrow> ByteQueue \<Rightarrow> ByteQueue" where
  "bq_consume count q =
     (let q' = q\<lparr>bq_offset := bq_offset q + min count (bq_size q)\<rparr>
      in if bq_offset q' = length (bq_bytes q') then \<lparr>bq_bytes = [], bq_offset = 0\<rparr> else q')"

definition bq_inv :: "ByteQueue \<Rightarrow> bool" where
  "bq_inv q \<longleftrightarrow> bq_offset q \<le> length (bq_bytes q)
     \<and> bq_size q \<le> maximumBufferedBytesPerDirection"

datatype ByteQueueOp = QueueAppend "byte list" | QueueConsume nat

fun bq_step :: "ByteQueue \<Rightarrow> ByteQueueOp \<Rightarrow> ByteQueue \<times> bool" where
  "bq_step q (QueueAppend bytes) = bq_append bytes q"
| "bq_step q (QueueConsume count) = (bq_consume count q, True)"

lemma bq_view_length: "length (bq_view q) = bq_size q"
  by (simp add: bq_view_def bq_size_def)

lemma bq_compact_view: "bq_inv q \<Longrightarrow> bq_view (bq_compact q) = bq_view q \<and> bq_inv (bq_compact q)"
  by (auto simp: bq_compact_def bq_view_def bq_inv_def bq_size_def)

lemma bq_append_inv: "bq_inv q \<Longrightarrow> bq_inv (fst (bq_append bytes q))"
  using bq_compact_view [of q] bq_view_length [of q] bq_view_length [of "bq_compact q"]
  by (auto simp: bq_append_def bq_inv_def bq_size_def Let_def)

lemma bq_consume_view:
  "bq_inv q \<Longrightarrow> bq_view (bq_consume count q) = drop count (bq_view q) \<and> bq_inv (bq_consume count q)"
  by (auto simp: bq_consume_def bq_view_def bq_inv_def bq_size_def Let_def min_def add.commute)

interpretation bq_machine: atomic_machine bq_step bq_inv Not
proof
  fix q x assume q: "bq_inv q"
  then show "bq_inv (fst (bq_step q x))"
    by (cases x) (simp_all add: bq_append_inv bq_consume_view)
  assume "\<not> snd (bq_step q x)"
  then show "fst (bq_step q x) = q"
    by (cases x) (auto simp: bq_append_def Let_def split: if_splits)
qed

section \<open>Properties\<close>

text \<open>
  C23. However a SOCKS5 client's bytes (a greeting that offers no authentication, a well-formed
  request for an IPv4, IPv6 or domain address with a non-zero port, and whatever follows) are cut
  into reads, provided they fit the handshake buffer and only the last read completes the request:
  the forwarding loop answers the greeting exactly once, reports the requested host and port, and
  hands over exactly the bytes behind the request.
\<close>

theorem socks_handshake_chunked:
  assumes "greeting_wf methods" and "address_wf address" and "port \<noteq> 0"
    and "concat (chunks @ [final]) = encode_greeting methods @ encode_request address port @ rest"
    and "length (concat chunks) < length (encode_greeting methods @ encode_request address port)"
    and "length (concat (chunks @ [final])) \<le> maximumSocks5HandshakeBytes"
  shows "\<exists>h. socks_session (chunks @ [final]) s5_init
    = Some (h, PumpReady (Some \<lparr>sd_host = address_host address, sd_port = port\<rparr>) rest, [0x05, 0x00])
    \<and> sh_state h = Complete"
proof -
  let ?f = "encode_greeting methods @ encode_request address port"
  have "concat chunks @ final = ?f @ rest" using assms(4) by simp
  then have "prefix (concat chunks) ?f"
    using assms(5) by (metis append_eq_append_conv_if prefixI take_is_prefix less_imp_le_nat)
  then have "strict_prefix (concat chunks) ?f" using assms(5) by (auto simp: strict_prefix_def)
  moreover have "handshake_at (encode_greeting methods) [] s5_init []"
    by (simp add: handshake_at_def encode_greeting_def s5_init_def)
  ultimately show ?thesis
    using socks_session_reads [OF assms(1-3), of "[]" s5_init "[]" chunks final rest] assms(4,6)
    by auto
qed

theorem socks_handshake_chunked_witness:
  "\<exists>h. socks_session ([[0x05, 0x02, 0x02], [0x00, 0x05, 0x01, 0x00, 0x01, 192], [168, 1]]
        @ [[10, 0x1F, 0x90, 0x47]]) s5_init
    = Some (h, PumpReady (Some \<lparr>sd_host = address_host (IPv4 [192, 168, 1, 10]), sd_port = 8080\<rparr>)
        [0x47], [0x05, 0x00]) \<and> sh_state h = Complete"
  by (rule socks_handshake_chunked [where methods = "[0x02, 0x00]"])
    (simp_all add: greeting_wf_def encode_greeting_def encode_request_def maximumSocks5HandshakeBytes_def)

text \<open>
  Cutting the input where the handshake is undecided never matters: if \<open>consume\<close> asks for
  more after one piece, consuming the next piece gives exactly what consuming both at once gives,
  whatever the bytes are, errors and rejections included.
\<close>

theorem s5_consume_chunk_invariant:
  assumes "s5_consume first h = (h', Inr r)" and "sr_status r = NeedMore"
    and "length (sh_buffer h) \<le> maximumSocks5HandshakeBytes"
  shows "s5_consume second h' = s5_consume (first @ second) h"
  by (rule s5_consume_split [OF assms])

theorem s5_consume_chunk_invariant_witness:
  "s5_consume [0x01, 0x00] (s5_init\<lparr>sh_buffer := [0x05]\<rparr>) = s5_consume ([0x05] @ [0x01, 0x00]) s5_init"
  by (rule s5_consume_chunk_invariant [where r = need_more])
    (simp_all add: s5_consume_def s5_init_def consumeGreeting_def maximumSocks5HandshakeBytes_def)

text \<open>
  C24. The loop around \<open>consume\<close> always ends, after at most two rounds, on every input and in
  every state of the handshake.
\<close>

theorem socks_pump_terminates:
  "\<exists>h' outcome sent. socks_pump 2 input h = Some (h', outcome, sent)"
  by (rule socks_loop_two_rounds)

text \<open>Whatever is fed to a fresh handshake, its buffer never holds more than 512 bytes and is
  empty once the handshake is complete or failed.
\<close>

theorem s5_buffer_bounded:
  "length (sh_buffer (run_ops s5_step s5_init inputs)) \<le> 512
   \<and> (if sh_state (run_ops s5_step s5_init inputs) \<in> {Complete, Failed}
      then sh_buffer (run_ops s5_step s5_init inputs) = [] else True)"
  using s5_machine.inv_run [of s5_init inputs]
  by (auto simp: s5_inv_def s5_init_def maximumSocks5HandshakeBytes_def)

text \<open>
  The lazily compacted \<open>ByteQueue\<close> is a bounded first-in first-out queue: in every state
  reached from the empty queue, an accepted append adds its bytes at the end of the view, a
  refused one changes nothing and would have exceeded the bound, and a consume drops that many
  bytes from the front.
\<close>

theorem bq_is_fifo:
  fixes ops
  defines "q \<equiv> run_ops bq_step \<lparr>bq_bytes = [], bq_offset = 0\<rparr> ops"
  shows "bq_view (bq_consume count q) = drop count (bq_view q)
    \<and> (case bq_append bytes q of
         (q', True) \<Rightarrow> bq_view q' = bq_view q @ bytes
           \<and> length (bq_view q') \<le> maximumBufferedBytesPerDirection
       | (q', False) \<Rightarrow> q' = q \<and> maximumBufferedBytesPerDirection < length (bq_view q) + length bytes)"
proof -
  have q: "bq_inv q" unfolding q_def
    by (rule bq_machine.inv_run) (simp add: bq_inv_def bq_size_def)
  show ?thesis
  proof (cases "length bytes > maximumBufferedBytesPerDirection - bq_size q")
    case True
    then show ?thesis using bq_consume_view [OF q] by (auto simp: bq_append_def bq_view_length)
  next
    case False
    have "bq_offset (bq_compact q) \<le> length (bq_bytes (bq_compact q))"
      using bq_compact_view [OF q] by (simp add: bq_inv_def)
    then have "bq_view (fst (bq_append bytes q)) = bq_view (bq_compact q) @ bytes"
      using False by (simp add: bq_append_def bq_view_def Let_def)
    then have "bq_view (fst (bq_append bytes q)) = bq_view q @ bytes"
      using bq_compact_view [OF q] by simp
    moreover have "snd (bq_append bytes q)" using False by (simp add: bq_append_def Let_def)
    moreover have "length (bq_view q) + length bytes \<le> maximumBufferedBytesPerDirection"
      using False q by (auto simp: bq_view_length bq_inv_def)
    ultimately show ?thesis using bq_consume_view [OF q]
      by (cases "bq_append bytes q") auto
  qed
qed

end
