(* ===== verification/Stream_Parsers.thy ===== *)
theory Stream_Parsers
  imports Prelude
begin

text \<open>
  The line based stream parsers of the AI clients: \<open>src/domain/ai/ServerSentEventParser\<close> and
  \<open>src/domain/ai/NdjsonParser\<close>.  Both buffer what the network delivers, take off every complete
  line and keep the rest.  \<open>line_loop\<close> is that loop with the handling of one line as its
  argument; the locale \<open>line_parser\<close> is the contract the two \<open>append\<close> functions share, and its
  lemmas (how a stream is cut into reads does not matter) are proved once for both.  A failed
  result is \<open>Inl\<close>; the events of a failed call are lost, as in the code.
\<close>

abbreviation nl :: char where "nl \<equiv> CHR 0x0A"
abbreviation cr :: char where "cr \<equiv> CHR 0x0D"

datatype StreamParseErrorCode = LineTooLarge | EventTooLarge | BufferTooLarge

section \<open>The line loop\<close>

definition strip_cr :: "string \<Rightarrow> string" where
  "strip_cr line = (if line \<noteq> [] \<and> last line = cr then butlast line else line)"

text \<open>The buffer and the parser after the loop, and the error that stopped it.\<close>

function line_loop ::
  "(string \<Rightarrow> 's \<Rightarrow> StreamParseErrorCode + 's) \<Rightarrow> nat \<Rightarrow> string \<Rightarrow> 's
    \<Rightarrow> (string \<times> 's) \<times> StreamParseErrorCode option" where
  "line_loop process maxLineBytes buffer s =
     (case dropWhile (\<lambda>c. c \<noteq> nl) buffer of
        [] \<Rightarrow> ((buffer, s), None)
      | _ # rest \<Rightarrow>
          (let line = strip_cr (takeWhile (\<lambda>c. c \<noteq> nl) buffer)
           in if length line > maxLineBytes then ((buffer, s), Some LineTooLarge)
              else (case process line s of
                  Inl e \<Rightarrow> ((buffer, s), Some e)
                | Inr s' \<Rightarrow> line_loop process maxLineBytes rest s')))"
  by pat_completeness auto
termination
proof (relation "measure (\<lambda>(_, _, buffer, _). length buffer)", goal_cases)
  case (2 process n buffer s c rest line s')
  then show ?case using length_dropWhile_le [of "\<lambda>c. c \<noteq> nl" buffer] by simp
qed simp

declare line_loop.simps [simp del]

lemma strip_cr_id [simp]: "cr \<notin> set line \<Longrightarrow> strip_cr line = line"
  by (cases line rule: rev_cases) (auto simp: strip_cr_def)

lemma length_strip_cr: "length (strip_cr line) \<le> length line"
  by (simp add: strip_cr_def)

lemma strip_cr_snoc [simp]: "strip_cr (line @ [cr]) = line"
  by (simp add: strip_cr_def)

lemma line_loop_rest: "nl \<notin> set buffer \<Longrightarrow> line_loop P n buffer s = ((buffer, s), None)"
proof -
  assume "nl \<notin> set buffer"
  then have "dropWhile (\<lambda>c. c \<noteq> nl) buffer = []" by (auto simp: dropWhile_eq_Nil_conv)
  then show ?thesis by (subst line_loop.simps, simp only: list.case)
qed

lemma break_at: "x \<notin> set l \<Longrightarrow> takeWhile (\<lambda>c. c \<noteq> x) (l @ x # r) = l
    \<and> dropWhile (\<lambda>c. c \<noteq> x) (l @ x # r) = x # r"
  by (induction l) auto

lemma line_loop_line:
  assumes "nl \<notin> set l"
  shows "line_loop P n (l @ nl # r) s =
     (if length (strip_cr l) > n then ((l @ nl # r, s), Some LineTooLarge)
      else (case P (strip_cr l) s of
          Inl e \<Rightarrow> ((l @ nl # r, s), Some e)
        | Inr s' \<Rightarrow> line_loop P n r s'))"
  by (subst line_loop.simps) (simp add: break_at [OF assms])

text \<open>The lines of a buffer one by one: the induction every proof about the loop uses.\<close>

lemma lines_induct [case_names rest line]:
  assumes "\<And>b. nl \<notin> set b \<Longrightarrow> Q b"
    and "\<And>l r. nl \<notin> set l \<Longrightarrow> Q r \<Longrightarrow> Q (l @ nl # r)"
  shows "Q (b :: string)"
proof (induction b rule: length_induct)
  case (1 b)
  show ?case
  proof (cases "nl \<in> set b")
    case True
    then obtain l r where "b = l @ nl # r" "nl \<notin> set l" using split_list_first by metis
    then show ?thesis using 1 assms(2) by simp
  qed (rule assms(1))
qed

lemma line_loop_split:
  assumes "line_loop P n (x @ y) s = (bs, None)"
  obtains b s' where "line_loop P n x s = ((b, s'), None)" "line_loop P n (b @ y) s' = (bs, None)"
    "nl \<notin> set b" "suffix b x"
  using assms
proof (induction x arbitrary: s thesis rule: lines_induct)
  case (rest b)
  then show ?case by (auto simp: line_loop_rest)
next
  case (line l r)
  have step: "line_loop P n (l @ nl # z) s = (case P (strip_cr l) s of
      Inl e \<Rightarrow> ((l @ nl # z, s), Some e) | Inr s' \<Rightarrow> line_loop P n z s')" for z
    using line.prems(2) line_loop_line [OF line.hyps, of P n _ s] by (auto split: if_splits)
  then obtain s1 where s1: "P (strip_cr l) s = Inr s1" "line_loop P n (r @ y) s1 = (bs, None)"
    using line.prems(2) step [of "r @ y"] by (auto split: sum.splits)
  obtain b s' where "line_loop P n r s1 = ((b, s'), None)" "line_loop P n (b @ y) s' = (bs, None)"
    "nl \<notin> set b" "suffix b r" by (rule line.IH [OF _ s1(2)])
  then show ?case using line.prems(1) [of b s'] step [of r] s1(1)
    by (simp add: suffix_appendI suffix_ConsI)
qed

text \<open>Without carriage returns the rest of a piece is no longer than the line it begins.\<close>

lemma line_loop_rest_length:
  assumes "line_loop P n (b @ y) s = ((b', s'), None)" "nl \<notin> set b" "cr \<notin> set (b @ y)" "length b' \<le> n"
  shows "length b \<le> n"
proof (cases "nl \<in> set y")
  case True
  then obtain l r where y: "y = l @ nl # r" "nl \<notin> set l" using split_list_first by metis
  have "nl \<notin> set (b @ l)" using assms(2) y by simp
  from line_loop_line [OF this, of P n r s] show ?thesis
    using assms(1,3) y by (auto split: if_splits)
next
  case False
  then have "line_loop P n (b @ y) s = ((b @ y, s), None)"
    using assms(2) by (intro line_loop_rest) simp
  then show ?thesis using assms(1,4) by simp
qed

lemma line_loop_no_nl: "line_loop P n x s = ((b, s'), None) \<Longrightarrow> nl \<notin> set b"
  by (erule line_loop_split [of P n x "[]" s, simplified]) (auto simp: line_loop_rest)

lemma line_loop_inv:
  assumes "line_loop P n x s = ((b, s'), e)" "I s"
    and "\<And>l s s'. I s \<Longrightarrow> P l s = Inr s' \<Longrightarrow> I s'"
  shows "I s'"
  using assms(1,2)
proof (induction x arbitrary: s rule: lines_induct)
  case (line l r)
  then show ?case using assms(3) by (auto simp: line_loop_line split: if_splits sum.splits)
qed (auto simp: line_loop_rest)

lemma line_loop_map:
  assumes "\<And>l s. P l (f s) = map_sum id f (P l s)"
  shows "line_loop P n x (f s) = (case line_loop P n x s of ((b, s'), e) \<Rightarrow> ((b, f s'), e))"
proof (induction x arbitrary: s rule: lines_induct)
  case (line l r)
  then show ?case by (auto simp: line_loop_line assms split: sum.splits)
qed (auto simp: line_loop_rest)

section \<open>The contract of a line parser\<close>

text \<open>Feeding pieces until one is refused.\<close>

fun feed_chunks ::
  "(string \<Rightarrow> 'p \<Rightarrow> 'p \<times> ('err + 'e list)) \<Rightarrow> string list \<Rightarrow> 'p \<Rightarrow> 'p \<times> ('err + 'e list)" where
  "feed_chunks app [] p = (p, Inr [])"
| "feed_chunks app (c # cs) p =
     (case app c p of
        (p', Inl e) \<Rightarrow> (p', Inl e)
      | (p', Inr es) \<Rightarrow> apsnd (map_sum id ((@) es)) (feed_chunks app cs p'))"

locale line_parser =
  fixes app :: "string \<Rightarrow> 'p \<Rightarrow> 'p \<times> (StreamParseErrorCode + 'e list)"
    and process :: "string \<Rightarrow> 'p \<times> 'e list \<Rightarrow> StreamParseErrorCode + 'p \<times> 'e list"
    and buffer :: "'p \<Rightarrow> string" and with_buffer :: "string \<Rightarrow> 'p \<Rightarrow> 'p"
    and limits :: "'p \<Rightarrow> nat \<times> nat" and ready :: "'p \<Rightarrow> bool"
  assumes app_ok: "ready p \<Longrightarrow> app c p = (p', Inr es) \<longleftrightarrow>
      length c \<le> snd (limits p) - min (length (buffer p)) (snd (limits p)) \<and>
      (\<exists>b q. line_loop process (fst (limits p)) (buffer p @ c) (p, []) = ((b, q, es), None)
         \<and> length b \<le> fst (limits p) \<and> p' = with_buffer b q)"
    and process_frame: "process l (with_buffer b p, es @ fs) =
      map_sum id (\<lambda>(q, gs). (with_buffer b q, es @ gs)) (process l (p, fs))"
    and process_config: "process l (p, es) = Inr (q, fs) \<Longrightarrow>
      limits q = limits p \<and> ready q = ready p"
    and with_buffer [simp]: "buffer (with_buffer b p) = b" "limits (with_buffer b p) = limits p"
      "ready (with_buffer b p) = ready p" "with_buffer b (with_buffer b' p) = with_buffer b p" "with_buffer (buffer p) p = p"
begin

lemma loop_frame:
  "line_loop process n x (with_buffer b p, es @ fs) =
     (case line_loop process n x (p, fs) of ((r, q, gs), e) \<Rightarrow> ((r, with_buffer b q, es @ gs), e))"
  using line_loop_map [of process "\<lambda>(q, gs). (with_buffer b q, es @ gs)" n x "(p, fs)"]
  by (auto simp: process_frame split: prod.splits)

lemma loop_config:
  "line_loop process n x (p, fs) = ((r, q, gs), e) \<Longrightarrow> limits q = limits p \<and> ready q = ready p"
  by (drule line_loop_inv [where I = "\<lambda>(q, _). limits q = limits p \<and> ready q = ready p"])
    (auto dest: process_config)

lemma app_intro:
  assumes "ready p" "length c \<le> snd (limits p) - min (length (buffer p)) (snd (limits p))"
    and "line_loop process (fst (limits p)) (buffer p @ c) (p, []) = ((b, q, es), None)"
    and "length b \<le> fst (limits p)"
  shows "app c p = (with_buffer b q, Inr es)"
  using iffD2 [OF app_ok [OF assms(1)]] assms(2-) by blast

lemma app_two:
  assumes "ready p" "app (a @ b) p = (p', Inr es)" "cr \<notin> set (buffer p @ a @ b)"
  obtains p1 es1 es2 where "app a p = (p1, Inr es1)" "app b p1 = (p', Inr es2)" "es = es1 @ es2"
    "ready p1" "cr \<notin> set (buffer p1)"
proof -
  let ?n = "fst (limits p)" and ?m = "snd (limits p)"
  note ok = iffD1 [OF app_ok [OF assms(1)] assms(2)]
  then have len: "length (a @ b) \<le> ?m - min (length (buffer p)) ?m" by simp
  from ok obtain r q where loop: "line_loop process ?n ((buffer p @ a) @ b) (p, []) = ((r, q, es), None)"
    and r: "length r \<le> ?n" "p' = with_buffer r q"
    by auto
  obtain r1 s1 where one': "line_loop process ?n (buffer p @ a) (p, []) = ((r1, s1), None)"
    and two': "line_loop process ?n (r1 @ b) s1 = ((r, q, es), None)"
    and r1: "nl \<notin> set r1" "suffix r1 (buffer p @ a)"
    by (rule line_loop_split [OF loop])
  obtain q1 es1 where s1: "s1 = (q1, es1)" by fastforce
  note one = one' [unfolded s1] and two = two' [unfolded s1]
  have cr1: "cr \<notin> set r1" using set_mono_suffix [OF r1(2)] assms(3) by auto
  then have r1n: "length r1 \<le> ?n"
    using line_loop_rest_length [OF two r1(1)] assms(3) r(1) by auto
  have cfg: "limits q1 = limits p \<and> ready q1 = ready p" using loop_config [OF one] .
  define p1 where "p1 = with_buffer r1 q1"
  have "length a \<le> ?m - min (length (buffer p)) ?m" using len by simp
  from app_intro [OF assms(1) this one r1n] have first: "app a p = (p1, Inr es1)"
    by (simp add: p1_def)
  obtain q2 es2 where inner: "line_loop process ?n (r1 @ b) (q1, []) = ((r, q2, es2), None)"
    and q: "q = with_buffer (buffer q1) q2" "es = es1 @ es2"
    using loop_frame [of ?n "r1 @ b" "buffer q1" q1 es1 "[]"] two
    by (auto split: prod.splits)
  have "line_loop process ?n (buffer p1 @ b) (p1, []) = ((r, with_buffer r1 q2, es2), None)"
    using loop_frame [of ?n "r1 @ b" r1 q1 "[]" "[]"] inner by (simp add: p1_def)
  moreover have "length b \<le> ?m - min (length r1) ?m"
    using len suffix_length_le [OF r1(2)] by auto
  ultimately have second: "app b p1 = (p', Inr es2)"
    using app_intro [of p1 b r "with_buffer r1 q2" es2] cfg assms(1) r q by (simp add: p1_def)
  show ?thesis
    by (rule that [OF first second q(2)]) (use cfg assms(1) cr1 in \<open>auto simp: p1_def\<close>)
qed

text \<open>However a stream without carriage returns is cut into pieces, the parser returns the same.\<close>

lemma app_chunks:
  assumes "cs \<noteq> []" "ready p" "app (concat cs) p = (p', Inr es)" "cr \<notin> set (buffer p @ concat cs)"
  shows "feed_chunks app cs p = (p', Inr es)"
  using assms
proof (induction cs arbitrary: p es rule: list_nonempty_induct)
  case (single c)
  then show ?case by simp
next
  case (cons c cs)
  have "app (c @ concat cs) p = (p', Inr es)" "cr \<notin> set (buffer p @ c @ concat cs)"
    using cons.prems by simp_all
  then obtain p1 es1 es2 where "app c p = (p1, Inr es1)" "app (concat cs) p1 = (p', Inr es2)"
    "es = es1 @ es2" "ready p1" "cr \<notin> set (buffer p1)"
    by (rule app_two [OF cons.prems(1)])
  moreover from this cons.IH [of p1 es2] cons.prems
  have "feed_chunks app cs p1 = (p', Inr es2)" by simp
  ultimately show ?case by simp
qed

end

section \<open>ServerSentEventParser\<close>

record ServerSentEvent =
  ev_event :: string
  ev_data :: string
  ev_id :: string
  ev_retryMilliseconds :: "nat option"

record ServerSentEventParserLimits =
  ssl_maxLineBytes :: nat
  ssl_maxEventBytes :: nat
  ssl_maxBufferedBytes :: nat

definition default_sse_limits :: ServerSentEventParserLimits where
  "default_sse_limits = \<lparr>ssl_maxLineBytes = 64 * 1024, ssl_maxEventBytes = 1024 * 1024,
     ssl_maxBufferedBytes = 2 * 1024 * 1024\<rparr>"

record ServerSentEventParser =
  sse_limits :: ServerSentEventParserLimits
  sse_buffer :: string
  sse_eventName :: string
  sse_data :: string
  sse_lastEventId :: string
  sse_retryMilliseconds :: "nat option"
  sse_hasData :: bool
  sse_failed :: bool
  sse_error :: StreamParseErrorCode

definition sse_new :: "ServerSentEventParserLimits \<Rightarrow> ServerSentEventParser" where
  "sse_new limits = \<lparr>sse_limits = limits, sse_buffer = [], sse_eventName = [], sse_data = [],
     sse_lastEventId = [], sse_retryMilliseconds = None, sse_hasData = False, sse_failed = False,
     sse_error = BufferTooLarge\<rparr>"

definition sse_fail ::
  "StreamParseErrorCode \<Rightarrow> ServerSentEventParser
    \<Rightarrow> ServerSentEventParser \<times> (StreamParseErrorCode + ServerSentEvent list)" where
  "sse_fail code p = (p\<lparr>sse_failed := True, sse_error := code\<rparr>, Inl code)"

definition sse_dispatch ::
  "ServerSentEventParser \<times> ServerSentEvent list \<Rightarrow> ServerSentEventParser \<times> ServerSentEvent list" where
  "sse_dispatch pe = (case pe of (p, events) \<Rightarrow>
     (p\<lparr>sse_eventName := [], sse_data := [], sse_retryMilliseconds := None, sse_hasData := False\<rparr>,
      if sse_hasData p
      then events @ [\<lparr>ev_event = (if sse_eventName p = [] then ''message'' else sse_eventName p),
                      ev_data = (if sse_data p \<noteq> [] then butlast (sse_data p) else sse_data p),
                      ev_id = sse_lastEventId p,
                      ev_retryMilliseconds = sse_retryMilliseconds p\<rparr>]
      else events))"

text \<open>
  \<open>std::from_chars\<close> for an unsigned 64-bit number, accepted when it reads the whole value: no
  sign, no spaces, at least one digit and no overflow.
\<close>

definition parse_u64 :: "string \<Rightarrow> nat option" where
  "parse_u64 ds =
     (if ds \<noteq> [] \<and> list_all is_digit ds \<and> digits_value ds < 2 ^ 64 then Some (digits_value ds) else None)"

definition sse_field :: "string \<Rightarrow> string" where
  "sse_field line = takeWhile (\<lambda>c. c \<noteq> CHR '':'') line"

definition sse_value :: "string \<Rightarrow> string" where
  "sse_value line =
     (let value = (case dropWhile (\<lambda>c. c \<noteq> CHR '':'') line of [] \<Rightarrow> [] | _ # v \<Rightarrow> v)
      in case value of [] \<Rightarrow> [] | c # v \<Rightarrow> if c = CHR '' '' then v else value)"

definition sse_processLine ::
  "string \<Rightarrow> ServerSentEventParser \<times> ServerSentEvent list
    \<Rightarrow> StreamParseErrorCode + ServerSentEventParser \<times> ServerSentEvent list" where
  "sse_processLine line pe =
     (if line = [] then Inr (sse_dispatch pe)
      else if hd line = CHR '':'' then Inr pe
      else (let (p, events) = pe; field = sse_field line; value = sse_value line in
        if field = ''data'' then
          (if length value + 1 > ssl_maxEventBytes (sse_limits p)
                - min (length (sse_data p)) (ssl_maxEventBytes (sse_limits p))
           then Inl EventTooLarge
           else Inr (p\<lparr>sse_data := sse_data p @ value @ [nl], sse_hasData := True\<rparr>, events))
        else if field = ''event'' then Inr (p\<lparr>sse_eventName := value\<rparr>, events)
        else if field = ''id'' \<and> CHR 0x00 \<notin> set value then Inr (p\<lparr>sse_lastEventId := value\<rparr>, events)
        else if field = ''retry'' then
          (case parse_u64 value of
             None \<Rightarrow> Inr (p, events)
           | Some retry \<Rightarrow> Inr (p\<lparr>sse_retryMilliseconds := Some retry\<rparr>, events))
        else Inr (p, events)))"

definition sse_append ::
  "string \<Rightarrow> ServerSentEventParser
    \<Rightarrow> ServerSentEventParser \<times> (StreamParseErrorCode + ServerSentEvent list)" where
  "sse_append bytes p =
     (if sse_failed p then (p, Inl (sse_error p))
      else if length bytes > ssl_maxBufferedBytes (sse_limits p)
          - min (length (sse_buffer p)) (ssl_maxBufferedBytes (sse_limits p))
      then sse_fail BufferTooLarge p
      else (case line_loop sse_processLine (ssl_maxLineBytes (sse_limits p)) (sse_buffer p @ bytes) (p, []) of
          ((rest, p', events), Some code) \<Rightarrow> sse_fail code (p'\<lparr>sse_buffer := rest\<rparr>)
        | ((rest, p', events), None) \<Rightarrow>
            (if length rest > ssl_maxLineBytes (sse_limits p)
             then sse_fail LineTooLarge (p'\<lparr>sse_buffer := rest\<rparr>)
             else (p'\<lparr>sse_buffer := rest\<rparr>, Inr events))))"

definition sse_finish ::
  "ServerSentEventParser \<Rightarrow> ServerSentEventParser \<times> (StreamParseErrorCode + ServerSentEvent list)" where
  "sse_finish p =
     (if sse_failed p then (p, Inl (sse_error p))
      else if sse_buffer p \<noteq> [] then
        (let line = strip_cr (sse_buffer p)
         in if length line > ssl_maxLineBytes (sse_limits p) then sse_fail LineTooLarge p
            else (case sse_processLine line (p, []) of
                Inl code \<Rightarrow> sse_fail code p
              | Inr (p', events) \<Rightarrow> apsnd Inr (sse_dispatch (p'\<lparr>sse_buffer := []\<rparr>, events))))
      else apsnd Inr (sse_dispatch (p, [])))"

definition sse_reset :: "ServerSentEventParser \<Rightarrow> ServerSentEventParser" where
  "sse_reset p = p\<lparr>sse_buffer := [], sse_eventName := [], sse_data := [], sse_lastEventId := [],
     sse_retryMilliseconds := None, sse_hasData := False, sse_failed := False,
     sse_error := BufferTooLarge\<rparr>"

section \<open>NdjsonParser\<close>

record NdjsonParserLimits =
  ndl_maxLineBytes :: nat
  ndl_maxBufferedBytes :: nat

definition default_ndjson_limits :: NdjsonParserLimits where
  "default_ndjson_limits = \<lparr>ndl_maxLineBytes = 1024 * 1024, ndl_maxBufferedBytes = 2 * 1024 * 1024\<rparr>"

record NdjsonParser =
  nd_limits :: NdjsonParserLimits
  nd_buffer :: string
  nd_failed :: bool
  nd_error :: StreamParseErrorCode

definition nd_new :: "NdjsonParserLimits \<Rightarrow> NdjsonParser" where
  "nd_new limits = \<lparr>nd_limits = limits, nd_buffer = [], nd_failed = False, nd_error = BufferTooLarge\<rparr>"

definition nd_fail ::
  "StreamParseErrorCode \<Rightarrow> NdjsonParser \<Rightarrow> NdjsonParser \<times> (StreamParseErrorCode + string list)" where
  "nd_fail code p = (p\<lparr>nd_failed := True, nd_error := code\<rparr>, Inl code)"

definition nd_appendLine ::
  "string \<Rightarrow> NdjsonParser \<times> string list \<Rightarrow> StreamParseErrorCode + NdjsonParser \<times> string list" where
  "nd_appendLine line pl = Inr (apsnd (\<lambda>lines. if line \<noteq> [] then lines @ [line] else lines) pl)"

definition nd_append ::
  "string \<Rightarrow> NdjsonParser \<Rightarrow> NdjsonParser \<times> (StreamParseErrorCode + string list)" where
  "nd_append bytes p =
     (if nd_failed p then (p, Inl (nd_error p))
      else if length bytes > ndl_maxBufferedBytes (nd_limits p)
          - min (length (nd_buffer p)) (ndl_maxBufferedBytes (nd_limits p))
      then nd_fail BufferTooLarge p
      else (case line_loop nd_appendLine (ndl_maxLineBytes (nd_limits p)) (nd_buffer p @ bytes) (p, []) of
          ((rest, p', lines), Some code) \<Rightarrow> nd_fail code (p'\<lparr>nd_buffer := rest\<rparr>)
        | ((rest, p', lines), None) \<Rightarrow>
            (if length rest > ndl_maxLineBytes (nd_limits p)
             then nd_fail LineTooLarge (p'\<lparr>nd_buffer := rest\<rparr>)
             else (p'\<lparr>nd_buffer := rest\<rparr>, Inr lines))))"

definition nd_finish :: "NdjsonParser \<Rightarrow> NdjsonParser \<times> (StreamParseErrorCode + string list)" where
  "nd_finish p =
     (if nd_failed p then (p, Inl (nd_error p))
      else if length (nd_buffer p) > ndl_maxLineBytes (nd_limits p) then nd_fail LineTooLarge p
      else (case nd_appendLine (strip_cr (nd_buffer p)) (p, []) of
          Inl code \<Rightarrow> nd_fail code p
        | Inr (p', lines) \<Rightarrow> (p'\<lparr>nd_buffer := []\<rparr>, Inr lines)))"

definition nd_reset :: "NdjsonParser \<Rightarrow> NdjsonParser" where
  "nd_reset p = p\<lparr>nd_buffer := [], nd_failed := False, nd_error := BufferTooLarge\<rparr>"

section \<open>Both parsers keep the contract\<close>

lemma sse_processLine_frame:
  "sse_processLine l (p\<lparr>sse_buffer := b\<rparr>, es @ fs) =
     map_sum id (\<lambda>(q, gs). (q\<lparr>sse_buffer := b\<rparr>, es @ gs)) (sse_processLine l (p, fs))"
  by (auto simp: sse_processLine_def sse_dispatch_def Let_def split: option.splits)

lemma sse_processLine_config:
  "sse_processLine l (p, es) = Inr (q, fs) \<Longrightarrow> sse_limits q = sse_limits p \<and> sse_failed q = sse_failed p
    \<and> sse_buffer q = sse_buffer p"
  by (auto simp: sse_processLine_def sse_dispatch_def Let_def split: if_splits option.splits)

interpretation sse: line_parser sse_append sse_processLine sse_buffer "\<lambda>b p. p\<lparr>sse_buffer := b\<rparr>"
  "\<lambda>p. (ssl_maxLineBytes (sse_limits p), ssl_maxBufferedBytes (sse_limits p))" "\<lambda>p. \<not> sse_failed p"
proof unfold_locales
  fix p p' :: ServerSentEventParser and c :: string and es :: "ServerSentEvent list"
  assume "\<not> sse_failed p"
  then show "sse_append c p = (p', Inr es) \<longleftrightarrow>
      length c \<le> snd (ssl_maxLineBytes (sse_limits p), ssl_maxBufferedBytes (sse_limits p))
        - min (length (sse_buffer p)) (snd (ssl_maxLineBytes (sse_limits p), ssl_maxBufferedBytes (sse_limits p))) \<and>
      (\<exists>b q. line_loop sse_processLine (fst (ssl_maxLineBytes (sse_limits p), ssl_maxBufferedBytes (sse_limits p)))
           (sse_buffer p @ c) (p, []) = ((b, q, es), None)
         \<and> length b \<le> fst (ssl_maxLineBytes (sse_limits p), ssl_maxBufferedBytes (sse_limits p))
         \<and> p' = q\<lparr>sse_buffer := b\<rparr>)"
    by (auto simp: sse_append_def sse_fail_def not_less split: prod.splits option.splits)
next
  fix l and p q :: ServerSentEventParser and es fs assume "sse_processLine l (p, es) = Inr (q, fs)"
  from sse_processLine_config [OF this]
  show "(ssl_maxLineBytes (sse_limits q), ssl_maxBufferedBytes (sse_limits q))
      = (ssl_maxLineBytes (sse_limits p), ssl_maxBufferedBytes (sse_limits p))
    \<and> (\<not> sse_failed q) = (\<not> sse_failed p)" by simp
qed (simp_all add: sse_processLine_frame)

interpretation nd: line_parser nd_append nd_appendLine nd_buffer "\<lambda>b p. p\<lparr>nd_buffer := b\<rparr>"
  "\<lambda>p. (ndl_maxLineBytes (nd_limits p), ndl_maxBufferedBytes (nd_limits p))" "\<lambda>p. \<not> nd_failed p"
proof unfold_locales
  fix p p' :: NdjsonParser and c :: string and es :: "string list"
  assume "\<not> nd_failed p"
  then show "nd_append c p = (p', Inr es) \<longleftrightarrow>
      length c \<le> snd (ndl_maxLineBytes (nd_limits p), ndl_maxBufferedBytes (nd_limits p))
        - min (length (nd_buffer p)) (snd (ndl_maxLineBytes (nd_limits p), ndl_maxBufferedBytes (nd_limits p))) \<and>
      (\<exists>b q. line_loop nd_appendLine (fst (ndl_maxLineBytes (nd_limits p), ndl_maxBufferedBytes (nd_limits p)))
           (nd_buffer p @ c) (p, []) = ((b, q, es), None)
         \<and> length b \<le> fst (ndl_maxLineBytes (nd_limits p), ndl_maxBufferedBytes (nd_limits p))
         \<and> p' = q\<lparr>nd_buffer := b\<rparr>)"
    by (auto simp: nd_append_def nd_fail_def not_less split: prod.splits option.splits)
qed (auto simp: nd_appendLine_def)

section \<open>Bounds and sticky failures\<close>

datatype SseOp = Append string | Finish | Reset

fun sse_step ::
  "ServerSentEventParser \<Rightarrow> SseOp \<Rightarrow> ServerSentEventParser \<times> (StreamParseErrorCode + ServerSentEvent list)" where
  "sse_step p (Append bytes) = sse_append bytes p"
| "sse_step p Finish = sse_finish p"
| "sse_step p Reset = (sse_reset p, Inr [])"

definition sse_inv :: "ServerSentEventParserLimits \<Rightarrow> ServerSentEventParser \<Rightarrow> bool" where
  "sse_inv lim p \<longleftrightarrow> sse_limits p = lim
     \<and> length (sse_buffer p) \<le> ssl_maxBufferedBytes lim
     \<and> (\<not> sse_failed p \<longrightarrow> length (sse_buffer p) \<le> ssl_maxLineBytes lim)
     \<and> length (sse_data p) \<le> ssl_maxEventBytes lim"

lemma sse_processLine_data:
  assumes "sse_processLine l (p, es) = Inr (q, fs)" "length (sse_data p) \<le> ssl_maxEventBytes (sse_limits p)"
  shows "length (sse_data q) \<le> ssl_maxEventBytes (sse_limits q)"
  using assms
  by (auto simp: sse_processLine_def sse_dispatch_def Let_def split: if_splits option.splits)

lemma line_loop_shorter: "line_loop P n x s = ((b, s'), e) \<Longrightarrow> suffix b x"
proof (induction x arbitrary: s rule: lines_induct)
  case (line l r)
  then show ?case
    by (auto simp: line_loop_line suffix_appendI suffix_ConsI split: if_splits sum.splits)
qed (auto simp: line_loop_rest)

definition sse_data_ok :: "ServerSentEventParser \<Rightarrow> ServerSentEventParser \<Rightarrow> bool" where
  "sse_data_ok p q \<longleftrightarrow> length (sse_data q) \<le> ssl_maxEventBytes (sse_limits q)
     \<and> sse_limits q = sse_limits p \<and> sse_failed q = sse_failed p"

lemma sse_data_ok_step: "sse_data_ok p q \<Longrightarrow> sse_processLine l (q, es) = Inr (q', fs) \<Longrightarrow> sse_data_ok p q'"
  using sse_processLine_data [of l q es q' fs] sse_processLine_config [of l q es q' fs]
  by (auto simp: sse_data_ok_def)

lemma sse_append_inv:
  assumes "sse_inv lim p"
  shows "sse_inv lim (fst (sse_append bytes p))"
proof -
  obtain b q es e where loop: "line_loop sse_processLine (ssl_maxLineBytes (sse_limits p))
      (sse_buffer p @ bytes) (p, []) = ((b, q, es), e)" by (metis prod.collapse)
  have "(\<lambda>(q, _). sse_data_ok p q) (q, es)"
  proof (rule line_loop_inv [OF loop])
    show "(\<lambda>(q, _). sse_data_ok p q) (p, [])" using assms by (simp add: sse_inv_def sse_data_ok_def)
    show "(\<lambda>(q, _). sse_data_ok p q) s'"
      if "(\<lambda>(q, _). sse_data_ok p q) s" "sse_processLine l s = Inr s'" for l s s'
      using that sse_data_ok_step [of p "fst s" l "snd s" "fst s'" "snd s'"]
      by (cases s; cases s') simp
  qed
  then have d: "sse_data_ok p q" by simp
  have "length b \<le> length (sse_buffer p @ bytes)"
    using suffix_length_le [OF line_loop_shorter [OF loop]] .
  moreover have "sse_limits p = lim" using assms by (simp add: sse_inv_def)
  ultimately show ?thesis using assms d loop
    by (cases e) (simp_all add: sse_append_def sse_fail_def sse_inv_def not_less sse_data_ok_def, auto)
qed

lemma sse_dispatch_inv: "sse_inv lim p \<Longrightarrow> sse_inv lim (fst (sse_dispatch (p, es)))"
  by (simp add: sse_dispatch_def sse_inv_def)

lemma sse_finish_inv:
  assumes "sse_inv lim p"
  shows "sse_inv lim (fst (sse_finish p))"
proof (cases "sse_processLine (strip_cr (sse_buffer p)) (p, [])")
  case (Inr x)
  obtain q es where q: "sse_processLine (strip_cr (sse_buffer p)) (p, []) = Inr (q, es)"
    using Inr by (cases x) auto
  have "sse_inv lim (q\<lparr>sse_buffer := []\<rparr>)"
    using assms sse_processLine_data [OF q] sse_processLine_config [OF q] by (auto simp: sse_inv_def)
  from sse_dispatch_inv [OF this, of es] show ?thesis
    using assms q sse_dispatch_inv [OF assms, of "[]"]
    by (auto simp: sse_finish_def sse_fail_def Let_def sse_inv_def)
qed (use assms sse_dispatch_inv [OF assms, of "[]"] in
    \<open>auto simp: sse_finish_def sse_fail_def Let_def sse_inv_def\<close>)

interpretation sse_machine: op_machine sse_step "sse_inv lim"
proof unfold_locales
  fix p x assume "sse_inv lim p"
  then show "sse_inv lim (fst (sse_step p x))"
    by (cases x) (simp_all add: sse_append_inv sse_finish_inv, simp add: sse_inv_def sse_reset_def)
qed

lemma sse_new_inv: "sse_inv lim (sse_new lim)"
  by (simp add: sse_inv_def sse_new_def)

lemma sse_step_error: "snd (sse_step p x) = Inl e \<Longrightarrow>
    sse_failed (fst (sse_step p x)) \<and> sse_error (fst (sse_step p x)) = e"
  by (cases x) (auto simp: sse_append_def sse_finish_def sse_fail_def Let_def
      split: if_splits option.splits prod.splits sum.splits)

lemma sse_failed_step: "sse_failed p \<Longrightarrow> x \<noteq> Reset \<Longrightarrow> sse_step p x = (p, Inl (sse_error p))"
  by (cases x) (auto simp: sse_append_def sse_finish_def)

lemma sse_failed_run:
  "sse_failed p \<Longrightarrow> Reset \<notin> set ops \<Longrightarrow> map snd (replies sse_step p ops) = replicate (length ops) (Inl (sse_error p))"
  by (induction ops) (auto simp: sse_failed_step)

section \<open>What a server sends\<close>

fun split_lines :: "string \<Rightarrow> string list" where
  "split_lines [] = [[]]"
| "split_lines (c # cs) =
     (if c = nl then [] # split_lines cs
      else (case split_lines cs of [] \<Rightarrow> [[c]] | l # ls \<Rightarrow> (c # l) # ls))"

definition line_of :: "string \<Rightarrow> string \<Rightarrow> string" where
  "line_of field value = field @ '': '' @ value @ [nl]"

definition render_event :: "ServerSentEvent \<Rightarrow> string" where
  "render_event e = line_of ''event'' (ev_event e) @ line_of ''id'' (ev_id e)
     @ (case ev_retryMilliseconds e of None \<Rightarrow> [] | Some n \<Rightarrow> line_of ''retry'' (decimal n))
     @ concat (map (line_of ''data'') (split_lines (ev_data e))) @ [nl]"

definition event_ok :: "ServerSentEventParserLimits \<Rightarrow> ServerSentEvent \<Rightarrow> bool" where
  "event_ok lim e \<longleftrightarrow> ev_event e \<noteq> [] \<and> set (ev_event e) \<inter> {nl, cr} = {}
     \<and> set (ev_id e) \<inter> {nl, cr, CHR 0x00} = {} \<and> cr \<notin> set (ev_data e)
     \<and> (\<forall>n. ev_retryMilliseconds e = Some n \<longrightarrow> n < 2 ^ 64)
     \<and> length (ev_event e) + 7 \<le> ssl_maxLineBytes lim \<and> length (ev_id e) + 4 \<le> ssl_maxLineBytes lim
     \<and> 27 \<le> ssl_maxLineBytes lim
     \<and> length (ev_data e) + 6 \<le> ssl_maxLineBytes lim \<and> length (ev_data e) < ssl_maxEventBytes lim"

lemma split_lines_concat: "concat (map (\<lambda>l. l @ [nl]) (split_lines d)) = d @ [nl]"
  by (induction d) (auto split: list.splits)

lemma split_lines_nonempty: "split_lines d \<noteq> []"
  by (induction d) (auto split: list.splits)

lemma split_lines_in: "l \<in> set (split_lines d) \<Longrightarrow> nl \<notin> set l \<and> set l \<subseteq> set d \<and> length l \<le> length d"
proof (induction d arbitrary: l)
  case (Cons c d)
  obtain m ms where "split_lines d = m # ms" using split_lines_nonempty by (metis list.exhaust)
  then show ?case using Cons by (fastforce split: if_splits)
qed simp

lemma parse_u64_decimal: "n < 2 ^ 64 \<Longrightarrow> parse_u64 (decimal n) = Some n"
  by (simp add: parse_u64_def digits_value_decimal decimal_digits decimal_nonempty)

lemma digit_not_control: "is_digit c \<Longrightarrow> c \<noteq> nl \<and> c \<noteq> cr"
  by (auto simp: is_digit_def)

lemma field_line [simp]:
  "CHR '':'' \<notin> set f \<Longrightarrow> sse_field (f @ '': '' @ v) = f"
  "CHR '':'' \<notin> set f \<Longrightarrow> sse_value (f @ '': '' @ v) = v"
  by (induction f) (auto simp: sse_field_def sse_value_def)

lemma loop_line_of:
  assumes "f \<noteq> []" "set f \<inter> {nl, cr, CHR '':''} = {}" "set v \<inter> {nl, cr} = {}"
    and "length f + length v + 2 \<le> n"
  shows "line_loop P n (line_of f v @ r) s = (case P (f @ '': '' @ v) s of
      Inl e \<Rightarrow> ((line_of f v @ r, s), Some e) | Inr s' \<Rightarrow> line_loop P n r s')"
proof -
  have line: "cr \<notin> set (f @ '': '' @ v)" "nl \<notin> set (f @ '': '' @ v)" using assms by auto
  have e: "line_of f v @ r = (f @ '': '' @ v) @ nl # r" by (simp add: line_of_def)
  show ?thesis unfolding e
    using line_loop_line [OF line(2), of P n r s] line(1) assms(4) by simp
qed

lemma process_data:
  assumes "length (sse_data p) + length l + 1 \<le> ssl_maxEventBytes (sse_limits p)"
  shows "sse_processLine (''data: '' @ l) (p, es)
      = Inr (p\<lparr>sse_data := sse_data p @ l @ [nl], sse_hasData := True\<rparr>, es)"
  using assms field_line [of "''data''" l] by (simp add: sse_processLine_def min_def)

lemma loop_data_lines:
  assumes "\<forall>l \<in> set ls. set l \<inter> {nl, cr} = {} \<and> length l + 6 \<le> n"
    and "length (sse_data p) + length (concat (map (\<lambda>l. l @ [nl]) ls)) \<le> ssl_maxEventBytes (sse_limits p)"
    and "ls \<noteq> []"
  shows "line_loop sse_processLine n (concat (map (line_of ''data'') ls) @ r) (p, es)
    = line_loop sse_processLine n r
        (p\<lparr>sse_data := sse_data p @ concat (map (\<lambda>l. l @ [nl]) ls), sse_hasData := True\<rparr>, es)"
  using assms(3,1,2)
proof (induction ls arbitrary: p rule: list_nonempty_induct)
  case (single l)
  then show ?case
    using loop_line_of [of "''data''" l n sse_processLine r "(p, es)"] process_data [of p l es] by simp
next
  case (cons l ls)
  have "sse_processLine (''data: '' @ l) (p, es)
      = Inr (p\<lparr>sse_data := sse_data p @ l @ [nl], sse_hasData := True\<rparr>, es)"
    using cons.prems by (intro process_data) simp
  then show ?case using cons.prems loop_line_of [of "''data''" l n sse_processLine _ "(p, es)"]
      cons.IH [of "p\<lparr>sse_data := sse_data p @ l @ [nl], sse_hasData := True\<rparr>"]
    by simp
qed

definition sse_idle :: "ServerSentEventParser \<Rightarrow> bool" where
  "sse_idle p \<longleftrightarrow> sse_eventName p = [] \<and> sse_data p = [] \<and> sse_retryMilliseconds p = None
     \<and> \<not> sse_hasData p"

lemma process_fields:
  "v \<noteq> [] \<Longrightarrow> sse_processLine (''event: '' @ v) (p, es) = Inr (p\<lparr>sse_eventName := v\<rparr>, es)"
  "CHR 0x00 \<notin> set v \<Longrightarrow> sse_processLine (''id: '' @ v) (p, es) = Inr (p\<lparr>sse_lastEventId := v\<rparr>, es)"
  "k < 2 ^ 64 \<Longrightarrow> sse_processLine (''retry: '' @ decimal k) (p, es)
     = Inr (p\<lparr>sse_retryMilliseconds := Some k\<rparr>, es)"
  using field_line [of "''event''" v] field_line [of "''id''" v] field_line [of "''retry''" "decimal k"]
  by (simp_all add: sse_processLine_def parse_u64_decimal)

lemmas process_fields_simps = process_fields [simplified]

lemma decimal_plain: "set (decimal k) \<inter> {nl, cr} = {}"
  using decimal_digits [of k] digit_not_control by (auto simp: list_all_iff)

lemma loop_event:
  assumes "event_ok (sse_limits p) e" "sse_idle p"
  shows "line_loop sse_processLine (ssl_maxLineBytes (sse_limits p)) (render_event e @ r) (p, es)
    = line_loop sse_processLine (ssl_maxLineBytes (sse_limits p)) r
        (p\<lparr>sse_lastEventId := ev_id e\<rparr>, es @ [e])"
proof -
  let ?n = "ssl_maxLineBytes (sse_limits p)" and ?L = "line_loop sse_processLine (ssl_maxLineBytes (sse_limits p))"
  let ?d = "concat (map (line_of ''data'') (split_lines (ev_data e))) @ [nl] @ r"
  let ?t = "(case ev_retryMilliseconds e of None \<Rightarrow> [] | Some n \<Rightarrow> line_of ''retry'' (decimal n)) @ ?d"
  define p1 where "p1 = p\<lparr>sse_eventName := ev_event e, sse_lastEventId := ev_id e\<rparr>"
  define p2 where "p2 = p1\<lparr>sse_retryMilliseconds := ev_retryMilliseconds e\<rparr>"
  have ok: "ev_event e \<noteq> []" "set (ev_event e) \<inter> {nl, cr} = {}" "set (ev_id e) \<inter> {nl, cr} = {}"
    "CHR 0x00 \<notin> set (ev_id e)" "length (ev_event e) + 7 \<le> ?n" "length (ev_id e) + 4 \<le> ?n" "27 \<le> ?n"
    using assms(1) by (auto simp: event_ok_def)
  have 1: "?L (render_event e @ r) (p, es) = ?L ?t (p1, es)"
    using ok by (simp add: render_event_def loop_line_of process_fields_simps p1_def)
  have 2: "?L ?t (p1, es) = ?L ?d (p2, es)"
  proof (cases "ev_retryMilliseconds e")
    case None
    then have "p2 = p1" using assms(2) by (cases p) (simp add: p2_def p1_def sse_idle_def)
    then show ?thesis using None by simp
  next
    case (Some k)
    then have k: "k < 2 ^ 64" using assms(1) by (simp add: event_ok_def)
    then have "k < 10 ^ Suc 19" by simp
    from decimal_length [OF this] ok(7) have "length (decimal k) + 7 \<le> ?n" by simp
    then show ?thesis using Some k decimal_plain [of k]
      by (simp add: loop_line_of process_fields_simps p2_def)
  qed
  have data: "\<forall>l \<in> set (split_lines (ev_data e)). set l \<inter> {nl, cr} = {} \<and> length l + 6 \<le> ?n"
    using split_lines_in [of _ "ev_data e"] assms(1) by (fastforce simp: event_ok_def)
  have "?L ?d (p2, es) = ?L ([nl] @ r) (p2\<lparr>sse_data := ev_data e @ [nl], sse_hasData := True\<rparr>, es)"
    using loop_data_lines [OF data, of p2 "[nl] @ r" es] split_lines_nonempty assms
    by (simp add: split_lines_concat p2_def p1_def sse_idle_def event_ok_def)
  also have "\<dots> = ?L r (p\<lparr>sse_lastEventId := ev_id e\<rparr>, es @ [e])"
    using line_loop_line [of "[]" sse_processLine ?n r] ok(1) assms(2)
    by (cases p, cases e) (simp add: sse_processLine_def sse_dispatch_def p2_def p1_def sse_idle_def)
  finally show ?thesis using 1 2 by simp
qed

lemma loop_events:
  assumes "\<forall>e \<in> set evs. event_ok (sse_limits p) e" "sse_idle p"
  shows "\<exists>q. line_loop sse_processLine (ssl_maxLineBytes (sse_limits p)) (concat (map render_event evs)) (p, es)
    = (([], q, es @ evs), None)"
  using assms
proof (induction evs arbitrary: p es)
  case Nil
  then show ?case by (simp add: line_loop_rest)
next
  case (Cons e evs)
  have "sse_idle (p\<lparr>sse_lastEventId := ev_id e\<rparr>)" using Cons.prems by (simp add: sse_idle_def)
  with Cons.IH [of "p\<lparr>sse_lastEventId := ev_id e\<rparr>" "es @ [e]"] Cons.prems show ?case
    by (simp add: loop_event)
qed

lemma line_of_plain: "cr \<notin> set f \<Longrightarrow> cr \<notin> set v \<Longrightarrow> cr \<notin> set (line_of f v)"
  by (simp add: line_of_def)

lemma render_no_cr: "event_ok lim e \<Longrightarrow> cr \<notin> set (render_event e)"
  using decimal_plain split_lines_in [of _ "ev_data e"]
  by (auto simp: event_ok_def render_event_def line_of_def split: option.splits)

lemma nd_appendLine_pair:
  "nd_appendLine l (p, es) = Inr (p, if l \<noteq> [] then es @ [l] else es)"
  by (simp add: nd_appendLine_def)

lemma loop_nd_lines:
  assumes "\<forall>l \<in> set ls. set l \<inter> {nl, cr} = {} \<and> length l \<le> n"
  shows "line_loop nd_appendLine n (concat (map (\<lambda>l. l @ [nl]) ls)) (p, es)
    = (([], p, es @ filter (\<lambda>l. l \<noteq> []) ls), None)"
  using assms
proof (induction ls arbitrary: es)
  case (Cons l ls)
  then show ?case using line_loop_line [of l nd_appendLine n _ "(p, es)"] by (simp add: nd_appendLine_pair)
qed (simp add: line_loop_rest)

section \<open>Properties\<close>

text \<open>C26. Round trip: events written the way a server writes them (an \<open>event\<close>, an \<open>id\<close>, an
  optional \<open>retry\<close> field and one \<open>data\<close> field per line of the data, each closed by an empty line)
  come back from a fresh parser as the same events in the same order, however the network cuts the
  stream into reads.  The events are any that fit the limits of the parser, with no carriage
  return in them.\<close>

theorem sse_round_trip_chunked:
  assumes "\<forall>e \<in> set evs. event_ok limits e"
    and "concat chunks = concat (map render_event evs)" "chunks \<noteq> []"
    and "length (concat chunks) \<le> ssl_maxBufferedBytes limits"
  shows "snd (feed_chunks sse_append chunks (sse_new limits)) = Inr evs"
proof -
  let ?p = "sse_new limits"
  have p: "sse_idle ?p" "sse_limits ?p = limits" "sse_buffer ?p = []" "\<not> sse_failed ?p"
    by (simp_all add: sse_idle_def sse_new_def)
  obtain q where "line_loop sse_processLine (ssl_maxLineBytes limits) (concat chunks) (?p, [])
      = (([], q, evs), None)"
    using loop_events [of evs ?p "[]"] assms(1,2) p by auto
  then have "sse_append (concat chunks) ?p = (q\<lparr>sse_buffer := []\<rparr>, Inr evs)"
    using p assms(4) by (simp add: sse_append_def)
  moreover have "cr \<notin> set (sse_buffer ?p @ concat chunks)"
    using assms(1,2) p(3) by (auto dest: render_no_cr)
  ultimately show ?thesis using sse.app_chunks [OF assms(3) p(4)] by simp
qed

lemma sse_round_trip_chunked_witness:
  defines "e \<equiv> \<lparr>ev_event = ''delta'', ev_data = ''a'' @ [nl] @ ''b'', ev_id = ''7'', ev_retryMilliseconds = Some 5\<rparr>"
  shows "snd (feed_chunks sse_append [take 20 (render_event e), drop 20 (render_event e)]
      (sse_new default_sse_limits)) = Inr [e]"
proof (rule sse_round_trip_chunked)
  have "length (render_event e) \<le> 100" "render_event e @ [] = render_event e"
    by (simp_all add: e_def render_event_def line_of_def decimal.simps)
  then show "length (concat [take 20 (render_event e), drop 20 (render_event e)])
      \<le> ssl_maxBufferedBytes default_sse_limits"
    by (simp add: default_sse_limits_def)
qed (simp_all add: e_def event_ok_def default_sse_limits_def)

text \<open>C27. Whatever is fed to a \<open>ServerSentEventParser\<close>, in every reachable state the buffer stays
  within \<open>maxBufferedBytes\<close>, within \<open>maxLineBytes\<close> while the parser has not failed, and the data
  of the event being collected within \<open>maxEventBytes\<close>; and once a call has failed, every further
  call fails with the same error until \<open>reset\<close>.\<close>

theorem sse_bounded_and_sticky:
  defines "p limits ops \<equiv> run_ops sse_step (sse_new limits) ops"
  shows "length (sse_buffer (p limits ops)) \<le> ssl_maxBufferedBytes limits
    \<and> (sse_failed (p limits ops) \<or> length (sse_buffer (p limits ops)) \<le> ssl_maxLineBytes limits)
    \<and> length (sse_data (p limits ops)) \<le> ssl_maxEventBytes limits
    \<and> (snd (sse_step (p limits ops) x) = Inl e \<longrightarrow> Reset \<notin> set ops' \<longrightarrow>
        map snd (replies sse_step (fst (sse_step (p limits ops) x)) ops') = replicate (length ops') (Inl e))"
proof -
  have "sse_inv limits (p limits ops)"
    unfolding p_def by (rule sse_machine.inv_run [OF sse_new_inv])
  then have "length (sse_buffer (p limits ops)) \<le> ssl_maxBufferedBytes limits"
    "sse_failed (p limits ops) \<or> length (sse_buffer (p limits ops)) \<le> ssl_maxLineBytes limits"
    "length (sse_data (p limits ops)) \<le> ssl_maxEventBytes limits"
    by (auto simp: sse_inv_def)
  moreover have "map snd (replies sse_step (fst (sse_step (p limits ops) x)) ops') = replicate (length ops') (Inl e)"
    if "snd (sse_step (p limits ops) x) = Inl e" "Reset \<notin> set ops'"
    using sse_step_error [of "p limits ops" x e] sse_failed_run that by auto
  ultimately show ?thesis by blast
qed

lemma sse_bounded_and_sticky_witness:
  defines "lim \<equiv> \<lparr>ssl_maxLineBytes = 2, ssl_maxEventBytes = 2, ssl_maxBufferedBytes = 4\<rparr>"
  shows "map snd (replies sse_step (fst (sse_step (run_ops sse_step (sse_new lim) []) (Append ''abcde'')))
     [Finish, Append ''x'']) = replicate 2 (Inl BufferTooLarge)"
proof -
  have "snd (sse_step (run_ops sse_step (sse_new lim) []) (Append ''abcde'')) = Inl BufferTooLarge"
    unfolding lim_def by code_simp
  with sse_bounded_and_sticky [of lim "[]" "Append ''abcde''" BufferTooLarge "[Finish, Append ''x'']"]
  show ?thesis by (simp add: numeral_2_eq_2)
qed

text \<open>The lines of an NDJSON stream come back from a fresh parser in order, empty ones left out,
  however the stream is cut into reads.\<close>

theorem nd_round_trip_chunked:
  assumes "\<forall>l \<in> set ls. set l \<inter> {nl, cr} = {} \<and> length l \<le> ndl_maxLineBytes limits"
    and "concat chunks = concat (map (\<lambda>l. l @ [nl]) ls)" "chunks \<noteq> []"
    and "length (concat chunks) \<le> ndl_maxBufferedBytes limits"
  shows "snd (feed_chunks nd_append chunks (nd_new limits)) = Inr (filter (\<lambda>l. l \<noteq> []) ls)"
proof -
  let ?p = "nd_new limits"
  have p: "nd_limits ?p = limits" "nd_buffer ?p = []" "\<not> nd_failed ?p" by (simp_all add: nd_new_def)
  have "nd_append (concat chunks) ?p = (?p\<lparr>nd_buffer := []\<rparr>, Inr (filter (\<lambda>l. l \<noteq> []) ls))"
    using loop_nd_lines [OF assms(1), of ?p "[]"] assms(2,4) p by (simp add: nd_append_def)
  moreover have "cr \<notin> set (nd_buffer ?p @ concat chunks)" using assms(1,2) p(2) by auto
  ultimately show ?thesis using nd.app_chunks [OF assms(3) p(3)] by simp
qed

lemma nd_round_trip_chunked_witness:
  "snd (feed_chunks nd_append [''[1'', '']'' @ [nl, nl] @ ''{}'', [nl]] (nd_new default_ndjson_limits))
     = Inr [''[1]'', ''{}'']"
  using nd_round_trip_chunked [of "[''[1]'', [], ''{}'']" default_ndjson_limits
      "[''[1'', '']'' @ [nl, nl] @ ''{}'', [nl]]"]
  by (simp add: default_ndjson_limits_def)

text \<open>With a carriage return at the end of the line the cut does matter: a line of exactly
  \<open>maxLineBytes\<close> bytes is accepted when its \<open>CR LF\<close> arrives in the same read, and refused as too
  large when the read ends between the two, because the check of the rest of the buffer counts the
  carriage return that the check of the line does not.\<close>

theorem nd_crlf_cut_refused:
  assumes "length l = ndl_maxLineBytes limits" "l \<noteq> []" "nl \<notin> set l"
    and "length l + 2 \<le> ndl_maxBufferedBytes limits"
  shows "snd (nd_append (l @ [cr, nl]) (nd_new limits)) = Inr [l]
    \<and> snd (feed_chunks nd_append [l @ [cr], [nl]] (nd_new limits)) = Inl LineTooLarge"
proof
  have "line_loop nd_appendLine (length l) ((l @ [cr]) @ nl # []) (nd_new limits, [])
      = (([], nd_new limits, [l]), None)"
    using line_loop_line [of "l @ [cr]" nd_appendLine "length l" "[]" "(nd_new limits, [])"] assms(2,3)
    by (simp add: nd_appendLine_pair line_loop_rest)
  then show "snd (nd_append (l @ [cr, nl]) (nd_new limits)) = Inr [l]"
    using assms by (simp add: nd_append_def nd_new_def)
  show "snd (feed_chunks nd_append [l @ [cr], [nl]] (nd_new limits)) = Inl LineTooLarge"
    using assms by (simp add: nd_append_def nd_new_def line_loop_rest nd_fail_def)
qed

lemma nd_crlf_cut_refused_witness:
  "snd (nd_append (''{}'' @ [cr, nl]) (nd_new \<lparr>ndl_maxLineBytes = 2, ndl_maxBufferedBytes = 9\<rparr>)) = Inr [''{}'']
   \<and> snd (feed_chunks nd_append [''{}'' @ [cr], [nl]] (nd_new \<lparr>ndl_maxLineBytes = 2, ndl_maxBufferedBytes = 9\<rparr>))
     = Inl LineTooLarge"
  using nd_crlf_cut_refused [of "''{}''" "\<lparr>ndl_maxLineBytes = 2, ndl_maxBufferedBytes = 9\<rparr>"] by simp_all

end
