(* ===== verification/Command_Blocks.thy ===== *)
theory Command_Blocks
  imports Prelude
begin

text \<open>
  The command blocks of a terminal: \<open>src/domain/terminal/CommandBlockStore\<close>.  A block is one shell
  command with the output the terminal observed for it; the store keeps a bounded number of blocks,
  of each the first and the last bytes of its output (\<open>retain\<close>), and beside them an artifact with
  as much of the output as a second, shared budget allows (\<open>retainArtifact\<close>), which can be read
  page by page (\<open>readOutputArtifact\<close>).

  Offsets in the output stream and the byte counters are 64-bit words with the saturating addition
  of the code.  \<open>std::size_t\<close> values that are sizes of containers, and the identifiers, of which
  the store hands out one per command, are \<open>nat\<close>.  A method that writes through a pointer to a
  block or artifact is a function on the record, whose result is put back under the same
  identifier.
\<close>

section \<open>Types\<close>

type_synonym CommandBlockId = nat

datatype CommandBoundaryConfidence = Exact | Heuristic | UnknownConfidence

datatype TerminalSemanticCapability = NoCapability | Basic | Rich

datatype CommandProvenance =
    UnknownProvenance
  | HeuristicInput
  | Osc133
  | Osc633
  | VerifiedShellIntegration

datatype CommandBlockState = Running | Finished

datatype CommandCompletionReason = ShellMarker | PromptRecovery | Disconnect | DecoderReset

datatype CommandOutputCoverage =
    CompleteOutput
  | BoundedHeadTail
  | Gapped
  | Interleaved
  | UnknownCoverage

datatype CommandBlockStoreError = CapacityExceeded | BlockNotFound | BlockAlreadyFinished

datatype CommandOutputArtifactErrorCode =
    ArtifactBlockNotFound
  | CursorExpired
  | ArtifactExpired
  | RangeOutOfBounds
  | OutputUnavailable
  | LimitExceeded

record CommandOutputArtifactError =
  ae_code :: CommandOutputArtifactErrorCode
  ae_nextAvailableCursor :: "u64 option"

record CommandBlockStoreLimits =
  bl_maxBlocks :: nat
  bl_maxOutputBytesPerBlock :: nat
  bl_retainedHeadBytes :: nat
  bl_maxGapRangesPerBlock :: nat
  bl_maxArtifactBytesPerBlock :: nat
  bl_maxArtifactBytesTotal :: nat
  bl_maxArtifactSegmentsPerBlock :: nat

definition default_block_limits :: CommandBlockStoreLimits where
  "default_block_limits = \<lparr>bl_maxBlocks = 64, bl_maxOutputBytesPerBlock = 64 * 1024,
     bl_retainedHeadBytes = 16 * 1024, bl_maxGapRangesPerBlock = 64,
     bl_maxArtifactBytesPerBlock = 2 * 1024 * 1024, bl_maxArtifactBytesTotal = 8 * 1024 * 1024,
     bl_maxArtifactSegmentsPerBlock = 64\<rparr>"

record CommandBlockStart =
  bs_command :: string
  bs_workingDirectory :: string
  bs_sessionId :: string
  bs_host :: string
  bs_shell :: string
  bs_sessionGeneration :: u64
  bs_capability :: TerminalSemanticCapability
  bs_commandProvenance :: CommandProvenance
  bs_boundaryConfidence :: CommandBoundaryConfidence
  bs_startedUtcMs :: int
  bs_outputStreamOffset :: u64

record CommandOutputGap =
  gap_begin :: u64
  gap_end :: u64

record CommandOutputObservation =
  ob_bytes :: "byte list"
  ob_streamOffset :: u64
  ob_interleaved :: bool

record CommandBlock =
  cb_id :: CommandBlockId
  cb_command :: string
  cb_workingDirectory :: string
  cb_sessionId :: string
  cb_host :: string
  cb_shell :: string
  cb_sessionGeneration :: u64
  cb_capability :: TerminalSemanticCapability
  cb_commandProvenance :: CommandProvenance
  cb_boundaryConfidence :: CommandBoundaryConfidence
  cb_state :: CommandBlockState
  cb_outputCoverage :: CommandOutputCoverage
  cb_startedUtcMs :: int
  cb_finishedUtcMs :: "int option"
  cb_exitStatus :: "int option"
  cb_completionReason :: "CommandCompletionReason option"
  cb_retainedOutput :: "byte list"
  cb_retainedHeadBytes :: nat
  cb_observedOutputBytes :: u64
  cb_omittedOutputBytes :: u64
  cb_missingOutputBytes :: u64
  cb_firstOutputStreamOffset :: u64
  cb_nextOutputStreamOffset :: u64
  cb_retainedTailStreamOffset :: u64
  cb_outputGaps :: "CommandOutputGap list"
  cb_hasInterleavedOutput :: bool
  cb_outputCoverageUncertain :: bool

record CommandOutputArtifactPage =
  pg_id :: CommandBlockId
  pg_state :: CommandBlockState
  pg_outputCoverage :: CommandOutputCoverage
  pg_exitStatus :: "int option"
  pg_output :: "byte list"
  pg_requestedCursor :: u64
  pg_nextCursor :: u64
  pg_streamStart :: u64
  pg_streamEnd :: u64
  pg_skippedBytes :: u64
  pg_retainedBytes :: u64
  pg_omittedBytes :: u64
  pg_readableMore :: bool
  pg_streamHasMore :: bool
  pg_pageTruncated :: bool
  pg_artifactComplete :: bool
  pg_artifactExpired :: bool

record CommandOutputArtifactSegment =
  sg_streamOffset :: u64
  sg_bytes :: "byte list"

record CommandOutputArtifact =
  ar_blockId :: CommandBlockId
  ar_streamStart :: u64
  ar_streamEnd :: u64
  ar_observedBytes :: u64
  ar_omittedBytes :: u64
  ar_segments :: "CommandOutputArtifactSegment list"
  ar_finished :: bool
  ar_expired :: bool

record CommandBlockStore =
  st_limits :: CommandBlockStoreLimits
  st_blocks :: "CommandBlock list"
  st_artifacts :: "CommandOutputArtifact list"
  st_artifactBytes :: nat
  st_nextId :: CommandBlockId

definition store_new :: "CommandBlockStoreLimits \<Rightarrow> CommandBlockStore" where
  "store_new limits =
     (let maxOutput = max 1 (bl_maxOutputBytesPerBlock limits) in
      \<lparr>st_limits =
         \<lparr>bl_maxBlocks = max 1 (bl_maxBlocks limits),
          bl_maxOutputBytesPerBlock = maxOutput,
          bl_retainedHeadBytes = min (bl_retainedHeadBytes limits) maxOutput,
          bl_maxGapRangesPerBlock = max 1 (bl_maxGapRangesPerBlock limits),
          bl_maxArtifactBytesPerBlock = max 1 (bl_maxArtifactBytesPerBlock limits),
          bl_maxArtifactBytesTotal = max 1 (bl_maxArtifactBytesTotal limits),
          bl_maxArtifactSegmentsPerBlock = max 1 (bl_maxArtifactSegmentsPerBlock limits)\<rparr>,
       st_blocks = [], st_artifacts = [], st_artifactBytes = 0, st_nextId = 1\<rparr>)"

section \<open>Helpers\<close>

definition saturatedAdd :: "u64 \<Rightarrow> u64 \<Rightarrow> u64" where
  "saturatedAdd left right = (if right > - 1 - left then - 1 else left + right)"

text \<open>\<open>span::last\<close> and \<open>vector::resize\<close>.\<close>

definition last_n :: "nat \<Rightarrow> byte list \<Rightarrow> byte list" where
  "last_n n bytes = drop (length bytes - n) bytes"

definition resize :: "nat \<Rightarrow> byte list \<Rightarrow> byte list" where
  "resize n bytes = take n bytes @ replicate (n - length bytes) 0"

definition is_continuation :: "byte \<Rightarrow> bool" where
  "is_continuation b \<longleftrightarrow> b AND 0xC0 = 0x80"

fun utf8Prefix_loop :: "byte list \<Rightarrow> nat \<Rightarrow> nat" where
  "utf8Prefix_loop bytes 0 = 0"
| "utf8Prefix_loop bytes (Suc count) =
     (if Suc count < length bytes \<and> is_continuation (bytes ! Suc count)
      then utf8Prefix_loop bytes count else Suc count)"

definition utf8Prefix :: "byte list \<Rightarrow> nat \<Rightarrow> nat" where
  "utf8Prefix bytes maximumBytes = utf8Prefix_loop bytes (min (length bytes) maximumBytes)"

definition retainedHead :: "CommandBlock \<Rightarrow> byte list" where
  "retainedHead b = take (min (cb_retainedHeadBytes b) (length (cb_retainedOutput b))) (cb_retainedOutput b)"

definition retainedTail :: "CommandBlock \<Rightarrow> byte list" where
  "retainedTail b = drop (min (cb_retainedHeadBytes b) (length (cb_retainedOutput b))) (cb_retainedOutput b)"

definition hasCompleteOutput :: "CommandBlock \<Rightarrow> bool" where
  "hasCompleteOutput b \<longleftrightarrow> cb_outputCoverage b = CompleteOutput"

section \<open>One block\<close>

definition block_new :: "CommandBlockId \<Rightarrow> CommandBlockStart \<Rightarrow> CommandBlock" where
  "block_new i start =
     \<lparr>cb_id = i, cb_command = bs_command start, cb_workingDirectory = bs_workingDirectory start,
      cb_sessionId = bs_sessionId start, cb_host = bs_host start, cb_shell = bs_shell start,
      cb_sessionGeneration = bs_sessionGeneration start, cb_capability = bs_capability start,
      cb_commandProvenance = bs_commandProvenance start,
      cb_boundaryConfidence = bs_boundaryConfidence start, cb_state = Running,
      cb_outputCoverage = CompleteOutput, cb_startedUtcMs = bs_startedUtcMs start,
      cb_finishedUtcMs = None, cb_exitStatus = None, cb_completionReason = None,
      cb_retainedOutput = [], cb_retainedHeadBytes = 0, cb_observedOutputBytes = 0,
      cb_omittedOutputBytes = 0, cb_missingOutputBytes = 0,
      cb_firstOutputStreamOffset = bs_outputStreamOffset start,
      cb_nextOutputStreamOffset = bs_outputStreamOffset start,
      cb_retainedTailStreamOffset = bs_outputStreamOffset start, cb_outputGaps = [],
      cb_hasInterleavedOutput = False, cb_outputCoverageUncertain = False\<rparr>"

definition artifact_new :: "CommandBlockId \<Rightarrow> CommandBlockStart \<Rightarrow> CommandOutputArtifact" where
  "artifact_new i start =
     \<lparr>ar_blockId = i, ar_streamStart = bs_outputStreamOffset start,
      ar_streamEnd = bs_outputStreamOffset start, ar_observedBytes = 0, ar_omittedBytes = 0,
      ar_segments = [], ar_finished = False, ar_expired = False\<rparr>"

definition coverage_of :: "CommandBlock \<Rightarrow> CommandOutputCoverage" where
  "coverage_of b =
     (if cb_outputCoverageUncertain b then UnknownCoverage
      else if cb_missingOutputBytes b > 0 then Gapped
      else if cb_hasInterleavedOutput b then Interleaved
      else if cb_omittedOutputBytes b > 0 then BoundedHeadTail
      else CompleteOutput)"

definition updateCoverage :: "CommandBlock \<Rightarrow> CommandBlock" where
  "updateCoverage b = b\<lparr>cb_outputCoverage := coverage_of b\<rparr>"

definition recordGap :: "CommandBlockStoreLimits \<Rightarrow> u64 \<Rightarrow> u64 \<Rightarrow> CommandBlock \<Rightarrow> CommandBlock" where
  "recordGap limits beginOffset endOffset b =
     (let gaps = cb_outputGaps b in
      if beginOffset \<ge> endOffset then b
      else if gaps \<noteq> [] \<and> gap_end (last gaps) \<ge> beginOffset
      then b\<lparr>cb_outputGaps := butlast gaps @ [(last gaps)\<lparr>gap_end := max (gap_end (last gaps)) endOffset\<rparr>]\<rparr>
      else if length gaps < bl_maxGapRangesPerBlock limits
      then b\<lparr>cb_outputGaps := gaps @ [\<lparr>gap_begin = beginOffset, gap_end = endOffset\<rparr>]\<rparr>
      else b\<lparr>cb_outputGaps := butlast gaps @ [(last gaps)\<lparr>gap_end := endOffset\<rparr>]\<rparr>)"

definition retain :: "CommandBlockStoreLimits \<Rightarrow> byte list \<Rightarrow> CommandBlock \<Rightarrow> CommandBlock" where
  "retain limits bytes b =
     (let capacity = bl_maxOutputBytesPerBlock limits;
          headCapacity = bl_retainedHeadBytes limits;
          tailCapacity = capacity - headCapacity;
          retained = cb_retainedOutput b
      in if cb_omittedOutputBytes b = 0 \<and> length retained + length bytes \<le> capacity
         then b\<lparr>cb_retainedOutput := retained @ bytes,
                cb_retainedHeadBytes := length (retained @ bytes),
                cb_retainedTailStreamOffset := cb_nextOutputStreamOffset b\<rparr>
         else if cb_omittedOutputBytes b = 0
         then (let headFromExisting = min headCapacity (length retained);
                   bounded = take headFromExisting retained
                     @ (if headFromExisting < headCapacity
                        then take (min (headCapacity - headFromExisting) (length bytes)) bytes else [])
                     @ (if tailCapacity > 0
                        then (if length bytes \<ge> tailCapacity then last_n tailCapacity bytes
                              else last_n (min (tailCapacity - length bytes) (length retained)) retained @ bytes)
                        else [])
               in b\<lparr>cb_retainedOutput := bounded, cb_retainedHeadBytes := headCapacity,
                    cb_retainedTailStreamOffset := cb_nextOutputStreamOffset b - of_nat tailCapacity\<rparr>)
         else if tailCapacity = 0 then b
         else (let oldTail = retainedTail b;
                   tail = (if length bytes \<ge> tailCapacity then last_n tailCapacity bytes
                           else last_n (min (tailCapacity - length bytes) (length oldTail)) oldTail @ bytes)
               in b\<lparr>cb_retainedOutput := resize (cb_retainedHeadBytes b) retained @ tail,
                    cb_retainedTailStreamOffset := cb_nextOutputStreamOffset b - of_nat (length tail)\<rparr>))"

text \<open>
  The part of \<open>append\<close> that concerns the block: first the gap, then, after the artifact has been
  written, the new bytes and the counters.
\<close>

definition append_gap ::
  "CommandBlockStoreLimits \<Rightarrow> CommandOutputObservation \<Rightarrow> CommandBlock \<Rightarrow> CommandBlock" where
  "append_gap limits observation b =
     (let next = cb_nextOutputStreamOffset b; off = ob_streamOffset observation in
      if off > next
      then (recordGap limits next off b)\<lparr>cb_missingOutputBytes :=
              saturatedAdd (cb_missingOutputBytes b) (off - next)\<rparr>
      else b)"

definition append_bytes ::
  "CommandBlockStoreLimits \<Rightarrow> CommandOutputObservation \<Rightarrow> byte list \<Rightarrow> u64 \<Rightarrow> CommandBlock \<Rightarrow> CommandBlock" where
  "append_bytes limits observation newBytes observationEnd b =
     (let b1 = retain limits newBytes
            (b\<lparr>cb_observedOutputBytes := saturatedAdd (cb_observedOutputBytes b) (of_nat (length newBytes)),
               cb_nextOutputStreamOffset := observationEnd,
               cb_hasInterleavedOutput := cb_hasInterleavedOutput b \<or> ob_interleaved observation\<rparr>)
      in updateCoverage (b1\<lparr>cb_omittedOutputBytes :=
           cb_observedOutputBytes b1 - of_nat (length (cb_retainedOutput b1))\<rparr>))"

section \<open>Artifacts\<close>

definition artifact_size :: "CommandOutputArtifact \<Rightarrow> nat" where
  "artifact_size a = sum_list (map (length \<circ> sg_bytes) (ar_segments a))"

definition expireArtifact :: "CommandOutputArtifact \<Rightarrow> CommandOutputArtifact" where
  "expireArtifact a = a\<lparr>ar_segments := [], ar_omittedBytes := ar_observedBytes a, ar_expired := True\<rparr>"

definition removable :: "CommandBlockId \<Rightarrow> CommandOutputArtifact \<Rightarrow> bool" where
  "removable active a \<longleftrightarrow> ar_blockId a \<noteq> active \<and> ar_finished a \<and> ar_segments a \<noteq> []"

definition artifact_room :: "CommandBlockStore \<Rightarrow> nat" where
  "artifact_room st = bl_maxArtifactBytesTotal (st_limits st)
     - min (st_artifactBytes st) (bl_maxArtifactBytesTotal (st_limits st))"

lemma removable_decreases:
  assumes "find P xs = Some x" "\<not> P (f x)"
  shows "length (filter P (update_first P f xs)) < length (filter P xs)"
  using count_update_first [OF assms(1), of P f] assms find_Some_in [OF assms(1)] by auto

function expire_until :: "nat \<Rightarrow> CommandBlockId \<Rightarrow> CommandBlockStore \<Rightarrow> CommandBlockStore" where
  "expire_until request active st =
     (if request > artifact_room st then
        (case find (removable active) (st_artifacts st) of
           None \<Rightarrow> st
         | Some a \<Rightarrow> expire_until request active
             (st\<lparr>st_artifactBytes := st_artifactBytes st - min (st_artifactBytes st) (artifact_size a),
                 st_artifacts := update_first (removable active) expireArtifact (st_artifacts st)\<rparr>))
      else st)"
  by pat_completeness auto
termination
  by (relation "measure (\<lambda>(_, active, st). length (filter (removable active) (st_artifacts st)))")
    (auto intro!: removable_decreases simp: removable_def expireArtifact_def)

declare expire_until.simps [simp del]

definition makeArtifactRoom :: "nat \<Rightarrow> CommandBlockId \<Rightarrow> CommandBlockStore \<Rightarrow> CommandBlockStore \<times> nat" where
  "makeArtifactRoom requestedBytes active st =
     (let boundedRequest = min requestedBytes (bl_maxArtifactBytesTotal (st_limits st));
          st' = expire_until boundedRequest active st
      in (st', min boundedRequest (artifact_room st')))"

definition merges_last :: "u64 \<Rightarrow> CommandOutputArtifact \<Rightarrow> bool" where
  "merges_last streamOffset a \<longleftrightarrow> ar_segments a \<noteq> []
     \<and> saturatedAdd (sg_streamOffset (last (ar_segments a)))
         (of_nat (length (sg_bytes (last (ar_segments a))))) = streamOffset"

definition add_retained :: "u64 \<Rightarrow> byte list \<Rightarrow> CommandOutputArtifact \<Rightarrow> CommandOutputArtifact" where
  "add_retained streamOffset retained a =
     (if retained = [] then a
      else if merges_last streamOffset a
      then a\<lparr>ar_segments := butlast (ar_segments a)
             @ [(last (ar_segments a))\<lparr>sg_bytes := sg_bytes (last (ar_segments a)) @ retained\<rparr>]\<rparr>
      else a\<lparr>ar_segments := ar_segments a @ [\<lparr>sg_streamOffset = streamOffset, sg_bytes = retained\<rparr>]\<rparr>)"

text \<open>
  \<open>retainArtifact\<close> on an artifact of the store: the room it makes is taken from other artifacts, so
  the artifact itself is written back at the end.
\<close>

definition put_artifact :: "CommandOutputArtifact \<Rightarrow> CommandBlockStore \<Rightarrow> CommandBlockStore" where
  "put_artifact a st = st\<lparr>st_artifacts :=
     update_first (\<lambda>x. ar_blockId x = ar_blockId a) (\<lambda>_. a) (st_artifacts st)\<rparr>"

definition retainArtifact ::
  "CommandOutputArtifact \<Rightarrow> u64 \<Rightarrow> byte list \<Rightarrow> CommandBlockStore
    \<Rightarrow> CommandBlockStore \<times> CommandOutputArtifact" where
  "retainArtifact a streamOffset bytes st =
     (let a1 = a\<lparr>ar_observedBytes := saturatedAdd (ar_observedBytes a) (of_nat (length bytes))\<rparr>;
          limits = st_limits st
      in if bytes = [] then (st, a1)
         else (let artifactRoom = bl_maxArtifactBytesPerBlock limits
                     - min (artifact_size a) (bl_maxArtifactBytesPerBlock limits);
                   wanted = (if \<not> merges_last streamOffset a
                                 \<and> length (ar_segments a) \<ge> bl_maxArtifactSegmentsPerBlock limits
                             then 0 else min (length bytes) artifactRoom);
                   (st1, retainCount) = makeArtifactRoom wanted (ar_blockId a) st;
                   a2 = add_retained streamOffset (take retainCount bytes) a1
               in (st1\<lparr>st_artifactBytes := st_artifactBytes st1 + retainCount\<rparr>,
                   a2\<lparr>ar_omittedBytes := saturatedAdd (ar_omittedBytes a2)
                        (of_nat (length bytes - retainCount))\<rparr>)))"

section \<open>The store\<close>

definition find_block :: "CommandBlockId \<Rightarrow> CommandBlockStore \<Rightarrow> CommandBlock option" where
  "find_block i st = find (\<lambda>b. cb_id b = i) (st_blocks st)"

definition find_artifact :: "CommandBlockId \<Rightarrow> CommandBlockStore \<Rightarrow> CommandOutputArtifact option" where
  "find_artifact i st = find (\<lambda>a. ar_blockId a = i) (st_artifacts st)"

definition put_block :: "CommandBlock \<Rightarrow> CommandBlockStore \<Rightarrow> CommandBlockStore" where
  "put_block b st = st\<lparr>st_blocks := update_first (\<lambda>x. cb_id x = cb_id b) (\<lambda>_. b) (st_blocks st)\<rparr>"

definition eraseArtifact :: "CommandBlockId \<Rightarrow> CommandBlockStore \<Rightarrow> CommandBlockStore" where
  "eraseArtifact i st =
     (case find_artifact i st of
        None \<Rightarrow> st
      | Some a \<Rightarrow> st\<lparr>st_artifactBytes := st_artifactBytes st - min (st_artifactBytes st) (artifact_size a),
                     st_artifacts := erase_first (\<lambda>x. ar_blockId x = i) (st_artifacts st)\<rparr>)"

definition evictOldestFinished :: "CommandBlockStore \<Rightarrow> CommandBlockStore \<times> bool" where
  "evictOldestFinished st =
     (case find (\<lambda>b. cb_state b = Finished) (st_blocks st) of
        None \<Rightarrow> (st, False)
      | Some b \<Rightarrow> ((eraseArtifact (cb_id b) st)\<lparr>st_blocks :=
                     erase_first (\<lambda>x. cb_state x = Finished) (st_blocks st)\<rparr>, True))"

function evict_until_room :: "CommandBlockStore \<Rightarrow> CommandBlockStore \<times> bool" where
  "evict_until_room st =
     (if length (st_blocks st) \<ge> bl_maxBlocks (st_limits st)
      then (if snd (evictOldestFinished st) then evict_until_room (fst (evictOldestFinished st))
            else (fst (evictOldestFinished st), False))
      else (st, True))"
  by pat_completeness auto
termination
proof (relation "measure (\<lambda>st. length (st_blocks st))")
  fix st :: CommandBlockStore
  assume ev: "snd (evictOldestFinished st)"
  then obtain b where "find (\<lambda>b. cb_state b = Finished) (st_blocks st) = Some b"
    by (auto simp: evictOldestFinished_def split: option.splits)
  moreover from this have "st_blocks st \<noteq> []" by auto
  ultimately show "(fst (evictOldestFinished st), st) \<in> measure (\<lambda>st. length (st_blocks st))"
    by (simp add: evictOldestFinished_def length_erase_first)
qed simp

declare evict_until_room.simps [simp del]

definition store_begin ::
  "CommandBlockStart \<Rightarrow> CommandBlockStore \<Rightarrow> CommandBlockStore \<times> (CommandBlockStoreError + CommandBlockId)" where
  "store_begin start st =
     (case evict_until_room st of
        (st', False) \<Rightarrow> (st', Inl CapacityExceeded)
      | (st', True) \<Rightarrow>
          (st'\<lparr>st_nextId := st_nextId st' + 1,
               st_blocks := st_blocks st' @ [block_new (st_nextId st') start],
               st_artifacts := st_artifacts st' @ [artifact_new (st_nextId st') start]\<rparr>,
           Inr (st_nextId st')))"

definition store_append ::
  "CommandBlockId \<Rightarrow> CommandOutputObservation \<Rightarrow> CommandBlockStore
    \<Rightarrow> CommandBlockStore \<times> (CommandBlockStoreError + unit)" where
  "store_append i observation st =
     (case find_block i st of
        None \<Rightarrow> (st, Inl BlockNotFound)
      | Some b \<Rightarrow>
          (if cb_state b = Finished then (st, Inl BlockAlreadyFinished)
           else (let off = ob_streamOffset observation;
                     next = cb_nextOutputStreamOffset b;
                     observationEnd = saturatedAdd off (of_nat (length (ob_bytes observation)))
                 in if observationEnd \<le> next
                    then (put_block (updateCoverage (b\<lparr>cb_hasInterleavedOutput :=
                            cb_hasInterleavedOutput b \<or> ob_interleaved observation\<rparr>)) st, Inr ())
                    else (let overlap = (if off < next then unat (next - off) else 0);
                              newBytes = drop overlap (ob_bytes observation);
                              b1 = append_gap (st_limits st) observation b;
                              st1 = (case find_artifact i st of
                                  None \<Rightarrow> st
                                | Some a \<Rightarrow>
                                    (case retainArtifact a (saturatedAdd off (of_nat overlap)) newBytes st of
                                       (st', a') \<Rightarrow> put_artifact (a'\<lparr>ar_streamEnd := observationEnd\<rparr>) st'))
                          in (put_block (append_bytes (st_limits st) observation newBytes observationEnd b1) st1,
                              Inr ())))))"

definition store_finish ::
  "CommandBlockId \<Rightarrow> int option \<Rightarrow> int \<Rightarrow> CommandCompletionReason \<Rightarrow> CommandBlockStore
    \<Rightarrow> CommandBlockStore \<times> (CommandBlockStoreError + unit)" where
  "store_finish i exitStatus finishedUtcMs reason st =
     (case find_block i st of
        None \<Rightarrow> (st, Inl BlockNotFound)
      | Some b \<Rightarrow>
          (if cb_state b = Finished then (st, Inl BlockAlreadyFinished)
           else (let st1 = put_block (b\<lparr>cb_state := Finished, cb_exitStatus := exitStatus,
                       cb_finishedUtcMs := Some finishedUtcMs, cb_completionReason := Some reason\<rparr>) st
                 in (case find_artifact i st1 of
                       None \<Rightarrow> st1
                     | Some a \<Rightarrow> put_artifact (a\<lparr>ar_finished := True\<rparr>) st1, Inr ()))))"

definition store_markOutputUnknown ::
  "CommandBlockId \<Rightarrow> CommandBlockStore \<Rightarrow> CommandBlockStore \<times> (CommandBlockStoreError + unit)" where
  "store_markOutputUnknown i st =
     (case find_block i st of
        None \<Rightarrow> (st, Inl BlockNotFound)
      | Some b \<Rightarrow> (put_block (updateCoverage (b\<lparr>cb_outputCoverageUncertain := True\<rparr>)) st, Inr ()))"

definition store_clear :: "CommandBlockStore \<Rightarrow> CommandBlockStore" where
  "store_clear st = st\<lparr>st_blocks := [], st_artifacts := [], st_artifactBytes := 0\<rparr>"

section \<open>Reading an artifact\<close>

fun find_segment :: "u64 \<Rightarrow> CommandOutputArtifactSegment list
    \<Rightarrow> (CommandOutputArtifactSegment \<times> CommandOutputArtifactSegment list) option" where
  "find_segment cursor [] = None"
| "find_segment cursor (g # gs) =
     (if cursor < saturatedAdd (sg_streamOffset g) (of_nat (length (sg_bytes g)))
      then Some (g, gs) else find_segment cursor gs)"

definition artifact_error ::
  "CommandOutputArtifactErrorCode \<Rightarrow> CommandOutputArtifactError + CommandOutputArtifactPage" where
  "artifact_error code = Inl \<lparr>ae_code = code, ae_nextAvailableCursor = None\<rparr>"

text \<open>The page of a cursor inside the stream, from the segment it falls in or before.\<close>

definition emit_page ::
  "nat \<Rightarrow> u64 \<Rightarrow> CommandOutputArtifact \<Rightarrow> CommandOutputArtifactPage
    \<Rightarrow> CommandOutputArtifactError + CommandOutputArtifactPage" where
  "emit_page maximumBytes cursor a page =
     (case find_segment cursor (ar_segments a) of
        None \<Rightarrow> artifact_error (if ar_expired a then ArtifactExpired else OutputUnavailable)
      | Some (source, following) \<Rightarrow>
          (let sourceCursor = max cursor (sg_streamOffset source);
               available = drop (unat (sourceCursor - sg_streamOffset source)) (sg_bytes source);
               emittedBytes = utf8Prefix available maximumBytes;
               nextCursor = saturatedAdd sourceCursor (of_nat emittedBytes);
               truncated = emittedBytes < length available
           in if emittedBytes = 0 \<and> available \<noteq> [] then artifact_error LimitExceeded
              else Inr (page\<lparr>pg_skippedBytes := sourceCursor - cursor,
                             pg_output := take emittedBytes available,
                             pg_nextCursor := nextCursor,
                             pg_pageTruncated := truncated,
                             pg_readableMore := truncated \<or> following \<noteq> [],
                             pg_streamHasMore := nextCursor < ar_streamEnd a\<rparr>)))"

text \<open>The page before its output is filled in.\<close>

definition artifact_complete :: "CommandBlock \<Rightarrow> CommandOutputArtifact \<Rightarrow> bool" where
  "artifact_complete b a \<longleftrightarrow>
     \<not> ar_expired a \<and> ar_omittedBytes a = 0 \<and> cb_missingOutputBytes b = 0"

definition empty_page ::
  "CommandBlockId \<Rightarrow> u64 \<Rightarrow> u64 \<Rightarrow> CommandBlock \<Rightarrow> CommandOutputArtifact
    \<Rightarrow> CommandOutputArtifactPage" where
  "empty_page i afterCursor cursor b a =
     \<lparr>pg_id = i, pg_state = cb_state b,
      pg_outputCoverage = (if artifact_complete b a \<and> cb_outputCoverage b = BoundedHeadTail
        then CompleteOutput else cb_outputCoverage b),
      pg_exitStatus = cb_exitStatus b, pg_output = [],
      pg_requestedCursor = afterCursor, pg_nextCursor = cursor,
      pg_streamStart = ar_streamStart a, pg_streamEnd = ar_streamEnd a, pg_skippedBytes = 0,
      pg_retainedBytes = foldl (\<lambda>n g. saturatedAdd n (of_nat (length (sg_bytes g)))) 0 (ar_segments a),
      pg_omittedBytes = ar_omittedBytes a, pg_readableMore = False,
      pg_streamHasMore = cursor < ar_streamEnd a, pg_pageTruncated = False,
      pg_artifactComplete = artifact_complete b a, pg_artifactExpired = ar_expired a\<rparr>"

definition readOutputArtifact ::
  "CommandBlockId \<Rightarrow> u64 \<Rightarrow> nat \<Rightarrow> CommandBlockStore
    \<Rightarrow> CommandOutputArtifactError + CommandOutputArtifactPage" where
  "readOutputArtifact i afterCursor maximumBytes st =
     (case (find_block i st, find_artifact i st) of
        (Some b, Some a) \<Rightarrow>
          (if maximumBytes = 0 then artifact_error LimitExceeded
           else (let cursor = (if afterCursor = 0 then ar_streamStart a else afterCursor) in
             if cursor < ar_streamStart a
             then Inl \<lparr>ae_code = CursorExpired, ae_nextAvailableCursor = Some (ar_streamStart a)\<rparr>
             else if cursor > ar_streamEnd a then artifact_error RangeOutOfBounds
             else if cursor = ar_streamEnd a
             then Inr (empty_page i afterCursor cursor b a\<lparr>pg_streamHasMore := False\<rparr>)
             else emit_page maximumBytes cursor a (empty_page i afterCursor cursor b a)))
      | _ \<Rightarrow> artifact_error ArtifactBlockNotFound)"

section \<open>The store as a machine\<close>

datatype StoreOp =
    BeginBlock CommandBlockStart
  | AppendOutput CommandBlockId CommandOutputObservation
  | FinishBlock CommandBlockId "int option" int CommandCompletionReason
  | MarkUnknown CommandBlockId
  | ClearBlocks

fun store_step ::
  "CommandBlockStore \<Rightarrow> StoreOp \<Rightarrow> CommandBlockStore \<times> (CommandBlockStoreError + CommandBlockId option)" where
  "store_step st (BeginBlock start) = apsnd (map_sum id Some) (store_begin start st)"
| "store_step st (AppendOutput i ob) = apsnd (map_sum id (\<lambda>_. None)) (store_append i ob st)"
| "store_step st (FinishBlock i x t r) = apsnd (map_sum id (\<lambda>_. None)) (store_finish i x t r st)"
| "store_step st (MarkUnknown i) = apsnd (map_sum id (\<lambda>_. None)) (store_markOutputUnknown i st)"
| "store_step st ClearBlocks = (store_clear st, Inr None)"

section \<open>Fields an operation leaves alone\<close>

lemma retain_frame:
  "cb_observedOutputBytes (retain lim bs b) = cb_observedOutputBytes b"
  "cb_id (retain lim bs b) = cb_id b" "cb_state (retain lim bs b) = cb_state b"
  "cb_missingOutputBytes (retain lim bs b) = cb_missingOutputBytes b"
  "cb_firstOutputStreamOffset (retain lim bs b) = cb_firstOutputStreamOffset b"
  "cb_nextOutputStreamOffset (retain lim bs b) = cb_nextOutputStreamOffset b"
  "cb_outputGaps (retain lim bs b) = cb_outputGaps b"
  "cb_hasInterleavedOutput (retain lim bs b) = cb_hasInterleavedOutput b"
  "cb_outputCoverageUncertain (retain lim bs b) = cb_outputCoverageUncertain b"
  by (simp_all add: retain_def Let_def)

lemma updateCoverage_fixed [simp]:
  "cb_outputCoverage (updateCoverage b) = coverage_of (updateCoverage b)"
  by (simp add: updateCoverage_def coverage_of_def)

lemma updateCoverage_frame [simp]:
  "cb_id (updateCoverage b) = cb_id b" "cb_state (updateCoverage b) = cb_state b"
  "cb_firstOutputStreamOffset (updateCoverage b) = cb_firstOutputStreamOffset b"
  "cb_nextOutputStreamOffset (updateCoverage b) = cb_nextOutputStreamOffset b"
  "cb_outputGaps (updateCoverage b) = cb_outputGaps b"
  "cb_missingOutputBytes (updateCoverage b) = cb_missingOutputBytes b"
  by (simp_all add: updateCoverage_def)

lemma recordGap_frame [simp]:
  "cb_id (recordGap lim x y b) = cb_id b" "cb_state (recordGap lim x y b) = cb_state b"
  "cb_firstOutputStreamOffset (recordGap lim x y b) = cb_firstOutputStreamOffset b"
  "cb_nextOutputStreamOffset (recordGap lim x y b) = cb_nextOutputStreamOffset b"
  "cb_missingOutputBytes (recordGap lim x y b) = cb_missingOutputBytes b"
  by (simp_all add: recordGap_def Let_def)

lemma append_gap_frame [simp]:
  "cb_id (append_gap lim ob b) = cb_id b" "cb_state (append_gap lim ob b) = cb_state b"
  "cb_firstOutputStreamOffset (append_gap lim ob b) = cb_firstOutputStreamOffset b"
  "cb_nextOutputStreamOffset (append_gap lim ob b) = cb_nextOutputStreamOffset b"
  by (simp_all add: append_gap_def Let_def)

lemma append_bytes_frame [simp]:
  "cb_id (append_bytes lim ob bs e b) = cb_id b" "cb_state (append_bytes lim ob bs e b) = cb_state b"
  "cb_firstOutputStreamOffset (append_bytes lim ob bs e b) = cb_firstOutputStreamOffset b"
  "cb_nextOutputStreamOffset (append_bytes lim ob bs e b) = e"
  "cb_missingOutputBytes (append_bytes lim ob bs e b) = cb_missingOutputBytes b"
  "cb_outputGaps (append_bytes lim ob bs e b) = cb_outputGaps b"
  "cb_outputCoverage (append_bytes lim ob bs e b) = coverage_of (append_bytes lim ob bs e b)"
  by (simp_all add: append_bytes_def retain_frame Let_def)

lemma put_block_ids: "map cb_id (st_blocks (put_block b st)) = map cb_id (st_blocks st)"
  by (simp add: put_block_def) (rule map_key_update_first, simp)

lemma store_inv_ids:
  fixes bs bs' :: "CommandBlock list"
  assumes "map cb_id bs = map cb_id bs'"
  shows "distinct (map cb_id bs) = distinct (map cb_id bs')"
    "(\<forall>b \<in> set bs. cb_id b < n) = (\<forall>b \<in> set bs'. cb_id b < n)" "length bs = length bs'"
proof -
  show "distinct (map cb_id bs) = distinct (map cb_id bs')" by (simp add: assms)
  have "(\<forall>b \<in> set xs. cb_id b < n) = (\<forall>i \<in> set (map cb_id xs). i < n)" for xs :: "CommandBlock list"
    by simp
  from this [of bs] this [of bs'] show "(\<forall>b \<in> set bs. cb_id b < n) = (\<forall>b \<in> set bs'. cb_id b < n)"
    by (simp only: assms)
  show "length bs = length bs'" using arg_cong [OF assms, of length] by simp
qed

section \<open>Running blocks\<close>

definition running_ids :: "CommandBlockStore \<Rightarrow> CommandBlockId list" where
  "running_ids st = map cb_id (filter (\<lambda>b. cb_state b = Running) (st_blocks st))"

definition ids_ok :: "CommandBlockStore \<Rightarrow> bool" where
  "ids_ok st \<longleftrightarrow> distinct (map cb_id (st_blocks st)) \<and> (\<forall>b \<in> set (st_blocks st). cb_id b < st_nextId st)"

lemma find_block_id: "find_block i st = Some b \<Longrightarrow> b \<in> set (st_blocks st) \<and> cb_id b = i"
  using find_Some_in [of "\<lambda>b. cb_id b = i"] by (auto simp: find_block_def)

lemma running_put_block:
  assumes "find_block (cb_id b') st = Some b" "cb_state b' = cb_state b"
  shows "running_ids (put_block b' st) = running_ids st"
  using assms find_block_id [OF assms(1)]
    map_filter_update_first [of "\<lambda>x. cb_id x = cb_id b'" "st_blocks st" b "\<lambda>b. cb_state b = Running" b' cb_id]
  by (simp add: running_ids_def put_block_def find_block_def)

lemma running_iff:
  assumes "ids_ok st"
  shows "(i \<in> set (running_ids st)) = (\<exists>b. find_block i st = Some b \<and> cb_state b = Running)"
proof
  assume "i \<in> set (running_ids st)"
  then obtain b where b: "b \<in> set (st_blocks st)" "cb_id b = i" "cb_state b = Running"
    by (auto simp: running_ids_def)
  then show "\<exists>b. find_block i st = Some b \<and> cb_state b = Running"
    using find_by_key [of cb_id "st_blocks st" b] assms by (auto simp: ids_ok_def find_block_def)
qed (auto simp: running_ids_def dest: find_block_id)

lemma running_state_finished: "cb_state b \<noteq> Running \<longleftrightarrow> cb_state b = Finished"
  by (cases "cb_state b") simp_all

lemma evict_running: "running_ids (fst (evictOldestFinished st)) = running_ids st"
  by (auto simp: evictOldestFinished_def running_ids_def eraseArtifact_def split: option.splits
      intro!: arg_cong [of _ _ "map cb_id"] filter_erase_first)

lemma evict_ids: "ids_ok st \<Longrightarrow> ids_ok (fst (evictOldestFinished st))"
  using set_erase_first [of "\<lambda>x. cb_state x = Finished" "st_blocks st"]
    distinct_erase_first [of cb_id "st_blocks st" "\<lambda>x. cb_state x = Finished"]
  by (auto simp: evictOldestFinished_def ids_ok_def eraseArtifact_def split: option.splits)

lemma evict_fails: "\<not> snd (evictOldestFinished st) \<Longrightarrow> length (running_ids st) = length (st_blocks st)"
proof -
  assume "\<not> snd (evictOldestFinished st)"
  then have "\<forall>b \<in> set (st_blocks st). cb_state b \<noteq> Finished"
    by (auto simp: evictOldestFinished_def find_None_iff split: option.splits)
  then have "filter (\<lambda>b. cb_state b = Running) (st_blocks st) = st_blocks st"
    by (auto simp: filter_id_conv running_state_finished [symmetric])
  then show ?thesis by (simp add: running_ids_def)
qed

lemma evict_frame: "st_limits (fst (evictOldestFinished st)) = st_limits st"
  "st_nextId (fst (evictOldestFinished st)) = st_nextId st"
  by (auto simp: evictOldestFinished_def eraseArtifact_def split: option.splits)

lemma evict_until_running:
  assumes "ids_ok st"
  shows "running_ids (fst (evict_until_room st)) = running_ids st \<and> ids_ok (fst (evict_until_room st))
    \<and> st_nextId (fst (evict_until_room st)) = st_nextId st
    \<and> st_limits (fst (evict_until_room st)) = st_limits st
    \<and> snd (evict_until_room st) = (length (running_ids st) < bl_maxBlocks (st_limits st))"
  using assms
proof (induction st rule: evict_until_room.induct)
  case (1 st)
  have le: "length (running_ids st) \<le> length (st_blocks st)" by (simp add: running_ids_def)
  show ?case
  proof (cases "length (st_blocks st) \<ge> bl_maxBlocks (st_limits st)")
    case True
    then show ?thesis
      using 1 evict_ids [OF "1.prems"] evict_fails [of st] le
      by (subst (1 2 3 4 5) evict_until_room.simps) (auto simp: evict_running evict_frame)
  next
    case False
    then show ?thesis using "1.prems" le
      by (subst (1 2 3 4 5) evict_until_room.simps) auto
  qed
qed

lemma begin_running:
  assumes "ids_ok st"
  shows "ids_ok (fst (store_begin start st))
    \<and> (case snd (store_begin start st) of
         Inl e \<Rightarrow> e = CapacityExceeded \<and> length (running_ids st) \<ge> bl_maxBlocks (st_limits st)
           \<and> running_ids (fst (store_begin start st)) = running_ids st
       | Inr i \<Rightarrow> i = st_nextId st \<and> length (running_ids st) < bl_maxBlocks (st_limits st)
           \<and> running_ids (fst (store_begin start st)) = running_ids st @ [i])"
proof -
  obtain st' ok where e: "evict_until_room st = (st', ok)" by fastforce
  have new: "cb_id (block_new i start) = i" "cb_state (block_new i start) = Running" for i
    by (simp_all add: block_new_def)
  show ?thesis using evict_until_running [OF assms] e
    by (cases ok) (auto simp: store_begin_def running_ids_def ids_ok_def new less_Suc_eq not_less)
qed

lemma expire_until_frame: "st_blocks (expire_until n active st) = st_blocks st
    \<and> st_nextId (expire_until n active st) = st_nextId st \<and> st_limits (expire_until n active st) = st_limits st"
  by (induction n active st rule: expire_until.induct)
    (subst (1 2 3) expire_until.simps, auto split: option.splits)

lemma retainArtifact_frame: "st_blocks (fst (retainArtifact a o' bs st)) = st_blocks st
    \<and> st_nextId (fst (retainArtifact a o' bs st)) = st_nextId st
    \<and> st_limits (fst (retainArtifact a o' bs st)) = st_limits st"
proof -
  have room: "st_blocks (fst (makeArtifactRoom w i st)) = st_blocks st"
    "st_nextId (fst (makeArtifactRoom w i st)) = st_nextId st"
    "st_limits (fst (makeArtifactRoom w i st)) = st_limits st" for w i
    using expire_until_frame [of "min w (bl_maxArtifactBytesTotal (st_limits st))" i st]
    by (simp_all add: makeArtifactRoom_def Let_def)
  show ?thesis
    by (cases "bs = []") (simp_all only: retainArtifact_def Let_def if_True if_False split_beta fst_conv,
        simp_all add: room)
qed

lemma ids_ok_put:
  assumes "ids_ok st"
  shows "ids_ok (put_block b st)"
  using assms store_inv_ids [OF put_block_ids [of b st]] by (simp add: ids_ok_def) (simp add: put_block_def)

lemma ids_ok_frame: "st_blocks st' = st_blocks st \<Longrightarrow> st_nextId st' = st_nextId st \<Longrightarrow> ids_ok st' = ids_ok st"
  "st_blocks st' = st_blocks st \<Longrightarrow> running_ids st' = running_ids st"
  by (simp_all add: ids_ok_def running_ids_def)

lemma append_running:
  assumes "ids_ok st"
  shows "ids_ok (fst (store_append i ob st)) \<and> running_ids (fst (store_append i ob st)) = running_ids st
    \<and> (i \<in> set (running_ids st) \<longrightarrow> snd (store_append i ob st) = Inr ())
    \<and> st_limits (fst (store_append i ob st)) = st_limits st"
proof (cases "find_block i st")
  case None
  then show ?thesis using assms by (simp add: store_append_def running_iff)
next
  case (Some b)
  have b: "cb_id b = i" using find_block_id [OF Some] by simp
  define off where "off = ob_streamOffset ob"
  define nxt where "nxt = cb_nextOutputStreamOffset b"
  define e where "e = saturatedAdd off (of_nat (length (ob_bytes ob)))"
  define overlap where "overlap = (if off < nxt then unat (nxt - off) else 0)"
  define st1 where "st1 = (case find_artifact i st of None \<Rightarrow> st
    | Some a \<Rightarrow> (case retainArtifact a (saturatedAdd off (of_nat overlap)) (drop overlap (ob_bytes ob)) st of
        (st', a') \<Rightarrow> put_artifact (a'\<lparr>ar_streamEnd := e\<rparr>) st'))"
  let ?b1 = "updateCoverage (b\<lparr>cb_hasInterleavedOutput := cb_hasInterleavedOutput b \<or> ob_interleaved ob\<rparr>)"
  let ?b2 = "append_bytes (st_limits st) ob (drop overlap (ob_bytes ob)) e (append_gap (st_limits st) ob b)"
  have st1: "st_blocks st1 = st_blocks st" "st_nextId st1 = st_nextId st" "st_limits st1 = st_limits st"
    using retainArtifact_frame
    by (auto simp: st1_def put_artifact_def split: option.splits prod.splits) (metis fst_conv)+
  have app: "store_append i ob st = (if cb_state b = Finished then (st, Inl BlockAlreadyFinished)
      else if e \<le> nxt then (put_block ?b1 st, Inr ()) else (put_block ?b2 st1, Inr ()))"
    unfolding store_append_def Some option.case Let_def st1_def e_def overlap_def off_def nxt_def by (rule refl)
  have "find_block i st1 = Some b" using Some st1(1) by (simp add: find_block_def)
  then have r: "running_ids (put_block ?b1 st) = running_ids st" "running_ids (put_block ?b2 st1) = running_ids st1"
    using Some b running_put_block [of ?b1 st b] running_put_block [of ?b2 st1 b] by simp_all
  have ok: "ids_ok (put_block ?b1 st)" "ids_ok (put_block ?b2 st1)" "running_ids st1 = running_ids st"
    using ids_ok_put [OF assms] ids_ok_put [of st1 ?b2] ids_ok_frame [of st1 st] st1 assms by simp_all
  have lim: "st_limits (put_block x y) = st_limits y" for x y by (simp add: put_block_def)
  have run: "i \<in> set (running_ids st) \<longrightarrow> cb_state b = Running"
    using running_iff [OF assms] Some by simp
  show ?thesis unfolding app using r ok lim st1(3) run assms by (auto simp del: append_bytes_frame)
qed

lemma finish_running:
  assumes "ids_ok st"
  shows "ids_ok (fst (store_finish i x t r st))
    \<and> running_ids (fst (store_finish i x t r st)) = filter (\<lambda>j. j \<noteq> i) (running_ids st)
    \<and> (snd (store_finish i x t r st) = Inr ()) = (i \<in> set (running_ids st))
    \<and> st_limits (fst (store_finish i x t r st)) = st_limits st"
proof (cases "\<exists>b. find_block i st = Some b \<and> cb_state b = Running")
  case True
  then obtain b where b: "find_block i st = Some b" "cb_state b = Running" by blast
  let ?b = "b\<lparr>cb_state := Finished, cb_exitStatus := x, cb_finishedUtcMs := Some t, cb_completionReason := Some r\<rparr>"
  have "running_ids (put_block ?b st) = filter (\<lambda>j. j \<noteq> i) (running_ids st)"
    using map_filter_update_drop [of cb_id i "st_blocks st" b "\<lambda>b. cb_state b = Running" ?b] assms b find_block_id [OF b(1)]
    by (simp add: running_ids_def put_block_def find_block_def ids_ok_def)
  then have "ids_ok (put_block ?b st) \<and> running_ids (put_block ?b st) = filter (\<lambda>j. j \<noteq> i) (running_ids st)"
    using ids_ok_put [OF assms] by blast
  moreover have "i \<in> set (running_ids st)" using running_iff [OF assms] b by blast
  ultimately show ?thesis using b
    by (auto simp: store_finish_def Let_def put_artifact_def ids_ok_def running_ids_def put_block_def
        split: option.splits)
next
  case False
  then have "i \<notin> set (running_ids st)" using running_iff [OF assms] by blast
  moreover from this have "filter (\<lambda>j. j \<noteq> i) (running_ids st) = running_ids st" by (auto simp: filter_id_conv)
  moreover have "fst (store_finish i x t r st) = st \<and> snd (store_finish i x t r st) \<noteq> Inr ()"
    using False by (auto simp: store_finish_def running_state_finished split: option.splits)
  ultimately show ?thesis using assms by simp
qed

lemma mark_running:
  assumes "ids_ok st"
  shows "ids_ok (fst (store_markOutputUnknown i st))
    \<and> running_ids (fst (store_markOutputUnknown i st)) = running_ids st
    \<and> (i \<in> set (running_ids st) \<longrightarrow> snd (store_markOutputUnknown i st) = Inr ())
    \<and> st_limits (fst (store_markOutputUnknown i st)) = st_limits st"
proof (cases "find_block i st")
  case (Some b)
  let ?b = "updateCoverage (b\<lparr>cb_outputCoverageUncertain := True\<rparr>)"
  have "cb_id b = i" using find_block_id [OF Some] by simp
  then show ?thesis using Some assms running_put_block [of ?b st b] ids_ok_put [OF assms, of ?b]
    by (auto simp: store_markOutputUnknown_def) (simp add: put_block_def)
qed (use assms in \<open>auto simp: store_markOutputUnknown_def running_iff\<close>)

lemma begin_limits: "st_limits (fst (store_begin start st)) = st_limits st"
proof -
  have "st_limits (fst (evict_until_room st)) = st_limits st"
    by (induction st rule: evict_until_room.induct)
      (subst evict_until_room.simps, simp add: evict_frame)
  then show ?thesis by (auto simp: store_begin_def split: prod.splits bool.splits)
qed

lemma ids_step:
  assumes "ids_ok st"
  shows "ids_ok (fst (store_step st x)) \<and> st_limits (fst (store_step st x)) = st_limits st"
  using assms begin_running [OF assms] append_running [OF assms] finish_running [OF assms]
    mark_running [OF assms]
  by (cases x) (auto simp: begin_limits store_clear_def ids_ok_def)

interpretation ids_machine: op_machine store_step "\<lambda>st. ids_ok st \<and> st_limits st = lim"
  by unfold_locales (use ids_step in auto)

section \<open>The interface of the assembler\<close>

text \<open>
  What the assembler relies on: the blocks that run are the ones begun and not yet finished, every
  operation on a block that runs succeeds, and beginning succeeds while fewer blocks run than fit.
\<close>

record 'st block_operations =
  op_begin :: "CommandBlockStart \<Rightarrow> 'st \<Rightarrow> 'st \<times> (CommandBlockStoreError + CommandBlockId)"
  op_append :: "CommandBlockId \<Rightarrow> CommandOutputObservation \<Rightarrow> 'st \<Rightarrow> 'st \<times> (CommandBlockStoreError + unit)"
  op_finish :: "CommandBlockId \<Rightarrow> int option \<Rightarrow> int \<Rightarrow> CommandCompletionReason \<Rightarrow> 'st
    \<Rightarrow> 'st \<times> (CommandBlockStoreError + unit)"
  op_mark :: "CommandBlockId \<Rightarrow> 'st \<Rightarrow> 'st \<times> (CommandBlockStoreError + unit)"

locale block_store =
  fixes ops :: "'st block_operations" and running :: "'st \<Rightarrow> CommandBlockId list"
    and usable :: "'st \<Rightarrow> bool" and capacity :: "'st \<Rightarrow> nat"
  assumes begin_law: "usable st \<Longrightarrow> length (running st) < capacity st \<Longrightarrow>
      \<exists>st' i. op_begin ops start st = (st', Inr i) \<and> usable st' \<and> capacity st' = capacity st
        \<and> running st' = running st @ [i]"
    and append_law: "usable st \<Longrightarrow> i \<in> set (running st) \<Longrightarrow>
      \<exists>st'. op_append ops i ob st = (st', Inr ()) \<and> usable st' \<and> capacity st' = capacity st
        \<and> running st' = running st"
    and finish_law: "usable st \<Longrightarrow> i \<in> set (running st) \<Longrightarrow>
      \<exists>st'. op_finish ops i x t r st = (st', Inr ()) \<and> usable st' \<and> capacity st' = capacity st
        \<and> running st' = filter (\<lambda>j. j \<noteq> i) (running st)"
    and mark_law: "usable st \<Longrightarrow> i \<in> set (running st) \<Longrightarrow>
      \<exists>st'. op_mark ops i st = (st', Inr ()) \<and> usable st' \<and> capacity st' = capacity st
        \<and> running st' = running st"

definition store_operations :: "CommandBlockStore block_operations" where
  "store_operations = \<lparr>op_begin = store_begin, op_append = store_append, op_finish = store_finish,
     op_mark = store_markOutputUnknown\<rparr>"

interpretation store_interface: block_store store_operations running_ids ids_ok
  "\<lambda>st. bl_maxBlocks (st_limits st)"
proof unfold_locales
  fix st start assume st: "ids_ok st" "length (running_ids st) < bl_maxBlocks (st_limits st)"
  obtain st' r where b: "store_begin start st = (st', r)" by fastforce
  have lim: "st_limits st' = st_limits st" using begin_limits [of start st] b by simp
  show "\<exists>st' i. op_begin store_operations start st = (st', Inr i) \<and> ids_ok st'
      \<and> bl_maxBlocks (st_limits st') = bl_maxBlocks (st_limits st) \<and> running_ids st' = running_ids st @ [i]"
    using begin_running [OF st(1), of start] st(2) b lim
    by (cases r) (auto simp: store_operations_def)
next
  fix st i ob assume st: "ids_ok st" "i \<in> set (running_ids st)"
  show "\<exists>st'. op_append store_operations i ob st = (st', Inr ()) \<and> ids_ok st'
      \<and> bl_maxBlocks (st_limits st') = bl_maxBlocks (st_limits st) \<and> running_ids st' = running_ids st"
    using append_running [OF st(1), of i ob] st(2)
    by (cases "store_append i ob st") (auto simp: store_operations_def)
next
  fix st i x t r assume st: "ids_ok st" "i \<in> set (running_ids st)"
  show "\<exists>st'. op_finish store_operations i x t r st = (st', Inr ()) \<and> ids_ok st'
      \<and> bl_maxBlocks (st_limits st') = bl_maxBlocks (st_limits st)
      \<and> running_ids st' = filter (\<lambda>j. j \<noteq> i) (running_ids st)"
    using finish_running [OF st(1), of i x t r] st(2)
    by (cases "store_finish i x t r st") (auto simp: store_operations_def)
next
  fix st i assume st: "ids_ok st" "i \<in> set (running_ids st)"
  show "\<exists>st'. op_mark store_operations i st = (st', Inr ()) \<and> ids_ok st'
      \<and> bl_maxBlocks (st_limits st') = bl_maxBlocks (st_limits st) \<and> running_ids st' = running_ids st"
    using mark_running [OF st(1), of i] st(2)
    by (cases "store_markOutputUnknown i st") (auto simp: store_operations_def)
qed

section \<open>Properties\<close>

text \<open>C28. The life of a block: in every reachable store the blocks that run are exactly those begun and
  neither finished nor cleared; evicting old blocks to make room never touches one of them, and
  \<open>begin\<close> is refused exactly when \<open>maxBlocks\<close> blocks run, otherwise it runs one block more, under a
  new identifier.\<close>

theorem command_blocks_running:
  fixes limits ops
  defines "st \<equiv> run_ops store_step (store_new limits) ops"
  shows "running_ids (fst (store_step st x)) =
      (case x of
         BeginBlock start \<Rightarrow> (case snd (store_begin start st) of Inl _ \<Rightarrow> running_ids st | Inr i \<Rightarrow> running_ids st @ [i])
       | FinishBlock i _ _ _ \<Rightarrow> filter (\<lambda>j. j \<noteq> i) (running_ids st)
       | ClearBlocks \<Rightarrow> []
       | _ \<Rightarrow> running_ids st)
    \<and> distinct (running_ids st)
    \<and> (snd (store_begin start st) = Inl CapacityExceeded) = (length (running_ids st) \<ge> max 1 (bl_maxBlocks limits))"
proof -
  have "ids_ok (store_new limits) \<and> st_limits (store_new limits) = st_limits (store_new limits)"
    by (simp add: ids_ok_def store_new_def Let_def)
  from ids_machine.inv_run [OF this, of ops]
  have st: "ids_ok st" "bl_maxBlocks (st_limits st) = max 1 (bl_maxBlocks limits)"
    by (simp_all add: st_def) (simp add: store_new_def Let_def)
  have "distinct (running_ids st)" using st(1) by (simp add: running_ids_def ids_ok_def distinct_map_filter)
  moreover have "(snd (store_begin start st) = Inl CapacityExceeded)
      = (length (running_ids st) \<ge> max 1 (bl_maxBlocks limits))"
    using begin_running [OF st(1), of start] st(2) by (cases "snd (store_begin start st)") auto
  moreover have "running_ids (fst (store_begin s st)) = (case snd (store_begin s st) of
      Inl _ \<Rightarrow> running_ids st | Inr i \<Rightarrow> running_ids st @ [i])" for s
    using begin_running [OF st(1), of s] by (cases "snd (store_begin s st)") auto
  ultimately show ?thesis
    using append_running [OF st(1)] finish_running [OF st(1)] mark_running [OF st(1)]
    by (cases x) (simp_all add: store_clear_def running_ids_def)
qed

end
