(* ===== verification/Block_Content.thy ===== *)
theory Block_Content
  imports Command_Blocks
begin

text \<open>
  What a command block store keeps: the invariant of the store of \<open>Command_Blocks\<close> and the
  properties of the bytes it returns.  A store that observes a stream \<open>s\<close> is described by the
  invariant with \<open>T = Some s\<close>; with \<open>T = None\<close> the same invariant is about sizes and identities
  and holds of every store.
\<close>

section \<open>Saturating offsets\<close>

lemma unat_max_u64: "unat (- 1 :: u64) = 2 ^ 64 - 1"
  by (simp add: unsigned_minus_1_eq_mask mask_eq_exp_minus_1)

lemma unat_saturatedAdd: "unat (saturatedAdd a b) = min (unat a + unat b) (2 ^ 64 - 1)"
proof -
  have sub: "unat (- 1 - a) = 2 ^ 64 - 1 - unat a"
    by (subst unat_sub) (simp_all add: unat_max_u64)
  have a: "unat a < 2 ^ 64" using unsigned_less [of a] by simp
  show ?thesis
  proof (cases "b > - 1 - a")
    case True
    then have "unat b > 2 ^ 64 - 1 - unat a" by (simp add: word_less_nat_alt sub)
    then show ?thesis using True a by (simp add: saturatedAdd_def unat_max_u64)
  next
    case False
    then have "unat b \<le> 2 ^ 64 - 1 - unat a" by (simp add: word_less_nat_alt sub)
    then have b: "unat a + unat b < 2 ^ 64" using a by linarith
    then have "unat (a + b) = unat a + unat b" by (simp add: unat_word_ariths(1))
    then show ?thesis using False b by (simp add: saturatedAdd_def)
  qed
qed

lemma unat_size: "n < 2 ^ 64 \<Longrightarrow> unat (of_nat n :: u64) = n"
  by (simp add: unat_of_nat)

lemma word_pos_iff: "(0 < (x :: u64)) = (unat x \<noteq> 0)" "(x = 0) = (unat x = 0)"
  by (simp_all add: word_neq_0_conv [symmetric] unat_eq_zero)

section \<open>What a block retains\<close>

text \<open>
  The specification of \<open>retain\<close>: of an output that is too long, the first \<open>head\<close> and the last
  \<open>capacity - head\<close> bytes.
\<close>

definition bounded_view :: "nat \<Rightarrow> nat \<Rightarrow> byte list \<Rightarrow> byte list" where
  "bounded_view capacity head out =
     (if length out \<le> capacity then out
      else take head out @ drop (length out - (capacity - head)) out)"

definition limits_ok :: "CommandBlockStoreLimits \<Rightarrow> bool" where
  "limits_ok lim \<longleftrightarrow> bl_retainedHeadBytes lim \<le> bl_maxOutputBytesPerBlock lim
     \<and> bl_maxOutputBytesPerBlock lim < 2 ^ 63"

definition views :: "CommandBlockStoreLimits \<Rightarrow> CommandBlock \<Rightarrow> byte list \<Rightarrow> bool" where
  "views lim b out \<longleftrightarrow>
     cb_retainedOutput b = bounded_view (bl_maxOutputBytesPerBlock lim) (bl_retainedHeadBytes lim) out
     \<and> cb_retainedHeadBytes b = (if length out \<le> bl_maxOutputBytesPerBlock lim then length out
         else bl_retainedHeadBytes lim)
     \<and> unat (cb_observedOutputBytes b) = min (length out) (2 ^ 64 - 1)
     \<and> unat (cb_omittedOutputBytes b) = unat (cb_observedOutputBytes b) - length (cb_retainedOutput b)"

lemma last_n_append: "last_n t (xs @ bs) =
    (if length bs \<ge> t then last_n t bs else last_n (min (t - length bs) (length xs)) xs @ bs)"
  by (auto simp: last_n_def min_def)

lemma last_n_last_n: "s \<le> t \<Longrightarrow> last_n s (last_n t xs) = last_n s xs"
  by (cases "t \<le> length xs") (simp_all add: last_n_def)

lemma length_last_n [simp]: "length (last_n t xs) = min t (length xs)"
  by (simp add: last_n_def)

lemma length_bounded_view: "head \<le> cap \<Longrightarrow> length (bounded_view cap head out) = min cap (length out)"
  by (auto simp: bounded_view_def)

lemma bounded_view_over:
  assumes "length out > cap"
  shows "bounded_view cap head out = take head out @ last_n (cap - head) out"
  using assms by (simp add: bounded_view_def last_n_def)

lemma omitted_zero:
  assumes "limits_ok lim" "views lim b out"
  shows "(cb_omittedOutputBytes b = 0) = (length out \<le> bl_maxOutputBytesPerBlock lim)"
  using assms length_bounded_view [of "bl_retainedHeadBytes lim" "bl_maxOutputBytesPerBlock lim" out]
  by (auto simp: limits_ok_def views_def word_pos_iff min_def)

text \<open>Before the first overflow and after it the new bytes are added to the same view.\<close>

lemma retain_first_overflow:
  assumes "head \<le> cap" "length out \<le> cap" "length out + length bs > cap"
  shows "take (min head (length out)) out
      @ (if min head (length out) < head then take (min (head - min head (length out)) (length bs)) bs else [])
      @ (if cap - head > 0
         then (if length bs \<ge> cap - head then last_n (cap - head) bs
               else last_n (min (cap - head - length bs) (length out)) out @ bs)
         else [])
    = bounded_view cap head (out @ bs)"
proof -
  have "take head (out @ bs) = take (min head (length out)) out
      @ (if min head (length out) < head then take (min (head - min head (length out)) (length bs)) bs else [])"
    by (cases "length out \<le> head") (auto simp: min_def)
  then show ?thesis using assms by (simp add: bounded_view_over last_n_append) (simp add: last_n_def)
qed

lemma retain_later:
  assumes "head \<le> cap" "length out > cap"
  shows "resize head (bounded_view cap head out)
      @ (let oldTail = drop (min head (length (bounded_view cap head out))) (bounded_view cap head out)
         in if length bs \<ge> cap - head then last_n (cap - head) bs
            else last_n (min (cap - head - length bs) (length oldTail)) oldTail @ bs)
    = bounded_view cap head (out @ bs)"
proof -
  have v: "bounded_view cap head out = take head out @ last_n (cap - head) out"
    using assms(2) by (rule bounded_view_over)
  have "resize head (bounded_view cap head out) = take head out" using assms by (simp add: v resize_def)
  moreover have "drop (min head (length (bounded_view cap head out))) (bounded_view cap head out)
      = last_n (cap - head) out"
    using assms by (simp add: v)
  moreover have "last_n (min (cap - head - length bs) (length (last_n (cap - head) out)))
        (last_n (cap - head) out) = last_n (min (cap - head - length bs) (length out)) out"
    using assms by (simp add: last_n_last_n min_def)
  ultimately show ?thesis using assms by (simp add: bounded_view_over last_n_append)
qed

lemma retain_view:
  assumes "limits_ok lim" "views lim b out"
    and "cb_retainedOutput b' = cb_retainedOutput b" "cb_retainedHeadBytes b' = cb_retainedHeadBytes b"
    and "cb_omittedOutputBytes b' = cb_omittedOutputBytes b"
  shows "cb_retainedOutput (retain lim bs b')
      = bounded_view (bl_maxOutputBytesPerBlock lim) (bl_retainedHeadBytes lim) (out @ bs)
    \<and> cb_retainedHeadBytes (retain lim bs b')
      = (if length (out @ bs) \<le> bl_maxOutputBytesPerBlock lim then length (out @ bs)
         else bl_retainedHeadBytes lim)"
proof -
  let ?cap = "bl_maxOutputBytesPerBlock lim" and ?head = "bl_retainedHeadBytes lim"
  have hc: "?head \<le> ?cap" using assms(1) by (simp add: limits_ok_def)
  have zero: "(cb_omittedOutputBytes b' = 0) = (length out \<le> ?cap)"
    using omitted_zero [OF assms(1,2)] assms(5) by simp
  have ret: "cb_retainedOutput b' = bounded_view ?cap ?head out"
    and hb: "cb_retainedHeadBytes b' = (if length out \<le> ?cap then length out else ?head)"
    using assms by (simp_all add: views_def)
  show ?thesis
  proof (cases "length out \<le> ?cap")
    case True
    then have out: "cb_retainedOutput b' = out" using ret by (simp add: bounded_view_def)
    show ?thesis
    proof (cases "length out + length bs \<le> ?cap")
      case True
      then show ?thesis using zero out by (simp add: retain_def Let_def bounded_view_def)
    next
      case False
      then show ?thesis
        using zero out True retain_first_overflow [OF hc True, of bs]
        by (simp add: retain_def Let_def)
    qed
  next
    case over: False
    show ?thesis
    proof (cases "?cap - ?head = 0")
      case True
      then have "bounded_view ?cap ?head (out @ bs) = bounded_view ?cap ?head out"
        using over hc by (simp add: bounded_view_def)
      then show ?thesis using zero over True ret hb by (simp add: retain_def Let_def)
    next
      case False
      then show ?thesis
        using retain_later [OF hc, of out bs] zero over ret hb
        by (simp add: retain_def retainedTail_def Let_def)
    qed
  qed
qed

lemma append_bytes_views:
  assumes "limits_ok lim" "views lim b out" "length bs < 2 ^ 63"
  shows "views lim (append_bytes lim ob bs e b) (out @ bs)"
proof -
  let ?b' = "b\<lparr>cb_observedOutputBytes := saturatedAdd (cb_observedOutputBytes b) (of_nat (length bs)),
    cb_nextOutputStreamOffset := e, cb_hasInterleavedOutput := cb_hasInterleavedOutput b \<or> ob_interleaved ob\<rparr>"
  let ?r = "retain lim bs ?b'"
  have r: "cb_retainedOutput ?r
      = bounded_view (bl_maxOutputBytesPerBlock lim) (bl_retainedHeadBytes lim) (out @ bs)"
    "cb_retainedHeadBytes ?r = (if length (out @ bs) \<le> bl_maxOutputBytesPerBlock lim
      then length (out @ bs) else bl_retainedHeadBytes lim)"
    using retain_view [OF assms(1,2), of ?b' bs] by simp_all
  have obs: "unat (cb_observedOutputBytes ?r) = min (length (out @ bs)) (2 ^ 64 - 1)"
    using assms(2,3) by (simp add: retain_frame unat_saturatedAdd unat_size views_def)
  have len: "length (cb_retainedOutput ?r) = min (bl_maxOutputBytesPerBlock lim) (length (out @ bs))"
    using r(1) assms(1) length_bounded_view by (simp add: limits_ok_def)
  then have "length (cb_retainedOutput ?r) < 2 ^ 63" using assms(1) by (simp add: limits_ok_def min_def)
  then have small: "unat (of_nat (length (cb_retainedOutput ?r)) :: u64) = length (cb_retainedOutput ?r)"
    by (simp add: unat_size)
  moreover have "length (cb_retainedOutput ?r) \<le> unat (cb_observedOutputBytes ?r)"
    using obs len assms(1) by (simp add: limits_ok_def min_def)
  ultimately have "unat (cb_observedOutputBytes ?r - of_nat (length (cb_retainedOutput ?r)))
      = unat (cb_observedOutputBytes ?r) - length (cb_retainedOutput ?r)"
    by (subst unat_sub) (simp_all add: word_le_nat_alt)
  then show ?thesis using r obs by (simp add: append_bytes_def updateCoverage_def views_def Let_def)
qed

section \<open>The invariant\<close>

text \<open>
  With \<open>T = Some s\<close> the invariant also says what the bytes are, for a store that observes the
  stream \<open>s\<close>; with \<open>T = None\<close> it speaks of sizes and identities only and holds of every store.
\<close>

definition slice :: "byte list \<Rightarrow> nat \<Rightarrow> nat \<Rightarrow> byte list" where
  "slice s i j = take (j - i) (drop i s)"

definition segment_end :: "CommandOutputArtifactSegment \<Rightarrow> nat" where
  "segment_end g = unat (sg_streamOffset g) + length (sg_bytes g)"

definition block_true :: "byte list \<Rightarrow> CommandBlock \<Rightarrow> byte list \<Rightarrow> bool" where
  "block_true s b out \<longleftrightarrow> unat (cb_firstOutputStreamOffset b) \<le> unat (cb_nextOutputStreamOffset b)
     \<and> unat (cb_nextOutputStreamOffset b) \<le> length s
     \<and> (cb_missingOutputBytes b = 0 \<longrightarrow>
          out = slice s (unat (cb_firstOutputStreamOffset b)) (unat (cb_nextOutputStreamOffset b)))"

definition segments_true :: "byte list \<Rightarrow> nat \<Rightarrow> nat \<Rightarrow> CommandOutputArtifactSegment list \<Rightarrow> bool" where
  "segments_true s lo hi gs \<longleftrightarrow> sorted_wrt (\<lambda>x y. segment_end x \<le> unat (sg_streamOffset y)) gs
     \<and> (\<forall>g \<in> set gs. sg_bytes g \<noteq> [] \<and> lo \<le> unat (sg_streamOffset g) \<and> segment_end g \<le> hi
          \<and> sg_bytes g = slice s (unat (sg_streamOffset g)) (segment_end g))"

definition covers :: "nat \<Rightarrow> nat \<Rightarrow> CommandOutputArtifactSegment list \<Rightarrow> bool" where
  "covers lo hi gs \<longleftrightarrow> (gs = [] \<and> lo = hi)
     \<or> (\<exists>g. gs = [g] \<and> unat (sg_streamOffset g) = lo \<and> segment_end g = hi)"

definition artifact_true :: "byte list \<Rightarrow> CommandBlock \<Rightarrow> CommandOutputArtifact \<Rightarrow> bool" where
  "artifact_true s b a \<longleftrightarrow>
     segments_true s (unat (ar_streamStart a)) (unat (ar_streamEnd a)) (ar_segments a)
     \<and> (\<not> ar_expired a \<and> ar_omittedBytes a = 0 \<and> cb_missingOutputBytes b = 0 \<longrightarrow>
          covers (unat (ar_streamStart a)) (unat (ar_streamEnd a)) (ar_segments a))"

definition pair_inv ::
  "CommandBlockStoreLimits \<Rightarrow> byte list option \<Rightarrow> CommandBlock \<Rightarrow> CommandOutputArtifact \<Rightarrow> bool" where
  "pair_inv lim T b a \<longleftrightarrow> cb_id b = ar_blockId a
     \<and> ar_finished a = (cb_state b = Finished)
     \<and> ar_streamStart a = cb_firstOutputStreamOffset b \<and> ar_streamEnd a = cb_nextOutputStreamOffset b
     \<and> cb_outputCoverage b = coverage_of b
     \<and> length (cb_outputGaps b) \<le> bl_maxGapRangesPerBlock lim
     \<and> artifact_size a \<le> bl_maxArtifactBytesPerBlock lim
     \<and> length (ar_segments a) \<le> bl_maxArtifactSegmentsPerBlock lim
     \<and> (\<exists>out. views lim b out \<and> (\<forall>s. T = Some s \<longrightarrow> block_true s b out))
     \<and> (\<forall>s. T = Some s \<longrightarrow> artifact_true s b a)"

definition limits_normal :: "CommandBlockStoreLimits \<Rightarrow> bool" where
  "limits_normal lim \<longleftrightarrow> limits_ok lim \<and> 0 < bl_maxBlocks lim \<and> 0 < bl_maxGapRangesPerBlock lim
     \<and> 0 < bl_maxArtifactSegmentsPerBlock lim"

definition store_inv ::
  "CommandBlockStoreLimits \<Rightarrow> byte list option \<Rightarrow> CommandBlockStore \<Rightarrow> bool" where
  "store_inv lim T st \<longleftrightarrow> st_limits st = lim
     \<and> distinct (map cb_id (st_blocks st)) \<and> (\<forall>b \<in> set (st_blocks st). cb_id b < st_nextId st)
     \<and> length (st_blocks st) \<le> bl_maxBlocks lim
     \<and> list_all2 (pair_inv lim T) (st_blocks st) (st_artifacts st)
     \<and> st_artifactBytes st = sum_list (map artifact_size (st_artifacts st))
     \<and> st_artifactBytes st \<le> bl_maxArtifactBytesTotal lim"

lemma slice_append: "i \<le> j \<Longrightarrow> j \<le> k \<Longrightarrow> slice s i j @ slice s j k = slice s i k"
  using take_add [of "j - i" "k - j" "drop i s"] by (simp add: slice_def add.commute)

lemma length_slice: "j \<le> length s \<Longrightarrow> length (slice s i j) = j - i"
  by (simp add: slice_def)

lemma drop_slice: "drop n (slice s i j) = slice s (i + n) j"
  by (simp add: slice_def drop_take add.commute)

lemma take_slice: "i + n \<le> j \<Longrightarrow> take n (slice s i j) = slice s i (i + n)"
  by (simp add: slice_def min_def)

lemma slice_self [simp]: "slice s i i = []"
  by (simp add: slice_def)

section \<open>Making room\<close>

lemma expire_pair: "pair_inv lim T b a \<Longrightarrow> pair_inv lim T b (expireArtifact a)"
  by (auto simp: pair_inv_def expireArtifact_def artifact_size_def artifact_true_def segments_true_def)

lemma artifact_size_expire [simp]: "artifact_size (expireArtifact a) = 0"
  by (simp add: expireArtifact_def artifact_size_def)

lemma expire_until_inv:
  assumes "store_inv lim T st"
  shows "store_inv lim T (expire_until n active st)
    \<and> st_blocks (expire_until n active st) = st_blocks st
    \<and> st_nextId (expire_until n active st) = st_nextId st
    \<and> find_artifact active (expire_until n active st) = find_artifact active st"
  using assms
proof (induction n active st rule: expire_until.induct)
  case (1 n active st)
  show ?case
  proof (cases "n > artifact_room st \<and> find (removable active) (st_artifacts st) \<noteq> None")
    case True
    then obtain a where a: "find (removable active) (st_artifacts st) = Some a" by auto
    let ?st = "st\<lparr>st_artifactBytes := st_artifactBytes st - min (st_artifactBytes st) (artifact_size a),
                 st_artifacts := update_first (removable active) expireArtifact (st_artifacts st)\<rparr>"
    have sum: "sum_list (map artifact_size (update_first (removable active) expireArtifact (st_artifacts st)))
        = sum_list (map artifact_size (st_artifacts st)) - artifact_size a"
      using sum_update_first [OF a, of artifact_size expireArtifact] by simp
    have "list_all2 (pair_inv lim T) (st_blocks st)
        (update_first (removable active) expireArtifact (st_artifacts st))"
      using "1.prems" by (intro list_all2_update_right) (auto simp: store_inv_def expire_pair)
    then have inv: "store_inv lim T ?st" using "1.prems" sum by (auto simp: store_inv_def min_def)
    have "find (\<lambda>x. ar_blockId x = active) (update_first (removable active) expireArtifact as)
        = find (\<lambda>x. ar_blockId x = active) as" for as
      by (induction as) (auto simp: removable_def expireArtifact_def)
    then have "find_artifact active ?st = find_artifact active st" by (simp add: find_artifact_def)
    with "1.IH" [OF _ a] inv True a show ?thesis
      by (subst (1 2 3 4) expire_until.simps) simp
  next
    case False
    then have "expire_until n active st = st"
      by (subst expire_until.simps) (auto split: option.splits)
    then show ?thesis using "1.prems" by simp
  qed
qed

definition artifact_write ::
  "u64 \<Rightarrow> byte list \<Rightarrow> nat \<Rightarrow> CommandOutputArtifact \<Rightarrow> CommandOutputArtifact" where
  "artifact_write streamOffset bytes n a =
     (let a2 = add_retained streamOffset (take n bytes)
            (a\<lparr>ar_observedBytes := saturatedAdd (ar_observedBytes a) (of_nat (length bytes))\<rparr>)
      in a2\<lparr>ar_omittedBytes := saturatedAdd (ar_omittedBytes a2) (of_nat (length bytes - n))\<rparr>)"

lemma saturatedAdd_0 [simp]: "saturatedAdd x 0 = x"
  by (simp add: saturatedAdd_def)

lemma retainArtifact_form:
  assumes "store_inv lim T st" "artifact_size a \<le> bl_maxArtifactBytesPerBlock lim"
  obtains n st1 where
    "retainArtifact a off bytes st = (st1\<lparr>st_artifactBytes := st_artifactBytes st1 + n\<rparr>, artifact_write off bytes n a)"
    "n \<le> length bytes" "artifact_size a + n \<le> bl_maxArtifactBytesPerBlock lim"
    "n > 0 \<Longrightarrow> \<not> merges_last off a \<Longrightarrow> length (ar_segments a) < bl_maxArtifactSegmentsPerBlock lim"
    "store_inv lim T st1" "st_blocks st1 = st_blocks st" "st_nextId st1 = st_nextId st"
    "find_artifact (ar_blockId a) st1 = find_artifact (ar_blockId a) st"
    "st_artifactBytes st1 + n \<le> bl_maxArtifactBytesTotal lim"
proof (cases "bytes = []")
  case True
  then have "retainArtifact a off bytes st = (st\<lparr>st_artifactBytes := st_artifactBytes st + 0\<rparr>, artifact_write off bytes 0 a)"
    by (simp add: retainArtifact_def artifact_write_def add_retained_def Let_def)
  then show ?thesis using that [of st 0] assms by (auto simp: store_inv_def)
next
  case False
  define w where "w = (if \<not> merges_last off a \<and> length (ar_segments a) \<ge> bl_maxArtifactSegmentsPerBlock lim
    then 0 else min (length bytes) (bl_maxArtifactBytesPerBlock lim
        - min (artifact_size a) (bl_maxArtifactBytesPerBlock lim)))"
  define st1 where "st1 = expire_until (min w (bl_maxArtifactBytesTotal lim)) (ar_blockId a) st"
  define n where "n = min (min w (bl_maxArtifactBytesTotal lim)) (artifact_room st1)"
  have lim: "st_limits st = lim" using assms(1) by (simp add: store_inv_def)
  have inv: "store_inv lim T st1" "st_blocks st1 = st_blocks st" "st_nextId st1 = st_nextId st"
    "find_artifact (ar_blockId a) st1 = find_artifact (ar_blockId a) st"
    using expire_until_inv [OF assms(1)] by (simp_all add: st1_def)
  have room: "makeArtifactRoom w (ar_blockId a) st = (st1, n)"
    by (simp add: makeArtifactRoom_def st1_def n_def lim Let_def)
  have "retainArtifact a off bytes st = (st1\<lparr>st_artifactBytes := st_artifactBytes st1 + n\<rparr>, artifact_write off bytes n a)"
    unfolding retainArtifact_def lim Let_def w_def [symmetric] room prod.case artifact_write_def
    by (simp only: False if_False)
  note form = this
  have n: "n \<le> w" by (simp add: n_def)
  have "w \<le> length bytes" by (simp add: w_def)
  moreover have "w \<le> bl_maxArtifactBytesPerBlock lim - artifact_size a" using assms(2) by (simp add: w_def)
  moreover have "w > 0 \<Longrightarrow> \<not> merges_last off a \<Longrightarrow> length (ar_segments a) < bl_maxArtifactSegmentsPerBlock lim"
    by (simp add: w_def split: if_splits)
  ultimately have "n \<le> length bytes" "artifact_size a + n \<le> bl_maxArtifactBytesPerBlock lim"
    "n > 0 \<Longrightarrow> \<not> merges_last off a \<Longrightarrow> length (ar_segments a) < bl_maxArtifactSegmentsPerBlock lim"
    using assms(2) n by linarith+
  moreover have "st_artifactBytes st1 + n \<le> bl_maxArtifactBytesTotal lim"
    using inv(1) by (auto simp: n_def artifact_room_def store_inv_def)
  ultimately show ?thesis using form inv by (intro that [of st1 n])
qed

section \<open>Writing to an artifact\<close>

lemma add_retained_frame [simp]:
  "ar_blockId (add_retained o' r a) = ar_blockId a" "ar_finished (add_retained o' r a) = ar_finished a"
  "ar_streamStart (add_retained o' r a) = ar_streamStart a" "ar_streamEnd (add_retained o' r a) = ar_streamEnd a"
  "ar_expired (add_retained o' r a) = ar_expired a" "ar_omittedBytes (add_retained o' r a) = ar_omittedBytes a"
  by (simp_all add: add_retained_def)

lemma artifact_write_frame [simp]:
  "ar_blockId (artifact_write o' bs n a) = ar_blockId a" "ar_finished (artifact_write o' bs n a) = ar_finished a"
  "ar_streamStart (artifact_write o' bs n a) = ar_streamStart a"
  "ar_streamEnd (artifact_write o' bs n a) = ar_streamEnd a"
  "ar_expired (artifact_write o' bs n a) = ar_expired a"
  "ar_omittedBytes (artifact_write o' bs n a)
     = saturatedAdd (ar_omittedBytes a) (of_nat (length bs - n))"
  by (simp_all add: artifact_write_def Let_def)

lemma artifact_write_segments:
  "ar_segments (artifact_write o' bs n a) =
     (if take n bs = [] then ar_segments a
      else if merges_last o' a
      then butlast (ar_segments a)
        @ [(last (ar_segments a))\<lparr>sg_bytes := sg_bytes (last (ar_segments a)) @ take n bs\<rparr>]
      else ar_segments a @ [\<lparr>sg_streamOffset = o', sg_bytes = take n bs\<rparr>])"
  by (simp add: artifact_write_def add_retained_def merges_last_def Let_def)

lemma artifact_write_size:
  assumes "n \<le> length bs"
  shows "artifact_size (artifact_write o' bs n a) = artifact_size a + n"
proof (cases "merges_last o' a")
  case True
  then obtain gs g where "ar_segments a = gs @ [g]"
    using rev_exhaust [of "ar_segments a"] by (auto simp: merges_last_def)
  then show ?thesis using assms True by (auto simp: artifact_size_def artifact_write_segments min_def)
next
  case False
  then show ?thesis using assms by (auto simp: artifact_size_def artifact_write_segments min_def)
qed

lemma artifact_write_count:
  assumes "length (ar_segments a) \<le> k" "n > 0 \<Longrightarrow> \<not> merges_last o' a \<Longrightarrow> length (ar_segments a) < k"
  shows "length (ar_segments (artifact_write o' bs n a)) \<le> k"
  using assms by (cases "n > 0") (auto simp: artifact_write_segments merges_last_def Suc_le_eq
      intro: le_trans)

lemma omitted_nothing:
  assumes "saturatedAdd x (of_nat k) = 0" "k < 2 ^ 64"
  shows "x = 0 \<and> k = 0"
proof -
  have "unat (saturatedAdd x (of_nat k)) = 0" using assms(1) by simp
  then have "unat x = 0 \<and> k = 0" using assms(2) by (simp add: unat_saturatedAdd unat_size min_def split: if_splits)
  then show ?thesis by (simp add: unat_eq_zero)
qed

lemma segments_true_mono: "segments_true s lo hi gs \<Longrightarrow> hi \<le> hi' \<Longrightarrow> segments_true s lo hi' gs"
  unfolding segments_true_def by (meson le_trans)

lemma segment_word_end:
  assumes "segment_end g < 2 ^ 63"
  shows "unat (saturatedAdd (sg_streamOffset g) (of_nat (length (sg_bytes g)))) = segment_end g"
  using assms by (simp add: unat_saturatedAdd segment_end_def unat_size)

lemma segments_true_write:
  assumes "segments_true s lo nxt (ar_segments a)" "nxt \<le> unat o'" "lo \<le> unat o'"
    and "bs = slice s (unat o') e" "n \<le> length bs" "unat o' \<le> e" "e \<le> length s" "length s < 2 ^ 63"
  shows "segments_true s lo e (ar_segments (artifact_write o' bs n a))"
proof -
  let ?m = "unat o'"
  have len: "length bs = e - ?m" using assms(4,7) by (simp add: length_slice)
  then have n: "?m + n \<le> e" using assms(5,6) by simp
  have taken: "take n bs = slice s ?m (?m + n)" using n by (simp add: assms(4) take_slice)
  have old: "segments_true s lo e (ar_segments a)"
    using assms(1,2,6) by (auto intro: segments_true_mono)
  show ?thesis
  proof (cases "take n bs = []")
    case True
    then show ?thesis using old by (simp add: artifact_write_segments)
  next
    case ne: False
    have tlen: "length (take n bs) = n" using assms(5) by simp
    show ?thesis
    proof (cases "merges_last o' a")
      case True
      then obtain gs g where gs: "ar_segments a = gs @ [g]"
        using rev_exhaust [of "ar_segments a"] by (auto simp: merges_last_def)
      have g: "segment_end g \<le> nxt" "sg_bytes g = slice s (unat (sg_streamOffset g)) (segment_end g)"
        using assms(1) gs by (auto simp: segments_true_def)
      have "segment_end g < 2 ^ 63" using g(1) assms(2,6-8) by linarith
      from segment_word_end [OF this] True gs have m: "segment_end g = ?m" by (simp add: merges_last_def)
      have "unat (sg_streamOffset g) \<le> ?m" using m by (simp add: segment_end_def)
      then have "sg_bytes g @ take n bs = slice s (unat (sg_streamOffset g)) (?m + n)"
        using g(2) m taken by (simp add: slice_append)
      moreover have "segment_end (g\<lparr>sg_bytes := sg_bytes g @ take n bs\<rparr>) = ?m + n"
        using m tlen by (simp add: segment_end_def)
      ultimately show ?thesis using True ne gs n assms(1) old
        by (auto simp: artifact_write_segments segments_true_def sorted_wrt_append)
    next
      case False
      have new: "segment_end \<lparr>sg_streamOffset = o', sg_bytes = take n bs\<rparr> = ?m + n"
        using tlen by (simp add: segment_end_def)
      have "\<forall>g \<in> set (ar_segments a). segment_end g \<le> ?m"
        using assms(1,2) by (auto simp: segments_true_def)
      then show ?thesis using False ne new old taken n assms(3)
        by (auto simp: artifact_write_segments segments_true_def sorted_wrt_append)
    qed
  qed
qed

lemma covers_write:
  assumes "covers lo nxt (ar_segments a)" "unat (ar_streamStart a) = lo" "unat o' = nxt"
    and "length bs = e - nxt" "nxt < e" "e < 2 ^ 63"
  shows "covers lo e (ar_segments (artifact_write o' bs (length bs) a))"
proof (cases "ar_segments a = []")
  case True
  then show ?thesis using assms
    by (auto simp: covers_def artifact_write_segments merges_last_def segment_end_def)
next
  case False
  then obtain g where g: "ar_segments a = [g]" "unat (sg_streamOffset g) = lo" "segment_end g = nxt"
    using assms(1) by (auto simp: covers_def)
  have "segment_end g < 2 ^ 63" using g(3) assms(5,6) by simp
  from segment_word_end [OF this] have "merges_last o' a"
    using g assms(3) by (simp add: merges_last_def word_unat_eq_iff)
  then show ?thesis using g assms(4,5) by (auto simp: covers_def artifact_write_segments segment_end_def)
qed

section \<open>Appending an observation\<close>

definition observation_ok :: "byte list option \<Rightarrow> CommandOutputObservation \<Rightarrow> bool" where
  "observation_ok T ob \<longleftrightarrow> length (ob_bytes ob) < 2 ^ 63
     \<and> (\<forall>s. T = Some s \<longrightarrow> unat (ob_streamOffset ob) + length (ob_bytes ob) \<le> length s \<and> length s < 2 ^ 63
          \<and> ob_bytes ob = slice s (unat (ob_streamOffset ob)) (unat (ob_streamOffset ob) + length (ob_bytes ob)))"

lemma views_updates [simp]:
  "views lim (updateCoverage b) out = views lim b out"
  "views lim (recordGap lim' x y b) out = views lim b out"
  "views lim (append_gap lim' ob b) out = views lim b out"
  by (simp_all add: updateCoverage_def views_def recordGap_def append_gap_def Let_def)

lemma recordGap_count:
  assumes "length (cb_outputGaps b) \<le> bl_maxGapRangesPerBlock lim" "0 < bl_maxGapRangesPerBlock lim"
  shows "length (cb_outputGaps (recordGap lim x y b)) \<le> bl_maxGapRangesPerBlock lim"
  using assms by (auto simp: recordGap_def Let_def)

lemma append_gap_missing:
  assumes "cb_missingOutputBytes (append_gap lim ob b) = 0"
  shows "cb_missingOutputBytes b = 0 \<and> ob_streamOffset ob \<le> cb_nextOutputStreamOffset b"
proof (cases "ob_streamOffset ob > cb_nextOutputStreamOffset b")
  case True
  then have "saturatedAdd (cb_missingOutputBytes b) (ob_streamOffset ob - cb_nextOutputStreamOffset b) = 0"
    using assms by (simp add: append_gap_def Let_def)
  then have "unat (saturatedAdd (cb_missingOutputBytes b) (ob_streamOffset ob - cb_nextOutputStreamOffset b)) = 0"
    by simp
  then have "unat (ob_streamOffset ob - cb_nextOutputStreamOffset b) = 0"
    by (simp add: unat_saturatedAdd min_def split: if_splits)
  then show ?thesis using True by (simp add: unat_eq_zero)
next
  case False
  then show ?thesis using assms by (simp add: append_gap_def Let_def)
qed

lemma append_pair:
  fixes b ob a n
  defines "nxt \<equiv> cb_nextOutputStreamOffset b" and "off \<equiv> ob_streamOffset ob"
  defines "e \<equiv> saturatedAdd off (of_nat (length (ob_bytes ob)))"
  defines "overlap \<equiv> (if off < nxt then unat (nxt - off) else 0)"
  defines "bs \<equiv> drop overlap (ob_bytes ob)"
  assumes inv: "pair_inv lim T b a" "limits_normal lim" "observation_ok T ob" "\<not> e \<le> nxt"
    and n: "n \<le> length bs" "artifact_size a + n \<le> bl_maxArtifactBytesPerBlock lim"
      "n > 0 \<Longrightarrow> \<not> merges_last (saturatedAdd off (of_nat overlap)) a \<Longrightarrow>
        length (ar_segments a) < bl_maxArtifactSegmentsPerBlock lim"
  shows "pair_inv lim T (append_bytes lim ob bs e (append_gap lim ob b))
    (artifact_write (saturatedAdd off (of_nat overlap)) bs n a\<lparr>ar_streamEnd := e\<rparr>)"
proof -
  let ?b = "append_bytes lim ob bs e (append_gap lim ob b)" and ?o = "saturatedAdd off (of_nat overlap)"
  let ?a = "artifact_write ?o bs n a\<lparr>ar_streamEnd := e\<rparr>"
  have lim: "limits_ok lim" using inv(2) by (simp add: limits_normal_def)
  obtain out where out: "views lim b out" "\<And>s. T = Some s \<Longrightarrow> block_true s b out"
    using inv(1) by (auto simp: pair_inv_def)
  have size: "length (ob_bytes ob) < 2 ^ 63" using inv(3) by (simp add: observation_ok_def)
  then have "length bs < 2 ^ 63" by (simp add: bs_def)
  then have v: "views lim ?b (out @ bs)" using append_bytes_views [OF lim] out(1) by simp
  have content: "block_true s ?b (out @ bs) \<and> artifact_true s ?b ?a" if T: "T = Some s" for s
  proof -
    let ?n = "unat nxt" and ?f = "unat (cb_firstOutputStreamOffset b)"
    have ob: "unat off + length (ob_bytes ob) \<le> length s" "length s < 2 ^ 63"
      "ob_bytes ob = slice s (unat off) (unat off + length (ob_bytes ob))"
      using inv(3) T by (auto simp: observation_ok_def off_def)
    have e: "unat e = unat off + length (ob_bytes ob)"
      using ob(1,2) size by (simp add: e_def unat_saturatedAdd unat_size)
    have b: "?f \<le> ?n" "?n \<le> length s" "cb_missingOutputBytes b = 0 \<Longrightarrow> out = slice s ?f ?n"
      using out(2) [OF T] by (auto simp: block_true_def nxt_def)
    have ne: "?n < unat e" using inv(4) by (simp add: word_le_nat_alt)
    have ov: "overlap = ?n - unat off"
      by (auto simp: overlap_def word_less_nat_alt unat_sub word_le_nat_alt)
    have o': "unat ?o = max ?n (unat off)"
      using ob(1,2) b(2) by (simp add: unat_saturatedAdd unat_size ov)
    have "unat off + overlap = unat ?o" using ov o' by simp
    then have bs: "bs = slice s (unat ?o) (unat e)"
      using arg_cong [OF ob(3), of "drop overlap"] e by (simp add: bs_def drop_slice)
    have arts: "segments_true s ?f ?n (ar_segments a)" "unat (ar_streamStart a) = ?f"
      "\<not> ar_expired a \<Longrightarrow> ar_omittedBytes a = 0 \<Longrightarrow> cb_missingOutputBytes b = 0 \<Longrightarrow> covers ?f ?n (ar_segments a)"
      using inv(1) T by (auto simp: pair_inv_def artifact_true_def nxt_def)
    have oe: "unat ?o \<le> unat e" using o' e ne by simp
    have "block_true s ?b (out @ bs)"
      unfolding block_true_def
    proof (intro conjI impI)
      assume "cb_missingOutputBytes ?b = 0"
      then have m: "cb_missingOutputBytes b = 0" "unat off \<le> ?n"
        using append_gap_missing [of lim ob b] by (auto simp: word_le_nat_alt off_def nxt_def)
      then have "bs = slice s ?n (unat e)" using bs o' by (simp add: max_def)
      then show "out @ bs = slice s (unat (cb_firstOutputStreamOffset ?b)) (unat (cb_nextOutputStreamOffset ?b))"
        using b m ne by (simp add: slice_append)
    qed (use b ne e ob(1) in simp_all)
    moreover have "segments_true s ?f (unat e) (ar_segments (artifact_write ?o bs n a))"
      using segments_true_write [OF arts(1) _ _ bs n(1) oe] o' b(1) e ob(1,2) by simp
    moreover have "covers ?f (unat e) (ar_segments (artifact_write ?o bs n a))"
      if "\<not> ar_expired a" "saturatedAdd (ar_omittedBytes a) (of_nat (length bs - n)) = 0"
        "cb_missingOutputBytes ?b = 0"
    proof -
      have m: "cb_missingOutputBytes b = 0" "unat off \<le> ?n"
        using append_gap_missing [of lim ob b] that(3) by (auto simp: word_le_nat_alt off_def nxt_def)
      have om: "ar_omittedBytes a = 0 \<and> length bs - n = 0"
        using \<open>length bs < 2 ^ 63\<close> by (intro omitted_nothing [OF that(2)]) simp
      then have "n = length bs" using n(1) by simp
      moreover have "length bs = unat e - ?n" using bs o' m(2) e ob(1) by (simp add: length_slice max_def)
      ultimately show ?thesis
        using covers_write [OF arts(3) [OF that(1) _ m(1)] arts(2), of ?o bs "unat e"] om o' m(2) ne e ob(1,2)
        by (simp add: max_def)
    qed
    ultimately show ?thesis using arts(2) by (simp add: artifact_true_def)
  qed
  have "length (cb_outputGaps ?b) \<le> bl_maxGapRangesPerBlock lim"
    using inv(1,2) recordGap_count [of b lim] by (simp add: append_gap_def pair_inv_def limits_normal_def Let_def)
  moreover have "artifact_size ?a \<le> bl_maxArtifactBytesPerBlock lim"
    using artifact_write_size [OF n(1), of ?o a] n(2) by (simp add: artifact_size_def)
  moreover have "length (ar_segments ?a) \<le> bl_maxArtifactSegmentsPerBlock lim"
    using artifact_write_count [of a "bl_maxArtifactSegmentsPerBlock lim" n ?o bs] inv(1) n(3)
    by (simp add: pair_inv_def)
  ultimately show ?thesis using inv(1) v content by (auto simp: pair_inv_def)
qed

section \<open>The operations keep the invariant\<close>

text \<open>
  What the callers of a store that observes the stream \<open>s\<close> (\<open>T = Some s\<close>) keep to: blocks begin
  inside the stream and observations are pieces of it.  A \<open>std::vector\<close> of bytes is shorter than
  \<open>2 ^ 63\<close>.
\<close>

fun op_ok :: "byte list option \<Rightarrow> StoreOp \<Rightarrow> bool" where
  "op_ok T (BeginBlock start) = (\<forall>s. T = Some s \<longrightarrow> unat (bs_outputStreamOffset start) \<le> length s)"
| "op_ok T (AppendOutput i ob) = observation_ok T ob"
| "op_ok T _ = True"

lemma pair_ids: "pair_inv lim T b a \<Longrightarrow> (cb_id b = i) = (ar_blockId a = i)"
  by (simp add: pair_inv_def)

lemma store_find:
  assumes "store_inv lim T st" "find_block i st = Some b"
  obtains a where "find_artifact i st = Some a" "pair_inv lim T b a" "cb_id b = i" "ar_blockId a = i"
proof -
  have all2: "list_all2 (pair_inv lim T) (st_blocks st) (st_artifacts st)"
    using assms(1) by (simp add: store_inv_def)
  obtain a where "find (\<lambda>a. ar_blockId a = i) (st_artifacts st) = Some a" "pair_inv lim T b a"
    by (rule list_all2_find [OF all2 pair_ids]) (use assms(2) in \<open>auto simp: find_block_def\<close>)
  moreover from this assms(2) have "cb_id b = i \<and> ar_blockId a = i"
    using find_Some_in [of "\<lambda>b. cb_id b = i" "st_blocks st" b]
      find_Some_in [of "\<lambda>a. ar_blockId a = i" "st_artifacts st" a]
    by (simp add: find_block_def)
  ultimately show ?thesis using that by (simp add: find_artifact_def)
qed

text \<open>Fields of a block that its output does not depend on.\<close>

lemma views_frame [simp]:
  "views lim (b\<lparr>cb_hasInterleavedOutput := x\<rparr>) out = views lim b out"
  "views lim (b\<lparr>cb_outputCoverageUncertain := x\<rparr>) out = views lim b out"
  "views lim (b\<lparr>cb_state := q, cb_exitStatus := e, cb_finishedUtcMs := t, cb_completionReason := r\<rparr>) out
     = views lim b out"
  by (simp_all add: views_def)

lemma true_frame [simp]:
  "block_true s (b\<lparr>cb_hasInterleavedOutput := x\<rparr>) out = block_true s b out"
  "block_true s (b\<lparr>cb_outputCoverageUncertain := x\<rparr>) out = block_true s b out"
  "block_true s (b\<lparr>cb_state := q, cb_exitStatus := e, cb_finishedUtcMs := t, cb_completionReason := r\<rparr>) out
     = block_true s b out"
  "block_true s (updateCoverage b) out = block_true s b out"
  "artifact_true s (b\<lparr>cb_hasInterleavedOutput := x\<rparr>) a = artifact_true s b a"
  "artifact_true s (b\<lparr>cb_outputCoverageUncertain := x\<rparr>) a = artifact_true s b a"
  "artifact_true s (b\<lparr>cb_state := q, cb_exitStatus := e, cb_finishedUtcMs := t, cb_completionReason := r\<rparr>) a
     = artifact_true s b a"
  "artifact_true s (updateCoverage b) a = artifact_true s b a"
  "artifact_true s b (a\<lparr>ar_finished := f\<rparr>) = artifact_true s b a"
  "artifact_size (a\<lparr>ar_finished := f\<rparr>) = artifact_size a"
  by (simp_all add: block_true_def artifact_true_def artifact_size_def)

lemma pair_interleaved:
  "pair_inv lim T b a \<Longrightarrow> pair_inv lim T (updateCoverage (b\<lparr>cb_hasInterleavedOutput := x\<rparr>)) a"
  unfolding pair_inv_def by simp

lemma pair_uncertain:
  "pair_inv lim T b a \<Longrightarrow> pair_inv lim T (updateCoverage (b\<lparr>cb_outputCoverageUncertain := x\<rparr>)) a"
  unfolding pair_inv_def by simp

lemma pair_finish:
  "pair_inv lim T b a \<Longrightarrow> pair_inv lim T
     (b\<lparr>cb_state := Finished, cb_exitStatus := x, cb_finishedUtcMs := t, cb_completionReason := r\<rparr>)
     (a\<lparr>ar_finished := True\<rparr>)"
  unfolding pair_inv_def by (simp add: coverage_of_def)

lemma put_block_inv:
  assumes "store_inv lim T st" "find_block (cb_id b') st = Some b" "\<And>a. pair_inv lim T b a \<Longrightarrow> pair_inv lim T b' a"
  shows "store_inv lim T (put_block b' st)"
proof -
  have "list_all2 (pair_inv lim T) (update_first (\<lambda>x. cb_id x = cb_id b') (\<lambda>_. b') (st_blocks st)) (st_artifacts st)"
    by (rule list_all2_update_left) (use assms in \<open>auto simp: store_inv_def find_block_def\<close>)
  moreover note ids = store_inv_ids [OF put_block_ids [of b' st]]
  ultimately show ?thesis using assms(1) ids(1,3) ids(2) [of "st_nextId st"]
    by (simp add: store_inv_def put_block_def)
qed

text \<open>Block and artifact written together, with the bytes taken from the budget.\<close>

lemma put_both_inv:
  assumes "store_inv lim T st" "find_block i st = Some b" "find_artifact i st = Some a"
    and "cb_id b' = i" "ar_blockId a' = i" "pair_inv lim T b' a'"
    and "artifact_size a' = artifact_size a + n" "st_artifactBytes st + n \<le> bl_maxArtifactBytesTotal lim"
  shows "store_inv lim T (put_block b' (put_artifact a' (st\<lparr>st_artifactBytes := st_artifactBytes st + n\<rparr>)))"
proof -
  have "list_all2 (pair_inv lim T) (update_first (\<lambda>x. cb_id x = i) (\<lambda>_. b') (st_blocks st))
      (update_first (\<lambda>x. ar_blockId x = i) (\<lambda>_. a') (st_artifacts st))"
    by (rule list_all2_update_first) (use assms(1,6) in \<open>auto simp: store_inv_def pair_inv_def\<close>)
  moreover note ids = store_inv_ids [OF put_block_ids [of b' st]]
  moreover have "sum_list (map artifact_size (update_first (\<lambda>x. ar_blockId x = i) (\<lambda>_. a') (st_artifacts st)))
      = sum_list (map artifact_size (st_artifacts st)) + n"
    using sum_update_first [of "\<lambda>x. ar_blockId x = i" "st_artifacts st" a artifact_size "\<lambda>_. a'"] assms(3,7)
    by (simp add: find_artifact_def)
  ultimately show ?thesis using assms(1,4,5,8) ids(1,3) ids(2) [of "st_nextId st"]
    by (simp add: store_inv_def put_block_def put_artifact_def)
qed

lemma put_block_artifact_comm:
  "put_block b (put_artifact a st) = put_artifact a (put_block b st)"
  by (simp add: put_block_def put_artifact_def)

lemma store_append_inv:
  assumes "store_inv lim T st" "limits_normal lim" "observation_ok T ob"
  shows "store_inv lim T (fst (store_append i ob st))"
proof (cases "find_block i st")
  case None
  then show ?thesis using assms(1) by (simp add: store_append_def)
next
  case (Some b)
  obtain a where a: "find_artifact i st = Some a" "pair_inv lim T b a" "cb_id b = i" "ar_blockId a = i"
    by (rule store_find [OF assms(1) Some])
  have lim: "st_limits st = lim" using assms(1) by (simp add: store_inv_def)
  define off where "off = ob_streamOffset ob"
  define e where "e = saturatedAdd off (of_nat (length (ob_bytes ob)))"
  define nxt where "nxt = cb_nextOutputStreamOffset b"
  define overlap where "overlap = (if off < nxt then unat (nxt - off) else 0)"
  define bs where "bs = drop overlap (ob_bytes ob)"
  show ?thesis
  proof (cases "cb_state b = Finished \<or> e \<le> nxt")
    case True
    let ?b' = "updateCoverage (b\<lparr>cb_hasInterleavedOutput := cb_hasInterleavedOutput b \<or> ob_interleaved ob\<rparr>)"
    have "store_inv lim T (put_block ?b' st)"
      by (rule put_block_inv [OF assms(1), of _ b])
        (use Some a(3) pair_interleaved in simp_all)
    then show ?thesis using True Some assms(1)
      by (auto simp: store_append_def e_def off_def nxt_def Let_def)
  next
    case False
    let ?o = "saturatedAdd off (of_nat overlap)"
    have asz: "artifact_size a \<le> bl_maxArtifactBytesPerBlock lim" using a(2) by (simp add: pair_inv_def)
    obtain n st1 where r:
      "retainArtifact a ?o bs st = (st1\<lparr>st_artifactBytes := st_artifactBytes st1 + n\<rparr>, artifact_write ?o bs n a)"
      "n \<le> length bs" "artifact_size a + n \<le> bl_maxArtifactBytesPerBlock lim"
      "n > 0 \<Longrightarrow> \<not> merges_last ?o a \<Longrightarrow> length (ar_segments a) < bl_maxArtifactSegmentsPerBlock lim"
      "store_inv lim T st1" "st_blocks st1 = st_blocks st" "st_nextId st1 = st_nextId st"
      "find_artifact (ar_blockId a) st1 = find_artifact (ar_blockId a) st"
      "st_artifactBytes st1 + n \<le> bl_maxArtifactBytesTotal lim"
      using retainArtifact_form [OF assms(1) asz] by metis
    let ?b' = "append_bytes lim ob bs e (append_gap lim ob b)"
    let ?a' = "artifact_write ?o bs n a\<lparr>ar_streamEnd := e\<rparr>"
    have pair: "pair_inv lim T ?b' ?a'"
      using append_pair [OF a(2) assms(2,3), of n, folded off_def nxt_def, folded e_def overlap_def, folded bs_def]
        False r(2-4) by simp
    have sz: "artifact_size ?a' = artifact_size a + n"
      using artifact_write_size [OF r(2), of ?o a] by (simp add: artifact_size_def)
    have "find_block i st1 = Some b" "find_artifact i st1 = Some a"
      using Some a(1,4) r(6,8) by (simp_all add: find_block_def)
    then have "store_inv lim T (put_block ?b' (put_artifact ?a' (st1\<lparr>st_artifactBytes := st_artifactBytes st1 + n\<rparr>)))"
      using put_both_inv [OF r(5), of i b a ?b' ?a' n] a(3,4) pair sz r(9) by simp
    moreover have "fst (store_append i ob st)
        = put_block ?b' (put_artifact ?a' (st1\<lparr>st_artifactBytes := st_artifactBytes st1 + n\<rparr>))"
      using False
      by (simp add: store_append_def Some a(1) lim Let_def r(1) [unfolded bs_def overlap_def off_def nxt_def]
          e_def overlap_def bs_def off_def nxt_def)
    ultimately show ?thesis by simp
  qed
qed

lemma store_finish_inv:
  assumes "store_inv lim T st"
  shows "store_inv lim T (fst (store_finish i x t r st))"
proof (cases "find_block i st")
  case (Some b)
  obtain a where a: "find_artifact i st = Some a" "pair_inv lim T b a" "cb_id b = i" "ar_blockId a = i"
    by (rule store_find [OF assms(1) Some])
  let ?b' = "b\<lparr>cb_state := Finished, cb_exitStatus := x, cb_finishedUtcMs := Some t, cb_completionReason := Some r\<rparr>"
  let ?a' = "a\<lparr>ar_finished := True\<rparr>"
  have "pair_inv lim T ?b' ?a'"
    using pair_finish [OF a(2)] by simp
  moreover have "artifact_size ?a' = artifact_size a + 0" by (simp add: artifact_size_def)
  moreover have "st_artifactBytes st + 0 \<le> bl_maxArtifactBytesTotal lim" using assms by (simp add: store_inv_def)
  moreover have "cb_id ?b' = i" "ar_blockId ?a' = i" using a(3,4) by simp_all
  ultimately have "store_inv lim T (put_block ?b' (put_artifact ?a' (st\<lparr>st_artifactBytes := st_artifactBytes st + 0\<rparr>)))"
    using put_both_inv [OF assms Some a(1)] by blast
  moreover have "st\<lparr>st_artifactBytes := st_artifactBytes st + 0\<rparr> = st" by simp
  moreover have "find_artifact i (put_block ?b' st) = Some a" using a(1) by (simp add: find_artifact_def put_block_def)
  ultimately show ?thesis using Some assms
    by (simp add: store_finish_def put_block_artifact_comm)
qed (use assms in \<open>simp add: store_finish_def\<close>)

lemma store_mark_inv:
  assumes "store_inv lim T st"
  shows "store_inv lim T (fst (store_markOutputUnknown i st))"
proof (cases "find_block i st")
  case (Some b)
  then have "cb_id b = i" using find_Some_in by (fastforce simp: find_block_def)
  then have "store_inv lim T (put_block (updateCoverage (b\<lparr>cb_outputCoverageUncertain := True\<rparr>)) st)"
    by (intro put_block_inv [OF assms, of _ b])
      (use Some pair_uncertain in simp_all)
  then show ?thesis using Some by (simp add: store_markOutputUnknown_def)
qed (use assms in \<open>simp add: store_markOutputUnknown_def\<close>)

lemma evict_inv:
  assumes "store_inv lim T st"
  shows "store_inv lim T (fst (evictOldestFinished st))"
proof (cases "find (\<lambda>b. cb_state b = Finished) (st_blocks st)")
  case (Some b)
  have dist: "distinct (map cb_id (st_blocks st))" using assms by (simp add: store_inv_def)
  have "find_block (cb_id b) st = Some b"
    using find_by_key [OF dist, of b] find_Some_in [OF Some] by (simp add: find_block_def)
  then obtain a where a: "find_artifact (cb_id b) st = Some a" by (rule store_find [OF assms])
  have blocks: "erase_first (\<lambda>x. cb_state x = Finished) (st_blocks st)
      = erase_first (\<lambda>x. cb_id x = cb_id b) (st_blocks st)"
    by (rule erase_by_key [OF dist Some])
  have "list_all2 (pair_inv lim T) (erase_first (\<lambda>x. cb_id x = cb_id b) (st_blocks st))
      (erase_first (\<lambda>x. ar_blockId x = cb_id b) (st_artifacts st))"
    by (rule list_all2_erase) (use assms in \<open>auto simp: store_inv_def pair_inv_def\<close>)
  moreover have "sum_list (map artifact_size (erase_first (\<lambda>x. ar_blockId x = cb_id b) (st_artifacts st)))
      = sum_list (map artifact_size (st_artifacts st)) - artifact_size a"
    using sum_erase_first [of "\<lambda>x. ar_blockId x = cb_id b" "st_artifacts st" a artifact_size] a
    by (simp add: find_artifact_def)
  moreover have "length (erase_first (\<lambda>x. cb_id x = cb_id b) (st_blocks st)) \<le> length (st_blocks st)"
    by (simp add: length_erase_first)
  moreover have "\<forall>x \<in> set (erase_first (\<lambda>x. cb_id x = cb_id b) (st_blocks st)). cb_id x < st_nextId st"
    using set_erase_first [of "\<lambda>x. cb_id x = cb_id b" "st_blocks st"] assms by (auto simp: store_inv_def)
  ultimately show ?thesis using assms Some a distinct_erase_first [OF dist]
    by (auto simp: evictOldestFinished_def eraseArtifact_def blocks store_inv_def min_def)
qed (use assms in \<open>simp add: evictOldestFinished_def\<close>)

lemma evict_until_room_inv:
  assumes "store_inv lim T st"
  shows "store_inv lim T (fst (evict_until_room st))
    \<and> (snd (evict_until_room st) \<longrightarrow> length (st_blocks (fst (evict_until_room st))) < bl_maxBlocks lim)"
  using assms
proof (induction st rule: evict_until_room.induct)
  case (1 st)
  then show ?case using evict_inv [OF "1.prems"]
    by (subst (1 2 3) evict_until_room.simps) (auto simp: store_inv_def)
qed

lemma new_pair:
  assumes "limits_normal lim" "\<And>s. T = Some s \<Longrightarrow> unat (bs_outputStreamOffset start) \<le> length s"
  shows "pair_inv lim T (block_new i start) (artifact_new i start)"
proof -
  have "views lim (block_new i start) []" by (simp add: views_def block_new_def bounded_view_def)
  moreover have "block_true s (block_new i start) []" if "T = Some s" for s
    using assms(2) [OF that] by (simp add: block_true_def block_new_def)
  ultimately show ?thesis
    by (auto simp: pair_inv_def block_new_def artifact_new_def artifact_size_def coverage_of_def
        artifact_true_def segments_true_def covers_def)
qed

lemma store_begin_inv:
  assumes "store_inv lim T st" "limits_normal lim"
    "\<And>s. T = Some s \<Longrightarrow> unat (bs_outputStreamOffset start) \<le> length s"
  shows "store_inv lim T (fst (store_begin start st))"
proof -
  obtain st' ok where e: "evict_until_room st = (st', ok)" by fastforce
  have inv: "store_inv lim T st'" "ok \<Longrightarrow> length (st_blocks st') < bl_maxBlocks lim"
    using evict_until_room_inv [OF assms(1)] e by auto
  show ?thesis
  proof (cases ok)
    case True
    have new: "cb_id (block_new i start) = i" "artifact_size (artifact_new i start) = 0" for i
      by (simp_all add: block_new_def artifact_new_def artifact_size_def)
    have "pair_inv lim T (block_new i start) (artifact_new i start)" for i
      by (rule new_pair) (use assms in simp_all)
    then show ?thesis using inv e True
      by (auto simp: store_begin_def store_inv_def list_all2_appendI new less_Suc_eq)
  qed (use inv e in \<open>simp add: store_begin_def\<close>)
qed

lemma store_step_inv:
  assumes "limits_normal lim" "store_inv lim T st" "op_ok T x"
  shows "store_inv lim T (fst (store_step st x))"
  using assms
  by (cases x) (auto simp: store_begin_inv store_append_inv store_finish_inv store_mark_inv,
      simp add: store_inv_def store_clear_def)

lemma store_new_inv:
  assumes "bl_maxOutputBytesPerBlock limits < 2 ^ 63"
  shows "limits_normal (st_limits (store_new limits))
    \<and> store_inv (st_limits (store_new limits)) T (store_new limits)"
  using assms by (simp add: store_new_def store_inv_def limits_normal_def limits_ok_def less_max_iff_disj Let_def)

interpretation store_machine: guarded_machine store_step "op_ok T" "\<lambda>st. limits_normal lim \<and> store_inv lim T st"
  by unfold_locales (simp add: store_step_inv)

lemma store_run_inv:
  assumes "bl_maxOutputBytesPerBlock limits < 2 ^ 63" "list_all (op_ok T) ops"
  shows "store_inv (st_limits (store_new limits)) T (run_ops store_step (store_new limits) ops)"
  using store_machine.guarded_run [OF store_new_inv [OF assms(1)] assms(2)] by simp

lemma pair_of:
  assumes "store_inv lim T st" "find_block i st = Some b"
  shows "\<exists>a. find_artifact i st = Some a \<and> pair_inv lim T b a"
  by (rule store_find [OF assms]) auto

lemma pair_of_mem:
  assumes "store_inv lim T st" "b \<in> set (st_blocks st)"
  shows "\<exists>a. pair_inv lim T b a"
  using assms by (auto simp: store_inv_def list_all2_conv_all_nth in_set_conv_nth)

lemma artifact_of_mem:
  assumes "store_inv lim T st" "a \<in> set (st_artifacts st)"
  shows "\<exists>b. pair_inv lim T b a"
  using assms by (auto simp: store_inv_def list_all2_conv_all_nth in_set_conv_nth)

lemma views_length:
  assumes "limits_ok lim" "views lim b out"
  shows "length (cb_retainedOutput b) \<le> bl_maxOutputBytesPerBlock lim"
  using assms length_bounded_view by (simp add: views_def limits_ok_def)

section \<open>Pages\<close>

lemma utf8_loop:
  "n \<le> length bs \<Longrightarrow> utf8Prefix_loop bs n \<le> n
    \<and> (utf8Prefix_loop bs n < length bs \<longrightarrow> utf8Prefix_loop bs n = 0 \<or> \<not> is_continuation (bs ! utf8Prefix_loop bs n))"
  by (induction n) auto

lemma utf8Prefix_bounds:
  "utf8Prefix bs k \<le> length bs" "utf8Prefix bs k \<le> k"
  "utf8Prefix bs k < length bs \<Longrightarrow> utf8Prefix bs k \<noteq> 0 \<Longrightarrow> \<not> is_continuation (bs ! utf8Prefix bs k)"
  using utf8_loop [of "min (length bs) k" bs] by (auto simp: utf8Prefix_def)

lemma find_segment_split:
  assumes "find_segment c gs = Some (g, gs')"
  shows "\<exists>pre. gs = pre @ g # gs' \<and> c < saturatedAdd (sg_streamOffset g) (of_nat (length (sg_bytes g)))"
  using assms
proof (induction gs)
  case (Cons x xs)
  then show ?case by (fastforce split: if_splits intro: exI [of _ "x # _"] exI [of _ "[]"])
qed simp

lemma empty_page_fields [simp]:
  "pg_streamStart (empty_page i after c b a) = ar_streamStart a"
  "pg_streamEnd (empty_page i after c b a) = ar_streamEnd a"
  "pg_artifactComplete (empty_page i after c b a) = artifact_complete b a"
  "pg_output (empty_page i after c b a) = []" "pg_nextCursor (empty_page i after c b a) = c"
  "pg_skippedBytes (empty_page i after c b a) = 0" "\<not> pg_pageTruncated (empty_page i after c b a)"
  by (simp_all add: empty_page_def)

lemma emit_page_true:
  assumes segs: "segments_true s lo (unat (ar_streamEnd a)) (ar_segments a)"
    and "unat (ar_streamEnd a) \<le> length s" "length s < 2 ^ 63"
    and "cursor < ar_streamEnd a" "lo \<le> unat cursor"
    and "emit_page k cursor a p = Inr q"
  shows "unat (pg_nextCursor q) = unat cursor + unat (pg_skippedBytes q) + length (pg_output q)
    \<and> pg_output q = slice s (unat cursor + unat (pg_skippedBytes q)) (unat (pg_nextCursor q))
    \<and> unat (pg_nextCursor q) \<le> unat (ar_streamEnd a)
    \<and> pg_output q \<noteq> [] \<and> length (pg_output q) \<le> k
    \<and> (pg_pageTruncated q \<longrightarrow> \<not> is_continuation (s ! unat (pg_nextCursor q)))
    \<and> (covers lo (unat (ar_streamEnd a)) (ar_segments a) \<longrightarrow> pg_skippedBytes q = 0)
    \<and> pg_streamHasMore q = (pg_nextCursor q < ar_streamEnd a)
    \<and> pg_streamEnd q = pg_streamEnd p \<and> pg_artifactComplete q = pg_artifactComplete p"
proof -
  obtain g gs' where find: "find_segment cursor (ar_segments a) = Some (g, gs')"
    using assms(6) by (auto simp: emit_page_def artifact_error_def split: option.splits)
  then obtain pre where pre: "ar_segments a = pre @ g # gs'"
    and below: "cursor < saturatedAdd (sg_streamOffset g) (of_nat (length (sg_bytes g)))"
    using find_segment_split by blast
  have g: "lo \<le> unat (sg_streamOffset g)" "segment_end g \<le> unat (ar_streamEnd a)"
    "sg_bytes g = slice s (unat (sg_streamOffset g)) (segment_end g)"
    using segs pre by (auto simp: segments_true_def)
  have "segment_end g < 2 ^ 63" using g(2) assms(2,3) by simp
  then have gend: "unat cursor < segment_end g" using below segment_word_end by (simp add: word_less_nat_alt)
  define sc where "sc = max cursor (sg_streamOffset g)"
  have sc: "unat sc = max (unat cursor) (unat (sg_streamOffset g))"
    by (auto simp: sc_def max_def word_le_nat_alt)
  define av where "av = drop (unat (sc - sg_streamOffset g)) (sg_bytes g)"
  have "sg_streamOffset g \<le> sc" by (simp add: sc_def)
  then have off: "unat (sc - sg_streamOffset g) = unat sc - unat (sg_streamOffset g)" by (simp add: unat_sub word_le_nat_alt)
  have end_g: "segment_end g = unat (sg_streamOffset g) + length (sg_bytes g)" by (simp add: segment_end_def)
  have "unat (sg_streamOffset g) + (unat sc - unat (sg_streamOffset g)) = unat sc" using sc by simp
  then have av: "av = slice s (unat sc) (segment_end g)"
    using arg_cong [OF g(3), of "drop (unat sc - unat (sg_streamOffset g))"] by (simp add: av_def off drop_slice)
  have avlen: "length av = segment_end g - unat sc" using end_g off sc by (simp add: av_def max_def)
  define n where "n = utf8Prefix av k"
  have n: "n \<le> length av" "n \<le> k" "n < length av \<Longrightarrow> n \<noteq> 0 \<Longrightarrow> \<not> is_continuation (av ! n)"
    using utf8Prefix_bounds [of av k] by (auto simp: n_def)
  have "sg_bytes g \<noteq> []" using segs pre by (auto simp: segments_true_def)
  then have avne: "av \<noteq> []" using avlen gend end_g sc by (auto simp: max_def split: if_splits)
  note em = assms(6) [unfolded emit_page_def find option.case prod.case Let_def artifact_error_def,
      folded sc_def, folded av_def, folded n_def]
  have q: "\<not> (n = 0 \<and> av \<noteq> [])" "q = p\<lparr>pg_skippedBytes := sc - cursor, pg_output := take n av,
      pg_nextCursor := saturatedAdd sc (of_nat n), pg_pageTruncated := n < length av,
      pg_readableMore := n < length av \<or> gs' \<noteq> [],
      pg_streamHasMore := saturatedAdd sc (of_nat n) < ar_streamEnd a\<rparr>"
    using em by (auto split: if_splits)
  have le: "unat sc + n \<le> segment_end g" using n(1) avlen avne by (cases "unat sc \<le> segment_end g") auto
  then have "unat sc + n < 2 ^ 63" using \<open>segment_end g < 2 ^ 63\<close> by simp
  then have next_c: "unat (saturatedAdd sc (of_nat n)) = unat sc + n"
    by (simp add: unat_saturatedAdd unat_size)
  have "cursor \<le> sc" by (simp add: sc_def)
  then have skip: "unat cursor + unat (sc - cursor) = unat sc" by (simp add: unat_sub word_le_nat_alt)
  have out: "take n av = slice s (unat sc) (unat sc + n)" using le by (simp add: av take_slice)
  have trunc: "\<not> is_continuation (s ! (unat sc + n))" if "n < length av"
  proof -
    have "av ! n = s ! (unat sc + n)"
      using that le assms(2) g(2) by (simp add: av slice_def)
    then show ?thesis using n(3) [OF that] q(1) avne by auto
  qed
  have "sc = cursor" if "covers lo (unat (ar_streamEnd a)) (ar_segments a)"
  proof -
    have "unat (sg_streamOffset g) = lo" using that pre by (auto simp: covers_def append_eq_Cons_conv)
    then show ?thesis using assms(5) by (auto simp: sc_def word_le_nat_alt max_def word_unat_eq_iff)
  qed
  moreover have "length (slice s (unat sc) (unat sc + n)) = n"
    using le g(2) assms(2) by (simp add: length_slice)
  ultimately show ?thesis using q n(1,2) avne next_c skip out trunc le g(2) by auto
qed

lemma stored_artifact:
  assumes "store_inv lim (Some s) st" "find_block i st = Some b" "find_artifact i st = Some a"
  shows "unat (ar_streamEnd a) \<le> length s"
    "segments_true s (unat (ar_streamStart a)) (unat (ar_streamEnd a)) (ar_segments a)"
    "artifact_complete b a \<Longrightarrow> covers (unat (ar_streamStart a)) (unat (ar_streamEnd a)) (ar_segments a)"
proof -
  have p: "pair_inv lim (Some s) b a" using pair_of [OF assms(1,2)] assms(3) by auto
  then obtain out where "block_true s b out" by (auto simp: pair_inv_def)
  then show "unat (ar_streamEnd a) \<le> length s" using p by (simp add: pair_inv_def block_true_def)
  show "segments_true s (unat (ar_streamStart a)) (unat (ar_streamEnd a)) (ar_segments a)"
    "artifact_complete b a \<Longrightarrow> covers (unat (ar_streamStart a)) (unat (ar_streamEnd a)) (ar_segments a)"
    using p by (auto simp: pair_inv_def artifact_true_def artifact_complete_def)
qed

lemma read_page_true:
  assumes inv: "store_inv lim (Some s) st" and small: "length s < 2 ^ 63"
    and page: "readOutputArtifact i afterCursor maximumBytes st = Inr page"
  shows "let cursor = (if afterCursor = 0 then pg_streamStart page else afterCursor) in
    unat (pg_nextCursor page) = unat cursor + unat (pg_skippedBytes page) + length (pg_output page)
    \<and> pg_output page = slice s (unat cursor + unat (pg_skippedBytes page)) (unat (pg_nextCursor page))
    \<and> pg_nextCursor page \<le> pg_streamEnd page \<and> length (pg_output page) \<le> maximumBytes
    \<and> (pg_output page = []) = (cursor = pg_streamEnd page)
    \<and> pg_streamHasMore page = (pg_nextCursor page < pg_streamEnd page)
    \<and> (pg_pageTruncated page \<longrightarrow> \<not> is_continuation (s ! unat (pg_nextCursor page)))
    \<and> (pg_artifactComplete page \<longrightarrow> pg_skippedBytes page = 0)"
proof -
  obtain b a where b: "find_block i st = Some b" and a: "find_artifact i st = Some a"
    using page by (auto simp: readOutputArtifact_def artifact_error_def split: option.splits)
  note art = stored_artifact [OF inv b a]
  define cursor where "cursor = (if afterCursor = 0 then pg_streamStart page else afterCursor)"
  define c where "c = (if afterCursor = 0 then ar_streamStart a else afterCursor)"
  note read = page [unfolded readOutputArtifact_def b a prod.case option.case Let_def artifact_error_def,
      folded c_def]
  have c: "ar_streamStart a \<le> c" "c \<le> ar_streamEnd a"
    using read by (auto split: if_splits)
  let ?pg = "empty_page i afterCursor c b a"
  have "unat (pg_nextCursor page) = unat cursor + unat (pg_skippedBytes page) + length (pg_output page)
    \<and> pg_output page = slice s (unat cursor + unat (pg_skippedBytes page)) (unat (pg_nextCursor page))
    \<and> pg_nextCursor page \<le> pg_streamEnd page \<and> length (pg_output page) \<le> maximumBytes
    \<and> (pg_output page = []) = (cursor = pg_streamEnd page)
    \<and> pg_streamHasMore page = (pg_nextCursor page < pg_streamEnd page)
    \<and> (pg_pageTruncated page \<longrightarrow> \<not> is_continuation (s ! unat (pg_nextCursor page)))
    \<and> (pg_artifactComplete page \<longrightarrow> pg_skippedBytes page = 0)"
  proof (cases "c = ar_streamEnd a")
    case True
    then have page: "page = ?pg\<lparr>pg_streamHasMore := False\<rparr>" using read c by (simp split: if_splits)
    then have "cursor = c" by (simp add: cursor_def c_def)
    then show ?thesis using True page by simp
  next
    case False
    then have emit: "emit_page maximumBytes c a ?pg = Inr page"
      using read c by (simp split: if_splits)
    then have "pg_streamStart page = pg_streamStart ?pg"
      by (auto simp: emit_page_def artifact_error_def Let_def split: option.splits if_splits)
    then have cur: "cursor = c" by (simp add: cursor_def c_def)
    have lt: "c < ar_streamEnd a" using c False by simp
    have "unat (ar_streamStart a) \<le> unat c" using c(1) by (simp add: word_le_nat_alt)
    note t = emit_page_true [OF art(2,1) small lt this emit]
    have stream: "pg_streamEnd page = ar_streamEnd a" "pg_artifactComplete page = artifact_complete b a"
      using t by simp_all
    have "pg_nextCursor page \<le> ar_streamEnd a" using t unfolding word_le_nat_alt by blast
    moreover have "(pg_output page = []) = (c = ar_streamEnd a)" using t False by blast
    moreover have "artifact_complete b a \<longrightarrow> pg_skippedBytes page = 0" using t art(3) by blast
    ultimately show ?thesis unfolding cur stream using t by blast
  qed
  then show ?thesis unfolding Let_def cursor_def .
qed

section \<open>Properties\<close>

text \<open>Memory is bounded: whatever blocks are begun, fed, finished and cleared, the store holds at
  most \<open>maxBlocks\<close> blocks, with distinct identifiers, of each block at most
  \<open>maxOutputBytesPerBlock\<close> bytes and \<open>maxGapRangesPerBlock\<close> gaps and of each artifact at most
  \<open>maxArtifactBytesPerBlock\<close> bytes in \<open>maxArtifactSegmentsPerBlock\<close> pieces; \<open>m_artifactBytes\<close> is
  exactly the sum of all artifact bytes and stays within \<open>maxArtifactBytesTotal\<close>.\<close>

theorem command_store_bounded:
  fixes limits ops
  defines "st \<equiv> run_ops store_step (store_new limits) ops" and "lim \<equiv> st_limits (store_new limits)"
  assumes "bl_maxOutputBytesPerBlock limits < 2 ^ 63" "list_all (op_ok None) ops"
  shows "length (st_blocks st) \<le> bl_maxBlocks lim \<and> distinct (map cb_id (st_blocks st))
    \<and> (\<forall>b \<in> set (st_blocks st). length (cb_retainedOutput b) \<le> bl_maxOutputBytesPerBlock lim
        \<and> length (cb_outputGaps b) \<le> bl_maxGapRangesPerBlock lim)
    \<and> (\<forall>a \<in> set (st_artifacts st). artifact_size a \<le> bl_maxArtifactBytesPerBlock lim
        \<and> length (ar_segments a) \<le> bl_maxArtifactSegmentsPerBlock lim)
    \<and> st_artifactBytes st = sum_list (map artifact_size (st_artifacts st))
    \<and> st_artifactBytes st \<le> bl_maxArtifactBytesTotal lim"
proof -
  have inv: "store_inv lim None st" unfolding st_def lim_def by (rule store_run_inv [OF assms(3,4)])
  have lim: "limits_ok lim" using store_new_inv [OF assms(3)] by (simp add: lim_def limits_normal_def)
  have "length (cb_retainedOutput b) \<le> bl_maxOutputBytesPerBlock lim
      \<and> length (cb_outputGaps b) \<le> bl_maxGapRangesPerBlock lim" if "b \<in> set (st_blocks st)" for b
    using pair_of_mem [OF inv that] views_length [OF lim] by (auto simp: pair_inv_def)
  moreover have "artifact_size a \<le> bl_maxArtifactBytesPerBlock lim
      \<and> length (ar_segments a) \<le> bl_maxArtifactSegmentsPerBlock lim" if "a \<in> set (st_artifacts st)" for a
    using artifact_of_mem [OF inv that] by (auto simp: pair_inv_def)
  ultimately show ?thesis using inv by (auto simp: store_inv_def)
qed

definition sample_start :: "u64 \<Rightarrow> CommandBlockStart" where
  "sample_start off = \<lparr>bs_command = ''ls'', bs_workingDirectory = ''/'', bs_sessionId = ''s'', bs_host = ''h'',
     bs_shell = ''bash'', bs_sessionGeneration = 1, bs_capability = Rich, bs_commandProvenance = Osc133,
     bs_boundaryConfidence = Exact, bs_startedUtcMs = 0, bs_outputStreamOffset = off\<rparr>"

lemma command_store_bounded_witness:
  "length (st_blocks (run_ops store_step (store_new default_block_limits)
     [BeginBlock (sample_start 0), AppendOutput 1 \<lparr>ob_bytes = [65, 66], ob_streamOffset = 0, ob_interleaved = False\<rparr>]))
   \<le> bl_maxBlocks (st_limits (store_new default_block_limits))"
  by (rule command_store_bounded [THEN conjunct1]) (simp_all add: default_block_limits_def observation_ok_def)

text \<open>C17. A store that observes a terminal stream \<open>s\<close> (blocks begin inside it, observations are pieces
  of it, in any order, overlapping, repeated or with holes) tells the truth about a block's output.
  If no gap was recorded, the block retains of the stream between its first and its next offset the
  whole, or, when that is more than \<open>maxOutputBytesPerBlock\<close>, exactly the first
  \<open>retainedHeadBytes\<close> and the last bytes that fill the capacity; and when the block says that its
  coverage is complete it retains all of it.\<close>

theorem command_output_truthful:
  fixes limits ops
  defines "st \<equiv> run_ops store_step (store_new limits) ops" and "lim \<equiv> st_limits (store_new limits)"
  assumes "bl_maxOutputBytesPerBlock limits < 2 ^ 63" "list_all (op_ok (Some s)) ops"
    and "find_block i st = Some b"
  defines "output \<equiv> slice s (unat (cb_firstOutputStreamOffset b)) (unat (cb_nextOutputStreamOffset b))"
  shows "(cb_missingOutputBytes b = 0 \<longrightarrow>
      cb_retainedOutput b = bounded_view (bl_maxOutputBytesPerBlock lim) (bl_retainedHeadBytes lim) output)
    \<and> (hasCompleteOutput b \<longrightarrow> cb_retainedOutput b = output)"
proof -
  have inv: "store_inv lim (Some s) st" unfolding st_def lim_def by (rule store_run_inv [OF assms(3,4)])
  have lim: "limits_ok lim" using store_new_inv [OF assms(3)] by (simp add: lim_def limits_normal_def)
  obtain a out where p: "pair_inv lim (Some s) b a" "views lim b out" "block_true s b out"
    using pair_of [OF inv assms(5)] by (auto simp: pair_inv_def)
  have out: "cb_missingOutputBytes b = 0 \<Longrightarrow> out = output" using p(3) by (simp add: block_true_def output_def)
  have "cb_retainedOutput b = output" if "hasCompleteOutput b"
  proof -
    have "coverage_of b = CompleteOutput" using that p(1) by (simp add: hasCompleteOutput_def pair_inv_def)
    then have "cb_missingOutputBytes b = 0" "cb_omittedOutputBytes b = 0"
      by (auto simp: coverage_of_def word_neq_0_conv [symmetric] split: if_splits)
    then show ?thesis using out omitted_zero [OF lim p(2)] p(2) by (simp add: views_def bounded_view_def)
  qed
  then show ?thesis using p(2) out by (simp add: views_def)
qed

definition sample_ops :: "StoreOp list" where
  "sample_ops = [BeginBlock (sample_start 1),
     AppendOutput 1 \<lparr>ob_bytes = [2, 3, 4], ob_streamOffset = 1, ob_interleaved = False\<rparr>]"

definition sample_limits :: CommandBlockStoreLimits where
  "sample_limits = default_block_limits\<lparr>bl_maxOutputBytesPerBlock := 2, bl_retainedHeadBytes := 1\<rparr>"

lemma enough_room:
  "n \<le> artifact_room st \<Longrightarrow> expire_until n active st = st"
  "length (st_blocks st) < bl_maxBlocks (st_limits st) \<Longrightarrow> evict_until_room st = (st, True)"
  by (simp_all add: expire_until.simps evict_until_room.simps)

lemmas store_evaluation = sample_ops_def sample_limits_def sample_start_def default_block_limits_def
  store_new_def store_begin_def enough_room block_new_def artifact_new_def
  store_append_def find_block_def find_artifact_def retainArtifact_def makeArtifactRoom_def
  artifact_room_def artifact_size_def merges_last_def add_retained_def
  put_artifact_def put_block_def append_gap_def append_bytes_def retain_def last_n_def updateCoverage_def
  saturatedAdd_def Let_def

lemma sample_block:
  "\<exists>b. find_block 1 (run_ops store_step (store_new sample_limits) sample_ops) = Some b
    \<and> cb_missingOutputBytes b = 0 \<and> cb_firstOutputStreamOffset b = 1 \<and> cb_nextOutputStreamOffset b = 4"
  by (simp add: store_evaluation word_le_nat_alt word_less_nat_alt)

lemma sample_ops_ok: "list_all (op_ok (Some [1, 2, 3, 4, 5])) sample_ops"
  by (simp add: sample_ops_def observation_ok_def sample_start_def slice_def)

lemma command_output_truthful_witness:
  "\<exists>b. find_block 1 (run_ops store_step (store_new sample_limits) sample_ops) = Some b
    \<and> cb_retainedOutput b = [2, 4]"
proof -
  obtain b where b: "find_block 1 (run_ops store_step (store_new sample_limits) sample_ops) = Some b"
    "cb_missingOutputBytes b = 0" "cb_firstOutputStreamOffset b = 1" "cb_nextOutputStreamOffset b = 4"
    using sample_block by auto
  have "bl_maxOutputBytesPerBlock sample_limits < 2 ^ 63" by (simp add: sample_limits_def)
  from command_output_truthful [OF this sample_ops_ok b(1)] b show ?thesis
    by (simp add: sample_limits_def store_new_def bounded_view_def slice_def Let_def)
qed

text \<open>Reading an artifact of such a store page by page returns the stream: the page that
  \<open>readOutputArtifact\<close> returns for a cursor holds exactly the bytes of the stream from the cursor
  plus \<open>skippedBytes\<close> up to \<open>nextCursor\<close>, at most \<open>maximumBytes\<close> of them and never more than was
  observed; before the end of the stream it makes progress; a truncated page does not end inside a
  UTF-8 sequence; and an artifact that says it is complete never skips a byte.\<close>

theorem command_page_truthful:
  fixes limits ops
  defines "st \<equiv> run_ops store_step (store_new limits) ops"
  assumes "bl_maxOutputBytesPerBlock limits < 2 ^ 63" "list_all (op_ok (Some s)) ops" "length s < 2 ^ 63"
    and "readOutputArtifact i afterCursor maximumBytes st = Inr page"
  defines "cursor \<equiv> (if afterCursor = 0 then pg_streamStart page else afterCursor)"
  shows "unat (pg_nextCursor page) = unat cursor + unat (pg_skippedBytes page) + length (pg_output page)
    \<and> pg_output page = slice s (unat cursor + unat (pg_skippedBytes page)) (unat (pg_nextCursor page))
    \<and> pg_nextCursor page \<le> pg_streamEnd page \<and> length (pg_output page) \<le> maximumBytes
    \<and> (pg_output page = []) = (cursor = pg_streamEnd page)
    \<and> pg_streamHasMore page = (pg_nextCursor page < pg_streamEnd page)
    \<and> (pg_pageTruncated page \<longrightarrow> \<not> is_continuation (s ! unat (pg_nextCursor page)))
    \<and> (pg_artifactComplete page \<longrightarrow> pg_skippedBytes page = 0)"
  unfolding cursor_def by (rule read_page_true [OF store_run_inv [OF assms(2,3)] assms(4) assms(5) [unfolded st_def], unfolded Let_def])

lemma command_page_truthful_witness:
  "\<exists>page. readOutputArtifact 1 0 2 (run_ops store_step (store_new sample_limits) sample_ops) = Inr page
    \<and> pg_nextCursor page \<le> pg_streamEnd page"
proof -
  have utf8: "utf8Prefix [2, 3, 4] 2 = 2" by code_simp
  have "\<exists>page. readOutputArtifact 1 0 2 (run_ops store_step (store_new sample_limits) sample_ops) = Inr page"
    by (simp add: store_evaluation readOutputArtifact_def emit_page_def utf8
        artifact_error_def empty_page_def word_le_nat_alt word_less_nat_alt)
  then obtain page where page:
    "readOutputArtifact 1 0 2 (run_ops store_step (store_new sample_limits) sample_ops) = Inr page" by blast
  have "bl_maxOutputBytesPerBlock sample_limits < 2 ^ 63" by (simp add: sample_limits_def)
  from command_page_truthful [OF this sample_ops_ok _ page] page show ?thesis by simp
qed

end
