(* ===== verification/Shell_Decoder.thy ===== *)
theory Shell_Decoder
  imports Prelude
begin

text \<open>
  The shell integration decoder: \<open>src/domain/terminal/ShellIntegrationDecoder\<close>.  It separates the
  bytes a shell sends into output and the OSC 133, 633 and 1337 sequences that mark prompts,
  commands and directories.  The decoder is a machine with one step per byte (\<open>decode_byte\<close>); a call
  of \<open>append\<close> runs it over a chunk and collects events, in which neighbouring output bytes are one
  event.  Stream offsets are 64-bit words.
\<close>

section \<open>Types\<close>

datatype ShellIntegrationProtocol = NoProtocol | Osc133Protocol | Osc633Protocol | Osc1337Protocol

datatype ShellIntegrationEventType =
    Output
  | PromptStart
  | CommandStart
  | CommandExecuted
  | CommandFinished
  | ExplicitCommand
  | WorkingDirectory
  | RichCapabilityClaim
  | DecoderError

record ShellIntegrationEvent =
  se_type :: ShellIntegrationEventType
  se_protocol :: ShellIntegrationProtocol
  se_outputStreamOffset :: u64
  se_rawStreamOffset :: u64
  se_output :: "byte list"
  se_value :: string
  se_exitStatus :: "int option"
  se_nonceVerified :: bool

datatype DecoderState = Normal | Escape | Osc | OscEscape

record ShellIntegrationDecoder =
  sd_expectedNonce :: string
  sd_maxOscPayloadBytes :: nat
  sd_state :: DecoderState
  sd_oscPayload :: string
  sd_rawStreamOffset :: u64
  sd_outputStreamOffset :: u64
  sd_pendingEscapeRawOffset :: u64
  sd_oscRawOffset :: u64
  sd_oscOverflow :: bool

definition default_maxOscPayloadBytes :: nat where
  "default_maxOscPayloadBytes = 16 * 1024"

definition decoder_new :: "string \<Rightarrow> nat \<Rightarrow> ShellIntegrationDecoder" where
  "decoder_new expectedNonce maxOscPayloadBytes =
     \<lparr>sd_expectedNonce = expectedNonce, sd_maxOscPayloadBytes = max 1 maxOscPayloadBytes,
      sd_state = Normal, sd_oscPayload = [], sd_rawStreamOffset = 0, sd_outputStreamOffset = 0,
      sd_pendingEscapeRawOffset = 0, sd_oscRawOffset = 0, sd_oscOverflow = False\<rparr>"

abbreviation escapeByte :: byte where "escapeByte \<equiv> 0x1b"
abbreviation bellByte :: byte where "bellByte \<equiv> 0x07"

abbreviation backslash :: char where "backslash \<equiv> CHR 0x5C"

section \<open>Values inside a sequence\<close>

text \<open>\<open>std::from_chars\<close> for an \<open>int\<close>: an optional minus sign, digits, no overflow.\<close>

definition parseInteger :: "string \<Rightarrow> int option" where
  "parseInteger value =
     (let negative = (value \<noteq> [] \<and> hd value = CHR ''-'');
          digits = (if negative then tl value else value);
          parsed = (if negative then - int (digits_value digits) else int (digits_value digits))
      in if digits \<noteq> [] \<and> list_all is_digit digits \<and> - (2 ^ 31) \<le> parsed \<and> parsed < 2 ^ 31
         then Some parsed else None)"

definition nibble :: "char \<Rightarrow> nat option" where
  "nibble c =
     (let n = of_char c :: nat in
      if 48 \<le> n \<and> n \<le> 57 then Some (n - 48)
      else if 97 \<le> n \<and> n \<le> 102 then Some (n - 97 + 10)
      else if 65 \<le> n \<and> n \<le> 70 then Some (n - 65 + 10)
      else None)"

definition hexByte :: "char \<Rightarrow> char \<Rightarrow> char option" where
  "hexByte high low =
     (case (nibble high, nibble low) of
        (Some left, Some right) \<Rightarrow> Some (char_of (left * 16 + right))
      | _ \<Rightarrow> None)"

fun decodeCommandLine :: "string \<Rightarrow> string option" where
  "decodeCommandLine [] = Some []"
| "decodeCommandLine (c # cs) =
     (if c \<noteq> backslash then map_option ((#) c) (decodeCommandLine cs)
      else (case cs of
          [] \<Rightarrow> None
        | d # ds \<Rightarrow>
            (if d = backslash then map_option ((#) backslash) (decodeCommandLine ds)
             else if d \<noteq> CHR ''x'' then None
             else (case ds of
                 high # low # rest \<Rightarrow>
                   (case hexByte high low of
                      None \<Rightarrow> None
                    | Some b \<Rightarrow> map_option ((#) b) (decodeCommandLine rest))
               | _ \<Rightarrow> None))))"

section \<open>Events\<close>

definition sd_event ::
  "ShellIntegrationEventType \<Rightarrow> ShellIntegrationProtocol \<Rightarrow> u64 \<Rightarrow> u64 \<Rightarrow> ShellIntegrationEvent" where
  "sd_event type protocol outputOffset rawOffset =
     \<lparr>se_type = type, se_protocol = protocol, se_outputStreamOffset = outputOffset,
      se_rawStreamOffset = rawOffset, se_output = [], se_value = [], se_exitStatus = None,
      se_nonceVerified = False\<rparr>"

definition emitOutputByte ::
  "byte \<Rightarrow> u64 \<Rightarrow> ShellIntegrationDecoder \<times> ShellIntegrationEvent list
    \<Rightarrow> ShellIntegrationDecoder \<times> ShellIntegrationEvent list" where
  "emitOutputByte value rawOffset de = (case de of (d, events) \<Rightarrow>
     (d\<lparr>sd_outputStreamOffset := sd_outputStreamOffset d + 1\<rparr>,
      if events \<noteq> [] \<and> se_type (last events) = Output
         \<and> se_outputStreamOffset (last events) + of_nat (length (se_output (last events)))
             = sd_outputStreamOffset d
      then butlast events @ [(last events)\<lparr>se_output := se_output (last events) @ [value]\<rparr>]
      else events @ [(sd_event Output NoProtocol (sd_outputStreamOffset d) rawOffset)\<lparr>se_output := [value]\<rparr>]))"

text \<open>The body of \<open>parseOsc\<close> after the protocol is known.\<close>

definition parse_body ::
  "ShellIntegrationDecoder \<Rightarrow> ShellIntegrationProtocol \<Rightarrow> string \<Rightarrow> ShellIntegrationEvent list" where
  "parse_body d protocol body =
     (let mark = (\<lambda>type. sd_event type protocol (sd_outputStreamOffset d) (sd_oscRawOffset d)) in
      if body = ''A'' then [mark PromptStart]
      else if body = ''B'' then [mark CommandStart]
      else if body = ''C'' then [mark CommandExecuted]
      else if body = ''D'' \<or> prefix ''D;'' body then
        (if length body > 2 then
           (case parseInteger (drop 2 body) of
              None \<Rightarrow> [(mark DecoderError)\<lparr>se_value := ''invalid-exit-status''\<rparr>]
            | Some n \<Rightarrow> [(mark CommandFinished)\<lparr>se_exitStatus := Some n\<rparr>])
         else [mark CommandFinished])
      else if protocol = Osc633Protocol \<and> prefix ''E;'' body then
        (let encodedAndNonce = drop 2 body;
             encoded = takeWhile (\<lambda>c. c \<noteq> CHR '';'') encodedAndNonce
         in (case decodeCommandLine encoded of
               None \<Rightarrow> [(mark DecoderError)\<lparr>se_value := ''invalid-command-escape''\<rparr>]
             | Some decoded \<Rightarrow>
                 [(mark ExplicitCommand)\<lparr>se_value := decoded,
                    se_nonceVerified := (case dropWhile (\<lambda>c. c \<noteq> CHR '';'') encodedAndNonce of
                        [] \<Rightarrow> False
                      | _ # nonce \<Rightarrow> sd_expectedNonce d \<noteq> [] \<and> nonce = sd_expectedNonce d)\<rparr>]))
      else if protocol = Osc633Protocol \<and> prefix ''P;'' body then
        (let property = drop 2 body in
         if prefix ''Cwd='' property then [(mark WorkingDirectory)\<lparr>se_value := drop 4 property\<rparr>]
         else if property = ''HasRichCommandDetection=True'' then [mark RichCapabilityClaim]
         else [])
      else [])"

definition parseOsc :: "ShellIntegrationDecoder \<Rightarrow> ShellIntegrationEvent list" where
  "parseOsc d =
     (let payload = sd_oscPayload d in
      if prefix ''133;'' payload then parse_body d Osc133Protocol (drop 4 payload)
      else if prefix ''633;'' payload then parse_body d Osc633Protocol (drop 4 payload)
      else if prefix ''1337;CurrentDir='' payload
      then [(sd_event WorkingDirectory Osc1337Protocol (sd_outputStreamOffset d) (sd_oscRawOffset d))
              \<lparr>se_value := drop (length ''1337;CurrentDir='') payload\<rparr>]
      else [])"

definition finishOsc ::
  "ShellIntegrationDecoder \<times> ShellIntegrationEvent list
    \<Rightarrow> ShellIntegrationDecoder \<times> ShellIntegrationEvent list" where
  "finishOsc de = (case de of (d, events) \<Rightarrow>
     (d\<lparr>sd_state := Normal, sd_oscPayload := [], sd_oscOverflow := False\<rparr>,
      events @ (if sd_oscOverflow d
        then [(sd_event DecoderError NoProtocol (sd_outputStreamOffset d) (sd_oscRawOffset d))
                \<lparr>se_value := ''osc-payload-limit''\<rparr>]
        else parseOsc d)))"

definition push_payload :: "byte \<Rightarrow> ShellIntegrationDecoder \<Rightarrow> ShellIntegrationDecoder" where
  "push_payload value d =
     (if length (sd_oscPayload d) < sd_maxOscPayloadBytes d
      then d\<lparr>sd_oscPayload := sd_oscPayload d @ [byte_char value]\<rparr>
      else d\<lparr>sd_oscOverflow := True\<rparr>)"

section \<open>The machine\<close>

definition decode_byte ::
  "byte \<Rightarrow> ShellIntegrationDecoder \<times> ShellIntegrationEvent list
    \<Rightarrow> ShellIntegrationDecoder \<times> ShellIntegrationEvent list" where
  "decode_byte value de = (case de of (d0, events) \<Rightarrow>
     (let rawOffset = sd_rawStreamOffset d0;
          d = d0\<lparr>sd_rawStreamOffset := rawOffset + 1\<rparr>
      in case sd_state d of
        Normal \<Rightarrow>
          (if value = escapeByte
           then (d\<lparr>sd_state := Escape, sd_pendingEscapeRawOffset := rawOffset\<rparr>, events)
           else emitOutputByte value rawOffset (d, events))
      | Escape \<Rightarrow>
          (if byte_char value = CHR '']''
           then (d\<lparr>sd_state := Osc, sd_oscRawOffset := sd_pendingEscapeRawOffset d,
                   sd_oscPayload := [], sd_oscOverflow := False\<rparr>, events)
           else (let (d1, events1) = emitOutputByte escapeByte (sd_pendingEscapeRawOffset d) (d, events) in
             if value = escapeByte then (d1\<lparr>sd_pendingEscapeRawOffset := rawOffset\<rparr>, events1)
             else apfst (\<lambda>d2. d2\<lparr>sd_state := Normal\<rparr>) (emitOutputByte value rawOffset (d1, events1))))
      | Osc \<Rightarrow>
          (if value = bellByte then finishOsc (d, events)
           else if value = escapeByte then (d\<lparr>sd_state := OscEscape\<rparr>, events)
           else (push_payload value d, events))
      | OscEscape \<Rightarrow>
          (if byte_char value = backslash then finishOsc (d, events)
           else (let d1 = push_payload escapeByte d in
             if value = bellByte then finishOsc (d1, events)
             else ((push_payload value d1)\<lparr>sd_state := (if value = escapeByte then OscEscape else Osc)\<rparr>,
                   events)))))"

definition decoder_append ::
  "byte list \<Rightarrow> ShellIntegrationDecoder \<Rightarrow> ShellIntegrationDecoder \<times> ShellIntegrationEvent list" where
  "decoder_append bytes d = foldl (\<lambda>de value. decode_byte value de) (d, []) bytes"

definition decoder_finish ::
  "ShellIntegrationDecoder \<Rightarrow> ShellIntegrationDecoder \<times> ShellIntegrationEvent list" where
  "decoder_finish d =
     (let (d1, events) =
        (case sd_state d of
           Escape \<Rightarrow> emitOutputByte escapeByte (sd_pendingEscapeRawOffset d) (d, [])
         | Normal \<Rightarrow> (d, [])
         | _ \<Rightarrow> (d, [(sd_event DecoderError NoProtocol (sd_outputStreamOffset d) (sd_oscRawOffset d))
                       \<lparr>se_value := ''incomplete-osc''\<rparr>]))
      in (d1\<lparr>sd_state := Normal, sd_oscPayload := [], sd_oscOverflow := False\<rparr>, events))"

section \<open>What a sequence of events says\<close>

text \<open>
  Output bytes with their offsets, and the other events.  How many output bytes share an event
  depends on the chunks, and so does the raw offset an output event carries, which is that of its
  first byte.
\<close>

datatype Observation = OutputByte u64 byte | Marker ShellIntegrationEvent

fun output_bytes :: "u64 \<Rightarrow> byte list \<Rightarrow> Observation list" where
  "output_bytes off [] = []"
| "output_bytes off (b # bs) = OutputByte off b # output_bytes (off + 1) bs"

definition observe_event :: "ShellIntegrationEvent \<Rightarrow> Observation list" where
  "observe_event e =
     (if se_type e = Output then output_bytes (se_outputStreamOffset e) (se_output e) else [Marker e])"

definition observations :: "ShellIntegrationEvent list \<Rightarrow> Observation list" where
  "observations events = concat (map observe_event events)"

definition decoder_feed ::
  "ShellIntegrationDecoder \<Rightarrow> byte list \<Rightarrow> ShellIntegrationDecoder \<times> Observation list" where
  "decoder_feed d bytes = apsnd observations (decoder_append bytes d)"

lemma output_bytes_snoc:
  "output_bytes off (bs @ [b]) = output_bytes off bs @ [OutputByte (off + of_nat (length bs)) b]"
  by (induction bs arbitrary: off) (auto simp: algebra_simps)

lemma observations_append [simp]: "observations (es @ fs) = observations es @ observations fs"
  by (simp add: observations_def)

lemma observations_Nil [simp]: "observations [] = []"
  by (simp add: observations_def)

text \<open>What a byte adds to the observations does not depend on the events before it.\<close>

lemma emit_observations:
  "observations (snd (emitOutputByte v r (d, es))) = observations es @ [OutputByte (sd_outputStreamOffset d) v]"
proof (cases es rule: rev_cases)
  case Nil
  then show ?thesis by (simp add: emitOutputByte_def observations_def observe_event_def sd_event_def)
next
  case (snoc fs e)
  then show ?thesis
    by (auto simp: emitOutputByte_def observations_def observe_event_def sd_event_def output_bytes_snoc)
qed

lemma emit_state [simp]:
  "fst (emitOutputByte v r de) = (fst de)\<lparr>sd_outputStreamOffset := sd_outputStreamOffset (fst de) + 1\<rparr>"
  by (cases de) (simp add: emitOutputByte_def)

definition osc_events :: "ShellIntegrationDecoder \<Rightarrow> ShellIntegrationEvent list" where
  "osc_events d = (if sd_oscOverflow d
     then [(sd_event DecoderError NoProtocol (sd_outputStreamOffset d) (sd_oscRawOffset d))
             \<lparr>se_value := ''osc-payload-limit''\<rparr>]
     else parseOsc d)"

lemma finishOsc_eq: "finishOsc (d, es) =
    (d\<lparr>sd_state := Normal, sd_oscPayload := [], sd_oscOverflow := False\<rparr>, es @ osc_events d)"
  by (simp add: finishOsc_def osc_events_def)

text \<open>The machine state by state.\<close>

definition counted :: "ShellIntegrationDecoder \<Rightarrow> ShellIntegrationDecoder" where
  "counted d = d\<lparr>sd_rawStreamOffset := sd_rawStreamOffset d + 1\<rparr>"

lemma decode_normal:
  "sd_state d = Normal \<Longrightarrow> decode_byte v (d, es) =
     (if v = escapeByte
      then ((counted d)\<lparr>sd_state := Escape, sd_pendingEscapeRawOffset := sd_rawStreamOffset d\<rparr>, es)
      else emitOutputByte v (sd_rawStreamOffset d) (counted d, es))"
  by (simp add: decode_byte_def counted_def Let_def)

lemma decode_escape:
  "sd_state d = Escape \<Longrightarrow> decode_byte v (d, es) =
     (if byte_char v = CHR '']''
      then ((counted d)\<lparr>sd_state := Osc, sd_oscRawOffset := sd_pendingEscapeRawOffset d,
              sd_oscPayload := [], sd_oscOverflow := False\<rparr>, es)
      else (let e1 = emitOutputByte escapeByte (sd_pendingEscapeRawOffset d) (counted d, es) in
        if v = escapeByte then ((fst e1)\<lparr>sd_pendingEscapeRawOffset := sd_rawStreamOffset d\<rparr>, snd e1)
        else apfst (\<lambda>d2. d2\<lparr>sd_state := Normal\<rparr>)
               (emitOutputByte v (sd_rawStreamOffset d) (fst e1, snd e1))))"
  unfolding decode_byte_def counted_def Let_def split_beta by simp

lemma decode_osc:
  "sd_state d = Osc \<Longrightarrow> decode_byte v (d, es) =
     (if v = bellByte then finishOsc (counted d, es)
      else if v = escapeByte then ((counted d)\<lparr>sd_state := OscEscape\<rparr>, es)
      else (push_payload v (counted d), es))"
  by (simp add: decode_byte_def counted_def Let_def)

lemma decode_osc_escape:
  "sd_state d = OscEscape \<Longrightarrow> decode_byte v (d, es) =
     (if byte_char v = backslash then finishOsc (counted d, es)
      else if v = bellByte then finishOsc (push_payload escapeByte (counted d), es)
      else ((push_payload v (push_payload escapeByte (counted d)))
              \<lparr>sd_state := (if v = escapeByte then OscEscape else Osc)\<rparr>, es))"
  by (simp add: decode_byte_def counted_def Let_def)

lemmas decode_cases = decode_normal decode_escape decode_osc decode_osc_escape

lemma decode_byte_observations:
  "observations (snd (decode_byte v (d, es))) = observations es @ observations (snd (decode_byte v (d, [])))"
  "fst (decode_byte v (d, es)) = fst (decode_byte v (d, []))"
  by (cases "sd_state d"; simp add: decode_cases emit_observations finishOsc_eq Let_def; fail)+

lemma decoder_fold:
  "fst (foldl (\<lambda>de v. decode_byte v de) (d, es) bs) = fst (foldl (\<lambda>de v. decode_byte v de) (d, []) bs)
   \<and> observations (snd (foldl (\<lambda>de v. decode_byte v de) (d, es) bs))
     = observations es @ observations (snd (foldl (\<lambda>de v. decode_byte v de) (d, []) bs))"
proof (induction bs arbitrary: d es)
  case (Cons b bs)
  obtain d1 es1 where 1: "decode_byte b (d, es) = (d1, es1)" by fastforce
  obtain d2 es2 where 2: "decode_byte b (d, []) = (d2, es2)" by fastforce
  have same: "d2 = d1" "observations es1 = observations es @ observations es2"
    using decode_byte_observations [of b d es] 1 2 by auto
  show ?case using Cons.IH [of d1 es1] Cons.IH [of d1 es2] 1 2 same by simp
qed simp

lemma feed_Nil [simp]: "decoder_feed d [] = (d, [])"
  by (simp add: decoder_feed_def decoder_append_def)

lemma feed_Cons: "decoder_feed d (b # bs) =
    (case decode_byte b (d, []) of (d', es) \<Rightarrow>
       (case decoder_feed d' bs of (d'', os) \<Rightarrow> (d'', observations es @ os)))"
proof -
  obtain d' es where b: "decode_byte b (d, []) = (d', es)" by fastforce
  show ?thesis using decoder_fold [of d' es bs]
    by (simp add: decoder_feed_def decoder_append_def b apsnd_def map_prod_def split_beta prod_eq_iff)
qed

text \<open>The decoder is an incremental one: the locale's facts say that chunks do not matter.\<close>

interpretation decoder: incremental decoder_feed
proof unfold_locales
  fix d a b
  show "decoder_feed d (a @ b) = (case decoder_feed d a of (d', os) \<Rightarrow>
      (case decoder_feed d' b of (d'', os') \<Rightarrow> (d'', os @ os')))"
    by (induction a arbitrary: d) (auto simp: feed_Cons split: prod.splits)
qed simp

section \<open>Offsets and bounds\<close>

fun output_of :: "Observation list \<Rightarrow> byte list" where
  "output_of [] = []"
| "output_of (OutputByte off b # os) = b # output_of os"
| "output_of (Marker e # os) = output_of os"

text \<open>Every observation carries the number of output bytes before it, counted from \<open>off\<close>.\<close>

fun numbered :: "u64 \<Rightarrow> Observation list \<Rightarrow> bool" where
  "numbered off [] = True"
| "numbered off (OutputByte off' b # os) = (off' = off \<and> numbered (off + 1) os)"
| "numbered off (Marker e # os) = (se_outputStreamOffset e = off \<and> numbered off os)"

lemma output_of_append [simp]: "output_of (os @ os') = output_of os @ output_of os'"
  by (induction os rule: output_of.induct) auto

lemma numbered_append:
  "numbered off (os @ os') = (numbered off os \<and> numbered (off + of_nat (length (output_of os))) os')"
  by (induction os arbitrary: off rule: output_of.induct) (auto simp: algebra_simps)

lemma sd_event_fields [simp]:
  "se_type (sd_event t p off r) = t" "se_outputStreamOffset (sd_event t p off r) = off"
  "se_nonceVerified (sd_event t p off r) = False" "se_protocol (sd_event t p off r) = p"
  by (simp_all add: sd_event_def)

lemma osc_events_marks:
  "\<forall>e \<in> set (osc_events d). se_type e \<noteq> Output \<and> se_outputStreamOffset e = sd_outputStreamOffset d"
  by (auto simp: osc_events_def parseOsc_def parse_body_def Let_def split: if_splits option.splits)

lemma marks_observations:
  "\<forall>e \<in> set es. se_type e \<noteq> Output \<and> se_outputStreamOffset e = off \<Longrightarrow>
    observations es = map Marker es \<and> numbered off (observations es) \<and> output_of (observations es) = []"
  by (induction es) (auto simp: observations_def observe_event_def)

lemma push_payload_frame [simp]:
  "sd_outputStreamOffset (push_payload v d) = sd_outputStreamOffset d"
  "sd_rawStreamOffset (push_payload v d) = sd_rawStreamOffset d"
  "sd_maxOscPayloadBytes (push_payload v d) = sd_maxOscPayloadBytes d"
  "sd_expectedNonce (push_payload v d) = sd_expectedNonce d" "sd_state (push_payload v d) = sd_state d"
  by (simp_all add: push_payload_def)

lemma push_payload_bound:
  "length (sd_oscPayload d) \<le> sd_maxOscPayloadBytes d \<Longrightarrow>
    length (sd_oscPayload (push_payload v d)) \<le> sd_maxOscPayloadBytes d"
  by (simp add: push_payload_def)

lemma counted_fields [simp]:
  "sd_outputStreamOffset (counted d) = sd_outputStreamOffset d"
  "sd_rawStreamOffset (counted d) = sd_rawStreamOffset d + 1"
  "sd_maxOscPayloadBytes (counted d) = sd_maxOscPayloadBytes d"
  "sd_expectedNonce (counted d) = sd_expectedNonce d" "sd_state (counted d) = sd_state d"
  "sd_oscPayload (counted d) = sd_oscPayload d" "sd_oscOverflow (counted d) = sd_oscOverflow d"
  "sd_pendingEscapeRawOffset (counted d) = sd_pendingEscapeRawOffset d"
  by (simp_all add: counted_def)

lemma osc_events_counted:
  "numbered (sd_outputStreamOffset d) (observations (osc_events d)) \<and> output_of (observations (osc_events d)) = []"
  using marks_observations [OF osc_events_marks] by blast

lemma emit_eq: "emitOutputByte v r (d, []) = (d\<lparr>sd_outputStreamOffset := sd_outputStreamOffset d + 1\<rparr>,
    [(sd_event Output NoProtocol (sd_outputStreamOffset d) r)\<lparr>se_output := [v]\<rparr>])"
  by (simp add: emitOutputByte_def)

lemma decode_byte_counted:
  assumes "decode_byte v (d, []) = (d', es)"
  shows "numbered (sd_outputStreamOffset d) (observations es)
    \<and> sd_outputStreamOffset d' = sd_outputStreamOffset d + of_nat (length (output_of (observations es)))
    \<and> sd_rawStreamOffset d' = sd_rawStreamOffset d + 1
    \<and> sd_maxOscPayloadBytes d' = sd_maxOscPayloadBytes d \<and> sd_expectedNonce d' = sd_expectedNonce d
    \<and> (length (sd_oscPayload d) \<le> sd_maxOscPayloadBytes d \<longrightarrow>
         length (sd_oscPayload d') \<le> sd_maxOscPayloadBytes d')"
proof -
  have d': "d' = fst (decode_byte v (d, []))" and es: "es = snd (decode_byte v (d, []))" using assms by simp_all
  have payload: "length (sd_oscPayload d) \<le> sd_maxOscPayloadBytes d \<Longrightarrow>
      length (sd_oscPayload (push_payload x (counted d))) \<le> sd_maxOscPayloadBytes d
      \<and> length (sd_oscPayload (push_payload y (push_payload x (counted d)))) \<le> sd_maxOscPayloadBytes d" for x y
    using push_payload_bound [of "counted d" x] push_payload_bound [of "push_payload x (counted d)" y] by simp
  show ?thesis
    using osc_events_counted [of "counted d"] osc_events_counted [of "push_payload escapeByte (counted d)"] payload
    by (cases "sd_state d")
      (simp_all add: d' es decode_cases emit_observations finishOsc_eq Let_def)
qed

section \<open>Complete sequences\<close>

definition osc :: "string \<Rightarrow> byte list" where
  "osc payload = escapeByte # char_byte CHR '']'' # map char_byte payload @ [bellByte]"

definition plain :: "string \<Rightarrow> bool" where
  "plain p \<longleftrightarrow> CHR 0x07 \<notin> set p \<and> CHR 0x1B \<notin> set p"

lemma char_byte_control:
  "(char_byte c = escapeByte) = (c = CHR 0x1B)" "(char_byte c = bellByte) = (c = CHR 0x07)"
proof -
  have "byte_char escapeByte = CHR 0x1B" "byte_char bellByte = CHR 0x07" by code_simp+
  then show "(char_byte c = escapeByte) = (c = CHR 0x1B)" "(char_byte c = bellByte) = (c = CHR 0x07)"
    by (metis byte_char_inverse byte_char_eq_iff)+
qed

lemma parseOsc_cong:
  assumes "sd_oscPayload d = sd_oscPayload d'" "sd_expectedNonce d = sd_expectedNonce d'"
    "sd_outputStreamOffset d = sd_outputStreamOffset d'" "sd_oscRawOffset d = sd_oscRawOffset d'"
  shows "parseOsc d = parseOsc d'"
  unfolding parseOsc_def parse_body_def assms by (rule refl)

lemma feed_payload:
  assumes "sd_state d = Osc" "\<not> sd_oscOverflow d" "plain p"
    and "length (sd_oscPayload d) + length p \<le> sd_maxOscPayloadBytes d"
  shows "decoder_feed d (map char_byte p) =
    (d\<lparr>sd_oscPayload := sd_oscPayload d @ p,
       sd_rawStreamOffset := sd_rawStreamOffset d + of_nat (length p)\<rparr>, [])"
  using assms
proof (induction p arbitrary: d)
  case (Cons c p)
  let ?d = "push_payload (char_byte c) (counted d)"
  have step: "decode_byte (char_byte c) (d, []) = (?d, [])"
    using Cons.prems by (auto simp: decode_osc char_byte_control plain_def)
  have "?d = d\<lparr>sd_oscPayload := sd_oscPayload d @ [c], sd_rawStreamOffset := sd_rawStreamOffset d + 1\<rparr>"
    using Cons.prems(4) by (simp add: push_payload_def counted_def)
  then show ?case using Cons.IH [of ?d] Cons.prems step
    by (simp add: feed_Cons plain_def algebra_simps)
qed simp

text \<open>A whole sequence that fits yields the events of \<open>parseOsc\<close> for its payload, and no output.\<close>

lemma feed_osc:
  assumes "sd_state d = Normal" "plain p" "length p \<le> sd_maxOscPayloadBytes d"
  obtains d' where "decoder_feed d (osc p) = (d', map Marker (parseOsc
      (d\<lparr>sd_oscPayload := p, sd_oscRawOffset := sd_rawStreamOffset d\<rparr>)))"
    "sd_state d' = Normal" "sd_outputStreamOffset d' = sd_outputStreamOffset d"
    "sd_maxOscPayloadBytes d' = sd_maxOscPayloadBytes d" "sd_expectedNonce d' = sd_expectedNonce d"
proof -
  define r where "r = sd_rawStreamOffset d"
  define d1 where "d1 = d\<lparr>sd_rawStreamOffset := r + 1, sd_state := Escape, sd_pendingEscapeRawOffset := r\<rparr>"
  define d2 where "d2 = d1\<lparr>sd_rawStreamOffset := r + 2, sd_state := Osc, sd_oscRawOffset := r,
    sd_oscPayload := [], sd_oscOverflow := False\<rparr>"
  define d3 where "d3 = d2\<lparr>sd_oscPayload := p, sd_rawStreamOffset := r + 2 + of_nat (length p)\<rparr>"
  have 1: "decode_byte escapeByte (d, []) = (d1, [])"
    using assms(1) by (simp add: decode_normal counted_def d1_def r_def)
  have 2: "decode_byte (char_byte CHR '']'') (d1, []) = (d2, [])"
    by (simp add: decode_escape d1_def d2_def counted_def)
  have 3: "decoder_feed d2 (map char_byte p) = (d3, [])"
    using feed_payload [of d2 p] assms by (simp add: d2_def d1_def d3_def)
  have 4: "decode_byte bellByte (d3, []) = finishOsc (counted d3, [])"
    by (simp add: decode_osc d3_def d2_def)
  have "parseOsc (counted d3) = parseOsc (d\<lparr>sd_oscPayload := p, sd_oscRawOffset := r\<rparr>)"
    by (rule parseOsc_cong) (simp_all add: d3_def d2_def d1_def counted_def)
  moreover have "osc_events (counted d3) = parseOsc (counted d3)" by (simp add: osc_events_def d3_def d2_def)
  moreover have "observations (osc_events (counted d3)) = map Marker (osc_events (counted d3))"
    using marks_observations [OF osc_events_marks] by blast
  ultimately have "decoder_feed d (osc p) = (fst (finishOsc (counted d3, [])),
      map Marker (parseOsc (d\<lparr>sd_oscPayload := p, sd_oscRawOffset := r\<rparr>)))"
    by (simp add: osc_def feed_Cons 1 2 decoder.feed_append 3 4 finishOsc_eq)
  note feed = this [unfolded r_def]
  let ?d' = "fst (finishOsc (counted d3, []))"
  have "sd_state ?d' = Normal" "sd_outputStreamOffset ?d' = sd_outputStreamOffset d"
    "sd_maxOscPayloadBytes ?d' = sd_maxOscPayloadBytes d" "sd_expectedNonce ?d' = sd_expectedNonce d"
    by (simp_all add: finishOsc_eq d3_def d2_def d1_def)
  with feed show ?thesis by (rule that)
qed

text \<open>Bytes without an escape in the normal state are output as they are.\<close>

lemma feed_text:
  assumes "sd_state d = Normal" "escapeByte \<notin> set bs"
  shows "decoder_feed d bs = (d\<lparr>sd_outputStreamOffset := sd_outputStreamOffset d + of_nat (length bs),
      sd_rawStreamOffset := sd_rawStreamOffset d + of_nat (length bs)\<rparr>,
    output_bytes (sd_outputStreamOffset d) bs)"
  using assms
proof (induction bs arbitrary: d)
  case (Cons b bs)
  let ?d = "(counted d)\<lparr>sd_outputStreamOffset := sd_outputStreamOffset d + 1\<rparr>"
  have "decode_byte b (d, []) = (?d, [(sd_event Output NoProtocol (sd_outputStreamOffset d)
      (sd_rawStreamOffset d))\<lparr>se_output := [b]\<rparr>])"
    using Cons.prems by (simp add: decode_normal emit_eq)
  then show ?case using Cons.IH [of ?d] Cons.prems
    by (simp add: feed_Cons observations_def observe_event_def counted_def algebra_simps)
qed simp

section \<open>The command line a shell sends\<close>

text \<open>
  \<open>__ztermyEscapeCommand\<close>, the script that \<open>PowerShellShellIntegration\<close> installs in the shell, on the
  bytes of the UTF-8 text (the characters it escapes are single bytes), and the check of the nonce.
\<close>

definition hex_char :: "nat \<Rightarrow> char" where
  "hex_char n = char_of (if n < 10 then 48 + n else 87 + n)"

definition escapeCharacter :: "char \<Rightarrow> string" where
  "escapeCharacter c =
     (let code = of_char c :: nat in
      if code = 92 then [backslash, backslash]
      else if code = 59 \<or> code \<le> 32 then [backslash, CHR ''x'', hex_char (code div 16), hex_char (code mod 16)]
      else [c])"

definition escapeCommand :: "string \<Rightarrow> string" where
  "escapeCommand s = concat (map escapeCharacter s)"

definition validNonce :: "string \<Rightarrow> bool" where
  "validNonce nonce \<longleftrightarrow> nonce \<noteq> [] \<and> length nonce \<le> 128
     \<and> list_all (\<lambda>c. let n = of_char c :: nat in
         48 \<le> n \<and> n \<le> 57 \<or> 65 \<le> n \<and> n \<le> 90 \<or> 97 \<le> n \<and> n \<le> 122 \<or> c = CHR ''-'') nonce"

lemma of_char_less: "(of_char c :: nat) < 256"
  using nat_of_char_less_256 [of c] .

lemma nibble_hex: "n < 16 \<Longrightarrow> nibble (hex_char n) = Some n"
  by (auto simp: nibble_def hex_char_def Let_def)

lemma hex_pair: "hexByte (hex_char (of_char c div 16)) (hex_char (of_char c mod 16)) = Some c"
proof -
  have "(of_char c :: nat) div 16 < 16" using of_char_less [of c] by (simp add: less_mult_imp_div_less)
  then show ?thesis by (simp add: hexByte_def nibble_hex)
qed

lemma decode_escaped: "decodeCommandLine (escapeCharacter c @ s) = map_option ((#) c) (decodeCommandLine s)"
proof -
  have "c = backslash" if "(of_char c :: nat) = 92"
  proof -
    have "(of_char c :: nat) = of_char backslash" using that by simp
    then show ?thesis by (simp only: of_char_eq_iff)
  qed
  moreover have "c \<noteq> backslash" if "(of_char c :: nat) \<noteq> 92" using that by auto
  ultimately show ?thesis using hex_pair [of c]
    by (auto simp: escapeCharacter_def Let_def)
qed

lemma decode_escapeCommand: "decodeCommandLine (escapeCommand s) = Some s"
  by (induction s) (auto simp: escapeCommand_def decode_escaped)

lemma escape_plain: "set (escapeCommand s) \<inter> {CHR '';'', CHR 0x07, CHR 0x1B} = {}"
proof -
  have "set (escapeCharacter c) \<inter> {CHR '';'', CHR 0x07, CHR 0x1B} = {}" for c
  proof -
    have hex: "x \<noteq> hex_char n \<and> hex_char n \<noteq> x"
      if "n < 16" "x \<in> {CHR '';'', CHR 0x07, CHR 0x1B}" for n x
    proof -
      have "nibble x = None" using that(2) by (auto simp: nibble_def)
      then show ?thesis using nibble_hex [OF that(1)] by auto
    qed
    have "(of_char c :: nat) div 16 < 16" "(of_char c :: nat) mod 16 < 16"
      using of_char_less [of c] by (simp_all add: less_mult_imp_div_less)
    note h = hex [OF this(1)] hex [OF this(2)]
    show ?thesis
    proof (cases "(of_char c :: nat) = 59 \<or> (of_char c :: nat) \<le> 32")
      case True
      then show ?thesis
        using h(1) [of "CHR '';''"] h(1) [of "CHR 0x07"] h(1) [of "CHR 0x1B"]
          h(2) [of "CHR '';''"] h(2) [of "CHR 0x07"] h(2) [of "CHR 0x1B"]
        by (simp add: escapeCharacter_def Let_def)
    next
      case False
      then show ?thesis by (auto simp: escapeCharacter_def Let_def)
    qed
  qed
  then show ?thesis by (fastforce simp: escapeCommand_def)
qed

lemma validNonce_plain: "validNonce nonce \<Longrightarrow> set nonce \<inter> {CHR 0x07, CHR 0x1B} = {} \<and> nonce \<noteq> []"
  by (auto simp: validNonce_def list_all_iff Let_def)

section \<open>Verified commands\<close>

text \<open>
  The bytes of the stream without the escapes.  A sequence that is collected is a piece of it, so
  a nonce that a collected payload ends with was in the stream.
\<close>

definition without_escapes :: "byte list \<Rightarrow> byte list" where
  "without_escapes bs = filter (\<lambda>b. b \<noteq> escapeByte) bs"

definition collected :: "ShellIntegrationDecoder \<Rightarrow> byte list" where
  "collected d = without_escapes (map char_byte (sd_oscPayload d))"

definition payload_seen :: "ShellIntegrationDecoder \<Rightarrow> byte list \<Rightarrow> bool" where
  "payload_seen d raw \<longleftrightarrow> (sd_state d \<in> {Normal, Escape} \<longrightarrow> sd_oscPayload d = [])
     \<and> (\<not> sd_oscOverflow d \<longrightarrow> suffix (collected d) (without_escapes raw))"

lemma collected_push:
  "\<not> sd_oscOverflow (push_payload v d) \<Longrightarrow>
    \<not> sd_oscOverflow d \<and> collected (push_payload v d) = collected d @ without_escapes [v]"
  by (auto simp: push_payload_def collected_def without_escapes_def split: if_splits)

lemma without_escapes_append: "without_escapes (xs @ ys) = without_escapes xs @ without_escapes ys"
  by (simp add: without_escapes_def)

lemma collected_frame [simp]:
  "collected (counted d) = collected d" "collected (d\<lparr>sd_state := q\<rparr>) = collected d"
  by (simp_all add: collected_def)

lemma push_seen:
  assumes "suffix (collected d) (without_escapes raw) \<or> sd_oscOverflow d"
  shows "suffix (collected (push_payload v d)) (without_escapes (raw @ [v])) \<or> sd_oscOverflow (push_payload v d)"
  using assms collected_push [of v d]
  by (auto simp: without_escapes_append)

lemma push_escape_seen:
  assumes "suffix (collected d) (without_escapes raw) \<or> sd_oscOverflow d"
  shows "suffix (collected (push_payload escapeByte d)) (without_escapes raw) \<or> sd_oscOverflow (push_payload escapeByte d)"
  using assms collected_push [of escapeByte d] by (auto simp: without_escapes_def)

lemma payload_seen_step:
  assumes "payload_seen d raw"
  shows "payload_seen (fst (decode_byte v (d, []))) (raw @ [v])"
proof (cases "sd_state d")
  case Normal
  then show ?thesis using assms
    by (simp add: payload_seen_def decode_normal collected_def without_escapes_def)
next
  case Escape
  then show ?thesis using assms
    by (simp add: payload_seen_def decode_escape collected_def without_escapes_def Let_def)
next
  case Osc
  then show ?thesis using assms push_seen [of "counted d" raw v]
    by (auto simp: payload_seen_def decode_osc finishOsc_eq)
      (simp_all add: collected_def without_escapes_def)
next
  case OscEscape
  let ?d = "push_payload escapeByte (counted d)"
  have "suffix (collected ?d) (without_escapes raw) \<or> sd_oscOverflow ?d"
    using assms OscEscape push_escape_seen [of "counted d" raw] by (auto simp: payload_seen_def)
  from push_seen [OF this, of v] show ?thesis using OscEscape
    by (auto simp: payload_seen_def decode_osc_escape finishOsc_eq collected_def)
      (simp_all add: without_escapes_def)
qed

lemma verified_body:
  assumes "e \<in> set (parse_body d p body)" "se_nonceVerified e"
  shows "\<exists>c. dropWhile (\<lambda>c. c \<noteq> CHR '';'') (drop 2 body) = c # sd_expectedNonce d
    \<and> sd_expectedNonce d \<noteq> [] \<and> se_type e = ExplicitCommand"
  using assms unfolding parse_body_def Let_def
  by (simp split: if_split_asm option.split_asm list.split_asm)

lemma suffix_after:
  assumes "dropWhile P (drop k s) = c # r"
  shows "suffix r s"
proof -
  have "suffix (c # r) (drop k s)" using suffix_dropWhile [of P "drop k s"] assms by simp
  then have "suffix r (drop k s)" by (rule suffix_ConsD)
  then show ?thesis using suffix_drop suffix_order.order_trans by blast
qed

lemma verified_payload:
  assumes "e \<in> set (parseOsc d)" "se_nonceVerified e"
  shows "sd_expectedNonce d \<noteq> [] \<and> suffix (sd_expectedNonce d) (sd_oscPayload d) \<and> se_type e = ExplicitCommand"
proof -
  have "\<exists>p. e \<in> set (parse_body d p (drop 4 (sd_oscPayload d)))"
    using assms unfolding parseOsc_def Let_def by (auto split: if_split_asm)
  then obtain p where "e \<in> set (parse_body d p (drop 4 (sd_oscPayload d)))" ..
  from verified_body [OF this assms(2)] obtain c where
    c: "dropWhile (\<lambda>c. c \<noteq> CHR '';'') (drop 2 (drop 4 (sd_oscPayload d))) = c # sd_expectedNonce d"
    and e: "sd_expectedNonce d \<noteq> []" "se_type e = ExplicitCommand" by blast
  have "suffix (sd_expectedNonce d) (drop 4 (sd_oscPayload d))" by (rule suffix_after [OF c])
  then show ?thesis using e suffix_drop suffix_order.order_trans by blast
qed

text \<open>A verified event among the events of a byte closes a sequence whose payload ends with the nonce.\<close>

lemma verified_step:
  assumes "payload_seen d raw" "Marker e \<in> set (observations (snd (decode_byte v (d, []))))" "se_nonceVerified e"
    and "CHR 0x1B \<notin> set (sd_expectedNonce d)"
  shows "sd_expectedNonce d \<noteq> [] \<and> se_type e = ExplicitCommand
    \<and> suffix (map char_byte (sd_expectedNonce d)) (without_escapes raw)"
proof -
  have marks: "Marker x \<in> set (observations (osc_events d')) \<Longrightarrow> x \<in> set (osc_events d')" for x d'
    using marks_observations [OF osc_events_marks, of d'] by auto
  have closing: "sd_expectedNonce d \<noteq> [] \<and> se_type e = ExplicitCommand
      \<and> suffix (map char_byte (sd_expectedNonce d)) (without_escapes raw)"
    if "e \<in> set (osc_events d')" "suffix (collected d') (without_escapes raw) \<or> sd_oscOverflow d'"
      "sd_expectedNonce d' = sd_expectedNonce d" for d'
  proof (cases "sd_oscOverflow d'")
    case True
    then show ?thesis using that(1) assms(3) by (auto simp: osc_events_def)
  next
    case False
    then have "e \<in> set (parseOsc d')" using that(1) by (simp add: osc_events_def)
    from verified_payload [OF this assms(3)] that(3) have
      v: "sd_expectedNonce d \<noteq> []" "suffix (sd_expectedNonce d) (sd_oscPayload d')" "se_type e = ExplicitCommand"
      by auto
    obtain pre where "sd_oscPayload d' = pre @ sd_expectedNonce d" using v(2) by (auto simp: suffix_def)
    moreover have "without_escapes (map char_byte (sd_expectedNonce d)) = map char_byte (sd_expectedNonce d)"
      using assms(4) by (auto simp: without_escapes_def filter_id_conv char_byte_control)
    ultimately have "suffix (map char_byte (sd_expectedNonce d)) (collected d')"
      by (simp add: collected_def without_escapes_append suffix_def)
    then show ?thesis using v that(2) False suffix_order.order_trans by blast
  qed
  show ?thesis
  proof (cases "sd_state d")
    case Normal
    then show ?thesis using assms(2)
      by (auto simp: decode_normal emit_eq observations_def observe_event_def split: if_split_asm)
  next
    case Escape
    then show ?thesis using assms(2)
      by (auto simp: decode_escape emit_observations Let_def split: if_split_asm)
  next
    case Osc
    then show ?thesis using assms(1,2) closing [of "counted d"] marks
      by (auto simp: decode_osc finishOsc_eq payload_seen_def split: if_split_asm)
  next
    case OscEscape
    have "suffix (collected (counted d)) (without_escapes raw) \<or> sd_oscOverflow (counted d)"
      using assms(1) by (auto simp: payload_seen_def)
    from this push_escape_seen [OF this] show ?thesis
      using OscEscape assms(2) closing [of "counted d"] closing [of "push_payload escapeByte (counted d)"] marks
      by (auto simp: decode_osc_escape finishOsc_eq split: if_split_asm)
  qed
qed

lemma verified_run:
  assumes "payload_seen d raw" "Marker e \<in> set (snd (decoder_feed d bs))" "se_nonceVerified e"
    and "CHR 0x1B \<notin> set (sd_expectedNonce d)"
  shows "sd_expectedNonce d \<noteq> [] \<and> se_type e = ExplicitCommand
    \<and> sublist (map char_byte (sd_expectedNonce d)) (without_escapes (raw @ bs))"
  using assms(1,2,4)
proof (induction bs arbitrary: d raw)
  case (Cons b bs)
  obtain d' es where s: "decode_byte b (d, []) = (d', es)" by fastforce
  have d': "payload_seen d' (raw @ [b])" "sd_expectedNonce d' = sd_expectedNonce d"
    using payload_seen_step [OF Cons.prems(1), of b] decode_byte_counted [OF s] s by auto
  from Cons.prems(2) s have "Marker e \<in> set (observations es) \<or> Marker e \<in> set (snd (decoder_feed d' bs))"
    by (auto simp: feed_Cons split: prod.splits)
  then show ?case
  proof
    assume "Marker e \<in> set (observations es)"
    with verified_step [OF Cons.prems(1) _ assms(3) Cons.prems(3), of b] s
    have "sd_expectedNonce d \<noteq> [] \<and> se_type e = ExplicitCommand
      \<and> suffix (map char_byte (sd_expectedNonce d)) (without_escapes raw)" by simp
    moreover from this have "sublist (map char_byte (sd_expectedNonce d)) (without_escapes (raw @ b # bs))"
      by (simp add: without_escapes_append) (metis append_assoc suffix_def sublist_def)
    ultimately show ?thesis by blast
  next
    assume "Marker e \<in> set (snd (decoder_feed d' bs))"
    with Cons.IH [OF d'(1)] d'(2) Cons.prems(3) show ?thesis by simp
  qed
qed simp

section \<open>Properties\<close>

text \<open>C29. What a decoder observes in a stream does not depend on how the stream is cut into calls of
  \<open>append\<close>: two ways to cut the same bytes give the same output bytes at the same offsets, the same
  markers between the same output bytes, and leave the decoder in the same state.\<close>

theorem decoder_chunking:
  assumes "concat chunks = concat chunks'"
  shows "feed_all decoder_feed d chunks = feed_all decoder_feed d chunks'"
  by (rule decoder.chunking_irrelevant [OF assms])

lemma decoder_chunking_witness:
  "feed_all decoder_feed (decoder_new [] 9) [[0x1b], [0x5d, 65], [7, 66]]
    = feed_all decoder_feed (decoder_new [] 9) [[0x1b, 0x5d, 65, 7], [66]]"
  by (rule decoder_chunking) simp

lemma decoder_counts:
  "numbered (sd_outputStreamOffset d) (snd (decoder_feed d bs))
    \<and> sd_outputStreamOffset (fst (decoder_feed d bs))
      = sd_outputStreamOffset d + of_nat (length (output_of (snd (decoder_feed d bs))))
    \<and> sd_rawStreamOffset (fst (decoder_feed d bs)) = sd_rawStreamOffset d + of_nat (length bs)
    \<and> sd_maxOscPayloadBytes (fst (decoder_feed d bs)) = sd_maxOscPayloadBytes d
    \<and> (length (sd_oscPayload d) \<le> sd_maxOscPayloadBytes d \<longrightarrow>
        length (sd_oscPayload (fst (decoder_feed d bs))) \<le> sd_maxOscPayloadBytes d)"
proof (induction bs arbitrary: d)
  case (Cons b bs)
  obtain d' es where s: "decode_byte b (d, []) = (d', es)" by fastforce
  show ?case using Cons.IH [of d'] decode_byte_counted [OF s]
    by (auto simp: feed_Cons s numbered_append algebra_simps split: prod.splits)
qed simp

text \<open>The offsets are exact and memory is bounded: in every run of a new decoder each output byte
  and each marker carries the number of output bytes before it, \<open>rawStreamOffset\<close> and
  \<open>outputStreamOffset\<close> count the bytes read and the bytes output, and the payload collected for a
  sequence never exceeds \<open>maxOscPayloadBytes\<close>.\<close>

theorem decoder_accounting:
  fixes nonce maximum bs
  defines "d \<equiv> fst (decoder_feed (decoder_new nonce maximum) bs)"
    and "os \<equiv> snd (decoder_feed (decoder_new nonce maximum) bs)"
  shows "numbered 0 os \<and> sd_outputStreamOffset d = of_nat (length (output_of os))
    \<and> sd_rawStreamOffset d = of_nat (length bs) \<and> length (sd_oscPayload d) \<le> max 1 maximum"
  using decoder_counts [of "decoder_new nonce maximum" bs] by (simp add: d_def os_def decoder_new_def)

text \<open>Round trip of a command line: the sequence that the PowerShell script writes for a command, with
  the command escaped by \<open>__ztermyEscapeCommand\<close> and followed by the nonce, is decoded between
  sequences, for any command whose sequence fits the limit, to exactly one explicit command event
  with that command, marked as verified, and adds nothing to the output.\<close>

theorem decoder_command_round_trip:
  fixes d command
  defines "payload \<equiv> ''633;E;'' @ escapeCommand command @ '';'' @ sd_expectedNonce d"
  assumes "sd_state d = Normal" "validNonce (sd_expectedNonce d)" "length payload \<le> sd_maxOscPayloadBytes d"
  shows "\<exists>d' e. decoder_feed d (osc payload) = (d', [Marker e]) \<and> sd_state d' = Normal
    \<and> se_type e = ExplicitCommand \<and> se_value e = command \<and> se_nonceVerified e
    \<and> se_outputStreamOffset e = sd_outputStreamOffset d"
proof -
  have "plain payload" using escape_plain [of command] validNonce_plain [OF assms(3)]
    by (auto simp: plain_def payload_def)
  from feed_osc [OF assms(2) this assms(4)] obtain d' where d': "decoder_feed d (osc payload) = (d', map Marker
      (parseOsc (d\<lparr>sd_oscPayload := payload, sd_oscRawOffset := sd_rawStreamOffset d\<rparr>)))" "sd_state d' = Normal"
    by blast
  let ?d = "d\<lparr>sd_oscPayload := payload, sd_oscRawOffset := sd_rawStreamOffset d\<rparr>"
  have semi: "CHR '';'' \<notin> set (escapeCommand command)" using escape_plain [of command] by blast
  have split: "takeWhile (\<lambda>c. c \<noteq> CHR '';'') (escapeCommand command @ CHR '';'' # r) = escapeCommand command
      \<and> dropWhile (\<lambda>c. c \<noteq> CHR '';'') (escapeCommand command @ CHR '';'' # r) = CHR '';'' # r" for r
    using semi by (induction "escapeCommand command") (auto simp: takeWhile_append dropWhile_append)
  have "parseOsc ?d = parse_body ?d Osc633Protocol (''E;'' @ escapeCommand command @ '';'' @ sd_expectedNonce d)"
    by (simp add: parseOsc_def payload_def)
  also have "\<dots> = [(sd_event ExplicitCommand Osc633Protocol (sd_outputStreamOffset d) (sd_rawStreamOffset d))
      \<lparr>se_value := command, se_nonceVerified := True\<rparr>]"
    using validNonce_plain [OF assms(3)]
    by (simp add: parse_body_def split decode_escapeCommand Let_def)
  finally show ?thesis using d' by simp
qed

lemma decoder_command_round_trip_witness:
  "\<exists>d' e. decoder_feed (decoder_new ''n1'' 100) (osc (''633;E;'' @ escapeCommand ''ls; cd'' @ '';'' @ ''n1''))
    = (d', [Marker e]) \<and> se_value e = ''ls; cd''"
  using decoder_command_round_trip [of "decoder_new ''n1'' 100" "''ls; cd''"]
  by (auto simp: decoder_new_def validNonce_def escapeCommand_def escapeCharacter_def)

text \<open>C10. A command is marked as verified only if the secret nonce was sent: if a new decoder reports an
  event as verified, in any stream and any cut of it, a nonce was expected, the event is an explicit
  command, and the nonce occurs in the bytes of the stream (escape bytes apart).\<close>

theorem decoder_verified_needs_nonce:
  assumes "Marker e \<in> set (snd (feed_all decoder_feed (decoder_new nonce maximum) chunks))"
    and "se_nonceVerified e" "CHR 0x1B \<notin> set nonce"
  shows "nonce \<noteq> [] \<and> se_type e = ExplicitCommand
    \<and> sublist (map char_byte nonce) (without_escapes (concat chunks))"
proof -
  have "payload_seen (decoder_new nonce maximum) []"
    by (simp add: payload_seen_def decoder_new_def collected_def without_escapes_def)
  from verified_run [OF this, of e "concat chunks"] assms show ?thesis
    by (simp add: decoder.feed_all_concat) (simp add: decoder_new_def)
qed

lemma decoder_verified_needs_nonce_witness:
  "sublist (map char_byte ''n1'') (without_escapes (concat [osc (''633;E;ls;n1'')]))"
proof -
  let ?d = "decoder_new ''n1'' 100"
  have "\<exists>e. snd (feed_all decoder_feed ?d [osc (''633;E;ls;n1'')]) = [Marker e] \<and> se_nonceVerified e"
    using decoder_command_round_trip [of ?d "''ls''"]
    by (auto simp: decoder_new_def validNonce_def escapeCommand_def escapeCharacter_def)
  then obtain e where "Marker e \<in> set (snd (feed_all decoder_feed ?d [osc (''633;E;ls;n1'')]))" "se_nonceVerified e"
    by auto
  from decoder_verified_needs_nonce [OF this] show ?thesis by simp
qed

end
