(* ===== verification/Block_Assembler.thy ===== *)
theory Block_Assembler
  imports Command_Blocks Shell_Decoder
begin

text \<open>
  The assembler of command blocks: \<open>src/domain/terminal/CommandBlockAssembler\<close>.  It turns the events
  of the shell integration decoder into calls of the block store.  The store it holds a reference to
  is the second component of the state; its operations are an argument, of which the assembler's
  lemmas only use the contract \<open>block_store\<close>, and \<open>store_operations\<close> is the store of the code.
\<close>

record CommandBlockSessionContext =
  cx_sessionId :: string
  cx_host :: string
  cx_shell :: string
  cx_sessionGeneration :: u64

record CommandBlockAssembler =
  as_context :: CommandBlockSessionContext
  as_activeBlockId :: "CommandBlockId option"
  as_workingDirectory :: string
  as_pendingCommand :: string
  as_pendingProvenance :: CommandProvenance
  as_pendingCommandVerified :: bool
  as_richCapabilityClaimed :: bool

definition assembler_new :: "CommandBlockSessionContext \<Rightarrow> CommandBlockAssembler" where
  "assembler_new context =
     \<lparr>as_context = context, as_activeBlockId = None, as_workingDirectory = [], as_pendingCommand = [],
      as_pendingProvenance = UnknownProvenance, as_pendingCommandVerified = False,
      as_richCapabilityClaimed = False\<rparr>"

definition resetPendingCommand :: "CommandBlockAssembler \<Rightarrow> CommandBlockAssembler" where
  "resetPendingCommand a = a\<lparr>as_pendingCommand := [], as_pendingProvenance := UnknownProvenance,
     as_pendingCommandVerified := False\<rparr>"

definition finishActive ::
  "'st block_operations \<Rightarrow> CommandCompletionReason \<Rightarrow> int \<Rightarrow> CommandBlockAssembler \<times> 'st
    \<Rightarrow> (CommandBlockAssembler \<times> 'st) \<times> (CommandBlockStoreError + unit)" where
  "finishActive ops reason finishedUtcMs s = (case s of (a, st) \<Rightarrow>
     (case as_activeBlockId a of
        None \<Rightarrow> ((a, st), Inr ())
      | Some i \<Rightarrow>
          (case op_finish ops i None finishedUtcMs reason st of
             (st', Inl e) \<Rightarrow> ((a, st'), Inl e)
           | (st', Inr _) \<Rightarrow> ((resetPendingCommand (a\<lparr>as_activeBlockId := None\<rparr>), st'), Inr ()))))"

definition observeFallbackCommand :: "string \<Rightarrow> CommandBlockAssembler \<Rightarrow> CommandBlockAssembler" where
  "observeFallbackCommand command a =
     (if as_pendingProvenance a = VerifiedShellIntegration \<or> as_pendingProvenance a = Osc633 then a
      else a\<lparr>as_pendingCommand := command, as_pendingProvenance := HeuristicInput,
             as_pendingCommandVerified := False\<rparr>)"

definition pending_start ::
  "ShellIntegrationEvent \<Rightarrow> int \<Rightarrow> CommandBlockAssembler \<Rightarrow> CommandBlockStart" where
  "pending_start event startedUtcMs a =
     \<lparr>bs_command = as_pendingCommand a, bs_workingDirectory = as_workingDirectory a,
      bs_sessionId = cx_sessionId (as_context a), bs_host = cx_host (as_context a),
      bs_shell = cx_shell (as_context a), bs_sessionGeneration = cx_sessionGeneration (as_context a),
      bs_capability = (if as_pendingCommandVerified a then Rich else Basic),
      bs_commandProvenance =
        (if as_pendingProvenance a = UnknownProvenance
         then (if se_protocol event = Osc633Protocol then Osc633 else Osc133)
         else as_pendingProvenance a),
      bs_boundaryConfidence = (if as_pendingCommand a = [] then Heuristic else Exact),
      bs_startedUtcMs = startedUtcMs, bs_outputStreamOffset = se_outputStreamOffset event\<rparr>"

definition assembler_begin ::
  "'st block_operations \<Rightarrow> ShellIntegrationEvent \<Rightarrow> int \<Rightarrow> CommandBlockAssembler \<times> 'st
    \<Rightarrow> (CommandBlockAssembler \<times> 'st) \<times> (CommandBlockStoreError + unit)" where
  "assembler_begin ops event startedUtcMs s = (case s of (a, st) \<Rightarrow>
     (case op_begin ops (pending_start event startedUtcMs a) st of
        (st', Inl e) \<Rightarrow> ((a, st'), Inl e)
      | (st', Inr i) \<Rightarrow> ((a\<lparr>as_activeBlockId := Some i\<rparr>, st'), Inr ())))"

text \<open>One round of the loop of \<open>observe\<close>.\<close>

definition observe_event_in ::
  "'st block_operations \<Rightarrow> int \<Rightarrow> ShellIntegrationEvent \<Rightarrow> CommandBlockAssembler \<times> 'st
    \<Rightarrow> (CommandBlockAssembler \<times> 'st) \<times> (CommandBlockStoreError + unit)" where
  "observe_event_in ops now event s = (case s of (a, st) \<Rightarrow>
     (case se_type event of
        Output \<Rightarrow>
          (case as_activeBlockId a of
             None \<Rightarrow> (s, Inr ())
           | Some i \<Rightarrow> apfst (Pair a) (op_append ops i
               \<lparr>ob_bytes = se_output event, ob_streamOffset = se_outputStreamOffset event,
                ob_interleaved = False\<rparr> st))
      | PromptStart \<Rightarrow>
          (if as_activeBlockId a \<noteq> None then finishActive ops PromptRecovery now s else (s, Inr ()))
      | CommandStart \<Rightarrow> ((resetPendingCommand a, st), Inr ())
      | ExplicitCommand \<Rightarrow>
          ((a\<lparr>as_pendingCommand := se_value event,
              as_pendingProvenance := (if se_nonceVerified event then VerifiedShellIntegration else Osc633),
              as_pendingCommandVerified := se_nonceVerified event\<rparr>, st), Inr ())
      | CommandExecuted \<Rightarrow>
          (case (if as_activeBlockId a \<noteq> None then finishActive ops PromptRecovery now s else (s, Inr ())) of
             (s', Inl e) \<Rightarrow> (s', Inl e)
           | (s', Inr _) \<Rightarrow> assembler_begin ops event now s')
      | CommandFinished \<Rightarrow>
          (case as_activeBlockId a of
             None \<Rightarrow> ((resetPendingCommand a, st), Inr ())
           | Some i \<Rightarrow>
               (case op_finish ops i (se_exitStatus event) now ShellMarker st of
                  (st', Inl e) \<Rightarrow> ((a, st'), Inl e)
                | (st', Inr _) \<Rightarrow> ((resetPendingCommand (a\<lparr>as_activeBlockId := None\<rparr>), st'), Inr ())))
      | WorkingDirectory \<Rightarrow> ((a\<lparr>as_workingDirectory := se_value event\<rparr>, st), Inr ())
      | RichCapabilityClaim \<Rightarrow> ((a\<lparr>as_richCapabilityClaimed := True\<rparr>, st), Inr ())
      | DecoderError \<Rightarrow>
          (case as_activeBlockId a of
             None \<Rightarrow> ((a\<lparr>as_pendingCommandVerified := False\<rparr>, st), Inr ())
           | Some i \<Rightarrow>
               (case op_mark ops i st of
                  (st', Inl e) \<Rightarrow> ((a, st'), Inl e)
                | (st', Inr _) \<Rightarrow> ((a\<lparr>as_pendingCommandVerified := False\<rparr>, st'), Inr ())))))"

fun assembler_observe ::
  "'st block_operations \<Rightarrow> int \<Rightarrow> ShellIntegrationEvent list \<Rightarrow> CommandBlockAssembler \<times> 'st
    \<Rightarrow> (CommandBlockAssembler \<times> 'st) \<times> (CommandBlockStoreError + unit)" where
  "assembler_observe ops now [] s = (s, Inr ())"
| "assembler_observe ops now (event # events) s =
     (case observe_event_in ops now event s of
        (s', Inl e) \<Rightarrow> (s', Inl e)
      | (s', Inr _) \<Rightarrow> assembler_observe ops now events s')"

section \<open>Against the contract of the store\<close>

text \<open>The one block that runs is the active one.\<close>

definition assembler_tracks ::
  "('st \<Rightarrow> CommandBlockId list) \<Rightarrow> ('st \<Rightarrow> bool) \<Rightarrow> ('st \<Rightarrow> nat) \<Rightarrow> CommandBlockAssembler \<times> 'st \<Rightarrow> bool" where
  "assembler_tracks running usable capacity s \<longleftrightarrow> usable (snd s) \<and> 0 < capacity (snd s)
     \<and> running (snd s) = (case as_activeBlockId (fst s) of None \<Rightarrow> [] | Some i \<Rightarrow> [i])"

context block_store
begin

abbreviation tracks :: "CommandBlockAssembler \<times> 'st \<Rightarrow> bool" where
  "tracks \<equiv> assembler_tracks running usable capacity"

lemma active_running: "tracks (a, st) \<Longrightarrow> as_activeBlockId a = Some i \<Longrightarrow> i \<in> set (running st)"
  by (simp add: assembler_tracks_def)

lemma finishActive_ok:
  assumes "tracks s"
  shows "\<exists>s'. finishActive ops r t s = (s', Inr ()) \<and> tracks s' \<and> as_activeBlockId (fst s') = None
    \<and> as_context (fst s') = as_context (fst s)"
proof (cases "as_activeBlockId (fst s)")
  case None
  then show ?thesis using assms by (cases s) (simp add: finishActive_def)
next
  case (Some i)
  obtain a st where s: "s = (a, st)" by fastforce
  have "usable st" "running st = [i]" using assms Some s by (simp_all add: assembler_tracks_def)
  with finish_law [of st i None t r] obtain st' where
    "op_finish ops i None t r st = (st', Inr ())" "usable st'" "capacity st' = capacity st" "running st' = []"
    by auto
  then show ?thesis using assms Some s by (simp add: finishActive_def assembler_tracks_def resetPendingCommand_def)
qed

lemma begin_ok:
  assumes "tracks s" "as_activeBlockId (fst s) = None"
  shows "\<exists>s'. assembler_begin ops ev t s = (s', Inr ()) \<and> tracks s'"
proof -
  obtain a st where s: "s = (a, st)" by fastforce
  have "usable st" "length (running st) < capacity st" using assms s by (simp_all add: assembler_tracks_def)
  with begin_law [of st "pending_start ev t a"] obtain st' i where
    "op_begin ops (pending_start ev t a) st = (st', Inr i)" "usable st'" "capacity st' = capacity st"
    "running st' = running st @ [i]" by auto
  then show ?thesis using assms s by (simp add: assembler_begin_def assembler_tracks_def)
qed

lemma event_ok:
  assumes "tracks s"
  shows "\<exists>s'. observe_event_in ops now ev s = (s', Inr ()) \<and> tracks s'"
proof -
  obtain a st where s: "s = (a, st)" by fastforce
  have st: "usable st" "0 < capacity st" using assms s by (simp_all add: assembler_tracks_def)
  have none: "tracks (a', st)" if "as_activeBlockId a' = as_activeBlockId a" for a'
    using that assms s by (simp add: assembler_tracks_def)
  show ?thesis
  proof (cases "se_type ev")
    case Output
    show ?thesis
    proof (cases "as_activeBlockId a")
      case (Some i)
      let ?ob = "\<lparr>ob_bytes = se_output ev, ob_streamOffset = se_outputStreamOffset ev, ob_interleaved = False\<rparr>"
      obtain st' where "op_append ops i ?ob st = (st', Inr ())" "usable st'" "capacity st' = capacity st"
        "running st' = running st"
        using append_law [OF st(1) active_running [OF assms [unfolded s] Some]] by blast
      then show ?thesis using assms s Output Some by (simp add: observe_event_in_def assembler_tracks_def)
    qed (use Output assms s in \<open>simp add: observe_event_in_def\<close>)
  next
    case PromptStart
    then show ?thesis using finishActive_ok [OF assms] s assms
      by (fastforce simp: observe_event_in_def)
  next
    case CommandExecuted
    let ?s = "if as_activeBlockId a \<noteq> None then finishActive ops PromptRecovery now s else (s, Inr ())"
    have "\<exists>s'. ?s = (s', Inr ()) \<and> tracks s' \<and> as_activeBlockId (fst s') = None"
      using finishActive_ok [OF assms] assms s by fastforce
    then obtain s' where s': "?s = (s', Inr ())" "tracks s'" "as_activeBlockId (fst s') = None" by blast
    have "observe_event_in ops now ev s = assembler_begin ops ev now s'"
      unfolding observe_event_in_def s prod.case CommandExecuted ShellIntegrationEventType.case s'(1) [unfolded s]
      by (simp split: unit.split)
    then show ?thesis using begin_ok [OF s'(2,3), of ev now] by simp
  next
    case CommandFinished
    show ?thesis
    proof (cases "as_activeBlockId a")
      case None
      then show ?thesis using CommandFinished s none [of "resetPendingCommand a"]
        by (simp add: observe_event_in_def resetPendingCommand_def)
    next
      case (Some i)
      have "running st = [i]" using assms Some s by (simp add: assembler_tracks_def)
      with finish_law [OF st(1), of i "se_exitStatus ev" now ShellMarker] obtain st' where
        "op_finish ops i (se_exitStatus ev) now ShellMarker st = (st', Inr ())" "usable st'"
        "capacity st' = capacity st" "running st' = []" by auto
      then show ?thesis using CommandFinished Some s st(2)
        by (simp add: observe_event_in_def assembler_tracks_def resetPendingCommand_def)
    qed
  next
    case DecoderError
    show ?thesis
    proof (cases "as_activeBlockId a")
      case (Some i)
      obtain st' where "op_mark ops i st = (st', Inr ())" "usable st'" "capacity st' = capacity st"
        "running st' = running st"
        using mark_law [OF st(1) active_running [OF assms [unfolded s] Some]] by blast
      then show ?thesis using assms s DecoderError Some by (simp add: observe_event_in_def assembler_tracks_def)
    qed (use DecoderError s none in \<open>simp add: observe_event_in_def\<close>)
  qed (use s none in \<open>simp_all add: observe_event_in_def resetPendingCommand_def\<close>)
qed

lemma observe_ok: "tracks s \<Longrightarrow> \<exists>s'. assembler_observe ops now evs s = (s', Inr ()) \<and> tracks s'"
proof (induction evs arbitrary: s)
  case (Cons ev evs)
  from event_ok [OF Cons.prems, of now ev] obtain s1 where
    s1: "observe_event_in ops now ev s = (s1, Inr ())" "tracks s1" by blast
  from Cons.IH [OF s1(2)] s1(1) show ?case by simp
qed simp

end

end
