(* ===== verification/Semantic_Observer.thy ===== *)
theory Semantic_Observer
  imports Block_Content Block_Assembler
begin

text \<open>
  The semantic observer of a terminal: \<open>src/domain/terminal/SemanticTerminalObserver\<close>, which feeds
  the raw bytes of a session to the shell integration decoder, the decoder's events to the
  assembler and so fills the block store.  Its methods hold the mutex for their whole body, so the
  observer is a machine of \<open>append\<close>, \<open>observeFallbackCommand\<close> and \<open>finish\<close>; the time the clock
  returns is part of the operation.  The catch clauses are for a failed memory allocation, which is
  not modelled, so \<open>m_internalFailure\<close> stays as it is.
\<close>

record SemanticTerminalObserver =
  so_expectedNonce :: string
  so_decoder :: ShellIntegrationDecoder
  so_store :: CommandBlockStore
  so_assembler :: CommandBlockAssembler
  so_lastStoreError :: "CommandBlockStoreError option"
  so_internalFailure :: bool
  so_finished :: bool

record SemanticTerminalSnapshot =
  sn_commandBlocks :: "CommandBlock list"
  sn_lastStoreError :: "CommandBlockStoreError option"
  sn_rawStreamOffset :: u64
  sn_outputStreamOffset :: u64
  sn_richCapabilityClaimed :: bool
  sn_internalFailure :: bool
  sn_finished :: bool

definition observer_new ::
  "CommandBlockSessionContext \<Rightarrow> string \<Rightarrow> CommandBlockStoreLimits \<Rightarrow> nat \<Rightarrow> SemanticTerminalObserver" where
  "observer_new context expectedNonce storeLimits maxOscPayloadBytes =
     \<lparr>so_expectedNonce = expectedNonce, so_decoder = decoder_new expectedNonce maxOscPayloadBytes,
      so_store = store_new storeLimits, so_assembler = assembler_new context,
      so_lastStoreError = None, so_internalFailure = False, so_finished = False\<rparr>"

definition observer_record ::
  "(CommandBlockAssembler \<times> CommandBlockStore) \<times> (CommandBlockStoreError + unit)
    \<Rightarrow> SemanticTerminalObserver \<Rightarrow> SemanticTerminalObserver" where
  "observer_record result q = (case result of ((a, st), r) \<Rightarrow>
     q\<lparr>so_assembler := a, so_store := st,
       so_lastStoreError := (case r of Inl e \<Rightarrow> Some e | Inr _ \<Rightarrow> so_lastStoreError q)\<rparr>)"

definition observer_append ::
  "byte list \<Rightarrow> int \<Rightarrow> SemanticTerminalObserver \<Rightarrow> SemanticTerminalObserver" where
  "observer_append bytes now q =
     (if bytes = [] then q
      else if so_finished q then q
      else (case decoder_append bytes (so_decoder q) of (d, events) \<Rightarrow>
        observer_record (assembler_observe store_operations now events (so_assembler q, so_store q))
          (q\<lparr>so_decoder := d\<rparr>)))"

definition observer_observeFallbackCommand ::
  "string \<Rightarrow> SemanticTerminalObserver \<Rightarrow> SemanticTerminalObserver" where
  "observer_observeFallbackCommand command q =
     (if so_finished q then q
      else q\<lparr>so_assembler := observeFallbackCommand command (so_assembler q)\<rparr>)"

definition observer_finish ::
  "CommandCompletionReason \<Rightarrow> int \<Rightarrow> SemanticTerminalObserver \<Rightarrow> SemanticTerminalObserver" where
  "observer_finish reason now q =
     (if so_finished q then q
      else (case decoder_finish (so_decoder q) of (d, trailing) \<Rightarrow>
        let q1 = observer_record (assembler_observe store_operations now trailing
                     (so_assembler q, so_store q)) (q\<lparr>so_decoder := d\<rparr>);
            q2 = observer_record (finishActive store_operations reason now
                     (so_assembler q1, so_store q1)) q1
        in q2\<lparr>so_finished := True\<rparr>))"

definition observer_snapshot :: "SemanticTerminalObserver \<Rightarrow> SemanticTerminalSnapshot" where
  "observer_snapshot q =
     \<lparr>sn_commandBlocks = st_blocks (so_store q), sn_lastStoreError = so_lastStoreError q,
      sn_rawStreamOffset = sd_rawStreamOffset (so_decoder q),
      sn_outputStreamOffset = sd_outputStreamOffset (so_decoder q),
      sn_richCapabilityClaimed = as_richCapabilityClaimed (so_assembler q),
      sn_internalFailure = so_internalFailure q, sn_finished = so_finished q\<rparr>"

definition readCommandOutput ::
  "CommandBlockId \<Rightarrow> u64 \<Rightarrow> nat \<Rightarrow> SemanticTerminalObserver
    \<Rightarrow> CommandOutputArtifactError + CommandOutputArtifactPage" where
  "readCommandOutput i afterCursor maximumBytes q = readOutputArtifact i afterCursor maximumBytes (so_store q)"

datatype ObserverOp =
    ObsAppend "byte list" int
  | ObsFallback string
  | ObsFinish CommandCompletionReason int

fun observer_step :: "SemanticTerminalObserver \<Rightarrow> ObserverOp \<Rightarrow> SemanticTerminalObserver \<times> unit" where
  "observer_step q (ObsAppend bytes now) = (observer_append bytes now q, ())"
| "observer_step q (ObsFallback command) = (observer_observeFallbackCommand command q, ())"
| "observer_step q (ObsFinish reason now) = (observer_finish reason now q, ())"

section \<open>The observer never fails\<close>

definition observer_tracks :: "SemanticTerminalObserver \<Rightarrow> bool" where
  "observer_tracks q \<longleftrightarrow> so_lastStoreError q = None
     \<and> assembler_tracks running_ids ids_ok (\<lambda>st. bl_maxBlocks (st_limits st)) (so_assembler q, so_store q)"

lemma record_tracks:
  assumes "r = (s, Inr ())" "assembler_tracks running_ids ids_ok (\<lambda>st. bl_maxBlocks (st_limits st)) s"
    "so_lastStoreError q = None"
  shows "observer_tracks (observer_record r q)"
  using assms by (cases s) (simp add: observer_record_def observer_tracks_def)

lemma observe_tracks:
  assumes "observer_tracks q"
  shows "observer_tracks (observer_record (assembler_observe store_operations now evs (so_assembler q, so_store q))
    (q\<lparr>so_decoder := d\<rparr>))"
  using store_interface.observe_ok [of "(so_assembler q, so_store q)" now evs] assms
    record_tracks [of _ _ "q\<lparr>so_decoder := d\<rparr>"]
  by (auto simp: observer_tracks_def)

lemma fallback_active [simp]: "as_activeBlockId (observeFallbackCommand c a) = as_activeBlockId a"
  by (simp add: observeFallbackCommand_def)

interpretation observer_machine: op_machine observer_step observer_tracks
proof unfold_locales
  fix q x assume q: "observer_tracks q"
  show "observer_tracks (fst (observer_step q x))"
  proof (cases x)
    case (ObsAppend bytes now)
    then show ?thesis using q observe_tracks [OF q]
      by (simp add: observer_append_def split: prod.split)
  next
    case (ObsFallback c)
    then show ?thesis using q
      by (simp add: observer_observeFallbackCommand_def observer_tracks_def assembler_tracks_def)
  next
    case (ObsFinish reason now)
    obtain d evs where d: "decoder_finish (so_decoder q) = (d, evs)" by fastforce
    define q1 where "q1 = observer_record (assembler_observe store_operations now evs
      (so_assembler q, so_store q)) (q\<lparr>so_decoder := d\<rparr>)"
    have q1: "observer_tracks q1" unfolding q1_def by (rule observe_tracks [OF q])
    define q2 where "q2 = observer_record (finishActive store_operations reason now
      (so_assembler q1, so_store q1)) q1"
    have "observer_tracks q2"
      using store_interface.finishActive_ok [of "(so_assembler q1, so_store q1)" reason now] q1
        record_tracks [of _ _ q1]
      by (auto simp: q2_def observer_tracks_def)
    then show ?thesis using q ObsFinish d
      by (simp add: observer_finish_def q1_def [symmetric] q2_def [symmetric] Let_def)
        (simp add: observer_tracks_def)
  qed
qed

lemma observer_new_tracks: "observer_tracks (observer_new context nonce limits maximum)"
  by (simp add: observer_tracks_def observer_new_def assembler_tracks_def assembler_new_def store_new_def
      running_ids_def ids_ok_def Let_def)

text \<open>
  A session of the semantic observer never meets an error of its block store: after any sequence of
  appended bytes, fallback commands and finishes no store error is recorded, and the running
  blocks of the store are exactly the active block of the assembler, if there is one.
\<close>

theorem observer_never_fails:
  fixes ops :: "ObserverOp list"
  shows "let q = run_ops observer_step (observer_new context nonce limits maximum) ops
    in so_lastStoreError q = None
      \<and> running_ids (so_store q) = (case as_activeBlockId (so_assembler q) of None \<Rightarrow> [] | Some i \<Rightarrow> [i])"
proof -
  have "observer_tracks (run_ops observer_step (observer_new context nonce limits maximum) ops)"
    by (rule observer_machine.inv_run [OF observer_new_tracks])
  then show ?thesis by (auto simp: observer_tracks_def assembler_tracks_def Let_def split: option.splits)
qed

end
