(* ===== verification/Session_Truth.thy ===== *)
theory Session_Truth
  imports Semantic_Observer
begin

text \<open>
  What the observer stores of a session, end to end: from the bytes of the terminal through the
  decoder (\<open>ShellIntegrationDecoder.cpp\<close>), the assembler (\<open>CommandBlockAssembler.cpp\<close>) and the
  store (\<open>CommandBlockStore.cpp\<close>) to the blocks of a snapshot.  The events of the decoder carry its
  output in order and without holes, so no block of a session ever records a gap.
\<close>

section \<open>Blocks without holes\<close>

definition contiguous :: "CommandBlockStore \<Rightarrow> bool" where
  "contiguous st \<longleftrightarrow> (\<forall>b \<in> set (st_blocks st). cb_missingOutputBytes b = 0)"

definition at_offset :: "nat \<Rightarrow> CommandBlockId \<Rightarrow> CommandBlockStore \<Rightarrow> bool" where
  "at_offset n i st \<longleftrightarrow> (\<exists>b. find_block i st = Some b \<and> cb_state b = Running
     \<and> unat (cb_nextOutputStreamOffset b) = n)"

lemma find_put_block:
  "find_block i st = Some b \<Longrightarrow> cb_id b' = i \<Longrightarrow> find_block i (put_block b' st) = Some b'"
  using find_update_first_same [of cb_id i "\<lambda>_. b'" "st_blocks st"] by (simp add: find_block_def put_block_def)

lemma contiguous_put:
  assumes "contiguous st" "cb_missingOutputBytes b = 0"
  shows "contiguous (put_block b st)"
proof -
  have "set (update_first P (\<lambda>_. b) xs) \<subseteq> insert b (set xs)" for P and xs :: "CommandBlock list"
    by (induction xs) auto
  then show ?thesis using assms by (fastforce simp: contiguous_def put_block_def)
qed

lemma contiguous_frame: "st_blocks st' = st_blocks st \<Longrightarrow> contiguous st' = contiguous st"
  by (simp add: contiguous_def)

lemma contiguous_mem: "contiguous st \<Longrightarrow> find_block i st = Some b \<Longrightarrow> cb_missingOutputBytes b = 0"
  using find_block_id by (auto simp: contiguous_def)

text \<open>Appending bytes that follow directly.\<close>

lemma store_append_new:
  assumes "find_block i st = Some b" "cb_state b = Running"
    and new: "\<not> saturatedAdd off (of_nat (length bs)) \<le> off" and off: "off = cb_nextOutputStreamOffset b"
  defines "ob \<equiv> \<lparr>ob_bytes = bs, ob_streamOffset = off, ob_interleaved = False\<rparr>"
  shows "\<exists>st1. st_blocks st1 = st_blocks st
    \<and> store_append i ob st = (put_block (append_bytes (st_limits st) ob bs (saturatedAdd off (of_nat (length bs))) b) st1, Inr ())"
proof -
  define e where "e = saturatedAdd off (of_nat (length bs))"
  define st1 where "st1 = (case find_artifact i st of None \<Rightarrow> st
    | Some a \<Rightarrow> (case retainArtifact a (saturatedAdd off (of_nat 0)) (drop 0 bs) st of
        (st', a') \<Rightarrow> put_artifact (a'\<lparr>ar_streamEnd := e\<rparr>) st'))"
  have st1: "st_blocks st1 = st_blocks st"
    using retainArtifact_frame by (auto simp: st1_def put_artifact_def split: option.splits prod.splits) (metis fst_conv)+
  have fields: "ob_bytes ob = bs" "ob_streamOffset ob = off" by (simp_all add: ob_def)
  have gap: "append_gap (st_limits st) ob b = b" by (simp add: append_gap_def fields off)
  have running: "(cb_state b = Finished) = False" "(e \<le> off) = False" "(off < off) = False"
    using assms(2) new by (simp_all add: e_def)
  have "store_append i ob st = (put_block (append_bytes (st_limits st) ob (drop 0 bs) e b) st1, Inr ())"
    unfolding store_append_def assms(1) option.case Let_def fields off [symmetric] e_def [symmetric]
      running if_False gap st1_def by (rule refl)
  then show ?thesis using st1 by (auto simp: e_def)
qed

lemma append_next:
  assumes inv: "store_inv lim (Some s) st" "limits_normal lim" "contiguous st" "at_offset n i st"
    and bs: "bs \<noteq> []" "n + length bs \<le> length s" "length s < 2 ^ 63" "bs = slice s n (n + length bs)"
    and off: "unat off = n"
  defines "ob \<equiv> \<lparr>ob_bytes = bs, ob_streamOffset = off, ob_interleaved = False\<rparr>"
  shows "\<exists>st'. store_append i ob st = (st', Inr ()) \<and> store_inv lim (Some s) st' \<and> contiguous st'
    \<and> at_offset (n + length bs) i st'"
proof -
  obtain b where b: "find_block i st = Some b" "cb_state b = Running" "unat (cb_nextOutputStreamOffset b) = n"
    using inv(4) by (auto simp: at_offset_def)
  have next_off: "off = cb_nextOutputStreamOffset b" using b(3) off by (simp add: word_unat_eq_iff)
  have id: "cb_id b = i" using find_block_id [OF b(1)] by simp
  let ?e = "saturatedAdd off (of_nat (length bs))"
  have small: "unat (of_nat (length bs) :: u64) = length bs" using bs(2,3) by (intro unat_size) simp
  have e: "unat ?e = n + length bs" using bs(2,3) off by (simp add: unat_saturatedAdd small)
  have "n < unat ?e" using e bs(1) by simp
  then have gt: "\<not> ?e \<le> off" using off by (simp add: word_le_nat_alt)
  have "observation_ok (Some s) ob" unfolding observation_ok_def ob_def using bs off by simp
  from store_append_inv [OF inv(1,2) this, of i] have inv': "store_inv lim (Some s) (fst (store_append i ob st))" .
  obtain st1 where st1: "st_blocks st1 = st_blocks st"
    and app: "store_append i ob st = (put_block (append_bytes (st_limits st) ob bs ?e b) st1, Inr ())"
    unfolding ob_def using store_append_new [OF b(1,2) gt next_off] by blast
  define b' where "b' = append_bytes (st_limits st) ob bs ?e b"
  have b': "cb_missingOutputBytes b' = 0" "cb_id b' = i" "cb_state b' = Running" "cb_nextOutputStreamOffset b' = ?e"
    using contiguous_mem [OF inv(3) b(1)] id b(2) by (simp_all add: b'_def)
  have "find_block i (put_block b' st1) = Some b'"
    by (rule find_put_block [of i st1 b]) (use b(1) st1 b'(2) in \<open>simp_all add: find_block_def\<close>)
  then have "at_offset (n + length bs) i (put_block b' st1)" using b'(3,4) e by (simp add: at_offset_def)
  moreover have "contiguous (put_block b' st1)" using contiguous_put [OF _ b'(1)] contiguous_frame [OF st1] inv(3) by simp
  ultimately show ?thesis using app inv' by (simp add: b'_def)
qed

lemma put_artifact_blocks [simp]:
  "st_blocks (put_artifact a st) = st_blocks st"
  by (simp add: put_artifact_def)

lemma finish_contiguous:
  assumes "contiguous st"
  shows "contiguous (fst (store_finish i x t r st))"
proof (cases "find_block i st")
  case (Some b)
  let ?b = "b\<lparr>cb_state := Finished, cb_exitStatus := x, cb_finishedUtcMs := Some t, cb_completionReason := Some r\<rparr>"
  have "contiguous (put_block ?b st)" using contiguous_put [OF assms] contiguous_mem [OF assms Some] by simp
  moreover have "contiguous (put_artifact a st') = contiguous st'" for a st'
    by (rule contiguous_frame) simp
  ultimately show ?thesis using Some assms by (simp add: store_finish_def Let_def split: option.split)
qed (use assms in \<open>simp add: store_finish_def\<close>)

lemma mark_contiguous:
  assumes "contiguous st" "at_offset n i st"
  shows "contiguous (fst (store_markOutputUnknown i st)) \<and> at_offset n i (fst (store_markOutputUnknown i st))"
proof -
  obtain b where b: "find_block i st = Some b" "cb_state b = Running" "unat (cb_nextOutputStreamOffset b) = n"
    using assms(2) by (auto simp: at_offset_def)
  let ?b = "updateCoverage (b\<lparr>cb_outputCoverageUncertain := True\<rparr>)"
  have "find_block i (put_block ?b st) = Some ?b" using find_put_block [OF b(1), of ?b] find_block_id [OF b(1)] by simp
  moreover have "contiguous (put_block ?b st)" using contiguous_put [OF assms(1)] contiguous_mem [OF assms(1) b(1)] by simp
  ultimately show ?thesis using b by (simp add: store_markOutputUnknown_def at_offset_def)
qed

lemma evict_blocks: "set (st_blocks (fst (evict_until_room st))) \<subseteq> set (st_blocks st)"
proof (induction st rule: evict_until_room.induct)
  case (1 st)
  have "set (st_blocks (fst (evictOldestFinished st))) \<subseteq> set (st_blocks st)"
    using subsetD [OF set_erase_first] by (auto simp: evictOldestFinished_def eraseArtifact_def split: option.splits)
  then show ?case using 1 by (subst evict_until_room.simps) auto
qed

lemma begin_contiguous:
  assumes "store_inv lim T st" "contiguous st"
  shows "contiguous (fst (store_begin start st)) \<and>
    (\<forall>i. snd (store_begin start st) = Inr i \<longrightarrow> at_offset (unat (bs_outputStreamOffset start)) i (fst (store_begin start st)))"
proof -
  obtain st' ok where e: "evict_until_room st = (st', ok)" by fastforce
  have "store_inv lim T st'" using evict_until_room_inv [OF assms(1)] e by simp
  then have fresh: "\<forall>b \<in> set (st_blocks st'). cb_id b \<noteq> st_nextId st'" by (auto simp: store_inv_def)
  have "contiguous st'" using evict_blocks [of st] assms(2) e by (auto simp: contiguous_def)
  moreover have "find (\<lambda>b. cb_id b = st_nextId st') (st_blocks st') = None" using fresh by (simp add: find_None_iff)
  ultimately show ?thesis using e
    by (cases ok) (auto simp: store_begin_def contiguous_def at_offset_def find_block_def find_append_keyed block_new_def)
qed

section \<open>Events in order\<close>

text \<open>Events that carry the stream \<open>s\<close> from offset \<open>n\<close> to offset \<open>m\<close>.\<close>

fun carries :: "byte list \<Rightarrow> nat \<Rightarrow> ShellIntegrationEvent list \<Rightarrow> nat \<Rightarrow> bool" where
  "carries s n [] m = (n = m)"
| "carries s n (e # es) m = (unat (se_outputStreamOffset e) = n \<and>
     (if se_type e = Output
      then se_output e \<noteq> [] \<and> se_output e = slice s n (n + length (se_output e))
        \<and> carries s (n + length (se_output e)) es m
      else carries s n es m))"

lemma carries_le: "carries s n es m \<Longrightarrow> n \<le> m"
  by (induction es arbitrary: n) (fastforce split: if_splits)+

definition truthful :: "CommandBlockStoreLimits \<Rightarrow> byte list \<Rightarrow> nat \<Rightarrow> CommandBlockAssembler \<times> CommandBlockStore \<Rightarrow> bool" where
  "truthful lim s n x \<longleftrightarrow> store_inv lim (Some s) (snd x) \<and> contiguous (snd x)
     \<and> (\<forall>i. as_activeBlockId (fst x) = Some i \<longrightarrow> at_offset n i (snd x))"

lemma finishActive_truthful:
  assumes "truthful lim s n x" "finishActive store_operations r t x = (x', y)"
  shows "truthful lim s n x'"
proof -
  obtain a st where x: "x = (a, st)" by fastforce
  show ?thesis
  proof (cases "as_activeBlockId a")
    case None
    then show ?thesis using assms x by (simp add: finishActive_def)
  next
    case (Some i)
    then obtain b where b: "find_block i st = Some b" "cb_state b = Running"
      using assms(1) x by (auto simp: truthful_def at_offset_def)
    then have "snd (store_finish i None t r st) = Inr ()" by (simp add: store_finish_def Let_def)
    then show ?thesis
      using assms x Some store_finish_inv [of lim "Some s" st i None t r] finish_contiguous [of st i None t r]
      by (auto simp: finishActive_def truthful_def store_operations_def resetPendingCommand_def
          split: prod.splits sum.splits)
  qed
qed

lemma begin_truthful:
  assumes "truthful lim s n x" "limits_normal lim" "unat (se_outputStreamOffset ev) = n" "n \<le> length s"
    and "as_activeBlockId (fst x) = None" "assembler_begin store_operations ev t x = (x', y)"
  shows "truthful lim s n x'"
proof -
  obtain a st where x: "x = (a, st)" by fastforce
  obtain st' r where b: "store_begin (pending_start ev t a) st = (st', r)" by fastforce
  have inv: "store_inv lim (Some s) st" "contiguous st" using assms(1) x by (simp_all add: truthful_def)
  have "store_inv lim (Some s) st'"
    using store_begin_inv [OF inv(1) assms(2), of "pending_start ev t a"] b assms(3,4) by (simp add: pending_start_def)
  then show ?thesis using begin_contiguous [OF inv, of "pending_start ev t a"] b assms x
    by (cases r) (auto simp: assembler_begin_def truthful_def store_operations_def pending_start_def)
qed

lemma event_truthful:
  assumes "truthful lim s n x" "limits_normal lim" "carries s n (ev # evs) m" "m \<le> length s" "length s < 2 ^ 63"
    and "observe_event_in store_operations now ev x = (x', y)"
  shows "\<exists>k. carries s k evs m \<and> truthful lim s k x'"
proof -
  obtain a st where x: "x = (a, st)" by fastforce
  have n: "unat (se_outputStreamOffset ev) = n" using assms(3) by simp
  have le: "n \<le> length s" using carries_le [OF assms(3)] assms(4) by simp
  have inv: "store_inv lim (Some s) st" "contiguous st" using assms(1) x by (simp_all add: truthful_def)
  have reset: "truthful lim s n (a', st)" if "as_activeBlockId a' = as_activeBlockId a" for a'
    using assms(1) x that by (simp add: truthful_def)
  show ?thesis
  proof (cases "se_type ev")
    case Output
    let ?bs = "se_output ev"
    have out: "?bs \<noteq> []" "?bs = slice s n (n + length ?bs)" "carries s (n + length ?bs) evs m"
      using assms(3) Output by simp_all
    show ?thesis
    proof (cases "as_activeBlockId a")
      case None
      then show ?thesis using assms(1,6) Output x out(3)
        by (auto simp: observe_event_in_def truthful_def)
    next
      case (Some i)
      have at: "at_offset n i st" using assms(1) Some x by (simp add: truthful_def)
      have "n + length ?bs \<le> length s" using carries_le [OF out(3)] assms(4) by simp
      from append_next [OF inv(1) assms(2) inv(2) at out(1) this assms(5) out(2) n] obtain st' where
        "store_append i \<lparr>ob_bytes = ?bs, ob_streamOffset = se_outputStreamOffset ev, ob_interleaved = False\<rparr> st
          = (st', Inr ())" "store_inv lim (Some s) st'" "contiguous st'" "at_offset (n + length ?bs) i st'" by blast
      then show ?thesis using assms(6) Output Some x out(3)
        by (auto simp: observe_event_in_def truthful_def store_operations_def)
    qed
  next
    case PromptStart
    then show ?thesis using assms(1,3,6) x finishActive_truthful [OF assms(1), of PromptRecovery now x' y]
      by (auto simp: observe_event_in_def split: if_splits)
  next
    case CommandExecuted
    let ?r = "if as_activeBlockId a \<noteq> None then finishActive store_operations PromptRecovery now x else (x, Inr ())"
    obtain x1 y1 where r: "?r = (x1, y1)" by fastforce
    have x1: "truthful lim s n x1"
      using r assms(1) finishActive_truthful [OF assms(1)] by (auto split: if_splits)
    have y: "(x', y) = (case y1 of Inl e \<Rightarrow> (x1, Inl e) | Inr _ \<Rightarrow> assembler_begin store_operations ev now x1)"
      using assms(6) unfolding observe_event_in_def x prod.case CommandExecuted ShellIntegrationEventType.case r [unfolded x]
      by simp
    have "truthful lim s n x'"
    proof (cases y1)
      case (Inl e)
      then show ?thesis using y x1 by simp
    next
      case (Inr u)
      then have "as_activeBlockId (fst x1) = None"
        using r x by (auto simp: finishActive_def resetPendingCommand_def split: if_splits option.splits prod.splits sum.splits)
      then show ?thesis using begin_truthful [OF x1 assms(2) n le] y Inr by (metis (mono_tags) sum.case(2))
    qed
    then show ?thesis using assms(3) CommandExecuted by auto
  next
    case CommandFinished
    have "truthful lim s n x'"
    proof (cases "as_activeBlockId a")
      case None
      then show ?thesis using assms(6) CommandFinished x reset [of "resetPendingCommand a"]
        by (simp add: observe_event_in_def resetPendingCommand_def)
    next
      case (Some i)
      then obtain b where b: "find_block i st = Some b" "cb_state b = Running"
        using assms(1) x by (auto simp: truthful_def at_offset_def)
      then have "snd (store_finish i (se_exitStatus ev) now ShellMarker st) = Inr ()" by (simp add: store_finish_def Let_def)
      then show ?thesis
        using assms(6) CommandFinished Some x store_finish_inv [OF inv(1), of i "se_exitStatus ev" now ShellMarker]
          finish_contiguous [OF inv(2), of i "se_exitStatus ev" now ShellMarker]
        by (auto simp: observe_event_in_def truthful_def store_operations_def resetPendingCommand_def
            split: prod.splits sum.splits)
    qed
    then show ?thesis using assms(3) CommandFinished by auto
  next
    case DecoderError
    have "truthful lim s n x'"
    proof (cases "as_activeBlockId a")
      case None
      then show ?thesis using assms(6) DecoderError x reset [of "a\<lparr>as_pendingCommandVerified := False\<rparr>"]
        by (auto simp: observe_event_in_def)
    next
      case (Some i)
      have at: "at_offset n i st" using assms(1) Some x by (simp add: truthful_def)
      show ?thesis
        using assms(6) DecoderError Some x store_mark_inv [OF inv(1), of i] mark_contiguous [OF inv(2) at]
        by (auto simp: observe_event_in_def truthful_def store_operations_def split: prod.splits sum.splits)
    qed
    then show ?thesis using assms(3) DecoderError by auto
  qed (use assms(3,6) x reset in \<open>auto simp: observe_event_in_def resetPendingCommand_def\<close>)
qed

lemma observe_truthful:
  assumes "truthful lim s n x" "limits_normal lim" "carries s n evs m" "m \<le> length s" "length s < 2 ^ 63"
    and "assembler_tracks running_ids ids_ok (\<lambda>st. bl_maxBlocks (st_limits st)) x"
  shows "truthful lim s m (fst (assembler_observe store_operations now evs x))"
  using assms(1,3,6)
proof (induction evs arbitrary: n x)
  case (Cons ev evs)
  obtain x1 where x1: "observe_event_in store_operations now ev x = (x1, Inr ())"
    "assembler_tracks running_ids ids_ok (\<lambda>st. bl_maxBlocks (st_limits st)) x1"
    using store_interface.event_ok [OF Cons.prems(3)] by blast
  from event_truthful [OF Cons.prems(1) assms(2) Cons.prems(2) assms(4,5) x1(1)] obtain k where
    "carries s k evs m" "truthful lim s k x1" by blast
  from Cons.IH [OF this(2,1) x1(2)] x1(1) show ?case by simp
qed simp


section \<open>The events of the decoder carry its output\<close>

lemma output_of_bytes [simp]: "output_of (output_bytes off bs) = bs"
  by (induction bs arbitrary: off) auto

lemma numbered_bytes: "bs \<noteq> [] \<Longrightarrow> numbered off (output_bytes off' bs) \<Longrightarrow> off' = off"
  by (cases bs) auto

definition solid :: "ShellIntegrationEvent list \<Rightarrow> bool" where
  "solid es \<longleftrightarrow> (\<forall>e \<in> set es. se_type e = Output \<longrightarrow> se_output e \<noteq> [])"

lemma solid_emit: "solid es \<Longrightarrow> solid (snd (emitOutputByte v r (d, es)))"
  by (cases es rule: rev_cases) (auto simp: solid_def emitOutputByte_def)

lemma solid_osc: "solid es \<Longrightarrow> solid (es @ osc_events d)"
  using osc_events_marks by (auto simp: solid_def)

lemma solid_byte: "solid es \<Longrightarrow> solid (snd (decode_byte v (d, es)))"
  using solid_emit solid_osc
  by (cases "sd_state d") (auto simp: decode_normal decode_escape decode_osc decode_osc_escape finishOsc_eq Let_def split: prod.splits)

lemma solid_append: "solid (snd (decoder_append bs d))"
proof -
  have "solid es \<Longrightarrow> solid (snd (foldl (\<lambda>de value. decode_byte value de) (d, es) bs))" for es
  proof (induction bs arbitrary: d es)
    case (Cons b bs)
    then show ?case using solid_byte [of es b d] by (cases "decode_byte b (d, es)") simp
  qed simp
  from this [of "[]"] show ?thesis by (simp add: decoder_append_def solid_def)
qed

lemma solid_finish: "solid (snd (decoder_finish d))"
  using solid_emit [of "[]"] by (auto simp: decoder_finish_def solid_def sd_event_def emit_eq Let_def
      split: DecoderState.split)

lemma finish_numbered: "numbered (sd_outputStreamOffset d) (observations (snd (decoder_finish d)))"
  by (simp add: decoder_finish_def emit_eq observations_def observe_event_def Let_def split: DecoderState.split)

lemma carries_numbered:
  assumes "numbered off (observations es)" "unat off = n" "solid es" "n \<le> length s" "length s < 2 ^ 63"
    and "drop n s = output_of (observations es) @ rest"
  shows "carries s n es (n + length (output_of (observations es)))"
  using assms
proof (induction es arbitrary: off n)
  case (Cons e es)
  have tail: "solid es" using Cons.prems(3) by (simp add: solid_def)
  have obs: "observations (e # es) = observe_event e @ observations es" by (simp add: observations_def)
  show ?case
  proof (cases "se_type e = Output")
    case True
    let ?bs = "se_output e"
    have e: "observe_event e = output_bytes (se_outputStreamOffset e) ?bs" using True by (simp add: observe_event_def)
    have ne: "?bs \<noteq> []" using Cons.prems(3) True by (simp add: solid_def)
    have off: "se_outputStreamOffset e = off"
      using Cons.prems(1) numbered_bytes [OF ne] by (simp add: obs e numbered_append)
    have num: "numbered (off + of_nat (length ?bs)) (observations es)"
      using Cons.prems(1) by (simp add: obs e numbered_append)
    have split: "drop n s = ?bs @ output_of (observations es) @ rest" using Cons.prems(6) by (simp add: obs e)
    then have "length s - n = length ?bs + length (output_of (observations es) @ rest)"
      by (metis length_append length_drop)
    then have len: "n + length ?bs \<le> length s" using Cons.prems(4) by simp
    have next_off: "unat (off + of_nat (length ?bs)) = n + length ?bs"
      using len Cons.prems(2,5) unat_size [of "length ?bs"] by (subst unat_plus_if_size) (simp add: word_size)
    have "drop (n + length ?bs) s = output_of (observations es) @ rest"
      using arg_cong [OF split, of "drop (length ?bs)"] by (simp add: add.commute)
    from Cons.IH [OF num next_off tail len Cons.prems(5) this]
    have "carries s (n + length ?bs) es (n + length ?bs + length (output_of (observations es)))" .
    moreover have "?bs = slice s n (n + length ?bs)" using split by (simp add: slice_def)
    ultimately show ?thesis using True ne off Cons.prems(2) by (simp add: obs e add.assoc)
  next
    case False
    then have "observe_event e = [Marker e]" by (simp add: observe_event_def)
    with Cons.prems Cons.IH [OF _ _ tail Cons.prems(4,5), of off] False show ?thesis by (simp add: obs)
  qed
qed (simp add: observations_def)

section \<open>A session\<close>

text \<open>What the terminal shows in a session: the output of the decoder.\<close>

fun session_output :: "ShellIntegrationDecoder \<Rightarrow> ObserverOp list \<Rightarrow> byte list" where
  "session_output d [] = []"
| "session_output d (ObsAppend bytes now # ops) =
     output_of (snd (decoder_feed d bytes)) @ session_output (fst (decoder_feed d bytes)) ops"
| "session_output d (ObsFallback command # ops) = session_output d ops"
| "session_output d (ObsFinish reason now # ops) = output_of (observations (snd (decoder_finish d)))"

definition session_ok :: "CommandBlockStoreLimits \<Rightarrow> byte list \<Rightarrow> nat \<Rightarrow> SemanticTerminalObserver \<Rightarrow> bool" where
  "session_ok lim s n q \<longleftrightarrow> observer_tracks q \<and> truthful lim s n (so_assembler q, so_store q)"

lemma observed_session:
  assumes "session_ok lim s n q" "limits_normal lim" "carries s n evs m" "m \<le> length s" "length s < 2 ^ 63"
  shows "session_ok lim s m (observer_record
    (assembler_observe store_operations now evs (so_assembler q, so_store q)) (q\<lparr>so_decoder := d\<rparr>))"
proof -
  let ?x = "(so_assembler q, so_store q)"
  have q: "observer_tracks q" "truthful lim s n ?x" using assms(1) by (simp_all add: session_ok_def)
  have tr: "assembler_tracks running_ids ids_ok (\<lambda>st. bl_maxBlocks (st_limits st)) ?x"
    using q(1) by (simp add: observer_tracks_def)
  from observe_truthful [OF q(2) assms(2-5) tr, of now] observe_tracks [OF q(1), of now evs d]
  show ?thesis by (cases "assembler_observe store_operations now evs ?x")
    (auto simp: session_ok_def observer_record_def split: prod.splits)
qed

lemma finished_session: "so_finished q \<Longrightarrow> run_ops observer_step q ops = q"
proof (induction ops)
  case (Cons x ops)
  then show ?case
    by (cases x) (simp_all add: observer_append_def observer_observeFallbackCommand_def observer_finish_def)
qed simp

lemma session_run:
  assumes "limits_normal lim" "length s < 2 ^ 63" "n \<le> length s"
    and "session_ok lim s n q" "\<not> so_finished q" "unat (sd_outputStreamOffset (so_decoder q)) = n"
    and "drop n s = session_output (so_decoder q) ops"
  shows "session_ok lim s (length s) (run_ops observer_step q ops)"
  using assms(3-)
proof (induction ops arbitrary: n q)
  case Nil
  then have "n = length s" by simp
  with Nil.prems(2) show ?case by simp
next
  case (Cons x ops)
  show ?case
  proof (cases x)
    case (ObsAppend bytes now)
    obtain d evs where d: "decoder_append bytes (so_decoder q) = (d, evs)" by fastforce
    then have feed: "decoder_feed (so_decoder q) bytes = (d, observations evs)" by (simp add: decoder_feed_def)
    let ?m = "n + length (output_of (observations evs))"
    let ?q = "observer_record (assembler_observe store_operations now evs (so_assembler q, so_store q)) (q\<lparr>so_decoder := d\<rparr>)"
    have split: "drop n s = output_of (observations evs) @ session_output d ops"
      using Cons.prems(5) ObsAppend feed by simp
    have num: "numbered (sd_outputStreamOffset (so_decoder q)) (observations evs)"
      and off: "sd_outputStreamOffset d = sd_outputStreamOffset (so_decoder q) + of_nat (length (output_of (observations evs)))"
      using decoder_counts [of "so_decoder q" bytes] feed by simp_all
    have "solid evs" using solid_append [of bytes "so_decoder q"] d by simp
    from carries_numbered [OF num Cons.prems(4) this Cons.prems(1) assms(2) split] have c: "carries s n evs ?m" .
    have "length s - n = length (output_of (observations evs) @ session_output d ops)"
      using split by (metis length_drop)
    then have m: "?m \<le> length s" using Cons.prems(1) by simp
    show ?thesis
    proof (cases "bytes = []")
      case True
      then have "evs = []" "d = so_decoder q" using d by (simp_all add: decoder_append_def)
      then show ?thesis using Cons.IH [OF Cons.prems(1-4)] split True ObsAppend
        by (simp add: observer_append_def)
    next
      case False
      have step: "fst (observer_step q x) = ?q" using False ObsAppend Cons.prems(3) d by (simp add: observer_append_def)
      have "so_decoder ?q = d" "so_finished ?q = so_finished q" by (simp_all add: observer_record_def split: prod.split)
      moreover have "unat (sd_outputStreamOffset d) = ?m"
        using off m assms(2) Cons.prems(4) unat_size [of "length (output_of (observations evs))"]
        by (subst off, subst unat_plus_if_size) (simp add: word_size)
      moreover have "drop ?m s = session_output d ops"
        using split by (metis append_eq_conv_conj drop_drop add.commute)
      ultimately show ?thesis
        using Cons.IH [OF m observed_session [OF Cons.prems(2) assms(1) c m assms(2)]] Cons.prems(3) step by simp
    qed
  next
    case (ObsFallback command)
    have "session_ok lim s n (observer_observeFallbackCommand command q)"
      using Cons.prems(2,3)
      by (simp add: session_ok_def observer_observeFallbackCommand_def observer_tracks_def assembler_tracks_def truthful_def)
    then show ?thesis using Cons.IH [of n "observer_observeFallbackCommand command q"] Cons.prems ObsFallback
      by (simp add: observer_observeFallbackCommand_def)
  next
    case (ObsFinish reason now)
    obtain d evs where d: "decoder_finish (so_decoder q) = (d, evs)" by fastforce
    let ?q1 = "observer_record (assembler_observe store_operations now evs (so_assembler q, so_store q)) (q\<lparr>so_decoder := d\<rparr>)"
    let ?q = "observer_finish reason now q"
    have split: "drop n s = output_of (observations evs) @ []" using Cons.prems(5) ObsFinish d by simp
    have num: "numbered (sd_outputStreamOffset (so_decoder q)) (observations evs)"
      using finish_numbered [of "so_decoder q"] d by simp
    have "solid evs" using solid_finish [of "so_decoder q"] d by simp
    from carries_numbered [OF num Cons.prems(4) this Cons.prems(1) assms(2) split]
    have c: "carries s n evs (length s)" using split Cons.prems(1) by (metis append_Nil2 le_add_diff_inverse length_drop)
    have q1: "session_ok lim s (length s) ?q1"
      using observed_session [OF Cons.prems(2) assms(1) c le_refl assms(2)] .
    obtain y r where f: "finishActive store_operations reason now (so_assembler ?q1, so_store ?q1) = (y, r)" by fastforce
    have "truthful lim s (length s) y"
      using finishActive_truthful [OF _ f] q1 by (simp add: session_ok_def)
    moreover have "observer_tracks ?q" using observer_machine.inv_step [of q x] Cons.prems(2) ObsFinish
      by (simp add: session_ok_def)
    moreover have fin: "so_finished ?q" "so_assembler ?q = fst y" "so_store ?q = snd y"
      using Cons.prems(3) d f by (simp_all add: observer_finish_def observer_record_def [of "(y, r)"] Let_def split: prod.split)
    ultimately have "session_ok lim s (length s) ?q" by (simp add: session_ok_def)
    then show ?thesis using finished_session [OF fin(1)] ObsFinish by simp
  qed
qed

text \<open>
  C6. What the observer stores of a session is what the terminal showed.  After any sequence of appended
  chunks, fallback commands and finishes of a new observer, every block of its snapshot has missed
  no byte of the output, retains the output between its first and its next offset, as a whole or
  as the head and the tail that fill the capacity, and a block that still runs reaches to the end of
  the output.
\<close>

theorem session_output_truthful:
  fixes ops :: "ObserverOp list" and cx nonce limits maximum
  defines "q \<equiv> run_ops observer_step (observer_new cx nonce limits maximum) ops"
    and "s \<equiv> session_output (decoder_new nonce maximum) ops" and "lim \<equiv> st_limits (store_new limits)"
  assumes "length s < 2 ^ 63" "bl_maxOutputBytesPerBlock limits < 2 ^ 63"
    and "b \<in> set (sn_commandBlocks (observer_snapshot q))"
  shows "cb_missingOutputBytes b = 0
    \<and> cb_retainedOutput b = bounded_view (bl_maxOutputBytesPerBlock lim) (bl_retainedHeadBytes lim)
        (slice s (unat (cb_firstOutputStreamOffset b)) (unat (cb_nextOutputStreamOffset b)))
    \<and> (cb_state b = Running \<longrightarrow> unat (cb_nextOutputStreamOffset b) = length s)"
proof -
  let ?q0 = "observer_new cx nonce limits maximum"
  have b: "b \<in> set (st_blocks (so_store q))" using assms(6) by (simp add: observer_snapshot_def)
  have new: "limits_normal lim" "store_inv lim (Some s) (store_new limits)"
    using store_new_inv [OF assms(5)] by (simp_all add: lim_def)
  have "session_ok lim s 0 ?q0"
    using observer_new_tracks new(2)
    by (simp add: session_ok_def truthful_def observer_new_def contiguous_def store_new_def assembler_new_def Let_def)
  then have "session_ok lim s (length s) q" unfolding q_def
    by (rule session_run [OF new(1) assms(4) le0]) (simp_all add: observer_new_def s_def decoder_new_def)
  then have inv: "store_inv lim (Some s) (so_store q)" "contiguous (so_store q)" "observer_tracks q"
    "\<And>i. as_activeBlockId (so_assembler q) = Some i \<Longrightarrow> at_offset (length s) i (so_store q)"
    by (simp_all add: session_ok_def truthful_def)
  have missing: "cb_missingOutputBytes b = 0" using inv(2) b by (simp add: contiguous_def)
  obtain out where out: "views lim b out" "block_true s b out"
    using pair_of_mem [OF inv(1) b] by (auto simp: pair_inv_def)
  have "unat (cb_nextOutputStreamOffset b) = length s" if "cb_state b = Running"
  proof -
    have "cb_id b \<in> set (running_ids (so_store q))" using that b by (auto simp: running_ids_def)
    then have "as_activeBlockId (so_assembler q) = Some (cb_id b)"
      using inv(3) by (auto simp: observer_tracks_def assembler_tracks_def split: option.splits)
    moreover have "find_block (cb_id b) (so_store q) = Some b"
      using find_by_key [of cb_id "st_blocks (so_store q)" b] inv(1) b by (simp add: store_inv_def find_block_def)
    ultimately show ?thesis using inv(4) by (auto simp: at_offset_def)
  qed
  then show ?thesis using missing out by (simp add: views_def block_true_def)
qed

definition sample_session :: "ObserverOp list" where
  "sample_session = [ObsAppend [0x1b, 0x5d, 49, 51, 51, 59, 67, 7, 65, 66] 5]"
definition sample_context :: CommandBlockSessionContext where
  "sample_context = \<lparr>cx_sessionId = [], cx_host = [], cx_shell = [], cx_sessionGeneration = 0\<rparr>"

definition sample_events :: "ShellIntegrationEvent list" where
  "sample_events = [sd_event CommandExecuted Osc133Protocol 0 0, (sd_event Output NoProtocol 0 8)\<lparr>se_output := [65, 66]\<rparr>]"

lemma sample_decoded:
  "snd (decoder_append [0x1b, 0x5d, 49, 51, 51, 59, 67, 7, 65, 66] (decoder_new [] 9)) = sample_events"
  by code_simp

lemma sample_output: "session_output (decoder_new [] 9) sample_session = [65, 66]"
  by code_simp

lemma sample_stored:
  "\<exists>b. b \<in> set (st_blocks (snd (fst (assembler_observe store_operations 5 sample_events
      (assembler_new sample_context, store_new sample_limits)))))
    \<and> cb_state b = Running \<and> cb_firstOutputStreamOffset b = 0"
  by (simp add: sample_events_def store_evaluation observe_event_in_def assembler_new_def assembler_begin_def
     pending_start_def store_operations_def sd_event_def word_le_nat_alt word_less_nat_alt)

lemma record_blocks: "sn_commandBlocks (observer_snapshot (observer_record r q)) = st_blocks (snd (fst r))"
  by (simp add: observer_record_def observer_snapshot_def split: prod.split)

lemma sample_observed:
  "\<exists>b. b \<in> set (sn_commandBlocks (observer_snapshot
       (run_ops observer_step (observer_new sample_context [] sample_limits 9) sample_session)))
    \<and> cb_state b = Running \<and> cb_firstOutputStreamOffset b = 0"
  using sample_stored sample_decoded
  by (cases "decoder_append [0x1b, 0x5d, 49, 51, 51, 59, 67, 7, 65, 66] (decoder_new [] 9)")
    (simp add: sample_session_def observer_append_def record_blocks observer_new_def)

lemma session_output_truthful_witness:
  "\<exists>b. b \<in> set (sn_commandBlocks (observer_snapshot
       (run_ops observer_step (observer_new sample_context [] sample_limits 9) sample_session)))
    \<and> cb_retainedOutput b = [65, 66]"
proof -
  obtain b where b: "b \<in> set (sn_commandBlocks (observer_snapshot
       (run_ops observer_step (observer_new sample_context [] sample_limits 9) sample_session)))"
    "cb_state b = Running" "cb_firstOutputStreamOffset b = 0" using sample_observed by blast
  have "bl_maxOutputBytesPerBlock sample_limits < 2 ^ 63" by (simp add: sample_limits_def)
  from session_output_truthful [OF _ this b(1)] b show ?thesis
    by (auto simp: sample_output sample_limits_def store_new_def bounded_view_def slice_def Let_def)
qed
end
