(* ===== verification/Host_Keys.thy ===== *)
theory Host_Keys
  imports Prelude
begin

text \<open>
  Host keys: \<open>src/domain/ssh/SshHostKey\<close>.  A key the server presented is compared with the recorded
  ones of the same endpoint; what the user is shown is the unpadded base64 text of its SHA-256 hash.
  The theory also has the reference decoder of that text, with which showing two different hashes the
  same way is excluded, and the padded encoder of \<open>ExplicitProxyTunnel.cpp\<close>, which is the same
  routine with the padding added.
\<close>

datatype HostKeyAlgorithm = UnknownAlgorithm | Rsa | EcdsaP256 | EcdsaP384 | EcdsaP521 | Ed25519

record SshEndpoint =
  ep_host :: string
  ep_port :: u16

record ObservedHostKey =
  hk_algorithm :: HostKeyAlgorithm
  hk_encodedKey :: "byte list"
  hk_sha256 :: "byte list"

record KnownHostEntry =
  kh_endpoint :: SshEndpoint
  kh_algorithm :: HostKeyAlgorithm
  kh_encodedKey :: "byte list"

datatype HostKeyTrust = Trusted | UnknownHostKey | ChangedHostKey | InvalidHostKey

definition observed_valid :: "ObservedHostKey \<Rightarrow> bool" where
  "observed_valid k \<longleftrightarrow> hk_algorithm k \<noteq> UnknownAlgorithm \<and> hk_encodedKey k \<noteq> []"

section \<open>Base64\<close>

definition Base64Alphabet :: string where
  "Base64Alphabet = ''ABCDEFGHIJKLMNOPQRSTUVWXYZabcdefghijklmnopqrstuvwxyz0123456789+/''"

unbundle bit_operations_syntax

text \<open>\<open>sextet value shift\<close>: the character of \<open>(value >> shift) & 0x3f\<close>.\<close>

definition sextet :: "u32 \<Rightarrow> nat \<Rightarrow> char" where
  "sextet value shift = Base64Alphabet ! unat (drop_bit shift value AND 0x3F)"

definition pack3 :: "byte \<Rightarrow> byte \<Rightarrow> byte \<Rightarrow> u32" where
  "pack3 a b c = push_bit 16 (ucast a) OR push_bit 8 (ucast b) OR ucast c"

fun base64WithoutPadding :: "byte list \<Rightarrow> string" where
  "base64WithoutPadding (a # b # c # rest) =
     (let value = pack3 a b c
      in [sextet value 18, sextet value 12, sextet value 6, sextet value 0] @ base64WithoutPadding rest)"
| "base64WithoutPadding [a, b] = (let value = pack3 a b 0 in [sextet value 18, sextet value 12, sextet value 6])"
| "base64WithoutPadding [a] = (let value = pack3 a 0 0 in [sextet value 18, sextet value 12])"
| "base64WithoutPadding [] = []"

text \<open>The tunnel's encoder: three bytes per round, missing ones zero and shown as \<open>=\<close>.\<close>

fun base64Encode :: "byte list \<Rightarrow> string" where
  "base64Encode (a # b # c # rest) =
     (let combined = pack3 a b c
      in [sextet combined 18, sextet combined 12, sextet combined 6, sextet combined 0] @ base64Encode rest)"
| "base64Encode [a, b] =
     (let combined = pack3 a b 0 in [sextet combined 18, sextet combined 12, sextet combined 6, CHR ''=''])"
| "base64Encode [a] = (let combined = pack3 a 0 0 in [sextet combined 18, sextet combined 12, CHR ''='', CHR ''=''])"
| "base64Encode [] = []"

definition sha256Fingerprint :: "ObservedHostKey \<Rightarrow> string" where
  "sha256Fingerprint k = ''SHA256:'' @ base64WithoutPadding (hk_sha256 k)"

section \<open>Algorithms\<close>

fun hostKeyAlgorithmName :: "HostKeyAlgorithm \<Rightarrow> string" where
  "hostKeyAlgorithmName Rsa = ''RSA''"
| "hostKeyAlgorithmName EcdsaP256 = ''ECDSA P-256''"
| "hostKeyAlgorithmName EcdsaP384 = ''ECDSA P-384''"
| "hostKeyAlgorithmName EcdsaP521 = ''ECDSA P-521''"
| "hostKeyAlgorithmName Ed25519 = ''ED25519''"
| "hostKeyAlgorithmName UnknownAlgorithm = ''Unknown''"

fun hostKeyAlgorithmToken :: "HostKeyAlgorithm \<Rightarrow> string" where
  "hostKeyAlgorithmToken Rsa = ''ssh-rsa''"
| "hostKeyAlgorithmToken EcdsaP256 = ''ecdsa-sha2-nistp256''"
| "hostKeyAlgorithmToken EcdsaP384 = ''ecdsa-sha2-nistp384''"
| "hostKeyAlgorithmToken EcdsaP521 = ''ecdsa-sha2-nistp521''"
| "hostKeyAlgorithmToken Ed25519 = ''ssh-ed25519''"
| "hostKeyAlgorithmToken UnknownAlgorithm = []"

definition parseHostKeyAlgorithm :: "string \<Rightarrow> HostKeyAlgorithm option" where
  "parseHostKeyAlgorithm token =
     (if token = ''ssh-rsa'' then Some Rsa
      else if token = ''ecdsa-sha2-nistp256'' then Some EcdsaP256
      else if token = ''ecdsa-sha2-nistp384'' then Some EcdsaP384
      else if token = ''ecdsa-sha2-nistp521'' then Some EcdsaP521
      else if token = ''ssh-ed25519'' then Some Ed25519
      else None)"

section \<open>Trust\<close>

definition malformed :: "KnownHostEntry \<Rightarrow> bool" where
  "malformed e \<longleftrightarrow> ep_host (kh_endpoint e) = [] \<or> ep_port (kh_endpoint e) = 0
     \<or> kh_algorithm e = UnknownAlgorithm \<or> kh_encodedKey e = []"

fun trust_loop :: "SshEndpoint \<Rightarrow> ObservedHostKey \<Rightarrow> bool \<Rightarrow> KnownHostEntry list \<Rightarrow> HostKeyTrust" where
  "trust_loop endpoint observed endpointFound [] = (if endpointFound then ChangedHostKey else UnknownHostKey)"
| "trust_loop endpoint observed endpointFound (e # rest) =
     (if kh_endpoint e \<noteq> endpoint then trust_loop endpoint observed endpointFound rest
      else if malformed e then InvalidHostKey
      else if kh_algorithm e = hk_algorithm observed \<and> kh_encodedKey e = hk_encodedKey observed then Trusted
      else trust_loop endpoint observed True rest)"

definition evaluateHostKeyTrust :: "SshEndpoint \<Rightarrow> ObservedHostKey \<Rightarrow> KnownHostEntry list \<Rightarrow> HostKeyTrust" where
  "evaluateHostKeyTrust endpoint observed knownHosts =
     (if ep_host endpoint = [] \<or> ep_port endpoint = 0 \<or> \<not> observed_valid observed then InvalidHostKey
      else trust_loop endpoint observed False knownHosts)"

section \<open>Lemmas\<close>

lemma algorithm_token_roundtrip:
  "parseHostKeyAlgorithm (hostKeyAlgorithmToken a) = (if a = UnknownAlgorithm then None else Some a)"
  by (cases a) (simp_all add: parseHostKeyAlgorithm_def)

lemma algorithm_token_onto:
  "parseHostKeyAlgorithm t = Some a \<Longrightarrow> hostKeyAlgorithmToken a = t \<and> a \<noteq> UnknownAlgorithm"
  by (auto simp: parseHostKeyAlgorithm_def split: if_splits)

text \<open>The entry that would make the observed key trusted.\<close>

definition entry_for :: "SshEndpoint \<Rightarrow> ObservedHostKey \<Rightarrow> KnownHostEntry" where
  "entry_for endpoint observed =
     \<lparr>kh_endpoint = endpoint, kh_algorithm = hk_algorithm observed, kh_encodedKey = hk_encodedKey observed\<rparr>"

lemma trust_loop_characterised:
  assumes "\<forall>e \<in> set es. kh_endpoint e = endpoint \<longrightarrow> \<not> malformed e"
  shows "trust_loop endpoint observed found es =
    (if entry_for endpoint observed \<in> set es then Trusted
     else if found \<or> (\<exists>e \<in> set es. kh_endpoint e = endpoint) then ChangedHostKey else UnknownHostKey)"
  using assms
proof (induction es arbitrary: found)
  case (Cons e es)
  have key: "(e = entry_for endpoint observed) = (kh_endpoint e = endpoint
    \<and> kh_algorithm e = hk_algorithm observed \<and> kh_encodedKey e = hk_encodedKey observed)"
    by (cases e) (auto simp: entry_for_def)
  show ?case using Cons by (auto simp: key eq_commute [of "entry_for endpoint observed"])
qed simp

lemma trust_loop_Trusted_in: "trust_loop endpoint observed found es = Trusted \<Longrightarrow> entry_for endpoint observed \<in> set es"
proof (induction es arbitrary: found)
  case (Cons e es)
  then show ?case
    by (cases e) (auto simp: entry_for_def split: if_splits)
qed (simp split: if_splits)

lemma trust_loop_Unknown_absent:
  "trust_loop endpoint observed found es = UnknownHostKey \<Longrightarrow> \<not> found \<and> (\<forall>e \<in> set es. kh_endpoint e \<noteq> endpoint)"
  by (induction es arbitrary: found) (auto split: if_splits)

lemma trust_loop_absent:
  "\<forall>e \<in> set es. kh_endpoint e \<noteq> endpoint \<Longrightarrow> trust_loop endpoint observed found (es @ fs) = trust_loop endpoint observed found fs"
  by (induction es) auto

lemma Trusted_in:
  "evaluateHostKeyTrust endpoint observed es = Trusted \<Longrightarrow> entry_for endpoint observed \<in> set es"
  by (auto simp: evaluateHostKeyTrust_def intro: trust_loop_Trusted_in split: if_splits)

lemma entry_for_well_formed:
  "ep_host endpoint \<noteq> [] \<Longrightarrow> ep_port endpoint \<noteq> 0 \<Longrightarrow> observed_valid observed
    \<Longrightarrow> \<not> malformed (entry_for endpoint observed)"
  by (simp add: malformed_def entry_for_def observed_valid_def)

lemma accepted_once_trusted:
  assumes "evaluateHostKeyTrust endpoint observed es = UnknownHostKey"
  shows "evaluateHostKeyTrust endpoint observed (es @ [entry_for endpoint observed]) = Trusted"
proof -
  have ok: "ep_host endpoint \<noteq> []" "ep_port endpoint \<noteq> 0" "observed_valid observed"
    and "trust_loop endpoint observed False es = UnknownHostKey"
    using assms by (auto simp: evaluateHostKeyTrust_def split: if_splits)
  then show ?thesis
    using trust_loop_Unknown_absent [of endpoint observed False es] entry_for_well_formed [OF ok]
    by (simp add: evaluateHostKeyTrust_def trust_loop_absent) (simp add: entry_for_def)
qed

section \<open>The reference decoder\<close>

definition index_of :: "char \<Rightarrow> nat" where
  "index_of c = length (takeWhile (\<lambda>d. d \<noteq> c) Base64Alphabet)"

lemma alphabet_distinct: "distinct Base64Alphabet"
  by (simp add: Base64Alphabet_def)

lemma alphabet_length: "length Base64Alphabet = 64"
  by (simp add: Base64Alphabet_def)

lemma index_of_nth: "i < 64 \<Longrightarrow> index_of (Base64Alphabet ! i) = i"
proof -
  assume i: "i < 64"
  have "takeWhile (\<lambda>d. d \<noteq> Base64Alphabet ! i) Base64Alphabet = take i Base64Alphabet"
  proof (rule takeWhile_eq_take_P_nth)
    fix j assume "j < i" "j < length Base64Alphabet"
    then show "Base64Alphabet ! j \<noteq> Base64Alphabet ! i"
      using i alphabet_distinct by (simp add: nth_eq_iff_index_eq alphabet_length)
  qed (simp add: alphabet_length i)
  then show ?thesis using i by (simp add: index_of_def alphabet_length)
qed

definition six :: "char \<Rightarrow> u32" where
  "six c = of_nat (index_of c)"

lemma six_sextet: "six (sextet v k) = drop_bit k v AND 0x3F"
proof -
  have "unat (drop_bit k v AND 0x3F) < 64"
  proof -
    have "drop_bit k v AND 0x3F \<le> (0x3F :: u32)" by (simp add: word_and_le1)
    then have "unat (drop_bit k v AND 0x3F) \<le> unat (0x3F :: u32)" by (simp only: word_le_nat_alt)
    then show ?thesis by simp
  qed
  then show ?thesis by (simp add: six_def sextet_def index_of_nth)
qed

definition unpack4 :: "u32 \<Rightarrow> u32 \<Rightarrow> u32 \<Rightarrow> u32 \<Rightarrow> byte list" where
  "unpack4 p q r s =
     (let v = push_bit 18 p OR push_bit 12 q OR push_bit 6 r OR s
      in [ucast (drop_bit 16 v), ucast (drop_bit 8 v), ucast v])"

fun base64_decode :: "string \<Rightarrow> byte list" where
  "base64_decode (p # q # r # s # rest) =
     (if r = CHR ''='' then take 1 (unpack4 (six p) (six q) 0 0)
      else if s = CHR ''='' then take 2 (unpack4 (six p) (six q) (six r) 0)
      else unpack4 (six p) (six q) (six r) (six s) @ base64_decode rest)"
| "base64_decode [p, q, r] = take 2 (unpack4 (six p) (six q) (six r) 0)"
| "base64_decode [p, q] = take 1 (unpack4 (six p) (six q) 0 0)"
| "base64_decode [p] = []"
| "base64_decode [] = []"

lemma unpack_pack:
  "unpack4 (drop_bit 18 (pack3 a b c) AND 0x3F) (drop_bit 12 (pack3 a b c) AND 0x3F)
     (drop_bit 6 (pack3 a b c) AND 0x3F) (drop_bit 0 (pack3 a b c) AND 0x3F) = [a, b, c]"
proof -
  have m: "(0x3F :: u32) = mask 6" by (simp add: mask_eq_exp_minus_1)
  let ?v = "pack3 a b c"
  have high: "bit ?v n \<Longrightarrow> n < 24" for n
  proof -
    assume "bit ?v n"
    then consider "n \<ge> 16 \<and> bit a (n - 16)" | "n \<ge> 8 \<and> bit b (n - 8)" | "bit c n"
      by (auto simp: pack3_def bit_simps)
    then show "n < 24"
      using bit_imp_le_length [of a "n - 16"] bit_imp_le_length [of b "n - 8"] bit_imp_le_length [of c n]
      by cases auto
  qed
  have "push_bit 18 (drop_bit 18 ?v AND mask 6) OR push_bit 12 (drop_bit 12 ?v AND mask 6)
    OR push_bit 6 (drop_bit 6 ?v AND mask 6) OR (drop_bit 0 ?v AND mask 6) = ?v" (is "?w = ?v")
  proof (rule bit_word_eqI)
    fix n assume n: "n < LENGTH(32)"
    have eq: "bit (push_bit k (drop_bit k ?v AND mask 6)) n = (k \<le> n \<and> n < k + 6 \<and> bit ?v n)" for k
      using n by (auto simp: bit_simps)
    have "bit (drop_bit 0 ?v AND mask 6) n = (n < 6 \<and> bit ?v n)" using n by (auto simp: bit_simps)
    then show "bit ?w n = bit ?v n" unfolding bit_or_iff eq using high [of n] by auto
  qed
  moreover have "ucast (drop_bit 16 ?v) = a" "ucast (drop_bit 8 ?v) = b" "ucast ?v = c"
    by (rule bit_word_eqI; auto simp: pack3_def bit_simps dest: bit_imp_le_length)+
  ultimately show ?thesis unfolding m unpack4_def by (simp add: Let_def)
qed

text \<open>Where bytes are missing, the sextets that were not written are zero.\<close>

lemma missing_sextets:
  "pack3 a b 0 AND 0x3F = 0" "drop_bit 6 (pack3 a 0 0) AND 0x3F = 0"
proof -
  have m: "(0x3F :: u32) = mask 6" by (simp add: mask_eq_exp_minus_1)
  show "pack3 a b 0 AND 0x3F = 0" unfolding m by (rule bit_word_eqI) (auto simp: pack3_def bit_simps)
  show "drop_bit 6 (pack3 a 0 0) AND 0x3F = 0" unfolding m by (rule bit_word_eqI) (auto simp: pack3_def bit_simps)
qed

lemma unpack_pack2:
  "take 2 (unpack4 (drop_bit 18 (pack3 a b 0) AND 0x3F) (drop_bit 12 (pack3 a b 0) AND 0x3F)
     (drop_bit 6 (pack3 a b 0) AND 0x3F) 0) = [a, b]"
  using unpack_pack [of a b 0] by (simp add: missing_sextets)

lemma unpack_pack1:
  "take 1 (unpack4 (drop_bit 18 (pack3 a 0 0) AND 0x3F) (drop_bit 12 (pack3 a 0 0) AND 0x3F) 0 0) = [a]"
  using unpack_pack [of a 0 0] by (simp add: missing_sextets)

lemma sextet_in: "sextet v k \<in> set Base64Alphabet"
proof -
  have "drop_bit k v AND 0x3F \<le> (0x3F :: u32)" by (simp add: word_and_le1)
  then have "unat (drop_bit k v AND 0x3F) \<le> unat (0x3F :: u32)" by (simp only: word_le_nat_alt)
  then show ?thesis by (simp add: sextet_def alphabet_length)
qed

lemma sextet_not_padding: "sextet v k \<noteq> CHR ''=''"
proof -
  have "CHR ''='' \<notin> set Base64Alphabet" by (simp add: Base64Alphabet_def)
  then show ?thesis using sextet_in [of v k] by metis
qed

lemma decode_unpadded: "base64_decode (base64WithoutPadding bs) = bs"
  by (induction bs rule: base64WithoutPadding.induct)
    (simp_all add: Let_def six_sextet sextet_not_padding unpack_pack [unfolded drop_bit_0 id_apply] unpack_pack2 unpack_pack1 [unfolded One_nat_def])

lemma decode_padded: "base64_decode (base64Encode bs) = bs"
  by (induction bs rule: base64Encode.induct)
    (simp_all add: Let_def six_sextet sextet_not_padding unpack_pack [unfolded drop_bit_0 id_apply] unpack_pack2 unpack_pack1 [unfolded One_nat_def])

lemma encode_pads:
  "base64Encode bs = base64WithoutPadding bs @ replicate ((3 - length bs mod 3) mod 3) (CHR ''='')"
  by (induction bs rule: base64Encode.induct) (simp_all add: Let_def numeral_2_eq_2)

lemma encode_alphabet: "set (base64Encode bs) \<subseteq> set Base64Alphabet \<union> {CHR ''=''}"
  by (induction bs rule: base64Encode.induct) (auto simp: Let_def sextet_in)

section \<open>Properties\<close>

text \<open>
  The fingerprint a user is asked to compare identifies the hash: the text decodes to it, so two
  keys whose SHA-256 hashes differ are never shown with the same fingerprint.
\<close>

theorem fingerprint_identifies_hash:
  "base64_decode (drop (length ''SHA256:'') (sha256Fingerprint k)) = hk_sha256 k
    \<and> (sha256Fingerprint k = sha256Fingerprint k' \<longleftrightarrow> hk_sha256 k = hk_sha256 k')"
proof -
  have "(base64WithoutPadding a = base64WithoutPadding b) = (a = b)" for a b
    using decode_unpadded by metis
  then show ?thesis by (simp add: sha256Fingerprint_def decode_unpadded)
qed

text \<open>
  The proxy's credentials survive their encoding: the padded text decodes to the bytes, is the
  unpadded routine's text with padding, has a length divisible by four and only characters of the
  alphabet, so no credential can add a line to the request.
\<close>

theorem credentials_encoding:
  "base64_decode (base64Encode bs) = bs
    \<and> base64Encode bs = base64WithoutPadding bs @ replicate ((3 - length bs mod 3) mod 3) (CHR ''='')
    \<and> length (base64Encode bs) = (length bs + 2) div 3 * 4
    \<and> set (base64Encode bs) \<subseteq> set Base64Alphabet \<union> {CHR ''=''}"
proof -
  have "length (base64Encode bs) = (length bs + 2) div 3 * 4"
  proof (induction bs rule: base64Encode.induct)
    case (1 a b c rest)
    have "(5 + length rest) div 3 = Suc ((2 + length rest) div 3)" by arith
    then show ?case using 1 by (simp add: Let_def)
  qed (simp_all add: Let_def)
  then show ?thesis using decode_padded encode_pads encode_alphabet by blast
qed

text \<open>
  Against a list of well-formed entries a key is trusted exactly when this very key is recorded for
  this very host and port, reported as changed exactly when the endpoint is recorded only with other
  keys, and unknown exactly when it is not recorded at all; the order of the entries is irrelevant.
\<close>

theorem trust_decided_by_record:
  assumes "ep_host endpoint \<noteq> [] \<and> ep_port endpoint \<noteq> 0 \<and> observed_valid observed"
    and "\<forall>e \<in> set knownHosts. \<not> malformed e"
  shows "evaluateHostKeyTrust endpoint observed knownHosts =
    (if entry_for endpoint observed \<in> set knownHosts then Trusted
     else if endpoint \<in> kh_endpoint ` set knownHosts then ChangedHostKey else UnknownHostKey)"
  using assms trust_loop_characterised [of knownHosts endpoint observed False]
  by (auto simp: evaluateHostKeyTrust_def image_iff)

theorem trust_decided_by_record_witness:
  "evaluateHostKeyTrust \<lparr>ep_host = ''h'', ep_port = 22\<rparr>
     \<lparr>hk_algorithm = Ed25519, hk_encodedKey = [7], hk_sha256 = []\<rparr>
     [\<lparr>kh_endpoint = \<lparr>ep_host = ''h'', ep_port = 22\<rparr>, kh_algorithm = Rsa, kh_encodedKey = [7]\<rparr>] = ChangedHostKey"
  by (subst trust_decided_by_record) (simp_all add: observed_valid_def malformed_def entry_for_def)

end
