(* ===== verification/Known_Hosts.thy ===== *)
theory Known_Hosts
  imports Host_Keys Complex_Main
begin

text \<open>
  The file of recorded host keys: \<open>src/infrastructure/ssh/KnownHostsStore\<close>.

  Qt's JSON and base64 routines are the parameters of \<open>HostsCodec\<close>; a JSON value is a
  \<open>QJsonValue\<close>, its numbers rationals, an object the list of its members.  A \<open>QString\<close> is its UTF-8
  text; \<open>parseEntry\<close> also bounds the host's length in UTF-16 units, which its bound on the UTF-8 text
  implies.  What the operating system answers is the record \<open>StoreIo\<close>; the store's file is its contents,
  \<open>None\<close> when there is no file.  The store holds a lock around every operation, so one operation is
  one step.
\<close>

datatype QJsonValue =
    JNull | JBool bool | JNumber rat | JString string | JArray "QJsonValue list" | JObject "(string \<times> QJsonValue) list"

record HostsCodec =
  fromJson :: "string \<Rightarrow> QJsonValue option"
  toJson :: "QJsonValue \<Rightarrow> string"
  fromBase64 :: "string \<Rightarrow> byte list"
  toBase64 :: "byte list \<Rightarrow> string"

record StoreIo =
  si_opensForReading :: bool
  si_mkpath :: bool
  si_opensForWriting :: bool
  si_commits :: bool

datatype KnownHostsStoreError = InvalidPath | IoError | InvalidFormat | UnsupportedVersion

record KnownHostsMergeResult =
  mr_entries :: "KnownHostEntry list"
  mr_added :: nat
  mr_duplicates :: nat
  mr_conflicts :: nat

definition MaximumFileSize :: nat where "MaximumFileSize = 1024 * 1024"
definition MaximumEntryCount :: nat where "MaximumEntryCount = 4096"
definition MaximumEncodedKeySize :: nat where "MaximumEncodedKeySize = 16 * 1024"
definition MaximumHostLength :: nat where "MaximumHostLength = 1024"

fun json_value :: "QJsonValue \<Rightarrow> string \<Rightarrow> QJsonValue option" where
  "json_value (JObject members) name = map_of members name"
| "json_value v name = None"

fun json_toInteger :: "QJsonValue \<Rightarrow> int" where
  "json_toInteger (JNumber r) =
     (if r = of_int \<lfloor>r\<rfloor> \<and> - (2 ^ 63) \<le> \<lfloor>r\<rfloor> \<and> \<lfloor>r\<rfloor> < 2 ^ 63 then \<lfloor>r\<rfloor> else 0)"
| "json_toInteger v = 0"

section \<open>Entries\<close>

definition same_host_slot :: "KnownHostEntry \<Rightarrow> KnownHostEntry \<Rightarrow> bool" where
  "same_host_slot e e' \<longleftrightarrow> kh_endpoint e = kh_endpoint e' \<and> kh_algorithm e = kh_algorithm e'"

definition duplicateEndpointAlgorithm :: "KnownHostEntry list \<Rightarrow> KnownHostEntry \<Rightarrow> bool" where
  "duplicateEndpointAlgorithm entries candidate = list_ex (\<lambda>e. same_host_slot e candidate) entries"

definition validEntry :: "KnownHostEntry \<Rightarrow> bool" where
  "validEntry e \<longleftrightarrow> ep_host (kh_endpoint e) \<noteq> [] \<and> length (ep_host (kh_endpoint e)) \<le> MaximumHostLength
     \<and> CHR 0x00 \<notin> set (ep_host (kh_endpoint e)) \<and> ep_port (kh_endpoint e) \<noteq> 0
     \<and> kh_algorithm e \<noteq> UnknownAlgorithm \<and> kh_encodedKey e \<noteq> []
     \<and> length (kh_encodedKey e) \<le> MaximumEncodedKeySize"

definition parseEntry :: "HostsCodec \<Rightarrow> QJsonValue \<Rightarrow> KnownHostEntry option" where
  "parseEntry c value =
     (case (json_value value ''host'', json_value value ''port'', json_value value ''algorithm'', json_value value ''key'')
      of (Some (JString host), Some (JNumber portNumber), Some (JString token), Some (JString text)) \<Rightarrow>
        (case parseHostKeyAlgorithm token of
           None \<Rightarrow> None
         | Some algorithm \<Rightarrow>
             let encodedKey = fromBase64 c text;
                 e = \<lparr>kh_endpoint = \<lparr>ep_host = host, ep_port = of_int \<lfloor>portNumber\<rfloor>\<rparr>,
                      kh_algorithm = algorithm, kh_encodedKey = encodedKey\<rparr>
             in if host = [] \<or> length host > MaximumHostLength \<or> CHR 0x00 \<in> set host
                  \<or> of_int \<lfloor>portNumber\<rfloor> \<noteq> portNumber \<or> portNumber \<le> 0 \<or> portNumber > 65535
                  \<or> encodedKey = [] \<or> length encodedKey > MaximumEncodedKeySize then None
                else if \<not> validEntry e then None else Some e)
      | _ \<Rightarrow> None)"

definition serializeEntry :: "HostsCodec \<Rightarrow> KnownHostEntry \<Rightarrow> QJsonValue" where
  "serializeEntry c e = JObject
     [(''host'', JString (ep_host (kh_endpoint e))),
      (''port'', JNumber (of_nat (unat (ep_port (kh_endpoint e))))),
      (''algorithm'', JString (hostKeyAlgorithmToken (kh_algorithm e))),
      (''key'', JString (toBase64 c (kh_encodedKey e)))]"

section \<open>The file\<close>

fun load_entries ::
  "HostsCodec \<Rightarrow> KnownHostEntry list \<Rightarrow> QJsonValue list \<Rightarrow> KnownHostsStoreError + KnownHostEntry list" where
  "load_entries c entries [] = Inr entries"
| "load_entries c entries (value # rest) =
     (case parseEntry c value of
        None \<Rightarrow> Inl InvalidFormat
      | Some e \<Rightarrow> if duplicateEndpointAlgorithm entries e then Inl InvalidFormat
                  else load_entries c (entries @ [e]) rest)"

definition load_document :: "HostsCodec \<Rightarrow> QJsonValue \<Rightarrow> KnownHostsStoreError + KnownHostEntry list" where
  "load_document c document =
     (case json_value document ''version'' of
        Some (JNumber r) \<Rightarrow>
          if json_toInteger (JNumber r) \<noteq> 1 then Inl UnsupportedVersion
          else (case json_value document ''hosts'' of
                  Some (JArray hosts) \<Rightarrow>
                    if length hosts > MaximumEntryCount then Inl InvalidFormat else load_entries c [] hosts
                | _ \<Rightarrow> Inl InvalidFormat)
      | _ \<Rightarrow> Inl InvalidFormat)"

definition loadUnlocked ::
  "HostsCodec \<Rightarrow> StoreIo \<Rightarrow> string \<Rightarrow> string option \<Rightarrow> KnownHostsStoreError + KnownHostEntry list" where
  "loadUnlocked c io path file =
     (if path = [] then Inl InvalidPath
      else case file of
        None \<Rightarrow> Inr []
      | Some contents \<Rightarrow>
          if \<not> si_opensForReading io \<or> length contents > MaximumFileSize
          then Inl (if length contents > MaximumFileSize then InvalidFormat else IoError)
          else (case fromJson c contents of
                  Some (JObject members) \<Rightarrow> load_document c (JObject members)
                | _ \<Rightarrow> Inl InvalidFormat))"

definition hosts_document :: "HostsCodec \<Rightarrow> KnownHostEntry list \<Rightarrow> QJsonValue" where
  "hosts_document c entries =
     JObject [(''version'', JNumber 1), (''hosts'', JArray (map (serializeEntry c) entries))]"

fun validate_entries :: "KnownHostEntry list \<Rightarrow> KnownHostEntry list \<Rightarrow> bool" where
  "validate_entries validated [] = True"
| "validate_entries validated (e # rest) =
     (if \<not> validEntry e \<or> duplicateEndpointAlgorithm validated e then False
      else validate_entries (validated @ [e]) rest)"

definition saveUnlocked ::
  "HostsCodec \<Rightarrow> StoreIo \<Rightarrow> string \<Rightarrow> KnownHostEntry list \<Rightarrow> string option
    \<Rightarrow> string option \<times> (KnownHostsStoreError + unit)" where
  "saveUnlocked c io path entries file =
     (if path = [] then (file, Inl InvalidPath)
      else if length entries > MaximumEntryCount then (file, Inl InvalidFormat)
      else if \<not> validate_entries [] entries then (file, Inl InvalidFormat)
      else if \<not> si_mkpath io then (file, Inl IoError)
      else if \<not> si_opensForWriting io then (file, Inl IoError)
      else if \<not> si_commits io then (file, Inl IoError)
      else (Some (toJson c (hosts_document c entries)), Inr ()))"

fun merge_loop :: "KnownHostsMergeResult \<Rightarrow> KnownHostEntry list \<Rightarrow> KnownHostsStoreError + KnownHostsMergeResult" where
  "merge_loop result [] = Inr result"
| "merge_loop result (candidate # rest) =
     (if \<not> validEntry candidate then Inl InvalidFormat
      else case find (\<lambda>e. same_host_slot e candidate) (mr_entries result) of
        Some existing \<Rightarrow>
          if kh_encodedKey existing = kh_encodedKey candidate
          then merge_loop (result\<lparr>mr_duplicates := mr_duplicates result + 1\<rparr>) rest
          else merge_loop (result\<lparr>mr_conflicts := mr_conflicts result + 1\<rparr>) rest
      | None \<Rightarrow>
          if length (mr_entries result) \<ge> MaximumEntryCount then Inl InvalidFormat
          else merge_loop (result\<lparr>mr_entries := mr_entries result @ [candidate],
                                  mr_added := mr_added result + 1\<rparr>) rest)"

definition mergeMissing ::
  "HostsCodec \<Rightarrow> StoreIo \<Rightarrow> string \<Rightarrow> KnownHostEntry list \<Rightarrow> string option
    \<Rightarrow> string option \<times> (KnownHostsStoreError + KnownHostsMergeResult)" where
  "mergeMissing c io path entries file =
     (case loadUnlocked c io path file of
        Inl e \<Rightarrow> (file, Inl e)
      | Inr stored \<Rightarrow>
          (case merge_loop \<lparr>mr_entries = stored, mr_added = 0, mr_duplicates = 0, mr_conflicts = 0\<rparr> entries of
             Inl e \<Rightarrow> (file, Inl e)
           | Inr result \<Rightarrow>
               if mr_added result > 0
               then (case saveUnlocked c io path (mr_entries result) file of
                       (file', Inl e) \<Rightarrow> (file', Inl e)
                     | (file', Inr _) \<Rightarrow> (file', Inr result))
               else (file, Inr result)))"

definition hosts_remove ::
  "HostsCodec \<Rightarrow> StoreIo \<Rightarrow> string \<Rightarrow> SshEndpoint \<Rightarrow> HostKeyAlgorithm \<Rightarrow> string option
    \<Rightarrow> string option \<times> (KnownHostsStoreError + KnownHostEntry list)" where
  "hosts_remove c io path endpoint algorithm file =
     (case loadUnlocked c io path file of
        Inl e \<Rightarrow> (file, Inl e)
      | Inr stored \<Rightarrow>
          let kept = filter (\<lambda>e. \<not> (kh_endpoint e = endpoint \<and> kh_algorithm e = algorithm)) stored
          in case saveUnlocked c io path kept file of
               (file', Inl e) \<Rightarrow> (file', Inl e)
             | (file', Inr _) \<Rightarrow> (file', Inr kept))"

definition hosts_clear ::
  "HostsCodec \<Rightarrow> StoreIo \<Rightarrow> string \<Rightarrow> string option \<Rightarrow> string option \<times> (KnownHostsStoreError + unit)" where
  "hosts_clear c io path file = saveUnlocked c io path [] file"

section \<open>What the file may hold\<close>

definition slot_of :: "KnownHostEntry \<Rightarrow> SshEndpoint \<times> HostKeyAlgorithm" where
  "slot_of e = (kh_endpoint e, kh_algorithm e)"

definition hosts_ok :: "KnownHostEntry list \<Rightarrow> bool" where
  "hosts_ok es \<longleftrightarrow> list_all validEntry es \<and> distinct (map slot_of es) \<and> length es \<le> MaximumEntryCount"

text \<open>The abstract record: which key each endpoint has for each algorithm.\<close>

definition hosts_map :: "KnownHostEntry list \<Rightarrow> (SshEndpoint \<times> HostKeyAlgorithm) \<rightharpoonup> byte list" where
  "hosts_map es = map_of (map (\<lambda>e. (slot_of e, kh_encodedKey e)) es)"

definition add_missing ::
  "((SshEndpoint \<times> HostKeyAlgorithm) \<rightharpoonup> byte list) \<Rightarrow> KnownHostEntry
    \<Rightarrow> (SshEndpoint \<times> HostKeyAlgorithm) \<rightharpoonup> byte list" where
  "add_missing m e = (if m (slot_of e) = None then m(slot_of e \<mapsto> kh_encodedKey e) else m)"

text \<open>
  What is assumed of Qt for a list of entries: parsing the text of their document gives the document
  back, and base64 decodes what it encoded.
\<close>

definition faithful_codec :: "HostsCodec \<Rightarrow> KnownHostEntry list \<Rightarrow> bool" where
  "faithful_codec c es \<longleftrightarrow> fromJson c (toJson c (hosts_document c es)) = Some (hosts_document c es)
     \<and> (\<forall>e \<in> set es. fromBase64 c (toBase64 c (kh_encodedKey e)) = kh_encodedKey e)"

lemma same_host_slot_iff: "same_host_slot e e' \<longleftrightarrow> slot_of e = slot_of e'"
  by (simp add: same_host_slot_def slot_of_def)

lemma duplicate_iff: "duplicateEndpointAlgorithm es e \<longleftrightarrow> slot_of e \<in> slot_of ` set es"
  by (auto simp: duplicateEndpointAlgorithm_def list_ex_iff same_host_slot_iff image_iff eq_commute)

lemma validate_iff:
  "distinct (map slot_of acc) \<Longrightarrow>
    validate_entries acc es = (list_all validEntry es \<and> distinct (map slot_of (acc @ es)))"
  by (induction es arbitrary: acc) (auto simp: duplicate_iff)

lemma valid_not_malformed: "validEntry e \<Longrightarrow> \<not> malformed e"
  by (simp add: validEntry_def malformed_def)

lemma hosts_ok_not_malformed: "hosts_ok es \<Longrightarrow> \<forall>e \<in> set es. \<not> malformed e"
  by (auto simp: hosts_ok_def list_all_iff valid_not_malformed)

lemma parseEntry_valid: "parseEntry c v = Some e \<Longrightarrow> validEntry e"
  by (auto simp: parseEntry_def Let_def split: option.splits QJsonValue.splits if_splits)

lemma load_entries_ok:
  "load_entries c acc vs = Inr es \<Longrightarrow> list_all validEntry acc \<Longrightarrow> distinct (map slot_of acc)
    \<Longrightarrow> list_all validEntry es \<and> distinct (map slot_of es) \<and> length es = length acc + length vs"
proof (induction vs arbitrary: acc)
  case (Cons v vs)
  then obtain e where e: "parseEntry c v = Some e" "\<not> duplicateEndpointAlgorithm acc e"
    "load_entries c (acc @ [e]) vs = Inr es"
    by (auto split: option.splits if_splits)
  have "list_all validEntry (acc @ [e])" "distinct (map slot_of (acc @ [e]))"
    using Cons.prems e parseEntry_valid by (auto simp: duplicate_iff)
  from Cons.IH [OF e(3) this] show ?case by simp
qed simp

lemma load_ok:
  assumes "loadUnlocked c io path file = Inr es" shows "hosts_ok es"
proof (cases "file")
  case None
  then show ?thesis using assms by (auto simp: loadUnlocked_def hosts_ok_def split: if_splits)
next
  case (Some contents)
  then obtain members where "load_document c (JObject members) = Inr es"
    using assms by (auto simp: loadUnlocked_def split: if_splits option.splits QJsonValue.splits)
  then obtain hosts where "load_entries c [] hosts = Inr es" "length hosts \<le> MaximumEntryCount"
    by (auto simp: load_document_def split: if_splits option.splits QJsonValue.splits)
  then show ?thesis using load_entries_ok [of c "[]" hosts es] by (simp add: hosts_ok_def)
qed

text \<open>Writing an entry and reading it back.\<close>

lemma port_number: "0 < n \<Longrightarrow> \<not> (of_nat n :: rat) \<le> 0" "n \<le> 65535 \<Longrightarrow> \<not> (65535 :: rat) < of_nat n"
  using of_nat_mono [of n 65535, where 'a = rat] by simp_all

lemma parse_serialize:
  assumes "validEntry e" and "fromBase64 c (toBase64 c (kh_encodedKey e)) = kh_encodedKey e"
  shows "parseEntry c (serializeEntry c e) = Some e"
proof -
  let ?p = "unat (ep_port (kh_endpoint e))"
  have "0 < ?p" using assms(1) by (simp add: validEntry_def unat_gt_0)
  moreover have "?p \<le> 65535" using unsigned_less [of "ep_port (kh_endpoint e)", where 'a = nat] by simp
  ultimately have port: "\<not> (of_nat ?p :: rat) \<le> 0" "\<not> (65535 :: rat) < of_nat ?p"
    using port_number by blast+
  have floor: "\<lfloor>of_nat ?p :: rat\<rfloor> = int ?p" by (simp only: floor_of_nat)
  have word: "(of_int (int ?p) :: u16) = ep_port (kh_endpoint e)" by simp
  have tok: "parseHostKeyAlgorithm (hostKeyAlgorithmToken (kh_algorithm e)) = Some (kh_algorithm e)"
    using assms(1) by (simp add: algorithm_token_roundtrip validEntry_def)
  show ?thesis
    using assms port floor word tok by (simp add: parseEntry_def serializeEntry_def Let_def validEntry_def)
qed

lemma load_serialized:
  assumes "list_all validEntry es" and "distinct (map slot_of (acc @ es))"
    and "\<forall>e \<in> set es. fromBase64 c (toBase64 c (kh_encodedKey e)) = kh_encodedKey e"
  shows "load_entries c acc (map (serializeEntry c) es) = Inr (acc @ es)"
  using assms
proof (induction es arbitrary: acc)
  case (Cons e es)
  then have "parseEntry c (serializeEntry c e) = Some e" "\<not> duplicateEndpointAlgorithm acc e"
    by (auto simp: parse_serialize duplicate_iff)
  then show ?case using Cons.IH [of "acc @ [e]"] Cons.prems by simp
qed simp

lemma load_hosts_document:
  assumes "hosts_ok es" and "faithful_codec c es"
  shows "load_document c (hosts_document c es) = Inr es"
  using assms load_serialized [of es "[]" c]
  by (simp add: load_document_def hosts_document_def hosts_ok_def faithful_codec_def)

lemma save_result:
  "saveUnlocked c io path es f = (f', Inr u) \<Longrightarrow>
    f' = Some (toJson c (hosts_document c es)) \<and> hosts_ok es \<and> path \<noteq> []"
  by (auto simp: saveUnlocked_def validate_iff [of "[]", simplified] hosts_ok_def split: if_splits)

lemma save_failed: "saveUnlocked c io path es f = (f', Inl e) \<Longrightarrow> f' = f"
  by (auto simp: saveUnlocked_def split: if_splits)

section \<open>Merging\<close>

lemma hosts_map_snoc:
  "slot_of e \<notin> slot_of ` set es \<Longrightarrow> hosts_map (es @ [e]) = (hosts_map es)(slot_of e \<mapsto> kh_encodedKey e)"
proof -
  assume "slot_of e \<notin> slot_of ` set es"
  then have "hosts_map es (slot_of e) = None"
    by (simp add: hosts_map_def map_of_eq_None_iff image_image)
  then show ?thesis by (auto simp: hosts_map_def map_add_def fun_eq_iff split: option.splits)
qed

lemma hosts_map_None: "hosts_map es s = None \<longleftrightarrow> s \<notin> slot_of ` set es"
  by (simp add: hosts_map_def map_of_eq_None_iff image_image)

lemma hosts_map_in: "distinct (map slot_of es) \<Longrightarrow> e \<in> set es \<Longrightarrow> hosts_map es (slot_of e) = Some (kh_encodedKey e)"
  unfolding hosts_map_def by (rule map_of_is_SomeI) (auto simp: comp_def)

lemma entry_eqI: "slot_of e = slot_of e' \<Longrightarrow> kh_encodedKey e = kh_encodedKey e' \<Longrightarrow> e = (e' :: KnownHostEntry)"
  by (cases e; cases e') (simp add: slot_of_def)

lemma hosts_map_to: "hosts_map es (slot_of e) = Some (kh_encodedKey e) \<Longrightarrow> e \<in> set es"
  unfolding hosts_map_def by (drule map_of_SomeD) (metis (no_types, lifting) entry_eqI imageE list.set_map prod.inject)

lemma hosts_map_filter: "hosts_map (filter (\<lambda>e. slot_of e \<noteq> s) es) = (hosts_map es)(s := None)"
  by (induction es) (auto simp: hosts_map_def fun_eq_iff)

text \<open>One candidate of a merge.\<close>

definition merge_step :: "KnownHostEntry \<Rightarrow> KnownHostsMergeResult \<Rightarrow> KnownHostsMergeResult" where
  "merge_step e r =
     (case hosts_map (mr_entries r) (slot_of e) of
        None \<Rightarrow> r\<lparr>mr_entries := mr_entries r @ [e], mr_added := mr_added r + 1\<rparr>
      | Some key \<Rightarrow> if key = kh_encodedKey e then r\<lparr>mr_duplicates := mr_duplicates r + 1\<rparr>
                    else r\<lparr>mr_conflicts := mr_conflicts r + 1\<rparr>)"

lemma merge_loop_step:
  assumes "merge_loop r (e # es) = Inr r'" and "hosts_ok (mr_entries r)"
  shows "validEntry e \<and> merge_loop (merge_step e r) es = Inr r' \<and> hosts_ok (mr_entries (merge_step e r))"
proof (cases "find (\<lambda>x. same_host_slot x e) (mr_entries r)")
  case None
  then have new: "slot_of e \<notin> slot_of ` set (mr_entries r)"
    by (auto simp: find_None_iff same_host_slot_iff)
  then have "merge_step e r = r\<lparr>mr_entries := mr_entries r @ [e], mr_added := mr_added r + 1\<rparr>"
    using hosts_map_None [of "mr_entries r" "slot_of e"] by (simp add: merge_step_def)
  then show ?thesis using assms None new by (auto simp: hosts_ok_def split: if_splits)
next
  case (Some x)
  then have "x \<in> set (mr_entries r)" "slot_of x = slot_of e"
    by (auto simp: find_Some_iff same_host_slot_iff)
  then have "hosts_map (mr_entries r) (slot_of e) = Some (kh_encodedKey x)"
    using assms(2) hosts_map_in [of "mr_entries r" x] by (simp add: hosts_ok_def)
  then show ?thesis using assms Some by (auto simp: merge_step_def split: if_splits)
qed

lemma merge_step_map:
  "hosts_map (mr_entries (merge_step e r)) = add_missing (hosts_map (mr_entries r)) e"
  using hosts_map_snoc [of e "mr_entries r"] hosts_map_None [of "mr_entries r" "slot_of e"]
  by (auto simp: merge_step_def add_missing_def split: option.splits)

lemma merge_step_grows:
  "\<exists>new. mr_entries (merge_step e r) = mr_entries r @ new \<and> set new \<subseteq> {e}
    \<and> mr_added (merge_step e r) = mr_added r + length new"
  by (auto simp: merge_step_def split: option.splits)

lemma merge_step_counts:
  "mr_added (merge_step e r) + mr_duplicates (merge_step e r) + mr_conflicts (merge_step e r)
    = Suc (mr_added r + mr_duplicates r + mr_conflicts r)"
  by (auto simp: merge_step_def split: option.splits)

lemma merge_step_recorded:
  "mr_conflicts (merge_step e r) = mr_conflicts r \<Longrightarrow> e \<in> set (mr_entries (merge_step e r))"
  by (auto simp: merge_step_def hosts_map_to split: option.splits if_splits)

lemma merge_step_conflicts: "mr_conflicts r \<le> mr_conflicts (merge_step e r)"
  by (auto simp: merge_step_def split: option.splits)

lemma merge_loop_result:
  assumes "merge_loop r es = Inr r'" and "hosts_ok (mr_entries r)"
  shows "hosts_ok (mr_entries r')
    \<and> (\<exists>new. mr_entries r' = mr_entries r @ new \<and> set new \<subseteq> set es \<and> mr_added r' = mr_added r + length new)
    \<and> mr_added r' + mr_duplicates r' + mr_conflicts r'
        = mr_added r + mr_duplicates r + mr_conflicts r + length es
    \<and> mr_conflicts r \<le> mr_conflicts r'
    \<and> (mr_conflicts r' = mr_conflicts r \<longrightarrow> set es \<subseteq> set (mr_entries r'))
    \<and> hosts_map (mr_entries r') = foldl add_missing (hosts_map (mr_entries r)) es"
  using assms
proof (induction es arbitrary: r)
  case (Cons e es)
  let ?m = "merge_step e r"
  note step = merge_loop_step [OF Cons.prems]
  then have IH: "hosts_ok (mr_entries r')"
    "\<exists>new. mr_entries r' = mr_entries ?m @ new \<and> set new \<subseteq> set es \<and> mr_added r' = mr_added ?m + length new"
    "mr_added r' + mr_duplicates r' + mr_conflicts r' = mr_added ?m + mr_duplicates ?m + mr_conflicts ?m + length es"
    "mr_conflicts ?m \<le> mr_conflicts r'"
    "mr_conflicts r' = mr_conflicts ?m \<longrightarrow> set es \<subseteq> set (mr_entries r')"
    "hosts_map (mr_entries r') = foldl add_missing (hosts_map (mr_entries ?m)) es"
    using Cons.IH [of ?m] by auto
  obtain n1 n2 where n: "mr_entries ?m = mr_entries r @ n1" "set n1 \<subseteq> {e}" "mr_added ?m = mr_added r + length n1"
    "mr_entries r' = mr_entries ?m @ n2" "set n2 \<subseteq> set es" "mr_added r' = mr_added ?m + length n2"
    using IH(2) merge_step_grows [of e r] by auto
  have grows: "\<exists>new. mr_entries r' = mr_entries r @ new \<and> set new \<subseteq> set (e # es)
      \<and> mr_added r' = mr_added r + length new"
    by (rule exI [of _ "n1 @ n2"]) (use n in auto)
  have all: "mr_conflicts r' = mr_conflicts r \<Longrightarrow> set (e # es) \<subseteq> set (mr_entries r')"
  proof -
    assume "mr_conflicts r' = mr_conflicts r"
    then have "mr_conflicts ?m = mr_conflicts r" "mr_conflicts r' = mr_conflicts ?m"
      using IH(4) merge_step_conflicts [of r e] by simp_all
    then show ?thesis using IH(5) merge_step_recorded [of e r] n(4) by auto
  qed
  show ?case
    using IH grows all merge_step_counts [of e r] merge_step_conflicts [of r e] merge_step_map [of e r] by simp
qed simp

lemma save_then_load:
  assumes "saveUnlocked c io path es f = (f', Inr u)" and "faithful_codec c es"
    and "si_opensForReading io'" and "length (toJson c (hosts_document c es)) \<le> MaximumFileSize"
  shows "loadUnlocked c io' path f' = Inr es"
proof -
  have "f' = Some (toJson c (hosts_document c es))" "hosts_ok es" "path \<noteq> []"
    using save_result [OF assms(1)] by auto
  then show ?thesis
    using assms(2-4) load_hosts_document [of es c]
    by (simp add: loadUnlocked_def faithful_codec_def not_less hosts_document_def)
qed

section \<open>Properties\<close>

text \<open>
  C19. A merge never touches what is recorded: when it succeeds, the entries the file held come first and
  unchanged, only candidates are appended, every endpoint still has one key per algorithm, the three
  counters add up to the number of candidates, and without a conflict every candidate is recorded.  When
  it fails the file is as it was.
\<close>

theorem merge_keeps_recorded_keys:
  assumes "loadUnlocked c io path f = Inr stored" and "mergeMissing c io path candidates f = (f', outcome)"
  shows "case outcome of
      Inl e \<Rightarrow> f' = f
    | Inr r \<Rightarrow> (\<exists>new. mr_entries r = stored @ new \<and> set new \<subseteq> set candidates \<and> length new = mr_added r)
        \<and> hosts_ok (mr_entries r)
        \<and> mr_added r + mr_duplicates r + mr_conflicts r = length candidates
        \<and> (mr_conflicts r = 0 \<longrightarrow> set candidates \<subseteq> set (mr_entries r))
        \<and> f' = (if mr_added r = 0 then f else Some (toJson c (hosts_document c (mr_entries r))))"
proof -
  let ?r0 = "\<lparr>mr_entries = stored, mr_added = 0, mr_duplicates = 0, mr_conflicts = 0\<rparr>"
  have ok: "hosts_ok (mr_entries ?r0)" using load_ok [OF assms(1)] by simp
  show ?thesis
  proof (cases "merge_loop ?r0 candidates")
    case (Inl e)
    then have "f' = f \<and> outcome = Inl e" using assms by (auto simp: mergeMissing_def)
    then show ?thesis by simp
  next
    case (Inr r)
    note res = merge_loop_result [OF Inr ok]
    show ?thesis
    proof (cases "mr_added r = 0")
      case True
      then have "f' = f \<and> outcome = Inr r" using assms Inr by (auto simp: mergeMissing_def)
      then show ?thesis using res True by auto
    next
      case False
      obtain f'' saved where saved: "saveUnlocked c io path (mr_entries r) f = (f'', saved)" by fastforce
      then have "f' = f'' \<and> outcome = (case saved of Inl e \<Rightarrow> Inl e | Inr _ \<Rightarrow> Inr r)"
        using assms Inr False by (auto simp: mergeMissing_def split: sum.splits)
      then show ?thesis using res False saved
        by (cases saved) (auto dest: save_result save_failed)
    qed
  qed
qed

text \<open>
  The store implements a finite map from (host, port, algorithm) to a key: what a merge reports and
  saves is the old map with each candidate added only where nothing was recorded, and what a removal
  leaves is the old map without that one slot.
\<close>

theorem store_implements_map:
  assumes "loadUnlocked c io path f = Inr stored"
  shows "(mergeMissing c io path candidates f = (f', Inr r)
      \<longrightarrow> hosts_map (mr_entries r) = foldl add_missing (hosts_map stored) candidates)
    \<and> (hosts_remove c io path endpoint algorithm f = (f'', Inr kept)
      \<longrightarrow> hosts_map kept = (hosts_map stored)((endpoint, algorithm) := None))"
proof (intro conjI impI)
  assume "mergeMissing c io path candidates f = (f', Inr r)"
  then have "merge_loop \<lparr>mr_entries = stored, mr_added = 0, mr_duplicates = 0, mr_conflicts = 0\<rparr> candidates = Inr r"
    using assms by (auto simp: mergeMissing_def split: sum.splits if_splits prod.splits)
  from merge_loop_result [OF this] show "hosts_map (mr_entries r) = foldl add_missing (hosts_map stored) candidates"
    using load_ok [OF assms] by simp
next
  assume "hosts_remove c io path endpoint algorithm f = (f'', Inr kept)"
  then have "kept = filter (\<lambda>e. slot_of e \<noteq> (endpoint, algorithm)) stored"
    using assms by (auto simp: hosts_remove_def Let_def slot_of_def split: sum.splits prod.splits)
  then show "hosts_map kept = (hosts_map stored)((endpoint, algorithm) := None)"
    by (simp add: hosts_map_filter)
qed

text \<open>
  What is saved is what is loaded: after a successful save, a file that opens and is within the size
  limit gives back exactly the saved entries in their order, under the laws of Qt's JSON and base64 for
  this list.
\<close>

theorem hosts_save_load:
  assumes "saveUnlocked c io path es f = (f', Inr u)" and "faithful_codec c es"
    and "si_opensForReading io'" and "length (toJson c (hosts_document c es)) \<le> MaximumFileSize"
  shows "loadUnlocked c io' path f' = Inr es"
  by (rule save_then_load [OF assms])

text \<open>The size limit is only checked when loading: a larger save succeeds and can then not be read again.\<close>

lemma oversized_save_unloadable:
  assumes "saveUnlocked c io path es f = (f', Inr u)" and "length (toJson c (hosts_document c es)) > MaximumFileSize"
  shows "loadUnlocked c io' path f' = Inl InvalidFormat"
  using save_result [OF assms(1)] assms(2) by (simp add: loadUnlocked_def)

text \<open>A codec that knows one document, for the witnesses.\<close>

definition sample_host :: KnownHostEntry where
  "sample_host = \<lparr>kh_endpoint = \<lparr>ep_host = ''h'', ep_port = 22\<rparr>, kh_algorithm = Ed25519, kh_encodedKey = [7]\<rparr>"

definition sample_codec :: HostsCodec where
  "sample_codec = \<lparr>fromJson = (\<lambda>s. if s = ''D'' then Some (JObject [(''version'', JNumber 1), (''hosts'', JArray
       [JObject [(''host'', JString ''h''), (''port'', JNumber 22), (''algorithm'', JString ''ssh-ed25519''),
                 (''key'', JString ''Bw=='')]])]) else None),
     toJson = (\<lambda>v. ''D''), fromBase64 = base64_decode, toBase64 = base64Encode\<rparr>"

definition all_io :: StoreIo where
  "all_io = \<lparr>si_opensForReading = True, si_mkpath = True, si_opensForWriting = True, si_commits = True\<rparr>"

lemma sample_base64: "base64Encode [7] = ''Bw==''"
  by (simp add: Let_def sextet_def pack3_def Base64Alphabet_def)

lemma sample_faithful: "faithful_codec sample_codec [sample_host]"
  using decode_padded [of "[7]"] sample_base64
  by (simp add: faithful_codec_def sample_codec_def sample_host_def hosts_document_def serializeEntry_def
    del: base64Encode.simps)

lemma sample_save: "saveUnlocked sample_codec all_io ''p'' [sample_host] None = (Some ''D'', Inr ())"
  by (simp add: saveUnlocked_def all_io_def sample_codec_def sample_host_def validEntry_def
    duplicateEndpointAlgorithm_def MaximumEntryCount_def MaximumHostLength_def MaximumEncodedKeySize_def)

lemma sample_reload: "loadUnlocked sample_codec all_io ''p'' (Some ''D'') = Inr [sample_host]"
  by (rule save_then_load [OF sample_save sample_faithful])
    (simp_all add: all_io_def sample_codec_def MaximumFileSize_def)

theorem hosts_save_load_witness: "loadUnlocked sample_codec all_io ''p'' (Some ''D'') = Inr [sample_host]"
  by (rule hosts_save_load [OF sample_save sample_faithful])
    (simp_all add: all_io_def sample_codec_def MaximumFileSize_def)

lemma sample_load: "loadUnlocked sample_codec all_io ''p'' None = Inr []"
  by (simp add: loadUnlocked_def)

lemma sample_merge:
  "mergeMissing sample_codec all_io ''p'' [sample_host] None
    = (Some ''D'', Inr \<lparr>mr_entries = [sample_host], mr_added = 1, mr_duplicates = 0, mr_conflicts = 0\<rparr>)"
  using sample_save
  by (simp add: mergeMissing_def sample_load validEntry_def MaximumEntryCount_def MaximumHostLength_def
    MaximumEncodedKeySize_def) (simp add: sample_host_def)

theorem merge_keeps_recorded_keys_witness:
  "case Inr \<lparr>mr_entries = [sample_host], mr_added = 1, mr_duplicates = 0, mr_conflicts = 0\<rparr> of
      Inl (e :: KnownHostsStoreError) \<Rightarrow> Some ''D'' = None
    | Inr r \<Rightarrow> (\<exists>new. mr_entries r = [] @ new \<and> set new \<subseteq> set [sample_host] \<and> length new = mr_added r)
        \<and> hosts_ok (mr_entries r)
        \<and> mr_added r + mr_duplicates r + mr_conflicts r = length [sample_host]
        \<and> (mr_conflicts r = 0 \<longrightarrow> set [sample_host] \<subseteq> set (mr_entries r))
        \<and> Some ''D'' = (if mr_added r = 0 then None
                        else Some (toJson sample_codec (hosts_document sample_codec (mr_entries r))))"
  by (rule merge_keeps_recorded_keys [OF sample_load sample_merge])

theorem store_implements_map_witness:
  "(mergeMissing sample_codec all_io ''p'' [sample_host] None
      = (Some ''D'', Inr \<lparr>mr_entries = [sample_host], mr_added = 1, mr_duplicates = 0, mr_conflicts = 0\<rparr>)
      \<longrightarrow> hosts_map [sample_host] = foldl add_missing (hosts_map []) [sample_host])
    \<and> (hosts_remove sample_codec all_io ''p'' (kh_endpoint sample_host) Ed25519 None = (Some ''D'', Inr [])
      \<longrightarrow> hosts_map [] = (hosts_map [])((kh_endpoint sample_host, Ed25519) := None))"
  using store_implements_map [OF sample_load, of "[sample_host]" "Some ''D''"
      "\<lparr>mr_entries = [sample_host], mr_added = 1, mr_duplicates = 0, mr_conflicts = 0\<rparr>"
      "kh_endpoint sample_host" Ed25519 "Some ''D''" "[]"] by simp

end
