(* ===== verification/Known_Hosts_Page.thy ===== *)
theory Known_Hosts_Page
  imports Known_Hosts "HOL-Library.List_Lexorder" "HOL-Library.Product_Lexorder"
begin

text \<open>
  Reading OpenSSH's own files, \<open>src/infrastructure/ssh/OpenSshKnownHostsImporter\<close>, and the settings page
  that drives the store with them, \<open>src/application/ssh/KnownHostsController.cpp\<close>.  The text of a file is
  bytes; host tokens are taken to be ASCII where \<open>QString::trimmed\<close> would also remove other spaces.
\<close>

section \<open>Reading OpenSSH's files\<close>

datatype OpenSshKnownHostsImportError = ImportInvalidPath | ImportIoError | ImportTooLarge

record OpenSshKnownHostsImport =
  im_entries :: "KnownHostEntry list"
  im_parsedLines :: nat
  im_skippedLines :: nat
  im_unsupportedEntries :: nat
  im_duplicateEntries :: nat

definition maximumImportFileSize :: nat where "maximumImportFileSize = 4 * 1024 * 1024"
definition maximumImportedEntries :: nat where "maximumImportedEntries = 4096"
definition maximumImportedKeySize :: nat where "maximumImportedKeySize = 16 * 1024"

text \<open>\<open>trimmed()\<close>, \<open>split\<close> with every part, \<open>split\<close> without the empty parts, \<open>indexOf\<close>.\<close>

definition trimmed :: "string \<Rightarrow> string" where
  "trimmed cs = rev (dropWhile isspace (rev (dropWhile isspace cs)))"

fun split_keep :: "char \<Rightarrow> string \<Rightarrow> string \<Rightarrow> string list" where
  "split_keep sep part [] = [part]"
| "split_keep sep part (c # cs) = (if c = sep then part # split_keep sep [] cs else split_keep sep (part @ [c]) cs)"

fun split_skip :: "(char \<Rightarrow> bool) \<Rightarrow> string \<Rightarrow> string \<Rightarrow> string list" where
  "split_skip sep part [] = (if part = [] then [] else [part])"
| "split_skip sep part (c # cs) =
     (if sep c then (if part = [] then split_skip sep [] cs else part # split_skip sep [] cs)
      else split_skip sep (part @ [c]) cs)"

fun text_indexOf :: "string \<Rightarrow> string \<Rightarrow> nat option" where
  "text_indexOf needle [] = (if needle = [] then Some 0 else None)"
| "text_indexOf needle (c # cs) =
     (if take (length needle) (c # cs) = needle then Some 0 else map_option Suc (text_indexOf needle cs))"

text \<open>\<open>toInt\<close> is \<open>QString::toInt\<close>.\<close>

definition parseEndpoint :: "(string \<Rightarrow> int option) \<Rightarrow> string \<Rightarrow> SshEndpoint option" where
  "parseEndpoint toInt rawToken =
     (let token = trimmed rawToken;
          checked = (\<lambda>host port. if host = [] \<or> length host > 1024 \<or> CHR 0x00 \<in> set host then None
                                 else Some \<lparr>ep_host = host, ep_port = of_int port\<rparr>)
      in if token = [] \<or> hd token = CHR ''|'' \<or> hd token = CHR ''!'' \<or> CHR ''*'' \<in> set token \<or> CHR ''?'' \<in> set token
         then None
         else if hd token = CHR ''[''
         then (case text_indexOf '']:'' token of
                 None \<Rightarrow> None
               | Some closingBracket \<Rightarrow>
                   if closingBracket \<le> 1 then None
                   else (case toInt (drop (closingBracket + 2) token) of
                           None \<Rightarrow> None
                         | Some port \<Rightarrow>
                             if port \<le> 0 \<or> port > 65535 then None
                             else checked (take (closingBracket - 1) (drop 1 token)) port))
         else checked token 22)"

text \<open>One host token of a line; the flag is \<open>handledLine\<close>.\<close>

definition import_host ::
  "(string \<Rightarrow> int option) \<Rightarrow> HostKeyAlgorithm \<Rightarrow> byte list \<Rightarrow> string \<Rightarrow> OpenSshKnownHostsImport \<times> bool
    \<Rightarrow> OpenSshKnownHostsImport \<times> bool" where
  "import_host toInt algorithm key hostToken acc =
     (case acc of (result, handledLine) \<Rightarrow>
        case parseEndpoint toInt hostToken of
          None \<Rightarrow> (result\<lparr>im_unsupportedEntries := im_unsupportedEntries result + 1\<rparr>, handledLine)
        | Some endpoint \<Rightarrow>
            if length (im_entries result) \<ge> maximumImportedEntries
            then (result\<lparr>im_unsupportedEntries := im_unsupportedEntries result + 1\<rparr>, handledLine)
            else let e = \<lparr>kh_endpoint = endpoint, kh_algorithm = algorithm, kh_encodedKey = key\<rparr>
                 in if duplicateEndpointAlgorithm (im_entries result) e
                    then (result\<lparr>im_duplicateEntries := im_duplicateEntries result + 1\<rparr>, True)
                    else (result\<lparr>im_entries := im_entries result @ [e]\<rparr>, True))"

definition import_unsupported :: "OpenSshKnownHostsImport \<Rightarrow> OpenSshKnownHostsImport" where
  "import_unsupported result =
     result\<lparr>im_unsupportedEntries := im_unsupportedEntries result + 1, im_skippedLines := im_skippedLines result + 1\<rparr>"

definition import_fields ::
  "HostsCodec \<Rightarrow> (string \<Rightarrow> int option) \<Rightarrow> OpenSshKnownHostsImport \<Rightarrow> string list \<Rightarrow> OpenSshKnownHostsImport" where
  "import_fields c toInt result parts =
     (let offset = (if parts \<noteq> [] \<and> hd parts \<noteq> [] \<and> hd (hd parts) = CHR ''@'' then 1 else 0)
      in if length parts < 3 + offset \<or> offset \<noteq> 0 then import_unsupported result
         else let key = fromBase64 c (parts ! (offset + 2))
              in case parseHostKeyAlgorithm (parts ! (offset + 1)) of
                   None \<Rightarrow> import_unsupported result
                 | Some algorithm \<Rightarrow>
                     if key = [] \<or> length key > maximumImportedKeySize then import_unsupported result
                     else (case fold (import_host toInt algorithm key)
                                  (split_skip (\<lambda>ch. ch = CHR '','') [] (parts ! offset)) (result, False)
                           of (r, handledLine) \<Rightarrow>
                                if \<not> handledLine then r\<lparr>im_skippedLines := im_skippedLines r + 1\<rparr> else r))"

definition import_line ::
  "HostsCodec \<Rightarrow> (string \<Rightarrow> int option) \<Rightarrow> OpenSshKnownHostsImport \<Rightarrow> string \<Rightarrow> OpenSshKnownHostsImport" where
  "import_line c toInt result rawLine =
     (let line = trimmed rawLine
      in if line = [] \<or> hd line = CHR ''#'' then result
         else import_fields c toInt (result\<lparr>im_parsedLines := im_parsedLines result + 1\<rparr>) (split_skip isspace [] line))"

definition empty_import :: OpenSshKnownHostsImport where
  "empty_import = \<lparr>im_entries = [], im_parsedLines = 0, im_skippedLines = 0,
     im_unsupportedEntries = 0, im_duplicateEntries = 0\<rparr>"

definition newline :: char where "newline = CHR 0x0A"

definition parseOpenSshKnownHosts ::
  "HostsCodec \<Rightarrow> (string \<Rightarrow> int option) \<Rightarrow> string \<Rightarrow> OpenSshKnownHostsImport" where
  "parseOpenSshKnownHosts c toInt contents =
     foldl (import_line c toInt) empty_import (split_keep newline [] contents)"

text \<open>\<open>fs path\<close> is the contents of a file that opens.\<close>

definition loadOpenSshKnownHosts ::
  "HostsCodec \<Rightarrow> (string \<Rightarrow> int option) \<Rightarrow> (string \<Rightarrow> string option) \<Rightarrow> string
    \<Rightarrow> OpenSshKnownHostsImportError + OpenSshKnownHostsImport" where
  "loadOpenSshKnownHosts c toInt fs path =
     (if trimmed path = [] then Inl ImportInvalidPath
      else case fs path of
        None \<Rightarrow> Inl ImportIoError
      | Some contents \<Rightarrow> if length contents > maximumImportFileSize then Inl ImportTooLarge
                         else Inr (parseOpenSshKnownHosts c toInt contents))"

text \<open>Whatever a file holds, what is read from it may be stored.\<close>

definition import_ok :: "OpenSshKnownHostsImport \<Rightarrow> bool" where
  "import_ok r \<longleftrightarrow> hosts_ok (im_entries r)"

lemma parseEndpoint_valid:
  "parseEndpoint toInt token = Some e \<Longrightarrow>
    ep_host e \<noteq> [] \<and> length (ep_host e) \<le> 1024 \<and> CHR 0x00 \<notin> set (ep_host e) \<and> ep_port e \<noteq> 0"
proof -
  have "(of_int p :: u16) \<noteq> 0" if "0 < p" "p \<le> 65535" for p
    using that word_of_int_eq_0_iff [where 'a = 16, of p] zdvd_not_zless [of p 65536] by auto
  then show "parseEndpoint toInt token = Some e \<Longrightarrow> ?thesis"
    by (auto simp: parseEndpoint_def Let_def not_le split: if_splits option.splits)
qed

lemma import_host_ok:
  assumes "import_ok (fst acc)" and "algorithm \<noteq> UnknownAlgorithm" and "key \<noteq> [] \<and> length key \<le> maximumImportedKeySize"
  shows "import_ok (fst (import_host toInt algorithm key token acc))"
proof (cases "parseEndpoint toInt token")
  case (Some e)
  have "validEntry \<lparr>kh_endpoint = e, kh_algorithm = algorithm, kh_encodedKey = key\<rparr>"
    using parseEndpoint_valid [OF Some] assms
    by (simp add: validEntry_def MaximumHostLength_def MaximumEncodedKeySize_def maximumImportedKeySize_def)
  then show ?thesis using assms(1) Some
    by (auto simp: import_host_def import_ok_def hosts_ok_def duplicate_iff Let_def
          maximumImportedEntries_def MaximumEntryCount_def split: prod.split)
qed (use assms in \<open>auto simp: import_host_def import_ok_def split: prod.split\<close>)

lemma import_hosts_ok:
  assumes "import_ok (fst acc)" and "algorithm \<noteq> UnknownAlgorithm" and "key \<noteq> [] \<and> length key \<le> maximumImportedKeySize"
  shows "import_ok (fst (fold (import_host toInt algorithm key) tokens acc))"
  using assms by (induction tokens arbitrary: acc) (simp_all add: import_host_ok)

lemma import_fields_ok: "import_ok r \<Longrightarrow> import_ok (import_fields c toInt r parts)"
proof -
  assume ok: "import_ok r"
  let ?key = "fromBase64 c (parts ! 2)"
  have unsupported: "import_ok (import_unsupported r)" using ok by (simp add: import_ok_def import_unsupported_def)
  let ?at = "parts \<noteq> [] \<and> hd parts \<noteq> [] \<and> hd (hd parts) = CHR ''@''"
  show ?thesis
  proof (cases "?at \<or> length parts < 3 \<or> ?key = [] \<or> length ?key > maximumImportedKeySize")
    case True
    then have "import_fields c toInt r parts = import_unsupported r"
      by (cases ?at) (auto simp: import_fields_def Let_def numeral_2_eq_2 split: option.split)
    then show ?thesis by (simp add: unsupported)
  next
    case False
    then have no: "?at = False" by blast
    show ?thesis
    proof (cases "parseHostKeyAlgorithm (parts ! 1)")
      case None
      then show ?thesis using False unsupported unfolding import_fields_def no by simp
    next
      case (Some a)
      let ?tokens = "split_skip (\<lambda>ch. ch = CHR '','') [] (parts ! 0)"
      obtain r' handled where r': "fold (import_host toInt a ?key) ?tokens (r, False) = (r', handled)" by fastforce
      have "import_ok r'"
        using import_hosts_ok [of "(r, False)" a ?key toInt ?tokens] ok r' False Some algorithm_token_onto by force
      then show ?thesis
        using False Some r' unfolding import_fields_def no by (simp add: Let_def import_ok_def numeral_2_eq_2)
    qed
  qed
qed

lemma import_line_ok: "import_ok r \<Longrightarrow> import_ok (import_line c toInt r line)"
  using import_fields_ok [of "r\<lparr>im_parsedLines := im_parsedLines r + 1\<rparr>" c toInt]
  by (simp add: import_line_def Let_def import_ok_def)

lemma import_file_ok: "import_ok (parseOpenSshKnownHosts c toInt contents)"
proof -
  have "import_ok r \<Longrightarrow> import_ok (foldl (import_line c toInt) r ls)" for r ls
    by (induction ls arbitrary: r) (simp_all add: import_line_ok)
  then show ?thesis by (simp add: parseOpenSshKnownHosts_def import_ok_def empty_import_def hosts_ok_def)
qed

section \<open>The settings page\<close>

text \<open>What the page shows of an entry; \<open>sha256\<close> is Qt's \<open>QCryptographicHash\<close>.\<close>

record KnownHostView =
  kv_host :: string
  kv_port :: u16
  kv_endpoint :: string
  kv_algorithm :: string
  kv_algorithmToken :: string
  kv_fingerprint :: string
  kv_publicKey :: string

definition entry_fingerprint :: "(byte list \<Rightarrow> byte list) \<Rightarrow> KnownHostEntry \<Rightarrow> string" where
  "entry_fingerprint sha256 e = sha256Fingerprint
     \<lparr>hk_algorithm = kh_algorithm e, hk_encodedKey = kh_encodedKey e, hk_sha256 = sha256 (kh_encodedKey e)\<rparr>"

definition entryValue :: "HostsCodec \<Rightarrow> (byte list \<Rightarrow> byte list) \<Rightarrow> KnownHostEntry \<Rightarrow> KnownHostView" where
  "entryValue c sha256 e =
     (let host = ep_host (kh_endpoint e); port = ep_port (kh_endpoint e) in
      \<lparr>kv_host = host, kv_port = port,
       kv_endpoint = (if port = 22 then host else ''['' @ host @ '']:'' @ decimal (unat port)),
       kv_algorithm = hostKeyAlgorithmName (kh_algorithm e),
       kv_algorithmToken = hostKeyAlgorithmToken (kh_algorithm e),
       kv_fingerprint = entry_fingerprint sha256 e,
       kv_publicKey = hostKeyAlgorithmToken (kh_algorithm e) @ '' '' @ toBase64 c (kh_encodedKey e)\<rparr>)"

record ImportSummary =
  is_added :: nat
  is_duplicates :: nat
  is_conflicts :: nat
  is_unsupported :: nat
  is_skipped :: nat
  is_parsedLines :: nat
  is_sources :: "string list"

fun importErrorText :: "OpenSshKnownHostsImportError \<Rightarrow> string" where
  "importErrorText ImportInvalidPath = ''invalid-path''"
| "importErrorText ImportIoError = ''io-error''"
| "importErrorText ImportTooLarge = ''too-large''"

text \<open>
  What the worker tells the page: the entries, an error and the summary (\<open>None\<close> for the empty map).
  \<open>fileName\<close> is \<open>QFileInfo::fileName\<close>.
\<close>

type_synonym hosts_report = "KnownHostEntry list \<times> string \<times> ImportSummary option"

text \<open>The counters of the files read so far: candidates, parser duplicates, unsupported, skipped, lines, sources.\<close>

fun import_all ::
  "HostsCodec \<Rightarrow> (string \<Rightarrow> int option) \<Rightarrow> (string \<Rightarrow> string option) \<Rightarrow> (string \<Rightarrow> string)
    \<Rightarrow> KnownHostEntry list \<times> nat \<times> nat \<times> nat \<times> nat \<times> string list \<Rightarrow> string list
    \<Rightarrow> string + KnownHostEntry list \<times> nat \<times> nat \<times> nat \<times> nat \<times> string list" where
  "import_all c toInt fs fileName acc [] = Inr acc"
| "import_all c toInt fs fileName (candidates, parserDuplicates, unsupported, skipped, parsedLines, sources) (path # paths) =
     (case loadOpenSshKnownHosts c toInt fs path of
        Inl e \<Rightarrow> Inl (importErrorText e)
      | Inr imported \<Rightarrow> import_all c toInt fs fileName
          (candidates @ im_entries imported, parserDuplicates + im_duplicateEntries imported,
           unsupported + im_unsupportedEntries imported, skipped + im_skippedLines imported,
           parsedLines + im_parsedLines imported, sources @ [fileName path]) paths)"

definition importFiles ::
  "HostsCodec \<Rightarrow> (string \<Rightarrow> int option) \<Rightarrow> (string \<Rightarrow> string option) \<Rightarrow> (string \<Rightarrow> string) \<Rightarrow> StoreIo
    \<Rightarrow> string \<Rightarrow> string list \<Rightarrow> string option \<Rightarrow> string option \<times> hosts_report" where
  "importFiles c toInt fs fileName io storePath filePaths file =
     (case import_all c toInt fs fileName ([], 0, 0, 0, 0, []) filePaths of
        Inl e \<Rightarrow> (file, [], e, None)
      | Inr (candidates, parserDuplicates, unsupported, skipped, parsedLines, sources) \<Rightarrow>
          (case mergeMissing c io storePath candidates file of
             (file', Inl e) \<Rightarrow> (file', [], ''store-save'', None)
           | (file', Inr merged) \<Rightarrow>
               (file', mr_entries merged, [],
                Some \<lparr>is_added = mr_added merged, is_duplicates = mr_duplicates merged + parserDuplicates,
                      is_conflicts = mr_conflicts merged, is_unsupported = unsupported, is_skipped = skipped,
                      is_parsedLines = parsedLines, is_sources = sources\<rparr>)))"

text \<open>The work queued for the page's single worker thread, and its run.\<close>

datatype HostsJob =
    JobRefresh | JobImport "string list" bool | JobRemove SshEndpoint HostKeyAlgorithm | JobClear

record KnownHostsController =
  kc_entries :: "KnownHostEntry list"
  kc_busy :: bool
  kc_operationError :: string
  kc_lastImportSummary :: "ImportSummary option"
  kc_job :: "HostsJob option"

record HostsEnv =
  he_codec :: HostsCodec
  he_toInt :: "string \<Rightarrow> int option"
  he_fs :: "string \<Rightarrow> string option"
  he_fileName :: "string \<Rightarrow> string"
  he_storePath :: string

fun run_job :: "HostsEnv \<Rightarrow> StoreIo \<Rightarrow> HostsJob \<Rightarrow> string option \<Rightarrow> string option \<times> hosts_report" where
  "run_job env io JobRefresh file =
     (case loadUnlocked (he_codec env) io (he_storePath env) file of
        Inl e \<Rightarrow> (file, [], ''store-load'', None)
      | Inr entries \<Rightarrow> (file, entries, [], None))"
| "run_job env io (JobImport paths silent) file =
     (case importFiles (he_codec env) (he_toInt env) (he_fs env) (he_fileName env) io (he_storePath env) paths file of
        (file', entries, err, summary) \<Rightarrow> (file', entries, err, if silent then None else summary))"
| "run_job env io (JobRemove endpoint algorithm) file =
     (case hosts_remove (he_codec env) io (he_storePath env) endpoint algorithm file of
        (file', Inl e) \<Rightarrow> (file', [], ''store-save'', None)
      | (file', Inr removed) \<Rightarrow> (file', removed, [], None))"
| "run_job env io JobClear file =
     (case hosts_clear (he_codec env) io (he_storePath env) file of
        (file', Inl e) \<Rightarrow> (file', [], ''store-save'', None)
      | (file', Inr _) \<Rightarrow> (file', [], [], None))"

fun operation_message :: "string \<Rightarrow> string" where
  "operation_message err =
     (if err = ''store-load'' then ''Unable to load the trusted host keys.''
      else if err = ''store-save'' then ''Unable to save the trusted host keys.''
      else if err = ''not-found'' then ''The trusted host key no longer exists.''
      else if err = ''too-large'' then ''The selected OpenSSH known_hosts file is too large.''
      else if err = ''invalid-path'' \<or> err = ''io-error'' then ''Unable to read the selected OpenSSH known_hosts file.''
      else if err = ''resource'' then ''The known-host operation could not allocate the required resources.''
      else [])"

text \<open>The order of the list: host by bytes, port, algorithm in the order of the enumeration.\<close>

fun algorithm_rank :: "HostKeyAlgorithm \<Rightarrow> nat" where
  "algorithm_rank UnknownAlgorithm = 0" | "algorithm_rank Rsa = 1" | "algorithm_rank EcdsaP256 = 2"
| "algorithm_rank EcdsaP384 = 3" | "algorithm_rank EcdsaP521 = 4" | "algorithm_rank Ed25519 = 5"

instantiation HostKeyAlgorithm :: linorder
begin

definition less_eq_HostKeyAlgorithm :: "HostKeyAlgorithm \<Rightarrow> HostKeyAlgorithm \<Rightarrow> bool" where
  "less_eq_HostKeyAlgorithm a b \<longleftrightarrow> algorithm_rank a \<le> algorithm_rank b"

definition less_HostKeyAlgorithm :: "HostKeyAlgorithm \<Rightarrow> HostKeyAlgorithm \<Rightarrow> bool" where
  "less_HostKeyAlgorithm a b \<longleftrightarrow> algorithm_rank a < algorithm_rank b"

instance
proof
  have inj: "algorithm_rank a = algorithm_rank b \<Longrightarrow> a = b" for a b by (cases a; cases b) simp_all
  fix a b c :: HostKeyAlgorithm
  show "(a < b) = (a \<le> b \<and> \<not> b \<le> a)" by (auto simp: less_eq_HostKeyAlgorithm_def less_HostKeyAlgorithm_def)
  show "a \<le> a" by (simp add: less_eq_HostKeyAlgorithm_def)
  show "a \<le> b \<Longrightarrow> b \<le> c \<Longrightarrow> a \<le> c" by (simp add: less_eq_HostKeyAlgorithm_def)
  show "a \<le> b \<Longrightarrow> b \<le> a \<Longrightarrow> a = b" by (simp add: less_eq_HostKeyAlgorithm_def inj)
  show "a \<le> b \<or> b \<le> a" by (auto simp: less_eq_HostKeyAlgorithm_def)
qed

end

definition display_key :: "KnownHostEntry \<Rightarrow> nat list \<times> u16 \<times> HostKeyAlgorithm" where
  "display_key e = (map of_char (ep_host (kh_endpoint e)), ep_port (kh_endpoint e), kh_algorithm e)"

definition applyEntries :: "hosts_report \<Rightarrow> KnownHostsController \<Rightarrow> KnownHostsController" where
  "applyEntries report k =
     (case report of (entries, err, summary) \<Rightarrow>
        let k' = k\<lparr>kc_busy := False, kc_lastImportSummary := summary, kc_operationError := operation_message err\<rparr>
        in if err = [] then k'\<lparr>kc_entries := sort_key display_key entries\<rparr> else k')"

definition beginOperation :: "HostsJob \<Rightarrow> KnownHostsController \<Rightarrow> KnownHostsController \<times> bool" where
  "beginOperation job k =
     (if kc_busy k then (k, False) else (k\<lparr>kc_busy := True, kc_operationError := [], kc_job := Some job\<rparr>, True))"

definition controller_new :: KnownHostsController where
  "controller_new = \<lparr>kc_entries = [], kc_busy = True, kc_operationError = [], kc_lastImportSummary = None,
     kc_job = Some JobRefresh\<rparr>"

definition hosts_refresh :: "KnownHostsController \<Rightarrow> KnownHostsController \<times> bool" where
  "hosts_refresh k = beginOperation JobRefresh k"

text \<open>The candidates are the user's two files and the system's one; \<open>fs\<close> tells which exist.\<close>

definition importDefaultOpenSsh ::
  "(string \<Rightarrow> string option) \<Rightarrow> string list \<Rightarrow> bool \<Rightarrow> KnownHostsController \<Rightarrow> KnownHostsController \<times> bool" where
  "importDefaultOpenSsh fs locations silent k =
     (let paths = filter (\<lambda>p. fs p \<noteq> None) locations
      in if paths = []
         then (if silent then k
               else k\<lparr>kc_operationError := ''No OpenSSH known_hosts file was found for the current user.'',
                      kc_lastImportSummary := None\<rparr>, False)
         else beginOperation (JobImport paths silent) k)"

definition importOpenSshFile :: "(string \<Rightarrow> string) \<Rightarrow> string \<Rightarrow> KnownHostsController \<Rightarrow> KnownHostsController \<times> bool" where
  "importOpenSshFile localPath localFileUrl k =
     (if trimmed (localPath localFileUrl) = [] then (k, False)
      else beginOperation (JobImport [localPath localFileUrl] False) k)"

definition removeEntry :: "string \<Rightarrow> int \<Rightarrow> string \<Rightarrow> KnownHostsController \<Rightarrow> KnownHostsController \<times> bool" where
  "removeEntry host port algorithmToken k =
     (case parseHostKeyAlgorithm algorithmToken of
        None \<Rightarrow> (k, False)
      | Some algorithm \<Rightarrow>
          if trimmed host = [] \<or> port \<le> 0 \<or> port > 65535 then (k, False)
          else beginOperation (JobRemove \<lparr>ep_host = host, ep_port = of_int port\<rparr> algorithm) k)"

definition hosts_clearAll :: "KnownHostsController \<Rightarrow> KnownHostsController \<times> bool" where
  "hosts_clearAll k = beginOperation JobClear k"

text \<open>The worker runs the queued job and its report is delivered.\<close>

definition worker_finishes ::
  "HostsEnv \<Rightarrow> StoreIo \<Rightarrow> KnownHostsController \<times> string option \<Rightarrow> KnownHostsController \<times> string option" where
  "worker_finishes env io world =
     (case world of (k, file) \<Rightarrow>
        case kc_job k of
          None \<Rightarrow> (k, file)
        | Some job \<Rightarrow>
            (case run_job env io job file of (file', report) \<Rightarrow> (applyEntries report (k\<lparr>kc_job := None\<rparr>), file')))"

section \<open>A displayed entry can be imported\<close>

definition no_space :: "string \<Rightarrow> bool" where
  "no_space w \<longleftrightarrow> w \<noteq> [] \<and> list_all (\<lambda>c. \<not> isspace c) w"

lemma split_skip_word: "list_all (\<lambda>c. \<not> sep c) w \<Longrightarrow> split_skip sep p (w @ rest) = split_skip sep (p @ w) rest"
  by (induction w arbitrary: p) simp_all

lemma split_skip_three:
  assumes "no_space a" "no_space b" "no_space d"
  shows "split_skip isspace [] (a @ '' '' @ b @ '' '' @ d) = [a, b, d]"
proof -
  have "isspace (CHR '' '')" by (simp add: isspace_def)
  then show ?thesis
    using assms split_skip_word [of isspace d "[]" "[]"] by (simp add: no_space_def split_skip_word)
qed

lemma split_skip_one: "sep \<notin> set w \<Longrightarrow> w \<noteq> [] \<Longrightarrow> split_skip (\<lambda>ch. ch = sep) [] w = [w]"
proof -
  assume "sep \<notin> set w" "w \<noteq> []"
  moreover from this have "list_all (\<lambda>ch. ch \<noteq> sep) w" by (auto simp: list_all_iff)
  ultimately show ?thesis using split_skip_word [of "\<lambda>ch. ch = sep" w "[]" "[]"] by simp
qed

lemma split_keep_line: "sep \<notin> set w \<Longrightarrow> split_keep sep p (w @ sep # rest) = (p @ w) # split_keep sep [] rest"
  by (induction w arbitrary: p) auto

lemma split_keep_lines:
  "\<forall>w \<in> set ws. sep \<notin> set w \<Longrightarrow> split_keep sep [] (concat (map (\<lambda>w. w @ [sep]) ws)) = ws @ [[]]"
  by (induction ws) (simp_all add: split_keep_line)

lemma trimmed_ends: "a \<noteq> [] \<Longrightarrow> \<not> isspace (hd a) \<Longrightarrow> \<not> isspace (last a) \<Longrightarrow> trimmed a = a"
proof -
  assume a: "a \<noteq> []" "\<not> isspace (hd a)" "\<not> isspace (last a)"
  then have "dropWhile isspace a = a" "dropWhile isspace (rev a) = rev a"
    by (simp_all add: dropWhile_eq_self_iff hd_rev)
  then show ?thesis by (simp add: trimmed_def)
qed

lemma no_space_ends: "no_space a \<Longrightarrow> a \<noteq> [] \<and> \<not> isspace (hd a) \<and> \<not> isspace (last a)"
  by (auto simp: no_space_def list_all_iff)

lemma trimmed_word: "no_space a \<Longrightarrow> trimmed a = a"
  using no_space_ends trimmed_ends by blast

lemma trimmed_id: "no_space a \<Longrightarrow> no_space d \<Longrightarrow> trimmed (a @ b @ d) = a @ b @ d"
  using no_space_ends [of a] no_space_ends [of d] by (intro trimmed_ends) auto

lemma indexOf_skip:
  "CHR '']'' \<notin> set w \<Longrightarrow> text_indexOf '']:'' (w @ '']:'' @ rest) = Some (length w)"
  by (induction w) auto

text \<open>The hosts whose displayed form OpenSSH's syntax can carry, and the line made of it.\<close>

definition plain_host :: "string \<Rightarrow> bool" where
  "plain_host h \<longleftrightarrow> no_space h \<and> set h \<inter> {CHR ''['', CHR '']'', CHR '','', CHR ''*'', CHR ''?'', CHR ''|'', CHR ''!'',
     CHR ''#'', CHR ''@''} = {}"

definition displayed_line :: "KnownHostView \<Rightarrow> string" where
  "displayed_line v = kv_endpoint v @ '' '' @ kv_publicKey v"

lemma parseEndpoint_displayed:
  assumes "plain_host (ep_host (kh_endpoint e))" and "validEntry e"
    and "\<And>n. toInt (decimal n) = Some (int n)"
  shows "parseEndpoint toInt (kv_endpoint (entryValue c sha256 e)) = Some (kh_endpoint e)"
proof -
  let ?h = "ep_host (kh_endpoint e)" and ?p = "unat (ep_port (kh_endpoint e))"
  have h: "?h \<noteq> []" "length ?h \<le> 1024" "CHR 0x00 \<notin> set ?h" "no_space ?h"
    using assms(1,2) by (auto simp: validEntry_def MaximumHostLength_def plain_host_def)
  have p: "0 < ?p" "?p \<le> 65535"
    using assms(2) unsigned_less [of "ep_port (kh_endpoint e)", where 'a = nat]
    by (auto simp: validEntry_def unat_gt_0)
  have "int ?p = uint (ep_port (kh_endpoint e))" by simp
  then have u: "0 < uint (ep_port (kh_endpoint e))" "uint (ep_port (kh_endpoint e)) \<le> 65535"
    using p by linarith+
  have e: "\<lparr>ep_host = ?h, ep_port = of_int (int ?p)\<rparr> = kh_endpoint e" by simp
  show ?thesis
  proof (cases "ep_port (kh_endpoint e) = 22")
    case True
    obtain x xs where x: "?h = x # xs" using h by (cases ?h) auto
    have "trimmed ?h = ?h" using h by (simp add: trimmed_word)
    then show ?thesis
      using True h assms(1) x e by (auto simp: parseEndpoint_def entryValue_def Let_def plain_host_def)
  next
    case False
    let ?t = "CHR ''['' # ?h @ CHR '']'' # CHR '':'' # decimal ?p"
    have digits: "list_all (\<lambda>ch. \<not> isspace ch) (decimal ?p)" "set (decimal ?p) \<inter> {CHR ''*'', CHR ''?''} = {}"
      using decimal_digits [of ?p] by (auto simp: list_all_iff isspace_def is_digit_def Let_def)
    have "no_space ?t" using h digits by (simp add: no_space_def isspace_def)
    then have t: "trimmed ?t = ?t" by (rule trimmed_word)
    have "text_indexOf '']:'' ((CHR ''['' # ?h) @ '']:'' @ decimal ?p) = Some (length (CHR ''['' # ?h))"
      by (rule indexOf_skip) (use assms(1) in \<open>auto simp: plain_host_def\<close>)
    then have i: "text_indexOf '']:'' ?t = Some (Suc (length ?h))" by simp
    have "parseEndpoint toInt ?t = Some \<lparr>ep_host = ?h, ep_port = of_int (int ?p)\<rparr>"
      using h u assms(1) assms(3) [of ?p] digits i t by (auto simp: parseEndpoint_def Let_def plain_host_def)
    then show ?thesis using False e by (simp add: entryValue_def Let_def)
  qed
qed

lemma token_no_space:
  assumes "a \<noteq> UnknownAlgorithm" shows "no_space (hostKeyAlgorithmToken a) \<and> newline \<notin> set (hostKeyAlgorithmToken a)"
  using assms by (cases a) (simp_all add: no_space_def isspace_def newline_def)

text \<open>What is asked of an entry and of base64 for its line to be read.\<close>

definition importable :: "HostsCodec \<Rightarrow> KnownHostEntry \<Rightarrow> bool" where
  "importable c e \<longleftrightarrow> validEntry e \<and> plain_host (ep_host (kh_endpoint e)) \<and> no_space (toBase64 c (kh_encodedKey e))
     \<and> fromBase64 c (toBase64 c (kh_encodedKey e)) = kh_encodedKey e"

lemma displayed_endpoint:
  assumes "plain_host (ep_host (kh_endpoint e))" and "validEntry e"
  shows "no_space (kv_endpoint (entryValue c sha256 e)) \<and> CHR '','' \<notin> set (kv_endpoint (entryValue c sha256 e))
    \<and> hd (kv_endpoint (entryValue c sha256 e)) \<notin> {CHR ''@'', CHR ''#''}"
proof -
  have "list_all (\<lambda>ch. \<not> isspace ch \<and> ch \<noteq> CHR '','') (decimal n)" for n
    using decimal_digits [of n] by (auto simp: list_all_iff isspace_def is_digit_def Let_def)
  moreover obtain x xs where "ep_host (kh_endpoint e) = x # xs"
    using assms(2) by (cases "ep_host (kh_endpoint e)") (auto simp: validEntry_def)
  ultimately show ?thesis
    using assms by (auto simp: entryValue_def Let_def plain_host_def no_space_def isspace_def list_all_iff)
qed

lemma import_displayed:
  assumes "importable c e" and "\<And>n. toInt (decimal n) = Some (int n)"
    and "slot_of e \<notin> slot_of ` set (im_entries r)" and "length (im_entries r) < maximumImportedEntries"
  shows "import_line c toInt r (displayed_line (entryValue c sha256 e))
    = r\<lparr>im_entries := im_entries r @ [e], im_parsedLines := im_parsedLines r + 1\<rparr>"
proof -
  let ?v = "entryValue c sha256 e"
  let ?h = "kv_endpoint ?v" and ?t = "hostKeyAlgorithmToken (kh_algorithm e)" and ?k = "toBase64 c (kh_encodedKey e)"
  have ok: "plain_host (ep_host (kh_endpoint e))" "validEntry e" and k: "no_space ?k" "fromBase64 c ?k = kh_encodedKey e"
    using assms(1) by (auto simp: importable_def)
  note ends = displayed_endpoint [OF ok, of c sha256]
  have h: "no_space ?h" and t: "no_space ?t" and alg: "parseHostKeyAlgorithm ?t = Some (kh_algorithm e)"
    using ends ok(2) token_no_space by (auto simp: validEntry_def algorithm_token_roundtrip)
  have line: "displayed_line ?v = ?h @ ('' '' @ ?t @ '' '') @ ?k"
    by (simp add: displayed_line_def entryValue_def Let_def)
  have trim: "trimmed (displayed_line ?v) = displayed_line ?v"
    unfolding line using h k(1) by (rule trimmed_id)
  have parts: "split_skip isspace [] (displayed_line ?v) = [?h, ?t, ?k]"
    unfolding line using split_skip_three [OF h t k(1)] by simp
  have first: "displayed_line ?v \<noteq> []" "hd (displayed_line ?v) = hd ?h" "?h \<noteq> []"
    using h by (auto simp: line no_space_def)
  have tokens: "split_skip (\<lambda>ch. ch = CHR '','') [] ?h = [?h]"
    using ends first by (intro split_skip_one) auto
  have endpoint: "parseEndpoint toInt ?h = Some (kh_endpoint e)"
    by (rule parseEndpoint_displayed [OF ok assms(2)])
  have entry: "\<lparr>kh_endpoint = kh_endpoint e, kh_algorithm = kh_algorithm e, kh_encodedKey = kh_encodedKey e\<rparr> = e" by simp
  have key: "kh_encodedKey e \<noteq> []" "length (kh_encodedKey e) \<le> maximumImportedKeySize"
    using ok(2) by (auto simp: validEntry_def MaximumEncodedKeySize_def maximumImportedKeySize_def)
  have "import_fields c toInt (r\<lparr>im_parsedLines := im_parsedLines r + 1\<rparr>) [?h, ?t, ?k]
    = r\<lparr>im_entries := im_entries r @ [e], im_parsedLines := im_parsedLines r + 1\<rparr>"
    using ends first key k(2) alg assms(3,4)
    by (simp add: import_fields_def tokens import_host_def endpoint duplicate_iff entry Let_def)
  then show ?thesis using first ends by (simp add: import_line_def trim parts Let_def)
qed

lemma import_all_displayed:
  assumes "\<And>n. toInt (decimal n) = Some (int n)"
    and "\<forall>e \<in> set es. importable c e" and "distinct (map slot_of (im_entries r @ es))"
    and "length (im_entries r @ es) \<le> maximumImportedEntries"
  shows "foldl (import_line c toInt) r (map (\<lambda>e. displayed_line (entryValue c sha256 e)) es)
    = r\<lparr>im_entries := im_entries r @ es, im_parsedLines := im_parsedLines r + length es\<rparr>"
  using assms(2-4)
proof (induction es arbitrary: r)
  case (Cons e es)
  have "import_line c toInt r (displayed_line (entryValue c sha256 e))
    = r\<lparr>im_entries := im_entries r @ [e], im_parsedLines := im_parsedLines r + 1\<rparr>"
    using Cons.prems assms(1) by (intro import_displayed) auto
  then show ?case using Cons.IH [of "r\<lparr>im_entries := im_entries r @ [e], im_parsedLines := im_parsedLines r + 1\<rparr>"]
      Cons.prems by simp
qed simp

lemma newline_is_space: "isspace newline" by (simp add: isspace_def newline_def)

lemma displayed_no_newline:
  assumes "importable c e" shows "newline \<notin> set (displayed_line (entryValue c sha256 e))"
proof -
  have "no_space w \<Longrightarrow> newline \<notin> set w" for w
    using newline_is_space by (auto simp: no_space_def list_all_iff)
  then show ?thesis
    using assms displayed_endpoint [of e c sha256] token_no_space [of "kh_algorithm e"]
    by (auto simp: importable_def validEntry_def displayed_line_def entryValue_def Let_def newline_def)
qed

lemma importErrorText_nonempty: "importErrorText e \<noteq> []"
  by (cases e) simp_all

lemma import_all_error: "import_all c toInt fs fileName acc paths = Inl err \<Longrightarrow> err \<noteq> []"
  by (induction c toInt fs fileName acc paths rule: import_all.induct)
    (auto simp: importErrorText_nonempty split: sum.splits)

lemma merge_unchanged:
  "merge_loop \<lparr>mr_entries = stored, mr_added = 0, mr_duplicates = 0, mr_conflicts = 0\<rparr> es = Inr r
    \<Longrightarrow> loadUnlocked c io path f = Inr stored \<Longrightarrow> mr_added r = 0 \<Longrightarrow> mr_entries r = stored"
  using merge_loop_result [of "\<lparr>mr_entries = stored, mr_added = 0, mr_duplicates = 0, mr_conflicts = 0\<rparr>" es r]
    load_ok [of c io path f stored] by auto

section \<open>Properties\<close>

text \<open>
  Whatever bytes an OpenSSH file holds, the entries read from it are well formed, at most 4096 and
  hold one key per host, port and algorithm, so the store accepts them as they are.
\<close>

theorem imported_entries_storable:
  "hosts_ok (im_entries (parseOpenSshKnownHosts c toInt contents))"
  using import_file_ok by (simp add: import_ok_def)

text \<open>
  The list the settings page shows is a known_hosts file: the displayed endpoint and public key of
  each entry, one line each, are imported as exactly these entries, ports and algorithms included, with
  nothing skipped, provided the host names have no blanks and none of OpenSSH's special characters.
\<close>

theorem displayed_hosts_reimport:
  assumes "\<forall>n. toInt (decimal n) = Some (int n)"
    and "\<forall>e \<in> set es. importable c e" and "distinct (map slot_of es)" and "length es \<le> maximumImportedEntries"
  shows "parseOpenSshKnownHosts c toInt
      (concat (map (\<lambda>e. displayed_line (entryValue c sha256 e) @ [newline]) es))
    = \<lparr>im_entries = es, im_parsedLines = length es, im_skippedLines = 0, im_unsupportedEntries = 0,
       im_duplicateEntries = 0\<rparr>"
proof -
  let ?lines = "map (\<lambda>e. displayed_line (entryValue c sha256 e)) es"
  have "split_keep newline [] (concat (map (\<lambda>w. w @ [newline]) ?lines)) = ?lines @ [[]]"
    by (rule split_keep_lines) (use assms(2) displayed_no_newline in auto)
  moreover have "foldl (import_line c toInt) empty_import ?lines
    = empty_import\<lparr>im_entries := es, im_parsedLines := length es\<rparr>"
    using import_all_displayed [of toInt es c empty_import sha256] assms by (simp add: empty_import_def)
  ultimately show ?thesis
    by (simp add: parseOpenSshKnownHosts_def comp_def import_line_def trimmed_def empty_import_def)
qed

definition sample_toInt :: "string \<Rightarrow> int option" where
  "sample_toInt s = (if list_all is_digit s \<and> s \<noteq> [] then Some (int (digits_value s)) else None)"

lemma sample_importable: "importable sample_codec sample_host"
  using decode_padded [of "[7]"] sample_base64
  by (simp add: importable_def sample_codec_def sample_host_def validEntry_def plain_host_def no_space_def isspace_def
    MaximumHostLength_def MaximumEncodedKeySize_def del: base64Encode.simps)

theorem displayed_hosts_reimport_witness:
  "parseOpenSshKnownHosts sample_codec sample_toInt
      (concat (map (\<lambda>e. displayed_line (entryValue sample_codec id e) @ [newline]) [sample_host]))
    = \<lparr>im_entries = [sample_host], im_parsedLines = length [sample_host], im_skippedLines = 0,
       im_unsupportedEntries = 0, im_duplicateEntries = 0\<rparr>"
  by (rule displayed_hosts_reimport)
    (simp_all add: sample_importable sample_toInt_def decimal_digits decimal_nonempty digits_value_decimal
      maximumImportedEntries_def)

text \<open>
  What the page shows after a job without an error is what the file then holds, sorted: for a
  refresh, an import, a removal and a clearing alike, loading the file as the job left it gives the
  reported entries.
\<close>

theorem page_shows_store:
  assumes "kc_job k = Some job" and "run_job env io job f = (f', es, [], summary)"
    and "faithful_codec (he_codec env) es" and "si_opensForReading io'" and "he_storePath env \<noteq> []"
    and "\<forall>contents. f' = Some contents \<longrightarrow> length contents \<le> MaximumFileSize"
  shows "loadUnlocked (he_codec env) io' (he_storePath env) f' = Inr es
    \<and> kc_entries (fst (worker_finishes env io (k, f))) = sort_key display_key es
    \<and> \<not> kc_busy (fst (worker_finishes env io (k, f)))"
proof
  let ?c = "he_codec env" and ?p = "he_storePath env"
  have saved: "loadUnlocked ?c io' ?p f' = Inr es"
    if "saveUnlocked ?c io ?p es f = (f', Inr u)" for u
    using save_then_load [OF that assms(3,4)] save_result [OF that] assms(6) by simp
  have kept: "loadUnlocked ?c io ?p f = Inr es \<Longrightarrow> loadUnlocked ?c io' ?p f = Inr es"
    using assms(4) by (auto simp: loadUnlocked_def split: option.splits if_splits)
  show "loadUnlocked ?c io' ?p f' = Inr es"
  proof (cases job)
    case JobRefresh
    then show ?thesis using assms(2) kept by (auto split: sum.splits)
  next
    case (JobImport paths silent)
    then obtain candidates r where "mergeMissing ?c io ?p candidates f = (f', Inr r)" "es = mr_entries r"
      using assms(2)
      by (auto simp: importFiles_def split: sum.splits prod.splits if_splits) (metis importErrorText_nonempty import_all_error)+
    then show ?thesis using saved kept
      by (auto simp: mergeMissing_def merge_unchanged split: sum.splits prod.splits if_splits)
  next
    case (JobRemove endpoint algorithm)
    then show ?thesis using assms(2) saved by (auto simp: hosts_remove_def Let_def split: sum.splits prod.splits)
  next
    case JobClear
    then show ?thesis using assms(2) saved by (auto simp: hosts_clear_def split: sum.splits prod.splits)
  qed
  show "kc_entries (fst (worker_finishes env io (k, f))) = sort_key display_key es
    \<and> \<not> kc_busy (fst (worker_finishes env io (k, f)))"
    using assms(1,2) by (simp add: worker_finishes_def applyEntries_def Let_def)
qed

definition sample_hosts_env :: HostsEnv where
  "sample_hosts_env = \<lparr>he_codec = sample_codec, he_toInt = sample_toInt, he_fs = (\<lambda>path. None), he_fileName = id,
     he_storePath = ''p''\<rparr>"

theorem page_shows_store_witness:
  "loadUnlocked (he_codec sample_hosts_env) all_io (he_storePath sample_hosts_env) (Some ''D'') = Inr [sample_host]
    \<and> kc_entries (fst (worker_finishes sample_hosts_env all_io (controller_new, Some ''D'')))
        = sort_key display_key [sample_host]
    \<and> \<not> kc_busy (fst (worker_finishes sample_hosts_env all_io (controller_new, Some ''D'')))"
  by (rule page_shows_store [where job = JobRefresh and summary = None])
    (simp_all add: controller_new_def sample_hosts_env_def sample_reload sample_faithful all_io_def [THEN arg_cong, of si_opensForReading]
      MaximumFileSize_def)

end
