(* ===== verification/Proxy_Tunnel.thy ===== *)
theory Proxy_Tunnel
  imports Host_Keys Socks5
begin

text \<open>
  Reaching an SSH server through a proxy: \<open>src/infrastructure/ssh/ExplicitProxyTunnel\<close> over the
  interface \<open>src/infrastructure/ssh/SshByteTransport.h\<close>.  A transport is a record of its operations on a
  state \<open>'t\<close>, which holds whatever they and the peer depend on, the deadline and the stop token
  included; reading and writing may do less than asked, may have to wait, and may fail.  The two loops
  over it may run for as long as the transport makes them wait, so they are partial functions, \<open>None\<close>
  being a loop that does not end; everything else is written in the code's order with \<open>andThen\<close>
  returning early on an error.
\<close>

datatype SocketIoInterest = InterestRead | InterestWrite | InterestReadWrite

datatype SshByteTransportErrorKind = WouldBlock | TransportClosed | WaitTimedOut | WaitCancelled | SystemError

record SshByteTransportError =
  te_kind :: SshByteTransportErrorKind
  te_nativeCode :: int

record 't SshByteTransport =
  bt_valid :: "'t \<Rightarrow> bool"
  bt_read :: "nat \<Rightarrow> 't \<Rightarrow> (SshByteTransportError + byte list) \<times> 't"
  bt_write :: "byte list \<Rightarrow> 't \<Rightarrow> (SshByteTransportError + nat) \<times> 't"
  bt_waitUntilReady :: "SocketIoInterest \<Rightarrow> 't \<Rightarrow> (SshByteTransportError + unit) \<times> 't"
  bt_stopRequested :: "'t \<Rightarrow> bool"

datatype ExplicitProxyErrorKind =
    InvalidConfiguration | AuthenticationRequired | ProxyAuthenticationRejected | ConnectionRejected
  | ProxyProtocolError | ProxyTimedOut | ProxyCancelled | ProxyConnectionLost

record ExplicitProxyError =
  pe_kind :: ExplicitProxyErrorKind
  pe_protocolCode :: int

definition proxy_error :: "ExplicitProxyErrorKind \<Rightarrow> ExplicitProxyError" where
  "proxy_error kind = \<lparr>pe_kind = kind, pe_protocolCode = 0\<rparr>"

datatype SshProxyType = NoProxy | ProxySocks5 | ProxyHttpConnect

definition mapTransportError :: "SshByteTransportError \<Rightarrow> ExplicitProxyError" where
  "mapTransportError e = \<lparr>pe_kind = (case te_kind e of
       WaitTimedOut \<Rightarrow> ProxyTimedOut
     | WaitCancelled \<Rightarrow> ProxyCancelled
     | WouldBlock \<Rightarrow> ProxyConnectionLost
     | TransportClosed \<Rightarrow> ProxyConnectionLost
     | SystemError \<Rightarrow> ProxyConnectionLost), pe_protocolCode = te_nativeCode e\<rparr>"

type_synonym ('t, 'e, 'a) attempt = "'t \<Rightarrow> (('e + 'a) \<times> 't) option"

type_synonym ('t, 'a) tunnel = "('t, ExplicitProxyError, 'a) attempt"

definition andThen :: "('t, 'e, 'a) attempt \<Rightarrow> ('a \<Rightarrow> ('t, 'e, 'b) attempt) \<Rightarrow> ('t, 'e, 'b) attempt" where
  "andThen m f t =
     (case m t of
        None \<Rightarrow> None
      | Some (Inl e, t') \<Rightarrow> Some (Inl e, t')
      | Some (Inr a, t') \<Rightarrow> f a t')"

definition proxy_fail :: "ExplicitProxyError \<Rightarrow> ('t, 'a) tunnel" where
  "proxy_fail e t = Some (Inl e, t)"

definition proxy_return :: "'a \<Rightarrow> ('t, 'a) tunnel" where
  "proxy_return a t = Some (Inr a, t)"

section \<open>The loops\<close>

definition proxy_waitFor :: "'t SshByteTransport \<Rightarrow> SocketIoInterest \<Rightarrow> 't \<Rightarrow> (ExplicitProxyError + unit) \<times> 't" where
  "proxy_waitFor T interest t =
     (case bt_waitUntilReady T interest t of
        (Inl e, t') \<Rightarrow> (Inl (mapTransportError e), t')
      | (Inr u, t') \<Rightarrow> (Inr u, t'))"

text \<open>What is left to do after one \<open>write\<close> or \<open>read\<close>: go on, wait, or give up.\<close>

datatype 'a Progress = MadeProgress 'a | MustWait | GiveUp ExplicitProxyError

definition write_progress :: "SshByteTransportError + nat \<Rightarrow> nat Progress" where
  "write_progress written =
     (case written of
        Inr n \<Rightarrow> if n \<noteq> 0 then MadeProgress n else MustWait
      | Inl e \<Rightarrow> if te_kind e = WouldBlock then MustWait else GiveUp (mapTransportError e))"

definition read_progress :: "SshByteTransportError + byte list \<Rightarrow> byte list Progress" where
  "read_progress received =
     (case received of
        Inr bs \<Rightarrow> if bs \<noteq> [] then MadeProgress bs else MustWait
      | Inl e \<Rightarrow> if te_kind e = WouldBlock then MustWait else GiveUp (mapTransportError e))"

partial_function (option) writeAll :: "'t SshByteTransport \<Rightarrow> byte list \<Rightarrow> ('t, unit) tunnel" where
  "writeAll T bytes t =
     (if bytes = [] then Some (Inr (), t)
      else if bt_stopRequested T t then Some (Inl (proxy_error ProxyCancelled), t)
      else (case bt_write T bytes t of (written, t') \<Rightarrow>
        case write_progress written of
          MadeProgress n \<Rightarrow> writeAll T (drop n bytes) t'
        | MustWait \<Rightarrow>
            (case proxy_waitFor T InterestWrite t' of
               (Inl e, t'') \<Rightarrow> Some (Inl e, t'')
             | (Inr _, t'') \<Rightarrow> writeAll T bytes t'')
        | GiveUp e \<Rightarrow> Some (Inl e, t')))"

text \<open>\<open>readExact T n acc\<close>: the bytes read so far are \<open>acc\<close>, \<open>n\<close> more are wanted.\<close>

partial_function (option) readMore :: "'t SshByteTransport \<Rightarrow> nat \<Rightarrow> byte list \<Rightarrow> ('t, byte list) tunnel" where
  "readMore T n acc t =
     (if n = 0 then Some (Inr acc, t)
      else if bt_stopRequested T t then Some (Inl (proxy_error ProxyCancelled), t)
      else (case bt_read T n t of (received, t') \<Rightarrow>
        case read_progress received of
          MadeProgress bs \<Rightarrow> readMore T (n - length bs) (acc @ bs) t'
        | MustWait \<Rightarrow>
            (case proxy_waitFor T InterestRead t' of
               (Inl e, t'') \<Rightarrow> Some (Inl e, t'')
             | (Inr _, t'') \<Rightarrow> readMore T n acc t'')
        | GiveUp e \<Rightarrow> Some (Inl e, t')))"

definition readExact :: "'t SshByteTransport \<Rightarrow> nat \<Rightarrow> ('t, byte list) tunnel" where
  "readExact T n = readMore T n []"

section \<open>SOCKS5\<close>

definition text_bytes :: "string \<Rightarrow> byte list" where
  "text_bytes s = map char_byte s"

definition socks_greeting :: "bool \<Rightarrow> byte list" where
  "socks_greeting authenticate = [0x05, 0x01, if authenticate then 0x02 else 0x00]"

definition socks_authentication :: "string \<Rightarrow> string \<Rightarrow> byte list" where
  "socks_authentication username password =
     [0x01, of_nat (length username)] @ text_bytes username @ [of_nat (length password)] @ text_bytes password"

definition socks_connect :: "string \<Rightarrow> u16 \<Rightarrow> byte list" where
  "socks_connect targetHost targetPort =
     [0x05, 0x01, 0x00, 0x03, of_nat (length targetHost)] @ text_bytes targetHost
     @ [ucast (drop_bit 8 targetPort), ucast targetPort]"

definition socks_method :: "bool \<Rightarrow> byte list \<Rightarrow> ('t, unit) tunnel" where
  "socks_method authenticate methodResponse =
     (if methodResponse ! 0 \<noteq> 0x05 then proxy_fail (proxy_error ProxyProtocolError)
      else if methodResponse ! 1 = 0xFF then proxy_fail (proxy_error AuthenticationRequired)
      else if methodResponse ! 1 \<noteq> (if authenticate then 0x02 else 0x00) then proxy_fail (proxy_error ProxyProtocolError)
      else proxy_return ())"

definition socks_authenticate :: "'t SshByteTransport \<Rightarrow> string \<Rightarrow> string \<Rightarrow> ('t, unit) tunnel" where
  "socks_authenticate T username password =
     andThen (writeAll T (socks_authentication username password)) (\<lambda>_.
     andThen (readExact T 2) (\<lambda>response.
       if response ! 0 \<noteq> 0x01 \<or> response ! 1 \<noteq> 0x00 then proxy_fail (proxy_error ProxyAuthenticationRejected)
       else proxy_return ()))"

text \<open>The length of the address in a reply, for a name read from the wire.\<close>

definition socks_addressLength :: "'t SshByteTransport \<Rightarrow> byte \<Rightarrow> ('t, nat) tunnel" where
  "socks_addressLength T addressType =
     (if addressType = 0x01 then proxy_return 4
      else if addressType = 0x04 then proxy_return 16
      else if addressType = 0x03 then andThen (readExact T 1) (\<lambda>n. proxy_return (unat (n ! 0)))
      else proxy_fail (proxy_error ProxyProtocolError))"

definition socks_response :: "'t SshByteTransport \<Rightarrow> ('t, unit) tunnel" where
  "socks_response T =
     andThen (readExact T 4) (\<lambda>responseHeader.
       if responseHeader ! 0 \<noteq> 0x05 \<or> responseHeader ! 2 \<noteq> 0x00 then proxy_fail (proxy_error ProxyProtocolError)
       else if responseHeader ! 1 \<noteq> 0x00
       then proxy_fail \<lparr>pe_kind = ConnectionRejected, pe_protocolCode = int (unat (responseHeader ! 1))\<rparr>
       else andThen (socks_addressLength T (responseHeader ! 3)) (\<lambda>addressLength.
            andThen (readExact T (addressLength + 2)) (\<lambda>_. proxy_return ())))"

definition establishSocks5 ::
  "'t SshByteTransport \<Rightarrow> string \<Rightarrow> u16 \<Rightarrow> string \<Rightarrow> string \<Rightarrow> ('t, unit) tunnel" where
  "establishSocks5 T targetHost targetPort username password =
     (if targetHost = [] \<or> length targetHost > 255 \<or> length username > 255 \<or> length password > 255
         \<or> (username = []) \<noteq> (password = []) then proxy_fail (proxy_error InvalidConfiguration)
      else let authenticate = (username \<noteq> []) in
           andThen (writeAll T (socks_greeting authenticate)) (\<lambda>_.
           andThen (readExact T 2) (\<lambda>methodResponse.
           andThen (socks_method authenticate methodResponse) (\<lambda>_.
           andThen (if authenticate then socks_authenticate T username password else proxy_return ()) (\<lambda>_.
           andThen (writeAll T (socks_connect targetHost targetPort)) (\<lambda>_.
           socks_response T))))))"

section \<open>HTTP CONNECT\<close>

definition crlf :: string where "crlf = [CHR 0x0D, CHR 0x0A]"

definition has_break :: "string \<Rightarrow> bool" where
  "has_break s \<longleftrightarrow> CHR 0x0D \<in> set s \<or> CHR 0x0A \<in> set s"

definition http_authority :: "string \<Rightarrow> u16 \<Rightarrow> string" where
  "http_authority targetHost targetPort =
     (let isIpv6Literal = CHR '':'' \<in> set targetHost \<and> hd targetHost \<noteq> CHR ''['' in
      (if isIpv6Literal then ''['' else []) @ targetHost @ (if isIpv6Literal then '']'' else [])
      @ '':'' @ decimal (unat targetPort))"

definition http_request :: "string \<Rightarrow> u16 \<Rightarrow> string \<Rightarrow> string \<Rightarrow> string" where
  "http_request targetHost targetPort username password =
     (let authority = http_authority targetHost targetPort in
      ''CONNECT '' @ authority @ '' HTTP/1.1'' @ crlf @ ''Host: '' @ authority @ crlf
      @ ''Proxy-Connection: Keep-Alive'' @ crlf
      @ (if username = [] then []
         else ''Proxy-Authorization: Basic '' @ base64Encode (text_bytes (username @ '':'' @ password)) @ crlf)
      @ crlf)"

definition maximumHeaderBytes :: nat where "maximumHeaderBytes = 16 * 1024"

definition ends_with :: "string \<Rightarrow> string \<Rightarrow> bool" where
  "ends_with s e \<longleftrightarrow> suffix e s"

definition starts_with :: "string \<Rightarrow> string \<Rightarrow> bool" where
  "starts_with s e \<longleftrightarrow> prefix e s"

text \<open>The header is read byte by byte up to its blank line; at most \<open>fuel\<close> bytes may still be read.\<close>

fun http_header :: "'t SshByteTransport \<Rightarrow> nat \<Rightarrow> string \<Rightarrow> ('t, string) tunnel" where
  "http_header T 0 response =
     (if ends_with response (crlf @ crlf) then proxy_return response
      else proxy_fail (proxy_error ProxyProtocolError))"
| "http_header T (Suc fuel) response =
     (if ends_with response (crlf @ crlf) then proxy_return response
      else andThen (readExact T 1) (\<lambda>b. http_header T fuel (response @ [byte_char (b ! 0)])))"

text \<open>The bytes before the first line break; the response ends with one.\<close>

fun first_line :: "string \<Rightarrow> string" where
  "first_line (a # b # rest) = (if [a, b] = crlf then [] else a # first_line (b # rest))"
| "first_line s = s"

text \<open>
  \<open>std::from_chars\<close> on the three characters after the version: accepted when it reads all three, that is
  for three digits or a minus sign and two.
\<close>

definition http_code :: "string \<Rightarrow> int option" where
  "http_code s =
     (if length s = 3 \<and> list_all is_digit s then Some (int (digits_value s))
      else if length s = 3 \<and> hd s = CHR ''-'' \<and> list_all is_digit (tl s) then Some (- int (digits_value (tl s)))
      else None)"

definition http_status :: "string \<Rightarrow> ExplicitProxyError + unit" where
  "http_status statusLine =
     (if \<not> (starts_with statusLine ''HTTP/1.0 '' \<or> starts_with statusLine ''HTTP/1.1 '') \<or> length statusLine < 12
      then Inl (proxy_error ProxyProtocolError)
      else case http_code (take 3 (drop 9 statusLine)) of
        None \<Rightarrow> Inl (proxy_error ProxyProtocolError)
      | Some statusCode \<Rightarrow>
          if length statusLine > 12 \<and> statusLine ! 12 \<noteq> CHR '' '' then Inl (proxy_error ProxyProtocolError)
          else if 200 \<le> statusCode \<and> statusCode < 300 then Inr ()
          else Inl \<lparr>pe_kind = (if statusCode = 407 then ProxyAuthenticationRejected else ConnectionRejected),
                    pe_protocolCode = statusCode\<rparr>)"

definition establishHttpConnect ::
  "'t SshByteTransport \<Rightarrow> string \<Rightarrow> u16 \<Rightarrow> string \<Rightarrow> string \<Rightarrow> ('t, unit) tunnel" where
  "establishHttpConnect T targetHost targetPort username password =
     (if targetHost = [] \<or> length targetHost > 1024 \<or> has_break targetHost
         \<or> CHR '':'' \<in> set username \<or> has_break username \<or> has_break password \<or> (username = []) \<noteq> (password = [])
      then proxy_fail (proxy_error InvalidConfiguration)
      else andThen (writeAll T (text_bytes (http_request targetHost targetPort username password))) (\<lambda>_.
           andThen (http_header T maximumHeaderBytes []) (\<lambda>response.
             case http_status (first_line response) of
               Inl e \<Rightarrow> proxy_fail e
             | Inr u \<Rightarrow> proxy_return u)))"

section \<open>The tunnel\<close>

text \<open>\<open>timeout\<close> in milliseconds; the deadline it gives is the transport's to keep.\<close>

definition establishExplicitProxyTunnel ::
  "'t SshByteTransport \<Rightarrow> SshProxyType \<Rightarrow> string \<Rightarrow> u16 \<Rightarrow> string \<Rightarrow> string \<Rightarrow> int \<Rightarrow> ('t, unit) tunnel" where
  "establishExplicitProxyTunnel T type targetHost targetPort username password timeout t =
     (if \<not> bt_valid T t \<or> targetPort = 0 \<or> timeout \<le> 0 then proxy_fail (proxy_error InvalidConfiguration) t
      else case type of
        ProxySocks5 \<Rightarrow> establishSocks5 T targetHost targetPort username password t
      | ProxyHttpConnect \<Rightarrow> establishHttpConnect T targetHost targetPort username password t
      | NoProxy \<Rightarrow> proxy_fail (proxy_error InvalidConfiguration) t)"

section \<open>What a transport does to the streams\<close>

lemma andThen_Inr:
  "andThen m f t = Some (Inr b, t') \<longleftrightarrow> (\<exists>a t1. m t = Some (Inr a, t1) \<and> f a t1 = Some (Inr b, t'))"
  by (auto simp: andThen_def split: option.splits sum.splits)

text \<open>A SOCKS5 reply that reports success: its address is an IPv4, an IPv6 one or a counted name.\<close>

definition socks_reply :: "byte list \<Rightarrow> bool" where
  "socks_reply reply \<longleftrightarrow> (\<exists>addressType len rest n. reply = [0x05, 0x00, 0x00, addressType] @ len @ rest
     \<and> length rest = n + 2
     \<and> (addressType = 0x01 \<and> len = [] \<and> n = 4 \<or> addressType = 0x04 \<and> len = [] \<and> n = 16
        \<or> addressType = 0x03 \<and> (\<exists>l. len = [l] \<and> n = unat l)))"

text \<open>
  The interface the tunnel relies on: a read hands over at most what was asked for and adds it to what has
  been received, a write adds the part it accepted to what has been sent, and nothing else touches either
  stream.
\<close>

locale byte_stream =
  fixes T :: "'t SshByteTransport" and sent :: "'t \<Rightarrow> byte list" and received :: "'t \<Rightarrow> byte list"
  assumes read_some: "bt_read T n t = (Inr bs, t') \<Longrightarrow>
      length bs \<le> n \<and> received t' = received t @ bs \<and> sent t' = sent t"
    and read_none: "bt_read T n t = (Inl e, t') \<Longrightarrow> received t' = received t \<and> sent t' = sent t"
    and write_some: "bt_write T bs t = (Inr m, t') \<Longrightarrow> sent t' = sent t @ take m bs \<and> received t' = received t"
    and write_none: "bt_write T bs t = (Inl e, t') \<Longrightarrow> sent t' = sent t \<and> received t' = received t"
    and wait_still: "bt_waitUntilReady T interest t = (r, t') \<Longrightarrow> sent t' = sent t \<and> received t' = received t"
begin

lemma proxy_wait_still:
  "proxy_waitFor T interest t = (r, t') \<Longrightarrow> sent t' = sent t \<and> received t' = received t"
  by (auto simp: proxy_waitFor_def split: prod.splits sum.splits dest: wait_still)

text \<open>Whatever the pieces, a whole write sends exactly the bytes, and a failed one a prefix of them.\<close>

definition write_post :: "'t SshByteTransport \<Rightarrow> byte list \<Rightarrow> 't \<Rightarrow> (ExplicitProxyError + unit) \<times> 't \<Rightarrow> bool" where
  "write_post T' bytes t y \<longleftrightarrow> (T' = T \<longrightarrow> received (snd y) = received t
     \<and> (\<exists>p. prefix p bytes \<and> sent (snd y) = sent t @ p \<and> (isl (fst y) \<or> p = bytes)))"

lemma write_post_step:
  assumes IH: "\<And>T' bytes t y. rec T' bytes t = Some y \<Longrightarrow> write_post T' bytes t y"
    and step: "(if bytes = [] then Some (Inr (), t)
      else if bt_stopRequested T t then Some (Inl (proxy_error ProxyCancelled), t)
      else (case bt_write T bytes t of (written, t') \<Rightarrow>
        case write_progress written of
          MadeProgress n \<Rightarrow> rec T (drop n bytes) t'
        | MustWait \<Rightarrow>
            (case proxy_waitFor T InterestWrite t' of
               (Inl e, t'') \<Rightarrow> Some (Inl e, t'')
             | (Inr _, t'') \<Rightarrow> rec T bytes t'')
        | GiveUp e \<Rightarrow> Some (Inl e, t'))) = Some y"
  shows "write_post T bytes t y"
proof (cases "bytes = [] \<or> bt_stopRequested T t")
  case True
  then show ?thesis using step by (auto simp: write_post_def split: if_splits)
next
  case False
  obtain w t1 where w: "bt_write T bytes t = (w, t1)" by fastforce
  show ?thesis
  proof (cases "write_progress w")
    case (MadeProgress n)
    then have "w = Inr n" by (auto simp: write_progress_def split: sum.splits if_splits)
    then have log: "sent t1 = sent t @ take n bytes" "received t1 = received t"
      using write_some [of bytes t n t1] w by auto
    have "rec T (drop n bytes) t1 = Some y" using step False w MadeProgress by simp
    from IH [OF this] obtain p where p: "received (snd y) = received t1" "prefix p (drop n bytes)"
      "sent (snd y) = sent t1 @ p" "isl (fst y) \<or> p = drop n bytes" by (auto simp: write_post_def)
    have "prefix (take n bytes @ p) bytes"
      using p(2) by (metis append_take_drop_id same_prefix_prefix)
    moreover have "isl (fst y) \<or> take n bytes @ p = bytes" using p(4) by auto
    ultimately show ?thesis using p log unfolding write_post_def by (metis append.assoc)
  next
    case MustWait
    then have still: "sent t1 = sent t" "received t1 = received t"
      using w write_none [of bytes t _ t1] write_some [of bytes t _ t1]
      by (auto simp: write_progress_def split: sum.splits if_splits)
    obtain r2 t2 where wait: "proxy_waitFor T InterestWrite t1 = (r2, t2)" by fastforce
    note still2 = proxy_wait_still [OF wait]
    show ?thesis
    proof (cases r2)
      case (Inl e)
      then show ?thesis using step False w MustWait wait still still2 by (auto simp: write_post_def)
    next
      case (Inr u)
      have "rec T bytes t2 = Some y" using step False w MustWait wait Inr by simp
      from IH [OF this] show ?thesis using still still2 by (simp add: write_post_def)
    qed
  next
    case (GiveUp e)
    then have "sent t1 = sent t" "received t1 = received t"
      using w write_none [of bytes t _ t1] by (auto simp: write_progress_def split: sum.splits if_splits)
    then show ?thesis using step False w GiveUp by (auto simp: write_post_def)
  qed
qed

lemma writeAll_result:
  assumes "writeAll T bytes t = Some (r, t')"
  shows "received t' = received t \<and> (\<exists>p. prefix p bytes \<and> sent t' = sent t @ p \<and> (isl r \<or> p = bytes))"
proof -
  have "write_post T bytes t (r, t')"
  proof (rule writeAll.raw_induct [of write_post, OF _ assms])
    fix rec T' bytes t y
    assume IH: "\<And>T' bytes t y. rec T' bytes t = Some y \<Longrightarrow> write_post T' bytes t y"
    assume step: "(if bytes = [] then Some (Inr (), t)
      else if bt_stopRequested T' t then Some (Inl (proxy_error ProxyCancelled), t)
      else (case bt_write T' bytes t of (written, t1) \<Rightarrow>
        case write_progress written of
          MadeProgress n \<Rightarrow> rec T' (drop n bytes) t1
        | MustWait \<Rightarrow>
            (case proxy_waitFor T' InterestWrite t1 of
               (Inl e, t2) \<Rightarrow> Some (Inl e, t2)
             | (Inr _, t2) \<Rightarrow> rec T' bytes t2)
        | GiveUp e \<Rightarrow> Some (Inl e, t1))) = Some y"
    show "write_post T' bytes t y"
    proof (cases "T' = T")
      case True
      then show ?thesis using write_post_step [OF IH, of rec bytes t y] step by blast
    qed (simp add: write_post_def)
  qed
  then show ?thesis by (simp add: write_post_def)
qed

definition read_post ::
  "'t SshByteTransport \<Rightarrow> nat \<Rightarrow> byte list \<Rightarrow> 't \<Rightarrow> (ExplicitProxyError + byte list) \<times> 't \<Rightarrow> bool" where
  "read_post T' n acc t y \<longleftrightarrow> (T' = T \<longrightarrow> sent (snd y) = sent t
     \<and> (\<exists>bs. received (snd y) = received t @ bs \<and> length bs \<le> n
         \<and> (\<forall>out. fst y = Inr out \<longrightarrow> out = acc @ bs \<and> length bs = n)))"

lemma read_post_step:
  assumes IH: "\<And>T' n acc t y. rec T' n acc t = Some y \<Longrightarrow> read_post T' n acc t y"
    and step: "(if n = 0 then Some (Inr acc, t)
      else if bt_stopRequested T t then Some (Inl (proxy_error ProxyCancelled), t)
      else (case bt_read T n t of (outcome, t') \<Rightarrow>
        case read_progress outcome of
          MadeProgress bs \<Rightarrow> rec T (n - length bs) (acc @ bs) t'
        | MustWait \<Rightarrow>
            (case proxy_waitFor T InterestRead t' of
               (Inl e, t'') \<Rightarrow> Some (Inl e, t'')
             | (Inr _, t'') \<Rightarrow> rec T n acc t'')
        | GiveUp e \<Rightarrow> Some (Inl e, t'))) = Some y"
  shows "read_post T n acc t y"
proof (cases "n = 0 \<or> bt_stopRequested T t")
  case True
  then show ?thesis using step by (auto simp: read_post_def split: if_splits)
next
  case False
  obtain w t1 where w: "bt_read T n t = (w, t1)" by fastforce
  show ?thesis
  proof (cases "read_progress w")
    case (MadeProgress bs)
    then have "w = Inr bs" by (auto simp: read_progress_def split: sum.splits if_splits)
    then have log: "length bs \<le> n" "received t1 = received t @ bs" "sent t1 = sent t"
      using read_some [of n t bs t1] w by auto
    have "rec T (n - length bs) (acc @ bs) t1 = Some y" using step False w MadeProgress by simp
    from IH [OF this] obtain cs where cs: "sent (snd y) = sent t1" "received (snd y) = received t1 @ cs"
      "length cs \<le> n - length bs" "\<forall>out. fst y = Inr out \<longrightarrow> out = (acc @ bs) @ cs \<and> length cs = n - length bs"
      by (auto simp: read_post_def)
    show ?thesis unfolding read_post_def
      by (rule impI, rule conjI, simp add: cs log, rule exI [of _ "bs @ cs"]) (use cs log in auto)
  next
    case MustWait
    then have still: "sent t1 = sent t" "received t1 = received t"
      using w read_none [of n t _ t1] read_some [of n t _ t1]
      by (auto simp: read_progress_def split: sum.splits if_splits)
    obtain r2 t2 where wait: "proxy_waitFor T InterestRead t1 = (r2, t2)" by fastforce
    note still2 = proxy_wait_still [OF wait]
    show ?thesis
    proof (cases r2)
      case (Inl e)
      then show ?thesis using step False w MustWait wait still still2 by (auto simp: read_post_def)
    next
      case (Inr u)
      have "rec T n acc t2 = Some y" using step False w MustWait wait Inr by simp
      from IH [OF this] show ?thesis using still still2 by (simp add: read_post_def)
    qed
  next
    case (GiveUp e)
    then have "sent t1 = sent t" "received t1 = received t"
      using w read_none [of n t _ t1] by (auto simp: read_progress_def split: sum.splits if_splits)
    then show ?thesis using step False w GiveUp by (auto simp: read_post_def)
  qed
qed

lemma readExact_result:
  assumes "readExact T n t = Some (r, t')"
  shows "sent t' = sent t \<and> (\<exists>bs. received t' = received t @ bs \<and> length bs \<le> n
    \<and> (\<forall>out. r = Inr out \<longrightarrow> out = bs \<and> length bs = n))"
proof -
  have "readMore T n [] t = Some (r, t')" using assms by (simp add: readExact_def)
  then have "read_post T n [] t (r, t')"
  proof (rule readMore.raw_induct [of read_post, rotated])
    fix rec T' n acc t y
    assume IH: "\<And>T' n acc t y. rec T' n acc t = Some y \<Longrightarrow> read_post T' n acc t y"
    assume step: "(if n = 0 then Some (Inr acc, t)
      else if bt_stopRequested T' t then Some (Inl (proxy_error ProxyCancelled), t)
      else (case bt_read T' n t of (outcome, t1) \<Rightarrow>
        case read_progress outcome of
          MadeProgress bs \<Rightarrow> rec T' (n - length bs) (acc @ bs) t1
        | MustWait \<Rightarrow>
            (case proxy_waitFor T' InterestRead t1 of
               (Inl e, t2) \<Rightarrow> Some (Inl e, t2)
             | (Inr _, t2) \<Rightarrow> rec T' n acc t2)
        | GiveUp e \<Rightarrow> Some (Inl e, t1))) = Some y"
    show "read_post T' n acc t y"
    proof (cases "T' = T")
      case True
      then show ?thesis using read_post_step [OF IH, of rec n acc t y] step by blast
    qed (simp add: read_post_def)
  qed
  then show ?thesis by (simp add: read_post_def)
qed

text \<open>One exchange of the handshakes: a message is written and an answer of known length read.\<close>

lemma read_ok:
  "readExact T n t = Some (Inr bs, t') \<Longrightarrow> sent t' = sent t \<and> received t' = received t @ bs \<and> length bs = n"
  using readExact_result [of n t "Inr bs" t'] by auto

lemma write_ok: "writeAll T bytes t = Some (Inr u, t') \<Longrightarrow> sent t' = sent t @ bytes \<and> received t' = received t"
  using writeAll_result [of bytes t "Inr u" t'] by auto

lemma response_ok:
  assumes "socks_response T t = Some (Inr u, t')"
  shows "sent t' = sent t \<and> (\<exists>reply. received t' = received t @ reply \<and> socks_reply reply)"
proof -
  obtain hdr t1 where hdr: "readExact T 4 t = Some (Inr hdr, t1)" "hdr ! 0 = 0x05" "hdr ! 2 = 0x00" "hdr ! 1 = 0x00"
    and rest: "andThen (socks_addressLength T (hdr ! 3)) (\<lambda>n. andThen (readExact T (n + 2)) (\<lambda>_. proxy_return ())) t1
      = Some (Inr u, t')"
    using assms by (auto simp: socks_response_def andThen_Inr proxy_fail_def split: if_splits)
  from rest obtain n t2 bs where n: "socks_addressLength T (hdr ! 3) t1 = Some (Inr n, t2)"
    and bs: "readExact T (n + 2) t2 = Some (Inr bs, t')"
    by (auto simp: andThen_Inr proxy_return_def)
  note h = read_ok [OF hdr(1)] and b = read_ok [OF bs]
  have four: "hdr = [0x05, 0x00, 0x00, hdr ! 3]"
    using h hdr(2-4) by (auto simp: length_Suc_conv eval_nat_numeral)
  obtain len where len: "sent t2 = sent t1" "received t2 = received t1 @ len"
    "(hdr ! 3 = 0x01 \<and> len = [] \<and> n = 4) \<or> (hdr ! 3 = 0x04 \<and> len = [] \<and> n = 16)
      \<or> (hdr ! 3 = 0x03 \<and> (\<exists>l. len = [l] \<and> n = unat l))"
  proof (cases "hdr ! 3 = 0x03")
    case True
    then obtain l where "readExact T 1 t1 = Some (Inr l, t2)" "n = unat (l ! 0)"
      using n by (auto simp: socks_addressLength_def andThen_Inr proxy_return_def)
    then show thesis using that [of l] True read_ok [of 1 t1 l t2]
      by (cases l) auto
  next
    case False
    then show thesis using that [of "[]"] n
      by (auto simp: socks_addressLength_def proxy_return_def proxy_fail_def split: if_splits)
  qed
  have "socks_reply (hdr @ len @ bs)"
    unfolding socks_reply_def
    by (rule exI [of _ "hdr ! 3"], rule exI [of _ len], rule exI [of _ bs], rule exI [of _ n]) (use four len(3) b in auto)
  then show ?thesis using h b len by auto
qed

lemma socks_transcript:
  assumes "establishSocks5 T host port username password t = Some (Inr u, t')"
  shows "sent t' = sent t @ socks_greeting (username \<noteq> [])
      @ (if username = [] then [] else socks_authentication username password) @ socks_connect host port
    \<and> (\<exists>reply. socks_reply reply \<and> received t' = received t @ [0x05, if username \<noteq> [] then 0x02 else 0x00]
         @ (if username = [] then [] else [0x01, 0x00]) @ reply)"
proof -
  let ?auth = "username \<noteq> []"
  obtain u1 t1 m t2 u3 t3 u4 t4 u5 t5 where
    1: "writeAll T (socks_greeting ?auth) t = Some (Inr u1, t1)" and
    2: "readExact T 2 t1 = Some (Inr m, t2)" and
    3: "socks_method ?auth m t2 = Some (Inr u3, t3)" and
    4: "(if ?auth then socks_authenticate T username password else proxy_return ()) t3 = Some (Inr u4, t4)" and
    5: "writeAll T (socks_connect host port) t4 = Some (Inr u5, t5)" and
    6: "socks_response T t5 = Some (Inr u, t')"
    using assms by (auto simp: establishSocks5_def andThen_Inr Let_def proxy_fail_def split: if_splits)
  have m: "m = [0x05, if ?auth then 0x02 else 0x00] \<and> t3 = t2"
    using 3 read_ok [OF 2]
    by (auto simp: socks_method_def proxy_fail_def proxy_return_def length_Suc_conv eval_nat_numeral split: if_splits)
  have auth: "sent t4 = sent t3 @ (if username = [] then [] else socks_authentication username password)
    \<and> received t4 = received t3 @ (if username = [] then [] else [0x01, 0x00])"
  proof (cases "username = []")
    case True
    then show ?thesis using 4 by (simp add: proxy_return_def)
  next
    case False
    then obtain v ta bs where "writeAll T (socks_authentication username password) t3 = Some (Inr v, ta)"
      and bs: "readExact T 2 ta = Some (Inr bs, t4)" "bs ! 0 = 0x01" "bs ! 1 = 0x00"
      using 4 by (auto simp: socks_authenticate_def andThen_Inr proxy_fail_def proxy_return_def split: if_splits)
    moreover have "bs = [0x01, 0x00]"
      using read_ok [OF bs(1)] bs(2,3) by (auto simp: length_Suc_conv eval_nat_numeral)
    ultimately show ?thesis using False write_ok [of _ t3 v ta] read_ok [OF bs(1)] by simp
  qed
  show ?thesis
    using write_ok [OF 1] read_ok [OF 2] m auth write_ok [OF 5] response_ok [OF 6] by auto
qed

text \<open>Later steps only add to the two streams.\<close>

definition extending :: "('t, 'a) tunnel \<Rightarrow> bool" where
  "extending m \<longleftrightarrow> (\<forall>t r t'. m t = Some (r, t') \<longrightarrow> prefix (sent t) (sent t') \<and> prefix (received t) (received t'))"

lemma extending_andThen:
  assumes "extending m" and "\<And>a. extending (f a)" shows "extending (andThen m f)"
  unfolding extending_def
proof (intro allI impI)
  fix t r t' assume step: "andThen m f t = Some (r, t')"
  show "prefix (sent t) (sent t') \<and> prefix (received t) (received t')"
  proof (cases "m t")
    case (Some y)
    obtain r1 t1 where y: "y = (r1, t1)" by fastforce
    have 1: "prefix (sent t) (sent t1) \<and> prefix (received t) (received t1)"
      using assms(1) Some y by (auto simp: extending_def)
    show ?thesis
    proof (cases r1)
      case (Inl e)
      then show ?thesis using step Some y 1 by (auto simp: andThen_def)
    next
      case (Inr a)
      then have "f a t1 = Some (r, t')" using step Some y by (simp add: andThen_def)
      then show ?thesis using assms(2) [of a] 1 by (auto simp: extending_def intro: prefix_order.order_trans)
    qed
  qed (use step in \<open>simp add: andThen_def\<close>)
qed

lemma extending_basic:
  "extending (writeAll T bytes)" "extending (readExact T n)" "extending (proxy_return a)" "extending (proxy_fail e)"
  using writeAll_result readExact_result
  by (auto simp: extending_def proxy_return_def proxy_fail_def) (metis prefixI)+

lemma extending_socks:
  "extending (socks_authenticate T username password)" "extending (socks_response T)"
  by (auto simp: socks_authenticate_def socks_response_def socks_addressLength_def
      intro!: extending_andThen extending_basic)

lemma socks_secret_guard:
  assumes "establishSocks5 T host port username password t = Some (r, t')"
  shows "\<exists>x y. sent t' = sent t @ x \<and> received t' = received t @ y
    \<and> (prefix x (socks_greeting (username \<noteq> [])) \<or> prefix [0x05, if username \<noteq> [] then 0x02 else 0x00] y)"
proof -
  let ?auth = "username \<noteq> []"
  let ?later = "\<lambda>_. andThen (if ?auth then socks_authenticate T username password else proxy_return ()) (\<lambda>_.
           andThen (writeAll T (socks_connect host port)) (\<lambda>_. socks_response T))"
  have later: "extending (?later a)" for a
    by (auto intro!: extending_andThen extending_basic extending_socks)
  consider "t' = t" | e where "writeAll T (socks_greeting ?auth) t = Some (Inl e, t')"
    | u t1 e where "writeAll T (socks_greeting ?auth) t = Some (Inr u, t1)" "readExact T 2 t1 = Some (Inl e, t')"
    | u t1 m t2 where "writeAll T (socks_greeting ?auth) t = Some (Inr u, t1)" "readExact T 2 t1 = Some (Inr m, t2)"
        "andThen (socks_method ?auth m) ?later t2 = Some (r, t')"
    using assms by (auto simp: establishSocks5_def andThen_def Let_def proxy_fail_def split: if_splits option.splits sum.splits)
  then show ?thesis
  proof cases
    case 1
    then show ?thesis by simp
  next
    case 2
    from writeAll_result [OF this] show ?thesis by auto
  next
    case 3
    then show ?thesis using write_ok [OF 3(1)] readExact_result [OF 3(2)] by auto
  next
    case 4
    note w = write_ok [OF 4(1)] and m = read_ok [OF 4(2)]
    show ?thesis
    proof (cases "socks_method ?auth m t2")
      case None
      then show ?thesis using 4(3) by (simp add: andThen_def)
    next
      case (Some y)
      then obtain r1 where r1: "socks_method ?auth m t2 = Some (r1, t2)"
        by (auto simp: socks_method_def proxy_fail_def proxy_return_def split: if_splits)
      show ?thesis
      proof (cases r1)
        case (Inl e)
        then have "t' = t2" using 4(3) r1 by (simp add: andThen_def)
        then show ?thesis using w m by auto
      next
        case (Inr v)
        then have "m = [0x05, if ?auth then 0x02 else 0x00]"
          using r1 m by (auto simp: socks_method_def proxy_fail_def proxy_return_def length_Suc_conv eval_nat_numeral
              split: if_splits)
        moreover have "prefix (sent t2) (sent t') \<and> prefix (received t2) (received t')"
          using later 4(3) r1 Inr by (auto simp: andThen_def extending_def)
        ultimately show ?thesis using w m by (auto simp: prefix_def)
      qed
    qed
  qed
qed

lemma header_read:
  assumes "http_header T fuel response t = Some (Inr out, t')"
  shows "sent t' = sent t \<and> (\<exists>bs. received t' = received t @ bs \<and> out = response @ map byte_char bs
    \<and> length bs \<le> fuel \<and> ends_with out (crlf @ crlf)
    \<and> (\<forall>k < length bs. \<not> ends_with (response @ map byte_char (take k bs)) (crlf @ crlf)))"
  using assms
proof (induction fuel arbitrary: response t)
  case 0
  then show ?case by (auto simp: proxy_return_def proxy_fail_def split: if_splits)
next
  case (Suc fuel)
  show ?case
  proof (cases "ends_with response (crlf @ crlf)")
    case True
    then show ?thesis using Suc.prems by (auto simp: proxy_return_def)
  next
    case False
    then obtain b t1 where b: "readExact T 1 t = Some (Inr b, t1)"
      and more: "http_header T fuel (response @ [byte_char (b ! 0)]) t1 = Some (Inr out, t')"
      using Suc.prems by (auto simp: andThen_Inr)
    note r = read_ok [OF b]
    from Suc.IH [OF more] obtain bs where bs: "sent t' = sent t1" "received t' = received t1 @ bs"
      "out = (response @ [byte_char (b ! 0)]) @ map byte_char bs" "length bs \<le> fuel" "ends_with out (crlf @ crlf)"
      "\<forall>k < length bs. \<not> ends_with ((response @ [byte_char (b ! 0)]) @ map byte_char (take k bs)) (crlf @ crlf)"
      by auto
    have "\<not> ends_with (response @ map byte_char (take k (b ! 0 # bs))) (crlf @ crlf)" if "k < Suc (length bs)" for k
      using that False bs(6) by (cases k) auto
    moreover have "b = [b ! 0]" using r by (cases b) auto
    ultimately show ?thesis using r bs by (intro conjI exI [of _ "b ! 0 # bs"]) auto
  qed
qed

lemma http_transcript:
  assumes "establishHttpConnect T host port username password t = Some (Inr u, t')"
  shows "sent t' = sent t @ text_bytes (http_request host port username password)
    \<and> (\<exists>header. received t' = received t @ text_bytes header \<and> length header \<le> maximumHeaderBytes
        \<and> ends_with header (crlf @ crlf) \<and> (\<forall>k < length header. \<not> ends_with (take k header) (crlf @ crlf))
        \<and> http_status (first_line header) = Inr ())"
proof -
  obtain u1 t1 header t2 where
    1: "writeAll T (text_bytes (http_request host port username password)) t = Some (Inr u1, t1)" and
    2: "http_header T maximumHeaderBytes [] t1 = Some (Inr header, t2)" and
    3: "(case http_status (first_line header) of Inl e \<Rightarrow> proxy_fail e | Inr u \<Rightarrow> proxy_return u) t2 = Some (Inr u, t')"
    using assms by (auto simp: establishHttpConnect_def andThen_Inr proxy_fail_def split: if_splits)
  have s: "http_status (first_line header) = Inr ()" "t2 = t'"
    using 3 by (auto simp: proxy_fail_def proxy_return_def split: sum.splits)
  obtain bs where bs: "received t2 = received t1 @ bs" "header = map byte_char bs" "length bs \<le> maximumHeaderBytes"
    "ends_with header (crlf @ crlf)" "\<forall>k < length bs. \<not> ends_with (map byte_char (take k bs)) (crlf @ crlf)"
    and still: "sent t2 = sent t1"
    using header_read [OF 2] by auto
  have eq: "text_bytes header = bs" by (simp add: bs(2) text_bytes_def comp_def)
  have "length header \<le> maximumHeaderBytes" "\<forall>k < length header. \<not> ends_with (take k header) (crlf @ crlf)"
    using bs(3,5) by (simp_all add: bs(2) take_map)
  moreover have "received t' = received t @ text_bytes header" "sent t' = sent t @ text_bytes (http_request host port username password)"
    using bs(1) still write_ok [OF 1] s(2) eq by simp_all
  ultimately show ?thesis using s(1) bs(4) by blast
qed

end

end
