(* ===== verification/Tunnel_Peer.thy ===== *)
theory Tunnel_Peer
  imports Proxy_Tunnel
begin

text \<open>
  The proxy tunnel of \<open>src/infrastructure/ssh/ExplicitProxyTunnel.cpp\<close> at work: against the program's own
  SOCKS5 server (\<open>completeSocksHandshake\<close> of \<open>src/application/forwarding/PortForwardingJob.cpp\<close>), and what
  it says and hears over any transport that keeps the interface's promises.
\<close>

section \<open>The program's own SOCKS5 server as the peer\<close>

text \<open>
  A transport whose other end is the dynamic forwarding of \<open>PortForwardingJob.cpp\<close>: what is written is
  fed to the handshake, and after it to the channel it opened; \<open>opens\<close> tells whether the channel to a
  destination can be opened.
\<close>

record SocksPeer =
  sp_sent :: "byte list"
  sp_received :: "byte list"
  sp_handshake :: "Socks5Handshake option"
  sp_toClient :: "byte list"
  sp_destination :: "Socks5Destination option"
  sp_toRemote :: "byte list"

definition peer_feed :: "(Socks5Destination \<Rightarrow> bool) \<Rightarrow> byte list \<Rightarrow> SocksPeer \<Rightarrow> SocksPeer" where
  "peer_feed opens bytes s =
     (case sp_handshake s of
        None \<Rightarrow> s\<lparr>sp_toRemote := sp_toRemote s @ bytes\<rparr>
      | Some handshake \<Rightarrow>
          (case socks_pump 2 bytes handshake of
             Some (h, PumpReady (Some destination) rest, out) \<Rightarrow>
               if opens destination
               then s\<lparr>sp_handshake := None, sp_destination := Some destination,
                      sp_toClient := sp_toClient s @ out @ s5_reply Succeeded, sp_toRemote := sp_toRemote s @ rest\<rparr>
               else s\<lparr>sp_handshake := Some h, sp_toClient := sp_toClient s @ out @ s5_reply Socks5ReplyCode.HostUnreachable\<rparr>
           | Some (h, PumpReady None rest, out) \<Rightarrow>
               s\<lparr>sp_handshake := Some h, sp_toClient := sp_toClient s @ out @ s5_reply GeneralFailure\<rparr>
           | Some (h, outcome, out) \<Rightarrow> s\<lparr>sp_handshake := Some h, sp_toClient := sp_toClient s @ out\<rparr>
           | None \<Rightarrow> s))"

definition peer_transport :: "(Socks5Destination \<Rightarrow> bool) \<Rightarrow> SocksPeer SshByteTransport" where
  "peer_transport opens =
     \<lparr>bt_valid = (\<lambda>s. True),
      bt_read = (\<lambda>n s. (Inr (take n (sp_toClient s)),
         s\<lparr>sp_toClient := drop n (sp_toClient s), sp_received := sp_received s @ take n (sp_toClient s)\<rparr>)),
      bt_write = (\<lambda>bytes s. (Inr (length bytes), (peer_feed opens bytes s)\<lparr>sp_sent := sp_sent s @ bytes\<rparr>)),
      bt_waitUntilReady = (\<lambda>interest s. (Inl \<lparr>te_kind = WaitTimedOut, te_nativeCode = 0\<rparr>, s)),
      bt_stopRequested = (\<lambda>s. False)\<rparr>"

definition peer_new :: SocksPeer where
  "peer_new = \<lparr>sp_sent = [], sp_received = [], sp_handshake = Some s5_init, sp_toClient = [],
     sp_destination = None, sp_toRemote = []\<rparr>"

lemma peer_feed_received: "sp_received (peer_feed opens bytes s) = sp_received s"
  by (auto simp: peer_feed_def split: option.splits prod.splits PumpOutcome.splits)

interpretation socks_peer: byte_stream "peer_transport opens" sp_sent sp_received
  by unfold_locales (auto simp: peer_transport_def peer_feed_received)

lemma peer_write:
  assumes "bytes \<noteq> []"
  shows "writeAll (peer_transport opens) bytes s
    = Some (Inr (), (peer_feed opens bytes s)\<lparr>sp_sent := sp_sent s @ bytes\<rparr>)"
proof -
  have nil: "writeAll (peer_transport opens) [] s' = Some (Inr (), s')" for s'
    by (subst writeAll.simps) simp
  show ?thesis
    using assms by (subst writeAll.simps) (simp add: peer_transport_def write_progress_def nil [unfolded peer_transport_def])
qed

lemma peer_read:
  assumes "0 < n" and "n \<le> length (sp_toClient s)"
  shows "readExact (peer_transport opens) n s = Some (Inr (take n (sp_toClient s)),
    s\<lparr>sp_toClient := drop n (sp_toClient s), sp_received := sp_received s @ take n (sp_toClient s)\<rparr>)"
proof -
  have nil: "readMore (peer_transport opens) 0 acc s' = Some (Inr acc, s')" for acc s'
    by (subst readMore.simps) simp
  have "take n (sp_toClient s) \<noteq> []" "n - min (length (sp_toClient s)) n = 0" using assms by auto
  then show ?thesis
    unfolding readExact_def using assms
    by (subst readMore.simps) (simp add: peer_transport_def read_progress_def nil [unfolded peer_transport_def])
qed

lemma greeting_bytes: "socks_greeting False = encode_greeting [0x00]"
  by (simp add: socks_greeting_def encode_greeting_def)

lemma connect_bytes: "socks_connect host port = encode_request (DomainName host) port"
  by (simp add: socks_connect_def encode_request_def text_bytes_def)

lemma peer_greets:
  "peer_feed opens (socks_greeting False) peer_new
    = peer_new\<lparr>sp_handshake := Some \<lparr>sh_state = Request, sh_buffer = []\<rparr>, sp_toClient := [0x05, 0x00]\<rparr>"
proof -
  have "consumeGreeting \<lparr>sh_state = Greeting, sh_buffer = encode_greeting [0x00]\<rparr>
    = (\<lparr>sh_state = Request, sh_buffer = []\<rparr>, need_more\<lparr>sr_status := SendMethodSelection, sr_response := [0x05, 0x00]\<rparr>)"
    using greeting_accepted [of "[0x00]" "\<lparr>sh_state = Greeting, sh_buffer = encode_greeting [0x00]\<rparr>" "[]"]
    by (simp add: greeting_wf_def)
  then have 1: "s5_consume (encode_greeting [0x00]) s5_init
    = (\<lparr>sh_state = Request, sh_buffer = []\<rparr>, Inr (need_more\<lparr>sr_status := SendMethodSelection, sr_response := [0x05, 0x00]\<rparr>))"
    by (simp add: s5_consume_open s5_init_def maximumSocks5HandshakeBytes_def encode_greeting_def)
  have 2: "s5_consume [] \<lparr>sh_state = Request, sh_buffer = []\<rparr> = (\<lparr>sh_state = Request, sh_buffer = []\<rparr>, Inr need_more)"
    by (simp add: s5_consume_def consumeRequest_def maximumSocks5HandshakeBytes_def)
  show ?thesis
    using socks_pump_eqs(3) [OF 1 _ 2] by (simp add: greeting_bytes peer_feed_def peer_new_def)
qed

lemma peer_connects:
  assumes "validDomain host" and "port \<noteq> 0"
  shows "socks_pump 2 (socks_connect host port) \<lparr>sh_state = Request, sh_buffer = []\<rparr>
    = Some (\<lparr>sh_state = Complete, sh_buffer = []\<rparr>, PumpReady (Some \<lparr>sd_host = host, sd_port = port\<rparr>) [], [])"
proof -
  let ?h = "\<lparr>sh_state = Request, sh_buffer = encode_request (DomainName host) port\<rparr>"
  have "length (encode_request (DomainName host) port) \<le> maximumSocks5HandshakeBytes"
    using validDomain_length [OF assms(1)] by (simp add: request_size_def maximumSocks5HandshakeBytes_def)
  then have "s5_consume (socks_connect host port) \<lparr>sh_state = Request, sh_buffer = []\<rparr> = apsnd Inr (consumeRequest ?h)"
    by (simp add: s5_consume_open connect_bytes)
  also have "consumeRequest ?h = (\<lparr>sh_state = Complete, sh_buffer = []\<rparr>,
     \<lparr>sr_status = DestinationReady, sr_response = [], sr_destination = Some \<lparr>sd_host = host, sd_port = port\<rparr>,
      sr_remainingData = []\<rparr>)"
    using request_accepted [of "DomainName host" port ?h "[]"] assms by simp
  finally show ?thesis using socks_pump_eqs(2) by simp
qed

section \<open>The request's lines\<close>

lemma no_break_append [simp]: "has_break (a @ b) \<longleftrightarrow> has_break a \<or> has_break b"
  by (auto simp: has_break_def)

lemma no_break_decimal: "\<not> has_break (decimal n)"
  using decimal_digits [of n] by (auto simp: has_break_def list_all_iff is_digit_def)

lemma no_break_base64: "\<not> has_break (base64Encode bs)"
proof -
  have "CHR 0x0D \<notin> set Base64Alphabet \<union> {CHR ''=''}" "CHR 0x0A \<notin> set Base64Alphabet \<union> {CHR ''=''}"
    by (simp_all add: Base64Alphabet_def)
  then show ?thesis using encode_alphabet [of bs] unfolding has_break_def by blast
qed

definition http_lines :: "string \<Rightarrow> u16 \<Rightarrow> string \<Rightarrow> string \<Rightarrow> string list" where
  "http_lines host port username password =
     [''CONNECT '' @ http_authority host port @ '' HTTP/1.1'', ''Host: '' @ http_authority host port,
      ''Proxy-Connection: Keep-Alive'']
     @ (if username = [] then []
        else [''Proxy-Authorization: Basic '' @ base64Encode (text_bytes (username @ '':'' @ password))])"

lemma http_request_lines: "http_request host port username password
    = concat (map (\<lambda>l. l @ crlf) (http_lines host port username password)) @ crlf"
  by (simp add: http_request_def http_lines_def Let_def)

lemma http_lines_unbroken:
  assumes "\<not> has_break host" shows "\<forall>l \<in> set (http_lines host port username password). \<not> has_break l"
proof -
  have lits: "\<not> has_break ''CONNECT ''" "\<not> has_break '' HTTP/1.1''" "\<not> has_break ''Host: ''"
    "\<not> has_break ''Proxy-Connection: Keep-Alive''" "\<not> has_break ''Proxy-Authorization: Basic ''"
    "\<not> has_break ''[''" "\<not> has_break '']''" "\<not> has_break '':''" "\<not> has_break []"
    by (simp_all add: has_break_def)
  have "\<not> has_break (http_authority host port)"
    using assms lits no_break_decimal [of "unat port"]
    unfolding http_authority_def Let_def no_break_append by (simp split: if_splits del: append_Cons)
  then show ?thesis using lits no_break_base64
    unfolding http_lines_def by (simp del: append_Cons append.append_Cons)
qed

section \<open>Properties\<close>

text \<open>
  C39. The tunnel's client and the program's own SOCKS5 server understand each other: for every host name
  the server accepts and every port, the server opens a channel to exactly that host and port, and the
  client succeeds having read every byte of the answer and not one more; if the channel cannot be opened
  the client reports the rejection with the server's code.
\<close>

theorem tunnel_meets_server:
  assumes "validDomain host" and "port \<noteq> 0" and "0 < timeout"
  shows "\<exists>s. establishExplicitProxyTunnel (peer_transport opens) ProxySocks5 host port [] [] timeout peer_new
      = Some (if opens \<lparr>sd_host = host, sd_port = port\<rparr> then Inr ()
              else Inl \<lparr>pe_kind = ConnectionRejected, pe_protocolCode = 4\<rparr>, s)
    \<and> (opens \<lparr>sd_host = host, sd_port = port\<rparr> \<longrightarrow>
         sp_destination s = Some \<lparr>sd_host = host, sd_port = port\<rparr> \<and> sp_toClient s = [] \<and> sp_toRemote s = []
         \<and> sp_handshake s = None)"
proof -
  let ?T = "peer_transport opens" and ?d = "\<lparr>sd_host = host, sd_port = port\<rparr>"
  let ?s1 = "peer_new\<lparr>sp_handshake := Some \<lparr>sh_state = Request, sh_buffer = []\<rparr>, sp_toClient := [0x05, 0x00],
     sp_sent := socks_greeting False\<rparr>"
  let ?s2 = "?s1\<lparr>sp_toClient := [], sp_received := [0x05, 0x00]\<rparr>"
  let ?reply = "s5_reply (if opens ?d then Succeeded else Socks5ReplyCode.HostUnreachable)"
  define s3 where "s3 = (peer_feed opens (socks_connect host port) ?s2)\<lparr>sp_sent := socks_greeting False @ socks_connect host port\<rparr>"
  have 1: "writeAll ?T (socks_greeting False) peer_new = Some (Inr (), ?s1)"
    using peer_write [of "socks_greeting False" opens peer_new] peer_greets [of opens]
    by (simp add: socks_greeting_def peer_new_def)
  have 2: "readExact ?T 2 ?s1 = Some (Inr [0x05, 0x00], ?s2)"
    using peer_read [of 2 ?s1 opens] by (simp add: peer_new_def)
  have 3: "writeAll ?T (socks_connect host port) ?s2 = Some (Inr (), s3)"
    using peer_write [of "socks_connect host port" opens ?s2] by (simp add: s3_def socks_connect_def)
  have s3: "sp_toClient s3 = ?reply" "opens ?d \<Longrightarrow> sp_destination s3 = Some ?d \<and> sp_toRemote s3 = [] \<and> sp_handshake s3 = None"
    using peer_connects [OF assms(1,2)] by (simp_all add: s3_def peer_feed_def peer_new_def)
  have four: "readExact ?T 4 s3 = Some (Inr (take 4 ?reply),
      s3\<lparr>sp_toClient := drop 4 ?reply, sp_received := sp_received s3 @ take 4 ?reply\<rparr>)" (is "_ = Some (_, ?s4)")
    using peer_read [of 4 s3 opens] s3(1) by (simp add: s5_reply_def)
  have six: "readExact ?T 6 ?s4 = Some (Inr (drop 4 ?reply), ?s4\<lparr>sp_toClient := [], sp_received := sp_received ?s4 @ drop 4 ?reply\<rparr>)"
    using peer_read [of 6 ?s4 opens] s3(1) by (simp add: s5_reply_def)
  have est: "establishExplicitProxyTunnel ?T ProxySocks5 host port [] [] timeout peer_new = socks_response ?T s3"
    using assms validDomain_length [OF assms(1)] 1 2 3
    by (simp add: establishExplicitProxyTunnel_def establishSocks5_def andThen_def socks_method_def proxy_return_def
        peer_transport_def [THEN arg_cong, of bt_valid])
  show ?thesis
  proof (cases "opens ?d")
    case True
    then show ?thesis using est four six s3
      by (simp add: socks_response_def andThen_def socks_addressLength_def proxy_return_def s5_reply_def)
  next
    case False
    then show ?thesis using est four
      by (simp add: socks_response_def andThen_def proxy_fail_def s5_reply_def)
  qed
qed

theorem tunnel_meets_server_witness:
  "\<exists>s. establishExplicitProxyTunnel (peer_transport (\<lambda>d. True)) ProxySocks5 ''db.local'' 22 [] [] 10000 peer_new
      = Some (if True then Inr () else Inl \<lparr>pe_kind = ConnectionRejected, pe_protocolCode = 4\<rparr>, s)
    \<and> (True \<longrightarrow> sp_destination s = Some \<lparr>sd_host = ''db.local'', sd_port = 22\<rparr> \<and> sp_toClient s = []
        \<and> sp_toRemote s = [] \<and> sp_handshake s = None)"
  using tunnel_meets_server [of "''db.local''" 22 10000 "\<lambda>d. True"] by (simp add: validDomain_def)

text \<open>
  Over any transport that keeps the streams, however it cuts reads and writes and however often it makes
  the client wait: a SOCKS5 tunnel that is established has sent exactly the greeting, the credentials if
  there are any, and the request for the target, and has read exactly the method, the authentication result
  and one complete success reply, so the next byte on the transport is the SSH server's.
\<close>

theorem socks5_conversation:
  assumes "byte_stream T sent received"
    and "establishSocks5 T host port username password t = Some (Inr u, t')"
  shows "sent t' = sent t @ socks_greeting (username \<noteq> [])
      @ (if username = [] then [] else socks_authentication username password) @ socks_connect host port
    \<and> (\<exists>reply. socks_reply reply \<and> received t' = received t @ [0x05, if username \<noteq> [] then 0x02 else 0x00]
         @ (if username = [] then [] else [0x01, 0x00]) @ reply)"
  by (rule byte_stream.socks_transcript [OF assms])

text \<open>
  C40. Over any such transport and whatever the outcome, nothing beyond the three bytes of the greeting has
  been sent, the credentials in particular, unless the proxy selected the method that was offered: user name
  and password when there is a user name, none otherwise.
\<close>

theorem socks5_secret_withheld:
  assumes "byte_stream T sent received"
    and "establishSocks5 T host port username password t = Some (r, t')"
  shows "\<exists>x y. sent t' = sent t @ x \<and> received t' = received t @ y
    \<and> (prefix x [0x05, 0x01, if username \<noteq> [] then 0x02 else 0x00] \<or> prefix [0x05, if username \<noteq> [] then 0x02 else 0x00] y)"
  using byte_stream.socks_secret_guard [OF assms] by (simp add: socks_greeting_def)

text \<open>
  Over any such transport, an HTTP tunnel that is established has sent exactly the request, whose only
  line breaks are those at the ends of its three or four lines and of the header, and has read exactly one
  response header: at most 16 KiB, up to its first blank line and not a byte further, with a 2xx status.
\<close>

theorem http_connect_conversation:
  assumes "byte_stream T sent received"
    and "establishHttpConnect T host port username password t = Some (Inr u, t')"
  shows "sent t' = sent t @ text_bytes (concat (map (\<lambda>l. l @ crlf) (http_lines host port username password)) @ crlf)
    \<and> (\<forall>l \<in> set (http_lines host port username password). \<not> has_break l)
    \<and> (\<exists>header. received t' = received t @ text_bytes header \<and> length header \<le> maximumHeaderBytes
        \<and> ends_with header (crlf @ crlf) \<and> (\<forall>k < length header. \<not> ends_with (take k header) (crlf @ crlf))
        \<and> http_status (first_line header) = Inr ())"
proof -
  have "\<not> has_break host"
    using assms(2) by (auto simp: establishHttpConnect_def proxy_fail_def split: if_splits)
  then show ?thesis
    using byte_stream.http_transcript [OF assms] http_lines_unbroken [of host port username password]
    unfolding http_request_lines by blast
qed

text \<open>A transport that accepts everything and delivers a prepared answer byte by byte, for the witnesses.\<close>

definition canned :: "(byte list \<times> byte list \<times> byte list) SshByteTransport" where
  "canned = \<lparr>bt_valid = (\<lambda>s. True),
     bt_read = (\<lambda>n s. case s of (out, got, pending) \<Rightarrow>
        (Inr (take (min n 1) pending), (out, got @ take (min n 1) pending, drop (min n 1) pending))),
     bt_write = (\<lambda>bytes s. case s of (out, got, pending) \<Rightarrow> (Inr (length bytes), (out @ bytes, got, pending))),
     bt_waitUntilReady = (\<lambda>interest s. (Inl \<lparr>te_kind = TransportClosed, te_nativeCode = 0\<rparr>, s)),
     bt_stopRequested = (\<lambda>s. False)\<rparr>"

interpretation canned: byte_stream canned fst "\<lambda>s. fst (snd s)"
  by unfold_locales (auto simp: canned_def)

lemma canned_write: "bytes \<noteq> [] \<Longrightarrow> writeAll canned bytes (out, got, pending) = Some (Inr (), out @ bytes, got, pending)"
  by (subst writeAll.simps) (simp add: canned_def write_progress_def, subst writeAll.simps, simp)

lemma canned_more:
  "n \<le> length pending \<Longrightarrow> readMore canned n acc (out, got, pending)
    = Some (Inr (acc @ take n pending), out, got @ take n pending, drop n pending)"
proof (induction n arbitrary: acc got pending)
  case 0
  show ?case by (subst readMore.simps) simp
next
  case (Suc n)
  then obtain b rest where p: "pending = b # rest" by (cases pending) auto
  show ?case
    using Suc.IH [of rest "acc @ [b]" "got @ [b]"] Suc.prems
    by (subst readMore.simps) (simp add: canned_def read_progress_def p)
qed

lemma canned_read:
  "n \<le> length pending \<Longrightarrow> readExact canned n (out, got, pending) = Some (Inr (take n pending), out, got @ take n pending, drop n pending)"
  by (simp add: readExact_def canned_more)

lemma canned_socks:
  "establishSocks5 canned ''h'' 22 [] [] ([], [], [0x05, 0x00, 0x05, 0x00, 0x00, 0x01, 0, 0, 0, 0, 0, 0, 0x53])
    = Some (Inr (), socks_greeting False @ socks_connect ''h'' 22, [0x05, 0x00, 0x05, 0x00, 0x00, 0x01, 0, 0, 0, 0, 0, 0], [0x53])"
  by (simp add: establishSocks5_def andThen_def canned_write canned_read socks_greeting_def socks_connect_def
    socks_method_def proxy_return_def socks_response_def socks_addressLength_def)

lemma canned_refused:
  "establishSocks5 canned ''h'' 22 ''u'' ''p'' ([], [], [0x05, 0xFF])
    = Some (Inl (proxy_error AuthenticationRequired), socks_greeting True, [0x05, 0xFF], [])"
  by (simp add: establishSocks5_def andThen_def canned_write canned_read socks_greeting_def
    socks_method_def proxy_fail_def)

theorem socks5_conversation_witness:
  "fst (socks_greeting False @ socks_connect ''h'' 22, [0x05 :: byte, 0x00, 0x05, 0x00, 0x00, 0x01, 0, 0, 0, 0, 0, 0], [0x53 :: byte])
      = fst ([], [] :: byte list, [0x05 :: byte, 0x00, 0x05, 0x00, 0x00, 0x01, 0, 0, 0, 0, 0, 0, 0x53]) @ socks_greeting ([] \<noteq> ([] :: string))
      @ (if [] = ([] :: string) then [] else socks_authentication [] []) @ socks_connect ''h'' 22
    \<and> (\<exists>reply. socks_reply reply \<and> fst (snd (socks_greeting False @ socks_connect ''h'' 22,
           [0x05 :: byte, 0x00, 0x05, 0x00, 0x00, 0x01, 0, 0, 0, 0, 0, 0], [0x53 :: byte]))
        = fst (snd ([] :: byte list, [], [0x05 :: byte, 0x00, 0x05, 0x00, 0x00, 0x01, 0, 0, 0, 0, 0, 0, 0x53]))
         @ [0x05, if [] \<noteq> ([] :: string) then 0x02 else 0x00] @ (if [] = ([] :: string) then [] else [0x01, 0x00]) @ reply)"
  by (rule socks5_conversation [OF canned.byte_stream_axioms canned_socks])

theorem socks5_secret_withheld_witness:
  "\<exists>x y. fst (socks_greeting True, [0x05 :: byte, 0xFF], [] :: byte list) = fst ([], [] :: byte list, [0x05 :: byte, 0xFF]) @ x
    \<and> fst (snd (socks_greeting True, [0x05 :: byte, 0xFF], [] :: byte list)) = fst (snd ([] :: byte list, [], [0x05 :: byte, 0xFF])) @ y
    \<and> (prefix x [0x05, 0x01, if ''u'' \<noteq> [] then 0x02 else 0x00] \<or> prefix [0x05, if ''u'' \<noteq> [] then 0x02 else 0x00] y)"
  by (rule socks5_secret_withheld [OF canned.byte_stream_axioms canned_refused])

text \<open>A proxy's answer, and the reading of its header one character at a time.\<close>

definition sample_header :: string where
  "sample_header = ''HTTP/1.1 200 OK'' @ crlf @ crlf"

lemma canned_header:
  "\<lbrakk>\<forall>k < length cs. \<not> ends_with (p @ take k cs) (crlf @ crlf); ends_with (p @ cs) (crlf @ crlf); length cs \<le> fuel\<rbrakk>
    \<Longrightarrow> http_header canned fuel p (out, got, text_bytes cs @ pending)
      = Some (Inr (p @ cs), out, got @ text_bytes cs, pending)"
proof (induction cs arbitrary: p fuel got)
  case Nil
  then show ?case by (cases fuel) (simp_all add: text_bytes_def proxy_return_def)
next
  case (Cons c cs)
  then obtain n where n: "fuel = Suc n" by (cases fuel) auto
  have more: "\<not> ends_with p (crlf @ crlf)" using Cons.prems(1) by (metis append_Nil2 length_greater_0_conv list.distinct(1) take0)
  have rest: "\<forall>k < length cs. \<not> ends_with ((p @ [c]) @ take k cs) (crlf @ crlf)"
  proof (intro allI impI)
    fix k assume "k < length cs"
    then show "\<not> ends_with ((p @ [c]) @ take k cs) (crlf @ crlf)" using Cons.prems(1) [rule_format, of "Suc k"] by simp
  qed
  have "http_header canned n (p @ [c]) (out, got @ [char_byte c], text_bytes cs @ pending)
      = Some (Inr ((p @ [c]) @ cs), out, (got @ [char_byte c]) @ text_bytes cs, pending)"
    by (rule Cons.IH [OF rest]) (use Cons.prems n in simp_all)
  then show ?case using more by (simp add: n andThen_def canned_read text_bytes_def)
qed

lemma sample_header_ends:
  "ends_with sample_header (crlf @ crlf)" "\<forall>k < length sample_header. \<not> ends_with (take k sample_header) (crlf @ crlf)"
  by (simp_all add: sample_header_def crlf_def ends_with_def suffix_def less_Suc_eq all_conj_distrib)

lemma sample_status: "http_status (first_line sample_header) = Inr ()"
  by (simp add: sample_header_def crlf_def http_status_def starts_with_def http_code_def is_digit_def digits_value_def)

lemma canned_http:
  "establishHttpConnect canned ''h'' 22 [] [] ([], [], text_bytes sample_header @ [0x53])
    = Some (Inr (), text_bytes (http_request ''h'' 22 [] []), text_bytes sample_header, [0x53])"
proof -
  have "text_bytes (http_request ''h'' 22 [] []) \<noteq> []" by (simp add: text_bytes_def http_request_def Let_def)
  moreover have "length sample_header \<le> maximumHeaderBytes"
    by (simp add: sample_header_def crlf_def maximumHeaderBytes_def)
  ultimately show ?thesis
    using canned_header [of sample_header "[]" maximumHeaderBytes "text_bytes (http_request ''h'' 22 [] [])" "[]" "[0x53]"]
      sample_header_ends sample_status
    by (simp add: establishHttpConnect_def andThen_def canned_write has_break_def proxy_return_def)
qed

theorem http_connect_conversation_witness:
  "fst (text_bytes (http_request ''h'' 22 [] []), text_bytes sample_header, [0x53 :: byte])
      = fst ([], [] :: byte list, text_bytes sample_header @ [0x53])
        @ text_bytes (concat (map (\<lambda>l. l @ crlf) (http_lines ''h'' 22 [] [])) @ crlf)
    \<and> (\<forall>l \<in> set (http_lines ''h'' 22 [] []). \<not> has_break l)
    \<and> (\<exists>header. fst (snd (text_bytes (http_request ''h'' 22 [] []), text_bytes sample_header, [0x53 :: byte]))
          = fst (snd ([] :: byte list, [], text_bytes sample_header @ [0x53])) @ text_bytes header
        \<and> length header \<le> maximumHeaderBytes
        \<and> ends_with header (crlf @ crlf) \<and> (\<forall>k < length header. \<not> ends_with (take k header) (crlf @ crlf))
        \<and> http_status (first_line header) = Inr ())"
  by (rule http_connect_conversation [OF canned.byte_stream_axioms canned_http])

end
