(* ===== verification/Ssh_Session.thy ===== *)
theory Ssh_Session
  imports Ssh_Errors Host_Keys Proxy_Tunnel
begin

text \<open>
  The SSH session around libssh2: \<open>src/infrastructure/ssh/Libssh2Session\<close>, its state, its handshake, host
  key check and authentication, and the direct TCP/IP channel that \<open>SshDirectTcpipTransport\<close> makes a
  transport of.

  libssh2 is the parameter \<open>Libssh2\<close>: one function per call the session makes, on a state \<open>'w\<close> that holds
  the library, the transports and the clock.  Channels, SFTP handles and the transports are numbers.  The
  library never blocks: it answers \<open>LibEagain\<close>, and then the session waits for the transport and calls
  again.  Such a loop is the partial function \<open>session_loop\<close>; \<open>checked\<close> is the sequence of checks that
  every operation starts with.  The handle of the library is never null after \<open>create\<close>, and running out
  of memory is not modelled.
\<close>

datatype AuxiliaryCommandPhase = AuxIdle | AuxOpening | AuxRequesting | AuxReading | AuxClosing | AuxFreeing

record Libssh2Session =
  ls_transport :: "nat option"
  ls_terminalChannel :: "nat option"
  ls_directTcpipChannel :: "nat option"
  ls_auxiliaryChannel :: "nat option"
  ls_sftp :: "nat option"
  ls_sftpFile :: "nat option"
  ls_auxiliaryCommand :: string
  ls_auxiliaryPhase :: AuxiliaryCommandPhase
  ls_auxiliaryExitStatus :: int
  ls_forwardingChannels :: "(u64 \<times> nat) list"
  ls_remoteForwardListeners :: "(u64 \<times> nat) list"
  ls_nextForwardingResourceId :: u64
  ls_handshakeComplete :: bool
  ls_hostKeyVerified :: bool
  ls_authenticated :: bool

definition session_new :: Libssh2Session where
  "session_new = \<lparr>ls_transport = None, ls_terminalChannel = None, ls_directTcpipChannel = None,
     ls_auxiliaryChannel = None, ls_sftp = None, ls_sftpFile = None, ls_auxiliaryCommand = [],
     ls_auxiliaryPhase = AuxIdle, ls_auxiliaryExitStatus = 0, ls_forwardingChannels = [],
     ls_remoteForwardListeners = [], ls_nextForwardingResourceId = 1, ls_handshakeComplete = False,
     ls_hostKeyVerified = False, ls_authenticated = False\<rparr>"

text \<open>What \<open>libssh2_session_hostkey\<close> and \<open>libssh2_hostkey_hash\<close> give: a null key is empty.\<close>

record RawHostKey =
  rk_encodedKey :: "byte list"
  rk_algorithm :: HostKeyAlgorithm
  rk_sha256 :: "byte list option"
  rk_lastError :: LibCode

record 'w Libssh2 =
  tr_valid :: "nat \<Rightarrow> 'w \<Rightarrow> bool"
  tr_wait :: "nat \<Rightarrow> SocketIoInterest \<Rightarrow> 'w \<Rightarrow> (SshByteTransportError + unit) \<times> 'w"
  stop_requested :: "'w \<Rightarrow> bool"
  lib_blocks :: "'w \<Rightarrow> bool \<times> bool"
  lib_errno :: "'w \<Rightarrow> LibCode"
  lib_value :: "LibCode \<Rightarrow> int"
  lib_handshake :: "nat \<Rightarrow> 'w \<Rightarrow> LibCode \<times> 'w"
  lib_hostkey :: "nat \<Rightarrow> RawHostKey"
  lib_userauth_password :: "string \<Rightarrow> string \<Rightarrow> 'w \<Rightarrow> LibCode \<times> 'w"
  lib_userauth_publickey :: "string \<Rightarrow> string option \<Rightarrow> string \<Rightarrow> string \<Rightarrow> 'w \<Rightarrow> LibCode \<times> 'w"
  lib_agent_init :: "'w \<Rightarrow> bool \<times> 'w"
  lib_agent_connect :: "'w \<Rightarrow> LibCode \<times> 'w"
  lib_agent_list :: "'w \<Rightarrow> (LibCode + (LibCode + nat) list) \<times> 'w"
  lib_agent_userauth :: "string \<Rightarrow> nat \<Rightarrow> 'w \<Rightarrow> LibCode \<times> 'w"
  lib_direct_tcpip :: "string \<Rightarrow> u16 \<Rightarrow> string \<Rightarrow> u16 \<Rightarrow> 'w \<Rightarrow> nat option \<times> 'w"
  lib_channel_close :: "nat \<Rightarrow> 'w \<Rightarrow> LibCode \<times> 'w"
  lib_channel_free :: "nat \<Rightarrow> 'w \<Rightarrow> LibCode \<times> 'w"
  lib_channel_eof :: "nat \<Rightarrow> 'w \<Rightarrow> bool"
  lib_channel_read :: "nat \<Rightarrow> nat \<Rightarrow> 'w \<Rightarrow> (LibCode + byte list) \<times> 'w"
  lib_channel_write :: "nat \<Rightarrow> byte list \<Rightarrow> 'w \<Rightarrow> (LibCode + nat) \<times> 'w"

type_synonym ('w, 'a) session_op =
  "Libssh2Session \<Rightarrow> 'w \<Rightarrow> ((SshTransportError + 'a) \<times> Libssh2Session \<times> 'w) option"

definition usesTransport :: "'w Libssh2 \<Rightarrow> nat \<Rightarrow> Libssh2Session \<Rightarrow> 'w \<Rightarrow> bool" where
  "usesTransport L transport s w \<longleftrightarrow> ls_transport s = Some transport \<and> tr_valid L transport w"

section \<open>Waiting and trying again\<close>

definition blockedInterest :: "'w Libssh2 \<Rightarrow> 'w \<Rightarrow> SocketIoInterest" where
  "blockedInterest L w =
     (case lib_blocks L w of (wantsRead, wantsWrite) \<Rightarrow>
        if wantsRead \<and> \<not> wantsWrite then InterestRead
        else if wantsWrite \<and> \<not> wantsRead then InterestWrite
        else if wantsRead \<and> wantsWrite then InterestReadWrite else InterestRead)"

definition waitForSessionIo :: "'w Libssh2 \<Rightarrow> nat \<Rightarrow> 'w \<Rightarrow> (SshTransportError + unit) \<times> 'w" where
  "waitForSessionIo L transport w =
     (case tr_wait L transport (blockedInterest L w) w of
        (Inr u, w') \<Rightarrow> (Inr u, w')
      | (Inl e, w') \<Rightarrow>
          (Inl (case te_kind e of
                  WaitTimedOut \<Rightarrow> transport_error TransportTimedOut
                | WaitCancelled \<Rightarrow> transport_error TransportCancelled
                | WouldBlock \<Rightarrow> (transport_error TransportConnectionLost)\<lparr>se_nativeCode := te_nativeCode e\<rparr>
                | TransportClosed \<Rightarrow> (transport_error TransportConnectionLost)\<lparr>se_nativeCode := te_nativeCode e\<rparr>
                | SystemError \<Rightarrow> (transport_error TransportConnectionLost)\<lparr>se_nativeCode := te_nativeCode e\<rparr>), w'))"

datatype 'a LibStep = StepDone 'a | StepAgain | StepError SshTransportError

partial_function (option) session_loop ::
  "'w Libssh2 \<Rightarrow> nat \<Rightarrow> ('w \<Rightarrow> 'a LibStep \<times> 'w) \<Rightarrow> 'w \<Rightarrow> ((SshTransportError + 'a) \<times> 'w) option" where
  "session_loop L transport call w =
     (case call w of
        (StepDone a, w') \<Rightarrow> Some (Inr a, w')
      | (StepError e, w') \<Rightarrow> Some (Inl e, w')
      | (StepAgain, w') \<Rightarrow>
          (case waitForSessionIo L transport w' of
             (Inl e, w'') \<Rightarrow> Some (Inl e, w'')
           | (Inr _, w'') \<Rightarrow> session_loop L transport call w''))"

text \<open>A call that returns zero, \<open>EAGAIN\<close> or another error, and one that returns a handle or null.\<close>

definition code_step :: "(LibCode \<Rightarrow> SshTransportError) \<Rightarrow> LibCode \<times> 'w \<Rightarrow> unit LibStep \<times> 'w" where
  "code_step mapError r =
     (case r of (code, w) \<Rightarrow>
        (if code = LibOk then StepDone () else if code = LibEagain then StepAgain else StepError (mapError code), w))"

definition handle_step :: "'w Libssh2 \<Rightarrow> (LibCode \<Rightarrow> SshTransportError) \<Rightarrow> nat option \<times> 'w \<Rightarrow> nat LibStep \<times> 'w" where
  "handle_step L mapError r =
     (case r of
        (Some h, w) \<Rightarrow> (StepDone h, w)
      | (None, w) \<Rightarrow> (if lib_errno L w = LibEagain then StepAgain else StepError (mapError (lib_errno L w)), w))"

definition checked ::
  "'w Libssh2 \<Rightarrow> bool \<Rightarrow> bool \<Rightarrow> int \<Rightarrow> ('w, 'a) session_op \<Rightarrow> Libssh2Session \<Rightarrow> 'w
    \<Rightarrow> ((SshTransportError + 'a) \<times> Libssh2Session \<times> 'w) option" where
  "checked L badArgument badState timeout body s w =
     (if badArgument then Some (Inl (transport_error TransportInvalidArgument), s, w)
      else if badState then Some (Inl (transport_error TransportInvalidState), s, w)
      else if timeout \<le> 0 then Some (Inl (transport_error TransportTimedOut), s, w)
      else if stop_requested L w then Some (Inl (transport_error TransportCancelled), s, w)
      else body s w)"

text \<open>A loop whose result changes the session by \<open>f\<close>.\<close>

definition looped ::
  "'w Libssh2 \<Rightarrow> nat \<Rightarrow> ('w \<Rightarrow> 'a LibStep \<times> 'w) \<Rightarrow> ('a \<Rightarrow> Libssh2Session \<Rightarrow> Libssh2Session) \<Rightarrow> ('w, 'a) session_op" where
  "looped L transport call f s w =
     (case session_loop L transport call w of
        None \<Rightarrow> None
      | Some (Inl e, w') \<Rightarrow> Some (Inl e, s, w')
      | Some (Inr a, w') \<Rightarrow> Some (Inr a, f a s, w'))"

section \<open>Handshake and host key\<close>

definition ssh_handshake :: "'w Libssh2 \<Rightarrow> nat \<Rightarrow> int \<Rightarrow> ('w, unit) session_op" where
  "ssh_handshake L transport timeout s w =
     checked L False (\<not> tr_valid L transport w \<or> ls_transport s \<noteq> None \<or> ls_handshakeComplete s) timeout
       (\<lambda>s. looped L transport (\<lambda>w. code_step mapHandshakeError (lib_handshake L transport w))
              (\<lambda>_ s. s\<lparr>ls_handshakeComplete := True\<rparr>) (s\<lparr>ls_transport := Some transport\<rparr>)) s w"

text \<open>libssh2 keeps the key it negotiated on the session's transport.\<close>

definition ssh_hostKey :: "'w Libssh2 \<Rightarrow> Libssh2Session \<Rightarrow> SshTransportError + ObservedHostKey" where
  "ssh_hostKey L s =
     (case ls_transport s of
        Some transport \<Rightarrow>
          if \<not> ls_handshakeComplete s then Inl (transport_error TransportInvalidState)
          else let raw = lib_hostkey L transport in
            (case rk_sha256 raw of
               Some sha256 \<Rightarrow>
                 if rk_encodedKey raw = [] \<or> rk_algorithm raw = UnknownAlgorithm
                 then Inl (lib_error TransportProtocolError (rk_lastError raw))
                 else Inr \<lparr>hk_algorithm = rk_algorithm raw, hk_encodedKey = rk_encodedKey raw, hk_sha256 = take 32 sha256\<rparr>
             | None \<Rightarrow> Inl (lib_error TransportProtocolError (rk_lastError raw)))
      | None \<Rightarrow> Inl (transport_error TransportInvalidState))"

definition verifyHostKey ::
  "'w Libssh2 \<Rightarrow> SshEndpoint \<Rightarrow> KnownHostEntry list \<Rightarrow> Libssh2Session
    \<Rightarrow> (SshTransportError + HostKeyTrust) \<times> Libssh2Session" where
  "verifyHostKey L endpoint knownHosts s =
     (case ssh_hostKey L s of
        Inl e \<Rightarrow> (Inl e, s)
      | Inr observed \<Rightarrow>
          let trust = evaluateHostKeyTrust endpoint observed knownHosts
          in (Inr trust, s\<lparr>ls_hostKeyVerified := (trust = Trusted)\<rparr>))"

section \<open>Authentication\<close>

definition auth_refused :: "'w Libssh2 \<Rightarrow> nat \<Rightarrow> Libssh2Session \<Rightarrow> 'w \<Rightarrow> bool" where
  "auth_refused L transport s w \<longleftrightarrow> \<not> usesTransport L transport s w \<or> \<not> ls_handshakeComplete s
     \<or> \<not> ls_hostKeyVerified s \<or> ls_authenticated s"

definition maximum_unsigned :: nat where "maximum_unsigned = 2 ^ 32 - 1"

definition authenticateWithPassword ::
  "'w Libssh2 \<Rightarrow> nat \<Rightarrow> string \<Rightarrow> string \<Rightarrow> int \<Rightarrow> ('w, unit) session_op" where
  "authenticateWithPassword L transport username password timeout s w =
     checked L (username = [] \<or> password = [] \<or> length username > maximum_unsigned \<or> length password > maximum_unsigned)
       (auth_refused L transport s w) timeout
       (looped L transport (\<lambda>w. code_step mapAuthenticationError (lib_userauth_password L username password w))
          (\<lambda>_ s. s\<lparr>ls_authenticated := True\<rparr>)) s w"

definition authenticateWithPrivateKeyFile ::
  "'w Libssh2 \<Rightarrow> nat \<Rightarrow> string \<Rightarrow> string \<Rightarrow> string \<Rightarrow> string \<Rightarrow> int \<Rightarrow> ('w, unit) session_op" where
  "authenticateWithPrivateKeyFile L transport username privateKeyPath publicKeyPath passphrase timeout s w =
     checked L (username = [] \<or> privateKeyPath = [] \<or> CHR 0x00 \<in> set privateKeyPath \<or> CHR 0x00 \<in> set publicKeyPath
         \<or> CHR 0x00 \<in> set passphrase \<or> length username > maximum_unsigned)
       (auth_refused L transport s w) timeout
       (looped L transport (\<lambda>w. code_step mapPrivateKeyAuthenticationError
            (lib_userauth_publickey L username (if publicKeyPath = [] then None else Some publicKeyPath)
               privateKeyPath passphrase w))
          (\<lambda>_ s. s\<lparr>ls_authenticated := True\<rparr>)) s w"

text \<open>One identity of the agent: accepted, refused by the server (try the next one), or an error.\<close>

definition agent_step :: "LibCode \<times> 'w \<Rightarrow> bool LibStep \<times> 'w" where
  "agent_step r =
     (case r of (code, w) \<Rightarrow>
        (if code = LibOk then StepDone True
         else if code = LibAuthenticationFailed \<or> code = LibPublickeyUnverified then StepDone False
         else if code = LibEagain then StepAgain
         else StepError (mapPrivateKeyAuthenticationError code), w))"

text \<open>
  The code checks the stop token before every round; here it is part of the round, so that the loop around
  the agent's answer is the same one.
\<close>

definition agent_round :: "'w Libssh2 \<Rightarrow> string \<Rightarrow> nat \<Rightarrow> 'w \<Rightarrow> bool LibStep \<times> 'w" where
  "agent_round L username identity w =
     (if stop_requested L w then (StepError (transport_error TransportCancelled), w)
      else agent_step (lib_agent_userauth L username identity w))"

fun agent_identities ::
  "'w Libssh2 \<Rightarrow> nat \<Rightarrow> string \<Rightarrow> bool \<Rightarrow> (LibCode + nat) list \<Rightarrow> ('w, unit) session_op" where
  "agent_identities L transport username offeredIdentity [] s w =
     Some (Inl (transport_error (if offeredIdentity then TransportAuthenticationRejected
                                 else TransportAuthenticationUnavailable)), s, w)"
| "agent_identities L transport username offeredIdentity (Inl code # rest) s w =
     Some (Inl (lib_error TransportAuthenticationUnavailable code), s, w)"
| "agent_identities L transport username offeredIdentity (Inr identity # rest) s w =
     (case session_loop L transport (agent_round L username identity) w of
        None \<Rightarrow> None
      | Some (Inl e, w') \<Rightarrow> Some (Inl e, s, w')
      | Some (Inr True, w') \<Rightarrow> Some (Inr (), s\<lparr>ls_authenticated := True\<rparr>, w')
      | Some (Inr False, w') \<Rightarrow> agent_identities L transport username True rest s w')"

definition authenticateWithAgent :: "'w Libssh2 \<Rightarrow> nat \<Rightarrow> string \<Rightarrow> int \<Rightarrow> ('w, unit) session_op" where
  "authenticateWithAgent L transport username timeout s w =
     checked L (username = [] \<or> CHR 0x00 \<in> set username \<or> length username > maximum_unsigned)
       (auth_refused L transport s w) timeout
       (\<lambda>s w.
          case lib_agent_init L w of
            (False, w1) \<Rightarrow> Some (Inl (transport_error TransportInitializationFailed), s, w1)
          | (True, w1) \<Rightarrow>
              (case lib_agent_connect L w1 of (code, w2) \<Rightarrow>
                 if code \<noteq> LibOk then Some (Inl (lib_error TransportAuthenticationUnavailable code), s, w2)
                 else (case lib_agent_list L w2 of
                         (Inl code, w3) \<Rightarrow> Some (Inl (lib_error TransportAuthenticationUnavailable code), s, w3)
                       | (Inr identities, w3) \<Rightarrow> agent_identities L transport username False identities s w3))) s w"

section \<open>The direct TCP/IP channel\<close>

definition localhost :: string where "localhost = ''127.0.0.1''"

definition openDirectTcpip :: "'w Libssh2 \<Rightarrow> nat \<Rightarrow> string \<Rightarrow> u16 \<Rightarrow> int \<Rightarrow> ('w, nat) session_op" where
  "openDirectTcpip L transport host port timeout s w =
     checked L False (\<not> ls_authenticated s \<or> ls_directTcpipChannel s \<noteq> None \<or> \<not> usesTransport L transport s w
         \<or> host = [] \<or> port = 0) timeout
       (looped L transport (\<lambda>w. handle_step L mapChannelError (lib_direct_tcpip L host port localhost 0 w))
          (\<lambda>channel s. s\<lparr>ls_directTcpipChannel := Some channel\<rparr>)) s w"

text \<open>One non-blocking read or write of a channel, as both forwarding and the direct channel make it.\<close>

definition bad_use :: "'w Libssh2 \<Rightarrow> SshByteTransportError" where
  "bad_use L = \<lparr>te_kind = SystemError, te_nativeCode = lib_value L LibBadUse\<rparr>"

definition channel_io_error :: "'w Libssh2 \<Rightarrow> nat \<Rightarrow> LibCode \<Rightarrow> 'w \<Rightarrow> SshByteTransportError" where
  "channel_io_error L channel code w =
     (if code = LibEagain then \<lparr>te_kind = WouldBlock, te_nativeCode = 0\<rparr>
      else \<lparr>te_kind = (if lib_channel_eof L channel w then TransportClosed else SystemError),
             te_nativeCode = lib_value L code\<rparr>)"

definition channel_read_once ::
  "'w Libssh2 \<Rightarrow> nat option \<Rightarrow> nat \<Rightarrow> 'w \<Rightarrow> (SshByteTransportError + byte list) \<times> 'w" where
  "channel_read_once L channel capacity w =
     (case channel of
        None \<Rightarrow> (Inl (bad_use L), w)
      | Some c \<Rightarrow>
          if capacity = 0 then (Inr [], w)
          else (case lib_channel_read L c (min capacity (2 ^ 31 - 1)) w of
                  (Inr bytes, w') \<Rightarrow> (Inr bytes, w')
                | (Inl code, w') \<Rightarrow> (Inl (channel_io_error L c code w'), w')))"

definition channel_write_once ::
  "'w Libssh2 \<Rightarrow> nat option \<Rightarrow> byte list \<Rightarrow> 'w \<Rightarrow> (SshByteTransportError + nat) \<times> 'w" where
  "channel_write_once L channel input w =
     (case channel of
        None \<Rightarrow> (Inl (bad_use L), w)
      | Some c \<Rightarrow>
          if input = [] then (Inr 0, w)
          else (case lib_channel_write L c (take (2 ^ 31 - 1) input) w of
                  (Inr n, w') \<Rightarrow> (Inr n, w')
                | (Inl code, w') \<Rightarrow> (Inl (channel_io_error L c code w'), w')))"

definition readDirectTcpip ::
  "'w Libssh2 \<Rightarrow> nat \<Rightarrow> Libssh2Session \<Rightarrow> 'w \<Rightarrow> (SshByteTransportError + byte list) \<times> 'w" where
  "readDirectTcpip L capacity s w = channel_read_once L (ls_directTcpipChannel s) capacity w"

definition writeDirectTcpip ::
  "'w Libssh2 \<Rightarrow> byte list \<Rightarrow> Libssh2Session \<Rightarrow> 'w \<Rightarrow> (SshByteTransportError + nat) \<times> 'w" where
  "writeDirectTcpip L input s w = channel_write_once L (ls_directTcpipChannel s) input w"

definition waitDirectTcpip ::
  "'w Libssh2 \<Rightarrow> nat \<Rightarrow> Libssh2Session \<Rightarrow> 'w \<Rightarrow> (SshByteTransportError + unit) \<times> 'w" where
  "waitDirectTcpip L transport s w =
     (if ls_directTcpipChannel s = None \<or> \<not> usesTransport L transport s w then (Inl (bad_use L), w)
      else tr_wait L transport (blockedInterest L w) w)"

text \<open>Closing a channel: a loop until it is closed, then one attempt to free it.\<close>

definition close_then_free ::
  "'w Libssh2 \<Rightarrow> nat \<Rightarrow> nat \<Rightarrow> (Libssh2Session \<Rightarrow> Libssh2Session) \<Rightarrow> ('w, unit) session_op" where
  "close_then_free L transport channel clear s w =
     (case session_loop L transport (\<lambda>w. code_step mapChannelError (lib_channel_close L channel w)) w of
        None \<Rightarrow> None
      | Some (Inl e, w') \<Rightarrow> Some (Inl e, s, w')
      | Some (Inr _, w') \<Rightarrow>
          (case lib_channel_free L channel w' of (freeResult, w'') \<Rightarrow>
             if freeResult \<noteq> LibOk then Some (Inl (mapChannelError freeResult), s, w'')
             else Some (Inr (), clear s, w'')))"

definition closeDirectTcpip :: "'w Libssh2 \<Rightarrow> nat \<Rightarrow> int \<Rightarrow> ('w, unit) session_op" where
  "closeDirectTcpip L transport timeout s w =
     checked L False (ls_directTcpipChannel s = None \<or> \<not> usesTransport L transport s w) timeout
       (\<lambda>s. close_then_free L transport (the (ls_directTcpipChannel s)) (\<lambda>s. s\<lparr>ls_directTcpipChannel := None\<rparr>) s) s w"

section \<open>What the operations return\<close>

lemma checked_result:
  "checked L bad state timeout body s w = Some (r, s', w') \<Longrightarrow>
    (isl r \<and> s' = s \<and> w' = w) \<or> (\<not> bad \<and> \<not> state \<and> 0 < timeout \<and> \<not> stop_requested L w \<and> body s w = Some (r, s', w'))"
  by (auto simp: checked_def not_le split: if_splits)

lemma looped_result:
  "looped L transport call f s w = Some (r, s', w') \<Longrightarrow>
    (case r of Inl e \<Rightarrow> s' = s | Inr a \<Rightarrow> s' = f a s)"
  by (auto simp: looped_def split: option.splits prod.splits sum.splits)

lemma agent_identities_result:
  "agent_identities L transport username offered ids s w = Some (r, s', w') \<Longrightarrow>
    (case r of Inl e \<Rightarrow> s' = s | Inr a \<Rightarrow> s' = s\<lparr>ls_authenticated := True\<rparr>)"
  by (induction L transport username offered ids s w rule: agent_identities.induct)
    (auto split: option.splits prod.splits sum.splits bool.splits)

lemma authentication_result:
  assumes "authenticateWithPassword L transport u p timeout s w = Some (r, s', w')
      \<or> authenticateWithPrivateKeyFile L transport u k k' p timeout s w = Some (r, s', w')
      \<or> authenticateWithAgent L transport u timeout s w = Some (r, s', w')"
  shows "(isl r \<and> s' = s) \<or> (s' = s\<lparr>ls_authenticated := True\<rparr> \<and> \<not> auth_refused L transport s w)"
proof -
  have outcome: "(case r of Inl e \<Rightarrow> s' = s | Inr (a :: unit) \<Rightarrow> s' = s\<lparr>ls_authenticated := True\<rparr>) \<Longrightarrow>
    (isl r \<and> s' = s) \<or> s' = s\<lparr>ls_authenticated := True\<rparr>" by (cases r) simp_all
  show ?thesis
    using assms
    by (elim disjE)
      (auto simp: authenticateWithPassword_def authenticateWithPrivateKeyFile_def authenticateWithAgent_def
        dest!: checked_result looped_result agent_identities_result split: prod.splits sum.splits if_splits bool.splits)
qed

end
