(* ===== verification/Ssh_Channels.thy ===== *)
theory Ssh_Channels
  imports Ssh_Session
begin

text \<open>
  The channels of the SSH session, \<open>src/infrastructure/ssh/Libssh2Session.cpp\<close> after the authentication: the
  forwarding channels and remote listeners with their tables, the terminal, the keepalive messages and the
  auxiliary command that is advanced step by step.

  \<open>LibChannels\<close> adds the calls of libssh2 that these make to those of \<open>Libssh2\<close>.  The interrupt handle of a
  wait belongs to the transport.  A buffer that is read into is the list of its bytes, its size an argument.
\<close>

record 'w LibChannels =
  lc_lib :: "'w Libssh2"
  lc_send_eof :: "nat \<Rightarrow> 'w \<Rightarrow> LibCode \<times> 'w"
  lc_forward_listen :: "string \<Rightarrow> u16 \<Rightarrow> u32 \<Rightarrow> 'w \<Rightarrow> (nat \<times> int) option \<times> 'w"
  lc_forward_accept :: "nat \<Rightarrow> 'w \<Rightarrow> nat option \<times> 'w"
  lc_forward_cancel :: "nat \<Rightarrow> 'w \<Rightarrow> LibCode \<times> 'w"
  lc_open_session :: "'w \<Rightarrow> nat option \<times> 'w"
  lc_request_pty :: "nat \<Rightarrow> string \<Rightarrow> u32 \<Rightarrow> u32 \<Rightarrow> 'w \<Rightarrow> LibCode \<times> 'w"
  lc_setenv :: "nat \<Rightarrow> string \<Rightarrow> string \<Rightarrow> 'w \<Rightarrow> LibCode \<times> 'w"
  lc_shell :: "nat \<Rightarrow> 'w \<Rightarrow> LibCode \<times> 'w"
  lc_keepalive_config :: "u32 \<Rightarrow> 'w \<Rightarrow> 'w"
  lc_keepalive_send :: "'w \<Rightarrow> (LibCode \<times> int) \<times> 'w"
  lc_pty_size :: "nat \<Rightarrow> u32 \<Rightarrow> u32 \<Rightarrow> 'w \<Rightarrow> LibCode \<times> 'w"
  lc_exec :: "nat \<Rightarrow> string \<Rightarrow> 'w \<Rightarrow> LibCode \<times> 'w"
  lc_read_stderr :: "nat \<Rightarrow> nat \<Rightarrow> 'w \<Rightarrow> (LibCode + nat) \<times> 'w"
  lc_exit_status :: "nat \<Rightarrow> 'w \<Rightarrow> int"

section \<open>Forwarding\<close>

definition bad_host :: "string \<Rightarrow> bool" where
  "bad_host host \<longleftrightarrow> host = [] \<or> length host > 1024 \<or> CHR 0x00 \<in> set host"

text \<open>Between the state and the timeout, an operation that takes a resource id checks that there is one left.\<close>

definition checked_resource ::
  "'w Libssh2 \<Rightarrow> bool \<Rightarrow> bool \<Rightarrow> int \<Rightarrow> ('w, 'a) session_op \<Rightarrow> ('w, 'a) session_op" where
  "checked_resource L badArgument badState timeout body s w =
     (if badArgument \<or> badState \<or> ls_nextForwardingResourceId s \<noteq> 0 then checked L badArgument badState timeout body s w
      else Some (Inl (transport_error TransportInitializationFailed), s, w))"

definition add_channel :: "nat \<Rightarrow> Libssh2Session \<Rightarrow> Libssh2Session" where
  "add_channel channel s =
     s\<lparr>ls_forwardingChannels := ls_forwardingChannels s @ [(ls_nextForwardingResourceId s, channel)],
       ls_nextForwardingResourceId := ls_nextForwardingResourceId s + 1\<rparr>"

definition add_listener :: "nat \<Rightarrow> Libssh2Session \<Rightarrow> Libssh2Session" where
  "add_listener listener s =
     s\<lparr>ls_remoteForwardListeners := ls_remoteForwardListeners s @ [(ls_nextForwardingResourceId s, listener)],
       ls_nextForwardingResourceId := ls_nextForwardingResourceId s + 1\<rparr>"

definition openForwardingChannel ::
  "'w LibChannels \<Rightarrow> nat \<Rightarrow> string \<Rightarrow> u16 \<Rightarrow> string \<Rightarrow> u16 \<Rightarrow> int \<Rightarrow> ('w, u64) session_op" where
  "openForwardingChannel C transport host port originatorHost originatorPort timeout s w =
     checked_resource (lc_lib C) (bad_host host \<or> port = 0 \<or> bad_host originatorHost)
       (\<not> ls_authenticated s \<or> \<not> usesTransport (lc_lib C) transport s w) timeout
       (\<lambda>s w. case session_loop (lc_lib C) transport
                    (\<lambda>w. handle_step (lc_lib C) mapChannelError
                           (lib_direct_tcpip (lc_lib C) host port originatorHost originatorPort w)) w of
                None \<Rightarrow> None
              | Some (Inl e, w') \<Rightarrow> Some (Inl e, s, w')
              | Some (Inr channel, w') \<Rightarrow> Some (Inr (ls_nextForwardingResourceId s), add_channel channel s, w')) s w"

definition forwardingChannel :: "u64 \<Rightarrow> Libssh2Session \<Rightarrow> nat option" where
  "forwardingChannel i s = map_of (ls_forwardingChannels s) i"

definition remoteForwardListener :: "u64 \<Rightarrow> Libssh2Session \<Rightarrow> nat option" where
  "remoteForwardListener i s = map_of (ls_remoteForwardListeners s) i"

definition readForwardingChannel ::
  "'w LibChannels \<Rightarrow> u64 \<Rightarrow> nat \<Rightarrow> Libssh2Session \<Rightarrow> 'w \<Rightarrow> (SshByteTransportError + byte list) \<times> 'w" where
  "readForwardingChannel C i capacity s w = channel_read_once (lc_lib C) (forwardingChannel i s) capacity w"

definition writeForwardingChannel ::
  "'w LibChannels \<Rightarrow> u64 \<Rightarrow> byte list \<Rightarrow> Libssh2Session \<Rightarrow> 'w \<Rightarrow> (SshByteTransportError + nat) \<times> 'w" where
  "writeForwardingChannel C i input s w = channel_write_once (lc_lib C) (forwardingChannel i s) input w"

definition forwardingChannelEof :: "'w LibChannels \<Rightarrow> u64 \<Rightarrow> Libssh2Session \<Rightarrow> 'w \<Rightarrow> bool" where
  "forwardingChannelEof C i s w =
     (case forwardingChannel i s of None \<Rightarrow> True | Some channel \<Rightarrow> lib_channel_eof (lc_lib C) channel w)"

definition sendForwardingChannelEof :: "'w LibChannels \<Rightarrow> nat \<Rightarrow> u64 \<Rightarrow> int \<Rightarrow> ('w, unit) session_op" where
  "sendForwardingChannelEof C transport i timeout s w =
     checked (lc_lib C) False (forwardingChannel i s = None \<or> \<not> usesTransport (lc_lib C) transport s w) timeout
       (looped (lc_lib C) transport (\<lambda>w. code_step mapChannelError (lc_send_eof C (the (forwardingChannel i s)) w)) (\<lambda>_ s. s)) s w"

text \<open>A loop that tells an error of the call, as a value, from an error of the wait.\<close>

definition settle_step :: "(LibCode \<Rightarrow> SshTransportError) \<Rightarrow> LibCode \<times> 'w \<Rightarrow> SshTransportError option LibStep \<times> 'w" where
  "settle_step mapError r =
     (case r of (code, w) \<Rightarrow>
        (if code = LibOk then StepDone None else if code = LibEagain then StepAgain else StepDone (Some (mapError code)), w))"

definition erase_channel :: "u64 \<Rightarrow> Libssh2Session \<Rightarrow> Libssh2Session" where
  "erase_channel i s = s\<lparr>ls_forwardingChannels := erase_first (\<lambda>entry. fst entry = i) (ls_forwardingChannels s)\<rparr>"

definition close_forwarding :: "'w LibChannels \<Rightarrow> nat \<Rightarrow> u64 \<Rightarrow> nat \<Rightarrow> ('w, unit) session_op" where
  "close_forwarding C transport i channel s w =
     (case session_loop (lc_lib C) transport (\<lambda>w. settle_step mapChannelError (lib_channel_close (lc_lib C) channel w)) w of
        None \<Rightarrow> None
      | Some (Inl e, w') \<Rightarrow> Some (Inl e, s, w')
      | Some (Inr refused, w') \<Rightarrow>
          (case lib_channel_free (lc_lib C) channel w' of (freeResult, w'') \<Rightarrow>
             Some (case refused of
                     Some e \<Rightarrow> Inl e
                   | None \<Rightarrow> if freeResult \<noteq> LibOk then Inl (mapChannelError freeResult) else Inr (),
                   erase_channel i s, w'')))"

definition closeForwardingChannel :: "'w LibChannels \<Rightarrow> nat \<Rightarrow> u64 \<Rightarrow> int \<Rightarrow> ('w, unit) session_op" where
  "closeForwardingChannel C transport i timeout s w =
     checked (lc_lib C) False (forwardingChannel i s = None \<or> \<not> usesTransport (lc_lib C) transport s w) timeout
       (\<lambda>s. close_forwarding C transport i (the (forwardingChannel i s)) s) s w"

text \<open>A listener is given back when the port it is bound to is none.\<close>

definition listen_step :: "'w LibChannels \<Rightarrow> (nat \<times> int) option \<times> 'w \<Rightarrow> (nat \<times> u16) LibStep \<times> 'w" where
  "listen_step C r =
     (case r of
        (Some (listener, boundPort), w) \<Rightarrow>
          if boundPort \<le> 0 \<or> boundPort > 65535
          then (StepError (transport_error TransportProtocolError), snd (lc_forward_cancel C listener w))
          else (StepDone (listener, of_int boundPort), w)
      | (None, w) \<Rightarrow>
          (let code = lib_errno (lc_lib C) w in (if code = LibEagain then StepAgain else StepError (mapChannelError code), w)))"

definition openRemoteForwardListener ::
  "'w LibChannels \<Rightarrow> nat \<Rightarrow> string \<Rightarrow> u16 \<Rightarrow> u32 \<Rightarrow> int \<Rightarrow> ('w, u64 \<times> u16) session_op" where
  "openRemoteForwardListener C transport bindHost port queueSize timeout s w =
     checked_resource (lc_lib C) (bad_host bindHost \<or> queueSize = 0 \<or> queueSize > 128)
       (\<not> ls_authenticated s \<or> \<not> usesTransport (lc_lib C) transport s w) timeout
       (\<lambda>s w. case session_loop (lc_lib C) transport (\<lambda>w. listen_step C (lc_forward_listen C bindHost port queueSize w)) w of
                None \<Rightarrow> None
              | Some (Inl e, w') \<Rightarrow> Some (Inl e, s, w')
              | Some (Inr (listener, boundPort), w') \<Rightarrow>
                  Some (Inr (ls_nextForwardingResourceId s, boundPort), add_listener listener s, w')) s w"

definition acceptRemoteForwardingChannel ::
  "'w LibChannels \<Rightarrow> u64 \<Rightarrow> u16 \<Rightarrow> Libssh2Session \<Rightarrow> 'w
    \<Rightarrow> (SshTransportError + u64 option) \<times> Libssh2Session \<times> 'w" where
  "acceptRemoteForwardingChannel C i boundPort s w =
     (case remoteForwardListener i s of
        None \<Rightarrow> (Inl (transport_error TransportInvalidState), s, w)
      | Some listener \<Rightarrow>
          if boundPort = 0 \<or> ls_nextForwardingResourceId s = 0 then (Inl (transport_error TransportInvalidState), s, w)
          else (case lc_forward_accept C listener w of
                  (None, w') \<Rightarrow>
                    let code = lib_errno (lc_lib C) w'
                    in (if code = LibEagain then Inr None else Inl (mapChannelError code), s, w')
                | (Some channel, w') \<Rightarrow> (Inr (Some (ls_nextForwardingResourceId s)), add_channel channel s, w')))"

definition erase_listener :: "u64 \<Rightarrow> Libssh2Session \<Rightarrow> Libssh2Session" where
  "erase_listener i s = s\<lparr>ls_remoteForwardListeners := erase_first (\<lambda>entry. fst entry = i) (ls_remoteForwardListeners s)\<rparr>"

definition closeRemoteForwardListener :: "'w LibChannels \<Rightarrow> nat \<Rightarrow> u64 \<Rightarrow> int \<Rightarrow> ('w, unit) session_op" where
  "closeRemoteForwardListener C transport i timeout s w =
     checked (lc_lib C) False (remoteForwardListener i s = None \<or> \<not> usesTransport (lc_lib C) transport s w) timeout
       (looped (lc_lib C) transport
          (\<lambda>w. code_step mapChannelError (lc_forward_cancel C (the (remoteForwardListener i s)) w))
          (\<lambda>_. erase_listener i)) s w"

definition waitForwardingIo ::
  "'w LibChannels \<Rightarrow> nat \<Rightarrow> Libssh2Session \<Rightarrow> 'w \<Rightarrow> (SshByteTransportError + unit) \<times> 'w" where
  "waitForwardingIo C transport s w =
     (if \<not> usesTransport (lc_lib C) transport s w then (Inl (bad_use (lc_lib C)), w)
      else tr_wait (lc_lib C) transport (blockedInterest (lc_lib C) w) w)"

section \<open>The terminal\<close>

definition validTerminalDimensions :: "u32 \<Rightarrow> u32 \<Rightarrow> bool" where
  "validTerminalDimensions columns rows \<longleftrightarrow>
     columns > 0 \<and> rows > 0 \<and> columns \<le> 0x7FFFFFFF \<and> rows \<le> 0x7FFFFFFF"

record SshTerminalEnvironment =
  env_name :: string
  env_value :: string
  env_required :: bool

definition bad_variable :: "SshTerminalEnvironment \<Rightarrow> bool" where
  "bad_variable v \<longleftrightarrow> env_name v = [] \<or> CHR 0x00 \<in> set (env_name v) \<or> CHR 0x00 \<in> set (env_value v)
     \<or> length (env_name v) > maximum_unsigned \<or> length (env_value v) > maximum_unsigned"

definition setenv_step :: "bool \<Rightarrow> LibCode \<times> 'w \<Rightarrow> unit LibStep \<times> 'w" where
  "setenv_step required r =
     (case r of (code, w) \<Rightarrow>
        (if code = LibOk \<or> \<not> required \<and> code = LibChannelRequestDenied then StepDone ()
         else if code = LibEagain then StepAgain else StepError (mapChannelError code), w))"

fun set_environment ::
  "'w LibChannels \<Rightarrow> nat \<Rightarrow> nat \<Rightarrow> SshTerminalEnvironment list \<Rightarrow> ('w, SshTransportError, unit) attempt" where
  "set_environment C transport channel [] = (\<lambda>w. Some (Inr (), w))"
| "set_environment C transport channel (v # vs) =
     (if bad_variable v then (\<lambda>w. Some (Inl (transport_error TransportInvalidArgument), w))
      else andThen (session_loop (lc_lib C) transport
             (\<lambda>w. setenv_step (env_required v) (lc_setenv C channel (env_name v) (env_value v) w)))
           (\<lambda>_. set_environment C transport channel vs))"

definition terminal_setup ::
  "'w LibChannels \<Rightarrow> nat \<Rightarrow> nat \<Rightarrow> u32 \<Rightarrow> u32 \<Rightarrow> string \<Rightarrow> SshTerminalEnvironment list
    \<Rightarrow> ('w, SshTransportError, unit) attempt" where
  "terminal_setup C transport channel columns rows terminalType environment =
     andThen (session_loop (lc_lib C) transport
       (\<lambda>w. code_step mapChannelError (lc_request_pty C channel terminalType columns rows w))) (\<lambda>_.
     andThen (set_environment C transport channel environment) (\<lambda>_.
     session_loop (lc_lib C) transport (\<lambda>w. code_step mapChannelError (lc_shell C channel w))))"

definition open_terminal_channel ::
  "'w LibChannels \<Rightarrow> nat \<Rightarrow> u32 \<Rightarrow> u32 \<Rightarrow> string \<Rightarrow> SshTerminalEnvironment list \<Rightarrow> ('w, unit) session_op" where
  "open_terminal_channel C transport columns rows terminalType environment s w =
     (case session_loop (lc_lib C) transport (\<lambda>w. handle_step (lc_lib C) mapChannelError (lc_open_session C w)) w of
        None \<Rightarrow> None
      | Some (Inl e, w1) \<Rightarrow> Some (Inl e, s, w1)
      | Some (Inr channel, w1) \<Rightarrow>
          (case terminal_setup C transport channel columns rows terminalType environment w1 of
             None \<Rightarrow> None
           | Some (Inl e, w2) \<Rightarrow> Some (Inl e, s, snd (lib_channel_free (lc_lib C) channel w2))
           | Some (Inr _, w2) \<Rightarrow> Some (Inr (), s\<lparr>ls_terminalChannel := Some channel\<rparr>, w2)))"

definition openTerminal ::
  "'w LibChannels \<Rightarrow> nat \<Rightarrow> u32 \<Rightarrow> u32 \<Rightarrow> string \<Rightarrow> SshTerminalEnvironment list \<Rightarrow> int \<Rightarrow> ('w, unit) session_op" where
  "openTerminal C transport columns rows terminalType environment timeout s w =
     checked (lc_lib C)
       (\<not> validTerminalDimensions columns rows \<or> terminalType = [] \<or> CHR 0x00 \<in> set terminalType
         \<or> length terminalType > maximum_unsigned)
       (\<not> usesTransport (lc_lib C) transport s w \<or> \<not> ls_authenticated s \<or> ls_terminalChannel s \<noteq> None \<or> ls_sftp s \<noteq> None)
       timeout (open_terminal_channel C transport columns rows terminalType environment) s w"

definition configureKeepalive ::
  "'w LibChannels \<Rightarrow> u32 \<Rightarrow> Libssh2Session \<Rightarrow> 'w \<Rightarrow> (SshTransportError + unit) \<times> 'w" where
  "configureKeepalive C intervalSeconds s w =
     (if \<not> ls_authenticated s then (Inl (transport_error TransportInvalidState), w)
      else (Inr (), lc_keepalive_config C intervalSeconds w))"

definition sendKeepalive :: "'w LibChannels \<Rightarrow> Libssh2Session \<Rightarrow> 'w \<Rightarrow> (SshTransportError + int) \<times> 'w" where
  "sendKeepalive C s w =
     (if \<not> ls_authenticated s then (Inl (transport_error TransportInvalidState), w)
      else (case lc_keepalive_send C w of ((code, secondsToNext), w') \<Rightarrow>
              (if code \<noteq> LibOk then Inl (mapChannelError code) else Inr secondsToNext, w')))"

text \<open>One read of the terminal: \<open>None\<close> when there is nothing yet, no bytes at the end.\<close>

definition pollTerminal ::
  "'w LibChannels \<Rightarrow> nat \<Rightarrow> nat \<Rightarrow> Libssh2Session \<Rightarrow> 'w \<Rightarrow> (SshTransportError + byte list option) \<times> 'w" where
  "pollTerminal C transport capacity s w =
     (if capacity = 0 then (Inl (transport_error TransportInvalidArgument), w)
      else case ls_terminalChannel s of
        None \<Rightarrow> (Inl (transport_error TransportInvalidState), w)
      | Some channel \<Rightarrow>
          if \<not> usesTransport (lc_lib C) transport s w then (Inl (transport_error TransportInvalidState), w)
          else if stop_requested (lc_lib C) w then (Inl (transport_error TransportCancelled), w)
          else (case lib_channel_read (lc_lib C) channel capacity w of
                  (Inr bytes, w') \<Rightarrow> (Inr (Some bytes), w')
                | (Inl code, w') \<Rightarrow> (if code = LibEagain then Inr None else Inl (mapChannelError code), w')))"

definition poll_step :: "(SshTransportError + 'a option) \<times> 'w \<Rightarrow> 'a LibStep \<times> 'w" where
  "poll_step r =
     (case r of
        (Inl e, w) \<Rightarrow> (StepError e, w)
      | (Inr None, w) \<Rightarrow> (StepAgain, w)
      | (Inr (Some a), w) \<Rightarrow> (StepDone a, w))"

definition readTerminal :: "'w LibChannels \<Rightarrow> nat \<Rightarrow> nat \<Rightarrow> int \<Rightarrow> ('w, byte list) session_op" where
  "readTerminal C transport capacity timeout s w =
     checked (lc_lib C) (capacity = 0) (ls_terminalChannel s = None \<or> \<not> usesTransport (lc_lib C) transport s w) timeout
       (looped (lc_lib C) transport (\<lambda>w. poll_step (pollTerminal C transport capacity s w)) (\<lambda>_ s. s)) s w"

text \<open>Writing until everything is written, of a channel or of a file.\<close>

partial_function (option) write_loop ::
  "'w Libssh2 \<Rightarrow> nat \<Rightarrow> (byte list \<Rightarrow> 'w \<Rightarrow> (LibCode + nat) \<times> 'w) \<Rightarrow> (LibCode \<Rightarrow> 'w \<Rightarrow> SshTransportError)
    \<Rightarrow> byte list \<Rightarrow> 'w \<Rightarrow> ((SshTransportError + unit) \<times> 'w) option" where
  "write_loop L transport write mapError bytes w =
     (if bytes = [] then Some (Inr (), w)
      else case write bytes w of
        (Inr n, w') \<Rightarrow> if n > 0 then write_loop L transport write mapError (drop n bytes) w'
                       else Some (Inl (mapError LibOk w'), w')
      | (Inl code, w') \<Rightarrow>
          if code = LibEagain
          then (case waitForSessionIo L transport w' of
                  (Inl e, w'') \<Rightarrow> Some (Inl e, w'')
                | (Inr _, w'') \<Rightarrow> write_loop L transport write mapError bytes w'')
          else Some (Inl (mapError code w'), w'))"

definition write_all ::
  "'w Libssh2 \<Rightarrow> nat \<Rightarrow> (byte list \<Rightarrow> 'w \<Rightarrow> (LibCode + nat) \<times> 'w) \<Rightarrow> (LibCode \<Rightarrow> 'w \<Rightarrow> SshTransportError)
    \<Rightarrow> byte list \<Rightarrow> ('w, unit) session_op" where
  "write_all L transport write mapError input s w =
     map_option (\<lambda>(r, w'). (r, s, w')) (write_loop L transport write mapError input w)"

definition writeTerminal :: "'w LibChannels \<Rightarrow> nat \<Rightarrow> byte list \<Rightarrow> int \<Rightarrow> ('w, unit) session_op" where
  "writeTerminal C transport input timeout s w =
     checked (lc_lib C) (input = []) (ls_terminalChannel s = None \<or> \<not> usesTransport (lc_lib C) transport s w) timeout
       (write_all (lc_lib C) transport (lib_channel_write (lc_lib C) (the (ls_terminalChannel s)))
          (\<lambda>code w. mapChannelError code) input) s w"

definition resizeTerminal :: "'w LibChannels \<Rightarrow> nat \<Rightarrow> u32 \<Rightarrow> u32 \<Rightarrow> int \<Rightarrow> ('w, unit) session_op" where
  "resizeTerminal C transport columns rows timeout s w =
     checked (lc_lib C) (\<not> validTerminalDimensions columns rows)
       (ls_terminalChannel s = None \<or> \<not> usesTransport (lc_lib C) transport s w) timeout
       (looped (lc_lib C) transport
          (\<lambda>w. code_step mapChannelError (lc_pty_size C (the (ls_terminalChannel s)) columns rows w)) (\<lambda>_ s. s)) s w"

definition closeTerminal :: "'w LibChannels \<Rightarrow> nat \<Rightarrow> int \<Rightarrow> ('w, unit) session_op" where
  "closeTerminal C transport timeout s w =
     checked (lc_lib C) False (ls_terminalChannel s = None \<or> \<not> usesTransport (lc_lib C) transport s w) timeout
       (\<lambda>s. close_then_free (lc_lib C) transport (the (ls_terminalChannel s)) (\<lambda>s. s\<lparr>ls_terminalChannel := None\<rparr>) s) s w"

section \<open>The auxiliary command\<close>

datatype AuxiliaryCommandProgress = AuxPending | AuxOutput | AuxCompleted

record AuxiliaryCommandPollResult =
  ap_progress :: AuxiliaryCommandProgress
  ap_output :: "byte list"
  ap_exitStatus :: int

definition aux_pending :: AuxiliaryCommandPollResult where
  "aux_pending = \<lparr>ap_progress = AuxPending, ap_output = [], ap_exitStatus = 0\<rparr>"

type_synonym 'w aux_result = "(SshTransportError + AuxiliaryCommandPollResult) \<times> Libssh2Session \<times> 'w"

definition maximumCommandBytes :: nat where "maximumCommandBytes = 16 * 1024"

definition startAuxiliaryCommand :: "string \<Rightarrow> Libssh2Session \<Rightarrow> (SshTransportError + unit) \<times> Libssh2Session" where
  "startAuxiliaryCommand command s =
     (if command = [] \<or> length command > maximumCommandBytes \<or> CHR 0x00 \<in> set command
      then (Inl (transport_error TransportInvalidArgument), s)
      else if \<not> ls_authenticated s \<or> ls_auxiliaryPhase s \<noteq> AuxIdle \<or> ls_auxiliaryChannel s \<noteq> None \<or> ls_sftp s \<noteq> None
      then (Inl (transport_error TransportInvalidState), s)
      else (Inr (), s\<lparr>ls_auxiliaryCommand := command, ls_auxiliaryExitStatus := 0, ls_auxiliaryPhase := AuxOpening\<rparr>))"

text \<open>The phases of \<open>pollAuxiliaryCommand\<close>, each going on to the next one as the code falls through.\<close>

definition aux_free :: "'w LibChannels \<Rightarrow> nat \<Rightarrow> Libssh2Session \<Rightarrow> 'w \<Rightarrow> 'w aux_result" where
  "aux_free C channel s w =
     (case lib_channel_free (lc_lib C) channel w of (freeResult, w') \<Rightarrow>
        if freeResult = LibEagain then (Inr aux_pending, s, w')
        else if freeResult \<noteq> LibOk then (Inl (mapChannelError freeResult), s, w')
        else (Inr \<lparr>ap_progress = AuxCompleted, ap_output = [], ap_exitStatus = ls_auxiliaryExitStatus s\<rparr>,
              s\<lparr>ls_auxiliaryChannel := None, ls_auxiliaryCommand := [], ls_auxiliaryPhase := AuxIdle,
                ls_auxiliaryExitStatus := 0\<rparr>, w'))"

definition aux_closing :: "'w LibChannels \<Rightarrow> nat \<Rightarrow> Libssh2Session \<Rightarrow> 'w \<Rightarrow> 'w aux_result" where
  "aux_closing C channel s w =
     (if ls_auxiliaryPhase s \<noteq> AuxClosing then aux_free C channel s w
      else case lib_channel_close (lc_lib C) channel w of (result, w') \<Rightarrow>
        if result = LibEagain then (Inr aux_pending, s, w')
        else let s' = s\<lparr>ls_auxiliaryExitStatus := lc_exit_status C channel w', ls_auxiliaryPhase := AuxFreeing\<rparr>
             in if result \<noteq> LibOk then (Inl (mapChannelError result), s', w') else aux_free C channel s' w')"

definition aux_to_closing :: "Libssh2Session \<Rightarrow> Libssh2Session" where
  "aux_to_closing s = s\<lparr>ls_auxiliaryPhase := AuxClosing\<rparr>"

definition aux_drain :: "'w LibChannels \<Rightarrow> nat \<Rightarrow> Libssh2Session \<Rightarrow> 'w \<Rightarrow> 'w aux_result" where
  "aux_drain C channel s w =
     (case lc_read_stderr C channel 4096 w of (errorRead, w') \<Rightarrow>
        (case errorRead of
           Inl code \<Rightarrow>
             if code \<noteq> LibEagain then (Inl (mapChannelError code), aux_to_closing s, w')
             else if \<not> lib_channel_eof (lc_lib C) channel w' then (Inr aux_pending, s, w')
             else aux_closing C channel (aux_to_closing s) w'
         | Inr _ \<Rightarrow>
             if \<not> lib_channel_eof (lc_lib C) channel w' then (Inr aux_pending, s, w')
             else aux_closing C channel (aux_to_closing s) w'))"

definition aux_reading :: "'w LibChannels \<Rightarrow> nat \<Rightarrow> nat \<Rightarrow> Libssh2Session \<Rightarrow> 'w \<Rightarrow> 'w aux_result" where
  "aux_reading C channel capacity s w =
     (if ls_auxiliaryPhase s \<noteq> AuxReading then aux_closing C channel s w
      else case lib_channel_read (lc_lib C) channel capacity w of
        (Inr bytes, w') \<Rightarrow>
          if bytes \<noteq> [] then (Inr \<lparr>ap_progress = AuxOutput, ap_output = bytes, ap_exitStatus = 0\<rparr>, s, w')
          else aux_drain C channel s w'
      | (Inl code, w') \<Rightarrow>
          if code \<noteq> LibEagain then (Inl (mapChannelError code), aux_to_closing s, w') else aux_drain C channel s w')"

definition aux_requesting :: "'w LibChannels \<Rightarrow> nat \<Rightarrow> nat \<Rightarrow> Libssh2Session \<Rightarrow> 'w \<Rightarrow> 'w aux_result" where
  "aux_requesting C channel capacity s w =
     (if ls_auxiliaryPhase s \<noteq> AuxRequesting then aux_reading C channel capacity s w
      else case lc_exec C channel (ls_auxiliaryCommand s) w of (result, w') \<Rightarrow>
        if result = LibEagain then (Inr aux_pending, s, w')
        else if result \<noteq> LibOk then (Inl (mapChannelError result), aux_to_closing s, w')
        else aux_reading C channel capacity (s\<lparr>ls_auxiliaryCommand := [], ls_auxiliaryPhase := AuxReading\<rparr>) w')"

definition aux_with_channel :: "'w LibChannels \<Rightarrow> nat \<Rightarrow> Libssh2Session \<Rightarrow> 'w \<Rightarrow> 'w aux_result" where
  "aux_with_channel C capacity s w =
     (case ls_auxiliaryChannel s of
        None \<Rightarrow> (Inl (transport_error TransportInvalidState),
                 s\<lparr>ls_auxiliaryCommand := [], ls_auxiliaryPhase := AuxIdle\<rparr>, w)
      | Some channel \<Rightarrow> aux_requesting C channel capacity s w)"

definition pollAuxiliaryCommand :: "'w LibChannels \<Rightarrow> nat \<Rightarrow> Libssh2Session \<Rightarrow> 'w \<Rightarrow> 'w aux_result" where
  "pollAuxiliaryCommand C capacity s w =
     (if capacity = 0 then (Inl (transport_error TransportInvalidArgument), s, w)
      else if ls_auxiliaryPhase s = AuxIdle then (Inl (transport_error TransportInvalidState), s, w)
      else if ls_auxiliaryPhase s = AuxOpening
      then (case lc_open_session C w of
              (None, w') \<Rightarrow>
                let code = lib_errno (lc_lib C) w'
                in if code = LibEagain then (Inr aux_pending, s, w')
                   else (Inl (mapChannelError code), s\<lparr>ls_auxiliaryCommand := [], ls_auxiliaryPhase := AuxIdle\<rparr>, w')
            | (Some channel, w') \<Rightarrow>
                aux_with_channel C capacity
                  (s\<lparr>ls_auxiliaryChannel := Some channel, ls_auxiliaryPhase := AuxRequesting\<rparr>) w')
      else aux_with_channel C capacity s w)"

definition cancelAuxiliaryCommand :: "Libssh2Session \<Rightarrow> Libssh2Session" where
  "cancelAuxiliaryCommand s =
     (if ls_auxiliaryPhase s = AuxOpening \<and> ls_auxiliaryChannel s = None
      then s\<lparr>ls_auxiliaryCommand := [], ls_auxiliaryPhase := AuxIdle\<rparr>
      else if ls_auxiliaryPhase s = AuxRequesting \<or> ls_auxiliaryPhase s = AuxReading
      then s\<lparr>ls_auxiliaryCommand := [], ls_auxiliaryPhase := AuxClosing\<rparr>
      else s)"

end
