(* ===== verification/Ssh_Sftp.thy ===== *)
theory Ssh_Sftp
  imports Ssh_Channels Remote_Path
begin

text \<open>
  The SFTP operations of the SSH session, \<open>src/infrastructure/ssh/Libssh2Session.cpp\<close>: opening, listing,
  changing and removing entries, and the one open file.  \<open>LibSftp\<close> has libssh2's calls; \<open>lf_wait\<close> is the wait
  that no stop token cancels, with which a directory is closed.  A handle is a number; the permissions of an
  entry are classified by \<open>lf_kind\<close>, libssh2's tests of the mode bits.
\<close>

datatype SftpWriteDisposition = CreateNew | ReplaceFile | OpenOrCreate

datatype SftpRenameDisposition = NoReplace | ReplaceAtomically

text \<open>The attributes of an entry: each is there only when its flag is.\<close>

record SftpAttributes =
  at_permissions :: "u32 option"
  at_filesize :: "u64 option"
  at_mtime :: "int option"

record DirectoryEntry =
  de_name :: string
  de_remotePath :: string
  de_type :: EntryType
  de_size :: u64
  de_modifiedUtcSeconds :: "int option"
  de_permissions :: u32

datatype SftpOpen = SftpOpenDirectory | SftpOpenRead | SftpOpenWrite bool bool

record 'w LibSftp =
  lf_lib :: "'w Libssh2"
  lf_wait :: "nat \<Rightarrow> SocketIoInterest \<Rightarrow> 'w \<Rightarrow> (SshByteTransportError + unit) \<times> 'w"
  lf_kind :: "u32 \<Rightarrow> EntryType"
  lf_lastError :: "'w \<Rightarrow> int"
  lf_init :: "'w \<Rightarrow> nat option \<times> 'w"
  lf_open :: "nat \<Rightarrow> string \<Rightarrow> SftpOpen \<Rightarrow> 'w \<Rightarrow> nat option \<times> 'w"
  lf_readdir :: "nat \<Rightarrow> 'w \<Rightarrow> (LibCode + (string \<times> SftpAttributes) option) \<times> 'w"
  lf_realpath :: "nat \<Rightarrow> string \<Rightarrow> 'w \<Rightarrow> (LibCode + string) \<times> 'w"
  lf_mkdir :: "nat \<Rightarrow> string \<Rightarrow> 'w \<Rightarrow> LibCode \<times> 'w"
  lf_rename :: "nat \<Rightarrow> string \<Rightarrow> string \<Rightarrow> bool \<Rightarrow> 'w \<Rightarrow> LibCode \<times> 'w"
  lf_unlink :: "nat \<Rightarrow> string \<Rightarrow> 'w \<Rightarrow> LibCode \<times> 'w"
  lf_rmdir :: "nat \<Rightarrow> string \<Rightarrow> 'w \<Rightarrow> LibCode \<times> 'w"
  lf_read :: "nat \<Rightarrow> nat \<Rightarrow> 'w \<Rightarrow> (LibCode + byte list) \<times> 'w"
  lf_write :: "nat \<Rightarrow> byte list \<Rightarrow> 'w \<Rightarrow> (LibCode + nat) \<times> 'w"
  lf_seek :: "nat \<Rightarrow> u64 \<Rightarrow> 'w \<Rightarrow> 'w"
  lf_closeHandle :: "nat \<Rightarrow> 'w \<Rightarrow> LibCode \<times> 'w"
  lf_shutdown :: "nat \<Rightarrow> 'w \<Rightarrow> LibCode \<times> 'w"

definition validSftpPath :: "string \<Rightarrow> bool" where
  "validSftpPath path \<longleftrightarrow> path \<noteq> [] \<and> hd path = slash \<and> \<not> containsNull path \<and> length path \<le> maximum_unsigned"

definition entryType :: "'w LibSftp \<Rightarrow> SftpAttributes \<Rightarrow> EntryType" where
  "entryType F attributes = (case at_permissions attributes of None \<Rightarrow> Other | Some p \<Rightarrow> lf_kind F p)"

definition sftp_error :: "'w LibSftp \<Rightarrow> LibCode \<Rightarrow> 'w \<Rightarrow> SshTransportError" where
  "sftp_error F code w = mapSftpError (lib_errno (lf_lib F) w) (Some (lf_lastError F w)) code"

text \<open>A call of the SFTP handle: done on zero, again on \<open>EAGAIN\<close>, otherwise its error.\<close>

definition sftp_step :: "'w LibSftp \<Rightarrow> LibCode \<times> 'w \<Rightarrow> unit LibStep \<times> 'w" where
  "sftp_step F r =
     (case r of (code, w) \<Rightarrow>
        (if code = LibOk then StepDone () else if code = LibEagain then StepAgain else StepError (sftp_error F code w), w))"

definition sftp_handle_step :: "'w LibSftp \<Rightarrow> nat option \<times> 'w \<Rightarrow> nat LibStep \<times> 'w" where
  "sftp_handle_step F r =
     (case r of
        (Some h, w) \<Rightarrow> (StepDone h, w)
      | (None, w) \<Rightarrow> (let code = lib_errno (lf_lib F) w
                     in if code = LibEagain then StepAgain else StepError (sftp_error F code w), w))"

definition sftp_init_step :: "'w LibSftp \<Rightarrow> nat option \<times> 'w \<Rightarrow> nat LibStep \<times> 'w" where
  "sftp_init_step F r =
     (case r of
        (Some h, w) \<Rightarrow> (StepDone h, w)
      | (None, w) \<Rightarrow> (let code = lib_errno (lf_lib F) w
                     in if code = LibEagain then StepAgain else StepError (mapSftpError code None code), w))"

definition openSftp :: "'w LibSftp \<Rightarrow> nat \<Rightarrow> int \<Rightarrow> ('w, nat) session_op" where
  "openSftp F transport timeout s w =
     checked (lf_lib F) False
       (\<not> usesTransport (lf_lib F) transport s w \<or> \<not> ls_authenticated s \<or> ls_sftp s \<noteq> None
         \<or> ls_terminalChannel s \<noteq> None \<or> ls_auxiliaryChannel s \<noteq> None) timeout
       (looped (lf_lib F) transport (\<lambda>w. sftp_init_step F (lf_init F w)) (\<lambda>h s. s\<lparr>ls_sftp := Some h\<rparr>)) s w"

definition sftp_busy :: "'w LibSftp \<Rightarrow> nat \<Rightarrow> Libssh2Session \<Rightarrow> 'w \<Rightarrow> bool" where
  "sftp_busy F transport s w \<longleftrightarrow>
     ls_sftp s = None \<or> ls_sftpFile s \<noteq> None \<or> \<not> usesTransport (lf_lib F) transport s w"

section \<open>Listing\<close>

definition closeDirectory :: "'w LibSftp \<Rightarrow> nat \<Rightarrow> nat \<Rightarrow> 'w \<Rightarrow> 'w option" where
  "closeDirectory F transport directory w =
     map_option snd (session_loop ((lf_lib F)\<lparr>tr_wait := lf_wait F\<rparr>) transport
       (\<lambda>w. code_step mapChannelError (lf_closeHandle F directory w)) w)"

definition directory_entry :: "'w LibSftp \<Rightarrow> string \<Rightarrow> string \<Rightarrow> SftpAttributes \<Rightarrow> DirectoryEntry" where
  "directory_entry F name path attributes =
     \<lparr>de_name = name, de_remotePath = path, de_type = entryType F attributes,
      de_size = (case at_filesize attributes of None \<Rightarrow> 0 | Some n \<Rightarrow> n),
      de_modifiedUtcSeconds = at_mtime attributes,
      de_permissions = (case at_permissions attributes of None \<Rightarrow> 0 | Some p \<Rightarrow> p)\<rparr>"

text \<open>The result of the listing once the directory is closed.\<close>

definition closing_with ::
  "'w LibSftp \<Rightarrow> nat \<Rightarrow> nat \<Rightarrow> SshTransportError + 'a \<Rightarrow> 'w \<Rightarrow> ((SshTransportError + 'a) \<times> 'w) option" where
  "closing_with F transport directory r w =
     map_option (\<lambda>w'. (r, w')) (closeDirectory F transport directory w)"

partial_function (option) list_loop ::
  "'w LibSftp \<Rightarrow> nat \<Rightarrow> nat \<Rightarrow> string \<Rightarrow> DirectoryEntry list \<Rightarrow> 'w
    \<Rightarrow> ((SshTransportError + DirectoryEntry list) \<times> 'w) option" where
  "list_loop F transport directory remotePath entries w =
     (case lf_readdir F directory w of
        (Inr (Some (name, attributes)), w') \<Rightarrow>
          if name = ''.'' \<or> name = ''..'' then list_loop F transport directory remotePath entries w'
          else (case joinRemotePath remotePath name of
                  Inl _ \<Rightarrow> closing_with F transport directory (Inl (transport_error TransportProtocolError)) w'
                | Inr path \<Rightarrow>
                    list_loop F transport directory remotePath (entries @ [directory_entry F name path attributes]) w')
      | (Inr None, w') \<Rightarrow> closing_with F transport directory (Inr entries) w'
      | (Inl code, w') \<Rightarrow>
          if code \<noteq> LibEagain then closing_with F transport directory (Inl (sftp_error F code w')) w'
          else (case waitForSessionIo (lf_lib F) transport w' of
                  (Inl e, w'') \<Rightarrow> closing_with F transport directory (Inl e) w''
                | (Inr _, w'') \<Rightarrow> list_loop F transport directory remotePath entries w''))"

definition list_opened :: "'w LibSftp \<Rightarrow> nat \<Rightarrow> string \<Rightarrow> ('w, DirectoryEntry list) session_op" where
  "list_opened F transport remotePath s w =
     map_option (\<lambda>(r, w'). (r, s, w'))
       (andThen (session_loop (lf_lib F) transport
          (\<lambda>w. sftp_handle_step F (lf_open F (the (ls_sftp s)) remotePath SftpOpenDirectory w)))
        (\<lambda>directory. list_loop F transport directory remotePath []) w)"

definition listSftpDirectory :: "'w LibSftp \<Rightarrow> nat \<Rightarrow> string \<Rightarrow> int \<Rightarrow> ('w, DirectoryEntry list) session_op" where
  "listSftpDirectory F transport remotePath timeout s w =
     checked (lf_lib F) (\<not> validSftpPath remotePath) (sftp_busy F transport s w) timeout
       (list_opened F transport remotePath) s w"

section \<open>Names\<close>

definition realpath_step :: "'w LibSftp \<Rightarrow> (LibCode + string) \<times> 'w \<Rightarrow> string LibStep \<times> 'w" where
  "realpath_step F r =
     (case r of
        (Inr resolved, w) \<Rightarrow>
          (case normalizeRemotePath resolved of
             Inl _ \<Rightarrow> StepError (transport_error TransportProtocolError)
           | Inr normalized \<Rightarrow> StepDone normalized, w)
      | (Inl code, w) \<Rightarrow> (if code = LibEagain then StepAgain else StepError (sftp_error F code w), w))"

text \<open>The only operation that does not look at the stop token before it starts.\<close>

definition canonicalizeSftpPath :: "'w LibSftp \<Rightarrow> nat \<Rightarrow> string \<Rightarrow> int \<Rightarrow> ('w, string) session_op" where
  "canonicalizeSftpPath F transport remotePath timeout s w =
     (if remotePath = [] \<or> CHR 0x00 \<in> set remotePath then Some (Inl (transport_error TransportInvalidArgument), s, w)
      else if sftp_busy F transport s w then Some (Inl (transport_error TransportInvalidState), s, w)
      else if timeout \<le> 0 then Some (Inl (transport_error TransportTimedOut), s, w)
      else looped (lf_lib F) transport (\<lambda>w. realpath_step F (lf_realpath F (the (ls_sftp s)) remotePath w)) (\<lambda>_ s. s) s w)"

definition sftp_call ::
  "'w LibSftp \<Rightarrow> nat \<Rightarrow> bool \<Rightarrow> int \<Rightarrow> (nat \<Rightarrow> 'w \<Rightarrow> LibCode \<times> 'w) \<Rightarrow> ('w, unit) session_op" where
  "sftp_call F transport badPath timeout call s w =
     checked (lf_lib F) badPath (sftp_busy F transport s w) timeout
       (looped (lf_lib F) transport (\<lambda>w. sftp_step F (call (the (ls_sftp s)) w)) (\<lambda>_ s. s)) s w"

definition createSftpDirectory :: "'w LibSftp \<Rightarrow> nat \<Rightarrow> string \<Rightarrow> int \<Rightarrow> ('w, unit) session_op" where
  "createSftpDirectory F transport remotePath timeout =
     sftp_call F transport (\<not> validSftpPath remotePath) timeout (\<lambda>sftp. lf_mkdir F sftp remotePath)"

definition renameSftpEntry ::
  "'w LibSftp \<Rightarrow> nat \<Rightarrow> string \<Rightarrow> string \<Rightarrow> SftpRenameDisposition \<Rightarrow> int \<Rightarrow> ('w, unit) session_op" where
  "renameSftpEntry F transport sourcePath destinationPath disposition timeout =
     sftp_call F transport (\<not> validSftpPath sourcePath \<or> \<not> validSftpPath destinationPath) timeout
       (\<lambda>sftp. lf_rename F sftp sourcePath destinationPath (disposition = ReplaceAtomically))"

definition removeSftpFile :: "'w LibSftp \<Rightarrow> nat \<Rightarrow> string \<Rightarrow> int \<Rightarrow> ('w, unit) session_op" where
  "removeSftpFile F transport remotePath timeout =
     sftp_call F transport (\<not> validSftpPath remotePath) timeout (\<lambda>sftp. lf_unlink F sftp remotePath)"

definition removeSftpDirectory :: "'w LibSftp \<Rightarrow> nat \<Rightarrow> string \<Rightarrow> int \<Rightarrow> ('w, unit) session_op" where
  "removeSftpDirectory F transport remotePath timeout =
     sftp_call F transport (\<not> validSftpPath remotePath) timeout (\<lambda>sftp. lf_rmdir F sftp remotePath)"

section \<open>The open file\<close>

definition open_sftp_file :: "'w LibSftp \<Rightarrow> nat \<Rightarrow> string \<Rightarrow> SftpOpen \<Rightarrow> int \<Rightarrow> ('w, nat) session_op" where
  "open_sftp_file F transport remotePath mode timeout s w =
     checked (lf_lib F) (\<not> validSftpPath remotePath) (sftp_busy F transport s w) timeout
       (looped (lf_lib F) transport
          (\<lambda>w. sftp_handle_step F (lf_open F (the (ls_sftp s)) remotePath mode w)) (\<lambda>h s. s\<lparr>ls_sftpFile := Some h\<rparr>)) s w"

definition openSftpFileForRead :: "'w LibSftp \<Rightarrow> nat \<Rightarrow> string \<Rightarrow> int \<Rightarrow> ('w, nat) session_op" where
  "openSftpFileForRead F transport remotePath timeout = open_sftp_file F transport remotePath SftpOpenRead timeout"

text \<open>The flags of a write: exclusive, truncating.\<close>

fun write_mode :: "SftpWriteDisposition \<Rightarrow> SftpOpen" where
  "write_mode CreateNew = SftpOpenWrite True False"
| "write_mode OpenOrCreate = SftpOpenWrite False False"
| "write_mode ReplaceFile = SftpOpenWrite False True"

definition openSftpFileForWrite ::
  "'w LibSftp \<Rightarrow> nat \<Rightarrow> string \<Rightarrow> SftpWriteDisposition \<Rightarrow> int \<Rightarrow> ('w, nat) session_op" where
  "openSftpFileForWrite F transport remotePath disposition timeout =
     open_sftp_file F transport remotePath (write_mode disposition) timeout"

definition file_missing :: "'w LibSftp \<Rightarrow> nat \<Rightarrow> Libssh2Session \<Rightarrow> 'w \<Rightarrow> bool" where
  "file_missing F transport s w \<longleftrightarrow>
     ls_sftp s = None \<or> ls_sftpFile s = None \<or> \<not> usesTransport (lf_lib F) transport s w"

definition file_read_step :: "'w LibSftp \<Rightarrow> (LibCode + byte list) \<times> 'w \<Rightarrow> byte list LibStep \<times> 'w" where
  "file_read_step F r =
     (case r of
        (Inr bytes, w) \<Rightarrow> (StepDone bytes, w)
      | (Inl code, w) \<Rightarrow> (if code = LibEagain then StepAgain else StepError (sftp_error F code w), w))"

definition readSftpFile :: "'w LibSftp \<Rightarrow> nat \<Rightarrow> nat \<Rightarrow> int \<Rightarrow> ('w, byte list) session_op" where
  "readSftpFile F transport capacity timeout s w =
     checked (lf_lib F) (capacity = 0) (file_missing F transport s w) timeout
       (looped (lf_lib F) transport (\<lambda>w. file_read_step F (lf_read F (the (ls_sftpFile s)) capacity w)) (\<lambda>_ s. s)) s w"

definition writeSftpFile :: "'w LibSftp \<Rightarrow> nat \<Rightarrow> byte list \<Rightarrow> int \<Rightarrow> ('w, unit) session_op" where
  "writeSftpFile F transport input timeout s w =
     checked (lf_lib F) (input = []) (file_missing F transport s w) timeout
       (write_all (lf_lib F) transport (lf_write F (the (ls_sftpFile s))) (sftp_error F) input) s w"

definition closeSftpFile :: "'w LibSftp \<Rightarrow> nat \<Rightarrow> int \<Rightarrow> ('w, unit) session_op" where
  "closeSftpFile F transport timeout s w =
     checked (lf_lib F) False (file_missing F transport s w) timeout
       (looped (lf_lib F) transport (\<lambda>w. sftp_step F (lf_closeHandle F (the (ls_sftpFile s)) w))
          (\<lambda>_ s. s\<lparr>ls_sftpFile := None\<rparr>)) s w"

definition seekSftpFile :: "'w LibSftp \<Rightarrow> u64 \<Rightarrow> Libssh2Session \<Rightarrow> 'w \<Rightarrow> (SshTransportError + unit) \<times> 'w" where
  "seekSftpFile F offset s w =
     (case (ls_sftp s, ls_sftpFile s) of
        (Some _, Some handle) \<Rightarrow> (Inr (), lf_seek F handle offset w)
      | _ \<Rightarrow> (Inl (transport_error TransportInvalidState), w))"

definition closeSftp :: "'w LibSftp \<Rightarrow> nat \<Rightarrow> int \<Rightarrow> ('w, unit) session_op" where
  "closeSftp F transport timeout s w =
     checked (lf_lib F) False (sftp_busy F transport s w) timeout
       (looped (lf_lib F) transport (\<lambda>w. sftp_step F (lf_shutdown F (the (ls_sftp s)) w)) (\<lambda>_ s. s\<lparr>ls_sftp := None\<rparr>)) s w"

end
