(* ===== verification/Ssh_Session_Inv.thy ===== *)
theory Ssh_Session_Inv
  imports Ssh_Sftp
begin

text \<open>
  What the operations of the SSH session keep: nothing is open that was not authenticated, SFTP and the
  terminal exclude each other, the ids of forwarding resources are unique and never used again, the auxiliary
  command's channel and phase fit together.  And what reaches the peer: the bytes written, in their order.
\<close>

section \<open>An invariant of the session\<close>

definition resource_ids :: "Libssh2Session \<Rightarrow> u64 list" where
  "resource_ids s = map fst (ls_forwardingChannels s) @ map fst (ls_remoteForwardListeners s)"

definition resources_ok :: "Libssh2Session \<Rightarrow> bool" where
  "resources_ok s \<longleftrightarrow> distinct (resource_ids s) \<and> 0 \<notin> set (resource_ids s)
     \<and> (ls_nextForwardingResourceId s \<noteq> 0 \<longrightarrow> (\<forall>i \<in> set (resource_ids s). i < ls_nextForwardingResourceId s))"

definition opened :: "Libssh2Session \<Rightarrow> bool" where
  "opened s \<longleftrightarrow> ls_terminalChannel s \<noteq> None \<or> ls_directTcpipChannel s \<noteq> None \<or> ls_auxiliaryPhase s \<noteq> AuxIdle
     \<or> ls_sftp s \<noteq> None \<or> resource_ids s \<noteq> []"

definition trust_ok :: "Libssh2Session \<Rightarrow> bool" where
  "trust_ok s \<longleftrightarrow> (ls_handshakeComplete s \<longrightarrow> ls_transport s \<noteq> None) \<and> (ls_hostKeyVerified s \<longrightarrow> ls_handshakeComplete s)
     \<and> (ls_authenticated s \<longrightarrow> ls_handshakeComplete s) \<and> (opened s \<longrightarrow> ls_authenticated s)"

definition channels_ok :: "Libssh2Session \<Rightarrow> bool" where
  "channels_ok s \<longleftrightarrow> (ls_sftpFile s \<noteq> None \<longrightarrow> ls_sftp s \<noteq> None) \<and> (ls_sftp s = None \<or> ls_terminalChannel s = None)
     \<and> (ls_auxiliaryChannel s = None) = (ls_auxiliaryPhase s \<in> {AuxIdle, AuxOpening})
     \<and> (ls_auxiliaryPhase s = AuxIdle \<longrightarrow> ls_auxiliaryCommand s = [])
     \<and> (ls_auxiliaryExitStatus s \<noteq> 0 \<longrightarrow> ls_auxiliaryPhase s = AuxFreeing)"

definition session_inv :: "Libssh2Session \<Rightarrow> bool" where
  "session_inv s \<longleftrightarrow> trust_ok s \<and> channels_ok s \<and> resources_ok s"

lemmas session_inv_defs = session_inv_def trust_ok_def channels_ok_def resources_ok_def opened_def resource_ids_def

text \<open>The operations that change the session; \<open>Env\<close> is anything that happens elsewhere.\<close>

inductive session_step ::
  "'w LibChannels \<Rightarrow> 'w LibSftp \<Rightarrow> Libssh2Session \<times> 'w \<Rightarrow> Libssh2Session \<times> 'w \<Rightarrow> bool" for C F where
  Env: "session_step C F (s, w) (s, w')"
| Handshake: "ssh_handshake (lc_lib C) t timeout s w = Some (r, s', w') \<Longrightarrow> session_step C F (s, w) (s', w')"
| Verify: "verifyHostKey (lc_lib C) ep hosts s = (trust, s') \<Longrightarrow> session_step C F (s, w) (s', w)"
| Password: "authenticateWithPassword (lc_lib C) t u p timeout s w = Some (r, s', w') \<Longrightarrow> session_step C F (s, w) (s', w')"
| PrivateKey: "authenticateWithPrivateKeyFile (lc_lib C) t u k k' p timeout s w = Some (r, s', w')
    \<Longrightarrow> session_step C F (s, w) (s', w')"
| Agent: "authenticateWithAgent (lc_lib C) t u timeout s w = Some (r, s', w') \<Longrightarrow> session_step C F (s, w) (s', w')"
| OpenDirect: "openDirectTcpip (lc_lib C) t h port timeout s w = Some (d, s', w') \<Longrightarrow> session_step C F (s, w) (s', w')"
| CloseDirect: "closeDirectTcpip (lc_lib C) t timeout s w = Some (r, s', w') \<Longrightarrow> session_step C F (s, w) (s', w')"
| OpenForwarding: "openForwardingChannel C t h port oh op timeout s w = Some (i, s', w') \<Longrightarrow> session_step C F (s, w) (s', w')"
| CloseForwarding: "closeForwardingChannel C t fid timeout s w = Some (r, s', w') \<Longrightarrow> session_step C F (s, w) (s', w')"
| OpenListener: "openRemoteForwardListener C t h port q timeout s w = Some (l, s', w') \<Longrightarrow> session_step C F (s, w) (s', w')"
| Accept: "acceptRemoteForwardingChannel C fid bp s w = (a, s', w') \<Longrightarrow> session_step C F (s, w) (s', w')"
| CloseListener: "closeRemoteForwardListener C t fid timeout s w = Some (r, s', w') \<Longrightarrow> session_step C F (s, w) (s', w')"
| OpenTerminal: "openTerminal C t cols rows ty env timeout s w = Some (r, s', w') \<Longrightarrow> session_step C F (s, w) (s', w')"
| CloseTerminal: "closeTerminal C t timeout s w = Some (r, s', w') \<Longrightarrow> session_step C F (s, w) (s', w')"
| OpenSftp: "openSftp F t timeout s w = Some (h, s', w') \<Longrightarrow> session_step C F (s, w) (s', w')"
| OpenFile: "open_sftp_file F t path mode timeout s w = Some (h, s', w') \<Longrightarrow> session_step C F (s, w) (s', w')"
| CloseFile: "closeSftpFile F t timeout s w = Some (r, s', w') \<Longrightarrow> session_step C F (s, w) (s', w')"
| CloseSftp: "closeSftp F t timeout s w = Some (r, s', w') \<Longrightarrow> session_step C F (s, w) (s', w')"
| StartAux: "startAuxiliaryCommand cmd s = (r, s') \<Longrightarrow> session_step C F (s, w) (s', w)"
| PollAux: "pollAuxiliaryCommand C cap s w = (p, s', w') \<Longrightarrow> session_step C F (s, w) (s', w')"
| CancelAux: "session_step C F (s, w) (cancelAuxiliaryCommand s, w)"

lemma next_id: "(x :: u64) + 1 \<noteq> 0 \<Longrightarrow> x < x + 1"
  using unatSuc [of x] by (simp add: word_less_nat_alt add.commute)

text \<open>Every change that the operations make to the session keeps the invariant.\<close>

lemma inv_handshake: "session_inv s \<Longrightarrow> ls_transport s = None \<Longrightarrow> session_inv (s\<lparr>ls_transport := Some t, ls_handshakeComplete := c\<rparr>)"
  by (auto simp: session_inv_defs)

lemma inv_verified: "session_inv s \<Longrightarrow> ls_handshakeComplete s \<Longrightarrow> session_inv (s\<lparr>ls_hostKeyVerified := v\<rparr>)"
  by (auto simp: session_inv_defs)

lemma inv_authenticated: "session_inv s \<Longrightarrow> ls_handshakeComplete s \<Longrightarrow> session_inv (s\<lparr>ls_authenticated := True\<rparr>)"
  by (auto simp: session_inv_defs)

lemma inv_direct: "session_inv s \<Longrightarrow> ls_authenticated s \<Longrightarrow> session_inv (s\<lparr>ls_directTcpipChannel := d\<rparr>)"
  by (auto simp: session_inv_defs)

lemma fresh_id:
  assumes "distinct ids \<and> 0 \<notin> set ids" and "n \<noteq> 0 \<longrightarrow> (\<forall>i \<in> set ids. i < n)" and "n \<noteq> (0 :: u64)"
  shows "n \<notin> set ids \<and> (n + 1 \<noteq> 0 \<longrightarrow> (\<forall>i \<in> insert n (set ids). i < n + 1))"
  using assms next_id [of n] by (auto intro: less_trans)

lemma inv_add_channel:
  assumes "session_inv s" "ls_authenticated s" "ls_nextForwardingResourceId s \<noteq> 0"
  shows "session_inv (add_channel c s)"
proof -
  have "trust_ok (add_channel c s)" "channels_ok (add_channel c s)"
    using assms(1,2) by (simp_all add: session_inv_def trust_ok_def channels_ok_def add_channel_def opened_def resource_ids_def)
  moreover have "resources_ok (add_channel c s)"
    using fresh_id [of "resource_ids s" "ls_nextForwardingResourceId s"] assms
    by (auto simp: session_inv_def resources_ok_def add_channel_def resource_ids_def)
  ultimately show ?thesis by (simp add: session_inv_def)
qed

lemma inv_add_listener:
  assumes "session_inv s" "ls_authenticated s" "ls_nextForwardingResourceId s \<noteq> 0"
  shows "session_inv (add_listener c s)"
proof -
  have "trust_ok (add_listener c s)" "channels_ok (add_listener c s)"
    using assms(1,2) by (simp_all add: session_inv_def trust_ok_def channels_ok_def add_listener_def opened_def resource_ids_def)
  moreover have "resources_ok (add_listener c s)"
    using fresh_id [of "resource_ids s" "ls_nextForwardingResourceId s"] assms
    by (auto simp: session_inv_def resources_ok_def add_listener_def resource_ids_def)
  ultimately show ?thesis by (simp add: session_inv_def)
qed

lemma map_erase: "distinct (map fst xs @ ys) \<Longrightarrow> distinct (map fst (erase_first P xs) @ ys)"
proof (induction xs)
  case (Cons x xs)
  have "fst ` set (erase_first P xs) \<subseteq> fst ` set xs" by (rule image_mono [OF set_erase_first])
  then show ?case using Cons by auto
qed simp

lemma inv_fewer:
  assumes "session_inv s" and less: "distinct (resource_ids s')" "set (resource_ids s') \<subseteq> set (resource_ids s)"
    and same: "Libssh2Session.truncate s' = (Libssh2Session.truncate s)
      \<lparr>ls_forwardingChannels := ls_forwardingChannels s', ls_remoteForwardListeners := ls_remoteForwardListeners s'\<rparr>"
  shows "session_inv s'"
proof -
  have eq: "ls_transport s' = ls_transport s" "ls_terminalChannel s' = ls_terminalChannel s"
    "ls_directTcpipChannel s' = ls_directTcpipChannel s" "ls_auxiliaryChannel s' = ls_auxiliaryChannel s"
    "ls_sftp s' = ls_sftp s" "ls_sftpFile s' = ls_sftpFile s" "ls_auxiliaryCommand s' = ls_auxiliaryCommand s"
    "ls_auxiliaryPhase s' = ls_auxiliaryPhase s" "ls_auxiliaryExitStatus s' = ls_auxiliaryExitStatus s"
    "ls_nextForwardingResourceId s' = ls_nextForwardingResourceId s" "ls_handshakeComplete s' = ls_handshakeComplete s"
    "ls_hostKeyVerified s' = ls_hostKeyVerified s" "ls_authenticated s' = ls_authenticated s"
    using same by (simp_all add: Libssh2Session.truncate_def)
  have "resource_ids s' \<noteq> [] \<Longrightarrow> resource_ids s \<noteq> []" using less(2) by auto
  then have "opened s' \<Longrightarrow> opened s" by (simp add: opened_def eq) blast
  then have "trust_ok s'" using assms(1) by (simp add: session_inv_def trust_ok_def eq)
  moreover have "channels_ok s'" using assms(1) by (simp add: session_inv_def channels_ok_def eq)
  moreover have "resources_ok s'" using assms(1) less by (simp add: session_inv_def resources_ok_def eq) blast
  ultimately show ?thesis by (simp add: session_inv_def)
qed

lemma ids_distinct: "session_inv s \<Longrightarrow> distinct (resource_ids s)"
  by (simp add: session_inv_def resources_ok_def)

lemma inv_erase_channel:
  assumes "session_inv s" shows "session_inv (erase_channel i s)"
proof (rule inv_fewer [OF assms])
  let ?P = "\<lambda>e. fst e = i"
  have sub: "fst ` set (erase_first ?P (ls_forwardingChannels s)) \<subseteq> fst ` set (ls_forwardingChannels s)"
    by (rule image_mono [OF set_erase_first])
  show "set (resource_ids (erase_channel i s)) \<subseteq> set (resource_ids s)"
    using sub by (simp add: resource_ids_def erase_channel_def) blast
  have "distinct (map fst (ls_forwardingChannels s) @ map fst (ls_remoteForwardListeners s))" using ids_distinct [OF assms] by (simp add: resource_ids_def Int_commute)
  from map_erase [OF this, of ?P] show "distinct (resource_ids (erase_channel i s))"
    by (simp add: resource_ids_def erase_channel_def Int_commute)
qed (simp add: erase_channel_def Libssh2Session.truncate_def)

lemma inv_erase_listener:
  assumes "session_inv s" shows "session_inv (erase_listener i s)"
proof (rule inv_fewer [OF assms])
  let ?P = "\<lambda>e. fst e = i"
  have sub: "fst ` set (erase_first ?P (ls_remoteForwardListeners s)) \<subseteq> fst ` set (ls_remoteForwardListeners s)"
    by (rule image_mono [OF set_erase_first])
  show "set (resource_ids (erase_listener i s)) \<subseteq> set (resource_ids s)"
    using sub by (simp add: resource_ids_def erase_listener_def) blast
  have "distinct (map fst (ls_remoteForwardListeners s) @ map fst (ls_forwardingChannels s))" using ids_distinct [OF assms] by (simp add: resource_ids_def Int_commute)
  from map_erase [OF this, of ?P] show "distinct (resource_ids (erase_listener i s))"
    by (simp add: resource_ids_def erase_listener_def Int_commute)
qed (simp add: erase_listener_def Libssh2Session.truncate_def)

lemma resource_ids_frame [simp]:
  "resource_ids (s\<lparr>ls_terminalChannel := c\<rparr>) = resource_ids s" "resource_ids (s\<lparr>ls_sftp := c\<rparr>) = resource_ids s"
  "resource_ids (s\<lparr>ls_sftpFile := c\<rparr>) = resource_ids s" "resource_ids (s\<lparr>ls_auxiliaryChannel := c\<rparr>) = resource_ids s"
  "resource_ids (s\<lparr>ls_auxiliaryPhase := p\<rparr>) = resource_ids s" "resource_ids (s\<lparr>ls_auxiliaryCommand := cmd\<rparr>) = resource_ids s"
  "resource_ids (s\<lparr>ls_auxiliaryExitStatus := e\<rparr>) = resource_ids s"
  by (simp_all add: resource_ids_def)

lemma inv_terminal:
  assumes "session_inv s" "ls_authenticated s" "ls_sftp s = None \<or> c = None"
  shows "session_inv (s\<lparr>ls_terminalChannel := c\<rparr>)"
proof -
  have "trust_ok (s\<lparr>ls_terminalChannel := c\<rparr>)" using assms(1,2) by (simp add: session_inv_def trust_ok_def)
  moreover have "channels_ok (s\<lparr>ls_terminalChannel := c\<rparr>)" using assms(1,3) by (auto simp: session_inv_def channels_ok_def)
  moreover have "resources_ok (s\<lparr>ls_terminalChannel := c\<rparr>)" using assms(1) by (simp add: session_inv_def resources_ok_def)
  ultimately show ?thesis by (simp add: session_inv_def)
qed

lemma inv_sftp:
  assumes "session_inv s" "ls_authenticated s" "ls_terminalChannel s = None \<or> h = None" "ls_sftpFile s = None"
  shows "session_inv (s\<lparr>ls_sftp := h\<rparr>)"
proof -
  have "trust_ok (s\<lparr>ls_sftp := h\<rparr>)" using assms(1,2) by (simp add: session_inv_def trust_ok_def)
  moreover have "channels_ok (s\<lparr>ls_sftp := h\<rparr>)" using assms(1,3,4) by (auto simp: session_inv_def channels_ok_def)
  moreover have "resources_ok (s\<lparr>ls_sftp := h\<rparr>)" using assms(1) by (simp add: session_inv_def resources_ok_def)
  ultimately show ?thesis by (simp add: session_inv_def)
qed

lemma inv_file:
  assumes "session_inv s" "ls_sftp s \<noteq> None" shows "session_inv (s\<lparr>ls_sftpFile := h\<rparr>)"
proof -
  have "trust_ok (s\<lparr>ls_sftpFile := h\<rparr>)" using assms(1) by (simp add: session_inv_def trust_ok_def opened_def)
  moreover have "channels_ok (s\<lparr>ls_sftpFile := h\<rparr>)" using assms by (auto simp: session_inv_def channels_ok_def)
  moreover have "resources_ok (s\<lparr>ls_sftpFile := h\<rparr>)" using assms(1) by (simp add: session_inv_def resources_ok_def)
  ultimately show ?thesis by (simp add: session_inv_def)
qed

lemma inv_aux:
  assumes "session_inv s" "ls_authenticated s"
    and "(c = None) = (p \<in> {AuxIdle, AuxOpening})" "p = AuxIdle \<longrightarrow> cmd = []" "e \<noteq> 0 \<longrightarrow> p = AuxFreeing"
  shows "session_inv (s\<lparr>ls_auxiliaryChannel := c, ls_auxiliaryCommand := cmd, ls_auxiliaryPhase := p, ls_auxiliaryExitStatus := e\<rparr>)"
    (is "session_inv ?s")
proof -
  have "trust_ok ?s" using assms(1,2) by (simp add: session_inv_def trust_ok_def)
  moreover have "channels_ok ?s" using assms(1,3-5) by (simp add: session_inv_def channels_ok_def)
  moreover have "resources_ok ?s" using assms(1) by (simp add: session_inv_def resources_ok_def)
  ultimately show ?thesis by (simp add: session_inv_def)
qed

text \<open>Between two states that differ only in the auxiliary command.\<close>

definition aux_copy :: "Libssh2Session \<Rightarrow> Libssh2Session \<Rightarrow> Libssh2Session" where
  "aux_copy s s' = s\<lparr>ls_auxiliaryChannel := ls_auxiliaryChannel s', ls_auxiliaryCommand := ls_auxiliaryCommand s',
      ls_auxiliaryPhase := ls_auxiliaryPhase s', ls_auxiliaryExitStatus := ls_auxiliaryExitStatus s'\<rparr>"

definition aux_changed :: "Libssh2Session \<Rightarrow> Libssh2Session \<Rightarrow> bool" where
  "aux_changed s s' \<longleftrightarrow> aux_copy s s' = s'
    \<and> (ls_auxiliaryChannel s' = None) = (ls_auxiliaryPhase s' \<in> {AuxIdle, AuxOpening})
    \<and> (ls_auxiliaryPhase s' = AuxIdle \<longrightarrow> ls_auxiliaryCommand s' = [])
    \<and> (ls_auxiliaryExitStatus s' \<noteq> 0 \<longrightarrow> ls_auxiliaryPhase s' = AuxFreeing)"

lemma inv_aux_changed: "session_inv s \<Longrightarrow> ls_authenticated s \<Longrightarrow> aux_changed s s' \<Longrightarrow> session_inv s'"
  using inv_aux [of s "ls_auxiliaryChannel s'" "ls_auxiliaryPhase s'" "ls_auxiliaryCommand s'" "ls_auxiliaryExitStatus s'"]
  by (simp add: aux_changed_def aux_copy_def)

lemma aux_copy_trans: "aux_copy s s1 = s1 \<Longrightarrow> aux_copy s1 s2 = s2 \<Longrightarrow> aux_copy s s2 = s2"
proof -
  assume 1: "aux_copy s s1 = s1" and 2: "aux_copy s1 s2 = s2"
  have "aux_copy s s2 = aux_copy (aux_copy s s1) s2" by (simp add: aux_copy_def)
  then show ?thesis by (simp add: 1 2)
qed

lemma aux_changed_trans: "aux_changed s s1 \<Longrightarrow> aux_changed s1 s2 \<Longrightarrow> aux_changed s s2"
  unfolding aux_changed_def using aux_copy_trans [of s s1 s2] by metis

lemma aux_free_changed:
  "aux_free C ch s w = (r, s', w') \<Longrightarrow> ls_auxiliaryChannel s = Some ch \<Longrightarrow> ls_auxiliaryPhase s = AuxFreeing \<Longrightarrow> aux_changed s s'"
  by (auto simp: aux_free_def aux_changed_def aux_copy_def split: prod.splits if_splits)

lemma aux_closing_changed:
  assumes "aux_closing C ch s w = (r, s', w')" "ls_auxiliaryChannel s = Some ch" "ls_auxiliaryPhase s \<in> {AuxClosing, AuxFreeing}"
    and "ls_auxiliaryExitStatus s \<noteq> 0 \<longrightarrow> ls_auxiliaryPhase s = AuxFreeing"
  shows "aux_changed s s'"
proof (cases "ls_auxiliaryPhase s = AuxClosing")
  case False
  then show ?thesis using assms aux_free_changed [of C ch s w] by (simp add: aux_closing_def)
next
  case True
  obtain code w1 where close: "lib_channel_close (lc_lib C) ch w = (code, w1)" by fastforce
  let ?s1 = "s\<lparr>ls_auxiliaryExitStatus := lc_exit_status C ch w1, ls_auxiliaryPhase := AuxFreeing\<rparr>"
  have s1: "aux_changed s ?s1" using assms(2) by (simp add: aux_changed_def aux_copy_def)
  have s0: "aux_changed s s" using assms(2,4) True by (simp add: aux_changed_def aux_copy_def)
  consider "s' = s" | "s' = ?s1" | "aux_free C ch ?s1 w1 = (r, s', w')"
    using assms(1) True close by (auto simp: aux_closing_def Let_def split: if_splits)
  then show ?thesis
  proof cases
    case 3
    from aux_free_changed [OF this] assms(2) have "aux_changed ?s1 s'" by simp
    then show ?thesis by (rule aux_changed_trans [OF s1])
  qed (use s0 s1 in simp_all)
qed

lemma aux_to_closing_changed:
  assumes "ls_auxiliaryChannel s = Some ch" "ls_auxiliaryExitStatus s = 0" shows "aux_changed s (aux_to_closing s)"
  using assms by (simp add: aux_changed_def aux_copy_def aux_to_closing_def)

lemma aux_refl:
  assumes "ls_auxiliaryChannel s = Some ch" "ls_auxiliaryPhase s \<notin> {AuxIdle, AuxOpening}"
    "ls_auxiliaryExitStatus s \<noteq> 0 \<longrightarrow> ls_auxiliaryPhase s = AuxFreeing"
  shows "aux_changed s s"
  using assms by (simp add: aux_changed_def aux_copy_def)

lemma aux_drain_changed:
  assumes "aux_drain C ch s w = (r, s', w')" "ls_auxiliaryChannel s = Some ch" "ls_auxiliaryPhase s = AuxReading"
    "ls_auxiliaryExitStatus s = 0"
  shows "aux_changed s s'"
proof -
  note closing = aux_to_closing_changed [OF assms(2,4)]
  have s0: "aux_changed s s" by (rule aux_refl) (use assms in simp_all)
  consider "s' = s" | "s' = aux_to_closing s" | w1 where "aux_closing C ch (aux_to_closing s) w1 = (r, s', w')"
    using assms(1) by (auto simp: aux_drain_def split: prod.splits sum.splits if_splits)
  then show ?thesis
  proof cases
    case 3
    from aux_closing_changed [OF this] assms have "aux_changed (aux_to_closing s) s'" by (simp add: aux_to_closing_def)
    then show ?thesis by (rule aux_changed_trans [OF closing])
  qed (use s0 closing in simp_all)
qed

lemma aux_reading_changed:
  assumes "aux_reading C ch cap s w = (r, s', w')" "ls_auxiliaryChannel s = Some ch"
    "ls_auxiliaryPhase s \<in> {AuxReading, AuxClosing, AuxFreeing}"
    "ls_auxiliaryExitStatus s \<noteq> 0 \<longrightarrow> ls_auxiliaryPhase s = AuxFreeing"
  shows "aux_changed s s'"
proof (cases "ls_auxiliaryPhase s = AuxReading")
  case False
  then show ?thesis using assms aux_closing_changed [of C ch s w] by (simp add: aux_reading_def)
next
  case True
  then have e: "ls_auxiliaryExitStatus s = 0" using assms(4) by auto
  note closing = aux_to_closing_changed [OF assms(2) e]
  have s0: "aux_changed s s" by (rule aux_refl [OF assms(2) _ assms(4)]) (simp add: True)
  consider "s' = s" | "s' = aux_to_closing s" | w1 where "aux_drain C ch s w1 = (r, s', w')"
    using assms(1) True by (auto simp: aux_reading_def split: prod.splits sum.splits if_splits)
  then show ?thesis
    by cases (use s0 closing aux_drain_changed [OF _ assms(2) True e] in auto)
qed

lemma aux_requesting_changed:
  assumes "aux_requesting C ch cap s w = (r, s', w')" "ls_auxiliaryChannel s = Some ch"
    "ls_auxiliaryPhase s \<notin> {AuxIdle, AuxOpening}"
    "ls_auxiliaryExitStatus s \<noteq> 0 \<longrightarrow> ls_auxiliaryPhase s = AuxFreeing"
  shows "aux_changed s s'"
proof (cases "ls_auxiliaryPhase s = AuxRequesting")
  case False
  then have "ls_auxiliaryPhase s \<in> {AuxReading, AuxClosing, AuxFreeing}"
    using assms(3) by (cases "ls_auxiliaryPhase s") auto
  then show ?thesis using assms False aux_reading_changed [of C ch cap s w] by (simp add: aux_requesting_def)
next
  case True
  then have e: "ls_auxiliaryExitStatus s = 0" using assms(4) by auto
  let ?s1 = "s\<lparr>ls_auxiliaryCommand := [], ls_auxiliaryPhase := AuxReading\<rparr>"
  have s1: "aux_changed s ?s1" using assms(2) e by (simp add: aux_changed_def aux_copy_def)
  have s0: "aux_changed s s" by (rule aux_refl [OF assms(2) _ assms(4)]) (simp add: True)
  consider "s' = s" | "s' = aux_to_closing s" | w1 where "aux_reading C ch cap ?s1 w1 = (r, s', w')"
    using assms(1) True by (auto simp: aux_requesting_def split: prod.splits if_splits)
  then show ?thesis
  proof cases
    case 3
    from aux_reading_changed [OF this] assms(2) e have "aux_changed ?s1 s'" by simp
    then show ?thesis by (rule aux_changed_trans [OF s1])
  qed (use s0 aux_to_closing_changed [OF assms(2) e] in simp_all)
qed

lemma poll_changed:
  assumes "pollAuxiliaryCommand C cap s w = (r, s', w')" "session_inv s"
  shows "s' = s \<or> (ls_authenticated s \<and> aux_changed s s')"
proof (cases "cap = 0 \<or> ls_auxiliaryPhase s = AuxIdle")
  case True
  then show ?thesis using assms(1) by (auto simp: pollAuxiliaryCommand_def split: if_splits)
next
  case False
  have ok: "channels_ok s" and auth: "ls_authenticated s"
    using assms(2) False by (auto simp: session_inv_def trust_ok_def opened_def)
  show ?thesis
  proof (cases "ls_auxiliaryPhase s = AuxOpening")
    case True
    then have none: "ls_auxiliaryChannel s = None" and e: "ls_auxiliaryExitStatus s = 0" using ok by (auto simp: channels_ok_def)
    obtain h w1 where h: "lc_open_session C w = (h, w1)" by fastforce
    show ?thesis
    proof (cases h)
      case None
      have "aux_changed s (s\<lparr>ls_auxiliaryCommand := [], ls_auxiliaryPhase := AuxIdle\<rparr>)"
        using none e by (simp add: aux_changed_def aux_copy_def)
      then show ?thesis using assms(1) False True h None auth by (auto simp: pollAuxiliaryCommand_def Let_def split: if_splits)
    next
      case (Some ch)
      let ?s1 = "s\<lparr>ls_auxiliaryChannel := Some ch, ls_auxiliaryPhase := AuxRequesting\<rparr>"
      have s1: "aux_changed s ?s1" using e by (simp add: aux_changed_def aux_copy_def)
      have "aux_requesting C ch cap ?s1 w1 = (r, s', w')"
        using assms(1) False True h Some by (simp add: pollAuxiliaryCommand_def aux_with_channel_def)
      from aux_requesting_changed [OF this] e have "aux_changed ?s1 s'" by simp
      then show ?thesis using auth aux_changed_trans [OF s1] by blast
    qed
  next
    case no: False
    then obtain ch where ch: "ls_auxiliaryChannel s = Some ch" using ok False by (auto simp: channels_ok_def)
    have "aux_requesting C ch cap s w = (r, s', w')"
      using assms(1) False no ch by (simp add: pollAuxiliaryCommand_def aux_with_channel_def)
    from aux_requesting_changed [OF this ch] ok False no auth show ?thesis by (auto simp: channels_ok_def)
  qed
qed

end
