(* ===== verification/Ssh_Session_Safety.thy ===== *)
theory Ssh_Session_Safety
  imports Ssh_Session_Inv
begin

lemma inv_start:
  assumes "startAuxiliaryCommand cmd s = (r, s')" "session_inv s" shows "session_inv s'"
proof -
  have "s' = s \<or> (ls_authenticated s \<and> aux_changed s s')"
    using assms(1) by (auto simp: startAuxiliaryCommand_def aux_changed_def aux_copy_def split: if_splits)
  then show ?thesis using assms(2) inv_aux_changed by blast
qed

lemma inv_cancel:
  assumes inv: "session_inv s" shows "session_inv (cancelAuxiliaryCommand s)"
proof (cases "ls_auxiliaryPhase s \<in> {AuxOpening, AuxRequesting, AuxReading}")
  case False
  then show ?thesis using inv by (simp add: cancelAuxiliaryCommand_def)
next
  case True
  then have auth: "ls_authenticated s" and e: "ls_auxiliaryExitStatus s = 0"
    using inv by (auto simp: session_inv_def trust_ok_def opened_def channels_ok_def)
  have c: "(ls_auxiliaryChannel s = None) = (ls_auxiliaryPhase s \<in> {AuxIdle, AuxOpening})"
    using inv by (simp add: session_inv_def channels_ok_def)
  have "aux_changed s (cancelAuxiliaryCommand s)"
    using True c e by (cases "ls_auxiliaryPhase s") (simp_all add: cancelAuxiliaryCommand_def aux_changed_def aux_copy_def)
  then show ?thesis using inv_aux_changed [OF inv auth] by blast
qed

lemma close_then_free_result:
  "close_then_free L t ch clear s w = Some (r, s', w') \<Longrightarrow> s' = s \<or> s' = clear s"
  by (auto simp: close_then_free_def split: option.splits prod.splits sum.splits if_splits)

lemma checked_resource_result:
  "checked_resource L bad state timeout body s w = Some (r, s', w') \<Longrightarrow>
    s' = s \<or> (\<not> bad \<and> \<not> state \<and> ls_nextForwardingResourceId s \<noteq> 0 \<and> body s w = Some (r, s', w'))"
  by (auto simp: checked_resource_def dest!: checked_result split: if_splits)

lemma inv_direct_use: "session_inv s \<Longrightarrow> ls_directTcpipChannel s \<noteq> None \<Longrightarrow> ls_authenticated s"
  "session_inv s \<Longrightarrow> ls_terminalChannel s \<noteq> None \<Longrightarrow> ls_authenticated s"
  "session_inv s \<Longrightarrow> ls_sftp s \<noteq> None \<Longrightarrow> ls_authenticated s"
  "session_inv s \<Longrightarrow> ls_remoteForwardListeners s \<noteq> [] \<Longrightarrow> ls_authenticated s"
  by (simp_all add: session_inv_def trust_ok_def opened_def resource_ids_def)

lemma inv_transport: "session_inv s \<Longrightarrow> ls_transport s = None \<Longrightarrow> session_inv (s\<lparr>ls_transport := Some t\<rparr>)"
  by (auto simp: session_inv_defs)

lemma step_handshake:
  assumes "ssh_handshake L t timeout s w = Some (r, s', w')" "session_inv s" shows "session_inv s'"
proof -
  have "s' = s \<or> (ls_transport s = None
      \<and> (s' = s\<lparr>ls_transport := Some t\<rparr> \<or> s' = s\<lparr>ls_transport := Some t, ls_handshakeComplete := True\<rparr>))"
    using assms(1) by (auto simp: ssh_handshake_def dest!: checked_result looped_result split: sum.splits)
  then show ?thesis using assms(2) inv_handshake inv_transport by blast
qed

lemma step_verify: "verifyHostKey L ep hosts s = (trust, s') \<Longrightarrow> session_inv s \<Longrightarrow> session_inv s'"
  by (auto simp: verifyHostKey_def ssh_hostKey_def Let_def intro!: inv_verified split: sum.splits option.splits if_splits)

lemma step_authenticate:
  assumes "authenticateWithPassword L transport u p timeout s w = Some (r, s', w')
      \<or> authenticateWithPrivateKeyFile L transport u k k' p timeout s w = Some (r, s', w')
      \<or> authenticateWithAgent L transport u timeout s w = Some (r, s', w')"
    and "session_inv s"
  shows "session_inv s'"
  using authentication_result [OF assms(1)] inv_authenticated [OF assms(2)] assms(2) by (auto simp: auth_refused_def)

lemma step_direct:
  assumes "openDirectTcpip L t h port timeout s w = Some (d, s', w') \<or> closeDirectTcpip L t timeout s w = Some (r, s', w')"
    and "session_inv s"
  shows "session_inv s'"
proof -
  have "s' = s \<or> (ls_authenticated s \<and> (\<exists>d. s' = s\<lparr>ls_directTcpipChannel := d\<rparr>))"
    using assms(1) inv_direct_use [OF assms(2)]
    by (auto simp: openDirectTcpip_def closeDirectTcpip_def dest!: checked_result looped_result close_then_free_result
      split: sum.splits)
  then show ?thesis using assms(2) inv_direct by blast
qed

lemma step_open_forwarding:
  assumes "openForwardingChannel C t h port oh op timeout s w = Some (i, s', w')" "session_inv s" shows "session_inv s'"
proof -
  have "s' = s \<or> (ls_authenticated s \<and> ls_nextForwardingResourceId s \<noteq> 0 \<and> (\<exists>c. s' = add_channel c s))"
    using assms(1) unfolding openForwardingChannel_def
    by (auto dest!: checked_resource_result split: option.splits prod.splits sum.splits)
  then show ?thesis using assms(2) inv_add_channel by blast
qed

lemma step_open_listener:
  assumes "openRemoteForwardListener C t h port q timeout s w = Some (l, s', w')" "session_inv s" shows "session_inv s'"
proof -
  have "s' = s \<or> (ls_authenticated s \<and> ls_nextForwardingResourceId s \<noteq> 0 \<and> (\<exists>c. s' = add_listener c s))"
    using assms(1) unfolding openRemoteForwardListener_def
    by (auto dest!: checked_resource_result split: option.splits prod.splits sum.splits)
  then show ?thesis using assms(2) inv_add_listener by blast
qed

lemma step_accept:
  assumes "acceptRemoteForwardingChannel C fid bp s w = (a, s', w')" "session_inv s" shows "session_inv s'"
proof -
  have "s' = s \<or> (ls_remoteForwardListeners s \<noteq> [] \<and> ls_nextForwardingResourceId s \<noteq> 0 \<and> (\<exists>c. s' = add_channel c s))"
    using assms(1)
    by (auto simp: acceptRemoteForwardingChannel_def remoteForwardListener_def Let_def split: option.splits prod.splits if_splits)
  then show ?thesis using assms(2) inv_add_channel inv_direct_use(4) by blast
qed

lemma step_close_resources:
  assumes "closeForwardingChannel C t fid timeout s w = Some (r, s', w')
      \<or> closeRemoteForwardListener C t fid timeout s w = Some (r, s', w')"
    and "session_inv s"
  shows "session_inv s'"
proof -
  have "s' = s \<or> s' = erase_channel fid s \<or> s' = erase_listener fid s"
    using assms(1)
    by (auto simp: closeForwardingChannel_def close_forwarding_def closeRemoteForwardListener_def
      dest!: checked_result looped_result split: option.splits prod.splits sum.splits)
  then show ?thesis using assms(2) inv_erase_channel inv_erase_listener by blast
qed

lemma step_terminal:
  assumes "openTerminal C t cols rows ty env timeout s w = Some (r, s', w') \<or> closeTerminal C t timeout s w = Some (r, s', w')"
    and "session_inv s"
  shows "session_inv s'"
proof -
  have "s' = s \<or> (ls_authenticated s \<and> (\<exists>c. (ls_sftp s = None \<or> c = None) \<and> s' = s\<lparr>ls_terminalChannel := c\<rparr>))"
    using assms(1) inv_direct_use [OF assms(2)]
    by (auto simp: openTerminal_def open_terminal_channel_def closeTerminal_def dest!: checked_result close_then_free_result
      split: option.splits prod.splits sum.splits)
  then show ?thesis using assms(2) inv_terminal by blast
qed

lemma step_sftp:
  assumes "openSftp F t timeout s w = Some (h, s', w') \<or> closeSftp F t timeout s w = Some (r, s', w')" and "session_inv s"
  shows "session_inv s'"
proof -
  have none: "ls_sftp s = None \<Longrightarrow> ls_sftpFile s = None" using assms(2) by (auto simp: session_inv_def channels_ok_def)
  have "s' = s \<or> (ls_authenticated s \<and> ls_sftpFile s = None
      \<and> (\<exists>h. (ls_terminalChannel s = None \<or> h = None) \<and> s' = s\<lparr>ls_sftp := h\<rparr>))"
    using assms(1) inv_direct_use [OF assms(2)] none
    by (auto simp: openSftp_def closeSftp_def sftp_busy_def dest!: checked_result looped_result split: sum.splits)
  then show ?thesis using assms(2) inv_sftp by blast
qed

lemma step_file:
  assumes "open_sftp_file F t path mode timeout s w = Some (h, s', w') \<or> closeSftpFile F t timeout s w = Some (r, s', w')"
    and "session_inv s"
  shows "session_inv s'"
proof -
  have "s' = s \<or> (ls_sftp s \<noteq> None \<and> (\<exists>h. s' = s\<lparr>ls_sftpFile := h\<rparr>))"
    using assms(1)
    by (auto simp: open_sftp_file_def closeSftpFile_def sftp_busy_def file_missing_def dest!: checked_result looped_result split: sum.splits)
  then show ?thesis using assms(2) inv_file by blast
qed

lemma step_inv: "session_step C F x y \<Longrightarrow> session_inv (fst x) \<Longrightarrow> session_inv (fst y)"
proof (induction rule: session_step.induct)
  case (PollAux cap s w p s' w')
  then show ?case using poll_changed inv_aux_changed by fastforce
qed (auto intro: step_handshake step_verify step_authenticate step_direct step_open_forwarding step_open_listener step_accept
  step_close_resources step_terminal step_sftp step_file inv_start inv_cancel)

end
