(* ===== verification/Ssh_Session_Io.thy ===== *)
theory Ssh_Session_Io
  imports Ssh_Session_Safety
begin

text \<open>
  What the session's operations do at the other end: the bytes of a write arrive complete and in order, a
  listing shows what the server listed, and an operation returns when the transport lets it wait only so often.

  The peer is described by what can be observed of the state \<open>'w\<close>: \<open>sent\<close> is what a channel or file has taken,
  \<open>rest\<close> is what an open directory has still to list, \<open>left\<close> is how often the transport will still be ready
  before the deadline.
\<close>

section \<open>Writing\<close>

definition sinks ::
  "'w Libssh2 \<Rightarrow> nat \<Rightarrow> (byte list \<Rightarrow> 'w \<Rightarrow> (LibCode + nat) \<times> 'w) \<Rightarrow> ('w \<Rightarrow> byte list) \<Rightarrow> bool" where
  "sinks L transport write sent \<longleftrightarrow>
     (\<forall>bytes w n w'. write bytes w = (Inr n, w') \<longrightarrow> n \<le> length bytes \<and> sent w' = sent w @ take n bytes)
   \<and> (\<forall>bytes w code w'. write bytes w = (Inl code, w') \<longrightarrow> sent w' = sent w)
   \<and> (\<forall>w. sent (snd (waitForSessionIo L transport w)) = sent w)"

definition delivered :: "('w \<Rightarrow> byte list) \<Rightarrow> byte list \<Rightarrow> 'w \<Rightarrow> SshTransportError + unit \<Rightarrow> 'w \<Rightarrow> bool" where
  "delivered sent input w r w' \<longleftrightarrow> (\<exists>p. prefix p input \<and> sent w' = sent w @ p \<and> (isl r \<or> p = input))"

text \<open>A rule for the write loop: what holds of the bytes that are left holds of those left in the end.\<close>

lemma write_loop_rule:
  fixes mapError :: "LibCode \<Rightarrow> 'w \<Rightarrow> SshTransportError"
  assumes run: "write_loop L transport write mapError bytes w = Some (r, w')" and start: "I bytes w"
    and some: "\<And>bytes w n w'. bytes \<noteq> [] \<Longrightarrow> I bytes w \<Longrightarrow> write bytes w = (Inr n, w') \<Longrightarrow> I (drop n bytes) w'"
    and none: "\<And>bytes w code w'. I bytes w \<Longrightarrow> write bytes w = (Inl code, w') \<Longrightarrow> I bytes w'"
    and wait: "\<And>bytes w. I bytes w \<Longrightarrow> I bytes (snd (waitForSessionIo L transport w))"
  shows "\<exists>rest. I rest w' \<and> (isl r \<or> rest = [])"
proof -
  let ?post = "\<lambda>L' t' wr' (m' :: LibCode \<Rightarrow> 'w \<Rightarrow> SshTransportError) bytes w (y :: (SshTransportError + unit) \<times> 'w). L' = L \<longrightarrow> t' = transport \<longrightarrow> wr' = write
    \<longrightarrow> I bytes w \<longrightarrow> (\<exists>rest. I rest (snd y) \<and> (isl (fst y) \<or> rest = []))"
  have "?post L transport write mapError bytes w (r, w')"
  proof (rule write_loop.raw_induct [of ?post, OF _ run])
    fix rec L' t' wr' m' bytes w y
    assume IH: "\<And>L t wr m bytes w y. rec L t wr m bytes w = Some y \<Longrightarrow> ?post L t wr m bytes w y"
    assume step: "(if bytes = [] then Some (Inr (), w)
      else case wr' bytes w of
        (Inr n, w') \<Rightarrow> if n > 0 then rec L' t' wr' m' (drop n bytes) w' else Some (Inl (m' LibOk w'), w')
      | (Inl code, w') \<Rightarrow>
          if code = LibEagain
          then (case waitForSessionIo L' t' w' of
                  (Inl e, w'') \<Rightarrow> Some (Inl e, w'')
                | (Inr _, w'') \<Rightarrow> rec L' t' wr' m' bytes w'')
          else Some (Inl (m' code w'), w')) = Some y"
    show "?post L' t' wr' m' bytes w y"
    proof (intro impI)
      assume eqs: "L' = L" "t' = transport" "wr' = write" and I: "I bytes w"
      note IH' = IH [where L = L and t = transport and wr = "write" and m = m', simplified, rule_format]
      obtain o1 w1 where o1: "write bytes w = (o1, w1)" by fastforce
      obtain o2 w2 where o2: "waitForSessionIo L transport w1 = (o2, w2)" by fastforce
      show "\<exists>rest. I rest (snd y) \<and> (isl (fst y) \<or> rest = [])"
      proof (cases "bytes = []")
        case True
        then show ?thesis using step I by auto
      next
        case False
        show ?thesis
        proof (cases o1)
          case (Inr n)
          have I1: "I (drop n bytes) w1" using some [OF False I] o1 Inr by simp
          show ?thesis
          proof (cases "n > 0")
            case True
            then show ?thesis using step eqs False o1 Inr IH' I1 by simp
          next
            case no: False
            then have "y = (Inl (m' LibOk w1), w1)" using step eqs False o1 Inr by simp
            then show ?thesis using I1 by auto
          qed
        next
          case (Inl code)
          have I1: "I bytes w1" using none [OF I] o1 Inl by simp
          have I2: "I bytes w2" using wait [OF I1] o2 by simp
          have pair: "code = LibEagain \<Longrightarrow>
              (case o2 of Inl e \<Rightarrow> Some (Inl e, w2) | Inr _ \<Rightarrow> rec L' t' wr' m' bytes w2) = Some y"
            using step eqs False o1 o2 Inl by simp
          have "(\<exists>u. code = LibEagain \<and> o2 = Inr u) \<or> y = (Inl (m' code w1), w1) \<or> (\<exists>e. y = (Inl e, w2))"
          proof (cases "code = LibEagain")
            case True
            then show ?thesis using pair by (cases o2) auto
          next
            case other: False
            then show ?thesis using step eqs False o1 Inl by simp
          qed
          then consider u where "code = LibEagain" "o2 = Inr u" | e where "y = (Inl e, w2)" | e where "y = (Inl e, w1)"
            by blast
          then show ?thesis
          proof cases
            case 1
            then show ?thesis using step eqs False o1 o2 Inl IH' I2 by simp
          qed (use I1 I2 in auto)
        qed
      qed
    qed
  qed
  then show ?thesis using start by simp
qed

lemma write_loop_delivers:
  assumes sinks: "sinks L transport write sent"
    and run: "write_loop L transport write mapError bytes w = Some (r, w')"
  shows "delivered sent bytes w r w'"
proof -
  let ?I = "\<lambda>rest v. \<exists>p. bytes = p @ rest \<and> sent v = sent w @ p"
  have "\<exists>rest. ?I rest w' \<and> (isl r \<or> rest = [])"
  proof (rule write_loop_rule [OF run, of ?I])
    fix rest v n v' assume I: "?I rest v" and wr: "write rest v = (Inr n, v')"
    then obtain p where p: "bytes = p @ rest" "sent v = sent w @ p" by blast
    have "sent v' = sent v @ take n rest" using sinks wr unfolding sinks_def by blast
    then show "?I (drop n rest) v'" using p by (intro exI [of _ "p @ take n rest"]) simp
  next
    fix rest v code v' assume "?I rest v" "write rest v = (Inl code, v')"
    moreover have "sent v' = sent v" using calculation(2) sinks unfolding sinks_def by blast
    ultimately show "?I rest v'" by simp
  next
    fix rest v assume "?I rest v"
    moreover have "sent (snd (waitForSessionIo L transport v)) = sent v" using sinks unfolding sinks_def by blast
    ultimately show "?I rest (snd (waitForSessionIo L transport v))" by simp
  qed simp
  then obtain rest p where "bytes = p @ rest" "sent w' = sent w @ p" "isl r \<or> rest = []" by blast
  then show ?thesis unfolding delivered_def by (intro exI [of _ p]) auto
qed

lemma write_all_delivers:
  assumes "sinks L transport write sent" "write_all L transport write mapError input s w = Some (r, s', w')"
  shows "s' = s \<and> delivered sent input w r w'"
  using assms(2) write_loop_delivers [OF assms(1)] by (auto simp: write_all_def)

section \<open>Returning\<close>

text \<open>Every wait that succeeds uses up one of the times the transport is ready, and no call adds one.\<close>

definition waits_end :: "'w Libssh2 \<Rightarrow> nat \<Rightarrow> ('w \<Rightarrow> nat) \<Rightarrow> bool" where
  "waits_end L transport left \<longleftrightarrow> (\<forall>w u w'. waitForSessionIo L transport w = (Inr u, w') \<longrightarrow> left w' < left w)"

definition steady :: "('w \<Rightarrow> nat) \<Rightarrow> ('w \<Rightarrow> 'a \<times> 'w) \<Rightarrow> bool" where
  "steady left call \<longleftrightarrow> (\<forall>w. left (snd (call w)) \<le> left w)"

lemma session_loop_returns:
  assumes "waits_end L transport left" "steady left call"
  shows "session_loop L transport call w \<noteq> None"
proof (induction "left w" arbitrary: w rule: less_induct)
  case less
  obtain a w1 where a: "call w = (a, w1)" by fastforce
  obtain r w2 where r: "waitForSessionIo L transport w1 = (r, w2)" by fastforce
  have "left w1 \<le> left w" using assms(2) a unfolding steady_def by (metis snd_conv)
  moreover have "r = Inr u \<Longrightarrow> left w2 < left w1" for u using assms(1) r unfolding waits_end_def by blast
  ultimately have "r = Inr u \<Longrightarrow> session_loop L transport call w2 \<noteq> None" for u using less by force
  then show ?case by (subst session_loop.simps) (simp add: a r split: LibStep.split sum.split)
qed

lemma write_loop_returns:
  assumes wait: "waits_end L transport left" and steady: "\<And>bytes. steady left (write bytes)"
  shows "write_loop L transport write mapError bytes w \<noteq> None"
proof (induction "(length bytes, left w)" arbitrary: bytes w rule: wf_induct_rule [OF wf_lex_prod [OF wf_less_than wf_less_than]])
  case (1 bytes w)
  obtain a w1 where a: "write bytes w = (a, w1)" by fastforce
  obtain r w2 where r: "waitForSessionIo L transport w1 = (r, w2)" by fastforce
  have "left w1 \<le> left w" using steady [of bytes] a unfolding steady_def by (metis snd_conv)
  moreover have "r = Inr u \<Longrightarrow> left w2 < left w1" for u using wait r unfolding waits_end_def by blast
  ultimately have less: "r = Inr u \<Longrightarrow> left w2 < left w" for u by force
  have again: "write_loop L transport write mapError bytes w2 \<noteq> None" if "r = Inr u" for u
    using 1 less [OF that] by simp
  have shorter: "write_loop L transport write mapError (drop n bytes) w1 \<noteq> None" if "n > 0" "bytes \<noteq> []" for n
    using 1 that by simp
  show ?case using again shorter by (subst write_loop.simps) (simp add: a r split: sum.split)
qed

lemma session_loop_rule:
  fixes call :: "'w \<Rightarrow> 'a LibStep \<times> 'w"
  assumes run: "session_loop L transport call w = Some (r, w')" and start: "I w"
    and again: "\<And>w w'. I w \<Longrightarrow> call w = (StepAgain, w') \<Longrightarrow> I w'"
    and stop: "\<And>w a w'. I w \<Longrightarrow> call w = (StepDone a, w') \<Longrightarrow> Q (Inr a) w'"
      "\<And>w e w'. I w \<Longrightarrow> call w = (StepError e, w') \<Longrightarrow> Q (Inl e) w'"
    and wait: "\<And>w. I w \<Longrightarrow> I (snd (waitForSessionIo L transport w))" "\<And>w e. I w \<Longrightarrow> Q (Inl e) w"
  shows "Q r w'"
proof -
  let ?post = "\<lambda>L' t' call' (w :: 'w) (y :: (SshTransportError + 'a) \<times> 'w). L' = L \<longrightarrow> t' = transport \<longrightarrow> call' = call
    \<longrightarrow> I w \<longrightarrow> Q (fst y) (snd y)"
  have "?post L transport call w (r, w')"
  proof (rule session_loop.raw_induct [of ?post, OF _ run])
    fix rec L' t' call' w y
    assume IH: "\<And>L t call w y. rec L t call w = Some y \<Longrightarrow> ?post L t call w y"
    assume step: "(case call' w of
        (StepDone a, w') \<Rightarrow> Some (Inr a, w')
      | (StepError e, w') \<Rightarrow> Some (Inl e, w')
      | (StepAgain, w') \<Rightarrow>
          (case waitForSessionIo L' t' w' of
             (Inl e, w'') \<Rightarrow> Some (Inl e, w'')
           | (Inr _, w'') \<Rightarrow> rec L' t' call' w'')) = Some y"
    show "?post L' t' call' w y"
    proof (intro impI)
      assume eqs: "L' = L" "t' = transport" "call' = call" and I: "I w"
      obtain o1 w1 where o1: "call w = (o1, w1)" by fastforce
      obtain o2 w2 where o2: "waitForSessionIo L transport w1 = (o2, w2)" by fastforce
      show "Q (fst y) (snd y)"
      proof (cases o1)
        case (StepDone a)
        then show ?thesis using step eqs o1 stop(1) [OF I] by auto
      next
        case (StepError e)
        then show ?thesis using step eqs o1 stop(2) [OF I] by auto
      next
        case StepAgain
        then have I2: "I w2" using again [OF I] o1 o2 wait(1) [of w1] by simp
        show ?thesis
        proof (cases o2)
          case (Inl e)
          then have "y = (Inl e, w2)" using step eqs o1 o2 StepAgain by simp
          then show ?thesis using wait(2) [OF I2] by simp
        next
          case (Inr u)
          then have "rec L transport call w2 = Some y" using step eqs o1 o2 StepAgain by simp
          from IH [OF this] show ?thesis using I2 by simp
        qed
      qed
    qed
  qed
  then show ?thesis using start by simp
qed

lemma session_loop_done:
  assumes "session_loop L transport call w = Some (Inr a, w')" shows "\<exists>w0. call w0 = (StepDone a, w')"
proof -
  have "case Inr a of Inl (e :: SshTransportError) \<Rightarrow> True | Inr a \<Rightarrow> \<exists>w0. call w0 = (StepDone a, w')"
    by (rule session_loop_rule [OF assms, of "\<lambda>_. True" "\<lambda>r w'. case r of Inl e \<Rightarrow> True | Inr a \<Rightarrow> \<exists>w0. call w0 = (StepDone a, w')"])
      auto
  then show ?thesis by simp
qed

lemma looped_returns:
  "waits_end L transport left \<Longrightarrow> steady left call \<Longrightarrow> looped L transport call f s w \<noteq> None"
  using session_loop_returns [of L transport left call w] by (auto simp: looped_def split: sum.splits)

lemma checked_returns: "body s w \<noteq> None \<Longrightarrow> checked L bad state timeout body s w \<noteq> None"
  by (simp add: checked_def)

lemma andThen_returns:
  assumes "m w \<noteq> None" "\<And>a w'. k a w' \<noteq> None" shows "andThen m k w \<noteq> None"
  using assms by (auto simp: andThen_def split: sum.splits)

lemma steady_code_step: "steady left f \<Longrightarrow> steady left (\<lambda>w. code_step mapError (f w))"
  by (auto simp: steady_def code_step_def split: prod.splits) (metis snd_conv)

lemma steady_setenv_step: "steady left f \<Longrightarrow> steady left (\<lambda>w. setenv_step required (f w))"
  by (auto simp: steady_def setenv_step_def split: prod.splits) (metis snd_conv)

lemma steady_handle_step: "steady left f \<Longrightarrow> steady left (\<lambda>w. handle_step L mapError (f w))"
  by (auto simp: steady_def handle_step_def split: prod.splits option.splits) (metis snd_conv)+

lemma set_environment_returns:
  assumes "waits_end (lc_lib C) transport left" "\<And>name v. steady left (lc_setenv C channel name v)"
  shows "set_environment C transport channel environment w \<noteq> None"
proof (induction environment arbitrary: w)
  case (Cons v vs)
  have "session_loop (lc_lib C) transport
      (\<lambda>w. setenv_step (env_required v) (lc_setenv C channel (env_name v) (env_value v) w)) w \<noteq> None"
    by (rule session_loop_returns [OF assms(1) steady_setenv_step [OF assms(2)]])
  then show ?case using Cons.IH by (simp add: andThen_returns del: not_None_eq)
qed simp

lemma steady_poll_step:
  "steady left (lib_channel_read (lc_lib C) (the (ls_terminalChannel s)) capacity)
    \<Longrightarrow> steady left (\<lambda>w. poll_step (pollTerminal C transport capacity s w))"
  by (auto simp: steady_def poll_step_def pollTerminal_def split: prod.splits sum.splits option.splits) (metis snd_conv)+

text \<open>The calls of libssh2 that set up, read and write the terminal.\<close>

definition terminal_calls_steady :: "('w \<Rightarrow> nat) \<Rightarrow> 'w LibChannels \<Rightarrow> bool" where
  "terminal_calls_steady left C \<longleftrightarrow>
     steady left (lc_open_session C) \<and> (\<forall>c ty cols rows. steady left (lc_request_pty C c ty cols rows))
   \<and> (\<forall>c name v. steady left (lc_setenv C c name v)) \<and> (\<forall>c. steady left (lc_shell C c))
   \<and> (\<forall>c n. steady left (lib_channel_read (lc_lib C) c n)) \<and> (\<forall>c bytes. steady left (lib_channel_write (lc_lib C) c bytes))"

lemma terminal_setup_returns:
  assumes "waits_end (lc_lib C) transport left" "terminal_calls_steady left C"
  shows "terminal_setup C transport channel columns rows terminalType environment w \<noteq> None"
proof -
  have pty: "session_loop (lc_lib C) transport
      (\<lambda>w. code_step mapChannelError (lc_request_pty C channel terminalType columns rows w)) w \<noteq> None" for w
    using assms(2) by (intro session_loop_returns [OF assms(1)] steady_code_step) (simp add: terminal_calls_steady_def)
  have shell: "session_loop (lc_lib C) transport (\<lambda>w. code_step mapChannelError (lc_shell C channel w)) w \<noteq> None" for w
    using assms(2) by (intro session_loop_returns [OF assms(1)] steady_code_step) (simp add: terminal_calls_steady_def)
  have env: "set_environment C transport channel environment w \<noteq> None" for w
    using assms(2) by (intro set_environment_returns [OF assms(1)]) (simp add: terminal_calls_steady_def)
  show ?thesis unfolding terminal_setup_def by (intro andThen_returns pty env shell)
qed

section \<open>Listing\<close>

text \<open>
  A server that lists \<open>contents\<close>: opening a directory starts its listing, every entry that is read is taken
  from it, and waiting leaves it alone.
\<close>

type_synonym listing = "(string \<times> SftpAttributes) list"

definition lists :: "'w LibSftp \<Rightarrow> nat \<Rightarrow> (string \<Rightarrow> listing) \<Rightarrow> (nat \<Rightarrow> 'w \<Rightarrow> listing) \<Rightarrow> bool" where
  "lists F transport contents rest \<longleftrightarrow>
     (\<forall>sftp path w d w'. lf_open F sftp path SftpOpenDirectory w = (Some d, w') \<longrightarrow> rest d w' = contents path)
   \<and> (\<forall>d w entry w'. lf_readdir F d w = (Inr (Some entry), w') \<longrightarrow> rest d w = entry # rest d w')
   \<and> (\<forall>d w w'. lf_readdir F d w = (Inr None, w') \<longrightarrow> rest d w = [])
   \<and> (\<forall>d w code w'. lf_readdir F d w = (Inl code, w') \<longrightarrow> rest d w' = rest d w)
   \<and> (\<forall>d w. rest d (snd (waitForSessionIo (lf_lib F) transport w)) = rest d w)"

definition real_names :: "listing \<Rightarrow> listing" where
  "real_names xs = filter (\<lambda>(name, attributes). name \<noteq> ''.'' \<and> name \<noteq> ''..'') xs"

definition entry_of :: "'w LibSftp \<Rightarrow> string \<Rightarrow> string \<times> SftpAttributes \<Rightarrow> DirectoryEntry \<Rightarrow> bool" where
  "entry_of F remotePath x e \<longleftrightarrow>
     (case x of (name, attributes) \<Rightarrow>
        de_name e = name \<and> joinRemotePath remotePath name = Inr (de_remotePath e)
      \<and> de_type e = (case at_permissions attributes of None \<Rightarrow> Other | Some p \<Rightarrow> lf_kind F p)
      \<and> de_permissions e = (case at_permissions attributes of None \<Rightarrow> 0 | Some p \<Rightarrow> p)
      \<and> de_size e = (case at_filesize attributes of None \<Rightarrow> 0 | Some n \<Rightarrow> n)
      \<and> de_modifiedUtcSeconds e = at_mtime attributes)"

lemma closing_with_result: "closing_with F transport d r w = Some y \<Longrightarrow> fst y = r"
  by (auto simp: closing_with_def)

lemma real_names_simps [simp]:
  "real_names [] = []"
  "real_names (x # xs) = (if fst x = ''.'' \<or> fst x = ''..'' then real_names xs else x # real_names xs)"
  by (auto simp: real_names_def split: prod.splits)

lemma list_loop_entries:
  fixes F :: "'w LibSftp"
  assumes lists: "lists F transport contents rest"
    and run: "list_loop F transport d path entries w = Some (Inr out, w')"
  shows "\<exists>new. out = entries @ new \<and> list_all2 (entry_of F path) (real_names (rest d w)) new"
proof -
  let ?post = "\<lambda>F' t' d' p' entries w (y :: (SshTransportError + DirectoryEntry list) \<times> 'w). F' = F \<longrightarrow> t' = transport \<longrightarrow> d' = d \<longrightarrow> p' = path
    \<longrightarrow> (\<forall>out. fst y = Inr out \<longrightarrow> (\<exists>new. out = entries @ new \<and> list_all2 (entry_of F path) (real_names (rest d w)) new))"
  have "?post F transport d path entries w (Inr out, w')"
  proof (rule list_loop.raw_induct [of ?post, OF _ run])
    fix rec F' t' d' p' entries w y
    assume IH: "\<And>F t d p entries w y. rec F t d p entries w = Some y \<Longrightarrow> ?post F t d p entries w y"
    assume step: "(case lf_readdir F' d' w of
        (Inr (Some (name, attributes)), w') \<Rightarrow>
          if name = ''.'' \<or> name = ''..'' then rec F' t' d' p' entries w'
          else (case joinRemotePath p' name of
                  Inl _ \<Rightarrow> closing_with F' t' d' (Inl (transport_error TransportProtocolError)) w'
                | Inr path \<Rightarrow> rec F' t' d' p' (entries @ [directory_entry F' name path attributes]) w')
      | (Inr None, w') \<Rightarrow> closing_with F' t' d' (Inr entries) w'
      | (Inl code, w') \<Rightarrow>
          if code \<noteq> LibEagain then closing_with F' t' d' (Inl (sftp_error F' code w')) w'
          else (case waitForSessionIo (lf_lib F') t' w' of
                  (Inl e, w'') \<Rightarrow> closing_with F' t' d' (Inl e) w''
                | (Inr _, w'') \<Rightarrow> rec F' t' d' p' entries w'')) = Some y"
    show "?post F' t' d' p' entries w y"
    proof (intro impI allI)
      fix out assume eqs: "F' = F" "t' = transport" "d' = d" "p' = path" and out: "fst y = Inr out"
      note IH' = IH [of F transport d path, simplified, rule_format, OF _ out]
      obtain o1 w1 where o1: "lf_readdir F d w = (o1, w1)" by fastforce
      obtain o2 w2 where o2: "waitForSessionIo (lf_lib F) transport w1 = (o2, w2)" by fastforce
      have wait: "rest d w2 = rest d w1" using lists o2 unfolding lists_def by (metis snd_conv)
      show "\<exists>new. out = entries @ new \<and> list_all2 (entry_of F path) (real_names (rest d w)) new"
      proof (cases o1)
        case (Inl code)
        then have same: "rest d w1 = rest d w" using lists o1 unfolding lists_def by blast
        have "code = LibEagain" using step eqs o1 Inl out
          by (cases "code = LibEagain") (auto dest: closing_with_result)
        moreover from this have "\<not> isl o2"
          using step eqs o1 o2 Inl out by (cases o2) (auto dest: closing_with_result)
        ultimately have "rec F transport d path entries w2 = Some y" using step eqs o1 o2 Inl by (cases o2) simp_all
        from IH' [OF this] show ?thesis using same wait by simp
      next
        case (Inr next_entry)
        show ?thesis
        proof (cases next_entry)
          case None
          then have "rest d w = []" using lists o1 Inr unfolding lists_def by blast
          moreover have "fst y = Inr entries"
            using step eqs o1 Inr None by (auto dest: closing_with_result)
          ultimately show ?thesis using out by simp
        next
          case (Some x)
          obtain name attributes where x: "x = (name, attributes)" by fastforce
          have rest: "rest d w = x # rest d w1" using lists o1 Inr Some unfolding lists_def by blast
          show ?thesis
          proof (cases "name = ''.'' \<or> name = ''..''")
            case True
            then have "rec F transport d path entries w1 = Some y" using step eqs o1 Inr Some x by auto
            from IH' [OF this] show ?thesis using rest x True by auto
          next
            case False
            then obtain p where p: "joinRemotePath path name = Inr p"
              using step eqs o1 Inr Some x out
              by (cases "joinRemotePath path name") (auto dest: closing_with_result)
            let ?e = "directory_entry F name p attributes"
            have "rec F transport d path (entries @ [?e]) w1 = Some y" using step eqs o1 Inr Some x False p by simp
            from IH' [OF this] obtain new where "out = entries @ ?e # new" "list_all2 (entry_of F path) (real_names (rest d w1)) new"
              by auto
            moreover have "entry_of F path x ?e" using x p by (simp add: entry_of_def directory_entry_def entryType_def)
            ultimately show ?thesis using rest x False by (intro exI [of _ "?e # new"]) simp
          qed
        qed
      qed
    qed
  qed
  then show ?thesis by simp
qed

section \<open>Who authenticates\<close>

lemma resource_op_authenticated:
  "checked_resource L bad state timeout body s w = Some (r, s', w') \<Longrightarrow>
    (\<And>r s' w'. body s w = Some (r, s', w') \<Longrightarrow> ls_authenticated s' = ls_authenticated s) \<Longrightarrow>
    ls_authenticated s' = ls_authenticated s"
  using checked_resource_result by metis

lemma checked_authenticated:
  "checked L bad state timeout body s w = Some (r, s', w') \<Longrightarrow>
    (\<And>r s' w'. body s w = Some (r, s', w') \<Longrightarrow> ls_authenticated s' = ls_authenticated s) \<Longrightarrow>
    ls_authenticated s' = ls_authenticated s"
  using checked_result by metis

lemma looped_authenticated:
  "looped L transport call f s w = Some (r, s', w') \<Longrightarrow>
    (\<And>a. ls_authenticated (f a s) = ls_authenticated s) \<Longrightarrow> ls_authenticated s' = ls_authenticated s"
  by (drule looped_result) (auto split: sum.splits)

lemma close_then_free_authenticated:
  "close_then_free L t ch clear s w = Some (r, s', w') \<Longrightarrow> ls_authenticated (clear s) = ls_authenticated s
    \<Longrightarrow> ls_authenticated s' = ls_authenticated s"
  by (drule close_then_free_result) auto

lemma handshake_authenticated:
  "ssh_handshake L t timeout s w = Some (r, s', w') \<Longrightarrow> ls_authenticated s' = ls_authenticated s"
  unfolding ssh_handshake_def
  by (erule checked_authenticated) (drule looped_authenticated; simp)

lemma direct_authenticated:
  "openDirectTcpip L t h port timeout s w = Some (d, s', w') \<Longrightarrow> ls_authenticated s' = ls_authenticated s"
  "closeDirectTcpip L t timeout s w = Some (r, s', w') \<Longrightarrow> ls_authenticated s' = ls_authenticated s"
  unfolding openDirectTcpip_def closeDirectTcpip_def
  by (erule checked_authenticated, drule looped_authenticated; simp)
    (erule checked_authenticated, drule close_then_free_authenticated; simp)

lemma forwarding_authenticated:
  "openForwardingChannel C t h port oh op timeout s w = Some (i, s', w') \<Longrightarrow> ls_authenticated s' = ls_authenticated s"
  unfolding openForwardingChannel_def
  by (erule resource_op_authenticated) (auto simp: add_channel_def split: option.splits prod.splits sum.splits)

lemma listener_authenticated:
  "openRemoteForwardListener C t h port q timeout s w = Some (l, s', w') \<Longrightarrow> ls_authenticated s' = ls_authenticated s"
  unfolding openRemoteForwardListener_def
  by (erule resource_op_authenticated) (auto simp: add_listener_def split: option.splits prod.splits sum.splits)

lemma accept_authenticated:
  "acceptRemoteForwardingChannel C fid bp s w = (a, s', w') \<Longrightarrow> ls_authenticated s' = ls_authenticated s"
  by (auto simp: acceptRemoteForwardingChannel_def add_channel_def Let_def split: option.splits prod.splits if_splits)

lemma close_resources_authenticated:
  "closeForwardingChannel C t fid timeout s w = Some (r, s', w') \<Longrightarrow> ls_authenticated s' = ls_authenticated s"
  "closeRemoteForwardListener C t fid timeout s w = Some (r, s', w') \<Longrightarrow> ls_authenticated s' = ls_authenticated s"
  unfolding closeForwardingChannel_def closeRemoteForwardListener_def
  by (erule checked_authenticated, simp add: close_forwarding_def erase_channel_def split: option.splits prod.splits sum.splits; auto)
    (erule checked_authenticated, drule looped_authenticated; simp add: erase_listener_def)

lemma terminal_authenticated:
  "openTerminal C t cols rows ty env timeout s w = Some (r, s', w') \<Longrightarrow> ls_authenticated s' = ls_authenticated s"
  "closeTerminal C t timeout s w = Some (r, s', w') \<Longrightarrow> ls_authenticated s' = ls_authenticated s"
  unfolding openTerminal_def closeTerminal_def
  by (erule checked_authenticated, simp add: open_terminal_channel_def split: option.splits prod.splits sum.splits; auto)
    (erule checked_authenticated, drule close_then_free_authenticated; simp)

lemma sftp_authenticated:
  "openSftp F t timeout s w = Some (h, s', w') \<Longrightarrow> ls_authenticated s' = ls_authenticated s"
  "closeSftp F t timeout s w = Some (r, s', w') \<Longrightarrow> ls_authenticated s' = ls_authenticated s"
  "open_sftp_file F t path mode timeout s w = Some (h, s', w') \<Longrightarrow> ls_authenticated s' = ls_authenticated s"
  "closeSftpFile F t timeout s w = Some (r, s', w') \<Longrightarrow> ls_authenticated s' = ls_authenticated s"
  unfolding openSftp_def closeSftp_def open_sftp_file_def closeSftpFile_def
  by (erule checked_authenticated, drule looped_authenticated; simp)+

lemma aux_authenticated: "aux_changed s s' \<Longrightarrow> ls_authenticated s' = ls_authenticated s"
  unfolding aux_changed_def aux_copy_def
  by (metis Libssh2Session.select_convs(15) Libssh2Session.surjective Libssh2Session.update_convs(4,7,8,9))

text \<open>Only an authentication call authenticates, and it refuses unless the key of this connection was verified.\<close>

lemma step_authenticates:
  "session_step C F x y \<Longrightarrow> session_inv (fst x) \<Longrightarrow> ls_authenticated (fst y) \<Longrightarrow>
    ls_authenticated (fst x) \<or> (ls_hostKeyVerified (fst x) \<and> ls_handshakeComplete (fst x))"
proof (induction rule: session_step.induct)
  case (Password t u p timeout s w r s' w')
  then show ?case using authentication_result [of "lc_lib C" t u p timeout s w r s' w'] by (auto simp: auth_refused_def)
next
  case (PrivateKey t u k k' p timeout s w r s' w')
  then show ?case using authentication_result [of "lc_lib C" t u p timeout s w r s' w' k k'] by (auto simp: auth_refused_def)
next
  case (Agent t u timeout s w r s' w')
  then show ?case using authentication_result [of "lc_lib C" t u "[]" timeout s w r s' w'] by (auto simp: auth_refused_def)
next
  case (Verify ep hosts s trust s' w)
  then show ?case by (auto simp: verifyHostKey_def Let_def split: sum.splits)
next
  case (StartAux cmd s r s' w)
  then show ?case by (auto simp: startAuxiliaryCommand_def split: if_splits)
next
  case (PollAux cap s w p s' w')
  then show ?case using poll_changed aux_authenticated by fastforce
next
  case (CancelAux s w)
  then show ?case by (simp add: cancelAuxiliaryCommand_def split: if_splits)
qed (simp_all add: handshake_authenticated direct_authenticated forwarding_authenticated listener_authenticated accept_authenticated
  close_resources_authenticated terminal_authenticated sftp_authenticated)

section \<open>How the auxiliary command advances\<close>

fun aux_rank :: "AuxiliaryCommandPhase \<Rightarrow> nat" where
  "aux_rank AuxIdle = 0"
| "aux_rank AuxFreeing = 5"
| "aux_rank AuxClosing = 6"
| "aux_rank AuxReading = 7"
| "aux_rank AuxRequesting = 8"
| "aux_rank AuxOpening = 9"

definition advances :: "Libssh2Session \<Rightarrow> AuxiliaryCommandPollResult \<Rightarrow> Libssh2Session \<Rightarrow> bool" where
  "advances s result s' \<longleftrightarrow> aux_rank (ls_auxiliaryPhase s') \<le> aux_rank (ls_auxiliaryPhase s)
    \<and> (ap_progress result = AuxOutput \<longrightarrow> ls_auxiliaryPhase s' = AuxReading \<and> ap_output result \<noteq> [])
    \<and> (ap_progress result = AuxCompleted \<longleftrightarrow> ls_auxiliaryPhase s' = AuxIdle)
    \<and> (ap_progress result = AuxCompleted \<longrightarrow> ls_auxiliaryChannel s' = None \<and> ls_auxiliaryCommand s' = [])"

lemma advances_from:
  "advances s1 result s' \<Longrightarrow> aux_rank (ls_auxiliaryPhase s1) \<le> aux_rank (ls_auxiliaryPhase s) \<Longrightarrow> advances s result s'"
  by (auto simp: advances_def)

lemma advances_pending: "ls_auxiliaryPhase s \<noteq> AuxIdle \<Longrightarrow> advances s aux_pending s"
  by (simp add: advances_def aux_pending_def)

lemma aux_free_advances: "aux_free C ch s w = (Inr result, s', w') \<Longrightarrow> ls_auxiliaryPhase s = AuxFreeing \<Longrightarrow> advances s result s'"
  by (auto simp: aux_free_def aux_pending_def advances_def split: prod.splits if_splits)

lemma aux_closing_advances:
  assumes "aux_closing C ch s w = (Inr result, s', w')" "ls_auxiliaryPhase s \<in> {AuxClosing, AuxFreeing}"
  shows "advances s result s'"
proof (cases "ls_auxiliaryPhase s = AuxClosing")
  case False
  then show ?thesis using assms aux_free_advances [of C ch s w] by (simp add: aux_closing_def)
next
  case True
  obtain code w1 where close: "lib_channel_close (lc_lib C) ch w = (code, w1)" by fastforce
  let ?s1 = "s\<lparr>ls_auxiliaryExitStatus := lc_exit_status C ch w1, ls_auxiliaryPhase := AuxFreeing\<rparr>"
  consider "s' = s \<and> result = aux_pending" | "aux_free C ch ?s1 w1 = (Inr result, s', w')"
    using assms(1) True close by (auto simp: aux_closing_def Let_def split: if_splits)
  then show ?thesis
  proof cases
    case 2
    from aux_free_advances [OF this] have "advances ?s1 result s'" by simp
    then show ?thesis using True by (auto intro: advances_from)
  qed (use True advances_pending in simp)
qed

lemma aux_drain_advances:
  assumes "aux_drain C ch s w = (Inr result, s', w')" "ls_auxiliaryPhase s = AuxReading"
  shows "advances s result s'"
proof -
  consider "s' = s \<and> result = aux_pending" | w1 where "aux_closing C ch (aux_to_closing s) w1 = (Inr result, s', w')"
    using assms(1) by (auto simp: aux_drain_def split: prod.splits sum.splits if_splits)
  then show ?thesis
  proof cases
    case 2
    from aux_closing_advances [OF this] have "advances (aux_to_closing s) result s'" by (simp add: aux_to_closing_def)
    then show ?thesis using assms(2) by (auto intro: advances_from simp: aux_to_closing_def)
  qed (use assms(2) advances_pending in simp)
qed

lemma aux_reading_advances:
  assumes "aux_reading C ch capacity s w = (Inr result, s', w')" "ls_auxiliaryPhase s \<in> {AuxReading, AuxClosing, AuxFreeing}"
  shows "advances s result s'"
proof (cases "ls_auxiliaryPhase s = AuxReading")
  case False
  then show ?thesis using assms aux_closing_advances [of C ch s w] by (simp add: aux_reading_def)
next
  case True
  consider bytes where "s' = s \<and> bytes \<noteq> [] \<and> result = \<lparr>ap_progress = AuxOutput, ap_output = bytes, ap_exitStatus = 0\<rparr>"
    | w1 where "aux_drain C ch s w1 = (Inr result, s', w')"
    using assms(1) True by (auto simp: aux_reading_def split: prod.splits sum.splits if_splits)
  then show ?thesis
  proof cases
    case 2
    show ?thesis by (rule aux_drain_advances [OF 2 True])
  qed (use True in \<open>simp add: advances_def\<close>)
qed

lemma aux_requesting_advances:
  assumes "aux_requesting C ch capacity s w = (Inr result, s', w')" "ls_auxiliaryPhase s \<notin> {AuxIdle, AuxOpening}"
  shows "advances s result s'"
proof (cases "ls_auxiliaryPhase s = AuxRequesting")
  case False
  then have "ls_auxiliaryPhase s \<in> {AuxReading, AuxClosing, AuxFreeing}" using assms(2) by (cases "ls_auxiliaryPhase s") auto
  then show ?thesis using assms(1) False aux_reading_advances [of C ch capacity s w] by (simp add: aux_requesting_def)
next
  case True
  let ?s1 = "s\<lparr>ls_auxiliaryCommand := [], ls_auxiliaryPhase := AuxReading\<rparr>"
  consider "s' = s \<and> result = aux_pending" | w1 where "aux_reading C ch capacity ?s1 w1 = (Inr result, s', w')"
    using assms(1) True by (auto simp: aux_requesting_def split: prod.splits if_splits)
  then show ?thesis
  proof cases
    case 2
    from aux_reading_advances [OF this] have "advances ?s1 result s'" by simp
    then show ?thesis using True by (auto intro: advances_from)
  qed (use True advances_pending in simp)
qed

lemma with_channel_advances:
  assumes "aux_with_channel C capacity s w = (Inr result, s', w')" "ls_auxiliaryPhase s \<notin> {AuxIdle, AuxOpening}"
  shows "advances s result s'"
  using assms aux_requesting_advances [OF _ assms(2)] by (auto simp: aux_with_channel_def split: option.splits)

lemma poll_advances:
  assumes "pollAuxiliaryCommand C capacity s w = (Inr result, s', w')"
  shows "advances s result s'"
proof -
  have active: "ls_auxiliaryPhase s \<noteq> AuxIdle" using assms by (auto simp: pollAuxiliaryCommand_def split: if_splits)
  consider "ls_auxiliaryPhase s \<noteq> AuxOpening" "aux_with_channel C capacity s w = (Inr result, s', w')"
    | "ls_auxiliaryPhase s = AuxOpening" "s' = s \<and> result = aux_pending"
    | ch w1 where "ls_auxiliaryPhase s = AuxOpening"
        "aux_with_channel C capacity (s\<lparr>ls_auxiliaryChannel := Some ch, ls_auxiliaryPhase := AuxRequesting\<rparr>) w1 = (Inr result, s', w')"
    using assms by (auto simp: pollAuxiliaryCommand_def Let_def split: prod.splits option.splits if_splits)
  then show ?thesis
  proof cases
    case 1
    show ?thesis by (rule with_channel_advances [OF 1(2)]) (simp add: 1(1) active)
  next
    case 2
    then show ?thesis using advances_pending active by simp
  next
    case 3
    from with_channel_advances [OF 3(2)] show ?thesis using 3(1) by (auto intro: advances_from)
  qed
qed

end
