(* ===== verification/Ssh_Profile.thy ===== *)
theory Ssh_Profile
  imports Ssh_State Proxy_Tunnel
begin

text \<open>
  Saved SSH hosts: \<open>src/domain/ssh/SshProfile\<close> with its validation and the reconnection policy, and the
  request a connection is made from, \<open>src/application/ssh/SshConnectionRequest\<close>.  Texts are bytes, an
  enumeration's value is always one of its constants, and \<open>std::isalnum\<close> and its kin are those of the C
  locale.
\<close>

datatype SshAuthenticationMethod = AuthPrivateKey | AuthPassword | AuthAgent

datatype SshStartupCommandMode = StartupPaste | StartupLineDelay

datatype SshReconnectPolicy = ReconnectNever | ReconnectOnTransportFailure

record SshProxyOptions =
  po_type :: SshProxyType
  po_host :: string
  po_port :: u16
  po_username :: string
  po_credentialReference :: "string option"

record SshEnvironmentVariable =
  ev_name :: string
  ev_value :: string

record SshSessionOptions =
  so_terminalType :: string
  so_connectionTimeoutSeconds :: u16
  so_authenticationTimeoutSeconds :: u16
  so_terminalOpenTimeoutSeconds :: u16
  so_keepaliveIntervalSeconds :: u16
  so_keepaliveFailureThreshold :: byte
  so_startupCommand :: string
  so_startupCommandMode :: SshStartupCommandMode
  so_startupLineDelayMilliseconds :: u16
  so_environment :: "SshEnvironmentVariable list"
  so_reconnectPolicy :: SshReconnectPolicy
  so_reconnectMaximumAttempts :: byte
  so_reconnectInitialBackoffMilliseconds :: u16

record SshKeywordHighlightRule =
  hr_id :: string
  hr_pattern :: string
  hr_foreground :: string
  hr_background :: string
  hr_enabled :: bool
  hr_caseSensitive :: bool

record SshProfile =
  sp_id :: string
  sp_name :: string
  sp_group :: string
  sp_host :: string
  sp_port :: u16
  sp_username :: string
  sp_identityReference :: "string option"
  sp_authentication :: SshAuthenticationMethod
  sp_privateKeyPath :: string
  sp_privateKeyPassphraseRequired :: bool
  sp_credentialReference :: "string option"
  sp_lastConnectedUtcMs :: "int option"
  sp_keywordHighlightRules :: "SshKeywordHighlightRule list"
  sp_keywordHighlightEnabled :: bool
  sp_sessionOptions :: SshSessionOptions
  sp_proxy :: SshProxyOptions
  sp_jumpProfileIds :: "string list"
  sp_iconName :: string

section \<open>Characters\<close>

definition is_alpha :: "char \<Rightarrow> bool" where
  "is_alpha c \<longleftrightarrow> (let n = of_char c :: nat in 65 \<le> n \<and> n \<le> 90 \<or> 97 \<le> n \<and> n \<le> 122)"

definition is_alnum :: "char \<Rightarrow> bool" where
  "is_alnum c \<longleftrightarrow> is_alpha c \<or> is_digit c"

definition is_xdigit :: "char \<Rightarrow> bool" where
  "is_xdigit c \<longleftrightarrow> is_digit c
     \<or> (let n = of_char c :: nat in 65 \<le> n \<and> n \<le> 70 \<or> 97 \<le> n \<and> n \<le> 102)"

section \<open>Validation\<close>

definition maximumSshJumpHostCount :: nat where "maximumSshJumpHostCount = 3"

definition nonEmptyWithin :: "string \<Rightarrow> nat \<Rightarrow> bool" where
  "nonEmptyWithin value maximumLength \<longleftrightarrow> value \<noteq> [] \<and> length value \<le> maximumLength"

definition validCredentialReference :: "string option \<Rightarrow> bool" where
  "validCredentialReference reference \<longleftrightarrow>
     (case reference of
        None \<Rightarrow> True
      | Some r \<Rightarrow> nonEmptyWithin r 128 \<and> list_all (\<lambda>c. is_alnum c \<or> c = CHR ''-'' \<or> c = CHR ''_'') r)"

definition validColor :: "string \<Rightarrow> bool" where
  "validColor value \<longleftrightarrow>
     (if value = [] then True
      else if length value \<noteq> 7 \<and> length value \<noteq> 9 \<or> hd value \<noteq> CHR ''#'' then False
      else list_all is_xdigit (tl value))"

definition ssh_validBoundedText :: "string \<Rightarrow> nat \<Rightarrow> bool" where
  "ssh_validBoundedText value maximumLength \<longleftrightarrow> length value \<le> maximumLength \<and> CHR 0x00 \<notin> set value"

definition validTerminalType :: "string \<Rightarrow> bool" where
  "validTerminalType value \<longleftrightarrow> nonEmptyWithin value 64
     \<and> list_all (\<lambda>c. is_alnum c \<or> c = CHR ''-'' \<or> c = CHR ''_'' \<or> c = CHR ''.'' \<or> c = CHR ''+'') value"

definition validEnvironmentName :: "string \<Rightarrow> bool" where
  "validEnvironmentName value \<longleftrightarrow>
     (if \<not> nonEmptyWithin value 128 \<or> \<not> (is_alpha (hd value) \<or> hd value = CHR ''_'') then False
      else list_all (\<lambda>c. is_alnum c \<or> c = CHR ''_'') (tl value))"

definition validKeywordHighlightRule :: "SshKeywordHighlightRule \<Rightarrow> bool" where
  "validKeywordHighlightRule rule \<longleftrightarrow> nonEmptyWithin (hr_id rule) 64 \<and> nonEmptyWithin (hr_pattern rule) 128
     \<and> validColor (hr_foreground rule) \<and> validColor (hr_background rule)
     \<and> (hr_foreground rule \<noteq> [] \<or> hr_background rule \<noteq> [])"

text \<open>No variable's name occurs again behind it.\<close>

fun environment_ok :: "SshEnvironmentVariable list \<Rightarrow> bool" where
  "environment_ok [] = True"
| "environment_ok (v # following) =
     (if \<not> validEnvironmentName (ev_name v) \<or> \<not> ssh_validBoundedText (ev_value v) 4096 then False
      else if list_ex (\<lambda>w. ev_name w = ev_name v) following then False
      else environment_ok following)"

definition validSshSessionOptions :: "SshSessionOptions \<Rightarrow> bool" where
  "validSshSessionOptions options \<longleftrightarrow>
     (if \<not> validTerminalType (so_terminalType options)
         \<or> so_connectionTimeoutSeconds options = 0 \<or> so_connectionTimeoutSeconds options > 300
         \<or> so_authenticationTimeoutSeconds options = 0 \<or> so_authenticationTimeoutSeconds options > 300
         \<or> so_terminalOpenTimeoutSeconds options = 0 \<or> so_terminalOpenTimeoutSeconds options > 300
         \<or> so_keepaliveIntervalSeconds options > 3600
         \<or> so_keepaliveFailureThreshold options = 0 \<or> so_keepaliveFailureThreshold options > 10
         \<or> \<not> ssh_validBoundedText (so_startupCommand options) 32768
         \<or> length (filter (\<lambda>c. c = CHR 0x0D \<or> c = CHR 0x0A) (so_startupCommand options)) > 255
         \<or> so_startupLineDelayMilliseconds options > 5000 \<or> length (so_environment options) > 32
         \<or> so_reconnectMaximumAttempts options = 0 \<or> so_reconnectMaximumAttempts options > 10
         \<or> so_reconnectInitialBackoffMilliseconds options < 250
         \<or> so_reconnectInitialBackoffMilliseconds options > 30000
      then False else environment_ok (so_environment options))"

definition validSshProxyOptions :: "SshProxyOptions \<Rightarrow> bool" where
  "validSshProxyOptions options \<longleftrightarrow>
     (if po_type options = NoProxy
      then po_host options = [] \<and> po_port options = 0 \<and> po_username options = [] \<and> po_credentialReference options = None
      else nonEmptyWithin (po_host options) 1024 \<and> po_port options \<noteq> 0 \<and> length (po_username options) \<le> 255
           \<and> validCredentialReference (po_credentialReference options)
           \<and> (po_username options \<noteq> [] \<or> po_credentialReference options = None))"

definition knownIcons :: "string list" where
  "knownIcons = [''terminal'', ''hosts'', ''network'', ''folder'', ''security'', ''commands'', ''brand-apple'',
     ''brand-debian'', ''brand-docker'', ''brand-github'', ''brand-redhat'', ''brand-ubuntu'', ''brand-windows'',
     ''cloud'', ''database'', ''device-desktop'', ''router'', ''server'', ''world'', ''brand-archlinux'',
     ''brand-fedora'', ''brand-opensuse'', ''brand-alpine'', ''brand-linux'', ''shell-nushell'', ''shell-bash'',
     ''shell-zsh'', ''brand-powershell'', ''brand-git'', ''shell-cmd'']"

fun jump_ids_ok :: "string \<Rightarrow> string list \<Rightarrow> bool" where
  "jump_ids_ok own [] = True"
| "jump_ids_ok own (j # following) =
     (if j = own \<or> \<not> validCredentialReference (Some j) \<or> j \<in> set following then False
      else jump_ids_ok own following)"

definition validSshProfile :: "SshProfile \<Rightarrow> bool" where
  "validSshProfile profile \<longleftrightarrow>
     (if \<not> nonEmptyWithin (sp_id profile) 128 \<or> \<not> nonEmptyWithin (sp_name profile) 256
         \<or> length (sp_group profile) > 128 \<or> \<not> nonEmptyWithin (sp_host profile) 1024
         \<or> \<not> nonEmptyWithin (sp_username profile) 256 \<or> sp_port profile = 0
         \<or> \<not> validCredentialReference (sp_identityReference profile)
         \<or> \<not> validCredentialReference (sp_credentialReference profile)
         \<or> length (sp_keywordHighlightRules profile) > 16
         \<or> \<not> list_all validKeywordHighlightRule (sp_keywordHighlightRules profile)
         \<or> (case sp_lastConnectedUtcMs profile of None \<Rightarrow> False | Some ms \<Rightarrow> ms < 0)
         \<or> \<not> validSshSessionOptions (sp_sessionOptions profile) \<or> \<not> validSshProxyOptions (sp_proxy profile)
         \<or> length (sp_jumpProfileIds profile) > maximumSshJumpHostCount \<or> sp_iconName profile \<notin> set knownIcons
      then False
      else if \<not> jump_ids_ok (sp_id profile) (sp_jumpProfileIds profile) then False
      else if sp_identityReference profile \<noteq> None then True
      else case sp_authentication profile of
        AuthPrivateKey \<Rightarrow> nonEmptyWithin (sp_privateKeyPath profile) 32767
      | AuthPassword \<Rightarrow> sp_privateKeyPath profile = [] \<and> \<not> sp_privateKeyPassphraseRequired profile
      | AuthAgent \<Rightarrow> sp_privateKeyPath profile = [] \<and> \<not> sp_privateKeyPassphraseRequired profile
          \<and> sp_credentialReference profile = None)"

section \<open>Reconnecting\<close>

definition shouldReconnectAfter :: "SshReconnectPolicy \<Rightarrow> SshFailureKind \<Rightarrow> bool" where
  "shouldReconnectAfter policy failure =
     (if policy \<noteq> ReconnectOnTransportFailure then False
      else case failure of
        NameResolutionFailed \<Rightarrow> True
      | SshFailureKind.ConnectionRefused \<Rightarrow> True
      | SshFailureKind.TimedOut \<Rightarrow> True
      | TransportError \<Rightarrow> True
      | RemoteClosed \<Rightarrow> True
      | HostKeyChanged \<Rightarrow> False
      | HostKeyInvalid \<Rightarrow> False
      | AuthenticationRejected \<Rightarrow> False
      | AuthenticationUnavailable \<Rightarrow> False
      | ChannelOpenFailed \<Rightarrow> False
      | Cancelled \<Rightarrow> False
      | ProtocolError \<Rightarrow> False)"

text \<open>The loop, \<open>rounds\<close> being what is left of \<open>index < attempt\<close>.\<close>

fun backoff_loop :: "nat \<Rightarrow> u32 \<Rightarrow> u32" where
  "backoff_loop 0 delay = delay"
| "backoff_loop (Suc rounds) delay =
     (if delay < 30000 then backoff_loop rounds (min (delay * 2) 30000) else delay)"

definition reconnectBackoffMilliseconds :: "SshSessionOptions \<Rightarrow> byte \<Rightarrow> u32" where
  "reconnectBackoffMilliseconds options attempt =
     (if attempt = 0 then 0
      else backoff_loop (unat attempt - 1) (ucast (so_reconnectInitialBackoffMilliseconds options)))"

section \<open>The connection request\<close>

text \<open>A secret is the text it holds.\<close>

record SshJumpHostRequest =
  jr_profileId :: string
  jr_displayName :: string
  jr_host :: string
  jr_port :: u16
  jr_username :: string
  jr_authentication :: SshAuthenticationMethod
  jr_privateKeyPath :: string
  jr_publicKeyPath :: string
  jr_secret :: string
  jr_proxy :: SshProxyOptions
  jr_proxySecret :: string
  jr_connectionTimeoutSeconds :: u16
  jr_authenticationTimeoutSeconds :: u16

record SshConnectionRequest =
  cr_host :: string
  cr_port :: u16
  cr_username :: string
  cr_authentication :: SshAuthenticationMethod
  cr_privateKeyPath :: string
  cr_publicKeyPath :: string
  cr_secret :: string
  cr_proxy :: SshProxyOptions
  cr_proxySecret :: string
  cr_jumpHosts :: "SshJumpHostRequest list"
  cr_knownHostsPath :: string
  cr_sessionOptions :: SshSessionOptions

text \<open>What the templates of the request and of the bootstrap read of either kind of endpoint.\<close>

record EndpointView =
  e_host :: string
  e_port :: u16
  e_username :: string
  e_authentication :: SshAuthenticationMethod
  e_privateKeyPath :: string
  e_publicKeyPath :: string
  e_secret :: string
  e_proxy :: SshProxyOptions
  e_proxySecret :: string
  e_displayName :: "string option"
  e_connectionTimeout :: u16
  e_authenticationTimeout :: u16

definition jump_view :: "SshJumpHostRequest \<Rightarrow> EndpointView" where
  "jump_view j = \<lparr>e_host = jr_host j, e_port = jr_port j, e_username = jr_username j,
     e_authentication = jr_authentication j, e_privateKeyPath = jr_privateKeyPath j,
     e_publicKeyPath = jr_publicKeyPath j, e_secret = jr_secret j, e_proxy = jr_proxy j,
     e_proxySecret = jr_proxySecret j, e_displayName = Some (jr_displayName j),
     e_connectionTimeout = jr_connectionTimeoutSeconds j, e_authenticationTimeout = jr_authenticationTimeoutSeconds j\<rparr>"

definition target_view :: "SshConnectionRequest \<Rightarrow> EndpointView" where
  "target_view r = \<lparr>e_host = cr_host r, e_port = cr_port r, e_username = cr_username r,
     e_authentication = cr_authentication r, e_privateKeyPath = cr_privateKeyPath r,
     e_publicKeyPath = cr_publicKeyPath r, e_secret = cr_secret r, e_proxy = cr_proxy r,
     e_proxySecret = cr_proxySecret r, e_displayName = None,
     e_connectionTimeout = so_connectionTimeoutSeconds (cr_sessionOptions r),
     e_authenticationTimeout = so_authenticationTimeoutSeconds (cr_sessionOptions r)\<rparr>"

text \<open>\<open>trimmed\<close> is \<open>QString::trimmed\<close>; only a jump host has timeouts of its own, which are checked.\<close>

definition endpoint_settings_ok :: "(string \<Rightarrow> string) \<Rightarrow> EndpointView \<Rightarrow> bool" where
  "endpoint_settings_ok trim e \<longleftrightarrow>
     (if trim (e_host e) = [] \<or> e_port e = 0 \<or> e_username e = [] \<or> \<not> validSshProxyOptions (e_proxy e)
         \<or> (if po_username (e_proxy e) = [] then e_proxySecret e \<noteq> [] else e_proxySecret e = [])
      then False
      else case e_authentication e of
        AuthPrivateKey \<Rightarrow> e_privateKeyPath e \<noteq> []
      | AuthPassword \<Rightarrow> e_privateKeyPath e = [] \<and> e_publicKeyPath e = [] \<and> e_secret e \<noteq> []
      | AuthAgent \<Rightarrow> e_privateKeyPath e = [] \<and> e_publicKeyPath e = [] \<and> e_secret e = [])"

definition validJumpHost :: "(string \<Rightarrow> string) \<Rightarrow> SshJumpHostRequest \<Rightarrow> bool" where
  "validJumpHost trim j \<longleftrightarrow>
     (if jr_connectionTimeoutSeconds j = 0 \<or> jr_connectionTimeoutSeconds j > 300 then False
      else if jr_authenticationTimeoutSeconds j = 0 \<or> jr_authenticationTimeoutSeconds j > 300 then False
      else endpoint_settings_ok trim (jump_view j))"

fun jump_hosts_ok :: "(string \<Rightarrow> string) \<Rightarrow> SshJumpHostRequest list \<Rightarrow> bool" where
  "jump_hosts_ok trim [] = True"
| "jump_hosts_ok trim (j # following) =
     (if jr_profileId j = [] \<or> jr_displayName j = [] \<or> \<not> validJumpHost trim j then False
      else if list_ex (\<lambda>k. jr_profileId k = jr_profileId j) following then False
      else jump_hosts_ok trim following)"

definition validSshConnectionRequest :: "(string \<Rightarrow> string) \<Rightarrow> SshConnectionRequest \<Rightarrow> bool" where
  "validSshConnectionRequest trim r \<longleftrightarrow>
     (if cr_knownHostsPath r = [] \<or> \<not> validSshSessionOptions (cr_sessionOptions r)
         \<or> \<not> endpoint_settings_ok trim (target_view r) \<or> length (cr_jumpHosts r) > maximumSshJumpHostCount
      then False else jump_hosts_ok trim (cr_jumpHosts r))"

section \<open>Lemmas\<close>

lemma list_ex_key: "list_ex (\<lambda>w. f w = x) ws \<longleftrightarrow> x \<in> f ` set ws"
  by (auto simp: list_ex_iff)

lemma environment_ok_distinct:
  "environment_ok vs \<longleftrightarrow> (\<forall>v \<in> set vs. validEnvironmentName (ev_name v) \<and> ssh_validBoundedText (ev_value v) 4096)
     \<and> distinct (map ev_name vs)"
  by (induction vs) (auto simp: list_ex_key)

lemma jump_ids_ok_iff:
  "jump_ids_ok own js \<longleftrightarrow> own \<notin> set js \<and> (\<forall>j \<in> set js. validCredentialReference (Some j)) \<and> distinct js"
  by (induction js) auto

lemma jump_hosts_ok_iff:
  "jump_hosts_ok trim js \<longleftrightarrow> (\<forall>j \<in> set js. jr_profileId j \<noteq> [] \<and> jr_displayName j \<noteq> [] \<and> validJumpHost trim j)
     \<and> distinct (map jr_profileId js)"
  by (induction js) (auto simp: list_ex_key)

text \<open>Every endpoint of a valid request is usable; the target's timeouts are those of its session options.\<close>

definition hops :: "SshConnectionRequest \<Rightarrow> EndpointView list" where
  "hops r = map jump_view (cr_jumpHosts r) @ [target_view r]"

lemma valid_request_hops:
  assumes "validSshConnectionRequest trim r" and "e \<in> set (hops r)"
  shows "endpoint_settings_ok trim e \<and> 0 < unat (e_connectionTimeout e) \<and> unat (e_connectionTimeout e) \<le> 300
    \<and> 0 < unat (e_authenticationTimeout e) \<and> unat (e_authenticationTimeout e) \<le> 300"
proof -
  have u: "x \<noteq> 0 \<Longrightarrow> \<not> x > 300 \<Longrightarrow> 0 < unat x \<and> unat x \<le> 300" for x :: u16
    by (auto simp: unat_gt_0 word_less_nat_alt)
  show ?thesis
    using assms u
    by (auto simp: hops_def validSshConnectionRequest_def jump_hosts_ok_iff validJumpHost_def validSshSessionOptions_def
        jump_view_def target_view_def split: if_splits)
qed

text \<open>The loop doubles until the cap, and at 30 seconds it stays.\<close>

lemma cap_scaled: "1 \<le> k \<Longrightarrow> min (min a c * k) c = min (a * k) (c :: nat)"
proof (cases "a \<le> c")
  case False
  assume k: "1 \<le> k"
  have "c * 1 \<le> c * k" "c * 1 \<le> a * k" using k False mult_le_mono [of c a 1 k] by simp_all
  then have "min (a * k) c = c" "min (c * k) c = c" "min a c = c" using False by (simp_all only: min_absorb2 mult_1_right nat_le_linear not_le less_imp_le)
  then show ?thesis by simp
qed simp

lemma backoff_closed:
  assumes "unat d \<le> 30000"
  shows "unat (backoff_loop n d) = min (unat d * 2 ^ n) 30000"
  using assms
proof (induction n arbitrary: d)
  case 0
  then show ?case by simp
next
  case (Suc n)
  show ?case
  proof (cases "unat d < 30000")
    case True
    let ?m = "min (d * 2) 30000"
    have double: "unat (d * 2) = unat d * 2" using True by (simp add: unat_word_ariths)
    have m: "unat ?m = min (unat d * 2) 30000"
      by (auto simp: min_def word_le_nat_alt double)
    have "unat (backoff_loop n ?m) = min (unat ?m * 2 ^ n) 30000" by (rule Suc.IH) (simp add: m)
    moreover have "min (unat ?m * 2 ^ n) 30000 = min (unat d * 2 ^ Suc n) (30000 :: nat)"
      unfolding m using cap_scaled [of "2 ^ n" "unat d * 2" 30000] by (simp add: mult.assoc)
    ultimately show ?thesis using True by (simp add: word_less_nat_alt)
  next
    case False
    then have "unat d = 30000" using Suc.prems by simp
    then show ?thesis using cap_scaled [of "2 ^ Suc n" 30000 30000] by (simp add: word_less_nat_alt)
  qed
qed

section \<open>Properties\<close>

text \<open>
  With valid session options the wait before the n-th reconnection is the initial one doubled n-1 times
  and capped at thirty seconds: at least the configured 250 ms, never more than the cap, and without the
  32-bit arithmetic ever wrapping.
\<close>

theorem reconnect_backoff:
  assumes "validSshSessionOptions options" and "attempt \<noteq> 0"
  shows "unat (reconnectBackoffMilliseconds options attempt)
      = min (unat (so_reconnectInitialBackoffMilliseconds options) * 2 ^ (unat attempt - 1)) 30000
    \<and> 250 \<le> unat (reconnectBackoffMilliseconds options attempt)"
proof -
  let ?d = "so_reconnectInitialBackoffMilliseconds options"
  have d: "250 \<le> unat ?d" "unat ?d \<le> 30000"
    using assms(1) by (auto simp: validSshSessionOptions_def word_less_nat_alt split: if_splits)
  have u: "unat (ucast ?d :: u32) = unat ?d" by (simp add: unsigned_ucast_eq take_bit_nat_eq_self_iff less_le_trans [OF unsigned_less])
  have eq: "unat (reconnectBackoffMilliseconds options attempt) = min (unat ?d * 2 ^ (unat attempt - 1)) 30000"
    using backoff_closed [of "ucast ?d" "unat attempt - 1"] d assms(2)
    by (auto simp: reconnectBackoffMilliseconds_def u)
  have "unat ?d \<le> unat ?d * 2 ^ (unat attempt - 1)" by simp
  with d(1) have "250 \<le> unat ?d * 2 ^ (unat attempt - 1)" by (rule order_trans)
  then have "250 \<le> min (unat ?d * 2 ^ (unat attempt - 1)) 30000" by simp
  then show ?thesis using eq by simp
qed

definition sample_options :: SshSessionOptions where
  "sample_options = \<lparr>so_terminalType = ''xterm-256color'', so_connectionTimeoutSeconds = 10,
     so_authenticationTimeoutSeconds = 30, so_terminalOpenTimeoutSeconds = 30, so_keepaliveIntervalSeconds = 30,
     so_keepaliveFailureThreshold = 3, so_startupCommand = [], so_startupCommandMode = StartupPaste,
     so_startupLineDelayMilliseconds = 100, so_environment = [], so_reconnectPolicy = ReconnectNever,
     so_reconnectMaximumAttempts = 3, so_reconnectInitialBackoffMilliseconds = 1000\<rparr>"

lemma sample_options_valid: "validSshSessionOptions sample_options"
  by (simp add: validSshSessionOptions_def sample_options_def validTerminalType_def nonEmptyWithin_def is_alnum_def
    is_alpha_def is_digit_def ssh_validBoundedText_def)

theorem reconnect_backoff_witness:
  "unat (reconnectBackoffMilliseconds sample_options 6)
      = min (unat (so_reconnectInitialBackoffMilliseconds sample_options) * 2 ^ (unat (6 :: byte) - 1)) 30000
    \<and> 250 \<le> unat (reconnectBackoffMilliseconds sample_options 6)"
  by (rule reconnect_backoff [OF sample_options_valid]) simp

end
