(* ===== verification/Ssh_Bootstrap.thy ===== *)
theory Ssh_Bootstrap
  imports Ssh_Session Ssh_Profile Known_Hosts
begin

text \<open>
  Making an authenticated SSH connection: \<open>src/application/ssh/SshConnectionBootstrap\<close>, hop by hop through
  the jump hosts, over the session of \<open>Ssh_Session\<close>, the proxy tunnel of \<open>Proxy_Tunnel\<close> and the store of
  \<open>Known_Hosts\<close>.

  The state \<open>'w BootState\<close> is the world with a log of what the bootstrap told and asked its caller and of
  the credentials it was about to use.  The record \<open>BootEnv\<close> has what it gets from elsewhere: the socket of
  the operating system, libssh2, the store's file, the callbacks, and Qt's \<open>trimmed\<close>.  A transport is a
  number; \<open>be_streams\<close> gives its byte stream to the tunnel.
\<close>

datatype TcpConnectErrorKind =
    TcpInvalidEndpoint | TcpNameResolutionFailed | TcpConnectionRefused | TcpTimedOut | TcpCancelled
  | TcpNetworkUnreachable | TcpSystemError

datatype SshBootstrapErrorReason = ConnectionFailure | KnownHostsSaveFailed

record SshBootstrapError =
  sbe_failure :: SshFailureKind
  sbe_reason :: SshBootstrapErrorReason

definition connectionError :: "SshFailureKind \<Rightarrow> SshBootstrapError" where
  "connectionError failure = \<lparr>sbe_failure = failure, sbe_reason = ConnectionFailure\<rparr>"

fun failureFromTcp :: "TcpConnectErrorKind \<Rightarrow> SshFailureKind" where
  "failureFromTcp TcpNameResolutionFailed = NameResolutionFailed"
| "failureFromTcp TcpConnectionRefused = SshFailureKind.ConnectionRefused"
| "failureFromTcp TcpTimedOut = SshFailureKind.TimedOut"
| "failureFromTcp TcpCancelled = SshFailureKind.Cancelled"
| "failureFromTcp TcpInvalidEndpoint = TransportError"
| "failureFromTcp TcpNetworkUnreachable = TransportError"
| "failureFromTcp TcpSystemError = TransportError"

fun failureFromProxy :: "ExplicitProxyErrorKind \<Rightarrow> SshFailureKind" where
  "failureFromProxy AuthenticationRequired = AuthenticationRejected"
| "failureFromProxy ProxyAuthenticationRejected = AuthenticationRejected"
| "failureFromProxy ProxyTimedOut = SshFailureKind.TimedOut"
| "failureFromProxy ProxyCancelled = SshFailureKind.Cancelled"
| "failureFromProxy ProxyConnectionLost = TransportError"
| "failureFromProxy ConnectionRejected = TransportError"
| "failureFromProxy InvalidConfiguration = SshFailureKind.ProtocolError"
| "failureFromProxy ProxyProtocolError = SshFailureKind.ProtocolError"

fun sshFailureFromTransport :: "SshTransportErrorKind \<Rightarrow> bool \<Rightarrow> SshFailureKind" where
  "sshFailureFromTransport TransportTimedOut openingChannel = SshFailureKind.TimedOut"
| "sshFailureFromTransport TransportCancelled openingChannel = SshFailureKind.Cancelled"
| "sshFailureFromTransport TransportAuthenticationRejected openingChannel = AuthenticationRejected"
| "sshFailureFromTransport TransportAuthenticationUnavailable openingChannel = AuthenticationUnavailable"
| "sshFailureFromTransport TransportConnectionLost openingChannel = RemoteClosed"
| "sshFailureFromTransport kind openingChannel =
     (if openingChannel then ChannelOpenFailed else SshFailureKind.ProtocolError)"

datatype BootEvent =
    EvPhase SshConnectionPhase
  | EvHosts "KnownHostEntry list"
  | EvAsked SshEndpoint ObservedHostKey UnknownHostKeyDecision
  | EvKeyChanged SshEndpoint ObservedHostKey
  | EvCredentials nat SshEndpoint

record 'w BootState =
  bs_world :: 'w
  bs_log :: "BootEvent list"

record 'w BootEnv =
  be_lib :: "'w Libssh2"
  be_connect :: "string \<Rightarrow> u16 \<Rightarrow> u16 \<Rightarrow> 'w \<Rightarrow> (TcpConnectErrorKind + nat) \<times> 'w"
  be_streams :: "nat \<Rightarrow> 'w SshByteTransport"
  be_create :: "'w \<Rightarrow> bool \<times> 'w"
  be_channelTransport :: "nat \<Rightarrow> nat \<Rightarrow> 'w \<Rightarrow> nat \<times> 'w"
  be_codec :: HostsCodec
  be_io :: "'w \<Rightarrow> StoreIo"
  be_file :: "'w \<Rightarrow> string option"
  be_setFile :: "string option \<Rightarrow> 'w \<Rightarrow> 'w"
  be_confirm :: "SshEndpoint \<Rightarrow> ObservedHostKey \<Rightarrow> 'w \<Rightarrow> UnknownHostKeyDecision \<times> 'w"
  be_trim :: "string \<Rightarrow> string"

type_synonym ('w, 'a) boot = "('w BootState, SshBootstrapError, 'a) attempt"

definition boot_fail :: "SshBootstrapError \<Rightarrow> ('w, 'a) boot" where
  "boot_fail e b = Some (Inl e, b)"

definition boot_return :: "'a \<Rightarrow> ('w, 'a) boot" where
  "boot_return a b = Some (Inr a, b)"

definition boot_log :: "BootEvent \<Rightarrow> 'w BootState \<Rightarrow> 'w BootState" where
  "boot_log e b = b\<lparr>bs_log := bs_log b @ [e]\<rparr>"

definition publishPhase :: "SshConnectionPhase \<Rightarrow> ('w, unit) boot" where
  "publishPhase phase b = Some (Inr (), boot_log (EvPhase phase) b)"

section \<open>Transports\<close>

definition endpoint_timeout :: "u16 \<Rightarrow> int" where
  "endpoint_timeout seconds = 1000 * int (unat seconds)"

definition proxy_tunnel :: "'w BootEnv \<Rightarrow> EndpointView \<Rightarrow> nat \<Rightarrow> ('w, nat) boot" where
  "proxy_tunnel E e transport b =
     (if po_type (e_proxy e) = NoProxy then boot_return transport b
      else case establishExplicitProxyTunnel (be_streams E transport) (po_type (e_proxy e)) (be_trim E (e_host e))
             (e_port e) (po_username (e_proxy e)) (e_proxySecret e) (endpoint_timeout (e_connectionTimeout e)) (bs_world b)
        of None \<Rightarrow> None
         | Some (Inl err, w) \<Rightarrow> Some (Inl (connectionError (failureFromProxy (pe_kind err))), b\<lparr>bs_world := w\<rparr>)
         | Some (Inr _, w) \<Rightarrow> Some (Inr transport, b\<lparr>bs_world := w\<rparr>))"

definition connect_host :: "'w BootEnv \<Rightarrow> EndpointView \<Rightarrow> string" where
  "connect_host E e = (if po_type (e_proxy e) = NoProxy then be_trim E (e_host e) else po_host (e_proxy e))"

definition connect_port :: "EndpointView \<Rightarrow> u16" where
  "connect_port e = (if po_type (e_proxy e) = NoProxy then e_port e else po_port (e_proxy e))"

definition connectInitialTransport :: "'w BootEnv \<Rightarrow> EndpointView \<Rightarrow> ('w, nat) boot" where
  "connectInitialTransport E e b =
     (case be_connect E (connect_host E e) (connect_port e) (e_connectionTimeout e) (bs_world b) of
        (Inl kind, w) \<Rightarrow> Some (Inl (connectionError (failureFromTcp kind)), b\<lparr>bs_world := w\<rparr>)
      | (Inr transport, w) \<Rightarrow> proxy_tunnel E e transport (b\<lparr>bs_world := w\<rparr>))"

text \<open>\<open>SshDirectTcpipTransport::create\<close>: a channel of the authenticated upstream session becomes a transport.\<close>

definition directTcpipTransport ::
  "'w BootEnv \<Rightarrow> nat \<Rightarrow> Libssh2Session \<Rightarrow> string \<Rightarrow> u16 \<Rightarrow> int \<Rightarrow> 'w \<Rightarrow> ((SshTransportError + nat) \<times> 'w) option" where
  "directTcpipTransport E upstream session host port timeout w =
     (if \<not> tr_valid (be_lib E) upstream w \<or> \<not> ls_authenticated session
      then Some (Inl (transport_error TransportInvalidState), w)
      else case openDirectTcpip (be_lib E) upstream host port timeout session w of
        None \<Rightarrow> None
      | Some (Inl err, session', w') \<Rightarrow> Some (Inl err, w')
      | Some (Inr channel, session', w') \<Rightarrow>
          (case be_channelTransport E upstream channel w' of (transport, w'') \<Rightarrow> Some (Inr transport, w'')))"

definition connectTransportThroughJump ::
  "'w BootEnv \<Rightarrow> nat \<Rightarrow> Libssh2Session \<Rightarrow> EndpointView \<Rightarrow> ('w, nat) boot" where
  "connectTransportThroughJump E upstream session e b =
     (case directTcpipTransport E upstream session (connect_host E e) (connect_port e)
             (endpoint_timeout (e_connectionTimeout e)) (bs_world b)
      of None \<Rightarrow> None
       | Some (Inl err, w) \<Rightarrow> Some (Inl (connectionError (sshFailureFromTransport (se_kind err) True)), b\<lparr>bs_world := w\<rparr>)
       | Some (Inr transport, w) \<Rightarrow> proxy_tunnel E e transport (b\<lparr>bs_world := w\<rparr>))"

section \<open>One hop\<close>

text \<open>An operation of the session inside the bootstrap.\<close>

definition session_boot :: "('w, 'a) session_op \<Rightarrow> Libssh2Session \<Rightarrow> ('w, Libssh2Session) boot" where
  "session_boot operation session b =
     (case operation session (bs_world b) of
        None \<Rightarrow> None
      | Some (Inl err, session', w) \<Rightarrow>
          Some (Inl (connectionError (sshFailureFromTransport (se_kind err) False)), b\<lparr>bs_world := w\<rparr>)
      | Some (Inr _, session', w) \<Rightarrow> Some (Inr session', b\<lparr>bs_world := w\<rparr>))"

definition create_session :: "'w BootEnv \<Rightarrow> ('w, Libssh2Session) boot" where
  "create_session E b =
     (case be_create E (bs_world b) of
        (True, w) \<Rightarrow> Some (Inr session_new, b\<lparr>bs_world := w\<rparr>)
      | (False, w) \<Rightarrow> Some (Inl (connectionError SshFailureKind.ProtocolError), b\<lparr>bs_world := w\<rparr>))"

definition load_hosts :: "'w BootEnv \<Rightarrow> string \<Rightarrow> 'w \<Rightarrow> KnownHostsStoreError + KnownHostEntry list" where
  "load_hosts E path w = loadUnlocked (be_codec E) (be_io E w) path (be_file E w)"

definition merge_hosts ::
  "'w BootEnv \<Rightarrow> string \<Rightarrow> KnownHostEntry list \<Rightarrow> 'w \<Rightarrow> (KnownHostsStoreError + KnownHostsMergeResult) \<times> 'w" where
  "merge_hosts E path entries w =
     (case mergeMissing (be_codec E) (be_io E w) path entries (be_file E w) of
        (file', r) \<Rightarrow> (r, be_setFile E file' w))"

text \<open>The user is asked about an unknown key; what is accepted is known to the second check.\<close>

definition confirm_unknown ::
  "'w BootEnv \<Rightarrow> string \<Rightarrow> SshEndpoint \<Rightarrow> ObservedHostKey \<Rightarrow> KnownHostEntry list \<Rightarrow> Libssh2Session
    \<Rightarrow> ('w, Libssh2Session) boot" where
  "confirm_unknown E path endpoint hostKey knownHosts session b0 =
     (let b = boot_log (EvPhase AwaitingHostKeyConfirmation) b0 in
      case be_confirm E endpoint hostKey (bs_world b) of (decision, w) \<Rightarrow>
        let b = (boot_log (EvAsked endpoint hostKey decision) b)\<lparr>bs_world := w\<rparr>;
            accepted = entry_for endpoint hostKey;
            recheck = (\<lambda>hosts b.
              case verifyHostKey (be_lib E) endpoint hosts session of
                (Inr Trusted, session') \<Rightarrow> Some (Inr session', b)
              | (outcome, session') \<Rightarrow> Some (Inl (connectionError HostKeyInvalid), b))
        in case decision of
             RejectHostKey \<Rightarrow>
               boot_fail (connectionError (if stop_requested (be_lib E) w then SshFailureKind.Cancelled else HostKeyInvalid)) b
           | AcceptAndRemember \<Rightarrow>
               (case merge_hosts E path [accepted] w of
                  (Inr merged, w') \<Rightarrow>
                    if mr_conflicts merged \<noteq> 0
                    then Some (Inl \<lparr>sbe_failure = HostKeyInvalid, sbe_reason = KnownHostsSaveFailed\<rparr>, b\<lparr>bs_world := w'\<rparr>)
                    else recheck (mr_entries merged) (b\<lparr>bs_world := w'\<rparr>)
                | (Inl err, w') \<Rightarrow>
                    Some (Inl \<lparr>sbe_failure = HostKeyInvalid, sbe_reason = KnownHostsSaveFailed\<rparr>, b\<lparr>bs_world := w'\<rparr>))
           | AcceptOnce \<Rightarrow> recheck (knownHosts @ [accepted]) b)"

definition check_host_key ::
  "'w BootEnv \<Rightarrow> string \<Rightarrow> EndpointView \<Rightarrow> Libssh2Session \<Rightarrow> ('w, Libssh2Session) boot" where
  "check_host_key E path e session b =
     (case (ssh_hostKey (be_lib E) session, load_hosts E path (bs_world b)) of
        (Inr hostKey, Inr knownHosts) \<Rightarrow>
          let endpoint = \<lparr>ep_host = be_trim E (e_host e), ep_port = e_port e\<rparr>;
              b = boot_log (EvHosts knownHosts) b in
          (case verifyHostKey (be_lib E) endpoint knownHosts session of
             (Inl err, session') \<Rightarrow> boot_fail (connectionError HostKeyInvalid) b
           | (Inr trust, session') \<Rightarrow>
               if trust = ChangedHostKey
               then Some (Inl (connectionError HostKeyChanged), boot_log (EvKeyChanged endpoint hostKey) b)
               else if trust = UnknownHostKey
               then confirm_unknown E path endpoint hostKey knownHosts session' b
               else boot_return session' b)
      | (_, _) \<Rightarrow> boot_fail (connectionError HostKeyInvalid) b)"

definition authenticate_with :: "'w BootEnv \<Rightarrow> nat \<Rightarrow> EndpointView \<Rightarrow> ('w, unit) session_op" where
  "authenticate_with E transport e =
     (let timeout = endpoint_timeout (e_authenticationTimeout e) in
      case e_authentication e of
        AuthPrivateKey \<Rightarrow> authenticateWithPrivateKeyFile (be_lib E) transport (e_username e) (e_privateKeyPath e)
          (e_publicKeyPath e) (e_secret e) timeout
      | AuthPassword \<Rightarrow> authenticateWithPassword (be_lib E) transport (e_username e) (e_secret e) timeout
      | AuthAgent \<Rightarrow> authenticateWithAgent (be_lib E) transport (e_username e) timeout)"

text \<open>The log notes credentials only when the session will go on to use them.\<close>

definition authenticate_hop ::
  "'w BootEnv \<Rightarrow> nat \<Rightarrow> EndpointView \<Rightarrow> Libssh2Session \<Rightarrow> ('w, Libssh2Session) boot" where
  "authenticate_hop E transport e session b =
     session_boot (authenticate_with E transport e) session
       (if auth_refused (be_lib E) transport session (bs_world b) then b
        else boot_log (EvCredentials transport \<lparr>ep_host = be_trim E (e_host e), ep_port = e_port e\<rparr>) b)"

definition authenticateEndpoint :: "'w BootEnv \<Rightarrow> string \<Rightarrow> EndpointView \<Rightarrow> nat \<Rightarrow> ('w, Libssh2Session) boot" where
  "authenticateEndpoint E path e transport =
     andThen (create_session E) (\<lambda>session.
     andThen (publishPhase Handshaking) (\<lambda>_.
     andThen (session_boot (ssh_handshake (be_lib E) transport (endpoint_timeout (e_connectionTimeout e))) session) (\<lambda>session.
     andThen (publishPhase VerifyingHostKey) (\<lambda>_.
     andThen (check_host_key E path e session) (\<lambda>session.
     andThen (publishPhase Authenticating) (\<lambda>_.
     authenticate_hop E transport e session))))))"

section \<open>The chain of hops\<close>

fun boot_rest ::
  "'w BootEnv \<Rightarrow> string \<Rightarrow> nat \<times> Libssh2Session \<Rightarrow> EndpointView list \<Rightarrow> ('w, nat \<times> Libssh2Session) boot" where
  "boot_rest E path link [] = boot_return link"
| "boot_rest E path (transport, session) (e # following) =
     andThen (publishPhase Connecting) (\<lambda>_.
     andThen (connectTransportThroughJump E transport session e) (\<lambda>nextTransport.
     andThen (authenticateEndpoint E path e nextTransport) (\<lambda>nextSession.
     boot_rest E path (nextTransport, nextSession) following)))"

definition boot_first :: "'w BootEnv \<Rightarrow> string \<Rightarrow> EndpointView \<Rightarrow> ('w, nat \<times> Libssh2Session) boot" where
  "boot_first E path e =
     andThen (connectInitialTransport E e) (\<lambda>transport.
     andThen (authenticateEndpoint E path e transport) (\<lambda>session.
     boot_return (transport, session)))"

definition establishAuthenticatedSshConnection ::
  "'w BootEnv \<Rightarrow> SshConnectionRequest \<Rightarrow> ('w, nat \<times> Libssh2Session) boot" where
  "establishAuthenticatedSshConnection E request =
     (if \<not> validSshConnectionRequest (be_trim E) request
      then boot_fail (connectionError SshFailureKind.ProtocolError)
      else andThen (publishPhase Connecting) (\<lambda>_.
        case cr_jumpHosts request of
          [] \<Rightarrow> boot_first E (cr_knownHostsPath request) (target_view request)
        | first # following \<Rightarrow>
            andThen (boot_first E (cr_knownHostsPath request) (jump_view first)) (\<lambda>link.
            boot_rest E (cr_knownHostsPath request) link (map jump_view following @ [target_view request]))))"

text \<open>\<open>RequestSecretsClearGuard\<close>: when the bootstrap returns, however it does, the request holds no secret.\<close>

definition clearSecrets :: "SshConnectionRequest \<Rightarrow> SshConnectionRequest" where
  "clearSecrets r = r\<lparr>cr_secret := [], cr_proxySecret := [],
     cr_jumpHosts := map (\<lambda>j. j\<lparr>jr_secret := [], jr_proxySecret := []\<rparr>) (cr_jumpHosts r)\<rparr>"

section \<open>What one hop logs\<close>

abbreviation hop_endpoint :: "'w BootEnv \<Rightarrow> EndpointView \<Rightarrow> SshEndpoint" where
  "hop_endpoint E e \<equiv> \<lparr>ep_host = be_trim E (e_host e), ep_port = e_port e\<rparr>"

text \<open>A session that has done its handshake on a transport, and the key libssh2 has for it.\<close>

definition handshaken :: "nat \<Rightarrow> Libssh2Session" where
  "handshaken transport = session_new\<lparr>ls_transport := Some transport, ls_handshakeComplete := True\<rparr>"

text \<open>The events of a key check, by their outcome.\<close>

definition check_log ::
  "SshEndpoint \<Rightarrow> ObservedHostKey \<Rightarrow> SshBootstrapError + Libssh2Session \<Rightarrow> BootEvent list \<Rightarrow> bool" where
  "check_log ep key r new \<longleftrightarrow>
     isl r \<and> (new = [] \<or> (\<exists>hs. new = [EvHosts hs])
       \<or> (\<exists>hs. new = [EvHosts hs, EvKeyChanged ep key] \<and> r = Inl (connectionError HostKeyChanged))
       \<or> (\<exists>hs d. new = [EvHosts hs, EvPhase AwaitingHostKeyConfirmation, EvAsked ep key d]))
     \<or> (\<exists>hs s. r = Inr s \<and> new = [EvHosts hs] \<and> (ls_hostKeyVerified s \<longrightarrow> entry_for ep key \<in> set hs))
     \<or> (\<exists>hs s d. r = Inr s \<and> d \<noteq> RejectHostKey
         \<and> new = [EvHosts hs, EvPhase AwaitingHostKeyConfirmation, EvAsked ep key d])"

lemma verifyHostKey_result:
  assumes "ssh_hostKey L s = Inr key"
  shows "verifyHostKey L endpoint hosts s = (Inr (evaluateHostKeyTrust endpoint key hosts),
    s\<lparr>ls_hostKeyVerified := (evaluateHostKeyTrust endpoint key hosts = Trusted)\<rparr>)"
  using assms by (simp add: verifyHostKey_def Let_def)

lemma hostKey_verified [simp]: "ssh_hostKey L (s\<lparr>ls_hostKeyVerified := v\<rparr>) = ssh_hostKey L s"
  by (simp add: ssh_hostKey_def split: option.split)

lemma boot_log_append [simp]: "bs_log (boot_log e b) = bs_log b @ [e]" "bs_world (boot_log e b) = bs_world b"
  by (simp_all add: boot_log_def)

text \<open>Asking the user: the answer is logged, and after an accepting one the key is trusted.\<close>

lemma confirm_result:
  assumes "confirm_unknown E path ep key hosts s b = Some (r, b')" and "ssh_hostKey (be_lib E) s = Inr key"
  shows "\<exists>d. bs_log b' = bs_log b @ [EvPhase AwaitingHostKeyConfirmation, EvAsked ep key d]
    \<and> (\<not> isl r \<longrightarrow> d \<noteq> RejectHostKey \<and> r = Inr (s\<lparr>ls_hostKeyVerified := True\<rparr>))"
proof -
  obtain d w where d: "be_confirm E ep key (bs_world b) = (d, w)" by fastforce
  note v = verifyHostKey_result [OF assms(2)]
  show ?thesis
    using assms(1) d v
    by (intro exI [of _ d])
      (auto simp: confirm_unknown_def boot_fail_def Let_def split: UnknownHostKeyDecision.splits sum.splits prod.splits
        if_splits HostKeyTrust.splits)
qed

lemma check_result:
  assumes "check_host_key E path e s b = Some (r, b')"
  shows "(bs_log b' = bs_log b \<and> isl r)
    \<or> (\<exists>key new. ssh_hostKey (be_lib E) s = Inr key \<and> bs_log b' = bs_log b @ new \<and> check_log (hop_endpoint E e) key r new
        \<and> (\<forall>s'. r = Inr s' \<longrightarrow> (\<exists>v. s' = s\<lparr>ls_hostKeyVerified := v\<rparr>)))"
proof (cases "ssh_hostKey (be_lib E) s")
  case (Inl err)
  then show ?thesis using assms by (auto simp: check_host_key_def boot_fail_def)
next
  case (Inr key)
  show ?thesis
  proof (cases "load_hosts E path (bs_world b)")
    case (Inl err)
    then show ?thesis using assms Inr by (auto simp: check_host_key_def boot_fail_def)
  next
    case hosts: (Inr hosts)
    let ?ep = "hop_endpoint E e"
    define trust where "trust = evaluateHostKeyTrust ?ep key hosts"
    note v = verifyHostKey_result [OF Inr, of ?ep hosts]
    have body: "check_host_key E path e s b =
      (if trust = ChangedHostKey
       then Some (Inl (connectionError HostKeyChanged), boot_log (EvKeyChanged ?ep key) (boot_log (EvHosts hosts) b))
       else if trust = UnknownHostKey
       then confirm_unknown E path ?ep key hosts (s\<lparr>ls_hostKeyVerified := (trust = Trusted)\<rparr>) (boot_log (EvHosts hosts) b)
       else boot_return (s\<lparr>ls_hostKeyVerified := (trust = Trusted)\<rparr>) (boot_log (EvHosts hosts) b))"
      by (simp add: check_host_key_def Inr hosts v trust_def Let_def)
    have "\<exists>new. bs_log b' = bs_log b @ new \<and> check_log ?ep key r new \<and> (\<forall>s'. r = Inr s' \<longrightarrow> (\<exists>v. s' = s\<lparr>ls_hostKeyVerified := v\<rparr>))"
    proof (cases "trust = UnknownHostKey")
      case True
      then have "confirm_unknown E path ?ep key hosts (s\<lparr>ls_hostKeyVerified := False\<rparr>) (boot_log (EvHosts hosts) b) = Some (r, b')"
        using assms body by simp
      from confirm_result [OF this] obtain d where d:
        "bs_log b' = bs_log b @ [EvHosts hosts, EvPhase AwaitingHostKeyConfirmation, EvAsked ?ep key d]"
        "\<not> isl r \<longrightarrow> d \<noteq> RejectHostKey \<and> r = Inr (s\<lparr>ls_hostKeyVerified := True\<rparr>)"
        using Inr by auto
      then have "check_log ?ep key r [EvHosts hosts, EvPhase AwaitingHostKeyConfirmation, EvAsked ?ep key d]"
        by (cases r) (auto simp: check_log_def)
      then show ?thesis using d by (intro exI [of _ "[EvHosts hosts, EvPhase AwaitingHostKeyConfirmation, EvAsked ?ep key d]"]) auto
    next
      case False
      show ?thesis
      proof (cases "trust = ChangedHostKey")
        case True
        then have "r = Inl (connectionError HostKeyChanged)" "bs_log b' = bs_log b @ [EvHosts hosts, EvKeyChanged ?ep key]"
          using assms body by auto
        then show ?thesis by (intro exI [of _ "[EvHosts hosts, EvKeyChanged ?ep key]"]) (simp add: check_log_def)
      next
        case no: False
        then have "r = Inr (s\<lparr>ls_hostKeyVerified := (trust = Trusted)\<rparr>)" "bs_log b' = bs_log b @ [EvHosts hosts]"
          using assms body False by (auto simp: boot_return_def)
        then show ?thesis using Trusted_in [of ?ep key hosts]
          by (intro exI [of _ "[EvHosts hosts]"]) (auto simp: check_log_def trust_def)
      qed
    qed
    then show ?thesis using Inr by blast
  qed
qed

text \<open>The log of a whole hop.\<close>

definition hop_log ::
  "nat \<Rightarrow> SshEndpoint \<Rightarrow> SshTransportError + ObservedHostKey \<Rightarrow> SshBootstrapError + Libssh2Session \<Rightarrow> BootEvent list \<Rightarrow> bool" where
  "hop_log transport ep key r new \<longleftrightarrow>
     isl r \<and> (new = [] \<or> new = [EvPhase Handshaking] \<or> new = [EvPhase Handshaking, EvPhase VerifyingHostKey])
     \<or> (\<exists>k e checked. isl r \<and> key = Inr k \<and> check_log ep k (Inl e) checked \<and> r = Inl e
         \<and> new = [EvPhase Handshaking, EvPhase VerifyingHostKey] @ checked)
     \<or> (\<exists>k s checked creds. key = Inr k \<and> check_log ep k (Inr s) checked
         \<and> new = [EvPhase Handshaking, EvPhase VerifyingHostKey] @ checked @ [EvPhase Authenticating] @ creds
         \<and> (creds = [] \<and> isl r \<or> creds = [EvCredentials transport ep] \<and> ls_hostKeyVerified s))"

lemma authenticate_hop_result:
  assumes "authenticate_hop E transport e s b = Some (r, b')"
  shows "\<exists>creds. bs_log b' = bs_log b @ creds
    \<and> (creds = [] \<and> isl r \<or> creds = [EvCredentials transport (hop_endpoint E e)] \<and> ls_hostKeyVerified s)
    \<and> (\<forall>s'. r = Inr s' \<longrightarrow> s' = s\<lparr>ls_authenticated := True\<rparr> \<and> ls_hostKeyVerified s)"
proof -
  let ?L = "be_lib E" and ?refused = "auth_refused (be_lib E) transport s (bs_world b)"
  obtain r1 s1 w1 where op: "authenticate_with E transport e s (bs_world b) = Some (r1, s1, w1)"
    and r: "r = (case r1 of Inl err \<Rightarrow> Inl (connectionError (sshFailureFromTransport (se_kind err) False)) | Inr _ \<Rightarrow> Inr s1)"
    and log: "bs_log b' = bs_log b @ (if ?refused then [] else [EvCredentials transport (hop_endpoint E e)])"
    using assms by (auto simp: authenticate_hop_def session_boot_def boot_log_def split: option.splits prod.splits sum.splits if_splits)
  have outcome: "(isl r1 \<and> s1 = s) \<or> (s1 = s\<lparr>ls_authenticated := True\<rparr> \<and> \<not> ?refused)"
    by (rule authentication_result [of ?L transport "e_username e" "e_secret e" "endpoint_timeout (e_authenticationTimeout e)"
          s "bs_world b" r1 s1 w1 "e_privateKeyPath e" "e_publicKeyPath e"])
      (use op in \<open>auto simp: authenticate_with_def Let_def split: SshAuthenticationMethod.splits\<close>)
  show ?thesis
  proof (cases ?refused)
    case True
    then obtain err where "r1 = Inl err" using outcome by (cases r1) auto
    then show ?thesis using r log True by (intro exI [of _ "[]"]) simp
  next
    case False
    then have v: "ls_hostKeyVerified s" by (simp add: auth_refused_def)
    have "\<forall>s'. r = Inr s' \<longrightarrow> s' = s\<lparr>ls_authenticated := True\<rparr>" using r outcome by (cases r1) auto
    then show ?thesis using log False v by (intro exI [of _ "[EvCredentials transport (hop_endpoint E e)]"]) simp
  qed
qed

lemma handshake_result:
  assumes "session_boot (ssh_handshake L transport timeout) session_new b = Some (r, b')"
  shows "bs_log b' = bs_log b \<and> (\<forall>s. r = Inr s \<longrightarrow> s = handshaken transport)"
proof -
  obtain r1 s1 w1 where op: "ssh_handshake L transport timeout session_new (bs_world b) = Some (r1, s1, w1)"
    and r: "r = (case r1 of Inl err \<Rightarrow> Inl (connectionError (sshFailureFromTransport (se_kind err) False)) | Inr _ \<Rightarrow> Inr s1)"
    and "bs_log b' = bs_log b"
    using assms by (auto simp: session_boot_def split: option.splits prod.splits sum.splits)
  moreover have "r1 = Inr u \<Longrightarrow> s1 = handshaken transport" for u
    using op by (auto simp: ssh_handshake_def handshaken_def dest!: checked_result looped_result)
  ultimately show ?thesis by (auto split: sum.splits)
qed

lemma andThen_cases:
  assumes "andThen m f t = Some (r, t')"
  obtains e where "m t = Some (Inl e, t')" "r = Inl e"
  | a t1 where "m t = Some (Inr a, t1)" "f a t1 = Some (r, t')"
  using assms by (auto simp: andThen_def split: option.splits prod.splits sum.splits)

lemma hop_result:
  assumes "authenticateEndpoint E path e transport b = Some (r, b')"
  shows "\<exists>new. bs_log b' = bs_log b @ new
    \<and> hop_log transport (hop_endpoint E e) (ssh_hostKey (be_lib E) (handshaken transport)) r new
    \<and> (\<forall>s. r = Inr s \<longrightarrow> ls_authenticated s \<and> ls_hostKeyVerified s)"
  using assms unfolding authenticateEndpoint_def
proof (cases rule: andThen_cases)
  case (1 err)
  then show ?thesis by (intro exI [of _ "[]"]) (auto simp: hop_log_def create_session_def split: prod.splits bool.splits)
next
  case (2 s0 b0)
  then have s0: "s0 = session_new" "bs_log b0 = bs_log b"
    by (auto simp: create_session_def split: prod.splits bool.splits)
  let ?b1 = "boot_log (EvPhase Handshaking) b0"
  from 2(2) have rest: "andThen (session_boot (ssh_handshake (be_lib E) transport (endpoint_timeout (e_connectionTimeout e))) s0) (\<lambda>session.
     andThen (publishPhase VerifyingHostKey) (\<lambda>_.
     andThen (check_host_key E path e session) (\<lambda>session.
     andThen (publishPhase Authenticating) (\<lambda>_.
     authenticate_hop E transport e session)))) ?b1 = Some (r, b')"
    by (simp add: andThen_def publishPhase_def)
  from rest show ?thesis
  proof (cases rule: andThen_cases)
    case (1 err)
    then have "bs_log b' = bs_log b @ [EvPhase Handshaking]" using handshake_result s0 by fastforce
    then show ?thesis using 1(2) by (intro exI [of _ "[EvPhase Handshaking]"]) (simp add: hop_log_def)
  next
    case (2 s1 b2)
    then have s1: "s1 = handshaken transport" "bs_log b2 = bs_log b @ [EvPhase Handshaking]"
      using handshake_result s0 by fastforce+
    let ?b3 = "boot_log (EvPhase VerifyingHostKey) b2"
    let ?pre = "[EvPhase Handshaking, EvPhase VerifyingHostKey]"
    from 2(2) have rest: "andThen (check_host_key E path e s1) (\<lambda>session.
       andThen (publishPhase Authenticating) (\<lambda>_. authenticate_hop E transport e session)) ?b3 = Some (r, b')"
      by (simp add: andThen_def publishPhase_def)
    from rest show ?thesis
    proof (cases rule: andThen_cases)
      case (1 err)
      from check_result [OF 1(1)] show ?thesis
      proof (elim disjE exE conjE)
        assume "bs_log b' = bs_log ?b3"
        then show ?thesis using s1 1(2) by (intro exI [of _ ?pre]) (simp add: hop_log_def)
      next
        fix k new
        assume "ssh_hostKey (be_lib E) s1 = Inr k" "bs_log b' = bs_log ?b3 @ new"
          "check_log (hop_endpoint E e) k (Inl err) new"
        then show ?thesis using s1 1(2) by (intro exI [of _ "?pre @ new"]) (auto simp: hop_log_def)
      qed
    next
      case (2 s2 b4)
      from check_result [OF 2(1)] obtain k new v where check: "ssh_hostKey (be_lib E) s1 = Inr k"
        "bs_log b4 = bs_log ?b3 @ new" "check_log (hop_endpoint E e) k (Inr s2) new" "s2 = s1\<lparr>ls_hostKeyVerified := v\<rparr>"
        by auto
      from 2(2) have "authenticate_hop E transport e s2 (boot_log (EvPhase Authenticating) b4) = Some (r, b')"
        by (simp add: andThen_def publishPhase_def)
      from authenticate_hop_result [OF this] obtain creds where creds:
        "bs_log b' = bs_log b4 @ [EvPhase Authenticating] @ creds"
        "creds = [] \<and> isl r \<or> creds = [EvCredentials transport (hop_endpoint E e)] \<and> ls_hostKeyVerified s2"
        "\<forall>s'. r = Inr s' \<longrightarrow> s' = s2\<lparr>ls_authenticated := True\<rparr> \<and> ls_hostKeyVerified s2"
        by auto
      have log: "bs_log b' = bs_log b @ ?pre @ new @ [EvPhase Authenticating] @ creds"
        using creds(1) check(2) s1 by simp
      have "hop_log transport (hop_endpoint E e) (ssh_hostKey (be_lib E) (handshaken transport)) r
          (?pre @ new @ [EvPhase Authenticating] @ creds)"
        unfolding hop_log_def
        by (rule disjI2, rule disjI2, rule exI [of _ k], rule exI [of _ s2], rule exI [of _ new], rule exI [of _ creds])
          (use check(1,3) creds(2) s1(1) in simp)
      moreover have "ls_authenticated s \<and> ls_hostKeyVerified s" if inr: "r = Inr s" for s
      proof -
        have "s = s2\<lparr>ls_authenticated := True\<rparr> \<and> ls_hostKeyVerified s2" using creds(3) inr by blast
        then show ?thesis by simp
      qed
      ultimately show ?thesis using log by blast
    qed
  qed
qed

end
