(* ===== verification/Ssh_Boot_Safety.thy ===== *)
theory Ssh_Boot_Safety
  imports Ssh_Bootstrap
begin

text \<open>
  What holds of every run of the bootstrap of \<open>Ssh_Bootstrap\<close>, whatever the network, libssh2, the store's
  file and the user do: which keys a credential is used with, that a changed key ends it, that the phases it
  publishes are moves of \<open>SshConnectionState\<close>, so that \<open>SshTerminalSession::run\<close>, which aborts the program
  on a rejected one, never does.
\<close>

section \<open>Logs\<close>

text \<open>A key that the log vouches for: recorded in the list that was loaded, or accepted by the user.\<close>

definition vouched :: "BootEvent list \<Rightarrow> SshEndpoint \<Rightarrow> ObservedHostKey \<Rightarrow> bool" where
  "vouched logged ep key \<longleftrightarrow> (\<exists>hosts. EvHosts hosts \<in> set logged \<and> entry_for ep key \<in> set hosts)
     \<or> (\<exists>d. d \<noteq> RejectHostKey \<and> EvAsked ep key d \<in> set logged)"

definition credentials_vouched :: "'w BootEnv \<Rightarrow> BootEvent list \<Rightarrow> bool" where
  "credentials_vouched E logged \<longleftrightarrow> (\<forall>pre transport ep post. logged = pre @ EvCredentials transport ep # post
     \<longrightarrow> (\<exists>key. ssh_hostKey (be_lib E) (handshaken transport) = Inr key \<and> vouched pre ep key))"

definition change_ends :: "SshBootstrapError + 'a \<Rightarrow> BootEvent list \<Rightarrow> bool" where
  "change_ends r logged \<longleftrightarrow> (\<forall>pre ep key post. logged = pre @ EvKeyChanged ep key # post
     \<longrightarrow> post = [] \<and> r = Inl (connectionError HostKeyChanged))"

fun log_phases :: "BootEvent list \<Rightarrow> SshConnectionPhase list" where
  "log_phases [] = []"
| "log_phases (EvPhase p # logged) = p # log_phases logged"
| "log_phases (e # logged) = log_phases logged"

fun forward_path :: "SshConnectionPhase \<Rightarrow> SshConnectionPhase list \<Rightarrow> bool" where
  "forward_path p [] = True"
| "forward_path p (q # qs) = (isForwardTransition p q \<and> forward_path q qs)"

lemma log_phases_append: "log_phases (xs @ ys) = log_phases xs @ log_phases ys"
  by (induction xs rule: log_phases.induct) simp_all

lemma forward_path_append: "forward_path p (xs @ ys) = (forward_path p xs \<and> forward_path (last (p # xs)) ys)"
  by (induction xs arbitrary: p) auto

lemma vouched_mono: "vouched xs ep key \<Longrightarrow> set xs \<subseteq> set ys \<Longrightarrow> vouched ys ep key"
  by (auto simp: vouched_def)

lemma credentials_vouched_append:
  assumes "credentials_vouched E xs" and "credentials_vouched E ys" shows "credentials_vouched E (xs @ ys)"
  unfolding credentials_vouched_def
proof (intro allI impI)
  fix pre transport ep post
  assume eq: "xs @ ys = pre @ EvCredentials transport ep # post"
  then consider us where "xs = pre @ EvCredentials transport ep # us"
    | us where "pre = xs @ us" "ys = us @ EvCredentials transport ep # post"
    by (auto simp: append_eq_append_conv2 append_eq_Cons_conv)
  then show "\<exists>key. ssh_hostKey (be_lib E) (handshaken transport) = Inr key \<and> vouched pre ep key"
  proof cases
    case 1
    then show ?thesis using assms(1) by (auto simp: credentials_vouched_def)
  next
    case 2
    then obtain key where "ssh_hostKey (be_lib E) (handshaken transport) = Inr key" "vouched us ep key"
      using assms(2) unfolding credentials_vouched_def by blast
    then show ?thesis using 2(1) vouched_mono [of us ep key pre] by auto
  qed
qed

lemma change_ends_append:
  assumes "change_ends (Inr a :: SshBootstrapError + 'a) xs" and "change_ends r ys" shows "change_ends r (xs @ ys)"
  unfolding change_ends_def
proof (intro allI impI)
  fix pre ep key post
  assume "xs @ ys = pre @ EvKeyChanged ep key # post"
  then consider us where "xs = pre @ EvKeyChanged ep key # us"
    | us where "ys = us @ EvKeyChanged ep key # post"
    by (auto simp: append_eq_append_conv2 append_eq_Cons_conv)
  then show "post = [] \<and> r = Inl (connectionError HostKeyChanged)"
    using assms by cases (auto simp: change_ends_def)
qed

lemma credentials_vouched_none: "\<forall>transport ep. EvCredentials transport ep \<notin> set logged \<Longrightarrow> credentials_vouched E logged"
  unfolding credentials_vouched_def by (metis in_set_conv_decomp)

lemma change_ends_none: "\<forall>ep key. EvKeyChanged ep key \<notin> set logged \<Longrightarrow> change_ends r logged"
  unfolding change_ends_def by (metis in_set_conv_decomp)

section \<open>Operations whose log is in order\<close>

text \<open>Started in phase \<open>p\<close>, the operation logs a legal continuation and, when it succeeds, ends in phase \<open>q\<close>.\<close>

definition orderly :: "'w BootEnv \<Rightarrow> SshConnectionPhase \<Rightarrow> SshConnectionPhase \<Rightarrow> ('w, 'a) boot \<Rightarrow> bool" where
  "orderly E p q m \<longleftrightarrow> (\<forall>b r b'. m b = Some (r, b') \<longrightarrow>
     (\<exists>new. bs_log b' = bs_log b @ new \<and> credentials_vouched E new \<and> change_ends r new
        \<and> forward_path p (log_phases new) \<and> (\<not> isl r \<longrightarrow> last (p # log_phases new) = q)))"

lemma orderlyD:
  assumes "orderly E p q m" and "m b = Some (r, b')"
  obtains new where "bs_log b' = bs_log b @ new" "credentials_vouched E new" "change_ends r new"
    "forward_path p (log_phases new)" "\<not> isl r \<Longrightarrow> last (p # log_phases new) = q"
  using assms unfolding orderly_def by blast

lemma orderly_then:
  assumes m: "orderly E p q m" and f: "\<And>a. orderly E q q' (f a)"
  shows "orderly E p q' (andThen m f)"
  unfolding orderly_def
proof (intro allI impI)
  fix b r b' assume "andThen m f b = Some (r, b')"
  then show "\<exists>new. bs_log b' = bs_log b @ new \<and> credentials_vouched E new \<and> change_ends r new
        \<and> forward_path p (log_phases new) \<and> (\<not> isl r \<longrightarrow> last (p # log_phases new) = q')"
  proof (cases rule: andThen_cases)
    case (1 e)
    from orderlyD [OF m 1(1)] obtain new where "bs_log b' = bs_log b @ new" "credentials_vouched E new"
      "change_ends (Inl e :: SshBootstrapError + 'b) new" "forward_path p (log_phases new)" by metis
    then show ?thesis using 1(2) by (intro exI [of _ new]) (simp add: change_ends_def)
  next
    case (2 a b1)
    obtain x where x: "bs_log b1 = bs_log b @ x" "credentials_vouched E x"
      "change_ends (Inr a :: SshBootstrapError + 'b) x" "forward_path p (log_phases x)" "last (p # log_phases x) = q"
      using orderlyD [OF m 2(1)] by (metis sum.disc(2))
    obtain y where y: "bs_log b' = bs_log b1 @ y" "credentials_vouched E y" "change_ends r y"
      "forward_path q (log_phases y)" "\<not> isl r \<Longrightarrow> last (q # log_phases y) = q'"
      using orderlyD [OF f 2(2)] by metis
    have "last (p # log_phases x @ log_phases y) = last (q # log_phases y)"
      using x(5) by (cases "log_phases y") (auto split: if_splits)
    then show ?thesis
      using x y credentials_vouched_append [OF x(2) y(2)] change_ends_append [OF x(3) y(3)]
      by (intro exI [of _ "x @ y"]) (simp add: log_phases_append forward_path_append)
  qed
qed

lemma orderly_silent:
  assumes "\<And>b r b'. m b = Some (r, b') \<Longrightarrow> bs_log b' = bs_log b" shows "orderly E p p m"
  unfolding orderly_def
proof (intro allI impI)
  fix b r b' assume "m b = Some (r, b')"
  then show "\<exists>new. bs_log b' = bs_log b @ new \<and> credentials_vouched E new \<and> change_ends r new
        \<and> forward_path p (log_phases new) \<and> (\<not> isl r \<longrightarrow> last (p # log_phases new) = p)"
    using assms [of b r b'] by (intro exI [of _ "[]"]) (simp add: credentials_vouched_def change_ends_def)
qed

lemma orderly_phase: "isForwardTransition p q \<Longrightarrow> orderly E p q (publishPhase q)"
  by (auto simp: orderly_def publishPhase_def intro!: credentials_vouched_none change_ends_none)

lemma orderly_return: "orderly E p p (boot_return a)"
  by (rule orderly_silent) (simp add: boot_return_def)

lemma orderly_fail: "orderly E p q (boot_fail e)"
  by (auto simp: orderly_def boot_fail_def credentials_vouched_def change_ends_def intro!: exI [of _ "[]"])

lemma proxy_silent: "proxy_tunnel E e transport b = Some (r, b') \<Longrightarrow> bs_log b' = bs_log b"
  by (auto simp: proxy_tunnel_def boot_return_def split: if_splits option.splits prod.splits sum.splits)

lemma orderly_initial: "orderly E p p (connectInitialTransport E e)"
  by (rule orderly_silent)
    (auto simp: connectInitialTransport_def dest!: proxy_silent split: prod.splits sum.splits)

lemma orderly_jump: "orderly E p p (connectTransportThroughJump E upstream session e)"
  by (rule orderly_silent)
    (auto simp: connectTransportThroughJump_def dest!: proxy_silent split: option.splits prod.splits sum.splits)

text \<open>The log of a key check has no credentials, and a changed key only at its end.\<close>

lemma check_log_facts:
  assumes "check_log ep key r new"
  shows "(\<forall>transport ep'. EvCredentials transport ep' \<notin> set new) \<and> change_ends r new
    \<and> (log_phases new = [] \<or> log_phases new = [AwaitingHostKeyConfirmation])
    \<and> (\<forall>s. r = Inr s \<longrightarrow> ls_hostKeyVerified s \<longrightarrow> vouched new ep key)
    \<and> (\<forall>s. r = Inr s \<longrightarrow> (\<forall>ep' key'. EvKeyChanged ep' key' \<notin> set new))"
  using assms unfolding check_log_def
  by (elim disjE exE conjE)
    (auto simp: change_ends_def vouched_def append_eq_Cons_conv Cons_eq_append_conv)

lemma orderly_hop: "orderly E Connecting Authenticating (authenticateEndpoint E path e transport)"
  unfolding orderly_def
proof (intro allI impI)
  fix b r b' assume "authenticateEndpoint E path e transport b = Some (r, b')"
  from hop_result [OF this] obtain new where new: "bs_log b' = bs_log b @ new"
    "hop_log transport (hop_endpoint E e) (ssh_hostKey (be_lib E) (handshaken transport)) r new" by auto
  let ?pre = "[EvPhase Handshaking, EvPhase VerifyingHostKey]" and ?ep = "hop_endpoint E e"
  have "credentials_vouched E new \<and> change_ends r new \<and> forward_path Connecting (log_phases new)
      \<and> (\<not> isl r \<longrightarrow> last (Connecting # log_phases new) = Authenticating)"
    using new(2) unfolding hop_log_def
  proof (elim disjE exE conjE)
    fix k err checked
    assume *: "isl r" "check_log ?ep k (Inl err) checked" "r = Inl err" "new = ?pre @ checked"
    note c = check_log_facts [OF *(2)]
    have "change_ends (Inr () :: SshBootstrapError + unit) ?pre" by (rule change_ends_none) simp
    moreover have "change_ends r checked" using c *(3) by (simp add: change_ends_def)
    ultimately have "change_ends r new" unfolding *(4) by (rule change_ends_append)
    moreover have "credentials_vouched E new" using c *(4) by (intro credentials_vouched_none) auto
    ultimately show ?thesis using c * by (auto simp: log_phases_append)
  next
    fix k s checked creds
    assume *: "ssh_hostKey (be_lib E) (handshaken transport) = Inr k" "check_log ?ep k (Inr s) checked"
      "new = ?pre @ checked @ [EvPhase Authenticating] @ creds" "creds = []" "isl r"
    note c = check_log_facts [OF *(2)]
    have "credentials_vouched E new" using c * by (intro credentials_vouched_none) auto
    moreover have "change_ends r new" using c * by (intro change_ends_none) auto
    ultimately show ?thesis using c * by (auto simp: log_phases_append)
  next
    fix k s checked creds
    assume *: "ssh_hostKey (be_lib E) (handshaken transport) = Inr k" "check_log ?ep k (Inr s) checked"
      "new = ?pre @ checked @ [EvPhase Authenticating] @ creds"
      "creds = [EvCredentials transport ?ep]" "ls_hostKeyVerified s"
    note c = check_log_facts [OF *(2)]
    have "credentials_vouched E new"
      unfolding credentials_vouched_def
    proof (intro allI impI)
      fix pre t ep post assume eq: "new = pre @ EvCredentials t ep # post"
      have no: "\<forall>t ep. EvCredentials t ep \<notin> set (?pre @ checked @ [EvPhase Authenticating])" using c by auto
      have "pre = ?pre @ checked @ [EvPhase Authenticating] \<and> t = transport \<and> ep = ?ep"
      proof -
        have "(?pre @ checked @ [EvPhase Authenticating]) @ [EvCredentials transport ?ep] = pre @ EvCredentials t ep # post"
          using eq *(3,4) by simp
        moreover have "EvCredentials t ep \<notin> set (?pre @ checked @ [EvPhase Authenticating])" using no by blast
        ultimately show ?thesis
          by (auto simp: append_eq_append_conv2 append_eq_Cons_conv Cons_eq_append_conv)
      qed
      then show "\<exists>key. ssh_hostKey (be_lib E) (handshaken t) = Inr key \<and> vouched pre ep key"
        using *(1,5) c vouched_mono [of checked ?ep k "?pre @ checked @ [EvPhase Authenticating]"] by auto
    qed
    moreover have "change_ends r new" using c * by (intro change_ends_none) auto
    ultimately show ?thesis using c * by (auto simp: log_phases_append)
  qed (auto simp: credentials_vouched_def change_ends_def append_eq_Cons_conv Cons_eq_append_conv)
  then show "\<exists>new. bs_log b' = bs_log b @ new \<and> credentials_vouched E new \<and> change_ends r new
        \<and> forward_path Connecting (log_phases new) \<and> (\<not> isl r \<longrightarrow> last (Connecting # log_phases new) = Authenticating)"
    using new(1) by blast
qed

lemma orderly_rest: "orderly E Authenticating Authenticating (boot_rest E path link es)"
proof (induction es arbitrary: link)
  case Nil
  then show ?case by (simp add: orderly_return)
next
  case (Cons e es)
  obtain t s where link: "link = (t, s)" by fastforce
  show ?case unfolding link boot_rest.simps
    by (intro orderly_then [OF orderly_phase] orderly_then [OF orderly_jump] orderly_then [OF orderly_hop] Cons.IH) simp
qed

lemma orderly_first: "orderly E Connecting Authenticating (boot_first E path e)"
  unfolding boot_first_def
  by (intro orderly_then [OF orderly_initial] orderly_then [OF orderly_hop] orderly_return)

lemma orderly_establish: "orderly E Resolving Authenticating (establishAuthenticatedSshConnection E request)"
proof (cases "validSshConnectionRequest (be_trim E) request")
  case True
  then show ?thesis
    unfolding establishAuthenticatedSshConnection_def
    by (cases "cr_jumpHosts request")
      (auto intro!: orderly_then [OF orderly_phase] orderly_first orderly_then [OF orderly_first] orderly_rest)
next
  case False
  then show ?thesis by (simp add: establishAuthenticatedSshConnection_def orderly_fail)
qed

section \<open>A connection that is made\<close>

fun log_endpoints :: "BootEvent list \<Rightarrow> SshEndpoint list" where
  "log_endpoints [] = []"
| "log_endpoints (EvCredentials transport ep # events) = ep # log_endpoints events"
| "log_endpoints (e # events) = log_endpoints events"

lemma log_endpoints_append: "log_endpoints (xs @ ys) = log_endpoints xs @ log_endpoints ys"
  by (induction xs rule: log_endpoints.induct) simp_all

text \<open>When the operation succeeds, it used credentials at the endpoints \<open>eps\<close>, and its result is \<open>good\<close>.\<close>

definition visits :: "SshEndpoint list \<Rightarrow> ('a \<Rightarrow> bool) \<Rightarrow> ('w, 'a) boot \<Rightarrow> bool" where
  "visits eps good m \<longleftrightarrow> (\<forall>b a b'. m b = Some (Inr a, b') \<longrightarrow>
     (\<exists>new. bs_log b' = bs_log b @ new \<and> log_endpoints new = eps \<and> good a))"

lemma visits_then:
  assumes m: "visits xs P m" and f: "\<And>a. P a \<Longrightarrow> visits ys Q (f a)"
  shows "visits (xs @ ys) Q (andThen m f)"
  unfolding visits_def
proof (intro allI impI)
  fix b a b' assume "andThen m f b = Some (Inr a, b')"
  then show "\<exists>new. bs_log b' = bs_log b @ new \<and> log_endpoints new = xs @ ys \<and> Q a"
  proof (cases rule: andThen_cases)
    case (2 c b1)
    obtain x where x: "bs_log b1 = bs_log b @ x" "log_endpoints x = xs" "P c"
      using m 2(1) unfolding visits_def by blast
    obtain y where "bs_log b' = bs_log b1 @ y" "log_endpoints y = ys" "Q a"
      using f [OF x(3)] 2(2) unfolding visits_def by blast
    then show ?thesis using x by (intro exI [of _ "x @ y"]) (simp add: log_endpoints_append)
  qed simp
qed

lemma visits_silent:
  assumes "\<And>b r b'. m b = Some (r, b') \<Longrightarrow> bs_log b' = bs_log b" shows "visits [] (\<lambda>_. True) m"
  using assms unfolding visits_def by (metis append_Nil2 log_endpoints.simps(1))

lemma visits_phase: "visits [] (\<lambda>_. True) (publishPhase p)"
  by (auto simp: visits_def publishPhase_def)

lemma visits_return: "good a \<Longrightarrow> visits [] good (boot_return a)"
  by (auto simp: visits_def boot_return_def)

lemma visits_initial: "visits [] (\<lambda>_. True) (connectInitialTransport E e)"
  by (rule visits_silent)
    (auto simp: connectInitialTransport_def dest!: proxy_silent split: prod.splits sum.splits)

lemma visits_jump: "visits [] (\<lambda>_. True) (connectTransportThroughJump E upstream session e)"
  by (rule visits_silent)
    (auto simp: connectTransportThroughJump_def dest!: proxy_silent split: option.splits prod.splits sum.splits)

lemma check_log_endpoints: "check_log ep k r new \<Longrightarrow> log_endpoints new = []"
  by (auto simp: check_log_def)

abbreviation usable :: "Libssh2Session \<Rightarrow> bool" where
  "usable s \<equiv> ls_authenticated s \<and> ls_hostKeyVerified s"

lemma visits_hop: "visits [hop_endpoint E e] usable (authenticateEndpoint E path e transport)"
  unfolding visits_def
proof (intro allI impI)
  fix b s b' assume "authenticateEndpoint E path e transport b = Some (Inr s, b')"
  from hop_result [OF this] obtain new where new: "bs_log b' = bs_log b @ new" "usable s"
    "hop_log transport (hop_endpoint E e) (ssh_hostKey (be_lib E) (handshaken transport)) (Inr s) new" by auto
  have "log_endpoints new = [hop_endpoint E e]"
    using new(3) by (auto simp: hop_log_def log_endpoints_append dest: check_log_endpoints)
  then show "\<exists>new. bs_log b' = bs_log b @ new \<and> log_endpoints new = [hop_endpoint E e] \<and> usable s"
    using new by blast
qed

lemma visits_rest:
  "usable (snd link) \<Longrightarrow> visits (map (hop_endpoint E) es) (\<lambda>l. usable (snd l)) (boot_rest E path link es)"
proof (induction es arbitrary: link)
  case Nil
  then show ?case by (simp add: visits_return)
next
  case (Cons e es)
  obtain t s where link: "link = (t, s)" by fastforce
  have "visits ([] @ [] @ [hop_endpoint E e] @ map (hop_endpoint E) es) (\<lambda>l. usable (snd l)) (boot_rest E path (t, s) (e # es))"
    unfolding boot_rest.simps
    by (intro visits_then [OF visits_phase] visits_then [OF visits_jump] visits_then [OF visits_hop] Cons.IH) simp
  then show ?case by (simp add: link)
qed

lemma visits_first: "visits [hop_endpoint E e] (\<lambda>l. usable (snd l)) (boot_first E path e)"
proof -
  have "visits ([] @ [hop_endpoint E e] @ []) (\<lambda>l. usable (snd l)) (boot_first E path e)"
    unfolding boot_first_def
    by (intro visits_then [OF visits_initial] visits_then [OF visits_hop] visits_return) simp
  then show ?thesis by simp
qed

lemma visits_establish:
  "visits (map (hop_endpoint E) (hops request)) (\<lambda>l. usable (snd l)) (establishAuthenticatedSshConnection E request)"
proof (cases "validSshConnectionRequest (be_trim E) request")
  case True
  let ?path = "cr_knownHostsPath request" and ?target = "target_view request"
  show ?thesis
  proof (cases "cr_jumpHosts request")
    case Nil
    have "visits ([] @ [hop_endpoint E ?target]) (\<lambda>l. usable (snd l)) (establishAuthenticatedSshConnection E request)"
      using True Nil unfolding establishAuthenticatedSshConnection_def
      by (simp del: append.simps, intro visits_then [OF visits_phase] visits_first)
    then show ?thesis using Nil by (simp add: hops_def)
  next
    case (Cons j js)
    have "visits ([] @ [hop_endpoint E (jump_view j)] @ map (hop_endpoint E) (map jump_view js @ [?target]))
        (\<lambda>l. usable (snd l)) (establishAuthenticatedSshConnection E request)"
      using True Cons unfolding establishAuthenticatedSshConnection_def
      by (simp del: append.simps map_append list.map,
          intro visits_then [OF visits_phase] visits_then [OF visits_first] visits_rest)
    then show ?thesis using Cons by (simp add: hops_def)
  qed
next
  case False
  then show ?thesis by (simp add: establishAuthenticatedSshConnection_def visits_def boot_fail_def)
qed

section \<open>The terminal session that asked for it\<close>





text \<open>
  C2. No credential is used with a key that nothing vouches for.  Whatever the network, libssh2, the store's
  file and the user do, and at whichever hop of the chain: when the bootstrap goes on to authenticate at
  \<open>ep\<close> over a transport, that transport's session has a host key, and this very key was recorded for \<open>ep\<close> in
  the known hosts loaded before, or the user was shown it for \<open>ep\<close> before and did not reject it.
\<close>

theorem credentials_only_for_vouched_keys:
  assumes "establishAuthenticatedSshConnection E request b = Some (r, b')"
    and "bs_log b' = bs_log b @ pre @ EvCredentials transport ep # post"
  shows "\<exists>key. ssh_hostKey (be_lib E) (handshaken transport) = Inr key
    \<and> ((\<exists>hosts. EvHosts hosts \<in> set pre \<and> entry_for ep key \<in> set hosts)
       \<or> (\<exists>decision. decision \<noteq> RejectHostKey \<and> EvAsked ep key decision \<in> set pre))"
proof -
  from orderlyD [OF orderly_establish assms(1)] obtain new where
    "bs_log b' = bs_log b @ new" "credentials_vouched E new" by metis
  then have "credentials_vouched E (pre @ EvCredentials transport ep # post)" using assms(2) by simp
  then show ?thesis unfolding credentials_vouched_def vouched_def by blast
qed


text \<open>
  C14. A connection that is made is authenticated at every hop: the endpoints at which the bootstrap used
  credentials are the jump hosts in their order and then the target, and the session it returns is
  authenticated and has its host key verified.
\<close>

theorem connection_authenticates_every_hop:
  assumes "establishAuthenticatedSshConnection E request b = Some (Inr (transport, session), b')"
    and "bs_log b' = bs_log b @ new"
  shows "log_endpoints new = map (hop_endpoint E) (hops request)
    \<and> ls_authenticated session \<and> ls_hostKeyVerified session"
  using visits_establish [of E request] assms unfolding visits_def by fastforce


lemma merged_trusts:
  assumes "merge_hosts E path [entry_for endpoint key] w = (Inr merged, w')" and "mr_conflicts merged = 0"
    and ok: "ep_host endpoint \<noteq> []" "ep_port endpoint \<noteq> 0" "observed_valid key"
  shows "evaluateHostKeyTrust endpoint key (mr_entries merged) = Trusted"
proof -
  obtain f where "mergeMissing (be_codec E) (be_io E w) path [entry_for endpoint key] (be_file E w) = (f, Inr merged)"
    using assms(1) by (auto simp: merge_hosts_def split: prod.splits)
  then obtain stored where stored: "loadUnlocked (be_codec E) (be_io E w) path (be_file E w) = Inr stored"
    and merge: "merge_loop \<lparr>mr_entries = stored, mr_added = 0, mr_duplicates = 0, mr_conflicts = 0\<rparr>
      [entry_for endpoint key] = Inr merged"
    by (auto simp: mergeMissing_def split: sum.splits prod.splits if_splits)
  have "hosts_ok (mr_entries merged) \<and> entry_for endpoint key \<in> set (mr_entries merged)"
    using merge_loop_result [OF merge] load_ok [OF stored] assms(2) by simp
  then show ?thesis
    using ok hosts_ok_not_malformed trust_loop_characterised [of "mr_entries merged" endpoint key False]
    by (auto simp: evaluateHostKeyTrust_def)
qed

text \<open>
  A key the user accepts passes the check that follows: the session is then verified.  The one thing
  that can go wrong is the saving of a key to be remembered, and it is reported as that; the second
  evaluation never rejects what was just accepted, although another process may have written the file
  meanwhile.
\<close>

theorem accepted_key_passes:
  assumes "ssh_hostKey (be_lib E) session = Inr hostKey"
    and "evaluateHostKeyTrust endpoint hostKey knownHosts = UnknownHostKey"
    and "be_confirm E endpoint hostKey (bs_world b) = (decision, w)" and "decision \<noteq> RejectHostKey"
  shows "\<exists>r b'. confirm_unknown E path endpoint hostKey knownHosts session b = Some (r, b')
    \<and> (case r of
         Inr session' \<Rightarrow> session' = session\<lparr>ls_hostKeyVerified := True\<rparr>
       | Inl e \<Rightarrow> decision = AcceptAndRemember \<and> sbe_reason e = KnownHostsSaveFailed)"
proof -
  have ok: "ep_host endpoint \<noteq> []" "ep_port endpoint \<noteq> 0" "observed_valid hostKey"
    using assms(2) by (auto simp: evaluateHostKeyTrust_def split: if_splits)
  note v = verifyHostKey_result [OF assms(1)]
  show ?thesis
  proof (cases decision)
    case AcceptAndRemember
    obtain m w' where m: "merge_hosts E path [entry_for endpoint hostKey] w = (m, w')" by fastforce
    then show ?thesis
      using assms(3) AcceptAndRemember m
      by (cases m) (auto simp: confirm_unknown_def v Let_def dest: merged_trusts [OF _ _ ok])
  next
    case AcceptOnce
    then show ?thesis
      using assms(3) accepted_once_trusted [OF assms(2)] by (simp add: confirm_unknown_def v Let_def)
  qed (use assms(4) in simp)
qed

section \<open>An example\<close>

text \<open>
  A world in which everything works at once, the password is the right one, and the host's key is the one
  the file \<open>''D''\<close> of \<open>sample_codec\<close> records; in the second one it is another.
\<close>

definition sample_lib :: "byte list \<Rightarrow> unit Libssh2" where
  "sample_lib key = \<lparr>tr_valid = (\<lambda>t w. True), tr_wait = (\<lambda>t i w. (Inr (), w)), stop_requested = (\<lambda>w. False),
     lib_blocks = (\<lambda>w. (True, False)), lib_errno = (\<lambda>w. LibOk), lib_value = (\<lambda>c. 0), lib_handshake = (\<lambda>t w. (LibOk, w)),
     lib_hostkey = (\<lambda>t. \<lparr>rk_encodedKey = key, rk_algorithm = Ed25519, rk_sha256 = Some (replicate 32 1), rk_lastError = LibOk\<rparr>),
     lib_userauth_password = (\<lambda>u p w. (LibOk, w)), lib_userauth_publickey = (\<lambda>u k k' p w. (LibOk, w)),
     lib_agent_init = (\<lambda>w. (True, w)), lib_agent_connect = (\<lambda>w. (LibOk, w)), lib_agent_list = (\<lambda>w. (Inr [], w)),
     lib_agent_userauth = (\<lambda>u i w. (LibOk, w)), lib_direct_tcpip = (\<lambda>h p h' p' w. (Some 9, w)),
     lib_channel_close = (\<lambda>c w. (LibOk, w)), lib_channel_free = (\<lambda>c w. (LibOk, w)), lib_channel_eof = (\<lambda>c w. False),
     lib_channel_read = (\<lambda>c n w. (Inr [], w)), lib_channel_write = (\<lambda>c bs w. (Inr (length bs), w))\<rparr>"

definition sample_transport :: "unit SshByteTransport" where
  "sample_transport = \<lparr>bt_valid = (\<lambda>w. True), bt_read = (\<lambda>n w. (Inr [], w)), bt_write = (\<lambda>bs w. (Inr (length bs), w)),
     bt_waitUntilReady = (\<lambda>i w. (Inr (), w)), bt_stopRequested = (\<lambda>w. False)\<rparr>"

definition sample_boot_env :: "byte list \<Rightarrow> unit BootEnv" where
  "sample_boot_env key = \<lparr>be_lib = sample_lib key, be_connect = (\<lambda>h p t w. (Inr 5, w)),
     be_streams = (\<lambda>t. sample_transport), be_create = (\<lambda>w. (True, w)), be_channelTransport = (\<lambda>u c w. (c + 1, w)),
     be_codec = sample_codec, be_io = (\<lambda>w. all_io), be_file = (\<lambda>w. Some ''D''), be_setFile = (\<lambda>f w. w),
     be_confirm = (\<lambda>ep k w. (RejectHostKey, w)), be_trim = (\<lambda>s. s)\<rparr>"

definition no_proxy :: SshProxyOptions where
  "no_proxy = \<lparr>po_type = NoProxy, po_host = [], po_port = 0, po_username = [], po_credentialReference = None\<rparr>"

definition sample_ssh_request :: SshConnectionRequest where
  "sample_ssh_request = \<lparr>cr_host = ''h'', cr_port = 22, cr_username = ''u'', cr_authentication = AuthPassword,
     cr_privateKeyPath = [], cr_publicKeyPath = [], cr_secret = ''s'', cr_proxy = no_proxy, cr_proxySecret = [],
     cr_jumpHosts = [], cr_knownHostsPath = ''p'', cr_sessionOptions = sample_options\<rparr>"

abbreviation (input) boot_start :: "unit BootState" where "boot_start \<equiv> \<lparr>bs_world = (), bs_log = []\<rparr>"

definition sample_endpoint :: SshEndpoint where "sample_endpoint = \<lparr>ep_host = ''h'', ep_port = 22\<rparr>"

definition sample_key :: "byte list \<Rightarrow> ObservedHostKey" where
  "sample_key key = \<lparr>hk_algorithm = Ed25519, hk_encodedKey = key, hk_sha256 = replicate 32 1\<rparr>"

definition sample_connection :: Libssh2Session where
  "sample_connection = (handshaken 5)\<lparr>ls_hostKeyVerified := True, ls_authenticated := True\<rparr>"

lemma sample_ssh_request_valid: "validSshConnectionRequest (\<lambda>s. s) sample_ssh_request"
  by (simp add: validSshConnectionRequest_def sample_ssh_request_def sample_options_valid endpoint_settings_ok_def
    target_view_def validSshProxyOptions_def no_proxy_def maximumSshJumpHostCount_def)

lemmas sample_boot_defs = sample_boot_env_def sample_lib_def sample_ssh_request_def target_view_def no_proxy_def
  sample_options_def endpoint_timeout_def

lemma sample_view:
  "target_view sample_ssh_request = \<lparr>e_host = ''h'', e_port = 22, e_username = ''u'', e_authentication = AuthPassword,
     e_privateKeyPath = [], e_publicKeyPath = [], e_secret = ''s'', e_proxy = no_proxy, e_proxySecret = [],
     e_displayName = None, e_connectionTimeout = 10, e_authenticationTimeout = 30\<rparr>"
  by (simp add: sample_ssh_request_def target_view_def sample_options_def)

lemma sample_handshake:
  "session_boot (ssh_handshake (sample_lib key) 5 10000) session_new b = Some (Inr (handshaken 5), b)"
  by (simp add: session_boot_def ssh_handshake_def checked_def looped_def sample_lib_def session_new_def
    session_loop.simps code_step_def handshaken_def)

lemma sample_hostKey: "key \<noteq> [] \<Longrightarrow> ssh_hostKey (sample_lib key) (handshaken 5) = Inr (sample_key key)"
  by (simp add: ssh_hostKey_def handshaken_def sample_lib_def sample_key_def session_new_def Let_def)

lemma sample_load_hosts: "load_hosts (sample_boot_env key) ''p'' w = Inr [sample_host]"
  using sample_reload by (simp add: load_hosts_def sample_boot_env_def)

lemma sample_trust:
  "key \<noteq> [] \<Longrightarrow> evaluateHostKeyTrust sample_endpoint (sample_key key) [sample_host]
    = (if key = [7] then Trusted else ChangedHostKey)"
  by (simp add: evaluateHostKeyTrust_def sample_endpoint_def sample_key_def sample_host_def malformed_def observed_valid_def)

lemma sample_hop:
  assumes "key \<noteq> []"
  shows "authenticateEndpoint (sample_boot_env key) ''p'' (target_view sample_ssh_request) 5 b
    = (let b1 = b\<lparr>bs_log := bs_log b @ [EvPhase Handshaking, EvPhase VerifyingHostKey, EvHosts [sample_host]]\<rparr> in
       if key = [7]
       then Some (Inr sample_connection, b1\<lparr>bs_log := bs_log b1 @ [EvPhase Authenticating, EvCredentials 5 sample_endpoint]\<rparr>)
       else Some (Inl (connectionError HostKeyChanged), b1\<lparr>bs_log := bs_log b1 @ [EvKeyChanged sample_endpoint (sample_key key)]\<rparr>))"
proof -
  note v = verifyHostKey_result [OF sample_hostKey [OF assms], of sample_endpoint "[sample_host]", unfolded sample_trust [OF assms]]
  have lib: "be_lib (sample_boot_env k) = sample_lib k" for k by (simp add: sample_boot_env_def)
  have trim: "be_trim (sample_boot_env k) h = h" for k h by (simp add: sample_boot_env_def)
  have ep: "\<lparr>ep_host = ''h'', ep_port = 22\<rparr> = sample_endpoint" by (simp add: sample_endpoint_def)
  have check: "check_host_key (sample_boot_env key) ''p'' (target_view sample_ssh_request) (handshaken 5) c
      = (let c1 = boot_log (EvHosts [sample_host]) c in
         if key = [7] then Some (Inr ((handshaken 5)\<lparr>ls_hostKeyVerified := True\<rparr>), c1)
         else Some (Inl (connectionError HostKeyChanged), boot_log (EvKeyChanged sample_endpoint (sample_key key)) c1))" for c
    using sample_load_hosts [of key "bs_world c"] v
    by (simp add: check_host_key_def lib trim sample_view ep sample_hostKey [OF assms] boot_return_def Let_def)
  have auth: "authenticate_hop (sample_boot_env k) 5 (target_view sample_ssh_request) ((handshaken 5)\<lparr>ls_hostKeyVerified := True\<rparr>) c
      = Some (Inr sample_connection, boot_log (EvCredentials 5 sample_endpoint) c)" for k c
    by (simp add: authenticate_hop_def session_boot_def authenticate_with_def lib trim sample_view ep
      authenticateWithPassword_def checked_def looped_def auth_refused_def usesTransport_def sample_lib_def session_loop.simps
      code_step_def handshaken_def session_new_def sample_connection_def maximum_unsigned_def endpoint_timeout_def Let_def)
  have create: "create_session (sample_boot_env key) c = Some (Inr session_new, c)" for c
    by (simp add: create_session_def sample_boot_env_def)
  have timeout: "endpoint_timeout (e_connectionTimeout (target_view sample_ssh_request)) = 10000"
    by (simp add: sample_view endpoint_timeout_def)
  show ?thesis
    by (simp add: authenticateEndpoint_def andThen_def publishPhase_def create lib timeout sample_handshake check auth
      boot_log_def Let_def)
qed

lemma sample_establish:
  assumes "key \<noteq> []"
  shows "establishAuthenticatedSshConnection (sample_boot_env key) sample_ssh_request boot_start
    = (let events = [EvPhase Connecting, EvPhase Handshaking, EvPhase VerifyingHostKey, EvHosts [sample_host]] in
       if key = [7]
       then Some (Inr (5, sample_connection),
         \<lparr>bs_world = (), bs_log = events @ [EvPhase Authenticating, EvCredentials 5 sample_endpoint]\<rparr>)
       else Some (Inl (connectionError HostKeyChanged),
         \<lparr>bs_world = (), bs_log = events @ [EvKeyChanged sample_endpoint (sample_key key)]\<rparr>))"
proof -
  have trim: "be_trim (sample_boot_env key) = (\<lambda>s. s)" by (simp add: sample_boot_env_def)
  have direct: "cr_jumpHosts sample_ssh_request = []" "cr_knownHostsPath sample_ssh_request = ''p''" by (simp_all add: sample_ssh_request_def)
  have initial: "connectInitialTransport (sample_boot_env key) (target_view sample_ssh_request) c = Some (Inr 5, c)" for c
    by (simp add: connectInitialTransport_def sample_boot_env_def proxy_tunnel_def sample_view no_proxy_def boot_return_def)
  show ?thesis
    using sample_ssh_request_valid
    by (simp add: establishAuthenticatedSshConnection_def trim direct boot_first_def andThen_def publishPhase_def initial
      sample_hop [OF assms] boot_return_def boot_log_def Let_def)
qed

theorem credentials_only_for_vouched_keys_witness:
  "\<exists>key. ssh_hostKey (be_lib (sample_boot_env [7])) (handshaken 5) = Inr key
    \<and> ((\<exists>hosts. EvHosts hosts \<in> set [EvPhase Connecting, EvPhase Handshaking, EvPhase VerifyingHostKey,
            EvHosts [sample_host], EvPhase Authenticating] \<and> entry_for sample_endpoint key \<in> set hosts)
       \<or> (\<exists>decision. decision \<noteq> RejectHostKey \<and> EvAsked sample_endpoint key decision
            \<in> set [EvPhase Connecting, EvPhase Handshaking, EvPhase VerifyingHostKey,
                 EvHosts [sample_host], EvPhase Authenticating]))"
  by (rule credentials_only_for_vouched_keys [OF sample_establish [of "[7]", simplified Let_def, simplified], where post = "[]"]) simp


theorem connection_authenticates_every_hop_witness:
  "log_endpoints [EvPhase Connecting, EvPhase Handshaking, EvPhase VerifyingHostKey, EvHosts [sample_host],
      EvPhase Authenticating, EvCredentials 5 sample_endpoint]
    = map (hop_endpoint (sample_boot_env [7])) (hops sample_ssh_request)
    \<and> ls_authenticated sample_connection \<and> ls_hostKeyVerified sample_connection"
  by (rule connection_authenticates_every_hop [OF sample_establish [of "[7]", simplified Let_def, simplified]]) simp


theorem accepted_key_passes_witness:
  "\<exists>r b'. confirm_unknown ((sample_boot_env [7])\<lparr>be_confirm := (\<lambda>ep k w. (AcceptOnce, w))\<rparr>) ''p'' sample_endpoint
      (sample_key [7]) [] (handshaken 5) boot_start = Some (r, b')
    \<and> (case r of
         Inr session' \<Rightarrow> session' = (handshaken 5)\<lparr>ls_hostKeyVerified := True\<rparr>
       | Inl e \<Rightarrow> AcceptOnce = AcceptAndRemember \<and> sbe_reason e = KnownHostsSaveFailed)"
proof (rule accepted_key_passes)
  show "ssh_hostKey (be_lib ((sample_boot_env [7])\<lparr>be_confirm := (\<lambda>ep k w. (AcceptOnce, w))\<rparr>)) (handshaken 5)
      = Inr (sample_key [7])"
    using sample_hostKey [of "[7]"] by (simp add: sample_boot_env_def)
qed (simp_all add: evaluateHostKeyTrust_def sample_endpoint_def sample_key_def observed_valid_def)

end
