(* ===== verification/Ssh_Session_Props.thy ===== *)
theory Ssh_Session_Props
  imports Ssh_Session_Io Ssh_Boot_Safety
begin

text \<open>
  The properties of the SSH session, and a small library and server on which they are applied.
\<close>

section \<open>Properties\<close>

lemma sftp_handle_step_done: "sftp_handle_step F r = (StepDone h, w) \<Longrightarrow> r = (Some h, w)"
  by (auto simp: sftp_handle_step_def Let_def split: option.splits prod.splits if_splits)

text \<open>
  C7. Whatever sequence of operations a session goes through, nothing is open on it unless it is authenticated,
  it is authenticated only after its handshake, SFTP and the terminal never coexist, an open file belongs to an
  open SFTP session, the ids of forwarding resources are distinct, not zero, and below the next id; and the step
  that authenticates starts with a host key that was verified on this connection.
\<close>

theorem session_stays_safe:
  assumes "(session_step C F)\<^sup>*\<^sup>* (session_new, w) (s, w')"
  shows "(opened s \<longrightarrow> ls_authenticated s) \<and> (ls_authenticated s \<longrightarrow> ls_handshakeComplete s \<and> ls_transport s \<noteq> None)
    \<and> (ls_sftp s = None \<or> ls_terminalChannel s = None) \<and> (ls_sftpFile s \<noteq> None \<longrightarrow> ls_sftp s \<noteq> None)
    \<and> resources_ok s
    \<and> (\<forall>s2 w2. session_step C F (s, w') (s2, w2) \<longrightarrow> ls_authenticated s2 \<longrightarrow>
         ls_authenticated s \<or> (ls_hostKeyVerified s \<and> ls_handshakeComplete s))"
proof -
  have new: "session_inv session_new" by (simp add: session_inv_defs session_new_def)
  have "session_inv (fst y)" if "(session_step C F)\<^sup>*\<^sup>* x y" "session_inv (fst x)" for x y
    using that by (induction rule: rtranclp_induct) (auto intro: step_inv)
  from this [OF assms] new have inv: "session_inv s" by simp
  then have "trust_ok s" "channels_ok s" "resources_ok s" by (simp_all add: session_inv_def)
  moreover have "ls_authenticated s \<or> (ls_hostKeyVerified s \<and> ls_handshakeComplete s)"
    if "session_step C F (s, w') (s2, w2)" "ls_authenticated s2" for s2 w2
    using step_authenticates [OF that(1)] that(2) inv by simp
  ultimately show ?thesis by (auto simp: trust_ok_def channels_ok_def)
qed

text \<open>
  C36. A write to the terminal, or to the open file, that succeeds has delivered exactly the bytes it was given,
  in their order; one that fails has delivered a prefix of them; and neither changes the session.
\<close>

theorem written_bytes_arrive:
  assumes "(ls_terminalChannel s = Some h \<and> sinks (lc_lib C) transport (lib_channel_write (lc_lib C) h) sent
      \<and> writeTerminal C transport input timeout s w = Some (r, s', w'))
    \<or> (ls_sftpFile s = Some h \<and> sinks (lf_lib F) transport (lf_write F h) sent
      \<and> writeSftpFile F transport input timeout s w = Some (r, s', w'))"
  shows "s' = s \<and> (\<exists>p. prefix p input \<and> sent w' = sent w @ p \<and> (isl r \<or> p = input))"
proof -
  have "s' = s \<and> (delivered sent input w r w' \<or> (isl r \<and> w' = w))"
    using assms by (auto simp: writeTerminal_def writeSftpFile_def dest!: checked_result dest: write_all_delivers)
  then show ?thesis by (auto simp: delivered_def intro: exI [of _ "[]"])
qed

text \<open>
  C37. A listing that succeeds has an entry for every name the server lists but \<open>.\<close> and \<open>..\<close>, in the server's
  order; each entry has that name, the path it has in the directory, and the kind, the permissions, the size
  and the time that the server gave for it, zero or none where it gave none.
\<close>

theorem listing_complete:
  assumes "lists F transport contents rest"
    and "listSftpDirectory F transport path timeout s w = Some (Inr entries, s', w')"
  shows "s' = s \<and> list_all2 (entry_of F path) (real_names (contents path)) entries"
proof -
  obtain d w1 where s: "s' = s"
    and opened: "session_loop (lf_lib F) transport
        (\<lambda>w. sftp_handle_step F (lf_open F (the (ls_sftp s)) path SftpOpenDirectory w)) w = Some (Inr d, w1)"
    and loop: "list_loop F transport d path [] w1 = Some (Inr entries, w')"
    using assms(2) by (auto simp: listSftpDirectory_def list_opened_def andThen_def dest!: checked_result
      split: option.splits prod.splits sum.splits)
  have "\<exists>w0. lf_open F (the (ls_sftp s)) path SftpOpenDirectory w0 = (Some d, w1)"
    using session_loop_done [OF opened] by (auto dest: sftp_handle_step_done)
  then have "rest d w1 = contents path" using assms(1) unfolding lists_def by blast
  then show ?thesis using list_loop_entries [OF assms(1) loop] s by simp
qed

text \<open>
  When the transport becomes ready only finitely often before the deadline, opening, reading and writing the
  terminal return: the loops around libssh2's \<open>EAGAIN\<close> end.
\<close>

theorem terminal_operations_return:
  assumes "waits_end (lc_lib C) transport left" "terminal_calls_steady left C"
  shows "openTerminal C transport columns rows terminalType environment timeout s w \<noteq> None
    \<and> readTerminal C transport capacity timeout s w \<noteq> None \<and> writeTerminal C transport input timeout s w \<noteq> None"
proof (intro conjI)
  have "session_loop (lc_lib C) transport (\<lambda>w. handle_step (lc_lib C) mapChannelError (lc_open_session C w)) w \<noteq> None"
    using assms by (intro session_loop_returns steady_handle_step) (auto simp: terminal_calls_steady_def)
  then show "openTerminal C transport columns rows terminalType environment timeout s w \<noteq> None"
    unfolding openTerminal_def
    by (intro checked_returns)
      (auto simp: open_terminal_channel_def terminal_setup_returns [OF assms] split: option.splits sum.splits)
  show "readTerminal C transport capacity timeout s w \<noteq> None"
    unfolding readTerminal_def using assms
    by (intro checked_returns looped_returns steady_poll_step) (auto simp: terminal_calls_steady_def)
  have "write_loop (lc_lib C) transport (lib_channel_write (lc_lib C) c) mapError input w \<noteq> None" for c mapError
    using assms by (intro write_loop_returns) (auto simp: terminal_calls_steady_def)
  then show "writeTerminal C transport input timeout s w \<noteq> None"
    unfolding writeTerminal_def by (intro checked_returns) (simp add: write_all_def)
qed

text \<open>
  Each poll of the auxiliary command moves it forward or leaves it: it never returns to an earlier phase, its
  output comes only while it is read, and it completes exactly by freeing its channel, after which no command
  and no channel are left.
\<close>

theorem auxiliary_command_advances:
  assumes "pollAuxiliaryCommand C capacity s w = (Inr result, s', w')"
  shows "aux_rank (ls_auxiliaryPhase s') \<le> aux_rank (ls_auxiliaryPhase s)
    \<and> (ap_progress result = AuxOutput \<longrightarrow> ls_auxiliaryPhase s' = AuxReading \<and> ap_output result \<noteq> [])
    \<and> (ap_progress result = AuxCompleted \<longleftrightarrow> ls_auxiliaryPhase s' = AuxIdle)
    \<and> (ap_progress result = AuxCompleted \<longrightarrow> ls_auxiliaryChannel s' = None \<and> ls_auxiliaryCommand s' = [])"
  using poll_advances [OF assms] by (simp add: advances_def)

section \<open>An example\<close>

text \<open>
  A library on which everything succeeds at once and whose transport never becomes ready again; with it, a
  channel that takes two bytes at a time into the state, and a server on which every directory lists \<open>.\<close> and \<open>a\<close>,
  the state being what is left of the listing.
\<close>

definition quiet_lib :: "'w Libssh2" where
  "quiet_lib = \<lparr>tr_valid = (\<lambda>t w. True), tr_wait = (\<lambda>t i w. (Inl \<lparr>te_kind = WaitTimedOut, te_nativeCode = 0\<rparr>, w)),
     stop_requested = (\<lambda>w. False), lib_blocks = (\<lambda>w. (True, False)), lib_errno = (\<lambda>w. LibOk), lib_value = (\<lambda>c. 0),
     lib_handshake = (\<lambda>t w. (LibOk, w)),
     lib_hostkey = (\<lambda>t. \<lparr>rk_encodedKey = [7], rk_algorithm = Ed25519, rk_sha256 = Some (replicate 32 1), rk_lastError = LibOk\<rparr>),
     lib_userauth_password = (\<lambda>u p w. (LibOk, w)), lib_userauth_publickey = (\<lambda>u k k' p w. (LibOk, w)),
     lib_agent_init = (\<lambda>w. (True, w)), lib_agent_connect = (\<lambda>w. (LibOk, w)), lib_agent_list = (\<lambda>w. (Inr [], w)),
     lib_agent_userauth = (\<lambda>u i w. (LibOk, w)), lib_direct_tcpip = (\<lambda>h p h' p' w. (Some 9, w)),
     lib_channel_close = (\<lambda>c w. (LibOk, w)), lib_channel_free = (\<lambda>c w. (LibOk, w)), lib_channel_eof = (\<lambda>c w. False),
     lib_channel_read = (\<lambda>c n w. (Inr [], w)), lib_channel_write = (\<lambda>c bs w. (Inr (length bs), w))\<rparr>"

definition pipe_lib :: "byte list Libssh2" where
  "pipe_lib = quiet_lib\<lparr>lib_channel_write := \<lambda>c bs w. (Inr (min 2 (length bs)), w @ take 2 bs)\<rparr>"

definition sample_channels :: "'w Libssh2 \<Rightarrow> 'w LibChannels" where
  "sample_channels L = \<lparr>lc_lib = L, lc_send_eof = (\<lambda>c w. (LibOk, w)), lc_forward_listen = (\<lambda>h p q w. (Some (4, 80), w)),
     lc_forward_accept = (\<lambda>l w. (None, w)), lc_forward_cancel = (\<lambda>l w. (LibOk, w)), lc_open_session = (\<lambda>w. (Some 7, w)),
     lc_request_pty = (\<lambda>c ty x y w. (LibOk, w)), lc_setenv = (\<lambda>c n v w. (LibOk, w)), lc_shell = (\<lambda>c w. (LibOk, w)),
     lc_keepalive_config = (\<lambda>n w. w), lc_keepalive_send = (\<lambda>w. ((LibOk, 5), w)), lc_pty_size = (\<lambda>c x y w. (LibOk, w)),
     lc_exec = (\<lambda>c cmd w. (LibOk, w)), lc_read_stderr = (\<lambda>c n w. (Inr 0, w)), lc_exit_status = (\<lambda>c w. 0)\<rparr>"

definition sample_attributes :: SftpAttributes where
  "sample_attributes = \<lparr>at_permissions = None, at_filesize = Some 5, at_mtime = None\<rparr>"

definition sample_listing :: listing where
  "sample_listing = [(''.'', sample_attributes), (''a'', sample_attributes)]"

definition sample_files :: "listing LibSftp" where
  "sample_files = \<lparr>lf_lib = quiet_lib, lf_wait = tr_wait quiet_lib, lf_kind = (\<lambda>p. Other), lf_lastError = (\<lambda>w. 0),
     lf_init = (\<lambda>w. (Some 3, w)), lf_open = (\<lambda>h path mode w. (Some 4, sample_listing)),
     lf_readdir = (\<lambda>d w. (case w of [] \<Rightarrow> (Inr None, []) | x # xs \<Rightarrow> (Inr (Some x), xs))), lf_realpath = (\<lambda>h path w. (Inr path, w)),
     lf_mkdir = (\<lambda>h path w. (LibOk, w)), lf_rename = (\<lambda>h p q a w. (LibOk, w)), lf_unlink = (\<lambda>h path w. (LibOk, w)),
     lf_rmdir = (\<lambda>h path w. (LibOk, w)), lf_read = (\<lambda>h n w. (Inr [], w)), lf_write = (\<lambda>h bs w. (Inr (length bs), w)),
     lf_seek = (\<lambda>h n w. w), lf_closeHandle = (\<lambda>h w. (LibOk, w)), lf_shutdown = (\<lambda>h w. (LibOk, w))\<rparr>"

definition sample_terminal :: Libssh2Session where
  "sample_terminal = sample_connection\<lparr>ls_terminalChannel := Some 7\<rparr>"

definition sample_directory_entry :: DirectoryEntry where
  "sample_directory_entry = \<lparr>de_name = ''a'', de_remotePath = ''/d/a'', de_type = Other, de_size = 5, de_modifiedUtcSeconds = None, de_permissions = 0\<rparr>"

lemmas sample_session_defs = quiet_lib_def sample_channels_def sample_connection_def handshaken_def session_new_def
  checked_def looped_def code_step_def handle_step_def session_loop.simps usesTransport_def maximum_unsigned_def

text \<open>From the new session to an open terminal.\<close>

lemma sample_run:
  "(session_step (sample_channels quiet_lib) F)\<^sup>*\<^sup>* (session_new, w) (sample_terminal, w)"
proof -
  let ?C = "sample_channels quiet_lib" and ?s = "(handshaken 5)\<lparr>ls_hostKeyVerified := True\<rparr>"
  have h: "ssh_handshake (lc_lib ?C) 5 10000 session_new w = Some (Inr (), handshaken 5, w)"
    by (simp add: ssh_handshake_def sample_session_defs)
  have key: "ssh_hostKey (lc_lib ?C) (handshaken 5) = Inr (sample_key [7])"
    by (simp add: ssh_hostKey_def sample_key_def sample_session_defs Let_def)
  have v: "verifyHostKey (lc_lib ?C) sample_endpoint [sample_host] (handshaken 5) = (Inr Trusted, ?s)"
    by (simp add: verifyHostKey_def key sample_trust Let_def)
  have p: "authenticateWithPassword (lc_lib ?C) 5 ''u'' ''s'' 10000 ?s w = Some (Inr (), sample_connection, w)"
    by (simp add: authenticateWithPassword_def auth_refused_def sample_session_defs)
  have t: "openTerminal ?C 5 80 24 ''xterm'' [] 10000 sample_connection w = Some (Inr (), sample_terminal, w)"
    by (simp add: openTerminal_def open_terminal_channel_def terminal_setup_def andThen_def validTerminalDimensions_def
      sample_terminal_def sample_session_defs)
  note steps = session_step.Handshake [of ?C 5 10000 _ w _ _ w F] session_step.Verify [where C = ?C and F = F and w = w]
    session_step.Password [of ?C 5 _ _ _ _ w _ _ w F] session_step.OpenTerminal [of ?C 5 _ _ _ _ _ _ w _ _ w F]
  show ?thesis
    using steps(1) [OF h] steps(2) [OF v] steps(3) [OF p] steps(4) [OF t]
    by (meson rtranclp.rtrancl_into_rtrancl rtranclp.rtrancl_refl)
qed

theorem session_stays_safe_witness: "ls_terminalChannel sample_terminal = Some 7 \<and> ls_authenticated sample_terminal \<and> ls_sftp sample_terminal = None"
proof -
  have open_: "ls_terminalChannel sample_terminal = Some 7" by (simp add: sample_terminal_def)
  from session_stays_safe [OF sample_run [of sample_files "[]"]] show ?thesis using open_ by (auto simp: opened_def)
qed

theorem written_bytes_arrive_witness:
  "writeTerminal (sample_channels pipe_lib) 5 [1, 2, 3] 10000 sample_terminal [9] = Some (Inr (), sample_terminal, [9, 1, 2, 3])"
proof -
  let ?C = "sample_channels pipe_lib"
  have sinks: "sinks (lc_lib ?C) 5 (lib_channel_write (lc_lib ?C) 7) (\<lambda>w. w)"
    by (auto simp: sinks_def sample_channels_def pipe_lib_def quiet_lib_def waitForSessionIo_def min_def split: prod.splits)
  obtain w' where run: "writeTerminal ?C 5 [1, 2, 3] 10000 sample_terminal [9] = Some (Inr (), sample_terminal, w')"
    by (simp add: writeTerminal_def write_all_def write_loop.simps pipe_lib_def sample_terminal_def sample_session_defs)
  have "ls_terminalChannel sample_terminal = Some 7" by (simp add: sample_terminal_def)
  from written_bytes_arrive [OF disjI1 [OF conjI [OF this conjI [OF sinks run]]]]
  have "w' = [9] @ [1, 2, 3]" by auto
  then show ?thesis using run by simp
qed

theorem listing_complete_witness:
  "\<exists>w'. listSftpDirectory sample_files 5 ''/d'' 10000 (sample_connection\<lparr>ls_sftp := Some 3\<rparr>) []
      = Some (Inr [sample_directory_entry], sample_connection\<lparr>ls_sftp := Some 3\<rparr>, w')
    \<and> list_all2 (entry_of sample_files ''/d'') [(''a'', sample_attributes)] [sample_directory_entry]"
proof -
  let ?s = "sample_connection\<lparr>ls_sftp := Some 3\<rparr>"
  have lists: "lists sample_files 5 (\<lambda>path. sample_listing) (\<lambda>d w. w)"
    by (auto simp: lists_def sample_files_def quiet_lib_def waitForSessionIo_def split: prod.splits list.splits)
  have join: "joinRemotePath ''/d'' ''a'' = Inr ''/d/a''" by code_simp
  obtain w' where run: "listSftpDirectory sample_files 5 ''/d'' 10000 ?s [] = Some (Inr [sample_directory_entry], ?s, w')"
    by (simp add: listSftpDirectory_def list_opened_def andThen_def list_loop.simps closing_with_def closeDirectory_def
      sftp_handle_step_def validSftpPath_def containsNull_def sftp_busy_def sample_files_def sample_listing_def join
      directory_entry_def entryType_def sample_attributes_def sample_directory_entry_def sample_session_defs)
  have "real_names sample_listing = [(''a'', sample_attributes)]" by (simp add: sample_listing_def)
  then show ?thesis using listing_complete [OF lists run] run by auto
qed

theorem terminal_operations_return_witness:
  "openTerminal (sample_channels quiet_lib) 5 80 24 ''xterm'' [] 10000 sample_connection () \<noteq> None"
  using terminal_operations_return [of "sample_channels (quiet_lib :: unit Libssh2)" 5 "\<lambda>_. 0"]
  by (simp add: waits_end_def terminal_calls_steady_def steady_def sample_channels_def quiet_lib_def waitForSessionIo_def)

theorem auxiliary_command_advances_witness:
  "\<exists>result s' w'. pollAuxiliaryCommand (sample_channels quiet_lib) 64
      (sample_connection\<lparr>ls_auxiliaryCommand := ''uptime'', ls_auxiliaryPhase := AuxOpening\<rparr>) () = (Inr result, s', w')
    \<and> aux_rank (ls_auxiliaryPhase s') \<le> 9 \<and> ap_progress result \<noteq> AuxCompleted"
proof -
  let ?s = "sample_connection\<lparr>ls_auxiliaryCommand := ''uptime'', ls_auxiliaryPhase := AuxOpening\<rparr>"
  let ?s' = "sample_connection\<lparr>ls_auxiliaryChannel := Some 7, ls_auxiliaryCommand := [], ls_auxiliaryPhase := AuxReading\<rparr>"
  have run: "pollAuxiliaryCommand (sample_channels quiet_lib) 64 ?s () = (Inr aux_pending, ?s', ())"
    by (simp add: pollAuxiliaryCommand_def aux_with_channel_def aux_requesting_def aux_reading_def aux_drain_def sample_session_defs)
  show ?thesis using auxiliary_command_advances [OF run] run by auto
qed

end
