(* ===== verification/Sftp_Client.thy ===== *)
theory Sftp_Client
  imports Ssh_Sftp Ssh_Bootstrap
begin

text \<open>
  The file operations a transfer uses: the interface \<open>SftpClient\<close> of \<open>src/application/sftp/SftpClient.h\<close> and
  its implementation over the SSH session, \<open>Libssh2SftpClient\<close> of \<open>SftpClient.cpp\<close>.

  A client's state \<open>'c\<close> is whatever its implementation keeps.  An operation is an \<open>attempt\<close>; it takes the stop
  token it is given, the worker's or the empty one that never stops.
\<close>

datatype StopToken = WorkerToken | NoToken

type_synonym ('c, 'a) client_op = "('c, SshTransportError, 'a) attempt"

record 'c SftpClient =
  sc_canonicalizePath :: "StopToken \<Rightarrow> string \<Rightarrow> ('c, string) client_op"
  sc_listDirectory :: "StopToken \<Rightarrow> string \<Rightarrow> ('c, DirectoryEntry list) client_op"
  sc_statEntry :: "StopToken \<Rightarrow> string \<Rightarrow> ('c, DirectoryEntry option) client_op"
  sc_createDirectory :: "StopToken \<Rightarrow> string \<Rightarrow> ('c, unit) client_op"
  sc_renameEntry :: "StopToken \<Rightarrow> string \<Rightarrow> string \<Rightarrow> bool \<Rightarrow> ('c, unit) client_op"
  sc_removeEntry :: "StopToken \<Rightarrow> string \<Rightarrow> bool \<Rightarrow> ('c, unit) client_op"
  sc_openFileForRead :: "StopToken \<Rightarrow> string \<Rightarrow> ('c, unit) client_op"
  sc_openFileForWrite :: "StopToken \<Rightarrow> string \<Rightarrow> bool \<Rightarrow> ('c, unit) client_op"
  sc_openFileForResume :: "StopToken \<Rightarrow> string \<Rightarrow> ('c, unit) client_op"
  sc_seekFile :: "u64 \<Rightarrow> ('c, unit) client_op"
  sc_readFile :: "StopToken \<Rightarrow> nat \<Rightarrow> ('c, byte list) client_op"
  sc_writeFile :: "StopToken \<Rightarrow> byte list \<Rightarrow> ('c, unit) client_op"
  sc_closeFile :: "StopToken \<Rightarrow> ('c, unit) client_op"

section \<open>The client over libssh2\<close>

definition operationTimeout :: int where "operationTimeout = 30000"

text \<open>The connection a client owns: its session, and the state of the library under it.\<close>

record 'w SftpConnection =
  cn_session :: Libssh2Session
  cn_world :: 'w

definition on_session :: "('w, 'a) session_op \<Rightarrow> ('w SftpConnection, 'a) client_op" where
  "on_session operation c =
     (case operation (cn_session c) (cn_world c) of
        None \<Rightarrow> None
      | Some (r, s, w) \<Rightarrow> Some (r, \<lparr>cn_session = s, cn_world = w\<rparr>))"

definition ignore_value :: "('c, 'a) client_op \<Rightarrow> ('c, unit) client_op" where
  "ignore_value operation c = map_option (\<lambda>(r, c'). (map_sum id (\<lambda>_. ()) r, c')) (operation c)"

text \<open>libssh2 as it is seen with the token.\<close>

definition with_token :: "StopToken \<Rightarrow> 'w LibSftp \<Rightarrow> 'w LibSftp" where
  "with_token token F =
     (case token of
        WorkerToken \<Rightarrow> F
      | NoToken \<Rightarrow> F\<lparr>lf_lib := (lf_lib F)\<lparr>stop_requested := (\<lambda>w. False), tr_wait := lf_wait F\<rparr>\<rparr>)"

definition client_list :: "'w LibSftp \<Rightarrow> nat \<Rightarrow> StopToken \<Rightarrow> string \<Rightarrow> ('w SftpConnection, DirectoryEntry list) client_op" where
  "client_list F transport token path = on_session (listSftpDirectory (with_token token F) transport path operationTimeout)"

text \<open>The name after the last slash.\<close>

definition entry_name :: "string \<Rightarrow> string" where
  "entry_name path = rev (takeWhile (\<lambda>c. c \<noteq> slash) (rev path))"

definition client_stat :: "'w LibSftp \<Rightarrow> nat \<Rightarrow> StopToken \<Rightarrow> string \<Rightarrow> ('w SftpConnection, DirectoryEntry option) client_op" where
  "client_stat F transport token path =
     andThen (client_list F transport token (parentRemotePath path))
       (\<lambda>entries c. Some (Inr (find (\<lambda>e. de_name e = entry_name path) entries), c))"

definition libssh2SftpClient :: "'w LibSftp \<Rightarrow> nat \<Rightarrow> 'w SftpConnection SftpClient" where
  "libssh2SftpClient F transport =
     \<lparr>sc_canonicalizePath = (\<lambda>token path. on_session (canonicalizeSftpPath (with_token token F) transport path operationTimeout)),
      sc_listDirectory = client_list F transport,
      sc_statEntry = client_stat F transport,
      sc_createDirectory = (\<lambda>token path. on_session (createSftpDirectory (with_token token F) transport path operationTimeout)),
      sc_renameEntry = (\<lambda>token source destination replace. on_session (renameSftpEntry (with_token token F) transport source destination
        (if replace then ReplaceAtomically else NoReplace) operationTimeout)),
      sc_removeEntry = (\<lambda>token path directory. on_session
        (if directory then removeSftpDirectory (with_token token F) transport path operationTimeout
         else removeSftpFile (with_token token F) transport path operationTimeout)),
      sc_openFileForRead = (\<lambda>token path. ignore_value (on_session
        (openSftpFileForRead (with_token token F) transport path operationTimeout))),
      sc_openFileForWrite = (\<lambda>token path replace. ignore_value (on_session
        (openSftpFileForWrite (with_token token F) transport path (if replace then ReplaceFile else CreateNew) operationTimeout))),
      sc_openFileForResume = (\<lambda>token path. ignore_value (on_session
        (openSftpFileForWrite (with_token token F) transport path OpenOrCreate operationTimeout))),
      sc_seekFile = (\<lambda>offset. on_session (\<lambda>s w. case seekSftpFile F offset s w of (r, w') \<Rightarrow> Some (r, s, w'))),
      sc_readFile = (\<lambda>token capacity. on_session (readSftpFile (with_token token F) transport capacity operationTimeout)),
      sc_writeFile = (\<lambda>token input. on_session (writeSftpFile (with_token token F) transport input operationTimeout)),
      sc_closeFile = (\<lambda>token. on_session (closeSftpFile (with_token token F) transport operationTimeout))\<rparr>"

text \<open>The client is made from a new connection on which SFTP was opened.\<close>

definition createSftpClient ::
  "'w BootEnv \<Rightarrow> 'w LibSftp \<Rightarrow> SshConnectionRequest \<Rightarrow> ('w, nat \<times> Libssh2Session) boot" where
  "createSftpClient E F request =
     andThen (establishAuthenticatedSshConnection E request) (\<lambda>(transport, session) b.
       case openSftp F transport operationTimeout session (bs_world b) of
         None \<Rightarrow> None
       | Some (Inl e, session', w) \<Rightarrow> Some (Inl (connectionError (sshFailureFromTransport (se_kind e) True)), b\<lparr>bs_world := w\<rparr>)
       | Some (Inr _, session', w) \<Rightarrow> Some (Inr (transport, session'), b\<lparr>bs_world := w\<rparr>))"

text \<open>The destructor.\<close>

definition client_release :: "'w LibSftp \<Rightarrow> nat \<Rightarrow> 'w SftpConnection \<Rightarrow> 'w SftpConnection option" where
  "client_release F transport c =
     (if ls_sftp (cn_session c) = None then Some c
      else map_option snd (on_session (closeSftp (with_token NoToken F) transport operationTimeout) c))"

end
