(* ===== verification/Transfer_Executor.thy ===== *)
theory Transfer_Executor
  imports Sftp_Client Transfer_Manager
begin

text \<open>
  The work of a transfer's worker: \<open>src/application/sftp/TransferExecutor.cpp\<close>, which downloads or uploads one
  file through an \<open>SftpClient\<close>, by way of a partial file beside the destination.

  The state is the client's and that of the local files, \<open>'l\<close>.  \<open>ExecEnv\<close> holds what is outside: the client's
  operations, Qt's files, the stop token, the clock, the two callbacks of the manager (a null callback is one
  that does nothing, or says no) and the token that SHA-256 makes of a task's id.  A \<open>QFileInfo\<close> is the snapshot
  it caches, \<open>None\<close> for a path at which nothing exists.  A \<open>QString\<close> is its UTF-8 text.
\<close>

section \<open>The environment\<close>

record LocalInfo =
  li_symbolic :: bool
  li_directory :: bool
  li_file :: bool
  li_size :: int
  li_modified :: int

record ('c, 'l) Exec =
  ex_client :: 'c
  ex_local :: 'l

record ('c, 'l) ExecEnv =
  xe_client :: "'c SftpClient"
  xe_stop :: "('c, 'l) Exec \<Rightarrow> bool"
  xe_now :: "('c, 'l) Exec \<Rightarrow> int"
  xe_pauseRequested :: "('c, 'l) Exec \<Rightarrow> bool"
  xe_progress :: "u64 \<Rightarrow> u64 \<Rightarrow> u64 \<Rightarrow> 'l \<Rightarrow> 'l"
  xe_token :: "string \<Rightarrow> string"
  xe_info :: "string \<Rightarrow> 'l \<Rightarrow> LocalInfo option"
  xe_remove :: "string \<Rightarrow> 'l \<Rightarrow> bool \<times> 'l"
  xe_openOutput :: "string \<Rightarrow> bool \<Rightarrow> 'l \<Rightarrow> bool \<times> 'l"
  xe_write :: "byte list \<Rightarrow> 'l \<Rightarrow> bool \<times> 'l"
  xe_closeOutput :: "'l \<Rightarrow> 'l"
  xe_commit :: "string \<Rightarrow> string \<Rightarrow> 'l \<Rightarrow> bool \<times> 'l"
  xe_openInput :: "string \<Rightarrow> 'l \<Rightarrow> bool \<times> 'l"
  xe_seekInput :: "u64 \<Rightarrow> 'l \<Rightarrow> bool \<times> 'l"
  xe_readInput :: "nat \<Rightarrow> 'l \<Rightarrow> byte list option \<times> 'l"

definition transferBufferSize :: nat where "transferBufferSize = 256 * 1024"

definition progressInterval :: int where "progressInterval = 50"

definition localEntryType :: "LocalInfo \<Rightarrow> EntryType" where
  "localEntryType info =
     (if li_symbolic info then SymbolicLink else if li_directory info then Directory
      else if li_file info then RegularFile else Other)"

definition part_suffix :: string where "part_suffix = ''.ztermy-part-''"

text \<open>\<open>temporaryRemotePath\<close> and \<open>temporaryLocalPath\<close>.\<close>

definition temporaryPath :: "('c, 'l) ExecEnv \<Rightarrow> string \<Rightarrow> string \<Rightarrow> string" where
  "temporaryPath E destination taskId = destination @ part_suffix @ xe_token E taskId"

definition speedSince :: "int \<Rightarrow> int \<Rightarrow> u64 \<Rightarrow> u64" where
  "speedSince started now bytes =
     (let milliseconds = now - started
      in if milliseconds \<le> 0 then 0 else bytes * 1000 div of_int milliseconds)"

section \<open>Results\<close>

definition exec_result :: "TransferExecutionResultKind \<Rightarrow> u64 \<Rightarrow> string \<Rightarrow> TransferExecutionResult" where
  "exec_result kind transferred destination =
     \<lparr>er_kind = kind, er_transferredBytes = transferred, er_finalDestinationPath = destination, er_conflict = None,
      er_error = None, er_transportError = None\<rparr>"

definition failure :: "TransferExecutionErrorKind \<Rightarrow> u64 \<Rightarrow> TransferExecutionResult" where
  "failure kind transferred = (exec_result ResultFailed transferred [])\<lparr>er_error := Some kind\<rparr>"

definition remoteFailure :: "u64 \<Rightarrow> SshTransportError \<Rightarrow> TransferExecutionResult" where
  "remoteFailure transferred e =
     (exec_result (if se_kind e = TransportCancelled then ResultCancelled else ResultFailed) transferred [])
       \<lparr>er_error := Some ExecRemoteIo, er_transportError := Some (se_kind e)\<rparr>"

definition conflictResult :: "FileConflict \<Rightarrow> TransferExecutionResult" where
  "conflictResult conflict = (exec_result ResultNeedsAttention 0 [])\<lparr>er_conflict := Some conflict\<rparr>"

section \<open>Steps\<close>

type_synonym ('c, 'l, 'a) exec = "(('c, 'l) Exec, TransferExecutionResult, 'a) attempt"

definition exec_return :: "'a \<Rightarrow> ('c, 'l, 'a) exec" where "exec_return a x = Some (Inr a, x)"

definition exec_stop :: "TransferExecutionResult \<Rightarrow> ('c, 'l, 'a) exec" where "exec_stop r x = Some (Inl r, x)"

definition on_client :: "('c, 'a) client_op \<Rightarrow> (('c, 'l) Exec, SshTransportError, 'a) attempt" where
  "on_client operation x =
     (case operation (ex_client x) of None \<Rightarrow> None | Some (r, c) \<Rightarrow> Some (r, x\<lparr>ex_client := c\<rparr>))"

text \<open>A call of the client whose error ends the transfer.\<close>

definition remote :: "u64 \<Rightarrow> ('c, 'a) client_op \<Rightarrow> ('c, 'l, 'a) exec" where
  "remote transferred operation x =
     (case on_client operation x of
        None \<Rightarrow> None
      | Some (Inl e, x') \<Rightarrow> Some (Inl (remoteFailure transferred e), x')
      | Some (Inr a, x') \<Rightarrow> Some (Inr a, x'))"

definition on_local :: "('l \<Rightarrow> 'a \<times> 'l) \<Rightarrow> ('c, 'l) Exec \<Rightarrow> 'a \<times> ('c, 'l) Exec" where
  "on_local operation x = (case operation (ex_local x) of (a, l) \<Rightarrow> (a, x\<lparr>ex_local := l\<rparr>))"

text \<open>A call of a local file whose failure ends the transfer.\<close>

definition local_or :: "TransferExecutionErrorKind \<Rightarrow> u64 \<Rightarrow> ('l \<Rightarrow> bool \<times> 'l) \<Rightarrow> ('c, 'l, unit) exec" where
  "local_or kind transferred operation x =
     (case on_local operation x of
        (True, x') \<Rightarrow> Some (Inr (), x')
      | (False, x') \<Rightarrow> Some (Inl (failure kind transferred), x'))"

definition close_output :: "('c, 'l) ExecEnv \<Rightarrow> ('c, 'l) Exec \<Rightarrow> ('c, 'l) Exec" where
  "close_output E x = x\<lparr>ex_local := xe_closeOutput E (ex_local x)\<rparr>"

text \<open>
  The variables around the progress callback, which is called at the end or when its interval has passed:
  \<open>total\<close>, \<open>started\<close>, \<open>startedAt\<close> and \<open>lastProgress\<close>.
\<close>

record ProgressClock =
  pc_total :: u64
  pc_started :: int
  pc_startedAt :: u64
  pc_lastProgress :: int

definition progress_clock :: "('c, 'l) ExecEnv \<Rightarrow> u64 \<Rightarrow> u64 \<Rightarrow> ('c, 'l) Exec \<Rightarrow> ProgressClock" where
  "progress_clock E totalBytes transferred x =
     \<lparr>pc_total = totalBytes, pc_started = xe_now E x, pc_startedAt = transferred, pc_lastProgress = xe_now E x\<rparr>"

definition report_progress ::
  "('c, 'l) ExecEnv \<Rightarrow> ProgressClock \<Rightarrow> u64 \<Rightarrow> ('c, 'l) Exec \<Rightarrow> ProgressClock \<times> ('c, 'l) Exec" where
  "report_progress E clock transferred x =
     (let now = xe_now E x in
      if transferred = pc_total clock \<or> now - pc_lastProgress clock \<ge> progressInterval
      then (clock\<lparr>pc_lastProgress := now\<rparr>,
            x\<lparr>ex_local := xe_progress E transferred (pc_total clock)
                 (speedSince (pc_started clock) (xe_now E x) (transferred - pc_startedAt clock)) (ex_local x)\<rparr>)
      else (clock, x))"

section \<open>The guard of the remote file\<close>

text \<open>
  \<open>RemoteFileGuard\<close>: its flag \<open>m_active\<close> goes with the result of the part it guards, and its destructor closes
  the file when it is still set.
\<close>

type_synonym ('c, 'l) guarded = "('c, 'l) Exec \<Rightarrow> ((TransferExecutionResult \<times> bool) \<times> ('c, 'l) Exec) option"

definition guard_close ::
  "('c, 'l) ExecEnv \<Rightarrow> StopToken \<Rightarrow> bool \<Rightarrow> ('c, 'l) Exec
    \<Rightarrow> ((SshTransportError + unit) \<times> bool \<times> ('c, 'l) Exec) option" where
  "guard_close E token active x =
     (if \<not> active then Some (Inr (), False, x)
      else case on_client (sc_closeFile (xe_client E) token) x of
        None \<Rightarrow> None
      | Some (r, x') \<Rightarrow> Some (r, isl r, x'))"

definition with_guard :: "('c, 'l) ExecEnv \<Rightarrow> ('c, 'l) guarded \<Rightarrow> ('c, 'l, 'a) exec" where
  "with_guard E body x =
     (case body x of
        None \<Rightarrow> None
      | Some ((result, active), x') \<Rightarrow>
          (case guard_close E NoToken active x' of None \<Rightarrow> None | Some (_, _, x'') \<Rightarrow> Some (Inl result, x'')))"

text \<open>A result after an attempt to close the file, whatever comes of it.\<close>

definition closing_result :: "('c, 'l) ExecEnv \<Rightarrow> bool \<Rightarrow> TransferExecutionResult \<Rightarrow> ('c, 'l) guarded" where
  "closing_result E active result x =
     (case guard_close E NoToken active x of None \<Rightarrow> None | Some (_, active', x') \<Rightarrow> Some ((result, active'), x'))"

section \<open>Downloading\<close>

definition download_conflict ::
  "TransferTask \<Rightarrow> DirectoryEntry \<Rightarrow> LocalInfo \<Rightarrow> FileConflict" where
  "download_conflict task source info =
     \<lparr>fc_taskId = tt_id task, fc_sourcePath = tt_sourcePath task, fc_destinationPath = tt_destinationPath task,
      fc_sourceType = de_type source, fc_destinationType = localEntryType info,
      fc_sourceSize = de_size source, fc_destinationSize = of_int (li_size info),
      fc_sourceModifiedUtcSeconds = de_modifiedUtcSeconds source,
      fc_destinationModifiedUtcSeconds = Some (li_modified info)\<rparr>"

definition download_destination ::
  "('c, 'l) ExecEnv \<Rightarrow> TransferTask \<Rightarrow> TransferExecutionOptions \<Rightarrow> DirectoryEntry \<Rightarrow> ('c, 'l, string) exec" where
  "download_destination E task options source x =
     (let destination = tt_destinationPath task in
      case xe_info E destination (ex_local x) of
        None \<Rightarrow> exec_return destination x
      | Some info \<Rightarrow>
          let conflict = download_conflict task source info in
          (case eo_conflictAction options of
             None \<Rightarrow> exec_stop (conflictResult conflict) x
           | Some SkipConflict \<Rightarrow> exec_stop (exec_result ResultSkipped 0 destination) x
           | Some CancelConflict \<Rightarrow> exec_stop (exec_result ResultCancelled 0 destination) x
           | Some ReplaceConflict \<Rightarrow>
               if \<not> canReplaceConflict conflict then exec_stop (failure ExecIncompatibleConflict 0) x
               else exec_return destination x
           | Some RenameConflict \<Rightarrow>
               if eo_renamedDestinationPath options = [] \<or> xe_info E (eo_renamedDestinationPath options) (ex_local x) \<noteq> None
               then exec_stop (failure ExecInvalidConflictRename 0) x
               else exec_return (eo_renamedDestinationPath options) x))"

text \<open>How much of the file the partial file already has.\<close>

definition download_resume ::
  "TransferTask \<Rightarrow> DirectoryEntry \<Rightarrow> LocalInfo option \<Rightarrow> TransferExecutionResult + u64" where
  "download_resume task source partial =
     (let transferred = tt_transferredBytes task in
      if tt_totalBytes task \<noteq> 0 \<and> tt_totalBytes task \<noteq> de_size source then Inl (failure ExecInvalidTask transferred)
      else if transferred > 0
      then (case partial of
              None \<Rightarrow> Inr 0
            | Some info \<Rightarrow>
                if \<not> li_file info \<or> li_size info < 0 \<or> de_size source < of_int (li_size info)
                then Inl (failure ExecInvalidTask transferred)
                else Inr (of_int (li_size info)))
      else Inr transferred)"

partial_function (option) download_loop ::
  "('c, 'l) ExecEnv \<Rightarrow> ProgressClock \<Rightarrow> u64 \<Rightarrow> ('c, 'l) Exec
    \<Rightarrow> ((TransferExecutionResult + u64) \<times> ('c, 'l) Exec) option" where
  "download_loop E clock transferred w =
     (if xe_stop E w then Some (Inr transferred, w)
      else case on_client (sc_readFile (xe_client E) WorkerToken transferBufferSize) w of
        None \<Rightarrow> None
      | Some (Inl e, w1) \<Rightarrow> Some (Inl (remoteFailure transferred e), close_output E w1)
      | Some (Inr bytes, w1) \<Rightarrow>
          if bytes = [] then Some (Inr transferred, w1)
          else (case on_local (xe_write E bytes) w1 of (written, w2) \<Rightarrow>
                  if \<not> written then Some (Inl (failure ExecLocalIo transferred), close_output E w2)
                  else (case report_progress E clock (transferred + of_nat (length bytes)) w2 of
                          (clock', w3) \<Rightarrow>
                            download_loop E clock' (transferred + of_nat (length bytes)) w3)))"

text \<open>After the loop: stopped, or to be closed and moved to its place.\<close>

definition download_finish ::
  "('c, 'l) ExecEnv \<Rightarrow> TransferTask \<Rightarrow> string \<Rightarrow> string \<Rightarrow> u64 \<Rightarrow> ('c, 'l) guarded" where
  "download_finish E task destination partialPath transferred x =
     (if xe_stop E x then
        let x1 = close_output E x; paused = xe_pauseRequested E x1;
            x2 = (if paused then x1 else snd (on_local (xe_remove E partialPath) x1))
        in Some ((exec_result (if paused then ResultPaused else ResultCancelled) transferred destination, True), x2)
      else case guard_close E WorkerToken True x of
        None \<Rightarrow> None
      | Some (Inl e, active, x1) \<Rightarrow> Some ((remoteFailure transferred e, active), close_output E x1)
      | Some (Inr _, active, x1) \<Rightarrow>
          let x2 = close_output E x1 in
          if xe_info E destination (ex_local x2) \<noteq> None \<and> destination \<noteq> tt_destinationPath task
          then Some ((failure ExecInvalidConflictRename transferred, active), snd (on_local (xe_remove E partialPath) x2))
          else (case on_local (xe_commit E partialPath destination) x2 of
                  (False, x3) \<Rightarrow> Some ((failure ExecCommitFailed transferred, active), x3)
                | (True, x3) \<Rightarrow> Some ((exec_result ResultCompleted transferred destination, active), x3)))"

definition download_opened ::
  "('c, 'l) ExecEnv \<Rightarrow> TransferTask \<Rightarrow> u64 \<Rightarrow> string \<Rightarrow> string \<Rightarrow> u64 \<Rightarrow> ('c, 'l) guarded" where
  "download_opened E task totalBytes destination partialPath transferred x =
     (case (if transferred > 0 then remote transferred (sc_seekFile (xe_client E) transferred) x else Some (Inr (), x)) of
        None \<Rightarrow> None
      | Some (Inl r, x1) \<Rightarrow> Some ((r, True), x1)
      | Some (Inr _, x1) \<Rightarrow>
          (case on_local (xe_openOutput E partialPath (transferred > 0)) x1 of
             (False, x2) \<Rightarrow> Some ((failure ExecLocalIo 0, True), x2)
           | (True, x2) \<Rightarrow>
               (case download_loop E (progress_clock E totalBytes transferred x2) transferred x2 of
                  None \<Rightarrow> None
                | Some (Inl r, x3) \<Rightarrow> Some ((r, True), x3)
                | Some (Inr transferred', x3) \<Rightarrow> download_finish E task destination partialPath transferred' x3)))"

definition source_changed :: "TransferTask \<Rightarrow> DirectoryEntry \<Rightarrow> bool" where
  "source_changed task source \<longleftrightarrow> tt_sourceModifiedUtcSeconds task \<noteq> None \<and> de_modifiedUtcSeconds source \<noteq> None
     \<and> tt_sourceModifiedUtcSeconds task \<noteq> de_modifiedUtcSeconds source"

definition download_from ::
  "('c, 'l) ExecEnv \<Rightarrow> TransferTask \<Rightarrow> DirectoryEntry \<Rightarrow> string \<Rightarrow> ('c, 'l, 'a) exec" where
  "download_from E task source destination x =
     (let partialPath = temporaryPath E destination (tt_id task); partial = xe_info E partialPath (ex_local x) in
      case download_resume task source partial of
        Inl r \<Rightarrow> exec_stop r x
      | Inr transferred \<Rightarrow>
          andThen (if transferred = 0 \<and> partial \<noteq> None then local_or ExecLocalIo 0 (xe_remove E partialPath) else exec_return ())
            (\<lambda>_. andThen (remote 0 (sc_openFileForRead (xe_client E) WorkerToken (tt_sourcePath task)))
              (\<lambda>_. with_guard E (download_opened E task (de_size source) destination partialPath transferred))) x)"

definition executeDownload ::
  "('c, 'l) ExecEnv \<Rightarrow> TransferTask \<Rightarrow> TransferExecutionOptions \<Rightarrow> ('c, 'l, 'a) exec" where
  "executeDownload E task options =
     andThen (remote 0 (sc_statEntry (xe_client E) WorkerToken (tt_sourcePath task))) (\<lambda>found.
       case found of
         None \<Rightarrow> exec_stop (failure ExecInvalidTask 0)
       | Some source \<Rightarrow>
           if de_type source \<noteq> RegularFile then exec_stop (failure ExecInvalidTask 0)
           else if source_changed task source then exec_stop (failure ExecInvalidTask (tt_transferredBytes task))
           else andThen (download_destination E task options source) (download_from E task source))"

section \<open>Uploading\<close>

definition upload_conflict :: "TransferTask \<Rightarrow> LocalInfo \<Rightarrow> DirectoryEntry \<Rightarrow> FileConflict" where
  "upload_conflict task info existing =
     \<lparr>fc_taskId = tt_id task, fc_sourcePath = tt_sourcePath task, fc_destinationPath = tt_destinationPath task,
      fc_sourceType = RegularFile, fc_destinationType = de_type existing,
      fc_sourceSize = of_int (li_size info), fc_destinationSize = de_size existing,
      fc_sourceModifiedUtcSeconds = Some (li_modified info),
      fc_destinationModifiedUtcSeconds = de_modifiedUtcSeconds existing\<rparr>"

text \<open>The destination, and whether it is replaced.\<close>

definition upload_destination ::
  "('c, 'l) ExecEnv \<Rightarrow> TransferTask \<Rightarrow> TransferExecutionOptions \<Rightarrow> LocalInfo \<Rightarrow> ('c, 'l, string \<times> bool) exec" where
  "upload_destination E task options info =
     (let destination = tt_destinationPath task in
      andThen (remote 0 (sc_statEntry (xe_client E) WorkerToken destination)) (\<lambda>found.
        case found of
          None \<Rightarrow> exec_return (destination, False)
        | Some existing \<Rightarrow>
            let conflict = upload_conflict task info existing in
            (case eo_conflictAction options of
               None \<Rightarrow> exec_stop (conflictResult conflict)
             | Some SkipConflict \<Rightarrow> exec_stop (exec_result ResultSkipped 0 destination)
             | Some CancelConflict \<Rightarrow> exec_stop (exec_result ResultCancelled 0 destination)
             | Some ReplaceConflict \<Rightarrow>
                 if \<not> canReplaceConflict conflict then exec_stop (failure ExecIncompatibleConflict 0)
                 else exec_return (destination, True)
             | Some RenameConflict \<Rightarrow>
                 (case normalizeRemotePath (eo_renamedDestinationPath options) of
                    Inl _ \<Rightarrow> exec_stop (failure ExecInvalidConflictRename 0)
                  | Inr renamed \<Rightarrow>
                      if renamed = destination then exec_stop (failure ExecInvalidConflictRename 0)
                      else andThen (remote 0 (sc_statEntry (xe_client E) WorkerToken renamed)) (\<lambda>taken.
                        if taken \<noteq> None then exec_stop (failure ExecInvalidConflictRename 0)
                        else exec_return (renamed, False))))))"

definition upload_resume ::
  "TransferTask \<Rightarrow> u64 \<Rightarrow> DirectoryEntry option \<Rightarrow> TransferExecutionResult + u64" where
  "upload_resume task sourceSize stale =
     (let transferred = tt_transferredBytes task in
      if tt_totalBytes task \<noteq> 0 \<and> tt_totalBytes task \<noteq> sourceSize then Inl (failure ExecInvalidTask transferred)
      else if transferred > 0
      then (case stale of
              None \<Rightarrow> Inr 0
            | Some entry \<Rightarrow>
                if de_type entry \<noteq> RegularFile \<or> de_size entry > sourceSize then Inl (failure ExecInvalidTask transferred)
                else Inr (de_size entry))
      else Inr transferred)"

partial_function (option) upload_loop ::
  "('c, 'l) ExecEnv \<Rightarrow> ProgressClock \<Rightarrow> u64 \<Rightarrow> ('c, 'l) Exec
    \<Rightarrow> (((TransferExecutionResult \<times> bool) + u64) \<times> ('c, 'l) Exec) option" where
  "upload_loop E clock transferred w =
     (if xe_stop E w then Some (Inr transferred, w)
      else case on_local (xe_readInput E transferBufferSize) w of
        (None, w1) \<Rightarrow> map_option (\<lambda>(r, w2). (Inl r, w2)) (closing_result E True (failure ExecLocalIo transferred) w1)
      | (Some bytes, w1) \<Rightarrow>
          if bytes = [] then Some (Inr transferred, w1)
          else (case on_client (sc_writeFile (xe_client E) WorkerToken bytes) w1 of
                  None \<Rightarrow> None
                | Some (Inl e, w2) \<Rightarrow> map_option (\<lambda>(r, w3). (Inl r, w3)) (closing_result E True (remoteFailure transferred e) w2)
                | Some (Inr _, w2) \<Rightarrow>
                    (case report_progress E clock (transferred + of_nat (length bytes)) w2 of
                       (clock', w3) \<Rightarrow>
                         upload_loop E clock' (transferred + of_nat (length bytes)) w3)))"

text \<open>A call of the client whose outcome does not matter.\<close>

definition attempted :: "('c, 'a) client_op \<Rightarrow> ('c, 'l) Exec \<Rightarrow> ('c, 'l) Exec option" where
  "attempted operation x = map_option snd (on_client operation x)"

text \<open>\<open>closeAndRemoveTemporary\<close>, and the result that goes with it.\<close>

definition discarding :: "('c, 'l) ExecEnv \<Rightarrow> bool \<Rightarrow> string \<Rightarrow> TransferExecutionResult \<Rightarrow> ('c, 'l) guarded" where
  "discarding E active partialPath result x =
     (case guard_close E NoToken active x of
        None \<Rightarrow> None
      | Some (_, active', x1) \<Rightarrow>
          map_option (Pair (result, active')) (attempted (sc_removeEntry (xe_client E) NoToken partialPath False) x1))"

definition upload_finish ::
  "('c, 'l) ExecEnv \<Rightarrow> string \<Rightarrow> bool \<Rightarrow> string \<Rightarrow> u64 \<Rightarrow> ('c, 'l) guarded" where
  "upload_finish E destination replace partialPath transferred x =
     (if xe_stop E x then
        (case guard_close E NoToken True x of
           None \<Rightarrow> None
         | Some (_, active, x1) \<Rightarrow>
             if xe_pauseRequested E x1 then Some ((exec_result ResultPaused transferred destination, active), x1)
             else map_option (Pair (exec_result ResultCancelled transferred destination, active))
                    (attempted (sc_removeEntry (xe_client E) NoToken partialPath False) x1))
      else case guard_close E WorkerToken True x of
        None \<Rightarrow> None
      | Some (Inl e, active, x1) \<Rightarrow> discarding E active partialPath (remoteFailure transferred e) x1
      | Some (Inr _, active, x1) \<Rightarrow>
          (case on_client (sc_renameEntry (xe_client E) WorkerToken partialPath destination replace) x1 of
             None \<Rightarrow> None
           | Some (Inl e, x2) \<Rightarrow> discarding E active partialPath (remoteFailure transferred e) x2
           | Some (Inr _, x2) \<Rightarrow> Some ((exec_result ResultCompleted transferred destination, active), x2)))"

definition upload_opened ::
  "('c, 'l) ExecEnv \<Rightarrow> u64 \<Rightarrow> string \<Rightarrow> bool \<Rightarrow> string \<Rightarrow> u64 \<Rightarrow> ('c, 'l) guarded" where
  "upload_opened E totalBytes destination replace partialPath transferred x =
     (case (if transferred > 0
            then andThen (remote transferred (sc_seekFile (xe_client E) transferred))
                   (\<lambda>_. local_or ExecLocalIo transferred (xe_seekInput E transferred)) x
            else Some (Inr (), x)) of
        None \<Rightarrow> None
      | Some (Inl r, x1) \<Rightarrow> Some ((r, True), x1)
      | Some (Inr _, x1) \<Rightarrow>
          (case upload_loop E (progress_clock E totalBytes transferred x1) transferred x1 of
             None \<Rightarrow> None
           | Some (Inl (r, active), x2) \<Rightarrow> Some ((r, active), x2)
           | Some (Inr transferred', x2) \<Rightarrow> upload_finish E destination replace partialPath transferred' x2))"

definition upload_to ::
  "('c, 'l) ExecEnv \<Rightarrow> TransferTask \<Rightarrow> LocalInfo \<Rightarrow> string \<times> bool \<Rightarrow> ('c, 'l, 'a) exec" where
  "upload_to E task info target =
     (let (destination, replace) = target; partialPath = temporaryPath E destination (tt_id task); client = xe_client E in
      andThen (remote 0 (sc_statEntry client WorkerToken partialPath)) (\<lambda>stale.
        case upload_resume task (of_int (li_size info)) stale of
          Inl r \<Rightarrow> exec_stop r
        | Inr transferred \<Rightarrow>
            andThen (if transferred = 0 \<and> stale \<noteq> None then remote 0 (sc_removeEntry client WorkerToken partialPath False)
                     else exec_return ()) (\<lambda>_.
            andThen (remote 0 (if transferred > 0 then sc_openFileForResume client WorkerToken partialPath
                               else sc_openFileForWrite client WorkerToken partialPath False)) (\<lambda>_.
            with_guard E (upload_opened E (of_int (li_size info)) destination replace partialPath transferred)))))"

definition executeUpload ::
  "('c, 'l) ExecEnv \<Rightarrow> TransferTask \<Rightarrow> TransferExecutionOptions \<Rightarrow> ('c, 'l, 'a) exec" where
  "executeUpload E task options x =
     (case xe_info E (tt_sourcePath task) (ex_local x) of
        None \<Rightarrow> exec_stop (failure ExecInvalidTask 0) x
      | Some info \<Rightarrow>
          if \<not> li_file info \<or> li_symbolic info then exec_stop (failure ExecInvalidTask 0) x
          else if tt_sourceModifiedUtcSeconds task \<noteq> None \<and> tt_sourceModifiedUtcSeconds task \<noteq> Some (li_modified info)
          then exec_stop (failure ExecInvalidTask (tt_transferredBytes task)) x
          else andThen (local_or ExecLocalIo 0 (xe_openInput E (tt_sourcePath task)))
                 (\<lambda>_. andThen (upload_destination E task options info) (upload_to E task info)) x)"

definition executeTransfer ::
  "('c, 'l) ExecEnv \<Rightarrow> TransferTask \<Rightarrow> TransferExecutionOptions \<Rightarrow> ('c, 'l) Exec
    \<Rightarrow> (TransferExecutionResult \<times> ('c, 'l) Exec) option" where
  "executeTransfer E task options x =
     (if \<not> validTransferTask task then Some (failure ExecInvalidTask 0, x)
      else if xe_stop E x then Some (exec_result ResultCancelled 0 [], x)
      else map_option (\<lambda>(r, x'). (case r of Inl result \<Rightarrow> result | Inr result \<Rightarrow> result, x'))
             ((if tt_direction task = Download then executeDownload E task options else executeUpload E task options) x))"

end
