(* ===== verification/Transfer_Files.thy ===== *)
theory Transfer_Files
  imports Transfer_Executor
begin

text \<open>
  What a transfer leaves behind.  \<open>sftp_files\<close> is the contract of an \<open>SftpClient\<close>: \<open>files\<close> is what the regular
  files of the server hold, \<open>opened\<close> the file that is open and the offset in it.  An operation that reports an
  error may have reached the server or not.  \<open>local_files\<close> says the same of Qt's files that are written, with
  \<open>output\<close> the path that is open, and \<open>local_source\<close> of the one that is read, with \<open>input\<close> what is still to come.

  Under these contracts a destination is never partial: it is what it was, or the whole source.
\<close>

locale sftp_files =
  fixes client :: "'c SftpClient" and files :: "'c \<Rightarrow> string \<Rightarrow> byte list option" and opened :: "'c \<Rightarrow> (string \<times> nat) option"
  assumes stat_frame: "sc_statEntry client t p c = Some (found, c') \<Longrightarrow> files c' = files c"
    and remove_effect: "sc_removeEntry client t p False c = Some (r, c') \<Longrightarrow>
      (files c' = files c \<or> files c' = (files c)(p := None)) \<and> (\<not> isl r \<longrightarrow> files c' p = None)"
    and read_opens: "sc_openFileForRead client t p c = Some (r, c') \<Longrightarrow>
      files c' = files c \<and> (\<not> isl r \<longrightarrow> opened c' = Some (p, 0))"
    and write_creates: "sc_openFileForWrite client t p False c = Some (r, c') \<Longrightarrow>
      (\<forall>q. q \<noteq> p \<longrightarrow> files c' q = files c q) \<and> (\<not> isl r \<longrightarrow> opened c' = Some (p, 0) \<and> files c' p = Some [])"
    and resume_keeps: "sc_openFileForResume client t p c = Some (r, c') \<Longrightarrow>
      (\<forall>q. q \<noteq> p \<longrightarrow> files c' q = files c q)
      \<and> (\<not> isl r \<longrightarrow> opened c' = Some (p, 0) \<and> (files c p \<noteq> None \<longrightarrow> files c' p = files c p))"
    and seek_moves: "sc_seekFile client n c = Some (r, c') \<Longrightarrow> opened c = Some (p, k) \<Longrightarrow>
      files c' = files c \<and> (\<not> isl r \<longrightarrow> opened c' = Some (p, unat n))"
    and read_takes: "sc_readFile client t capacity c = Some (taken, c') \<Longrightarrow> opened c = Some (p, k) \<Longrightarrow> 0 < capacity \<Longrightarrow>
      files c' = files c \<and> (\<forall>bs contents. taken = Inr bs \<longrightarrow> files c p = Some contents \<longrightarrow>
        prefix bs (drop k contents) \<and> (bs = [] \<longrightarrow> drop k contents = []) \<and> opened c' = Some (p, k + length bs))"
    and write_puts: "sc_writeFile client t bs c = Some (r, c') \<Longrightarrow> opened c = Some (p, k) \<Longrightarrow>
      (\<forall>q. q \<noteq> p \<longrightarrow> files c' q = files c q)
      \<and> (\<forall>contents. \<not> isl r \<longrightarrow> files c p = Some contents \<longrightarrow> length contents = k \<longrightarrow>
          files c' p = Some (contents @ bs) \<and> opened c' = Some (p, k + length bs))"
    and close_frame: "sc_closeFile client t c = Some (r, c') \<Longrightarrow> files c' = files c"
    and rename_moves: "sc_renameEntry client t p q replace c = Some (r, c') \<Longrightarrow> p \<noteq> q \<Longrightarrow>
      (files c' = files c \<and> isl r)
      \<or> (files c' = (files c)(q := files c p, p := None) \<and> files c p \<noteq> None \<and> (replace \<or> files c q = None))"

definition local_files ::
  "('c, 'l) ExecEnv \<Rightarrow> ('l \<Rightarrow> string \<Rightarrow> byte list option) \<Rightarrow> ('l \<Rightarrow> string option) \<Rightarrow> bool" where
  "local_files E view output \<longleftrightarrow>
     (\<forall>p l ok l'. xe_remove E p l = (ok, l') \<longrightarrow> (\<forall>q. q \<noteq> p \<longrightarrow> view l' q = view l q) \<and> (ok \<longrightarrow> view l' p = None))
   \<and> (\<forall>p ap l ok l'. xe_openOutput E p ap l = (ok, l') \<longrightarrow> (\<forall>q. q \<noteq> p \<longrightarrow> view l' q = view l q)
        \<and> (ok \<longrightarrow> output l' = Some p \<and> view l' p = Some (if ap then (case view l p of None \<Rightarrow> [] | Some c \<Rightarrow> c) else [])))
   \<and> (\<forall>bs l ok l' p. xe_write E bs l = (ok, l') \<longrightarrow> output l = Some p \<longrightarrow> (\<forall>q. q \<noteq> p \<longrightarrow> view l' q = view l q)
        \<and> (ok \<longrightarrow> output l' = Some p \<and> (\<forall>c. view l p = Some c \<longrightarrow> view l' p = Some (c @ bs))))
   \<and> (\<forall>l. view (xe_closeOutput E l) = view l)
   \<and> (\<forall>a b s l. view (xe_progress E a b s l) = view l \<and> output (xe_progress E a b s l) = output l)
   \<and> (\<forall>p q l ok l'. xe_commit E p q l = (ok, l') \<longrightarrow>
        (if ok then view l' = (view l)(q := view l p, p := None) else view l' = view l))
   \<and> (\<forall>p l. xe_info E p l = None \<longrightarrow> view l p = None)
   \<and> (\<forall>p l info. xe_info E p l = Some info \<longrightarrow> li_file info \<longrightarrow> (\<exists>c. view l p = Some c \<and> li_size info = int (length c)))"

definition local_source ::
  "('c, 'l) ExecEnv \<Rightarrow> ('l \<Rightarrow> byte list) \<Rightarrow> string \<Rightarrow> byte list \<Rightarrow> bool" where
  "local_source E input path contents \<longleftrightarrow>
     (\<forall>l l'. xe_openInput E path l = (True, l') \<longrightarrow> input l' = contents
        \<and> (\<forall>n l''. xe_seekInput E n l' = (True, l'') \<longrightarrow> input l'' = drop (unat n) contents))
   \<and> (\<forall>n l bs l'. xe_readInput E n l = (Some bs, l') \<longrightarrow> 0 < n \<longrightarrow> input l = bs @ input l' \<and> (bs = [] \<longrightarrow> input l = []))
   \<and> (\<forall>a b s l. input (xe_progress E a b s l) = input l)"

lemma local_filesD:
  assumes "local_files E view output"
  shows "xe_remove E p l = (ok, l') \<Longrightarrow> (\<forall>q. q \<noteq> p \<longrightarrow> view l' q = view l q) \<and> (ok \<longrightarrow> view l' p = None)"
    and "xe_openOutput E p ap l = (ok, l') \<Longrightarrow> (\<forall>q. q \<noteq> p \<longrightarrow> view l' q = view l q)
      \<and> (ok \<longrightarrow> output l' = Some p \<and> view l' p = Some (if ap then (case view l p of None \<Rightarrow> [] | Some c \<Rightarrow> c) else []))"
    and "xe_write E bs l = (ok, l') \<Longrightarrow> output l = Some p \<Longrightarrow> (\<forall>q. q \<noteq> p \<longrightarrow> view l' q = view l q)
      \<and> (ok \<longrightarrow> output l' = Some p \<and> (\<forall>c. view l p = Some c \<longrightarrow> view l' p = Some (c @ bs)))"
    and "view (xe_closeOutput E l) = view l"
    and "view (xe_progress E a b s l) = view l" "output (xe_progress E a b s l) = output l"
    and "xe_commit E p q l = (ok, l') \<Longrightarrow> view l' = (if ok then (view l)(q := view l p, p := None) else view l)"
    and "xe_info E p l = None \<Longrightarrow> view l p = None"
    and "xe_info E p l = Some info \<Longrightarrow> li_file info \<Longrightarrow> \<exists>c. view l p = Some c \<and> li_size info = int (length c)"
  using assms unfolding local_files_def by (blast | auto)+

lemma on_client_Some: "on_client operation x = Some (r, x') \<longleftrightarrow>
    (\<exists>c. operation (ex_client x) = Some (r, c) \<and> x' = x\<lparr>ex_client := c\<rparr>)"
  by (auto simp: on_client_def split: option.splits prod.splits)

lemma remote_Some: "remote n operation x = Some (r, x') \<longleftrightarrow>
    (\<exists>s. on_client operation x = Some (s, x') \<and> r = map_sum (remoteFailure n) id s)"
  by (auto simp: remote_def split: option.splits prod.splits sum.splits)

lemma on_local_eq: "on_local operation x = (a, x') \<longleftrightarrow> (\<exists>l. operation (ex_local x) = (a, l) \<and> x' = x\<lparr>ex_local := l\<rparr>)"
  by (auto simp: on_local_def split: prod.splits)

lemma report_progress_client [simp]: "ex_client (snd (report_progress E clock n x)) = ex_client x"
  by (simp add: report_progress_def Let_def)

text \<open>A file is less than 2^64 bytes long, so that the number of its bytes is a number of bytes.\<close>

lemma cut_more:
  assumes "k \<le> length c" "drop k c = b @ r"
  shows "take (k + length b) c = take k c @ b \<and> drop (k + length b) c = r \<and> k + length b \<le> length c"
proof -
  have "length (drop k c) = length b + length r" using assms(2) by simp
  then have "k + length b \<le> length c" using assms(1) by simp
  moreover have "drop (k + length b) c = drop (length b) (drop k c)" by (simp add: add.commute)
  ultimately show ?thesis using assms(2) by (simp add: take_add)
qed

lemma buffer_positive [simp]: "0 < transferBufferSize" by (simp add: transferBufferSize_def)

text \<open>The partial file is not the destination.\<close>

lemma temporaryPath_neq [simp]: "temporaryPath E d i \<noteq> d" "d \<noteq> temporaryPath E d i"
  by (simp_all add: temporaryPath_def part_suffix_def)

text \<open>What a download to \<open>d\<close> may change: its partial file, and \<open>d\<close> when it completes.\<close>

definition downloaded ::
  "(string \<Rightarrow> byte list option) \<Rightarrow> (string \<Rightarrow> byte list option) \<Rightarrow> byte list \<Rightarrow> string \<Rightarrow> string \<Rightarrow> TransferExecutionResult \<Rightarrow> bool" where
  "downloaded old new contents partial d result \<longleftrightarrow>
     (\<forall>q. q \<noteq> partial \<longrightarrow> (q = d \<and> er_kind result = ResultCompleted) \<or> new q = old q)
     \<and> (er_kind result = ResultCompleted \<longrightarrow> er_finalDestinationPath result = d \<and> new d = Some contents)"

section \<open>The loop of a download\<close>

lemma download_loop_error:
  fixes E :: "('c, 'l) ExecEnv"
  assumes run: "download_loop E clock n x = Some (Inl r, x')" shows "er_kind r \<noteq> ResultCompleted"
proof -
  have "\<forall>e. fst (Inl r :: TransferExecutionResult + u64, x') = Inl e \<longrightarrow> er_kind e \<noteq> ResultCompleted"
    by (rule download_loop.raw_induct [of "\<lambda>E clock n x (y :: (TransferExecutionResult + u64) \<times> ('c, 'l) Exec). \<forall>e. fst y = Inl e \<longrightarrow> er_kind e \<noteq> ResultCompleted", OF _ run])
      (auto simp: failure_def remoteFailure_def exec_result_def split: if_splits option.splits sum.splits prod.splits)
  then show ?thesis by simp
qed

context sftp_files begin

definition downloading ::
  "('c, 'l) ExecEnv \<Rightarrow> ('l \<Rightarrow> string \<Rightarrow> byte list option) \<Rightarrow> ('l \<Rightarrow> string option) \<Rightarrow> string \<Rightarrow> byte list \<Rightarrow> string
    \<Rightarrow> (string \<Rightarrow> byte list option) \<Rightarrow> (string \<Rightarrow> byte list option) \<Rightarrow> ('c, 'l) Exec \<Rightarrow> bool" where
  "downloading E view output source contents partial remoteFiles localFiles x \<longleftrightarrow>
     files (ex_client x) = remoteFiles \<and> remoteFiles source = Some contents \<and> output (ex_local x) = Some partial
     \<and> (\<forall>q. q \<noteq> partial \<longrightarrow> view (ex_local x) q = localFiles q)
     \<and> (\<exists>k \<le> length contents. opened (ex_client x) = Some (source, k) \<and> view (ex_local x) partial = Some (take k contents))"

lemma download_loop_result:
  fixes E :: "('c, 'l) ExecEnv" and view :: "'l \<Rightarrow> string \<Rightarrow> byte list option"
  assumes client: "xe_client E = client" and local: "local_files E view output"
    and run: "download_loop E clock n x = Some (r, x')"
    and start: "downloading E view output source contents partial remoteFiles localFiles x"
  shows "files (ex_client x') = remoteFiles \<and> (\<forall>q. q \<noteq> partial \<longrightarrow> view (ex_local x') q = localFiles q)
    \<and> (isl r \<or> xe_stop E x' \<or> view (ex_local x') partial = Some contents)"
proof -
  let ?I = "downloading E view output source contents partial remoteFiles localFiles"
  let ?Q = "\<lambda>r x'. files (ex_client x') = remoteFiles \<and> (\<forall>q. q \<noteq> partial \<longrightarrow> view (ex_local x') q = localFiles q)
    \<and> (isl r \<or> xe_stop E x' \<or> view (ex_local x') partial = Some contents)"
  let ?post = "\<lambda>E' (clock :: ProgressClock) (n :: u64) x (y :: (TransferExecutionResult + u64) \<times> ('c, 'l) Exec).
    E' = E \<longrightarrow> ?I x \<longrightarrow> ?Q (fst y) (snd y)"
  have "?post E clock n x (r, x')"
  proof (rule download_loop.raw_induct [of ?post, OF _ run])
    fix rec E' clock n x y
    assume IH: "\<And>E clock n x y. rec E clock n x = Some y \<Longrightarrow> ?post E clock n x y"
    assume step: "(if xe_stop E' x then Some (Inr n, x)
      else case on_client (sc_readFile (xe_client E') WorkerToken transferBufferSize) x of
        None \<Rightarrow> None
      | Some (Inl e, x1) \<Rightarrow> Some (Inl (remoteFailure n e), close_output E' x1)
      | Some (Inr bytes, x1) \<Rightarrow>
          if bytes = [] then Some (Inr n, x1)
          else (case on_local (xe_write E' bytes) x1 of (written, x2) \<Rightarrow>
                  if \<not> written then Some (Inl (failure ExecLocalIo n), close_output E' x2)
                  else (case report_progress E' clock (n + of_nat (length bytes)) x2 of
                          (clock', x3) \<Rightarrow> rec E' clock' (n + of_nat (length bytes)) x3))) = Some y"
    show "?post E' clock n x y"
    proof (intro impI)
      assume E': "E' = E" and I: "?I x"
      then obtain k where k: "k \<le> length contents" "opened (ex_client x) = Some (source, k)"
        "view (ex_local x) partial = Some (take k contents)" by (auto simp: downloading_def)
      note step = step [unfolded E' client]
      have closed: "view (ex_local (close_output E z)) = view (ex_local z)" "ex_client (close_output E z) = ex_client z" for z
        using local_filesD(4) [OF local] by (simp_all add: close_output_def)
      show "?Q (fst y) (snd y)"
      proof (cases "xe_stop E x")
        case True
        then show ?thesis using step I by (auto simp: downloading_def)
      next
        case False
        obtain r1 x1 where read: "on_client (sc_readFile client WorkerToken transferBufferSize) x = Some (r1, x1)"
          using step False by (auto split: option.splits prod.splits)
        then obtain c1 where c1: "sc_readFile client WorkerToken transferBufferSize (ex_client x) = Some (r1, c1)"
          "x1 = x\<lparr>ex_client := c1\<rparr>" by (auto simp: on_client_Some)
        note took = read_takes [OF c1(1) k(2) buffer_positive]
        have frame: "files (ex_client x1) = remoteFiles" "\<forall>q. q \<noteq> partial \<longrightarrow> view (ex_local x1) q = localFiles q"
          using I took c1(2) by (simp_all add: downloading_def)
        show ?thesis
        proof (cases r1)
          case (Inl e)
          then have "y = (Inl (remoteFailure n e), close_output E x1)" using step False read by simp
          then show ?thesis using frame closed by simp
        next
          case (Inr bytes)
          have src: "files (ex_client x) source = Some contents" using I by (simp add: downloading_def)
          have next_k: "prefix bytes (drop k contents)" "bytes = [] \<longrightarrow> drop k contents = []"
            "opened c1 = Some (source, k + length bytes)" using took Inr src by blast+
          show ?thesis
          proof (cases "bytes = []")
            case True
            then have "y = (Inr n, x1)" using step False read Inr by simp
            moreover have "view (ex_local x1) partial = Some contents" using k next_k True c1(2) by simp
            ultimately show ?thesis using frame by simp
          next
            case more: False
            obtain ok x2 where w: "on_local (xe_write E bytes) x1 = (ok, x2)" by fastforce
            then obtain l2 where l2: "xe_write E bytes (ex_local x) = (ok, l2)" "x2 = x1\<lparr>ex_local := l2\<rparr>"
              using c1(2) by (auto simp: on_local_eq)
            have out: "output (ex_local x) = Some partial" using I by (simp add: downloading_def)
            have wrote: "(\<forall>q. q \<noteq> partial \<longrightarrow> view l2 q = localFiles q)
              \<and> (ok \<longrightarrow> output l2 = Some partial \<and> view l2 partial = Some (take k contents @ bytes))"
              using local l2(1) out k(3) I unfolding local_files_def downloading_def by metis
            show ?thesis
            proof (cases ok)
              case no: False
              then have "y = (Inl (failure ExecLocalIo n), close_output E x2)" using step False read Inr more w by simp
              then show ?thesis using wrote closed l2(2) frame(1) by simp
            next
              case True
              obtain clock' x3 where p: "report_progress E clock (n + of_nat (length bytes)) x2 = (clock', x3)" by fastforce
              have x3: "ex_client x3 = c1" "view (ex_local x3) = view l2" "output (ex_local x3) = output l2"
                using p l2(2) c1(2) local
                by (auto simp: report_progress_def Let_def local_files_def split: if_splits)
              have rec: "rec E clock' (n + of_nat (length bytes)) x3 = Some y"
                using step False read Inr more w True p by simp
              obtain z where z: "drop k contents = bytes @ z" using next_k(1) by (auto simp: prefix_def)
              note cut_more [OF k(1) z]
              then have "?I x3" using x3 wrote True next_k(3) frame(1) c1(2) I unfolding downloading_def by simp
              then show ?thesis using IH [OF rec] by simp
            qed
          qed
        qed
      qed
    qed
  qed
  then show ?thesis using start by simp
qed

section \<open>A download\<close>

lemma downloaded_kept: "(\<forall>q. q \<noteq> partial \<longrightarrow> new q = old q) \<Longrightarrow> er_kind result \<noteq> ResultCompleted \<Longrightarrow> downloaded old new contents partial d result"
  by (simp add: downloaded_def)

lemma result_kinds [simp]:
  "er_kind (failure k n) \<noteq> ResultCompleted" "er_kind (remoteFailure n e) \<noteq> ResultCompleted"
  "er_kind (conflictResult f) \<noteq> ResultCompleted" "er_kind (exec_result kind n d) = kind"
  "er_finalDestinationPath (exec_result kind n d) = d"
  by (simp_all add: failure_def remoteFailure_def conflictResult_def exec_result_def)

lemma guard_close_frame:
  assumes "xe_client E = client" "guard_close E t active x = Some (r, active', x')"
  shows "files (ex_client x') = files (ex_client x) \<and> ex_local x' = ex_local x"
  using assms close_frame by (auto simp: guard_close_def on_client_Some split: if_splits option.splits)

lemma download_finish_result:
  assumes client: "xe_client E = client" and local: "local_files E view output"
    and run: "download_finish E task d partial n x = Some ((result, active), x')" and "partial \<noteq> d"
    and whole: "xe_stop E x \<or> view (ex_local x) partial = Some contents"
  shows "files (ex_client x') = files (ex_client x) \<and> downloaded (view (ex_local x)) (view (ex_local x')) contents partial d result"
proof -
  have close: "view (ex_local (close_output E z)) = view (ex_local z)" "ex_client (close_output E z) = ex_client z" for z
    using local_filesD(4) [OF local] by (simp_all add: close_output_def)
  have remove: "(\<forall>q. q \<noteq> partial \<longrightarrow> view (ex_local (snd (on_local (xe_remove E partial) z))) q = view (ex_local z) q)
      \<and> ex_client (snd (on_local (xe_remove E partial) z)) = ex_client z" for z
    using local_filesD(1) [OF local] by (cases "xe_remove E partial (ex_local z)") (auto simp: on_local_def)
  show ?thesis
  proof (cases "xe_stop E x")
    case True
    let ?x1 = "close_output E x"
    have "x' = (if xe_pauseRequested E ?x1 then ?x1 else snd (on_local (xe_remove E partial) ?x1))"
      "result = exec_result (if xe_pauseRequested E ?x1 then ResultPaused else ResultCancelled) n d"
      using run True by (simp_all add: download_finish_def Let_def)
    then show ?thesis using remove [of ?x1] close [of x] by (auto intro!: downloaded_kept)
  next
    case False
    obtain r1 a1 x1 where g: "guard_close E WorkerToken True x = Some (r1, a1, x1)"
      using run False by (auto simp: download_finish_def split: option.splits prod.splits)
    note frame = guard_close_frame [OF client g]
    show ?thesis
    proof (cases r1)
      case (Inl e)
      then have "x' = close_output E x1" "result = remoteFailure n e" using run False g by (simp_all add: download_finish_def)
      then show ?thesis using frame close [of x1] by (auto intro!: downloaded_kept)
    next
      case (Inr u)
      let ?x2 = "close_output E x1"
      have same: "view (ex_local ?x2) = view (ex_local x)" "files (ex_client ?x2) = files (ex_client x)" using frame close [of x1] by simp_all
      show ?thesis
      proof (cases "xe_info E d (ex_local ?x2) \<noteq> None \<and> d \<noteq> tt_destinationPath task")
        case True
        then have "x' = snd (on_local (xe_remove E partial) ?x2)" "result = failure ExecInvalidConflictRename n"
          using run False g Inr by (simp_all add: download_finish_def Let_def)
        then show ?thesis using remove [of ?x2] same by (auto intro!: downloaded_kept)
      next
        case no: False
        obtain ok x3 where c: "on_local (xe_commit E partial d) ?x2 = (ok, x3)" by fastforce
        then have moved: "view (ex_local x3) = (if ok then (view (ex_local ?x2))(d := view (ex_local ?x2) partial, partial := None)
            else view (ex_local ?x2))" "ex_client x3 = ex_client ?x2"
          using local_filesD(7) [OF local] by (auto simp: on_local_eq)
        have "x' = x3" "result = (if ok then exec_result ResultCompleted n d else failure ExecCommitFailed n)"
          using run False g Inr no c by (simp_all add: download_finish_def Let_def split: bool.splits if_splits)
        then show ?thesis using moved same whole False \<open>partial \<noteq> d\<close> by (simp add: downloaded_def)
      qed
    qed
  qed
qed

lemma download_opened_result:
  assumes client: "xe_client E = client" and local: "local_files E view output"
    and run: "download_opened E task tot d partial n x = Some ((result, active), x')" and "partial \<noteq> d"
    and opened: "opened (ex_client x) = Some (source, 0)" "files (ex_client x) source = Some contents"
    and resume: "0 < n \<longrightarrow> view (ex_local x) partial = Some (take (unat n) contents) \<and> unat n \<le> length contents"
  shows "files (ex_client x') = files (ex_client x) \<and> downloaded (view (ex_local x)) (view (ex_local x')) contents partial d result"
proof -
  obtain s x1 where seek: "(if n > 0 then remote n (sc_seekFile (xe_client E) n) x else Some (Inr (), x)) = Some (s, x1)"
    using run by (auto simp: download_opened_def split: option.splits)
  have x1: "files (ex_client x1) = files (ex_client x) \<and> ex_local x1 = ex_local x
      \<and> (\<not> isl s \<longrightarrow> opened (ex_client x1) = Some (source, unat n)) \<and> (\<forall>r. s = Inl r \<longrightarrow> er_kind r \<noteq> ResultCompleted)"
  proof (cases "n > 0")
    case True
    then obtain t c where "sc_seekFile client n (ex_client x) = Some (t, c)" "x1 = x\<lparr>ex_client := c\<rparr>" "s = map_sum (remoteFailure n) id t"
      using seek client by (auto simp: remote_Some on_client_Some)
    then show ?thesis using seek_moves [of n "ex_client x" t c source 0] opened(1) by (cases t) auto
  next
    case False
    then have "n = 0" by (simp add: word_gt_0)
    then show ?thesis using seek False opened(1) by auto
  qed
  show ?thesis
  proof (cases s)
    case (Inl r)
    then have "x' = x1" "result = r" using run seek by (simp_all add: download_opened_def)
    then show ?thesis using x1 Inl by (auto intro!: downloaded_kept)
  next
    case (Inr u)
    obtain ok x2 where o: "on_local (xe_openOutput E partial (n > 0)) x1 = (ok, x2)" by fastforce
    then obtain l2 where l2: "xe_openOutput E partial (n > 0) (ex_local x) = (ok, l2)" "x2 = x1\<lparr>ex_local := l2\<rparr>"
      using x1 by (auto simp: on_local_eq)
    have out: "(\<forall>q. q \<noteq> partial \<longrightarrow> view l2 q = view (ex_local x) q) \<and> (ok \<longrightarrow> output l2 = Some partial
        \<and> view l2 partial = Some (if n > 0 then (case view (ex_local x) partial of None \<Rightarrow> [] | Some c \<Rightarrow> c) else []))"
      by (rule local_filesD(2) [OF local l2(1)])
    show ?thesis
    proof (cases ok)
      case False
      then have "x' = x2" "result = failure ExecLocalIo 0" using run seek Inr o by (simp_all add: download_opened_def)
      then show ?thesis using l2(2) out x1 by (auto intro!: downloaded_kept)
    next
      case True
      have k: "unat n \<le> length contents" "view l2 partial = Some (take (unat n) contents)"
        using out True resume by (auto simp: word_less_nat_alt)
      have start: "downloading E view output source contents partial (files (ex_client x)) (view (ex_local x)) x2"
        using x1 Inr l2(2) out True k opened(2) by (auto simp: downloading_def)
      obtain r x3 where loop: "download_loop E (progress_clock E tot n x2) n x2 = Some (r, x3)"
        using run seek Inr o True by (auto simp: download_opened_def split: option.splits)
      note done_ = download_loop_result [OF client local loop start]
      show ?thesis
      proof (cases r)
        case (Inl e)
        then have "x' = x3" "result = e" using run seek Inr o True loop by (simp_all add: download_opened_def)
        moreover have "er_kind e \<noteq> ResultCompleted" using download_loop_error loop Inl by blast
        ultimately show ?thesis using done_ by (auto intro!: downloaded_kept)
      next
        case (Inr m)
        then have fin: "download_finish E task d partial m x3 = Some ((result, active), x')"
          using run seek \<open>s = Inr u\<close> o True loop by (simp add: download_opened_def)
        from download_finish_result [OF client local fin \<open>partial \<noteq> d\<close>, of contents] done_ Inr
        show ?thesis by (auto simp: downloaded_def)
      qed
    qed
  qed
qed

lemma download_from_result:
  assumes client: "xe_client E = client" and local: "local_files E view output"
    and run: "download_from E task source d x = Some (r, x')"
    and contents: "files (ex_client x) (tt_sourcePath task) = Some contents" "length contents < 2 ^ 64"
    and resume: "\<And>bs. tt_transferredBytes task > 0 \<Longrightarrow> view (ex_local x) (temporaryPath E d (tt_id task)) = Some bs \<Longrightarrow> prefix bs contents"
  shows "\<exists>result. r = Inl result \<and> files (ex_client x') = files (ex_client x)
    \<and> downloaded (view (ex_local x)) (view (ex_local x')) contents (temporaryPath E d (tt_id task)) d result"
proof -
  let ?partial = "temporaryPath E d (tt_id task)"
  let ?info = "xe_info E ?partial (ex_local x)"
  show ?thesis
  proof (cases "download_resume task source ?info")
    case (Inl e)
    then have "er_kind e \<noteq> ResultCompleted" by (auto simp: download_resume_def Let_def split: if_splits option.splits)
    then show ?thesis using run Inl by (auto simp: download_from_def exec_stop_def intro!: downloaded_kept)
  next
    case (Inr n)
    let ?clear = "if n = 0 \<and> ?info \<noteq> None then local_or ExecLocalIo 0 (xe_remove E ?partial) else exec_return ()"
    have "andThen ?clear (\<lambda>_. andThen (remote 0 (sc_openFileForRead client WorkerToken (tt_sourcePath task)))
        (\<lambda>_. with_guard E (download_opened E task (de_size source) d ?partial n))) x = Some (r, x')"
      using run Inr client by (simp add: download_from_def Let_def)
    then obtain s1 x1 where c1: "?clear x = Some (s1, x1)"
      and rest: "(case s1 of Inl e \<Rightarrow> Some (Inl e, x1)
        | Inr _ \<Rightarrow> andThen (remote 0 (sc_openFileForRead client WorkerToken (tt_sourcePath task)))
            (\<lambda>_. with_guard E (download_opened E task (de_size source) d ?partial n)) x1) = Some (r, x')"
      by (auto simp: andThen_def split: option.splits prod.splits sum.splits)
    have x1: "ex_client x1 = ex_client x \<and> (\<forall>q. q \<noteq> ?partial \<longrightarrow> view (ex_local x1) q = view (ex_local x) q)
        \<and> (\<forall>e. s1 = Inl e \<longrightarrow> er_kind e \<noteq> ResultCompleted) \<and> (0 < n \<longrightarrow> x1 = x)"
    proof (cases "n = 0 \<and> ?info \<noteq> None")
      case True
      then have "local_or ExecLocalIo 0 (xe_remove E ?partial) x = Some (s1, x1)" using c1 by simp
      then show ?thesis using True local_filesD(1) [OF local, of ?partial "ex_local x"]
        by (auto simp: local_or_def on_local_def split: prod.splits bool.splits)
    next
      case False
      have "exec_return () x = Some (s1, x1)" using c1 by (simp only: if_not_P [OF False])
      then show ?thesis by (auto simp: exec_return_def)
    qed
    show ?thesis
    proof (cases s1)
      case (Inl e)
      then show ?thesis using rest x1 by (auto intro!: downloaded_kept)
    next
      case u: (Inr u)
      obtain s2 x2 where o: "remote 0 (sc_openFileForRead client WorkerToken (tt_sourcePath task)) x1 = Some (s2, x2)"
        and rest2: "(case s2 of Inl e \<Rightarrow> Some (Inl e, x2)
          | Inr _ \<Rightarrow> with_guard E (download_opened E task (de_size source) d ?partial n) x2) = Some (r, x')"
        using rest u by (auto simp: andThen_def split: option.splits prod.splits sum.splits)
      then obtain t c where tc: "sc_openFileForRead client WorkerToken (tt_sourcePath task) (ex_client x1) = Some (t, c)"
        "x2 = x1\<lparr>ex_client := c\<rparr>" "s2 = map_sum (remoteFailure 0) id t" by (auto simp: remote_Some on_client_Some)
      have x2: "files (ex_client x2) = files (ex_client x)" "ex_local x2 = ex_local x1"
          "\<not> isl s2 \<longrightarrow> opened (ex_client x2) = Some (tt_sourcePath task, 0)"
        using read_opens [OF tc(1)] tc(2,3) x1 by (cases t; simp)+
      show ?thesis
      proof (cases s2)
        case (Inl e)
        then have "er_kind e \<noteq> ResultCompleted" using tc(3) by (cases t) auto
        then show ?thesis using rest2 Inl x1 x2 by (auto intro!: downloaded_kept)
      next
        case ok: (Inr u2)
        then have "with_guard E (download_opened E task (de_size source) d ?partial n) x2 = Some (r, x')" using rest2 by simp
        then obtain result active x3 b sc where body: "download_opened E task (de_size source) d ?partial n x2 = Some ((result, active), x3)"
          and r: "r = Inl result" and g: "guard_close E NoToken active x3 = Some (sc, b, x')"
          by (auto simp: with_guard_def split: option.splits prod.splits)
        have already: "0 < n \<longrightarrow> view (ex_local x2) ?partial = Some (take (unat n) contents) \<and> unat n \<le> length contents"
        proof
          assume n: "0 < n"
          then obtain info where info: "?info = Some info" "li_file info" "0 \<le> li_size info" "n = of_int (li_size info)" "0 < tt_transferredBytes task"
            using Inr by (auto simp: download_resume_def Let_def split: if_splits option.splits)
          then obtain bs where bs: "view (ex_local x) ?partial = Some bs" "li_size info = int (length bs)"
            using local_filesD(9) [OF local] by blast
          then have p: "prefix bs contents" using resume info(5) by blast
          then have le: "length bs \<le> length contents" by (rule prefix_length_le)
          then have "unat n = length bs" using info(4) bs(2) contents(2) by (simp add: unat_of_nat)
          then show "view (ex_local x2) ?partial = Some (take (unat n) contents) \<and> unat n \<le> length contents"
            using p bs(1) le x1 x2(2) n by (auto simp: prefix_def)
        qed
        have "files (ex_client x3) = files (ex_client x2)
            \<and> downloaded (view (ex_local x2)) (view (ex_local x3)) contents ?partial d result"
          using download_opened_result [OF client local body _ _ _ already] ok x2 contents(1) by simp
        then show ?thesis using guard_close_frame [OF client g] x1 x2 r by (auto simp: downloaded_def)
      qed
    qed
  qed
qed

lemma download_destination_result:
  assumes "download_destination E task options source x = Some (r, x')"
  shows "x' = x \<and> (\<forall>e. r = Inl e \<longrightarrow> er_kind e \<noteq> ResultCompleted)
    \<and> (\<forall>d. r = Inr d \<longrightarrow> (d = tt_destinationPath task \<and> (xe_info E d (ex_local x) = None \<or> eo_conflictAction options = Some ReplaceConflict))
         \<or> (d = eo_renamedDestinationPath options \<and> eo_conflictAction options = Some RenameConflict \<and> xe_info E d (ex_local x) = None))"
  using assms
  by (auto simp: download_destination_def Let_def exec_stop_def exec_return_def split: option.splits ConflictAction.splits if_splits)

lemma download_result:
  assumes client: "xe_client E = client" and local: "local_files E view output"
    and run: "executeDownload E task options x = Some (r, x')"
    and contents: "files (ex_client x) (tt_sourcePath task) = Some contents" "length contents < 2 ^ 64"
    and resume: "\<And>d bs. tt_transferredBytes task > 0 \<Longrightarrow> view (ex_local x) (temporaryPath E d (tt_id task)) = Some bs \<Longrightarrow> prefix bs contents"
  shows "\<exists>result d. r = Inl result \<and> files (ex_client x') = files (ex_client x)
    \<and> downloaded (view (ex_local x)) (view (ex_local x')) contents (temporaryPath E d (tt_id task)) d result
    \<and> ((d = tt_destinationPath task \<and> (view (ex_local x) d = None \<or> eo_conflictAction options = Some ReplaceConflict
            \<or> er_kind result \<noteq> ResultCompleted))
       \<or> (d = eo_renamedDestinationPath options \<and> eo_conflictAction options = Some RenameConflict \<and> view (ex_local x) d = None))"
proof -
  let ?d = "tt_destinationPath task"
  obtain s1 x1 where stat: "remote 0 (sc_statEntry client WorkerToken (tt_sourcePath task)) x = Some (s1, x1)"
    using run client by (auto simp: executeDownload_def andThen_def split: option.splits)
  then obtain t c where "sc_statEntry client WorkerToken (tt_sourcePath task) (ex_client x) = Some (t, c)"
    "x1 = x\<lparr>ex_client := c\<rparr>" "s1 = map_sum (remoteFailure 0) id t" by (auto simp: remote_Some on_client_Some)
  then have x1: "files (ex_client x1) = files (ex_client x)" "ex_local x1 = ex_local x" "\<forall>e. s1 = Inl e \<longrightarrow> er_kind e \<noteq> ResultCompleted"
    using stat_frame by (cases t; auto)+
  have early: ?thesis if "r = Inl e" "x' = x1" "er_kind e \<noteq> ResultCompleted" for e
    using that x1 by (intro exI [of _ e] exI [of _ ?d]) (auto intro: downloaded_kept)
  consider e where "r = Inl e" "x' = x1" "er_kind e \<noteq> ResultCompleted"
    | source where "andThen (download_destination E task options source) (download_from E task source) x1 = Some (r, x')"
    using run stat client x1(3)
    by (cases s1) (auto simp: executeDownload_def andThen_def exec_stop_def split: option.splits if_splits)
  then show ?thesis
  proof cases
    case 2
    then obtain s2 x2 where dest: "download_destination E task options source x1 = Some (s2, x2)"
      and rest: "(case s2 of Inl e \<Rightarrow> Some (Inl e, x2) | Inr d \<Rightarrow> download_from E task source d x2) = Some (r, x')"
      by (auto simp: andThen_def split: option.splits prod.splits sum.splits)
    note chosen = download_destination_result [OF dest]
    show ?thesis
    proof (cases s2)
      case (Inl e)
      then show ?thesis using early rest chosen by auto
    next
      case (Inr d)
      then have from_: "download_from E task source d x1 = Some (r, x')" using rest chosen by simp
      have res: "\<And>bs. tt_transferredBytes task > 0 \<Longrightarrow> view (ex_local x1) (temporaryPath E d (tt_id task)) = Some bs \<Longrightarrow> prefix bs contents"
        using resume x1(2) by simp
      from download_from_result [OF client local from_ _ contents(2) res] contents(1) x1
      obtain result where r: "r = Inl result" "files (ex_client x') = files (ex_client x)"
        "downloaded (view (ex_local x)) (view (ex_local x')) contents (temporaryPath E d (tt_id task)) d result" by auto
      have "xe_info E d (ex_local x) = None \<Longrightarrow> view (ex_local x) d = None" using local_filesD(8) [OF local] by blast
      then show ?thesis using r chosen Inr x1(2) by (intro exI [of _ result] exI [of _ d]) auto
    qed
  qed (use early in blast)
qed

end

end
