(* ===== verification/Transfer_Upload.thy ===== *)
theory Transfer_Upload
  imports Transfer_Files
begin

text \<open>
  What an upload leaves behind, in the contracts of \<open>Transfer_Files\<close>: a rename that reports an error may have
  been done, so a destination may hold the whole source although the upload failed, but never a part of it.
\<close>

definition uploaded ::
  "(string \<Rightarrow> byte list option) \<Rightarrow> (string \<Rightarrow> byte list option) \<Rightarrow> byte list \<Rightarrow> string \<Rightarrow> string \<Rightarrow> bool
    \<Rightarrow> TransferExecutionResult \<Rightarrow> bool" where
  "uploaded old new contents partial d replace result \<longleftrightarrow>
     (\<forall>q. q \<noteq> partial \<longrightarrow> q \<noteq> d \<longrightarrow> new q = old q)
     \<and> (new d = old d \<or> (new d = Some contents \<and> (replace \<or> old d = None)))
     \<and> (er_kind result = ResultCompleted \<longrightarrow>
          er_finalDestinationPath result = d \<and> new d = Some contents \<and> (replace \<or> old d = None))"

lemma uploaded_kept: "(\<forall>q. q \<noteq> partial \<longrightarrow> new q = old q) \<Longrightarrow> partial \<noteq> d \<Longrightarrow> er_kind result \<noteq> ResultCompleted
    \<Longrightarrow> uploaded old new contents partial d replace result"
  by (simp add: uploaded_def)

context sftp_files begin

definition uploading ::
  "('l \<Rightarrow> byte list) \<Rightarrow> byte list \<Rightarrow> string \<Rightarrow> (string \<Rightarrow> byte list option) \<Rightarrow> ('c, 'l) Exec \<Rightarrow> bool" where
  "uploading input contents partial remoteFiles x \<longleftrightarrow>
     (\<forall>q. q \<noteq> partial \<longrightarrow> files (ex_client x) q = remoteFiles q)
     \<and> (\<exists>k \<le> length contents. opened (ex_client x) = Some (partial, k) \<and> files (ex_client x) partial = Some (take k contents)
          \<and> input (ex_local x) = drop k contents)"

lemma closing_result_frame:
  assumes "xe_client E = client" "closing_result E a result x = Some (y, x')"
  shows "files (ex_client x') = files (ex_client x) \<and> fst y = result"
  using assms guard_close_frame [OF assms(1)] by (auto simp: closing_result_def split: option.splits prod.splits)

lemma upload_loop_result:
  fixes E :: "('c, 'l) ExecEnv" and input :: "'l \<Rightarrow> byte list"
  assumes client: "xe_client E = client" and source: "local_source E input path contents"
    and run: "upload_loop E clock n x = Some (r, x')" and start: "uploading input contents partial remoteFiles x"
  shows "(\<forall>q. q \<noteq> partial \<longrightarrow> files (ex_client x') q = remoteFiles q)
    \<and> (\<forall>e a. r = Inl (e, a) \<longrightarrow> er_kind e \<noteq> ResultCompleted) \<and> (isl r \<or> xe_stop E x' \<or> files (ex_client x') partial = Some contents)"
proof -
  let ?I = "uploading input contents partial remoteFiles"
  let ?Q = "\<lambda>r x'. (\<forall>q. q \<noteq> partial \<longrightarrow> files (ex_client x') q = remoteFiles q)
    \<and> (\<forall>e a. r = Inl (e, a) \<longrightarrow> er_kind e \<noteq> ResultCompleted) \<and> (isl r \<or> xe_stop E x' \<or> files (ex_client x') partial = Some contents)"
  let ?post = "\<lambda>E' (clock :: ProgressClock) (n :: u64) x (y :: ((TransferExecutionResult \<times> bool) + u64) \<times> ('c, 'l) Exec).
    E' = E \<longrightarrow> ?I x \<longrightarrow> ?Q (fst y) (snd y)"
  have "?post E clock n x (r, x')"
  proof (rule upload_loop.raw_induct [of ?post, OF _ run])
    fix rec E' clock n x y
    assume IH: "\<And>E clock n x y. rec E clock n x = Some y \<Longrightarrow> ?post E clock n x y"
    assume step: "(if xe_stop E' x then Some (Inr n, x)
      else case on_local (xe_readInput E' transferBufferSize) x of
        (None, x1) \<Rightarrow> map_option (\<lambda>(r, x2). (Inl r, x2)) (closing_result E' True (failure ExecLocalIo n) x1)
      | (Some bytes, x1) \<Rightarrow>
          if bytes = [] then Some (Inr n, x1)
          else (case on_client (sc_writeFile (xe_client E') WorkerToken bytes) x1 of
                  None \<Rightarrow> None
                | Some (Inl e, x2) \<Rightarrow> map_option (\<lambda>(r, x3). (Inl r, x3)) (closing_result E' True (remoteFailure n e) x2)
                | Some (Inr _, x2) \<Rightarrow>
                    (case report_progress E' clock (n + of_nat (length bytes)) x2 of
                       (clock', x3) \<Rightarrow> rec E' clock' (n + of_nat (length bytes)) x3))) = Some y"
    show "?post E' clock n x y"
    proof (intro impI)
      assume E': "E' = E" and I: "?I x"
      then obtain k where k: "k \<le> length contents" "opened (ex_client x) = Some (partial, k)"
        "files (ex_client x) partial = Some (take k contents)" "input (ex_local x) = drop k contents"
        by (auto simp: uploading_def)
      have frame: "\<forall>q. q \<noteq> partial \<longrightarrow> files (ex_client x) q = remoteFiles q" using I by (simp add: uploading_def)
      note step = step [unfolded E']
      show "?Q (fst y) (snd y)"
      proof (cases "xe_stop E x")
        case True
        then show ?thesis using step frame by auto
      next
        case False
        obtain got x1 where read: "on_local (xe_readInput E transferBufferSize) x = (got, x1)" by fastforce
        then obtain l1 where l1: "xe_readInput E transferBufferSize (ex_local x) = (got, l1)" "x1 = x\<lparr>ex_local := l1\<rparr>"
          by (auto simp: on_local_eq)
        show ?thesis
        proof (cases got)
          case None
          then obtain z where "closing_result E True (failure ExecLocalIo n) x1 = Some z" "y = (Inl (fst z), snd z)"
            using step False read by (auto split: prod.splits)
          then show ?thesis using closing_result_frame [OF client, of True "failure ExecLocalIo n" x1 "fst z" "snd z"] frame l1(2)
            by (auto dest: sym)
        next
          case (Some bytes)
          then have came: "drop k contents = bytes @ input l1" "bytes = [] \<longrightarrow> drop k contents = []"
            using source l1(1) k(4) buffer_positive unfolding local_source_def by metis+
          show ?thesis
          proof (cases "bytes = []")
            case True
            then have "y = (Inr n, x1)" using step False read Some by simp
            then show ?thesis using k came(2) True l1(2) frame by simp
          next
            case more: False
            obtain s2 x2 where wr: "on_client (sc_writeFile client WorkerToken bytes) x1 = Some (s2, x2)"
              using step False read Some more client by (auto split: option.splits)
            then obtain c2 where c2: "sc_writeFile client WorkerToken bytes (ex_client x) = Some (s2, c2)" "x2 = x1\<lparr>ex_client := c2\<rparr>"
              using l1(2) by (auto simp: on_client_Some)
            note put = write_puts [OF c2(1) k(2)]
            have frame2: "\<forall>q. q \<noteq> partial \<longrightarrow> files c2 q = remoteFiles q" using put frame by simp
            show ?thesis
            proof (cases s2)
              case (Inl e)
              then obtain z where "closing_result E True (remoteFailure n e) x2 = Some z" "y = (Inl (fst z), snd z)"
                using step False read Some more wr client by (auto split: prod.splits)
              then show ?thesis using closing_result_frame [OF client, of True "remoteFailure n e" x2 "fst z" "snd z"] frame2 c2(2)
                by (auto dest: sym)
            next
              case (Inr u)
              have kk: "length (take k contents) = k" using k(1) by simp
              have put': "files c2 partial = Some (take k contents @ bytes)" "opened c2 = Some (partial, k + length bytes)"
                using put Inr k(3) kk by auto
              obtain clock' x3 where p: "report_progress E clock (n + of_nat (length bytes)) x2 = (clock', x3)" by fastforce
              have x3: "ex_client x3 = c2" "input (ex_local x3) = input l1"
                using p l1(2) c2(2) source by (auto simp: report_progress_def Let_def local_source_def split: if_splits)
              have rec: "rec E clock' (n + of_nat (length bytes)) x3 = Some y"
                using step False read Some more wr Inr p client by simp
              note cut_more [OF k(1) came(1)]
              then have "?I x3" using x3 put' frame2 unfolding uploading_def by simp
              then show ?thesis using IH [OF rec] by simp
            qed
          qed
        qed
      qed
    qed
  qed
  then show ?thesis using start by simp
qed

lemma attempted_remove:
  assumes "attempted (sc_removeEntry client t partial False) x = Some x'"
  shows "ex_local x' = ex_local x \<and> (\<forall>q. q \<noteq> partial \<longrightarrow> files (ex_client x') q = files (ex_client x) q)"
proof -
  obtain r c where "sc_removeEntry client t partial False (ex_client x) = Some (r, c)" "x' = x\<lparr>ex_client := c\<rparr>"
    using assms by (auto simp: attempted_def on_client_Some)
  then show ?thesis using remove_effect by fastforce
qed

lemma discarding_result:
  assumes client: "xe_client E = client" and run: "discarding E active partial e x = Some ((result, active'), x')"
  shows "result = e \<and> (\<forall>q. q \<noteq> partial \<longrightarrow> files (ex_client x') q = files (ex_client x) q)"
proof -
  obtain r a x1 where g: "guard_close E NoToken active x = Some (r, a, x1)"
    and d: "attempted (sc_removeEntry client NoToken partial False) x1 = Some x'" and r: "result = e"
    using run client by (auto simp: discarding_def split: option.splits prod.splits)
  show ?thesis using guard_close_frame [OF client g] attempted_remove [OF d] r by simp
qed

lemma upload_finish_result:
  assumes client: "xe_client E = client"
    and run: "upload_finish E d replace partial n x = Some ((result, active), x')" and "partial \<noteq> d"
    and whole: "xe_stop E x \<or> files (ex_client x) partial = Some contents"
  shows "uploaded (files (ex_client x)) (files (ex_client x')) contents partial d replace result"
proof (cases "xe_stop E x")
  case True
  then obtain s a x1 where g: "guard_close E NoToken True x = Some (s, a, x1)"
    using run by (auto simp: upload_finish_def split: option.splits prod.splits)
  have "(x' = x1 \<and> result = exec_result ResultPaused n d)
      \<or> (attempted (sc_removeEntry client NoToken partial False) x1 = Some x' \<and> result = exec_result ResultCancelled n d)"
    using run True g client by (auto simp: upload_finish_def split: if_splits)
  then show ?thesis using guard_close_frame [OF client g] \<open>partial \<noteq> d\<close> by (auto dest!: attempted_remove intro!: uploaded_kept)
next
  case False
  then obtain s a x1 where g: "guard_close E WorkerToken True x = Some (s, a, x1)"
    using run by (auto simp: upload_finish_def split: option.splits prod.splits)
  have x1: "files (ex_client x1) = files (ex_client x)" using guard_close_frame [OF client g] by simp
  show ?thesis
  proof (cases s)
    case (Inl e)
    then have "discarding E a partial (remoteFailure n e) x1 = Some ((result, active), x')"
      using run False g by (simp add: upload_finish_def)
    from discarding_result [OF client this] x1 \<open>partial \<noteq> d\<close> show ?thesis by (auto intro!: uploaded_kept)
  next
    case (Inr u)
    obtain s2 x2 where ren: "on_client (sc_renameEntry client WorkerToken partial d replace) x1 = Some (s2, x2)"
      using run False g Inr client by (auto simp: upload_finish_def split: option.splits)
    then obtain c where c: "sc_renameEntry client WorkerToken partial d replace (ex_client x1) = Some (s2, c)" "x2 = x1\<lparr>ex_client := c\<rparr>"
      by (auto simp: on_client_Some)
    have moved: "(files (ex_client x2) = files (ex_client x) \<and> isl s2)
      \<or> (files (ex_client x2) = (files (ex_client x))(d := Some contents, partial := None) \<and> (replace \<or> files (ex_client x) d = None))"
      using rename_moves [OF c(1) \<open>partial \<noteq> d\<close>] c(2) x1 whole False by auto
    show ?thesis
    proof (cases s2)
      case (Inl e)
      then have "discarding E a partial (remoteFailure n e) x2 = Some ((result, active), x')"
        using run False g \<open>s = Inr u\<close> ren client by (simp add: upload_finish_def)
      from discarding_result [OF client this]
      have keep: "result = remoteFailure n e" "\<And>q. q \<noteq> partial \<Longrightarrow> files (ex_client x') q = files (ex_client x2) q" by auto
      from moved show ?thesis
      proof
        assume "files (ex_client x2) = files (ex_client x) \<and> isl s2"
        then show ?thesis using keep \<open>partial \<noteq> d\<close> by (auto intro!: uploaded_kept)
      next
        assume "files (ex_client x2) = (files (ex_client x))(d := Some contents, partial := None) \<and> (replace \<or> files (ex_client x) d = None)"
        then show ?thesis using keep \<open>partial \<noteq> d\<close> by (simp add: uploaded_def)
      qed
    next
      case ok: (Inr v)
      then have "x' = x2" "result = exec_result ResultCompleted n d"
        using run False g \<open>s = Inr u\<close> ren client by (simp_all add: upload_finish_def)
      then show ?thesis using moved ok \<open>partial \<noteq> d\<close> by (simp add: uploaded_def)
    qed
  qed
qed

lemma upload_opened_result:
  assumes client: "xe_client E = client" and source: "local_source E input path contents"
    and run: "upload_opened E tot d replace partial n x = Some ((result, active), x')" and "partial \<noteq> d"
    and opened: "opened (ex_client x) = Some (partial, 0)" "files (ex_client x) partial = Some (take (unat n) contents)" "unat n \<le> length contents"
    and input: "xe_openInput E path l0 = (True, ex_local x)"
  shows "uploaded (files (ex_client x)) (files (ex_client x')) contents partial d replace result"
proof -
  let ?seek = "andThen (remote n (sc_seekFile (xe_client E) n)) (\<lambda>_. local_or ExecLocalIo n (xe_seekInput E n))"
  obtain s x1 where seek: "(if n > 0 then ?seek x else Some (Inr (), x)) = Some (s, x1)"
    using run by (auto simp: upload_opened_def split: option.splits)
  have x1: "files (ex_client x1) = files (ex_client x) \<and> (\<forall>r. s = Inl r \<longrightarrow> er_kind r \<noteq> ResultCompleted)
    \<and> (\<not> isl s \<longrightarrow> uploading input contents partial (files (ex_client x)) x1)"
  proof (cases "n > 0")
    case True
    then have "?seek x = Some (s, x1)" using seek by simp
    then obtain s0 x0 where first: "remote n (sc_seekFile client n) x = Some (s0, x0)"
      and second: "(case s0 of Inl e \<Rightarrow> Some (Inl e, x0) | Inr _ \<Rightarrow> local_or ExecLocalIo n (xe_seekInput E n) x0) = Some (s, x1)"
      using client by (auto simp: andThen_def split: option.splits prod.splits sum.splits)
    then obtain t c where c: "sc_seekFile client n (ex_client x) = Some (t, c)" "x0 = x\<lparr>ex_client := c\<rparr>" "s0 = map_sum (remoteFailure n) id t"
      by (auto simp: remote_Some on_client_Some)
    note moved = seek_moves [OF c(1) opened(1)]
    show ?thesis
    proof (cases s0)
      case (Inl e)
      then have "er_kind e \<noteq> ResultCompleted" using c(3) by (cases t) auto
      then show ?thesis using second Inl moved c(2) by auto
    next
      case (Inr u)
      obtain ok l1 where sl: "xe_seekInput E n (ex_local x) = (ok, l1)" by fastforce
      have "input l1 = drop (unat n) contents" if ok
      proof -
        have "xe_seekInput E n (ex_local x) = (True, l1)" using sl that by simp
        then show ?thesis using source input unfolding local_source_def by blast
      qed
      moreover have "\<not> isl t" using c(3) Inr by (cases t) auto
      moreover have "s = (if ok then Inr () else Inl (failure ExecLocalIo n))" "x1 = x0\<lparr>ex_local := l1\<rparr>"
        using second Inr sl c(2) by (auto simp: local_or_def on_local_def split: bool.splits)
      ultimately show ?thesis using moved c(2) opened by (auto simp: uploading_def)
    qed
  next
    case False
    then have n: "n = 0" by (simp add: word_gt_0)
    have "input (ex_local x) = contents" using source input unfolding local_source_def by blast
    then show ?thesis using seek n opened by (auto simp: uploading_def)
  qed
  show ?thesis
  proof (cases s)
    case (Inl r)
    then have "x' = x1" "result = r" using run seek by (simp_all add: upload_opened_def)
    then show ?thesis using x1 Inl \<open>partial \<noteq> d\<close> by (auto intro!: uploaded_kept)
  next
    case (Inr u)
    then have start: "uploading input contents partial (files (ex_client x)) x1" using x1 by simp
    obtain r x3 where loop: "upload_loop E (progress_clock E tot n x1) n x1 = Some (r, x3)"
      using run seek Inr by (auto simp: upload_opened_def split: option.splits)
    note done_ = upload_loop_result [OF client source loop start]
    show ?thesis
    proof (cases r)
      case (Inl e)
      then have "x' = x3" "e = (result, active)" using run seek \<open>s = Inr u\<close> loop by (cases e; simp add: upload_opened_def)+
      then show ?thesis using done_ Inl \<open>partial \<noteq> d\<close> by (auto intro!: uploaded_kept)
    next
      case (Inr m)
      then have fin: "upload_finish E d replace partial m x3 = Some ((result, active), x')"
        using run seek \<open>s = Inr u\<close> loop by (simp add: upload_opened_def)
      from upload_finish_result [OF client fin \<open>partial \<noteq> d\<close>, of contents] done_ Inr \<open>partial \<noteq> d\<close>
      show ?thesis by (auto simp: uploaded_def)
    qed
  qed
qed

lemma remote_call:
  assumes "andThen (remote n operation) f x = Some (r, x')"
  obtains s c where "operation (ex_client x) = Some (s, c)"
    "case s of Inl e \<Rightarrow> r = Inl (remoteFailure n e) \<and> x' = x\<lparr>ex_client := c\<rparr> | Inr a \<Rightarrow> f a (x\<lparr>ex_client := c\<rparr>) = Some (r, x')"
  using assms by (auto simp: andThen_def remote_def on_client_def split: option.splits prod.splits sum.splits)

lemma upload_to_result:
  assumes client: "xe_client E = client" and source: "local_source E input path contents" and size: "length contents < 2 ^ 64"
    and run: "upload_to E task info (d, replace) x = Some (r, x')" and input: "xe_openInput E path l0 = (True, ex_local x)"
    and resume: "\<And>c e c'. tt_transferredBytes task > 0 \<Longrightarrow> files c = files (ex_client x)
      \<Longrightarrow> sc_statEntry client WorkerToken (temporaryPath E d (tt_id task)) c = Some (Inr (Some e), c')
      \<Longrightarrow> \<exists>bs. files c (temporaryPath E d (tt_id task)) = Some bs \<and> prefix bs contents \<and> unat (de_size e) = length bs"
  shows "\<exists>result. r = Inl result
    \<and> uploaded (files (ex_client x)) (files (ex_client x')) contents (temporaryPath E d (tt_id task)) d replace result"
proof -
  let ?partial = "temporaryPath E d (tt_id task)" and ?total = "of_int (li_size info)"
  note kept = uploaded_kept [of ?partial _ _ d]
  let ?opening = "\<lambda>n. remote 0 (if n > 0 then sc_openFileForResume client WorkerToken ?partial
      else sc_openFileForWrite client WorkerToken ?partial False)"
  let ?clear = "\<lambda>n stale. if n = 0 \<and> stale \<noteq> None then remote 0 (sc_removeEntry client WorkerToken ?partial False) else exec_return ()"
  let ?body = "\<lambda>n. with_guard E (upload_opened E ?total d replace ?partial n)"
  from run client have "andThen (remote 0 (sc_statEntry client WorkerToken ?partial)) (\<lambda>stale.
      case upload_resume task ?total stale of Inl r \<Rightarrow> exec_stop r
      | Inr n \<Rightarrow> andThen (?clear n stale) (\<lambda>_. andThen (?opening n) (\<lambda>_. ?body n))) x = Some (r, x')"
    by (simp add: upload_to_def Let_def)
  then obtain s c where stat: "sc_statEntry client WorkerToken ?partial (ex_client x) = Some (s, c)"
    and rest: "case s of Inl e \<Rightarrow> r = Inl (remoteFailure 0 e) \<and> x' = x\<lparr>ex_client := c\<rparr>
      | Inr stale \<Rightarrow> (case upload_resume task ?total stale of Inl r \<Rightarrow> exec_stop r
          | Inr n \<Rightarrow> andThen (?clear n stale) (\<lambda>_. andThen (?opening n) (\<lambda>_. ?body n))) (x\<lparr>ex_client := c\<rparr>) = Some (r, x')"
    by (rule remote_call)
  have c: "files c = files (ex_client x)" using stat_frame [OF stat] .
  show ?thesis
  proof (cases s)
    case (Inl e)
    then show ?thesis using rest c kept by simp
  next
    case stale: (Inr stale)
    show ?thesis
    proof (cases "upload_resume task ?total stale")
      case (Inl e)
      then have "er_kind e \<noteq> ResultCompleted" by (auto simp: upload_resume_def Let_def split: if_splits option.splits)
      then show ?thesis using rest stale Inl c kept by (auto simp: exec_stop_def)
    next
      case n: (Inr n)
      have already: "0 < n \<Longrightarrow> files (ex_client x) ?partial = Some (take (unat n) contents) \<and> unat n \<le> length contents"
      proof -
        assume "0 < n"
        then obtain e where e: "stale = Some e" "n = de_size e" "tt_transferredBytes task > 0"
          using n by (auto simp: upload_resume_def Let_def split: if_splits option.splits)
        then obtain bs where "files (ex_client x) ?partial = Some bs" "prefix bs contents" "unat n = length bs"
          using resume [of "ex_client x" e c] stat stale by auto
        then show ?thesis by (auto simp: prefix_def)
      qed
      obtain s1 x1 where clear: "?clear n stale (x\<lparr>ex_client := c\<rparr>) = Some (s1, x1)"
        and rest1: "(case s1 of Inl e \<Rightarrow> Some (Inl e, x1) | Inr _ \<Rightarrow> andThen (?opening n) (\<lambda>_. ?body n) x1) = Some (r, x')"
        using rest stale n by (auto simp: andThen_def split: option.splits prod.splits sum.splits)
      have x1: "ex_local x1 = ex_local x \<and> (\<forall>q. q \<noteq> ?partial \<longrightarrow> files (ex_client x1) q = files (ex_client x) q)
          \<and> (\<forall>e. s1 = Inl e \<longrightarrow> er_kind e \<noteq> ResultCompleted) \<and> (0 < n \<longrightarrow> files (ex_client x1) = files (ex_client x))"
      proof (cases "n = 0 \<and> stale \<noteq> None")
        case True
        then have "remote 0 (sc_removeEntry client WorkerToken ?partial False) (x\<lparr>ex_client := c\<rparr>) = Some (s1, x1)" using clear by simp
        then obtain t c2 where "sc_removeEntry client WorkerToken ?partial False c = Some (t, c2)" "x1 = x\<lparr>ex_client := c2\<rparr>"
          "s1 = map_sum (remoteFailure 0) id t" by (auto simp: remote_Some on_client_Some)
        then show ?thesis using remove_effect [of WorkerToken ?partial c t c2] c True by (cases t) auto
      next
        case False
        have "exec_return () (x\<lparr>ex_client := c\<rparr>) = Some (s1, x1)" using clear by (simp only: if_not_P [OF False])
        then show ?thesis using c by (auto simp: exec_return_def)
      qed
      show ?thesis
      proof (cases s1)
        case (Inl e)
        then show ?thesis using rest1 x1 kept by auto
      next
        case (Inr u)
        then have "andThen (?opening n) (\<lambda>_. ?body n) x1 = Some (r, x')" using rest1 by simp
        then obtain t c2 where op: "(if n > 0 then sc_openFileForResume client WorkerToken ?partial
            else sc_openFileForWrite client WorkerToken ?partial False) (ex_client x1) = Some (t, c2)"
          and rest2: "case t of Inl e \<Rightarrow> r = Inl (remoteFailure 0 e) \<and> x' = x1\<lparr>ex_client := c2\<rparr>
            | Inr a \<Rightarrow> ?body n (x1\<lparr>ex_client := c2\<rparr>) = Some (r, x')" by (rule remote_call)
        have c2: "(\<forall>q. q \<noteq> ?partial \<longrightarrow> files c2 q = files (ex_client x) q) \<and> (\<not> isl t \<longrightarrow> opened c2 = Some (?partial, 0)
            \<and> files c2 ?partial = Some (take (unat n) contents) \<and> unat n \<le> length contents)"
        proof (cases "n > 0")
          case True
          then show ?thesis using op resume_keeps [of WorkerToken ?partial "ex_client x1" t c2] x1 already by auto
        next
          case False
          then have "n = 0" by (simp add: word_gt_0)
          then show ?thesis using op write_creates [of WorkerToken ?partial "ex_client x1" t c2] x1 by auto
        qed
        show ?thesis
        proof (cases t)
          case (Inl e)
          then show ?thesis using rest2 c2 kept by simp
        next
          case ok: (Inr a)
          let ?x2 = "x1\<lparr>ex_client := c2\<rparr>"
          obtain result active x3 b sc where body: "upload_opened E ?total d replace ?partial n ?x2 = Some ((result, active), x3)"
            and r: "r = Inl result" and g: "guard_close E NoToken active x3 = Some (sc, b, x')"
            using rest2 ok by (auto simp: with_guard_def split: option.splits prod.splits)
          have "uploaded (files (ex_client ?x2)) (files (ex_client x3)) contents ?partial d replace result"
            using c2 ok input x1 by (intro upload_opened_result [OF client source body]) simp_all
          then show ?thesis using guard_close_frame [OF client g] c2 r by (auto simp: uploaded_def)
        qed
      qed
    qed
  qed
qed

lemma upload_destination_result:
  assumes client: "xe_client E = client" and run: "upload_destination E task options info x = Some (r, x')"
  shows "ex_local x' = ex_local x \<and> files (ex_client x') = files (ex_client x) \<and> (\<forall>e. r = Inl e \<longrightarrow> er_kind e \<noteq> ResultCompleted)
    \<and> (\<forall>d replace. r = Inr (d, replace) \<longrightarrow> (replace \<longrightarrow> eo_conflictAction options = Some ReplaceConflict)
         \<and> (d = tt_destinationPath task \<or> (eo_conflictAction options = Some RenameConflict
             \<and> normalizeRemotePath (eo_renamedDestinationPath options) = Inr d)))"
proof -
  obtain s c where stat: "sc_statEntry client WorkerToken (tt_destinationPath task) (ex_client x) = Some (s, c)"
    using run client by (auto simp: upload_destination_def Let_def andThen_def remote_def on_client_def split: option.splits)
  note same = stat_frame [OF stat]
  show ?thesis
    using run stat same client
    by (auto simp: upload_destination_def Let_def andThen_def remote_def on_client_def exec_return_def exec_stop_def stat_frame
      split: option.splits prod.splits sum.splits ConflictAction.splits if_splits)
qed

lemma upload_result:
  assumes client: "xe_client E = client" and source: "local_source E input (tt_sourcePath task) contents"
    and size: "length contents < 2 ^ 64" and run: "executeUpload E task options x = Some (r, x')"
    and resume: "\<And>d c e c'. tt_transferredBytes task > 0 \<Longrightarrow> files c = files (ex_client x)
      \<Longrightarrow> sc_statEntry client WorkerToken (temporaryPath E d (tt_id task)) c = Some (Inr (Some e), c')
      \<Longrightarrow> \<exists>bs. files c (temporaryPath E d (tt_id task)) = Some bs \<and> prefix bs contents \<and> unat (de_size e) = length bs"
  shows "\<exists>result d replace. r = Inl result
    \<and> uploaded (files (ex_client x)) (files (ex_client x')) contents (temporaryPath E d (tt_id task)) d replace result
    \<and> (replace \<longrightarrow> eo_conflictAction options = Some ReplaceConflict)
    \<and> (d = tt_destinationPath task
       \<or> (eo_conflictAction options = Some RenameConflict \<and> normalizeRemotePath (eo_renamedDestinationPath options) = Inr d))"
proof -
  let ?d = "tt_destinationPath task"
  have early: ?thesis if "r = Inl e" "files (ex_client x') = files (ex_client x)" "er_kind e \<noteq> ResultCompleted" for e
    using that by (intro exI [of _ e] exI [of _ ?d] exI [of _ False]) (auto intro: uploaded_kept)
  let ?open = "local_or ExecLocalIo 0 (xe_openInput E (tt_sourcePath task))"
  consider e where "r = Inl e" "x' = x" "er_kind e \<noteq> ResultCompleted"
    | info where "andThen ?open (\<lambda>_. andThen (upload_destination E task options info) (upload_to E task info)) x = Some (r, x')"
    using run by (auto simp: executeUpload_def exec_stop_def split: option.splits if_splits)
  then show ?thesis
  proof cases
    case 2
    obtain ok l where o: "xe_openInput E (tt_sourcePath task) (ex_local x) = (ok, l)" by fastforce
    show ?thesis
    proof (cases ok)
      case False
      then have "r = Inl (failure ExecLocalIo 0)" "ex_client x' = ex_client x"
        using 2 o by (auto simp: andThen_def local_or_def on_local_def split: bool.splits)
      then show ?thesis using early by simp
    next
      case True
      let ?x1 = "x\<lparr>ex_local := l\<rparr>"
      have "andThen (upload_destination E task options info) (upload_to E task info) ?x1 = Some (r, x')"
        using 2 o True by (simp add: andThen_def local_or_def on_local_def)
      then obtain s x2 where dest: "upload_destination E task options info ?x1 = Some (s, x2)"
        and rest: "(case s of Inl e \<Rightarrow> Some (Inl e, x2) | Inr target \<Rightarrow> upload_to E task info target x2) = Some (r, x')"
        by (auto simp: andThen_def split: option.splits prod.splits sum.splits)
      note chosen = upload_destination_result [OF client dest]
      show ?thesis
      proof (cases s)
        case (Inl e)
        then show ?thesis using early rest chosen by auto
      next
        case (Inr target)
        obtain d replace where t: "target = (d, replace)" by fastforce
        have to: "upload_to E task info (d, replace) x2 = Some (r, x')" using rest Inr t by simp
        have input: "xe_openInput E (tt_sourcePath task) (ex_local x) = (True, ex_local x2)" using o True chosen by simp
        have res: "\<exists>bs. files c (temporaryPath E d (tt_id task)) = Some bs \<and> prefix bs contents \<and> unat (de_size e) = length bs"
          if "tt_transferredBytes task > 0" "files c = files (ex_client x2)"
            "sc_statEntry client WorkerToken (temporaryPath E d (tt_id task)) c = Some (Inr (Some e), c')" for c e c'
          using resume [OF that(1) _ that(3)] that(2) chosen by simp
        have "\<exists>result. r = Inl result \<and> uploaded (files (ex_client x2)) (files (ex_client x')) contents
            (temporaryPath E d (tt_id task)) d replace result"
          by (rule upload_to_result [OF client source size to input]) (rule res)
        then obtain result where "r = Inl result"
          "uploaded (files (ex_client x)) (files (ex_client x')) contents (temporaryPath E d (tt_id task)) d replace result"
          using chosen by auto
        moreover have "(replace \<longrightarrow> eo_conflictAction options = Some ReplaceConflict) \<and> (d = ?d
            \<or> (eo_conflictAction options = Some RenameConflict \<and> normalizeRemotePath (eo_renamedDestinationPath options) = Inr d))"
          using chosen Inr t by simp
        ultimately show ?thesis by (intro exI [of _ result] exI [of _ d] exI [of _ replace]) simp
      qed
    qed
  qed (use early in simp)
qed

end

end
