(* ===== verification/Sftp_Server.thy ===== *)
theory Sftp_Server
  imports Transfer_Upload Ssh_Session_Io "HOL-Library.AList"
begin

text \<open>
  An SFTP server below libssh2, and the proof that \<open>Libssh2SftpClient\<close> over it keeps the contract \<open>sftp_files\<close>.

  The server holds regular files and does what the protocol says of them.  A script decides what becomes of each
  call and each wait: \<open>Again\<close> is \<open>EAGAIN\<close>, or a wait that times out, \<open>Refuse\<close> an error reported before or after the call was
  done, \<open>Part n\<close> lets it through, at most \<open>n\<close> bytes of it.  Handle 5 is the open directory and 6 the open file.
\<close>

datatype Hiccup = Again | Refuse bool | Part nat

record SftpServer =
  sv_files :: "(string \<times> byte list) list"
  sv_open :: "(string \<times> nat) option"
  sv_listing :: listing
  sv_errno :: LibCode
  sv_script :: "Hiccup list"

definition sv_view :: "SftpServer \<Rightarrow> string \<Rightarrow> byte list option" where
  "sv_view v = map_of (sv_files v)"

definition next_hiccup :: "SftpServer \<Rightarrow> Hiccup \<times> SftpServer" where
  "next_hiccup v = (case sv_script v of [] \<Rightarrow> (Part 32768, v) | h # hs \<Rightarrow> (h, v\<lparr>sv_script := hs\<rparr>))"

definition fail_with :: "LibCode \<Rightarrow> SftpServer \<Rightarrow> LibCode \<times> SftpServer" where
  "fail_with code v = (code, v\<lparr>sv_errno := code\<rparr>)"

text \<open>A call with its effect: what it does to the server, or the error it has.\<close>

definition server_call :: "(SftpServer \<Rightarrow> SftpServer option) \<Rightarrow> SftpServer \<Rightarrow> LibCode \<times> SftpServer" where
  "server_call effect v =
     (case next_hiccup v of (h, v1) \<Rightarrow>
        case h of
          Again \<Rightarrow> fail_with LibEagain v1
        | Refuse after \<Rightarrow> fail_with LibSftpProtocol (case effect v1 of Some v2 \<Rightarrow> if after then v2 else v1 | None \<Rightarrow> v1)
        | Part n \<Rightarrow> (case effect v1 of None \<Rightarrow> fail_with LibSftpProtocol v1 | Some v2 \<Rightarrow> (LibOk, v2)))"

definition handle_call :: "(SftpServer \<Rightarrow> SftpServer option) \<Rightarrow> nat \<Rightarrow> SftpServer \<Rightarrow> nat option \<times> SftpServer" where
  "handle_call effect handle v =
     (case server_call effect v of (code, v') \<Rightarrow> (if code = LibOk then Some handle else None, v'))"

definition put_file :: "string \<Rightarrow> byte list \<Rightarrow> SftpServer \<Rightarrow> SftpServer" where
  "put_file path contents v = v\<lparr>sv_files := AList.update path contents (sv_files v)\<rparr>"

definition drop_file :: "string \<Rightarrow> SftpServer \<Rightarrow> SftpServer" where
  "drop_file path v = v\<lparr>sv_files := AList.delete path (sv_files v)\<rparr>"

definition file_attributes :: "byte list \<Rightarrow> SftpAttributes" where
  "file_attributes contents =
     \<lparr>at_permissions = Some 0x81A4, at_filesize = Some (of_nat (length contents)), at_mtime = None\<rparr>"

definition listing_of :: "string \<Rightarrow> SftpServer \<Rightarrow> listing" where
  "listing_of path v = map (\<lambda>(p, contents). (entry_name p, file_attributes contents))
     (filter (\<lambda>(p, contents). parentRemotePath p = path) (sv_files v))"

definition server_open :: "nat \<Rightarrow> string \<Rightarrow> SftpOpen \<Rightarrow> SftpServer \<Rightarrow> nat option \<times> SftpServer" where
  "server_open sftp path mode =
     (case mode of
        SftpOpenDirectory \<Rightarrow> handle_call (\<lambda>v. Some (v\<lparr>sv_listing := listing_of path v\<rparr>)) 5
      | SftpOpenRead \<Rightarrow> handle_call (\<lambda>v. if sv_view v path = None then None else Some (v\<lparr>sv_open := Some (path, 0)\<rparr>)) 6
      | SftpOpenWrite exclusive truncating \<Rightarrow>
          handle_call (\<lambda>v.
            if exclusive \<and> sv_view v path \<noteq> None then None
            else Some ((if truncating \<or> sv_view v path = None then put_file path [] v else v)\<lparr>sv_open := Some (path, 0)\<rparr>)) 6)"

definition server_readdir :: "nat \<Rightarrow> SftpServer \<Rightarrow> (LibCode + (string \<times> SftpAttributes) option) \<times> SftpServer" where
  "server_readdir h v =
     (case server_call (\<lambda>v. Some v) v of (code, v') \<Rightarrow>
        if code \<noteq> LibOk then (Inl code, v')
        else case sv_listing v' of [] \<Rightarrow> (Inr None, v') | x # xs \<Rightarrow> (Inr (Some x), v'\<lparr>sv_listing := xs\<rparr>))"

text \<open>Reading and writing at the offset, some of the bytes.\<close>

definition server_read :: "nat \<Rightarrow> nat \<Rightarrow> SftpServer \<Rightarrow> (LibCode + byte list) \<times> SftpServer" where
  "server_read h capacity v =
     (case next_hiccup v of (hiccup, v1) \<Rightarrow>
        case (hiccup, sv_open v1) of
          (Part n, Some (path, k)) \<Rightarrow>
            (case sv_view v1 path of
               None \<Rightarrow> map_prod Inl id (fail_with LibSftpProtocol v1)
             | Some contents \<Rightarrow>
                 if h \<noteq> 6 then map_prod Inl id (fail_with LibBadUse v1)
                 else let bytes = take (min capacity (max 1 n)) (drop k contents)
                      in (Inr bytes, v1\<lparr>sv_open := Some (path, k + length bytes)\<rparr>))
        | (Again, _) \<Rightarrow> map_prod Inl id (fail_with LibEagain v1)
        | _ \<Rightarrow> map_prod Inl id (fail_with LibSftpProtocol v1))"

definition overwrite :: "nat \<Rightarrow> byte list \<Rightarrow> byte list \<Rightarrow> byte list" where
  "overwrite k bytes contents =
     take k (contents @ replicate (k - length contents) 0) @ bytes @ drop (k + length bytes) contents"

definition server_write :: "nat \<Rightarrow> byte list \<Rightarrow> SftpServer \<Rightarrow> (LibCode + nat) \<times> SftpServer" where
  "server_write h input v =
     (case next_hiccup v of (hiccup, v1) \<Rightarrow>
        case (hiccup, sv_open v1) of
          (Part n, Some (path, k)) \<Rightarrow>
            (case sv_view v1 path of
               None \<Rightarrow> map_prod Inl id (fail_with LibSftpProtocol v1)
             | Some contents \<Rightarrow>
                 if h \<noteq> 6 then map_prod Inl id (fail_with LibBadUse v1)
                 else let bytes = take n input
                      in (Inr (length bytes), (put_file path (overwrite k bytes contents) v1)\<lparr>sv_open := Some (path, k + length bytes)\<rparr>))
        | (Again, _) \<Rightarrow> map_prod Inl id (fail_with LibEagain v1)
        | _ \<Rightarrow> map_prod Inl id (fail_with LibSftpProtocol v1))"

definition server_rename :: "nat \<Rightarrow> string \<Rightarrow> string \<Rightarrow> bool \<Rightarrow> SftpServer \<Rightarrow> LibCode \<times> SftpServer" where
  "server_rename sftp source destination replace =
     server_call (\<lambda>v.
       case sv_view v source of
         None \<Rightarrow> None
       | Some contents \<Rightarrow>
           if sv_view v destination \<noteq> None \<and> \<not> replace then None
           else Some (drop_file source (put_file destination contents v)))"

definition server_unlink :: "nat \<Rightarrow> string \<Rightarrow> SftpServer \<Rightarrow> LibCode \<times> SftpServer" where
  "server_unlink sftp path = server_call (\<lambda>v. if sv_view v path = None then None else Some (drop_file path v))"

definition server_close :: "nat \<Rightarrow> SftpServer \<Rightarrow> LibCode \<times> SftpServer" where
  "server_close h = server_call (\<lambda>v. Some (if h = 6 then v\<lparr>sv_open := None\<rparr> else v))"

definition server_wait :: "nat \<Rightarrow> SocketIoInterest \<Rightarrow> SftpServer \<Rightarrow> (SshByteTransportError + unit) \<times> SftpServer" where
  "server_wait transport interest v =
     (case next_hiccup v of (h, v1) \<Rightarrow>
        (if h = Again then Inl \<lparr>te_kind = WaitTimedOut, te_nativeCode = 0\<rparr> else Inr (), v1))"

text \<open>The calls that a transfer does not make fail.\<close>

definition server_lib :: "SftpServer Libssh2" where
  "server_lib = \<lparr>tr_valid = (\<lambda>t v. True), tr_wait = server_wait, stop_requested = (\<lambda>v. False), lib_blocks = (\<lambda>v. (True, False)),
     lib_errno = sv_errno, lib_value = (\<lambda>c. 0), lib_handshake = (\<lambda>t. fail_with LibBadUse),
     lib_hostkey = (\<lambda>t. \<lparr>rk_encodedKey = [], rk_algorithm = UnknownAlgorithm, rk_sha256 = None, rk_lastError = LibBadUse\<rparr>),
     lib_userauth_password = (\<lambda>u p. fail_with LibBadUse), lib_userauth_publickey = (\<lambda>u k k' p. fail_with LibBadUse),
     lib_agent_init = (\<lambda>v. (False, v)), lib_agent_connect = fail_with LibBadUse, lib_agent_list = (\<lambda>v. (Inl LibBadUse, v)),
     lib_agent_userauth = (\<lambda>u i. fail_with LibBadUse), lib_direct_tcpip = (\<lambda>h p h' p' v. (None, v)),
     lib_channel_close = (\<lambda>c. fail_with LibBadUse), lib_channel_free = (\<lambda>c. fail_with LibBadUse), lib_channel_eof = (\<lambda>c v. True),
     lib_channel_read = (\<lambda>c n v. (Inl LibBadUse, v)), lib_channel_write = (\<lambda>c bs v. (Inl LibBadUse, v))\<rparr>"

definition server_sftp :: "SftpServer LibSftp" where
  "server_sftp = \<lparr>lf_lib = server_lib, lf_wait = server_wait, lf_kind = (\<lambda>p. if p = 0x81A4 then RegularFile else Other),
     lf_lastError = (\<lambda>v. 0), lf_init = (\<lambda>v. (Some 4, v)), lf_open = server_open, lf_readdir = server_readdir,
     lf_realpath = (\<lambda>h path v. (Inr path, v)), lf_mkdir = (\<lambda>h path. fail_with LibSftpProtocol), lf_rename = server_rename,
     lf_unlink = server_unlink, lf_rmdir = (\<lambda>h path. fail_with LibSftpProtocol), lf_read = server_read, lf_write = server_write,
     lf_seek = (\<lambda>h n v. v\<lparr>sv_open := map_option (\<lambda>(path, k). (path, unat n)) (sv_open v)\<rparr>), lf_closeHandle = server_close,
     lf_shutdown = (\<lambda>h v. (LibOk, v))\<rparr>"

section \<open>The client over the server\<close>

definition same_store :: "SftpServer \<Rightarrow> SftpServer \<Rightarrow> bool" where
  "same_store v v' \<longleftrightarrow> sv_files v' = sv_files v \<and> sv_open v' = sv_open v"

lemma same_refl [simp]: "same_store v v" by (simp add: same_store_def)

lemma same_trans: "same_store a b \<Longrightarrow> same_store b c \<Longrightarrow> same_store a c" by (simp add: same_store_def)

lemma same_view: "same_store v v' \<Longrightarrow> sv_view v' = sv_view v" by (simp add: same_store_def sv_view_def)

lemma sv_view_put [simp]: "sv_view (put_file p c v) = (sv_view v)(p \<mapsto> c)"
  by (simp add: sv_view_def put_file_def update_conv')

lemma sv_view_drop [simp]: "sv_view (drop_file p v) = (sv_view v)(p := None)"
  by (simp add: sv_view_def drop_file_def delete_conv')

lemma sv_view_frame [simp]:
  "sv_view (v\<lparr>sv_open := x\<rparr>) = sv_view v" "sv_view (v\<lparr>sv_errno := e\<rparr>) = sv_view v" "sv_view (v\<lparr>sv_listing := ls\<rparr>) = sv_view v"
  by (simp_all add: sv_view_def)

lemma hiccup_same: "next_hiccup v = (h, v1) \<Longrightarrow> same_store v v1"
  by (auto simp: next_hiccup_def same_store_def split: list.splits)

lemma fail_same [simp]: "same_store v (snd (fail_with code v))" "fst (fail_with code v) = code" "sv_errno (snd (fail_with code v)) = code"
  by (simp_all add: fail_with_def same_store_def)

lemma token_lib: "lf_lib (with_token token server_sftp) = server_lib"
  by (cases token) (simp_all add: with_token_def server_sftp_def server_lib_def)

lemma server_ops [simp]:
  "lf_lib server_sftp = server_lib" "lf_wait server_sftp = server_wait" "lf_open server_sftp = server_open"
  "lf_readdir server_sftp = server_readdir" "lf_rename server_sftp = server_rename" "lf_unlink server_sftp = server_unlink"
  "lf_read server_sftp = server_read" "lf_write server_sftp = server_write" "lf_closeHandle server_sftp = server_close"
  "lf_seek server_sftp h n v = v\<lparr>sv_open := map_option (\<lambda>(path, k). (path, unat n)) (sv_open v)\<rparr>"
  by (simp_all add: server_sftp_def)

lemma token_ops:
  "lf_open (with_token token F) = lf_open F" "lf_rename (with_token token F) = lf_rename F"
  "lf_unlink (with_token token F) = lf_unlink F" "lf_read (with_token token F) = lf_read F"
  "lf_write (with_token token F) = lf_write F" "lf_closeHandle (with_token token F) = lf_closeHandle F"
  "lf_readdir (with_token token F) = lf_readdir F" "lf_wait (with_token token F) = lf_wait F"
  by (cases token; simp add: with_token_def)+

lemma wait_same: "same_store v (snd (waitForSessionIo server_lib t v))"
  using hiccup_same by (auto simp: waitForSessionIo_def server_lib_def server_wait_def split: prod.splits sum.splits)

text \<open>What a call leaves: nothing, or its effect; when it succeeds, its effect.\<close>

definition effected :: "(SftpServer \<Rightarrow> SftpServer option) \<Rightarrow> SftpServer \<Rightarrow> bool \<Rightarrow> SftpServer \<Rightarrow> bool" where
  "effected effect v failed v' \<longleftrightarrow> (failed \<and> same_store v v')
     \<or> (\<exists>v1 v2. same_store v v1 \<and> effect v1 = Some v2 \<and> same_store v2 v')"

lemma effected_from: "same_store v0 v \<Longrightarrow> effected effect v failed v' \<Longrightarrow> effected effect v0 failed v'"
  unfolding effected_def using same_trans by blast

lemma effected_failed: "same_store v v' \<Longrightarrow> effected effect v True v'"
  by (simp add: effected_def)

lemma server_call_effect:
  assumes "server_call effect v = (code, v')"
  shows "effected effect v (code \<noteq> LibOk) v' \<and> (code = LibEagain \<longrightarrow> same_store v v') \<and> (code \<noteq> LibOk \<longrightarrow> sv_errno v' = code)"
proof -
  obtain h v1 where h: "next_hiccup v = (h, v1)" by fastforce
  note same = hiccup_same [OF h]
  have fail: "same_store v (snd (fail_with c v1))" for c using same_trans [OF same] fail_same(1) by blast
  show ?thesis
  proof (cases h)
    case Again
    then have "code = LibEagain" "v' = snd (fail_with LibEagain v1)" using assms h by (simp_all add: server_call_def fail_with_def)
    then show ?thesis using fail effected_failed by simp
  next
    case (Refuse after)
    let ?v2 = "case effect v1 of Some v2 \<Rightarrow> if after then v2 else v1 | None \<Rightarrow> v1"
    have c: "code = LibSftpProtocol" "v' = snd (fail_with LibSftpProtocol ?v2)"
      using assms h Refuse by (simp_all add: server_call_def fail_with_def)
    have "effected effect v True v'"
    proof (cases "effect v1")
      case None
      then show ?thesis using c fail effected_failed by simp
    next
      case (Some v2)
      then show ?thesis using c fail same fail_same(1) by (cases after) (auto simp: effected_def)
    qed
    then show ?thesis using c by simp
  next
    case (Part n)
    show ?thesis
    proof (cases "effect v1")
      case None
      then have "code = LibSftpProtocol" "v' = snd (fail_with LibSftpProtocol v1)"
        using assms h Part by (simp_all add: server_call_def fail_with_def)
      then show ?thesis using fail effected_failed by simp
    next
      case (Some v2)
      then have "code = LibOk" "v' = v2" using assms h Part by (simp_all add: server_call_def)
      then show ?thesis using Some same by (auto simp: effected_def)
    qed
  qed
qed

lemma code_loop_effect:
  assumes "session_loop server_lib t (\<lambda>v. sftp_step F (server_call effect v)) v = Some (r, v')"
  shows "effected effect v (isl r) v'"
proof (rule session_loop_rule [OF assms, where I = "same_store v" and Q = "\<lambda>r. effected effect v (isl r)"])
  fix w w' assume I: "same_store v w" and step: "sftp_step F (server_call effect w) = (StepAgain, w')"
  then show "same_store v w'" using server_call_effect [of effect w "fst (server_call effect w)" "snd (server_call effect w)"] same_trans
    by (auto simp: sftp_step_def split: prod.splits if_splits)
next
  fix w a w' assume I: "same_store v w" and step: "sftp_step F (server_call effect w) = (StepDone a, w')"
  then show "effected effect v (isl (Inr a)) w'"
    using server_call_effect [of effect w "fst (server_call effect w)" "snd (server_call effect w)"] effected_from [OF I]
    by (auto simp: sftp_step_def split: prod.splits if_splits)
next
  fix w e w' assume I: "same_store v w" and step: "sftp_step F (server_call effect w) = (StepError e, w')"
  then show "effected effect v (isl (Inl e)) w'"
    using server_call_effect [of effect w "fst (server_call effect w)" "snd (server_call effect w)"] effected_from [OF I]
    by (auto simp: sftp_step_def split: prod.splits if_splits)
next
  fix w assume "same_store v w"
  then show "same_store v (snd (waitForSessionIo server_lib t w))" using wait_same same_trans by blast
qed (simp_all add: effected_failed)

lemma handle_loop_effect:
  assumes lib: "lf_lib F = server_lib"
    and run: "session_loop server_lib t (\<lambda>v. sftp_handle_step F (handle_call effect h v)) v = Some (r, v')"
  shows "effected effect v (isl r) v'"
proof -
  have call: "effected effect w (x = None) w' \<and> (x = None \<longrightarrow> sv_errno w' = LibEagain \<longrightarrow> same_store w w')"
    if "handle_call effect h w = (x, w')" for w x w'
    using that server_call_effect [of effect w "fst (server_call effect w)" "snd (server_call effect w)"]
    by (auto simp: handle_call_def split: prod.splits if_splits)
  have errno: "lib_errno (lf_lib F) w = sv_errno w" for w by (simp add: lib server_lib_def)
  show ?thesis
  proof (rule session_loop_rule [OF run, where I = "same_store v" and Q = "\<lambda>r. effected effect v (isl r)"])
    fix w w' assume I: "same_store v w" and step: "sftp_handle_step F (handle_call effect h w) = (StepAgain, w')"
    then show "same_store v w'" using call [of w "fst (handle_call effect h w)" "snd (handle_call effect h w)"] same_trans
      by (auto simp: sftp_handle_step_def errno Let_def split: prod.splits option.splits if_splits)
  next
    fix w a w' assume I: "same_store v w" and step: "sftp_handle_step F (handle_call effect h w) = (StepDone a, w')"
    then show "effected effect v (isl (Inr a)) w'"
      using call [of w "fst (handle_call effect h w)" "snd (handle_call effect h w)"] effected_from [OF I]
      by (auto simp: sftp_handle_step_def Let_def split: prod.splits option.splits if_splits)
  next
    fix w e w' assume I: "same_store v w" and step: "sftp_handle_step F (handle_call effect h w) = (StepError e, w')"
    then show "effected effect v (isl (Inl e)) w'"
      using call [of w "fst (handle_call effect h w)" "snd (handle_call effect h w)"] effected_from [OF I]
      by (auto simp: sftp_handle_step_def Let_def split: prod.splits option.splits if_splits)
  next
    fix w assume "same_store v w"
    then show "same_store v (snd (waitForSessionIo server_lib t w))" using wait_same same_trans by blast
  qed (simp_all add: effected_failed)
qed

text \<open>An operation of the client that is such a loop after its checks.\<close>

lemma on_session_result:
  assumes "on_session operation c = Some (r, c')"
  obtains s v where "operation (cn_session c) (cn_world c) = Some (r, s, v)" "cn_world c' = v"
  using assms by (auto simp: on_session_def split: option.splits)

lemma looped_run: "looped L t call f s w = Some (r, s', w') \<Longrightarrow> session_loop L t call w = Some (r, w')"
  by (auto simp: looped_def split: option.splits prod.splits sum.splits)

lemma call_effect:
  assumes "on_session (sftp_call (with_token token server_sftp) t bad timeout (\<lambda>sftp. server_call effect)) c = Some (r, c')"
  shows "effected effect (cn_world c) (isl r) (cn_world c')"
  using assms
proof (rule on_session_result)
  fix s v assume run: "sftp_call (with_token token server_sftp) t bad timeout (\<lambda>sftp. server_call effect) (cn_session c) (cn_world c) = Some (r, s, v)"
    and v: "cn_world c' = v"
  from run show ?thesis
    unfolding sftp_call_def token_lib v
    by (auto dest!: checked_result looped_run code_loop_effect simp: effected_failed)
qed

lemma ignore_value_result:
  assumes "ignore_value operation c = Some (r, c')" shows "\<exists>r0. operation c = Some (r0, c') \<and> isl r0 = isl r"
proof -
  obtain r0 where "operation c = Some (r0, c')" "r = map_sum id (\<lambda>_. ()) r0" using assms by (auto simp: ignore_value_def)
  then show ?thesis by (cases r0) auto
qed

lemma file_open_effect:
  assumes "on_session (open_sftp_file (with_token token server_sftp) t path mode timeout) c = Some (r, c')"
    and "\<And>sftp. server_open sftp path mode = handle_call effect 6"
  shows "effected effect (cn_world c) (isl r) (cn_world c')"
  using assms(1)
proof (rule on_session_result)
  have op: "lf_open (with_token token server_sftp) sftp path mode = handle_call effect 6" for sftp
    using assms(2) by (simp add: token_ops server_sftp_def)
  fix s v assume run: "open_sftp_file (with_token token server_sftp) t path mode timeout (cn_session c) (cn_world c) = Some (r, s, v)"
    and v: "cn_world c' = v"
  from run show ?thesis
    unfolding open_sftp_file_def token_lib v op
    by (auto dest!: checked_result looped_run handle_loop_effect [OF token_lib] simp: effected_failed)
qed

text \<open>Where a call only matters through what it keeps.\<close>

definition keeps :: "(SftpServer \<Rightarrow> 'b) \<Rightarrow> (SftpServer \<Rightarrow> 'a \<times> SftpServer) \<Rightarrow> bool" where
  "keeps g call \<longleftrightarrow> (\<forall>v. g (snd (call v)) = g v)"

lemma session_loop_keeps:
  assumes run: "session_loop server_lib t call v = Some (r, v')" and "keeps sv_files call"
  shows "sv_files v' = sv_files v"
proof (rule session_loop_rule [OF run, where I = "\<lambda>w. sv_files w = sv_files v" and Q = "\<lambda>_ w. sv_files w = sv_files v"])
  have call: "sv_files w' = sv_files w" if "call w = (x, w')" for w x w' using assms(2) that unfolding keeps_def by (metis snd_conv)
  show "sv_files w' = sv_files v" if "sv_files w = sv_files v" "call w = (StepAgain, w')" for w w' using call that by simp
  show "sv_files w' = sv_files v" if "sv_files w = sv_files v" "call w = (StepDone a, w')" for w a w' using call that by simp
  show "sv_files w' = sv_files v" if "sv_files w = sv_files v" "call w = (StepError e, w')" for w e w' using call that by simp
  show "sv_files (snd (waitForSessionIo server_lib t w)) = sv_files v" if "sv_files w = sv_files v" for w
    using wait_same [of w t] that by (simp add: same_store_def)
qed simp_all

lemma server_call_keeps: "(\<And>v v'. effect v = Some v' \<Longrightarrow> sv_files v' = sv_files v) \<Longrightarrow> keeps sv_files (server_call effect)"
  unfolding keeps_def
proof
  fix v assume e: "\<And>v v'. effect v = Some v' \<Longrightarrow> sv_files v' = sv_files v"
  show "sv_files (snd (server_call effect v)) = sv_files v"
    using server_call_effect [of effect v "fst (server_call effect v)" "snd (server_call effect v)"] e
    by (auto simp: effected_def same_store_def)
qed

lemma keeps_step:
  "keeps sv_files call \<Longrightarrow> keeps sv_files (\<lambda>v. sftp_step F (call v))"
  "keeps sv_files call \<Longrightarrow> keeps sv_files (\<lambda>v. code_step m (call v))"
  by (auto simp: keeps_def sftp_step_def code_step_def split: prod.splits) (metis snd_conv)+

lemma keeps_handle:
  "keeps sv_files call \<Longrightarrow> keeps sv_files (\<lambda>v. sftp_handle_step F (call v))"
  by (auto simp: keeps_def sftp_handle_step_def Let_def split: prod.splits option.splits) (metis snd_conv)+

lemma keeps_handle_call: "keeps sv_files (server_call effect) \<Longrightarrow> keeps sv_files (handle_call effect h)"
  by (auto simp: keeps_def handle_call_def split: prod.splits) (metis snd_conv)

lemma close_directory_keeps:
  assumes "closeDirectory F t d v = Some v'" "lf_lib F = server_lib" "lf_wait F = server_wait" "lf_closeHandle F = server_close"
  shows "sv_files v' = sv_files v"
proof -
  have lib: "(lf_lib F)\<lparr>tr_wait := lf_wait F\<rparr> = server_lib" using assms(2,3) by (simp add: server_lib_def)
  obtain r where "session_loop server_lib t (\<lambda>w. code_step mapChannelError (server_close d w)) v = Some (r, v')"
    using assms(1) unfolding closeDirectory_def lib assms(4) by auto
  then show ?thesis
    by (rule session_loop_keeps) (auto simp: server_close_def intro!: keeps_step server_call_keeps)
qed

lemma readdir_keeps: "keeps sv_files (server_readdir h)"
  using server_call_keeps [of Some]
  by (auto simp: keeps_def server_readdir_def split: prod.splits list.splits) (metis snd_conv)+

lemma list_loop_keeps:
  fixes F :: "SftpServer LibSftp"
  assumes run: "list_loop F t d path entries v = Some (r, v')"
    and F: "lf_lib F = server_lib" "lf_wait F = server_wait" "lf_closeHandle F = server_close" "lf_readdir F = server_readdir"
  shows "sv_files v' = sv_files v"
proof -
  have close: "sv_files (snd y) = sv_files w" if "closing_with F t d r w = Some (y :: (SshTransportError + DirectoryEntry list) \<times> SftpServer)" for r y w
    using that close_directory_keeps [OF _ F(1,2,3)] by (auto simp: closing_with_def)
  have readdir: "sv_files w' = sv_files w" if "server_readdir d w = (x, w')" for x w w'
    using readdir_keeps that unfolding keeps_def by (metis snd_conv)
  have wait: "sv_files w' = sv_files w" if "waitForSessionIo server_lib t w = (x, w')" for x w w'
    using wait_same [of w t] that by (simp add: same_store_def)
  let ?post = "\<lambda>F' t' d' (p' :: string) (entries :: DirectoryEntry list) w (y :: (SshTransportError + DirectoryEntry list) \<times> SftpServer).
    F' = F \<longrightarrow> t' = t \<longrightarrow> d' = d \<longrightarrow> sv_files (snd y) = sv_files w"
  have "?post F t d path entries v (r, v')"
    by (rule list_loop.raw_induct [of ?post, OF _ run])
      (auto simp: F split: prod.splits sum.splits option.splits if_splits dest!: close readdir wait)
  then show ?thesis by simp
qed

section \<open>The contract\<close>

abbreviation (input) server_client :: "nat \<Rightarrow> SftpServer SftpConnection SftpClient" where
  "server_client \<equiv> libssh2SftpClient server_sftp"

definition server_files :: "SftpServer SftpConnection \<Rightarrow> string \<Rightarrow> byte list option" where
  "server_files c = sv_view (cn_world c)"

definition server_opened :: "SftpServer SftpConnection \<Rightarrow> (string \<times> nat) option" where
  "server_opened c = sv_open (cn_world c)"

lemma client_stat_files:
  assumes "sc_statEntry (server_client t) token p c = Some (found, c')"
  shows "server_files c' = server_files c"
proof -
  have token: "lf_lib (with_token token server_sftp) = server_lib" "lf_wait (with_token token server_sftp) = server_wait"
    "lf_closeHandle (with_token token server_sftp) = server_close" "lf_readdir (with_token token server_sftp) = server_readdir"
    "lf_open (with_token token server_sftp) = server_open"
    by (simp_all add: token_lib token_ops)
  obtain r where "client_list server_sftp t token (parentRemotePath p) c = Some (r, c')"
    using assms by (auto simp: libssh2SftpClient_def client_stat_def andThen_def split: option.splits prod.splits sum.splits)
  then have "on_session (listSftpDirectory (with_token token server_sftp) t (parentRemotePath p) operationTimeout) c = Some (r, c')"
    by (simp add: client_list_def)
  then obtain s v where run: "listSftpDirectory (with_token token server_sftp) t (parentRemotePath p) operationTimeout
      (cn_session c) (cn_world c) = Some (r, s, v)" and v: "cn_world c' = v" by (rule on_session_result)
  have opens: "keeps sv_files (\<lambda>v. sftp_handle_step F (server_open h path SftpOpenDirectory v))" for F h path
    by (auto simp: server_open_def intro!: keeps_handle keeps_handle_call server_call_keeps)
  have "sv_files v = sv_files (cn_world c)"
    using run unfolding listSftpDirectory_def list_opened_def token
    by (auto simp: andThen_def token dest!: checked_result session_loop_keeps [OF _ opens] list_loop_keeps
      split: option.splits prod.splits sum.splits)
  then show ?thesis by (simp add: server_files_def sv_view_def v)
qed

lemma client_remove:
  assumes "sc_removeEntry (server_client t) token p False c = Some (r, c')"
  shows "(server_files c' = server_files c \<or> server_files c' = (server_files c)(p := None)) \<and> (\<not> isl r \<longrightarrow> server_files c' p = None)"
proof -
  let ?effect = "\<lambda>v. if sv_view v p = None then None else Some (drop_file p v)"
  have "on_session (sftp_call (with_token token server_sftp) t (\<not> validSftpPath p) operationTimeout (\<lambda>sftp. server_call ?effect)) c = Some (r, c')"
    using assms by (simp add: libssh2SftpClient_def removeSftpFile_def token_ops server_unlink_def)
  from call_effect [OF this] show ?thesis
    by (auto simp: effected_def server_files_def dest!: same_view split: if_splits)
qed

lemma client_rename:
  assumes "sc_renameEntry (server_client t) token p q replace c = Some (r, c')" "p \<noteq> q"
  shows "(server_files c' = server_files c \<and> isl r)
    \<or> (server_files c' = (server_files c)(q := server_files c p, p := None) \<and> server_files c p \<noteq> None
       \<and> (replace \<or> server_files c q = None))"
proof -
  let ?effect = "\<lambda>v. case sv_view v p of None \<Rightarrow> None
      | Some contents \<Rightarrow> if sv_view v q \<noteq> None \<and> \<not> replace then None else Some (drop_file p (put_file q contents v))"
  have d: "((if replace then ReplaceAtomically else NoReplace) = ReplaceAtomically) = replace" by simp
  have ren: "server_rename sftp p q replace = server_call ?effect" for sftp by (simp add: server_rename_def)
  have "on_session (sftp_call (with_token token server_sftp) t (\<not> validSftpPath p \<or> \<not> validSftpPath q) operationTimeout
      (\<lambda>sftp. server_rename sftp p q replace)) c = Some (r, c')"
    using assms(1) by (simp add: libssh2SftpClient_def renameSftpEntry_def token_ops d)
  then have "on_session (sftp_call (with_token token server_sftp) t (\<not> validSftpPath p \<or> \<not> validSftpPath q) operationTimeout
      (\<lambda>sftp. server_call ?effect)) c = Some (r, c')" unfolding ren .
  from call_effect [OF this] show ?thesis
    by (auto simp: effected_def server_files_def dest!: same_view split: if_splits option.splits)
qed

lemma client_open_read:
  assumes "sc_openFileForRead (server_client t) token p c = Some (r, c')"
  shows "server_files c' = server_files c \<and> (\<not> isl r \<longrightarrow> server_opened c' = Some (p, 0))"
proof -
  obtain r0 where run: "on_session (open_sftp_file (with_token token server_sftp) t p SftpOpenRead operationTimeout) c = Some (r0, c')" "isl r0 = isl r"
    using assms by (auto simp: libssh2SftpClient_def openSftpFileForRead_def dest!: ignore_value_result)
  have "effected (\<lambda>v. if sv_view v p = None then None else Some (v\<lparr>sv_open := Some (p, 0)\<rparr>)) (cn_world c) (isl r0) (cn_world c')"
    by (rule file_open_effect [OF run(1)]) (simp add: server_open_def)
  then show ?thesis using run(2)
    by (auto simp: effected_def server_files_def server_opened_def same_store_def sv_view_def split: if_splits)
qed

lemma client_open_write:
  assumes "on_session (open_sftp_file (with_token token server_sftp) t p (SftpOpenWrite exclusive False) operationTimeout) c = Some (r, c')"
  shows "(\<forall>q. q \<noteq> p \<longrightarrow> server_files c' q = server_files c q) \<and> (\<not> isl r \<longrightarrow> server_opened c' = Some (p, 0)
    \<and> server_files c' p = (case server_files c p of None \<Rightarrow> Some [] | Some contents \<Rightarrow> if exclusive then server_files c' p else Some contents)
    \<and> (exclusive \<longrightarrow> server_files c p = None))"
proof -
  let ?effect = "\<lambda>v. if exclusive \<and> sv_view v p \<noteq> None then None
      else Some ((if False \<or> sv_view v p = None then put_file p [] v else v)\<lparr>sv_open := Some (p, 0)\<rparr>)"
  have e: "effected ?effect (cn_world c) (isl r) (cn_world c')"
    by (rule file_open_effect [OF assms]) (simp add: server_open_def)
  then show ?thesis
    by (auto simp: effected_def server_files_def server_opened_def same_store_def sv_view_def put_file_def update_conv'
      split: if_splits option.splits)
qed

lemma client_seek:
  assumes "sc_seekFile (server_client t) n c = Some (r, c')" "server_opened c = Some (p, k)"
  shows "server_files c' = server_files c \<and> (\<not> isl r \<longrightarrow> server_opened c' = Some (p, unat n))"
  using assms by (auto simp: libssh2SftpClient_def on_session_def seekSftpFile_def server_files_def server_opened_def
    split: option.splits prod.splits)

lemma client_close:
  assumes "sc_closeFile (server_client t) token c = Some (r, c')" shows "server_files c' = server_files c"
proof -
  have "on_session (closeSftpFile (with_token token server_sftp) t operationTimeout) c = Some (r, c')"
    using assms by (simp add: libssh2SftpClient_def)
  then obtain s v where run: "closeSftpFile (with_token token server_sftp) t operationTimeout (cn_session c) (cn_world c) = Some (r, s, v)"
    and v: "cn_world c' = v" by (rule on_session_result)
  have closing: "keeps sv_files (\<lambda>w. sftp_step F (server_close h w))" for F h
    by (auto simp: server_close_def intro!: keeps_step server_call_keeps)
  have "sv_files v = sv_files (cn_world c)"
    using run unfolding closeSftpFile_def token_lib token_ops
    by (auto simp: dest!: checked_result looped_run session_loop_keeps [OF _ closing])
  then show ?thesis by (simp add: server_files_def sv_view_def v)
qed

lemma server_read_effect:
  assumes "server_read h capacity v = (x, v')"
  shows "(\<forall>code. x = Inl code \<longrightarrow> same_store v v') \<and> (\<forall>bs. x = Inr bs \<longrightarrow> sv_files v' = sv_files v
    \<and> (\<forall>p k contents. sv_open v = Some (p, k) \<longrightarrow> sv_view v p = Some contents \<longrightarrow> 0 < capacity \<longrightarrow>
        prefix bs (drop k contents) \<and> (bs = [] \<longrightarrow> drop k contents = []) \<and> sv_open v' = Some (p, k + length bs)))"
proof -
  obtain hc v1 where h: "next_hiccup v = (hc, v1)" by fastforce
  note same = hiccup_same [OF h]
  have fail: "same_store v (snd (fail_with c v1))" for c using same_trans [OF same] fail_same(1) by blast
  have inl: ?thesis if "x = Inl code" "v' = snd (fail_with c v1)" for code c
    using that fail by simp
  show ?thesis
  proof (cases "\<exists>n p k contents. hc = Part n \<and> sv_open v1 = Some (p, k) \<and> sv_view v1 p = Some contents \<and> h = 6")
    case True
    then obtain n p k contents where t: "hc = Part n" "sv_open v1 = Some (p, k)" "sv_view v1 p = Some contents" "h = 6" by blast
    let ?bs = "take (min capacity (max 1 n)) (drop k contents)"
    have "x = Inr ?bs" "v' = v1\<lparr>sv_open := Some (p, k + length ?bs)\<rparr>"
      using assms h t by (simp_all add: server_read_def Let_def)
    moreover have "sv_files v1 = sv_files v" "sv_open v = Some (p, k)" "sv_view v p = Some contents"
      using same t by (simp_all add: same_store_def sv_view_def)
    ultimately show ?thesis by (auto simp: take_is_prefix sv_view_def)
  next
    case False
    have "\<exists>c code. x = Inl code \<and> v' = snd (fail_with c v1)"
      using assms h False
      by (auto simp: server_read_def map_prod_def Let_def split: Hiccup.splits option.splits prod.splits if_splits) (metis prod.sel(2))+
    then show ?thesis using inl by blast
  qed
qed

lemma client_read:
  assumes "sc_readFile (server_client t) token capacity c = Some (taken, c')" "server_opened c = Some (p, k)" "0 < capacity"
  shows "server_files c' = server_files c \<and> (\<forall>bs contents. taken = Inr bs \<longrightarrow> server_files c p = Some contents \<longrightarrow>
    prefix bs (drop k contents) \<and> (bs = [] \<longrightarrow> drop k contents = []) \<and> server_opened c' = Some (p, k + length bs))"
proof -
  let ?F = "with_token token server_sftp"
  let ?v = "cn_world c"
  let ?Q = "\<lambda>r w. sv_files w = sv_files ?v \<and> (\<forall>bs contents. r = Inr bs \<longrightarrow> sv_view ?v p = Some contents \<longrightarrow>
    prefix bs (drop k contents) \<and> (bs = [] \<longrightarrow> drop k contents = []) \<and> sv_open w = Some (p, k + length bs))"
  have o: "sv_open ?v = Some (p, k)" using assms(2) by (simp add: server_opened_def)
  have "on_session (readSftpFile ?F t capacity operationTimeout) c = Some (taken, c')"
    using assms(1) by (simp add: libssh2SftpClient_def)
  then obtain s v where run: "readSftpFile ?F t capacity operationTimeout (cn_session c) ?v = Some (taken, s, v)"
    and v: "cn_world c' = v" by (rule on_session_result)
  have loop: "?Q r w" if "session_loop server_lib t (\<lambda>w. file_read_step ?F (server_read h capacity w)) ?v = Some (r, w)" for r w h
  proof (rule session_loop_rule [OF that, where I = "same_store ?v" and Q = ?Q])
    have call: "(\<forall>code. x = Inl code \<longrightarrow> same_store ?v b) \<and> (\<forall>bs. x = Inr bs \<longrightarrow> ?Q (Inr bs) b)"
      if "same_store ?v a" "server_read h capacity a = (x, b)" for a x b
      using server_read_effect [OF that(2)] that(1) o assms(3) by (auto simp: same_store_def sv_view_def)
    fix a b assume I: "same_store ?v a"
    note step = call [OF I, of "fst (server_read h capacity a)" "snd (server_read h capacity a)", simplified]
    show "same_store ?v b" if "file_read_step ?F (server_read h capacity a) = (StepAgain, b)"
      using that step by (auto simp: file_read_step_def split: prod.splits sum.splits if_splits)
    show "?Q (Inr bs) b" if "file_read_step ?F (server_read h capacity a) = (StepDone bs, b)" for bs
      using that step by (auto simp: file_read_step_def split: prod.splits sum.splits if_splits)
    show "?Q (Inl e) b" if "file_read_step ?F (server_read h capacity a) = (StepError e, b)" for e
      using that step by (auto simp: file_read_step_def same_store_def split: prod.splits sum.splits if_splits)
    show "same_store ?v (snd (waitForSessionIo server_lib t a))" using I wait_same same_trans by blast
    show "?Q (Inl e) a" for e using I by (simp add: same_store_def)
  qed simp
  have "?Q taken v"
    using run unfolding readSftpFile_def token_lib token_ops server_ops
    by (auto dest!: checked_result looped_run loop)
  then show ?thesis by (simp add: server_files_def server_opened_def sv_view_def v)
qed

text \<open>Writing: the bytes before \<open>rest\<close> have arrived.\<close>

definition arrived :: "SftpServer \<Rightarrow> string \<Rightarrow> nat \<Rightarrow> byte list \<Rightarrow> byte list \<Rightarrow> SftpServer \<Rightarrow> bool" where
  "arrived v p k bytes rest w \<longleftrightarrow> (\<forall>q. q \<noteq> p \<longrightarrow> sv_view w q = sv_view v q)
     \<and> (\<exists>d. bytes = d @ rest \<and> sv_open w = Some (p, k + length d)
          \<and> (\<forall>contents. sv_view v p = Some contents \<longrightarrow> length contents = k \<longrightarrow> sv_view w p = Some (contents @ d)))"

lemma arrived_same: "same_store w w' \<Longrightarrow> arrived v p k bytes rest w \<Longrightarrow> arrived v p k bytes rest w'"
  by (simp add: arrived_def same_store_def sv_view_def)

lemma server_write_effect:
  assumes "server_write h input w = (x, w')" "arrived v p k bytes input w"
  shows "(\<forall>code. x = Inl code \<longrightarrow> arrived v p k bytes input w') \<and> (\<forall>n. x = Inr n \<longrightarrow> arrived v p k bytes (drop n input) w')"
proof -
  obtain hc w1 where h: "next_hiccup w = (hc, w1)" by fastforce
  note same = hiccup_same [OF h]
  have w1: "arrived v p k bytes input w1" using arrived_same [OF same assms(2)] .
  have fail: "arrived v p k bytes input (snd (fail_with c w1))" for c using arrived_same [OF fail_same(1) w1] .
  have inl: ?thesis if "x = Inl code" "w' = snd (fail_with c w1)" for code c
    using that fail by simp
  obtain d where d: "bytes = d @ input" "sv_open w1 = Some (p, k + length d)" using w1 by (auto simp: arrived_def)
  show ?thesis
  proof (cases "\<exists>n contents. hc = Part n \<and> sv_view w1 p = Some contents \<and> h = 6")
    case True
    then obtain n contents where t: "hc = Part n" "sv_view w1 p = Some contents" "h = 6" by blast
    let ?bs = "take n input"
    have x: "x = Inr (length ?bs)" "w' = (put_file p (overwrite (k + length d) ?bs contents) w1)\<lparr>sv_open := Some (p, k + length d + length ?bs)\<rparr>"
      using assms(1) h t d(2) by (simp_all add: server_write_def Let_def)
    have "arrived v p k bytes (drop (length ?bs) input) w'"
    proof -
      have "bytes = (d @ ?bs) @ drop (length ?bs) input" using d(1) by (simp add: min_def)
      moreover have "\<forall>q. q \<noteq> p \<longrightarrow> sv_view w' q = sv_view v q" using w1 x(2) by (simp add: arrived_def)
      moreover have "sv_open w' = Some (p, k + length (d @ ?bs))" using x(2) by simp
      moreover have "sv_view w' p = Some (c @ d @ ?bs)" if "sv_view v p = Some c" "length c = k" for c
      proof -
        have "\<exists>d'. bytes = d' @ input \<and> sv_view w1 p = Some (c @ d')" using w1 that by (auto simp: arrived_def)
        then have "contents = c @ d" using d(1) t(2) by auto
        then show ?thesis using x(2) that(2) by (simp add: overwrite_def)
      qed
      ultimately show ?thesis unfolding arrived_def by (intro conjI exI [of _ "d @ ?bs"]) simp_all
    qed
    then show ?thesis using x(1) by simp
  next
    case False
    have "\<exists>c code. x = Inl code \<and> w' = snd (fail_with c w1)"
      using assms(1) h False d(2)
      by (auto simp: server_write_def map_prod_def Let_def split: Hiccup.splits option.splits prod.splits if_splits) (metis prod.sel(2))+
    then show ?thesis using inl by blast
  qed
qed

lemma client_write:
  assumes "sc_writeFile (server_client t) token bytes c = Some (r, c')" "server_opened c = Some (p, k)"
  shows "(\<forall>q. q \<noteq> p \<longrightarrow> server_files c' q = server_files c q)
    \<and> (\<forall>contents. \<not> isl r \<longrightarrow> server_files c p = Some contents \<longrightarrow> length contents = k \<longrightarrow>
        server_files c' p = Some (contents @ bytes) \<and> server_opened c' = Some (p, k + length bytes))"
proof -
  let ?F = "with_token token server_sftp" and ?v = "cn_world c"
  have o: "sv_open ?v = Some (p, k)" using assms(2) by (simp add: server_opened_def)
  have start: "arrived ?v p k bytes bytes ?v" using o by (simp add: arrived_def)
  have "on_session (writeSftpFile ?F t bytes operationTimeout) c = Some (r, c')"
    using assms(1) by (simp add: libssh2SftpClient_def)
  then obtain s v where run: "writeSftpFile ?F t bytes operationTimeout (cn_session c) ?v = Some (r, s, v)"
    and v: "cn_world c' = v" by (rule on_session_result)
  have loop: "\<exists>rest. arrived ?v p k bytes rest w \<and> (isl x \<or> rest = [])"
    if "write_loop server_lib t (server_write h) m bytes ?v = Some (x, w)" for x w h m
  proof (rule write_loop_rule [OF that, where I = "arrived ?v p k bytes"])
    show "arrived ?v p k bytes (drop n rest) b" if "arrived ?v p k bytes rest a" "server_write h rest a = (Inr n, b)" for rest a n b
      using server_write_effect [OF that(2,1)] by simp
    show "arrived ?v p k bytes rest b" if "arrived ?v p k bytes rest a" "server_write h rest a = (Inl code, b)" for rest a code b
      using server_write_effect [OF that(2,1)] by simp
    show "arrived ?v p k bytes rest (snd (waitForSessionIo server_lib t a))" if "arrived ?v p k bytes rest a" for rest a
      using arrived_same [OF wait_same that] .
  qed (rule start)
  have "\<exists>rest. arrived ?v p k bytes rest v \<and> (isl r \<or> rest = [])"
    using run start unfolding writeSftpFile_def token_lib token_ops server_ops
    by (auto simp: write_all_def dest!: checked_result loop)
  then show ?thesis unfolding arrived_def server_files_def server_opened_def v by auto
qed

interpretation server: sftp_files "libssh2SftpClient server_sftp t" server_files server_opened for t
proof
  fix token p c r c'
  assume "sc_openFileForWrite (libssh2SftpClient server_sftp t) token p False c = Some (r, c')"
  then obtain r0 where run: "on_session (open_sftp_file (with_token token server_sftp) t p (SftpOpenWrite True False) operationTimeout) c = Some (r0, c')"
    "isl r0 = isl r" by (auto simp: libssh2SftpClient_def openSftpFileForWrite_def dest!: ignore_value_result)
  from client_open_write [OF run(1)] run(2)
  show "(\<forall>q. q \<noteq> p \<longrightarrow> server_files c' q = server_files c q) \<and> (\<not> isl r \<longrightarrow> server_opened c' = Some (p, 0) \<and> server_files c' p = Some [])"
    by auto
next
  fix token p c r c'
  assume "sc_openFileForResume (libssh2SftpClient server_sftp t) token p c = Some (r, c')"
  then obtain r0 where run: "on_session (open_sftp_file (with_token token server_sftp) t p (SftpOpenWrite False False) operationTimeout) c = Some (r0, c')"
    "isl r0 = isl r" by (auto simp: libssh2SftpClient_def openSftpFileForWrite_def dest!: ignore_value_result)
  from client_open_write [OF run(1)] run(2)
  show "(\<forall>q. q \<noteq> p \<longrightarrow> server_files c' q = server_files c q)
      \<and> (\<not> isl r \<longrightarrow> server_opened c' = Some (p, 0) \<and> (server_files c p \<noteq> None \<longrightarrow> server_files c' p = server_files c p))"
    by (auto split: option.splits)
qed (fact client_stat_files client_remove client_open_read client_seek client_read client_write client_close client_rename)+

end
