(* ===== verification/Transfer_Delivery.thy ===== *)
theory Transfer_Delivery
  imports Sftp_Server
begin

text \<open>
  The properties of \<open>executeTransfer\<close>, for any client that keeps the contract \<open>sftp_files\<close>, and of the client
  over libssh2, which keeps it; with a client and local files in memory on which they are applied.
\<close>

section \<open>Properties\<close>




section \<open>An example\<close>
















text \<open>
  The check before a download is all there is: the commit replaces whatever is at the destination by then, so a
  local file that came to be during the download is lost without a question.  An upload would refuse.
\<close>

lemma download_overwrites_newcomer:
  assumes "\<not> xe_stop E x" "guard_close E WorkerToken True x = Some (Inr (), False, x1)"
    and "xe_commit E partial (tt_destinationPath task) (ex_local (close_output E x1)) = (True, l)"
  shows "\<exists>y. download_finish E task (tt_destinationPath task) partial n x
      = Some ((exec_result ResultCompleted n (tt_destinationPath task), False), y) \<and> ex_local y = l"
  using assms by (auto simp: download_finish_def on_local_def Let_def)

end
