(* ===== verification/Port_Forwarding.thy ===== *)
theory Port_Forwarding
  imports Socks5 Ssh_Channels Ssh_Bootstrap
begin

text \<open>
  Port forwarding: the rules of \<open>src/domain/forwarding/PortForwardingRule\<close> and the job of
  \<open>src/application/forwarding/PortForwardingJob\<close> that carries one of them out over an authenticated
  connection, local, remote or dynamic (SOCKS5).

  The job's worker is a state passed along: the session, the clients with their two byte queues, the
  counters, the snapshot and the list of the snapshots it published.  The sockets and the listener of the
  operating system are the parameters of \<open>ForwardEnv\<close>, on the same state \<open>'w\<close> as libssh2; a socket is a
  number.  A step whose loops may wait for ever gives an option.  Running out of memory is not modelled.
\<close>

section \<open>Rules\<close>

definition maximumPortForwardingRuleCount :: nat where "maximumPortForwardingRuleCount = 128"

definition maximumPortForwardingClientsPerRule :: nat where "maximumPortForwardingClientsPerRule = 32"

datatype PortForwardingType = LocalForwarding | RemoteForwarding | DynamicForwarding

record PortForwardingEndpoint =
  fp_host :: string
  fp_port :: u16

record PortForwardingRule =
  fr_id :: string
  fr_label :: string
  fr_profileId :: string
  fr_type :: PortForwardingType
  fr_bind :: PortForwardingEndpoint
  fr_destination :: PortForwardingEndpoint
  fr_autoStart :: bool

definition validForwardingText :: "string \<Rightarrow> nat \<Rightarrow> bool" where
  "validForwardingText value maximumBytes \<longleftrightarrow> value \<noteq> [] \<and> length value \<le> maximumBytes
     \<and> list_all (\<lambda>c. \<not> ((of_char c :: nat) < 0x20 \<or> (of_char c :: nat) = 0x7F)) value"

definition validForwardingEndpoint :: "PortForwardingEndpoint \<Rightarrow> bool" where
  "validForwardingEndpoint e \<longleftrightarrow> validForwardingText (fp_host e) 255 \<and> fp_port e \<noteq> 0
     \<and> list_all (\<lambda>c. c \<noteq> CHR '' '' \<and> c \<noteq> CHR 0x09) (fp_host e)"

definition validPortForwardingRule :: "PortForwardingRule \<Rightarrow> bool" where
  "validPortForwardingRule rule =
     (if \<not> validForwardingText (fr_id rule) 128 \<or> \<not> validForwardingText (fr_label rule) 128
       \<or> \<not> validForwardingText (fr_profileId rule) 128 \<or> \<not> validForwardingEndpoint (fr_bind rule) then False
      else if fr_type rule = DynamicForwarding
      then fp_host (fr_destination rule) = [] \<and> fp_port (fr_destination rule) = 0
      else validForwardingEndpoint (fr_destination rule))"

fun forwarding_rules_loop :: "PortForwardingRule list \<Rightarrow> bool" where
  "forwarding_rules_loop [] = True"
| "forwarding_rules_loop (rule # rest) =
     (if \<not> validPortForwardingRule rule then False
      else if find (\<lambda>r. fr_id r = fr_id rule) rest \<noteq> None then False
      else forwarding_rules_loop rest)"

definition validPortForwardingRules :: "PortForwardingRule list \<Rightarrow> bool" where
  "validPortForwardingRules rules =
     (if length rules > maximumPortForwardingRuleCount then False else forwarding_rules_loop rules)"

definition portForwardingRulesReferenceProfile :: "PortForwardingRule list \<Rightarrow> string \<Rightarrow> bool" where
  "portForwardingRulesReferenceProfile rules profileId = list_ex (\<lambda>r. fr_profileId r = profileId) rules"

definition findPortForwardingRule :: "PortForwardingRule list \<Rightarrow> string \<Rightarrow> PortForwardingRule option" where
  "findPortForwardingRule rules i = find (\<lambda>r. fr_id r = i) rules"

section \<open>The job's state\<close>

datatype PortForwardingJobState = JobStopped | JobStarting | JobRunning | JobFailed

datatype PortForwardingJobFailure =
  NoJobFailure | ConnectionFailed | ListenerFailed | RemoteListenerFailed | TransportFailed | JobResourceLimit

datatype PortForwardingJobStartError = InvalidForwarding | ForwardingAlreadyRunning | ForwardingWorkerUnavailable

record PortForwardingJobSnapshot =
  pj_state :: PortForwardingJobState
  pj_failure :: PortForwardingJobFailure
  pj_activeClients :: nat
  pj_bytesFromClients :: u64
  pj_bytesToClients :: u64
  pj_rejectedClients :: u64

record ForwardingClient =
  fc_socket :: nat
  fc_channel :: "u64 option"
  fc_socksHandshake :: "Socks5Handshake option"
  fc_toRemote :: ByteQueue
  fc_toClient :: ByteQueue
  fc_clientReadClosed :: bool
  fc_clientWriteClosed :: bool
  fc_channelEofSent :: bool
  fc_closeAfterWrite :: bool

definition empty_queue :: ByteQueue where "empty_queue = \<lparr>bq_bytes = [], bq_offset = 0\<rparr>"

definition new_client :: "nat \<Rightarrow> ForwardingClient" where
  "new_client k = \<lparr>fc_socket = k, fc_channel = None, fc_socksHandshake = None, fc_toRemote = empty_queue,
     fc_toClient = empty_queue, fc_clientReadClosed = False, fc_clientWriteClosed = False,
     fc_channelEofSent = False, fc_closeAfterWrite = False\<rparr>"

record 'w ForwardState =
  fs_session :: Libssh2Session
  fs_clients :: "ForwardingClient list"
  fs_bytesFromClients :: u64
  fs_bytesToClients :: u64
  fs_rejectedClients :: u64
  fs_publishedClientCount :: nat
  fs_nextCounterPublish :: int
  fs_snapshot :: PortForwardingJobSnapshot
  fs_published :: "PortForwardingJobSnapshot list"
  fs_world :: 'w

record 'w ForwardEnv =
  fe_channels :: "'w LibChannels"
  fe_wait :: "nat \<Rightarrow> SocketIoInterest \<Rightarrow> 'w \<Rightarrow> (SshByteTransportError + unit) \<times> 'w"
  fe_clock :: "'w \<Rightarrow> int"
  sock_read :: "nat \<Rightarrow> nat \<Rightarrow> 'w \<Rightarrow> (SshByteTransportError + byte list) \<times> 'w"
  sock_write :: "nat \<Rightarrow> byte list \<Rightarrow> 'w \<Rightarrow> (SshByteTransportError + nat) \<times> 'w"
  sock_shutdownWrite :: "nat \<Rightarrow> 'w \<Rightarrow> (SshByteTransportError + unit) \<times> 'w"
  sock_close :: "nat \<Rightarrow> 'w \<Rightarrow> 'w"
  tcp_listen :: "string \<Rightarrow> u16 \<Rightarrow> nat \<Rightarrow> 'w \<Rightarrow> nat option \<times> 'w"
  tcp_accept :: "nat \<Rightarrow> 'w \<Rightarrow> nat option option \<times> 'w"
  tcp_connect :: "string \<Rightarrow> u16 \<Rightarrow> int \<Rightarrow> 'w \<Rightarrow> (TcpConnectErrorKind + nat) \<times> 'w"

text \<open>The channel operations called without a stop token, as in \<open>closeClient\<close>.\<close>

definition without_token :: "'w ForwardEnv \<Rightarrow> 'w LibChannels" where
  "without_token E = (fe_channels E)\<lparr>lc_lib := (lc_lib (fe_channels E))\<lparr>stop_requested := (\<lambda>w. False), tr_wait := fe_wait E\<rparr>\<rparr>"

definition transferBytes :: nat where "transferBytes = 32 * 1024"

definition channelOperationTimeout :: int where "channelOperationTimeout = 3000"

text \<open>A step of one client: whether it is kept, the client and the state after it.\<close>

type_synonym 'w client_step = "ForwardingClient \<Rightarrow> 'w ForwardState \<Rightarrow> (bool \<times> ForwardingClient \<times> 'w ForwardState) option"

section \<open>Moving bytes\<close>

definition rejectSocksClient ::
  "'w ForwardEnv \<Rightarrow> Socks5ReplyCode \<Rightarrow> ForwardingClient \<Rightarrow> 'w ForwardState \<Rightarrow> ForwardingClient \<times> 'w ForwardState" where
  "rejectSocksClient E replyCode client st =
     (case bq_append (s5_reply replyCode) (fc_toClient client) of (q, ok) \<Rightarrow>
        (client\<lparr>fc_toClient := q, fc_clientReadClosed := True, fc_closeAfterWrite := True\<rparr>,
         if ok then st else st\<lparr>fs_world := sock_close E (fc_socket client) (fs_world st)\<rparr>))"

text \<open>
  Writing a queue until it is empty or the other side would block; \<open>False\<close> is an error or a write of
  nothing.  \<open>total\<close> adds up what was written.
\<close>

lemma bq_consume_less: "bq_size q \<noteq> 0 \<Longrightarrow> n \<noteq> 0 \<Longrightarrow> bq_size (bq_consume n q) < bq_size q"
  by (auto simp: bq_consume_def bq_size_def Let_def)

function drain_loop ::
  "(byte list \<Rightarrow> 'w \<Rightarrow> (SshByteTransportError + nat) \<times> 'w) \<Rightarrow> ByteQueue \<Rightarrow> u64 \<Rightarrow> 'w \<Rightarrow> bool \<times> ByteQueue \<times> u64 \<times> 'w" where
  "drain_loop write_some q written w =
     (if bq_size q = 0 then (True, q, written, w)
      else case write_some (bq_view q) w of
        (Inr n, w') \<Rightarrow>
          if n = 0 then (False, q, written, w')
          else drain_loop write_some (bq_consume n q) (written + of_nat n) w'
      | (Inl e, w') \<Rightarrow> (te_kind e = WouldBlock, q, written, w'))"
  by pat_completeness auto
termination by (relation "measure (\<lambda>(f, q, t, w). bq_size q)") (auto simp: bq_consume_less)

declare drain_loop.simps [simp del]

definition flushClientOutput :: "'w ForwardEnv \<Rightarrow> ForwardingClient \<Rightarrow> 'w ForwardState \<Rightarrow> bool \<times> ForwardingClient \<times> 'w ForwardState" where
  "flushClientOutput E client st =
     (case drain_loop (sock_write E (fc_socket client)) (fc_toClient client) (fs_bytesToClients st) (fs_world st) of
        (ok, q, n, w) \<Rightarrow> (ok, client\<lparr>fc_toClient := q\<rparr>, st\<lparr>fs_bytesToClients := n, fs_world := w\<rparr>))"

text \<open>The client's bytes: one read, unless it has closed or the queue is full.\<close>

definition read_client :: "'w ForwardEnv \<Rightarrow> ForwardingClient \<Rightarrow> 'w ForwardState \<Rightarrow> bool \<times> ForwardingClient \<times> 'w ForwardState" where
  "read_client E client st =
     (if fc_clientReadClosed client \<or> bq_size (fc_toRemote client) \<ge> maximumBufferedBytesPerDirection then (True, client, st)
      else case sock_read E (fc_socket client) transferBytes (fs_world st) of
        (Inr bytes, w) \<Rightarrow>
          if bytes = [] then (True, client\<lparr>fc_clientReadClosed := True\<rparr>, st\<lparr>fs_world := w\<rparr>)
          else (case bq_append bytes (fc_toRemote client) of
                  (q, False) \<Rightarrow> (False, client\<lparr>fc_toRemote := q\<rparr>, st\<lparr>fs_world := w\<rparr>)
                | (q, True) \<Rightarrow> (True, client\<lparr>fc_toRemote := q\<rparr>,
                    st\<lparr>fs_world := w, fs_bytesFromClients := fs_bytesFromClients st + of_nat (length bytes)\<rparr>))
      | (Inl e, w) \<Rightarrow>
          (te_kind e = TransportClosed \<or> te_kind e = WouldBlock,
           if te_kind e = TransportClosed then client\<lparr>fc_clientReadClosed := True\<rparr> else client, st\<lparr>fs_world := w\<rparr>))"

definition write_remote ::
  "'w ForwardEnv \<Rightarrow> u64 \<Rightarrow> ForwardingClient \<Rightarrow> 'w ForwardState \<Rightarrow> bool \<times> ForwardingClient \<times> 'w ForwardState" where
  "write_remote E i client st =
     (case drain_loop (\<lambda>bytes. writeForwardingChannel (fe_channels E) i bytes (fs_session st)) (fc_toRemote client) 0 (fs_world st) of
        (ok, q, n, w) \<Rightarrow> (ok, client\<lparr>fc_toRemote := q\<rparr>, st\<lparr>fs_world := w\<rparr>))"

definition send_remote_eof :: "'w ForwardEnv \<Rightarrow> nat \<Rightarrow> u64 \<Rightarrow> 'w client_step" where
  "send_remote_eof E transport i client st =
     (if fc_clientReadClosed client \<and> bq_size (fc_toRemote client) = 0 \<and> \<not> fc_channelEofSent client
      then (case sendForwardingChannelEof (fe_channels E) transport i 100 (fs_session st) (fs_world st) of
              None \<Rightarrow> None
            | Some (Inr _, s, w) \<Rightarrow> Some (True, client\<lparr>fc_channelEofSent := True\<rparr>, st\<lparr>fs_session := s, fs_world := w\<rparr>)
            | Some (Inl e, s, w) \<Rightarrow> Some (se_kind e = TransportTimedOut, client, st\<lparr>fs_session := s, fs_world := w\<rparr>))
      else Some (True, client, st))"

text \<open>The remote side's bytes: reads until there are none, an error or a full queue.\<close>

lemma bq_append_size: "bq_append bytes q = (q', True) \<Longrightarrow> bq_size q' = bq_size q + length bytes"
  by (auto simp: bq_append_def bq_compact_def bq_size_def Let_def split: if_splits)

function fill_loop ::
  "('w \<Rightarrow> (SshByteTransportError + byte list) \<times> 'w) \<Rightarrow> ByteQueue \<Rightarrow> 'w \<Rightarrow> bool \<times> ByteQueue \<times> 'w" where
  "fill_loop read_some q w =
     (if bq_size q \<ge> maximumBufferedBytesPerDirection then (True, q, w)
      else case read_some w of
        (Inr bytes, w') \<Rightarrow>
          if bytes = [] then (True, q, w')
          else (case bq_append bytes q of
                  (q', ok) \<Rightarrow> if ok then fill_loop read_some q' w' else (False, q', w'))
      | (Inl e, w') \<Rightarrow> (te_kind e = WouldBlock \<or> te_kind e = TransportClosed, q, w'))"
  by pat_completeness auto
termination
  by (relation "measure (\<lambda>(f, q, w). maximumBufferedBytesPerDirection - bq_size q)")
    (auto simp: bq_append_size intro!: diff_less_mono2)

declare fill_loop.simps [simp del]

definition read_remote ::
  "'w ForwardEnv \<Rightarrow> u64 \<Rightarrow> ForwardingClient \<Rightarrow> 'w ForwardState \<Rightarrow> bool \<times> ForwardingClient \<times> 'w ForwardState" where
  "read_remote E i client st =
     (case fill_loop (readForwardingChannel (fe_channels E) i transferBytes (fs_session st)) (fc_toClient client) (fs_world st) of
        (ok, q, w) \<Rightarrow> (ok, client\<lparr>fc_toClient := q\<rparr>, st\<lparr>fs_world := w\<rparr>))"

definition shutdown_client ::
  "'w ForwardEnv \<Rightarrow> u64 \<Rightarrow> ForwardingClient \<Rightarrow> 'w ForwardState \<Rightarrow> bool \<times> ForwardingClient \<times> 'w ForwardState" where
  "shutdown_client E i client st =
     (if forwardingChannelEof (fe_channels E) i (fs_session st) (fs_world st) \<and> bq_size (fc_toClient client) = 0
         \<and> \<not> fc_clientWriteClosed client
      then (case sock_shutdownWrite E (fc_socket client) (fs_world st) of
              (Inl e, w) \<Rightarrow>
                if te_kind e \<noteq> TransportClosed then (False, client, st\<lparr>fs_world := w\<rparr>)
                else (True, client\<lparr>fc_clientWriteClosed := True\<rparr>, st\<lparr>fs_world := w\<rparr>)
            | (Inr _, w) \<Rightarrow> (True, client\<lparr>fc_clientWriteClosed := True\<rparr>, st\<lparr>fs_world := w\<rparr>))
      else (True, client, st))"

text \<open>Steps one after the other: the first that does not keep the client ends the turn.\<close>

definition then_step :: "'w client_step \<Rightarrow> 'w client_step \<Rightarrow> 'w client_step" where
  "then_step f g client st =
     (case f client st of
        None \<Rightarrow> None
      | Some (keep, client', st') \<Rightarrow> if keep then g client' st' else Some (False, client', st'))"

definition total_step :: "(ForwardingClient \<Rightarrow> 'w ForwardState \<Rightarrow> bool \<times> ForwardingClient \<times> 'w ForwardState) \<Rightarrow> 'w client_step" where
  "total_step f client st = Some (f client st)"

definition client_finished :: "ForwardingClient \<Rightarrow> bool" where
  "client_finished client \<longleftrightarrow> fc_clientReadClosed client \<and> fc_clientWriteClosed client
     \<and> bq_size (fc_toRemote client) = 0 \<and> bq_size (fc_toClient client) = 0"

definition pumpEstablishedClient :: "'w ForwardEnv \<Rightarrow> nat \<Rightarrow> u64 \<Rightarrow> 'w client_step" where
  "pumpEstablishedClient E transport i =
     then_step (total_step (read_client E))
    (then_step (total_step (write_remote E i))
    (then_step (send_remote_eof E transport i)
    (then_step (total_step (read_remote E i))
    (then_step (total_step (flushClientOutput E))
    (then_step (total_step (shutdown_client E i))
       (\<lambda>client st. Some (\<not> client_finished client, client, st)))))))"

definition closeClient :: "'w ForwardEnv \<Rightarrow> nat \<Rightarrow> ForwardingClient \<Rightarrow> 'w ForwardState \<Rightarrow> 'w ForwardState option" where
  "closeClient E transport client st =
     (case fc_channel client of
        None \<Rightarrow> Some (st\<lparr>fs_world := sock_close E (fc_socket client) (fs_world st)\<rparr>)
      | Some i \<Rightarrow>
          (case closeForwardingChannel (without_token E) transport i 100 (fs_session st) (fs_world st) of
             None \<Rightarrow> None
           | Some (_, s, w) \<Rightarrow> Some (st\<lparr>fs_session := s, fs_world := sock_close E (fc_socket client) w\<rparr>)))"

section \<open>The SOCKS handshake of a client\<close>

definition reject_client :: "'w ForwardEnv \<Rightarrow> Socks5ReplyCode \<Rightarrow> 'w client_step" where
  "reject_client E replyCode client st =
     (case rejectSocksClient E replyCode client (st\<lparr>fs_rejectedClients := fs_rejectedClients st + 1\<rparr>) of
        (client', st') \<Rightarrow> Some (True, client', st'))"

definition connect_destination ::
  "'w ForwardEnv \<Rightarrow> nat \<Rightarrow> Socks5Destination \<Rightarrow> byte list \<Rightarrow> 'w client_step" where
  "connect_destination E transport destination remaining client st =
     (case openForwardingChannel (fe_channels E) transport (sd_host destination) (sd_port destination) localhost 0
             channelOperationTimeout (fs_session st) (fs_world st) of
        None \<Rightarrow> None
      | Some (Inl e, s, w) \<Rightarrow> reject_client E Socks5ReplyCode.HostUnreachable client (st\<lparr>fs_session := s, fs_world := w\<rparr>)
      | Some (Inr i, s, w) \<Rightarrow>
          (case bq_append (s5_reply Succeeded) (fc_toClient client) of (toClient, ok) \<Rightarrow>
           case (if ok then bq_append remaining (fc_toRemote client) else (fc_toRemote client, False)) of (toRemote, ok') \<Rightarrow>
             Some (ok', client\<lparr>fc_channel := Some i, fc_socksHandshake := None, fc_toClient := toClient, fc_toRemote := toRemote\<rparr>,
                   st\<lparr>fs_session := s, fs_world := w\<rparr>)))"

lemma selection_ends:
  assumes "(h', c) = s5_consume [] h" "\<not> isl c" "sr_status (projr c) = SendMethodSelection"
  shows "sh_state h = Greeting \<and> sh_state h' = Request"
proof -
  obtain r where r: "s5_consume [] h = (h', Inr r)" "sr_status r = SendMethodSelection" 
    using assms(2,3) assms(1) [symmetric] by (cases c) auto
  have "sh_state h \<noteq> Complete" "sh_state h \<noteq> Socks5State.Failed" using r(1) by (auto simp: s5_consume_def)
  moreover have "sh_state h \<noteq> Request" using s5_request_no_selection [OF r(1)] r(2) by blast
  ultimately have "sh_state h = Greeting" by (cases "sh_state h") simp_all
  then show ?thesis using s5_selection_state [OF r] by simp
qed

text \<open>The \<open>while (true)\<close> of \<open>completeSocksHandshake\<close>, after a \<open>consume\<close> of the handshake \<open>h\<close>.\<close>

function handshake_rounds ::
  "'w ForwardEnv \<Rightarrow> nat \<Rightarrow> Socks5Handshake \<Rightarrow> Socks5ProtocolError + Socks5HandshakeResult \<Rightarrow> 'w client_step" where
  "handshake_rounds E transport h consumed client0 st =
     (let client = client0\<lparr>fc_socksHandshake := Some h\<rparr> in
      case consumed of
        Inl e \<Rightarrow> reject_client E GeneralFailure client st
      | Inr r \<Rightarrow>
          (case (if sr_response r = [] then (fc_toClient client, True) else bq_append (sr_response r) (fc_toClient client)) of
             (q, ok) \<Rightarrow>
             if \<not> ok then Some (False, client, st)
             else let client = client\<lparr>fc_toClient := q\<rparr> in
               case sr_status r of
                 Rejected \<Rightarrow> Some (True, client\<lparr>fc_clientReadClosed := True, fc_closeAfterWrite := True\<rparr>,
                                   st\<lparr>fs_rejectedClients := fs_rejectedClients st + 1\<rparr>)
               | DestinationReady \<Rightarrow>
                   (case sr_destination r of
                      None \<Rightarrow> reject_client E GeneralFailure client st
                    | Some destination \<Rightarrow> connect_destination E transport destination (sr_remainingData r) client st)
               | NeedMore \<Rightarrow> Some (True, client, st)
               | SendMethodSelection \<Rightarrow>
                   (case s5_consume [] h of (h', consumed') \<Rightarrow> handshake_rounds E transport h' consumed' client st)))"
  by pat_completeness auto
termination
proof (relation "measure (\<lambda>(E, t, h, c, client, st).
    if \<not> isl c \<and> sr_status (projr c) = SendMethodSelection then (if sh_state h = Greeting then 2 else 1) else 0)", goal_cases)
  case 1
  then show ?case by simp
next
  case 2
  then show ?case by (auto dest: selection_ends)
qed

declare handshake_rounds.simps [simp del]

definition completeSocksHandshake :: "'w ForwardEnv \<Rightarrow> nat \<Rightarrow> 'w client_step" where
  "completeSocksHandshake E transport client st =
     (case sock_read E (fc_socket client) 1024 (fs_world st) of
        (Inl e, w) \<Rightarrow> Some (te_kind e = WouldBlock, client, st\<lparr>fs_world := w\<rparr>)
      | (Inr bytes, w) \<Rightarrow>
          if bytes = [] then Some (False, client, st\<lparr>fs_world := w\<rparr>)
          else (case fc_socksHandshake client of
                  None \<Rightarrow> Some (False, client, st\<lparr>fs_world := w\<rparr>)
                | Some handshake \<Rightarrow>
                    (case s5_consume bytes handshake of (h, consumed) \<Rightarrow>
                       handshake_rounds E transport h consumed client (st\<lparr>fs_world := w\<rparr>))))"

section \<open>All the clients\<close>

definition process_client :: "'w ForwardEnv \<Rightarrow> nat \<Rightarrow> 'w client_step" where
  "process_client E transport client st =
     (if fc_socksHandshake client \<noteq> None
      then then_step (completeSocksHandshake E transport)
          (then_step (total_step (flushClientOutput E))
             (\<lambda>client st. Some (\<not> (fc_closeAfterWrite client \<and> bq_size (fc_toClient client) = 0), client, st))) client st
      else case fc_channel client of
        Some i \<Rightarrow> pumpEstablishedClient E transport i client st
      | None \<Rightarrow> Some (True, client, st))"

fun process_loop ::
  "'w ForwardEnv \<Rightarrow> nat \<Rightarrow> ForwardingClient list \<Rightarrow> 'w ForwardState \<Rightarrow> (ForwardingClient list \<times> 'w ForwardState) option" where
  "process_loop E transport [] st = Some ([], st)"
| "process_loop E transport (client # rest) st =
     (case process_client E transport client st of
        None \<Rightarrow> None
      | Some (keep, client', st') \<Rightarrow>
          (case (if keep then Some st' else closeClient E transport client' st') of
             None \<Rightarrow> None
           | Some st'' \<Rightarrow>
               map_option (\<lambda>(kept, st'''). (if keep then client' # kept else kept, st''')) (process_loop E transport rest st'')))"

definition processClients :: "'w ForwardEnv \<Rightarrow> nat \<Rightarrow> 'w ForwardState \<Rightarrow> 'w ForwardState option" where
  "processClients E transport st =
     map_option (\<lambda>(kept, st'). st'\<lparr>fs_clients := kept\<rparr>) (process_loop E transport (fs_clients st) st)"

fun close_all :: "'w ForwardEnv \<Rightarrow> nat \<Rightarrow> ForwardingClient list \<Rightarrow> 'w ForwardState \<Rightarrow> 'w ForwardState option" where
  "close_all E transport [] st = Some st"
| "close_all E transport (client # rest) st =
     (case closeClient E transport client st of None \<Rightarrow> None | Some st' \<Rightarrow> close_all E transport rest st')"

section \<open>The worker\<close>

definition publish_snapshot :: "(PortForwardingJobSnapshot \<Rightarrow> PortForwardingJobSnapshot) \<Rightarrow> 'w ForwardState \<Rightarrow> 'w ForwardState" where
  "publish_snapshot f st =
     st\<lparr>fs_snapshot := f (fs_snapshot st), fs_published := fs_published st @ [f (fs_snapshot st)]\<rparr>"

definition publish_state :: "PortForwardingJobState \<Rightarrow> PortForwardingJobFailure \<Rightarrow> 'w ForwardState \<Rightarrow> 'w ForwardState" where
  "publish_state state failure =
     publish_snapshot (\<lambda>p. p\<lparr>pj_state := state, pj_failure := failure,
       pj_activeClients := (if state \<noteq> JobRunning then 0 else pj_activeClients p)\<rparr>)"

definition publishCounters :: "nat \<Rightarrow> 'w ForwardState \<Rightarrow> 'w ForwardState" where
  "publishCounters activeClients = publish_snapshot (\<lambda>p. p\<lparr>pj_activeClients := activeClients\<rparr>)"

datatype ForwardListener = LocalListener nat | RemoteListener u64 u16

text \<open>
  Accepting clients while there is room: \<open>False\<close> when the listener failed.  A client whose channel or
  connection cannot be opened is counted as rejected and the next one is accepted.
\<close>

definition accept_one_local ::
  "'w ForwardEnv \<Rightarrow> nat \<Rightarrow> PortForwardingRule \<Rightarrow> nat \<Rightarrow> 'w ForwardState \<Rightarrow> 'w ForwardState option" where
  "accept_one_local E transport rule k st =
     (if fr_type rule = DynamicForwarding
      then Some (st\<lparr>fs_clients := fs_clients st @ [(new_client k)\<lparr>fc_socksHandshake := Some s5_init\<rparr>]\<rparr>)
      else case openForwardingChannel (fe_channels E) transport (fp_host (fr_destination rule)) (fp_port (fr_destination rule))
             localhost 0 channelOperationTimeout (fs_session st) (fs_world st) of
        None \<Rightarrow> None
      | Some (Inl e, s, w) \<Rightarrow> Some (st\<lparr>fs_session := s, fs_world := sock_close E k w, fs_rejectedClients := fs_rejectedClients st + 1\<rparr>)
      | Some (Inr i, s, w) \<Rightarrow> Some (st\<lparr>fs_session := s, fs_world := w,
          fs_clients := fs_clients st @ [(new_client k)\<lparr>fc_channel := Some i\<rparr>]\<rparr>))"

definition accept_one_remote ::
  "'w ForwardEnv \<Rightarrow> nat \<Rightarrow> PortForwardingRule \<Rightarrow> u64 \<Rightarrow> 'w ForwardState \<Rightarrow> 'w ForwardState option" where
  "accept_one_remote E transport rule i st =
     (case tcp_connect E (fp_host (fr_destination rule)) (fp_port (fr_destination rule)) channelOperationTimeout (fs_world st) of
        (Inl e, w) \<Rightarrow>
          (case closeForwardingChannel (fe_channels E) transport i 100 (fs_session st) w of
             None \<Rightarrow> None
           | Some (_, s, w') \<Rightarrow> Some (st\<lparr>fs_session := s, fs_world := w', fs_rejectedClients := fs_rejectedClients st + 1\<rparr>))
      | (Inr k, w) \<Rightarrow> Some (st\<lparr>fs_world := w, fs_clients := fs_clients st @ [(new_client k)\<lparr>fc_channel := Some i\<rparr>]\<rparr>))"

text \<open>The next client of the listener: a failure, none, or the state with the client added or rejected.\<close>

datatype 'w AcceptTurn = AcceptFailed "'w ForwardState" | AcceptNone "'w ForwardState" | AcceptMore "'w ForwardState"

definition accept_turn ::
  "'w ForwardEnv \<Rightarrow> nat \<Rightarrow> PortForwardingRule \<Rightarrow> ForwardListener \<Rightarrow> 'w ForwardState \<Rightarrow> 'w AcceptTurn option" where
  "accept_turn E transport rule listener st =
     (case listener of
        LocalListener l \<Rightarrow>
          (case tcp_accept E l (fs_world st) of
             (None, w) \<Rightarrow> Some (AcceptFailed (st\<lparr>fs_world := w\<rparr>))
           | (Some None, w) \<Rightarrow> Some (AcceptNone (st\<lparr>fs_world := w\<rparr>))
           | (Some (Some k), w) \<Rightarrow> map_option AcceptMore (accept_one_local E transport rule k (st\<lparr>fs_world := w\<rparr>)))
      | RemoteListener i boundPort \<Rightarrow>
          (case acceptRemoteForwardingChannel (fe_channels E) i boundPort (fs_session st) (fs_world st) of
             (Inl e, s, w) \<Rightarrow> Some (AcceptFailed (st\<lparr>fs_session := s, fs_world := w\<rparr>))
           | (Inr None, s, w) \<Rightarrow> Some (AcceptNone (st\<lparr>fs_session := s, fs_world := w\<rparr>))
           | (Inr (Some c), s, w) \<Rightarrow>
               map_option AcceptMore (accept_one_remote E transport rule c (st\<lparr>fs_session := s, fs_world := w\<rparr>))))"

partial_function (option) accept_loop ::
  "'w ForwardEnv \<Rightarrow> nat \<Rightarrow> PortForwardingRule \<Rightarrow> ForwardListener \<Rightarrow> 'w ForwardState \<Rightarrow> (bool \<times> 'w ForwardState) option" where
  "accept_loop E transport rule listener st =
     (if length (fs_clients st) \<ge> maximumPortForwardingClientsPerRule then Some (True, st)
      else case accept_turn E transport rule listener st of
        None \<Rightarrow> None
      | Some (AcceptFailed st') \<Rightarrow> Some (False, st')
      | Some (AcceptNone st') \<Rightarrow> Some (True, st')
      | Some (AcceptMore st') \<Rightarrow> accept_loop E transport rule listener st')"

definition copy_counters :: "'w ForwardState \<Rightarrow> 'w ForwardState" where
  "copy_counters st = st\<lparr>fs_snapshot := (fs_snapshot st)\<lparr>pj_bytesFromClients := fs_bytesFromClients st,
     pj_bytesToClients := fs_bytesToClients st, pj_rejectedClients := fs_rejectedClients st\<rparr>\<rparr>"

definition publish_due :: "'w ForwardEnv \<Rightarrow> 'w ForwardState \<Rightarrow> 'w ForwardState" where
  "publish_due E st =
     (if length (fs_clients st) \<noteq> fs_publishedClientCount st \<or> fe_clock E (fs_world st) \<ge> fs_nextCounterPublish st
      then (publishCounters (length (fs_clients st)) st)\<lparr>fs_publishedClientCount := length (fs_clients st),
             fs_nextCounterPublish := fe_clock E (fs_world st) + 250\<rparr>
      else st)"

text \<open>All clients are closed and the state is published: every end of a running job.\<close>

definition end_job ::
  "'w ForwardEnv \<Rightarrow> nat \<Rightarrow> PortForwardingJobState \<Rightarrow> PortForwardingJobFailure \<Rightarrow> 'w ForwardState \<Rightarrow> 'w ForwardState option" where
  "end_job E transport state failure st =
     map_option (publish_state state failure) (close_all E transport (fs_clients st) st)"

text \<open>One turn of the main loop: \<open>Inl\<close> when the job has ended, \<open>Inr\<close> to go on.\<close>

definition job_turn ::
  "'w ForwardEnv \<Rightarrow> nat \<Rightarrow> PortForwardingRule \<Rightarrow> ForwardListener \<Rightarrow> 'w ForwardState
    \<Rightarrow> ('w ForwardState + 'w ForwardState) option" where
  "job_turn E transport rule listener st0 =
     (case accept_loop E transport rule listener st0 of
        None \<Rightarrow> None
      | Some (accepted, st) \<Rightarrow>
          if \<not> accepted
          then map_option Inl (end_job E transport JobFailed
                 (case listener of LocalListener l \<Rightarrow> ListenerFailed | RemoteListener i p \<Rightarrow> RemoteListenerFailed) st)
          else (case processClients E transport st of
                  None \<Rightarrow> None
                | Some st1 \<Rightarrow>
                    let st2 = publish_due E (copy_counters st1) in
                    (case waitForwardingIo (fe_channels E) transport (fs_session st2) (fs_world st2) of
                       (waited, w) \<Rightarrow>
                         let st3 = st2\<lparr>fs_world := w\<rparr> in
                         if isl waited \<and> te_kind (projl waited) \<noteq> WaitTimedOut \<and> te_kind (projl waited) \<noteq> WouldBlock
                            \<and> te_kind (projl waited) \<noteq> WaitCancelled
                         then map_option Inl (end_job E transport JobFailed TransportFailed st3)
                         else Some (Inr st3))))"

definition stop_job :: "'w ForwardEnv \<Rightarrow> nat \<Rightarrow> ForwardListener \<Rightarrow> 'w ForwardState \<Rightarrow> 'w ForwardState option" where
  "stop_job E transport listener st =
     (case close_all E transport (fs_clients st) st of
        None \<Rightarrow> None
      | Some st1 \<Rightarrow>
          map_option (publish_state JobStopped NoJobFailure)
            (case listener of
               LocalListener l \<Rightarrow> Some st1
             | RemoteListener i p \<Rightarrow>
                 (case closeRemoteForwardListener (without_token E) transport i 100 (fs_session st1) (fs_world st1) of
                    None \<Rightarrow> None
                  | Some (_, s, w) \<Rightarrow> Some (st1\<lparr>fs_session := s, fs_world := w\<rparr>))))"

partial_function (option) job_loop ::
  "'w ForwardEnv \<Rightarrow> nat \<Rightarrow> PortForwardingRule \<Rightarrow> ForwardListener \<Rightarrow> 'w ForwardState \<Rightarrow> 'w ForwardState option" where
  "job_loop E transport rule listener st =
     (if stop_requested (lc_lib (fe_channels E)) (fs_world st) then stop_job E transport listener st
      else case job_turn E transport rule listener st of
        None \<Rightarrow> None
      | Some (Inl st') \<Rightarrow> Some st'
      | Some (Inr st') \<Rightarrow> job_loop E transport rule listener st')"

definition open_listener ::
  "'w ForwardEnv \<Rightarrow> nat \<Rightarrow> PortForwardingRule \<Rightarrow> 'w ForwardState \<Rightarrow> ((PortForwardingJobFailure + ForwardListener) \<times> 'w ForwardState) option" where
  "open_listener E transport rule st =
     (if fr_type rule = RemoteForwarding
      then (case openRemoteForwardListener (fe_channels E) transport (fp_host (fr_bind rule)) (fp_port (fr_bind rule))
                   (of_nat maximumPortForwardingClientsPerRule) channelOperationTimeout (fs_session st) (fs_world st) of
              None \<Rightarrow> None
            | Some (Inl e, s, w) \<Rightarrow> Some (Inl RemoteListenerFailed, st\<lparr>fs_session := s, fs_world := w\<rparr>)
            | Some (Inr (i, boundPort), s, w) \<Rightarrow> Some (Inr (RemoteListener i boundPort), st\<lparr>fs_session := s, fs_world := w\<rparr>))
      else (case tcp_listen E (fp_host (fr_bind rule)) (fp_port (fr_bind rule)) maximumPortForwardingClientsPerRule (fs_world st) of
              (None, w) \<Rightarrow> Some (Inl ListenerFailed, st\<lparr>fs_world := w\<rparr>)
            | (Some l, w) \<Rightarrow> Some (Inr (LocalListener l), st\<lparr>fs_world := w\<rparr>)))"

text \<open>The counters of a run start from zero; those of the snapshot are what the last run left.\<close>

definition begin_counting :: "'w ForwardEnv \<Rightarrow> 'w ForwardState \<Rightarrow> 'w ForwardState" where
  "begin_counting E st = st\<lparr>fs_clients := [], fs_bytesFromClients := 0, fs_bytesToClients := 0, fs_rejectedClients := 0,
     fs_publishedClientCount := 0, fs_nextCounterPublish := fe_clock E (fs_world st)\<rparr>"

definition forwarding_run ::
  "'w ForwardEnv \<Rightarrow> 'w BootEnv \<Rightarrow> PortForwardingRule \<Rightarrow> SshConnectionRequest \<Rightarrow> 'w ForwardState \<Rightarrow> 'w ForwardState option" where
  "forwarding_run E B rule request st =
     (case establishAuthenticatedSshConnection B request \<lparr>bs_world = fs_world st, bs_log = []\<rparr> of
        None \<Rightarrow> None
      | Some (Inl e, b) \<Rightarrow>
          let stopped = stop_requested (lc_lib (fe_channels E)) (bs_world b)
          in Some (publish_state (if stopped then JobStopped else JobFailed) (if stopped then NoJobFailure else ConnectionFailed)
                     (st\<lparr>fs_world := bs_world b\<rparr>))
      | Some (Inr (transport, session), b) \<Rightarrow>
          (case open_listener E transport rule (st\<lparr>fs_session := session, fs_world := bs_world b\<rparr>) of
             None \<Rightarrow> None
           | Some (Inl failure, st1) \<Rightarrow> Some (publish_state JobFailed failure st1)
           | Some (Inr listener, st1) \<Rightarrow>
               job_loop E transport rule listener (begin_counting E (publish_state JobRunning NoJobFailure st1))))"

definition empty_snapshot :: PortForwardingJobSnapshot where
  "empty_snapshot = \<lparr>pj_state = JobStopped, pj_failure = NoJobFailure, pj_activeClients = 0, pj_bytesFromClients = 0,
     pj_bytesToClients = 0, pj_rejectedClients = 0\<rparr>"

text \<open>
  \<open>start\<close>: the request is checked with the bootstrap's \<open>trimmed\<close>; \<open>joinable\<close> says that a worker of an
  earlier start has not been joined, \<open>spawns\<close> that the system gives a thread.  On success the caller goes on
  with \<open>forwarding_run\<close> in that thread.
\<close>

definition forwarding_start ::
  "'w BootEnv \<Rightarrow> PortForwardingRule \<Rightarrow> SshConnectionRequest \<Rightarrow> bool \<Rightarrow> bool \<Rightarrow> 'w ForwardState
    \<Rightarrow> (PortForwardingJobStartError + unit) \<times> 'w ForwardState" where
  "forwarding_start B rule request joinable spawns st =
     (if \<not> validPortForwardingRule rule \<or> \<not> validSshConnectionRequest (be_trim B) request then (Inl InvalidForwarding, st)
      else if joinable then (Inl ForwardingAlreadyRunning, st)
      else let st1 = publish_state JobStarting NoJobFailure (st\<lparr>fs_snapshot := empty_snapshot\<lparr>pj_state := JobStarting\<rparr>\<rparr>)
           in if spawns then (Inr (), st1)
              else (Inl ForwardingWorkerUnavailable, publish_state JobFailed JobResourceLimit st1))"

end
