(* ===== verification/Forwarding_Relay.thy ===== *)
theory Forwarding_Relay
  imports Port_Forwarding Ssh_Session_Props
begin

text \<open>
  What a forwarded client gets: the bytes of its socket and of its channel go through the two byte queues in
  their order, none is lost while the client is kept, the end of the stream follows the last byte, and a queue
  is never longer than its limit.
\<close>

section \<open>Byte queues as lists\<close>

lemma bq_append_cases:
  assumes "bq_append bytes q = (q', ok)" "bq_inv q"
  shows "bq_inv q' \<and> (ok \<longrightarrow> bq_view q' = bq_view q @ bytes) \<and> (\<not> ok \<longrightarrow> q' = q)"
proof (cases "length bytes > maximumBufferedBytesPerDirection - bq_size q")
  case True
  then show ?thesis using assms by (auto simp: bq_append_def)
next
  case False
  note c = bq_compact_view [OF assms(2)]
  have "bq_offset (bq_compact q) \<le> length (bq_bytes (bq_compact q))" using c by (simp add: bq_inv_def)
  then have "bq_view q' = bq_view (bq_compact q) @ bytes" "ok"
    using False assms(1) by (auto simp: bq_append_def bq_view_def Let_def)
  moreover have "bq_inv q'" using bq_append_inv [OF assms(2), of bytes] assms(1) by simp
  ultimately show ?thesis using c by simp
qed

lemma bq_size_nil: "bq_size q = 0 \<longleftrightarrow> bq_view q = []"
  using bq_view_length [of q] by auto

text \<open>
  A queue between a source and a sink: \<open>i\<close> and \<open>out\<close> are all the bytes that came and went, \<open>lost\<close> what was read
  and did not get into the queue.
\<close>

definition flow ::
  "ByteQueue \<Rightarrow> byte list \<Rightarrow> byte list \<Rightarrow> ByteQueue \<Rightarrow> byte list \<Rightarrow> byte list \<Rightarrow> byte list \<Rightarrow> bool" where
  "flow q i out q' i' out' lost \<longleftrightarrow> bq_inv q' \<and> (\<exists>rd wr. i' = i @ rd \<and> out' = out @ wr \<and> bq_view q @ rd = wr @ bq_view q' @ lost)"

lemma flow_refl: "bq_inv q \<Longrightarrow> flow q i out q i out []"
  by (simp add: flow_def)

lemma flow_trans:
  assumes "flow q i out q1 i1 out1 []" "flow q1 i1 out1 q2 i2 out2 lost"
  shows "flow q i out q2 i2 out2 lost"
proof -
  obtain rd wr where 1: "i1 = i @ rd" "out1 = out @ wr" "bq_view q @ rd = wr @ bq_view q1" using assms(1) by (auto simp: flow_def)
  obtain rd' wr' where 2: "i2 = i1 @ rd'" "out2 = out1 @ wr'" "bq_view q1 @ rd' = wr' @ bq_view q2 @ lost" "bq_inv q2"
    using assms(2) by (auto simp: flow_def)
  have "bq_view q @ rd @ rd' = wr @ wr' @ bq_view q2 @ lost" using 1(3) 2(3) by (metis append.assoc)
  then show ?thesis using 1 2 by (auto simp: flow_def intro!: exI [of _ "rd @ rd'"] exI [of _ "wr @ wr'"])
qed

text \<open>The bytes that came and went on a client's socket and on its channel.\<close>

record ClientIo =
  io_fromClient :: "byte list"
  io_toRemote :: "byte list"
  io_fromRemote :: "byte list"
  io_toClient :: "byte list"

definition reads_into :: "('w \<Rightarrow> (SshByteTransportError + byte list) \<times> 'w) \<Rightarrow> ('w \<Rightarrow> ClientIo) \<Rightarrow> (byte list \<Rightarrow> ClientIo \<Rightarrow> ClientIo) \<Rightarrow> bool" where
  "reads_into read_some io f \<longleftrightarrow>
     (\<forall>w r w'. read_some w = (r, w') \<longrightarrow> io w' = (case r of Inl e \<Rightarrow> io w | Inr bytes \<Rightarrow> f bytes (io w)))"

definition writes_from :: "(byte list \<Rightarrow> 'w \<Rightarrow> (SshByteTransportError + nat) \<times> 'w) \<Rightarrow> ('w \<Rightarrow> ClientIo) \<Rightarrow> (byte list \<Rightarrow> ClientIo \<Rightarrow> ClientIo) \<Rightarrow> bool" where
  "writes_from write_some io f \<longleftrightarrow>
     (\<forall>bytes w r w'. write_some bytes w = (r, w') \<longrightarrow>
        (case r of Inl e \<Rightarrow> io w' = io w | Inr n \<Rightarrow> n \<le> length bytes \<and> io w' = f (take n bytes) (io w)))"

text \<open>
  What is assumed of the socket \<open>k\<close> and of the channel \<open>c\<close> of libssh2: a read gives the next bytes of its side, a
  write takes a part of what it is given from its beginning, and waiting or sending an end of file moves no byte.
\<close>

definition carries_bytes :: "'w ForwardEnv \<Rightarrow> nat \<Rightarrow> nat \<Rightarrow> nat \<Rightarrow> ('w \<Rightarrow> ClientIo) \<Rightarrow> bool" where
  "carries_bytes E transport k c io \<longleftrightarrow>
     (\<forall>capacity. reads_into (sock_read E k capacity) io (\<lambda>bytes s. s\<lparr>io_fromClient := io_fromClient s @ bytes\<rparr>))
   \<and> writes_from (sock_write E k) io (\<lambda>bytes s. s\<lparr>io_toClient := io_toClient s @ bytes\<rparr>)
   \<and> (\<forall>w. io (snd (sock_shutdownWrite E k w)) = io w)
   \<and> (\<forall>capacity w r w'. lib_channel_read (lc_lib (fe_channels E)) c capacity w = (r, w') \<longrightarrow>
        io w' = (case r of Inl e \<Rightarrow> io w | Inr bytes \<Rightarrow> (io w)\<lparr>io_fromRemote := io_fromRemote (io w) @ bytes\<rparr>))
   \<and> (\<forall>bytes w r w'. lib_channel_write (lc_lib (fe_channels E)) c bytes w = (r, w') \<longrightarrow>
        (case r of Inl e \<Rightarrow> io w' = io w
         | Inr n \<Rightarrow> n \<le> length bytes \<and> io w' = (io w)\<lparr>io_toRemote := io_toRemote (io w) @ take n bytes\<rparr>))
   \<and> (\<forall>w. io (snd (lc_send_eof (fe_channels E) c w)) = io w)
   \<and> (\<forall>w. io (snd (waitForSessionIo (lc_lib (fe_channels E)) transport w)) = io w)"

section \<open>The loops\<close>

text \<open>Rules for the two loops: what every write or read keeps holds in the end.\<close>

lemma drain_rule:
  assumes "drain_loop write_some q n w = (ok, q', n', w')" and "I q w"
    and "\<And>q w m w'. I q w \<Longrightarrow> write_some (bq_view q) w = (Inr m, w') \<Longrightarrow> m \<noteq> 0 \<Longrightarrow> I (bq_consume m q) w'"
    and "\<And>q w r w'. I q w \<Longrightarrow> write_some (bq_view q) w = (r, w') \<Longrightarrow> isl r \<or> r = Inr 0 \<Longrightarrow> I q w'"
  shows "I q' w'"
  using assms
proof (induction write_some q n w rule: drain_loop.induct)
  case (1 f q n w)
  note run = 1(2) and I = 1(3) and some = 1(4) and none = 1(5)
  obtain r v where r: "f (bq_view q) w = (r, v)" by fastforce
  show ?case
  proof (cases "bq_size q = 0")
    case True
    then show ?thesis using run I by (simp add: drain_loop.simps)
  next
    case False
    show ?thesis
    proof (cases "isl r \<or> r = Inr 0")
      case True
      then have "q' = q" "w' = v" using run r False by (auto simp: drain_loop.simps split: sum.splits)
      then show ?thesis using none [OF I r True] by simp
    next
      case more: False
      then obtain m where m: "r = Inr m" "m \<noteq> 0" by (cases r) auto
      have loop: "drain_loop f (bq_consume m q) (n + of_nat m) v = (ok, q', n', w')"
        using run r False m by (simp add: drain_loop.simps)
      have I1: "I (bq_consume m q) v" using some [OF I] r m by simp
      show ?thesis
        by (rule 1(1) [OF False r [symmetric] m loop I1]) (erule some none, assumption+)+
    qed
  qed
qed

lemma fill_rule:
  assumes "fill_loop read_some q w = (ok, q', w')" and "I True q w"
    and "\<And>q w bytes w' q' ok. I True q w \<Longrightarrow> read_some w = (Inr bytes, w') \<Longrightarrow> bytes \<noteq> []
      \<Longrightarrow> bq_append bytes q = (q', ok) \<Longrightarrow> I ok q' w'"
    and "\<And>q w r w'. I True q w \<Longrightarrow> read_some w = (r, w') \<Longrightarrow> isl r \<or> r = Inr [] \<Longrightarrow> I True q w'"
    and "\<And>q w. I True q w \<Longrightarrow> I False q w"
  shows "I ok q' w'"
  using assms
proof (induction read_some q w rule: fill_loop.induct)
  case (1 f q w)
  note run = 1(2) and I = 1(3) and some = 1(4) and none = 1(5) and weaken = 1(6)
  obtain r v where r: "f w = (r, v)" by fastforce
  show ?case
  proof (cases "bq_size q \<ge> maximumBufferedBytesPerDirection")
    case True
    then show ?thesis using run I by (simp add: fill_loop.simps)
  next
    case False
    show ?thesis
    proof (cases "isl r \<or> r = Inr []")
      case True
      then have "q' = q" "w' = v" using run r False by (auto simp: fill_loop.simps split: sum.splits)
      then show ?thesis using none [OF I r True] weaken by (cases ok) auto
    next
      case more: False
      then obtain bytes where bytes: "r = Inr bytes" "bytes \<noteq> []" by (cases r) auto
      obtain q1 k where q1: "bq_append bytes q = (q1, k)" by fastforce
      have I1: "I k q1 v" using some [OF I _ bytes(2) q1] r bytes by simp
      show ?thesis
      proof (cases k)
        case True
        then have loop: "fill_loop f q1 v = (ok, q', w')" using run r False bytes q1 by (simp add: fill_loop.simps)
        have I1: "I True q1 v" using I1 True by simp
        show ?thesis
          by (rule 1(1) [OF False r [symmetric] bytes q1 [symmetric] True loop I1])
            (erule some none weaken, assumption+ | erule weaken)+
      next
        case no: False
        then show ?thesis using run r False bytes q1 I1 by (simp add: fill_loop.simps)
      qed
    qed
  qed
qed

section \<open>The steps of a turn\<close>

text \<open>The end of the client's stream is passed on after its last byte.\<close>

definition eof_ok :: "ForwardingClient \<Rightarrow> bool" where
  "eof_ok client \<longleftrightarrow> (fc_channelEofSent client \<longrightarrow> fc_clientReadClosed client \<and> bq_view (fc_toRemote client) = [])"

text \<open>
  From one point of a client's life to another: both queues, and what was read and not kept on the way to the
  remote side and to the client.
\<close>

definition relayed ::
  "('w \<Rightarrow> ClientIo) \<Rightarrow> ForwardingClient \<Rightarrow> 'w ForwardState \<Rightarrow> ForwardingClient \<Rightarrow> 'w ForwardState \<Rightarrow> byte list \<Rightarrow> byte list \<Rightarrow> bool" where
  "relayed io client st client' st' lost lost' \<longleftrightarrow>
     flow (fc_toRemote client) (io_fromClient (io (fs_world st))) (io_toRemote (io (fs_world st)))
       (fc_toRemote client') (io_fromClient (io (fs_world st'))) (io_toRemote (io (fs_world st'))) lost
   \<and> flow (fc_toClient client) (io_fromRemote (io (fs_world st))) (io_toClient (io (fs_world st)))
       (fc_toClient client') (io_fromRemote (io (fs_world st'))) (io_toClient (io (fs_world st'))) lost'
   \<and> fc_socket client' = fc_socket client \<and> fs_session st' = fs_session st \<and> (eof_ok client \<longrightarrow> eof_ok client')"

definition queues_ok :: "ForwardingClient \<Rightarrow> bool" where
  "queues_ok client \<longleftrightarrow> bq_inv (fc_toRemote client) \<and> bq_inv (fc_toClient client)"

lemma relayed_refl: "queues_ok client \<Longrightarrow> relayed io client st client st [] []"
  by (simp add: relayed_def queues_ok_def flow_refl)

lemma relayed_queues: "relayed io client st client' st' l l' \<Longrightarrow> queues_ok client'"
  by (simp add: relayed_def queues_ok_def flow_def)

lemma relayed_trans:
  "relayed io client st client1 st1 [] [] \<Longrightarrow> relayed io client1 st1 client2 st2 l l' \<Longrightarrow> relayed io client st client2 st2 l l'"
  unfolding relayed_def using flow_trans by metis

definition good_step :: "('w \<Rightarrow> ClientIo) \<Rightarrow> nat \<Rightarrow> u64 \<Rightarrow> nat \<Rightarrow> 'w client_step \<Rightarrow> bool" where
  "good_step io k i c f \<longleftrightarrow>
     (\<forall>client st keep client' st'. queues_ok client \<longrightarrow> fc_socket client = k \<longrightarrow> forwardingChannel i (fs_session st) = Some c
        \<longrightarrow> f client st = Some (keep, client', st')
        \<longrightarrow> (\<exists>lost lost'. relayed io client st client' st' lost lost' \<and> (keep \<longrightarrow> lost = [] \<and> lost' = [])))"

lemma good_stepI:
  assumes "\<And>client st keep client' st'. queues_ok client \<Longrightarrow> fc_socket client = k \<Longrightarrow> forwardingChannel i (fs_session st) = Some c
    \<Longrightarrow> f client st = Some (keep, client', st')
    \<Longrightarrow> \<exists>lost lost'. relayed io client st client' st' lost lost' \<and> (keep \<longrightarrow> lost = [] \<and> lost' = [])"
  shows "good_step io k i c f"
  using assms by (simp add: good_step_def)

lemma good_then:
  assumes f: "good_step io k i c f" and g: "good_step io k i c g"
  shows "good_step io k i c (then_step f g)"
proof (rule good_stepI)
  fix client st keep client' st'
  assume start: "queues_ok client" "fc_socket client = k" "forwardingChannel i (fs_session st) = Some c"
    and run: "then_step f g client st = Some (keep, client', st')"
  obtain kept client1 st1 where 1: "f client st = Some (kept, client1, st1)"
    using run by (auto simp: then_step_def split: option.splits)
  obtain lost lost' where r1: "relayed io client st client1 st1 lost lost'" "kept \<longrightarrow> lost = [] \<and> lost' = []"
    using f start 1 unfolding good_step_def by blast
  show "\<exists>lost lost'. relayed io client st client' st' lost lost' \<and> (keep \<longrightarrow> lost = [] \<and> lost' = [])"
  proof (cases kept)
    case True
    then have 2: "g client1 st1 = Some (keep, client', st')" using run 1 by (simp add: then_step_def)
    have "relayed io client st client1 st1 [] []" using r1 True by simp
    moreover have "queues_ok client1" "fc_socket client1 = k" "forwardingChannel i (fs_session st1) = Some c"
      using relayed_queues [OF r1(1)] r1(1) start by (simp_all add: relayed_def)
    then obtain l l' where "relayed io client1 st1 client' st' l l'" "keep \<longrightarrow> l = [] \<and> l' = []"
      using g 2 unfolding good_step_def by blast
    ultimately show ?thesis using relayed_trans by blast
  next
    case False
    then have "keep = False" "client' = client1" "st' = st1" using run 1 by (simp_all add: then_step_def)
    then show ?thesis using r1 by blast
  qed
qed

text \<open>Each single step.\<close>

lemma carries_bytesD:
  assumes "carries_bytes E transport k c io"
  shows "sock_read E k cap w = (r, w') \<Longrightarrow> io w' = (case r of Inl e \<Rightarrow> io w | Inr bytes \<Rightarrow> (io w)\<lparr>io_fromClient := io_fromClient (io w) @ bytes\<rparr>)"
    and "sock_write E k bytes w = (r', w') \<Longrightarrow> (case r' of Inl e \<Rightarrow> io w' = io w
      | Inr n \<Rightarrow> n \<le> length bytes \<and> io w' = (io w)\<lparr>io_toClient := io_toClient (io w) @ take n bytes\<rparr>)"
    and "sock_shutdownWrite E k w = (s, w') \<Longrightarrow> io w' = io w"
    and "lib_channel_read (lc_lib (fe_channels E)) c cap w = (q, w') \<Longrightarrow>
      io w' = (case q of Inl e \<Rightarrow> io w | Inr bytes \<Rightarrow> (io w)\<lparr>io_fromRemote := io_fromRemote (io w) @ bytes\<rparr>)"
    and "lib_channel_write (lc_lib (fe_channels E)) c bytes w = (q', w') \<Longrightarrow> (case q' of Inl e \<Rightarrow> io w' = io w
         | Inr n \<Rightarrow> n \<le> length bytes \<and> io w' = (io w)\<lparr>io_toRemote := io_toRemote (io w) @ take n bytes\<rparr>)"
    and "lc_send_eof (fe_channels E) c w = (code, w') \<Longrightarrow> io w' = io w"
    and "waitForSessionIo (lc_lib (fe_channels E)) transport w = (u, w') \<Longrightarrow> io w' = io w"
  using assms unfolding carries_bytes_def reads_into_def writes_from_def by (blast | metis snd_conv)+

lemma flow_in: "bq_inv q \<Longrightarrow> bq_append bytes q = (q', ok) \<Longrightarrow> flow q i out q' (i @ bytes) out (if ok then [] else bytes)"
  using bq_append_cases [of bytes q q' ok] by (auto simp: flow_def)

lemma flow_out: "bq_inv q \<Longrightarrow> n \<le> length (bq_view q) \<Longrightarrow> flow q i out (bq_consume n q) i (out @ take n (bq_view q)) []"
  using bq_consume_view [of q n] by (auto simp: flow_def)

lemma good_read_client:
  assumes "carries_bytes E transport k c io" shows "good_step io k i c (total_step (read_client E))"
proof (rule good_stepI)
  fix client st keep client' st'
  assume start: "queues_ok client" "fc_socket client = k" "forwardingChannel i (fs_session st) = Some c"
    and run: "total_step (read_client E) client st = Some (keep, client', st')"
  obtain r w where r: "sock_read E k transferBytes (fs_world st) = (r, w)" by fastforce
  note io = carries_bytesD(1) [OF assms r]
  note q = start(1) [unfolded queues_ok_def]
  note in_ = flow_in [OF conjunct1 [OF q]]
  show "\<exists>lost lost'. relayed io client st client' st' lost lost' \<and> (keep \<longrightarrow> lost = [] \<and> lost' = [])"
  proof (cases "fc_clientReadClosed client \<or> bq_size (fc_toRemote client) \<ge> maximumBufferedBytesPerDirection")
    case True
    then show ?thesis using run start relayed_refl [OF start(1)] by (auto simp: total_step_def read_client_def)
  next
    case False
    show ?thesis
    proof (cases r)
      case (Inl e)
      have "relayed io client st client' st' [] []" using run r start False io q Inl
        by (cases "te_kind e = TransportClosed") (auto simp: total_step_def read_client_def relayed_def flow_refl eof_ok_def)
      then show ?thesis by blast
    next
      case (Inr bytes)
      obtain q' ok where a: "bq_append bytes (fc_toRemote client) = (q', ok)" by fastforce
      have "relayed io client st client' st' (if ok \<or> bytes = [] then [] else bytes) []" "keep \<longrightarrow> ok \<or> bytes = []"
        using run r start False io q Inr a in_ [OF a]
        by (cases "bytes = []"; cases ok; auto simp: total_step_def read_client_def relayed_def flow_refl eof_ok_def)+
      then show ?thesis by - (intro exI conjI, assumption, auto)
    qed
  qed
qed


lemma good_drain:
  assumes "drain_loop write_some q0 n w0 = (ok, q', n', w')" and "bq_inv q0"
    and "\<And>bytes w r w'. write_some bytes w = (r, w') \<Longrightarrow> (case r of Inl e \<Rightarrow> io w' = io w
      | Inr n \<Rightarrow> n \<le> length bytes \<and> io w' = f (take n bytes) (io w))"
    and "\<And>bytes s. out (f bytes s) = out s @ bytes" "\<And>bytes s. rest (f bytes s) = rest s"
  shows "flow q0 i (out (io w0)) q' i (out (io w')) [] \<and> rest (io w') = rest (io w0)"
proof (rule drain_rule [OF assms(1)])
  show "flow q0 i (out (io w0)) q0 i (out (io w0)) []
    \<and> rest (io w0) = rest (io w0)"
    using assms(2) by (simp add: flow_refl)
next
  fix q w m w'
  assume I: "flow q0 i (out (io w0)) q i (out (io w)) [] \<and> rest (io w) = rest (io w0)"
    and w: "write_some (bq_view q) w = (Inr m, w')" "m \<noteq> 0"
  have m: "m \<le> length (bq_view q)" "io w' = f (take m (bq_view q)) (io w)" using assms(3) [OF w(1)] by simp_all
  have "bq_inv q" using I by (simp add: flow_def)
  from flow_out [OF this m(1)] show "flow q0 i (out (io w0)) (bq_consume m q) i (out (io w')) []
    \<and> rest (io w') = rest (io w0)"
    using I m(2) assms(4,5) flow_trans by metis
next
  fix q w r w'
  assume I: "flow q0 i (out (io w0)) q i (out (io w)) [] \<and> rest (io w) = rest (io w0)"
    and w: "write_some (bq_view q) w = (r, w')" "isl r \<or> r = Inr 0"
  have "out (io w') = out (io w)" "rest (io w') = rest (io w)"
    using assms(3) [OF w(1)] w(2) assms(4,5) by (cases r; auto)+
  then show "flow q0 i (out (io w0)) q i (out (io w')) [] \<and> rest (io w') = rest (io w0)"
    using I by simp
qed

lemma good_write_remote:
  assumes "carries_bytes E transport k c io" shows "good_step io k i c (total_step (write_remote E i))"
proof (rule good_stepI)
  fix client st keep client' st'
  assume start: "queues_ok client" "fc_socket client = k" "forwardingChannel i (fs_session st) = Some c"
    and run: "total_step (write_remote E i) client st = Some (keep, client', st')"
  let ?put = "\<lambda>bytes. writeForwardingChannel (fe_channels E) i bytes (fs_session st)"
  obtain q' n' w' where d: "drain_loop ?put (fc_toRemote client) 0 (fs_world st) = (keep, q', n', w')"
    and eqs: "client' = client\<lparr>fc_toRemote := q'\<rparr>" "st' = st\<lparr>fs_world := w'\<rparr>"
    using run by (auto simp: total_step_def write_remote_def split: prod.splits)
  have writes: "case r of Inl e \<Rightarrow> io w' = io w
      | Inr n \<Rightarrow> n \<le> length bytes \<and> io w' = (io w)\<lparr>io_toRemote := io_toRemote (io w) @ take n bytes\<rparr>"
    if "?put bytes w = (r, w')" for bytes w r w'
    using that start(3) carries_bytesD(5) [OF assms]
    by (fastforce simp: writeForwardingChannel_def channel_write_once_def split: if_splits prod.splits sum.splits)
  have "flow (fc_toRemote client) (io_fromClient (io (fs_world st))) (io_toRemote (io (fs_world st))) q'
      (io_fromClient (io (fs_world st))) (io_toRemote (io w')) []
    \<and> (\<lambda>s. (io_fromClient s, io_fromRemote s, io_toClient s)) (io w') = (\<lambda>s. (io_fromClient s, io_fromRemote s, io_toClient s)) (io (fs_world st))"
    by (rule good_drain [where io = io and f = "\<lambda>bytes s. s\<lparr>io_toRemote := io_toRemote s @ bytes\<rparr>", OF d])
      (use writes start in \<open>auto simp: queues_ok_def split: sum.splits\<close>)
  moreover have "eof_ok client \<Longrightarrow> eof_ok client'"
    using d eqs by (auto simp: eof_ok_def drain_loop.simps [of _ "fc_toRemote client"] bq_size_nil)
  ultimately have "relayed io client st client' st' [] []"
    using start eqs by (simp add: relayed_def queues_ok_def flow_refl)
  then show "\<exists>lost lost'. relayed io client st client' st' lost lost' \<and> (keep \<longrightarrow> lost = [] \<and> lost' = [])" by blast
qed

lemma good_send_eof:
  assumes "carries_bytes E transport k c io" shows "good_step io k i c (send_remote_eof E transport i)"
proof (rule good_stepI)
  fix client st keep client' st'
  assume start: "queues_ok client" "fc_socket client = k" "forwardingChannel i (fs_session st) = Some c"
    and run: "send_remote_eof E transport i client st = Some (keep, client', st')"
  have wait: "io (snd (waitForSessionIo (lc_lib (fe_channels E)) transport w)) = io w" for w
    using assms by (simp add: carries_bytes_def)
  have silent: "io w' = io w \<and> s' = fs_session st"
    if "sendForwardingChannelEof (fe_channels E) transport i 100 (fs_session st) w = Some (r, s', w')" for w r s' w'
  proof -
    have "session_loop (lc_lib (fe_channels E)) transport
        (\<lambda>w. code_step mapChannelError (lc_send_eof (fe_channels E) c w)) v = Some (r', v') \<Longrightarrow> io v' = io v" for v r' v'
    proof (rule session_loop_rule [where I = "\<lambda>u. io u = io v" and Q = "\<lambda>r u. io u = io v"], assumption)
    qed (use carries_bytesD(6) [OF assms] in \<open>auto simp: code_step_def wait split: prod.splits if_splits\<close>)
    then show ?thesis using that start(3)
      by (auto simp: sendForwardingChannelEof_def checked_def looped_def split: if_splits option.splits sum.splits prod.splits)
  qed
  have "relayed io client st client' st' [] []"
  proof (cases "fc_clientReadClosed client \<and> bq_size (fc_toRemote client) = 0 \<and> \<not> fc_channelEofSent client")
    case True
    then obtain r s' w' where r: "sendForwardingChannelEof (fe_channels E) transport i 100 (fs_session st) (fs_world st) = Some (r, s', w')"
      using run by (auto simp: send_remote_eof_def split: option.splits)
    have st': "st' = st\<lparr>fs_session := s', fs_world := w'\<rparr>" and client': "client' = client \<or> client' = client\<lparr>fc_channelEofSent := True\<rparr>"
      using run True r by (cases r; simp add: send_remote_eof_def)+
    have "eof_ok client'" using client' True by (auto simp: eof_ok_def bq_size_nil)
    then show ?thesis using silent [OF r] st' client' start(1) by (auto simp: relayed_def flow_refl queues_ok_def)
  next
    case False
    then have "client' = client" "st' = st" using run by (simp_all add: send_remote_eof_def split: if_splits)
    then show ?thesis using relayed_refl [OF start(1)] by simp
  qed
  then show "\<exists>lost lost'. relayed io client st client' st' lost lost' \<and> (keep \<longrightarrow> lost = [] \<and> lost' = [])" by blast
qed

lemma good_read_remote:
  assumes "carries_bytes E transport k c io" shows "good_step io k i c (total_step (read_remote E i))"
proof (rule good_stepI)
  fix client st keep client' st'
  assume start: "queues_ok client" "fc_socket client = k" "forwardingChannel i (fs_session st) = Some c"
    and run: "total_step (read_remote E i) client st = Some (keep, client', st')"
  let ?read = "readForwardingChannel (fe_channels E) i transferBytes (fs_session st)"
  let ?io0 = "io (fs_world st)"
  obtain q' w' where d: "fill_loop ?read (fc_toClient client) (fs_world st) = (keep, q', w')"
    and eqs: "client' = client\<lparr>fc_toClient := q'\<rparr>" "st' = st\<lparr>fs_world := w'\<rparr>"
    using run by (auto simp: total_step_def read_remote_def split: prod.splits)
  have reads: "io w' = (case r of Inl e \<Rightarrow> io w | Inr bytes \<Rightarrow> (io w)\<lparr>io_fromRemote := io_fromRemote (io w) @ bytes\<rparr>)"
    if "?read w = (r, w')" for w r w'
  proof -
    obtain q v where l: "lib_channel_read (lc_lib (fe_channels E)) c (min transferBytes (2 ^ 31 - 1)) w = (q, v)" by fastforce
    have "w' = v" "r = (case q of Inl code \<Rightarrow> Inl (channel_io_error (lc_lib (fe_channels E)) c code v) | Inr bytes \<Rightarrow> Inr bytes)"
      using that start(3) l by (auto simp: readForwardingChannel_def channel_read_once_def transferBytes_def split: sum.splits)
    then show ?thesis using carries_bytesD(4) [OF assms l] by (cases q) simp_all
  qed
  let ?I = "\<lambda>ok q w. (\<exists>lost. flow (fc_toClient client) (io_fromRemote ?io0) (io_toClient ?io0) q (io_fromRemote (io w)) (io_toClient ?io0) lost
      \<and> (ok \<longrightarrow> lost = [])) \<and> io_fromClient (io w) = io_fromClient ?io0 \<and> io_toRemote (io w) = io_toRemote ?io0
      \<and> io_toClient (io w) = io_toClient ?io0"
  have "?I keep q' w'"
  proof (rule fill_rule [where I = ?I, OF d])
    show "?I True (fc_toClient client) (fs_world st)" using start(1) by (simp add: queues_ok_def flow_refl)
  next
    fix q w bytes w' q' ok
    assume I: "?I True q w" and step: "?read w = (Inr bytes, w')" "bytes \<noteq> []" "bq_append bytes q = (q', ok)"
    have f: "flow (fc_toClient client) (io_fromRemote ?io0) (io_toClient ?io0) q (io_fromRemote (io w)) (io_toClient ?io0) []" using I by simp
    have "bq_inv q" using f by (simp add: flow_def)
    from flow_trans [OF f flow_in [OF this step(3)]]
    have "flow (fc_toClient client) (io_fromRemote ?io0) (io_toClient ?io0) q' (io_fromRemote (io w')) (io_toClient ?io0) (if ok then [] else bytes)"
      using reads [OF step(1)] by simp
    moreover have "ok \<longrightarrow> (if ok then [] else bytes) = []" by simp
    moreover have "io_fromClient (io w') = io_fromClient ?io0" "io_toRemote (io w') = io_toRemote ?io0" "io_toClient (io w') = io_toClient ?io0"
      using reads [OF step(1)] I by simp_all
    ultimately show "?I ok q' w'" by blast
  next
    fix q w r w'
    assume "?I True q w" "?read w = (r, w')" "isl r \<or> r = Inr []"
    then show "?I True q w'" using reads [of w r w'] by (cases r) auto
  qed auto
  then obtain lost where "flow (fc_toClient client) (io_fromRemote ?io0) (io_toClient ?io0) q' (io_fromRemote (io w')) (io_toClient ?io0) lost"
    "keep \<longrightarrow> lost = []" "io_fromClient (io w') = io_fromClient ?io0" "io_toRemote (io w') = io_toRemote ?io0"
    "io_toClient (io w') = io_toClient ?io0" by auto
  then have "relayed io client st client' st' [] lost" "keep \<longrightarrow> lost = []"
    using start eqs by (simp_all add: relayed_def queues_ok_def flow_refl eof_ok_def)
  then show "\<exists>lost lost'. relayed io client st client' st' lost lost' \<and> (keep \<longrightarrow> lost = [] \<and> lost' = [])" by blast
qed

lemma good_flush:
  assumes "carries_bytes E transport k c io" shows "good_step io k i c (total_step (flushClientOutput E))"
proof (rule good_stepI)
  fix client st keep client' st'
  assume start: "queues_ok client" "fc_socket client = k" "forwardingChannel i (fs_session st) = Some c"
    and run: "total_step (flushClientOutput E) client st = Some (keep, client', st')"
  obtain q' n' w' where d: "drain_loop (sock_write E k) (fc_toClient client) (fs_bytesToClients st) (fs_world st) = (keep, q', n', w')"
    and eqs: "client' = client\<lparr>fc_toClient := q'\<rparr>" "st' = st\<lparr>fs_bytesToClients := n', fs_world := w'\<rparr>"
    using run start(2) by (auto simp: total_step_def flushClientOutput_def split: prod.splits)
  have "flow (fc_toClient client) (io_fromRemote (io (fs_world st))) (io_toClient (io (fs_world st))) q'
      (io_fromRemote (io (fs_world st))) (io_toClient (io w')) []
    \<and> (\<lambda>s. (io_fromClient s, io_toRemote s, io_fromRemote s)) (io w') = (\<lambda>s. (io_fromClient s, io_toRemote s, io_fromRemote s)) (io (fs_world st))"
    by (rule good_drain [where io = io and f = "\<lambda>bytes s. s\<lparr>io_toClient := io_toClient s @ bytes\<rparr>", OF d])
      (use carries_bytesD(2) [OF assms] start in \<open>auto simp: queues_ok_def\<close>)
  then have "relayed io client st client' st' [] []"
    using start eqs by (simp add: relayed_def queues_ok_def flow_refl eof_ok_def)
  then show "\<exists>lost lost'. relayed io client st client' st' lost lost' \<and> (keep \<longrightarrow> lost = [] \<and> lost' = [])" by blast
qed

lemma good_shutdown:
  assumes "carries_bytes E transport k c io" shows "good_step io k i c (total_step (shutdown_client E i))"
proof (rule good_stepI)
  fix client st keep client' st'
  assume start: "queues_ok client" "fc_socket client = k" "forwardingChannel i (fs_session st) = Some c"
    and run: "total_step (shutdown_client E i) client st = Some (keep, client', st')"
  obtain r w where r: "sock_shutdownWrite E k (fs_world st) = (r, w)" by fastforce
  have client': "client' = client \<or> client' = client\<lparr>fc_clientWriteClosed := True\<rparr>" and st': "st' = st \<or> st' = st\<lparr>fs_world := w\<rparr>"
    using run r start(2) by (cases r; auto simp: total_step_def shutdown_client_def split: if_splits)+
  have "relayed io client st client' st' [] []"
    using client' st' start carries_bytesD(3) [OF assms r] by (auto simp: relayed_def queues_ok_def flow_refl eof_ok_def)
  then show "\<exists>lost lost'. relayed io client st client' st' lost lost' \<and> (keep \<longrightarrow> lost = [] \<and> lost' = [])" by blast
qed

lemma good_pump:
  assumes "carries_bytes E transport k c io" shows "good_step io k i c (pumpEstablishedClient E transport i)"
  unfolding pumpEstablishedClient_def
  by (intro good_then good_read_client [OF assms] good_write_remote [OF assms] good_send_eof [OF assms]
      good_read_remote [OF assms] good_flush [OF assms] good_shutdown [OF assms])
    (auto simp: good_step_def intro: relayed_refl)

section \<open>The life of a client\<close>

text \<open>
  A turn of the client that keeps it, or anything that happens meanwhile: other clients, the listener, waiting;
  it leaves the client's streams alone and its channel open.
\<close>

inductive relay_step ::
  "'w ForwardEnv \<Rightarrow> nat \<Rightarrow> u64 \<Rightarrow> ('w \<Rightarrow> ClientIo) \<Rightarrow> ForwardingClient \<times> 'w ForwardState \<Rightarrow> ForwardingClient \<times> 'w ForwardState \<Rightarrow> bool"
  for E transport i io where
  Turn: "pumpEstablishedClient E transport i client st = Some (True, client', st') \<Longrightarrow> relay_step E transport i io (client, st) (client', st')"
| Meanwhile: "io (fs_world st') = io (fs_world st) \<Longrightarrow> forwardingChannel i (fs_session st') = forwardingChannel i (fs_session st)
    \<Longrightarrow> relay_step E transport i io (client, st) (client, st')"

lemma relay_flow:
  assumes "(relay_step E transport i io)\<^sup>*\<^sup>* (client, st) (client', st')"
    and "carries_bytes E transport (fc_socket client) c io" "forwardingChannel i (fs_session st) = Some c" "queues_ok client"
  shows "flow (fc_toRemote client) (io_fromClient (io (fs_world st))) (io_toRemote (io (fs_world st)))
       (fc_toRemote client') (io_fromClient (io (fs_world st'))) (io_toRemote (io (fs_world st'))) []
   \<and> flow (fc_toClient client) (io_fromRemote (io (fs_world st))) (io_toClient (io (fs_world st)))
       (fc_toClient client') (io_fromRemote (io (fs_world st'))) (io_toClient (io (fs_world st'))) []
   \<and> fc_socket client' = fc_socket client \<and> forwardingChannel i (fs_session st') = Some c \<and> (eof_ok client \<longrightarrow> eof_ok client')"
  using assms(1)
proof (induction rule: rtranclp_induct2)
  case refl
  then show ?case using assms(3,4) by (simp add: flow_refl queues_ok_def)
next
  case (step client1 st1 client2 st2)
  show ?case using step.hyps(2)
  proof cases
    case Turn
    have "queues_ok client1" using step.IH by (simp add: flow_def queues_ok_def)
    then obtain l l' where "relayed io client1 st1 client2 st2 l l'" "l = [] \<and> l' = []"
      using good_pump [OF assms(2), of i] Turn step.IH unfolding good_step_def by blast
    then show ?thesis using step.IH flow_trans unfolding relayed_def by (metis (no_types, lifting))
  next
    case Meanwhile
    then show ?thesis using step.IH by simp
  qed
qed

text \<open>
  C9. The bytes of a forwarded client arrive complete and in order in both directions: what was written to the
  channel, followed by what still waits in the queue, is what waited before followed by what was read from the
  client's socket, and likewise from the channel to the socket.  Neither queue exceeds its 256 KiB, and the end
  of the client's stream has been passed on only if all of its bytes have.  This holds after any number of
  turns that keep the client, whatever other clients do in between, for a socket and a channel that carry
  bytes (\<open>carries_bytes\<close>).
\<close>

theorem forwarded_bytes_in_order:
  assumes "carries_bytes E transport (fc_socket client) c io" and "forwardingChannel i (fs_session st) = Some c"
    and "bq_inv (fc_toRemote client)" "bq_inv (fc_toClient client)" "\<not> fc_channelEofSent client"
    and "(relay_step E transport i io)\<^sup>*\<^sup>* (client, st) (client', st')"
  shows "(\<exists>rd wr. io_fromClient (io (fs_world st')) = io_fromClient (io (fs_world st)) @ rd
      \<and> io_toRemote (io (fs_world st')) = io_toRemote (io (fs_world st)) @ wr
      \<and> bq_view (fc_toRemote client) @ rd = wr @ bq_view (fc_toRemote client'))
    \<and> (\<exists>rd wr. io_fromRemote (io (fs_world st')) = io_fromRemote (io (fs_world st)) @ rd
      \<and> io_toClient (io (fs_world st')) = io_toClient (io (fs_world st)) @ wr
      \<and> bq_view (fc_toClient client) @ rd = wr @ bq_view (fc_toClient client'))
    \<and> length (bq_view (fc_toRemote client')) \<le> 256 * 1024 \<and> length (bq_view (fc_toClient client')) \<le> 256 * 1024
    \<and> (fc_channelEofSent client' \<longrightarrow> fc_clientReadClosed client' \<and> bq_view (fc_toRemote client') = [])"
proof -
  have "queues_ok client" "eof_ok client" using assms(3-5) by (simp_all add: queues_ok_def eof_ok_def)
  with relay_flow [OF assms(6,1,2)] show ?thesis
    by (auto simp: flow_def eof_ok_def bq_inv_def bq_view_length maximumBufferedBytesPerDirection_def)
qed

text \<open>
  A full queue is not waited for: when a read of the client's socket returns more bytes than are free in
  the queue to the remote side, the turn ends with the client dropped, and those bytes and the ones still
  queued are lost, although nothing is wrong with either side.
\<close>

theorem full_queue_drops_client:
  assumes "\<not> fc_clientReadClosed client" "fc_socksHandshake client = None" "fc_channel client = Some i"
    and "length (bq_view (fc_toRemote client)) < 256 * 1024"
    and "sock_read E (fc_socket client) transferBytes (fs_world st) = (Inr bytes, w)"
    and "256 * 1024 - length (bq_view (fc_toRemote client)) < length bytes"
  shows "process_loop E transport (client # others) st
    = (case closeClient E transport client (st\<lparr>fs_world := w\<rparr>) of
         None \<Rightarrow> None | Some st' \<Rightarrow> process_loop E transport others st')"
proof -
  have "bytes \<noteq> []" using assms(6) by auto
  then have "read_client E client st = (False, client, st\<lparr>fs_world := w\<rparr>)"
    using assms by (simp add: read_client_def bq_append_def bq_view_length maximumBufferedBytesPerDirection_def)
  then have "process_client E transport client st = Some (False, client, st\<lparr>fs_world := w\<rparr>)"
    using assms(2,3) by (simp add: process_client_def pumpEstablishedClient_def then_step_def total_step_def)
  then show ?thesis by (cases "closeClient E transport client (st\<lparr>fs_world := w\<rparr>)") (simp_all add: option.map_id)
qed

section \<open>A small example\<close>

text \<open>
  A socket and a channel with one side each still to come: the state is what has passed, what the client will
  send and what the remote side will send; writes take everything.
\<close>

type_synonym tiny = "ClientIo \<times> byte list \<times> byte list"

definition would_block :: "SshByteTransportError + 'a" where
  "would_block = Inl \<lparr>te_kind = WouldBlock, te_nativeCode = 0\<rparr>"

definition tiny_lib :: "tiny Libssh2" where
  "tiny_lib = quiet_lib\<lparr>
     lib_channel_read := (\<lambda>c n (s, a, b). if b = [] then (Inl LibEagain, s, a, b)
       else (Inr (take n b), s\<lparr>io_fromRemote := io_fromRemote s @ take n b\<rparr>, a, drop n b)),
     lib_channel_write := (\<lambda>c bytes (s, a, b). (Inr (length bytes), s\<lparr>io_toRemote := io_toRemote s @ bytes\<rparr>, a, b))\<rparr>"

definition tiny_env :: "tiny ForwardEnv" where
  "tiny_env = \<lparr>fe_channels = sample_channels tiny_lib, fe_wait = tr_wait quiet_lib, fe_clock = (\<lambda>w. 0),
     sock_read = (\<lambda>k n (s, a, b). if a = [] then (would_block, s, a, b)
       else (Inr (take n a), s\<lparr>io_fromClient := io_fromClient s @ take n a\<rparr>, drop n a, b)),
     sock_write = (\<lambda>k bytes (s, a, b). (Inr (length bytes), s\<lparr>io_toClient := io_toClient s @ bytes\<rparr>, a, b)),
     sock_shutdownWrite = (\<lambda>k w. (Inr (), w)), sock_close = (\<lambda>k w. w), tcp_listen = (\<lambda>h p n w. (Some 3, w)),
     tcp_accept = (\<lambda>l w. (Some None, w)), tcp_connect = (\<lambda>h p t w. (Inr 6, w))\<rparr>"

definition tiny_client :: ForwardingClient where
  "tiny_client = (new_client 6)\<lparr>fc_channel := Some 1\<rparr>"

definition tiny_state :: "'w \<Rightarrow> 'w ForwardState" where
  "tiny_state w = \<lparr>fs_session = sample_connection\<lparr>ls_forwardingChannels := [(1, 9)], ls_nextForwardingResourceId := 2\<rparr>,
     fs_clients = [], fs_bytesFromClients = 0, fs_bytesToClients = 0, fs_rejectedClients = 0, fs_publishedClientCount = 0,
     fs_nextCounterPublish = 0, fs_snapshot = empty_snapshot, fs_published = [], fs_world = w\<rparr>"

definition tiny_io :: ClientIo where
  "tiny_io = \<lparr>io_fromClient = [], io_toRemote = [], io_fromRemote = [], io_toClient = []\<rparr>"

definition tiny_done :: ClientIo where
  "tiny_done = \<lparr>io_fromClient = [1, 2, 3], io_toRemote = [1, 2, 3], io_fromRemote = [9], io_toClient = [9]\<rparr>"

lemmas tiny_defs = tiny_env_def tiny_lib_def tiny_client_def tiny_state_def tiny_io_def tiny_done_def sample_session_defs

lemma tiny_carries: "carries_bytes tiny_env 5 6 9 fst"
  by (auto simp: carries_bytes_def reads_into_def writes_from_def tiny_env_def tiny_lib_def sample_channels_def quiet_lib_def would_block_def
    waitForSessionIo_def split: if_splits prod.splits)

lemma tiny_turn:
  "pumpEstablishedClient tiny_env 5 1 tiny_client (tiny_state (tiny_io, [1, 2, 3], [9]))
    = Some (True, tiny_client, (tiny_state (tiny_done, [], []))\<lparr>fs_bytesFromClients := 3, fs_bytesToClients := 1\<rparr>)"
  by (simp add: pumpEstablishedClient_def then_step_def total_step_def read_client_def write_remote_def send_remote_eof_def
    read_remote_def flushClientOutput_def shutdown_client_def client_finished_def drain_loop.simps fill_loop.simps
    writeForwardingChannel_def readForwardingChannel_def forwardingChannelEof_def channel_write_once_def channel_read_once_def
    channel_io_error_def forwardingChannel_def bq_append_def bq_consume_def bq_compact_def bq_size_def bq_view_def empty_queue_def
    new_client_def transferBytes_def maximumBufferedBytesPerDirection_def would_block_def tiny_defs)

theorem forwarded_bytes_in_order_witness:
  "io_toRemote tiny_done = io_fromClient tiny_done \<and> io_toClient tiny_done = io_fromRemote tiny_done"
proof -
  let ?st = "tiny_state (tiny_io, [1, 2, 3], [9])"
  let ?st' = "(tiny_state (tiny_done, [], []))\<lparr>fs_bytesFromClients := 3, fs_bytesToClients := 1\<rparr>"
  have start: "carries_bytes tiny_env 5 (fc_socket tiny_client) 9 fst" "forwardingChannel 1 (fs_session ?st) = Some 9"
    "bq_inv (fc_toRemote tiny_client)" "bq_inv (fc_toClient tiny_client)" "\<not> fc_channelEofSent tiny_client"
    using tiny_carries
    by (simp_all add: tiny_client_def new_client_def tiny_state_def forwardingChannel_def bq_inv_def empty_queue_def bq_size_def)
  have "(relay_step tiny_env 5 1 fst)\<^sup>*\<^sup>* (tiny_client, ?st) (tiny_client, ?st')"
    using relay_step.Turn [OF tiny_turn] by (rule r_into_rtranclp)
  from forwarded_bytes_in_order [OF start this] show ?thesis
    by (simp add: tiny_state_def tiny_io_def tiny_done_def tiny_client_def new_client_def bq_view_def empty_queue_def)
qed

definition full_client :: ForwardingClient where
  "full_client = tiny_client\<lparr>fc_toRemote := \<lparr>bq_bytes = replicate 262143 0, bq_offset = 0\<rparr>\<rparr>"

theorem full_queue_drops_client_witness:
  "\<exists>st'. process_loop tiny_env 5 [full_client] (tiny_state (tiny_io, [1, 2, 3], [])) = Some ([], st')"
proof -
  let ?st = "tiny_state (tiny_io, [1, 2, 3], [])"
  let ?w = "(tiny_io\<lparr>io_fromClient := [1, 2, 3]\<rparr>, [] :: byte list, [] :: byte list)"
  have read: "sock_read tiny_env (fc_socket full_client) transferBytes (fs_world ?st) = (Inr [1, 2, 3], ?w)"
    by (simp add: tiny_env_def tiny_state_def transferBytes_def tiny_io_def)
  obtain st' where close: "closeClient tiny_env 5 full_client (?st\<lparr>fs_world := ?w\<rparr>) = Some st'"
    by (simp add: closeClient_def full_client_def without_token_def closeForwardingChannel_def forwardingChannel_def close_forwarding_def
      settle_step_def tiny_defs)
  show ?thesis
    by (subst full_queue_drops_client [OF _ _ _ _ read, where i = 1])
      (simp_all add: close, simp_all add: full_client_def tiny_client_def new_client_def bq_view_def)
qed

end
