(* ===== verification/Forwarding_Job.thy ===== *)
theory Forwarding_Job
  imports Forwarding_Relay Ssh_Boot_Safety
begin

text \<open>
  The forwarding job as a whole: what it publishes, how many clients it serves, and that each of them has a
  channel of its own.
\<close>

section \<open>Rules\<close>

text \<open>The list of rules is valid exactly if it is short, each rule is valid and no id occurs twice.\<close>

lemma find_rule_None [simp]: "find (\<lambda>r. fr_id r = i) rs = None \<longleftrightarrow> i \<notin> fr_id ` set rs"
  by (auto simp: find_None_iff)

lemma validPortForwardingRules_iff:
  "validPortForwardingRules rules \<longleftrightarrow>
     length rules \<le> 128 \<and> list_all validPortForwardingRule rules \<and> distinct (map fr_id rules)"
proof -
  have "forwarding_rules_loop rs \<longleftrightarrow> list_all validPortForwardingRule rs \<and> distinct (map fr_id rs)" for rs
    by (induction rs) (auto simp del: not_None_eq)
  then show ?thesis by (auto simp: validPortForwardingRules_def maximumPortForwardingRuleCount_def)
qed

section \<open>The connection a job starts from\<close>

definition results :: "('s, 'e, 'a) attempt \<Rightarrow> ('a \<Rightarrow> bool) \<Rightarrow> bool" where
  "results f P \<longleftrightarrow> (\<forall>b a b'. f b = Some (Inr a, b') \<longrightarrow> P a)"

lemma results_then: "results f P \<Longrightarrow> (\<And>a. P a \<Longrightarrow> results (g a) Q) \<Longrightarrow> results (andThen f g) Q"
  unfolding results_def andThen_Inr by blast

lemma results_any: "results f (\<lambda>_. True)"
  by (simp add: results_def)

lemma results_return: "P a \<Longrightarrow> results (boot_return a) P"
  by (simp add: results_def boot_return_def)

lemma session_boot_results:
  assumes "\<And>w r s' w'. operation session w = Some (r, s', w') \<Longrightarrow> session_inv s'"
  shows "results (session_boot operation session) session_inv"
  using assms by (auto simp: results_def session_boot_def split: option.splits sum.splits)

lemma check_results:
  assumes "session_inv s" shows "results (check_host_key E path e s) session_inv"
proof -
  have v: "session_inv s'" if "verifyHostKey L ep hosts s = (trust, s')" "session_inv s" for L ep hosts trust s s'
    using step_verify that by blast
  have c: "session_inv s'" if "confirm_unknown E path ep key hosts s b = Some (Inr s', b')" "session_inv s" for ep key hosts s b s' b'
    using that v
    by (fastforce simp: confirm_unknown_def boot_fail_def Let_def
      split: UnknownHostKeyDecision.splits sum.splits prod.splits if_splits HostKeyTrust.splits)
  show ?thesis using assms v c
    by (fastforce simp: results_def check_host_key_def boot_fail_def boot_return_def Let_def
      split: sum.splits prod.splits if_splits)
qed

lemma authenticate_results:
  assumes "session_inv s" shows "results (authenticate_hop E transport e s) session_inv"
proof -
  have "session_inv s'" if "authenticate_with E transport e s w = Some (r, s', w')" for w r s' w'
    using that step_authenticate assms
    by (fastforce simp: authenticate_with_def Let_def split: SshAuthenticationMethod.splits)
  then have "results (session_boot (authenticate_with E transport e) s) session_inv" by (rule session_boot_results)
  then show ?thesis by (auto simp: results_def authenticate_hop_def split: if_splits)
qed

lemma session_new_inv: "session_inv session_new"
  by (simp add: session_inv_defs session_new_def)

lemma hop_results: "results (authenticateEndpoint E path e transport) session_inv"
  unfolding authenticateEndpoint_def
proof (rule results_then)
  show "results (create_session E) session_inv"
    using session_new_inv by (auto simp: results_def create_session_def split: prod.splits bool.splits)
  fix s assume "session_inv s"
  then show "results (andThen (publishPhase Handshaking) (\<lambda>_.
      andThen (session_boot (ssh_handshake (be_lib E) transport (endpoint_timeout (e_connectionTimeout e))) s) (\<lambda>session.
      andThen (publishPhase VerifyingHostKey) (\<lambda>_.
      andThen (check_host_key E path e session) (\<lambda>session.
      andThen (publishPhase Authenticating) (\<lambda>_. authenticate_hop E transport e session)))))) session_inv"
    by (intro results_then [OF results_any] results_then [OF session_boot_results] results_then [OF check_results] authenticate_results)
      (auto intro: step_handshake)
qed

lemma rest_results: "session_inv (snd link) \<Longrightarrow> results (boot_rest E path link es) (\<lambda>l. session_inv (snd l))"
  by (induction E path link es rule: boot_rest.induct)
    (auto intro!: results_return results_then [OF results_any] results_then [OF hop_results])

lemma establish_inv:
  assumes "establishAuthenticatedSshConnection E request b = Some (Inr (transport, session), b')"
  shows "session_inv session"
proof -
  have first: "results (boot_first E path e) (\<lambda>l. session_inv (snd l))" for path e
    unfolding boot_first_def by (intro results_then [OF results_any] results_then [OF hop_results] results_return) simp
  have fail: "results (boot_fail e) (\<lambda>l :: nat \<times> Libssh2Session. session_inv (snd l))" for e
    by (simp add: results_def boot_fail_def)
  have "results (establishAuthenticatedSshConnection E request) (\<lambda>l. session_inv (snd l))"
    unfolding establishAuthenticatedSshConnection_def
    by (cases "cr_jumpHosts request")
      (auto intro: fail intro!: results_then [OF results_any] first results_then [OF first] rest_results)
  then show ?thesis using assms unfolding results_def by fastforce
qed

section \<open>Clients and their channels\<close>

definition client_channels :: "ForwardingClient list \<Rightarrow> u64 list" where
  "client_channels clients = List.map_filter fc_channel clients"

lemma client_channels_simps [simp]:
  "client_channels [] = []"
  "client_channels (c # cs) = (case fc_channel c of None \<Rightarrow> client_channels cs | Some i \<Rightarrow> i # client_channels cs)"
  "client_channels (cs @ ds) = client_channels cs @ client_channels ds"
  by (simp_all add: client_channels_def map_filter_def split: option.split)

text \<open>Every channel is open in the session and belongs to one client only.\<close>

definition owned :: "ForwardingClient list \<Rightarrow> Libssh2Session \<Rightarrow> bool" where
  "owned clients s \<longleftrightarrow> session_inv s \<and> distinct (client_channels clients)
     \<and> (\<forall>i \<in> set (client_channels clients). forwardingChannel i s \<noteq> None)"

text \<open>What a step of a client leaves alone, and what it may do: nothing to the channels, or open one for the client.\<close>

definition framed :: "'w ForwardState \<Rightarrow> 'w ForwardState \<Rightarrow> bool" where
  "framed st st' \<longleftrightarrow> fs_clients st' = fs_clients st \<and> fs_snapshot st' = fs_snapshot st \<and> fs_published st' = fs_published st"

lemma framed_refl [simp]: "framed st st"
  by (simp add: framed_def)

lemma framed_trans: "framed st st1 \<Longrightarrow> framed st1 st2 \<Longrightarrow> framed st st2"
  by (simp add: framed_def)

definition keeps_channel :: "'w client_step \<Rightarrow> bool" where
  "keeps_channel f \<longleftrightarrow> (\<forall>client st keep client' st'. f client st = Some (keep, client', st') \<longrightarrow>
     framed st st' \<and> fs_session st' = fs_session st \<and> fc_channel client' = fc_channel client)"

lemma keeps_then: "keeps_channel f \<Longrightarrow> keeps_channel g \<Longrightarrow> keeps_channel (then_step f g)"
  unfolding keeps_channel_def then_step_def framed_def
  by (fastforce split: option.splits if_splits)

lemma eof_session: "sendForwardingChannelEof C transport i t s w = Some (r, s', w') \<Longrightarrow> s' = s"
  by (auto simp: sendForwardingChannelEof_def dest!: checked_result looped_result split: sum.splits)

lemma keeps_steps:
  "keeps_channel (total_step (read_client E))" "keeps_channel (total_step (write_remote E i))"
  "keeps_channel (total_step (read_remote E i))" "keeps_channel (total_step (flushClientOutput E))"
  "keeps_channel (total_step (shutdown_client E i))" "keeps_channel (send_remote_eof E transport i)"
  by (auto simp: keeps_channel_def total_step_def framed_def read_client_def write_remote_def read_remote_def flushClientOutput_def
    shutdown_client_def send_remote_eof_def split: if_splits prod.splits sum.splits option.splits bool.splits dest!: eof_session)

lemma keeps_pump: "keeps_channel (pumpEstablishedClient E transport i)"
  unfolding pumpEstablishedClient_def by (intro keeps_then keeps_steps) (simp add: keeps_channel_def)

definition channel_step :: "ForwardingClient \<Rightarrow> 'w ForwardState \<Rightarrow> ForwardingClient \<Rightarrow> 'w ForwardState \<Rightarrow> bool" where
  "channel_step client st client' st' \<longleftrightarrow> framed st st' \<and>
     (fs_session st' = fs_session st \<and> fc_channel client' = fc_channel client
      \<or> (\<exists>c. ls_authenticated (fs_session st) \<and> ls_nextForwardingResourceId (fs_session st) \<noteq> 0
           \<and> fs_session st' = add_channel c (fs_session st) \<and> fc_channel client' = Some (ls_nextForwardingResourceId (fs_session st))))"

lemma open_forwarding_result:
  assumes "openForwardingChannel C t h port oh op timeout s w = Some (r, s', w')"
  shows "case r of Inl e \<Rightarrow> s' = s
    | Inr i \<Rightarrow> i = ls_nextForwardingResourceId s \<and> i \<noteq> 0 \<and> ls_authenticated s \<and> (\<exists>c. s' = add_channel c s)"
  using assms unfolding openForwardingChannel_def checked_resource_def checked_def
  by (auto split: if_splits option.splits prod.splits sum.splits)

lemma reject_channel: "reject_client E code client st = Some (keep, client', st') \<Longrightarrow>
    framed st st' \<and> fs_session st' = fs_session st \<and> fc_channel client' = fc_channel client"
  by (auto simp: reject_client_def rejectSocksClient_def framed_def split: prod.splits if_splits)

lemma connect_channel:
  assumes "connect_destination E transport destination remaining client st = Some (keep, client', st')"
  shows "channel_step client st client' st'"
proof -
  obtain r s w where r: "openForwardingChannel (fe_channels E) transport (sd_host destination) (sd_port destination) localhost 0
      channelOperationTimeout (fs_session st) (fs_world st) = Some (r, s, w)"
    using assms by (auto simp: connect_destination_def split: option.splits)
  show ?thesis
  proof (cases r)
    case (Inl e)
    then have "reject_client E Socks5ReplyCode.HostUnreachable client (st\<lparr>fs_session := s, fs_world := w\<rparr>) = Some (keep, client', st')"
      using assms r by (simp add: connect_destination_def)
    from reject_channel [OF this] show ?thesis
      using open_forwarding_result [OF r] Inl by (simp add: channel_step_def framed_def)
  next
    case (Inr i)
    then have "fs_session st' = s" "fc_channel client' = Some i" "framed st st'"
      using assms r by (auto simp: connect_destination_def framed_def split: prod.splits)
    then show ?thesis using open_forwarding_result [OF r] Inr by (auto simp: channel_step_def)
  qed
qed

lemma handshake_channel:
  "handshake_rounds E transport h consumed client st = Some (keep, client', st') \<Longrightarrow> channel_step client st client' st'"
proof (induction E transport h consumed client st rule: handshake_rounds.induct)
  case (1 E transport h consumed client st)
  note run = 1(2) [unfolded handshake_rounds.simps [of E transport h consumed]]
  let ?client = "client\<lparr>fc_socksHandshake := Some h\<rparr>"
  have reject: "channel_step client st client' st'" if "fc_channel c = fc_channel client"
      "reject_client E GeneralFailure c st = Some (keep, client', st')" for c
    using reject_channel [OF that(2)] that(1) by (simp add: channel_step_def)
  show ?case
  proof (cases consumed)
    case (Inl e)
    then show ?thesis using run reject [of ?client] by simp
  next
    case (Inr r)
    obtain q ok where q: "(if sr_response r = [] then (fc_toClient ?client, True) else bq_append (sr_response r) (fc_toClient ?client)) = (q, ok)"
      by fastforce
    let ?c = "?client\<lparr>fc_toClient := q\<rparr>"
    show ?thesis
    proof (cases ok)
      case False
      then show ?thesis using run Inr q by (auto simp: channel_step_def)
    next
      case True
      note go = run [unfolded Inr Let_def sum.case q prod.case, simplified True, simplified]
      show ?thesis
      proof (cases "sr_status r")
        case NeedMore
        then show ?thesis using go by (auto simp: channel_step_def)
      next
        case Rejected
        then show ?thesis using go by (auto simp: channel_step_def framed_def)
      next
        case DestinationReady
        show ?thesis
        proof (cases "sr_destination r")
          case None
          then show ?thesis using go DestinationReady reject [of ?c] by simp
        next
          case (Some d)
          then have "channel_step ?c st client' st'" using go DestinationReady connect_channel by fastforce
          then show ?thesis by (simp add: channel_step_def)
        qed
      next
        case SendMethodSelection
        obtain h' c' where h': "s5_consume [] h = (h', c')" by fastforce
        have "handshake_rounds E transport h' c' ?c st = Some (keep, client', st')" using go SendMethodSelection h' by simp
        then have "channel_step ?c st client' st'"
          using 1(1) [OF refl Inr q [symmetric] _ refl SendMethodSelection h' [symmetric]] True by blast
        then show ?thesis by (simp add: channel_step_def)
      qed
    qed
  qed
qed

lemma socks_channel:
  assumes "completeSocksHandshake E transport client st = Some (keep, client', st')"
  shows "channel_step client st client' st'"
proof -
  obtain r w where r: "sock_read E (fc_socket client) 1024 (fs_world st) = (r, w)" by fastforce
  have same: "channel_step client (st\<lparr>fs_world := w\<rparr>) client' st' \<Longrightarrow> ?thesis" by (simp add: channel_step_def framed_def)
  show ?thesis
    using assms r
    by (auto simp: completeSocksHandshake_def split: sum.splits if_splits option.splits prod.splits
      intro!: same dest!: handshake_channel) (simp_all add: channel_step_def framed_def)
qed

lemma process_channel:
  assumes "process_client E transport client st = Some (keep, client', st')"
  shows "channel_step client st client' st'"
proof (cases "fc_socksHandshake client = None")
  case True
  have pump: "keeps_channel (pumpEstablishedClient E transport i)" for i by (rule keeps_pump)
  show ?thesis
  proof (cases "fc_channel client")
    case None
    then show ?thesis using assms True by (simp add: process_client_def channel_step_def)
  next
    case (Some i)
    then show ?thesis using assms True pump [of i] by (fastforce simp: process_client_def channel_step_def keeps_channel_def)
  qed
next
  case False
  then obtain kept client1 st1 where 1: "completeSocksHandshake E transport client st = Some (kept, client1, st1)"
    using assms by (auto simp: process_client_def then_step_def split: option.splits)
  note c = socks_channel [OF 1]
  have "framed st1 st' \<and> fs_session st' = fs_session st1 \<and> fc_channel client' = fc_channel client1"
    using assms False 1 by (auto simp: process_client_def then_step_def total_step_def flushClientOutput_def framed_def
      split: if_splits prod.splits)
  then show ?thesis using c by (auto simp: channel_step_def framed_def)
qed

text \<open>The id of a new channel is no client's yet.\<close>

lemma owned_channel_step:
  assumes owned: "owned (kept @ client # rest) (fs_session st)" and step: "channel_step client st client' st'"
  shows "owned (kept @ client' # rest) (fs_session st')"
  using step unfolding channel_step_def
proof (elim conjE disjE exE)
  assume "fs_session st' = fs_session st" "fc_channel client' = fc_channel client"
  then show ?thesis using owned by (simp add: owned_def)
next
  fix c
  let ?s = "fs_session st" let ?i = "ls_nextForwardingResourceId ?s"
  assume auth: "ls_authenticated ?s" "?i \<noteq> 0" and new: "fs_session st' = add_channel c ?s" "fc_channel client' = Some ?i"
  have inv: "session_inv ?s" using owned by (simp add: owned_def)
  have "?i \<notin> set (resource_ids ?s)" using inv auth(2) by (auto simp: session_inv_def resources_ok_def)
  then have none: "?i \<notin> fst ` set (ls_forwardingChannels ?s)" by (simp add: resource_ids_def)
  have old: "i \<noteq> ?i" "forwardingChannel i (add_channel c ?s) \<noteq> None" if "i \<in> set (client_channels (kept @ client # rest))" for i
  proof -
    have "forwardingChannel i ?s \<noteq> None" using owned that by (simp add: owned_def)
    then have "i \<in> fst ` set (ls_forwardingChannels ?s)" by (simp add: forwardingChannel_def map_of_eq_None_iff)
    then show "i \<noteq> ?i" using none by metis
    show "forwardingChannel i (add_channel c ?s) \<noteq> None"
      using \<open>i \<in> fst ` set (ls_forwardingChannels ?s)\<close> by (auto simp: forwardingChannel_def add_channel_def map_of_eq_None_iff)
  qed
  have "forwardingChannel ?i (add_channel c ?s) \<noteq> None" by (simp add: forwardingChannel_def add_channel_def map_of_eq_None_iff)
  moreover have "distinct (client_channels (kept @ client # rest))" using owned by (simp add: owned_def)
  moreover have "session_inv (add_channel c ?s)" by (rule inv_add_channel [OF inv auth])
  ultimately show ?thesis using new old by (cases "fc_channel client") (auto simp: owned_def)
qed

lemma close_result:
  assumes "closeForwardingChannel C t i timeout s w = Some (r, s', w')"
  shows "s' = s \<or> s' = erase_channel i s"
  using assms by (auto simp: closeForwardingChannel_def close_forwarding_def dest!: checked_result
    split: option.splits prod.splits sum.splits)

lemma forwarding_erased: "i \<noteq> j \<Longrightarrow> forwardingChannel i (erase_channel j s) = forwardingChannel i s"
proof -
  assume "i \<noteq> j"
  then have "map_of (erase_first (\<lambda>e. fst e = j) xs) i = map_of xs i" for xs by (induction xs) auto
  then show ?thesis by (simp add: forwardingChannel_def erase_channel_def)
qed

lemma owned_closed:
  assumes "owned (kept @ client # rest) s" and "fc_channel client = Some i" and "s' = s \<or> s' = erase_channel i s"
  shows "owned (kept @ rest) s'"
proof -
  have "j \<noteq> i" "forwardingChannel j s \<noteq> None" if "j \<in> set (client_channels (kept @ rest))" for j
    using assms(1,2) that by (auto simp: owned_def)
  then have "\<forall>j \<in> set (client_channels (kept @ rest)). forwardingChannel j s' \<noteq> None"
    using assms(3) forwarding_erased by metis
  then show ?thesis using assms inv_erase_channel [of s i] unfolding owned_def by auto
qed

lemma close_client:
  assumes "closeClient E transport client st = Some st'"
  shows "framed st st' \<and> (case fc_channel client of None \<Rightarrow> fs_session st' = fs_session st
    | Some i \<Rightarrow> fs_session st' = fs_session st \<or> fs_session st' = erase_channel i (fs_session st))"
  using assms by (auto simp: closeClient_def framed_def split: option.splits dest!: close_result)

lemma owned_closed_client:
  assumes "owned (kept @ client # rest) (fs_session st)" and "closeClient E transport client st = Some st'"
  shows "owned (kept @ rest) (fs_session st') \<and> framed st st'"
proof (cases "fc_channel client")
  case None
  then show ?thesis using close_client [OF assms(2)] assms(1) by (simp add: owned_def)
next
  case (Some i)
  then show ?thesis using close_client [OF assms(2)] owned_closed [OF assms(1) Some] by simp
qed

lemma process_loop_owned:
  assumes "process_loop E transport clients st = Some (kept, st')" and "owned (before @ clients) (fs_session st)"
  shows "owned (before @ kept) (fs_session st') \<and> framed st st' \<and> length kept \<le> length clients"
  using assms
proof (induction clients arbitrary: before st kept st')
  case (Cons client rest)
  obtain keep client1 st1 where 1: "process_client E transport client st = Some (keep, client1, st1)"
    using Cons.prems(1) by (auto split: option.splits)
  note step = process_channel [OF 1]
  have o1: "owned (before @ client1 # rest) (fs_session st1)" by (rule owned_channel_step [OF Cons.prems(2) step])
  have f1: "framed st st1" using step by (simp add: channel_step_def)
  show ?case
  proof (cases keep)
    case True
    then obtain kept' where k: "process_loop E transport rest st1 = Some (kept', st')" "kept = client1 # kept'"
      using Cons.prems(1) 1 by auto
    from Cons.IH [OF k(1), of "before @ [client1]"] show ?thesis using o1 f1 framed_trans k(2) by auto
  next
    case False
    then obtain st2 where c: "closeClient E transport client1 st1 = Some st2" and k: "process_loop E transport rest st2 = Some (kept, st')"
      using Cons.prems(1) 1 by (auto split: option.splits)
    have o2: "owned (before @ rest) (fs_session st2)" "framed st1 st2" using owned_closed_client [OF o1 c] by simp_all
    from Cons.IH [OF k o2(1)] have "owned (before @ kept) (fs_session st')" "framed st2 st'" "length kept \<le> length rest" by simp_all
    then show ?thesis using framed_trans [OF f1 framed_trans [OF o2(2)]] by simp
  qed
qed simp

lemma processClients_owned:
  assumes "processClients E transport st = Some st'" and "owned (fs_clients st) (fs_session st)"
  shows "owned (fs_clients st') (fs_session st') \<and> fs_snapshot st' = fs_snapshot st \<and> fs_published st' = fs_published st
    \<and> length (fs_clients st') \<le> length (fs_clients st)"
  using assms process_loop_owned [of E transport "fs_clients st" st _ _ "[]"]
  by (auto simp: processClients_def framed_def)

lemma close_all_owned:
  assumes "close_all E transport clients st = Some st'" and "owned clients (fs_session st)"
  shows "session_inv (fs_session st') \<and> framed st st'"
  using assms
proof (induction clients arbitrary: st)
  case Nil
  then show ?case by (simp add: owned_def)
next
  case (Cons client rest)
  obtain st1 where c: "closeClient E transport client st = Some st1" "close_all E transport rest st1 = Some st'"
    using Cons.prems(1) by (auto split: option.splits)
  have "owned rest (fs_session st1)" "framed st st1" using owned_closed_client [of "[]" client rest st] Cons.prems(2) c(1) by auto
  then show ?case using Cons.IH [OF c(2)] framed_trans by blast
qed

section \<open>Accepting\<close>

definition serving :: "'w ForwardState \<Rightarrow> bool" where
  "serving st \<longleftrightarrow> owned (fs_clients st) (fs_session st) \<and> length (fs_clients st) \<le> maximumPortForwardingClientsPerRule"

lemma owned_new:
  assumes "owned clients s" and "ls_authenticated s" "ls_nextForwardingResourceId s \<noteq> 0"
  shows "owned (clients @ [(new_client k)\<lparr>fc_channel := Some (ls_nextForwardingResourceId s)\<rparr>]) (add_channel c s)"
proof -
  let ?st = "tiny_state ()\<lparr>fs_session := s\<rparr>" and ?st' = "tiny_state ()\<lparr>fs_session := add_channel c s\<rparr>"
  have "owned (clients @ new_client k # []) (fs_session ?st)" using assms(1) by (simp add: owned_def new_client_def)
  moreover have "channel_step (new_client k) ?st ((new_client k)\<lparr>fc_channel := Some (ls_nextForwardingResourceId s)\<rparr>) ?st'"
    using assms(2,3) by (auto simp: channel_step_def framed_def)
  ultimately show ?thesis using owned_channel_step by fastforce
qed

lemma owned_add_only: "owned clients s \<Longrightarrow> ls_authenticated s \<Longrightarrow> ls_nextForwardingResourceId s \<noteq> 0 \<Longrightarrow> owned clients (add_channel c s)"
  using owned_new [of clients s 0 c] by (auto simp: owned_def)

lemma owned_erased_new:
  assumes "owned clients s" and "ls_authenticated s" "ls_nextForwardingResourceId s \<noteq> 0"
    and "s' = add_channel c s \<or> s' = erase_channel (ls_nextForwardingResourceId s) (add_channel c s)"
  shows "owned clients s'"
  using owned_closed [of clients "(new_client 0)\<lparr>fc_channel := Some (ls_nextForwardingResourceId s)\<rparr>" "[]" "add_channel c s"]
    owned_new [OF assms(1-3), of 0 c] assms(4) by simp

lemma accept_local_owned:
  assumes "accept_one_local E transport rule k st = Some st'" and "owned (fs_clients st) (fs_session st)"
  shows "owned (fs_clients st') (fs_session st') \<and> length (fs_clients st') \<le> Suc (length (fs_clients st))
    \<and> fs_snapshot st' = fs_snapshot st \<and> fs_published st' = fs_published st"
proof (cases "fr_type rule = DynamicForwarding")
  case True
  then show ?thesis using assms by (auto simp: accept_one_local_def owned_def new_client_def)
next
  case False
  obtain r s w where r: "openForwardingChannel (fe_channels E) transport (fp_host (fr_destination rule)) (fp_port (fr_destination rule))
      localhost 0 channelOperationTimeout (fs_session st) (fs_world st) = Some (r, s, w)"
    using assms(1) False by (auto simp: accept_one_local_def split: option.splits)
  note res = open_forwarding_result [OF r]
  show ?thesis
  proof (cases r)
    case (Inl e)
    then show ?thesis using assms False r res by (auto simp: accept_one_local_def)
  next
    case (Inr i)
    then show ?thesis using assms False r res owned_new [OF assms(2), of k] by (auto simp: accept_one_local_def)
  qed
qed

lemma accept_channel_result:
  assumes "acceptRemoteForwardingChannel C i bp s w = (a, s', w')"
  shows "case a of Inr (Some c) \<Rightarrow> \<exists>h. ls_remoteForwardListeners s \<noteq> [] \<and> c = ls_nextForwardingResourceId s \<and> c \<noteq> 0 \<and> s' = add_channel h s
    | _ \<Rightarrow> s' = s"
  using assms
  by (auto simp: acceptRemoteForwardingChannel_def remoteForwardListener_def Let_def split: option.splits prod.splits if_splits)

lemma accept_remote_owned:
  assumes "accept_one_remote E transport rule (ls_nextForwardingResourceId s) st = Some st'" and session: "fs_session st = add_channel h s"
    and "owned (fs_clients st) s" "ls_authenticated s" "ls_nextForwardingResourceId s \<noteq> 0"
  shows "owned (fs_clients st') (fs_session st') \<and> length (fs_clients st') \<le> Suc (length (fs_clients st))
    \<and> fs_snapshot st' = fs_snapshot st \<and> fs_published st' = fs_published st"
proof -
  obtain r w where r: "tcp_connect E (fp_host (fr_destination rule)) (fp_port (fr_destination rule)) channelOperationTimeout (fs_world st) = (r, w)"
    by fastforce
  show ?thesis
  proof (cases r)
    case (Inr k)
    then show ?thesis using assms(1) session r owned_new [OF assms(3-5), of k h] by (auto simp: accept_one_remote_def)
  next
    case (Inl e)
    then obtain u s' w' where c: "closeForwardingChannel (fe_channels E) transport (ls_nextForwardingResourceId s) 100 (add_channel h s) w = Some (u, s', w')"
      and st': "st' = st\<lparr>fs_session := s', fs_world := w', fs_rejectedClients := fs_rejectedClients st + 1\<rparr>"
      using assms(1) session r by (auto simp: accept_one_remote_def split: option.splits)
    show ?thesis using owned_erased_new [OF assms(3-5) close_result [OF c]] st' by simp
  qed
qed

lemma accept_turn_owned:
  assumes "accept_turn E transport rule listener st = Some a" and "owned (fs_clients st) (fs_session st)"
    and "st' = (case a of AcceptFailed s \<Rightarrow> s | AcceptNone s \<Rightarrow> s | AcceptMore s \<Rightarrow> s)"
  shows "owned (fs_clients st') (fs_session st') \<and> fs_snapshot st' = fs_snapshot st \<and> fs_published st' = fs_published st
    \<and> length (fs_clients st') \<le> (case a of AcceptMore s \<Rightarrow> Suc (length (fs_clients st)) | _ \<Rightarrow> length (fs_clients st))"
proof (cases listener)
  case (LocalListener l)
  obtain x w where x: "tcp_accept E l (fs_world st) = (x, w)" by fastforce
  consider "x = None" | "x = Some None" | k where "x = Some (Some k)" by (cases x; metis option.exhaust)
  then show ?thesis
  proof cases
    case (3 k)
    then show ?thesis using assms LocalListener x accept_local_owned [of E transport rule k "st\<lparr>fs_world := w\<rparr>"]
      by (auto simp: accept_turn_def)
  qed (use assms LocalListener x in \<open>auto simp: accept_turn_def\<close>)
next
  case (RemoteListener i bp)
  obtain x s w where x: "acceptRemoteForwardingChannel (fe_channels E) i bp (fs_session st) (fs_world st) = (x, s, w)"
    using prod_cases3 by blast
  note res = accept_channel_result [OF x]
  have auth: "ls_remoteForwardListeners (fs_session st) \<noteq> [] \<Longrightarrow> ls_authenticated (fs_session st)"
    using assms(2) inv_direct_use(4) by (simp add: owned_def)
  consider e where "x = Inl e" | "x = Inr None" | c where "x = Inr (Some c)" by (cases x; metis option.exhaust)
  then show ?thesis
  proof cases
    case (3 c)
    then obtain h where h: "c = ls_nextForwardingResourceId (fs_session st)" "c \<noteq> 0" "s = add_channel h (fs_session st)"
      "ls_authenticated (fs_session st)" using res auth by auto
    obtain st1 where st1: "a = AcceptMore st1"
      "accept_one_remote E transport rule c (st\<lparr>fs_session := s, fs_world := w\<rparr>) = Some st1"
      using assms(1) RemoteListener x 3 h by (auto simp: accept_turn_def)
    from accept_remote_owned [OF st1(2) [unfolded h(1)], of h] assms(2,3) h st1(1) show ?thesis by simp
  qed (use assms RemoteListener x res in \<open>auto simp: accept_turn_def\<close>)
qed

lemma accept_loop_serving:
  fixes st :: "'w ForwardState"
  assumes "accept_loop E transport rule listener st = Some (ok, st')" and "serving st"
  shows "serving st' \<and> fs_snapshot st' = fs_snapshot st \<and> fs_published st' = fs_published st"
proof -
  let ?post = "\<lambda>E' t r l st (y :: bool \<times> 'w ForwardState). serving st
    \<longrightarrow> serving (snd y) \<and> fs_snapshot (snd y) = fs_snapshot st \<and> fs_published (snd y) = fs_published st"
  have "?post E transport rule listener st (ok, st')"
  proof (rule accept_loop.raw_induct [of ?post, OF _ assms(1)])
    fix rec E t r l and st :: "'w ForwardState" and y
    assume IH: "\<And>E t r l st y. rec E t r l st = Some y \<Longrightarrow> ?post E t r l st y"
      and run: "(if maximumPortForwardingClientsPerRule \<le> length (fs_clients st) then Some (True, st)
        else case accept_turn E t r l st of None \<Rightarrow> None | Some (AcceptFailed st') \<Rightarrow> Some (False, st')
          | Some (AcceptNone st') \<Rightarrow> Some (True, st') | Some (AcceptMore st') \<Rightarrow> rec E t r l st') = Some y"
    show "?post E t r l st y"
    proof (rule impI)
      assume s: "serving st"
      show "serving (snd y) \<and> fs_snapshot (snd y) = fs_snapshot st \<and> fs_published (snd y) = fs_published st"
      proof (cases "maximumPortForwardingClientsPerRule \<le> length (fs_clients st)")
        case True
        then show ?thesis using run s by auto
      next
        case False
        then obtain a where a: "accept_turn E t r l st = Some a" using run by (auto split: option.splits)
        note o = accept_turn_owned [OF a _ refl, simplified serving_def]
        show ?thesis
        proof (cases a)
          case (AcceptMore st1)
          then have "serving st1 \<and> fs_snapshot st1 = fs_snapshot st \<and> fs_published st1 = fs_published st"
            using o s False by (simp add: serving_def)
          moreover have "rec E t r l st1 = Some y" using run False a AcceptMore by simp
          ultimately show ?thesis using IH [of E t r l st1 y] by simp
        qed (use run False a o s in \<open>auto simp: serving_def\<close>)
      qed
    qed
  qed
  then show ?thesis using assms(2) by simp
qed

section \<open>What the job publishes\<close>

definition running_snapshot :: "PortForwardingJobSnapshot \<Rightarrow> bool" where
  "running_snapshot p \<longleftrightarrow> pj_state p = JobRunning \<and> pj_failure p = NoJobFailure \<and> pj_activeClients p \<le> 32"

definition final_snapshot :: "PortForwardingJobSnapshot \<Rightarrow> bool" where
  "final_snapshot p \<longleftrightarrow> pj_activeClients p = 0
     \<and> (pj_state p = JobStopped \<and> pj_failure p = NoJobFailure
       \<or> pj_state p = JobFailed \<and> pj_failure p \<in> {ListenerFailed, RemoteListenerFailed, TransportFailed})"

definition running :: "PortForwardingJobSnapshot list \<Rightarrow> 'w ForwardState \<Rightarrow> bool" where
  "running before st \<longleftrightarrow> serving st \<and> running_snapshot (fs_snapshot st)
     \<and> (\<exists>ps. fs_published st = before @ ps \<and> list_all running_snapshot ps)"

definition ended :: "PortForwardingJobSnapshot list \<Rightarrow> 'w ForwardState \<Rightarrow> bool" where
  "ended before st \<longleftrightarrow> session_inv (fs_session st) \<and> final_snapshot (fs_snapshot st)
     \<and> (\<exists>ps. fs_published st = before @ ps @ [fs_snapshot st] \<and> list_all running_snapshot ps)"

lemma publish_final:
  assumes "final_snapshot \<lparr>pj_state = state, pj_failure = failure, pj_activeClients = 0, pj_bytesFromClients = 0,
      pj_bytesToClients = 0, pj_rejectedClients = 0\<rparr>"
    and "session_inv (fs_session st)" "fs_published st = before @ ps" "list_all running_snapshot ps"
  shows "ended before (publish_state state failure st)"
  using assms by (auto simp: ended_def publish_state_def publish_snapshot_def final_snapshot_def)

lemma close_all_running:
  assumes "close_all E transport (fs_clients st) st = Some st'" and "running before st"
  shows "session_inv (fs_session st') \<and> (\<exists>ps. fs_published st' = before @ ps \<and> list_all running_snapshot ps)"
  using close_all_owned [OF assms(1)] assms(2) by (auto simp: running_def serving_def framed_def)

lemma end_job_ended:
  assumes "end_job E transport JobFailed failure st = Some st'" and "running before st"
    and "failure \<in> {ListenerFailed, RemoteListenerFailed, TransportFailed}"
  shows "ended before st'"
proof -
  obtain st1 where c: "close_all E transport (fs_clients st) st = Some st1" "st' = publish_state JobFailed failure st1"
    using assms(1) by (auto simp: end_job_def)
  from close_all_running [OF c(1) assms(2)] assms(3) c(2) show ?thesis
    by (auto intro!: publish_final simp: final_snapshot_def)
qed

lemma stop_job_ended:
  assumes "stop_job E transport listener st = Some st'" and "running before st"
  shows "ended before st'"
proof -
  obtain st1 where c: "close_all E transport (fs_clients st) st = Some st1" using assms(1) by (auto simp: stop_job_def split: option.splits)
  obtain ps where 1: "session_inv (fs_session st1)" "fs_published st1 = before @ ps" "list_all running_snapshot ps"
    using close_all_running [OF c assms(2)] by auto
  have final: "ended before (publish_state JobStopped NoJobFailure st2)"
    if "session_inv (fs_session st2)" "fs_published st2 = fs_published st1" for st2 :: "'a ForwardState"
    using that 1 by (auto intro!: publish_final simp: final_snapshot_def)
  have l: "s' = s \<or> s' = erase_listener i s" if "closeRemoteForwardListener C transport i t s w = Some (r, s', w')" for C i t s w r s' w'
    using that by (auto simp: closeRemoteForwardListener_def dest!: checked_result looped_result split: sum.splits)
  show ?thesis
    using assms(1) c 1(1) inv_erase_listener
    by (auto simp: stop_job_def split: ForwardListener.splits option.splits dest!: l intro!: final)
qed

lemma published_counters:
  assumes "running before st" and "session_inv (fs_session st')" "owned (fs_clients st') (fs_session st')"
    and "length (fs_clients st') \<le> length (fs_clients st)" "fs_snapshot st' = fs_snapshot st" "fs_published st' = fs_published st"
  shows "running before (publish_due E (copy_counters st'))"
proof -
  have n: "length (fs_clients st') \<le> 32"
    using assms(1,4) by (simp add: running_def serving_def maximumPortForwardingClientsPerRule_def)
  obtain ps where ps: "fs_published st' = before @ ps" "list_all running_snapshot ps" using assms(1,6) by (auto simp: running_def)
  have "running_snapshot (fs_snapshot st')" using assms(1,5) by (simp add: running_def)
  then show ?thesis using n ps assms(3)
    by (auto simp: running_def serving_def publish_due_def copy_counters_def publishCounters_def publish_snapshot_def running_snapshot_def
      maximumPortForwardingClientsPerRule_def)
qed

lemma job_turn_result:
  assumes "job_turn E transport rule listener st = Some result" and run: "running before st"
  shows "case result of Inl st' \<Rightarrow> ended before st' | Inr st' \<Rightarrow> running before st'"
proof -
  obtain accepted st1 where a: "accept_loop E transport rule listener st = Some (accepted, st1)"
    using assms(1) by (auto simp: job_turn_def split: option.splits)
  from accept_loop_serving [OF a] run have 1: "running before st1" by (simp add: running_def)
  show ?thesis
  proof (cases accepted)
    case False
    then have "map_option Inl (end_job E transport JobFailed
        (case listener of LocalListener l \<Rightarrow> ListenerFailed | RemoteListener i p \<Rightarrow> RemoteListenerFailed) st1) = Some result"
      using assms(1) a by (simp add: job_turn_def)
    then show ?thesis using end_job_ended [OF _ 1] by (cases listener) auto
  next
    case True
    then obtain st2 where p: "processClients E transport st1 = Some st2" using assms(1) a by (auto simp: job_turn_def split: option.splits)
    have own: "owned (fs_clients st1) (fs_session st1)" using 1 by (simp add: running_def serving_def)
    let ?st3 = "publish_due E (copy_counters st2)"
    have 3: "running before ?st3" using processClients_owned [OF p own] 1 by (intro published_counters) (auto simp: owned_def)
    obtain waited w where w: "waitForwardingIo (fe_channels E) transport (fs_session ?st3) (fs_world ?st3) = (waited, w)" by fastforce
    have 4: "running before (?st3\<lparr>fs_world := w\<rparr>)" using 3 by (simp add: running_def serving_def)
    show ?thesis using assms(1) a True p w 4 end_job_ended [OF _ 4]
      by (auto simp: job_turn_def Let_def split: if_splits)
  qed
qed

lemma job_loop_ended:
  fixes st :: "'w ForwardState"
  assumes "job_loop E transport rule listener st = Some st'" and "running before st"
  shows "ended before st'"
proof -
  let ?post = "\<lambda>E' t r l st (y :: 'w ForwardState). running before st \<longrightarrow> ended before y"
  have "?post E transport rule listener st st'"
  proof (rule job_loop.raw_induct [of ?post, OF _ assms(1)])
    fix rec E t r l and st :: "'w ForwardState" and y
    assume IH: "\<And>E t r l st y. rec E t r l st = Some y \<Longrightarrow> ?post E t r l st y"
      and step: "(if stop_requested (lc_lib (fe_channels E)) (fs_world st) then stop_job E t l st
        else case job_turn E t r l st of None \<Rightarrow> None | Some (Inl st') \<Rightarrow> Some st' | Some (Inr st') \<Rightarrow> rec E t r l st') = Some y"
    show "?post E t r l st y"
    proof (rule impI)
      assume run: "running before st"
      show "ended before y"
      proof (cases "stop_requested (lc_lib (fe_channels E)) (fs_world st)")
        case True
        then show ?thesis using step stop_job_ended [OF _ run] by simp
      next
        case False
        then obtain result where r: "job_turn E t r l st = Some result" using step by (auto split: option.splits)
        note res = job_turn_result [OF r run]
        show ?thesis
        proof (cases result)
          case (Inl st1)
          then show ?thesis using step False r res by auto
        next
          case (Inr st1)
          then have "rec E t r l st1 = Some y" using step False r by simp
          then show ?thesis using IH res Inr by simp
        qed
      qed
    qed
  qed
  then show ?thesis using assms(2) by simp
qed

lemma open_listener_inv:
  assumes "open_listener E transport rule st = Some (r, st')" and "session_inv (fs_session st)"
  shows "session_inv (fs_session st') \<and> fs_snapshot st' = fs_snapshot st \<and> fs_published st' = fs_published st
    \<and> (case r of Inl e \<Rightarrow> e \<in> {ListenerFailed, RemoteListenerFailed} | Inr l \<Rightarrow> True)"
proof (cases "fr_type rule = RemoteForwarding")
  case True
  then obtain x s w where x: "openRemoteForwardListener (fe_channels E) transport (fp_host (fr_bind rule)) (fp_port (fr_bind rule))
      (of_nat maximumPortForwardingClientsPerRule) channelOperationTimeout (fs_session st) (fs_world st) = Some (x, s, w)"
    using assms(1) by (auto simp: open_listener_def split: option.splits)
  have "session_inv s" by (rule step_open_listener [OF x assms(2)])
  then show ?thesis using assms(1) True x by (cases x) (auto simp: open_listener_def split: prod.splits)
next
  case False
  then show ?thesis using assms by (auto simp: open_listener_def split: prod.splits option.splits)
qed

lemma begun_running:
  assumes "session_inv (fs_session st)" "pj_activeClients (fs_snapshot st) = 0"
  shows "running (fs_published st) (begin_counting E (publish_state JobRunning NoJobFailure st))"
  using assms
  by (auto simp: running_def serving_def owned_def begin_counting_def publish_state_def publish_snapshot_def running_snapshot_def
    maximumPortForwardingClientsPerRule_def)

section \<open>Properties\<close>

text \<open>The states at the start of each turn of a job's loop.\<close>

inductive job_running ::
  "'w ForwardEnv \<Rightarrow> 'w BootEnv \<Rightarrow> PortForwardingRule \<Rightarrow> SshConnectionRequest \<Rightarrow> 'w ForwardState
    \<Rightarrow> nat \<Rightarrow> ForwardListener \<Rightarrow> 'w ForwardState \<Rightarrow> bool"
  for E B rule request st where
  Begins: "establishAuthenticatedSshConnection B request \<lparr>bs_world = fs_world st, bs_log = []\<rparr> = Some (Inr (transport, session), b)
    \<Longrightarrow> open_listener E transport rule (st\<lparr>fs_session := session, fs_world := bs_world b\<rparr>) = Some (Inr listener, st1)
    \<Longrightarrow> job_running E B rule request st transport listener (begin_counting E (publish_state JobRunning NoJobFailure st1))"
| Goes_on: "job_running E B rule request st transport listener st1
    \<Longrightarrow> job_turn E transport rule listener st1 = Some (Inr st2) \<Longrightarrow> job_running E B rule request st transport listener st2"

lemma job_running_invariant:
  assumes "job_running E B rule request st transport listener st'" and "pj_activeClients (fs_snapshot st) = 0"
  shows "running (fs_published st) st'"
  using assms(1)
proof induction
  case (Begins transport session b listener st1)
  have "session_inv session" by (rule establish_inv [OF Begins(1)])
  with open_listener_inv [OF Begins(2)] begun_running [of st1 E] assms(2) show ?case by simp
next
  case (Goes_on transport listener st1 st2)
  then show ?case using job_turn_result [OF Goes_on(2)] by simp
qed

text \<open>
  C20. While a forwarding job runs, local, remote or dynamic, it never serves more than 32 clients, and every
  client that has a channel has it for itself: the ids are pairwise different and each is an open channel of the
  authenticated session, so the bytes of one client cannot get into the connection of another.
\<close>

theorem clients_have_own_channels:
  assumes "job_running E B rule request st transport listener st'" and "pj_activeClients (fs_snapshot st) = 0"
  shows "length (fs_clients st') \<le> 32
    \<and> (\<forall>m < length (fs_clients st'). \<forall>i. fc_channel (fs_clients st' ! m) = Some i \<longrightarrow>
         map_of (ls_forwardingChannels (fs_session st')) i \<noteq> None \<and> ls_authenticated (fs_session st')
       \<and> (\<forall>n < length (fs_clients st'). fc_channel (fs_clients st' ! n) = Some i \<longrightarrow> n = m))"
proof -
  have s: "serving st'" using job_running_invariant [OF assms] by (simp add: running_def)
  let ?cs = "fs_clients st'"
  have own: "owned ?cs (fs_session st')" and len: "length ?cs \<le> 32"
    using s by (simp_all add: serving_def maximumPortForwardingClientsPerRule_def)
  have mem: "i \<in> set (client_channels cs)" if "m < length cs" "fc_channel (cs ! m) = Some i" for cs m i
  proof -
    have "c \<in> set cs \<Longrightarrow> fc_channel c = Some i \<Longrightarrow> i \<in> set (client_channels cs)" for c by (induction cs) (auto split: option.split)
    from this [OF nth_mem [OF that(1)] that(2)] show ?thesis .
  qed
  have once: "n = m" if "distinct (client_channels cs)" "m < length cs" "n < length cs"
      "fc_channel (cs ! m) = Some i" "fc_channel (cs ! n) = Some i" for cs m n i
    using that
  proof (induction cs arbitrary: m n)
    case (Cons c cs)
    show ?case using Cons.prems Cons.IH [of "m - 1" "n - 1"] mem [of "m - 1" cs i] mem [of "n - 1" cs i]
      by (cases m; cases n) (auto split: option.splits)
  qed simp
  have "map_of (ls_forwardingChannels (fs_session st')) i \<noteq> None \<and> ls_authenticated (fs_session st')"
    if "m < length ?cs" "fc_channel (?cs ! m) = Some i" for m i
  proof -
    have f: "forwardingChannel i (fs_session st') \<noteq> None" using own mem [OF that] by (simp add: owned_def)
    then have "ls_forwardingChannels (fs_session st') \<noteq> []" by (auto simp: forwardingChannel_def)
    then have "opened (fs_session st')" by (simp add: opened_def resource_ids_def)
    then have "ls_authenticated (fs_session st')" using own by (simp add: owned_def session_inv_def trust_ok_def)
    then show ?thesis using f by (simp add: forwardingChannel_def)
  qed
  then show ?thesis using len once own by (auto simp: owned_def)
qed

text \<open>
  What a job that was started shows of itself until it ends: that it is starting, then, only if the
  connection and the listener are there, that it is running, with at most 32 clients, and at last that it has
  stopped, without a failure, or failed, with the reason.  The last snapshot counts no clients and is the one
  that \<open>snapshot\<close> returns from then on.
\<close>

theorem job_shows_its_course:
  assumes "forwarding_start B rule request False True st0 = (Inr (), st)" and "forwarding_run E B rule request st = Some st'"
  shows "\<exists>started ps final. fs_published st' = fs_published st0 @ [started] @ ps @ [final] \<and> fs_snapshot st' = final
    \<and> pj_state started = JobStarting \<and> pj_failure started = NoJobFailure \<and> pj_activeClients started = 0
    \<and> (\<forall>p \<in> set ps. pj_state p = JobRunning \<and> pj_failure p = NoJobFailure \<and> pj_activeClients p \<le> 32)
    \<and> pj_activeClients final = 0
    \<and> (pj_state final = JobStopped \<and> pj_failure final = NoJobFailure
       \<or> pj_state final = JobFailed \<and> pj_failure final \<in> {ConnectionFailed, ListenerFailed, RemoteListenerFailed, TransportFailed})
    \<and> (pj_failure final = ConnectionFailed \<longrightarrow> ps = [])"
proof -
  let ?started = "empty_snapshot\<lparr>pj_state := JobStarting\<rparr>"
  have st: "fs_published st = fs_published st0 @ [?started]" "fs_snapshot st = ?started"
    using assms(1) by (auto simp: forwarding_start_def publish_state_def publish_snapshot_def empty_snapshot_def Let_def split: if_splits)
  have idle: "pj_activeClients (fs_snapshot st) = 0" by (simp add: st(2) empty_snapshot_def)
  obtain r b where r: "establishAuthenticatedSshConnection B request \<lparr>bs_world = fs_world st, bs_log = []\<rparr> = Some (r, b)"
    using assms(2) by (auto simp: forwarding_run_def split: option.splits)
  have "(\<exists>final. fs_published st' = fs_published st @ [final] \<and> fs_snapshot st' = final \<and> pj_activeClients final = 0
        \<and> (pj_state final = JobStopped \<and> pj_failure final = NoJobFailure
          \<or> pj_state final = JobFailed \<and> pj_failure final = ConnectionFailed))
      \<or> ended (fs_published st) st'"
  proof (cases r)
    case (Inl e)
    then show ?thesis using assms(2) r
      by (cases "stop_requested (lc_lib (fe_channels E)) (bs_world b)")
        (auto simp: forwarding_run_def publish_state_def publish_snapshot_def Let_def)
  next
    case (Inr link)
    obtain transport session where link: "link = (transport, session)" by fastforce
    have inv: "session_inv session" using establish_inv r Inr link by fastforce
    obtain l st1 where l: "open_listener E transport rule (st\<lparr>fs_session := session, fs_world := bs_world b\<rparr>) = Some (l, st1)"
      using assms(2) r Inr link by (auto simp: forwarding_run_def split: option.splits)
    note o = open_listener_inv [OF l]
    show ?thesis
    proof (cases l)
      case (Inl failure)
      then have st': "st' = publish_state JobFailed failure st1" using assms(2) r Inr link l by (simp add: forwarding_run_def)
      have "ended (fs_published st) st'" unfolding st' using o inv Inl
        by (intro publish_final [where ps = "[]"]) (auto simp: final_snapshot_def)
      then show ?thesis ..
    next
      case listener: (Inr listener)
      then have "job_loop E transport rule listener (begin_counting E (publish_state JobRunning NoJobFailure st1)) = Some st'"
        using assms(2) r Inr link l by (simp add: forwarding_run_def)
      from job_loop_ended [OF this begun_running] o inv idle show ?thesis by simp
    qed
  qed
  then show ?thesis
  proof (elim disjE exE conjE)
    fix final
    assume "fs_published st' = fs_published st @ [final]" "fs_snapshot st' = final" "pj_activeClients final = 0"
      "pj_state final = JobStopped" "pj_failure final = NoJobFailure"
    then show ?thesis using st by (intro exI [of _ ?started] exI [of _ "[]"] exI [of _ final]) (simp add: empty_snapshot_def)
  next
    fix final
    assume "fs_published st' = fs_published st @ [final]" "fs_snapshot st' = final" "pj_activeClients final = 0"
      "pj_state final = JobFailed" "pj_failure final = ConnectionFailed"
    then show ?thesis using st by (intro exI [of _ ?started] exI [of _ "[]"] exI [of _ final]) (simp add: empty_snapshot_def)
  next
    assume "ended (fs_published st) st'"
    then obtain ps where ps: "fs_published st' = fs_published st @ ps @ [fs_snapshot st']" "list_all running_snapshot ps"
      "final_snapshot (fs_snapshot st')" by (auto simp: ended_def)
    then show ?thesis using st
      by (intro exI [of _ ?started] exI [of _ ps] exI [of _ "fs_snapshot st'"])
        (auto simp: empty_snapshot_def final_snapshot_def running_snapshot_def list_all_iff)
  qed
qed

section \<open>A small job\<close>

definition sample_rule :: PortForwardingRule where
  "sample_rule = \<lparr>fr_id = ''r'', fr_label = ''l'', fr_profileId = ''p'', fr_type = LocalForwarding,
     fr_bind = \<lparr>fp_host = ''localhost'', fp_port = 8080\<rparr>, fr_destination = \<lparr>fp_host = ''db'', fp_port = 80\<rparr>, fr_autoStart = False\<rparr>"

text \<open>A listener with one client at a time, no traffic, and a user who has asked to stop or not.\<close>

definition sample_job_env :: "bool \<Rightarrow> unit ForwardEnv" where
  "sample_job_env stopping = \<lparr>fe_channels = (sample_channels quiet_lib)\<lparr>lc_lib := quiet_lib\<lparr>stop_requested := (\<lambda>w. stopping)\<rparr>\<rparr>,
     fe_wait = tr_wait quiet_lib, fe_clock = (\<lambda>w. 0), sock_read = (\<lambda>k n w. (would_block, w)), sock_write = (\<lambda>k bs w. (would_block, w)),
     sock_shutdownWrite = (\<lambda>k w. (Inr (), w)), sock_close = (\<lambda>k w. w), tcp_listen = (\<lambda>h p n w. (Some 3, w)),
     tcp_accept = (\<lambda>l w. (Some None, w)), tcp_connect = (\<lambda>h p t w. (Inr 6, w))\<rparr>"

lemma sample_forwarding_valid: "validPortForwardingRule sample_rule"
  by code_simp

lemma sample_connects: "establishAuthenticatedSshConnection (sample_boot_env [7]) sample_ssh_request boot_start
    = Some (Inr (5, sample_connection), \<lparr>bs_world = (), bs_log = [EvPhase Connecting, EvPhase Handshaking, EvPhase VerifyingHostKey,
        EvHosts [sample_host], EvPhase Authenticating, EvCredentials 5 sample_endpoint]\<rparr>)"
  using sample_establish [of "[7]"] by (simp add: Let_def)

theorem job_shows_its_course_witness:
  "\<exists>started ps final. [empty_snapshot\<lparr>pj_state := JobStarting\<rparr>, empty_snapshot\<lparr>pj_state := JobRunning\<rparr>, empty_snapshot]
      = [started] @ ps @ [final] \<and> pj_state started = JobStarting \<and> (\<forall>p \<in> set ps. pj_state p = JobRunning) \<and> pj_state final = JobStopped"
proof -
  let ?E = "sample_job_env True" and ?B = "sample_boot_env [7]" and ?s0 = "tiny_state ()"
  let ?s1 = "publish_state JobStarting NoJobFailure (?s0\<lparr>fs_snapshot := empty_snapshot\<lparr>pj_state := JobStarting\<rparr>\<rparr>)"
  have start: "forwarding_start ?B sample_rule sample_ssh_request False True ?s0 = (Inr (), ?s1)"
    using sample_forwarding_valid sample_ssh_request_valid by (simp add: forwarding_start_def sample_boot_env_def)
  obtain s2 where run: "forwarding_run ?E ?B sample_rule sample_ssh_request ?s1 = Some s2"
    and pub: "fs_published s2 = [empty_snapshot\<lparr>pj_state := JobStarting\<rparr>, empty_snapshot\<lparr>pj_state := JobRunning\<rparr>, empty_snapshot]"
    by (simp add: forwarding_run_def sample_connects open_listener_def job_loop.simps stop_job_def begin_counting_def publish_state_def
      publish_snapshot_def sample_job_env_def sample_channels_def sample_rule_def tiny_state_def empty_snapshot_def)
  have "pj_failure (last (fs_published s2)) = NoJobFailure" using pub by (simp add: empty_snapshot_def)
  then show ?thesis using job_shows_its_course [OF start run] pub by (fastforce simp: tiny_state_def)
qed

theorem clients_have_own_channels_witness:
  "\<exists>st. job_running (sample_job_env False) (sample_boot_env [7]) sample_rule sample_ssh_request (tiny_state ()) 5 (LocalListener 3) st
    \<and> length (fs_clients st) \<le> 32"
proof -
  let ?E = "sample_job_env False"
  have "establishAuthenticatedSshConnection (sample_boot_env [7]) sample_ssh_request \<lparr>bs_world = fs_world (tiny_state ()), bs_log = []\<rparr>
      = Some (Inr (5, sample_connection), \<lparr>bs_world = (), bs_log = [EvPhase Connecting, EvPhase Handshaking, EvPhase VerifyingHostKey,
        EvHosts [sample_host], EvPhase Authenticating, EvCredentials 5 sample_endpoint]\<rparr>)"
    using sample_connects by (simp add: tiny_state_def)
  moreover have "open_listener ?E 5 sample_rule ((tiny_state ())\<lparr>fs_session := sample_connection, fs_world := ()\<rparr>)
      = Some (Inr (LocalListener 3), (tiny_state ())\<lparr>fs_session := sample_connection, fs_world := ()\<rparr>)"
    by (simp add: open_listener_def sample_job_env_def sample_rule_def)
  ultimately have "job_running ?E (sample_boot_env [7]) sample_rule sample_ssh_request (tiny_state ()) 5 (LocalListener 3)
      (begin_counting ?E (publish_state JobRunning NoJobFailure ((tiny_state ())\<lparr>fs_session := sample_connection, fs_world := ()\<rparr>)))"
    using job_running.Begins by fastforce
  moreover from clients_have_own_channels [OF this] have "length (fs_clients (begin_counting ?E (publish_state JobRunning NoJobFailure
      ((tiny_state ())\<lparr>fs_session := sample_connection, fs_world := ()\<rparr>)))) \<le> 32"
    by (simp add: tiny_state_def empty_snapshot_def)
  ultimately show ?thesis by blast
qed

end
