(* ===== verification/Spec2Isabelle.thy ===== *)
theory Spec2Isabelle
  imports Workspace_Transfer Dispatch_Safety Transfer_Coordinator Ssh_State Socks5 Tool_Ledger Agent_Guard Stream_Parsers Session_Truth
    Known_Hosts_Page Tunnel_Peer Ssh_Session_Props Transfer_Delivery Forwarding_Job
begin

text \<open>
  A development for ZTermy, a terminal with SSH, SFTP, port forwarding, a workbench of panes and an AI
  agent.  It covers the program's own logic under \<open>src/src/domain\<close>, \<open>application\<close> and the SSH part of \<open>infrastructure\<close>;
  the rest of the program is Qt, Win32, libssh2 and the Ghostty terminal around it.

  \<^bold>\<open>The parts and their theories.\<close>

  \<^item> \<open>Prelude\<close>: words and bytes, searching and erasing the first match of a vector, components as step
    functions (\<open>op_machine\<close>, \<open>atomic_machine\<close>), decoders fed in chunks (\<open>incremental\<close>).
  \<^item> Making an SSH connection: \<open>Ssh_State\<close> (\<open>SshConnectionState\<close>, the phases), \<open>Host_Keys\<close> (\<open>SshHostKey\<close>, trust and
    fingerprints), \<open>Known_Hosts\<close> (\<open>KnownHostsStore\<close>) and \<open>Known_Hosts_Page\<close> (\<open>OpenSshKnownHostsImporter\<close>,
    \<open>KnownHostsController\<close>), \<open>Ssh_Profile\<close> (\<open>SshProfile\<close>, \<open>SshConnectionRequest\<close>), \<open>Ssh_Errors\<close>
    (\<open>Libssh2ErrorMapping\<close>), \<open>Proxy_Tunnel\<close> (\<open>ExplicitProxyTunnel\<close>) and \<open>Tunnel_Peer\<close>, the tunnel against the
    program's own SOCKS5 server, \<open>Ssh_Bootstrap\<close> (\<open>SshConnectionBootstrap\<close>, hop by hop over the session, the tunnel
    and the store) and \<open>Ssh_Boot_Safety\<close>, what it can be relied on for.
  \<^item> The SSH session, \<open>infrastructure/ssh/Libssh2Session\<close>: \<open>Ssh_Session\<close> (handshake, key, authentication, the direct
    channel), \<open>Ssh_Channels\<close> (forwarding, terminal, keepalive, auxiliary command), \<open>Ssh_Sftp\<close>; \<open>Ssh_Session_Inv\<close> and
    \<open>Ssh_Session_Safety\<close> (an invariant and its preservation by every operation), \<open>Ssh_Session_Io\<close> and
    \<open>Ssh_Session_Props\<close> (bytes, listings and returning).
  \<^item> Files over SSH: \<open>Sftp_Client\<close> (\<open>SftpClient\<close>), \<open>Transfer_Executor\<close> (\<open>TransferExecutor\<close>), \<open>Transfer_Files\<close> and
    \<open>Transfer_Upload\<close> (downloads and uploads over the contract \<open>sftp_files\<close> of a client), \<open>Sftp_Server\<close> (a server below
    libssh2, on which the client keeps that contract) and \<open>Transfer_Delivery\<close>.
  \<^item> \<open>Remote_Path\<close>: the path functions of \<open>domain/sftp/SftpTypes\<close>.  \<open>Transfer_Queue\<close>: \<open>TransferQueue\<close>, the
    life of a transfer task under a limit of workers.
  \<^item> Transfers, from a directory to the queue: \<open>Transfer_Batch\<close> and \<open>Transfer_Planner\<close> (\<open>domain/sftp\<close>),
    \<open>Transfer_Materializer\<close>, \<open>Transfer_Manager\<close> and \<open>Transfer_Coordinator\<close> (\<open>application/sftp\<close>): the plan of a tree,
    its tasks, the owner of the queue with its workers as environment, and the owner of the batches on top of it.
    The locale \<open>manager_frame\<close> carries a property of the manager through its operations; it is interpreted with
    the reachable states of the queue, with the workers of the occupied slots, and with a lost slot.
  \<^item> Port forwarding: \<open>Socks5\<close> (\<open>domain/forwarding/Socks5Protocol\<close> and the byte queue of the job),
    \<open>Port_Forwarding\<close> (\<open>PortForwardingRule\<close>, \<open>PortForwardingJob\<close>), \<open>Forwarding_Relay\<close> (the bytes of one client) and
    \<open>Forwarding_Job\<close> (all clients, and what the job publishes).
  \<^item> \<open>Stream_Parsers\<close>: \<open>ServerSentEventParser\<close> and \<open>NdjsonParser\<close> of \<open>domain/ai\<close>.
  \<^item> The semantic terminal, from the bytes of the shell to the blocks of commands:
    \<open>Shell_Decoder\<close> (\<open>ShellIntegrationDecoder\<close>), \<open>Command_Blocks\<close> and \<open>Block_Content\<close> (\<open>CommandBlockStore\<close>),
    \<open>Block_Assembler\<close> (\<open>CommandBlockAssembler\<close>), \<open>Semantic_Observer\<close> (\<open>SemanticTerminalObserver\<close>) and
    \<open>Session_Truth\<close>, their composition.  The assembler is proved against the contract of a store
    (the locale \<open>block_store\<close>) and interpreted with the modelled one.
  \<^item> The AI agent: \<open>Permission_Policy\<close>, \<open>Permission_Rules\<close> and \<open>Command_Risk\<close> (\<open>AiPermissionPolicy\<close>),
    \<open>Tool_Ledger\<close> (\<open>AiToolDispatchLedger\<close>), \<open>Agent_Guard\<close> (\<open>AiAgentGuard\<close>), \<open>Action_Dispatch\<close> and \<open>Dispatch_Safety\<close>
    (\<open>application/ai/AiActionToolDispatcher\<close>), which composes the four.
  \<^item> The workbench: \<open>Workspace_Layout\<close> and \<open>Pane_Operations\<close> (the pane trees of \<open>WorkspaceState\<close>),
    \<open>Workspace_Transfer\<close> (the rest of \<open>WorkspaceState\<close> and \<open>TerminalWorkspaceTransfer\<close>).

  \<^bold>\<open>How the code is represented.\<close>  A class or struct is a record with one field per member, an enum a
  datatype, a method a function from the state to the new state and its result; \<open>std::expected\<close> is a
  sum with the error on the left, \<open>std::optional\<close> an option.  Methods that hold a mutex for their
  whole body are atomic steps, so any number of threads is a sequence of steps.  Counters and
  offsets that the code keeps in 64 or 32 bits are words where they can wrap; container sizes
  are \<open>nat\<close>.  A \<open>std::string\<close> is a list of bytes, written as characters.  Times are integers in the
  unit of the clock, and the clock is an argument.

  \<^bold>\<open>What the lemmas show.\<close>  For every component: an invariant of all its reachable states, what each
  operation does on its branches, and the limits it keeps.  For parsers and decoders: that the result does
  not depend on how the input is cut into reads, and round trips with a printer.  For stores
  and layouts: a reference structure (a FIFO, the bytes of a stream, a binary tree, a finite map, a multiset of
  panes) that the detailed operations implement.  For the compositions: that no credential is used at a host
  whose key nothing vouches for, that a transfer leaves either the old file or the whole new one, that the bytes
  of a forwarded client arrive in order and in no other connection; that the output shown for a
  command is the output of the terminal between its marks, that an action of the agent
  passes the ledger, the rules, the budget and the ownership of the session; that a plan is the walk of the
  source tree below its root, and that the batches show the queue as it is.

  \<^bold>\<open>Loops.\<close>  Loops over a container are structural recursion or \<open>function\<close> with a measure, and so are the loops
  that empty or fill a byte queue.  The loops whose end depends on the data (the descent of \<open>closeTerminalPane\<close>,
  the order of the panes, the loop of \<open>globMatches\<close>) are \<open>partial_function (option)\<close>, and they are proved to return.
  The loops around libssh2 end when the transport lets them wait only so often (\<open>terminal_operations_return\<close>);
  that of the forwarding job ends when it is told to stop or fails, and what is shown of it holds in every turn.
  The handshake loop alone takes fuel in \<open>Socks5\<close>, and two rounds are proved to be enough.

  \<^bold>\<open>Parameters.\<close>  libssh2, the sockets and listeners of Windows, the files, the JSON, base64 and SHA-256 of Qt,
  \<open>std::regex\<close>, stop tokens and clocks are arguments of the definitions that use them.  Where a property relies on
  them it names what it assumes: that a channel takes a part of what it is given from its beginning (\<open>sinks\<close>,
  \<open>carries_bytes\<close>), that a directory lists its entries once (\<open>lists\<close>), that a transport is a stream of bytes (\<open>byte_stream\<close>), what
  opening, reading, renaming and removing files do (\<open>sftp_files\<close>, \<open>local_files\<close>, \<open>local_source\<close>), that a codec reads what it wrote
  (\<open>faithful_codec\<close>).

  \<^bold>\<open>Not modelled.\<close>  User interface, platform layer, sockets, processes, threads, the other JSON
  stores, the terminal engine and the cryptography: calls of Qt, Win32, libsodium and Ghostty,
  which are not part of the repository.  The texts shown to the user are left out, and running out of memory.  Within the
  modelled parts: the English reason of a risk report, the check of the JSON arguments of an action, and of
  \<open>SshTerminalSession\<close> everything but the phases of its connection.
\<close>

end
